(* ===== verification/Prelude.thy ===== *)
theory Prelude
  imports Main "HOL-Library.Word"
begin

text \<open>
  Shared vocabulary of the development.

  \<^item> The machine integers of the code (\<^verbatim>\<open>uint8_t\<close>, \<^verbatim>\<open>uint16_t\<close>, \<^verbatim>\<open>uint32_t\<close>,
    \<^verbatim>\<open>uint64_t\<close>) are words of the same width, so that \<open>+\<close>, \<open>-\<close> and the shifts wrap exactly
    as they do in C++.
  \<^item> A byte sequence (\<^verbatim>\<open>buffer_t\<close>, \<^verbatim>\<open>char_buffer_t\<close>, \<^verbatim>\<open>std::string\<close>, \<^verbatim>\<open>StringPiece\<close>) is a list of
    bytes; \<open>bytes ''abc''\<close> is the byte sequence of a character literal of the source.
  \<^item> \<open>fault\<close> names the ways in which a call does not return a value: \<open>Terminated\<close> when the
    process is ended by \<^verbatim>\<open>NOTREACHED()\<close> or a failed \<^verbatim>\<open>CHECK\<close> (both log at level CRIT, and the
    logger then calls \<^verbatim>\<open>immediate_exit\<close> or \<^verbatim>\<open>immediate_assert\<close>), \<open>Undefined\<close> when the C++ standard gives the
    operation no meaning. \<^verbatim>\<open>DCHECK\<close> is compiled out of release builds, which are the builds modelled;
    the conditions it checks are proved as lemmas instead.
  \<^item> \<open>word_splits\<close> collects the bit-level equations that the codecs share.
\<close>

unbundle bit_operations_syntax

type_synonym u8 = "8 word"
type_synonym u16 = "16 word"
type_synonym u32 = "32 word"
type_synonym u64 = "64 word"
type_synonym buffer = "u8 list"

datatype fault = Terminated | Undefined

type_synonym 'a exec = "fault + 'a"

definition bytes :: "string \<Rightarrow> buffer" where
  "bytes s = map of_char s"

text \<open>Sequencing of calls that may not return: the first fault ends the computation.\<close>

definition bind_exec :: "'a exec \<Rightarrow> ('a \<Rightarrow> 'b exec) \<Rightarrow> 'b exec" where
  "bind_exec m f = (case m of Inl e \<Rightarrow> Inl e | Inr x \<Rightarrow> f x)"

lemma bind_exec_simps [simp]:
  "bind_exec (Inl e) f = Inl e"
  "bind_exec (Inr x) f = f x"
  by (simp_all add: bind_exec_def)

lemma bind_exec_Inr_iff: "bind_exec m f = Inr y \<longleftrightarrow> (\<exists>x. m = Inr x \<and> f x = Inr y)"
  by (cases m) simp_all

lemma bind_exec_cong [fundef_cong]:
  "m = m' \<Longrightarrow> (\<And>x. m' = Inr x \<Longrightarrow> f x = g x) \<Longrightarrow> bind_exec m f = bind_exec m' g"
  by (cases m') simp_all

text \<open>A loop that has no side effect and does not end has no defined meaning in C++: \<open>returned\<close> reads the outcome
  of a \<^theory_text>\<open>partial_function\<close> that way.\<close>

definition returned :: "'a exec option \<Rightarrow> 'a exec" where
  "returned m = (case m of None \<Rightarrow> Inl Undefined | Some r \<Rightarrow> r)"

lemma returned_simps [simp]:
  "returned None = Inl Undefined"
  "returned (Some r) = r"
  by (simp_all add: returned_def)

named_theorems word_splits \<open>bit-level equations shared by the codecs\<close>

lemma bytes_simps [simp]:
  "bytes [] = []"
  "bytes (c # s) = of_char c # bytes s"
  by (simp_all add: bytes_def)

lemma length_bytes [simp]: "length (bytes s) = length s"
  by (simp add: bytes_def)

subsection \<open>Words\<close>

lemma unat_bound: "unat (v :: 'a::len word) < 2 ^ LENGTH('a)"
  by (rule unsigned_less)

lemma unat_2p: "n < LENGTH('a) \<Longrightarrow> unat (2 ^ n :: 'a::len word) = 2 ^ n"
  using unat_of_nat [where 'a = 'a, of "2 ^ n"] by (simp add: take_bit_nat_eq_self)

lemma bit_beyond_bound:
  fixes v :: "'a::len word"
  assumes "unat v < 2 ^ n" and "n \<le> m"
  shows "\<not> bit v m"
proof -
  have "take_bit n v = v"
    by (rule word_unat_eq_iff [THEN iffD2])
      (simp add: unsigned_take_bit_eq take_bit_nat_eq_self assms)
  then show ?thesis using assms(2) by (metis bit_take_bit_iff leD)
qed

lemma and_127_eq: "a AND 127 = take_bit 7 (a :: 'a::semiring_bit_operations)"
  by (simp add: take_bit_eq_mask mask_numeral)

lemma bit_128 [word_splits]:
  "bit (128 :: 'a::semiring_bit_operations) n \<longleftrightarrow> possible_bit TYPE('a) n \<and> n = 7"
proof -
  have "(128 :: 'a) = 2 ^ 7" by simp
  then show ?thesis by (auto simp only: bit_exp_iff)
qed

text \<open>Reassembling a word from groups of bits, least significant group first.\<close>

lemma take_bit_group [word_splits]:
  fixes v :: "'a::len word"
  shows "take_bit k v OR push_bit k (take_bit m (drop_bit k v)) = take_bit (m + k) v"
  by (rule bit_word_eqI) (auto simp: bit_simps)

lemma take_bit_last [word_splits]:
  fixes v :: "'a::len word"
  shows "take_bit k v OR push_bit k (drop_bit k v) = v"
proof (rule bit_word_eqI)
  show "bit (take_bit k v OR push_bit k (drop_bit k v)) n = bit v n" if "n < LENGTH('a)" for n
    using that by (cases "n < k") (auto simp: bit_simps)
qed

lemma unat_drop_bit: "unat (drop_bit k v) = unat v div 2 ^ k"
  by (rule trans [OF unat_drop_bit_eq drop_bit_eq_div])

lemma unat_take_bit: "unat (take_bit k v) = unat v mod 2 ^ k"
  by (rule trans [OF unsigned_take_bit_eq take_bit_eq_mod])

lemma unat_push_bit:
  fixes v :: "'a::len word"
  assumes "unat v * 2 ^ k < 2 ^ LENGTH('a)"
  shows "unat (push_bit k v) = unat v * 2 ^ k"
proof -
  have "unat (push_bit k v) = take_bit LENGTH('a) (push_bit k (unat v))"
    by (rule unsigned_push_bit_eq)
  then show ?thesis using assms by (simp add: push_bit_eq_mult take_bit_nat_eq_self)
qed

lemma unat_ucast_up:
  fixes v :: "'a::len word"
  assumes "LENGTH('a) \<le> LENGTH('b::len)"
  shows "unat (ucast v :: 'b word) = unat v"
proof -
  have "unat v < 2 ^ LENGTH('b)"
    by (rule less_le_trans [OF unat_bound power_increasing [OF assms]]) simp
  then show ?thesis by (simp add: unsigned_ucast_eq take_bit_nat_eq_self)
qed

lemma byte_bit_7: "bit (b :: u8) 7 \<longleftrightarrow> 128 \<le> unat b"
proof -
  have "unat b < 256" using unat_bound [of b] by simp
  then have "odd (unat b div 128) \<longleftrightarrow> 128 \<le> unat b"
    by (cases "128 \<le> unat b") (auto simp: div_nat_eqI [of 128 1])
  then have "bit (unat b) 7 \<longleftrightarrow> 128 \<le> unat b" by (simp add: bit_iff_odd)
  then show ?thesis by (simp add: bit_unsigned_iff)
qed

lemma drop_bit_less:
  fixes v :: "'a::len word"
  assumes "unat v < 2 ^ (k + m)"
  shows "unat (drop_bit k v) < 2 ^ m"
  using assms by (simp add: unat_drop_bit less_mult_imp_div_less power_add mult.commute)

subsection \<open>Bit lists\<close>

text \<open>The low \<open>n\<close> bits of a word, most significant first: the order in which they are sent.\<close>

fun bits_of :: "nat \<Rightarrow> 'a::len word \<Rightarrow> bool list" where
  "bits_of 0 w = []"
| "bits_of (Suc n) w = bit w n # bits_of n w"

lemma bits_of_numeral:
  "bits_of (numeral k) w = bit w (pred_numeral k) # bits_of (pred_numeral k) w"
  by (simp add: numeral_eq_Suc)

lemma replicate_numeral: "replicate (numeral k) x = x # replicate (pred_numeral k) x"
  by (simp add: numeral_eq_Suc)

lemma length_bits_of [simp]: "length (bits_of n w) = n"
  by (induction n) simp_all

lemma nth_bits_of: "i < n \<Longrightarrow> bits_of n w ! i = bit w (n - Suc i)"
  by (induction n arbitrary: i) (auto simp: nth_Cons split: nat.split)

lemma bits_of_eqI: "(\<And>i. i < n \<Longrightarrow> bit v i = bit w i) \<Longrightarrow> bits_of n v = bits_of n w"
  by (induction n) simp_all

lemma bits_of_eqD: "bits_of n v = bits_of n w \<Longrightarrow> i < n \<Longrightarrow> bit v i = bit w i"
  by (induction n) (auto simp: less_Suc_eq)

lemma bits_of_inj: "bits_of LENGTH('a) v = bits_of LENGTH('a) w \<Longrightarrow> v = (w :: 'a::len word)"
  by (rule bit_word_eqI) (rule bits_of_eqD)

lemma bits_of_add: "bits_of (m + n) w = bits_of m (drop_bit n w) @ bits_of n w"
  by (induction m) (simp_all add: bit_drop_bit_eq add.commute)

lemma bits_of_push_bit:
  fixes w :: "'a::len word"
  shows "n + s \<le> LENGTH('a) \<Longrightarrow> bits_of (n + s) (push_bit s w) = bits_of n w @ replicate s False"
proof (induction n)
  case 0
  have "bits_of k (push_bit s w) = replicate k False" if "k \<le> s" for k
    using that by (induction k) (simp_all add: bit_push_bit_iff)
  then show ?case by simp
next
  case (Suc n)
  then show ?case by (simp add: bit_push_bit_iff)
qed

lemma bits_of_small:
  fixes w :: "'a::len word"
  assumes "unat w < 2 ^ n"
  shows "bits_of (k + n) w = replicate k False @ bits_of n w"
  by (induction k) (simp_all add: bit_beyond_bound [OF assms])

lemma bits_of_ucast:
  fixes w :: "'a::len word"
  shows "n \<le> LENGTH('b::len) \<Longrightarrow> n \<le> LENGTH('a) \<Longrightarrow> bits_of n (ucast w :: 'b word) = bits_of n w"
  by (intro bits_of_eqI) (auto simp: bit_simps)

lemma bits_of_or: "bits_of n (v OR w) = map2 (\<or>) (bits_of n v) (bits_of n w)"
  by (induction n) (simp_all add: bit_or_iff)

lemma map2_or_append:
  "length x = k \<Longrightarrow> length y = r \<Longrightarrow>
   map2 (\<or>) (x @ replicate r False) (replicate k False @ y) = x @ y"
proof -
  assume "length x = k" and "length y = r"
  moreover have "map2 (\<or>) xs (replicate (length xs) False) = xs" for xs :: "bool list"
    by (induction xs) simp_all
  moreover have "map2 (\<or>) (replicate (length ys) False) ys = ys" for ys :: "bool list"
    by (induction ys) simp_all
  ultimately show ?thesis by (auto simp: zip_append)
qed

text \<open>A byte sequence as the sequence of its bits.\<close>

definition bytes_bits :: "buffer \<Rightarrow> bool list" where
  "bytes_bits bs = concat (map (bits_of 8) bs)"

lemma bytes_bits_simps [simp]:
  "bytes_bits [] = []"
  "bytes_bits (b # bs) = bits_of 8 b @ bytes_bits bs"
  "bytes_bits (bs @ cs) = bytes_bits bs @ bytes_bits cs"
  by (simp_all add: bytes_bits_def)

lemma length_bytes_bits [simp]: "length (bytes_bits bs) = 8 * length bs"
  by (induction bs) simp_all

lemma bytes_bits_prefix:
  "bytes_bits cs = bytes_bits bs @ zs \<Longrightarrow> \<exists>ds. cs = bs @ ds \<and> bytes_bits ds = zs"
proof (induction bs arbitrary: cs)
  case Nil
  then show ?case by simp
next
  case (Cons b bs)
  then obtain c cs' where cs: "cs = c # cs'"
    by (cases cs) (auto dest: arg_cong [where f = length])
  with Cons.prems have "bits_of 8 c = bits_of 8 b" and "bytes_bits cs' = bytes_bits bs @ zs"
    by (auto simp: append_eq_append_conv)
  moreover from this(1) have "c = b" using bits_of_inj [of c b] by simp
  ultimately show ?case using Cons.IH cs by auto
qed

end
