(* ===== verification/Codec.thy ===== *)
theory Codec
  imports Prelude
begin

text \<open>
  The contract shared by the encodings of the library that are read back from a stream: whatever follows an
  encoded item, the reader returns the item and exactly the bytes that follow. The locale is interpreted where the
  encoder and the reader are defined (sizes of compressed data, HPACK integers, header strings, frames), and gives
  each of them unique readability and the decoding of sequences.
\<close>

text \<open>Reading \<open>n\<close> items in a row.\<close>

fun read_items :: "(buffer \<Rightarrow> ('a \<times> buffer) option) \<Rightarrow> nat \<Rightarrow> buffer \<Rightarrow> ('a list \<times> buffer) option" where
  "read_items dec 0 bs = Some ([], bs)"
| "read_items dec (Suc n) bs =
     (case dec bs of
        None \<Rightarrow> None
      | Some (x, bs) \<Rightarrow> (case read_items dec n bs of None \<Rightarrow> None | Some (xs, bs) \<Rightarrow> Some (x # xs, bs)))"

locale codec =
  fixes valid :: "'a \<Rightarrow> bool" and enc :: "'a \<Rightarrow> buffer" and dec :: "buffer \<Rightarrow> ('a \<times> buffer) option"
  assumes dec_enc: "valid x \<Longrightarrow> dec (enc x @ rest) = Some (x, rest)"
begin

lemma enc_unique:
  assumes "valid x" "valid y" "enc x @ r = enc y @ s"
  shows "x = y" "r = s"
proof -
  from assms have "Some (x, r) = Some (y, s)" by (metis dec_enc)
  then show "x = y" "r = s" by simp_all
qed

text \<open>No encoding is a proper prefix of another.\<close>

lemma prefix_free: "valid x \<Longrightarrow> valid y \<Longrightarrow> enc y = enc x @ r \<Longrightarrow> x = y \<and> r = []"
  using enc_unique [of y x "[]" r] by auto

lemma read_items_concat:
  "list_all valid xs \<Longrightarrow> read_items dec (length xs) (concat (map enc xs) @ rest) = Some (xs, rest)"
  by (induction xs) (simp_all add: dec_enc)

end

text \<open>When no item is encoded by the empty string, a stream of items can be read until it is empty.\<close>

locale stream_codec = codec +
  assumes enc_nonempty: "valid x \<Longrightarrow> enc x \<noteq> []"
begin

lemma concat_unique:
  "list_all valid xs \<Longrightarrow> list_all valid ys \<Longrightarrow> concat (map enc xs) = concat (map enc ys) \<Longrightarrow> xs = ys"
proof (induction xs arbitrary: ys)
  case Nil
  then show ?case by (cases ys) (auto simp: enc_nonempty)
next
  case (Cons x xs)
  then obtain y ys' where ys: "ys = y # ys'" by (cases ys) (auto simp: enc_nonempty)
  with Cons.prems enc_unique [of x y "concat (map enc xs)" "concat (map enc ys')"] Cons.IH [of ys'] show ?case by simp
qed

end

end
