(* ===== verification/Coding.thy ===== *)
theory Coding
  imports Codec
begin

text \<open>
  The length prefix of the compressors, \<^verbatim>\<open>src/src/compress/coding.cpp\<close>: a \<^verbatim>\<open>uint32_t\<close> is written as one to
  five bytes of seven bits each, least significant first, the top bit of a byte saying that more follow.
  The pointers \<^verbatim>\<open>p\<close> and \<^verbatim>\<open>limit\<close> delimit the bytes not yet read, here a list; the returned pointer is
  the list that is left, \<^verbatim>\<open>nullptr\<close> is \<open>None\<close>. The writer fills a buffer, here the list it returns.
\<close>

definition EncodeVarint32 :: "u32 \<Rightarrow> buffer" where
  "EncodeVarint32 v =
     (if v < 2 ^ 7 then [ucast v]
      else if v < 2 ^ 14 then [ucast (v OR 128), ucast (drop_bit 7 v)]
      else if v < 2 ^ 21 then [ucast (v OR 128), ucast (drop_bit 7 v OR 128), ucast (drop_bit 14 v)]
      else if v < 2 ^ 28 then
        [ucast (v OR 128), ucast (drop_bit 7 v OR 128), ucast (drop_bit 14 v OR 128),
         ucast (drop_bit 21 v)]
      else
        [ucast (v OR 128), ucast (drop_bit 7 v OR 128), ucast (drop_bit 14 v OR 128),
         ucast (drop_bit 21 v OR 128), ucast (drop_bit 28 v)])"

fun GetVarint32PtrFallback :: "buffer \<Rightarrow> nat \<Rightarrow> u32 \<Rightarrow> (u32 \<times> buffer) option" where
  "GetVarint32PtrFallback [] shift result = None"
| "GetVarint32PtrFallback (b # p) shift result =
     (if shift \<le> 28 then
        (let byte = ucast b :: u32 in
         if byte AND 128 \<noteq> 0
         then GetVarint32PtrFallback p (shift + 7) (result OR push_bit shift (byte AND 127))
         else Some (result OR push_bit shift byte, p))
      else None)"

definition GetVarint32Ptr :: "buffer \<Rightarrow> (u32 \<times> buffer) option" where
  "GetVarint32Ptr p =
     (case p of
        [] \<Rightarrow> GetVarint32PtrFallback p 0 0
      | b # p' \<Rightarrow>
          (let result = ucast b :: u32 in
           if result AND 128 = 0 then Some (result, p')
           else GetVarint32PtrFallback p 0 0))"

definition PutDecompressedSizeInfo :: "buffer \<Rightarrow> u32 \<Rightarrow> buffer \<times> nat" where
  "PutDecompressedSizeInfo output len =
     (let output' = output @ EncodeVarint32 len in (output', length output'))"

definition GetDecompressedSizeInfo :: "buffer \<Rightarrow> (u32 \<times> buffer) option" where
  "GetDecompressedSizeInfo input_data =
     (case GetVarint32Ptr input_data of None \<Rightarrow> None | Some r \<Rightarrow> Some r)"

subsection \<open>The reader\<close>

lemma ucast_and_128_eq_0:
  "ucast (b :: u8) AND (128 :: u32) = 0 \<longleftrightarrow> \<not> bit b 7"
  using and_exp_eq_0_iff_not_bit [of "ucast b :: u32" 7] by (simp add: bit_simps)

lemma GetVarint32PtrFallback_Cons:
  "GetVarint32PtrFallback (b # p) shift result =
     (if shift \<le> 28 then
        (if bit b 7 then GetVarint32PtrFallback p (shift + 7) (result OR push_bit shift (take_bit 7 (ucast b)))
         else Some (result OR push_bit shift (ucast b), p))
      else None)"
  by (simp add: ucast_and_128_eq_0 and_127_eq)

declare GetVarint32PtrFallback.simps(2) [simp del]

lemma GetVarint32Ptr_eq_Fallback: "GetVarint32Ptr p = GetVarint32PtrFallback p 0 0"
  by (cases p) (simp_all add: GetVarint32Ptr_def GetVarint32PtrFallback_Cons ucast_and_128_eq_0 and_127_eq)

lemma GetVarint32PtrFallback_consumes:
  "GetVarint32PtrFallback p shift result = Some (v, rest) \<Longrightarrow>
     \<exists>pre. p = pre @ rest \<and> pre \<noteq> [] \<and> 7 * length pre + shift \<le> 35"
proof (induction p shift result rule: GetVarint32PtrFallback.induct)
  case (1 shift result)
  then show ?case by simp
next
  case (2 b p shift result)
  show ?case
  proof (cases "bit b 7")
    case True
    with "2.prems" have "shift \<le> 28"
      and "GetVarint32PtrFallback p (shift + 7) (result OR push_bit shift (take_bit 7 (ucast b))) = Some (v, rest)"
      by (auto simp: GetVarint32PtrFallback_Cons split: if_splits)
    with True obtain pre where "p = pre @ rest \<and> pre \<noteq> [] \<and> 7 * length pre + (shift + 7) \<le> 35"
      using "2.IH" by (auto simp: ucast_and_128_eq_0 and_127_eq)
    then have "b # p = (b # pre) @ rest \<and> b # pre \<noteq> [] \<and> 7 * length (b # pre) + shift \<le> 35" by simp
    then show ?thesis by blast
  next
    case False
    with "2.prems" have "b # p = [b] @ rest" and "shift \<le> 28"
      by (auto simp: GetVarint32PtrFallback_Cons split: if_splits)
    then have "b # p = [b] @ rest \<and> [b] \<noteq> [] \<and> 7 * length [b] + shift \<le> 35" by simp
    then show ?thesis by blast
  qed
qed

lemma GetVarint32PtrFallback_None:
  "shift = 7 * k \<Longrightarrow> k \<le> 5 \<Longrightarrow>
     GetVarint32PtrFallback p shift result = None \<longleftrightarrow> (\<forall>b \<in> set (take (5 - k) p). bit b 7)"
proof (induction p shift result arbitrary: k rule: GetVarint32PtrFallback.induct)
  case (1 shift result)
  then show ?case by simp
next
  case (2 b p shift result)
  show ?case
  proof (cases "k < 5")
    case True
    then have "5 - k = Suc (5 - Suc k)" by simp
    with True "2.prems" "2.IH" [of "ucast b" "Suc k"] show ?thesis
      by (auto simp: GetVarint32PtrFallback_Cons ucast_and_128_eq_0 and_127_eq)
  next
    case False
    with "2.prems" show ?thesis by (simp add: GetVarint32PtrFallback_Cons)
  qed
qed

subsection \<open>Round trip\<close>

lemma continued_byte:
  fixes x :: u32
  shows "take_bit 7 (ucast (ucast (x OR 128) :: u8)) = take_bit 7 x"
    and "bit (ucast (x OR 128) :: u8) 7"
  by (rule bit_word_eqI) (auto simp: bit_simps word_splits)

lemma final_byte:
  fixes x :: u32
  assumes "unat x < 2 ^ 7"
  shows "ucast (ucast x :: u8) = x" and "\<not> bit (ucast x :: u8) 7"
proof -
  have "n < 7" if "bit x n" for n
    using bit_beyond_bound [OF assms, of n] that by (cases "n < 7") auto
  then have "n < 7" if "bit x n" for n using that by simp
  then show "ucast (ucast x :: u8) = x" and "\<not> bit (ucast x :: u8) 7"
    by (fastforce intro!: bit_word_eqI simp: bit_simps)+
qed

lemma EncodeVarint32_decode:
  "GetVarint32PtrFallback (EncodeVarint32 v @ rest) 0 0 = Some (v, rest)"
proof -
  have group: "take_bit 7 v OR push_bit 7 (take_bit 7 (drop_bit 7 v)) = take_bit 14 v"
    "take_bit 14 v OR push_bit 14 (take_bit 7 (drop_bit 14 v)) = take_bit 21 v"
    "take_bit 21 v OR push_bit 21 (take_bit 7 (drop_bit 21 v)) = take_bit 28 v"
    using take_bit_group [of 7 v 7] take_bit_group [of 14 v 7] take_bit_group [of 21 v 7] by simp_all
  have last: "unat (drop_bit k v) < 2 ^ 7" if "v < 2 ^ (k + 7)" "k \<le> 21" for k
    using that by (intro drop_bit_less) (simp add: word_less_nat_alt unat_2p)
  have last28: "unat (drop_bit 28 v) < 2 ^ 7"
    using drop_bit_less [of v 28 7] unat_bound [of v] by simp
  show ?thesis
    using last [of 0] last [of 7] last [of 14] last [of 21] last28
    by (simp add: EncodeVarint32_def GetVarint32PtrFallback_Cons continued_byte final_byte
        group take_bit_last)
qed

lemma GetDecompressedSizeInfo_EncodeVarint32: "GetDecompressedSizeInfo (EncodeVarint32 v @ rest) = Some (v, rest)"
  by (simp add: GetDecompressedSizeInfo_def GetVarint32Ptr_eq_Fallback EncodeVarint32_decode)

interpretation size_info: stream_codec "\<lambda>v. True" EncodeVarint32 GetDecompressedSizeInfo
  by unfold_locales (simp add: GetDecompressedSizeInfo_EncodeVarint32, simp add: EncodeVarint32_def)

subsection \<open>Properties\<close>

text \<open>C1. Whatever was already in the output, what \<^verbatim>\<open>PutDecompressedSizeInfo\<close> appends is between one
  and five bytes long, and \<^verbatim>\<open>GetDecompressedSizeInfo\<close> reads exactly the written value back from it and
  leaves exactly the bytes that follow it, for every 32-bit value and every continuation.\<close>

theorem PutDecompressedSizeInfo_round_trip:
  "\<exists>enc. fst (PutDecompressedSizeInfo output v) = output @ enc
     \<and> snd (PutDecompressedSizeInfo output v) = length output + length enc
     \<and> length enc \<in> {1..5}
     \<and> GetDecompressedSizeInfo (enc @ rest) = Some (v, rest)"
proof (intro exI conjI)
  show "length (EncodeVarint32 v) \<in> {1..5}" by (simp add: EncodeVarint32_def)
  show "GetDecompressedSizeInfo (EncodeVarint32 v @ rest) = Some (v, rest)"
    by (rule size_info.dec_enc) simp
qed (simp_all add: PutDecompressedSizeInfo_def)

text \<open>On arbitrary input the reader fails exactly when none of the first five bytes has a clear top
  bit, and when it succeeds it has consumed a prefix of one to five bytes: it never reads past the
  input and never past the fifth byte.\<close>

lemma GetDecompressedSizeInfo_consumption:
  "(GetDecompressedSizeInfo p = None \<longleftrightarrow> list_all (\<lambda>b. bit b 7) (take 5 p))
   \<and> (case GetDecompressedSizeInfo p of None \<Rightarrow> True
      | Some (v, rest) \<Rightarrow> (\<exists>pre. p = pre @ rest \<and> length pre \<in> {1..5}))"
proof
  show "GetDecompressedSizeInfo p = None \<longleftrightarrow> list_all (\<lambda>b. bit b 7) (take 5 p)"
    using GetVarint32PtrFallback_None [of 0 0 p 0]
    by (cases "GetVarint32PtrFallback p 0 0")
      (simp_all add: GetDecompressedSizeInfo_def GetVarint32Ptr_eq_Fallback list_all_iff)
  show "case GetDecompressedSizeInfo p of None \<Rightarrow> True
      | Some (v, rest) \<Rightarrow> (\<exists>pre. p = pre @ rest \<and> length pre \<in> {1..5})"
  proof (cases "GetVarint32PtrFallback p 0 0")
    case None
    then show ?thesis by (simp add: GetDecompressedSizeInfo_def GetVarint32Ptr_eq_Fallback)
  next
    case (Some r)
    then obtain pre where "p = pre @ snd r" "pre \<noteq> []" "7 * length pre \<le> 35"
      using GetVarint32PtrFallback_consumes [of p 0 0 "fst r" "snd r"] by auto
    then have "p = pre @ snd r \<and> length pre \<in> {1..5}" by (cases pre) auto
    with Some show ?thesis
      by (auto simp: GetDecompressedSizeInfo_def GetVarint32Ptr_eq_Fallback split: prod.split)
  qed
qed

end
