(* ===== verification/Huffman_Tables.thy ===== *)
theory Huffman_Tables
  imports Prelude
begin

text \<open>
  The two constant tables of \<^verbatim>\<open>src/src/http/http2_huffman.cpp\<close>, entry by entry: \<open>huff_sym_table\<close>, the code
  of every byte and of the end-of-string symbol 256, and \<open>huff_decode_table\<close>, the transition table of the
  decoder with one row per state and one column per four bits of input. The decoding table is split into 32
  blocks of eight rows, concatenated at the end in the order of the source.
\<close>

text \<open>The structs \<^verbatim>\<open>http2_huff_sym\<close> and \<^verbatim>\<open>http2_huff_decode\<close>, with their fields as selectors.\<close>

datatype http2_huff_sym = HuffSym (sym_nbits: u32) (sym_code: u32)

datatype http2_huff_decode = HuffDecode (dec_state: u8) (dec_flags: u8) (dec_sym: u8)

definition huff_sym_table :: "http2_huff_sym list" where
  "huff_sym_table =
    [
     HuffSym 13 0x1ff8, HuffSym 23 0x7fffd8, HuffSym 28 0xfffffe2, HuffSym 28 0xfffffe3, HuffSym 28 0xfffffe4,
     HuffSym 28 0xfffffe5, HuffSym 28 0xfffffe6, HuffSym 28 0xfffffe7, HuffSym 28 0xfffffe8, HuffSym 24 0xffffea,
     HuffSym 30 0x3ffffffc, HuffSym 28 0xfffffe9, HuffSym 28 0xfffffea, HuffSym 30 0x3ffffffd, HuffSym 28 0xfffffeb,
     HuffSym 28 0xfffffec, HuffSym 28 0xfffffed, HuffSym 28 0xfffffee, HuffSym 28 0xfffffef, HuffSym 28 0xffffff0,
     HuffSym 28 0xffffff1, HuffSym 28 0xffffff2, HuffSym 30 0x3ffffffe, HuffSym 28 0xffffff3, HuffSym 28 0xffffff4,
     HuffSym 28 0xffffff5, HuffSym 28 0xffffff6, HuffSym 28 0xffffff7, HuffSym 28 0xffffff8, HuffSym 28 0xffffff9,
     HuffSym 28 0xffffffa, HuffSym 28 0xffffffb, HuffSym 6 0x14, HuffSym 10 0x3f8, HuffSym 10 0x3f9,
     HuffSym 12 0xffa, HuffSym 13 0x1ff9, HuffSym 6 0x15, HuffSym 8 0xf8, HuffSym 11 0x7fa,
     HuffSym 10 0x3fa, HuffSym 10 0x3fb, HuffSym 8 0xf9, HuffSym 11 0x7fb, HuffSym 8 0xfa,
     HuffSym 6 0x16, HuffSym 6 0x17, HuffSym 6 0x18, HuffSym 5 0x0, HuffSym 5 0x1,
     HuffSym 5 0x2, HuffSym 6 0x19, HuffSym 6 0x1a, HuffSym 6 0x1b, HuffSym 6 0x1c,
     HuffSym 6 0x1d, HuffSym 6 0x1e, HuffSym 6 0x1f, HuffSym 7 0x5c, HuffSym 8 0xfb,
     HuffSym 15 0x7ffc, HuffSym 6 0x20, HuffSym 12 0xffb, HuffSym 10 0x3fc, HuffSym 13 0x1ffa,
     HuffSym 6 0x21, HuffSym 7 0x5d, HuffSym 7 0x5e, HuffSym 7 0x5f, HuffSym 7 0x60,
     HuffSym 7 0x61, HuffSym 7 0x62, HuffSym 7 0x63, HuffSym 7 0x64, HuffSym 7 0x65,
     HuffSym 7 0x66, HuffSym 7 0x67, HuffSym 7 0x68, HuffSym 7 0x69, HuffSym 7 0x6a,
     HuffSym 7 0x6b, HuffSym 7 0x6c, HuffSym 7 0x6d, HuffSym 7 0x6e, HuffSym 7 0x6f,
     HuffSym 7 0x70, HuffSym 7 0x71, HuffSym 7 0x72, HuffSym 8 0xfc, HuffSym 7 0x73,
     HuffSym 8 0xfd, HuffSym 13 0x1ffb, HuffSym 19 0x7fff0, HuffSym 13 0x1ffc, HuffSym 14 0x3ffc,
     HuffSym 6 0x22, HuffSym 15 0x7ffd, HuffSym 5 0x3, HuffSym 6 0x23, HuffSym 5 0x4,
     HuffSym 6 0x24, HuffSym 5 0x5, HuffSym 6 0x25, HuffSym 6 0x26, HuffSym 6 0x27,
     HuffSym 5 0x6, HuffSym 7 0x74, HuffSym 7 0x75, HuffSym 6 0x28, HuffSym 6 0x29,
     HuffSym 6 0x2a, HuffSym 5 0x7, HuffSym 6 0x2b, HuffSym 7 0x76, HuffSym 6 0x2c,
     HuffSym 5 0x8, HuffSym 5 0x9, HuffSym 6 0x2d, HuffSym 7 0x77, HuffSym 7 0x78,
     HuffSym 7 0x79, HuffSym 7 0x7a, HuffSym 7 0x7b, HuffSym 15 0x7ffe, HuffSym 11 0x7fc,
     HuffSym 14 0x3ffd, HuffSym 13 0x1ffd, HuffSym 28 0xffffffc, HuffSym 20 0xfffe6, HuffSym 22 0x3fffd2,
     HuffSym 20 0xfffe7, HuffSym 20 0xfffe8, HuffSym 22 0x3fffd3, HuffSym 22 0x3fffd4, HuffSym 22 0x3fffd5,
     HuffSym 23 0x7fffd9, HuffSym 22 0x3fffd6, HuffSym 23 0x7fffda, HuffSym 23 0x7fffdb, HuffSym 23 0x7fffdc,
     HuffSym 23 0x7fffdd, HuffSym 23 0x7fffde, HuffSym 24 0xffffeb, HuffSym 23 0x7fffdf, HuffSym 24 0xffffec,
     HuffSym 24 0xffffed, HuffSym 22 0x3fffd7, HuffSym 23 0x7fffe0, HuffSym 24 0xffffee, HuffSym 23 0x7fffe1,
     HuffSym 23 0x7fffe2, HuffSym 23 0x7fffe3, HuffSym 23 0x7fffe4, HuffSym 21 0x1fffdc, HuffSym 22 0x3fffd8,
     HuffSym 23 0x7fffe5, HuffSym 22 0x3fffd9, HuffSym 23 0x7fffe6, HuffSym 23 0x7fffe7, HuffSym 24 0xffffef,
     HuffSym 22 0x3fffda, HuffSym 21 0x1fffdd, HuffSym 20 0xfffe9, HuffSym 22 0x3fffdb, HuffSym 22 0x3fffdc,
     HuffSym 23 0x7fffe8, HuffSym 23 0x7fffe9, HuffSym 21 0x1fffde, HuffSym 23 0x7fffea, HuffSym 22 0x3fffdd,
     HuffSym 22 0x3fffde, HuffSym 24 0xfffff0, HuffSym 21 0x1fffdf, HuffSym 22 0x3fffdf, HuffSym 23 0x7fffeb,
     HuffSym 23 0x7fffec, HuffSym 21 0x1fffe0, HuffSym 21 0x1fffe1, HuffSym 22 0x3fffe0, HuffSym 21 0x1fffe2,
     HuffSym 23 0x7fffed, HuffSym 22 0x3fffe1, HuffSym 23 0x7fffee, HuffSym 23 0x7fffef, HuffSym 20 0xfffea,
     HuffSym 22 0x3fffe2, HuffSym 22 0x3fffe3, HuffSym 22 0x3fffe4, HuffSym 23 0x7ffff0, HuffSym 22 0x3fffe5,
     HuffSym 22 0x3fffe6, HuffSym 23 0x7ffff1, HuffSym 26 0x3ffffe0, HuffSym 26 0x3ffffe1, HuffSym 20 0xfffeb,
     HuffSym 19 0x7fff1, HuffSym 22 0x3fffe7, HuffSym 23 0x7ffff2, HuffSym 22 0x3fffe8, HuffSym 25 0x1ffffec,
     HuffSym 26 0x3ffffe2, HuffSym 26 0x3ffffe3, HuffSym 26 0x3ffffe4, HuffSym 27 0x7ffffde, HuffSym 27 0x7ffffdf,
     HuffSym 26 0x3ffffe5, HuffSym 24 0xfffff1, HuffSym 25 0x1ffffed, HuffSym 19 0x7fff2, HuffSym 21 0x1fffe3,
     HuffSym 26 0x3ffffe6, HuffSym 27 0x7ffffe0, HuffSym 27 0x7ffffe1, HuffSym 26 0x3ffffe7, HuffSym 27 0x7ffffe2,
     HuffSym 24 0xfffff2, HuffSym 21 0x1fffe4, HuffSym 21 0x1fffe5, HuffSym 26 0x3ffffe8, HuffSym 26 0x3ffffe9,
     HuffSym 28 0xffffffd, HuffSym 27 0x7ffffe3, HuffSym 27 0x7ffffe4, HuffSym 27 0x7ffffe5, HuffSym 20 0xfffec,
     HuffSym 24 0xfffff3, HuffSym 20 0xfffed, HuffSym 21 0x1fffe6, HuffSym 22 0x3fffe9, HuffSym 21 0x1fffe7,
     HuffSym 21 0x1fffe8, HuffSym 23 0x7ffff3, HuffSym 22 0x3fffea, HuffSym 22 0x3fffeb, HuffSym 25 0x1ffffee,
     HuffSym 25 0x1ffffef, HuffSym 24 0xfffff4, HuffSym 24 0xfffff5, HuffSym 26 0x3ffffea, HuffSym 23 0x7ffff4,
     HuffSym 26 0x3ffffeb, HuffSym 27 0x7ffffe6, HuffSym 26 0x3ffffec, HuffSym 26 0x3ffffed, HuffSym 27 0x7ffffe7,
     HuffSym 27 0x7ffffe8, HuffSym 27 0x7ffffe9, HuffSym 27 0x7ffffea, HuffSym 27 0x7ffffeb, HuffSym 28 0xffffffe,
     HuffSym 27 0x7ffffec, HuffSym 27 0x7ffffed, HuffSym 27 0x7ffffee, HuffSym 27 0x7ffffef, HuffSym 27 0x7fffff0,
     HuffSym 26 0x3ffffee, HuffSym 30 0x3fffffff]"

definition huff_decode_table_0 :: "http2_huff_decode list list" where
  "huff_decode_table_0 =
    [[HuffDecode 4 0 0, HuffDecode 5 0 0, HuffDecode 7 0 0, HuffDecode 8 0 0, HuffDecode 11 0 0,
      HuffDecode 12 0 0, HuffDecode 16 0 0, HuffDecode 19 0 0, HuffDecode 25 0 0, HuffDecode 28 0 0,
      HuffDecode 32 0 0, HuffDecode 35 0 0, HuffDecode 42 0 0, HuffDecode 49 0 0, HuffDecode 57 0 0, HuffDecode 64 1 0],
     [HuffDecode 0 3 48, HuffDecode 0 3 49, HuffDecode 0 3 50, HuffDecode 0 3 97, HuffDecode 0 3 99,
      HuffDecode 0 3 101, HuffDecode 0 3 105, HuffDecode 0 3 111, HuffDecode 0 3 115, HuffDecode 0 3 116,
      HuffDecode 13 0 0, HuffDecode 14 0 0, HuffDecode 17 0 0, HuffDecode 18 0 0, HuffDecode 20 0 0, HuffDecode 21 0 0],
     [HuffDecode 1 2 48, HuffDecode 22 3 48, HuffDecode 1 2 49, HuffDecode 22 3 49, HuffDecode 1 2 50,
      HuffDecode 22 3 50, HuffDecode 1 2 97, HuffDecode 22 3 97, HuffDecode 1 2 99, HuffDecode 22 3 99,
      HuffDecode 1 2 101, HuffDecode 22 3 101, HuffDecode 1 2 105, HuffDecode 22 3 105, HuffDecode 1 2 111, HuffDecode 22 3 111],
     [HuffDecode 2 2 48, HuffDecode 9 2 48, HuffDecode 23 2 48, HuffDecode 40 3 48, HuffDecode 2 2 49,
      HuffDecode 9 2 49, HuffDecode 23 2 49, HuffDecode 40 3 49, HuffDecode 2 2 50, HuffDecode 9 2 50,
      HuffDecode 23 2 50, HuffDecode 40 3 50, HuffDecode 2 2 97, HuffDecode 9 2 97, HuffDecode 23 2 97, HuffDecode 40 3 97],
     [HuffDecode 3 2 48, HuffDecode 6 2 48, HuffDecode 10 2 48, HuffDecode 15 2 48, HuffDecode 24 2 48,
      HuffDecode 31 2 48, HuffDecode 41 2 48, HuffDecode 56 3 48, HuffDecode 3 2 49, HuffDecode 6 2 49,
      HuffDecode 10 2 49, HuffDecode 15 2 49, HuffDecode 24 2 49, HuffDecode 31 2 49, HuffDecode 41 2 49, HuffDecode 56 3 49],
     [HuffDecode 3 2 50, HuffDecode 6 2 50, HuffDecode 10 2 50, HuffDecode 15 2 50, HuffDecode 24 2 50,
      HuffDecode 31 2 50, HuffDecode 41 2 50, HuffDecode 56 3 50, HuffDecode 3 2 97, HuffDecode 6 2 97,
      HuffDecode 10 2 97, HuffDecode 15 2 97, HuffDecode 24 2 97, HuffDecode 31 2 97, HuffDecode 41 2 97, HuffDecode 56 3 97],
     [HuffDecode 2 2 99, HuffDecode 9 2 99, HuffDecode 23 2 99, HuffDecode 40 3 99, HuffDecode 2 2 101,
      HuffDecode 9 2 101, HuffDecode 23 2 101, HuffDecode 40 3 101, HuffDecode 2 2 105, HuffDecode 9 2 105,
      HuffDecode 23 2 105, HuffDecode 40 3 105, HuffDecode 2 2 111, HuffDecode 9 2 111, HuffDecode 23 2 111, HuffDecode 40 3 111],
     [HuffDecode 3 2 99, HuffDecode 6 2 99, HuffDecode 10 2 99, HuffDecode 15 2 99, HuffDecode 24 2 99,
      HuffDecode 31 2 99, HuffDecode 41 2 99, HuffDecode 56 3 99, HuffDecode 3 2 101, HuffDecode 6 2 101,
      HuffDecode 10 2 101, HuffDecode 15 2 101, HuffDecode 24 2 101, HuffDecode 31 2 101, HuffDecode 41 2 101, HuffDecode 56 3 101]]"

definition huff_decode_table_1 :: "http2_huff_decode list list" where
  "huff_decode_table_1 =
    [[HuffDecode 3 2 105, HuffDecode 6 2 105, HuffDecode 10 2 105, HuffDecode 15 2 105, HuffDecode 24 2 105,
      HuffDecode 31 2 105, HuffDecode 41 2 105, HuffDecode 56 3 105, HuffDecode 3 2 111, HuffDecode 6 2 111,
      HuffDecode 10 2 111, HuffDecode 15 2 111, HuffDecode 24 2 111, HuffDecode 31 2 111, HuffDecode 41 2 111, HuffDecode 56 3 111],
     [HuffDecode 1 2 115, HuffDecode 22 3 115, HuffDecode 1 2 116, HuffDecode 22 3 116, HuffDecode 0 3 32,
      HuffDecode 0 3 37, HuffDecode 0 3 45, HuffDecode 0 3 46, HuffDecode 0 3 47, HuffDecode 0 3 51,
      HuffDecode 0 3 52, HuffDecode 0 3 53, HuffDecode 0 3 54, HuffDecode 0 3 55, HuffDecode 0 3 56, HuffDecode 0 3 57],
     [HuffDecode 2 2 115, HuffDecode 9 2 115, HuffDecode 23 2 115, HuffDecode 40 3 115, HuffDecode 2 2 116,
      HuffDecode 9 2 116, HuffDecode 23 2 116, HuffDecode 40 3 116, HuffDecode 1 2 32, HuffDecode 22 3 32,
      HuffDecode 1 2 37, HuffDecode 22 3 37, HuffDecode 1 2 45, HuffDecode 22 3 45, HuffDecode 1 2 46, HuffDecode 22 3 46],
     [HuffDecode 3 2 115, HuffDecode 6 2 115, HuffDecode 10 2 115, HuffDecode 15 2 115, HuffDecode 24 2 115,
      HuffDecode 31 2 115, HuffDecode 41 2 115, HuffDecode 56 3 115, HuffDecode 3 2 116, HuffDecode 6 2 116,
      HuffDecode 10 2 116, HuffDecode 15 2 116, HuffDecode 24 2 116, HuffDecode 31 2 116, HuffDecode 41 2 116, HuffDecode 56 3 116],
     [HuffDecode 2 2 32, HuffDecode 9 2 32, HuffDecode 23 2 32, HuffDecode 40 3 32, HuffDecode 2 2 37,
      HuffDecode 9 2 37, HuffDecode 23 2 37, HuffDecode 40 3 37, HuffDecode 2 2 45, HuffDecode 9 2 45,
      HuffDecode 23 2 45, HuffDecode 40 3 45, HuffDecode 2 2 46, HuffDecode 9 2 46, HuffDecode 23 2 46, HuffDecode 40 3 46],
     [HuffDecode 3 2 32, HuffDecode 6 2 32, HuffDecode 10 2 32, HuffDecode 15 2 32, HuffDecode 24 2 32,
      HuffDecode 31 2 32, HuffDecode 41 2 32, HuffDecode 56 3 32, HuffDecode 3 2 37, HuffDecode 6 2 37,
      HuffDecode 10 2 37, HuffDecode 15 2 37, HuffDecode 24 2 37, HuffDecode 31 2 37, HuffDecode 41 2 37, HuffDecode 56 3 37],
     [HuffDecode 3 2 45, HuffDecode 6 2 45, HuffDecode 10 2 45, HuffDecode 15 2 45, HuffDecode 24 2 45,
      HuffDecode 31 2 45, HuffDecode 41 2 45, HuffDecode 56 3 45, HuffDecode 3 2 46, HuffDecode 6 2 46,
      HuffDecode 10 2 46, HuffDecode 15 2 46, HuffDecode 24 2 46, HuffDecode 31 2 46, HuffDecode 41 2 46, HuffDecode 56 3 46],
     [HuffDecode 1 2 47, HuffDecode 22 3 47, HuffDecode 1 2 51, HuffDecode 22 3 51, HuffDecode 1 2 52,
      HuffDecode 22 3 52, HuffDecode 1 2 53, HuffDecode 22 3 53, HuffDecode 1 2 54, HuffDecode 22 3 54,
      HuffDecode 1 2 55, HuffDecode 22 3 55, HuffDecode 1 2 56, HuffDecode 22 3 56, HuffDecode 1 2 57, HuffDecode 22 3 57]]"

definition huff_decode_table_2 :: "http2_huff_decode list list" where
  "huff_decode_table_2 =
    [[HuffDecode 2 2 47, HuffDecode 9 2 47, HuffDecode 23 2 47, HuffDecode 40 3 47, HuffDecode 2 2 51,
      HuffDecode 9 2 51, HuffDecode 23 2 51, HuffDecode 40 3 51, HuffDecode 2 2 52, HuffDecode 9 2 52,
      HuffDecode 23 2 52, HuffDecode 40 3 52, HuffDecode 2 2 53, HuffDecode 9 2 53, HuffDecode 23 2 53, HuffDecode 40 3 53],
     [HuffDecode 3 2 47, HuffDecode 6 2 47, HuffDecode 10 2 47, HuffDecode 15 2 47, HuffDecode 24 2 47,
      HuffDecode 31 2 47, HuffDecode 41 2 47, HuffDecode 56 3 47, HuffDecode 3 2 51, HuffDecode 6 2 51,
      HuffDecode 10 2 51, HuffDecode 15 2 51, HuffDecode 24 2 51, HuffDecode 31 2 51, HuffDecode 41 2 51, HuffDecode 56 3 51],
     [HuffDecode 3 2 52, HuffDecode 6 2 52, HuffDecode 10 2 52, HuffDecode 15 2 52, HuffDecode 24 2 52,
      HuffDecode 31 2 52, HuffDecode 41 2 52, HuffDecode 56 3 52, HuffDecode 3 2 53, HuffDecode 6 2 53,
      HuffDecode 10 2 53, HuffDecode 15 2 53, HuffDecode 24 2 53, HuffDecode 31 2 53, HuffDecode 41 2 53, HuffDecode 56 3 53],
     [HuffDecode 2 2 54, HuffDecode 9 2 54, HuffDecode 23 2 54, HuffDecode 40 3 54, HuffDecode 2 2 55,
      HuffDecode 9 2 55, HuffDecode 23 2 55, HuffDecode 40 3 55, HuffDecode 2 2 56, HuffDecode 9 2 56,
      HuffDecode 23 2 56, HuffDecode 40 3 56, HuffDecode 2 2 57, HuffDecode 9 2 57, HuffDecode 23 2 57, HuffDecode 40 3 57],
     [HuffDecode 3 2 54, HuffDecode 6 2 54, HuffDecode 10 2 54, HuffDecode 15 2 54, HuffDecode 24 2 54,
      HuffDecode 31 2 54, HuffDecode 41 2 54, HuffDecode 56 3 54, HuffDecode 3 2 55, HuffDecode 6 2 55,
      HuffDecode 10 2 55, HuffDecode 15 2 55, HuffDecode 24 2 55, HuffDecode 31 2 55, HuffDecode 41 2 55, HuffDecode 56 3 55],
     [HuffDecode 3 2 56, HuffDecode 6 2 56, HuffDecode 10 2 56, HuffDecode 15 2 56, HuffDecode 24 2 56,
      HuffDecode 31 2 56, HuffDecode 41 2 56, HuffDecode 56 3 56, HuffDecode 3 2 57, HuffDecode 6 2 57,
      HuffDecode 10 2 57, HuffDecode 15 2 57, HuffDecode 24 2 57, HuffDecode 31 2 57, HuffDecode 41 2 57, HuffDecode 56 3 57],
     [HuffDecode 26 0 0, HuffDecode 27 0 0, HuffDecode 29 0 0, HuffDecode 30 0 0, HuffDecode 33 0 0,
      HuffDecode 34 0 0, HuffDecode 36 0 0, HuffDecode 37 0 0, HuffDecode 43 0 0, HuffDecode 46 0 0,
      HuffDecode 50 0 0, HuffDecode 53 0 0, HuffDecode 58 0 0, HuffDecode 61 0 0, HuffDecode 65 0 0, HuffDecode 68 1 0],
     [HuffDecode 0 3 61, HuffDecode 0 3 65, HuffDecode 0 3 95, HuffDecode 0 3 98, HuffDecode 0 3 100,
      HuffDecode 0 3 102, HuffDecode 0 3 103, HuffDecode 0 3 104, HuffDecode 0 3 108, HuffDecode 0 3 109,
      HuffDecode 0 3 110, HuffDecode 0 3 112, HuffDecode 0 3 114, HuffDecode 0 3 117, HuffDecode 38 0 0, HuffDecode 39 0 0]]"

definition huff_decode_table_3 :: "http2_huff_decode list list" where
  "huff_decode_table_3 =
    [[HuffDecode 1 2 61, HuffDecode 22 3 61, HuffDecode 1 2 65, HuffDecode 22 3 65, HuffDecode 1 2 95,
      HuffDecode 22 3 95, HuffDecode 1 2 98, HuffDecode 22 3 98, HuffDecode 1 2 100, HuffDecode 22 3 100,
      HuffDecode 1 2 102, HuffDecode 22 3 102, HuffDecode 1 2 103, HuffDecode 22 3 103, HuffDecode 1 2 104, HuffDecode 22 3 104],
     [HuffDecode 2 2 61, HuffDecode 9 2 61, HuffDecode 23 2 61, HuffDecode 40 3 61, HuffDecode 2 2 65,
      HuffDecode 9 2 65, HuffDecode 23 2 65, HuffDecode 40 3 65, HuffDecode 2 2 95, HuffDecode 9 2 95,
      HuffDecode 23 2 95, HuffDecode 40 3 95, HuffDecode 2 2 98, HuffDecode 9 2 98, HuffDecode 23 2 98, HuffDecode 40 3 98],
     [HuffDecode 3 2 61, HuffDecode 6 2 61, HuffDecode 10 2 61, HuffDecode 15 2 61, HuffDecode 24 2 61,
      HuffDecode 31 2 61, HuffDecode 41 2 61, HuffDecode 56 3 61, HuffDecode 3 2 65, HuffDecode 6 2 65,
      HuffDecode 10 2 65, HuffDecode 15 2 65, HuffDecode 24 2 65, HuffDecode 31 2 65, HuffDecode 41 2 65, HuffDecode 56 3 65],
     [HuffDecode 3 2 95, HuffDecode 6 2 95, HuffDecode 10 2 95, HuffDecode 15 2 95, HuffDecode 24 2 95,
      HuffDecode 31 2 95, HuffDecode 41 2 95, HuffDecode 56 3 95, HuffDecode 3 2 98, HuffDecode 6 2 98,
      HuffDecode 10 2 98, HuffDecode 15 2 98, HuffDecode 24 2 98, HuffDecode 31 2 98, HuffDecode 41 2 98, HuffDecode 56 3 98],
     [HuffDecode 2 2 100, HuffDecode 9 2 100, HuffDecode 23 2 100, HuffDecode 40 3 100, HuffDecode 2 2 102,
      HuffDecode 9 2 102, HuffDecode 23 2 102, HuffDecode 40 3 102, HuffDecode 2 2 103, HuffDecode 9 2 103,
      HuffDecode 23 2 103, HuffDecode 40 3 103, HuffDecode 2 2 104, HuffDecode 9 2 104, HuffDecode 23 2 104, HuffDecode 40 3 104],
     [HuffDecode 3 2 100, HuffDecode 6 2 100, HuffDecode 10 2 100, HuffDecode 15 2 100, HuffDecode 24 2 100,
      HuffDecode 31 2 100, HuffDecode 41 2 100, HuffDecode 56 3 100, HuffDecode 3 2 102, HuffDecode 6 2 102,
      HuffDecode 10 2 102, HuffDecode 15 2 102, HuffDecode 24 2 102, HuffDecode 31 2 102, HuffDecode 41 2 102, HuffDecode 56 3 102],
     [HuffDecode 3 2 103, HuffDecode 6 2 103, HuffDecode 10 2 103, HuffDecode 15 2 103, HuffDecode 24 2 103,
      HuffDecode 31 2 103, HuffDecode 41 2 103, HuffDecode 56 3 103, HuffDecode 3 2 104, HuffDecode 6 2 104,
      HuffDecode 10 2 104, HuffDecode 15 2 104, HuffDecode 24 2 104, HuffDecode 31 2 104, HuffDecode 41 2 104, HuffDecode 56 3 104],
     [HuffDecode 1 2 108, HuffDecode 22 3 108, HuffDecode 1 2 109, HuffDecode 22 3 109, HuffDecode 1 2 110,
      HuffDecode 22 3 110, HuffDecode 1 2 112, HuffDecode 22 3 112, HuffDecode 1 2 114, HuffDecode 22 3 114,
      HuffDecode 1 2 117, HuffDecode 22 3 117, HuffDecode 0 3 58, HuffDecode 0 3 66, HuffDecode 0 3 67, HuffDecode 0 3 68]]"

definition huff_decode_table_4 :: "http2_huff_decode list list" where
  "huff_decode_table_4 =
    [[HuffDecode 2 2 108, HuffDecode 9 2 108, HuffDecode 23 2 108, HuffDecode 40 3 108, HuffDecode 2 2 109,
      HuffDecode 9 2 109, HuffDecode 23 2 109, HuffDecode 40 3 109, HuffDecode 2 2 110, HuffDecode 9 2 110,
      HuffDecode 23 2 110, HuffDecode 40 3 110, HuffDecode 2 2 112, HuffDecode 9 2 112, HuffDecode 23 2 112, HuffDecode 40 3 112],
     [HuffDecode 3 2 108, HuffDecode 6 2 108, HuffDecode 10 2 108, HuffDecode 15 2 108, HuffDecode 24 2 108,
      HuffDecode 31 2 108, HuffDecode 41 2 108, HuffDecode 56 3 108, HuffDecode 3 2 109, HuffDecode 6 2 109,
      HuffDecode 10 2 109, HuffDecode 15 2 109, HuffDecode 24 2 109, HuffDecode 31 2 109, HuffDecode 41 2 109, HuffDecode 56 3 109],
     [HuffDecode 3 2 110, HuffDecode 6 2 110, HuffDecode 10 2 110, HuffDecode 15 2 110, HuffDecode 24 2 110,
      HuffDecode 31 2 110, HuffDecode 41 2 110, HuffDecode 56 3 110, HuffDecode 3 2 112, HuffDecode 6 2 112,
      HuffDecode 10 2 112, HuffDecode 15 2 112, HuffDecode 24 2 112, HuffDecode 31 2 112, HuffDecode 41 2 112, HuffDecode 56 3 112],
     [HuffDecode 2 2 114, HuffDecode 9 2 114, HuffDecode 23 2 114, HuffDecode 40 3 114, HuffDecode 2 2 117,
      HuffDecode 9 2 117, HuffDecode 23 2 117, HuffDecode 40 3 117, HuffDecode 1 2 58, HuffDecode 22 3 58,
      HuffDecode 1 2 66, HuffDecode 22 3 66, HuffDecode 1 2 67, HuffDecode 22 3 67, HuffDecode 1 2 68, HuffDecode 22 3 68],
     [HuffDecode 3 2 114, HuffDecode 6 2 114, HuffDecode 10 2 114, HuffDecode 15 2 114, HuffDecode 24 2 114,
      HuffDecode 31 2 114, HuffDecode 41 2 114, HuffDecode 56 3 114, HuffDecode 3 2 117, HuffDecode 6 2 117,
      HuffDecode 10 2 117, HuffDecode 15 2 117, HuffDecode 24 2 117, HuffDecode 31 2 117, HuffDecode 41 2 117, HuffDecode 56 3 117],
     [HuffDecode 2 2 58, HuffDecode 9 2 58, HuffDecode 23 2 58, HuffDecode 40 3 58, HuffDecode 2 2 66,
      HuffDecode 9 2 66, HuffDecode 23 2 66, HuffDecode 40 3 66, HuffDecode 2 2 67, HuffDecode 9 2 67,
      HuffDecode 23 2 67, HuffDecode 40 3 67, HuffDecode 2 2 68, HuffDecode 9 2 68, HuffDecode 23 2 68, HuffDecode 40 3 68],
     [HuffDecode 3 2 58, HuffDecode 6 2 58, HuffDecode 10 2 58, HuffDecode 15 2 58, HuffDecode 24 2 58,
      HuffDecode 31 2 58, HuffDecode 41 2 58, HuffDecode 56 3 58, HuffDecode 3 2 66, HuffDecode 6 2 66,
      HuffDecode 10 2 66, HuffDecode 15 2 66, HuffDecode 24 2 66, HuffDecode 31 2 66, HuffDecode 41 2 66, HuffDecode 56 3 66],
     [HuffDecode 3 2 67, HuffDecode 6 2 67, HuffDecode 10 2 67, HuffDecode 15 2 67, HuffDecode 24 2 67,
      HuffDecode 31 2 67, HuffDecode 41 2 67, HuffDecode 56 3 67, HuffDecode 3 2 68, HuffDecode 6 2 68,
      HuffDecode 10 2 68, HuffDecode 15 2 68, HuffDecode 24 2 68, HuffDecode 31 2 68, HuffDecode 41 2 68, HuffDecode 56 3 68]]"

definition huff_decode_table_5 :: "http2_huff_decode list list" where
  "huff_decode_table_5 =
    [[HuffDecode 44 0 0, HuffDecode 45 0 0, HuffDecode 47 0 0, HuffDecode 48 0 0, HuffDecode 51 0 0,
      HuffDecode 52 0 0, HuffDecode 54 0 0, HuffDecode 55 0 0, HuffDecode 59 0 0, HuffDecode 60 0 0,
      HuffDecode 62 0 0, HuffDecode 63 0 0, HuffDecode 66 0 0, HuffDecode 67 0 0, HuffDecode 69 0 0, HuffDecode 72 1 0],
     [HuffDecode 0 3 69, HuffDecode 0 3 70, HuffDecode 0 3 71, HuffDecode 0 3 72, HuffDecode 0 3 73,
      HuffDecode 0 3 74, HuffDecode 0 3 75, HuffDecode 0 3 76, HuffDecode 0 3 77, HuffDecode 0 3 78,
      HuffDecode 0 3 79, HuffDecode 0 3 80, HuffDecode 0 3 81, HuffDecode 0 3 82, HuffDecode 0 3 83, HuffDecode 0 3 84],
     [HuffDecode 1 2 69, HuffDecode 22 3 69, HuffDecode 1 2 70, HuffDecode 22 3 70, HuffDecode 1 2 71,
      HuffDecode 22 3 71, HuffDecode 1 2 72, HuffDecode 22 3 72, HuffDecode 1 2 73, HuffDecode 22 3 73,
      HuffDecode 1 2 74, HuffDecode 22 3 74, HuffDecode 1 2 75, HuffDecode 22 3 75, HuffDecode 1 2 76, HuffDecode 22 3 76],
     [HuffDecode 2 2 69, HuffDecode 9 2 69, HuffDecode 23 2 69, HuffDecode 40 3 69, HuffDecode 2 2 70,
      HuffDecode 9 2 70, HuffDecode 23 2 70, HuffDecode 40 3 70, HuffDecode 2 2 71, HuffDecode 9 2 71,
      HuffDecode 23 2 71, HuffDecode 40 3 71, HuffDecode 2 2 72, HuffDecode 9 2 72, HuffDecode 23 2 72, HuffDecode 40 3 72],
     [HuffDecode 3 2 69, HuffDecode 6 2 69, HuffDecode 10 2 69, HuffDecode 15 2 69, HuffDecode 24 2 69,
      HuffDecode 31 2 69, HuffDecode 41 2 69, HuffDecode 56 3 69, HuffDecode 3 2 70, HuffDecode 6 2 70,
      HuffDecode 10 2 70, HuffDecode 15 2 70, HuffDecode 24 2 70, HuffDecode 31 2 70, HuffDecode 41 2 70, HuffDecode 56 3 70],
     [HuffDecode 3 2 71, HuffDecode 6 2 71, HuffDecode 10 2 71, HuffDecode 15 2 71, HuffDecode 24 2 71,
      HuffDecode 31 2 71, HuffDecode 41 2 71, HuffDecode 56 3 71, HuffDecode 3 2 72, HuffDecode 6 2 72,
      HuffDecode 10 2 72, HuffDecode 15 2 72, HuffDecode 24 2 72, HuffDecode 31 2 72, HuffDecode 41 2 72, HuffDecode 56 3 72],
     [HuffDecode 2 2 73, HuffDecode 9 2 73, HuffDecode 23 2 73, HuffDecode 40 3 73, HuffDecode 2 2 74,
      HuffDecode 9 2 74, HuffDecode 23 2 74, HuffDecode 40 3 74, HuffDecode 2 2 75, HuffDecode 9 2 75,
      HuffDecode 23 2 75, HuffDecode 40 3 75, HuffDecode 2 2 76, HuffDecode 9 2 76, HuffDecode 23 2 76, HuffDecode 40 3 76],
     [HuffDecode 3 2 73, HuffDecode 6 2 73, HuffDecode 10 2 73, HuffDecode 15 2 73, HuffDecode 24 2 73,
      HuffDecode 31 2 73, HuffDecode 41 2 73, HuffDecode 56 3 73, HuffDecode 3 2 74, HuffDecode 6 2 74,
      HuffDecode 10 2 74, HuffDecode 15 2 74, HuffDecode 24 2 74, HuffDecode 31 2 74, HuffDecode 41 2 74, HuffDecode 56 3 74]]"

definition huff_decode_table_6 :: "http2_huff_decode list list" where
  "huff_decode_table_6 =
    [[HuffDecode 3 2 75, HuffDecode 6 2 75, HuffDecode 10 2 75, HuffDecode 15 2 75, HuffDecode 24 2 75,
      HuffDecode 31 2 75, HuffDecode 41 2 75, HuffDecode 56 3 75, HuffDecode 3 2 76, HuffDecode 6 2 76,
      HuffDecode 10 2 76, HuffDecode 15 2 76, HuffDecode 24 2 76, HuffDecode 31 2 76, HuffDecode 41 2 76, HuffDecode 56 3 76],
     [HuffDecode 1 2 77, HuffDecode 22 3 77, HuffDecode 1 2 78, HuffDecode 22 3 78, HuffDecode 1 2 79,
      HuffDecode 22 3 79, HuffDecode 1 2 80, HuffDecode 22 3 80, HuffDecode 1 2 81, HuffDecode 22 3 81,
      HuffDecode 1 2 82, HuffDecode 22 3 82, HuffDecode 1 2 83, HuffDecode 22 3 83, HuffDecode 1 2 84, HuffDecode 22 3 84],
     [HuffDecode 2 2 77, HuffDecode 9 2 77, HuffDecode 23 2 77, HuffDecode 40 3 77, HuffDecode 2 2 78,
      HuffDecode 9 2 78, HuffDecode 23 2 78, HuffDecode 40 3 78, HuffDecode 2 2 79, HuffDecode 9 2 79,
      HuffDecode 23 2 79, HuffDecode 40 3 79, HuffDecode 2 2 80, HuffDecode 9 2 80, HuffDecode 23 2 80, HuffDecode 40 3 80],
     [HuffDecode 3 2 77, HuffDecode 6 2 77, HuffDecode 10 2 77, HuffDecode 15 2 77, HuffDecode 24 2 77,
      HuffDecode 31 2 77, HuffDecode 41 2 77, HuffDecode 56 3 77, HuffDecode 3 2 78, HuffDecode 6 2 78,
      HuffDecode 10 2 78, HuffDecode 15 2 78, HuffDecode 24 2 78, HuffDecode 31 2 78, HuffDecode 41 2 78, HuffDecode 56 3 78],
     [HuffDecode 3 2 79, HuffDecode 6 2 79, HuffDecode 10 2 79, HuffDecode 15 2 79, HuffDecode 24 2 79,
      HuffDecode 31 2 79, HuffDecode 41 2 79, HuffDecode 56 3 79, HuffDecode 3 2 80, HuffDecode 6 2 80,
      HuffDecode 10 2 80, HuffDecode 15 2 80, HuffDecode 24 2 80, HuffDecode 31 2 80, HuffDecode 41 2 80, HuffDecode 56 3 80],
     [HuffDecode 2 2 81, HuffDecode 9 2 81, HuffDecode 23 2 81, HuffDecode 40 3 81, HuffDecode 2 2 82,
      HuffDecode 9 2 82, HuffDecode 23 2 82, HuffDecode 40 3 82, HuffDecode 2 2 83, HuffDecode 9 2 83,
      HuffDecode 23 2 83, HuffDecode 40 3 83, HuffDecode 2 2 84, HuffDecode 9 2 84, HuffDecode 23 2 84, HuffDecode 40 3 84],
     [HuffDecode 3 2 81, HuffDecode 6 2 81, HuffDecode 10 2 81, HuffDecode 15 2 81, HuffDecode 24 2 81,
      HuffDecode 31 2 81, HuffDecode 41 2 81, HuffDecode 56 3 81, HuffDecode 3 2 82, HuffDecode 6 2 82,
      HuffDecode 10 2 82, HuffDecode 15 2 82, HuffDecode 24 2 82, HuffDecode 31 2 82, HuffDecode 41 2 82, HuffDecode 56 3 82],
     [HuffDecode 3 2 83, HuffDecode 6 2 83, HuffDecode 10 2 83, HuffDecode 15 2 83, HuffDecode 24 2 83,
      HuffDecode 31 2 83, HuffDecode 41 2 83, HuffDecode 56 3 83, HuffDecode 3 2 84, HuffDecode 6 2 84,
      HuffDecode 10 2 84, HuffDecode 15 2 84, HuffDecode 24 2 84, HuffDecode 31 2 84, HuffDecode 41 2 84, HuffDecode 56 3 84]]"

definition huff_decode_table_7 :: "http2_huff_decode list list" where
  "huff_decode_table_7 =
    [[HuffDecode 0 3 85, HuffDecode 0 3 86, HuffDecode 0 3 87, HuffDecode 0 3 89, HuffDecode 0 3 106,
      HuffDecode 0 3 107, HuffDecode 0 3 113, HuffDecode 0 3 118, HuffDecode 0 3 119, HuffDecode 0 3 120,
      HuffDecode 0 3 121, HuffDecode 0 3 122, HuffDecode 70 0 0, HuffDecode 71 0 0, HuffDecode 73 0 0, HuffDecode 74 1 0],
     [HuffDecode 1 2 85, HuffDecode 22 3 85, HuffDecode 1 2 86, HuffDecode 22 3 86, HuffDecode 1 2 87,
      HuffDecode 22 3 87, HuffDecode 1 2 89, HuffDecode 22 3 89, HuffDecode 1 2 106, HuffDecode 22 3 106,
      HuffDecode 1 2 107, HuffDecode 22 3 107, HuffDecode 1 2 113, HuffDecode 22 3 113, HuffDecode 1 2 118, HuffDecode 22 3 118],
     [HuffDecode 2 2 85, HuffDecode 9 2 85, HuffDecode 23 2 85, HuffDecode 40 3 85, HuffDecode 2 2 86,
      HuffDecode 9 2 86, HuffDecode 23 2 86, HuffDecode 40 3 86, HuffDecode 2 2 87, HuffDecode 9 2 87,
      HuffDecode 23 2 87, HuffDecode 40 3 87, HuffDecode 2 2 89, HuffDecode 9 2 89, HuffDecode 23 2 89, HuffDecode 40 3 89],
     [HuffDecode 3 2 85, HuffDecode 6 2 85, HuffDecode 10 2 85, HuffDecode 15 2 85, HuffDecode 24 2 85,
      HuffDecode 31 2 85, HuffDecode 41 2 85, HuffDecode 56 3 85, HuffDecode 3 2 86, HuffDecode 6 2 86,
      HuffDecode 10 2 86, HuffDecode 15 2 86, HuffDecode 24 2 86, HuffDecode 31 2 86, HuffDecode 41 2 86, HuffDecode 56 3 86],
     [HuffDecode 3 2 87, HuffDecode 6 2 87, HuffDecode 10 2 87, HuffDecode 15 2 87, HuffDecode 24 2 87,
      HuffDecode 31 2 87, HuffDecode 41 2 87, HuffDecode 56 3 87, HuffDecode 3 2 89, HuffDecode 6 2 89,
      HuffDecode 10 2 89, HuffDecode 15 2 89, HuffDecode 24 2 89, HuffDecode 31 2 89, HuffDecode 41 2 89, HuffDecode 56 3 89],
     [HuffDecode 2 2 106, HuffDecode 9 2 106, HuffDecode 23 2 106, HuffDecode 40 3 106, HuffDecode 2 2 107,
      HuffDecode 9 2 107, HuffDecode 23 2 107, HuffDecode 40 3 107, HuffDecode 2 2 113, HuffDecode 9 2 113,
      HuffDecode 23 2 113, HuffDecode 40 3 113, HuffDecode 2 2 118, HuffDecode 9 2 118, HuffDecode 23 2 118, HuffDecode 40 3 118],
     [HuffDecode 3 2 106, HuffDecode 6 2 106, HuffDecode 10 2 106, HuffDecode 15 2 106, HuffDecode 24 2 106,
      HuffDecode 31 2 106, HuffDecode 41 2 106, HuffDecode 56 3 106, HuffDecode 3 2 107, HuffDecode 6 2 107,
      HuffDecode 10 2 107, HuffDecode 15 2 107, HuffDecode 24 2 107, HuffDecode 31 2 107, HuffDecode 41 2 107, HuffDecode 56 3 107],
     [HuffDecode 3 2 113, HuffDecode 6 2 113, HuffDecode 10 2 113, HuffDecode 15 2 113, HuffDecode 24 2 113,
      HuffDecode 31 2 113, HuffDecode 41 2 113, HuffDecode 56 3 113, HuffDecode 3 2 118, HuffDecode 6 2 118,
      HuffDecode 10 2 118, HuffDecode 15 2 118, HuffDecode 24 2 118, HuffDecode 31 2 118, HuffDecode 41 2 118, HuffDecode 56 3 118]]"

definition huff_decode_table_8 :: "http2_huff_decode list list" where
  "huff_decode_table_8 =
    [[HuffDecode 1 2 119, HuffDecode 22 3 119, HuffDecode 1 2 120, HuffDecode 22 3 120, HuffDecode 1 2 121,
      HuffDecode 22 3 121, HuffDecode 1 2 122, HuffDecode 22 3 122, HuffDecode 0 3 38, HuffDecode 0 3 42,
      HuffDecode 0 3 44, HuffDecode 0 3 59, HuffDecode 0 3 88, HuffDecode 0 3 90, HuffDecode 75 0 0, HuffDecode 78 0 0],
     [HuffDecode 2 2 119, HuffDecode 9 2 119, HuffDecode 23 2 119, HuffDecode 40 3 119, HuffDecode 2 2 120,
      HuffDecode 9 2 120, HuffDecode 23 2 120, HuffDecode 40 3 120, HuffDecode 2 2 121, HuffDecode 9 2 121,
      HuffDecode 23 2 121, HuffDecode 40 3 121, HuffDecode 2 2 122, HuffDecode 9 2 122, HuffDecode 23 2 122, HuffDecode 40 3 122],
     [HuffDecode 3 2 119, HuffDecode 6 2 119, HuffDecode 10 2 119, HuffDecode 15 2 119, HuffDecode 24 2 119,
      HuffDecode 31 2 119, HuffDecode 41 2 119, HuffDecode 56 3 119, HuffDecode 3 2 120, HuffDecode 6 2 120,
      HuffDecode 10 2 120, HuffDecode 15 2 120, HuffDecode 24 2 120, HuffDecode 31 2 120, HuffDecode 41 2 120, HuffDecode 56 3 120],
     [HuffDecode 3 2 121, HuffDecode 6 2 121, HuffDecode 10 2 121, HuffDecode 15 2 121, HuffDecode 24 2 121,
      HuffDecode 31 2 121, HuffDecode 41 2 121, HuffDecode 56 3 121, HuffDecode 3 2 122, HuffDecode 6 2 122,
      HuffDecode 10 2 122, HuffDecode 15 2 122, HuffDecode 24 2 122, HuffDecode 31 2 122, HuffDecode 41 2 122, HuffDecode 56 3 122],
     [HuffDecode 1 2 38, HuffDecode 22 3 38, HuffDecode 1 2 42, HuffDecode 22 3 42, HuffDecode 1 2 44,
      HuffDecode 22 3 44, HuffDecode 1 2 59, HuffDecode 22 3 59, HuffDecode 1 2 88, HuffDecode 22 3 88,
      HuffDecode 1 2 90, HuffDecode 22 3 90, HuffDecode 76 0 0, HuffDecode 77 0 0, HuffDecode 79 0 0, HuffDecode 81 0 0],
     [HuffDecode 2 2 38, HuffDecode 9 2 38, HuffDecode 23 2 38, HuffDecode 40 3 38, HuffDecode 2 2 42,
      HuffDecode 9 2 42, HuffDecode 23 2 42, HuffDecode 40 3 42, HuffDecode 2 2 44, HuffDecode 9 2 44,
      HuffDecode 23 2 44, HuffDecode 40 3 44, HuffDecode 2 2 59, HuffDecode 9 2 59, HuffDecode 23 2 59, HuffDecode 40 3 59],
     [HuffDecode 3 2 38, HuffDecode 6 2 38, HuffDecode 10 2 38, HuffDecode 15 2 38, HuffDecode 24 2 38,
      HuffDecode 31 2 38, HuffDecode 41 2 38, HuffDecode 56 3 38, HuffDecode 3 2 42, HuffDecode 6 2 42,
      HuffDecode 10 2 42, HuffDecode 15 2 42, HuffDecode 24 2 42, HuffDecode 31 2 42, HuffDecode 41 2 42, HuffDecode 56 3 42],
     [HuffDecode 3 2 44, HuffDecode 6 2 44, HuffDecode 10 2 44, HuffDecode 15 2 44, HuffDecode 24 2 44,
      HuffDecode 31 2 44, HuffDecode 41 2 44, HuffDecode 56 3 44, HuffDecode 3 2 59, HuffDecode 6 2 59,
      HuffDecode 10 2 59, HuffDecode 15 2 59, HuffDecode 24 2 59, HuffDecode 31 2 59, HuffDecode 41 2 59, HuffDecode 56 3 59]]"

definition huff_decode_table_9 :: "http2_huff_decode list list" where
  "huff_decode_table_9 =
    [[HuffDecode 2 2 88, HuffDecode 9 2 88, HuffDecode 23 2 88, HuffDecode 40 3 88, HuffDecode 2 2 90,
      HuffDecode 9 2 90, HuffDecode 23 2 90, HuffDecode 40 3 90, HuffDecode 0 3 33, HuffDecode 0 3 34,
      HuffDecode 0 3 40, HuffDecode 0 3 41, HuffDecode 0 3 63, HuffDecode 80 0 0, HuffDecode 82 0 0, HuffDecode 84 0 0],
     [HuffDecode 3 2 88, HuffDecode 6 2 88, HuffDecode 10 2 88, HuffDecode 15 2 88, HuffDecode 24 2 88,
      HuffDecode 31 2 88, HuffDecode 41 2 88, HuffDecode 56 3 88, HuffDecode 3 2 90, HuffDecode 6 2 90,
      HuffDecode 10 2 90, HuffDecode 15 2 90, HuffDecode 24 2 90, HuffDecode 31 2 90, HuffDecode 41 2 90, HuffDecode 56 3 90],
     [HuffDecode 1 2 33, HuffDecode 22 3 33, HuffDecode 1 2 34, HuffDecode 22 3 34, HuffDecode 1 2 40,
      HuffDecode 22 3 40, HuffDecode 1 2 41, HuffDecode 22 3 41, HuffDecode 1 2 63, HuffDecode 22 3 63,
      HuffDecode 0 3 39, HuffDecode 0 3 43, HuffDecode 0 3 124, HuffDecode 83 0 0, HuffDecode 85 0 0, HuffDecode 88 0 0],
     [HuffDecode 2 2 33, HuffDecode 9 2 33, HuffDecode 23 2 33, HuffDecode 40 3 33, HuffDecode 2 2 34,
      HuffDecode 9 2 34, HuffDecode 23 2 34, HuffDecode 40 3 34, HuffDecode 2 2 40, HuffDecode 9 2 40,
      HuffDecode 23 2 40, HuffDecode 40 3 40, HuffDecode 2 2 41, HuffDecode 9 2 41, HuffDecode 23 2 41, HuffDecode 40 3 41],
     [HuffDecode 3 2 33, HuffDecode 6 2 33, HuffDecode 10 2 33, HuffDecode 15 2 33, HuffDecode 24 2 33,
      HuffDecode 31 2 33, HuffDecode 41 2 33, HuffDecode 56 3 33, HuffDecode 3 2 34, HuffDecode 6 2 34,
      HuffDecode 10 2 34, HuffDecode 15 2 34, HuffDecode 24 2 34, HuffDecode 31 2 34, HuffDecode 41 2 34, HuffDecode 56 3 34],
     [HuffDecode 3 2 40, HuffDecode 6 2 40, HuffDecode 10 2 40, HuffDecode 15 2 40, HuffDecode 24 2 40,
      HuffDecode 31 2 40, HuffDecode 41 2 40, HuffDecode 56 3 40, HuffDecode 3 2 41, HuffDecode 6 2 41,
      HuffDecode 10 2 41, HuffDecode 15 2 41, HuffDecode 24 2 41, HuffDecode 31 2 41, HuffDecode 41 2 41, HuffDecode 56 3 41],
     [HuffDecode 2 2 63, HuffDecode 9 2 63, HuffDecode 23 2 63, HuffDecode 40 3 63, HuffDecode 1 2 39,
      HuffDecode 22 3 39, HuffDecode 1 2 43, HuffDecode 22 3 43, HuffDecode 1 2 124, HuffDecode 22 3 124,
      HuffDecode 0 3 35, HuffDecode 0 3 62, HuffDecode 86 0 0, HuffDecode 87 0 0, HuffDecode 89 0 0, HuffDecode 90 0 0],
     [HuffDecode 3 2 63, HuffDecode 6 2 63, HuffDecode 10 2 63, HuffDecode 15 2 63, HuffDecode 24 2 63,
      HuffDecode 31 2 63, HuffDecode 41 2 63, HuffDecode 56 3 63, HuffDecode 2 2 39, HuffDecode 9 2 39,
      HuffDecode 23 2 39, HuffDecode 40 3 39, HuffDecode 2 2 43, HuffDecode 9 2 43, HuffDecode 23 2 43, HuffDecode 40 3 43]]"

definition huff_decode_table_10 :: "http2_huff_decode list list" where
  "huff_decode_table_10 =
    [[HuffDecode 3 2 39, HuffDecode 6 2 39, HuffDecode 10 2 39, HuffDecode 15 2 39, HuffDecode 24 2 39,
      HuffDecode 31 2 39, HuffDecode 41 2 39, HuffDecode 56 3 39, HuffDecode 3 2 43, HuffDecode 6 2 43,
      HuffDecode 10 2 43, HuffDecode 15 2 43, HuffDecode 24 2 43, HuffDecode 31 2 43, HuffDecode 41 2 43, HuffDecode 56 3 43],
     [HuffDecode 2 2 124, HuffDecode 9 2 124, HuffDecode 23 2 124, HuffDecode 40 3 124, HuffDecode 1 2 35,
      HuffDecode 22 3 35, HuffDecode 1 2 62, HuffDecode 22 3 62, HuffDecode 0 3 0, HuffDecode 0 3 36,
      HuffDecode 0 3 64, HuffDecode 0 3 91, HuffDecode 0 3 93, HuffDecode 0 3 126, HuffDecode 91 0 0, HuffDecode 92 0 0],
     [HuffDecode 3 2 124, HuffDecode 6 2 124, HuffDecode 10 2 124, HuffDecode 15 2 124, HuffDecode 24 2 124,
      HuffDecode 31 2 124, HuffDecode 41 2 124, HuffDecode 56 3 124, HuffDecode 2 2 35, HuffDecode 9 2 35,
      HuffDecode 23 2 35, HuffDecode 40 3 35, HuffDecode 2 2 62, HuffDecode 9 2 62, HuffDecode 23 2 62, HuffDecode 40 3 62],
     [HuffDecode 3 2 35, HuffDecode 6 2 35, HuffDecode 10 2 35, HuffDecode 15 2 35, HuffDecode 24 2 35,
      HuffDecode 31 2 35, HuffDecode 41 2 35, HuffDecode 56 3 35, HuffDecode 3 2 62, HuffDecode 6 2 62,
      HuffDecode 10 2 62, HuffDecode 15 2 62, HuffDecode 24 2 62, HuffDecode 31 2 62, HuffDecode 41 2 62, HuffDecode 56 3 62],
     [HuffDecode 1 2 0, HuffDecode 22 3 0, HuffDecode 1 2 36, HuffDecode 22 3 36, HuffDecode 1 2 64,
      HuffDecode 22 3 64, HuffDecode 1 2 91, HuffDecode 22 3 91, HuffDecode 1 2 93, HuffDecode 22 3 93,
      HuffDecode 1 2 126, HuffDecode 22 3 126, HuffDecode 0 3 94, HuffDecode 0 3 125, HuffDecode 93 0 0, HuffDecode 94 0 0],
     [HuffDecode 2 2 0, HuffDecode 9 2 0, HuffDecode 23 2 0, HuffDecode 40 3 0, HuffDecode 2 2 36,
      HuffDecode 9 2 36, HuffDecode 23 2 36, HuffDecode 40 3 36, HuffDecode 2 2 64, HuffDecode 9 2 64,
      HuffDecode 23 2 64, HuffDecode 40 3 64, HuffDecode 2 2 91, HuffDecode 9 2 91, HuffDecode 23 2 91, HuffDecode 40 3 91],
     [HuffDecode 3 2 0, HuffDecode 6 2 0, HuffDecode 10 2 0, HuffDecode 15 2 0, HuffDecode 24 2 0,
      HuffDecode 31 2 0, HuffDecode 41 2 0, HuffDecode 56 3 0, HuffDecode 3 2 36, HuffDecode 6 2 36,
      HuffDecode 10 2 36, HuffDecode 15 2 36, HuffDecode 24 2 36, HuffDecode 31 2 36, HuffDecode 41 2 36, HuffDecode 56 3 36],
     [HuffDecode 3 2 64, HuffDecode 6 2 64, HuffDecode 10 2 64, HuffDecode 15 2 64, HuffDecode 24 2 64,
      HuffDecode 31 2 64, HuffDecode 41 2 64, HuffDecode 56 3 64, HuffDecode 3 2 91, HuffDecode 6 2 91,
      HuffDecode 10 2 91, HuffDecode 15 2 91, HuffDecode 24 2 91, HuffDecode 31 2 91, HuffDecode 41 2 91, HuffDecode 56 3 91]]"

definition huff_decode_table_11 :: "http2_huff_decode list list" where
  "huff_decode_table_11 =
    [[HuffDecode 2 2 93, HuffDecode 9 2 93, HuffDecode 23 2 93, HuffDecode 40 3 93, HuffDecode 2 2 126,
      HuffDecode 9 2 126, HuffDecode 23 2 126, HuffDecode 40 3 126, HuffDecode 1 2 94, HuffDecode 22 3 94,
      HuffDecode 1 2 125, HuffDecode 22 3 125, HuffDecode 0 3 60, HuffDecode 0 3 96, HuffDecode 0 3 123, HuffDecode 95 0 0],
     [HuffDecode 3 2 93, HuffDecode 6 2 93, HuffDecode 10 2 93, HuffDecode 15 2 93, HuffDecode 24 2 93,
      HuffDecode 31 2 93, HuffDecode 41 2 93, HuffDecode 56 3 93, HuffDecode 3 2 126, HuffDecode 6 2 126,
      HuffDecode 10 2 126, HuffDecode 15 2 126, HuffDecode 24 2 126, HuffDecode 31 2 126, HuffDecode 41 2 126, HuffDecode 56 3 126],
     [HuffDecode 2 2 94, HuffDecode 9 2 94, HuffDecode 23 2 94, HuffDecode 40 3 94, HuffDecode 2 2 125,
      HuffDecode 9 2 125, HuffDecode 23 2 125, HuffDecode 40 3 125, HuffDecode 1 2 60, HuffDecode 22 3 60,
      HuffDecode 1 2 96, HuffDecode 22 3 96, HuffDecode 1 2 123, HuffDecode 22 3 123, HuffDecode 96 0 0, HuffDecode 110 0 0],
     [HuffDecode 3 2 94, HuffDecode 6 2 94, HuffDecode 10 2 94, HuffDecode 15 2 94, HuffDecode 24 2 94,
      HuffDecode 31 2 94, HuffDecode 41 2 94, HuffDecode 56 3 94, HuffDecode 3 2 125, HuffDecode 6 2 125,
      HuffDecode 10 2 125, HuffDecode 15 2 125, HuffDecode 24 2 125, HuffDecode 31 2 125, HuffDecode 41 2 125, HuffDecode 56 3 125],
     [HuffDecode 2 2 60, HuffDecode 9 2 60, HuffDecode 23 2 60, HuffDecode 40 3 60, HuffDecode 2 2 96,
      HuffDecode 9 2 96, HuffDecode 23 2 96, HuffDecode 40 3 96, HuffDecode 2 2 123, HuffDecode 9 2 123,
      HuffDecode 23 2 123, HuffDecode 40 3 123, HuffDecode 97 0 0, HuffDecode 101 0 0, HuffDecode 111 0 0, HuffDecode 133 0 0],
     [HuffDecode 3 2 60, HuffDecode 6 2 60, HuffDecode 10 2 60, HuffDecode 15 2 60, HuffDecode 24 2 60,
      HuffDecode 31 2 60, HuffDecode 41 2 60, HuffDecode 56 3 60, HuffDecode 3 2 96, HuffDecode 6 2 96,
      HuffDecode 10 2 96, HuffDecode 15 2 96, HuffDecode 24 2 96, HuffDecode 31 2 96, HuffDecode 41 2 96, HuffDecode 56 3 96],
     [HuffDecode 3 2 123, HuffDecode 6 2 123, HuffDecode 10 2 123, HuffDecode 15 2 123, HuffDecode 24 2 123,
      HuffDecode 31 2 123, HuffDecode 41 2 123, HuffDecode 56 3 123, HuffDecode 98 0 0, HuffDecode 99 0 0,
      HuffDecode 102 0 0, HuffDecode 105 0 0, HuffDecode 112 0 0, HuffDecode 119 0 0, HuffDecode 134 0 0, HuffDecode 153 0 0],
     [HuffDecode 0 3 92, HuffDecode 0 3 195, HuffDecode 0 3 208, HuffDecode 100 0 0, HuffDecode 103 0 0,
      HuffDecode 104 0 0, HuffDecode 106 0 0, HuffDecode 107 0 0, HuffDecode 113 0 0, HuffDecode 116 0 0,
      HuffDecode 120 0 0, HuffDecode 126 0 0, HuffDecode 135 0 0, HuffDecode 142 0 0, HuffDecode 154 0 0, HuffDecode 169 0 0]]"

definition huff_decode_table_12 :: "http2_huff_decode list list" where
  "huff_decode_table_12 =
    [[HuffDecode 1 2 92, HuffDecode 22 3 92, HuffDecode 1 2 195, HuffDecode 22 3 195, HuffDecode 1 2 208,
      HuffDecode 22 3 208, HuffDecode 0 3 128, HuffDecode 0 3 130, HuffDecode 0 3 131, HuffDecode 0 3 162,
      HuffDecode 0 3 184, HuffDecode 0 3 194, HuffDecode 0 3 224, HuffDecode 0 3 226, HuffDecode 108 0 0, HuffDecode 109 0 0],
     [HuffDecode 2 2 92, HuffDecode 9 2 92, HuffDecode 23 2 92, HuffDecode 40 3 92, HuffDecode 2 2 195,
      HuffDecode 9 2 195, HuffDecode 23 2 195, HuffDecode 40 3 195, HuffDecode 2 2 208, HuffDecode 9 2 208,
      HuffDecode 23 2 208, HuffDecode 40 3 208, HuffDecode 1 2 128, HuffDecode 22 3 128, HuffDecode 1 2 130, HuffDecode 22 3 130],
     [HuffDecode 3 2 92, HuffDecode 6 2 92, HuffDecode 10 2 92, HuffDecode 15 2 92, HuffDecode 24 2 92,
      HuffDecode 31 2 92, HuffDecode 41 2 92, HuffDecode 56 3 92, HuffDecode 3 2 195, HuffDecode 6 2 195,
      HuffDecode 10 2 195, HuffDecode 15 2 195, HuffDecode 24 2 195, HuffDecode 31 2 195, HuffDecode 41 2 195, HuffDecode 56 3 195],
     [HuffDecode 3 2 208, HuffDecode 6 2 208, HuffDecode 10 2 208, HuffDecode 15 2 208, HuffDecode 24 2 208,
      HuffDecode 31 2 208, HuffDecode 41 2 208, HuffDecode 56 3 208, HuffDecode 2 2 128, HuffDecode 9 2 128,
      HuffDecode 23 2 128, HuffDecode 40 3 128, HuffDecode 2 2 130, HuffDecode 9 2 130, HuffDecode 23 2 130, HuffDecode 40 3 130],
     [HuffDecode 3 2 128, HuffDecode 6 2 128, HuffDecode 10 2 128, HuffDecode 15 2 128, HuffDecode 24 2 128,
      HuffDecode 31 2 128, HuffDecode 41 2 128, HuffDecode 56 3 128, HuffDecode 3 2 130, HuffDecode 6 2 130,
      HuffDecode 10 2 130, HuffDecode 15 2 130, HuffDecode 24 2 130, HuffDecode 31 2 130, HuffDecode 41 2 130, HuffDecode 56 3 130],
     [HuffDecode 1 2 131, HuffDecode 22 3 131, HuffDecode 1 2 162, HuffDecode 22 3 162, HuffDecode 1 2 184,
      HuffDecode 22 3 184, HuffDecode 1 2 194, HuffDecode 22 3 194, HuffDecode 1 2 224, HuffDecode 22 3 224,
      HuffDecode 1 2 226, HuffDecode 22 3 226, HuffDecode 0 3 153, HuffDecode 0 3 161, HuffDecode 0 3 167, HuffDecode 0 3 172],
     [HuffDecode 2 2 131, HuffDecode 9 2 131, HuffDecode 23 2 131, HuffDecode 40 3 131, HuffDecode 2 2 162,
      HuffDecode 9 2 162, HuffDecode 23 2 162, HuffDecode 40 3 162, HuffDecode 2 2 184, HuffDecode 9 2 184,
      HuffDecode 23 2 184, HuffDecode 40 3 184, HuffDecode 2 2 194, HuffDecode 9 2 194, HuffDecode 23 2 194, HuffDecode 40 3 194],
     [HuffDecode 3 2 131, HuffDecode 6 2 131, HuffDecode 10 2 131, HuffDecode 15 2 131, HuffDecode 24 2 131,
      HuffDecode 31 2 131, HuffDecode 41 2 131, HuffDecode 56 3 131, HuffDecode 3 2 162, HuffDecode 6 2 162,
      HuffDecode 10 2 162, HuffDecode 15 2 162, HuffDecode 24 2 162, HuffDecode 31 2 162, HuffDecode 41 2 162, HuffDecode 56 3 162]]"

definition huff_decode_table_13 :: "http2_huff_decode list list" where
  "huff_decode_table_13 =
    [[HuffDecode 3 2 184, HuffDecode 6 2 184, HuffDecode 10 2 184, HuffDecode 15 2 184, HuffDecode 24 2 184,
      HuffDecode 31 2 184, HuffDecode 41 2 184, HuffDecode 56 3 184, HuffDecode 3 2 194, HuffDecode 6 2 194,
      HuffDecode 10 2 194, HuffDecode 15 2 194, HuffDecode 24 2 194, HuffDecode 31 2 194, HuffDecode 41 2 194, HuffDecode 56 3 194],
     [HuffDecode 2 2 224, HuffDecode 9 2 224, HuffDecode 23 2 224, HuffDecode 40 3 224, HuffDecode 2 2 226,
      HuffDecode 9 2 226, HuffDecode 23 2 226, HuffDecode 40 3 226, HuffDecode 1 2 153, HuffDecode 22 3 153,
      HuffDecode 1 2 161, HuffDecode 22 3 161, HuffDecode 1 2 167, HuffDecode 22 3 167, HuffDecode 1 2 172, HuffDecode 22 3 172],
     [HuffDecode 3 2 224, HuffDecode 6 2 224, HuffDecode 10 2 224, HuffDecode 15 2 224, HuffDecode 24 2 224,
      HuffDecode 31 2 224, HuffDecode 41 2 224, HuffDecode 56 3 224, HuffDecode 3 2 226, HuffDecode 6 2 226,
      HuffDecode 10 2 226, HuffDecode 15 2 226, HuffDecode 24 2 226, HuffDecode 31 2 226, HuffDecode 41 2 226, HuffDecode 56 3 226],
     [HuffDecode 2 2 153, HuffDecode 9 2 153, HuffDecode 23 2 153, HuffDecode 40 3 153, HuffDecode 2 2 161,
      HuffDecode 9 2 161, HuffDecode 23 2 161, HuffDecode 40 3 161, HuffDecode 2 2 167, HuffDecode 9 2 167,
      HuffDecode 23 2 167, HuffDecode 40 3 167, HuffDecode 2 2 172, HuffDecode 9 2 172, HuffDecode 23 2 172, HuffDecode 40 3 172],
     [HuffDecode 3 2 153, HuffDecode 6 2 153, HuffDecode 10 2 153, HuffDecode 15 2 153, HuffDecode 24 2 153,
      HuffDecode 31 2 153, HuffDecode 41 2 153, HuffDecode 56 3 153, HuffDecode 3 2 161, HuffDecode 6 2 161,
      HuffDecode 10 2 161, HuffDecode 15 2 161, HuffDecode 24 2 161, HuffDecode 31 2 161, HuffDecode 41 2 161, HuffDecode 56 3 161],
     [HuffDecode 3 2 167, HuffDecode 6 2 167, HuffDecode 10 2 167, HuffDecode 15 2 167, HuffDecode 24 2 167,
      HuffDecode 31 2 167, HuffDecode 41 2 167, HuffDecode 56 3 167, HuffDecode 3 2 172, HuffDecode 6 2 172,
      HuffDecode 10 2 172, HuffDecode 15 2 172, HuffDecode 24 2 172, HuffDecode 31 2 172, HuffDecode 41 2 172, HuffDecode 56 3 172],
     [HuffDecode 114 0 0, HuffDecode 115 0 0, HuffDecode 117 0 0, HuffDecode 118 0 0, HuffDecode 121 0 0,
      HuffDecode 123 0 0, HuffDecode 127 0 0, HuffDecode 130 0 0, HuffDecode 136 0 0, HuffDecode 139 0 0,
      HuffDecode 143 0 0, HuffDecode 146 0 0, HuffDecode 155 0 0, HuffDecode 162 0 0, HuffDecode 170 0 0, HuffDecode 180 0 0],
     [HuffDecode 0 3 176, HuffDecode 0 3 177, HuffDecode 0 3 179, HuffDecode 0 3 209, HuffDecode 0 3 216,
      HuffDecode 0 3 217, HuffDecode 0 3 227, HuffDecode 0 3 229, HuffDecode 0 3 230, HuffDecode 122 0 0,
      HuffDecode 124 0 0, HuffDecode 125 0 0, HuffDecode 128 0 0, HuffDecode 129 0 0, HuffDecode 131 0 0, HuffDecode 132 0 0]]"

definition huff_decode_table_14 :: "http2_huff_decode list list" where
  "huff_decode_table_14 =
    [[HuffDecode 1 2 176, HuffDecode 22 3 176, HuffDecode 1 2 177, HuffDecode 22 3 177, HuffDecode 1 2 179,
      HuffDecode 22 3 179, HuffDecode 1 2 209, HuffDecode 22 3 209, HuffDecode 1 2 216, HuffDecode 22 3 216,
      HuffDecode 1 2 217, HuffDecode 22 3 217, HuffDecode 1 2 227, HuffDecode 22 3 227, HuffDecode 1 2 229, HuffDecode 22 3 229],
     [HuffDecode 2 2 176, HuffDecode 9 2 176, HuffDecode 23 2 176, HuffDecode 40 3 176, HuffDecode 2 2 177,
      HuffDecode 9 2 177, HuffDecode 23 2 177, HuffDecode 40 3 177, HuffDecode 2 2 179, HuffDecode 9 2 179,
      HuffDecode 23 2 179, HuffDecode 40 3 179, HuffDecode 2 2 209, HuffDecode 9 2 209, HuffDecode 23 2 209, HuffDecode 40 3 209],
     [HuffDecode 3 2 176, HuffDecode 6 2 176, HuffDecode 10 2 176, HuffDecode 15 2 176, HuffDecode 24 2 176,
      HuffDecode 31 2 176, HuffDecode 41 2 176, HuffDecode 56 3 176, HuffDecode 3 2 177, HuffDecode 6 2 177,
      HuffDecode 10 2 177, HuffDecode 15 2 177, HuffDecode 24 2 177, HuffDecode 31 2 177, HuffDecode 41 2 177, HuffDecode 56 3 177],
     [HuffDecode 3 2 179, HuffDecode 6 2 179, HuffDecode 10 2 179, HuffDecode 15 2 179, HuffDecode 24 2 179,
      HuffDecode 31 2 179, HuffDecode 41 2 179, HuffDecode 56 3 179, HuffDecode 3 2 209, HuffDecode 6 2 209,
      HuffDecode 10 2 209, HuffDecode 15 2 209, HuffDecode 24 2 209, HuffDecode 31 2 209, HuffDecode 41 2 209, HuffDecode 56 3 209],
     [HuffDecode 2 2 216, HuffDecode 9 2 216, HuffDecode 23 2 216, HuffDecode 40 3 216, HuffDecode 2 2 217,
      HuffDecode 9 2 217, HuffDecode 23 2 217, HuffDecode 40 3 217, HuffDecode 2 2 227, HuffDecode 9 2 227,
      HuffDecode 23 2 227, HuffDecode 40 3 227, HuffDecode 2 2 229, HuffDecode 9 2 229, HuffDecode 23 2 229, HuffDecode 40 3 229],
     [HuffDecode 3 2 216, HuffDecode 6 2 216, HuffDecode 10 2 216, HuffDecode 15 2 216, HuffDecode 24 2 216,
      HuffDecode 31 2 216, HuffDecode 41 2 216, HuffDecode 56 3 216, HuffDecode 3 2 217, HuffDecode 6 2 217,
      HuffDecode 10 2 217, HuffDecode 15 2 217, HuffDecode 24 2 217, HuffDecode 31 2 217, HuffDecode 41 2 217, HuffDecode 56 3 217],
     [HuffDecode 3 2 227, HuffDecode 6 2 227, HuffDecode 10 2 227, HuffDecode 15 2 227, HuffDecode 24 2 227,
      HuffDecode 31 2 227, HuffDecode 41 2 227, HuffDecode 56 3 227, HuffDecode 3 2 229, HuffDecode 6 2 229,
      HuffDecode 10 2 229, HuffDecode 15 2 229, HuffDecode 24 2 229, HuffDecode 31 2 229, HuffDecode 41 2 229, HuffDecode 56 3 229],
     [HuffDecode 1 2 230, HuffDecode 22 3 230, HuffDecode 0 3 129, HuffDecode 0 3 132, HuffDecode 0 3 133,
      HuffDecode 0 3 134, HuffDecode 0 3 136, HuffDecode 0 3 146, HuffDecode 0 3 154, HuffDecode 0 3 156,
      HuffDecode 0 3 160, HuffDecode 0 3 163, HuffDecode 0 3 164, HuffDecode 0 3 169, HuffDecode 0 3 170, HuffDecode 0 3 173]]"

definition huff_decode_table_15 :: "http2_huff_decode list list" where
  "huff_decode_table_15 =
    [[HuffDecode 2 2 230, HuffDecode 9 2 230, HuffDecode 23 2 230, HuffDecode 40 3 230, HuffDecode 1 2 129,
      HuffDecode 22 3 129, HuffDecode 1 2 132, HuffDecode 22 3 132, HuffDecode 1 2 133, HuffDecode 22 3 133,
      HuffDecode 1 2 134, HuffDecode 22 3 134, HuffDecode 1 2 136, HuffDecode 22 3 136, HuffDecode 1 2 146, HuffDecode 22 3 146],
     [HuffDecode 3 2 230, HuffDecode 6 2 230, HuffDecode 10 2 230, HuffDecode 15 2 230, HuffDecode 24 2 230,
      HuffDecode 31 2 230, HuffDecode 41 2 230, HuffDecode 56 3 230, HuffDecode 2 2 129, HuffDecode 9 2 129,
      HuffDecode 23 2 129, HuffDecode 40 3 129, HuffDecode 2 2 132, HuffDecode 9 2 132, HuffDecode 23 2 132, HuffDecode 40 3 132],
     [HuffDecode 3 2 129, HuffDecode 6 2 129, HuffDecode 10 2 129, HuffDecode 15 2 129, HuffDecode 24 2 129,
      HuffDecode 31 2 129, HuffDecode 41 2 129, HuffDecode 56 3 129, HuffDecode 3 2 132, HuffDecode 6 2 132,
      HuffDecode 10 2 132, HuffDecode 15 2 132, HuffDecode 24 2 132, HuffDecode 31 2 132, HuffDecode 41 2 132, HuffDecode 56 3 132],
     [HuffDecode 2 2 133, HuffDecode 9 2 133, HuffDecode 23 2 133, HuffDecode 40 3 133, HuffDecode 2 2 134,
      HuffDecode 9 2 134, HuffDecode 23 2 134, HuffDecode 40 3 134, HuffDecode 2 2 136, HuffDecode 9 2 136,
      HuffDecode 23 2 136, HuffDecode 40 3 136, HuffDecode 2 2 146, HuffDecode 9 2 146, HuffDecode 23 2 146, HuffDecode 40 3 146],
     [HuffDecode 3 2 133, HuffDecode 6 2 133, HuffDecode 10 2 133, HuffDecode 15 2 133, HuffDecode 24 2 133,
      HuffDecode 31 2 133, HuffDecode 41 2 133, HuffDecode 56 3 133, HuffDecode 3 2 134, HuffDecode 6 2 134,
      HuffDecode 10 2 134, HuffDecode 15 2 134, HuffDecode 24 2 134, HuffDecode 31 2 134, HuffDecode 41 2 134, HuffDecode 56 3 134],
     [HuffDecode 3 2 136, HuffDecode 6 2 136, HuffDecode 10 2 136, HuffDecode 15 2 136, HuffDecode 24 2 136,
      HuffDecode 31 2 136, HuffDecode 41 2 136, HuffDecode 56 3 136, HuffDecode 3 2 146, HuffDecode 6 2 146,
      HuffDecode 10 2 146, HuffDecode 15 2 146, HuffDecode 24 2 146, HuffDecode 31 2 146, HuffDecode 41 2 146, HuffDecode 56 3 146],
     [HuffDecode 1 2 154, HuffDecode 22 3 154, HuffDecode 1 2 156, HuffDecode 22 3 156, HuffDecode 1 2 160,
      HuffDecode 22 3 160, HuffDecode 1 2 163, HuffDecode 22 3 163, HuffDecode 1 2 164, HuffDecode 22 3 164,
      HuffDecode 1 2 169, HuffDecode 22 3 169, HuffDecode 1 2 170, HuffDecode 22 3 170, HuffDecode 1 2 173, HuffDecode 22 3 173],
     [HuffDecode 2 2 154, HuffDecode 9 2 154, HuffDecode 23 2 154, HuffDecode 40 3 154, HuffDecode 2 2 156,
      HuffDecode 9 2 156, HuffDecode 23 2 156, HuffDecode 40 3 156, HuffDecode 2 2 160, HuffDecode 9 2 160,
      HuffDecode 23 2 160, HuffDecode 40 3 160, HuffDecode 2 2 163, HuffDecode 9 2 163, HuffDecode 23 2 163, HuffDecode 40 3 163]]"

definition huff_decode_table_16 :: "http2_huff_decode list list" where
  "huff_decode_table_16 =
    [[HuffDecode 3 2 154, HuffDecode 6 2 154, HuffDecode 10 2 154, HuffDecode 15 2 154, HuffDecode 24 2 154,
      HuffDecode 31 2 154, HuffDecode 41 2 154, HuffDecode 56 3 154, HuffDecode 3 2 156, HuffDecode 6 2 156,
      HuffDecode 10 2 156, HuffDecode 15 2 156, HuffDecode 24 2 156, HuffDecode 31 2 156, HuffDecode 41 2 156, HuffDecode 56 3 156],
     [HuffDecode 3 2 160, HuffDecode 6 2 160, HuffDecode 10 2 160, HuffDecode 15 2 160, HuffDecode 24 2 160,
      HuffDecode 31 2 160, HuffDecode 41 2 160, HuffDecode 56 3 160, HuffDecode 3 2 163, HuffDecode 6 2 163,
      HuffDecode 10 2 163, HuffDecode 15 2 163, HuffDecode 24 2 163, HuffDecode 31 2 163, HuffDecode 41 2 163, HuffDecode 56 3 163],
     [HuffDecode 2 2 164, HuffDecode 9 2 164, HuffDecode 23 2 164, HuffDecode 40 3 164, HuffDecode 2 2 169,
      HuffDecode 9 2 169, HuffDecode 23 2 169, HuffDecode 40 3 169, HuffDecode 2 2 170, HuffDecode 9 2 170,
      HuffDecode 23 2 170, HuffDecode 40 3 170, HuffDecode 2 2 173, HuffDecode 9 2 173, HuffDecode 23 2 173, HuffDecode 40 3 173],
     [HuffDecode 3 2 164, HuffDecode 6 2 164, HuffDecode 10 2 164, HuffDecode 15 2 164, HuffDecode 24 2 164,
      HuffDecode 31 2 164, HuffDecode 41 2 164, HuffDecode 56 3 164, HuffDecode 3 2 169, HuffDecode 6 2 169,
      HuffDecode 10 2 169, HuffDecode 15 2 169, HuffDecode 24 2 169, HuffDecode 31 2 169, HuffDecode 41 2 169, HuffDecode 56 3 169],
     [HuffDecode 3 2 170, HuffDecode 6 2 170, HuffDecode 10 2 170, HuffDecode 15 2 170, HuffDecode 24 2 170,
      HuffDecode 31 2 170, HuffDecode 41 2 170, HuffDecode 56 3 170, HuffDecode 3 2 173, HuffDecode 6 2 173,
      HuffDecode 10 2 173, HuffDecode 15 2 173, HuffDecode 24 2 173, HuffDecode 31 2 173, HuffDecode 41 2 173, HuffDecode 56 3 173],
     [HuffDecode 137 0 0, HuffDecode 138 0 0, HuffDecode 140 0 0, HuffDecode 141 0 0, HuffDecode 144 0 0,
      HuffDecode 145 0 0, HuffDecode 147 0 0, HuffDecode 150 0 0, HuffDecode 156 0 0, HuffDecode 159 0 0,
      HuffDecode 163 0 0, HuffDecode 166 0 0, HuffDecode 171 0 0, HuffDecode 174 0 0, HuffDecode 181 0 0, HuffDecode 190 0 0],
     [HuffDecode 0 3 178, HuffDecode 0 3 181, HuffDecode 0 3 185, HuffDecode 0 3 186, HuffDecode 0 3 187,
      HuffDecode 0 3 189, HuffDecode 0 3 190, HuffDecode 0 3 196, HuffDecode 0 3 198, HuffDecode 0 3 228,
      HuffDecode 0 3 232, HuffDecode 0 3 233, HuffDecode 148 0 0, HuffDecode 149 0 0, HuffDecode 151 0 0, HuffDecode 152 0 0],
     [HuffDecode 1 2 178, HuffDecode 22 3 178, HuffDecode 1 2 181, HuffDecode 22 3 181, HuffDecode 1 2 185,
      HuffDecode 22 3 185, HuffDecode 1 2 186, HuffDecode 22 3 186, HuffDecode 1 2 187, HuffDecode 22 3 187,
      HuffDecode 1 2 189, HuffDecode 22 3 189, HuffDecode 1 2 190, HuffDecode 22 3 190, HuffDecode 1 2 196, HuffDecode 22 3 196]]"

definition huff_decode_table_17 :: "http2_huff_decode list list" where
  "huff_decode_table_17 =
    [[HuffDecode 2 2 178, HuffDecode 9 2 178, HuffDecode 23 2 178, HuffDecode 40 3 178, HuffDecode 2 2 181,
      HuffDecode 9 2 181, HuffDecode 23 2 181, HuffDecode 40 3 181, HuffDecode 2 2 185, HuffDecode 9 2 185,
      HuffDecode 23 2 185, HuffDecode 40 3 185, HuffDecode 2 2 186, HuffDecode 9 2 186, HuffDecode 23 2 186, HuffDecode 40 3 186],
     [HuffDecode 3 2 178, HuffDecode 6 2 178, HuffDecode 10 2 178, HuffDecode 15 2 178, HuffDecode 24 2 178,
      HuffDecode 31 2 178, HuffDecode 41 2 178, HuffDecode 56 3 178, HuffDecode 3 2 181, HuffDecode 6 2 181,
      HuffDecode 10 2 181, HuffDecode 15 2 181, HuffDecode 24 2 181, HuffDecode 31 2 181, HuffDecode 41 2 181, HuffDecode 56 3 181],
     [HuffDecode 3 2 185, HuffDecode 6 2 185, HuffDecode 10 2 185, HuffDecode 15 2 185, HuffDecode 24 2 185,
      HuffDecode 31 2 185, HuffDecode 41 2 185, HuffDecode 56 3 185, HuffDecode 3 2 186, HuffDecode 6 2 186,
      HuffDecode 10 2 186, HuffDecode 15 2 186, HuffDecode 24 2 186, HuffDecode 31 2 186, HuffDecode 41 2 186, HuffDecode 56 3 186],
     [HuffDecode 2 2 187, HuffDecode 9 2 187, HuffDecode 23 2 187, HuffDecode 40 3 187, HuffDecode 2 2 189,
      HuffDecode 9 2 189, HuffDecode 23 2 189, HuffDecode 40 3 189, HuffDecode 2 2 190, HuffDecode 9 2 190,
      HuffDecode 23 2 190, HuffDecode 40 3 190, HuffDecode 2 2 196, HuffDecode 9 2 196, HuffDecode 23 2 196, HuffDecode 40 3 196],
     [HuffDecode 3 2 187, HuffDecode 6 2 187, HuffDecode 10 2 187, HuffDecode 15 2 187, HuffDecode 24 2 187,
      HuffDecode 31 2 187, HuffDecode 41 2 187, HuffDecode 56 3 187, HuffDecode 3 2 189, HuffDecode 6 2 189,
      HuffDecode 10 2 189, HuffDecode 15 2 189, HuffDecode 24 2 189, HuffDecode 31 2 189, HuffDecode 41 2 189, HuffDecode 56 3 189],
     [HuffDecode 3 2 190, HuffDecode 6 2 190, HuffDecode 10 2 190, HuffDecode 15 2 190, HuffDecode 24 2 190,
      HuffDecode 31 2 190, HuffDecode 41 2 190, HuffDecode 56 3 190, HuffDecode 3 2 196, HuffDecode 6 2 196,
      HuffDecode 10 2 196, HuffDecode 15 2 196, HuffDecode 24 2 196, HuffDecode 31 2 196, HuffDecode 41 2 196, HuffDecode 56 3 196],
     [HuffDecode 1 2 198, HuffDecode 22 3 198, HuffDecode 1 2 228, HuffDecode 22 3 228, HuffDecode 1 2 232,
      HuffDecode 22 3 232, HuffDecode 1 2 233, HuffDecode 22 3 233, HuffDecode 0 3 1, HuffDecode 0 3 135,
      HuffDecode 0 3 137, HuffDecode 0 3 138, HuffDecode 0 3 139, HuffDecode 0 3 140, HuffDecode 0 3 141, HuffDecode 0 3 143],
     [HuffDecode 2 2 198, HuffDecode 9 2 198, HuffDecode 23 2 198, HuffDecode 40 3 198, HuffDecode 2 2 228,
      HuffDecode 9 2 228, HuffDecode 23 2 228, HuffDecode 40 3 228, HuffDecode 2 2 232, HuffDecode 9 2 232,
      HuffDecode 23 2 232, HuffDecode 40 3 232, HuffDecode 2 2 233, HuffDecode 9 2 233, HuffDecode 23 2 233, HuffDecode 40 3 233]]"

definition huff_decode_table_18 :: "http2_huff_decode list list" where
  "huff_decode_table_18 =
    [[HuffDecode 3 2 198, HuffDecode 6 2 198, HuffDecode 10 2 198, HuffDecode 15 2 198, HuffDecode 24 2 198,
      HuffDecode 31 2 198, HuffDecode 41 2 198, HuffDecode 56 3 198, HuffDecode 3 2 228, HuffDecode 6 2 228,
      HuffDecode 10 2 228, HuffDecode 15 2 228, HuffDecode 24 2 228, HuffDecode 31 2 228, HuffDecode 41 2 228, HuffDecode 56 3 228],
     [HuffDecode 3 2 232, HuffDecode 6 2 232, HuffDecode 10 2 232, HuffDecode 15 2 232, HuffDecode 24 2 232,
      HuffDecode 31 2 232, HuffDecode 41 2 232, HuffDecode 56 3 232, HuffDecode 3 2 233, HuffDecode 6 2 233,
      HuffDecode 10 2 233, HuffDecode 15 2 233, HuffDecode 24 2 233, HuffDecode 31 2 233, HuffDecode 41 2 233, HuffDecode 56 3 233],
     [HuffDecode 1 2 1, HuffDecode 22 3 1, HuffDecode 1 2 135, HuffDecode 22 3 135, HuffDecode 1 2 137,
      HuffDecode 22 3 137, HuffDecode 1 2 138, HuffDecode 22 3 138, HuffDecode 1 2 139, HuffDecode 22 3 139,
      HuffDecode 1 2 140, HuffDecode 22 3 140, HuffDecode 1 2 141, HuffDecode 22 3 141, HuffDecode 1 2 143, HuffDecode 22 3 143],
     [HuffDecode 2 2 1, HuffDecode 9 2 1, HuffDecode 23 2 1, HuffDecode 40 3 1, HuffDecode 2 2 135,
      HuffDecode 9 2 135, HuffDecode 23 2 135, HuffDecode 40 3 135, HuffDecode 2 2 137, HuffDecode 9 2 137,
      HuffDecode 23 2 137, HuffDecode 40 3 137, HuffDecode 2 2 138, HuffDecode 9 2 138, HuffDecode 23 2 138, HuffDecode 40 3 138],
     [HuffDecode 3 2 1, HuffDecode 6 2 1, HuffDecode 10 2 1, HuffDecode 15 2 1, HuffDecode 24 2 1,
      HuffDecode 31 2 1, HuffDecode 41 2 1, HuffDecode 56 3 1, HuffDecode 3 2 135, HuffDecode 6 2 135,
      HuffDecode 10 2 135, HuffDecode 15 2 135, HuffDecode 24 2 135, HuffDecode 31 2 135, HuffDecode 41 2 135, HuffDecode 56 3 135],
     [HuffDecode 3 2 137, HuffDecode 6 2 137, HuffDecode 10 2 137, HuffDecode 15 2 137, HuffDecode 24 2 137,
      HuffDecode 31 2 137, HuffDecode 41 2 137, HuffDecode 56 3 137, HuffDecode 3 2 138, HuffDecode 6 2 138,
      HuffDecode 10 2 138, HuffDecode 15 2 138, HuffDecode 24 2 138, HuffDecode 31 2 138, HuffDecode 41 2 138, HuffDecode 56 3 138],
     [HuffDecode 2 2 139, HuffDecode 9 2 139, HuffDecode 23 2 139, HuffDecode 40 3 139, HuffDecode 2 2 140,
      HuffDecode 9 2 140, HuffDecode 23 2 140, HuffDecode 40 3 140, HuffDecode 2 2 141, HuffDecode 9 2 141,
      HuffDecode 23 2 141, HuffDecode 40 3 141, HuffDecode 2 2 143, HuffDecode 9 2 143, HuffDecode 23 2 143, HuffDecode 40 3 143],
     [HuffDecode 3 2 139, HuffDecode 6 2 139, HuffDecode 10 2 139, HuffDecode 15 2 139, HuffDecode 24 2 139,
      HuffDecode 31 2 139, HuffDecode 41 2 139, HuffDecode 56 3 139, HuffDecode 3 2 140, HuffDecode 6 2 140,
      HuffDecode 10 2 140, HuffDecode 15 2 140, HuffDecode 24 2 140, HuffDecode 31 2 140, HuffDecode 41 2 140, HuffDecode 56 3 140]]"

definition huff_decode_table_19 :: "http2_huff_decode list list" where
  "huff_decode_table_19 =
    [[HuffDecode 3 2 141, HuffDecode 6 2 141, HuffDecode 10 2 141, HuffDecode 15 2 141, HuffDecode 24 2 141,
      HuffDecode 31 2 141, HuffDecode 41 2 141, HuffDecode 56 3 141, HuffDecode 3 2 143, HuffDecode 6 2 143,
      HuffDecode 10 2 143, HuffDecode 15 2 143, HuffDecode 24 2 143, HuffDecode 31 2 143, HuffDecode 41 2 143, HuffDecode 56 3 143],
     [HuffDecode 157 0 0, HuffDecode 158 0 0, HuffDecode 160 0 0, HuffDecode 161 0 0, HuffDecode 164 0 0,
      HuffDecode 165 0 0, HuffDecode 167 0 0, HuffDecode 168 0 0, HuffDecode 172 0 0, HuffDecode 173 0 0,
      HuffDecode 175 0 0, HuffDecode 177 0 0, HuffDecode 182 0 0, HuffDecode 185 0 0, HuffDecode 191 0 0, HuffDecode 207 0 0],
     [HuffDecode 0 3 147, HuffDecode 0 3 149, HuffDecode 0 3 150, HuffDecode 0 3 151, HuffDecode 0 3 152,
      HuffDecode 0 3 155, HuffDecode 0 3 157, HuffDecode 0 3 158, HuffDecode 0 3 165, HuffDecode 0 3 166,
      HuffDecode 0 3 168, HuffDecode 0 3 174, HuffDecode 0 3 175, HuffDecode 0 3 180, HuffDecode 0 3 182, HuffDecode 0 3 183],
     [HuffDecode 1 2 147, HuffDecode 22 3 147, HuffDecode 1 2 149, HuffDecode 22 3 149, HuffDecode 1 2 150,
      HuffDecode 22 3 150, HuffDecode 1 2 151, HuffDecode 22 3 151, HuffDecode 1 2 152, HuffDecode 22 3 152,
      HuffDecode 1 2 155, HuffDecode 22 3 155, HuffDecode 1 2 157, HuffDecode 22 3 157, HuffDecode 1 2 158, HuffDecode 22 3 158],
     [HuffDecode 2 2 147, HuffDecode 9 2 147, HuffDecode 23 2 147, HuffDecode 40 3 147, HuffDecode 2 2 149,
      HuffDecode 9 2 149, HuffDecode 23 2 149, HuffDecode 40 3 149, HuffDecode 2 2 150, HuffDecode 9 2 150,
      HuffDecode 23 2 150, HuffDecode 40 3 150, HuffDecode 2 2 151, HuffDecode 9 2 151, HuffDecode 23 2 151, HuffDecode 40 3 151],
     [HuffDecode 3 2 147, HuffDecode 6 2 147, HuffDecode 10 2 147, HuffDecode 15 2 147, HuffDecode 24 2 147,
      HuffDecode 31 2 147, HuffDecode 41 2 147, HuffDecode 56 3 147, HuffDecode 3 2 149, HuffDecode 6 2 149,
      HuffDecode 10 2 149, HuffDecode 15 2 149, HuffDecode 24 2 149, HuffDecode 31 2 149, HuffDecode 41 2 149, HuffDecode 56 3 149],
     [HuffDecode 3 2 150, HuffDecode 6 2 150, HuffDecode 10 2 150, HuffDecode 15 2 150, HuffDecode 24 2 150,
      HuffDecode 31 2 150, HuffDecode 41 2 150, HuffDecode 56 3 150, HuffDecode 3 2 151, HuffDecode 6 2 151,
      HuffDecode 10 2 151, HuffDecode 15 2 151, HuffDecode 24 2 151, HuffDecode 31 2 151, HuffDecode 41 2 151, HuffDecode 56 3 151],
     [HuffDecode 2 2 152, HuffDecode 9 2 152, HuffDecode 23 2 152, HuffDecode 40 3 152, HuffDecode 2 2 155,
      HuffDecode 9 2 155, HuffDecode 23 2 155, HuffDecode 40 3 155, HuffDecode 2 2 157, HuffDecode 9 2 157,
      HuffDecode 23 2 157, HuffDecode 40 3 157, HuffDecode 2 2 158, HuffDecode 9 2 158, HuffDecode 23 2 158, HuffDecode 40 3 158]]"

definition huff_decode_table_20 :: "http2_huff_decode list list" where
  "huff_decode_table_20 =
    [[HuffDecode 3 2 152, HuffDecode 6 2 152, HuffDecode 10 2 152, HuffDecode 15 2 152, HuffDecode 24 2 152,
      HuffDecode 31 2 152, HuffDecode 41 2 152, HuffDecode 56 3 152, HuffDecode 3 2 155, HuffDecode 6 2 155,
      HuffDecode 10 2 155, HuffDecode 15 2 155, HuffDecode 24 2 155, HuffDecode 31 2 155, HuffDecode 41 2 155, HuffDecode 56 3 155],
     [HuffDecode 3 2 157, HuffDecode 6 2 157, HuffDecode 10 2 157, HuffDecode 15 2 157, HuffDecode 24 2 157,
      HuffDecode 31 2 157, HuffDecode 41 2 157, HuffDecode 56 3 157, HuffDecode 3 2 158, HuffDecode 6 2 158,
      HuffDecode 10 2 158, HuffDecode 15 2 158, HuffDecode 24 2 158, HuffDecode 31 2 158, HuffDecode 41 2 158, HuffDecode 56 3 158],
     [HuffDecode 1 2 165, HuffDecode 22 3 165, HuffDecode 1 2 166, HuffDecode 22 3 166, HuffDecode 1 2 168,
      HuffDecode 22 3 168, HuffDecode 1 2 174, HuffDecode 22 3 174, HuffDecode 1 2 175, HuffDecode 22 3 175,
      HuffDecode 1 2 180, HuffDecode 22 3 180, HuffDecode 1 2 182, HuffDecode 22 3 182, HuffDecode 1 2 183, HuffDecode 22 3 183],
     [HuffDecode 2 2 165, HuffDecode 9 2 165, HuffDecode 23 2 165, HuffDecode 40 3 165, HuffDecode 2 2 166,
      HuffDecode 9 2 166, HuffDecode 23 2 166, HuffDecode 40 3 166, HuffDecode 2 2 168, HuffDecode 9 2 168,
      HuffDecode 23 2 168, HuffDecode 40 3 168, HuffDecode 2 2 174, HuffDecode 9 2 174, HuffDecode 23 2 174, HuffDecode 40 3 174],
     [HuffDecode 3 2 165, HuffDecode 6 2 165, HuffDecode 10 2 165, HuffDecode 15 2 165, HuffDecode 24 2 165,
      HuffDecode 31 2 165, HuffDecode 41 2 165, HuffDecode 56 3 165, HuffDecode 3 2 166, HuffDecode 6 2 166,
      HuffDecode 10 2 166, HuffDecode 15 2 166, HuffDecode 24 2 166, HuffDecode 31 2 166, HuffDecode 41 2 166, HuffDecode 56 3 166],
     [HuffDecode 3 2 168, HuffDecode 6 2 168, HuffDecode 10 2 168, HuffDecode 15 2 168, HuffDecode 24 2 168,
      HuffDecode 31 2 168, HuffDecode 41 2 168, HuffDecode 56 3 168, HuffDecode 3 2 174, HuffDecode 6 2 174,
      HuffDecode 10 2 174, HuffDecode 15 2 174, HuffDecode 24 2 174, HuffDecode 31 2 174, HuffDecode 41 2 174, HuffDecode 56 3 174],
     [HuffDecode 2 2 175, HuffDecode 9 2 175, HuffDecode 23 2 175, HuffDecode 40 3 175, HuffDecode 2 2 180,
      HuffDecode 9 2 180, HuffDecode 23 2 180, HuffDecode 40 3 180, HuffDecode 2 2 182, HuffDecode 9 2 182,
      HuffDecode 23 2 182, HuffDecode 40 3 182, HuffDecode 2 2 183, HuffDecode 9 2 183, HuffDecode 23 2 183, HuffDecode 40 3 183],
     [HuffDecode 3 2 175, HuffDecode 6 2 175, HuffDecode 10 2 175, HuffDecode 15 2 175, HuffDecode 24 2 175,
      HuffDecode 31 2 175, HuffDecode 41 2 175, HuffDecode 56 3 175, HuffDecode 3 2 180, HuffDecode 6 2 180,
      HuffDecode 10 2 180, HuffDecode 15 2 180, HuffDecode 24 2 180, HuffDecode 31 2 180, HuffDecode 41 2 180, HuffDecode 56 3 180]]"

definition huff_decode_table_21 :: "http2_huff_decode list list" where
  "huff_decode_table_21 =
    [[HuffDecode 3 2 182, HuffDecode 6 2 182, HuffDecode 10 2 182, HuffDecode 15 2 182, HuffDecode 24 2 182,
      HuffDecode 31 2 182, HuffDecode 41 2 182, HuffDecode 56 3 182, HuffDecode 3 2 183, HuffDecode 6 2 183,
      HuffDecode 10 2 183, HuffDecode 15 2 183, HuffDecode 24 2 183, HuffDecode 31 2 183, HuffDecode 41 2 183, HuffDecode 56 3 183],
     [HuffDecode 0 3 188, HuffDecode 0 3 191, HuffDecode 0 3 197, HuffDecode 0 3 231, HuffDecode 0 3 239,
      HuffDecode 176 0 0, HuffDecode 178 0 0, HuffDecode 179 0 0, HuffDecode 183 0 0, HuffDecode 184 0 0,
      HuffDecode 186 0 0, HuffDecode 187 0 0, HuffDecode 192 0 0, HuffDecode 199 0 0, HuffDecode 208 0 0, HuffDecode 223 0 0],
     [HuffDecode 1 2 188, HuffDecode 22 3 188, HuffDecode 1 2 191, HuffDecode 22 3 191, HuffDecode 1 2 197,
      HuffDecode 22 3 197, HuffDecode 1 2 231, HuffDecode 22 3 231, HuffDecode 1 2 239, HuffDecode 22 3 239,
      HuffDecode 0 3 9, HuffDecode 0 3 142, HuffDecode 0 3 144, HuffDecode 0 3 145, HuffDecode 0 3 148, HuffDecode 0 3 159],
     [HuffDecode 2 2 188, HuffDecode 9 2 188, HuffDecode 23 2 188, HuffDecode 40 3 188, HuffDecode 2 2 191,
      HuffDecode 9 2 191, HuffDecode 23 2 191, HuffDecode 40 3 191, HuffDecode 2 2 197, HuffDecode 9 2 197,
      HuffDecode 23 2 197, HuffDecode 40 3 197, HuffDecode 2 2 231, HuffDecode 9 2 231, HuffDecode 23 2 231, HuffDecode 40 3 231],
     [HuffDecode 3 2 188, HuffDecode 6 2 188, HuffDecode 10 2 188, HuffDecode 15 2 188, HuffDecode 24 2 188,
      HuffDecode 31 2 188, HuffDecode 41 2 188, HuffDecode 56 3 188, HuffDecode 3 2 191, HuffDecode 6 2 191,
      HuffDecode 10 2 191, HuffDecode 15 2 191, HuffDecode 24 2 191, HuffDecode 31 2 191, HuffDecode 41 2 191, HuffDecode 56 3 191],
     [HuffDecode 3 2 197, HuffDecode 6 2 197, HuffDecode 10 2 197, HuffDecode 15 2 197, HuffDecode 24 2 197,
      HuffDecode 31 2 197, HuffDecode 41 2 197, HuffDecode 56 3 197, HuffDecode 3 2 231, HuffDecode 6 2 231,
      HuffDecode 10 2 231, HuffDecode 15 2 231, HuffDecode 24 2 231, HuffDecode 31 2 231, HuffDecode 41 2 231, HuffDecode 56 3 231],
     [HuffDecode 2 2 239, HuffDecode 9 2 239, HuffDecode 23 2 239, HuffDecode 40 3 239, HuffDecode 1 2 9,
      HuffDecode 22 3 9, HuffDecode 1 2 142, HuffDecode 22 3 142, HuffDecode 1 2 144, HuffDecode 22 3 144,
      HuffDecode 1 2 145, HuffDecode 22 3 145, HuffDecode 1 2 148, HuffDecode 22 3 148, HuffDecode 1 2 159, HuffDecode 22 3 159],
     [HuffDecode 3 2 239, HuffDecode 6 2 239, HuffDecode 10 2 239, HuffDecode 15 2 239, HuffDecode 24 2 239,
      HuffDecode 31 2 239, HuffDecode 41 2 239, HuffDecode 56 3 239, HuffDecode 2 2 9, HuffDecode 9 2 9,
      HuffDecode 23 2 9, HuffDecode 40 3 9, HuffDecode 2 2 142, HuffDecode 9 2 142, HuffDecode 23 2 142, HuffDecode 40 3 142]]"

definition huff_decode_table_22 :: "http2_huff_decode list list" where
  "huff_decode_table_22 =
    [[HuffDecode 3 2 9, HuffDecode 6 2 9, HuffDecode 10 2 9, HuffDecode 15 2 9, HuffDecode 24 2 9,
      HuffDecode 31 2 9, HuffDecode 41 2 9, HuffDecode 56 3 9, HuffDecode 3 2 142, HuffDecode 6 2 142,
      HuffDecode 10 2 142, HuffDecode 15 2 142, HuffDecode 24 2 142, HuffDecode 31 2 142, HuffDecode 41 2 142, HuffDecode 56 3 142],
     [HuffDecode 2 2 144, HuffDecode 9 2 144, HuffDecode 23 2 144, HuffDecode 40 3 144, HuffDecode 2 2 145,
      HuffDecode 9 2 145, HuffDecode 23 2 145, HuffDecode 40 3 145, HuffDecode 2 2 148, HuffDecode 9 2 148,
      HuffDecode 23 2 148, HuffDecode 40 3 148, HuffDecode 2 2 159, HuffDecode 9 2 159, HuffDecode 23 2 159, HuffDecode 40 3 159],
     [HuffDecode 3 2 144, HuffDecode 6 2 144, HuffDecode 10 2 144, HuffDecode 15 2 144, HuffDecode 24 2 144,
      HuffDecode 31 2 144, HuffDecode 41 2 144, HuffDecode 56 3 144, HuffDecode 3 2 145, HuffDecode 6 2 145,
      HuffDecode 10 2 145, HuffDecode 15 2 145, HuffDecode 24 2 145, HuffDecode 31 2 145, HuffDecode 41 2 145, HuffDecode 56 3 145],
     [HuffDecode 3 2 148, HuffDecode 6 2 148, HuffDecode 10 2 148, HuffDecode 15 2 148, HuffDecode 24 2 148,
      HuffDecode 31 2 148, HuffDecode 41 2 148, HuffDecode 56 3 148, HuffDecode 3 2 159, HuffDecode 6 2 159,
      HuffDecode 10 2 159, HuffDecode 15 2 159, HuffDecode 24 2 159, HuffDecode 31 2 159, HuffDecode 41 2 159, HuffDecode 56 3 159],
     [HuffDecode 0 3 171, HuffDecode 0 3 206, HuffDecode 0 3 215, HuffDecode 0 3 225, HuffDecode 0 3 236,
      HuffDecode 0 3 237, HuffDecode 188 0 0, HuffDecode 189 0 0, HuffDecode 193 0 0, HuffDecode 196 0 0,
      HuffDecode 200 0 0, HuffDecode 203 0 0, HuffDecode 209 0 0, HuffDecode 216 0 0, HuffDecode 224 0 0, HuffDecode 238 0 0],
     [HuffDecode 1 2 171, HuffDecode 22 3 171, HuffDecode 1 2 206, HuffDecode 22 3 206, HuffDecode 1 2 215,
      HuffDecode 22 3 215, HuffDecode 1 2 225, HuffDecode 22 3 225, HuffDecode 1 2 236, HuffDecode 22 3 236,
      HuffDecode 1 2 237, HuffDecode 22 3 237, HuffDecode 0 3 199, HuffDecode 0 3 207, HuffDecode 0 3 234, HuffDecode 0 3 235],
     [HuffDecode 2 2 171, HuffDecode 9 2 171, HuffDecode 23 2 171, HuffDecode 40 3 171, HuffDecode 2 2 206,
      HuffDecode 9 2 206, HuffDecode 23 2 206, HuffDecode 40 3 206, HuffDecode 2 2 215, HuffDecode 9 2 215,
      HuffDecode 23 2 215, HuffDecode 40 3 215, HuffDecode 2 2 225, HuffDecode 9 2 225, HuffDecode 23 2 225, HuffDecode 40 3 225],
     [HuffDecode 3 2 171, HuffDecode 6 2 171, HuffDecode 10 2 171, HuffDecode 15 2 171, HuffDecode 24 2 171,
      HuffDecode 31 2 171, HuffDecode 41 2 171, HuffDecode 56 3 171, HuffDecode 3 2 206, HuffDecode 6 2 206,
      HuffDecode 10 2 206, HuffDecode 15 2 206, HuffDecode 24 2 206, HuffDecode 31 2 206, HuffDecode 41 2 206, HuffDecode 56 3 206]]"

definition huff_decode_table_23 :: "http2_huff_decode list list" where
  "huff_decode_table_23 =
    [[HuffDecode 3 2 215, HuffDecode 6 2 215, HuffDecode 10 2 215, HuffDecode 15 2 215, HuffDecode 24 2 215,
      HuffDecode 31 2 215, HuffDecode 41 2 215, HuffDecode 56 3 215, HuffDecode 3 2 225, HuffDecode 6 2 225,
      HuffDecode 10 2 225, HuffDecode 15 2 225, HuffDecode 24 2 225, HuffDecode 31 2 225, HuffDecode 41 2 225, HuffDecode 56 3 225],
     [HuffDecode 2 2 236, HuffDecode 9 2 236, HuffDecode 23 2 236, HuffDecode 40 3 236, HuffDecode 2 2 237,
      HuffDecode 9 2 237, HuffDecode 23 2 237, HuffDecode 40 3 237, HuffDecode 1 2 199, HuffDecode 22 3 199,
      HuffDecode 1 2 207, HuffDecode 22 3 207, HuffDecode 1 2 234, HuffDecode 22 3 234, HuffDecode 1 2 235, HuffDecode 22 3 235],
     [HuffDecode 3 2 236, HuffDecode 6 2 236, HuffDecode 10 2 236, HuffDecode 15 2 236, HuffDecode 24 2 236,
      HuffDecode 31 2 236, HuffDecode 41 2 236, HuffDecode 56 3 236, HuffDecode 3 2 237, HuffDecode 6 2 237,
      HuffDecode 10 2 237, HuffDecode 15 2 237, HuffDecode 24 2 237, HuffDecode 31 2 237, HuffDecode 41 2 237, HuffDecode 56 3 237],
     [HuffDecode 2 2 199, HuffDecode 9 2 199, HuffDecode 23 2 199, HuffDecode 40 3 199, HuffDecode 2 2 207,
      HuffDecode 9 2 207, HuffDecode 23 2 207, HuffDecode 40 3 207, HuffDecode 2 2 234, HuffDecode 9 2 234,
      HuffDecode 23 2 234, HuffDecode 40 3 234, HuffDecode 2 2 235, HuffDecode 9 2 235, HuffDecode 23 2 235, HuffDecode 40 3 235],
     [HuffDecode 3 2 199, HuffDecode 6 2 199, HuffDecode 10 2 199, HuffDecode 15 2 199, HuffDecode 24 2 199,
      HuffDecode 31 2 199, HuffDecode 41 2 199, HuffDecode 56 3 199, HuffDecode 3 2 207, HuffDecode 6 2 207,
      HuffDecode 10 2 207, HuffDecode 15 2 207, HuffDecode 24 2 207, HuffDecode 31 2 207, HuffDecode 41 2 207, HuffDecode 56 3 207],
     [HuffDecode 3 2 234, HuffDecode 6 2 234, HuffDecode 10 2 234, HuffDecode 15 2 234, HuffDecode 24 2 234,
      HuffDecode 31 2 234, HuffDecode 41 2 234, HuffDecode 56 3 234, HuffDecode 3 2 235, HuffDecode 6 2 235,
      HuffDecode 10 2 235, HuffDecode 15 2 235, HuffDecode 24 2 235, HuffDecode 31 2 235, HuffDecode 41 2 235, HuffDecode 56 3 235],
     [HuffDecode 194 0 0, HuffDecode 195 0 0, HuffDecode 197 0 0, HuffDecode 198 0 0, HuffDecode 201 0 0,
      HuffDecode 202 0 0, HuffDecode 204 0 0, HuffDecode 205 0 0, HuffDecode 210 0 0, HuffDecode 213 0 0,
      HuffDecode 217 0 0, HuffDecode 220 0 0, HuffDecode 225 0 0, HuffDecode 231 0 0, HuffDecode 239 0 0, HuffDecode 246 0 0],
     [HuffDecode 0 3 192, HuffDecode 0 3 193, HuffDecode 0 3 200, HuffDecode 0 3 201, HuffDecode 0 3 202,
      HuffDecode 0 3 205, HuffDecode 0 3 210, HuffDecode 0 3 213, HuffDecode 0 3 218, HuffDecode 0 3 219,
      HuffDecode 0 3 238, HuffDecode 0 3 240, HuffDecode 0 3 242, HuffDecode 0 3 243, HuffDecode 0 3 255, HuffDecode 206 0 0]]"

definition huff_decode_table_24 :: "http2_huff_decode list list" where
  "huff_decode_table_24 =
    [[HuffDecode 1 2 192, HuffDecode 22 3 192, HuffDecode 1 2 193, HuffDecode 22 3 193, HuffDecode 1 2 200,
      HuffDecode 22 3 200, HuffDecode 1 2 201, HuffDecode 22 3 201, HuffDecode 1 2 202, HuffDecode 22 3 202,
      HuffDecode 1 2 205, HuffDecode 22 3 205, HuffDecode 1 2 210, HuffDecode 22 3 210, HuffDecode 1 2 213, HuffDecode 22 3 213],
     [HuffDecode 2 2 192, HuffDecode 9 2 192, HuffDecode 23 2 192, HuffDecode 40 3 192, HuffDecode 2 2 193,
      HuffDecode 9 2 193, HuffDecode 23 2 193, HuffDecode 40 3 193, HuffDecode 2 2 200, HuffDecode 9 2 200,
      HuffDecode 23 2 200, HuffDecode 40 3 200, HuffDecode 2 2 201, HuffDecode 9 2 201, HuffDecode 23 2 201, HuffDecode 40 3 201],
     [HuffDecode 3 2 192, HuffDecode 6 2 192, HuffDecode 10 2 192, HuffDecode 15 2 192, HuffDecode 24 2 192,
      HuffDecode 31 2 192, HuffDecode 41 2 192, HuffDecode 56 3 192, HuffDecode 3 2 193, HuffDecode 6 2 193,
      HuffDecode 10 2 193, HuffDecode 15 2 193, HuffDecode 24 2 193, HuffDecode 31 2 193, HuffDecode 41 2 193, HuffDecode 56 3 193],
     [HuffDecode 3 2 200, HuffDecode 6 2 200, HuffDecode 10 2 200, HuffDecode 15 2 200, HuffDecode 24 2 200,
      HuffDecode 31 2 200, HuffDecode 41 2 200, HuffDecode 56 3 200, HuffDecode 3 2 201, HuffDecode 6 2 201,
      HuffDecode 10 2 201, HuffDecode 15 2 201, HuffDecode 24 2 201, HuffDecode 31 2 201, HuffDecode 41 2 201, HuffDecode 56 3 201],
     [HuffDecode 2 2 202, HuffDecode 9 2 202, HuffDecode 23 2 202, HuffDecode 40 3 202, HuffDecode 2 2 205,
      HuffDecode 9 2 205, HuffDecode 23 2 205, HuffDecode 40 3 205, HuffDecode 2 2 210, HuffDecode 9 2 210,
      HuffDecode 23 2 210, HuffDecode 40 3 210, HuffDecode 2 2 213, HuffDecode 9 2 213, HuffDecode 23 2 213, HuffDecode 40 3 213],
     [HuffDecode 3 2 202, HuffDecode 6 2 202, HuffDecode 10 2 202, HuffDecode 15 2 202, HuffDecode 24 2 202,
      HuffDecode 31 2 202, HuffDecode 41 2 202, HuffDecode 56 3 202, HuffDecode 3 2 205, HuffDecode 6 2 205,
      HuffDecode 10 2 205, HuffDecode 15 2 205, HuffDecode 24 2 205, HuffDecode 31 2 205, HuffDecode 41 2 205, HuffDecode 56 3 205],
     [HuffDecode 3 2 210, HuffDecode 6 2 210, HuffDecode 10 2 210, HuffDecode 15 2 210, HuffDecode 24 2 210,
      HuffDecode 31 2 210, HuffDecode 41 2 210, HuffDecode 56 3 210, HuffDecode 3 2 213, HuffDecode 6 2 213,
      HuffDecode 10 2 213, HuffDecode 15 2 213, HuffDecode 24 2 213, HuffDecode 31 2 213, HuffDecode 41 2 213, HuffDecode 56 3 213],
     [HuffDecode 1 2 218, HuffDecode 22 3 218, HuffDecode 1 2 219, HuffDecode 22 3 219, HuffDecode 1 2 238,
      HuffDecode 22 3 238, HuffDecode 1 2 240, HuffDecode 22 3 240, HuffDecode 1 2 242, HuffDecode 22 3 242,
      HuffDecode 1 2 243, HuffDecode 22 3 243, HuffDecode 1 2 255, HuffDecode 22 3 255, HuffDecode 0 3 203, HuffDecode 0 3 204]]"

definition huff_decode_table_25 :: "http2_huff_decode list list" where
  "huff_decode_table_25 =
    [[HuffDecode 2 2 218, HuffDecode 9 2 218, HuffDecode 23 2 218, HuffDecode 40 3 218, HuffDecode 2 2 219,
      HuffDecode 9 2 219, HuffDecode 23 2 219, HuffDecode 40 3 219, HuffDecode 2 2 238, HuffDecode 9 2 238,
      HuffDecode 23 2 238, HuffDecode 40 3 238, HuffDecode 2 2 240, HuffDecode 9 2 240, HuffDecode 23 2 240, HuffDecode 40 3 240],
     [HuffDecode 3 2 218, HuffDecode 6 2 218, HuffDecode 10 2 218, HuffDecode 15 2 218, HuffDecode 24 2 218,
      HuffDecode 31 2 218, HuffDecode 41 2 218, HuffDecode 56 3 218, HuffDecode 3 2 219, HuffDecode 6 2 219,
      HuffDecode 10 2 219, HuffDecode 15 2 219, HuffDecode 24 2 219, HuffDecode 31 2 219, HuffDecode 41 2 219, HuffDecode 56 3 219],
     [HuffDecode 3 2 238, HuffDecode 6 2 238, HuffDecode 10 2 238, HuffDecode 15 2 238, HuffDecode 24 2 238,
      HuffDecode 31 2 238, HuffDecode 41 2 238, HuffDecode 56 3 238, HuffDecode 3 2 240, HuffDecode 6 2 240,
      HuffDecode 10 2 240, HuffDecode 15 2 240, HuffDecode 24 2 240, HuffDecode 31 2 240, HuffDecode 41 2 240, HuffDecode 56 3 240],
     [HuffDecode 2 2 242, HuffDecode 9 2 242, HuffDecode 23 2 242, HuffDecode 40 3 242, HuffDecode 2 2 243,
      HuffDecode 9 2 243, HuffDecode 23 2 243, HuffDecode 40 3 243, HuffDecode 2 2 255, HuffDecode 9 2 255,
      HuffDecode 23 2 255, HuffDecode 40 3 255, HuffDecode 1 2 203, HuffDecode 22 3 203, HuffDecode 1 2 204, HuffDecode 22 3 204],
     [HuffDecode 3 2 242, HuffDecode 6 2 242, HuffDecode 10 2 242, HuffDecode 15 2 242, HuffDecode 24 2 242,
      HuffDecode 31 2 242, HuffDecode 41 2 242, HuffDecode 56 3 242, HuffDecode 3 2 243, HuffDecode 6 2 243,
      HuffDecode 10 2 243, HuffDecode 15 2 243, HuffDecode 24 2 243, HuffDecode 31 2 243, HuffDecode 41 2 243, HuffDecode 56 3 243],
     [HuffDecode 3 2 255, HuffDecode 6 2 255, HuffDecode 10 2 255, HuffDecode 15 2 255, HuffDecode 24 2 255,
      HuffDecode 31 2 255, HuffDecode 41 2 255, HuffDecode 56 3 255, HuffDecode 2 2 203, HuffDecode 9 2 203,
      HuffDecode 23 2 203, HuffDecode 40 3 203, HuffDecode 2 2 204, HuffDecode 9 2 204, HuffDecode 23 2 204, HuffDecode 40 3 204],
     [HuffDecode 3 2 203, HuffDecode 6 2 203, HuffDecode 10 2 203, HuffDecode 15 2 203, HuffDecode 24 2 203,
      HuffDecode 31 2 203, HuffDecode 41 2 203, HuffDecode 56 3 203, HuffDecode 3 2 204, HuffDecode 6 2 204,
      HuffDecode 10 2 204, HuffDecode 15 2 204, HuffDecode 24 2 204, HuffDecode 31 2 204, HuffDecode 41 2 204, HuffDecode 56 3 204],
     [HuffDecode 211 0 0, HuffDecode 212 0 0, HuffDecode 214 0 0, HuffDecode 215 0 0, HuffDecode 218 0 0,
      HuffDecode 219 0 0, HuffDecode 221 0 0, HuffDecode 222 0 0, HuffDecode 226 0 0, HuffDecode 228 0 0,
      HuffDecode 232 0 0, HuffDecode 235 0 0, HuffDecode 240 0 0, HuffDecode 243 0 0, HuffDecode 247 0 0, HuffDecode 250 0 0]]"

definition huff_decode_table_26 :: "http2_huff_decode list list" where
  "huff_decode_table_26 =
    [[HuffDecode 0 3 211, HuffDecode 0 3 212, HuffDecode 0 3 214, HuffDecode 0 3 221, HuffDecode 0 3 222,
      HuffDecode 0 3 223, HuffDecode 0 3 241, HuffDecode 0 3 244, HuffDecode 0 3 245, HuffDecode 0 3 246,
      HuffDecode 0 3 247, HuffDecode 0 3 248, HuffDecode 0 3 250, HuffDecode 0 3 251, HuffDecode 0 3 252, HuffDecode 0 3 253],
     [HuffDecode 1 2 211, HuffDecode 22 3 211, HuffDecode 1 2 212, HuffDecode 22 3 212, HuffDecode 1 2 214,
      HuffDecode 22 3 214, HuffDecode 1 2 221, HuffDecode 22 3 221, HuffDecode 1 2 222, HuffDecode 22 3 222,
      HuffDecode 1 2 223, HuffDecode 22 3 223, HuffDecode 1 2 241, HuffDecode 22 3 241, HuffDecode 1 2 244, HuffDecode 22 3 244],
     [HuffDecode 2 2 211, HuffDecode 9 2 211, HuffDecode 23 2 211, HuffDecode 40 3 211, HuffDecode 2 2 212,
      HuffDecode 9 2 212, HuffDecode 23 2 212, HuffDecode 40 3 212, HuffDecode 2 2 214, HuffDecode 9 2 214,
      HuffDecode 23 2 214, HuffDecode 40 3 214, HuffDecode 2 2 221, HuffDecode 9 2 221, HuffDecode 23 2 221, HuffDecode 40 3 221],
     [HuffDecode 3 2 211, HuffDecode 6 2 211, HuffDecode 10 2 211, HuffDecode 15 2 211, HuffDecode 24 2 211,
      HuffDecode 31 2 211, HuffDecode 41 2 211, HuffDecode 56 3 211, HuffDecode 3 2 212, HuffDecode 6 2 212,
      HuffDecode 10 2 212, HuffDecode 15 2 212, HuffDecode 24 2 212, HuffDecode 31 2 212, HuffDecode 41 2 212, HuffDecode 56 3 212],
     [HuffDecode 3 2 214, HuffDecode 6 2 214, HuffDecode 10 2 214, HuffDecode 15 2 214, HuffDecode 24 2 214,
      HuffDecode 31 2 214, HuffDecode 41 2 214, HuffDecode 56 3 214, HuffDecode 3 2 221, HuffDecode 6 2 221,
      HuffDecode 10 2 221, HuffDecode 15 2 221, HuffDecode 24 2 221, HuffDecode 31 2 221, HuffDecode 41 2 221, HuffDecode 56 3 221],
     [HuffDecode 2 2 222, HuffDecode 9 2 222, HuffDecode 23 2 222, HuffDecode 40 3 222, HuffDecode 2 2 223,
      HuffDecode 9 2 223, HuffDecode 23 2 223, HuffDecode 40 3 223, HuffDecode 2 2 241, HuffDecode 9 2 241,
      HuffDecode 23 2 241, HuffDecode 40 3 241, HuffDecode 2 2 244, HuffDecode 9 2 244, HuffDecode 23 2 244, HuffDecode 40 3 244],
     [HuffDecode 3 2 222, HuffDecode 6 2 222, HuffDecode 10 2 222, HuffDecode 15 2 222, HuffDecode 24 2 222,
      HuffDecode 31 2 222, HuffDecode 41 2 222, HuffDecode 56 3 222, HuffDecode 3 2 223, HuffDecode 6 2 223,
      HuffDecode 10 2 223, HuffDecode 15 2 223, HuffDecode 24 2 223, HuffDecode 31 2 223, HuffDecode 41 2 223, HuffDecode 56 3 223],
     [HuffDecode 3 2 241, HuffDecode 6 2 241, HuffDecode 10 2 241, HuffDecode 15 2 241, HuffDecode 24 2 241,
      HuffDecode 31 2 241, HuffDecode 41 2 241, HuffDecode 56 3 241, HuffDecode 3 2 244, HuffDecode 6 2 244,
      HuffDecode 10 2 244, HuffDecode 15 2 244, HuffDecode 24 2 244, HuffDecode 31 2 244, HuffDecode 41 2 244, HuffDecode 56 3 244]]"

definition huff_decode_table_27 :: "http2_huff_decode list list" where
  "huff_decode_table_27 =
    [[HuffDecode 1 2 245, HuffDecode 22 3 245, HuffDecode 1 2 246, HuffDecode 22 3 246, HuffDecode 1 2 247,
      HuffDecode 22 3 247, HuffDecode 1 2 248, HuffDecode 22 3 248, HuffDecode 1 2 250, HuffDecode 22 3 250,
      HuffDecode 1 2 251, HuffDecode 22 3 251, HuffDecode 1 2 252, HuffDecode 22 3 252, HuffDecode 1 2 253, HuffDecode 22 3 253],
     [HuffDecode 2 2 245, HuffDecode 9 2 245, HuffDecode 23 2 245, HuffDecode 40 3 245, HuffDecode 2 2 246,
      HuffDecode 9 2 246, HuffDecode 23 2 246, HuffDecode 40 3 246, HuffDecode 2 2 247, HuffDecode 9 2 247,
      HuffDecode 23 2 247, HuffDecode 40 3 247, HuffDecode 2 2 248, HuffDecode 9 2 248, HuffDecode 23 2 248, HuffDecode 40 3 248],
     [HuffDecode 3 2 245, HuffDecode 6 2 245, HuffDecode 10 2 245, HuffDecode 15 2 245, HuffDecode 24 2 245,
      HuffDecode 31 2 245, HuffDecode 41 2 245, HuffDecode 56 3 245, HuffDecode 3 2 246, HuffDecode 6 2 246,
      HuffDecode 10 2 246, HuffDecode 15 2 246, HuffDecode 24 2 246, HuffDecode 31 2 246, HuffDecode 41 2 246, HuffDecode 56 3 246],
     [HuffDecode 3 2 247, HuffDecode 6 2 247, HuffDecode 10 2 247, HuffDecode 15 2 247, HuffDecode 24 2 247,
      HuffDecode 31 2 247, HuffDecode 41 2 247, HuffDecode 56 3 247, HuffDecode 3 2 248, HuffDecode 6 2 248,
      HuffDecode 10 2 248, HuffDecode 15 2 248, HuffDecode 24 2 248, HuffDecode 31 2 248, HuffDecode 41 2 248, HuffDecode 56 3 248],
     [HuffDecode 2 2 250, HuffDecode 9 2 250, HuffDecode 23 2 250, HuffDecode 40 3 250, HuffDecode 2 2 251,
      HuffDecode 9 2 251, HuffDecode 23 2 251, HuffDecode 40 3 251, HuffDecode 2 2 252, HuffDecode 9 2 252,
      HuffDecode 23 2 252, HuffDecode 40 3 252, HuffDecode 2 2 253, HuffDecode 9 2 253, HuffDecode 23 2 253, HuffDecode 40 3 253],
     [HuffDecode 3 2 250, HuffDecode 6 2 250, HuffDecode 10 2 250, HuffDecode 15 2 250, HuffDecode 24 2 250,
      HuffDecode 31 2 250, HuffDecode 41 2 250, HuffDecode 56 3 250, HuffDecode 3 2 251, HuffDecode 6 2 251,
      HuffDecode 10 2 251, HuffDecode 15 2 251, HuffDecode 24 2 251, HuffDecode 31 2 251, HuffDecode 41 2 251, HuffDecode 56 3 251],
     [HuffDecode 3 2 252, HuffDecode 6 2 252, HuffDecode 10 2 252, HuffDecode 15 2 252, HuffDecode 24 2 252,
      HuffDecode 31 2 252, HuffDecode 41 2 252, HuffDecode 56 3 252, HuffDecode 3 2 253, HuffDecode 6 2 253,
      HuffDecode 10 2 253, HuffDecode 15 2 253, HuffDecode 24 2 253, HuffDecode 31 2 253, HuffDecode 41 2 253, HuffDecode 56 3 253],
     [HuffDecode 0 3 254, HuffDecode 227 0 0, HuffDecode 229 0 0, HuffDecode 230 0 0, HuffDecode 233 0 0,
      HuffDecode 234 0 0, HuffDecode 236 0 0, HuffDecode 237 0 0, HuffDecode 241 0 0, HuffDecode 242 0 0,
      HuffDecode 244 0 0, HuffDecode 245 0 0, HuffDecode 248 0 0, HuffDecode 249 0 0, HuffDecode 251 0 0, HuffDecode 252 0 0]]"

definition huff_decode_table_28 :: "http2_huff_decode list list" where
  "huff_decode_table_28 =
    [[HuffDecode 1 2 254, HuffDecode 22 3 254, HuffDecode 0 3 2, HuffDecode 0 3 3, HuffDecode 0 3 4,
      HuffDecode 0 3 5, HuffDecode 0 3 6, HuffDecode 0 3 7, HuffDecode 0 3 8, HuffDecode 0 3 11,
      HuffDecode 0 3 12, HuffDecode 0 3 14, HuffDecode 0 3 15, HuffDecode 0 3 16, HuffDecode 0 3 17, HuffDecode 0 3 18],
     [HuffDecode 2 2 254, HuffDecode 9 2 254, HuffDecode 23 2 254, HuffDecode 40 3 254, HuffDecode 1 2 2,
      HuffDecode 22 3 2, HuffDecode 1 2 3, HuffDecode 22 3 3, HuffDecode 1 2 4, HuffDecode 22 3 4,
      HuffDecode 1 2 5, HuffDecode 22 3 5, HuffDecode 1 2 6, HuffDecode 22 3 6, HuffDecode 1 2 7, HuffDecode 22 3 7],
     [HuffDecode 3 2 254, HuffDecode 6 2 254, HuffDecode 10 2 254, HuffDecode 15 2 254, HuffDecode 24 2 254,
      HuffDecode 31 2 254, HuffDecode 41 2 254, HuffDecode 56 3 254, HuffDecode 2 2 2, HuffDecode 9 2 2,
      HuffDecode 23 2 2, HuffDecode 40 3 2, HuffDecode 2 2 3, HuffDecode 9 2 3, HuffDecode 23 2 3, HuffDecode 40 3 3],
     [HuffDecode 3 2 2, HuffDecode 6 2 2, HuffDecode 10 2 2, HuffDecode 15 2 2, HuffDecode 24 2 2,
      HuffDecode 31 2 2, HuffDecode 41 2 2, HuffDecode 56 3 2, HuffDecode 3 2 3, HuffDecode 6 2 3,
      HuffDecode 10 2 3, HuffDecode 15 2 3, HuffDecode 24 2 3, HuffDecode 31 2 3, HuffDecode 41 2 3, HuffDecode 56 3 3],
     [HuffDecode 2 2 4, HuffDecode 9 2 4, HuffDecode 23 2 4, HuffDecode 40 3 4, HuffDecode 2 2 5,
      HuffDecode 9 2 5, HuffDecode 23 2 5, HuffDecode 40 3 5, HuffDecode 2 2 6, HuffDecode 9 2 6,
      HuffDecode 23 2 6, HuffDecode 40 3 6, HuffDecode 2 2 7, HuffDecode 9 2 7, HuffDecode 23 2 7, HuffDecode 40 3 7],
     [HuffDecode 3 2 4, HuffDecode 6 2 4, HuffDecode 10 2 4, HuffDecode 15 2 4, HuffDecode 24 2 4,
      HuffDecode 31 2 4, HuffDecode 41 2 4, HuffDecode 56 3 4, HuffDecode 3 2 5, HuffDecode 6 2 5,
      HuffDecode 10 2 5, HuffDecode 15 2 5, HuffDecode 24 2 5, HuffDecode 31 2 5, HuffDecode 41 2 5, HuffDecode 56 3 5],
     [HuffDecode 3 2 6, HuffDecode 6 2 6, HuffDecode 10 2 6, HuffDecode 15 2 6, HuffDecode 24 2 6,
      HuffDecode 31 2 6, HuffDecode 41 2 6, HuffDecode 56 3 6, HuffDecode 3 2 7, HuffDecode 6 2 7,
      HuffDecode 10 2 7, HuffDecode 15 2 7, HuffDecode 24 2 7, HuffDecode 31 2 7, HuffDecode 41 2 7, HuffDecode 56 3 7],
     [HuffDecode 1 2 8, HuffDecode 22 3 8, HuffDecode 1 2 11, HuffDecode 22 3 11, HuffDecode 1 2 12,
      HuffDecode 22 3 12, HuffDecode 1 2 14, HuffDecode 22 3 14, HuffDecode 1 2 15, HuffDecode 22 3 15,
      HuffDecode 1 2 16, HuffDecode 22 3 16, HuffDecode 1 2 17, HuffDecode 22 3 17, HuffDecode 1 2 18, HuffDecode 22 3 18]]"

definition huff_decode_table_29 :: "http2_huff_decode list list" where
  "huff_decode_table_29 =
    [[HuffDecode 2 2 8, HuffDecode 9 2 8, HuffDecode 23 2 8, HuffDecode 40 3 8, HuffDecode 2 2 11,
      HuffDecode 9 2 11, HuffDecode 23 2 11, HuffDecode 40 3 11, HuffDecode 2 2 12, HuffDecode 9 2 12,
      HuffDecode 23 2 12, HuffDecode 40 3 12, HuffDecode 2 2 14, HuffDecode 9 2 14, HuffDecode 23 2 14, HuffDecode 40 3 14],
     [HuffDecode 3 2 8, HuffDecode 6 2 8, HuffDecode 10 2 8, HuffDecode 15 2 8, HuffDecode 24 2 8,
      HuffDecode 31 2 8, HuffDecode 41 2 8, HuffDecode 56 3 8, HuffDecode 3 2 11, HuffDecode 6 2 11,
      HuffDecode 10 2 11, HuffDecode 15 2 11, HuffDecode 24 2 11, HuffDecode 31 2 11, HuffDecode 41 2 11, HuffDecode 56 3 11],
     [HuffDecode 3 2 12, HuffDecode 6 2 12, HuffDecode 10 2 12, HuffDecode 15 2 12, HuffDecode 24 2 12,
      HuffDecode 31 2 12, HuffDecode 41 2 12, HuffDecode 56 3 12, HuffDecode 3 2 14, HuffDecode 6 2 14,
      HuffDecode 10 2 14, HuffDecode 15 2 14, HuffDecode 24 2 14, HuffDecode 31 2 14, HuffDecode 41 2 14, HuffDecode 56 3 14],
     [HuffDecode 2 2 15, HuffDecode 9 2 15, HuffDecode 23 2 15, HuffDecode 40 3 15, HuffDecode 2 2 16,
      HuffDecode 9 2 16, HuffDecode 23 2 16, HuffDecode 40 3 16, HuffDecode 2 2 17, HuffDecode 9 2 17,
      HuffDecode 23 2 17, HuffDecode 40 3 17, HuffDecode 2 2 18, HuffDecode 9 2 18, HuffDecode 23 2 18, HuffDecode 40 3 18],
     [HuffDecode 3 2 15, HuffDecode 6 2 15, HuffDecode 10 2 15, HuffDecode 15 2 15, HuffDecode 24 2 15,
      HuffDecode 31 2 15, HuffDecode 41 2 15, HuffDecode 56 3 15, HuffDecode 3 2 16, HuffDecode 6 2 16,
      HuffDecode 10 2 16, HuffDecode 15 2 16, HuffDecode 24 2 16, HuffDecode 31 2 16, HuffDecode 41 2 16, HuffDecode 56 3 16],
     [HuffDecode 3 2 17, HuffDecode 6 2 17, HuffDecode 10 2 17, HuffDecode 15 2 17, HuffDecode 24 2 17,
      HuffDecode 31 2 17, HuffDecode 41 2 17, HuffDecode 56 3 17, HuffDecode 3 2 18, HuffDecode 6 2 18,
      HuffDecode 10 2 18, HuffDecode 15 2 18, HuffDecode 24 2 18, HuffDecode 31 2 18, HuffDecode 41 2 18, HuffDecode 56 3 18],
     [HuffDecode 0 3 19, HuffDecode 0 3 20, HuffDecode 0 3 21, HuffDecode 0 3 23, HuffDecode 0 3 24,
      HuffDecode 0 3 25, HuffDecode 0 3 26, HuffDecode 0 3 27, HuffDecode 0 3 28, HuffDecode 0 3 29,
      HuffDecode 0 3 30, HuffDecode 0 3 31, HuffDecode 0 3 127, HuffDecode 0 3 220, HuffDecode 0 3 249, HuffDecode 253 0 0],
     [HuffDecode 1 2 19, HuffDecode 22 3 19, HuffDecode 1 2 20, HuffDecode 22 3 20, HuffDecode 1 2 21,
      HuffDecode 22 3 21, HuffDecode 1 2 23, HuffDecode 22 3 23, HuffDecode 1 2 24, HuffDecode 22 3 24,
      HuffDecode 1 2 25, HuffDecode 22 3 25, HuffDecode 1 2 26, HuffDecode 22 3 26, HuffDecode 1 2 27, HuffDecode 22 3 27]]"

definition huff_decode_table_30 :: "http2_huff_decode list list" where
  "huff_decode_table_30 =
    [[HuffDecode 2 2 19, HuffDecode 9 2 19, HuffDecode 23 2 19, HuffDecode 40 3 19, HuffDecode 2 2 20,
      HuffDecode 9 2 20, HuffDecode 23 2 20, HuffDecode 40 3 20, HuffDecode 2 2 21, HuffDecode 9 2 21,
      HuffDecode 23 2 21, HuffDecode 40 3 21, HuffDecode 2 2 23, HuffDecode 9 2 23, HuffDecode 23 2 23, HuffDecode 40 3 23],
     [HuffDecode 3 2 19, HuffDecode 6 2 19, HuffDecode 10 2 19, HuffDecode 15 2 19, HuffDecode 24 2 19,
      HuffDecode 31 2 19, HuffDecode 41 2 19, HuffDecode 56 3 19, HuffDecode 3 2 20, HuffDecode 6 2 20,
      HuffDecode 10 2 20, HuffDecode 15 2 20, HuffDecode 24 2 20, HuffDecode 31 2 20, HuffDecode 41 2 20, HuffDecode 56 3 20],
     [HuffDecode 3 2 21, HuffDecode 6 2 21, HuffDecode 10 2 21, HuffDecode 15 2 21, HuffDecode 24 2 21,
      HuffDecode 31 2 21, HuffDecode 41 2 21, HuffDecode 56 3 21, HuffDecode 3 2 23, HuffDecode 6 2 23,
      HuffDecode 10 2 23, HuffDecode 15 2 23, HuffDecode 24 2 23, HuffDecode 31 2 23, HuffDecode 41 2 23, HuffDecode 56 3 23],
     [HuffDecode 2 2 24, HuffDecode 9 2 24, HuffDecode 23 2 24, HuffDecode 40 3 24, HuffDecode 2 2 25,
      HuffDecode 9 2 25, HuffDecode 23 2 25, HuffDecode 40 3 25, HuffDecode 2 2 26, HuffDecode 9 2 26,
      HuffDecode 23 2 26, HuffDecode 40 3 26, HuffDecode 2 2 27, HuffDecode 9 2 27, HuffDecode 23 2 27, HuffDecode 40 3 27],
     [HuffDecode 3 2 24, HuffDecode 6 2 24, HuffDecode 10 2 24, HuffDecode 15 2 24, HuffDecode 24 2 24,
      HuffDecode 31 2 24, HuffDecode 41 2 24, HuffDecode 56 3 24, HuffDecode 3 2 25, HuffDecode 6 2 25,
      HuffDecode 10 2 25, HuffDecode 15 2 25, HuffDecode 24 2 25, HuffDecode 31 2 25, HuffDecode 41 2 25, HuffDecode 56 3 25],
     [HuffDecode 3 2 26, HuffDecode 6 2 26, HuffDecode 10 2 26, HuffDecode 15 2 26, HuffDecode 24 2 26,
      HuffDecode 31 2 26, HuffDecode 41 2 26, HuffDecode 56 3 26, HuffDecode 3 2 27, HuffDecode 6 2 27,
      HuffDecode 10 2 27, HuffDecode 15 2 27, HuffDecode 24 2 27, HuffDecode 31 2 27, HuffDecode 41 2 27, HuffDecode 56 3 27],
     [HuffDecode 1 2 28, HuffDecode 22 3 28, HuffDecode 1 2 29, HuffDecode 22 3 29, HuffDecode 1 2 30,
      HuffDecode 22 3 30, HuffDecode 1 2 31, HuffDecode 22 3 31, HuffDecode 1 2 127, HuffDecode 22 3 127,
      HuffDecode 1 2 220, HuffDecode 22 3 220, HuffDecode 1 2 249, HuffDecode 22 3 249, HuffDecode 254 0 0, HuffDecode 255 0 0],
     [HuffDecode 2 2 28, HuffDecode 9 2 28, HuffDecode 23 2 28, HuffDecode 40 3 28, HuffDecode 2 2 29,
      HuffDecode 9 2 29, HuffDecode 23 2 29, HuffDecode 40 3 29, HuffDecode 2 2 30, HuffDecode 9 2 30,
      HuffDecode 23 2 30, HuffDecode 40 3 30, HuffDecode 2 2 31, HuffDecode 9 2 31, HuffDecode 23 2 31, HuffDecode 40 3 31]]"

definition huff_decode_table_31 :: "http2_huff_decode list list" where
  "huff_decode_table_31 =
    [[HuffDecode 3 2 28, HuffDecode 6 2 28, HuffDecode 10 2 28, HuffDecode 15 2 28, HuffDecode 24 2 28,
      HuffDecode 31 2 28, HuffDecode 41 2 28, HuffDecode 56 3 28, HuffDecode 3 2 29, HuffDecode 6 2 29,
      HuffDecode 10 2 29, HuffDecode 15 2 29, HuffDecode 24 2 29, HuffDecode 31 2 29, HuffDecode 41 2 29, HuffDecode 56 3 29],
     [HuffDecode 3 2 30, HuffDecode 6 2 30, HuffDecode 10 2 30, HuffDecode 15 2 30, HuffDecode 24 2 30,
      HuffDecode 31 2 30, HuffDecode 41 2 30, HuffDecode 56 3 30, HuffDecode 3 2 31, HuffDecode 6 2 31,
      HuffDecode 10 2 31, HuffDecode 15 2 31, HuffDecode 24 2 31, HuffDecode 31 2 31, HuffDecode 41 2 31, HuffDecode 56 3 31],
     [HuffDecode 2 2 127, HuffDecode 9 2 127, HuffDecode 23 2 127, HuffDecode 40 3 127, HuffDecode 2 2 220,
      HuffDecode 9 2 220, HuffDecode 23 2 220, HuffDecode 40 3 220, HuffDecode 2 2 249, HuffDecode 9 2 249,
      HuffDecode 23 2 249, HuffDecode 40 3 249, HuffDecode 0 3 10, HuffDecode 0 3 13, HuffDecode 0 3 22, HuffDecode 0 4 0],
     [HuffDecode 3 2 127, HuffDecode 6 2 127, HuffDecode 10 2 127, HuffDecode 15 2 127, HuffDecode 24 2 127,
      HuffDecode 31 2 127, HuffDecode 41 2 127, HuffDecode 56 3 127, HuffDecode 3 2 220, HuffDecode 6 2 220,
      HuffDecode 10 2 220, HuffDecode 15 2 220, HuffDecode 24 2 220, HuffDecode 31 2 220, HuffDecode 41 2 220, HuffDecode 56 3 220],
     [HuffDecode 3 2 249, HuffDecode 6 2 249, HuffDecode 10 2 249, HuffDecode 15 2 249, HuffDecode 24 2 249,
      HuffDecode 31 2 249, HuffDecode 41 2 249, HuffDecode 56 3 249, HuffDecode 1 2 10, HuffDecode 22 3 10,
      HuffDecode 1 2 13, HuffDecode 22 3 13, HuffDecode 1 2 22, HuffDecode 22 3 22, HuffDecode 0 4 0, HuffDecode 0 4 0],
     [HuffDecode 2 2 10, HuffDecode 9 2 10, HuffDecode 23 2 10, HuffDecode 40 3 10, HuffDecode 2 2 13,
      HuffDecode 9 2 13, HuffDecode 23 2 13, HuffDecode 40 3 13, HuffDecode 2 2 22, HuffDecode 9 2 22,
      HuffDecode 23 2 22, HuffDecode 40 3 22, HuffDecode 0 4 0, HuffDecode 0 4 0, HuffDecode 0 4 0, HuffDecode 0 4 0],
     [HuffDecode 3 2 10, HuffDecode 6 2 10, HuffDecode 10 2 10, HuffDecode 15 2 10, HuffDecode 24 2 10,
      HuffDecode 31 2 10, HuffDecode 41 2 10, HuffDecode 56 3 10, HuffDecode 3 2 13, HuffDecode 6 2 13,
      HuffDecode 10 2 13, HuffDecode 15 2 13, HuffDecode 24 2 13, HuffDecode 31 2 13, HuffDecode 41 2 13, HuffDecode 56 3 13],
     [HuffDecode 3 2 22, HuffDecode 6 2 22, HuffDecode 10 2 22, HuffDecode 15 2 22, HuffDecode 24 2 22,
      HuffDecode 31 2 22, HuffDecode 41 2 22, HuffDecode 56 3 22, HuffDecode 0 4 0, HuffDecode 0 4 0,
      HuffDecode 0 4 0, HuffDecode 0 4 0, HuffDecode 0 4 0, HuffDecode 0 4 0, HuffDecode 0 4 0, HuffDecode 0 4 0]]"

definition huff_decode_table :: "http2_huff_decode list list" where
  "huff_decode_table =
     huff_decode_table_0 @ huff_decode_table_1 @ huff_decode_table_2 @ huff_decode_table_3 @
     huff_decode_table_4 @ huff_decode_table_5 @ huff_decode_table_6 @ huff_decode_table_7 @
     huff_decode_table_8 @ huff_decode_table_9 @ huff_decode_table_10 @ huff_decode_table_11 @
     huff_decode_table_12 @ huff_decode_table_13 @ huff_decode_table_14 @ huff_decode_table_15 @
     huff_decode_table_16 @ huff_decode_table_17 @ huff_decode_table_18 @ huff_decode_table_19 @
     huff_decode_table_20 @ huff_decode_table_21 @ huff_decode_table_22 @ huff_decode_table_23 @
     huff_decode_table_24 @ huff_decode_table_25 @ huff_decode_table_26 @ huff_decode_table_27 @
     huff_decode_table_28 @ huff_decode_table_29 @ huff_decode_table_30 @ huff_decode_table_31"

end
