(* ===== verification/Huffman_Tree.thy ===== *)
theory Huffman_Tree
  imports Huffman_Tables
begin

text \<open>
  A specification of the Huffman code, against which the tables are checked entry by entry: the code as a
  binary tree whose 256 inner nodes carry the numbers of the decoder states, and whose leaves are the 256
  bytes and the end-of-string symbol. \<open>brun\<close> walks the tree bit by bit. The main facts are
  \<open>huff_decode_table_eq\<close> (every one of the 4096 entries of the decoding table is the walk of four bits) and
  \<open>code_bits_leads\<close> (the code of every byte in the encoding table leads from the root to its leaf).
\<close>

datatype target = Nod u8 | Sym u8 | Eos

definition huff_tree :: "(target \<times> target) list" where
  "huff_tree =
    [
     (Nod 1, Nod 22), (Nod 2, Nod 9), (Nod 3, Nod 6), (Nod 4, Nod 5), (Sym 48, Sym 49), (Sym 50, Sym 97),
     (Nod 7, Nod 8), (Sym 99, Sym 101), (Sym 105, Sym 111), (Nod 10, Nod 15), (Nod 11, Nod 12), (Sym 115, Sym 116),
     (Nod 13, Nod 14), (Sym 32, Sym 37), (Sym 45, Sym 46), (Nod 16, Nod 19), (Nod 17, Nod 18), (Sym 47, Sym 51),
     (Sym 52, Sym 53), (Nod 20, Nod 21), (Sym 54, Sym 55), (Sym 56, Sym 57), (Nod 23, Nod 40), (Nod 24, Nod 31),
     (Nod 25, Nod 28), (Nod 26, Nod 27), (Sym 61, Sym 65), (Sym 95, Sym 98), (Nod 29, Nod 30), (Sym 100, Sym 102),
     (Sym 103, Sym 104), (Nod 32, Nod 35), (Nod 33, Nod 34), (Sym 108, Sym 109), (Sym 110, Sym 112), (Nod 36, Nod 37),
     (Sym 114, Sym 117), (Nod 38, Nod 39), (Sym 58, Sym 66), (Sym 67, Sym 68), (Nod 41, Nod 56), (Nod 42, Nod 49),
     (Nod 43, Nod 46), (Nod 44, Nod 45), (Sym 69, Sym 70), (Sym 71, Sym 72), (Nod 47, Nod 48), (Sym 73, Sym 74),
     (Sym 75, Sym 76), (Nod 50, Nod 53), (Nod 51, Nod 52), (Sym 77, Sym 78), (Sym 79, Sym 80), (Nod 54, Nod 55),
     (Sym 81, Sym 82), (Sym 83, Sym 84), (Nod 57, Nod 64), (Nod 58, Nod 61), (Nod 59, Nod 60), (Sym 85, Sym 86),
     (Sym 87, Sym 89), (Nod 62, Nod 63), (Sym 106, Sym 107), (Sym 113, Sym 118), (Nod 65, Nod 68), (Nod 66, Nod 67),
     (Sym 119, Sym 120), (Sym 121, Sym 122), (Nod 69, Nod 72), (Nod 70, Nod 71), (Sym 38, Sym 42), (Sym 44, Sym 59),
     (Nod 73, Nod 74), (Sym 88, Sym 90), (Nod 75, Nod 78), (Nod 76, Nod 77), (Sym 33, Sym 34), (Sym 40, Sym 41),
     (Nod 79, Nod 81), (Sym 63, Nod 80), (Sym 39, Sym 43), (Nod 82, Nod 84), (Sym 124, Nod 83), (Sym 35, Sym 62),
     (Nod 85, Nod 88), (Nod 86, Nod 87), (Sym 0, Sym 36), (Sym 64, Sym 91), (Nod 89, Nod 90), (Sym 93, Sym 126),
     (Nod 91, Nod 92), (Sym 94, Sym 125), (Nod 93, Nod 94), (Sym 60, Sym 96), (Sym 123, Nod 95), (Nod 96, Nod 110),
     (Nod 97, Nod 101), (Nod 98, Nod 99), (Sym 92, Sym 195), (Sym 208, Nod 100), (Sym 128, Sym 130), (Nod 102, Nod 105),
     (Nod 103, Nod 104), (Sym 131, Sym 162), (Sym 184, Sym 194), (Nod 106, Nod 107), (Sym 224, Sym 226), (Nod 108, Nod 109),
     (Sym 153, Sym 161), (Sym 167, Sym 172), (Nod 111, Nod 133), (Nod 112, Nod 119), (Nod 113, Nod 116), (Nod 114, Nod 115),
     (Sym 176, Sym 177), (Sym 179, Sym 209), (Nod 117, Nod 118), (Sym 216, Sym 217), (Sym 227, Sym 229), (Nod 120, Nod 126),
     (Nod 121, Nod 123), (Sym 230, Nod 122), (Sym 129, Sym 132), (Nod 124, Nod 125), (Sym 133, Sym 134), (Sym 136, Sym 146),
     (Nod 127, Nod 130), (Nod 128, Nod 129), (Sym 154, Sym 156), (Sym 160, Sym 163), (Nod 131, Nod 132), (Sym 164, Sym 169),
     (Sym 170, Sym 173), (Nod 134, Nod 153), (Nod 135, Nod 142), (Nod 136, Nod 139), (Nod 137, Nod 138), (Sym 178, Sym 181),
     (Sym 185, Sym 186), (Nod 140, Nod 141), (Sym 187, Sym 189), (Sym 190, Sym 196), (Nod 143, Nod 146), (Nod 144, Nod 145),
     (Sym 198, Sym 228), (Sym 232, Sym 233), (Nod 147, Nod 150), (Nod 148, Nod 149), (Sym 1, Sym 135), (Sym 137, Sym 138),
     (Nod 151, Nod 152), (Sym 139, Sym 140), (Sym 141, Sym 143), (Nod 154, Nod 169), (Nod 155, Nod 162), (Nod 156, Nod 159),
     (Nod 157, Nod 158), (Sym 147, Sym 149), (Sym 150, Sym 151), (Nod 160, Nod 161), (Sym 152, Sym 155), (Sym 157, Sym 158),
     (Nod 163, Nod 166), (Nod 164, Nod 165), (Sym 165, Sym 166), (Sym 168, Sym 174), (Nod 167, Nod 168), (Sym 175, Sym 180),
     (Sym 182, Sym 183), (Nod 170, Nod 180), (Nod 171, Nod 174), (Nod 172, Nod 173), (Sym 188, Sym 191), (Sym 197, Sym 231),
     (Nod 175, Nod 177), (Sym 239, Nod 176), (Sym 9, Sym 142), (Nod 178, Nod 179), (Sym 144, Sym 145), (Sym 148, Sym 159),
     (Nod 181, Nod 190), (Nod 182, Nod 185), (Nod 183, Nod 184), (Sym 171, Sym 206), (Sym 215, Sym 225), (Nod 186, Nod 187),
     (Sym 236, Sym 237), (Nod 188, Nod 189), (Sym 199, Sym 207), (Sym 234, Sym 235), (Nod 191, Nod 207), (Nod 192, Nod 199),
     (Nod 193, Nod 196), (Nod 194, Nod 195), (Sym 192, Sym 193), (Sym 200, Sym 201), (Nod 197, Nod 198), (Sym 202, Sym 205),
     (Sym 210, Sym 213), (Nod 200, Nod 203), (Nod 201, Nod 202), (Sym 218, Sym 219), (Sym 238, Sym 240), (Nod 204, Nod 205),
     (Sym 242, Sym 243), (Sym 255, Nod 206), (Sym 203, Sym 204), (Nod 208, Nod 223), (Nod 209, Nod 216), (Nod 210, Nod 213),
     (Nod 211, Nod 212), (Sym 211, Sym 212), (Sym 214, Sym 221), (Nod 214, Nod 215), (Sym 222, Sym 223), (Sym 241, Sym 244),
     (Nod 217, Nod 220), (Nod 218, Nod 219), (Sym 245, Sym 246), (Sym 247, Sym 248), (Nod 221, Nod 222), (Sym 250, Sym 251),
     (Sym 252, Sym 253), (Nod 224, Nod 238), (Nod 225, Nod 231), (Nod 226, Nod 228), (Sym 254, Nod 227), (Sym 2, Sym 3),
     (Nod 229, Nod 230), (Sym 4, Sym 5), (Sym 6, Sym 7), (Nod 232, Nod 235), (Nod 233, Nod 234), (Sym 8, Sym 11),
     (Sym 12, Sym 14), (Nod 236, Nod 237), (Sym 15, Sym 16), (Sym 17, Sym 18), (Nod 239, Nod 246), (Nod 240, Nod 243),
     (Nod 241, Nod 242), (Sym 19, Sym 20), (Sym 21, Sym 23), (Nod 244, Nod 245), (Sym 24, Sym 25), (Sym 26, Sym 27),
     (Nod 247, Nod 250), (Nod 248, Nod 249), (Sym 28, Sym 29), (Sym 30, Sym 31), (Nod 251, Nod 252), (Sym 127, Sym 220),
     (Sym 249, Nod 253), (Nod 254, Nod 255), (Sym 10, Sym 13), (Sym 22, Eos)]"

definition delta :: "u8 \<Rightarrow> bool \<Rightarrow> target" where
  "delta st b = (case huff_tree ! unat st of (l, r) \<Rightarrow> if b then r else l)"

text \<open>The nodes on the path of ones above the eighth bit: padding may stop there.\<close>

definition ones_states :: "u8 list" where
  "ones_states = [0, 22, 40, 56, 64, 68, 72, 74]"

fun brun :: "u8 \<Rightarrow> bool list \<Rightarrow> (buffer \<times> u8) option" where
  "brun st [] = Some ([], st)"
| "brun st (b # bs) =
     (case delta st b of
        Nod st' \<Rightarrow> brun st' bs
      | Sym s \<Rightarrow> (case brun 0 bs of None \<Rightarrow> None | Some (out, st') \<Rightarrow> Some (s # out, st'))
      | Eos \<Rightarrow> None)"

text \<open>The table entry that a walk of four bits ought to give: flag 4 (\<^verbatim>\<open>HTTP2_HUFF_FAIL\<close>) when the
  end-of-string leaf is reached, flag 2 (\<^verbatim>\<open>HTTP2_HUFF_SYM\<close>) when a byte is completed, flag 1
  (\<^verbatim>\<open>HTTP2_HUFF_ACCEPTED\<close>) when the input may end in the state reached.\<close>

definition accept_flag :: "u8 \<Rightarrow> u8" where
  "accept_flag st = (if List.member ones_states st then 1 else 0)"

definition entry_of :: "u8 \<Rightarrow> bool list \<Rightarrow> http2_huff_decode" where
  "entry_of st bs =
     (case brun st bs of
        None \<Rightarrow> HuffDecode 0 4 0
      | Some ([], st') \<Rightarrow> HuffDecode st' (accept_flag st') 0
      | Some (s # _, st') \<Rightarrow> HuffDecode st' (2 + accept_flag st') s)"

definition nibbles :: "bool list list" where
  "nibbles =
     [[False, False, False, False], [False, False, False, True], [False, False, True, False], [False, False, True, True],
      [False, True, False, False], [False, True, False, True], [False, True, True, False], [False, True, True, True],
      [True, False, False, False], [True, False, False, True], [True, False, True, False], [True, False, True, True],
      [True, True, False, False], [True, True, False, True], [True, True, True, False], [True, True, True, True]]"

definition entry_row :: "u8 \<Rightarrow> http2_huff_decode list" where
  "entry_row st = map (entry_of st) nibbles"

text \<open>The path from the root to an inner node, as its length and its bits read as a number.\<close>

definition huff_paths :: "(u32 \<times> u32) list" where
  "huff_paths =
    [
     (0, 0x0), (1, 0x0), (2, 0x0), (3, 0x0), (4, 0x0), (4, 0x1),
     (3, 0x1), (4, 0x2), (4, 0x3), (2, 0x1), (3, 0x2), (4, 0x4),
     (4, 0x5), (5, 0xa), (5, 0xb), (3, 0x3), (4, 0x6), (5, 0xc),
     (5, 0xd), (4, 0x7), (5, 0xe), (5, 0xf), (1, 0x1), (2, 0x2),
     (3, 0x4), (4, 0x8), (5, 0x10), (5, 0x11), (4, 0x9), (5, 0x12),
     (5, 0x13), (3, 0x5), (4, 0xa), (5, 0x14), (5, 0x15), (4, 0xb),
     (5, 0x16), (5, 0x17), (6, 0x2e), (6, 0x2f), (2, 0x3), (3, 0x6),
     (4, 0xc), (5, 0x18), (6, 0x30), (6, 0x31), (5, 0x19), (6, 0x32),
     (6, 0x33), (4, 0xd), (5, 0x1a), (6, 0x34), (6, 0x35), (5, 0x1b),
     (6, 0x36), (6, 0x37), (3, 0x7), (4, 0xe), (5, 0x1c), (6, 0x38),
     (6, 0x39), (5, 0x1d), (6, 0x3a), (6, 0x3b), (4, 0xf), (5, 0x1e),
     (6, 0x3c), (6, 0x3d), (5, 0x1f), (6, 0x3e), (7, 0x7c), (7, 0x7d),
     (6, 0x3f), (7, 0x7e), (7, 0x7f), (8, 0xfe), (9, 0x1fc), (9, 0x1fd),
     (8, 0xff), (9, 0x1fe), (10, 0x3fd), (9, 0x1ff), (10, 0x3fe), (11, 0x7fd),
     (10, 0x3ff), (11, 0x7fe), (12, 0xffc), (12, 0xffd), (11, 0x7ff), (12, 0xffe),
     (12, 0xfff), (13, 0x1ffe), (13, 0x1fff), (14, 0x3ffe), (14, 0x3fff), (15, 0x7fff),
     (16, 0xfffe), (17, 0x1fffc), (18, 0x3fff8), (18, 0x3fff9), (19, 0x7fff3), (17, 0x1fffd),
     (18, 0x3fffa), (19, 0x7fff4), (19, 0x7fff5), (18, 0x3fffb), (19, 0x7fff6), (19, 0x7fff7),
     (20, 0xfffee), (20, 0xfffef), (16, 0xffff), (17, 0x1fffe), (18, 0x3fffc), (19, 0x7fff8),
     (20, 0xffff0), (20, 0xffff1), (19, 0x7fff9), (20, 0xffff2), (20, 0xffff3), (18, 0x3fffd),
     (19, 0x7fffa), (20, 0xffff4), (21, 0x1fffe9), (20, 0xffff5), (21, 0x1fffea), (21, 0x1fffeb),
     (19, 0x7fffb), (20, 0xffff6), (21, 0x1fffec), (21, 0x1fffed), (20, 0xffff7), (21, 0x1fffee),
     (21, 0x1fffef), (17, 0x1ffff), (18, 0x3fffe), (19, 0x7fffc), (20, 0xffff8), (21, 0x1ffff0),
     (21, 0x1ffff1), (20, 0xffff9), (21, 0x1ffff2), (21, 0x1ffff3), (19, 0x7fffd), (20, 0xffffa),
     (21, 0x1ffff4), (21, 0x1ffff5), (20, 0xffffb), (21, 0x1ffff6), (22, 0x3fffec), (22, 0x3fffed),
     (21, 0x1ffff7), (22, 0x3fffee), (22, 0x3fffef), (18, 0x3ffff), (19, 0x7fffe), (20, 0xffffc),
     (21, 0x1ffff8), (22, 0x3ffff0), (22, 0x3ffff1), (21, 0x1ffff9), (22, 0x3ffff2), (22, 0x3ffff3),
     (20, 0xffffd), (21, 0x1ffffa), (22, 0x3ffff4), (22, 0x3ffff5), (21, 0x1ffffb), (22, 0x3ffff6),
     (22, 0x3ffff7), (19, 0x7ffff), (20, 0xffffe), (21, 0x1ffffc), (22, 0x3ffff8), (22, 0x3ffff9),
     (21, 0x1ffffd), (22, 0x3ffffa), (23, 0x7ffff5), (22, 0x3ffffb), (23, 0x7ffff6), (23, 0x7ffff7),
     (20, 0xfffff), (21, 0x1ffffe), (22, 0x3ffffc), (23, 0x7ffff8), (23, 0x7ffff9), (22, 0x3ffffd),
     (23, 0x7ffffa), (23, 0x7ffffb), (24, 0xfffff6), (24, 0xfffff7), (21, 0x1fffff), (22, 0x3ffffe),
     (23, 0x7ffffc), (24, 0xfffff8), (25, 0x1fffff0), (25, 0x1fffff1), (24, 0xfffff9), (25, 0x1fffff2),
     (25, 0x1fffff3), (23, 0x7ffffd), (24, 0xfffffa), (25, 0x1fffff4), (25, 0x1fffff5), (24, 0xfffffb),
     (25, 0x1fffff6), (25, 0x1fffff7), (26, 0x3ffffef), (22, 0x3fffff), (23, 0x7ffffe), (24, 0xfffffc),
     (25, 0x1fffff8), (26, 0x3fffff0), (26, 0x3fffff1), (25, 0x1fffff9), (26, 0x3fffff2), (26, 0x3fffff3),
     (24, 0xfffffd), (25, 0x1fffffa), (26, 0x3fffff4), (26, 0x3fffff5), (25, 0x1fffffb), (26, 0x3fffff6),
     (26, 0x3fffff7), (23, 0x7fffff), (24, 0xfffffe), (25, 0x1fffffc), (26, 0x3fffff8), (27, 0x7fffff1),
     (26, 0x3fffff9), (27, 0x7fffff2), (27, 0x7fffff3), (25, 0x1fffffd), (26, 0x3fffffa), (27, 0x7fffff4),
     (27, 0x7fffff5), (26, 0x3fffffb), (27, 0x7fffff6), (27, 0x7fffff7), (24, 0xffffff), (25, 0x1fffffe),
     (26, 0x3fffffc), (27, 0x7fffff8), (27, 0x7fffff9), (26, 0x3fffffd), (27, 0x7fffffa), (27, 0x7fffffb),
     (25, 0x1ffffff), (26, 0x3fffffe), (27, 0x7fffffc), (27, 0x7fffffd), (26, 0x3ffffff), (27, 0x7fffffe),
     (27, 0x7ffffff), (28, 0xfffffff), (29, 0x1ffffffe), (29, 0x1fffffff)]"

definition node_path :: "u8 \<Rightarrow> u32 \<times> u32" where
  "node_path st = huff_paths ! unat st"

definition sym_entry :: "u8 \<Rightarrow> http2_huff_sym" where
  "sym_entry s = huff_sym_table ! unat s"

text \<open>One edge of the tree agrees with the paths of the nodes and with the encoding table.\<close>

definition edge_ok :: "u8 \<Rightarrow> bool \<Rightarrow> bool" where
  "edge_ok st b =
     (case node_path st of (n, v) \<Rightarrow>
       (let n' = n + 1; v' = 2 * v + (if b then 1 else 0) in
        n \<le> 29 \<and>
        (case delta st b of
           Nod st' \<Rightarrow> node_path st' = (n', v')
         | Sym s \<Rightarrow> sym_entry s = HuffSym n' v'
         | Eos \<Rightarrow> n' = 30 \<and> v' = 0x3fffffff)))"

fun leads :: "u8 \<Rightarrow> bool list \<Rightarrow> target" where
  "leads st [] = Nod st"
| "leads st (b # bs) =
     (case delta st b of Nod st' \<Rightarrow> leads st' bs | t \<Rightarrow> (if bs = [] then t else Eos))"

definition code_bits :: "u8 \<Rightarrow> bool list" where
  "code_bits s = (case sym_entry s of HuffSym n c \<Rightarrow> bits_of (unat n) c)"

definition all_bytes :: "u8 list" where
  "all_bytes =
     [
      0, 1, 2, 3, 4, 5, 6, 7, 8, 9, 10, 11, 12, 13, 14, 15, 16, 17, 18, 19, 20, 21, 22, 23, 24, 25,
      26, 27, 28, 29, 30, 31, 32, 33, 34, 35, 36, 37, 38, 39, 40, 41, 42, 43, 44, 45, 46, 47, 48, 49, 50, 51,
      52, 53, 54, 55, 56, 57, 58, 59, 60, 61, 62, 63, 64, 65, 66, 67, 68, 69, 70, 71, 72, 73, 74, 75, 76, 77,
      78, 79, 80, 81, 82, 83, 84, 85, 86, 87, 88, 89, 90, 91, 92, 93, 94, 95, 96, 97, 98, 99, 100, 101, 102, 103,
      104, 105, 106, 107, 108, 109, 110, 111, 112, 113, 114, 115, 116, 117, 118, 119, 120, 121, 122, 123, 124, 125, 126, 127, 128, 129,
      130, 131, 132, 133, 134, 135, 136, 137, 138, 139, 140, 141, 142, 143, 144, 145, 146, 147, 148, 149, 150, 151, 152, 153, 154, 155,
      156, 157, 158, 159, 160, 161, 162, 163, 164, 165, 166, 167, 168, 169, 170, 171, 172, 173, 174, 175, 176, 177, 178, 179, 180, 181,
      182, 183, 184, 185, 186, 187, 188, 189, 190, 191, 192, 193, 194, 195, 196, 197, 198, 199, 200, 201, 202, 203, 204, 205, 206, 207,
      208, 209, 210, 211, 212, 213, 214, 215, 216, 217, 218, 219, 220, 221, 222, 223, 224, 225, 226, 227, 228, 229, 230, 231, 232, 233,
      234, 235, 236, 237, 238, 239, 240, 241, 242, 243, 244, 245, 246, 247, 248, 249, 250, 251, 252, 253, 254, 255]"

subsection \<open>Evaluation of the constants\<close>

lemma delta_simps:
  "delta 0 False = Nod 1" "delta 0 True = Nod 22"
  "delta 1 False = Nod 2" "delta 1 True = Nod 9"
  "delta 2 False = Nod 3" "delta 2 True = Nod 6"
  "delta 3 False = Nod 4" "delta 3 True = Nod 5"
  "delta 4 False = Sym 48" "delta 4 True = Sym 49"
  "delta 5 False = Sym 50" "delta 5 True = Sym 97"
  "delta 6 False = Nod 7" "delta 6 True = Nod 8"
  "delta 7 False = Sym 99" "delta 7 True = Sym 101"
  "delta 8 False = Sym 105" "delta 8 True = Sym 111"
  "delta 9 False = Nod 10" "delta 9 True = Nod 15"
  "delta 10 False = Nod 11" "delta 10 True = Nod 12"
  "delta 11 False = Sym 115" "delta 11 True = Sym 116"
  "delta 12 False = Nod 13" "delta 12 True = Nod 14"
  "delta 13 False = Sym 32" "delta 13 True = Sym 37"
  "delta 14 False = Sym 45" "delta 14 True = Sym 46"
  "delta 15 False = Nod 16" "delta 15 True = Nod 19"
  "delta 16 False = Nod 17" "delta 16 True = Nod 18"
  "delta 17 False = Sym 47" "delta 17 True = Sym 51"
  "delta 18 False = Sym 52" "delta 18 True = Sym 53"
  "delta 19 False = Nod 20" "delta 19 True = Nod 21"
  "delta 20 False = Sym 54" "delta 20 True = Sym 55"
  "delta 21 False = Sym 56" "delta 21 True = Sym 57"
  "delta 22 False = Nod 23" "delta 22 True = Nod 40"
  "delta 23 False = Nod 24" "delta 23 True = Nod 31"
  "delta 24 False = Nod 25" "delta 24 True = Nod 28"
  "delta 25 False = Nod 26" "delta 25 True = Nod 27"
  "delta 26 False = Sym 61" "delta 26 True = Sym 65"
  "delta 27 False = Sym 95" "delta 27 True = Sym 98"
  "delta 28 False = Nod 29" "delta 28 True = Nod 30"
  "delta 29 False = Sym 100" "delta 29 True = Sym 102"
  "delta 30 False = Sym 103" "delta 30 True = Sym 104"
  "delta 31 False = Nod 32" "delta 31 True = Nod 35"
  "delta 32 False = Nod 33" "delta 32 True = Nod 34"
  "delta 33 False = Sym 108" "delta 33 True = Sym 109"
  "delta 34 False = Sym 110" "delta 34 True = Sym 112"
  "delta 35 False = Nod 36" "delta 35 True = Nod 37"
  "delta 36 False = Sym 114" "delta 36 True = Sym 117"
  "delta 37 False = Nod 38" "delta 37 True = Nod 39"
  "delta 38 False = Sym 58" "delta 38 True = Sym 66"
  "delta 39 False = Sym 67" "delta 39 True = Sym 68"
  "delta 40 False = Nod 41" "delta 40 True = Nod 56"
  "delta 41 False = Nod 42" "delta 41 True = Nod 49"
  "delta 42 False = Nod 43" "delta 42 True = Nod 46"
  "delta 43 False = Nod 44" "delta 43 True = Nod 45"
  "delta 44 False = Sym 69" "delta 44 True = Sym 70"
  "delta 45 False = Sym 71" "delta 45 True = Sym 72"
  "delta 46 False = Nod 47" "delta 46 True = Nod 48"
  "delta 47 False = Sym 73" "delta 47 True = Sym 74"
  "delta 48 False = Sym 75" "delta 48 True = Sym 76"
  "delta 49 False = Nod 50" "delta 49 True = Nod 53"
  "delta 50 False = Nod 51" "delta 50 True = Nod 52"
  "delta 51 False = Sym 77" "delta 51 True = Sym 78"
  "delta 52 False = Sym 79" "delta 52 True = Sym 80"
  "delta 53 False = Nod 54" "delta 53 True = Nod 55"
  "delta 54 False = Sym 81" "delta 54 True = Sym 82"
  "delta 55 False = Sym 83" "delta 55 True = Sym 84"
  "delta 56 False = Nod 57" "delta 56 True = Nod 64"
  "delta 57 False = Nod 58" "delta 57 True = Nod 61"
  "delta 58 False = Nod 59" "delta 58 True = Nod 60"
  "delta 59 False = Sym 85" "delta 59 True = Sym 86"
  "delta 60 False = Sym 87" "delta 60 True = Sym 89"
  "delta 61 False = Nod 62" "delta 61 True = Nod 63"
  "delta 62 False = Sym 106" "delta 62 True = Sym 107"
  "delta 63 False = Sym 113" "delta 63 True = Sym 118"
  "delta 64 False = Nod 65" "delta 64 True = Nod 68"
  "delta 65 False = Nod 66" "delta 65 True = Nod 67"
  "delta 66 False = Sym 119" "delta 66 True = Sym 120"
  "delta 67 False = Sym 121" "delta 67 True = Sym 122"
  "delta 68 False = Nod 69" "delta 68 True = Nod 72"
  "delta 69 False = Nod 70" "delta 69 True = Nod 71"
  "delta 70 False = Sym 38" "delta 70 True = Sym 42"
  "delta 71 False = Sym 44" "delta 71 True = Sym 59"
  "delta 72 False = Nod 73" "delta 72 True = Nod 74"
  "delta 73 False = Sym 88" "delta 73 True = Sym 90"
  "delta 74 False = Nod 75" "delta 74 True = Nod 78"
  "delta 75 False = Nod 76" "delta 75 True = Nod 77"
  "delta 76 False = Sym 33" "delta 76 True = Sym 34"
  "delta 77 False = Sym 40" "delta 77 True = Sym 41"
  "delta 78 False = Nod 79" "delta 78 True = Nod 81"
  "delta 79 False = Sym 63" "delta 79 True = Nod 80"
  "delta 80 False = Sym 39" "delta 80 True = Sym 43"
  "delta 81 False = Nod 82" "delta 81 True = Nod 84"
  "delta 82 False = Sym 124" "delta 82 True = Nod 83"
  "delta 83 False = Sym 35" "delta 83 True = Sym 62"
  "delta 84 False = Nod 85" "delta 84 True = Nod 88"
  "delta 85 False = Nod 86" "delta 85 True = Nod 87"
  "delta 86 False = Sym 0" "delta 86 True = Sym 36"
  "delta 87 False = Sym 64" "delta 87 True = Sym 91"
  "delta 88 False = Nod 89" "delta 88 True = Nod 90"
  "delta 89 False = Sym 93" "delta 89 True = Sym 126"
  "delta 90 False = Nod 91" "delta 90 True = Nod 92"
  "delta 91 False = Sym 94" "delta 91 True = Sym 125"
  "delta 92 False = Nod 93" "delta 92 True = Nod 94"
  "delta 93 False = Sym 60" "delta 93 True = Sym 96"
  "delta 94 False = Sym 123" "delta 94 True = Nod 95"
  "delta 95 False = Nod 96" "delta 95 True = Nod 110"
  "delta 96 False = Nod 97" "delta 96 True = Nod 101"
  "delta 97 False = Nod 98" "delta 97 True = Nod 99"
  "delta 98 False = Sym 92" "delta 98 True = Sym 195"
  "delta 99 False = Sym 208" "delta 99 True = Nod 100"
  "delta 100 False = Sym 128" "delta 100 True = Sym 130"
  "delta 101 False = Nod 102" "delta 101 True = Nod 105"
  "delta 102 False = Nod 103" "delta 102 True = Nod 104"
  "delta 103 False = Sym 131" "delta 103 True = Sym 162"
  "delta 104 False = Sym 184" "delta 104 True = Sym 194"
  "delta 105 False = Nod 106" "delta 105 True = Nod 107"
  "delta 106 False = Sym 224" "delta 106 True = Sym 226"
  "delta 107 False = Nod 108" "delta 107 True = Nod 109"
  "delta 108 False = Sym 153" "delta 108 True = Sym 161"
  "delta 109 False = Sym 167" "delta 109 True = Sym 172"
  "delta 110 False = Nod 111" "delta 110 True = Nod 133"
  "delta 111 False = Nod 112" "delta 111 True = Nod 119"
  "delta 112 False = Nod 113" "delta 112 True = Nod 116"
  "delta 113 False = Nod 114" "delta 113 True = Nod 115"
  "delta 114 False = Sym 176" "delta 114 True = Sym 177"
  "delta 115 False = Sym 179" "delta 115 True = Sym 209"
  "delta 116 False = Nod 117" "delta 116 True = Nod 118"
  "delta 117 False = Sym 216" "delta 117 True = Sym 217"
  "delta 118 False = Sym 227" "delta 118 True = Sym 229"
  "delta 119 False = Nod 120" "delta 119 True = Nod 126"
  "delta 120 False = Nod 121" "delta 120 True = Nod 123"
  "delta 121 False = Sym 230" "delta 121 True = Nod 122"
  "delta 122 False = Sym 129" "delta 122 True = Sym 132"
  "delta 123 False = Nod 124" "delta 123 True = Nod 125"
  "delta 124 False = Sym 133" "delta 124 True = Sym 134"
  "delta 125 False = Sym 136" "delta 125 True = Sym 146"
  "delta 126 False = Nod 127" "delta 126 True = Nod 130"
  "delta 127 False = Nod 128" "delta 127 True = Nod 129"
  "delta 128 False = Sym 154" "delta 128 True = Sym 156"
  "delta 129 False = Sym 160" "delta 129 True = Sym 163"
  "delta 130 False = Nod 131" "delta 130 True = Nod 132"
  "delta 131 False = Sym 164" "delta 131 True = Sym 169"
  "delta 132 False = Sym 170" "delta 132 True = Sym 173"
  "delta 133 False = Nod 134" "delta 133 True = Nod 153"
  "delta 134 False = Nod 135" "delta 134 True = Nod 142"
  "delta 135 False = Nod 136" "delta 135 True = Nod 139"
  "delta 136 False = Nod 137" "delta 136 True = Nod 138"
  "delta 137 False = Sym 178" "delta 137 True = Sym 181"
  "delta 138 False = Sym 185" "delta 138 True = Sym 186"
  "delta 139 False = Nod 140" "delta 139 True = Nod 141"
  "delta 140 False = Sym 187" "delta 140 True = Sym 189"
  "delta 141 False = Sym 190" "delta 141 True = Sym 196"
  "delta 142 False = Nod 143" "delta 142 True = Nod 146"
  "delta 143 False = Nod 144" "delta 143 True = Nod 145"
  "delta 144 False = Sym 198" "delta 144 True = Sym 228"
  "delta 145 False = Sym 232" "delta 145 True = Sym 233"
  "delta 146 False = Nod 147" "delta 146 True = Nod 150"
  "delta 147 False = Nod 148" "delta 147 True = Nod 149"
  "delta 148 False = Sym 1" "delta 148 True = Sym 135"
  "delta 149 False = Sym 137" "delta 149 True = Sym 138"
  "delta 150 False = Nod 151" "delta 150 True = Nod 152"
  "delta 151 False = Sym 139" "delta 151 True = Sym 140"
  "delta 152 False = Sym 141" "delta 152 True = Sym 143"
  "delta 153 False = Nod 154" "delta 153 True = Nod 169"
  "delta 154 False = Nod 155" "delta 154 True = Nod 162"
  "delta 155 False = Nod 156" "delta 155 True = Nod 159"
  "delta 156 False = Nod 157" "delta 156 True = Nod 158"
  "delta 157 False = Sym 147" "delta 157 True = Sym 149"
  "delta 158 False = Sym 150" "delta 158 True = Sym 151"
  "delta 159 False = Nod 160" "delta 159 True = Nod 161"
  "delta 160 False = Sym 152" "delta 160 True = Sym 155"
  "delta 161 False = Sym 157" "delta 161 True = Sym 158"
  "delta 162 False = Nod 163" "delta 162 True = Nod 166"
  "delta 163 False = Nod 164" "delta 163 True = Nod 165"
  "delta 164 False = Sym 165" "delta 164 True = Sym 166"
  "delta 165 False = Sym 168" "delta 165 True = Sym 174"
  "delta 166 False = Nod 167" "delta 166 True = Nod 168"
  "delta 167 False = Sym 175" "delta 167 True = Sym 180"
  "delta 168 False = Sym 182" "delta 168 True = Sym 183"
  "delta 169 False = Nod 170" "delta 169 True = Nod 180"
  "delta 170 False = Nod 171" "delta 170 True = Nod 174"
  "delta 171 False = Nod 172" "delta 171 True = Nod 173"
  "delta 172 False = Sym 188" "delta 172 True = Sym 191"
  "delta 173 False = Sym 197" "delta 173 True = Sym 231"
  "delta 174 False = Nod 175" "delta 174 True = Nod 177"
  "delta 175 False = Sym 239" "delta 175 True = Nod 176"
  "delta 176 False = Sym 9" "delta 176 True = Sym 142"
  "delta 177 False = Nod 178" "delta 177 True = Nod 179"
  "delta 178 False = Sym 144" "delta 178 True = Sym 145"
  "delta 179 False = Sym 148" "delta 179 True = Sym 159"
  "delta 180 False = Nod 181" "delta 180 True = Nod 190"
  "delta 181 False = Nod 182" "delta 181 True = Nod 185"
  "delta 182 False = Nod 183" "delta 182 True = Nod 184"
  "delta 183 False = Sym 171" "delta 183 True = Sym 206"
  "delta 184 False = Sym 215" "delta 184 True = Sym 225"
  "delta 185 False = Nod 186" "delta 185 True = Nod 187"
  "delta 186 False = Sym 236" "delta 186 True = Sym 237"
  "delta 187 False = Nod 188" "delta 187 True = Nod 189"
  "delta 188 False = Sym 199" "delta 188 True = Sym 207"
  "delta 189 False = Sym 234" "delta 189 True = Sym 235"
  "delta 190 False = Nod 191" "delta 190 True = Nod 207"
  "delta 191 False = Nod 192" "delta 191 True = Nod 199"
  "delta 192 False = Nod 193" "delta 192 True = Nod 196"
  "delta 193 False = Nod 194" "delta 193 True = Nod 195"
  "delta 194 False = Sym 192" "delta 194 True = Sym 193"
  "delta 195 False = Sym 200" "delta 195 True = Sym 201"
  "delta 196 False = Nod 197" "delta 196 True = Nod 198"
  "delta 197 False = Sym 202" "delta 197 True = Sym 205"
  "delta 198 False = Sym 210" "delta 198 True = Sym 213"
  "delta 199 False = Nod 200" "delta 199 True = Nod 203"
  "delta 200 False = Nod 201" "delta 200 True = Nod 202"
  "delta 201 False = Sym 218" "delta 201 True = Sym 219"
  "delta 202 False = Sym 238" "delta 202 True = Sym 240"
  "delta 203 False = Nod 204" "delta 203 True = Nod 205"
  "delta 204 False = Sym 242" "delta 204 True = Sym 243"
  "delta 205 False = Sym 255" "delta 205 True = Nod 206"
  "delta 206 False = Sym 203" "delta 206 True = Sym 204"
  "delta 207 False = Nod 208" "delta 207 True = Nod 223"
  "delta 208 False = Nod 209" "delta 208 True = Nod 216"
  "delta 209 False = Nod 210" "delta 209 True = Nod 213"
  "delta 210 False = Nod 211" "delta 210 True = Nod 212"
  "delta 211 False = Sym 211" "delta 211 True = Sym 212"
  "delta 212 False = Sym 214" "delta 212 True = Sym 221"
  "delta 213 False = Nod 214" "delta 213 True = Nod 215"
  "delta 214 False = Sym 222" "delta 214 True = Sym 223"
  "delta 215 False = Sym 241" "delta 215 True = Sym 244"
  "delta 216 False = Nod 217" "delta 216 True = Nod 220"
  "delta 217 False = Nod 218" "delta 217 True = Nod 219"
  "delta 218 False = Sym 245" "delta 218 True = Sym 246"
  "delta 219 False = Sym 247" "delta 219 True = Sym 248"
  "delta 220 False = Nod 221" "delta 220 True = Nod 222"
  "delta 221 False = Sym 250" "delta 221 True = Sym 251"
  "delta 222 False = Sym 252" "delta 222 True = Sym 253"
  "delta 223 False = Nod 224" "delta 223 True = Nod 238"
  "delta 224 False = Nod 225" "delta 224 True = Nod 231"
  "delta 225 False = Nod 226" "delta 225 True = Nod 228"
  "delta 226 False = Sym 254" "delta 226 True = Nod 227"
  "delta 227 False = Sym 2" "delta 227 True = Sym 3"
  "delta 228 False = Nod 229" "delta 228 True = Nod 230"
  "delta 229 False = Sym 4" "delta 229 True = Sym 5"
  "delta 230 False = Sym 6" "delta 230 True = Sym 7"
  "delta 231 False = Nod 232" "delta 231 True = Nod 235"
  "delta 232 False = Nod 233" "delta 232 True = Nod 234"
  "delta 233 False = Sym 8" "delta 233 True = Sym 11"
  "delta 234 False = Sym 12" "delta 234 True = Sym 14"
  "delta 235 False = Nod 236" "delta 235 True = Nod 237"
  "delta 236 False = Sym 15" "delta 236 True = Sym 16"
  "delta 237 False = Sym 17" "delta 237 True = Sym 18"
  "delta 238 False = Nod 239" "delta 238 True = Nod 246"
  "delta 239 False = Nod 240" "delta 239 True = Nod 243"
  "delta 240 False = Nod 241" "delta 240 True = Nod 242"
  "delta 241 False = Sym 19" "delta 241 True = Sym 20"
  "delta 242 False = Sym 21" "delta 242 True = Sym 23"
  "delta 243 False = Nod 244" "delta 243 True = Nod 245"
  "delta 244 False = Sym 24" "delta 244 True = Sym 25"
  "delta 245 False = Sym 26" "delta 245 True = Sym 27"
  "delta 246 False = Nod 247" "delta 246 True = Nod 250"
  "delta 247 False = Nod 248" "delta 247 True = Nod 249"
  "delta 248 False = Sym 28" "delta 248 True = Sym 29"
  "delta 249 False = Sym 30" "delta 249 True = Sym 31"
  "delta 250 False = Nod 251" "delta 250 True = Nod 252"
  "delta 251 False = Sym 127" "delta 251 True = Sym 220"
  "delta 252 False = Sym 249" "delta 252 True = Nod 253"
  "delta 253 False = Nod 254" "delta 253 True = Nod 255"
  "delta 254 False = Sym 10" "delta 254 True = Sym 13"
  "delta 255 False = Sym 22" "delta 255 True = Eos"
  by (simp_all add: delta_def huff_tree_def)

lemma node_path_simps:
  "node_path 0 = (0, 0x0)" "node_path 1 = (1, 0x0)" "node_path 2 = (2, 0x0)" "node_path 3 = (3, 0x0)"
  "node_path 4 = (4, 0x0)" "node_path 5 = (4, 0x1)" "node_path 6 = (3, 0x1)" "node_path 7 = (4, 0x2)"
  "node_path 8 = (4, 0x3)" "node_path 9 = (2, 0x1)" "node_path 10 = (3, 0x2)" "node_path 11 = (4, 0x4)"
  "node_path 12 = (4, 0x5)" "node_path 13 = (5, 0xa)" "node_path 14 = (5, 0xb)" "node_path 15 = (3, 0x3)"
  "node_path 16 = (4, 0x6)" "node_path 17 = (5, 0xc)" "node_path 18 = (5, 0xd)" "node_path 19 = (4, 0x7)"
  "node_path 20 = (5, 0xe)" "node_path 21 = (5, 0xf)" "node_path 22 = (1, 0x1)" "node_path 23 = (2, 0x2)"
  "node_path 24 = (3, 0x4)" "node_path 25 = (4, 0x8)" "node_path 26 = (5, 0x10)" "node_path 27 = (5, 0x11)"
  "node_path 28 = (4, 0x9)" "node_path 29 = (5, 0x12)" "node_path 30 = (5, 0x13)" "node_path 31 = (3, 0x5)"
  "node_path 32 = (4, 0xa)" "node_path 33 = (5, 0x14)" "node_path 34 = (5, 0x15)" "node_path 35 = (4, 0xb)"
  "node_path 36 = (5, 0x16)" "node_path 37 = (5, 0x17)" "node_path 38 = (6, 0x2e)" "node_path 39 = (6, 0x2f)"
  "node_path 40 = (2, 0x3)" "node_path 41 = (3, 0x6)" "node_path 42 = (4, 0xc)" "node_path 43 = (5, 0x18)"
  "node_path 44 = (6, 0x30)" "node_path 45 = (6, 0x31)" "node_path 46 = (5, 0x19)" "node_path 47 = (6, 0x32)"
  "node_path 48 = (6, 0x33)" "node_path 49 = (4, 0xd)" "node_path 50 = (5, 0x1a)" "node_path 51 = (6, 0x34)"
  "node_path 52 = (6, 0x35)" "node_path 53 = (5, 0x1b)" "node_path 54 = (6, 0x36)" "node_path 55 = (6, 0x37)"
  "node_path 56 = (3, 0x7)" "node_path 57 = (4, 0xe)" "node_path 58 = (5, 0x1c)" "node_path 59 = (6, 0x38)"
  "node_path 60 = (6, 0x39)" "node_path 61 = (5, 0x1d)" "node_path 62 = (6, 0x3a)" "node_path 63 = (6, 0x3b)"
  "node_path 64 = (4, 0xf)" "node_path 65 = (5, 0x1e)" "node_path 66 = (6, 0x3c)" "node_path 67 = (6, 0x3d)"
  "node_path 68 = (5, 0x1f)" "node_path 69 = (6, 0x3e)" "node_path 70 = (7, 0x7c)" "node_path 71 = (7, 0x7d)"
  "node_path 72 = (6, 0x3f)" "node_path 73 = (7, 0x7e)" "node_path 74 = (7, 0x7f)" "node_path 75 = (8, 0xfe)"
  "node_path 76 = (9, 0x1fc)" "node_path 77 = (9, 0x1fd)" "node_path 78 = (8, 0xff)" "node_path 79 = (9, 0x1fe)"
  "node_path 80 = (10, 0x3fd)" "node_path 81 = (9, 0x1ff)" "node_path 82 = (10, 0x3fe)" "node_path 83 = (11, 0x7fd)"
  "node_path 84 = (10, 0x3ff)" "node_path 85 = (11, 0x7fe)" "node_path 86 = (12, 0xffc)" "node_path 87 = (12, 0xffd)"
  "node_path 88 = (11, 0x7ff)" "node_path 89 = (12, 0xffe)" "node_path 90 = (12, 0xfff)" "node_path 91 = (13, 0x1ffe)"
  "node_path 92 = (13, 0x1fff)" "node_path 93 = (14, 0x3ffe)" "node_path 94 = (14, 0x3fff)" "node_path 95 = (15, 0x7fff)"
  "node_path 96 = (16, 0xfffe)" "node_path 97 = (17, 0x1fffc)" "node_path 98 = (18, 0x3fff8)" "node_path 99 = (18, 0x3fff9)"
  "node_path 100 = (19, 0x7fff3)" "node_path 101 = (17, 0x1fffd)" "node_path 102 = (18, 0x3fffa)" "node_path 103 = (19, 0x7fff4)"
  "node_path 104 = (19, 0x7fff5)" "node_path 105 = (18, 0x3fffb)" "node_path 106 = (19, 0x7fff6)" "node_path 107 = (19, 0x7fff7)"
  "node_path 108 = (20, 0xfffee)" "node_path 109 = (20, 0xfffef)" "node_path 110 = (16, 0xffff)" "node_path 111 = (17, 0x1fffe)"
  "node_path 112 = (18, 0x3fffc)" "node_path 113 = (19, 0x7fff8)" "node_path 114 = (20, 0xffff0)" "node_path 115 = (20, 0xffff1)"
  "node_path 116 = (19, 0x7fff9)" "node_path 117 = (20, 0xffff2)" "node_path 118 = (20, 0xffff3)" "node_path 119 = (18, 0x3fffd)"
  "node_path 120 = (19, 0x7fffa)" "node_path 121 = (20, 0xffff4)" "node_path 122 = (21, 0x1fffe9)" "node_path 123 = (20, 0xffff5)"
  "node_path 124 = (21, 0x1fffea)" "node_path 125 = (21, 0x1fffeb)" "node_path 126 = (19, 0x7fffb)" "node_path 127 = (20, 0xffff6)"
  "node_path 128 = (21, 0x1fffec)" "node_path 129 = (21, 0x1fffed)" "node_path 130 = (20, 0xffff7)" "node_path 131 = (21, 0x1fffee)"
  "node_path 132 = (21, 0x1fffef)" "node_path 133 = (17, 0x1ffff)" "node_path 134 = (18, 0x3fffe)" "node_path 135 = (19, 0x7fffc)"
  "node_path 136 = (20, 0xffff8)" "node_path 137 = (21, 0x1ffff0)" "node_path 138 = (21, 0x1ffff1)" "node_path 139 = (20, 0xffff9)"
  "node_path 140 = (21, 0x1ffff2)" "node_path 141 = (21, 0x1ffff3)" "node_path 142 = (19, 0x7fffd)" "node_path 143 = (20, 0xffffa)"
  "node_path 144 = (21, 0x1ffff4)" "node_path 145 = (21, 0x1ffff5)" "node_path 146 = (20, 0xffffb)" "node_path 147 = (21, 0x1ffff6)"
  "node_path 148 = (22, 0x3fffec)" "node_path 149 = (22, 0x3fffed)" "node_path 150 = (21, 0x1ffff7)" "node_path 151 = (22, 0x3fffee)"
  "node_path 152 = (22, 0x3fffef)" "node_path 153 = (18, 0x3ffff)" "node_path 154 = (19, 0x7fffe)" "node_path 155 = (20, 0xffffc)"
  "node_path 156 = (21, 0x1ffff8)" "node_path 157 = (22, 0x3ffff0)" "node_path 158 = (22, 0x3ffff1)" "node_path 159 = (21, 0x1ffff9)"
  "node_path 160 = (22, 0x3ffff2)" "node_path 161 = (22, 0x3ffff3)" "node_path 162 = (20, 0xffffd)" "node_path 163 = (21, 0x1ffffa)"
  "node_path 164 = (22, 0x3ffff4)" "node_path 165 = (22, 0x3ffff5)" "node_path 166 = (21, 0x1ffffb)" "node_path 167 = (22, 0x3ffff6)"
  "node_path 168 = (22, 0x3ffff7)" "node_path 169 = (19, 0x7ffff)" "node_path 170 = (20, 0xffffe)" "node_path 171 = (21, 0x1ffffc)"
  "node_path 172 = (22, 0x3ffff8)" "node_path 173 = (22, 0x3ffff9)" "node_path 174 = (21, 0x1ffffd)" "node_path 175 = (22, 0x3ffffa)"
  "node_path 176 = (23, 0x7ffff5)" "node_path 177 = (22, 0x3ffffb)" "node_path 178 = (23, 0x7ffff6)" "node_path 179 = (23, 0x7ffff7)"
  "node_path 180 = (20, 0xfffff)" "node_path 181 = (21, 0x1ffffe)" "node_path 182 = (22, 0x3ffffc)" "node_path 183 = (23, 0x7ffff8)"
  "node_path 184 = (23, 0x7ffff9)" "node_path 185 = (22, 0x3ffffd)" "node_path 186 = (23, 0x7ffffa)" "node_path 187 = (23, 0x7ffffb)"
  "node_path 188 = (24, 0xfffff6)" "node_path 189 = (24, 0xfffff7)" "node_path 190 = (21, 0x1fffff)" "node_path 191 = (22, 0x3ffffe)"
  "node_path 192 = (23, 0x7ffffc)" "node_path 193 = (24, 0xfffff8)" "node_path 194 = (25, 0x1fffff0)" "node_path 195 = (25, 0x1fffff1)"
  "node_path 196 = (24, 0xfffff9)" "node_path 197 = (25, 0x1fffff2)" "node_path 198 = (25, 0x1fffff3)" "node_path 199 = (23, 0x7ffffd)"
  "node_path 200 = (24, 0xfffffa)" "node_path 201 = (25, 0x1fffff4)" "node_path 202 = (25, 0x1fffff5)" "node_path 203 = (24, 0xfffffb)"
  "node_path 204 = (25, 0x1fffff6)" "node_path 205 = (25, 0x1fffff7)" "node_path 206 = (26, 0x3ffffef)" "node_path 207 = (22, 0x3fffff)"
  "node_path 208 = (23, 0x7ffffe)" "node_path 209 = (24, 0xfffffc)" "node_path 210 = (25, 0x1fffff8)" "node_path 211 = (26, 0x3fffff0)"
  "node_path 212 = (26, 0x3fffff1)" "node_path 213 = (25, 0x1fffff9)" "node_path 214 = (26, 0x3fffff2)" "node_path 215 = (26, 0x3fffff3)"
  "node_path 216 = (24, 0xfffffd)" "node_path 217 = (25, 0x1fffffa)" "node_path 218 = (26, 0x3fffff4)" "node_path 219 = (26, 0x3fffff5)"
  "node_path 220 = (25, 0x1fffffb)" "node_path 221 = (26, 0x3fffff6)" "node_path 222 = (26, 0x3fffff7)" "node_path 223 = (23, 0x7fffff)"
  "node_path 224 = (24, 0xfffffe)" "node_path 225 = (25, 0x1fffffc)" "node_path 226 = (26, 0x3fffff8)" "node_path 227 = (27, 0x7fffff1)"
  "node_path 228 = (26, 0x3fffff9)" "node_path 229 = (27, 0x7fffff2)" "node_path 230 = (27, 0x7fffff3)" "node_path 231 = (25, 0x1fffffd)"
  "node_path 232 = (26, 0x3fffffa)" "node_path 233 = (27, 0x7fffff4)" "node_path 234 = (27, 0x7fffff5)" "node_path 235 = (26, 0x3fffffb)"
  "node_path 236 = (27, 0x7fffff6)" "node_path 237 = (27, 0x7fffff7)" "node_path 238 = (24, 0xffffff)" "node_path 239 = (25, 0x1fffffe)"
  "node_path 240 = (26, 0x3fffffc)" "node_path 241 = (27, 0x7fffff8)" "node_path 242 = (27, 0x7fffff9)" "node_path 243 = (26, 0x3fffffd)"
  "node_path 244 = (27, 0x7fffffa)" "node_path 245 = (27, 0x7fffffb)" "node_path 246 = (25, 0x1ffffff)" "node_path 247 = (26, 0x3fffffe)"
  "node_path 248 = (27, 0x7fffffc)" "node_path 249 = (27, 0x7fffffd)" "node_path 250 = (26, 0x3ffffff)" "node_path 251 = (27, 0x7fffffe)"
  "node_path 252 = (27, 0x7ffffff)" "node_path 253 = (28, 0xfffffff)" "node_path 254 = (29, 0x1ffffffe)" "node_path 255 = (29, 0x1fffffff)"
  by (simp_all add: node_path_def huff_paths_def)

lemma sym_entry_simps:
  "sym_entry 0 = HuffSym 13 0x1ff8" "sym_entry 1 = HuffSym 23 0x7fffd8" "sym_entry 2 = HuffSym 28 0xfffffe2"
  "sym_entry 3 = HuffSym 28 0xfffffe3" "sym_entry 4 = HuffSym 28 0xfffffe4" "sym_entry 5 = HuffSym 28 0xfffffe5"
  "sym_entry 6 = HuffSym 28 0xfffffe6" "sym_entry 7 = HuffSym 28 0xfffffe7" "sym_entry 8 = HuffSym 28 0xfffffe8"
  "sym_entry 9 = HuffSym 24 0xffffea" "sym_entry 10 = HuffSym 30 0x3ffffffc" "sym_entry 11 = HuffSym 28 0xfffffe9"
  "sym_entry 12 = HuffSym 28 0xfffffea" "sym_entry 13 = HuffSym 30 0x3ffffffd" "sym_entry 14 = HuffSym 28 0xfffffeb"
  "sym_entry 15 = HuffSym 28 0xfffffec" "sym_entry 16 = HuffSym 28 0xfffffed" "sym_entry 17 = HuffSym 28 0xfffffee"
  "sym_entry 18 = HuffSym 28 0xfffffef" "sym_entry 19 = HuffSym 28 0xffffff0" "sym_entry 20 = HuffSym 28 0xffffff1"
  "sym_entry 21 = HuffSym 28 0xffffff2" "sym_entry 22 = HuffSym 30 0x3ffffffe" "sym_entry 23 = HuffSym 28 0xffffff3"
  "sym_entry 24 = HuffSym 28 0xffffff4" "sym_entry 25 = HuffSym 28 0xffffff5" "sym_entry 26 = HuffSym 28 0xffffff6"
  "sym_entry 27 = HuffSym 28 0xffffff7" "sym_entry 28 = HuffSym 28 0xffffff8" "sym_entry 29 = HuffSym 28 0xffffff9"
  "sym_entry 30 = HuffSym 28 0xffffffa" "sym_entry 31 = HuffSym 28 0xffffffb" "sym_entry 32 = HuffSym 6 0x14"
  "sym_entry 33 = HuffSym 10 0x3f8" "sym_entry 34 = HuffSym 10 0x3f9" "sym_entry 35 = HuffSym 12 0xffa"
  "sym_entry 36 = HuffSym 13 0x1ff9" "sym_entry 37 = HuffSym 6 0x15" "sym_entry 38 = HuffSym 8 0xf8"
  "sym_entry 39 = HuffSym 11 0x7fa" "sym_entry 40 = HuffSym 10 0x3fa" "sym_entry 41 = HuffSym 10 0x3fb"
  "sym_entry 42 = HuffSym 8 0xf9" "sym_entry 43 = HuffSym 11 0x7fb" "sym_entry 44 = HuffSym 8 0xfa"
  "sym_entry 45 = HuffSym 6 0x16" "sym_entry 46 = HuffSym 6 0x17" "sym_entry 47 = HuffSym 6 0x18"
  "sym_entry 48 = HuffSym 5 0x0" "sym_entry 49 = HuffSym 5 0x1" "sym_entry 50 = HuffSym 5 0x2"
  "sym_entry 51 = HuffSym 6 0x19" "sym_entry 52 = HuffSym 6 0x1a" "sym_entry 53 = HuffSym 6 0x1b"
  "sym_entry 54 = HuffSym 6 0x1c" "sym_entry 55 = HuffSym 6 0x1d" "sym_entry 56 = HuffSym 6 0x1e"
  "sym_entry 57 = HuffSym 6 0x1f" "sym_entry 58 = HuffSym 7 0x5c" "sym_entry 59 = HuffSym 8 0xfb"
  "sym_entry 60 = HuffSym 15 0x7ffc" "sym_entry 61 = HuffSym 6 0x20" "sym_entry 62 = HuffSym 12 0xffb"
  "sym_entry 63 = HuffSym 10 0x3fc" "sym_entry 64 = HuffSym 13 0x1ffa" "sym_entry 65 = HuffSym 6 0x21"
  "sym_entry 66 = HuffSym 7 0x5d" "sym_entry 67 = HuffSym 7 0x5e" "sym_entry 68 = HuffSym 7 0x5f"
  "sym_entry 69 = HuffSym 7 0x60" "sym_entry 70 = HuffSym 7 0x61" "sym_entry 71 = HuffSym 7 0x62"
  "sym_entry 72 = HuffSym 7 0x63" "sym_entry 73 = HuffSym 7 0x64" "sym_entry 74 = HuffSym 7 0x65"
  "sym_entry 75 = HuffSym 7 0x66" "sym_entry 76 = HuffSym 7 0x67" "sym_entry 77 = HuffSym 7 0x68"
  "sym_entry 78 = HuffSym 7 0x69" "sym_entry 79 = HuffSym 7 0x6a" "sym_entry 80 = HuffSym 7 0x6b"
  "sym_entry 81 = HuffSym 7 0x6c" "sym_entry 82 = HuffSym 7 0x6d" "sym_entry 83 = HuffSym 7 0x6e"
  "sym_entry 84 = HuffSym 7 0x6f" "sym_entry 85 = HuffSym 7 0x70" "sym_entry 86 = HuffSym 7 0x71"
  "sym_entry 87 = HuffSym 7 0x72" "sym_entry 88 = HuffSym 8 0xfc" "sym_entry 89 = HuffSym 7 0x73"
  "sym_entry 90 = HuffSym 8 0xfd" "sym_entry 91 = HuffSym 13 0x1ffb" "sym_entry 92 = HuffSym 19 0x7fff0"
  "sym_entry 93 = HuffSym 13 0x1ffc" "sym_entry 94 = HuffSym 14 0x3ffc" "sym_entry 95 = HuffSym 6 0x22"
  "sym_entry 96 = HuffSym 15 0x7ffd" "sym_entry 97 = HuffSym 5 0x3" "sym_entry 98 = HuffSym 6 0x23"
  "sym_entry 99 = HuffSym 5 0x4" "sym_entry 100 = HuffSym 6 0x24" "sym_entry 101 = HuffSym 5 0x5"
  "sym_entry 102 = HuffSym 6 0x25" "sym_entry 103 = HuffSym 6 0x26" "sym_entry 104 = HuffSym 6 0x27"
  "sym_entry 105 = HuffSym 5 0x6" "sym_entry 106 = HuffSym 7 0x74" "sym_entry 107 = HuffSym 7 0x75"
  "sym_entry 108 = HuffSym 6 0x28" "sym_entry 109 = HuffSym 6 0x29" "sym_entry 110 = HuffSym 6 0x2a"
  "sym_entry 111 = HuffSym 5 0x7" "sym_entry 112 = HuffSym 6 0x2b" "sym_entry 113 = HuffSym 7 0x76"
  "sym_entry 114 = HuffSym 6 0x2c" "sym_entry 115 = HuffSym 5 0x8" "sym_entry 116 = HuffSym 5 0x9"
  "sym_entry 117 = HuffSym 6 0x2d" "sym_entry 118 = HuffSym 7 0x77" "sym_entry 119 = HuffSym 7 0x78"
  "sym_entry 120 = HuffSym 7 0x79" "sym_entry 121 = HuffSym 7 0x7a" "sym_entry 122 = HuffSym 7 0x7b"
  "sym_entry 123 = HuffSym 15 0x7ffe" "sym_entry 124 = HuffSym 11 0x7fc" "sym_entry 125 = HuffSym 14 0x3ffd"
  "sym_entry 126 = HuffSym 13 0x1ffd" "sym_entry 127 = HuffSym 28 0xffffffc" "sym_entry 128 = HuffSym 20 0xfffe6"
  "sym_entry 129 = HuffSym 22 0x3fffd2" "sym_entry 130 = HuffSym 20 0xfffe7" "sym_entry 131 = HuffSym 20 0xfffe8"
  "sym_entry 132 = HuffSym 22 0x3fffd3" "sym_entry 133 = HuffSym 22 0x3fffd4" "sym_entry 134 = HuffSym 22 0x3fffd5"
  "sym_entry 135 = HuffSym 23 0x7fffd9" "sym_entry 136 = HuffSym 22 0x3fffd6" "sym_entry 137 = HuffSym 23 0x7fffda"
  "sym_entry 138 = HuffSym 23 0x7fffdb" "sym_entry 139 = HuffSym 23 0x7fffdc" "sym_entry 140 = HuffSym 23 0x7fffdd"
  "sym_entry 141 = HuffSym 23 0x7fffde" "sym_entry 142 = HuffSym 24 0xffffeb" "sym_entry 143 = HuffSym 23 0x7fffdf"
  "sym_entry 144 = HuffSym 24 0xffffec" "sym_entry 145 = HuffSym 24 0xffffed" "sym_entry 146 = HuffSym 22 0x3fffd7"
  "sym_entry 147 = HuffSym 23 0x7fffe0" "sym_entry 148 = HuffSym 24 0xffffee" "sym_entry 149 = HuffSym 23 0x7fffe1"
  "sym_entry 150 = HuffSym 23 0x7fffe2" "sym_entry 151 = HuffSym 23 0x7fffe3" "sym_entry 152 = HuffSym 23 0x7fffe4"
  "sym_entry 153 = HuffSym 21 0x1fffdc" "sym_entry 154 = HuffSym 22 0x3fffd8" "sym_entry 155 = HuffSym 23 0x7fffe5"
  "sym_entry 156 = HuffSym 22 0x3fffd9" "sym_entry 157 = HuffSym 23 0x7fffe6" "sym_entry 158 = HuffSym 23 0x7fffe7"
  "sym_entry 159 = HuffSym 24 0xffffef" "sym_entry 160 = HuffSym 22 0x3fffda" "sym_entry 161 = HuffSym 21 0x1fffdd"
  "sym_entry 162 = HuffSym 20 0xfffe9" "sym_entry 163 = HuffSym 22 0x3fffdb" "sym_entry 164 = HuffSym 22 0x3fffdc"
  "sym_entry 165 = HuffSym 23 0x7fffe8" "sym_entry 166 = HuffSym 23 0x7fffe9" "sym_entry 167 = HuffSym 21 0x1fffde"
  "sym_entry 168 = HuffSym 23 0x7fffea" "sym_entry 169 = HuffSym 22 0x3fffdd" "sym_entry 170 = HuffSym 22 0x3fffde"
  "sym_entry 171 = HuffSym 24 0xfffff0" "sym_entry 172 = HuffSym 21 0x1fffdf" "sym_entry 173 = HuffSym 22 0x3fffdf"
  "sym_entry 174 = HuffSym 23 0x7fffeb" "sym_entry 175 = HuffSym 23 0x7fffec" "sym_entry 176 = HuffSym 21 0x1fffe0"
  "sym_entry 177 = HuffSym 21 0x1fffe1" "sym_entry 178 = HuffSym 22 0x3fffe0" "sym_entry 179 = HuffSym 21 0x1fffe2"
  "sym_entry 180 = HuffSym 23 0x7fffed" "sym_entry 181 = HuffSym 22 0x3fffe1" "sym_entry 182 = HuffSym 23 0x7fffee"
  "sym_entry 183 = HuffSym 23 0x7fffef" "sym_entry 184 = HuffSym 20 0xfffea" "sym_entry 185 = HuffSym 22 0x3fffe2"
  "sym_entry 186 = HuffSym 22 0x3fffe3" "sym_entry 187 = HuffSym 22 0x3fffe4" "sym_entry 188 = HuffSym 23 0x7ffff0"
  "sym_entry 189 = HuffSym 22 0x3fffe5" "sym_entry 190 = HuffSym 22 0x3fffe6" "sym_entry 191 = HuffSym 23 0x7ffff1"
  "sym_entry 192 = HuffSym 26 0x3ffffe0" "sym_entry 193 = HuffSym 26 0x3ffffe1" "sym_entry 194 = HuffSym 20 0xfffeb"
  "sym_entry 195 = HuffSym 19 0x7fff1" "sym_entry 196 = HuffSym 22 0x3fffe7" "sym_entry 197 = HuffSym 23 0x7ffff2"
  "sym_entry 198 = HuffSym 22 0x3fffe8" "sym_entry 199 = HuffSym 25 0x1ffffec" "sym_entry 200 = HuffSym 26 0x3ffffe2"
  "sym_entry 201 = HuffSym 26 0x3ffffe3" "sym_entry 202 = HuffSym 26 0x3ffffe4" "sym_entry 203 = HuffSym 27 0x7ffffde"
  "sym_entry 204 = HuffSym 27 0x7ffffdf" "sym_entry 205 = HuffSym 26 0x3ffffe5" "sym_entry 206 = HuffSym 24 0xfffff1"
  "sym_entry 207 = HuffSym 25 0x1ffffed" "sym_entry 208 = HuffSym 19 0x7fff2" "sym_entry 209 = HuffSym 21 0x1fffe3"
  "sym_entry 210 = HuffSym 26 0x3ffffe6" "sym_entry 211 = HuffSym 27 0x7ffffe0" "sym_entry 212 = HuffSym 27 0x7ffffe1"
  "sym_entry 213 = HuffSym 26 0x3ffffe7" "sym_entry 214 = HuffSym 27 0x7ffffe2" "sym_entry 215 = HuffSym 24 0xfffff2"
  "sym_entry 216 = HuffSym 21 0x1fffe4" "sym_entry 217 = HuffSym 21 0x1fffe5" "sym_entry 218 = HuffSym 26 0x3ffffe8"
  "sym_entry 219 = HuffSym 26 0x3ffffe9" "sym_entry 220 = HuffSym 28 0xffffffd" "sym_entry 221 = HuffSym 27 0x7ffffe3"
  "sym_entry 222 = HuffSym 27 0x7ffffe4" "sym_entry 223 = HuffSym 27 0x7ffffe5" "sym_entry 224 = HuffSym 20 0xfffec"
  "sym_entry 225 = HuffSym 24 0xfffff3" "sym_entry 226 = HuffSym 20 0xfffed" "sym_entry 227 = HuffSym 21 0x1fffe6"
  "sym_entry 228 = HuffSym 22 0x3fffe9" "sym_entry 229 = HuffSym 21 0x1fffe7" "sym_entry 230 = HuffSym 21 0x1fffe8"
  "sym_entry 231 = HuffSym 23 0x7ffff3" "sym_entry 232 = HuffSym 22 0x3fffea" "sym_entry 233 = HuffSym 22 0x3fffeb"
  "sym_entry 234 = HuffSym 25 0x1ffffee" "sym_entry 235 = HuffSym 25 0x1ffffef" "sym_entry 236 = HuffSym 24 0xfffff4"
  "sym_entry 237 = HuffSym 24 0xfffff5" "sym_entry 238 = HuffSym 26 0x3ffffea" "sym_entry 239 = HuffSym 23 0x7ffff4"
  "sym_entry 240 = HuffSym 26 0x3ffffeb" "sym_entry 241 = HuffSym 27 0x7ffffe6" "sym_entry 242 = HuffSym 26 0x3ffffec"
  "sym_entry 243 = HuffSym 26 0x3ffffed" "sym_entry 244 = HuffSym 27 0x7ffffe7" "sym_entry 245 = HuffSym 27 0x7ffffe8"
  "sym_entry 246 = HuffSym 27 0x7ffffe9" "sym_entry 247 = HuffSym 27 0x7ffffea" "sym_entry 248 = HuffSym 27 0x7ffffeb"
  "sym_entry 249 = HuffSym 28 0xffffffe" "sym_entry 250 = HuffSym 27 0x7ffffec" "sym_entry 251 = HuffSym 27 0x7ffffed"
  "sym_entry 252 = HuffSym 27 0x7ffffee" "sym_entry 253 = HuffSym 27 0x7ffffef" "sym_entry 254 = HuffSym 27 0x7fffff0"
  "sym_entry 255 = HuffSym 26 0x3ffffee"
  by (simp_all add: sym_entry_def huff_sym_table_def)

lemmas table_eval = entry_row_def nibbles_def entry_of_def accept_flag_def ones_states_def delta_simps

lemma all_bytes_eq: "all_bytes = map of_nat [0..<256]"
  by (simp add: all_bytes_def upt_rec)

lemma in_all_bytes: "b \<in> set all_bytes"
proof -
  have "unat b < 256" using unat_bound [of b] by simp
  then have "of_nat (unat b) \<in> set all_bytes"
    unfolding all_bytes_eq by (simp only: set_map) (rule imageI, simp)
  then show ?thesis by simp
qed

lemma all_bytes_edges: "list_all (\<lambda>st. edge_ok st False \<and> edge_ok st True) all_bytes"
  by (simp add: all_bytes_def edge_ok_def delta_simps node_path_simps sym_entry_simps)

lemma edge_ok: "edge_ok st b"
  using all_bytes_edges in_all_bytes [of st] by (cases b) (auto simp: list_all_iff)

lemma all_bytes_leads: "list_all (\<lambda>s. leads 0 (code_bits s) = Sym s) all_bytes"
  by (simp add: all_bytes_def code_bits_def sym_entry_simps delta_simps bits_of_numeral)

lemma code_bits_leads: "leads 0 (code_bits s) = Sym s"
  using all_bytes_leads in_all_bytes [of s] by (auto simp: list_all_iff)

subsection \<open>The decoding table\<close>

lemma huff_decode_table_0_eq: "huff_decode_table_0 = map entry_row [0, 1, 2, 3, 4, 5, 6, 7]"
  by (simp add: huff_decode_table_0_def table_eval)

lemma huff_decode_table_1_eq: "huff_decode_table_1 = map entry_row [8, 9, 10, 11, 12, 13, 14, 15]"
  by (simp add: huff_decode_table_1_def table_eval)

lemma huff_decode_table_2_eq: "huff_decode_table_2 = map entry_row [16, 17, 18, 19, 20, 21, 22, 23]"
  by (simp add: huff_decode_table_2_def table_eval)

lemma huff_decode_table_3_eq: "huff_decode_table_3 = map entry_row [24, 25, 26, 27, 28, 29, 30, 31]"
  by (simp add: huff_decode_table_3_def table_eval)

lemma huff_decode_table_4_eq: "huff_decode_table_4 = map entry_row [32, 33, 34, 35, 36, 37, 38, 39]"
  by (simp add: huff_decode_table_4_def table_eval)

lemma huff_decode_table_5_eq: "huff_decode_table_5 = map entry_row [40, 41, 42, 43, 44, 45, 46, 47]"
  by (simp add: huff_decode_table_5_def table_eval)

lemma huff_decode_table_6_eq: "huff_decode_table_6 = map entry_row [48, 49, 50, 51, 52, 53, 54, 55]"
  by (simp add: huff_decode_table_6_def table_eval)

lemma huff_decode_table_7_eq: "huff_decode_table_7 = map entry_row [56, 57, 58, 59, 60, 61, 62, 63]"
  by (simp add: huff_decode_table_7_def table_eval)

lemma huff_decode_table_8_eq: "huff_decode_table_8 = map entry_row [64, 65, 66, 67, 68, 69, 70, 71]"
  by (simp add: huff_decode_table_8_def table_eval)

lemma huff_decode_table_9_eq: "huff_decode_table_9 = map entry_row [72, 73, 74, 75, 76, 77, 78, 79]"
  by (simp add: huff_decode_table_9_def table_eval)

lemma huff_decode_table_10_eq: "huff_decode_table_10 = map entry_row [80, 81, 82, 83, 84, 85, 86, 87]"
  by (simp add: huff_decode_table_10_def table_eval)

lemma huff_decode_table_11_eq: "huff_decode_table_11 = map entry_row [88, 89, 90, 91, 92, 93, 94, 95]"
  by (simp add: huff_decode_table_11_def table_eval)

lemma huff_decode_table_12_eq: "huff_decode_table_12 = map entry_row [96, 97, 98, 99, 100, 101, 102, 103]"
  by (simp add: huff_decode_table_12_def table_eval)

lemma huff_decode_table_13_eq: "huff_decode_table_13 = map entry_row [104, 105, 106, 107, 108, 109, 110, 111]"
  by (simp add: huff_decode_table_13_def table_eval)

lemma huff_decode_table_14_eq: "huff_decode_table_14 = map entry_row [112, 113, 114, 115, 116, 117, 118, 119]"
  by (simp add: huff_decode_table_14_def table_eval)

lemma huff_decode_table_15_eq: "huff_decode_table_15 = map entry_row [120, 121, 122, 123, 124, 125, 126, 127]"
  by (simp add: huff_decode_table_15_def table_eval)

lemma huff_decode_table_16_eq: "huff_decode_table_16 = map entry_row [128, 129, 130, 131, 132, 133, 134, 135]"
  by (simp add: huff_decode_table_16_def table_eval)

lemma huff_decode_table_17_eq: "huff_decode_table_17 = map entry_row [136, 137, 138, 139, 140, 141, 142, 143]"
  by (simp add: huff_decode_table_17_def table_eval)

lemma huff_decode_table_18_eq: "huff_decode_table_18 = map entry_row [144, 145, 146, 147, 148, 149, 150, 151]"
  by (simp add: huff_decode_table_18_def table_eval)

lemma huff_decode_table_19_eq: "huff_decode_table_19 = map entry_row [152, 153, 154, 155, 156, 157, 158, 159]"
  by (simp add: huff_decode_table_19_def table_eval)

lemma huff_decode_table_20_eq: "huff_decode_table_20 = map entry_row [160, 161, 162, 163, 164, 165, 166, 167]"
  by (simp add: huff_decode_table_20_def table_eval)

lemma huff_decode_table_21_eq: "huff_decode_table_21 = map entry_row [168, 169, 170, 171, 172, 173, 174, 175]"
  by (simp add: huff_decode_table_21_def table_eval)

lemma huff_decode_table_22_eq: "huff_decode_table_22 = map entry_row [176, 177, 178, 179, 180, 181, 182, 183]"
  by (simp add: huff_decode_table_22_def table_eval)

lemma huff_decode_table_23_eq: "huff_decode_table_23 = map entry_row [184, 185, 186, 187, 188, 189, 190, 191]"
  by (simp add: huff_decode_table_23_def table_eval)

lemma huff_decode_table_24_eq: "huff_decode_table_24 = map entry_row [192, 193, 194, 195, 196, 197, 198, 199]"
  by (simp add: huff_decode_table_24_def table_eval)

lemma huff_decode_table_25_eq: "huff_decode_table_25 = map entry_row [200, 201, 202, 203, 204, 205, 206, 207]"
  by (simp add: huff_decode_table_25_def table_eval)

lemma huff_decode_table_26_eq: "huff_decode_table_26 = map entry_row [208, 209, 210, 211, 212, 213, 214, 215]"
  by (simp add: huff_decode_table_26_def table_eval)

lemma huff_decode_table_27_eq: "huff_decode_table_27 = map entry_row [216, 217, 218, 219, 220, 221, 222, 223]"
  by (simp add: huff_decode_table_27_def table_eval)

lemma huff_decode_table_28_eq: "huff_decode_table_28 = map entry_row [224, 225, 226, 227, 228, 229, 230, 231]"
  by (simp add: huff_decode_table_28_def table_eval)

lemma huff_decode_table_29_eq: "huff_decode_table_29 = map entry_row [232, 233, 234, 235, 236, 237, 238, 239]"
  by (simp add: huff_decode_table_29_def table_eval)

lemma huff_decode_table_30_eq: "huff_decode_table_30 = map entry_row [240, 241, 242, 243, 244, 245, 246, 247]"
  by (simp add: huff_decode_table_30_def table_eval)

lemma huff_decode_table_31_eq: "huff_decode_table_31 = map entry_row [248, 249, 250, 251, 252, 253, 254, 255]"
  by (simp add: huff_decode_table_31_def table_eval)


lemma huff_decode_table_eq: "huff_decode_table = map entry_row all_bytes"
  by (simp only: huff_decode_table_def all_bytes_def list.map append.simps
    huff_decode_table_0_eq huff_decode_table_1_eq huff_decode_table_2_eq huff_decode_table_3_eq
    huff_decode_table_4_eq huff_decode_table_5_eq huff_decode_table_6_eq huff_decode_table_7_eq
    huff_decode_table_8_eq huff_decode_table_9_eq huff_decode_table_10_eq huff_decode_table_11_eq
    huff_decode_table_12_eq huff_decode_table_13_eq huff_decode_table_14_eq huff_decode_table_15_eq
    huff_decode_table_16_eq huff_decode_table_17_eq huff_decode_table_18_eq huff_decode_table_19_eq
    huff_decode_table_20_eq huff_decode_table_21_eq huff_decode_table_22_eq huff_decode_table_23_eq
    huff_decode_table_24_eq huff_decode_table_25_eq huff_decode_table_26_eq huff_decode_table_27_eq
    huff_decode_table_28_eq huff_decode_table_29_eq huff_decode_table_30_eq huff_decode_table_31_eq)

end
