(* ===== verification/Huffman.thy ===== *)
theory Huffman
  imports Huffman_Tree
begin

text \<open>
  The Huffman coder of HPACK, \<^verbatim>\<open>src/src/http/http2_huffman.cpp\<close>. The encoder keeps the number \<^verbatim>\<open>rembits\<close> of
  bits still free in the last byte of the output (8: start a new byte); the decoder is a table-driven
  automaton that reads four bits at a time and may be fed a string in several pieces. \<^verbatim>\<open>bufs.back()\<close> of an
  empty buffer is undefined behaviour, hence the result type \<open>exec\<close> of the encoder.
\<close>

definition http2_bufs_fast_orb :: "buffer \<Rightarrow> u8 \<Rightarrow> buffer exec" where
  "http2_bufs_fast_orb bufs b = (if bufs = [] then Inl Undefined else Inr (butlast bufs @ [last bufs OR b]))"

definition http2_bufs_fast_orb_hold :: "buffer \<Rightarrow> u8 \<Rightarrow> buffer exec" where
  "http2_bufs_fast_orb_hold bufs b =
     (if bufs = [] then Inl Undefined else Inr (butlast bufs @ [last bufs OR b]))"

definition http2_bufs_fast_addb :: "buffer \<Rightarrow> u8 \<Rightarrow> buffer" where
  "http2_bufs_fast_addb bufs b = bufs @ [b]"

definition http2_bufs_fast_addb_hold :: "buffer \<Rightarrow> u8 \<Rightarrow> buffer" where
  "http2_bufs_fast_addb_hold bufs b = bufs @ [b]"

text \<open>The second half of \<^verbatim>\<open>huff_encode_sym\<close>, from \<^verbatim>\<open>nbits -= rembits\<close> on: the bits that did not fit into the
  last byte. \<open>nbits\<close> is already decreased.\<close>

definition huff_encode_rest :: "buffer \<Rightarrow> u32 \<Rightarrow> u32 \<Rightarrow> (buffer \<times> int) exec" where
  "huff_encode_rest bufs nbits code =
     (let code = (if nbits AND 7 \<noteq> 0 then push_bit (unat (8 - (nbits AND 7))) code else code) in
      if nbits < 8 then Inr (http2_bufs_fast_addb_hold bufs (ucast code), uint (8 - nbits))
      else
        let (bufs, nbits) = (if nbits > 24
              then (http2_bufs_fast_addb bufs (ucast (drop_bit 24 code)), nbits - 8) else (bufs, nbits));
            (bufs, nbits) = (if nbits > 16
              then (http2_bufs_fast_addb bufs (ucast (drop_bit 16 code)), nbits - 8) else (bufs, nbits));
            (bufs, nbits) = (if nbits > 8
              then (http2_bufs_fast_addb bufs (ucast (drop_bit 8 code)), nbits - 8) else (bufs, nbits))
        in if nbits = 8 then Inr (http2_bufs_fast_addb bufs (ucast code), 8)
           else Inr (http2_bufs_fast_addb_hold bufs (ucast code), uint (8 - nbits)))"

definition huff_encode_sym :: "buffer \<Rightarrow> u32 \<Rightarrow> http2_huff_sym \<Rightarrow> (buffer \<times> int) exec" where
  "huff_encode_sym bufs rembits hsym =
     (let nbits = sym_nbits hsym; code = sym_code hsym in
      if rembits > nbits then
        bind_exec (http2_bufs_fast_orb_hold bufs (ucast (push_bit (unat (rembits - nbits)) code)))
          (\<lambda>bufs. Inr (bufs, uint (rembits - nbits)))
      else if rembits = nbits then
        bind_exec (http2_bufs_fast_orb bufs (ucast code)) (\<lambda>bufs. Inr (bufs, 8))
      else
        bind_exec (http2_bufs_fast_orb bufs (ucast (drop_bit (unat (nbits - rembits)) code)))
          (\<lambda>bufs. huff_encode_rest bufs (nbits - rembits) code))"

fun http2_huffman_encode_bits :: "u32 \<Rightarrow> buffer \<Rightarrow> u32" where
  "http2_huffman_encode_bits nbits [] = nbits"
| "http2_huffman_encode_bits nbits (b # src) =
     http2_huffman_encode_bits (nbits + sym_nbits (huff_sym_table ! unat b)) src"

definition http2_huffman_encode_count :: "buffer \<Rightarrow> u32" where
  "http2_huffman_encode_count src = (http2_huffman_encode_bits 0 src + 7) div 8"

fun http2_huffman_encode_loop :: "buffer \<Rightarrow> int \<Rightarrow> buffer \<Rightarrow> (buffer \<times> int) exec" where
  "http2_huffman_encode_loop bufs rembits [] = Inr (bufs, rembits)"
| "http2_huffman_encode_loop bufs rembits (b # src) =
     (let hsym = huff_sym_table ! unat b;
          bufs = (if rembits = 8 then http2_bufs_fast_addb_hold bufs 0 else bufs)
      in bind_exec (huff_encode_sym bufs (word_of_int rembits) hsym)
           (\<lambda>(bufs, rembits). if rembits < 0 then Inr (bufs, rembits)
              else http2_huffman_encode_loop bufs rembits src))"

definition http2_huffman_encode :: "buffer \<Rightarrow> buffer \<Rightarrow> (buffer \<times> int) exec" where
  "http2_huffman_encode bufs src =
     bind_exec (http2_huffman_encode_loop bufs 8 src)
       (\<lambda>(bufs, rembits).
          if rembits < 0 then Inr (bufs, rembits)
          else if rembits < 8 then
            (let hsym = huff_sym_table ! 256 in
             bind_exec (http2_bufs_fast_orb bufs (ucast (drop_bit (unat (sym_nbits hsym) - nat rembits) (sym_code hsym))))
               (\<lambda>bufs. Inr (bufs, 0)))
          else Inr (bufs, 0))"

record http2_hd_huff_decode_context =
  ctx_state :: u8
  ctx_accept :: u8

definition http2_huffman_decode_context_init :: http2_hd_huff_decode_context where
  "http2_huffman_decode_context_init = \<lparr>ctx_state = 0, ctx_accept = 1\<rparr>"

definition HTTP2_HUFF_ACCEPTED :: u8 where "HTTP2_HUFF_ACCEPTED = 1"
definition HTTP2_HUFF_SYM :: u8 where "HTTP2_HUFF_SYM = 2"
definition HTTP2_HUFF_FAIL :: u8 where "HTTP2_HUFF_FAIL = 4"

definition decode_emit :: "http2_huff_decode \<Rightarrow> buffer \<Rightarrow> buffer" where
  "decode_emit t bufs =
     (if dec_flags t AND HTTP2_HUFF_SYM \<noteq> 0 then http2_bufs_fast_addb bufs (dec_sym t) else bufs)"

fun http2_huffman_decode_loop ::
  "http2_hd_huff_decode_context \<Rightarrow> buffer \<Rightarrow> buffer \<Rightarrow> bool \<times> http2_hd_huff_decode_context \<times> buffer" where
  "http2_huffman_decode_loop ctx bufs [] = (True, ctx, bufs)"
| "http2_huffman_decode_loop ctx bufs (b # src) =
     (let t = huff_decode_table ! unat (ctx_state ctx) ! unat (drop_bit 4 b) in
      if dec_flags t AND HTTP2_HUFF_FAIL \<noteq> 0 then (False, ctx, bufs)
      else
        let bufs = decode_emit t bufs;
            t = huff_decode_table ! unat (dec_state t) ! unat (b AND 0xf)
        in if dec_flags t AND HTTP2_HUFF_FAIL \<noteq> 0 then (False, ctx, bufs)
           else http2_huffman_decode_loop
                  (ctx\<lparr>ctx_state := dec_state t,
                     ctx_accept := (if dec_flags t AND HTTP2_HUFF_ACCEPTED \<noteq> 0 then 1 else 0)\<rparr>)
                  (decode_emit t bufs) src)"

definition http2_huffman_decode ::
  "http2_hd_huff_decode_context \<Rightarrow> buffer \<Rightarrow> buffer \<Rightarrow> bool \<Rightarrow> http2_hd_huff_decode_context \<times> buffer \<times> int" where
  "http2_huffman_decode ctx bufs src final =
     (case http2_huffman_decode_loop ctx bufs src of (ok, ctx, bufs) \<Rightarrow>
        if \<not> ok then (ctx, bufs, -1)
        else if final \<and> ctx_accept ctx = 0 then (ctx, bufs, -1)
        else (ctx, bufs, int (length src)))"

subsection \<open>The walk of the tree\<close>

lemma node_path_edge:
  "edge_ok st b \<Longrightarrow> node_path st = (n, v) \<Longrightarrow>
     n \<le> 29 \<and> (case delta st b of
        Nod st' \<Rightarrow> node_path st' = (n + 1, 2 * v + of_bool b)
      | Sym s \<Rightarrow> sym_entry s = HuffSym (n + 1) (2 * v + of_bool b)
      | Eos \<Rightarrow> n + 1 = 30 \<and> 2 * v + of_bool b = 0x3fffffff)"
  by (cases b) (auto simp: edge_ok_def Let_def split: target.splits)

definition path_bits :: "u8 \<Rightarrow> bool list" where
  "path_bits st = (case node_path st of (n, v) \<Rightarrow> bits_of (unat n) v)"

lemma bits_of_double:
  fixes v :: u32 and n :: u32
  assumes "n \<le> 29"
  shows "bits_of (unat (n + 1)) (2 * v + of_bool b) = bits_of (unat n) v @ [b]"
proof -
  have n: "unat n \<le> 29" and u: "unat (n + 1) = unat n + 1"
    using assms by (simp_all add: unat_word_ariths word_le_nat_alt)
  have split: "2 * v + of_bool b = push_bit 1 v OR of_bool b"
  proof -
    have "push_bit 1 v + of_bool b = push_bit 1 v OR of_bool b"
      by (rule disjunctive_add) (auto simp only: bit_push_bit_iff bit_of_bool_iff)
    then show ?thesis by (simp add: mult.commute)
  qed
  have "bits_of (unat n) (drop_bit 1 (push_bit 1 v OR of_bool b)) = bits_of (unat n) v"
    using n by (intro bits_of_eqI) (auto simp: bit_simps mult.commute [of v 2] bit_double_iff)
  moreover have "bits_of 1 (push_bit 1 v OR of_bool b) = [b]"
    by (auto simp: bit_simps mult.commute [of v 2] bit_double_iff)
  ultimately show ?thesis by (simp only: u split bits_of_add)
qed

lemma path_bits_edge:
  "case delta st b of
     Nod st' \<Rightarrow> path_bits st' = path_bits st @ [b]
   | Sym s \<Rightarrow> code_bits s = path_bits st @ [b]
   | Eos \<Rightarrow> True"
proof (cases "node_path st")
  case (Pair n v)
  show ?thesis
    using node_path_edge [OF edge_ok Pair, of b]
    by (auto simp: path_bits_def code_bits_def Pair bits_of_double split: target.splits)
qed

lemma path_bits_root: "path_bits 0 = []"
  by (simp add: path_bits_def node_path_simps)

text \<open>A walk spells out the codes of the bytes it emits, followed by the path to the node it ends in.\<close>

lemma brun_sound:
  "brun st bs = Some (out, st') \<Longrightarrow> path_bits st @ bs = concat (map code_bits out) @ path_bits st'"
proof (induction st bs arbitrary: out rule: brun.induct)
  case (1 st)
  then show ?case by simp
next
  case (2 st b bs)
  show ?case
  proof (cases "delta st b")
    case (Nod st1)
    with "2.prems" "2.IH"(1) [OF Nod] path_bits_edge [of st b] show ?thesis by simp
  next
    case (Sym s)
    with "2.prems" obtain out1 where "out = s # out1" "brun 0 bs = Some (out1, st')"
      by (auto split: option.splits)
    with "2.IH"(2) [OF Sym] path_bits_edge [of st b] Sym show ?thesis
      by (simp add: path_bits_root)
  next
    case Eos
    with "2.prems" show ?thesis by simp
  qed
qed

lemma brun_leads:
  "leads st cs = Sym s \<Longrightarrow>
     brun st (cs @ bs) = (case brun 0 bs of None \<Rightarrow> None | Some (out, st') \<Rightarrow> Some (s # out, st'))"
  by (induction st cs rule: leads.induct) (auto split: target.splits if_splits)

lemma brun_codes:
  "brun 0 (concat (map code_bits out) @ bs) =
     (case brun 0 bs of None \<Rightarrow> None | Some (out', st') \<Rightarrow> Some (out @ out', st'))"
  by (induction out) (auto simp: brun_leads [OF code_bits_leads] split: option.splits)

lemma brun_append:
  "brun st (as @ bs) =
     (case brun st as of None \<Rightarrow> None
      | Some (out, st1) \<Rightarrow> (case brun st1 bs of None \<Rightarrow> None | Some (out', st') \<Rightarrow> Some (out @ out', st')))"
  by (induction st as rule: brun.induct) (auto split: target.splits option.splits)

lemma less_8_cases: "k < 8 \<Longrightarrow> k \<in> {0, 1, 2, 3, 4, 5, 6, 7 :: nat}"
  by auto

lemma brun_ones:
  assumes "k < 8"
  shows "brun 0 (replicate k True) = Some ([], ones_states ! k)"
  using less_8_cases [OF assms]
  by (elim insertE emptyE) (simp_all add: ones_states_def delta_simps replicate_numeral)

lemma accept_flag_ones: "k < 8 \<Longrightarrow> accept_flag (ones_states ! k) = 1"
  by (drule less_8_cases) (auto simp: accept_flag_def ones_states_def)

lemma accept_flag_path:
  assumes "accept_flag st \<noteq> 0"
  shows "\<exists>k < 8. path_bits st = replicate k True"
proof -
  have path: "path_bits (ones_states ! k) = replicate k True" if "k < 8" for k
    using less_8_cases [OF that]
    by (elim insertE emptyE)
      (simp_all add: path_bits_def ones_states_def node_path_simps bits_of_numeral replicate_numeral)
  from assms have "st \<in> set ones_states" by (auto simp: accept_flag_def split: if_splits)
  moreover have "length ones_states = 8" by (simp add: ones_states_def)
  ultimately obtain k where "k < 8" "st = ones_states ! k"
    by (metis in_set_conv_nth)
  with path show ?thesis by blast
qed

subsection \<open>The decoder\<close>

lemma huff_decode_table_nth:
  "n < 16 \<Longrightarrow> huff_decode_table ! unat st ! n = entry_of st (nibbles ! n)"
proof -
  assume n: "n < 16"
  have "unat st < 256" using unat_bound [of st] by simp
  then have "all_bytes ! unat st = st" by (simp add: all_bytes_eq del: upt_rec)
  moreover have "length all_bytes = 256" by (simp add: all_bytes_eq)
  ultimately have "huff_decode_table ! unat st = entry_row st"
    using \<open>unat st < 256\<close> by (simp add: huff_decode_table_eq)
  moreover have "length nibbles = 16" by (simp add: nibbles_def)
  ultimately show ?thesis using n by (simp add: entry_row_def)
qed

lemma nibbles_nth:
  fixes w :: u8
  assumes "unat w < 16"
  shows "nibbles ! unat w = bits_of 4 w"
proof -
  have "list_all (\<lambda>w. unat w < 16 \<longrightarrow> nibbles ! unat w = bits_of 4 w) all_bytes"
    by (simp add: all_bytes_def nibbles_def bits_of_numeral)
  with assms in_all_bytes [of w] show ?thesis by (simp add: list_all_iff)
qed

lemma nibble_bounds: "unat (drop_bit 4 (b :: u8)) < 16" "unat (b AND 0xf) < 16"
proof -
  show "unat (drop_bit 4 b) < 16" using drop_bit_less [of b 4 4] unat_bound [of b] by simp
  show "unat (b AND 0xf) < 16"
    using word_and_le1 [of b "0xf"] by (simp add: word_le_nat_alt)
qed

lemma bits_of_8_split: "bits_of 8 (b :: u8) = bits_of 4 (drop_bit 4 b) @ bits_of 4 (b AND 0xf)"
proof -
  have "bits_of 4 (b AND 0xf) = bits_of 4 b"
    by (rule bits_of_eqI) (auto simp: bit_simps less_Suc_eq numeral_eq_Suc)
  then show ?thesis using bits_of_add [of 4 4 b] by simp
qed

lemma huff_decode_step:
  fixes b :: u8
  shows "huff_decode_table ! unat st ! unat (drop_bit 4 b) = entry_of st (bits_of 4 (drop_bit 4 b))"
    and "huff_decode_table ! unat st ! unat (b AND 0xf) = entry_of st (bits_of 4 (b AND 0xf))"
  by (simp_all only: huff_decode_table_nth [OF nibble_bounds(1)] huff_decode_table_nth [OF nibble_bounds(2)]
      nibbles_nth [OF nibble_bounds(1)] nibbles_nth [OF nibble_bounds(2)])

text \<open>Four bits complete at most one byte, since every code is at least five bits long.\<close>

lemma all_bytes_short: "list_all (\<lambda>s. 5 \<le> length (code_bits s)) all_bytes"
  by (simp add: all_bytes_def code_bits_def sym_entry_simps)

lemma code_bits_length: "5 \<le> length (code_bits s)"
  using all_bytes_short in_all_bytes [of s] by (auto simp: list_all_iff)

lemma brun_root_short:
  assumes "brun 0 bs = Some (out, st')" and "length bs < 5"
  shows "out = []"
proof (rule ccontr)
  assume "out \<noteq> []"
  then obtain s out1 where "out = s # out1" by (cases out) auto
  with brun_sound [OF assms(1)] have "length bs = length (code_bits s) + length (concat (map code_bits out1) @ path_bits st')"
    by (simp add: path_bits_root)
  with code_bits_length [of s] assms(2) show False by simp
qed

lemma brun_short:
  "brun st bs = Some (out, st') \<Longrightarrow> length bs \<le> 5 \<Longrightarrow> length out \<le> 1"
  by (induction st bs arbitrary: out rule: brun.induct)
    (auto split: target.splits option.splits dest: brun_root_short)

lemma accept_flag_cases: "accept_flag st = 0 \<or> accept_flag st = 1"
  by (simp add: accept_flag_def)

lemmas huff_flags = HTTP2_HUFF_ACCEPTED_def HTTP2_HUFF_SYM_def HTTP2_HUFF_FAIL_def

lemma entry_of_None:
  "brun st bs = None \<Longrightarrow> dec_flags (entry_of st bs) AND HTTP2_HUFF_FAIL \<noteq> 0"
  by (simp add: entry_of_def huff_flags)

lemma entry_of_Some:
  assumes "brun st bs = Some (out, st')" and "length bs \<le> 5"
  shows "dec_flags (entry_of st bs) AND HTTP2_HUFF_FAIL = 0"
    and "dec_state (entry_of st bs) = st'"
    and "decode_emit (entry_of st bs) bufs = bufs @ out"
    and "dec_flags (entry_of st bs) AND HTTP2_HUFF_ACCEPTED = accept_flag st'"
proof -
  consider "out = []" | s where "out = [s]"
    using brun_short [OF assms] by (cases out) auto
  then show "dec_flags (entry_of st bs) AND HTTP2_HUFF_FAIL = 0"
    and "dec_state (entry_of st bs) = st'"
    and "decode_emit (entry_of st bs) bufs = bufs @ out"
    and "dec_flags (entry_of st bs) AND HTTP2_HUFF_ACCEPTED = accept_flag st'"
    using accept_flag_cases [of st']
    by (cases; auto simp: entry_of_def assms(1) huff_flags decode_emit_def http2_bufs_fast_addb_def)+
qed

lemma http2_huffman_decode_loop_step:
  "case brun (ctx_state ctx) (bits_of 8 b) of
     None \<Rightarrow> \<not> fst (http2_huffman_decode_loop ctx bufs (b # src))
   | Some (out, st') \<Rightarrow>
       http2_huffman_decode_loop ctx bufs (b # src) =
       http2_huffman_decode_loop (ctx\<lparr>ctx_state := st', ctx_accept := accept_flag st'\<rparr>) (bufs @ out) src"
proof (cases "brun (ctx_state ctx) (bits_of 4 (drop_bit 4 b))")
  case None
  then show ?thesis by (simp add: huff_decode_step entry_of_None Let_def bits_of_8_split brun_append)
next
  case (Some r1)
  obtain o1 s1 where r1: "r1 = (o1, s1)" by (cases r1)
  note e1 = entry_of_Some [OF Some [unfolded r1]]
  show ?thesis
  proof (cases "brun s1 (bits_of 4 (b AND 0xf))")
    case None
    with Some show ?thesis
      by (simp add: huff_decode_step e1 entry_of_None Let_def bits_of_8_split brun_append r1)
  next
    case Some2: (Some r2)
    obtain o2 s2 where r2: "r2 = (o2, s2)" by (cases r2)
    note e2 = entry_of_Some [OF Some2 [unfolded r2]]
    from Some Some2 show ?thesis
      using accept_flag_cases [of s2]
      by (auto simp add: huff_decode_step bits_of_8_split brun_append r1 r2 Let_def e1 e2)
  qed
qed

declare http2_huffman_decode_loop.simps(2) [simp del]

lemma http2_huffman_decode_loop_spec:
  "case brun (ctx_state ctx) (bytes_bits src) of
     None \<Rightarrow> \<not> fst (http2_huffman_decode_loop ctx bufs src)
   | Some (out, st') \<Rightarrow>
       http2_huffman_decode_loop ctx bufs src =
       (True, if src = [] then ctx else ctx\<lparr>ctx_state := st', ctx_accept := accept_flag st'\<rparr>, bufs @ out)"
proof (induction src arbitrary: ctx bufs)
  case Nil
  show ?case by simp
next
  case (Cons b src)
  show ?case
  proof (cases "brun (ctx_state ctx) (bits_of 8 b)")
    case None
    with http2_huffman_decode_loop_step [where ctx = ctx and b = b and bufs = bufs and src = src] show ?thesis by (simp add: brun_append)
  next
    case (Some r)
    obtain o1 s1 where r: "r = (o1, s1)" by (cases r)
    from Some http2_huffman_decode_loop_step [where ctx = ctx and b = b and bufs = bufs and src = src]
      Cons.IH [of "ctx\<lparr>ctx_state := s1, ctx_accept := accept_flag s1\<rparr>" "bufs @ o1"]
    show ?thesis by (auto simp: brun_append r split: option.splits)
  qed
qed

lemma ones_states_path: "k < 8 \<Longrightarrow> path_bits (ones_states ! k) = replicate k True"
  using brun_sound [OF brun_ones] by (simp add: path_bits_root)

lemma http2_huffman_decode_ok:
  assumes "bytes_bits src = concat (map code_bits out) @ replicate k True" and "k < 8"
  shows "\<exists>ctx. http2_huffman_decode http2_huffman_decode_context_init bufs src final
           = (ctx, bufs @ out, int (length src))"
proof -
  have "brun 0 (bytes_bits src) = Some (out, ones_states ! k)"
    using assms by (simp add: brun_codes brun_ones)
  with http2_huffman_decode_loop_spec [where ctx = http2_huffman_decode_context_init and src = src and bufs = bufs]
  show ?thesis
    by (auto simp: http2_huffman_decode_def http2_huffman_decode_context_init_def accept_flag_ones [OF assms(2)])
qed

lemma http2_huffman_decode_sound:
  assumes "http2_huffman_decode http2_huffman_decode_context_init bufs src True = (ctx, bufs', r)" and "r \<noteq> -1"
  shows "\<exists>out k. k < 8 \<and> bufs' = bufs @ out \<and> r = int (length src)
           \<and> bytes_bits src = concat (map code_bits out) @ replicate k True"
proof (cases "brun 0 (bytes_bits src)")
  case None
  with http2_huffman_decode_loop_spec [where ctx = http2_huffman_decode_context_init and src = src and bufs = bufs] assms
  show ?thesis
    by (auto simp: http2_huffman_decode_def http2_huffman_decode_context_init_def split: prod.splits if_splits)
next
  case (Some p)
  obtain out st' where p: "p = (out, st')" by (cases p)
  have sound: "bytes_bits src = concat (map code_bits out) @ path_bits st'"
    using brun_sound [OF Some [unfolded p]] by (simp add: path_bits_root)
  from Some p http2_huffman_decode_loop_spec [where ctx = http2_huffman_decode_context_init and src = src and bufs = bufs] assms
  have r: "bufs' = bufs @ out" "r = int (length src)" "src = [] \<or> accept_flag st' \<noteq> 0"
    by (auto simp: http2_huffman_decode_def http2_huffman_decode_context_init_def split: if_splits)
  show ?thesis
  proof (cases "src = []")
    case True
    with Some p have "out = []" by simp
    with True r show ?thesis by (intro exI [of _ out] exI [of _ 0]) simp
  next
    case False
    with r(3) obtain k where "k < 8" "path_bits st' = replicate k True"
      using accept_flag_path by blast
    with r sound show ?thesis by auto
  qed
qed

subsection \<open>The encoder\<close>

text \<open>Filling the free bits of the last byte.\<close>

lemma http2_bufs_fast_orb_bits:
  assumes "bytes_bits bufs = w @ replicate r False" and "bufs \<noteq> []" and "r \<le> 8"
    and "bits_of 8 v = replicate (8 - r) False @ y" and "length y = r"
  shows "\<exists>bufs'. http2_bufs_fast_orb bufs v = Inr bufs' \<and> bufs' \<noteq> [] \<and> bytes_bits bufs' = w @ y"
proof -
  obtain bs a where bufs: "bufs = bs @ [a]" using assms(2) by (cases bufs rule: rev_cases) auto
  let ?x = "take (8 - r) (bits_of 8 a)"
  have "w @ replicate r False = bytes_bits bs @ bits_of 8 a" using assms(1) bufs by simp
  then have eq: "w @ replicate r False = (bytes_bits bs @ ?x) @ drop (8 - r) (bits_of 8 a)" by simp
  have len: "length (replicate r False) = length (drop (8 - r) (bits_of 8 a))" using assms(3) by simp
  from append_eq_append_conv [OF disjI2, OF len] eq
  have w: "w = bytes_bits bs @ ?x" and "drop (8 - r) (bits_of 8 a) = replicate r False"
    by metis+
  then have a: "bits_of 8 a = ?x @ replicate r False" by (metis append_take_drop_id)
  have "bits_of 8 (a OR v) = ?x @ y"
    by (subst bits_of_or, subst a, subst assms(4), rule map2_or_append) (use assms(3,5) in simp_all)
  then show ?thesis by (simp add: http2_bufs_fast_orb_def bufs w)
qed

lemma http2_bufs_fast_orb_hold_eq: "http2_bufs_fast_orb_hold = http2_bufs_fast_orb"
  by (rule ext)+ (simp add: http2_bufs_fast_orb_hold_def http2_bufs_fast_orb_def)

lemma unat_sub_u32: "(b :: u32) \<le> a \<Longrightarrow> unat (a - b) = unat a - unat b"
  by (simp add: unat_sub)

text \<open>The bytes emitted after the first: the remaining \<open>m\<close> bits of the code, left aligned.\<close>

lemma bits_of_aligned:
  fixes c :: u32
  assumes "m + s \<le> 32"
  shows "m + s = 8 \<Longrightarrow> bits_of 8 (ucast (push_bit s c) :: u8) = bits_of m c @ replicate s False"
    and "m + s = 16 \<Longrightarrow> bits_of 8 (ucast (drop_bit 8 (push_bit s c)) :: u8) @ bits_of 8 (ucast (push_bit s c) :: u8)
           = bits_of m c @ replicate s False"
    and "m + s = 24 \<Longrightarrow> bits_of 8 (ucast (drop_bit 16 (push_bit s c)) :: u8)
           @ bits_of 8 (ucast (drop_bit 8 (push_bit s c)) :: u8) @ bits_of 8 (ucast (push_bit s c) :: u8)
           = bits_of m c @ replicate s False"
    and "m + s = 32 \<Longrightarrow> bits_of 8 (ucast (drop_bit 24 (push_bit s c)) :: u8)
           @ bits_of 8 (ucast (drop_bit 16 (push_bit s c)) :: u8)
           @ bits_of 8 (ucast (drop_bit 8 (push_bit s c)) :: u8) @ bits_of 8 (ucast (push_bit s c) :: u8)
           = bits_of m c @ replicate s False"
proof -
  note * = bits_of_push_bit [of m s c] 
    bits_of_add [of 8 8 "push_bit s c"] bits_of_add [of 8 16 "push_bit s c"] bits_of_add [of 8 24 "push_bit s c"]
  show "m + s = 8 \<Longrightarrow> bits_of 8 (ucast (push_bit s c) :: u8) = bits_of m c @ replicate s False"
    using * assms by (simp add: bits_of_ucast)
  show "m + s = 16 \<Longrightarrow> bits_of 8 (ucast (drop_bit 8 (push_bit s c)) :: u8) @ bits_of 8 (ucast (push_bit s c) :: u8)
           = bits_of m c @ replicate s False"
    using * assms by (simp add: bits_of_ucast)
  show "m + s = 24 \<Longrightarrow> bits_of 8 (ucast (drop_bit 16 (push_bit s c)) :: u8)
           @ bits_of 8 (ucast (drop_bit 8 (push_bit s c)) :: u8) @ bits_of 8 (ucast (push_bit s c) :: u8)
           = bits_of m c @ replicate s False"
    using * assms by (simp add: bits_of_ucast)
  show "m + s = 32 \<Longrightarrow> bits_of 8 (ucast (drop_bit 24 (push_bit s c)) :: u8)
           @ bits_of 8 (ucast (drop_bit 16 (push_bit s c)) :: u8)
           @ bits_of 8 (ucast (drop_bit 8 (push_bit s c)) :: u8) @ bits_of 8 (ucast (push_bit s c) :: u8)
           = bits_of m c @ replicate s False"
    using * assms by (simp add: bits_of_ucast)
qed

definition rest_bytes :: "nat \<Rightarrow> u32 \<Rightarrow> buffer" where
  "rest_bytes m c =
     (let c' = push_bit ((8 - m mod 8) mod 8) c in
      (if m > 24 then [ucast (drop_bit 24 c')] else []) @ (if m > 16 then [ucast (drop_bit 16 c')] else [])
      @ (if m > 8 then [ucast (drop_bit 8 c')] else []) @ [ucast c'])"

lemma upto_29: "0 < m \<Longrightarrow> m \<le> 29 \<Longrightarrow>
    m \<in> {1, 2, 3, 4, 5, 6, 7, 8, 9, 10, 11, 12, 13, 14, 15, 16, 17, 18, 19, 20, 21, 22, 23, 24,
         25, 26, 27, 28, 29 :: nat}"
  by (simp only: insert_iff empty_iff) presburger

lemma huff_encode_rest_eq:
  assumes "0 < m" and "m \<le> 29"
  shows "huff_encode_rest bufs (of_nat m) c
           = Inr (bufs @ rest_bytes m c, if m mod 8 = 0 then 8 else 8 - int (m mod 8))"
  using upto_29 [OF assms]
  by (elim insertE emptyE)
    (simp_all add: Let_def huff_encode_rest_def rest_bytes_def http2_bufs_fast_addb_def http2_bufs_fast_addb_hold_def)

lemma bytes_bits_rest_bytes:
  assumes "0 < m" and "m \<le> 29"
  shows "bytes_bits (rest_bytes m c) = bits_of m c @ replicate ((8 - m mod 8) mod 8) False"
proof -
  let ?s = "(8 - m mod 8) mod 8"
  have "m + ?s \<in> {8, 16, 24, 32}" and "m > 24 \<longleftrightarrow> m + ?s = 32" and "m > 16 \<longleftrightarrow> m + ?s \<ge> 24" and "m > 8 \<longleftrightarrow> m + ?s \<ge> 16"
    using upto_29 [OF assms] by (elim insertE emptyE; simp)+
  then show ?thesis
    using bits_of_aligned [of m ?s c] by (auto simp: rest_bytes_def Let_def)
qed

lemma huff_encode_sym_bits:
  assumes "bytes_bits bufs = w @ replicate r False" and "bufs \<noteq> []" and r: "0 < r" "r \<le> 8"
    and n: "0 < unat n" "unat n \<le> 30" and c: "unat c < 2 ^ unat n"
  shows "\<exists>bufs' r'. huff_encode_sym bufs (of_nat r) (HuffSym n c) = Inr (bufs', int r')
           \<and> 0 < r' \<and> r' \<le> 8 \<and> bufs' \<noteq> []
           \<and> bytes_bits bufs' = w @ bits_of (unat n) c @ replicate (r' mod 8) False"
proof -
  have ur: "unat (of_nat r :: u32) = r" using r by (simp add: unat_of_nat take_bit_nat_eq_self)
  note orb = http2_bufs_fast_orb_bits [OF assms(1,2) r(2)]
  consider (gt) "unat n < r" | (eq) "unat n = r" | (lt) "r < unat n" by linarith
  then show ?thesis
  proof cases
    case gt
    let ?k = "r - unat n"
    have lt: "n < of_nat r" using gt ur by (simp add: word_less_nat_alt)
    have k: "unat (of_nat r - n) = ?k"
      using lt ur by (simp add: unat_sub word_le_nat_alt word_less_nat_alt)
    have "bits_of ((8 - r + unat n) + ?k) (push_bit ?k c) = bits_of (8 - r + unat n) c @ replicate ?k False"
      using gt r by (intro bits_of_push_bit) simp
    then have "bits_of 8 (ucast (push_bit ?k c) :: u8)
        = replicate (8 - r) False @ bits_of (unat n) c @ replicate ?k False"
      using gt r bits_of_small [OF c, of "8 - r"] by (simp add: bits_of_ucast)
    from orb [OF this] gt obtain bufs' where "http2_bufs_fast_orb bufs (ucast (push_bit ?k c)) = Inr bufs'"
      "bufs' \<noteq> []" "bytes_bits bufs' = w @ bits_of (unat n) c @ replicate ?k False" by auto
    moreover have "uint (of_nat r - n) = int ?k" using k by (metis uint_nat)
    moreover have "?k mod 8 = ?k" using gt n r by simp
    ultimately show ?thesis using lt gt n r
      by (intro exI [of _ bufs'] exI [of _ ?k])
        (simp add: huff_encode_sym_def http2_bufs_fast_orb_hold_eq k)
  next
    case eq
    have "of_nat r = n" using eq ur by (simp add: word_unat_eq_iff)
    moreover have "bits_of 8 (ucast c :: u8) = replicate (8 - r) False @ bits_of (unat n) c"
      using bits_of_small [OF c, of "8 - r"] eq r by (simp add: bits_of_ucast)
    from orb [OF this] eq obtain bufs' where "http2_bufs_fast_orb bufs (ucast c) = Inr bufs'"
      "bufs' \<noteq> []" "bytes_bits bufs' = w @ bits_of (unat n) c" by auto
    ultimately show ?thesis
      by (intro exI [of _ bufs'] exI [of _ 8]) (simp add: huff_encode_sym_def)
  next
    case lt
    let ?m = "unat n - r"
    have le: "of_nat r < n" using lt ur by (simp add: word_less_nat_alt)
    have m: "unat (n - of_nat r) = ?m"
      using le ur by (simp add: unat_sub word_le_nat_alt word_less_nat_alt)
    then have nm: "n - of_nat r = of_nat ?m"
      using n by (simp add: word_unat_eq_iff unat_of_nat take_bit_nat_eq_self)
    have m29: "0 < ?m" "?m \<le> 29" using lt n r by auto
    have "unat (drop_bit ?m c) < 2 ^ r" using c lt by (intro drop_bit_less) simp
    from bits_of_small [OF this, of "8 - r"] r
    have "bits_of 8 (ucast (drop_bit ?m c) :: u8) = replicate (8 - r) False @ bits_of r (drop_bit ?m c)"
      by (simp add: bits_of_ucast)
    from orb [OF this] obtain bufs' where b: "http2_bufs_fast_orb bufs (ucast (drop_bit ?m c)) = Inr bufs'"
      "bytes_bits bufs' = w @ bits_of r (drop_bit ?m c)" by auto
    let ?r' = "if ?m mod 8 = 0 then 8 else 8 - ?m mod 8"
    have "bits_of (unat n) c = bits_of r (drop_bit ?m c) @ bits_of ?m c"
      using bits_of_add [of r ?m c] lt by simp
    then have "bytes_bits (bufs' @ rest_bytes ?m c) = w @ bits_of (unat n) c @ replicate (?r' mod 8) False"
      using b(2) bytes_bits_rest_bytes [OF m29, of c] by simp
    moreover have "huff_encode_sym bufs (of_nat r) (HuffSym n c) = huff_encode_rest bufs' (n - of_nat r) c"
      using less_not_sym [OF le] less_imp_neq [OF le] b(1) by (simp add: huff_encode_sym_def m)
    then have "huff_encode_sym bufs (of_nat r) (HuffSym n c) = Inr (bufs' @ rest_bytes ?m c, int ?r')"
      by (simp only: nm huff_encode_rest_eq [OF m29]) (cases "?m mod 8 = 0"; simp)
    moreover have "bufs' @ rest_bytes ?m c \<noteq> []" by (simp add: rest_bytes_def Let_def)
    moreover have "0 < ?r'" "?r' \<le> 8" by simp_all
    ultimately show ?thesis by blast
  qed
qed

lemma all_bytes_sym_ok:
  "list_all (\<lambda>s. case sym_entry s of HuffSym n c \<Rightarrow> 0 < unat n \<and> unat n \<le> 30 \<and> unat c < 2 ^ unat n) all_bytes"
  by (simp add: all_bytes_def sym_entry_simps)

lemma sym_entry_ok:
  "sym_entry s = HuffSym n c \<Longrightarrow> 0 < unat n \<and> unat n \<le> 30 \<and> unat c < 2 ^ unat n"
  using all_bytes_sym_ok in_all_bytes [of s] by (auto simp: list_all_iff)

text \<open>The loop: what has been written is the codes so far, followed by the free bits of the last byte.\<close>

lemma http2_huffman_encode_loop_bits:
  assumes "bytes_bits bufs = w @ replicate (r mod 8) False" and "0 < r" "r \<le> 8" and "r < 8 \<Longrightarrow> bufs \<noteq> []"
  shows "\<exists>bufs' r'. http2_huffman_encode_loop bufs (int r) src = Inr (bufs', int r')
           \<and> 0 < r' \<and> r' \<le> 8 \<and> (r' < 8 \<longrightarrow> bufs' \<noteq> [])
           \<and> bytes_bits bufs' = w @ concat (map code_bits src) @ replicate (r' mod 8) False"
  using assms
proof (induction src arbitrary: bufs w r)
  case Nil
  then show ?case by auto
next
  case (Cons b src)
  obtain n c where nc: "sym_entry b = HuffSym n c" by (cases "sym_entry b")
  then have ok: "0 < unat n" "unat n \<le> 30" "unat c < 2 ^ unat n" using sym_entry_ok by blast+
  let ?bufs = "if int r = 8 then http2_bufs_fast_addb_hold bufs 0 else bufs"
  have zero: "bits_of 8 (0 :: u8) = replicate 8 False" by (simp add: bits_of_numeral replicate_numeral)
  have "?bufs \<noteq> []" and "bytes_bits ?bufs = w @ replicate r False"
    using Cons.prems by (auto simp: http2_bufs_fast_addb_hold_def zero)
  from huff_encode_sym_bits [OF this(2,1) Cons.prems(2,3) ok]
  obtain bufs1 r1 where step: "huff_encode_sym ?bufs (of_nat r) (HuffSym n c) = Inr (bufs1, int r1)"
    and r1: "0 < r1" "r1 \<le> 8" "bufs1 \<noteq> []"
    and b1: "bytes_bits bufs1 = (w @ bits_of (unat n) c) @ replicate (r1 mod 8) False" by auto
  have "code_bits b = bits_of (unat n) c" by (simp add: code_bits_def nc)
  moreover obtain bufs' r' where "http2_huffman_encode_loop bufs1 (int r1) src = Inr (bufs', int r')"
    "0 < r' \<and> r' \<le> 8 \<and> (r' < 8 \<longrightarrow> bufs' \<noteq> [])"
    "bytes_bits bufs' = (w @ bits_of (unat n) c) @ concat (map code_bits src) @ replicate (r' mod 8) False"
    using Cons.IH [OF b1 r1(1,2)] r1(3) by blast
  moreover have "huff_sym_table ! unat b = HuffSym n c" using nc by (simp add: sym_entry_def)
  ultimately show ?case
    using step by (intro exI [of _ bufs'] exI [of _ r']) (simp add: Let_def)
qed

lemma eos_bits:
  assumes "r < 8"
  shows "bits_of 8 (ucast (drop_bit (30 - r) (0x3fffffff :: u32)) :: u8) = replicate (8 - r) False @ replicate r True"
  using less_8_cases [OF assms]
  by (elim insertE emptyE) (simp_all add: bits_of_numeral replicate_numeral)

lemma http2_huffman_encode_bits_eq:
  "\<exists>enc k. http2_huffman_encode bufs src = Inr (bufs @ enc, 0) \<and> k < 8
     \<and> bytes_bits enc = concat (map code_bits src) @ replicate k True"
proof -
  have "bytes_bits bufs = bytes_bits bufs @ replicate (8 mod 8) False" by simp
  from http2_huffman_encode_loop_bits [OF this, of src]
  obtain bufs1 r where loop: "http2_huffman_encode_loop bufs 8 src = Inr (bufs1, int r)"
    and r: "0 < r" "r \<le> 8" "r < 8 \<longrightarrow> bufs1 \<noteq> []"
    and b1: "bytes_bits bufs1 = (bytes_bits bufs @ concat (map code_bits src)) @ replicate (r mod 8) False"
    by auto
  have eos: "huff_sym_table ! 256 = HuffSym 30 0x3fffffff" by (simp add: huff_sym_table_def)
  obtain bufs' where "http2_huffman_encode bufs src = Inr (bufs', 0)"
    and "bytes_bits bufs' = bytes_bits bufs @ concat (map code_bits src) @ replicate (r mod 8) True"
  proof (cases "r = 8")
    case True
    with loop b1 that [of bufs1] show ?thesis by (simp add: http2_huffman_encode_def)
  next
    case False
    with r have r8: "r < 8" "bufs1 \<noteq> []" by auto
    then have b1': "bytes_bits bufs1 = (bytes_bits bufs @ concat (map code_bits src)) @ replicate r False"
      using b1 by simp
    obtain bufs2 where "http2_bufs_fast_orb bufs1 (ucast (drop_bit (30 - r) (0x3fffffff :: u32))) = Inr bufs2"
      "bytes_bits bufs2 = (bytes_bits bufs @ concat (map code_bits src)) @ replicate r True"
      using http2_bufs_fast_orb_bits [OF b1' r8(2) r(2) eos_bits [OF r8(1)]] by auto
    with loop r8 that [of bufs2] show ?thesis by (simp add: http2_huffman_encode_def eos)
  qed
  moreover from bytes_bits_prefix [OF this(2)] obtain enc where "bufs' = bufs @ enc"
    "bytes_bits enc = concat (map code_bits src) @ replicate (r mod 8) True" by blast
  ultimately show ?thesis by (intro exI [of _ enc] exI [of _ "r mod 8"]) simp
qed

text \<open>The length announced in advance.\<close>

lemma http2_huffman_encode_bits_count:
  "unat a + 30 * length src < 2 ^ 32 \<Longrightarrow>
     unat (http2_huffman_encode_bits a src) = unat a + length (concat (map code_bits src))"
proof (induction src arbitrary: a)
  case Nil
  then show ?case by simp
next
  case (Cons b src)
  obtain n c where nc: "sym_entry b = HuffSym n c" by (cases "sym_entry b")
  then have n: "unat n \<le> 30" using sym_entry_ok by blast
  have "huff_sym_table ! unat b = HuffSym n c" using nc by (simp add: sym_entry_def)
  moreover have "unat (a + n) = unat a + unat n"
    using Cons.prems n by (simp add: unat_word_ariths)
  moreover have "length (code_bits b) = unat n" by (simp add: code_bits_def nc)
  ultimately show ?case using Cons.IH [of "a + n"] Cons.prems n by simp
qed

lemma length_code_bits_le: "length (concat (map code_bits src)) \<le> 30 * length src"
proof (induction src)
  case (Cons b src)
  obtain n c where nc: "sym_entry b = HuffSym n c" by (cases "sym_entry b")
  then have "unat n \<le> 30" using sym_entry_ok by blast
  with Cons nc show ?case by (simp add: code_bits_def)
qed simp

lemma http2_huffman_encode_count_eq:
  assumes "bytes_bits enc = concat (map code_bits src) @ replicate k True" and "k < 8"
    and "30 * length src + 7 < 2 ^ 32"
  shows "unat (http2_huffman_encode_count src) = length enc"
proof -
  let ?t = "length (concat (map code_bits src))"
  have "?t + k = 8 * length enc" using assms(1) by (metis length_append length_bytes_bits length_replicate)
  then have "(?t + 7) div 8 = length enc" using assms(2) by linarith
  moreover have "unat (http2_huffman_encode_bits 0 src) = ?t"
    using http2_huffman_encode_bits_count [of 0 src] assms(3) by simp
  moreover from this have "unat (http2_huffman_encode_bits 0 src + 7) = ?t + 7"
    using length_code_bits_le [of src] assms(3) by (simp add: unat_word_ariths)
  ultimately show ?thesis by (simp add: http2_huffman_encode_count_def unat_div)
qed

subsection \<open>Properties\<close>

text \<open>C2. Decoding what \<^verbatim>\<open>http2_huffman_encode\<close> appends, with a fresh context and marked as final,
  succeeds, consumes all of it and yields exactly the encoded bytes, for every byte string. The encoder
  neither fails nor touches an empty buffer, and leaves what was already in the output untouched.\<close>

theorem huffman_round_trip:
  "\<exists>enc ctx. http2_huffman_encode bufs src = Inr (bufs @ enc, 0)
     \<and> http2_huffman_decode http2_huffman_decode_context_init out enc True = (ctx, out @ src, int (length enc))"
  using http2_huffman_encode_bits_eq [of bufs src] http2_huffman_decode_ok by blast

text \<open>C3. The final decoding of a string succeeds with output \<open>out\<close> exactly when the string is the codes of
  the bytes of \<open>out\<close> followed by at most seven one bits; in every other case (the end-of-string symbol in the
  string, padding that is longer or not all ones) the result is -1.\<close>

theorem huffman_decode_exact:
  "(\<exists>ctx. http2_huffman_decode http2_huffman_decode_context_init bufs src True = (ctx, bufs @ out, int (length src)))
     = (\<exists>k < 8. bytes_bits src = concat (map code_bits out) @ replicate k True)
   \<and> snd (snd (http2_huffman_decode http2_huffman_decode_context_init bufs src True)) \<in> {-1, int (length src)}"
proof
  show "(\<exists>ctx. http2_huffman_decode http2_huffman_decode_context_init bufs src True = (ctx, bufs @ out, int (length src)))
     = (\<exists>k < 8. bytes_bits src = concat (map code_bits out) @ replicate k True)"
    using http2_huffman_decode_ok [of src out _ bufs True]
      http2_huffman_decode_sound [of bufs src _ "bufs @ out" "int (length src)"] by auto
  show "snd (snd (http2_huffman_decode http2_huffman_decode_context_init bufs src True)) \<in> {-1, int (length src)}"
    by (simp add: http2_huffman_decode_def split: prod.split)
qed

text \<open>\<^verbatim>\<open>http2_huffman_encode_count\<close>, from which \<^verbatim>\<open>emit_string\<close> writes the length prefix, is the number of
  bytes that \<^verbatim>\<open>http2_huffman_encode\<close> then appends, as long as the 32-bit sum of code lengths cannot wrap.\<close>

lemma huffman_encode_count_exact:
  assumes "30 * length src + 7 < 2 ^ 32"
  shows "\<exists>enc. http2_huffman_encode bufs src = Inr (bufs @ enc, 0) \<and> length enc = unat (http2_huffman_encode_count src)"
  using http2_huffman_encode_bits_eq [of bufs src] http2_huffman_encode_count_eq [OF _ _ assms] by metis

lemma http2_huffman_decode_loop_append:
  "http2_huffman_decode_loop ctx bufs (src1 @ src2) =
     (case http2_huffman_decode_loop ctx bufs src1 of
        (ok, ctx', bufs') \<Rightarrow> if ok then http2_huffman_decode_loop ctx' bufs' src2 else (ok, ctx', bufs'))"
  by (induction ctx bufs src1 rule: http2_huffman_decode_loop.induct)
    (auto simp: http2_huffman_decode_loop.simps(2) Let_def)

text \<open>A string may be decoded in pieces, as \<^verbatim>\<open>hd_inflate_read_huff\<close> does: decoding a piece and then the
  rest with the context left behind gives the same context, output, verdict and total length as decoding the
  whole, whatever context the decoder starts in.\<close>

lemma huffman_decode_pieces:
  "http2_huffman_decode ctx bufs (src1 @ src2) final =
     (case http2_huffman_decode ctx bufs src1 False of
        (ctx', bufs', r1) \<Rightarrow>
          if r1 = -1 then (ctx', bufs', -1)
          else (case http2_huffman_decode ctx' bufs' src2 final of
                  (ctx'', bufs'', r2) \<Rightarrow> (ctx'', bufs'', if r2 = -1 then -1 else r1 + r2)))"
  by (auto simp: http2_huffman_decode_def http2_huffman_decode_loop_append split: prod.split)

end
