(* ===== verification/Hpack_Integer.thy ===== *)
theory Hpack_Integer
  imports Codec
begin

text \<open>
  The integer representation of HPACK, \<^verbatim>\<open>count_encoded_length\<close>, \<^verbatim>\<open>encode_length\<close> and \<^verbatim>\<open>decode_length\<close> of
  \<^verbatim>\<open>src/src/http/http2.cpp\<close>. An integer occupies the low \<open>prefix\<close> bits of a first byte and, when it does not
  fit there, groups of seven bits in the bytes that follow. \<^verbatim>\<open>encode_length\<close> gets the first byte as it stands
  in the caller's array and returns the bytes it leaves there; \<^verbatim>\<open>decode_length\<close> reads the bytes between \<^verbatim>\<open>in\<close>
  and \<^verbatim>\<open>last\<close> (a list) and may be resumed with the value and the shift it left behind. Reading \<^verbatim>\<open>*in\<close> at
  \<^verbatim>\<open>last\<close> and shifting a 32-bit value by 32 or more are undefined behaviour.
\<close>

definition prefix_mask :: "nat \<Rightarrow> u32" where
  "prefix_mask prefix = 2 ^ prefix - 1"

function count_encoded_length_loop :: "u32 \<Rightarrow> u32 \<Rightarrow> u32" where
  "count_encoded_length_loop n len =
     (if n \<ge> 128 then count_encoded_length_loop (drop_bit 7 n) (len + 1) else len)"
  by pat_completeness auto
termination
  by (relation "measure (\<lambda>(n, len). unat n)") (simp_all add: unat_drop_bit word_le_nat_alt)

definition count_encoded_length :: "u32 \<Rightarrow> nat \<Rightarrow> u32" where
  "count_encoded_length n prefix =
     (let k = prefix_mask prefix in
      if n < k then 1
      else count_encoded_length_loop (n - k) 1 + 1)"

function encode_length_loop :: "u32 \<Rightarrow> buffer" where
  "encode_length_loop n =
     (if n \<ge> 128 then ucast (128 OR (n AND 0x7f)) # encode_length_loop (drop_bit 7 n) else [ucast n])"
  by pat_completeness auto
termination
  by (relation "measure unat") (simp_all add: unat_drop_bit word_le_nat_alt)

definition encode_length :: "u8 \<Rightarrow> u32 \<Rightarrow> nat \<Rightarrow> buffer" where
  "encode_length buf n prefix =
     (let k = prefix_mask prefix;
          buf = ucast (ucast buf AND NOT k)
      in if n < k then [ucast (ucast (buf :: u8) OR n)]
         else ucast (ucast buf OR k) # encode_length_loop (n - k))"

text \<open>What \<^verbatim>\<open>decode_length\<close> returns: the return value, the value written to \<^verbatim>\<open>*res\<close> (none on failure), to
  \<^verbatim>\<open>*shift_ptr\<close> and to \<^verbatim>\<open>*final\<close>.\<close>

record decoded =
  dl_rv :: int
  dl_res :: "u32 option"
  dl_shift :: nat
  dl_final :: bool

definition UINT32_MAX :: u32 where "UINT32_MAX = 0xffffffff"

text \<open>The loop; its result is \<^verbatim>\<open>n\<close>, \<^verbatim>\<open>shift\<close> and the input from \<^verbatim>\<open>in\<close> on when it stops, \<open>None\<close> where it
  returns -1.\<close>

fun decode_length_loop :: "u32 \<Rightarrow> nat \<Rightarrow> buffer \<Rightarrow> (u32 \<times> nat \<times> buffer) option exec" where
  "decode_length_loop n shift [] = Inr (Some (n, shift, []))"
| "decode_length_loop n shift (b # inp) =
     (let add = ucast b AND 0x7f in
      if 32 \<le> shift then Inl Undefined
      else if drop_bit shift UINT32_MAX < add then Inr None
      else
        let add = push_bit shift add in
        if UINT32_MAX - add < n then Inr None
        else
          let n = n + add in
          if b AND 128 = 0 then Inr (Some (n, shift, b # inp))
          else decode_length_loop n (shift + 7) inp)"

definition decode_length_finish :: "nat \<Rightarrow> (u32 \<times> nat \<times> buffer) option exec \<Rightarrow> decoded exec" where
  "decode_length_finish inlen r =
     bind_exec r (\<lambda>x. case x of
         None \<Rightarrow> Inr \<lparr>dl_rv = -1, dl_res = None, dl_shift = 0, dl_final = False\<rparr>
       | Some (n, shift, inp) \<Rightarrow>
           if inp = [] then Inr \<lparr>dl_rv = int inlen, dl_res = Some n, dl_shift = shift, dl_final = False\<rparr>
           else Inr \<lparr>dl_rv = int (inlen - length inp) + 1, dl_res = Some n, dl_shift = shift, dl_final = True\<rparr>)"

definition decode_length :: "u32 \<Rightarrow> nat \<Rightarrow> buffer \<Rightarrow> nat \<Rightarrow> decoded exec" where
  "decode_length initial shift inp prefix =
     (let k = ucast (ucast (prefix_mask prefix) :: u8) :: u32 in
      if initial = 0 then
        (case inp of
           [] \<Rightarrow> Inl Undefined
         | b # inp' \<Rightarrow>
             if ucast b AND k \<noteq> k
             then Inr \<lparr>dl_rv = 1, dl_res = Some (ucast b AND k), dl_shift = 0, dl_final = True\<rparr>
             else if inp' = [] then Inr \<lparr>dl_rv = 1, dl_res = Some k, dl_shift = 0, dl_final = False\<rparr>
             else decode_length_finish (length inp) (decode_length_loop k shift inp'))
      else decode_length_finish (length inp) (decode_length_loop initial shift inp))"

declare count_encoded_length_loop.simps [simp del] encode_length_loop.simps [simp del]

subsection \<open>Lengths\<close>

lemma unat_ge_128: "n \<ge> 128 \<longleftrightarrow> 128 \<le> unat (n :: u32)"
  by (simp add: word_le_nat_alt)

lemma encode_length_loop_length: "unat n < 128 ^ Suc j \<Longrightarrow> length (encode_length_loop n) \<le> Suc j"
proof (induction j arbitrary: n)
  case 0
  then show ?case by (simp add: encode_length_loop.simps [of n] unat_ge_128)
next
  case (Suc j)
  have "unat (drop_bit 7 n) < 128 ^ Suc j" using Suc.prems by (simp add: unat_drop_bit)
  from Suc.IH [OF this] show ?case by (simp add: encode_length_loop.simps [of n])
qed

lemma encode_length_loop_5: "length (encode_length_loop n) \<le> 5"
  using encode_length_loop_length [of n 4] unat_bound [of n] by simp

lemma count_encoded_length_loop_eq:
  "unat len + length (encode_length_loop n) < 2 ^ 32 \<Longrightarrow>
     unat (count_encoded_length_loop n len) + 1 = unat len + length (encode_length_loop n)"
proof (induction n len rule: count_encoded_length_loop.induct)
  case (1 n len)
  show ?case
  proof (cases "n \<ge> 128")
    case True
    with "1.prems" have lt: "unat len + Suc (length (encode_length_loop (drop_bit 7 n))) < 2 ^ 32"
      by (simp add: encode_length_loop.simps [of n])
    then have "unat (len + 1) = unat len + 1" by (simp add: unat_word_ariths)
    with "1.IH" True lt show ?thesis
      by (simp add: encode_length_loop.simps [of n] count_encoded_length_loop.simps [of n])
  next
    case False
    then show ?thesis by (simp add: encode_length_loop.simps [of n] count_encoded_length_loop.simps [of n])
  qed
qed

lemma length_encode_length:
  "length (encode_length b n prefix) = unat (count_encoded_length n prefix)"
  "length (encode_length b n prefix) \<le> 6"
proof -
  show "length (encode_length b n prefix) \<le> 6"
    using encode_length_loop_5 [of "n - prefix_mask prefix"] by (simp add: encode_length_def Let_def)
  let ?c = "count_encoded_length_loop (n - prefix_mask prefix) 1"
  have "unat ?c + 1 = 1 + length (encode_length_loop (n - prefix_mask prefix))"
    using count_encoded_length_loop_eq [of 1 "n - prefix_mask prefix"]
      encode_length_loop_5 [of "n - prefix_mask prefix"] by simp
  moreover from this have "unat (?c + 1) = unat ?c + 1"
    using encode_length_loop_5 [of "n - prefix_mask prefix"] by (simp add: unat_word_ariths)
  ultimately show "length (encode_length b n prefix) = unat (count_encoded_length n prefix)"
    by (simp add: encode_length_def count_encoded_length_def Let_def)
qed

subsection \<open>Round trip\<close>

lemma byte_and_128: "(b :: u8) AND 128 = 0 \<longleftrightarrow> \<not> bit b 7"
  using and_exp_eq_0_iff_not_bit [of b 7] by simp

lemma continued_group:
  fixes n :: u32
  shows "ucast (ucast (128 OR (n AND 0x7f)) :: u8) AND 0x7f = take_bit 7 n"
    and "bit (ucast (128 OR (n AND 0x7f)) :: u8) 7"
proof -
  show "ucast (ucast (128 OR (n AND 0x7f)) :: u8) AND 0x7f = take_bit 7 n"
    unfolding and_127_eq by (rule bit_word_eqI) (auto simp: bit_simps word_splits)
  show "bit (ucast (128 OR (n AND 0x7f)) :: u8) 7"
    by (simp add: bit_simps)
qed

lemma final_group:
  fixes n :: u32
  assumes "\<not> 128 \<le> n"
  shows "ucast (ucast n :: u8) AND 0x7f = n" and "\<not> bit (ucast n :: u8) 7"
proof -
  have n: "unat n < 2 ^ 7" using assms by (simp add: word_le_nat_alt)
  then have small: "i < 7" if "bit n i" for i
    using bit_beyond_bound [OF n, of i] that by (cases "i < 7") auto
  then have small: "i < 8" "i < 7" if "bit n i" for i using that by fastforce+
  show "ucast (ucast n :: u8) AND 0x7f = n"
    unfolding and_127_eq by (rule bit_word_eqI) (auto simp: bit_simps dest: small)
  show "\<not> bit (ucast n :: u8) 7" by (auto simp: bit_simps dest: small)
qed

lemma unat_UINT32_MAX [simp]: "unat UINT32_MAX = 2 ^ 32 - 1"
  by (simp add: UINT32_MAX_def)

text \<open>One group passes the two overflow tests exactly when it can be added without wrapping.\<close>

lemma add_group:
  fixes a n :: u32
  assumes "unat n + unat a * 2 ^ shift < 2 ^ 32" and "shift < 32"
  shows "\<not> drop_bit shift UINT32_MAX < a" and "\<not> UINT32_MAX - push_bit shift a < n"
    and "unat (n + push_bit shift a) = unat n + unat a * 2 ^ shift"
proof -
  have le: "unat a * 2 ^ shift \<le> 2 ^ 32 - 1" using assms(1) by simp
  then have "unat a \<le> (2 ^ 32 - 1) div 2 ^ shift"
    by (simp add: less_eq_div_iff_mult_less_eq)
  then show "\<not> drop_bit shift UINT32_MAX < a"
    by (simp add: word_less_nat_alt unat_drop_bit not_less)
  have p: "unat (push_bit shift a) = unat a * 2 ^ shift"
    using le by (intro unat_push_bit) simp
  have "unat (UINT32_MAX - push_bit shift a) = 2 ^ 32 - 1 - unat a * 2 ^ shift"
    using le p by (subst unat_sub) (simp_all add: word_le_nat_alt)
  then show "\<not> UINT32_MAX - push_bit shift a < n"
    using assms(1) by (simp add: word_less_nat_alt)
  show "unat (n + push_bit shift a) = unat n + unat a * 2 ^ shift"
    using assms(1) p by (simp add: unat_word_ariths)
qed

lemma decode_length_loop_encode:
  "unat n + unat m * 2 ^ shift < 2 ^ 32 \<Longrightarrow> shift < 32 \<Longrightarrow>
     \<exists>n' shift' b. decode_length_loop n shift (encode_length_loop m @ rest) = Inr (Some (n', shift', b # rest))
       \<and> unat n' = unat n + unat m * 2 ^ shift"
proof (induction m arbitrary: n shift rule: encode_length_loop.induct)
  case (1 m)
  show ?case
  proof (cases "128 \<le> m")
    case False
    note g = add_group [OF "1.prems"]
    show ?thesis
      using False g "1.prems"(2) by (simp add: encode_length_loop.simps [of m] final_group byte_and_128)
  next
    case True
    let ?lo = "take_bit 7 m" and ?hi = "drop_bit 7 m"
    have m: "unat m = unat ?lo + unat ?hi * 128"
      by (simp add: unat_drop_bit unat_take_bit)
    have hi: "0 < unat ?hi" using True by (simp add: unat_drop_bit word_le_nat_alt)
    have eq: "unat m * 2 ^ shift = unat ?lo * 2 ^ shift + unat ?hi * 2 ^ (shift + 7)"
      by (simp add: m algebra_simps power_add)
    have lo: "unat n + unat ?lo * 2 ^ shift < 2 ^ 32" using "1.prems" eq by simp
    note g = add_group [OF lo "1.prems"(2)]
    have lt: "unat (n + push_bit shift ?lo) + unat ?hi * 2 ^ (shift + 7) < 2 ^ 32"
      using "1.prems" eq g(3) by simp
    have "(2 :: nat) ^ (shift + 7) \<le> unat ?hi * 2 ^ (shift + 7)" using hi by simp
    also have "\<dots> < 2 ^ 32" using lt by simp
    finally have "shift + 7 < 32" by (rule power_less_imp_less_exp [rotated]) simp
    from "1.IH" [OF True lt this] g True eq "1.prems"(2) show ?thesis
      by (simp add: encode_length_loop.simps [of m] continued_group byte_and_128 Let_def add.assoc)
  qed
qed

lemma unat_prefix_mask: "prefix \<le> 8 \<Longrightarrow> unat (prefix_mask prefix) = 2 ^ prefix - 1"
proof -
  assume "prefix \<le> 8"
  moreover have "(1 :: u32) \<le> 2 ^ prefix" if "prefix < 32"
    using that by (simp add: word_le_nat_alt unat_2p)
  ultimately show ?thesis by (simp add: prefix_mask_def unat_sub unat_2p)
qed

lemma prefix_mask_eq: "prefix_mask prefix = mask prefix"
  by (simp add: prefix_mask_def mask_eq_exp_minus_1)

lemma prefix_mask_u8: "prefix \<le> 8 \<Longrightarrow> ucast (ucast (prefix_mask prefix) :: u8) = prefix_mask prefix"
  unfolding prefix_mask_eq by (rule bit_word_eqI) (auto simp: bit_simps)

lemma first_byte_full:
  fixes b :: u8
  shows "prefix \<le> 8 \<Longrightarrow> ucast (ucast (ucast (ucast (ucast b AND NOT (prefix_mask prefix)) :: u8) OR prefix_mask prefix) :: u8)
     AND prefix_mask prefix = prefix_mask prefix"
  unfolding prefix_mask_eq by (rule bit_word_eqI) (auto simp: bit_simps)

lemma first_byte_small:
  fixes b :: u8 and n :: u32
  assumes "n < prefix_mask prefix" and "prefix \<le> 8"
  shows "ucast (ucast (ucast (ucast (ucast b AND NOT (prefix_mask prefix)) :: u8) OR n) :: u8) AND prefix_mask prefix = n"
proof -
  have "unat n < 2 ^ prefix" using assms by (simp add: word_less_nat_alt unat_prefix_mask)
  then have "i < prefix" if "bit n i" for i
    using bit_beyond_bound [of n prefix i] that by (cases "i < prefix") auto
  then have small: "i < 8 \<and> i < prefix" if "bit n i" for i using assms(2) that by fastforce
  show ?thesis
    unfolding prefix_mask_eq by (rule bit_word_eqI) (use assms(2) in \<open>auto simp: bit_simps dest: small\<close>)
qed

lemma decode_encode_length:
  assumes "1 \<le> prefix" "prefix \<le> 8"
  shows "\<exists>shift. decode_length 0 0 (encode_length b n prefix @ rest) prefix
     = Inr \<lparr>dl_rv = int (length (encode_length b n prefix)), dl_res = Some n, dl_shift = shift, dl_final = True\<rparr>"
proof (cases "n < prefix_mask prefix")
  case True
  then have "n \<noteq> prefix_mask prefix" by auto
  with True first_byte_small [OF True assms(2), of b] show ?thesis
    by (simp add: decode_length_def encode_length_def Let_def prefix_mask_u8 [OF assms(2)])
next
  case False
  let ?k = "prefix_mask prefix"
  have le: "unat ?k + unat (n - ?k) = unat n"
    using False by (simp add: word_less_nat_alt unat_sub word_le_nat_alt)
  then have "unat ?k + unat (n - ?k) * 2 ^ 0 < 2 ^ 32" using unat_bound [of n] by simp
  from decode_length_loop_encode [OF this, of rest] obtain n' shift' c where
    loop: "decode_length_loop ?k 0 (encode_length_loop (n - ?k) @ rest) = Inr (Some (n', shift', c # rest))"
    and "unat n' = unat n" using le by auto
  then have "n' = n" by (simp add: word_unat_eq_iff)
  moreover have "encode_length_loop (n - ?k) @ rest \<noteq> []" by (simp add: encode_length_loop.simps)
  ultimately show ?thesis
    using False loop first_byte_full [OF assms(2), of b]
    by (simp add: decode_length_def encode_length_def Let_def prefix_mask_u8 [OF assms(2)] decode_length_finish_def)
qed

lemma encode_length_first:
  assumes "prefix \<le> 8"
  shows "drop_bit prefix (hd (encode_length b n prefix)) = drop_bit prefix b"
proof -
  have b: "i < 8" "i < 32" if "bit b i" for i using bit_imp_le_length [OF that] by simp_all
  have n: "i < prefix" if "n < prefix_mask prefix" "bit n i" for i
  proof -
    from that(1) have "unat n < 2 ^ prefix" using assms by (simp add: word_less_nat_alt unat_prefix_mask)
    with that(2) show ?thesis using bit_beyond_bound [of n prefix i] by (cases "i < prefix") auto
  qed
  show ?thesis
    unfolding encode_length_def Let_def
    by (intro bit_word_eqI) (auto simp: bit_simps prefix_mask_eq dest: b n [unfolded prefix_mask_eq])
qed

text \<open>Resuming: a piece that ends inside the number leaves behind what is needed to go on.\<close>

lemma decode_length_loop_append:
  "decode_length_loop n shift (inp1 @ inp2) =
     bind_exec (decode_length_loop n shift inp1) (\<lambda>x. case x of
         None \<Rightarrow> Inr None
       | Some (n', shift', rest) \<Rightarrow>
           if rest = [] then decode_length_loop n' shift' inp2 else Inr (Some (n', shift', rest @ inp2)))"
  by (induction n shift inp1 rule: decode_length_loop.induct) (auto simp: Let_def)

lemma decode_length_loop_rest:
  "decode_length_loop n shift inp = Inr (Some (n', shift', rest)) \<Longrightarrow> length rest \<le> length inp"
  by (induction n shift inp rule: decode_length_loop.induct) (auto simp: Let_def split: if_splits intro: le_SucI)

lemma add_below_max:
  fixes a n :: u32
  assumes "\<not> UINT32_MAX - a < n"
  shows "unat (n + a) = unat n + unat a"
proof -
  have "unat (UINT32_MAX - a) = 2 ^ 32 - 1 - unat a"
    by (subst unat_sub) (use unat_bound [of a] in \<open>simp_all add: word_le_nat_alt\<close>)
  with assms have "unat n + unat a < 2 ^ 32"
    using unat_bound [of a] by (simp add: word_less_nat_alt)
  then show ?thesis by (simp add: unat_word_ariths)
qed

lemma decode_length_loop_grows:
  "decode_length_loop n shift inp = Inr (Some (n', shift', rest)) \<Longrightarrow> unat n \<le> unat n'"
proof (induction n shift inp rule: decode_length_loop.induct)
  case (1 n shift)
  then show ?case by simp
next
  case (2 n shift b inp)
  let ?a = "push_bit shift (ucast b AND 0x7f) :: u32"
  from "2.prems" have ok: "\<not> 32 \<le> shift" "\<not> drop_bit shift UINT32_MAX < ucast b AND 0x7f" "\<not> UINT32_MAX - ?a < n"
    by (auto simp: Let_def split: if_splits)
  have "unat n \<le> unat (n + ?a)" using add_below_max [OF ok(3)] by simp
  then show ?case
    using "2.prems" "2.IH" ok by (auto simp: Let_def split: if_splits dest: order_trans)
qed

lemma decode_length_loop_safe:
  "shift + 7 * length inp \<le> 35 \<Longrightarrow> decode_length_loop n shift inp \<noteq> Inl e"
  by (induction n shift inp rule: decode_length_loop.induct) (auto simp: Let_def)

lemma decode_length_nonzero:
  assumes "initial \<noteq> 0"
  shows "decode_length initial shift inp prefix
     = decode_length_finish (length inp) (decode_length_loop initial shift inp)"
  using assms by (simp add: decode_length_def)

text \<open>How the outcome of a resumed call becomes the outcome for the whole input.\<close>

definition resumed :: "nat \<Rightarrow> decoded \<Rightarrow> decoded" where
  "resumed consumed d = (if dl_rv d = -1 then d else d\<lparr>dl_rv := dl_rv d + int consumed\<rparr>)"

lemma decode_length_finish_shift:
  "decode_length_finish (c + length inp) (decode_length_loop n shift inp)
     = map_sum id (resumed c) (decode_length_finish (length inp) (decode_length_loop n shift inp))"
proof (cases "decode_length_loop n shift inp")
  case (Inl e)
  then show ?thesis by (simp add: decode_length_finish_def)
next
  case (Inr r)
  show ?thesis
  proof (cases r)
    case None
    then show ?thesis by (simp add: Inr decode_length_finish_def resumed_def)
  next
    case (Some x)
    obtain n' shift' rest where "x = (n', shift', rest)" by (cases x)
    then show ?thesis
      using decode_length_loop_rest [of n shift inp n' shift' rest] Inr Some
      by (auto simp: decode_length_finish_def resumed_def of_nat_diff)
  qed
qed

lemma decode_length_finish_resume:
  assumes "decode_length_loop n shift inp1 = Inr (Some (n', shift', []))"
  shows "decode_length_finish (c + length (inp1 @ inp2)) (decode_length_loop n shift (inp1 @ inp2))
     = map_sum id (resumed (c + length inp1)) (decode_length_finish (length inp2) (decode_length_loop n' shift' inp2))"
  using decode_length_finish_shift [of "c + length inp1" inp2 n' shift']
  by (simp add: decode_length_loop_append assms add.assoc)

lemma decode_length_finish_partial:
  assumes "decode_length_finish inlen r = Inr d" and "dl_rv d \<noteq> -1" and "\<not> dl_final d"
  shows "r = Inr (Some (the (dl_res d), dl_shift d, []))"
proof -
  from assms(1) obtain x where r: "r = Inr x" by (cases r) (auto simp: decode_length_finish_def)
  show ?thesis
  proof (cases x)
    case None
    with assms r show ?thesis by (auto simp: decode_length_finish_def)
  next
    case (Some y)
    with assms r show ?thesis by (cases y) (auto simp: decode_length_finish_def split: if_splits)
  qed
qed

lemma decode_length_partial:
  assumes "decode_length initial shift inp prefix = Inr d" and "dl_rv d \<noteq> -1" and "\<not> dl_final d"
    and "prefix \<le> 8" and "initial = 0 \<longrightarrow> shift = 0"
  shows "(initial \<noteq> 0 \<and> decode_length_loop initial shift inp = Inr (Some (the (dl_res d), dl_shift d, [])))
    \<or> (initial = 0 \<and> (\<exists>b ins. inp = b # ins \<and> ucast b AND prefix_mask prefix = prefix_mask prefix
         \<and> decode_length_loop (prefix_mask prefix) shift ins = Inr (Some (the (dl_res d), dl_shift d, []))))"
proof (cases "initial = 0")
  case True
  with assms show ?thesis
    by (auto simp: decode_length_def Let_def prefix_mask_u8 split: list.splits if_splits
        dest: decode_length_finish_partial)
next
  case False
  with assms decode_length_finish_partial [of "length inp" _ d] show ?thesis
    by (simp add: decode_length_def)
qed

subsection \<open>The representation of RFC 7541\<close>

text \<open>Reading an integer as section 5.1 of RFC 7541 describes it, over the natural numbers.\<close>

fun rfc_int_rest :: "nat \<Rightarrow> nat \<Rightarrow> buffer \<Rightarrow> (nat \<times> buffer) option" where
  "rfc_int_rest I M [] = None"
| "rfc_int_rest I M (b # bs) =
     (let I = I + (unat b mod 128) * 2 ^ M in
      if unat b < 128 then Some (I, bs) else rfc_int_rest I (M + 7) bs)"

definition rfc_int :: "nat \<Rightarrow> buffer \<Rightarrow> (nat \<times> buffer) option" where
  "rfc_int prefix bs =
     (case bs of
        [] \<Rightarrow> None
      | b # bs \<Rightarrow>
          let I = unat b mod 2 ^ prefix in
          if I < 2 ^ prefix - 1 then Some (I, bs) else rfc_int_rest I 0 bs)"

lemma unat_byte_and_127: "unat (ucast (b :: u8) AND 0x7f :: u32) = unat b mod 128"
proof -
  have "ucast b AND 0x7f = take_bit 7 (ucast b :: u32)" by (rule and_127_eq)
  then show ?thesis by (simp add: unat_take_bit unat_ucast_up)
qed

lemma decode_length_loop_suffix:
  "decode_length_loop n shift inp = Inr (Some (n', shift', rest)) \<Longrightarrow> \<exists>pre. inp = pre @ rest"
proof (induction n shift inp rule: decode_length_loop.induct)
  case (2 n shift b inp)
  then show ?case by (auto simp: Let_def split: if_splits) (metis append_Cons)
qed simp

lemma decode_length_loop_rfc:
  assumes "decode_length_loop n shift inp = Inr (Some (n', shift', c # rest))"
  shows "rfc_int_rest (unat n) shift inp = Some (unat n', rest)"
  using assms
proof (induction n shift inp rule: decode_length_loop.induct)
  case (1 n shift)
  then show ?case by simp
next
  case (2 n shift b inp)
  let ?a = "ucast b AND 0x7f :: u32"
  from "2.prems" have ok: "\<not> 32 \<le> shift" "\<not> drop_bit shift UINT32_MAX < ?a" "\<not> UINT32_MAX - push_bit shift ?a < n"
    by (auto simp: Let_def split: if_splits)
  have "unat ?a \<le> (2 ^ 32 - 1) div 2 ^ shift" using ok(2) by (simp add: word_less_nat_alt unat_drop_bit not_less)
  then have "unat ?a * 2 ^ shift < 2 ^ 32" by (simp add: less_eq_div_iff_mult_less_eq)
  then have add: "unat (n + push_bit shift ?a) = unat n + unat b mod 128 * 2 ^ shift"
    using add_below_max [OF ok(3)] unat_push_bit [of ?a shift] by (simp add: unat_byte_and_127)
  show ?case
    using "2.prems" "2.IH" ok add by (auto simp: Let_def byte_and_128 byte_bit_7 split: if_splits)
qed

lemma decode_length_finish_final:
  assumes "decode_length_finish inlen r = Inr d" and "dl_final d"
  shows "\<exists>n shift c rest. r = Inr (Some (n, shift, c # rest)) \<and> dl_res d = Some n \<and> dl_rv d = int (inlen - length (c # rest)) + 1"
proof -
  from assms obtain n shift inp where "r = Inr (Some (n, shift, inp))" "inp \<noteq> []" "dl_res d = Some n"
    "dl_rv d = int (inlen - length inp) + 1"
    by (cases r; cases "projr r") (auto simp: decode_length_finish_def split: if_splits)
  then show ?thesis by (cases inp) auto
qed

text \<open>What \<^verbatim>\<open>decode_length\<close> reads is what the RFC reads.\<close>

lemma decode_length_rfc:
  assumes "decode_length 0 0 bs prefix = Inr d" "dl_final d" "1 \<le> prefix" "prefix \<le> 8"
  shows "rfc_int prefix bs = Some (unat (the (dl_res d)), drop (nat (dl_rv d)) bs)"
proof -
  let ?k = "prefix_mask prefix"
  from assms(1) obtain b inp where bs: "bs = b # inp" by (cases bs) (auto simp: decode_length_def)
  have "ucast b AND ?k = take_bit prefix (ucast b :: u32)" by (simp add: prefix_mask_eq take_bit_eq_mask)
  then have I: "unat (ucast b AND ?k) = unat b mod 2 ^ prefix"
    by (simp add: unat_take_bit unat_ucast_up)
  have k: "unat ?k = 2 ^ prefix - 1" using assms(4) by (rule unat_prefix_mask)
  have full: "ucast b AND ?k \<noteq> ?k \<longleftrightarrow> unat b mod 2 ^ prefix < 2 ^ prefix - 1"
  proof -
    have "unat b mod 2 ^ prefix < 2 ^ prefix" by simp
    moreover have "ucast b AND ?k = ?k \<longleftrightarrow> unat b mod 2 ^ prefix = 2 ^ prefix - 1" using I k by (simp add: word_unat_eq_iff)
    ultimately show ?thesis by linarith
  qed
  show ?thesis
  proof (cases "ucast b AND ?k = ?k")
    case False
    then show ?thesis
      using assms(1) full I by (auto simp: bs decode_length_def rfc_int_def Let_def prefix_mask_u8 [OF assms(4)])
  next
    case True
    then obtain n' shift' c rest where
      loop: "decode_length_loop ?k 0 inp = Inr (Some (n', shift', c # rest))" and "dl_res d = Some n'"
        "nat (dl_rv d) = Suc (length inp) - Suc (length rest) + 1"
    proof -
      have "inp \<noteq> []" and "decode_length_finish (Suc (length inp)) (decode_length_loop ?k 0 inp) = Inr d"
        using assms(1,2) True by (auto simp: bs decode_length_def Let_def prefix_mask_u8 [OF assms(4)] split: if_splits)
      from decode_length_finish_final [OF this(2) assms(2)] show thesis using that by auto
    qed
    moreover obtain pre where "inp = pre @ c # rest" using decode_length_loop_suffix [OF loop] ..
    moreover have "unat b mod 2 ^ prefix = unat ?k" using True I by simp
    ultimately show ?thesis
      using decode_length_loop_rfc [OF loop] full True k by (simp add: bs rfc_int_def)
  qed
qed

lemma rfc_int_encode_length:
  assumes "1 \<le> prefix" "prefix \<le> 8"
  shows "rfc_int prefix (encode_length b n prefix @ rest) = Some (unat n, rest)"
proof -
  from decode_encode_length [OF assms, of b n rest] obtain shift where
    "decode_length 0 0 (encode_length b n prefix @ rest) prefix
       = Inr \<lparr>dl_rv = int (length (encode_length b n prefix)), dl_res = Some n, dl_shift = shift, dl_final = True\<rparr>" ..
  from decode_length_rfc [OF this _ assms] show ?thesis by simp
qed

text \<open>The code's own reader, on input that holds the whole number.\<close>

definition read_length :: "nat \<Rightarrow> buffer \<Rightarrow> (u32 \<times> buffer) option" where
  "read_length prefix bs =
     (case decode_length 0 0 bs prefix of
        Inl e \<Rightarrow> None
      | Inr d \<Rightarrow> if dl_final d then Some (the (dl_res d), drop (nat (dl_rv d)) bs) else None)"

lemma read_length_encode:
  assumes "1 \<le> prefix" "prefix \<le> 8"
  shows "read_length prefix (encode_length b n prefix @ rest) = Some (n, rest)"
  using decode_encode_length [OF assms, of b n rest] by (auto simp: read_length_def)

lemma encode_length_nonempty: "encode_length b n prefix \<noteq> []"
  by (simp add: encode_length_def Let_def)

text \<open>The four prefix lengths of HPACK.\<close>

interpretation int4: stream_codec "\<lambda>n. True" "\<lambda>n. encode_length b n 4" "read_length 4" for b
  by unfold_locales (simp_all add: read_length_encode encode_length_nonempty)

interpretation int5: stream_codec "\<lambda>n. True" "\<lambda>n. encode_length b n 5" "read_length 5" for b
  by unfold_locales (simp_all add: read_length_encode encode_length_nonempty)

interpretation int6: stream_codec "\<lambda>n. True" "\<lambda>n. encode_length b n 6" "read_length 6" for b
  by unfold_locales (simp_all add: read_length_encode encode_length_nonempty)

interpretation int7: stream_codec "\<lambda>n. True" "\<lambda>n. encode_length b n 7" "read_length 7" for b
  by unfold_locales (simp_all add: read_length_encode encode_length_nonempty)

subsection \<open>Properties\<close>

text \<open>C4. For every 32-bit value, every prefix of one to eight bits and whatever else is in the first byte,
  \<^verbatim>\<open>decode_length\<close> recovers the value that \<^verbatim>\<open>encode_length\<close> wrote, reports it as complete and as occupying
  exactly the bytes written, whatever follows them; the bits of the first byte above the prefix are kept.\<close>

theorem hpack_integer_round_trip:
  assumes "1 \<le> prefix" "prefix \<le> 8"
  shows "(\<exists>shift. decode_length 0 0 (encode_length b n prefix @ rest) prefix
       = Inr \<lparr>dl_rv = int (length (encode_length b n prefix)), dl_res = Some n, dl_shift = shift, dl_final = True\<rparr>)
    \<and> drop_bit prefix (hd (encode_length b n prefix)) = drop_bit prefix b"
  using decode_encode_length [OF assms] encode_length_first [OF assms(2)] by blast

theorem hpack_integer_round_trip_witness:
  "(\<exists>shift. decode_length 0 0 (encode_length 0x80 1337 7 @ [1, 2]) 7
       = Inr \<lparr>dl_rv = int (length (encode_length 0x80 1337 7)), dl_res = Some 1337, dl_shift = shift, dl_final = True\<rparr>)
    \<and> drop_bit 7 (hd (encode_length 0x80 1337 7)) = drop_bit 7 0x80"
  by (rule hpack_integer_round_trip) simp_all

text \<open>\<^verbatim>\<open>count_encoded_length\<close> is the number of bytes \<^verbatim>\<open>encode_length\<close> writes, and this is at most six, so
  the callers' 16-byte arrays are never overrun and the callers' size check never fails.\<close>

lemma hpack_integer_length:
  "length (encode_length b n prefix) = unat (count_encoded_length n prefix)
   \<and> 1 \<le> unat (count_encoded_length n prefix) \<and> unat (count_encoded_length n prefix) \<le> 6"
proof -
  have "encode_length b n prefix \<noteq> []" by (simp add: encode_length_def Let_def)
  then show ?thesis using length_encode_length [of b n prefix] by (cases "encode_length b n prefix") auto
qed

text \<open>Decoding is insensitive to how the input is cut: when a first piece ends inside the number, resuming
  with the value and shift it left behind gives the outcome of decoding the concatenation, with the lengths
  added up.\<close>

lemma hpack_integer_resume:
  assumes "decode_length initial shift inp1 prefix = Inr d" and "dl_rv d \<noteq> -1" and "\<not> dl_final d"
    and "0 < prefix" "prefix \<le> 8" and "inp2 \<noteq> []" and "initial = 0 \<longrightarrow> shift = 0"
  shows "decode_length initial shift (inp1 @ inp2) prefix
     = map_sum id (resumed (length inp1)) (decode_length (the (dl_res d)) (dl_shift d) inp2 prefix)"
proof -
  let ?k = "prefix_mask prefix" and ?n = "the (dl_res d)"
  have "(1 :: nat) < 2 ^ prefix" by (rule one_less_power) (use assms(4) in simp_all)
  then have k: "0 < unat ?k" using assms(5) by (simp add: unat_prefix_mask)
  from decode_length_partial [OF assms(1-3,5,7)] show ?thesis
  proof (elim disjE conjE exE)
    assume "initial \<noteq> 0" and run: "decode_length_loop initial shift inp1 = Inr (Some (?n, dl_shift d, []))"
    moreover from this have "?n \<noteq> 0" using decode_length_loop_grows [OF run] by (auto simp: word_unat_eq_iff)
    ultimately show ?thesis
      using decode_length_finish_resume [OF run, of 0 inp2] by (simp add: decode_length_nonzero)
  next
    fix b ins
    assume *: "initial = 0" "inp1 = b # ins" "ucast b AND ?k = ?k"
      and run: "decode_length_loop ?k shift ins = Inr (Some (?n, dl_shift d, []))"
    have "?n \<noteq> 0" using k decode_length_loop_grows [OF run] by auto
    with * show ?thesis
      using decode_length_finish_resume [OF run, of 1 inp2] assms(5,6)
      by (simp add: decode_length_nonzero decode_length_def [of 0] prefix_mask_u8)
  qed
qed

text \<open>Decoding from the start never shifts out of range while at most six bytes are offered, the length of
  the longest representation; but nothing stops the loop after them: a seventh byte after five zero groups
  shifts a 32-bit value by 35, which is undefined.\<close>

lemma hpack_integer_shift_range:
  assumes "length inp \<le> 5"
  shows "decode_length 0 0 (b # inp) prefix \<noteq> Inl e
    \<and> decode_length 0 0 [0xff, 0x80, 0x80, 0x80, 0x80, 0x80, 0x00] 7 = Inl Undefined"
proof
  from assms have "decode_length_loop (ucast (ucast (prefix_mask prefix) :: u8)) 0 inp \<noteq> Inl e"
    by (intro decode_length_loop_safe) simp
  then show "decode_length 0 0 (b # inp) prefix \<noteq> Inl e"
    by (auto simp: decode_length_def Let_def decode_length_finish_def bind_exec_def
        split: sum.splits option.splits prod.splits if_splits)
  show "decode_length 0 0 [0xff, 0x80, 0x80, 0x80, 0x80, 0x80, 0x00] 7 = Inl Undefined"
    by (simp add: decode_length_def decode_length_finish_def prefix_mask_def UINT32_MAX_def)
qed

text \<open>Whatever \<^verbatim>\<open>decode_length\<close> accepts as a complete integer is the integer that section 5.1 of RFC 7541 reads there,
  with the same bytes left over; and the RFC reads every integer \<^verbatim>\<open>encode_length\<close> writes.\<close>

lemma hpack_integer_conforms:
  assumes "1 \<le> prefix" "prefix \<le> 8" and "decode_length 0 0 bs prefix = Inr d" "dl_final d"
  shows "rfc_int prefix bs = Some (unat (the (dl_res d)), drop (nat (dl_rv d)) bs)
    \<and> rfc_int prefix (encode_length b n prefix @ rest) = Some (unat n, rest)"
  using decode_length_rfc [OF assms(3,4,1,2)] rfc_int_encode_length [OF assms(1,2)] by simp

end
