(* ===== verification/Ring_Buffer.thy ===== *)
theory Ring_Buffer
  imports Prelude
begin

text \<open>
  The ring buffer that holds the dynamic table of HPACK: \<^verbatim>\<open>http2_ringbuf\<close> and the \<^verbatim>\<open>hd_ringbuf_*\<close> functions of
  \<^verbatim>\<open>src/src/http/http2.cpp\<close>. The slots are a list, with \<open>None\<close> for a slot that \<^verbatim>\<open>malloc\<close> returned and nothing
  was written to (reading it is undefined); a null \<^verbatim>\<open>buffer\<close> is the empty list. Whether \<^verbatim>\<open>malloc\<close> succeeds for a
  number of slots is the argument \<open>mem\<close>. The size is doubled until it reaches the request; beyond \<open>2 ^ 31\<close> the
  doubling reaches zero and the loop, which has no side effect, never ends: undefined behaviour. \<^verbatim>\<open>DCHECK\<close> and
  \<^verbatim>\<open>DNOTREACHED\<close> have no effect, as in a release build.

  The locale \<open>deque\<close> is the contract the header table relies on; it is interpreted on these definitions.
\<close>

record 'a http2_ringbuf =
  rb_buffer :: "'a option list"
  rb_mask :: u32
  rb_first :: u32
  rb_len :: u32

partial_function (option) ring_size :: "u32 \<Rightarrow> u32 \<Rightarrow> u32 option" where
  "ring_size bufsize sz =
     (if sz < bufsize then ring_size bufsize (push_bit 1 sz) else Some sz)"

declare ring_size.simps [code]

definition slot :: "'a http2_ringbuf \<Rightarrow> u32 \<Rightarrow> nat" where
  "slot rb idx = unat ((rb_first rb + idx) AND rb_mask rb)"

definition hd_ringbuf_get :: "'a http2_ringbuf \<Rightarrow> u32 \<Rightarrow> 'a exec" where
  "hd_ringbuf_get rb idx =
     (if slot rb idx < length (rb_buffer rb)
      then case rb_buffer rb ! slot rb idx of None \<Rightarrow> Inl Undefined | Some e \<Rightarrow> Inr e
      else Inl Undefined)"

text \<open>The copying loop of \<^verbatim>\<open>hd_ringbuf_reserve\<close>: \<open>n\<close> entries from position \<open>i\<close> on.\<close>

fun ring_copy :: "'a http2_ringbuf \<Rightarrow> nat \<Rightarrow> u32 \<Rightarrow> 'a option list \<Rightarrow> 'a option list exec" where
  "ring_copy rb 0 i buf = Inr buf"
| "ring_copy rb (Suc n) i buf =
     bind_exec (hd_ringbuf_get rb i) (\<lambda>e. ring_copy rb n (i + 1) (buf[unat i := Some e]))"

text \<open>The result carries the return value, 0 or -1.\<close>

definition hd_ringbuf_reserve :: "(u32 \<Rightarrow> bool) \<Rightarrow> 'a http2_ringbuf \<Rightarrow> u32 \<Rightarrow> (int \<times> 'a http2_ringbuf) exec" where
  "hd_ringbuf_reserve mem rb bufsize =
     (if rb_mask rb + 1 \<ge> bufsize then Inr (0, rb)
      else case ring_size bufsize 1 of
          None \<Rightarrow> Inl Undefined
        | Some sz \<Rightarrow>
            if \<not> mem sz then Inr (-1, rb)
            else bind_exec (ring_copy rb (unat (rb_len rb)) 0 (replicate (unat sz) None))
              (\<lambda>buf. Inr (0, rb\<lparr>rb_buffer := buf, rb_mask := sz - 1, rb_first := 0\<rparr>)))"

definition hd_ringbuf_push_front :: "(u32 \<Rightarrow> bool) \<Rightarrow> 'a http2_ringbuf \<Rightarrow> 'a \<Rightarrow> (int \<times> 'a http2_ringbuf) exec" where
  "hd_ringbuf_push_front mem rb ent =
     bind_exec (hd_ringbuf_reserve mem rb (rb_len rb + 1)) (\<lambda>(rv, rb).
       if rv \<noteq> 0 then Inr (rv, rb)
       else
         let rb = rb\<lparr>rb_first := rb_first rb - 1\<rparr> in
         if slot rb 0 < length (rb_buffer rb)
         then Inr (0, rb\<lparr>rb_buffer := (rb_buffer rb)[slot rb 0 := Some ent], rb_len := rb_len rb + 1\<rparr>)
         else Inl Undefined)"

definition hd_ringbuf_pop_back :: "'a http2_ringbuf \<Rightarrow> 'a http2_ringbuf" where
  "hd_ringbuf_pop_back rb = rb\<lparr>rb_len := rb_len rb - 1\<rparr>"

definition http2_ringbuf_ctor :: "(u32 \<Rightarrow> bool) \<Rightarrow> u32 \<Rightarrow> 'a http2_ringbuf exec" where
  "http2_ringbuf_ctor mem bufsize =
     (let null = \<lparr>rb_buffer = [], rb_mask = 0, rb_first = 0, rb_len = 0\<rparr> in
      if bufsize = 0 then Inr null
      else case ring_size bufsize 1 of
          None \<Rightarrow> Inl Undefined
        | Some sz \<Rightarrow>
            if \<not> mem sz then Inr null
            else Inr \<lparr>rb_buffer = replicate (unat sz) None, rb_mask = sz - 1, rb_first = 0, rb_len = 0\<rparr>)"

subsection \<open>Invariant and abstraction\<close>

definition rb_invar :: "'a http2_ringbuf \<Rightarrow> bool" where
  "rb_invar rb \<longleftrightarrow>
     (\<exists>k < 32. length (rb_buffer rb) = 2 ^ k \<and> rb_mask rb = mask k \<and> unat (rb_len rb) \<le> 2 ^ k)
     \<and> (\<forall>i < unat (rb_len rb). rb_buffer rb ! slot rb (of_nat i) \<noteq> None)"

definition rb_list :: "'a http2_ringbuf \<Rightarrow> 'a list" where
  "rb_list rb = map (\<lambda>i. the (rb_buffer rb ! slot rb (of_nat i))) [0..<unat (rb_len rb)]"

lemma length_rb_list [simp]: "length (rb_list rb) = unat (rb_len rb)"
  by (simp add: rb_list_def)

lemma nth_rb_list: "i < unat (rb_len rb) \<Longrightarrow> rb_list rb ! i = the (rb_buffer rb ! slot rb (of_nat i))"
  by (simp add: rb_list_def)

lemma rb_invarE:
  assumes "rb_invar rb"
  obtains k where "k < 32" "length (rb_buffer rb) = 2 ^ k" "rb_mask rb = mask k" "unat (rb_len rb) \<le> 2 ^ k"
    and "\<And>i. i < unat (rb_len rb) \<Longrightarrow> rb_buffer rb ! slot rb (of_nat i) \<noteq> None"
  using assms unfolding rb_invar_def by blast

lemma slot_mod:
  assumes "rb_mask rb = mask k" and "k < 32"
  shows "slot rb (of_nat i) = (unat (rb_first rb) + i) mod 2 ^ k"
proof -
  have dvd: "(2 :: nat) ^ k dvd 2 ^ 32" using assms(2) by (intro le_imp_power_dvd) simp
  have "slot rb (of_nat i) = unat (rb_first rb + of_nat i) mod 2 ^ k"
    by (simp add: slot_def assms(1) unat_take_bit flip: take_bit_eq_mask)
  also have "unat (rb_first rb + of_nat i) = (unat (rb_first rb) + i) mod 2 ^ 32"
    by (simp add: unat_word_ariths unat_of_nat mod_simps take_bit_eq_mod)
  finally show ?thesis by (simp only: mod_mod_cancel [OF dvd])
qed

lemma slot_bound: "rb_mask rb = mask k \<Longrightarrow> k < 32 \<Longrightarrow> slot rb (of_nat i) < 2 ^ k"
  by (simp add: slot_mod)

lemma mod_add_inj:
  assumes "(a + i) mod n = (a + j) mod n" and "i < n" "j < (n :: nat)"
  shows "i = j"
proof -
  have "x = y" if "x \<le> y" "(a + y) mod n = (a + x) mod n" "y < n" for x y
  proof -
    have "n dvd y - x" using that mod_eq_dvd_iff_nat [of "a + x" "a + y" n] by simp
    then have "y - x = 0" using that(3) dvd_imp_le [of n "y - x"] by (cases "y - x = 0") simp_all
    with that(1) show ?thesis by simp
  qed
  from this [of i j] this [of j i] assms show ?thesis by (cases "i \<le> j") auto
qed

lemma slot_inj:
  assumes "rb_mask rb = mask k" "k < 32" "i < 2 ^ k" "j < 2 ^ k" "slot rb (of_nat i) = slot rb (of_nat j)"
  shows "i = j"
  using assms by (auto simp: slot_mod intro: mod_add_inj [of "unat (rb_first rb)" i "2 ^ k" j])

subsection \<open>Operations\<close>

lemma get_rb_list:
  assumes "rb_invar rb" and "i < unat (rb_len rb)"
  shows "hd_ringbuf_get rb (of_nat i) = Inr (rb_list rb ! i)"
proof -
  from assms(1) obtain k where k: "k < 32" "length (rb_buffer rb) = 2 ^ k" "rb_mask rb = mask k"
    and "rb_buffer rb ! slot rb (of_nat i) \<noteq> None" using assms(2) by (auto elim: rb_invarE)
  with slot_bound [OF k(3,1), of i] assms(2) show ?thesis by (auto simp: hd_ringbuf_get_def nth_rb_list)
qed

lemma ring_copy_ok:
  assumes "rb_invar rb" and "i + n = unat (rb_len rb)" and "unat (rb_len rb) \<le> length buf"
  shows "ring_copy rb n (of_nat i) buf
     = Inr (take i buf @ map Some (drop i (rb_list rb)) @ drop (unat (rb_len rb)) buf)"
  using assms(2,3)
proof (induction n arbitrary: i buf)
  case 0
  then show ?case by simp
next
  case (Suc n)
  have i: "unat (of_nat i :: u32) = i"
    using Suc.prems unat_bound [of "rb_len rb"] by (simp add: unat_of_nat take_bit_nat_eq_self)
  have "of_nat i + 1 = (of_nat (Suc i) :: u32)" by simp
  moreover have "take (Suc i) (buf[i := Some x]) = take i buf @ [Some x]" for x
    using Suc.prems by (simp add: take_Suc_conv_app_nth)
  moreover have "drop i (rb_list rb) = rb_list rb ! i # drop (Suc i) (rb_list rb)"
    using Suc.prems by (simp add: Cons_nth_drop_Suc)
  ultimately show ?case
    using Suc.IH [of "Suc i" "buf[i := Some (rb_list rb ! i)]"] Suc.prems get_rb_list [OF assms(1), of i] i
    by (simp add: add.commute)
qed

text \<open>The doubling loop finds the least power of two that is large enough.\<close>

lemma ring_size_loop:
  assumes "unat bufsize \<le> 2 ^ (j + d)" and "j + d < 32"
  shows "\<exists>k. j \<le> k \<and> k \<le> j + d \<and> ring_size bufsize (2 ^ j) = Some (2 ^ k) \<and> unat bufsize \<le> 2 ^ k
    \<and> (j < k \<longrightarrow> 2 ^ (k - 1) < unat bufsize)"
  using assms
proof (induction d arbitrary: j)
  case 0
  then show ?case by (auto simp: ring_size.simps [of _ "2 ^ j"] word_less_nat_alt unat_2p)
next
  case (Suc d)
  show ?case
  proof (cases "(2 :: u32) ^ j < bufsize")
    case True
    have "push_bit 1 (2 ^ j :: u32) = 2 ^ Suc j" by (simp add: push_bit_eq_mult)
    with True have step: "ring_size bufsize (2 ^ j) = ring_size bufsize (2 ^ Suc j)"
      by (simp add: ring_size.simps [of _ "2 ^ j"] mult.commute)
    have lt: "2 ^ j < unat bufsize" using True Suc.prems by (simp add: word_less_nat_alt unat_2p)
    from Suc.IH [of "Suc j"] Suc.prems obtain k where
      k: "Suc j \<le> k" "k \<le> j + Suc d" "ring_size bufsize (2 ^ Suc j) = Some (2 ^ k)" "unat bufsize \<le> 2 ^ k"
        "Suc j < k \<longrightarrow> 2 ^ (k - 1) < unat bufsize" by auto
    with lt have "2 ^ (k - 1) < unat bufsize" by (cases "k = Suc j") auto
    with k step show ?thesis by (intro exI [of _ k]) simp
  next
    case False
    with Suc.prems show ?thesis by (auto simp: ring_size.simps [of _ "2 ^ j"] word_less_nat_alt unat_2p)
  qed
qed

lemma ring_size_ok:
  assumes "unat bufsize \<le> 2 ^ 31"
  obtains k where "k < 32" "ring_size bufsize 1 = Some (2 ^ k)" "unat bufsize \<le> 2 ^ k"
proof -
  from ring_size_loop [of bufsize 0 31] assms obtain k where
    "k \<le> 31" "ring_size bufsize 1 = Some (2 ^ k)" "unat bufsize \<le> 2 ^ k" by auto
  then show thesis by (intro that) simp_all
qed

lemma two_power_minus_1: "2 ^ k - 1 = (mask k :: u32)"
  by (simp add: mask_eq_exp_minus_1)

lemma unat_mask_Suc: "k < 32 \<Longrightarrow> unat (mask k + 1 :: u32) = 2 ^ k"
  by (simp add: mask_eq_exp_minus_1 unat_2p)

text \<open>A reserved ring keeps its contents and has a free slot; the only failure is that of \<^verbatim>\<open>malloc\<close>.\<close>

lemma hd_ringbuf_reserve_ok:
  assumes inv: "rb_invar rb" and small: "unat (rb_len rb) < 2 ^ 31"
  shows "(hd_ringbuf_reserve mem rb (rb_len rb + 1) = Inr (-1, rb) \<and> (\<exists>n. \<not> mem n))
    \<or> (\<exists>rb'. hd_ringbuf_reserve mem rb (rb_len rb + 1) = Inr (0, rb') \<and> rb_invar rb'
         \<and> rb_list rb' = rb_list rb \<and> rb_len rb' = rb_len rb \<and> unat (rb_len rb') < length (rb_buffer rb'))"
proof -
  have len: "unat (rb_len rb + 1) = Suc (unat (rb_len rb))"
    using small by (simp add: unat_word_ariths)
  from inv obtain k where k: "k < 32" "length (rb_buffer rb) = 2 ^ k" "rb_mask rb = mask k"
    by (auto elim: rb_invarE)
  show ?thesis
  proof (cases "rb_mask rb + 1 \<ge> rb_len rb + 1")
    case True
    then have "unat (rb_len rb) < 2 ^ k" using k len unat_mask_Suc [OF k(1)] by (simp add: word_le_nat_alt)
    with True k inv show ?thesis by (simp add: hd_ringbuf_reserve_def)
  next
    case False
    from len small have "unat (rb_len rb + 1) \<le> 2 ^ 31" by simp
    then obtain m where m: "m < 32" "ring_size (rb_len rb + 1) 1 = Some (2 ^ m)" "unat (rb_len rb + 1) \<le> 2 ^ m"
      by (rule ring_size_ok)
    let ?buf = "map Some (rb_list rb) @ replicate (2 ^ m - unat (rb_len rb)) None"
    let ?rb = "rb\<lparr>rb_buffer := ?buf, rb_mask := mask m, rb_first := 0\<rparr>"
    have copy: "ring_copy rb (unat (rb_len rb)) 0 (replicate (2 ^ m) None) = Inr ?buf"
      using ring_copy_ok [OF inv, of 0 "unat (rb_len rb)" "replicate (2 ^ m) None"] m(3) len by simp
    have slot: "slot ?rb (of_nat i) = i" if "i < unat (rb_len rb)" for i
      using slot_mod [of ?rb m i] m(1,3) that len by simp
    have "rb_invar ?rb"
      unfolding rb_invar_def using m(1,3) len by (auto simp: slot nth_append intro!: exI [of _ m])
    moreover have "rb_list ?rb = rb_list rb"
      by (rule nth_equalityI) (simp_all add: nth_rb_list [of _ ?rb] slot nth_append)
    moreover have "hd_ringbuf_reserve mem rb (rb_len rb + 1) = (if mem (2 ^ m) then Inr (0, ?rb) else Inr (-1, rb))"
      using False m(1,2) copy by (simp add: hd_ringbuf_reserve_def unat_2p two_power_minus_1)
    ultimately show ?thesis using m(3) len by (cases "mem (2 ^ m)") (auto intro: exI [of _ ?rb])
  qed
qed

lemma push_slot:
  assumes "unat (rb_len rb) < length (rb_buffer rb)" "rb_invar rb" "rb' = rb\<lparr>rb_first := rb_first rb - 1\<rparr>"
  shows "slot rb' 0 < length (rb_buffer rb)"
    and "i \<le> unat (rb_len rb) \<Longrightarrow> 0 < i \<Longrightarrow> slot rb' (of_nat i) \<noteq> slot rb' 0"
    and "slot rb' (of_nat (Suc i)) = slot rb (of_nat i)"
proof -
  from assms(2) obtain k where k: "k < 32" "length (rb_buffer rb) = 2 ^ k" "rb_mask rb = mask k"
    by (auto elim: rb_invarE)
  then show "slot rb' 0 < length (rb_buffer rb)" using slot_bound [of rb' k 0] assms(3) by simp
  show "slot rb' (of_nat i) \<noteq> slot rb' 0" if "i \<le> unat (rb_len rb)" "0 < i"
    using slot_inj [of rb' k i 0] k that assms by auto
  show "slot rb' (of_nat (Suc i)) = slot rb (of_nat i)" by (simp add: slot_def assms(3))
qed

lemma hd_ringbuf_push_front_ok:
  assumes inv: "rb_invar rb" and small: "unat (rb_len rb) < 2 ^ 31"
  shows "(hd_ringbuf_push_front mem rb e = Inr (-1, rb) \<and> (\<exists>n. \<not> mem n))
    \<or> (\<exists>rb'. hd_ringbuf_push_front mem rb e = Inr (0, rb') \<and> rb_invar rb' \<and> rb_list rb' = e # rb_list rb)"
  using hd_ringbuf_reserve_ok [OF assms, of mem]
proof (elim disjE exE conjE)
  show ?thesis if "hd_ringbuf_reserve mem rb (rb_len rb + 1) = Inr (-1, rb)" "\<not> mem n" for n
    using that by (auto simp: hd_ringbuf_push_front_def)
next
  fix rb1
  assume r: "hd_ringbuf_reserve mem rb (rb_len rb + 1) = Inr (0, rb1)" and inv1: "rb_invar rb1"
    and list: "rb_list rb1 = rb_list rb" and len1: "rb_len rb1 = rb_len rb"
    and room: "unat (rb_len rb1) < length (rb_buffer rb1)"
  from inv1 obtain k where k: "k < 32" "length (rb_buffer rb1) = 2 ^ k" "rb_mask rb1 = mask k"
    and def: "\<And>i. i < unat (rb_len rb1) \<Longrightarrow> rb_buffer rb1 ! slot rb1 (of_nat i) \<noteq> None" by (auto elim: rb_invarE)
  define rb2 where "rb2 = rb1\<lparr>rb_first := rb_first rb1 - 1\<rparr>"
  let ?rb = "rb2\<lparr>rb_buffer := (rb_buffer rb1)[slot rb2 0 := Some e], rb_len := rb_len rb1 + 1\<rparr>"
  note ps = push_slot [OF room inv1 rb2_def]
  have len: "unat (rb_len ?rb) = Suc (unat (rb_len rb1))"
    using small len1 by (simp add: unat_word_ariths)
  have slot: "slot ?rb j = slot rb2 j" for j by (simp add: slot_def)
  have at: "rb_buffer ?rb ! slot ?rb (of_nat i) = (if i = 0 then Some e else rb_buffer rb1 ! slot rb1 (of_nat (i - 1)))"
    if "i \<le> unat (rb_len rb1)" for i
    using that ps(1) ps(2) [of i] ps(3) [of "i - 1"] unfolding slot by (cases i) simp_all
  have "rb_buffer ?rb ! slot ?rb (of_nat i) \<noteq> None" if "i < unat (rb_len ?rb)" for i
    using that at [of i] def [of "i - 1"] len by (cases i) simp_all
  then have "rb_invar ?rb"
    unfolding rb_invar_def using k room len by (auto simp: rb2_def intro!: exI [of _ k])
  moreover have "rb_list ?rb = e # rb_list rb"
    unfolding list [symmetric]
    by (rule nth_equalityI) (use len at in \<open>auto simp: nth_rb_list less_Suc_eq_le nth_Cons' simp del: of_nat_Suc\<close>)
  moreover have "hd_ringbuf_push_front mem rb e = Inr (0, ?rb)"
    using r ps(1) by (simp add: hd_ringbuf_push_front_def rb2_def Let_def)
  ultimately show ?thesis by blast
qed

lemma hd_ringbuf_pop_back_ok:
  assumes "rb_invar rb" and "rb_list rb \<noteq> []"
  shows "rb_invar (hd_ringbuf_pop_back rb) \<and> rb_list (hd_ringbuf_pop_back rb) = butlast (rb_list rb)"
proof -
  have "rb_len rb \<noteq> 0" using assms(2) by (auto simp flip: length_0_conv)
  then have len: "unat (rb_len rb - 1) = unat (rb_len rb) - 1" by (simp add: unat_minus_one)
  have slot: "slot (hd_ringbuf_pop_back rb) j = slot rb j" for j
    by (simp add: slot_def hd_ringbuf_pop_back_def)
  from assms(1) have "rb_invar (hd_ringbuf_pop_back rb)"
    unfolding rb_invar_def slot by (auto simp: hd_ringbuf_pop_back_def len)
  moreover have "rb_list (hd_ringbuf_pop_back rb) = butlast (rb_list rb)"
    by (rule nth_equalityI) (simp_all add: nth_rb_list nth_butlast slot_def hd_ringbuf_pop_back_def len)
  ultimately show ?thesis ..
qed

lemma http2_ringbuf_ctor_ok:
  assumes "0 < unat bufsize" "unat bufsize \<le> 2 ^ 31" and "\<forall>n. mem n"
  shows "\<exists>rb. http2_ringbuf_ctor mem bufsize = Inr rb \<and> rb_invar rb \<and> rb_list rb = []"
proof -
  obtain k where "k < 32" "ring_size bufsize 1 = Some (2 ^ k)" by (rule ring_size_ok [OF assms(2)])
  with assms(1,3) show ?thesis
    by (auto simp: http2_ringbuf_ctor_def Let_def rb_invar_def rb_list_def two_power_minus_1 unat_2p)
qed

subsection \<open>The contract of a bounded deque\<close>

text \<open>What the header table relies on: a sequence that is read by position, grows at the front up to \<open>cap\<close>
  entries and shrinks at the back. Growing may fail, but only when memory is exhausted, and then changes
  nothing.\<close>

datatype 'a dq_op = PushFront 'a | PopBack

fun dq_run :: "((u32 \<Rightarrow> bool) \<Rightarrow> 's \<Rightarrow> 'a \<Rightarrow> (int \<times> 's) exec) \<Rightarrow> ('s \<Rightarrow> 's) \<Rightarrow> (u32 \<Rightarrow> bool) \<Rightarrow> 'a dq_op list \<Rightarrow> 's
    \<Rightarrow> (int \<times> 's) exec" where
  "dq_run push pop mem [] s = Inr (0, s)"
| "dq_run push pop mem (PushFront x # ops) s =
     bind_exec (push mem s x) (\<lambda>(rv, s). if rv \<noteq> 0 then Inr (rv, s) else dq_run push pop mem ops s)"
| "dq_run push pop mem (PopBack # ops) s = dq_run push pop mem ops (pop s)"

text \<open>The same operations on a list; \<open>None\<close> when an empty sequence is popped.\<close>

fun dq_run_spec :: "'a dq_op list \<Rightarrow> 'a list \<Rightarrow> 'a list option" where
  "dq_run_spec [] xs = Some xs"
| "dq_run_spec (PushFront x # ops) xs = dq_run_spec ops (x # xs)"
| "dq_run_spec (PopBack # ops) xs = (if xs = [] then None else dq_run_spec ops (butlast xs))"

locale deque =
  fixes invar :: "'s \<Rightarrow> bool" and contents :: "'s \<Rightarrow> 'a list" and cap :: nat
    and count :: "'s \<Rightarrow> u32" and get :: "'s \<Rightarrow> u32 \<Rightarrow> 'a exec"
    and push :: "(u32 \<Rightarrow> bool) \<Rightarrow> 's \<Rightarrow> 'a \<Rightarrow> (int \<times> 's) exec" and pop :: "'s \<Rightarrow> 's"
  assumes count: "invar s \<Longrightarrow> unat (count s) = length (contents s)"
    and get: "invar s \<Longrightarrow> i < length (contents s) \<Longrightarrow> get s (of_nat i) = Inr (contents s ! i)"
    and push: "invar s \<Longrightarrow> length (contents s) < cap \<Longrightarrow>
      (push mem s x = Inr (-1, s) \<and> (\<exists>n. \<not> mem n))
      \<or> (\<exists>s'. push mem s x = Inr (0, s') \<and> invar s' \<and> contents s' = x # contents s)"
    and pop: "invar s \<Longrightarrow> contents s \<noteq> [] \<Longrightarrow> invar (pop s) \<and> contents (pop s) = butlast (contents s)"
begin

lemma count_eq_0: "invar s \<Longrightarrow> count s = 0 \<longleftrightarrow> contents s = []"
  using count [of s] by (auto simp flip: unat_eq_0)

lemma get_last:
  assumes "invar s" and "contents s \<noteq> []"
  shows "get s (count s - 1) = Inr (last (contents s))"
proof -
  have pos: "count s \<noteq> 0" using assms by (simp add: count_eq_0)
  have "of_nat (length (contents s) - 1) = count s - 1"
    using pos count [OF assms(1), symmetric] by (simp add: word_unat_eq_iff unat_of_nat unat_minus_one take_bit_nat_eq_self less_imp_diff_less
        unat_bound [of "count s", simplified])
  with get [OF assms(1), of "length (contents s) - 1"] assms(2) show ?thesis
    by (simp add: last_conv_nth)
qed

lemma push_success:
  assumes "invar s" "length (contents s) < cap" "\<forall>n. mem n"
  obtains s' where "push mem s x = Inr (0, s')" "invar s'" "contents s' = x # contents s"
  using push [OF assms(1,2), of mem x] assms(3) by auto

lemma push_never_faults:
  "invar s \<Longrightarrow> length (contents s) < cap \<Longrightarrow> push mem s x \<noteq> Inl e"
  using push [of s mem x] by auto

text \<open>Every run of operations on the structure is the run on the sequence it stands for.\<close>

lemma run_refines:
  assumes "invar s" and "\<forall>n. mem n" and "length (contents s) + length ops \<le> cap"
    and "dq_run_spec ops (contents s) = Some xs"
  shows "\<exists>s'. dq_run push pop mem ops s = Inr (0, s') \<and> invar s' \<and> contents s' = xs"
  using assms(1,3,4)
proof (induction ops arbitrary: s)
  case Nil
  then show ?case by simp
next
  case (Cons a ops)
  show ?case
  proof (cases a)
    case (PushFront x)
    have "length (contents s) < cap" using Cons.prems by simp
    then obtain s' where "push mem s x = Inr (0, s')" "invar s'" "contents s' = x # contents s"
      using push_success [OF Cons.prems(1) _ assms(2)] by blast
    with Cons.IH [of s'] Cons.prems PushFront show ?thesis by simp
  next
    case PopBack
    with Cons.prems have "contents s \<noteq> []" by (auto split: if_splits)
    with Cons.IH [of "pop s"] Cons.prems PopBack pop [of s] show ?thesis by simp
  qed
qed

lemma count_pop: "invar s \<Longrightarrow> contents s \<noteq> [] \<Longrightarrow> unat (count (pop s)) = unat (count s) - 1"
  using pop [of s] count [of s] count [of "pop s"] by simp

end

interpretation ring: deque rb_invar rb_list "2 ^ 31" rb_len hd_ringbuf_get hd_ringbuf_push_front hd_ringbuf_pop_back
proof unfold_locales
  fix rb :: "'a http2_ringbuf" and mem e
  assume "rb_invar rb" and "length (rb_list rb) < 2 ^ 31"
  then show "hd_ringbuf_push_front mem rb e = Inr (-1, rb) \<and> (\<exists>n. \<not> mem n)
    \<or> (\<exists>rb'. hd_ringbuf_push_front mem rb e = Inr (0, rb') \<and> rb_invar rb' \<and> rb_list rb' = e # rb_list rb)"
    by (intro hd_ringbuf_push_front_ok) simp_all
qed (simp_all add: get_rb_list hd_ringbuf_pop_back_ok)

subsection \<open>Sizes that give no ring\<close>

text \<open>Every value of the doubled size is zero or a power of two, so that no value reaches a request above \<open>2 ^ 31\<close>.\<close>

definition pow2_or_zero :: "u32 \<Rightarrow> bool" where
  "pow2_or_zero sz \<longleftrightarrow> sz = 0 \<or> (\<exists>k < 32. sz = 2 ^ k)"

lemma pow2_or_zero_double: "pow2_or_zero sz \<Longrightarrow> pow2_or_zero (sz * 2)"
proof -
  assume "pow2_or_zero sz"
  then consider "sz = 0" | k where "k < 32" "sz = 2 ^ k" by (auto simp: pow2_or_zero_def)
  then show ?thesis
  proof cases
    case 2
    then have double: "sz * 2 = 2 ^ Suc k" by simp
    show ?thesis
    proof (cases "Suc k < 32")
      case True
      with double show ?thesis unfolding pow2_or_zero_def by blast
    next
      case False
      then have "(2 :: u32) ^ Suc k = 0" by (simp add: exp_eq_zero_iff del: power_Suc)
      with double show ?thesis by (simp add: pow2_or_zero_def)
    qed
  qed (simp add: pow2_or_zero_def)
qed

lemma pow2_or_zero_bound: "pow2_or_zero sz \<Longrightarrow> unat sz \<le> 2 ^ 31"
proof -
  assume "pow2_or_zero sz"
  moreover have "(2 :: nat) ^ k \<le> 2 ^ 31" if "k < 32" for k using that by (intro power_increasing) simp_all
  ultimately show ?thesis by (auto simp: pow2_or_zero_def unat_2p)
qed

lemma ring_size_result: "ring_size bufsize sz = Some r \<Longrightarrow> pow2_or_zero sz \<longrightarrow> pow2_or_zero r \<and> bufsize \<le> r"
  by (erule ring_size.raw_induct [rotated])
    (auto split: if_splits dest: pow2_or_zero_double)

lemma ring_size_diverges:
  assumes "2 ^ 31 < unat bufsize"
  shows "ring_size bufsize 1 = None"
proof (rule ccontr)
  assume "ring_size bufsize 1 \<noteq> None"
  then obtain r where "ring_size bufsize 1 = Some r" by blast
  moreover have "pow2_or_zero 1" by (auto simp: pow2_or_zero_def intro: exI [of _ 0])
  ultimately have "unat r \<le> 2 ^ 31" "unat bufsize \<le> unat r"
    using ring_size_result pow2_or_zero_bound by (auto simp: word_le_nat_alt)
  with assms show False by simp
qed

lemma http2_ringbuf_ctor_large: "2 ^ 31 < unat bufsize \<Longrightarrow> http2_ringbuf_ctor mem bufsize = Inl Undefined"
  using ring_size_diverges [of bufsize] unat_0 by (auto simp: http2_ringbuf_ctor_def Let_def)

lemma http2_ringbuf_ctor_zero:
  "\<exists>rb0. http2_ringbuf_ctor mem 0 = Inr rb0 \<and> (\<forall>e. hd_ringbuf_push_front mem rb0 e = Inl Undefined)"
  by (simp add: http2_ringbuf_ctor_def hd_ringbuf_push_front_def hd_ringbuf_reserve_def)

subsection \<open>Properties\<close>

text \<open>C5. The ring buffer implements a sequence, as far as its constructor gives one. Let memory be available and let a run of
  at most \<open>2 ^ 31\<close> operations never pop an empty ring. Starting from a ring of a requested size between 1 and \<open>2 ^ 31\<close>, the run
  of \<^verbatim>\<open>hd_ringbuf_push_front\<close> and \<^verbatim>\<open>hd_ringbuf_pop_back\<close>, however often it makes the ring grow or wrap around, succeeds, and afterwards
  \<^verbatim>\<open>hd_ringbuf_get\<close> returns at every position the element of the sequence that results from the same operations on a list.
  The other sizes give no sequence: with the size 0 the constructor leaves the buffer null and the first
  \<^verbatim>\<open>hd_ringbuf_push_front\<close> dereferences it, and with a size above \<open>2 ^ 31\<close> the doubling loop of the constructor never ends.\<close>

theorem ringbuf_refines_list:
  fixes ops :: "'a dq_op list"
  assumes "\<forall>n. mem n" and "length ops \<le> 2 ^ 31" and "dq_run_spec ops [] = Some xs"
  shows "(0 < unat bufsize \<and> unat bufsize \<le> 2 ^ 31 \<longrightarrow>
      (\<exists>rb0 rb. http2_ringbuf_ctor mem bufsize = Inr rb0
        \<and> dq_run hd_ringbuf_push_front hd_ringbuf_pop_back mem ops rb0 = Inr (0, rb)
        \<and> unat (rb_len rb) = length xs
        \<and> (\<forall>i < length xs. hd_ringbuf_get rb (of_nat i) = Inr (xs ! i))))
    \<and> (unat bufsize = 0 \<longrightarrow>
        (\<exists>rb0. http2_ringbuf_ctor mem bufsize = Inr rb0 \<and> (\<forall>e :: 'a. hd_ringbuf_push_front mem rb0 e = Inl Undefined)))
    \<and> (2 ^ 31 < unat bufsize \<longrightarrow> http2_ringbuf_ctor mem bufsize = (Inl Undefined :: 'a http2_ringbuf exec))"
proof (intro conjI impI)
  assume size: "0 < unat bufsize \<and> unat bufsize \<le> 2 ^ 31"
  from http2_ringbuf_ctor_ok [OF conjunct1 [OF size] conjunct2 [OF size] assms(1)] obtain rb0 :: "'a http2_ringbuf"
    where rb0: "http2_ringbuf_ctor mem bufsize = Inr rb0" "rb_invar rb0" "rb_list rb0 = []" by blast
  from ring.run_refines [OF rb0(2) assms(1), of ops xs] assms(2,3) rb0(3) obtain rb where
    rb: "dq_run hd_ringbuf_push_front hd_ringbuf_pop_back mem ops rb0 = Inr (0, rb)" "rb_invar rb" "rb_list rb = xs"
    by auto
  with rb0 show "\<exists>rb0 rb. http2_ringbuf_ctor mem bufsize = Inr rb0
        \<and> dq_run hd_ringbuf_push_front hd_ringbuf_pop_back mem ops rb0 = Inr (0, rb)
        \<and> unat (rb_len rb) = length xs
        \<and> (\<forall>i < length xs. hd_ringbuf_get rb (of_nat i) = Inr (xs ! i))"
    using ring.get [OF rb(2)] ring.count [OF rb(2)] by blast
next
  assume "unat bufsize = 0"
  then show "\<exists>rb0. http2_ringbuf_ctor mem bufsize = Inr rb0 \<and> (\<forall>e :: 'a. hd_ringbuf_push_front mem rb0 e = Inl Undefined)"
    by (simp add: http2_ringbuf_ctor_zero unat_eq_0)
next
  assume "2 ^ 31 < unat bufsize"
  then show "http2_ringbuf_ctor mem bufsize = (Inl Undefined :: 'a http2_ringbuf exec)"
    by (rule http2_ringbuf_ctor_large)
qed

theorem ringbuf_refines_list_witness:
  "(\<exists>rb0 rb. http2_ringbuf_ctor (\<lambda>n. True) 1 = Inr rb0
      \<and> dq_run hd_ringbuf_push_front hd_ringbuf_pop_back (\<lambda>n. True)
          [PushFront (1 :: nat), PushFront 2, PopBack, PushFront 3, PushFront 4] rb0 = Inr (0, rb)
      \<and> unat (rb_len rb) = 3
      \<and> hd_ringbuf_get rb (of_nat 0) = Inr 4 \<and> hd_ringbuf_get rb (of_nat 1) = Inr 3 \<and> hd_ringbuf_get rb (of_nat 2) = Inr 2)
    \<and> (\<exists>rb0. http2_ringbuf_ctor (\<lambda>n. True) 0 = Inr rb0 \<and> hd_ringbuf_push_front (\<lambda>n. True) rb0 (7 :: nat) = Inl Undefined)
    \<and> http2_ringbuf_ctor (\<lambda>n. True) 0x80000001 = (Inl Undefined :: nat http2_ringbuf exec)"
proof -
  let ?ops = "[PushFront (1 :: nat), PushFront 2, PopBack, PushFront 3, PushFront 4]"
  have run: "dq_run_spec ?ops [] = Some [4, 3, 2]" by simp
  obtain rb0 rb where "http2_ringbuf_ctor (\<lambda>n. True) 1 = Inr rb0"
    "dq_run hd_ringbuf_push_front hd_ringbuf_pop_back (\<lambda>n. True) ?ops rb0 = Inr (0, rb)" "unat (rb_len rb) = length [4, 3, 2 :: nat]"
    "\<forall>i < length [4, 3, 2 :: nat]. hd_ringbuf_get rb (of_nat i) = Inr ([4, 3, 2] ! i)"
    using conjunct1 [OF ringbuf_refines_list [OF _ _ run, of "\<lambda>n. True" 1]] by auto
  then have first: "\<exists>rb0 rb. http2_ringbuf_ctor (\<lambda>n. True) 1 = Inr rb0
      \<and> dq_run hd_ringbuf_push_front hd_ringbuf_pop_back (\<lambda>n. True) ?ops rb0 = Inr (0, rb) \<and> unat (rb_len rb) = 3
      \<and> hd_ringbuf_get rb (of_nat 0) = Inr 4 \<and> hd_ringbuf_get rb (of_nat 1) = Inr 3 \<and> hd_ringbuf_get rb (of_nat 2) = Inr 2"
    by (intro exI [of _ rb0] exI [of _ rb]) (auto simp: All_less_Suc numeral_2_eq_2 numeral_3_eq_3)
  have "\<exists>rb0. http2_ringbuf_ctor (\<lambda>n. True) 0 = Inr rb0 \<and> hd_ringbuf_push_front (\<lambda>n. True) rb0 (7 :: nat) = Inl Undefined"
    using ringbuf_refines_list [OF _ _ run, of "\<lambda>n. True" 0] by auto
  moreover have "http2_ringbuf_ctor (\<lambda>n. True) 0x80000001 = (Inl Undefined :: nat http2_ringbuf exec)"
    using ringbuf_refines_list [OF _ _ run, of "\<lambda>n. True" "0x80000001"] by simp
  ultimately show ?thesis using first by blast
qed

text \<open>When \<^verbatim>\<open>malloc\<close> fails, \<^verbatim>\<open>hd_ringbuf_push_front\<close> returns -1 and leaves the ring as it was; there is no
  other failure, and no undefined behaviour, while the ring holds fewer than \<open>2 ^ 31\<close> entries.\<close>

lemma ringbuf_push_failure:
  assumes "rb_invar rb" and "unat (rb_len rb) < 2 ^ 31"
  shows "(\<exists>rb'. hd_ringbuf_push_front mem rb e = Inr (0, rb') \<and> rb_invar rb' \<and> rb_list rb' = e # rb_list rb)
    \<or> hd_ringbuf_push_front mem rb e = Inr (-1, rb) \<and> (\<exists>n. \<not> mem n)"
  using ring.push [OF assms(1), of mem e] assms(2) by auto

end
