(* ===== verification/Header_Static.thy ===== *)
theory Header_Static
  imports Prelude
begin

text \<open>
  Header fields and the static part of HPACK's tables, from \<^verbatim>\<open>src/src/http/http2.cpp\<close> and
  \<^verbatim>\<open>src/include/common/http/http2.h\<close>: the structures \<^verbatim>\<open>http2_nv\<close> and \<^verbatim>\<open>http2_entry\<close>, the tokens, \<^verbatim>\<open>static_table\<close>,
  \<^verbatim>\<open>name_hash\<close> and the nested \<^verbatim>\<open>switch\<close> of \<^verbatim>\<open>lookup_token\<close> (one definition per length of the name). A pointer to
  an entry is an address, a position in the heap of entries.
\<close>

type_synonym addr = nat

record http2_nv =
  nv_name :: buffer
  nv_value :: buffer
  nv_flags :: u8

definition namelen :: "http2_nv \<Rightarrow> u32" where
  "namelen nv = of_nat (length (nv_name nv))"

definition valuelen :: "http2_nv \<Rightarrow> u32" where
  "valuelen nv = of_nat (length (nv_value nv))"

record http2_entry =
  ent_nv :: http2_nv
  ent_next :: "addr option"
  ent_seq :: u32
  ent_hash :: u32
  ent_token :: int

abbreviation (input) HTTP2_TOKEN__AUTHORITY :: int where "HTTP2_TOKEN__AUTHORITY \<equiv> 0"
abbreviation (input) HTTP2_TOKEN__METHOD :: int where "HTTP2_TOKEN__METHOD \<equiv> 1"
abbreviation (input) HTTP2_TOKEN__PATH :: int where "HTTP2_TOKEN__PATH \<equiv> 3"
abbreviation (input) HTTP2_TOKEN__SCHEME :: int where "HTTP2_TOKEN__SCHEME \<equiv> 5"
abbreviation (input) HTTP2_TOKEN__STATUS :: int where "HTTP2_TOKEN__STATUS \<equiv> 7"
abbreviation (input) HTTP2_TOKEN_ACCEPT_CHARSET :: int where "HTTP2_TOKEN_ACCEPT_CHARSET \<equiv> 14"
abbreviation (input) HTTP2_TOKEN_ACCEPT_ENCODING :: int where "HTTP2_TOKEN_ACCEPT_ENCODING \<equiv> 15"
abbreviation (input) HTTP2_TOKEN_ACCEPT_LANGUAGE :: int where "HTTP2_TOKEN_ACCEPT_LANGUAGE \<equiv> 16"
abbreviation (input) HTTP2_TOKEN_ACCEPT_RANGES :: int where "HTTP2_TOKEN_ACCEPT_RANGES \<equiv> 17"
abbreviation (input) HTTP2_TOKEN_ACCEPT :: int where "HTTP2_TOKEN_ACCEPT \<equiv> 18"
abbreviation (input) HTTP2_TOKEN_ACCESS_CONTROL_ALLOW_ORIGIN :: int where "HTTP2_TOKEN_ACCESS_CONTROL_ALLOW_ORIGIN \<equiv> 19"
abbreviation (input) HTTP2_TOKEN_AGE :: int where "HTTP2_TOKEN_AGE \<equiv> 20"
abbreviation (input) HTTP2_TOKEN_ALLOW :: int where "HTTP2_TOKEN_ALLOW \<equiv> 21"
abbreviation (input) HTTP2_TOKEN_AUTHORIZATION :: int where "HTTP2_TOKEN_AUTHORIZATION \<equiv> 22"
abbreviation (input) HTTP2_TOKEN_CACHE_CONTROL :: int where "HTTP2_TOKEN_CACHE_CONTROL \<equiv> 23"
abbreviation (input) HTTP2_TOKEN_CONTENT_DISPOSITION :: int where "HTTP2_TOKEN_CONTENT_DISPOSITION \<equiv> 24"
abbreviation (input) HTTP2_TOKEN_CONTENT_ENCODING :: int where "HTTP2_TOKEN_CONTENT_ENCODING \<equiv> 25"
abbreviation (input) HTTP2_TOKEN_CONTENT_LANGUAGE :: int where "HTTP2_TOKEN_CONTENT_LANGUAGE \<equiv> 26"
abbreviation (input) HTTP2_TOKEN_CONTENT_LENGTH :: int where "HTTP2_TOKEN_CONTENT_LENGTH \<equiv> 27"
abbreviation (input) HTTP2_TOKEN_CONTENT_LOCATION :: int where "HTTP2_TOKEN_CONTENT_LOCATION \<equiv> 28"
abbreviation (input) HTTP2_TOKEN_CONTENT_RANGE :: int where "HTTP2_TOKEN_CONTENT_RANGE \<equiv> 29"
abbreviation (input) HTTP2_TOKEN_CONTENT_TYPE :: int where "HTTP2_TOKEN_CONTENT_TYPE \<equiv> 30"
abbreviation (input) HTTP2_TOKEN_COOKIE :: int where "HTTP2_TOKEN_COOKIE \<equiv> 31"
abbreviation (input) HTTP2_TOKEN_DATE :: int where "HTTP2_TOKEN_DATE \<equiv> 32"
abbreviation (input) HTTP2_TOKEN_ETAG :: int where "HTTP2_TOKEN_ETAG \<equiv> 33"
abbreviation (input) HTTP2_TOKEN_EXPECT :: int where "HTTP2_TOKEN_EXPECT \<equiv> 34"
abbreviation (input) HTTP2_TOKEN_EXPIRES :: int where "HTTP2_TOKEN_EXPIRES \<equiv> 35"
abbreviation (input) HTTP2_TOKEN_FROM :: int where "HTTP2_TOKEN_FROM \<equiv> 36"
abbreviation (input) HTTP2_TOKEN_HOST :: int where "HTTP2_TOKEN_HOST \<equiv> 37"
abbreviation (input) HTTP2_TOKEN_IF_MATCH :: int where "HTTP2_TOKEN_IF_MATCH \<equiv> 38"
abbreviation (input) HTTP2_TOKEN_IF_MODIFIED_SINCE :: int where "HTTP2_TOKEN_IF_MODIFIED_SINCE \<equiv> 39"
abbreviation (input) HTTP2_TOKEN_IF_NONE_MATCH :: int where "HTTP2_TOKEN_IF_NONE_MATCH \<equiv> 40"
abbreviation (input) HTTP2_TOKEN_IF_RANGE :: int where "HTTP2_TOKEN_IF_RANGE \<equiv> 41"
abbreviation (input) HTTP2_TOKEN_IF_UNMODIFIED_SINCE :: int where "HTTP2_TOKEN_IF_UNMODIFIED_SINCE \<equiv> 42"
abbreviation (input) HTTP2_TOKEN_LAST_MODIFIED :: int where "HTTP2_TOKEN_LAST_MODIFIED \<equiv> 43"
abbreviation (input) HTTP2_TOKEN_LINK :: int where "HTTP2_TOKEN_LINK \<equiv> 44"
abbreviation (input) HTTP2_TOKEN_LOCATION :: int where "HTTP2_TOKEN_LOCATION \<equiv> 45"
abbreviation (input) HTTP2_TOKEN_MAX_FORWARDS :: int where "HTTP2_TOKEN_MAX_FORWARDS \<equiv> 46"
abbreviation (input) HTTP2_TOKEN_PROXY_AUTHENTICATE :: int where "HTTP2_TOKEN_PROXY_AUTHENTICATE \<equiv> 47"
abbreviation (input) HTTP2_TOKEN_PROXY_AUTHORIZATION :: int where "HTTP2_TOKEN_PROXY_AUTHORIZATION \<equiv> 48"
abbreviation (input) HTTP2_TOKEN_RANGE :: int where "HTTP2_TOKEN_RANGE \<equiv> 49"
abbreviation (input) HTTP2_TOKEN_REFERER :: int where "HTTP2_TOKEN_REFERER \<equiv> 50"
abbreviation (input) HTTP2_TOKEN_REFRESH :: int where "HTTP2_TOKEN_REFRESH \<equiv> 51"
abbreviation (input) HTTP2_TOKEN_RETRY_AFTER :: int where "HTTP2_TOKEN_RETRY_AFTER \<equiv> 52"
abbreviation (input) HTTP2_TOKEN_SERVER :: int where "HTTP2_TOKEN_SERVER \<equiv> 53"
abbreviation (input) HTTP2_TOKEN_SET_COOKIE :: int where "HTTP2_TOKEN_SET_COOKIE \<equiv> 54"
abbreviation (input) HTTP2_TOKEN_STRICT_TRANSPORT_SECURITY :: int where "HTTP2_TOKEN_STRICT_TRANSPORT_SECURITY \<equiv> 55"
abbreviation (input) HTTP2_TOKEN_TRANSFER_ENCODING :: int where "HTTP2_TOKEN_TRANSFER_ENCODING \<equiv> 56"
abbreviation (input) HTTP2_TOKEN_USER_AGENT :: int where "HTTP2_TOKEN_USER_AGENT \<equiv> 57"
abbreviation (input) HTTP2_TOKEN_VARY :: int where "HTTP2_TOKEN_VARY \<equiv> 58"
abbreviation (input) HTTP2_TOKEN_VIA :: int where "HTTP2_TOKEN_VIA \<equiv> 59"
abbreviation (input) HTTP2_TOKEN_WWW_AUTHENTICATE :: int where "HTTP2_TOKEN_WWW_AUTHENTICATE \<equiv> 60"
abbreviation (input) HTTP2_TOKEN_TE :: int where "HTTP2_TOKEN_TE \<equiv> 61"
abbreviation (input) HTTP2_TOKEN_CONNECTION :: int where "HTTP2_TOKEN_CONNECTION \<equiv> 62"
abbreviation (input) HTTP2_TOKEN_KEEP_ALIVE :: int where "HTTP2_TOKEN_KEEP_ALIVE \<equiv> 63"
abbreviation (input) HTTP2_TOKEN_PROXY_CONNECTION :: int where "HTTP2_TOKEN_PROXY_CONNECTION \<equiv> 64"
abbreviation (input) HTTP2_TOKEN_UPGRADE :: int where "HTTP2_TOKEN_UPGRADE \<equiv> 65"

definition MAKE_STATIC_ENT :: "string \<Rightarrow> string \<Rightarrow> int \<Rightarrow> u32 \<Rightarrow> http2_entry" where
  "MAKE_STATIC_ENT N V T H =
     \<lparr>ent_nv = \<lparr>nv_name = bytes N, nv_value = bytes V, nv_flags = 0\<rparr>, ent_next = None, ent_seq = 0,
      ent_hash = H, ent_token = T\<rparr>"

definition static_table :: "http2_entry list" where
  "static_table =
    [MAKE_STATIC_ENT '':authority'' '''' 0 3153725150,
     MAKE_STATIC_ENT '':method'' ''GET'' 1 695666056,
     MAKE_STATIC_ENT '':method'' ''POST'' 1 695666056,
     MAKE_STATIC_ENT '':path'' ''/'' 3 3292848686,
     MAKE_STATIC_ENT '':path'' ''/index.html'' 3 3292848686,
     MAKE_STATIC_ENT '':scheme'' ''http'' 5 2510477674,
     MAKE_STATIC_ENT '':scheme'' ''https'' 5 2510477674,
     MAKE_STATIC_ENT '':status'' ''200'' 7 4000288983,
     MAKE_STATIC_ENT '':status'' ''204'' 7 4000288983,
     MAKE_STATIC_ENT '':status'' ''206'' 7 4000288983,
     MAKE_STATIC_ENT '':status'' ''304'' 7 4000288983,
     MAKE_STATIC_ENT '':status'' ''400'' 7 4000288983,
     MAKE_STATIC_ENT '':status'' ''404'' 7 4000288983,
     MAKE_STATIC_ENT '':status'' ''500'' 7 4000288983,
     MAKE_STATIC_ENT ''accept-charset'' '''' 14 3664010344,
     MAKE_STATIC_ENT ''accept-encoding'' ''gzip, deflate'' 15 3379649177,
     MAKE_STATIC_ENT ''accept-language'' '''' 16 1979086614,
     MAKE_STATIC_ENT ''accept-ranges'' '''' 17 1713753958,
     MAKE_STATIC_ENT ''accept'' '''' 18 136609321,
     MAKE_STATIC_ENT ''access-control-allow-origin'' '''' 19 2710797292,
     MAKE_STATIC_ENT ''age'' '''' 20 742476188,
     MAKE_STATIC_ENT ''allow'' '''' 21 2930878514,
     MAKE_STATIC_ENT ''authorization'' '''' 22 2436257726,
     MAKE_STATIC_ENT ''cache-control'' '''' 23 1355326669,
     MAKE_STATIC_ENT ''content-disposition'' '''' 24 3889184348,
     MAKE_STATIC_ENT ''content-encoding'' '''' 25 65203592,
     MAKE_STATIC_ENT ''content-language'' '''' 26 24973587,
     MAKE_STATIC_ENT ''content-length'' '''' 27 1308181789,
     MAKE_STATIC_ENT ''content-location'' '''' 28 2302364718,
     MAKE_STATIC_ENT ''content-range'' '''' 29 3555523146,
     MAKE_STATIC_ENT ''content-type'' '''' 30 4244048277,
     MAKE_STATIC_ENT ''cookie'' '''' 31 2007449791,
     MAKE_STATIC_ENT ''date'' '''' 32 3564297305,
     MAKE_STATIC_ENT ''etag'' '''' 33 113792960,
     MAKE_STATIC_ENT ''expect'' '''' 34 2530896728,
     MAKE_STATIC_ENT ''expires'' '''' 35 1049544579,
     MAKE_STATIC_ENT ''from'' '''' 36 2513272949,
     MAKE_STATIC_ENT ''host'' '''' 37 2952701295,
     MAKE_STATIC_ENT ''if-match'' '''' 38 3597694698,
     MAKE_STATIC_ENT ''if-modified-since'' '''' 39 2213050793,
     MAKE_STATIC_ENT ''if-none-match'' '''' 40 2536202615,
     MAKE_STATIC_ENT ''if-range'' '''' 41 2340978238,
     MAKE_STATIC_ENT ''if-unmodified-since'' '''' 42 3794814858,
     MAKE_STATIC_ENT ''last-modified'' '''' 43 3226950251,
     MAKE_STATIC_ENT ''link'' '''' 44 232457833,
     MAKE_STATIC_ENT ''location'' '''' 45 200649126,
     MAKE_STATIC_ENT ''max-forwards'' '''' 46 1826162134,
     MAKE_STATIC_ENT ''proxy-authenticate'' '''' 47 2709445359,
     MAKE_STATIC_ENT ''proxy-authorization'' '''' 48 2686392507,
     MAKE_STATIC_ENT ''range'' '''' 49 4208725202,
     MAKE_STATIC_ENT ''referer'' '''' 50 3969579366,
     MAKE_STATIC_ENT ''refresh'' '''' 51 3572655668,
     MAKE_STATIC_ENT ''retry-after'' '''' 52 3336180598,
     MAKE_STATIC_ENT ''server'' '''' 53 1085029842,
     MAKE_STATIC_ENT ''set-cookie'' '''' 54 1848371000,
     MAKE_STATIC_ENT ''strict-transport-security'' '''' 55 4138147361,
     MAKE_STATIC_ENT ''transfer-encoding'' '''' 56 3719590988,
     MAKE_STATIC_ENT ''user-agent'' '''' 57 606444526,
     MAKE_STATIC_ENT ''vary'' '''' 58 1085005381,
     MAKE_STATIC_ENT ''via'' '''' 59 1762798611,
     MAKE_STATIC_ENT ''www-authenticate'' '''' 60 779865858]"

abbreviation HTTP2_STATIC_TABLE_LENGTH :: u32 where "HTTP2_STATIC_TABLE_LENGTH \<equiv> 61"

definition name_eq :: "http2_nv \<Rightarrow> http2_nv \<Rightarrow> bool" where
  "name_eq a b \<longleftrightarrow> nv_name a = nv_name b"

definition value_eq :: "http2_nv \<Rightarrow> http2_nv \<Rightarrow> bool" where
  "value_eq a b \<longleftrightarrow> nv_value a = nv_value b"

fun name_hash_loop :: "u32 \<Rightarrow> buffer \<Rightarrow> u32" where
  "name_hash_loop h [] = h"
| "name_hash_loop h (c # cs) =
     (let h = h XOR ucast c
      in name_hash_loop (h + (push_bit 1 h + push_bit 4 h + push_bit 7 h + push_bit 8 h + push_bit 24 h)) cs)"

definition name_hash :: "http2_nv \<Rightarrow> u32" where
  "name_hash nv = name_hash_loop 2166136261 (nv_name nv)"

definition lstreq :: "string \<Rightarrow> buffer \<Rightarrow> nat \<Rightarrow> bool" where
  "lstreq A B N \<longleftrightarrow> length A = N \<and> take N B = bytes A"

definition lookup_token_2 :: "buffer \<Rightarrow> int" where
  "lookup_token_2 name =
     (if name ! 1 = of_char (CHR ''e'') then (if lstreq ''t'' name 1 then HTTP2_TOKEN_TE else -1)
      else -1)"

definition lookup_token_3 :: "buffer \<Rightarrow> int" where
  "lookup_token_3 name =
     (if name ! 2 = of_char (CHR ''a'') then (if lstreq ''vi'' name 2 then HTTP2_TOKEN_VIA else -1)
      else if name ! 2 = of_char (CHR ''e'') then (if lstreq ''ag'' name 2 then HTTP2_TOKEN_AGE else -1)
      else -1)"

definition lookup_token_4 :: "buffer \<Rightarrow> int" where
  "lookup_token_4 name =
     (if name ! 3 = of_char (CHR ''e'') then (if lstreq ''dat'' name 3 then HTTP2_TOKEN_DATE else -1)
      else if name ! 3 = of_char (CHR ''g'') then (if lstreq ''eta'' name 3 then HTTP2_TOKEN_ETAG else -1)
      else if name ! 3 = of_char (CHR ''k'') then (if lstreq ''lin'' name 3 then HTTP2_TOKEN_LINK else -1)
      else if name ! 3 = of_char (CHR ''m'') then (if lstreq ''fro'' name 3 then HTTP2_TOKEN_FROM else -1)
      else if name ! 3 = of_char (CHR ''t'') then (if lstreq ''hos'' name 3 then HTTP2_TOKEN_HOST else -1)
      else if name ! 3 = of_char (CHR ''y'') then (if lstreq ''var'' name 3 then HTTP2_TOKEN_VARY else -1)
      else -1)"

definition lookup_token_5 :: "buffer \<Rightarrow> int" where
  "lookup_token_5 name =
     (if name ! 4 = of_char (CHR ''e'') then (if lstreq ''rang'' name 4 then HTTP2_TOKEN_RANGE else -1)
      else if name ! 4 = of_char (CHR ''h'') then (if lstreq '':pat'' name 4 then HTTP2_TOKEN__PATH else if lstreq '':pat'' name 4 then HTTP2_TOKEN__PATH else -1)
      else if name ! 4 = of_char (CHR ''w'') then (if lstreq ''allo'' name 4 then HTTP2_TOKEN_ALLOW else -1)
      else -1)"

definition lookup_token_6 :: "buffer \<Rightarrow> int" where
  "lookup_token_6 name =
     (if name ! 5 = of_char (CHR ''e'') then (if lstreq ''cooki'' name 5 then HTTP2_TOKEN_COOKIE else -1)
      else if name ! 5 = of_char (CHR ''r'') then (if lstreq ''serve'' name 5 then HTTP2_TOKEN_SERVER else -1)
      else if name ! 5 = of_char (CHR ''t'') then (if lstreq ''accep'' name 5 then HTTP2_TOKEN_ACCEPT else if lstreq ''expec'' name 5 then HTTP2_TOKEN_EXPECT else -1)
      else -1)"

definition lookup_token_7 :: "buffer \<Rightarrow> int" where
  "lookup_token_7 name =
     (if name ! 6 = of_char (CHR ''d'') then (if lstreq '':metho'' name 6 then HTTP2_TOKEN__METHOD else if lstreq '':metho'' name 6 then HTTP2_TOKEN__METHOD else -1)
      else if name ! 6 = of_char (CHR ''e'') then (if lstreq '':schem'' name 6 then HTTP2_TOKEN__SCHEME else if lstreq '':schem'' name 6 then HTTP2_TOKEN__SCHEME else if lstreq ''upgrad'' name 6 then HTTP2_TOKEN_UPGRADE else -1)
      else if name ! 6 = of_char (CHR ''h'') then (if lstreq ''refres'' name 6 then HTTP2_TOKEN_REFRESH else -1)
      else if name ! 6 = of_char (CHR ''r'') then (if lstreq ''refere'' name 6 then HTTP2_TOKEN_REFERER else -1)
      else if name ! 6 = of_char (CHR ''s'') then (if lstreq '':statu'' name 6 then HTTP2_TOKEN__STATUS else if lstreq '':statu'' name 6 then HTTP2_TOKEN__STATUS else if lstreq '':statu'' name 6 then HTTP2_TOKEN__STATUS else if lstreq '':statu'' name 6 then HTTP2_TOKEN__STATUS else if lstreq '':statu'' name 6 then HTTP2_TOKEN__STATUS else if lstreq '':statu'' name 6 then HTTP2_TOKEN__STATUS else if lstreq '':statu'' name 6 then HTTP2_TOKEN__STATUS else if lstreq ''expire'' name 6 then HTTP2_TOKEN_EXPIRES else -1)
      else -1)"

definition lookup_token_8 :: "buffer \<Rightarrow> int" where
  "lookup_token_8 name =
     (if name ! 7 = of_char (CHR ''e'') then (if lstreq ''if-rang'' name 7 then HTTP2_TOKEN_IF_RANGE else -1)
      else if name ! 7 = of_char (CHR ''h'') then (if lstreq ''if-matc'' name 7 then HTTP2_TOKEN_IF_MATCH else -1)
      else if name ! 7 = of_char (CHR ''n'') then (if lstreq ''locatio'' name 7 then HTTP2_TOKEN_LOCATION else -1)
      else -1)"

definition lookup_token_10 :: "buffer \<Rightarrow> int" where
  "lookup_token_10 name =
     (if name ! 9 = of_char (CHR ''e'') then (if lstreq ''keep-aliv'' name 9 then HTTP2_TOKEN_KEEP_ALIVE else if lstreq ''set-cooki'' name 9 then HTTP2_TOKEN_SET_COOKIE else -1)
      else if name ! 9 = of_char (CHR ''n'') then (if lstreq ''connectio'' name 9 then HTTP2_TOKEN_CONNECTION else -1)
      else if name ! 9 = of_char (CHR ''t'') then (if lstreq ''user-agen'' name 9 then HTTP2_TOKEN_USER_AGENT else -1)
      else if name ! 9 = of_char (CHR ''y'') then (if lstreq '':authorit'' name 9 then HTTP2_TOKEN__AUTHORITY else -1)
      else -1)"

definition lookup_token_11 :: "buffer \<Rightarrow> int" where
  "lookup_token_11 name =
     (if name ! 10 = of_char (CHR ''r'') then (if lstreq ''retry-afte'' name 10 then HTTP2_TOKEN_RETRY_AFTER else -1)
      else -1)"

definition lookup_token_12 :: "buffer \<Rightarrow> int" where
  "lookup_token_12 name =
     (if name ! 11 = of_char (CHR ''e'') then (if lstreq ''content-typ'' name 11 then HTTP2_TOKEN_CONTENT_TYPE else -1)
      else if name ! 11 = of_char (CHR ''s'') then (if lstreq ''max-forward'' name 11 then HTTP2_TOKEN_MAX_FORWARDS else -1)
      else -1)"

definition lookup_token_13 :: "buffer \<Rightarrow> int" where
  "lookup_token_13 name =
     (if name ! 12 = of_char (CHR ''d'') then (if lstreq ''last-modifie'' name 12 then HTTP2_TOKEN_LAST_MODIFIED else -1)
      else if name ! 12 = of_char (CHR ''e'') then (if lstreq ''content-rang'' name 12 then HTTP2_TOKEN_CONTENT_RANGE else -1)
      else if name ! 12 = of_char (CHR ''h'') then (if lstreq ''if-none-matc'' name 12 then HTTP2_TOKEN_IF_NONE_MATCH else -1)
      else if name ! 12 = of_char (CHR ''l'') then (if lstreq ''cache-contro'' name 12 then HTTP2_TOKEN_CACHE_CONTROL else -1)
      else if name ! 12 = of_char (CHR ''n'') then (if lstreq ''authorizatio'' name 12 then HTTP2_TOKEN_AUTHORIZATION else -1)
      else if name ! 12 = of_char (CHR ''s'') then (if lstreq ''accept-range'' name 12 then HTTP2_TOKEN_ACCEPT_RANGES else -1)
      else -1)"

definition lookup_token_14 :: "buffer \<Rightarrow> int" where
  "lookup_token_14 name =
     (if name ! 13 = of_char (CHR ''h'') then (if lstreq ''content-lengt'' name 13 then HTTP2_TOKEN_CONTENT_LENGTH else -1)
      else if name ! 13 = of_char (CHR ''t'') then (if lstreq ''accept-charse'' name 13 then HTTP2_TOKEN_ACCEPT_CHARSET else -1)
      else -1)"

definition lookup_token_15 :: "buffer \<Rightarrow> int" where
  "lookup_token_15 name =
     (if name ! 14 = of_char (CHR ''e'') then (if lstreq ''accept-languag'' name 14 then HTTP2_TOKEN_ACCEPT_LANGUAGE else -1)
      else if name ! 14 = of_char (CHR ''g'') then (if lstreq ''accept-encodin'' name 14 then HTTP2_TOKEN_ACCEPT_ENCODING else -1)
      else -1)"

definition lookup_token_16 :: "buffer \<Rightarrow> int" where
  "lookup_token_16 name =
     (if name ! 15 = of_char (CHR ''e'') then (if lstreq ''content-languag'' name 15 then HTTP2_TOKEN_CONTENT_LANGUAGE else if lstreq ''www-authenticat'' name 15 then HTTP2_TOKEN_WWW_AUTHENTICATE else -1)
      else if name ! 15 = of_char (CHR ''g'') then (if lstreq ''content-encodin'' name 15 then HTTP2_TOKEN_CONTENT_ENCODING else -1)
      else if name ! 15 = of_char (CHR ''n'') then (if lstreq ''content-locatio'' name 15 then HTTP2_TOKEN_CONTENT_LOCATION else if lstreq ''proxy-connectio'' name 15 then HTTP2_TOKEN_PROXY_CONNECTION else -1)
      else -1)"

definition lookup_token_17 :: "buffer \<Rightarrow> int" where
  "lookup_token_17 name =
     (if name ! 16 = of_char (CHR ''e'') then (if lstreq ''if-modified-sinc'' name 16 then HTTP2_TOKEN_IF_MODIFIED_SINCE else -1)
      else if name ! 16 = of_char (CHR ''g'') then (if lstreq ''transfer-encodin'' name 16 then HTTP2_TOKEN_TRANSFER_ENCODING else -1)
      else -1)"

definition lookup_token_18 :: "buffer \<Rightarrow> int" where
  "lookup_token_18 name =
     (if name ! 17 = of_char (CHR ''e'') then (if lstreq ''proxy-authenticat'' name 17 then HTTP2_TOKEN_PROXY_AUTHENTICATE else -1)
      else -1)"

definition lookup_token_19 :: "buffer \<Rightarrow> int" where
  "lookup_token_19 name =
     (if name ! 18 = of_char (CHR ''e'') then (if lstreq ''if-unmodified-sinc'' name 18 then HTTP2_TOKEN_IF_UNMODIFIED_SINCE else -1)
      else if name ! 18 = of_char (CHR ''n'') then (if lstreq ''content-dispositio'' name 18 then HTTP2_TOKEN_CONTENT_DISPOSITION else if lstreq ''proxy-authorizatio'' name 18 then HTTP2_TOKEN_PROXY_AUTHORIZATION else -1)
      else -1)"

definition lookup_token_25 :: "buffer \<Rightarrow> int" where
  "lookup_token_25 name =
     (if name ! 24 = of_char (CHR ''y'') then (if lstreq ''strict-transport-securit'' name 24 then HTTP2_TOKEN_STRICT_TRANSPORT_SECURITY else -1)
      else -1)"

definition lookup_token_27 :: "buffer \<Rightarrow> int" where
  "lookup_token_27 name =
     (if name ! 26 = of_char (CHR ''n'') then (if lstreq ''access-control-allow-origi'' name 26 then HTTP2_TOKEN_ACCESS_CONTROL_ALLOW_ORIGIN else -1)
      else -1)"

definition lookup_token :: "buffer \<Rightarrow> u32 \<Rightarrow> int" where
  "lookup_token name len =
     (if len = 2 then lookup_token_2 name
      else if len = 3 then lookup_token_3 name
      else if len = 4 then lookup_token_4 name
      else if len = 5 then lookup_token_5 name
      else if len = 6 then lookup_token_6 name
      else if len = 7 then lookup_token_7 name
      else if len = 8 then lookup_token_8 name
      else if len = 10 then lookup_token_10 name
      else if len = 11 then lookup_token_11 name
      else if len = 12 then lookup_token_12 name
      else if len = 13 then lookup_token_13 name
      else if len = 14 then lookup_token_14 name
      else if len = 15 then lookup_token_15 name
      else if len = 16 then lookup_token_16 name
      else if len = 17 then lookup_token_17 name
      else if len = 18 then lookup_token_18 name
      else if len = 19 then lookup_token_19 name
      else if len = 25 then lookup_token_25 name
      else if len = 27 then lookup_token_27 name
      else -1)"

subsection \<open>The hash function\<close>

lemma name_hash_step:
  fixes h :: u32
  shows "h + (push_bit 1 h + push_bit 4 h + push_bit 7 h + push_bit 8 h + push_bit 24 h) = h * 16777619"
  by (simp add: push_bit_eq_mult algebra_simps)

lemma name_hash_loop_Cons: "name_hash_loop h (c # cs) = name_hash_loop ((h XOR ucast c) * 16777619) cs"
  by (simp only: name_hash_loop.simps Let_def name_hash_step)

text \<open>The 32-bit FNV-1a hash as it is usually stated: exclusive or, then multiplication by the FNV prime.\<close>

definition fnv1a :: "buffer \<Rightarrow> u32" where
  "fnv1a cs = foldl (\<lambda>h c. (h XOR ucast c) * 16777619) 2166136261 cs"

lemma name_hash_fnv1a: "name_hash nv = fnv1a (nv_name nv)"
proof -
  have "name_hash_loop h cs = foldl (\<lambda>h c. (h XOR ucast c) * 16777619) h cs" for h cs
    by (induction cs arbitrary: h) (simp_all only: name_hash_loop.simps(1) name_hash_loop_Cons foldl.simps)
  then show ?thesis by (simp add: name_hash_def fnv1a_def)
qed

lemma static_hashes: "list_all (\<lambda>e. name_hash (ent_nv e) = ent_hash e) static_table"
  by (simp add: static_table_def MAKE_STATIC_ENT_def name_hash_def name_hash_loop_Cons del: name_hash_loop.simps(2))

subsection \<open>Names with a token\<close>

definition extra_tokens :: "(string \<times> int) list" where
  "extra_tokens =
     [(''te'', HTTP2_TOKEN_TE), (''connection'', HTTP2_TOKEN_CONNECTION), (''keep-alive'', HTTP2_TOKEN_KEEP_ALIVE),
      (''proxy-connection'', HTTP2_TOKEN_PROXY_CONNECTION), (''upgrade'', HTTP2_TOKEN_UPGRADE)]"

definition known_tokens :: "(buffer \<times> int) list" where
  "known_tokens = map (\<lambda>e. (nv_name (ent_nv e), ent_token e)) static_table @ map (\<lambda>(n, t). (bytes n, t)) extra_tokens"

lemma of_char_u8_inj: "of_char c = (of_char d :: u8) \<longleftrightarrow> c = d"
proof
  have unat: "unat (of_char x :: u8) = of_char x" for x
    using unat_of_nat [where 'a = 8, of "of_char x"] by (simp add: of_nat_of_char take_bit_eq_mod)
  assume "of_char c = (of_char d :: u8)"
  then have "(of_char c :: nat) = of_char d" by (metis unat)
  then show "c = d" by simp
qed simp

lemma bytes_eq_iff: "bytes s = bytes t \<longleftrightarrow> s = t"
  unfolding bytes_def by (rule inj_map_eq_map) (rule injI, simp only: of_char_u8_inj)

definition known_names :: "(string \<times> int) list" where
  "known_names = [('':authority'', 0),
     ('':method'', 1),
     ('':method'', 1),
     ('':path'', 3),
     ('':path'', 3),
     ('':scheme'', 5),
     ('':scheme'', 5),
     ('':status'', 7),
     ('':status'', 7),
     ('':status'', 7),
     ('':status'', 7),
     ('':status'', 7),
     ('':status'', 7),
     ('':status'', 7),
     (''accept-charset'', 14),
     (''accept-encoding'', 15),
     (''accept-language'', 16),
     (''accept-ranges'', 17),
     (''accept'', 18),
     (''access-control-allow-origin'', 19),
     (''age'', 20),
     (''allow'', 21),
     (''authorization'', 22),
     (''cache-control'', 23),
     (''content-disposition'', 24),
     (''content-encoding'', 25),
     (''content-language'', 26),
     (''content-length'', 27),
     (''content-location'', 28),
     (''content-range'', 29),
     (''content-type'', 30),
     (''cookie'', 31),
     (''date'', 32),
     (''etag'', 33),
     (''expect'', 34),
     (''expires'', 35),
     (''from'', 36),
     (''host'', 37),
     (''if-match'', 38),
     (''if-modified-since'', 39),
     (''if-none-match'', 40),
     (''if-range'', 41),
     (''if-unmodified-since'', 42),
     (''last-modified'', 43),
     (''link'', 44),
     (''location'', 45),
     (''max-forwards'', 46),
     (''proxy-authenticate'', 47),
     (''proxy-authorization'', 48),
     (''range'', 49),
     (''referer'', 50),
     (''refresh'', 51),
     (''retry-after'', 52),
     (''server'', 53),
     (''set-cookie'', 54),
     (''strict-transport-security'', 55),
     (''transfer-encoding'', 56),
     (''user-agent'', 57),
     (''vary'', 58),
     (''via'', 59),
     (''www-authenticate'', 60),
     (''te'', 61),
     (''connection'', 62),
     (''keep-alive'', 63),
     (''proxy-connection'', 64),
     (''upgrade'', 65)]"

lemma known_tokens_names: "known_tokens = map (\<lambda>(n, t). (bytes n, t)) known_names"
  by (simp add: known_tokens_def known_names_def static_table_def extra_tokens_def MAKE_STATIC_ENT_def)

lemma known_tokens_mem: "(bytes n, t) \<in> set known_tokens \<longleftrightarrow> (n, t) \<in> set known_names"
  by (auto simp: known_tokens_names bytes_eq_iff)

lemma lstreq_last:
  assumes "lstreq A name N" "name ! N = of_char c" "length name = Suc N"
  shows "name = bytes (A @ [c])"
proof -
  have "name = take N name @ [name ! N]" using assms(3) by (metis lessI take_Suc_conv_app_nth take_all_iff order_refl)
  with assms show ?thesis by (simp add: lstreq_def bytes_def)
qed

definition known :: "buffer \<Rightarrow> int \<Rightarrow> bool" where
  "known name t \<longleftrightarrow> t = -1 \<or> (name, t) \<in> set known_tokens"

lemma known_none: "known name (-1)"
  by (simp add: known_def)

lemma known_branch: "(b \<Longrightarrow> known name s) \<Longrightarrow> (\<not> b \<Longrightarrow> known name t) \<Longrightarrow> known name (if b then s else t)"
  by simp

lemma known_leaf:
  assumes "length name = Suc N" and "name ! N = of_char c" and "lstreq A name N"
    and "(A @ [c], t) \<in> set known_names"
  shows "known name t"
  using lstreq_last [OF assms(3,2,1)] assms(4) by (simp only: known_def known_tokens_mem simp_thms)

lemma lookup_token_2_known: "length name = 2 \<Longrightarrow> known name (lookup_token_2 name)"
  unfolding lookup_token_2_def
  by (intro known_branch known_none; rule known_leaf [of name 1]; (assumption | simp add: known_names_def))

lemma lookup_token_3_known: "length name = 3 \<Longrightarrow> known name (lookup_token_3 name)"
  unfolding lookup_token_3_def
  by (intro known_branch known_none; rule known_leaf [of name 2]; (assumption | simp add: known_names_def))

lemma lookup_token_4_known: "length name = 4 \<Longrightarrow> known name (lookup_token_4 name)"
  unfolding lookup_token_4_def
  by (intro known_branch known_none; rule known_leaf [of name 3]; (assumption | simp add: known_names_def))

lemma lookup_token_5_known: "length name = 5 \<Longrightarrow> known name (lookup_token_5 name)"
  unfolding lookup_token_5_def
  by (intro known_branch known_none; rule known_leaf [of name 4]; (assumption | simp add: known_names_def))

lemma lookup_token_6_known: "length name = 6 \<Longrightarrow> known name (lookup_token_6 name)"
  unfolding lookup_token_6_def
  by (intro known_branch known_none; rule known_leaf [of name 5]; (assumption | simp add: known_names_def))

lemma lookup_token_7_known: "length name = 7 \<Longrightarrow> known name (lookup_token_7 name)"
  unfolding lookup_token_7_def
  by (intro known_branch known_none; rule known_leaf [of name 6]; (assumption | simp add: known_names_def))

lemma lookup_token_8_known: "length name = 8 \<Longrightarrow> known name (lookup_token_8 name)"
  unfolding lookup_token_8_def
  by (intro known_branch known_none; rule known_leaf [of name 7]; (assumption | simp add: known_names_def))

lemma lookup_token_10_known: "length name = 10 \<Longrightarrow> known name (lookup_token_10 name)"
  unfolding lookup_token_10_def
  by (intro known_branch known_none; rule known_leaf [of name 9]; (assumption | simp add: known_names_def))

lemma lookup_token_11_known: "length name = 11 \<Longrightarrow> known name (lookup_token_11 name)"
  unfolding lookup_token_11_def
  by (intro known_branch known_none; rule known_leaf [of name 10]; (assumption | simp add: known_names_def))

lemma lookup_token_12_known: "length name = 12 \<Longrightarrow> known name (lookup_token_12 name)"
  unfolding lookup_token_12_def
  by (intro known_branch known_none; rule known_leaf [of name 11]; (assumption | simp add: known_names_def))

lemma lookup_token_13_known: "length name = 13 \<Longrightarrow> known name (lookup_token_13 name)"
  unfolding lookup_token_13_def
  by (intro known_branch known_none; rule known_leaf [of name 12]; (assumption | simp add: known_names_def))

lemma lookup_token_14_known: "length name = 14 \<Longrightarrow> known name (lookup_token_14 name)"
  unfolding lookup_token_14_def
  by (intro known_branch known_none; rule known_leaf [of name 13]; (assumption | simp add: known_names_def))

lemma lookup_token_15_known: "length name = 15 \<Longrightarrow> known name (lookup_token_15 name)"
  unfolding lookup_token_15_def
  by (intro known_branch known_none; rule known_leaf [of name 14]; (assumption | simp add: known_names_def))

lemma lookup_token_16_known: "length name = 16 \<Longrightarrow> known name (lookup_token_16 name)"
  unfolding lookup_token_16_def
  by (intro known_branch known_none; rule known_leaf [of name 15]; (assumption | simp add: known_names_def))

lemma lookup_token_17_known: "length name = 17 \<Longrightarrow> known name (lookup_token_17 name)"
  unfolding lookup_token_17_def
  by (intro known_branch known_none; rule known_leaf [of name 16]; (assumption | simp add: known_names_def))

lemma lookup_token_18_known: "length name = 18 \<Longrightarrow> known name (lookup_token_18 name)"
  unfolding lookup_token_18_def
  by (intro known_branch known_none; rule known_leaf [of name 17]; (assumption | simp add: known_names_def))

lemma lookup_token_19_known: "length name = 19 \<Longrightarrow> known name (lookup_token_19 name)"
  unfolding lookup_token_19_def
  by (intro known_branch known_none; rule known_leaf [of name 18]; (assumption | simp add: known_names_def))

lemma lookup_token_25_known: "length name = 25 \<Longrightarrow> known name (lookup_token_25 name)"
  unfolding lookup_token_25_def
  by (intro known_branch known_none; rule known_leaf [of name 24]; (assumption | simp add: known_names_def))

lemma lookup_token_27_known: "length name = 27 \<Longrightarrow> known name (lookup_token_27 name)"
  unfolding lookup_token_27_def
  by (intro known_branch known_none; rule known_leaf [of name 26]; (assumption | simp add: known_names_def))

lemmas lookup_token_cases_known =
  lookup_token_2_known
  lookup_token_3_known
  lookup_token_4_known
  lookup_token_5_known
  lookup_token_6_known
  lookup_token_7_known
  lookup_token_8_known
  lookup_token_10_known
  lookup_token_11_known
  lookup_token_12_known
  lookup_token_13_known
  lookup_token_14_known
  lookup_token_15_known
  lookup_token_16_known
  lookup_token_17_known
  lookup_token_18_known
  lookup_token_19_known
  lookup_token_25_known
  lookup_token_27_known

lemma lookup_token_known:
  assumes "length name < 2 ^ 32"
  shows "known name (lookup_token name (of_nat (length name)))"
proof -
  have len: "(of_nat (length name) :: u32) = of_nat n \<longleftrightarrow> length name = n" if "n < 2 ^ 32" for n
    using that assms by (simp add: word_of_nat_eq_iff take_bit_nat_eq_self)
  show ?thesis
    unfolding lookup_token_def by (intro known_branch known_none lookup_token_cases_known; simp add: len [of "numeral _", simplified])
qed

lemma known_tokens_found: "list_all (\<lambda>(n, t). lookup_token n (of_nat (length n)) = t \<and> t \<noteq> -1) known_tokens"
  by code_simp

lemma length_static_table: "length static_table = 61"
  by (simp add: static_table_def)

lemma known_names_first:
  "list_all (\<lambda>i. 0 \<le> snd (known_names ! i) \<and> nat (snd (known_names ! i)) \<le> i
     \<and> fst (known_names ! nat (snd (known_names ! i))) = fst (known_names ! i)) [0..<61]"
  by (simp add: known_names_def upt_rec)

lemma static_nth_names:
  assumes "i < 61"
  shows "nv_name (ent_nv (static_table ! i)) = bytes (fst (known_names ! i))"
    and "ent_token (static_table ! i) = snd (known_names ! i)"
proof -
  have len: "length known_names = 66" by (simp add: known_names_def)
  have "(nv_name (ent_nv (static_table ! i)), ent_token (static_table ! i)) = known_tokens ! i"
    using assms by (simp add: known_tokens_def nth_append length_static_table)
  also have "\<dots> = (bytes (fst (known_names ! i)), snd (known_names ! i))"
    using assms len by (simp add: known_tokens_names case_prod_beta)
  finally show "nv_name (ent_nv (static_table ! i)) = bytes (fst (known_names ! i))"
    and "ent_token (static_table ! i) = snd (known_names ! i)" by simp_all
qed

lemma static_token_first:
  assumes "i < 61"
  shows "0 \<le> ent_token (static_table ! i)" "nat (ent_token (static_table ! i)) \<le> i"
    "nv_name (ent_nv (static_table ! nat (ent_token (static_table ! i)))) = nv_name (ent_nv (static_table ! i))"
proof -
  from known_names_first assms have *: "0 \<le> snd (known_names ! i)" "nat (snd (known_names ! i)) \<le> i"
    "fst (known_names ! nat (snd (known_names ! i))) = fst (known_names ! i)" by (auto simp: list_all_iff)
  from this(2) assms have "nat (snd (known_names ! i)) < 61" by simp
  with * assms show "0 \<le> ent_token (static_table ! i)" "nat (ent_token (static_table ! i)) \<le> i"
    "nv_name (ent_nv (static_table ! nat (ent_token (static_table ! i)))) = nv_name (ent_nv (static_table ! i))"
    by (simp_all add: static_nth_names)
qed

lemma static_known: "e \<in> set static_table \<Longrightarrow> lookup_token (nv_name (ent_nv e)) (namelen (ent_nv e)) = ent_token e"
proof -
  assume "e \<in> set static_table"
  then have "(nv_name (ent_nv e), ent_token e) \<in> set known_tokens" by (auto simp: known_tokens_def)
  with known_tokens_found show ?thesis by (auto simp: list_all_iff namelen_def)
qed

subsection \<open>Properties\<close>

text \<open>C6. \<^verbatim>\<open>lookup_token\<close> is exact: the names it recognises, with the token it returns, are those of the static
  table with their entry's token and the five further names (te, connection, keep-alive, proxy-connection,
  upgrade); for every other name of fewer than \<open>2 ^ 32\<close> bytes it returns -1.\<close>

theorem lookup_token_exact:
  assumes "length name < 2 ^ 32"
  shows "lookup_token name (of_nat (length name)) = t \<and> t \<noteq> -1 \<longleftrightarrow> (name, t) \<in> set known_tokens"
  using lookup_token_known [OF assms] known_tokens_found by (auto simp: known_def list_all_iff)

theorem lookup_token_exact_witness:
  "lookup_token (bytes ''x-custom'') (of_nat (length (bytes ''x-custom''))) = 7 \<and> (7 :: int) \<noteq> -1
     \<longleftrightarrow> (bytes ''x-custom'', 7) \<in> set known_tokens"
  by (rule lookup_token_exact) simp

text \<open>The shifts of \<^verbatim>\<open>name_hash\<close> compute the FNV-1a hash, and the static table is consistent with the functions
  the encoder uses: each entry's precomputed hash is the hash of its name, its token is the one \<^verbatim>\<open>lookup_token\<close>
  returns for its name, and the token is the index of an entry with the same name, at or before the entry.\<close>

lemma static_table_consistent:
  "name_hash nv = fnv1a (nv_name nv)
   \<and> length static_table = 61
   \<and> list_all (\<lambda>e. ent_hash e = name_hash (ent_nv e)
        \<and> ent_token e = lookup_token (nv_name (ent_nv e)) (namelen (ent_nv e))) static_table
   \<and> list_all (\<lambda>i. 0 \<le> ent_token (static_table ! i) \<and> nat (ent_token (static_table ! i)) \<le> i
        \<and> nv_name (ent_nv (static_table ! nat (ent_token (static_table ! i)))) = nv_name (ent_nv (static_table ! i)))
      [0..<61]"
  using static_hashes static_known
  by (auto simp: name_hash_fnv1a length_static_table list_all_iff intro: static_token_first)

end
