(* ===== verification/Header_Map.thy ===== *)
theory Header_Map
  imports Header_Static
begin

text \<open>
  The hash map by which the HPACK encoder finds entries of its dynamic table: \<^verbatim>\<open>http2_map\<close>, \<^verbatim>\<open>hd_map_insert\<close>,
  \<^verbatim>\<open>hd_map_find\<close> and \<^verbatim>\<open>hd_map_remove\<close> of \<^verbatim>\<open>src/src/http/http2.cpp\<close>. The 128 buckets are linked lists threaded through
  the \<^verbatim>\<open>next\<close> fields of the entries, so the model has an explicit heap of entries: a list indexed by address, with
  \<open>None\<close> for an entry that was deleted. Reading through a pointer to a deleted entry is undefined.

  \<open>path\<close> reads a chain of the heap as a list of addresses, and \<open>map_invar\<close> says that each bucket's chain consists
  of the addresses of the table, in the table's order, whose hash falls into the bucket.
\<close>

type_synonym heap = "http2_entry option list"
type_synonym http2_map = "addr option list"

abbreviation (input) MAP_SIZE :: u32 where "MAP_SIZE \<equiv> 128"

definition deref :: "heap \<Rightarrow> addr \<Rightarrow> http2_entry exec" where
  "deref h a = (if a < length h then case h ! a of None \<Rightarrow> Inl Undefined | Some e \<Rightarrow> Inr e else Inl Undefined)"

definition store :: "heap \<Rightarrow> addr \<Rightarrow> http2_entry \<Rightarrow> heap" where
  "store h a e = h[a := Some e]"

definition bucket :: "u32 \<Rightarrow> nat" where
  "bucket hash = unat (hash AND (MAP_SIZE - 1))"

definition empty_map :: http2_map where
  "empty_map = replicate (unat MAP_SIZE) None"

definition hd_map_insert :: "heap \<Rightarrow> http2_map \<Rightarrow> addr \<Rightarrow> (heap \<times> http2_map) exec" where
  "hd_map_insert h m a =
     bind_exec (deref h a) (\<lambda>ent.
       let b = bucket (ent_hash ent) in
       case m ! b of
         None \<Rightarrow> Inr (h, m[b := Some a])
       | Some root \<Rightarrow> Inr (store h a (ent\<lparr>ent_next := Some root\<rparr>), m[b := Some a]))"

partial_function (option) hd_map_find_loop ::
  "heap \<Rightarrow> http2_nv \<Rightarrow> int \<Rightarrow> u32 \<Rightarrow> addr option \<Rightarrow> addr option \<Rightarrow> (addr option \<times> bool) exec option" where
  "hd_map_find_loop h nv token hash p res =
     (case p of
        None \<Rightarrow> Some (Inr (res, False))
      | Some a \<Rightarrow>
          (case deref h a of
             Inl e \<Rightarrow> Some (Inl e)
           | Inr ent \<Rightarrow>
               if hash \<noteq> ent_hash ent \<or> token \<noteq> ent_token ent \<or> (token = -1 \<and> \<not> name_eq (ent_nv ent) nv)
               then hd_map_find_loop h nv token hash (ent_next ent) res
               else
                 let res = (if res = None then Some a else res) in
                 if value_eq (ent_nv ent) nv then Some (Inr (Some a, True))
                 else hd_map_find_loop h nv token hash (ent_next ent) res))"

declare hd_map_find_loop.simps [code]

text \<open>The result is the entry, if any, and \<^verbatim>\<open>*exact_match\<close>.\<close>

definition hd_map_find :: "heap \<Rightarrow> http2_map \<Rightarrow> http2_nv \<Rightarrow> int \<Rightarrow> u32 \<Rightarrow> (addr option \<times> bool) exec" where
  "hd_map_find h m nv token hash = returned (hd_map_find_loop h nv token hash (m ! bucket hash) None)"

partial_function (option) hd_map_unlink :: "heap \<Rightarrow> addr \<Rightarrow> addr option \<Rightarrow> heap exec option" where
  "hd_map_unlink h a p =
     (case p of
        None \<Rightarrow> Some (Inr h)
      | Some q \<Rightarrow>
          (case deref h q of
             Inl e \<Rightarrow> Some (Inl e)
           | Inr ent \<Rightarrow>
               if ent_next ent = Some a
               then Some (bind_exec (deref h a) (\<lambda>ea.
                      let h = store h q (ent\<lparr>ent_next := ent_next ea\<rparr>) in
                      bind_exec (deref h a) (\<lambda>ea. Inr (store h a (ea\<lparr>ent_next := None\<rparr>)))))
               else hd_map_unlink h a (ent_next ent)))"

declare hd_map_unlink.simps [code]

definition hd_map_remove :: "heap \<Rightarrow> http2_map \<Rightarrow> addr \<Rightarrow> (heap \<times> http2_map) exec" where
  "hd_map_remove h m a =
     bind_exec (deref h a) (\<lambda>ent.
       let b = bucket (ent_hash ent) in
       case m ! b of
         None \<Rightarrow> Inr (h, m)
       | Some root \<Rightarrow>
           if root = a then Inr (store h a (ent\<lparr>ent_next := None\<rparr>), m[b := ent_next ent])
           else bind_exec (returned (hd_map_unlink h a (Some root))) (\<lambda>h. Inr (h, m)))"

subsection \<open>Chains\<close>

fun path :: "heap \<Rightarrow> addr option \<Rightarrow> addr list \<Rightarrow> bool" where
  "path h p [] \<longleftrightarrow> p = None"
| "path h p (a # as) \<longleftrightarrow> p = Some a \<and> (case deref h a of Inl e \<Rightarrow> False | Inr ent \<Rightarrow> path h (ent_next ent) as)"

text \<open>Everything of an entry but the link.\<close>

definition core :: "http2_entry \<Rightarrow> http2_entry" where
  "core e = e\<lparr>ent_next := None\<rparr>"

lemma core_simps [simp]:
  "ent_nv (core e) = ent_nv e" "ent_hash (core e) = ent_hash e" "ent_token (core e) = ent_token e"
  "ent_seq (core e) = ent_seq e" "core (e\<lparr>ent_next := p\<rparr>) = core e"
  by (simp_all add: core_def)

lemma core_eqD:
  "core e = core f \<Longrightarrow> ent_nv e = ent_nv f \<and> ent_hash e = ent_hash f \<and> ent_token e = ent_token f \<and> ent_seq e = ent_seq f"
  by (metis core_simps(1-4))

text \<open>Two heaps that differ in links only.\<close>

definition same_core :: "heap \<Rightarrow> heap \<Rightarrow> bool" where
  "same_core h h' \<longleftrightarrow> map (map_option core) h = map (map_option core) h'"

lemma same_core_refl [simp]: "same_core h h"
  by (simp add: same_core_def)

lemma same_core_trans: "same_core h h' \<Longrightarrow> same_core h' h'' \<Longrightarrow> same_core h h''"
  by (simp add: same_core_def)

lemma same_core_length: "same_core h h' \<Longrightarrow> length h = length h'"
  unfolding same_core_def by (rule map_eq_imp_length_eq)

lemma deref_Inr: "deref h a = Inr e \<longleftrightarrow> a < length h \<and> h ! a = Some e"
  by (auto simp: deref_def split: option.splits)

lemma same_core_nth: "same_core h h' \<Longrightarrow> a < length h \<Longrightarrow> map_option core (h ! a) = map_option core (h' ! a)"
  using arg_cong [where f = "\<lambda>xs. xs ! a", of "map (map_option core) h" "map (map_option core) h'"]
  by (simp add: same_core_length same_core_def [symmetric])

lemma same_core_deref:
  assumes "same_core h h'" and "deref h a = Inr e"
  obtains e' where "deref h' a = Inr e'" "core e' = core e"
proof -
  from assms(2) have a: "a < length h" "h ! a = Some e" by (simp_all add: deref_Inr)
  with same_core_nth [OF assms(1) a(1)] obtain e' where "h' ! a = Some e'" "core e' = core e"
    by (cases "h' ! a") auto
  with a that show thesis by (simp add: deref_Inr same_core_length [OF assms(1)])
qed

lemma same_core_store:
  assumes "deref h a = Inr e" and "core e' = core e"
  shows "same_core h (store h a e')"
proof -
  have "(map (map_option core) h)[a := Some (core e)] = map (map_option core) h"
    using assms(1) by (auto simp: deref_def list_update_same_conv split: if_splits option.splits)
  with assms(2) show ?thesis by (simp add: same_core_def store_def map_update)
qed

lemma deref_store: "deref h a = Inr e \<Longrightarrow> deref (store h a e') b = (if b = a then Inr e' else deref h b)"
  by (auto simp: deref_def store_def split: if_splits)

lemma path_store: "a \<notin> set as \<Longrightarrow> path (store h a e) p as \<longleftrightarrow> path h p as"
proof (induction as arbitrary: p)
  case (Cons b as)
  then have "deref (store h a e) b = deref h b" by (auto simp: deref_def store_def)
  with Cons show ?case by (auto split: sum.splits)
qed simp

lemma path_deref: "path h p as \<Longrightarrow> a \<in> set as \<Longrightarrow> \<exists>e. deref h a = Inr e"
  by (induction as arbitrary: p) (auto split: sum.splits)

text \<open>Walking along a chain.\<close>

definition matches :: "heap \<Rightarrow> http2_nv \<Rightarrow> int \<Rightarrow> u32 \<Rightarrow> addr \<Rightarrow> bool" where
  "matches h nv token hash a \<longleftrightarrow>
     (case deref h a of
        Inl e \<Rightarrow> False
      | Inr ent \<Rightarrow> hash = ent_hash ent \<and> token = ent_token ent \<and> (token = -1 \<longrightarrow> name_eq (ent_nv ent) nv))"

definition exact :: "heap \<Rightarrow> http2_nv \<Rightarrow> int \<Rightarrow> u32 \<Rightarrow> addr \<Rightarrow> bool" where
  "exact h nv token hash a \<longleftrightarrow>
     matches h nv token hash a \<and> (case deref h a of Inl e \<Rightarrow> False | Inr ent \<Rightarrow> value_eq (ent_nv ent) nv)"

text \<open>What the lookup means on a list of addresses: the first entry that agrees in name and value, otherwise the
  first that agrees in name.\<close>

definition find_spec :: "heap \<Rightarrow> http2_nv \<Rightarrow> int \<Rightarrow> u32 \<Rightarrow> addr option \<Rightarrow> addr list \<Rightarrow> addr option \<times> bool" where
  "find_spec h nv token hash res as =
     (case List.find (exact h nv token hash) as of
        Some a \<Rightarrow> (Some a, True)
      | None \<Rightarrow> (if res = None then List.find (matches h nv token hash) as else res, False))"

lemma hd_map_find_loop_path:
  "path h p as \<Longrightarrow> hd_map_find_loop h nv token hash p res = Some (Inr (find_spec h nv token hash res as))"
proof (induction as arbitrary: p res)
  case Nil
  then show ?case by (simp add: hd_map_find_loop.simps find_spec_def)
next
  case (Cons a as)
  then obtain ent where p: "p = Some a" and ent: "deref h a = Inr ent" and rest: "path h (ent_next ent) as"
    by (auto split: sum.splits)
  note IH = Cons.IH [OF rest]
  have m: "(hash \<noteq> ent_hash ent \<or> token \<noteq> ent_token ent \<or> token = -1 \<and> \<not> name_eq (ent_nv ent) nv)
      \<longleftrightarrow> \<not> matches h nv token hash a"
    by (auto simp: matches_def ent)
  have e: "exact h nv token hash a \<longleftrightarrow> matches h nv token hash a \<and> value_eq (ent_nv ent) nv"
    by (simp add: exact_def ent)
  show ?case
    unfolding p hd_map_find_loop.simps [of _ _ _ _ "Some a"] option.case ent sum.case m
    by (auto simp: IH Let_def find_spec_def e split: option.split)
qed

lemma hd_map_find_path:
  "path h (m ! bucket hash) as \<Longrightarrow> hd_map_find h m nv token hash = Inr (find_spec h nv token hash None as)"
  by (simp add: hd_map_find_def hd_map_find_loop_path)

lemma hd_map_unlink_path:
  assumes "path h (Some q) (q # xs @ a # ys)" and "distinct (q # xs @ a # ys)"
  shows "\<exists>h'. hd_map_unlink h a (Some q) = Some (Inr h') \<and> path h' (Some q) (q # xs @ ys)
    \<and> same_core h h' \<and> (\<forall>b. b \<notin> set (q # xs @ [a]) \<longrightarrow> deref h' b = deref h b)"
  using assms
proof (induction xs arbitrary: q)
  case Nil
  then obtain eq ea where d: "deref h q = Inr eq" "ent_next eq = Some a" "deref h a = Inr ea" "path h (ent_next ea) ys"
    by (auto split: sum.splits)
  have qa: "q \<noteq> a" "q \<notin> set ys" "a \<notin> set ys" using Nil.prems(2) by auto
  let ?h1 = "store h q (eq\<lparr>ent_next := ent_next ea\<rparr>)"
  let ?h2 = "store ?h1 a (ea\<lparr>ent_next := None\<rparr>)"
  have d1: "deref ?h1 a = Inr ea" using d qa by (simp add: deref_store)
  have "hd_map_unlink h a (Some q) = Some (Inr ?h2)"
    using d d1 by (simp add: hd_map_unlink.simps [of _ _ "Some q"])
  moreover have "path ?h2 (Some q) (q # ys)"
    using d d1 qa by (simp add: deref_store path_store)
  moreover have "same_core h ?h2"
    using same_core_store [OF d(1)] same_core_store [OF d1] by (metis core_simps(5) same_core_trans)
  moreover have "deref ?h2 b = deref h b" if "b \<notin> set [q, a]" for b
    using d d1 that by (simp add: deref_store)
  ultimately show ?case by (intro exI [of _ ?h2]) simp
next
  case (Cons r xs)
  then obtain eq where d: "deref h q = Inr eq" "ent_next eq = Some r" "path h (Some r) (r # xs @ a # ys)"
    by (auto split: sum.splits)
  have "distinct (r # xs @ a # ys)" using Cons.prems(2) by simp
  from Cons.IH [OF d(3) this] obtain h' where
    IH: "hd_map_unlink h a (Some r) = Some (Inr h')" "path h' (Some r) (r # xs @ ys)" "same_core h h'"
      "\<forall>b. b \<notin> set (r # xs @ [a]) \<longrightarrow> deref h' b = deref h b" by blast
  have "r \<noteq> a" "deref h' q = deref h q" using Cons.prems(2) IH(4) by auto
  with d IH show ?case
    by (intro exI [of _ h']) (simp add: hd_map_unlink.simps [of _ _ "Some q"])
qed

subsection \<open>The invariant of the map\<close>

definition hash_at :: "heap \<Rightarrow> addr \<Rightarrow> nat" where
  "hash_at h a = (case deref h a of Inl e \<Rightarrow> 0 | Inr ent \<Rightarrow> bucket (ent_hash ent))"

definition map_invar :: "heap \<Rightarrow> http2_map \<Rightarrow> addr list \<Rightarrow> bool" where
  "map_invar h m as \<longleftrightarrow>
     length m = 128 \<and> distinct as \<and> (\<forall>a \<in> set as. \<exists>e. deref h a = Inr e)
     \<and> (\<forall>b < 128. path h (m ! b) (filter (\<lambda>a. hash_at h a = b) as))"

lemma bucket_bound: "bucket hash < 128"
proof -
  have "hash AND 127 = take_bit 7 hash" by (rule and_127_eq)
  then show ?thesis by (simp add: bucket_def unat_take_bit)
qed

lemma same_core_hash_at:
  assumes "same_core h h'" shows "hash_at h' a = hash_at h a"
proof (cases "deref h a")
  case (Inr e)
  then obtain e' where "deref h' a = Inr e'" "core e' = core e" by (rule same_core_deref [OF assms])
  with Inr core_eqD [of e' e] show ?thesis by (simp add: hash_at_def)
next
  case (Inl e)
  have "\<not> (\<exists>e'. deref h' a = Inr e')"
    using Inl same_core_deref [of h' h] assms by (metis same_core_def sum.distinct(1))
  with Inl show ?thesis by (cases "deref h' a") (auto simp: hash_at_def)
qed

lemma map_invar_empty: "map_invar h empty_map []"
  by (simp add: map_invar_def empty_map_def)

lemma map_invarD:
  assumes "map_invar h m as"
  shows "length m = 128" "distinct as" "a \<in> set as \<Longrightarrow> \<exists>e. deref h a = Inr e"
    "b < 128 \<Longrightarrow> path h (m ! b) (filter (\<lambda>a. hash_at h a = b) as)"
  using assms by (auto simp: map_invar_def)

lemma map_invarI:
  assumes "length m = 128" "distinct as" "\<And>a. a \<in> set as \<Longrightarrow> \<exists>e. deref h a = Inr e"
    and "\<And>b. b < 128 \<Longrightarrow> path h (m ! b) (filter (\<lambda>a. hash_at h a = b) as)"
  shows "map_invar h m as"
  using assms by (auto simp: map_invar_def)

text \<open>A chain that is not touched stays.\<close>

lemma path_cong: "(\<And>a. a \<in> set as \<Longrightarrow> deref h' a = deref h a) \<Longrightarrow> path h' p as \<longleftrightarrow> path h p as"
  by (induction as arbitrary: p) (auto split: sum.splits)

lemma map_invar_insert:
  assumes inv: "map_invar h m as" and new: "deref h a = Inr ent" "a \<notin> set as" "ent_next ent = None"
  shows "\<exists>h' m'. hd_map_insert h m a = Inr (h', m') \<and> map_invar h' m' (a # as) \<and> same_core h h'"
proof -
  let ?b = "bucket (ent_hash ent)"
  let ?h = "store h a (ent\<lparr>ent_next := m ! ?b\<rparr>)"
  let ?m = "m[?b := Some a]"
  note inv = map_invarD [OF inv]
  have b: "?b < length m" using inv(1) bucket_bound by simp
  have core: "same_core h ?h" using same_core_store [OF new(1)] by (metis core_simps(5))
  have "store h a ent = h" using new(1) by (simp add: store_def deref_Inr list_update_same_conv)
  then have "store h a (ent\<lparr>ent_next := None\<rparr>) = h" using new(3) by (metis http2_entry.surjective http2_entry.update_convs(2))
  then have ins: "hd_map_insert h m a = Inr (?h, ?m)"
    using new by (cases "m ! ?b") (simp_all add: hd_map_insert_def Let_def)
  have at: "hash_at ?h x = hash_at h x" for x using same_core_hash_at [OF core] .
  have at_a: "hash_at h a = ?b" using new(1) by (simp add: hash_at_def)
  have keep: "path ?h p (filter P as) \<longleftrightarrow> path h p (filter P as)" for p P using new(2) by (simp add: path_store)
  have "map_invar ?h ?m (a # as)"
  proof (rule map_invarI)
    show "\<exists>e. deref ?h x = Inr e" if "x \<in> set (a # as)" for x
      using that new(1) inv(3) by (auto simp: deref_store)
    show "path ?h (?m ! c) (filter (\<lambda>a. hash_at ?h a = c) (a # as))" if "c < 128" for c
      using inv(4) [OF that] inv(1) b by (auto simp: at at_a keep deref_store [OF new(1)])
  qed (use inv new(2) in auto)
  with ins core show ?thesis by blast
qed

text \<open>A change that is confined to the entries of one bucket.\<close>

lemma map_invar_local:
  assumes inv: "map_invar h m zs" and sub: "distinct as" "set as \<subseteq> set zs"
    and core: "same_core h h'" and len: "length m' = 128"
    and own: "path h' (m' ! b) (filter (\<lambda>a. hash_at h a = b) as)"
    and others: "\<And>c. c \<noteq> b \<Longrightarrow> filter (\<lambda>a. hash_at h a = c) as = filter (\<lambda>a. hash_at h a = c) zs"
    and keep: "\<And>c. c \<noteq> b \<Longrightarrow> m' ! c = m ! c" "\<And>x. hash_at h x \<noteq> b \<Longrightarrow> deref h' x = deref h x"
  shows "map_invar h' m' as"
proof (rule map_invarI)
  show "\<exists>e. deref h' x = Inr e" if "x \<in> set as" for x
  proof -
    have "x \<in> set zs" using sub(2) that by blast
    from map_invarD(3) [OF inv this] same_core_deref [OF core] show ?thesis by metis
  qed
  show "path h' (m' ! c) (filter (\<lambda>a. hash_at h' a = c) as)" if "c < 128" for c
  proof (cases "c = b")
    case True
    with own show ?thesis by (simp only: same_core_hash_at [OF core])
  next
    case False
    have "path h' p (filter (\<lambda>a. hash_at h a = c) as) = path h p (filter (\<lambda>a. hash_at h a = c) as)" for p
      by (rule path_cong) (use False keep(2) in auto)
    with map_invarD(4) [OF inv that] False keep(1) others show ?thesis
      by (simp add: same_core_hash_at [OF core])
  qed
qed (use sub len in auto)

lemma map_invar_remove:
  assumes inv: "map_invar h m (xs @ a # ys)"
  shows "\<exists>h' m'. hd_map_remove h m a = Inr (h', m') \<and> map_invar h' m' (xs @ ys) \<and> same_core h h'"
proof -
  note invD = map_invarD [OF inv]
  from invD(3) [of a] obtain ent where ent: "deref h a = Inr ent" by auto
  define b where "b = bucket (ent_hash ent)"
  have b: "b < 128" using bucket_bound by (simp add: b_def)
  define chain where "chain zs = filter (\<lambda>a. hash_at h a = b) zs" for zs
  have at_a: "hash_at h a = b" using ent by (simp add: hash_at_def b_def)
  have own: "path h (m ! b) (chain xs @ a # chain ys)" using invD(4) [OF b] at_a by (simp add: chain_def)
  have dist: "distinct (chain xs @ a # chain ys)" using invD(2) by (auto simp: chain_def)
  have result: "map_invar h' m' (xs @ ys)"
    if "same_core h h'" "length m' = 128" "path h' (m' ! b) (chain xs @ chain ys)"
      "\<And>c. c \<noteq> b \<Longrightarrow> m' ! c = m ! c" "\<And>x. hash_at h x \<noteq> b \<Longrightarrow> deref h' x = deref h x" for h' m'
    by (rule map_invar_local [OF inv _ _ that(1,2), where b = b])
      (use that(3-5) invD(2) at_a in \<open>auto simp: chain_def\<close>)
  show ?thesis
  proof (cases "chain xs")
    case Nil
    let ?h = "store h a (ent\<lparr>ent_next := None\<rparr>)" and ?m = "m[b := ent_next ent]"
    have "hd_map_remove h m a = Inr (?h, ?m)"
      using own Nil ent by (simp add: hd_map_remove_def b_def)
    moreover have core: "same_core h ?h" using same_core_store [OF ent] by (metis core_simps(5))
    moreover have "map_invar ?h ?m (xs @ ys)"
      using own Nil ent dist invD(1) b at_a by (intro result core) (auto simp: path_store deref_store)
    ultimately show ?thesis by blast
  next
    case (Cons q zs)
    with own have q: "m ! b = Some q" by simp
    from hd_map_unlink_path [of h q zs a "chain ys"] own dist Cons q obtain h' where
      h': "hd_map_unlink h a (Some q) = Some (Inr h')" "path h' (Some q) (chain xs @ chain ys)" "same_core h h'"
        "\<forall>x. x \<notin> set (q # zs @ [a]) \<longrightarrow> deref h' x = deref h x"
      by auto
    have "q \<noteq> a" using dist Cons by auto
    then have "hd_map_remove h m a = Inr (h', m)" using ent q h'(1) by (simp add: hd_map_remove_def b_def)
    moreover have "deref h' x = deref h x" if "hash_at h x \<noteq> b" for x
    proof -
      have "set (q # zs) \<subseteq> {x. hash_at h x = b}" unfolding Cons [symmetric] by (auto simp: chain_def)
      with that at_a have "x \<notin> set (q # zs @ [a])" by auto
      with h'(4) show ?thesis by blast
    qed
    then have "map_invar h' m (xs @ ys)" using h' q invD(1) by (intro result) auto
    ultimately show ?thesis using h'(3) by blast
  qed
qed

text \<open>A lookup in the bucket is a lookup in the whole table: an entry that agrees has the same hash.\<close>

lemma find_filter: "(\<And>x. P x \<Longrightarrow> Q x) \<Longrightarrow> List.find P (filter Q xs) = List.find P xs"
  by (induction xs) auto

lemma matches_bucket: "matches h nv token hash a \<Longrightarrow> hash_at h a = bucket hash"
  by (auto simp: matches_def hash_at_def split: sum.splits)

lemma map_invar_find:
  assumes "map_invar h m as"
  shows "hd_map_find h m nv token hash = Inr (find_spec h nv token hash None as)"
proof -
  let ?bs = "filter (\<lambda>a. hash_at h a = bucket hash) as"
  have "find_spec h nv token hash None ?bs = find_spec h nv token hash None as"
    unfolding find_spec_def by (subst (1 2) find_filter) (auto simp: exact_def dest: matches_bucket)
  with hd_map_find_path [OF map_invarD(4) [OF assms bucket_bound]] show ?thesis by simp
qed

subsection \<open>The contract of an index over the table\<close>

text \<open>What the encoder relies on: the index follows the table when an entry is added at the front and when any entry
  is taken away, never touches anything of an entry but its link, and finds what a scan of the table would find.\<close>

locale entry_index =
  fixes invar :: "heap \<Rightarrow> 'm \<Rightarrow> addr list \<Rightarrow> bool"
    and insert :: "heap \<Rightarrow> 'm \<Rightarrow> addr \<Rightarrow> (heap \<times> 'm) exec"
    and remove :: "heap \<Rightarrow> 'm \<Rightarrow> addr \<Rightarrow> (heap \<times> 'm) exec"
    and lookup :: "heap \<Rightarrow> 'm \<Rightarrow> http2_nv \<Rightarrow> int \<Rightarrow> u32 \<Rightarrow> (addr option \<times> bool) exec"
  assumes insert: "invar h m as \<Longrightarrow> deref h a = Inr ent \<Longrightarrow> a \<notin> set as \<Longrightarrow> ent_next ent = None \<Longrightarrow>
      \<exists>h' m'. insert h m a = Inr (h', m') \<and> invar h' m' (a # as) \<and> same_core h h'"
    and remove: "invar h m (xs @ a # ys) \<Longrightarrow>
      \<exists>h' m'. remove h m a = Inr (h', m') \<and> invar h' m' (xs @ ys) \<and> same_core h h'"
    and lookup: "invar h m as \<Longrightarrow> lookup h m nv token hash = Inr (find_spec h nv token hash None as)"
begin

lemma remove_last:
  assumes "invar h m as" and "as \<noteq> []"
  obtains h' m' where "remove h m (last as) = Inr (h', m')" "invar h' m' (butlast as)" "same_core h h'"
  using remove [of h m "butlast as" "last as" "[]"] assms by auto

lemma lookup_sound:
  assumes "invar h m as" and "lookup h m nv token hash = Inr (Some a, em)"
  shows "a \<in> set as \<and> matches h nv token hash a \<and> (em \<longrightarrow> exact h nv token hash a)"
  using assms lookup [OF assms(1), of nv token hash]
  by (auto simp: find_spec_def exact_def find_Some_iff split: option.splits)

lemma lookup_complete:
  assumes "invar h m as" and "lookup h m nv token hash = Inr (r, em)"
  shows "(em \<longleftrightarrow> (\<exists>a \<in> set as. exact h nv token hash a))
    \<and> (r = None \<longleftrightarrow> (\<forall>a \<in> set as. \<not> matches h nv token hash a))"
  using assms lookup [OF assms(1), of nv token hash]
  by (auto simp: find_spec_def exact_def find_Some_iff find_None_iff split: option.splits)

text \<open>An entry that was just added is found.\<close>

lemma lookup_inserted:
  assumes "invar h m as" "deref h a = Inr ent" "a \<notin> set as" "ent_next ent = None"
    and "insert h m a = Inr (h', m')"
  shows "lookup h' m' (ent_nv ent) (ent_token ent) (ent_hash ent) = Inr (Some a, True)"
proof -
  from insert [OF assms(1-4)] assms(5) have inv: "invar h' m' (a # as)" and core: "same_core h h'" by auto
  from same_core_deref [OF core assms(2)] obtain e' where e': "deref h' a = Inr e'" "core e' = core ent" .
  have "exact h' (ent_nv ent) (ent_token ent) (ent_hash ent) a"
    using e' core_eqD [OF e'(2)] by (simp add: exact_def matches_def name_eq_def value_eq_def)
  then show ?thesis using lookup [OF inv] by (simp add: find_spec_def)
qed

end

interpretation hmap: entry_index map_invar hd_map_insert hd_map_remove hd_map_find
  by unfold_locales (simp_all add: map_invar_insert map_invar_remove map_invar_find)

subsection \<open>Properties\<close>

text \<open>The hash map with its linked buckets is an index of the table: a lookup returns what a scan over all entries of the table returns
  (the first that agrees in name and value, else the first that agrees in name); after an insertion the new entry is found exactly;
  and removing it again leaves a map of the old table. None of this ever follows a link to a deleted entry or loops.\<close>

lemma hd_map_is_index:
  assumes "map_invar h m as" and "deref h a = Inr ent" "a \<notin> set as" "ent_next ent = None"
  shows "hd_map_find h m nv token hash = Inr (find_spec h nv token hash None as)
    \<and> (\<exists>h1 m1 h2 m2. hd_map_insert h m a = Inr (h1, m1)
        \<and> hd_map_find h1 m1 (ent_nv ent) (ent_token ent) (ent_hash ent) = Inr (Some a, True)
        \<and> hd_map_remove h1 m1 a = Inr (h2, m2) \<and> map_invar h2 m2 as \<and> same_core h h2)"
proof -
  from hmap.insert [OF assms] obtain h1 m1 where
    ins: "hd_map_insert h m a = Inr (h1, m1)" "map_invar h1 m1 (a # as)" "same_core h h1" by blast
  from hmap.remove [of h1 m1 "[]" a as] ins(2) obtain h2 m2 where
    "hd_map_remove h1 m1 a = Inr (h2, m2)" "map_invar h2 m2 as" "same_core h1 h2" by auto
  with ins hmap.lookup [OF assms(1)] hmap.lookup_inserted [OF assms ins(1)] show ?thesis
    by (blast intro: same_core_trans)
qed

end
