(* ===== verification/Header_Table.thy ===== *)
theory Header_Table
  imports Ring_Buffer Header_Map
begin

text \<open>
  The dynamic header table of HPACK: \<^verbatim>\<open>http2_context\<close> and the functions of \<^verbatim>\<open>src/src/http/http2.cpp\<close> that add, evict
  and look up entries. The table is a ring buffer of addresses of entries (theory \<open>Ring_Buffer\<close>), the encoder also
  keeps a hash map over them (theory \<open>Header_Map\<close>). The functions pass the heap of entries along. \<^verbatim>\<open>new\<close> always
  succeeds; whether \<^verbatim>\<open>malloc\<close> does is the argument \<open>mem\<close>.

  The specification is a list of name-value pairs, newest first, from which entries are evicted at the end until
  the rest fits (\<open>fit\<close>), as RFC 7541 prescribes in sections 4.3 and 4.4.
\<close>

record http2_context =
  hd_table_bufsize_max :: u32
  hd_table :: "addr http2_ringbuf"
  hd_table_bufsize :: u32
  next_seq :: u32
  bad :: bool

abbreviation (input) HTTP2_ENTRY_OVERHEAD :: u32 where "HTTP2_ENTRY_OVERHEAD \<equiv> 32"
abbreviation (input) HTTP2_DEFAULT_MAX_BUFFER_SIZE :: u32 where "HTTP2_DEFAULT_MAX_BUFFER_SIZE \<equiv> 4096"

definition http2_context_ctor :: "(u32 \<Rightarrow> bool) \<Rightarrow> http2_context exec" where
  "http2_context_ctor mem =
     bind_exec (http2_ringbuf_ctor mem (HTTP2_DEFAULT_MAX_BUFFER_SIZE div HTTP2_ENTRY_OVERHEAD)) (\<lambda>rb.
       Inr \<lparr>hd_table_bufsize_max = HTTP2_DEFAULT_MAX_BUFFER_SIZE, hd_table = rb, hd_table_bufsize = 0,
            next_seq = 0, bad = False\<rparr>)"

definition entry_room :: "u32 \<Rightarrow> u32 \<Rightarrow> u32" where
  "entry_room nlen vlen = HTTP2_ENTRY_OVERHEAD + nlen + vlen"

text \<open>\<^verbatim>\<open>new http2_entry\<close> leaves the numbers indeterminate; each of them is assigned before it is read.\<close>

definition new_http2_entry :: http2_entry where
  "new_http2_entry =
     \<lparr>ent_nv = \<lparr>nv_name = [], nv_value = [], nv_flags = 0\<rparr>, ent_next = None, ent_seq = 0, ent_hash = 0, ent_token = 0\<rparr>"

definition http2_hd_entry_init :: "http2_entry \<Rightarrow> http2_nv \<Rightarrow> int \<Rightarrow> http2_entry" where
  "http2_hd_entry_init ent oent token =
     ent\<lparr>ent_nv := \<lparr>nv_name = nv_name oent, nv_value = nv_value oent, nv_flags = 0\<rparr>,
         ent_token := token, ent_next := None, ent_hash := 0\<rparr>"

definition map_remove_opt :: "heap \<Rightarrow> http2_map option \<Rightarrow> addr \<Rightarrow> (heap \<times> http2_map option) exec" where
  "map_remove_opt h mp a =
     (case mp of None \<Rightarrow> Inr (h, None) | Some m \<Rightarrow> bind_exec (hd_map_remove h m a) (\<lambda>(h, m). Inr (h, Some m)))"

definition map_insert_opt :: "heap \<Rightarrow> http2_map option \<Rightarrow> addr \<Rightarrow> (heap \<times> http2_map option) exec" where
  "map_insert_opt h mp a =
     (case mp of None \<Rightarrow> Inr (h, None) | Some m \<Rightarrow> bind_exec (hd_map_insert h m a) (\<lambda>(h, m). Inr (h, Some m)))"

text \<open>The eviction loop of \<^verbatim>\<open>add_hd_table_incremental\<close>.\<close>

function evict_loop :: "heap \<Rightarrow> http2_context \<Rightarrow> http2_map option \<Rightarrow> u32 \<Rightarrow> (heap \<times> http2_context \<times> http2_map option) exec" where
  "evict_loop h ctx mp room =
     (if hd_table_bufsize ctx + room > hd_table_bufsize_max ctx \<and> rb_len (hd_table ctx) > 0 then
        bind_exec (hd_ringbuf_get (hd_table ctx) (rb_len (hd_table ctx) - 1)) (\<lambda>a.
        bind_exec (deref h a) (\<lambda>ent.
        bind_exec (map_remove_opt h mp a) (\<lambda>(h, mp).
          evict_loop h
            (ctx\<lparr>hd_table_bufsize := hd_table_bufsize ctx - entry_room (namelen (ent_nv ent)) (valuelen (ent_nv ent)),
                 hd_table := hd_ringbuf_pop_back (hd_table ctx)\<rparr>)
            mp room)))
      else Inr (h, ctx, mp))"
  by pat_completeness auto
termination
  by (relation "measure (\<lambda>(h, ctx, mp, room). unat (rb_len (hd_table ctx)))")
    (auto simp: hd_ringbuf_pop_back_def unat_minus_one word_less_nat_alt unat_gt_0)

function hd_context_shrink_table_size :: "heap \<Rightarrow> http2_context \<Rightarrow> http2_map option \<Rightarrow> (heap \<times> http2_context \<times> http2_map option) exec" where
  "hd_context_shrink_table_size h ctx mp =
     (if hd_table_bufsize ctx > hd_table_bufsize_max ctx \<and> rb_len (hd_table ctx) > 0 then
        bind_exec (hd_ringbuf_get (hd_table ctx) (rb_len (hd_table ctx) - 1)) (\<lambda>a.
        bind_exec (deref h a) (\<lambda>ent.
        bind_exec (map_remove_opt h mp a) (\<lambda>(h, mp).
          hd_context_shrink_table_size h
            (ctx\<lparr>hd_table_bufsize := hd_table_bufsize ctx - entry_room (namelen (ent_nv ent)) (valuelen (ent_nv ent)),
                 hd_table := hd_ringbuf_pop_back (hd_table ctx)\<rparr>)
            mp)))
      else Inr (h, ctx, mp))"
  by pat_completeness auto
termination
  by (relation "measure (\<lambda>(h, ctx, mp). unat (rb_len (hd_table ctx)))")
    (auto simp: hd_ringbuf_pop_back_def unat_minus_one word_less_nat_alt unat_gt_0)

declare evict_loop.simps [simp del] hd_context_shrink_table_size.simps [simp del]

text \<open>The result is the new entry's address, \<open>None\<close> for a null pointer.\<close>

definition add_hd_table_incremental :: "(u32 \<Rightarrow> bool) \<Rightarrow> heap \<Rightarrow> http2_context \<Rightarrow> http2_nv \<Rightarrow> int \<Rightarrow> http2_map option \<Rightarrow> u32
    \<Rightarrow> (addr option \<times> heap \<times> http2_context \<times> http2_map option) exec" where
  "add_hd_table_incremental mem h ctx nv token mp hash =
     (let room = entry_room (namelen nv) (valuelen nv) in
      bind_exec (evict_loop h ctx mp room) (\<lambda>(h, ctx, mp).
        let new_ent = length h;
            ent = http2_hd_entry_init new_http2_entry nv token
        in bind_exec (hd_ringbuf_push_front mem (hd_table ctx) new_ent) (\<lambda>(rv, rb).
             if rv \<noteq> 0 then Inr (None, h @ [None], ctx\<lparr>hd_table := rb\<rparr>, mp)
             else
               let h = h @ [Some (ent\<lparr>ent_seq := next_seq ctx, ent_hash := hash\<rparr>)];
                   ctx = ctx\<lparr>hd_table := rb, next_seq := next_seq ctx + 1\<rparr>
               in bind_exec (map_insert_opt h mp new_ent) (\<lambda>(h, mp).
                    Inr (Some new_ent, h, ctx\<lparr>hd_table_bufsize := hd_table_bufsize ctx + room\<rparr>, mp)))))"

record search_result =
  sr_index :: int
  sr_name_value_match :: bool

datatype http2_indexing_mode = HTTP2_WITH_INDEXING | HTTP2_WITHOUT_INDEXING | HTTP2_NEVER_INDEXING

text \<open>The loop over the entries of one token, from index \<open>i\<close>; \<open>None\<close> when no value agrees.\<close>

function search_static_loop :: "http2_nv \<Rightarrow> int \<Rightarrow> nat \<Rightarrow> nat option" where
  "search_static_loop nv token i =
     (if int i \<le> HTTP2_TOKEN_WWW_AUTHENTICATE \<and> ent_token (static_table ! i) = token
      then if value_eq (ent_nv (static_table ! i)) nv then Some i else search_static_loop nv token (i + 1)
      else None)"
  by pat_completeness auto
termination
  by (relation "measure (\<lambda>(nv, token, i). 61 - i)") auto

declare search_static_loop.simps [simp del]

definition search_static_table :: "http2_nv \<Rightarrow> int \<Rightarrow> http2_indexing_mode \<Rightarrow> search_result" where
  "search_static_table nv token indexing_mode =
     (if indexing_mode = HTTP2_NEVER_INDEXING then \<lparr>sr_index = token, sr_name_value_match = False\<rparr>
      else case search_static_loop nv token (nat token) of
          Some i \<Rightarrow> \<lparr>sr_index = int i, sr_name_value_match = True\<rparr>
        | None \<Rightarrow> \<lparr>sr_index = token, sr_name_value_match = False\<rparr>)"

definition search_hd_table :: "heap \<Rightarrow> http2_context \<Rightarrow> http2_nv \<Rightarrow> int \<Rightarrow> http2_indexing_mode \<Rightarrow> http2_map \<Rightarrow> u32 \<Rightarrow> search_result exec" where
  "search_hd_table h ctx nv token indexing_mode mp hash =
     (let res = (if 0 \<le> token \<and> token \<le> HTTP2_TOKEN_WWW_AUTHENTICATE then search_static_table nv token indexing_mode
                 else \<lparr>sr_index = -1, sr_name_value_match = False\<rparr>)
      in if sr_name_value_match res then Inr res
         else bind_exec (hd_map_find h mp nv token hash) (\<lambda>(ent, exact_match).
           case ent of
             None \<Rightarrow> Inr res
           | Some a \<Rightarrow>
               if sr_index res \<noteq> -1 \<and> \<not> exact_match then Inr res
               else bind_exec (deref h a) (\<lambda>e.
                 Inr \<lparr>sr_index = sint (next_seq ctx - 1 - ent_seq e + HTTP2_STATIC_TABLE_LENGTH),
                      sr_name_value_match = sr_name_value_match res \<or> exact_match\<rparr>)))"

datatype entry_ptr = Static nat | Dynamic addr

definition deref_entry :: "heap \<Rightarrow> entry_ptr \<Rightarrow> http2_entry exec" where
  "deref_entry h p =
     (case p of Static i \<Rightarrow> if i < length static_table then Inr (static_table ! i) else Inl Undefined
      | Dynamic a \<Rightarrow> deref h a)"

definition http2_hd_table_get :: "http2_context \<Rightarrow> u32 \<Rightarrow> entry_ptr exec" where
  "http2_hd_table_get ctx idx =
     (if idx \<ge> HTTP2_STATIC_TABLE_LENGTH
      then bind_exec (hd_ringbuf_get (hd_table ctx) (idx - HTTP2_STATIC_TABLE_LENGTH)) (\<lambda>a. Inr (Dynamic a))
      else Inr (Static (unat idx)))"

definition get_max_index :: "http2_context \<Rightarrow> u32" where
  "get_max_index ctx = rb_len (hd_table ctx) + HTTP2_STATIC_TABLE_LENGTH - 1"

subsection \<open>The table as a list of headers\<close>

type_synonym header = "buffer \<times> buffer"

definition hsize :: "header \<Rightarrow> nat" where
  "hsize x = 32 + length (fst x) + length (snd x)"

definition hsizes :: "header list \<Rightarrow> nat" where
  "hsizes xs = sum_list (map hsize xs)"

lemma hsizes_simps [simp]:
  "hsizes [] = 0" "hsizes (x # xs) = hsize x + hsizes xs" "hsizes (xs @ ys) = hsizes xs + hsizes ys"
  by (simp_all add: hsizes_def)

lemma hsize_pos [simp]: "0 < hsize x"
  by (simp add: hsize_def)

lemma hsizes_length: "32 * length xs \<le> hsizes xs"
  by (induction xs) (simp_all add: hsize_def)

text \<open>The longest prefix, that is the newest entries, whose sizes add up to at most \<open>m\<close>.\<close>

fun fit :: "nat \<Rightarrow> header list \<Rightarrow> header list" where
  "fit m [] = []"
| "fit m (x # xs) = (if hsize x \<le> m then x # fit (m - hsize x) xs else [])"

lemma fit_all: "hsizes xs \<le> m \<Longrightarrow> fit m xs = xs"
  by (induction xs arbitrary: m) simp_all

lemma fit_drop_last: "m < hsizes (xs @ [x]) \<Longrightarrow> fit m (xs @ [x]) = fit m xs"
  by (induction xs arbitrary: m) auto

lemma fit_butlast: "m < hsizes xs \<Longrightarrow> fit m xs = fit m (butlast xs)"
  by (cases xs rule: rev_cases) (simp_all add: fit_drop_last del: hsizes_simps(3))

lemma hsizes_fit: "hsizes (fit m xs) \<le> m"
proof (induction xs arbitrary: m)
  case (Cons x xs)
  from Cons.IH [of "m - hsize x"] show ?case by auto
qed simp

lemma fit_prefix: "\<exists>n. fit m xs = take n xs"
proof (induction xs arbitrary: m)
  case (Cons x xs)
  from Cons.IH [of "m - hsize x"] obtain n where "fit (m - hsize x) xs = take n xs" ..
  then show ?case by (intro exI [of _ "if hsize x \<le> m then Suc n else 0"]) simp
qed simp

definition nv_header :: "http2_nv \<Rightarrow> header" where
  "nv_header nv = (nv_name nv, nv_value nv)"

definition header_at :: "heap \<Rightarrow> addr \<Rightarrow> header" where
  "header_at h a = (case deref h a of Inl e \<Rightarrow> ([], []) | Inr ent \<Rightarrow> nv_header (ent_nv ent))"

definition dyn_table :: "heap \<Rightarrow> http2_context \<Rightarrow> header list" where
  "dyn_table h ctx = map (header_at h) (rb_list (hd_table ctx))"

definition tbl_invar :: "heap \<Rightarrow> http2_context \<Rightarrow> http2_map option \<Rightarrow> bool" where
  "tbl_invar h ctx mp \<longleftrightarrow>
     rb_invar (hd_table ctx)
     \<and> (\<forall>a \<in> set (rb_list (hd_table ctx)). \<exists>e. deref h a = Inr e)
     \<and> unat (hd_table_bufsize ctx) = hsizes (dyn_table h ctx)
     \<and> (case mp of None \<Rightarrow> True | Some m \<Rightarrow> map_invar h m (rb_list (hd_table ctx)))"

lemma tbl_invarD:
  assumes "tbl_invar h ctx mp"
  shows "rb_invar (hd_table ctx)" "a \<in> set (rb_list (hd_table ctx)) \<Longrightarrow> \<exists>e. deref h a = Inr e"
    "unat (hd_table_bufsize ctx) = hsizes (dyn_table h ctx)"
    "mp = Some m \<Longrightarrow> map_invar h m (rb_list (hd_table ctx))"
  using assms by (auto simp: tbl_invar_def)

lemma same_core_header_at:
  assumes "same_core h h'" "deref h a = Inr e" shows "header_at h' a = header_at h a"
proof -
  obtain e' where "deref h' a = Inr e'" "core e' = core e" using assms by (rule same_core_deref)
  with assms(2) core_eqD [of e' e] show ?thesis by (simp add: header_at_def)
qed

lemma unat_entry_room:
  assumes "hsize (nv_header nv) < 2 ^ 32"
  shows "unat (entry_room (namelen nv) (valuelen nv)) = hsize (nv_header nv)"
proof -
  have "entry_room (namelen nv) (valuelen nv) = of_nat (hsize (nv_header nv))"
    by (simp add: entry_room_def namelen_def valuelen_def hsize_def nv_header_def)
  with assms show ?thesis by (simp add: unat_of_nat take_bit_nat_eq_self)
qed

lemma dyn_table_length: "tbl_invar h ctx mp \<Longrightarrow> length (rb_list (hd_table ctx)) < 2 ^ 31"
  using hsizes_length [of "dyn_table h ctx"] unat_bound [of "hd_table_bufsize ctx"]
  by (simp add: tbl_invarD(3) dyn_table_def)

subsection \<open>Eviction\<close>

definition popped :: "http2_context \<Rightarrow> http2_entry \<Rightarrow> http2_context" where
  "popped ctx ent =
     ctx\<lparr>hd_table_bufsize := hd_table_bufsize ctx - entry_room (namelen (ent_nv ent)) (valuelen (ent_nv ent)),
         hd_table := hd_ringbuf_pop_back (hd_table ctx)\<rparr>"

lemma popped_simps [simp]:
  "hd_table (popped ctx ent) = hd_ringbuf_pop_back (hd_table ctx)"
  "hd_table_bufsize_max (popped ctx ent) = hd_table_bufsize_max ctx"
  "next_seq (popped ctx ent) = next_seq ctx" "bad (popped ctx ent) = bad ctx"
  by (simp_all add: popped_def)

lemma evict_step:
  assumes inv: "tbl_invar h ctx mp" and ne: "rb_list (hd_table ctx) \<noteq> []"
  shows "\<exists>a ent h' mp'. hd_ringbuf_get (hd_table ctx) (rb_len (hd_table ctx) - 1) = Inr a \<and> deref h a = Inr ent
    \<and> map_remove_opt h mp a = Inr (h', mp') \<and> tbl_invar h' (popped ctx ent) mp' \<and> same_core h h'
    \<and> rb_list (hd_table (popped ctx ent)) = butlast (rb_list (hd_table ctx))
    \<and> dyn_table h' (popped ctx ent) = butlast (dyn_table h ctx) \<and> (mp' = None \<longleftrightarrow> mp = None)
    \<and> unat (hd_table_bufsize (popped ctx ent)) \<le> unat (hd_table_bufsize ctx)"
proof -
  let ?xs = "rb_list (hd_table ctx)"
  note D = tbl_invarD [OF inv]
  from D(2) [of "last ?xs"] ne obtain ent where ent: "deref h (last ?xs) = Inr ent" by auto
  have pop: "rb_invar (hd_ringbuf_pop_back (hd_table ctx))" "rb_list (hd_ringbuf_pop_back (hd_table ctx)) = butlast ?xs"
    using ring.pop [OF D(1) ne] by auto
  have "\<exists>h' mp'. map_remove_opt h mp (last ?xs) = Inr (h', mp') \<and> same_core h h' \<and> (mp' = None \<longleftrightarrow> mp = None)
      \<and> (\<forall>m'. mp' = Some m' \<longrightarrow> map_invar h' m' (butlast ?xs))"
  proof (cases mp)
    case (Some m)
    from hmap.remove_last [OF D(4) [OF Some] ne] obtain h' m' where
      "hd_map_remove h m (last ?xs) = Inr (h', m')" "map_invar h' m' (butlast ?xs)" "same_core h h'" .
    with Some show ?thesis by (auto simp: map_remove_opt_def)
  qed (simp add: map_remove_opt_def)
  then obtain h' mp' where rm: "map_remove_opt h mp (last ?xs) = Inr (h', mp')" and core: "same_core h h'"
    and mp': "mp' = None \<longleftrightarrow> mp = None" "\<forall>m'. mp' = Some m' \<longrightarrow> map_invar h' m' (butlast ?xs)" by blast
  have head: "header_at h' a = header_at h a" if "a \<in> set ?xs" for a
    using D(2) [OF that] same_core_header_at [OF core] by blast
  have dyn: "dyn_table h' (popped ctx ent) = butlast (dyn_table h ctx)"
    using head by (auto simp: dyn_table_def pop map_butlast [symmetric] dest: in_set_butlastD)
  have "last (dyn_table h ctx) = nv_header (ent_nv ent)" "dyn_table h ctx \<noteq> []"
    using ne ent by (simp_all add: dyn_table_def last_map header_at_def)
  then have "dyn_table h ctx = butlast (dyn_table h ctx) @ [nv_header (ent_nv ent)]"
    by (metis append_butlast_last_id)
  then have total: "hsizes (dyn_table h ctx) = hsizes (butlast (dyn_table h ctx)) + hsize (nv_header (ent_nv ent))"
    by (metis hsizes_simps add.right_neutral)
  have room: "unat (entry_room (namelen (ent_nv ent)) (valuelen (ent_nv ent))) = hsize (nv_header (ent_nv ent))"
    using total D(3) unat_bound [of "hd_table_bufsize ctx"] by (intro unat_entry_room) simp
  have size: "unat (hd_table_bufsize (popped ctx ent)) = hsizes (butlast (dyn_table h ctx))"
    using total D(3) room by (simp add: popped_def unat_sub word_le_nat_alt)
  have "\<exists>e. deref h' a = Inr e" if "a \<in> set (butlast ?xs)" for a
    using D(2) [OF in_set_butlastD [OF that]] same_core_deref [OF core] by metis
  then have "tbl_invar h' (popped ctx ent) mp'"
    using pop mp'(2) size dyn by (auto simp: tbl_invar_def split: option.splits)
  then show ?thesis
    using ring.get_last [OF D(1) ne] ent rm core dyn mp'(1) size total D(3) pop
    by (intro exI [of _ "last ?xs"] exI [of _ ent] exI [of _ h'] exI [of _ mp']) simp
qed

text \<open>What eviction down to \<open>m\<close> does: it keeps the newest entries that fit and changes nothing else of the table.\<close>

definition evicted :: "nat \<Rightarrow> heap \<Rightarrow> http2_context \<Rightarrow> http2_map option \<Rightarrow> heap \<Rightarrow> http2_context \<Rightarrow> http2_map option \<Rightarrow> bool" where
  "evicted m h ctx mp h' ctx' mp' \<longleftrightarrow>
     tbl_invar h' ctx' mp' \<and> same_core h h' \<and> (mp' = None \<longleftrightarrow> mp = None)
     \<and> (\<exists>n. rb_list (hd_table ctx') = take n (rb_list (hd_table ctx)))
     \<and> dyn_table h' ctx' = fit m (dyn_table h ctx)
     \<and> hd_table_bufsize_max ctx' = hd_table_bufsize_max ctx \<and> next_seq ctx' = next_seq ctx \<and> bad ctx' = bad ctx
     \<and> unat (hd_table_bufsize ctx') \<le> unat (hd_table_bufsize ctx)"

lemma evict_loop_step:
  assumes "hd_table_bufsize ctx + room > hd_table_bufsize_max ctx" "rb_len (hd_table ctx) > 0"
    and "hd_ringbuf_get (hd_table ctx) (rb_len (hd_table ctx) - 1) = Inr a" "deref h a = Inr ent"
    and "map_remove_opt h mp a = Inr (h', mp')"
  shows "evict_loop h ctx mp room = evict_loop h' (popped ctx ent) mp' room"
  by (subst evict_loop.simps) (simp add: assms popped_def)

lemma evict_loop_ok:
  assumes "tbl_invar h ctx mp" and "unat (hd_table_bufsize ctx) + unat room < 2 ^ 32"
  shows "\<exists>h' ctx' mp'. evict_loop h ctx mp room = Inr (h', ctx', mp')
    \<and> evicted (unat (hd_table_bufsize_max ctx) - unat room) h ctx mp h' ctx' mp'"
  using assms
proof (induction "length (rb_list (hd_table ctx))" arbitrary: h ctx mp)
  case (0 ctx h mp)
  then have empty: "rb_list (hd_table ctx) = []" by (metis length_0_conv)
  moreover from this have "\<not> rb_len (hd_table ctx) > 0" by (simp add: word_less_nat_alt flip: length_rb_list)
  ultimately have "evict_loop h ctx mp room = Inr (h, ctx, mp)" by (simp add: evict_loop.simps [of h ctx])
  with 0 empty show ?case by (simp add: evicted_def dyn_table_def)
next
  case (Suc k ctx h mp)
  let ?m = "unat (hd_table_bufsize_max ctx) - unat room"
  note inv = Suc.prems(1)
  have ne: "rb_list (hd_table ctx) \<noteq> []" using Suc.hyps(2) by (metis list.size(3) nat.distinct(1))
  then have len: "rb_len (hd_table ctx) > 0" using Suc.hyps(2) by (simp add: word_less_nat_alt)
  have sum: "unat (hd_table_bufsize ctx + room) = unat (hd_table_bufsize ctx) + unat room"
    using Suc.prems(2) by (simp add: unat_word_ariths)
  show ?case
  proof (cases "hd_table_bufsize ctx + room > hd_table_bufsize_max ctx")
    case True
    have big: "?m < hsizes (dyn_table h ctx)"
    proof -
      have "0 < hsizes (dyn_table h ctx)" using ne by (cases "rb_list (hd_table ctx)") (simp_all add: dyn_table_def)
      then show ?thesis using True sum tbl_invarD(3) [OF inv] by (simp add: word_less_nat_alt)
    qed
    from evict_step [OF inv ne] obtain a ent h1 mp1 where
      step: "hd_ringbuf_get (hd_table ctx) (rb_len (hd_table ctx) - 1) = Inr a" "deref h a = Inr ent"
        "map_remove_opt h mp a = Inr (h1, mp1)" "tbl_invar h1 (popped ctx ent) mp1" "same_core h h1"
        "rb_list (hd_table (popped ctx ent)) = butlast (rb_list (hd_table ctx))"
        "dyn_table h1 (popped ctx ent) = butlast (dyn_table h ctx)" "mp1 = None \<longleftrightarrow> mp = None"
        "unat (hd_table_bufsize (popped ctx ent)) \<le> unat (hd_table_bufsize ctx)" by blast
    have "k = length (rb_list (hd_table (popped ctx ent)))" using step(6) Suc.hyps(2) by simp
    from Suc.hyps(1) [OF this step(4)] step(9) Suc.prems(2) obtain h' ctx' mp' where
      IH: "evict_loop h1 (popped ctx ent) mp1 room = Inr (h', ctx', mp')" "evicted ?m h1 (popped ctx ent) mp1 h' ctx' mp'"
      by auto
    have "\<exists>n. rb_list (hd_table ctx') = take n (rb_list (hd_table ctx))"
      using IH(2) step(6) by (auto simp: evicted_def butlast_conv_take)
    with IH(2) step fit_butlast [OF big] have "evicted ?m h ctx mp h' ctx' mp'"
      by (auto simp: evicted_def intro: same_core_trans)
    with IH(1) evict_loop_step [OF True len step(1-3)] show ?thesis by auto
  next
    case False
    then have "hsizes (dyn_table h ctx) \<le> ?m"
      using sum tbl_invarD(3) [OF inv] by (simp add: word_less_nat_alt)
    then show ?thesis
      using False inv by (auto simp: evict_loop.simps [of h ctx] evicted_def fit_all intro: exI [of _ "length (rb_list (hd_table ctx))"])
  qed
qed

lemma shrink_eq_evict: "hd_context_shrink_table_size h ctx mp = evict_loop h ctx mp 0"
proof (induction h ctx mp rule: hd_context_shrink_table_size.induct)
  case (1 h ctx mp)
  show ?case
    by (subst evict_loop.simps, subst hd_context_shrink_table_size.simps)
      (auto intro!: bind_exec_cong simp: 1)
qed

lemma deref_append: "a < length h \<Longrightarrow> deref (h @ h2) a = deref h a"
  by (simp add: deref_def nth_append)

lemma deref_new: "deref (h @ [Some e]) (length h) = Inr e"
  by (simp add: deref_Inr)

lemma map_invar_append:
  assumes "map_invar h m as" shows "map_invar (h @ h2) m as"
proof (rule map_invarI)
  note D = map_invarD [OF assms]
  have keep: "deref (h @ h2) a = deref h a" if "a \<in> set as" for a
    using D(3) [OF that] by (auto simp: deref_Inr intro: deref_append)
  show "\<exists>e. deref (h @ h2) a = Inr e" if "a \<in> set as" for a using D(3) [OF that] keep [OF that] by simp
  show "path (h @ h2) (m ! b) (filter (\<lambda>a. hash_at (h @ h2) a = b) as)" if "b < 128" for b
  proof -
    have "filter (\<lambda>a. hash_at (h @ h2) a = b) as = filter (\<lambda>a. hash_at h a = b) as"
      by (rule filter_cong) (auto simp: hash_at_def keep)
    moreover have "path (h @ h2) p (filter P as) = path h p (filter P as)" for p P
      by (rule path_cong) (simp add: keep)
    ultimately show ?thesis using D(4) [OF that] by simp
  qed
qed (use map_invarD [OF assms] in auto)

subsection \<open>Adding an entry\<close>

lemma map_insert_opt_ok:
  assumes "\<forall>m. mp = Some m \<longrightarrow> map_invar h m as" and "a \<notin> set as" and "deref h a = Inr e" "ent_next e = None"
  shows "\<exists>h' mp'. map_insert_opt h mp a = Inr (h', mp') \<and> same_core h h' \<and> (mp' = None \<longleftrightarrow> mp = None)
    \<and> (\<forall>m'. mp' = Some m' \<longrightarrow> map_invar h' m' (a # as))"
proof (cases mp)
  case (Some m)
  with assms hmap.insert [of h m as a e] obtain h' m' where
    "hd_map_insert h m a = Inr (h', m')" "map_invar h' m' (a # as)" "same_core h h'" by blast
  with Some show ?thesis by (auto simp: map_insert_opt_def)
qed (simp add: map_insert_opt_def)

text \<open>The new entry as it ends up in the heap, up to its link.\<close>

definition added_entry :: "http2_context \<Rightarrow> http2_nv \<Rightarrow> int \<Rightarrow> u32 \<Rightarrow> http2_entry" where
  "added_entry ctx nv token hash =
     (http2_hd_entry_init new_http2_entry nv token)\<lparr>ent_seq := next_seq ctx, ent_hash := hash\<rparr>"

lemma added_entry_simps [simp]:
  "ent_nv (added_entry ctx nv token hash) = nv\<lparr>nv_flags := 0\<rparr>"
  "ent_token (added_entry ctx nv token hash) = token" "ent_hash (added_entry ctx nv token hash) = hash"
  "ent_seq (added_entry ctx nv token hash) = next_seq ctx" "ent_next (added_entry ctx nv token hash) = None"
  by (simp_all add: added_entry_def http2_hd_entry_init_def)

text \<open>What adding does to the heap and the table.\<close>

definition table_added :: "heap \<Rightarrow> http2_context \<Rightarrow> http2_map option \<Rightarrow> http2_nv \<Rightarrow> int \<Rightarrow> u32
    \<Rightarrow> heap \<Rightarrow> http2_context \<Rightarrow> http2_map option \<Rightarrow> bool" where
  "table_added h ctx mp nv token hash h' ctx' mp' \<longleftrightarrow>
     tbl_invar h' ctx' mp' \<and> same_core (h @ [Some (added_entry ctx nv token hash)]) h' \<and> (mp' = None \<longleftrightarrow> mp = None)
     \<and> (\<exists>n. rb_list (hd_table ctx') = length h # take n (rb_list (hd_table ctx)))
     \<and> dyn_table h' ctx' = nv_header nv # fit (unat (hd_table_bufsize_max ctx) - hsize (nv_header nv)) (dyn_table h ctx)
     \<and> hd_table_bufsize_max ctx' = hd_table_bufsize_max ctx \<and> next_seq ctx' = next_seq ctx + 1 \<and> bad ctx' = bad ctx"

lemma add_hd_table_incremental_ok:
  assumes inv: "tbl_invar h ctx mp" and mem: "\<forall>n. mem n"
    and small: "unat (hd_table_bufsize ctx) + hsize (nv_header nv) < 2 ^ 32"
  shows "\<exists>h' ctx' mp'. add_hd_table_incremental mem h ctx nv token mp hash = Inr (Some (length h), h', ctx', mp')
    \<and> table_added h ctx mp nv token hash h' ctx' mp'"
proof -
  let ?room = "entry_room (namelen nv) (valuelen nv)" and ?x = "nv_header nv"
  let ?e = "added_entry ctx nv token hash"
  have room: "unat ?room = hsize ?x" using small by (intro unat_entry_room) simp
  from evict_loop_ok [OF inv, of ?room] small room obtain h1 ctx1 mp1 where
    ev: "evict_loop h ctx mp ?room = Inr (h1, ctx1, mp1)" and E: "evicted (unat (hd_table_bufsize_max ctx) - hsize ?x) h ctx mp h1 ctx1 mp1"
    by auto
  from E have inv1: "tbl_invar h1 ctx1 mp1" and core1: "same_core h h1" and seq1: "next_seq ctx1 = next_seq ctx"
    and dyn1: "dyn_table h1 ctx1 = fit (unat (hd_table_bufsize_max ctx) - hsize ?x) (dyn_table h ctx)"
    by (simp_all add: evicted_def)
  note D = tbl_invarD [OF inv1]
  have len: "length h1 = length h" using same_core_length [OF core1] by simp
  have old: "a < length h1" if "a \<in> set (rb_list (hd_table ctx1))" for a using D(2) [OF that] by (auto simp: deref_Inr)
  from ring.push_success [OF D(1) dyn_table_length [OF inv1] mem, of "length h"] obtain rb where
    rb: "hd_ringbuf_push_front mem (hd_table ctx1) (length h) = Inr (0, rb)" "rb_invar rb"
      "rb_list rb = length h # rb_list (hd_table ctx1)" .
  have "\<forall>m. mp1 = Some m \<longrightarrow> map_invar (h1 @ [Some ?e]) m (rb_list (hd_table ctx1))"
    using D(4) map_invar_append by blast
  from map_insert_opt_ok [OF this, of "length h" ?e] old len deref_new [of h1 ?e] obtain h2 mp2 where
    ins: "map_insert_opt (h1 @ [Some ?e]) mp1 (length h) = Inr (h2, mp2)" and core2: "same_core (h1 @ [Some ?e]) h2"
      "mp2 = None \<longleftrightarrow> mp1 = None" and mp2: "\<forall>m. mp2 = Some m \<longrightarrow> map_invar h2 m (length h # rb_list (hd_table ctx1))"
    by auto
  let ?ctx = "ctx1\<lparr>hd_table := rb, next_seq := next_seq ctx1 + 1, hd_table_bufsize := hd_table_bufsize ctx1 + ?room\<rparr>"
  have add: "add_hd_table_incremental mem h ctx nv token mp hash = Inr (Some (length h), h2, ?ctx, mp2)"
    using ev rb(1) ins seq1 len by (simp add: add_hd_table_incremental_def Let_def added_entry_def)
  have head: "header_at h2 a = header_at h1 a" "\<exists>e. deref h2 a = Inr e" if "a \<in> set (rb_list (hd_table ctx1))" for a
  proof -
    have a: "deref (h1 @ [Some ?e]) a = deref h1 a" using old [OF that] by (rule deref_append)
    with D(2) [OF that] obtain e where "deref (h1 @ [Some ?e]) a = Inr e" by auto
    moreover have "header_at (h1 @ [Some ?e]) a = header_at h1 a" using a by (simp add: header_at_def)
    ultimately show "header_at h2 a = header_at h1 a" "\<exists>e. deref h2 a = Inr e"
      using same_core_header_at [OF core2(1)] same_core_deref [OF core2(1)] by metis+
  qed
  have new: "header_at h2 (length h) = ?x" "\<exists>e. deref h2 (length h) = Inr e"
    using same_core_header_at [OF core2(1), of "length h" ?e] same_core_deref [OF core2(1), of "length h" ?e] deref_new [of h1 ?e] len
    by (auto simp: header_at_def nv_header_def)
  have dyn: "dyn_table h2 ?ctx = ?x # dyn_table h1 ctx1" using rb(3) head(1) new(1) by (simp add: dyn_table_def)
  have "unat (hd_table_bufsize ctx1 + ?room) = hsizes (dyn_table h2 ?ctx)"
  proof -
    have "unat (hd_table_bufsize ctx1) + hsize ?x < 2 ^ 32" using E small by (auto simp: evicted_def)
    then show ?thesis using room D(3) dyn by (simp add: unat_word_ariths)
  qed
  then have "tbl_invar h2 ?ctx mp2"
    using rb(2,3) head(2) new(2) mp2 by (auto simp: tbl_invar_def split: option.splits)
  moreover have "same_core (h @ [Some ?e]) h2"
    using core1 core2(1) by (simp add: same_core_def)
  ultimately have "table_added h ctx mp nv token hash h2 ?ctx mp2"
    using E core2(2) dyn dyn1 rb(3) seq1 by (auto simp: table_added_def evicted_def)
  with add show ?thesis by blast
qed

subsection \<open>Lookup\<close>

text \<open>The header at an index of the combined table, static entries first.\<close>

definition table_header :: "heap \<Rightarrow> http2_context \<Rightarrow> nat \<Rightarrow> header" where
  "table_header h ctx i =
     (if i < 61 then nv_header (ent_nv (static_table ! i)) else dyn_table h ctx ! (i - 61))"

lemma http2_hd_table_get_ok:
  assumes inv: "tbl_invar h ctx mp" and idx: "unat idx < 61 + length (dyn_table h ctx)"
  shows "\<exists>p e. http2_hd_table_get ctx idx = Inr p \<and> deref_entry h p = Inr e \<and> nv_header (ent_nv e) = table_header h ctx (unat idx)"
proof (cases "idx \<ge> HTTP2_STATIC_TABLE_LENGTH")
  case True
  note D = tbl_invarD [OF inv]
  have sub: "unat (idx - 61) = unat idx - 61" using True by (simp add: unat_sub word_le_nat_alt)
  have lt: "unat idx - 61 < length (rb_list (hd_table ctx))"
    using idx True by (simp add: dyn_table_def word_le_nat_alt)
  have "idx - 61 = of_nat (unat idx - 61)" using sub by (simp flip: sub)
  with ring.get [OF D(1) lt] have get: "hd_ringbuf_get (hd_table ctx) (idx - 61) = Inr (rb_list (hd_table ctx) ! (unat idx - 61))"
    by simp
  obtain e where e: "deref h (rb_list (hd_table ctx) ! (unat idx - 61)) = Inr e"
    using D(2) nth_mem [OF lt] by blast
  have "nv_header (ent_nv e) = table_header h ctx (unat idx)"
    using True e lt by (simp add: table_header_def dyn_table_def header_at_def word_le_nat_alt)
  with True get e show ?thesis by (simp add: http2_hd_table_get_def deref_entry_def)
next
  case False
  then have "unat idx < 61" by (simp add: word_le_nat_alt)
  with False show ?thesis
    by (simp add: http2_hd_table_get_def deref_entry_def table_header_def length_static_table)
qed

text \<open>Static entries of one token stand together.\<close>

lemma static_contiguous:
  assumes "i < 61" "j \<le> i" "ent_token (static_table ! i) \<le> int j"
  shows "ent_token (static_table ! j) = ent_token (static_table ! i)"
proof -
  have "list_all (\<lambda>i. list_all (\<lambda>j. snd (known_names ! j) = snd (known_names ! i)) [nat (snd (known_names ! i))..<i]) [0..<61]"
    by code_simp
  then have "\<forall>i \<in> {0..<61}. \<forall>j \<in> {nat (snd (known_names ! i))..<i}. snd (known_names ! j) = snd (known_names ! i)"
    by (simp only: list_all_iff set_upt)
  then have "snd (known_names ! j) = snd (known_names ! i)" if "nat (snd (known_names ! i)) \<le> j" "j < i"
    using that assms(1) by (meson atLeastLessThan_iff le0)
  with assms show ?thesis by (cases "j = i") (auto simp: static_nth_names)
qed

lemma search_static_loop_Some:
  "search_static_loop nv token i = Some j \<Longrightarrow>
     i \<le> j \<and> j < 61 \<and> ent_token (static_table ! j) = token \<and> nv_value (ent_nv (static_table ! j)) = nv_value nv"
proof (induction nv token i rule: search_static_loop.induct)
  case (1 nv token i)
  then show ?case
    by (subst (asm) (2) search_static_loop.simps) (auto simp: value_eq_def split: if_splits)
qed

lemma search_static_loop_None:
  "search_static_loop nv token i = None \<Longrightarrow> i \<le> j \<Longrightarrow> j < 61 \<Longrightarrow>
     (\<forall>k. i \<le> k \<longrightarrow> k \<le> j \<longrightarrow> ent_token (static_table ! k) = token) \<Longrightarrow> nv_value (ent_nv (static_table ! j)) \<noteq> nv_value nv"
proof (induction nv token i rule: search_static_loop.induct)
  case (1 nv token i)
  have "ent_token (static_table ! i) = token" "int i \<le> 60" using "1.prems" by auto
  with "1.prems"(1) have "\<not> value_eq (ent_nv (static_table ! i)) nv" "search_static_loop nv token (i + 1) = None"
    by (simp_all add: search_static_loop.simps [of nv token i] split: if_splits)
  with 1 show ?case by (cases "j = i") (auto simp: value_eq_def)
qed

lemma known_names_unique:
  "(n, t) \<in> set known_names \<Longrightarrow> (n', t) \<in> set known_names \<Longrightarrow> n = n'"
proof -
  have "list_all (\<lambda>(n, t). list_all (\<lambda>(n', t'). t = t' \<longrightarrow> n = n') known_names) known_names"
    by (simp add: known_names_def)
  then show "(n, t) \<in> set known_names \<Longrightarrow> (n', t) \<in> set known_names \<Longrightarrow> n = n'"
    by (auto simp: list_all_iff)
qed

lemma lookup_token_unique:
  assumes "length n < 2 ^ 32" "length n' < 2 ^ 32"
    and "lookup_token n (of_nat (length n)) = lookup_token n' (of_nat (length n'))"
    and "lookup_token n (of_nat (length n)) \<noteq> -1"
  shows "n = n'"
proof -
  let ?t = "lookup_token n (of_nat (length n))"
  have "(n, ?t) \<in> set known_tokens" "(n', ?t) \<in> set known_tokens"
    using lookup_token_known [OF assms(1)] lookup_token_known [OF assms(2)] assms(3,4) by (auto simp: known_def)
  then show ?thesis by (auto simp: known_tokens_names dest: known_names_unique)
qed

text \<open>What the encoder maintains of its entries, besides the table's invariant: the sequence numbers count down from
  the newest entry, and tokens and hashes are those of the names.\<close>

definition enc_entry :: "http2_entry \<Rightarrow> bool" where
  "enc_entry e \<longleftrightarrow> ent_token e = lookup_token (nv_name (ent_nv e)) (namelen (ent_nv e)) \<and> ent_hash e = name_hash (ent_nv e)
     \<and> length (nv_name (ent_nv e)) < 2 ^ 32"

definition enc_invar :: "heap \<Rightarrow> http2_context \<Rightarrow> http2_map \<Rightarrow> bool" where
  "enc_invar h ctx m \<longleftrightarrow>
     tbl_invar h ctx (Some m)
     \<and> (\<forall>i < length (rb_list (hd_table ctx)). \<exists>e. deref h (rb_list (hd_table ctx) ! i) = Inr e \<and> enc_entry e
          \<and> ent_seq e = next_seq ctx - 1 - of_nat i)"

lemma enc_invarD:
  assumes "enc_invar h ctx m"
  shows "tbl_invar h ctx (Some m)" "map_invar h m (rb_list (hd_table ctx))"
    "i < length (rb_list (hd_table ctx)) \<Longrightarrow> \<exists>e. deref h (rb_list (hd_table ctx) ! i) = Inr e \<and> enc_entry e
          \<and> ent_seq e = next_seq ctx - 1 - of_nat i"
  using assms by (auto simp: enc_invar_def intro: tbl_invarD(4))

text \<open>An entry of the map stands in the table at the position its sequence number gives, under the name that was
  looked up.\<close>

lemma matches_position:
  assumes inv: "enc_invar h ctx m" and len: "length (nv_name nv) < 2 ^ 32"
    and a: "a \<in> set (rb_list (hd_table ctx))" and mt: "matches h nv (lookup_token (nv_name nv) (namelen nv)) hash a"
  obtains i e where "i < length (dyn_table h ctx)" "deref h a = Inr e" "dyn_table h ctx ! i = nv_header (ent_nv e)"
    "nv_name (ent_nv e) = nv_name nv" "next_seq ctx - 1 - ent_seq e = of_nat i"
proof -
  from a obtain i where i: "i < length (rb_list (hd_table ctx))" "rb_list (hd_table ctx) ! i = a"
    by (auto simp: in_set_conv_nth)
  from enc_invarD(3) [OF inv i(1)] i(2) obtain e where e: "deref h a = Inr e" "enc_entry e"
    "ent_seq e = next_seq ctx - 1 - of_nat i" by auto
  have "nv_name (ent_nv e) = nv_name nv"
  proof (cases "lookup_token (nv_name nv) (namelen nv) = -1")
    case True
    then show ?thesis using mt e(1) by (simp add: matches_def name_eq_def)
  next
    case False
    with mt e(1,2) len show ?thesis
      using lookup_token_unique [of "nv_name nv" "nv_name (ent_nv e)"] by (simp add: matches_def enc_entry_def namelen_def)
  qed
  moreover have "dyn_table h ctx ! i = nv_header (ent_nv e)" using i e by (simp add: dyn_table_def header_at_def)
  ultimately show thesis using that [of i e] i(1) e by (simp add: dyn_table_def)
qed

lemma static_token_at:
  assumes "length name < 2 ^ 32" "lookup_token name (of_nat (length name)) = t" "0 \<le> t" "t \<le> 60"
  shows "ent_token (static_table ! nat t) = t" "nv_name (ent_nv (static_table ! nat t)) = name"
proof -
  from lookup_token_known [OF assms(1)] assms(2,3) have "(name, t) \<in> set known_tokens" by (auto simp: known_def)
  moreover have "(name, t) \<notin> set (map (\<lambda>(n, t). (bytes n, t)) extra_tokens)" using assms(4) by (auto simp: extra_tokens_def)
  ultimately obtain i where i: "i < 61" "nv_name (ent_nv (static_table ! i)) = name" "ent_token (static_table ! i) = t"
    by (auto simp: known_tokens_def in_set_conv_nth length_static_table)
  show "ent_token (static_table ! nat t) = t"
    using static_contiguous [OF i(1), of "nat t"] static_token_first(2) [OF i(1)] i(3) assms(3) by simp
  show "nv_name (ent_nv (static_table ! nat t)) = name" using static_token_first(3) [OF i(1)] i by simp
qed

lemma search_static_table_ok:
  assumes "0 \<le> token" "token \<le> 60" "ent_token (static_table ! nat token) = token"
    and "search_static_table nv token mode = r"
  shows "0 \<le> sr_index r \<and> sr_index r < 61 \<and> ent_token (static_table ! nat (sr_index r)) = token
    \<and> (sr_name_value_match r \<longrightarrow> nv_value (ent_nv (static_table ! nat (sr_index r))) = nv_value nv)"
  using assms(1-3) search_static_loop_Some [of nv token "nat token"]
  unfolding assms(4) [symmetric] by (auto simp: search_static_table_def split: option.splits)

lemma search_static_table_None:
  assumes "\<not> sr_name_value_match (search_static_table nv token mode)" "mode \<noteq> HTTP2_NEVER_INDEXING"
    and "i < 61" "ent_token (static_table ! i) = token"
  shows "nv_value (ent_nv (static_table ! i)) \<noteq> nv_value nv"
proof -
  have none: "search_static_loop nv token (nat token) = None"
    using assms(1,2) by (auto simp: search_static_table_def split: option.splits)
  have "ent_token (static_table ! k) = token" if "nat token \<le> k" "k \<le> i" for k
    using static_contiguous [OF assms(3) that(2)] that(1) assms(4) by simp
  with search_static_loop_None [OF none _ assms(3)] static_token_first(2) [OF assms(3)] assms(4) show ?thesis by auto
qed

lemma sint_index: "i < 2 ^ 31 \<Longrightarrow> sint (of_nat i :: u32) = int i"
  by (simp add: signed_of_nat signed_take_bit_int_eq_self)

text \<open>The search result \<open>r\<close> is a correct description of where \<open>nv\<close> stands in the combined table.\<close>

definition search_ok :: "heap \<Rightarrow> http2_context \<Rightarrow> http2_nv \<Rightarrow> search_result \<Rightarrow> bool" where
  "search_ok h ctx nv r \<longleftrightarrow>
     (if sr_index r = -1 then \<not> sr_name_value_match r
      else 0 \<le> sr_index r \<and> nat (sr_index r) < 61 + length (dyn_table h ctx)
        \<and> fst (table_header h ctx (nat (sr_index r))) = nv_name nv
        \<and> (sr_name_value_match r \<longrightarrow> table_header h ctx (nat (sr_index r)) = nv_header nv))"

definition static_result :: "http2_nv \<Rightarrow> http2_indexing_mode \<Rightarrow> search_result" where
  "static_result nv mode =
     (let token = lookup_token (nv_name nv) (namelen nv) in
      if 0 \<le> token \<and> token \<le> 60 then search_static_table nv token mode else \<lparr>sr_index = -1, sr_name_value_match = False\<rparr>)"

lemma static_result_ok:
  assumes len: "length (nv_name nv) < 2 ^ 32"
  shows "search_ok h ctx nv (static_result nv mode)"
proof (cases "0 \<le> lookup_token (nv_name nv) (namelen nv) \<and> lookup_token (nv_name nv) (namelen nv) \<le> 60")
  case True
  let ?t = "lookup_token (nv_name nv) (namelen nv)" and ?r = "static_result nv mode"
  note tok = static_token_at [OF len _ conjunct1 [OF True] conjunct2 [OF True], unfolded namelen_def, OF refl, folded namelen_def]
  have r: "search_static_table nv ?t mode = ?r" using True by (simp add: static_result_def)
  note st = search_static_table_ok [OF conjunct1 [OF True] conjunct2 [OF True] tok(1) r]
  have "nv_name (ent_nv (static_table ! nat (sr_index ?r))) = nv_name nv"
    using static_token_first(3) [of "nat (sr_index ?r)"] st tok by auto
  with st show ?thesis by (auto simp: search_ok_def table_header_def nv_header_def)
next
  case False
  then show ?thesis by (auto simp: static_result_def search_ok_def)
qed

lemma search_hd_table_ok:
  assumes inv: "enc_invar h ctx m" and len: "length (nv_name nv) < 2 ^ 32"
    and tok: "token = lookup_token (nv_name nv) (namelen nv)" and hash: "hash = name_hash nv"
  shows "\<exists>r. search_hd_table h ctx nv token mode m hash = Inr r \<and> search_ok h ctx nv r"
proof (cases "sr_name_value_match (static_result nv mode)")
  case True
  then have "search_hd_table h ctx nv token mode m hash = Inr (static_result nv mode)"
    by (simp add: search_hd_table_def static_result_def tok Let_def split: if_splits)
  with static_result_ok [OF len] show ?thesis by blast
next
  case False
  let ?r = "static_result nv mode"
  obtain a em where find: "hd_map_find h m nv token hash = Inr (a, em)"
    using hmap.lookup [OF enc_invarD(2) [OF inv]] by (metis surj_pair)
  have unfold: "search_hd_table h ctx nv token mode m hash =
     (case a of None \<Rightarrow> Inr ?r | Some a \<Rightarrow>
        if sr_index ?r \<noteq> -1 \<and> \<not> em then Inr ?r
        else bind_exec (deref h a) (\<lambda>e. Inr \<lparr>sr_index = sint (next_seq ctx - 1 - ent_seq e + 61), sr_name_value_match = em\<rparr>))"
    using False find by (auto simp: search_hd_table_def static_result_def tok Let_def split: if_splits option.splits)
  show ?thesis
  proof (cases a)
    case None
    with unfold static_result_ok [OF len] show ?thesis by auto
  next
    case (Some b)
    note sound = hmap.lookup_sound [OF enc_invarD(2) [OF inv] find [unfolded Some]]
    then obtain i e where pos: "i < length (dyn_table h ctx)" "deref h b = Inr e" "dyn_table h ctx ! i = nv_header (ent_nv e)"
      "nv_name (ent_nv e) = nv_name nv" "next_seq ctx - 1 - ent_seq e = of_nat i"
      using matches_position [OF inv len, of b hash] unfolding tok by metis
    have "i < 2 ^ 27"
      using pos(1) hsizes_length [of "dyn_table h ctx"] unat_bound [of "hd_table_bufsize ctx"]
      by (simp add: tbl_invarD(3) [OF enc_invarD(1) [OF inv]])
    then have idx: "sint (next_seq ctx - 1 - ent_seq e + 61) = int (i + 61)"
      using pos(5) sint_index [of "i + 61"] by (simp add: add.commute)
    have "em \<longrightarrow> nv_value (ent_nv e) = nv_value nv" using sound pos(2) by (simp add: exact_def value_eq_def)
    then have "search_ok h ctx nv \<lparr>sr_index = int (i + 61), sr_name_value_match = em\<rparr>"
      using pos by (auto simp: search_ok_def table_header_def nv_header_def nat_add_distrib)
    with unfold Some pos(2) idx static_result_ok [OF len] show ?thesis by auto
  qed
qed

lemma dyn_exact:
  assumes inv: "enc_invar h ctx m" and x: "nv_header nv \<in> set (dyn_table h ctx)"
  shows "\<exists>a \<in> set (rb_list (hd_table ctx)). exact h nv (lookup_token (nv_name nv) (namelen nv)) (name_hash nv) a"
proof -
  from x obtain i where i: "i < length (rb_list (hd_table ctx))" "header_at h (rb_list (hd_table ctx) ! i) = nv_header nv"
    by (auto simp: dyn_table_def in_set_conv_nth)
  from enc_invarD(3) [OF inv i(1)] obtain e where e: "deref h (rb_list (hd_table ctx) ! i) = Inr e" "enc_entry e" by blast
  have "nv_name (ent_nv e) = nv_name nv" "nv_value (ent_nv e) = nv_value nv"
    using i(2) e(1) by (simp_all add: header_at_def nv_header_def)
  then have "exact h nv (lookup_token (nv_name nv) (namelen nv)) (name_hash nv) (rb_list (hd_table ctx) ! i)"
    using e by (simp add: exact_def matches_def enc_entry_def name_eq_def value_eq_def namelen_def name_hash_def)
  with nth_mem [OF i(1)] show ?thesis ..
qed

lemma search_hd_table_complete:
  assumes inv: "enc_invar h ctx m" and x: "nv_header nv \<in> set (dyn_table h ctx)"
    and r: "search_hd_table h ctx nv (lookup_token (nv_name nv) (namelen nv)) mode m (name_hash nv) = Inr r"
  shows "sr_name_value_match r"
proof -
  obtain a em where find: "hd_map_find h m nv (lookup_token (nv_name nv) (namelen nv)) (name_hash nv) = Inr (a, em)"
    using hmap.lookup [OF enc_invarD(2) [OF inv]] by (metis surj_pair)
  from hmap.lookup_complete [OF enc_invarD(2) [OF inv] find] dyn_exact [OF inv x] have "em" "a \<noteq> None"
    by (auto simp: exact_def)
  with r find show ?thesis
    by (auto simp: search_hd_table_def Let_def bind_exec_Inr_iff split: if_splits option.splits)
qed

subsection \<open>Runs of table operations\<close>

text \<open>The operations by which a decoder changes its table: adding a header, and a new size limit as
  \<^verbatim>\<open>HTTP2_STATE_READ_TABLE_SIZE\<close> of \<^verbatim>\<open>http2_inflate_hd2\<close> sets it.\<close>

datatype tbl_op = TAdd http2_nv int | TResize u32

fun tbl_run :: "(u32 \<Rightarrow> bool) \<Rightarrow> tbl_op list \<Rightarrow> heap \<Rightarrow> http2_context \<Rightarrow> (heap \<times> http2_context) exec" where
  "tbl_run mem [] h ctx = Inr (h, ctx)"
| "tbl_run mem (TAdd nv token # ops) h ctx =
     bind_exec (add_hd_table_incremental mem h ctx nv token None 0) (\<lambda>(a, h, ctx, mp). tbl_run mem ops h ctx)"
| "tbl_run mem (TResize n # ops) h ctx =
     bind_exec (hd_context_shrink_table_size h (ctx\<lparr>hd_table_bufsize_max := n\<rparr>) None) (\<lambda>(h, ctx, mp). tbl_run mem ops h ctx)"

text \<open>The table of RFC 7541: after either operation the newest headers that fit remain.\<close>

fun rfc_run :: "tbl_op list \<Rightarrow> nat \<Rightarrow> header list \<Rightarrow> header list" where
  "rfc_run [] m xs = xs"
| "rfc_run (TAdd nv token # ops) m xs = rfc_run ops m (fit m (nv_header nv # xs))"
| "rfc_run (TResize n # ops) m xs = rfc_run ops (unat n) (fit (unat n) xs)"

text \<open>Every added header is no larger than the limit in force.\<close>

fun rfc_fits :: "tbl_op list \<Rightarrow> nat \<Rightarrow> bool" where
  "rfc_fits [] m \<longleftrightarrow> True"
| "rfc_fits (TAdd nv token # ops) m \<longleftrightarrow> hsize (nv_header nv) \<le> m \<and> rfc_fits ops m"
| "rfc_fits (TResize n # ops) m \<longleftrightarrow> unat n < 2 ^ 31 \<and> rfc_fits ops (unat n)"

lemma tbl_run_ok:
  assumes "tbl_invar h ctx None" and "\<forall>n. mem n" and "unat (hd_table_bufsize_max ctx) < 2 ^ 31"
    and "hsizes (dyn_table h ctx) \<le> unat (hd_table_bufsize_max ctx)" and "rfc_fits ops (unat (hd_table_bufsize_max ctx))"
  shows "\<exists>h' ctx'. tbl_run mem ops h ctx = Inr (h', ctx') \<and> tbl_invar h' ctx' None
    \<and> dyn_table h' ctx' = rfc_run ops (unat (hd_table_bufsize_max ctx)) (dyn_table h ctx)
    \<and> unat (hd_table_bufsize ctx') \<le> unat (hd_table_bufsize_max ctx')"
  using assms(1,3-5)
proof (induction ops arbitrary: h ctx)
  case Nil
  then show ?case by (simp add: tbl_invarD(3))
next
  case (Cons a ops)
  let ?max = "unat (hd_table_bufsize_max ctx)"
  show ?case
  proof (cases a)
    case (TAdd nv token)
    have small: "unat (hd_table_bufsize ctx) + hsize (nv_header nv) < 2 ^ 32"
      using Cons.prems TAdd tbl_invarD(3) [OF Cons.prems(1)] by simp
    from add_hd_table_incremental_ok [OF Cons.prems(1) assms(2) this, of token 0] obtain h1 ctx1 mp1 where
      add: "add_hd_table_incremental mem h ctx nv token None 0 = Inr (Some (length h), h1, ctx1, mp1)"
        "table_added h ctx None nv token 0 h1 ctx1 mp1" by blast
    then have T: "tbl_invar h1 ctx1 None" "dyn_table h1 ctx1 = fit ?max (nv_header nv # dyn_table h ctx)"
      "hd_table_bufsize_max ctx1 = hd_table_bufsize_max ctx"
      using Cons.prems(4) TAdd by (auto simp: table_added_def)
    with Cons.IH [OF T(1)] Cons.prems TAdd add(1) hsizes_fit [of ?max] show ?thesis by (simp del: fit.simps)
  next
    case (TResize n)
    let ?ctx = "ctx\<lparr>hd_table_bufsize_max := n\<rparr>"
    have "tbl_invar h ?ctx None" using Cons.prems(1) by (simp add: tbl_invar_def dyn_table_def)
    moreover have "unat (hd_table_bufsize ?ctx) + unat 0 < 2 ^ 32"
      using unat_bound [of "hd_table_bufsize ctx"] by simp
    ultimately obtain h1 ctx1 mp1 where
      ev: "evict_loop h ?ctx None 0 = Inr (h1, ctx1, mp1)" "evicted (unat n) h ?ctx None h1 ctx1 mp1"
      using evict_loop_ok [of h ?ctx None 0] by auto
    then have T: "tbl_invar h1 ctx1 None" "dyn_table h1 ctx1 = fit (unat n) (dyn_table h ctx)" "hd_table_bufsize_max ctx1 = n"
      by (auto simp: evicted_def dyn_table_def)
    with Cons.IH [OF T(1)] Cons.prems TResize ev(1) hsizes_fit [of "unat n"] show ?thesis
      by (simp add: shrink_eq_evict)
  qed
qed

lemma http2_context_ctor_ok:
  assumes "\<forall>n. mem n"
  shows "\<exists>ctx. http2_context_ctor mem = Inr ctx \<and> tbl_invar h ctx None \<and> dyn_table h ctx = []
    \<and> hd_table_bufsize_max ctx = 4096 \<and> rb_list (hd_table ctx) = [] \<and> \<not> bad ctx"
proof -
  from http2_ringbuf_ctor_ok [OF _ _ assms, of 128] obtain rb :: "addr http2_ringbuf" where
    "http2_ringbuf_ctor mem 128 = Inr rb" "rb_invar rb" "rb_list rb = []" by auto
  then show ?thesis by (simp add: http2_context_ctor_def tbl_invar_def dyn_table_def)
qed

subsection \<open>Properties\<close>

text \<open>C7. The dynamic table implements the one of RFC 7541: on a newly constructed context, every run of additions
  and of size changes to limits below \<open>2 ^ 31\<close>, where no added header is larger than the limit in force, ends with the ring buffer holding
  exactly the headers that remain when after each operation the oldest are dropped until the rest fits; the size
  counter is the sum of the entries' sizes and never exceeds the limit. Nothing is read out of bounds on the way.\<close>

theorem dynamic_table_refines_rfc:
  assumes "\<forall>n. mem n" and "rfc_fits ops 4096"
  shows "\<exists>ctx0 h ctx. http2_context_ctor mem = Inr ctx0 \<and> tbl_run mem ops [] ctx0 = Inr (h, ctx)
    \<and> dyn_table h ctx = rfc_run ops 4096 []
    \<and> unat (hd_table_bufsize ctx) = hsizes (rfc_run ops 4096 [])
    \<and> unat (hd_table_bufsize ctx) \<le> unat (hd_table_bufsize_max ctx)"
proof -
  from http2_context_ctor_ok [OF assms(1), of "[]"] obtain ctx0 where
    c: "http2_context_ctor mem = Inr ctx0" "tbl_invar [] ctx0 None" "dyn_table [] ctx0 = []"
      "hd_table_bufsize_max ctx0 = 4096" by blast
  with tbl_run_ok [OF c(2) assms(1), of ops] assms(2) show ?thesis by (auto simp: tbl_invarD(3))
qed

theorem dynamic_table_refines_rfc_witness:
  defines "nv \<equiv> \<lambda>n v. \<lparr>nv_name = bytes n, nv_value = bytes v, nv_flags = 0\<rparr>"
  shows "\<exists>ctx0 h ctx. http2_context_ctor (\<lambda>n. True) = Inr ctx0
    \<and> tbl_run (\<lambda>n. True) [TAdd (nv ''a'' ''1'') (-1), TResize 80, TAdd (nv ''b'' ''22'') (-1), TAdd (nv ''c'' ''3'') (-1)] [] ctx0
        = Inr (h, ctx)
    \<and> dyn_table h ctx = rfc_run [TAdd (nv ''a'' ''1'') (-1), TResize 80, TAdd (nv ''b'' ''22'') (-1), TAdd (nv ''c'' ''3'') (-1)] 4096 []
    \<and> unat (hd_table_bufsize ctx)
        = hsizes (rfc_run [TAdd (nv ''a'' ''1'') (-1), TResize 80, TAdd (nv ''b'' ''22'') (-1), TAdd (nv ''c'' ''3'') (-1)] 4096 [])
    \<and> unat (hd_table_bufsize ctx) \<le> unat (hd_table_bufsize_max ctx)"
  by (rule dynamic_table_refines_rfc) (simp_all add: nv_def hsize_def nv_header_def)

text \<open>\<^verbatim>\<open>add_hd_table_incremental\<close> has no case for a header that is larger than the limit: RFC 7541 section 4.4 has such
  an addition empty the table, but the code evicts everything and then stores the header all the same, so that
  the table is over its limit.\<close>

lemma oversized_header_is_added:
  assumes "tbl_invar h ctx mp" and "\<forall>n. mem n" and "unat (hd_table_bufsize_max ctx) < hsize (nv_header nv)"
    and "unat (hd_table_bufsize ctx) + hsize (nv_header nv) < 2 ^ 32"
  shows "\<exists>h' ctx' mp'. add_hd_table_incremental mem h ctx nv token mp hash = Inr (Some (length h), h', ctx', mp')
    \<and> dyn_table h' ctx' = [nv_header nv]
    \<and> fit (unat (hd_table_bufsize_max ctx)) (nv_header nv # dyn_table h ctx) = []
    \<and> unat (hd_table_bufsize_max ctx') < unat (hd_table_bufsize ctx')"
proof -
  from add_hd_table_incremental_ok [OF assms(1,2,4), of token hash] obtain h' ctx' mp' where
    a: "add_hd_table_incremental mem h ctx nv token mp hash = Inr (Some (length h), h', ctx', mp')"
    and t: "table_added h ctx mp nv token hash h' ctx' mp'" by blast
  have "fit 0 xs = []" for xs by (cases xs) (simp_all add: hsize_def)
  with t assms(3) have "dyn_table h' ctx' = [nv_header nv]" by (simp add: table_added_def)
  moreover from this t have "unat (hd_table_bufsize ctx') = hsize (nv_header nv)"
    by (auto simp: table_added_def tbl_invarD(3))
  ultimately show ?thesis using a t assms(3) by (auto simp: table_added_def)
qed

text \<open>The encoder's search never misdirects the decoder: for a table that satisfies the encoder's invariant, the
  index \<^verbatim>\<open>search_hd_table\<close> reports, if any, is an index of the combined table whose entry has the name that was looked
  for, and the same value when a full match is reported; a header that is in the dynamic table is always found as a
  full match.\<close>

lemma search_hd_table_correct:
  assumes "enc_invar h ctx m" and "length (nv_name nv) < 2 ^ 32"
  shows "\<exists>r. search_hd_table h ctx nv (lookup_token (nv_name nv) (namelen nv)) mode m (name_hash nv) = Inr r
    \<and> search_ok h ctx nv r \<and> (nv_header nv \<notin> set (dyn_table h ctx) \<or> sr_name_value_match r)"
  using search_hd_table_ok [OF assms refl refl, of mode] search_hd_table_complete [OF assms(1), of nv mode] by blast

end
