(* ===== verification/Hpack_Deflate.thy ===== *)
theory Hpack_Deflate
  imports Huffman Hpack_Integer Header_Table
begin

text \<open>
  The HPACK encoder of \<^verbatim>\<open>src/src/http/http2.cpp\<close>: the \<^verbatim>\<open>emit_*\<close> functions, \<^verbatim>\<open>hd_deflate_decide_indexing\<close>, \<^verbatim>\<open>deflate_nv\<close> and the
  class \<^verbatim>\<open>http2_deflater\<close>. Functions that append to \<^verbatim>\<open>bufs\<close> return it together with their return value. The 16-byte
  array \<^verbatim>\<open>sb\<close> is the list of the bytes \<^verbatim>\<open>encode_length\<close> writes into it.

  The specification is a decoder for the representations of RFC 7541, section 6, over a list of headers (\<open>rfc_field\<close>).
  It shares nothing with the code but the Huffman decoder, which is exact for the code table (theory \<open>Huffman\<close>).
\<close>

definition emit_indexed_block :: "buffer \<Rightarrow> u32 \<Rightarrow> int \<times> buffer" where
  "emit_indexed_block bufs idx =
     (let blocklen = count_encoded_length (idx + 1) 7 in
      if 16 < blocklen then (-1, bufs)
      else (0, bufs @ take (unat blocklen) (encode_length 0x80 (idx + 1) 7)))"

definition emit_string :: "buffer \<Rightarrow> buffer \<Rightarrow> (int \<times> buffer) exec" where
  "emit_string bufs src =
     (let len = of_nat (length src) :: u32;
          str = take (unat len) src;
          enclen = http2_huffman_encode_count str;
          huffman = enclen < len;
          enclen = (if huffman then enclen else len);
          blocklen = count_encoded_length enclen 7
      in if 16 < blocklen then Inr (-1, bufs)
         else
           let bufs = bufs @ take (unat blocklen) (encode_length (if huffman then 128 else 0) enclen 7) in
           if huffman then bind_exec (http2_huffman_encode bufs str) (\<lambda>(bufs, rv). Inr (rv, bufs))
           else Inr (0, bufs @ str))"

fun pack_first_byte :: "http2_indexing_mode \<Rightarrow> u8" where
  "pack_first_byte HTTP2_WITH_INDEXING = 0x40"
| "pack_first_byte HTTP2_WITHOUT_INDEXING = 0"
| "pack_first_byte HTTP2_NEVER_INDEXING = 0x10"

definition emit_indname_block :: "buffer \<Rightarrow> u32 \<Rightarrow> http2_nv \<Rightarrow> http2_indexing_mode \<Rightarrow> (int \<times> buffer) exec" where
  "emit_indname_block bufs idx nv indexing_mode =
     (let prefixlen = (if indexing_mode = HTTP2_WITH_INDEXING then 6 else 4);
          blocklen = count_encoded_length (idx + 1) prefixlen
      in if 16 < blocklen then Inr (-1, bufs)
         else emit_string (bufs @ take (unat blocklen) (encode_length (pack_first_byte indexing_mode) (idx + 1) prefixlen))
                (nv_value nv))"

definition http2_bufs_addb :: "buffer \<Rightarrow> u8 \<Rightarrow> buffer" where
  "http2_bufs_addb bufs b = bufs @ [b]"

definition emit_newname_block :: "buffer \<Rightarrow> http2_nv \<Rightarrow> http2_indexing_mode \<Rightarrow> (int \<times> buffer) exec" where
  "emit_newname_block bufs nv indexing_mode =
     bind_exec (emit_string (http2_bufs_addb bufs (pack_first_byte indexing_mode)) (nv_name nv)) (\<lambda>(rv, bufs).
       if rv \<noteq> 0 then Inr (rv, bufs) else emit_string bufs (nv_value nv))"

record http2_deflater =
  df_ctx :: http2_context
  df_map :: http2_map
  deflate_hd_table_bufsize_max :: u32
  min_hd_table_bufsize_max :: u32
  notify_table_size_change :: bool

definition http2_deflater_ctor :: "(u32 \<Rightarrow> bool) \<Rightarrow> http2_deflater exec" where
  "http2_deflater_ctor mem =
     bind_exec (http2_context_ctor mem) (\<lambda>ctx.
       let deflate_max = 0 in
       Inr (if deflate_max < HTTP2_DEFAULT_MAX_BUFFER_SIZE
            then \<lparr>df_ctx = ctx\<lparr>hd_table_bufsize_max := deflate_max\<rparr>, df_map = empty_map,
                  deflate_hd_table_bufsize_max = deflate_max, min_hd_table_bufsize_max = UINT32_MAX,
                  notify_table_size_change = True\<rparr>
            else \<lparr>df_ctx = ctx, df_map = empty_map,
                  deflate_hd_table_bufsize_max = deflate_max, min_hd_table_bufsize_max = UINT32_MAX,
                  notify_table_size_change = False\<rparr>))"

definition hd_deflate_decide_indexing :: "http2_deflater \<Rightarrow> http2_nv \<Rightarrow> int \<Rightarrow> http2_indexing_mode" where
  "hd_deflate_decide_indexing d nv token =
     (if token = HTTP2_TOKEN__PATH \<or> token = HTTP2_TOKEN_AGE \<or> token = HTTP2_TOKEN_CONTENT_LENGTH \<or>
         token = HTTP2_TOKEN_ETAG \<or> token = HTTP2_TOKEN_IF_MODIFIED_SINCE \<or> token = HTTP2_TOKEN_IF_NONE_MATCH \<or>
         token = HTTP2_TOKEN_LOCATION \<or> token = HTTP2_TOKEN_SET_COOKIE \<or>
         entry_room (namelen nv) (valuelen nv) > hd_table_bufsize_max (df_ctx d) * 3 div 4
      then HTTP2_WITHOUT_INDEXING else HTTP2_WITH_INDEXING)"

abbreviation (input) HTTP2_NV_FLAG_NO_INDEX :: u8 where "HTTP2_NV_FLAG_NO_INDEX \<equiv> 1"

definition deflate_hash :: "http2_nv \<Rightarrow> int \<Rightarrow> u32" where
  "deflate_hash nv token =
     (if token = -1 \<or> token > HTTP2_TOKEN_WWW_AUTHENTICATE then name_hash nv else ent_hash (static_table ! nat token))"

definition deflate_mode :: "http2_deflater \<Rightarrow> http2_nv \<Rightarrow> int \<Rightarrow> http2_indexing_mode" where
  "deflate_mode d nv token =
     (if token = HTTP2_TOKEN_AUTHORIZATION \<or> (token = HTTP2_TOKEN_COOKIE \<and> valuelen nv < 20)
         \<or> nv_flags nv AND HTTP2_NV_FLAG_NO_INDEX \<noteq> 0
      then HTTP2_NEVER_INDEXING else hd_deflate_decide_indexing d nv token)"

text \<open>The part of \<^verbatim>\<open>deflate_nv\<close> that adds the header to the dynamic table. The result tells whether that worked.\<close>

definition deflate_add :: "(u32 \<Rightarrow> bool) \<Rightarrow> heap \<Rightarrow> http2_deflater \<Rightarrow> http2_nv \<Rightarrow> int \<Rightarrow> int \<Rightarrow> u32
    \<Rightarrow> (bool \<times> heap \<times> http2_deflater) exec" where
  "deflate_add mem h d nv idx token hash =
     bind_exec
       (if idx \<noteq> -1 \<and> idx < 61
        then bind_exec (http2_hd_table_get (df_ctx d) (word_of_int idx)) (\<lambda>p.
             bind_exec (deref_entry h p) (\<lambda>e. Inr (nv\<lparr>nv_name := nv_name (ent_nv e)\<rparr>)))
        else Inr nv)
       (\<lambda>nv. bind_exec (add_hd_table_incremental mem h (df_ctx d) nv token (Some (df_map d)) hash) (\<lambda>(new_ent, h, ctx, mp).
          Inr (new_ent \<noteq> None, h, d\<lparr>df_ctx := ctx, df_map := (case mp of Some m \<Rightarrow> m | None \<Rightarrow> df_map d)\<rparr>)))"

definition deflate_nv :: "(u32 \<Rightarrow> bool) \<Rightarrow> heap \<Rightarrow> http2_deflater \<Rightarrow> buffer \<Rightarrow> http2_nv
    \<Rightarrow> (int \<times> heap \<times> http2_deflater \<times> buffer) exec" where
  "deflate_nv mem h d bufs nv =
     (let token = lookup_token (nv_name nv) (namelen nv);
          hash = deflate_hash nv token;
          indexing_mode = deflate_mode d nv token
      in bind_exec (search_hd_table h (df_ctx d) nv token indexing_mode (df_map d) hash) (\<lambda>res.
           let idx = sr_index res in
           if sr_name_value_match res
           then let (rv, bufs) = emit_indexed_block bufs (word_of_int idx) in Inr (rv, h, d, bufs)
           else
             bind_exec
               (if indexing_mode = HTTP2_WITH_INDEXING then deflate_add mem h d nv idx token hash else Inr (True, h, d))
               (\<lambda>(ok, h, d).
                  if \<not> ok then Inr (-1, h, d, bufs)
                  else bind_exec
                    (if idx = -1 then emit_newname_block bufs nv indexing_mode
                     else emit_indname_block bufs (word_of_int idx) nv indexing_mode)
                    (\<lambda>(rv, bufs). Inr (rv, h, d, bufs)))))"

fun http2_deflate_loop :: "(u32 \<Rightarrow> bool) \<Rightarrow> heap \<Rightarrow> http2_deflater \<Rightarrow> buffer \<Rightarrow> http2_nv list
    \<Rightarrow> (int \<times> heap \<times> http2_deflater \<times> buffer) exec" where
  "http2_deflate_loop mem h d bufs [] = Inr (0, h, d, bufs)"
| "http2_deflate_loop mem h d bufs (nv # nvs) =
     bind_exec (deflate_nv mem h d bufs nv) (\<lambda>(rv, h, d, bufs).
       if rv \<noteq> 0 then Inr (rv, h, d\<lparr>df_ctx := (df_ctx d)\<lparr>bad := True\<rparr>\<rparr>, bufs)
       else http2_deflate_loop mem h d bufs nvs)"

definition http2_deflate_hd_bufs :: "(u32 \<Rightarrow> bool) \<Rightarrow> heap \<Rightarrow> http2_deflater \<Rightarrow> buffer \<Rightarrow> http2_nv list
    \<Rightarrow> (int \<times> heap \<times> http2_deflater \<times> buffer) exec" where
  "http2_deflate_hd_bufs mem h d bufs nvs =
     (if bad (df_ctx d) then Inr (-1, h, d, bufs) else http2_deflate_loop mem h d bufs nvs)"

subsection \<open>The representations of RFC 7541\<close>

definition rfc_huffman :: "buffer \<Rightarrow> buffer option" where
  "rfc_huffman s =
     (case http2_huffman_decode http2_huffman_decode_context_init [] s True of
        (ctx, out, rv) \<Rightarrow> if rv = -1 then None else Some out)"

definition rfc_string :: "buffer \<Rightarrow> (buffer \<times> buffer) option" where
  "rfc_string bs =
     (case rfc_int 7 bs of
        None \<Rightarrow> None
      | Some (n, r) \<Rightarrow>
          if length r < n then None
          else if bit (hd bs) 7 then map_option (\<lambda>s. (s, drop n r)) (rfc_huffman (take n r))
          else Some (take n r, drop n r))"

definition rfc_table :: "header list \<Rightarrow> nat \<Rightarrow> header option" where
  "rfc_table dt i =
     (if i < 61 then Some (nv_header (ent_nv (static_table ! i)))
      else if i - 61 < length dt then Some (dt ! (i - 61)) else None)"

text \<open>A literal: a name, by index or spelled out, and a value.\<close>

definition rfc_literal :: "nat \<Rightarrow> header list \<Rightarrow> buffer \<Rightarrow> (header \<times> buffer) option" where
  "rfc_literal prefix dt bs =
     (case rfc_int prefix bs of
        None \<Rightarrow> None
      | Some (i, r) \<Rightarrow>
          (case (if i = 0 then rfc_string r else map_option (\<lambda>x. (fst x, r)) (rfc_table dt (i - 1))) of
             None \<Rightarrow> None
           | Some (n, r) \<Rightarrow> map_option (\<lambda>(v, r). ((n, v), r)) (rfc_string r)))"

text \<open>One header field: the header, the table afterwards and the rest of the input. A size update is no field.\<close>

definition rfc_field :: "nat \<Rightarrow> header list \<Rightarrow> buffer \<Rightarrow> (header \<times> header list \<times> buffer) option" where
  "rfc_field m dt bs =
     (case bs of
        [] \<Rightarrow> None
      | b # _ \<Rightarrow>
          if 128 \<le> unat b then
            (case rfc_int 7 bs of
               None \<Rightarrow> None
             | Some (i, r) \<Rightarrow> if i = 0 then None else map_option (\<lambda>x. (x, dt, r)) (rfc_table dt (i - 1)))
          else if 64 \<le> unat b then map_option (\<lambda>(x, r). (x, fit m (x # dt), r)) (rfc_literal 6 dt bs)
          else if 32 \<le> unat b then None
          else map_option (\<lambda>(x, r). (x, dt, r)) (rfc_literal 4 dt bs))"

fun rfc_fields :: "nat \<Rightarrow> nat \<Rightarrow> header list \<Rightarrow> buffer \<Rightarrow> (header list \<times> header list \<times> buffer) option" where
  "rfc_fields 0 m dt bs = Some ([], dt, bs)"
| "rfc_fields (Suc k) m dt bs =
     (case rfc_field m dt bs of
        None \<Rightarrow> None
      | Some (x, dt, bs) \<Rightarrow> map_option (\<lambda>(xs, dt, bs). (x # xs, dt, bs)) (rfc_fields k m dt bs))"

subsection \<open>Strings\<close>

text \<open>Strings for which the 32-bit arithmetic on lengths cannot wrap.\<close>

definition small_string :: "buffer \<Rightarrow> bool" where
  "small_string s \<longleftrightarrow> 30 * length s + 7 < 2 ^ 32"

lemma huffman_string:
  assumes "small_string s"
  shows "\<exists>enc. http2_huffman_encode bufs s = Inr (bufs @ enc, 0) \<and> length enc = unat (http2_huffman_encode_count s)
    \<and> rfc_huffman enc = Some s"
proof -
  from http2_huffman_encode_bits_eq [of bufs s] obtain enc k where
    enc: "http2_huffman_encode bufs s = Inr (bufs @ enc, 0)" "bytes_bits enc = concat (map code_bits s) @ replicate k True" "k < 8"
    by blast
  from http2_huffman_decode_ok [OF enc(2,3), of "[]" True] obtain ctx where
    "http2_huffman_decode http2_huffman_decode_context_init [] enc True = (ctx, s, int (length enc))" by auto
  then have "rfc_huffman enc = Some s" by (simp add: rfc_huffman_def)
  with enc http2_huffman_encode_count_eq [OF enc(2,3)] assms show ?thesis by (auto simp: small_string_def)
qed

lemma take_encode_length: "take (unat (count_encoded_length n prefix)) (encode_length b n prefix) = encode_length b n prefix"
  using length_encode_length [of b n prefix] by simp

lemma blocklen_ok: "\<not> 16 < count_encoded_length n prefix"
  using length_encode_length [of 0 n prefix] by (simp add: word_less_nat_alt)

lemmas encode_block = take_encode_length blocklen_ok

lemma hd_encode_length: "hd (encode_length b n prefix @ rest) = hd (encode_length b n prefix)"
  by (simp add: hd_append encode_length_nonempty)

lemma encode_length_top:
  "bit (hd (encode_length b n 7)) 7 \<longleftrightarrow> bit b 7"
proof -
  have "bit (drop_bit 7 (hd (encode_length b n 7))) 0 \<longleftrightarrow> bit (drop_bit 7 b) 0"
    using encode_length_first [of 7 b n] by simp
  then show ?thesis by (simp add: bit_drop_bit_eq)
qed

lemma emit_string_ok:
  assumes "small_string s"
  shows "\<exists>out. emit_string bufs s = Inr (0, bufs @ out) \<and> out \<noteq> [] \<and> (\<forall>rest. rfc_string (out @ rest) = Some (s, rest))"
proof -
  let ?len = "of_nat (length s) :: u32" and ?n = "http2_huffman_encode_count s"
  have len: "unat ?len = length s" using assms by (simp add: small_string_def unat_of_nat take_bit_nat_eq_self)
  show ?thesis
  proof (cases "?n < ?len")
    case True
    let ?e = "encode_length 128 ?n 7"
    from huffman_string [OF assms, of "bufs @ ?e"] obtain enc where
      enc: "http2_huffman_encode (bufs @ ?e) s = Inr ((bufs @ ?e) @ enc, 0)" "length enc = unat ?n" "rfc_huffman enc = Some s"
      by blast
    have "emit_string bufs s = Inr (0, bufs @ (?e @ enc))"
      using True enc(1) by (simp add: emit_string_def len Let_def encode_block)
    moreover have "rfc_string ((?e @ enc) @ rest) = Some (s, rest)" for rest
      using enc rfc_int_encode_length [of 7 128 ?n "enc @ rest"]
      by (simp add: rfc_string_def hd_encode_length encode_length_top)
    ultimately show ?thesis by (intro exI [of _ "?e @ enc"]) (simp add: encode_length_nonempty)
  next
    case False
    let ?e = "encode_length 0 ?len 7"
    have "emit_string bufs s = Inr (0, bufs @ (?e @ s))"
      using False by (simp add: emit_string_def len Let_def encode_block)
    moreover have "rfc_string ((?e @ s) @ rest) = Some (s, rest)" for rest
      using len rfc_int_encode_length [of 7 0 ?len "s @ rest"]
      by (simp add: rfc_string_def hd_encode_length encode_length_top)
    ultimately show ?thesis by (intro exI [of _ "?e @ s"]) (simp add: encode_length_nonempty)
  qed
qed

text \<open>The string a call of \<^verbatim>\<open>emit_string\<close> appends, and the codec it forms with the reader of RFC 7541.\<close>

definition string_block :: "buffer \<Rightarrow> buffer" where
  "string_block s = (case emit_string [] s of Inl e \<Rightarrow> [] | Inr (rv, bufs) \<Rightarrow> bufs)"

lemma string_block_ok:
  assumes "small_string s"
  shows "rfc_string (string_block s @ rest) = Some (s, rest)" "string_block s \<noteq> []"
  using emit_string_ok [OF assms, of "[]"] by (auto simp: string_block_def)

interpretation hstring: stream_codec small_string string_block rfc_string
  by unfold_locales (simp_all add: string_block_ok)

subsection \<open>Fields\<close>

lemma rfc_table_header: "i < 61 + length (dyn_table h ctx) \<Longrightarrow> rfc_table (dyn_table h ctx) i = Some (table_header h ctx i)"
  by (auto simp: rfc_table_def table_header_def)

text \<open>The first byte tells the representations apart.\<close>

lemma first_byte_div:
  "prefix \<le> 8 \<Longrightarrow> unat (hd (encode_length b n prefix)) div 2 ^ prefix = unat b div 2 ^ prefix"
  using encode_length_first [of prefix b n] by (metis unat_drop_bit)

lemma rfc_field_indexed:
  assumes "rfc_table dt (unat idx) = Some x" "unat idx < 2 ^ 32 - 1"
  shows "rfc_field m dt (encode_length 0x80 (idx + 1) 7 @ rest) = Some (x, dt, rest)"
proof -
  obtain b bs where e: "encode_length 0x80 (idx + 1) 7 @ rest = b # bs" "b = hd (encode_length 0x80 (idx + 1) 7)"
    by (cases "encode_length 0x80 (idx + 1) 7") (auto simp: encode_length_nonempty)
  have "unat b div 128 = 1" using first_byte_div [of 7 "0x80" "idx + 1"] e(2) by simp
  then have "128 \<le> unat b" by (cases "unat b < 128") simp_all
  moreover have "unat (idx + 1) = unat idx + 1" using assms(2) by (simp add: unat_word_ariths)
  ultimately show ?thesis
    using rfc_int_encode_length [of 7 "0x80" "idx + 1" rest] assms(1) unfolding e(1) by (simp add: rfc_field_def)
qed

text \<open>A literal, whose first byte carries the indexing mode.\<close>

lemma rfc_field_literal:
  assumes "rfc_literal (if mode = HTTP2_WITH_INDEXING then 6 else 4) dt bs = Some (x, rest)"
    and "bs = b # r" "unat b div 2 ^ (if mode = HTTP2_WITH_INDEXING then 6 else 4)
      = unat (pack_first_byte mode) div 2 ^ (if mode = HTTP2_WITH_INDEXING then 6 else 4)"
  shows "rfc_field m dt bs = Some (x, if mode = HTTP2_WITH_INDEXING then fit m (x # dt) else dt, rest)"
proof (cases mode)
  case HTTP2_WITH_INDEXING
  with assms(3) have "unat b div 64 = 1" by simp
  then have "64 \<le> unat b" "\<not> 128 \<le> unat b" by linarith+
  with assms HTTP2_WITH_INDEXING show ?thesis by (simp add: rfc_field_def del: fit.simps)
next
  case HTTP2_WITHOUT_INDEXING
  with assms(3) have "unat b < 16" by simp
  with assms HTTP2_WITHOUT_INDEXING show ?thesis by (simp add: rfc_field_def)
next
  case HTTP2_NEVER_INDEXING
  with assms(3) have "unat b div 16 = 1" by simp
  then have "unat b < 32" by linarith
  with assms HTTP2_NEVER_INDEXING show ?thesis by (simp add: rfc_field_def)
qed

lemma emit_indname_block_ok:
  assumes "small_string (nv_value nv)" "rfc_table dt (unat idx) = Some x" "fst x = nv_name nv" "unat idx < 2 ^ 32 - 1"
  shows "\<exists>out. emit_indname_block bufs idx nv mode = Inr (0, bufs @ out)
    \<and> (\<forall>rest. rfc_field m dt (out @ rest)
         = Some (nv_header nv, if mode = HTTP2_WITH_INDEXING then fit m (nv_header nv # dt) else dt, rest))"
proof -
  define p :: nat where "p = (if mode = HTTP2_WITH_INDEXING then 6 else 4)"
  have p: "1 \<le> p" "p \<le> 8" by (simp_all add: p_def)
  let ?e = "encode_length (pack_first_byte mode) (idx + 1) p"
  from emit_string_ok [OF assms(1), of "bufs @ ?e"] obtain out where
    out: "emit_string (bufs @ ?e) (nv_value nv) = Inr (0, (bufs @ ?e) @ out)" "\<And>rest. rfc_string (out @ rest) = Some (nv_value nv, rest)"
    by blast
  have "emit_indname_block bufs idx nv mode = Inr (0, bufs @ (?e @ out))"
    using out(1) by (simp add: emit_indname_block_def Let_def encode_block flip: p_def)
  moreover have "rfc_field m dt ((?e @ out) @ rest)
      = Some (nv_header nv, if mode = HTTP2_WITH_INDEXING then fit m (nv_header nv # dt) else dt, rest)" for rest
  proof (rule rfc_field_literal [of mode, folded p_def])
    have "unat (idx + 1) = unat idx + 1" using assms(4) by (simp add: unat_word_ariths)
    then show "rfc_literal p dt ((?e @ out) @ rest) = Some (nv_header nv, rest)"
      using rfc_int_encode_length [OF p, of "pack_first_byte mode" "idx + 1" "out @ rest"] out(2) assms(2,3)
      by (simp add: rfc_literal_def nv_header_def)
    show "(?e @ out) @ rest = hd ?e # tl ?e @ out @ rest" by (simp add: encode_length_nonempty flip: append_Cons)
    show "unat (hd ?e) div 2 ^ p = unat (pack_first_byte mode) div 2 ^ p" using p(2) by (rule first_byte_div)
  qed
  ultimately show ?thesis by blast
qed

lemma emit_newname_block_ok:
  assumes "small_string (nv_name nv)" "small_string (nv_value nv)"
  shows "\<exists>out. emit_newname_block bufs nv mode = Inr (0, bufs @ out)
    \<and> (\<forall>rest. rfc_field m dt (out @ rest)
         = Some (nv_header nv, if mode = HTTP2_WITH_INDEXING then fit m (nv_header nv # dt) else dt, rest))"
proof -
  let ?b = "pack_first_byte mode"
  from emit_string_ok [OF assms(1), of "bufs @ [?b]"] obtain o1 where
    o1: "emit_string (bufs @ [?b]) (nv_name nv) = Inr (0, (bufs @ [?b]) @ o1)" "\<And>rest. rfc_string (o1 @ rest) = Some (nv_name nv, rest)"
    by blast
  from emit_string_ok [OF assms(2), of "bufs @ [?b] @ o1"] obtain o2 where
    o2: "emit_string (bufs @ [?b] @ o1) (nv_value nv) = Inr (0, (bufs @ [?b] @ o1) @ o2)" "\<And>rest. rfc_string (o2 @ rest) = Some (nv_value nv, rest)"
    by blast
  have "emit_newname_block bufs nv mode = Inr (0, bufs @ ([?b] @ o1 @ o2))"
    using o1(1) o2(1) by (simp add: emit_newname_block_def http2_bufs_addb_def)
  moreover have "rfc_field m dt (([?b] @ o1 @ o2) @ rest)
      = Some (nv_header nv, if mode = HTTP2_WITH_INDEXING then fit m (nv_header nv # dt) else dt, rest)" for rest
  proof (rule rfc_field_literal)
    have "rfc_int (if mode = HTTP2_WITH_INDEXING then 6 else 4) (?b # bs) = Some (0, bs)" for bs
      by (cases mode) (simp_all add: rfc_int_def)
    then show "rfc_literal (if mode = HTTP2_WITH_INDEXING then 6 else 4) dt (([?b] @ o1 @ o2) @ rest) = Some (nv_header nv, rest)"
      by (simp add: rfc_literal_def o1(2) o2(2) nv_header_def)
  qed simp_all
  ultimately show ?thesis by blast
qed

subsection \<open>The encoder\<close>

text \<open>The state of an encoder between calls: the table's invariant, and a limit for which the 32-bit arithmetic of
  \<^verbatim>\<open>hd_deflate_decide_indexing\<close> does not wrap. (The constructor sets the limit to 0.)\<close>

definition deflater_ok :: "heap \<Rightarrow> http2_deflater \<Rightarrow> bool" where
  "deflater_ok h d \<longleftrightarrow>
     enc_invar h (df_ctx d) (df_map d) \<and> unat (hd_table_bufsize_max (df_ctx d)) \<le> 2 ^ 30
     \<and> hsizes (dyn_table h (df_ctx d)) \<le> unat (hd_table_bufsize_max (df_ctx d))"

definition nv_ok :: "http2_nv \<Rightarrow> bool" where
  "nv_ok nv \<longleftrightarrow> small_string (nv_name nv) \<and> small_string (nv_value nv)"

lemma nv_ok_length: "nv_ok nv \<Longrightarrow> length (nv_name nv) < 2 ^ 32"
  by (simp add: nv_ok_def small_string_def)

lemma nv_ok_hsize: "nv_ok nv \<Longrightarrow> hsize (nv_header nv) < 2 ^ 30"
  by (simp add: nv_ok_def small_string_def hsize_def nv_header_def)

lemma known_names_nonneg: "(n, t) \<in> set known_names \<Longrightarrow> 0 \<le> t"
proof -
  have "list_all (\<lambda>(n, t). 0 \<le> t) known_names" by (simp add: known_names_def)
  then show "(n, t) \<in> set known_names \<Longrightarrow> 0 \<le> t" by (auto simp: list_all_iff)
qed

lemma lookup_token_range:
  assumes "length name < 2 ^ 32"
  shows "lookup_token name (of_nat (length name)) = -1 \<or> 0 \<le> lookup_token name (of_nat (length name))"
  using lookup_token_known [OF assms] known_names_nonneg by (auto simp: known_def known_tokens_names)

text \<open>The precomputed hashes stand for the hash of the name.\<close>

lemma deflate_hash_eq:
  assumes "length (nv_name nv) < 2 ^ 32" and "token = lookup_token (nv_name nv) (namelen nv)"
  shows "deflate_hash nv token = name_hash nv"
proof (cases "token = -1 \<or> token > 60")
  case False
  then have t: "0 \<le> token" "token \<le> 60" using lookup_token_range [OF assms(1)] assms(2) by (auto simp: namelen_def)
  then have "nat token < length static_table" by (simp add: length_static_table)
  then have "ent_hash (static_table ! nat token) = name_hash (ent_nv (static_table ! nat token))"
    using static_hashes by (auto simp: list_all_iff)
  also have "\<dots> = name_hash nv"
    using static_token_at(2) [OF assms(1) _ t] assms(2) by (simp add: namelen_def name_hash_def)
  finally show ?thesis using False by (simp add: deflate_hash_def)
qed (auto simp: deflate_hash_def)

lemma enc_invar_added:
  assumes inv: "enc_invar h ctx m" and added: "table_added h ctx (Some m) nv token hash h' ctx' (Some m')"
    and new: "token = lookup_token (nv_name nv) (namelen nv)" "hash = name_hash nv" "length (nv_name nv) < 2 ^ 32"
  shows "enc_invar h' ctx' m'"
proof -
  let ?e = "added_entry ctx nv token hash" and ?xs = "rb_list (hd_table ctx)"
  from added obtain n where T: "tbl_invar h' ctx' (Some m')" "same_core (h @ [Some ?e]) h'" "next_seq ctx' = next_seq ctx + 1"
    "rb_list (hd_table ctx') = length h # take n ?xs" by (auto simp: table_added_def)
  have core: "\<exists>e'. deref h' a = Inr e' \<and> enc_entry e' \<and> ent_seq e' = s"
    if "deref (h @ [Some ?e]) a = Inr e" "enc_entry e" "ent_seq e = s" for a e s
  proof -
    from T(2) that(1) obtain e' where "deref h' a = Inr e'" "core e' = core e" by (rule same_core_deref)
    with core_eqD [of e' e] that(2,3) show ?thesis by (simp add: enc_entry_def)
  qed
  have "\<exists>e'. deref h' (rb_list (hd_table ctx') ! i) = Inr e' \<and> enc_entry e' \<and> ent_seq e' = next_seq ctx' - 1 - of_nat i"
    if "i < length (rb_list (hd_table ctx'))" for i
  proof (cases i)
    case 0
    have "enc_entry ?e" using new by (simp add: enc_entry_def namelen_def name_hash_def)
    with core [OF deref_new] 0 T(3,4) show ?thesis by simp
  next
    case (Suc j)
    then have j: "j < length ?xs" "rb_list (hd_table ctx') ! i = ?xs ! j" using that T(4) by (auto simp: less_Suc_eq_0_disj)
    from enc_invarD(3) [OF inv j(1)] obtain e where e: "deref h (?xs ! j) = Inr e" "enc_entry e" "ent_seq e = next_seq ctx - 1 - of_nat j"
      by blast
    then have "deref (h @ [Some ?e]) (?xs ! j) = Inr e" by (subst deref_append) (auto simp: deref_Inr)
    from core [OF this e(2,3)] j(2) T(3) Suc show ?thesis by (simp add: diff_diff_eq add.commute)
  qed
  with T(1) show ?thesis by (simp add: enc_invar_def)
qed

lemma with_indexing_fits:
  assumes "deflate_mode d nv token = HTTP2_WITH_INDEXING" "unat (hd_table_bufsize_max (df_ctx d)) \<le> 2 ^ 30" "nv_ok nv"
  shows "hsize (nv_header nv) \<le> unat (hd_table_bufsize_max (df_ctx d))"
proof -
  let ?max = "hd_table_bufsize_max (df_ctx d)"
  have "unat (?max * 3 div 4) = unat ?max * 3 div 4"
    using assms(2) by (simp add: unat_div unat_word_ariths)
  moreover have "\<not> entry_room (namelen nv) (valuelen nv) > ?max * 3 div 4"
    using assms(1) by (auto simp: deflate_mode_def hd_deflate_decide_indexing_def split: if_splits)
  ultimately show ?thesis
    using unat_entry_room [of nv] nv_ok_hsize [OF assms(3)] by (simp add: word_less_nat_alt)
qed

lemma deflate_add_ok:
  assumes ok: "deflater_ok h d" "nv_ok nv" and mem: "\<forall>n. mem n"
    and search: "search_ok h (df_ctx d) nv r" and tok: "token = lookup_token (nv_name nv) (namelen nv)"
    and mode: "deflate_mode d nv token = HTTP2_WITH_INDEXING"
  shows "\<exists>h' d'. deflate_add mem h d nv (sr_index r) token (name_hash nv) = Inr (True, h', d') \<and> deflater_ok h' d'
    \<and> dyn_table h' (df_ctx d') = fit (unat (hd_table_bufsize_max (df_ctx d))) (nv_header nv # dyn_table h (df_ctx d))
    \<and> hd_table_bufsize_max (df_ctx d') = hd_table_bufsize_max (df_ctx d) \<and> bad (df_ctx d') = bad (df_ctx d)"
proof -
  let ?ctx = "df_ctx d" and ?max = "unat (hd_table_bufsize_max (df_ctx d))"
  note inv = ok(1) [unfolded deflater_ok_def]
  have fits: "hsize (nv_header nv) \<le> ?max" using with_indexing_fits [OF mode _ ok(2)] inv by blast
  have small: "unat (hd_table_bufsize ?ctx) + hsize (nv_header nv) < 2 ^ 32"
    using inv fits tbl_invarD(3) [OF enc_invarD(1), of h ?ctx "df_map d"] by simp
  let ?get = "if sr_index r \<noteq> -1 \<and> sr_index r < 61
        then bind_exec (http2_hd_table_get ?ctx (word_of_int (sr_index r))) (\<lambda>p.
             bind_exec (deref_entry h p) (\<lambda>e. Inr (nv\<lparr>nv_name := nv_name (ent_nv e)\<rparr>)))
        else Inr nv"
  have same: "?get = Inr nv"
  proof (cases "sr_index r \<noteq> -1 \<and> sr_index r < 61")
    case True
    then have i: "0 \<le> sr_index r" "fst (table_header h ?ctx (nat (sr_index r))) = nv_name nv"
      "nat (sr_index r) < 61 + length (dyn_table h ?ctx)" using search by (auto simp: search_ok_def)
    then have u: "unat (word_of_int (sr_index r) :: u32) = nat (sr_index r)"
      using True by (simp add: unat_eq_nat_uint uint_word_of_int)
    with i(3) http2_hd_table_get_ok [of h ?ctx "Some (df_map d)" "word_of_int (sr_index r)"] enc_invarD(1) inv obtain p e where
      "http2_hd_table_get ?ctx (word_of_int (sr_index r)) = Inr p" "deref_entry h p = Inr e"
      "nv_header (ent_nv e) = table_header h ?ctx (nat (sr_index r))" by auto
    with i(2) True show ?thesis by (simp add: nv_header_def prod_eq_iff)
  qed auto
  from inv have "tbl_invar h ?ctx (Some (df_map d))" by (blast intro: enc_invarD(1))
  from add_hd_table_incremental_ok [OF this mem small, of token "name_hash nv"] obtain h' ctx' mp' where
    add: "add_hd_table_incremental mem h ?ctx nv token (Some (df_map d)) (name_hash nv) = Inr (Some (length h), h', ctx', mp')"
      "table_added h ?ctx (Some (df_map d)) nv token (name_hash nv) h' ctx' mp'" by blast
  then obtain m' where m': "mp' = Some m'" by (auto simp: table_added_def)
  let ?d = "d\<lparr>df_ctx := ctx', df_map := m'\<rparr>"
  have "deflate_add mem h d nv (sr_index r) token (name_hash nv) = Inr (True, h', ?d)"
    unfolding deflate_add_def same using add(1) m' by simp
  moreover have dyn: "dyn_table h' ctx' = fit ?max (nv_header nv # dyn_table h ?ctx)" "hd_table_bufsize_max ctx' = hd_table_bufsize_max ?ctx"
    "bad ctx' = bad ?ctx" using add(2) fits by (simp_all add: table_added_def)
  moreover have "enc_invar h' ctx' m'"
    using enc_invar_added [of h ?ctx "df_map d"] add(2) m' inv tok nv_ok_length [OF ok(2)] by blast
  ultimately show ?thesis
    using inv hsizes_fit [of ?max "nv_header nv # dyn_table h ?ctx"] by (auto simp: deflater_ok_def)
qed

text \<open>One header: what is emitted is a representation of the header, and the decoder's table follows the encoder's.\<close>

definition field_emitted :: "heap \<Rightarrow> http2_deflater \<Rightarrow> http2_nv \<Rightarrow> heap \<Rightarrow> http2_deflater \<Rightarrow> buffer \<Rightarrow> bool" where
  "field_emitted h d nv h' d' out \<longleftrightarrow>
     deflater_ok h' d' \<and> hd_table_bufsize_max (df_ctx d') = hd_table_bufsize_max (df_ctx d) \<and> bad (df_ctx d') = bad (df_ctx d)
     \<and> (\<forall>rest. rfc_field (unat (hd_table_bufsize_max (df_ctx d))) (dyn_table h (df_ctx d)) (out @ rest)
          = Some (nv_header nv, dyn_table h' (df_ctx d'), rest))"

lemma search_ok_index:
  assumes "search_ok h ctx nv r" "sr_index r \<noteq> -1" "tbl_invar h ctx mp"
  shows "unat (word_of_int (sr_index r) :: u32) = nat (sr_index r)" "unat (word_of_int (sr_index r) :: u32) < 2 ^ 32 - 1"
    "rfc_table (dyn_table h ctx) (unat (word_of_int (sr_index r) :: u32)) = Some (table_header h ctx (nat (sr_index r)))"
proof -
  have i: "0 \<le> sr_index r" "nat (sr_index r) < 61 + length (dyn_table h ctx)" using assms(1,2) by (auto simp: search_ok_def)
  have "32 * length (dyn_table h ctx) < 2 ^ 32"
    using hsizes_length [of "dyn_table h ctx"] unat_bound [of "hd_table_bufsize ctx"] by (simp add: tbl_invarD(3) [OF assms(3)])
  with i have lt: "nat (sr_index r) < 2 ^ 32 - 1" by simp
  with i(1) have "sr_index r < 2 ^ 32" by simp
  with i(1) show u: "unat (word_of_int (sr_index r) :: u32) = nat (sr_index r)"
    by (simp add: unat_eq_nat_uint uint_word_of_int)
  with lt show "unat (word_of_int (sr_index r) :: u32) < 2 ^ 32 - 1" by simp
  show "rfc_table (dyn_table h ctx) (unat (word_of_int (sr_index r) :: u32)) = Some (table_header h ctx (nat (sr_index r)))"
    unfolding u using i(2) by (rule rfc_table_header)
qed

text \<open>The literal that follows when the header is not in the table, with the table before it was added.\<close>

lemma emit_literal_ok:
  assumes "nv_ok nv" "search_ok h ctx nv r" "tbl_invar h ctx mp"
  shows "\<exists>out. (if sr_index r = -1 then emit_newname_block bufs nv mode
                else emit_indname_block bufs (word_of_int (sr_index r)) nv mode) = Inr (0, bufs @ out)
    \<and> (\<forall>rest. rfc_field m (dyn_table h ctx) (out @ rest)
         = Some (nv_header nv, if mode = HTTP2_WITH_INDEXING then fit m (nv_header nv # dyn_table h ctx) else dyn_table h ctx, rest))"
proof (cases "sr_index r = -1")
  case True
  with emit_newname_block_ok [of nv bufs mode m "dyn_table h ctx"] assms(1) show ?thesis by (simp add: nv_ok_def)
next
  case False
  note i = search_ok_index [OF assms(2) False assms(3)]
  have "fst (table_header h ctx (nat (sr_index r))) = nv_name nv" using assms(2) False by (simp add: search_ok_def)
  with emit_indname_block_ok [OF _ i(3) _ i(2), of nv bufs mode m] assms(1) False show ?thesis by (simp add: nv_ok_def)
qed

lemma deflate_nv_ok:
  assumes ok: "deflater_ok h d" "nv_ok nv" and mem: "\<forall>n. mem n"
  shows "\<exists>h' d' out. deflate_nv mem h d bufs nv = Inr (0, h', d', bufs @ out) \<and> field_emitted h d nv h' d' out"
proof -
  let ?ctx = "df_ctx d" and ?max = "unat (hd_table_bufsize_max (df_ctx d))"
  define token where "token = lookup_token (nv_name nv) (namelen nv)"
  define mode where "mode = deflate_mode d nv token"
  have hash: "deflate_hash nv token = name_hash nv"
    using deflate_hash_eq [OF nv_ok_length [OF ok(2)]] by (simp add: token_def)
  have inv: "enc_invar h ?ctx (df_map d)" "tbl_invar h ?ctx (Some (df_map d))"
    using ok(1) enc_invarD(1) by (auto simp: deflater_ok_def)
  from search_hd_table_ok [OF inv(1) nv_ok_length [OF ok(2)] token_def refl, of mode] obtain r where
    r: "search_hd_table h ?ctx nv token mode (df_map d) (name_hash nv) = Inr r" "search_ok h ?ctx nv r" by blast
  note unfold = deflate_nv_def Let_def token_def [symmetric] hash mode_def [symmetric] r(1) bind_exec_simps
  show ?thesis
  proof (cases "sr_name_value_match r")
    case True
    with r(2) have idx: "sr_index r \<noteq> -1" "table_header h ?ctx (nat (sr_index r)) = nv_header nv"
      by (auto simp: search_ok_def split: if_splits)
    note i = search_ok_index [OF r(2) idx(1) inv(2)]
    let ?out = "encode_length 0x80 (word_of_int (sr_index r) + 1) 7"
    have "deflate_nv mem h d bufs nv = Inr (0, h, d, bufs @ ?out)"
      unfolding unfold using True by (simp add: emit_indexed_block_def Let_def encode_block)
    moreover have "field_emitted h d nv h d ?out"
      using ok(1) rfc_field_indexed [OF i(3,2)] idx(2) by (simp add: field_emitted_def)
    ultimately show ?thesis by blast
  next
    case False
    from emit_literal_ok [OF ok(2) r(2) inv(2), of bufs mode ?max] obtain out where
      out: "(if sr_index r = -1 then emit_newname_block bufs nv mode
             else emit_indname_block bufs (word_of_int (sr_index r)) nv mode) = Inr (0, bufs @ out)"
        "\<And>rest. rfc_field ?max (dyn_table h ?ctx) (out @ rest) = Some (nv_header nv,
           if mode = HTTP2_WITH_INDEXING then fit ?max (nv_header nv # dyn_table h ?ctx) else dyn_table h ?ctx, rest)"
      by blast
    show ?thesis
    proof (cases "mode = HTTP2_WITH_INDEXING")
      case True
      from deflate_add_ok [OF ok mem r(2) token_def mode_def [symmetric, unfolded True]] obtain h' d' where
        add: "deflate_add mem h d nv (sr_index r) token (name_hash nv) = Inr (True, h', d')" "deflater_ok h' d'"
          "dyn_table h' (df_ctx d') = fit ?max (nv_header nv # dyn_table h ?ctx)"
          "hd_table_bufsize_max (df_ctx d') = hd_table_bufsize_max ?ctx" "bad (df_ctx d') = bad ?ctx" by blast
      have "deflate_nv mem h d bufs nv = Inr (0, h', d', bufs @ out)"
        unfolding unfold using False True add(1) out(1) by simp
      moreover have "field_emitted h d nv h' d' out"
        using add(2-5) out(2) True by (simp add: field_emitted_def del: fit.simps)
      ultimately show ?thesis by blast
    next
      case no_index: False
      then have "deflate_nv mem h d bufs nv = Inr (0, h, d, bufs @ out)" unfolding unfold using False out(1) by simp
      moreover have "field_emitted h d nv h d out" using ok(1) out(2) no_index by (simp add: field_emitted_def)
      ultimately show ?thesis by blast
    qed
  qed
qed

lemma http2_deflate_loop_ok:
  assumes "deflater_ok h d" "list_all nv_ok nvs" and mem: "\<forall>n. mem n"
  shows "\<exists>h' d' out. http2_deflate_loop mem h d bufs nvs = Inr (0, h', d', bufs @ out) \<and> deflater_ok h' d' \<and> bad (df_ctx d') = bad (df_ctx d)
    \<and> hd_table_bufsize_max (df_ctx d') = hd_table_bufsize_max (df_ctx d)
    \<and> (\<forall>rest. rfc_fields (length nvs) (unat (hd_table_bufsize_max (df_ctx d))) (dyn_table h (df_ctx d)) (out @ rest)
         = Some (map nv_header nvs, dyn_table h' (df_ctx d'), rest))"
  using assms(1,2)
proof (induction nvs arbitrary: h d bufs)
  case Nil
  then show ?case by simp
next
  case (Cons nv nvs)
  from deflate_nv_ok [OF Cons.prems(1) _ mem, of nv bufs] Cons.prems(2) obtain h1 d1 o1 where
    one: "deflate_nv mem h d bufs nv = Inr (0, h1, d1, bufs @ o1)" "field_emitted h d nv h1 d1 o1" by auto
  then have F: "deflater_ok h1 d1" by (simp add: field_emitted_def)
  from Cons.IH [OF F, of "bufs @ o1"] Cons.prems(2) obtain h2 d2 o2 where
    IH: "http2_deflate_loop mem h1 d1 (bufs @ o1) nvs = Inr (0, h2, d2, (bufs @ o1) @ o2)" "deflater_ok h2 d2" "bad (df_ctx d2) = bad (df_ctx d1)"
      "hd_table_bufsize_max (df_ctx d2) = hd_table_bufsize_max (df_ctx d1)"
      "\<forall>rest. rfc_fields (length nvs) (unat (hd_table_bufsize_max (df_ctx d1))) (dyn_table h1 (df_ctx d1)) (o2 @ rest)
         = Some (map nv_header nvs, dyn_table h2 (df_ctx d2), rest)" by auto
  with one show ?case by (intro exI [of _ h2] exI [of _ d2] exI [of _ "o1 @ o2"]) (simp add: field_emitted_def)
qed

lemma http2_deflater_ctor_ok:
  assumes "\<forall>n. mem n"
  shows "\<exists>d. http2_deflater_ctor mem = Inr d \<and> deflater_ok h d \<and> hd_table_bufsize_max (df_ctx d) = 0
    \<and> dyn_table h (df_ctx d) = [] \<and> \<not> bad (df_ctx d)"
proof -
  from http2_context_ctor_ok [OF assms, of h] obtain ctx where
    ctx: "http2_context_ctor mem = Inr ctx" "tbl_invar h ctx None" "dyn_table h ctx = []" "rb_list (hd_table ctx) = []" "\<not> bad ctx"
    by blast
  let ?ctx = "ctx\<lparr>hd_table_bufsize_max := 0\<rparr>"
  have dyn: "dyn_table h ?ctx = []" using ctx(3) by (simp add: dyn_table_def)
  have "enc_invar h ?ctx empty_map"
    using ctx(2,4) dyn by (simp add: enc_invar_def tbl_invar_def map_invar_empty dyn_table_def)
  with ctx dyn show ?thesis by (simp add: http2_deflater_ctor_def deflater_ok_def)
qed

text \<open>With a limit of 0 nothing is ever indexed.\<close>

lemma deflate_nv_no_table:
  assumes "deflater_ok h d" "nv_ok nv" "hd_table_bufsize_max (df_ctx d) = 0"
    and "deflate_nv mem h d bufs nv = Inr (rv, h', d', bufs')"
  shows "h' = h \<and> d' = d"
proof -
  have "deflate_mode d nv token \<noteq> HTTP2_WITH_INDEXING" for token
    using with_indexing_fits [of d nv token] assms(2,3) hsize_pos [of "nv_header nv"] by auto
  then show ?thesis
    using assms(4) by (auto simp: deflate_nv_def Let_def bind_exec_Inr_iff split: if_splits prod.splits)
qed

subsection \<open>Properties\<close>

text \<open>C8. The HPACK encoder is correct with respect to RFC 7541: from every state that satisfies the invariant, with any
  dynamic table limit up to \<open>2 ^ 30\<close>, and for every list of headers whose names and values are short enough for the 32-bit
  length arithmetic, \<^verbatim>\<open>http2_deflate_hd_bufs\<close> succeeds and appends a block from which a decoder that follows the RFC, starting with the
  same dynamic table, reads exactly these headers in this order, ends with the encoder's new dynamic table and leaves
  exactly what follows the block. The state satisfies the invariant again, so that the two stay synchronised for ever.\<close>

theorem deflate_conforms_to_rfc:
  assumes "deflater_ok h d" and "\<not> bad (df_ctx d)" and "list_all nv_ok nvs" and "\<forall>n. mem n"
  shows "\<exists>h' d' out. http2_deflate_hd_bufs mem h d bufs nvs = Inr (0, h', d', bufs @ out) \<and> deflater_ok h' d' \<and> \<not> bad (df_ctx d')
    \<and> rfc_fields (length nvs) (unat (hd_table_bufsize_max (df_ctx d))) (dyn_table h (df_ctx d)) (out @ rest)
        = Some (map nv_header nvs, dyn_table h' (df_ctx d'), rest)"
  using http2_deflate_loop_ok [OF assms(1,3,4), of bufs] assms(2) by (auto simp: http2_deflate_hd_bufs_def)

theorem deflate_conforms_to_rfc_witness:
  defines "d \<equiv> \<lparr>df_ctx = \<lparr>hd_table_bufsize_max = 4096, hd_table = \<lparr>rb_buffer = [None], rb_mask = 0, rb_first = 0, rb_len = 0\<rparr>,
        hd_table_bufsize = 0, next_seq = 0, bad = False\<rparr>, df_map = empty_map, deflate_hd_table_bufsize_max = 4096,
      min_hd_table_bufsize_max = 4096, notify_table_size_change = False\<rparr>"
    and "nv \<equiv> \<lambda>n v. \<lparr>nv_name = bytes n, nv_value = bytes v, nv_flags = 0\<rparr>"
  shows "\<exists>h' d' out. http2_deflate_hd_bufs (\<lambda>n. True) [] d [] [nv '':method'' ''GET'', nv ''host'' ''a'', nv ''x'' ''y'', nv ''x'' ''y'']
        = Inr (0, h', d', [] @ out) \<and> deflater_ok h' d' \<and> \<not> bad (df_ctx d')
    \<and> rfc_fields (length [nv '':method'' ''GET'', nv ''host'' ''a'', nv ''x'' ''y'', nv ''x'' ''y''])
        (unat (hd_table_bufsize_max (df_ctx d))) (dyn_table [] (df_ctx d)) (out @ [1, 2])
      = Some (map nv_header [nv '':method'' ''GET'', nv ''host'' ''a'', nv ''x'' ''y'', nv ''x'' ''y''], dyn_table h' (df_ctx d'), [1, 2])"
proof (rule deflate_conforms_to_rfc)
  have "rb_invar (hd_table (df_ctx d))" "rb_list (hd_table (df_ctx d)) = []"
    by (auto simp: d_def rb_invar_def rb_list_def intro: exI [of _ 0])
  then show "deflater_ok [] d"
    by (simp add: deflater_ok_def enc_invar_def tbl_invar_def dyn_table_def) (simp add: d_def map_invar_empty)
qed (simp_all add: d_def nv_def nv_ok_def small_string_def)

text \<open>C9. The encoder as \<^verbatim>\<open>http2_deflater\<close> constructs it has a table limit of 0 and an empty dynamic table, and therefore never stores
  a header: whatever it encodes leaves its state as it was, so that its table stays empty, and every block can be read by a decoder with an empty dynamic table,
  independently of all blocks before.\<close>

theorem constructed_deflater_never_indexes:
  assumes "\<forall>n. mem n" and "list_all nv_ok nvs"
  shows "\<exists>d out. http2_deflater_ctor mem = Inr d
    \<and> hd_table_bufsize_max (df_ctx d) = 0 \<and> rb_list (hd_table (df_ctx d)) = [] \<and> dyn_table h (df_ctx d) = []
    \<and> http2_deflate_hd_bufs mem h d bufs nvs = Inr (0, h, d, bufs @ out)
    \<and> rfc_fields (length nvs) 0 [] (out @ rest) = Some (map nv_header nvs, [], rest)"
proof -
  from http2_deflater_ctor_ok [OF assms(1), of h] obtain d where
    d: "http2_deflater_ctor mem = Inr d" "deflater_ok h d" "hd_table_bufsize_max (df_ctx d) = 0" "dyn_table h (df_ctx d) = []" "\<not> bad (df_ctx d)"
    by blast
  have stay: "http2_deflate_loop mem h d bufs nvs = Inr (rv, h', d', bufs') \<Longrightarrow> rv = 0 \<Longrightarrow> h' = h \<and> d' = d" for rv h' d' bufs'
    using assms(2)
  proof (induction nvs arbitrary: bufs)
    case (Cons nv nvs)
    then obtain h1 d1 bufs1 where one: "deflate_nv mem h d bufs nv = Inr (0, h1, d1, bufs1)"
      "http2_deflate_loop mem h1 d1 bufs1 nvs = Inr (rv, h', d', bufs')"
      by (auto simp: bind_exec_Inr_iff split: if_splits)
    from deflate_nv_no_table [OF d(2) _ d(3) one(1)] Cons.prems(3) have "h1 = h" "d1 = d" by auto
    with one(2) Cons show ?case by auto
  qed simp
  from http2_deflate_loop_ok [OF d(2) assms(2,1), of bufs] stay obtain out where
    "http2_deflate_loop mem h d bufs nvs = Inr (0, h, d, bufs @ out)"
    "rfc_fields (length nvs) 0 [] (out @ rest) = Some (map nv_header nvs, [], rest)" unfolding d(3,4) unat_0
    by (metis d(4))
  moreover have "rb_list (hd_table (df_ctx d)) = []" using d(4) by (simp add: dyn_table_def)
  ultimately show ?thesis using d by (auto simp: http2_deflate_hd_bufs_def)
qed

theorem constructed_deflater_never_indexes_witness:
  defines "nvs \<equiv> [\<lparr>nv_name = bytes ''x'', nv_value = bytes ''y'', nv_flags = 0\<rparr>]"
  shows "\<exists>d out. http2_deflater_ctor (\<lambda>n. True) = Inr d
    \<and> hd_table_bufsize_max (df_ctx d) = 0 \<and> rb_list (hd_table (df_ctx d)) = [] \<and> dyn_table [] (df_ctx d) = []
    \<and> http2_deflate_hd_bufs (\<lambda>n. True) [] d [] nvs = Inr (0, [], d, [] @ out)
    \<and> rfc_fields (length nvs) 0 [] (out @ [9]) = Some (map nv_header nvs, [], [9])"
  by (rule constructed_deflater_never_indexes) (simp_all add: nvs_def nv_ok_def small_string_def)

end
