(* ===== verification/Hpack_Inflate.thy ===== *)
theory Hpack_Inflate
  imports Hpack_Deflate
begin

text \<open>
  The HPACK decoder of \<^verbatim>\<open>src/src/http/http2.cpp\<close>: the class \<^verbatim>\<open>http2_inflater\<close>, the state machine of \<^verbatim>\<open>http2_inflate_hd2\<close> and
  the \<^verbatim>\<open>hd_inflate_*\<close> functions. One pass through the \<^verbatim>\<open>switch\<close> is \<open>inflate_step\<close>; the labels \<^verbatim>\<open>almost_ok\<close> and \<^verbatim>\<open>fail\<close> and the
  returns inside the loop are constructors of its result. The bytes between \<^verbatim>\<open>in\<close> and \<^verbatim>\<open>last\<close> are a list. A pointer to an entry
  that was deleted is a hole in the heap. The field \<^verbatim>\<open>nv_keep\<close>, which is only ever null, is left out.
\<close>

datatype http2_opcode = HTTP2_OPCODE_NONE | HTTP2_OPCODE_INDEXED | HTTP2_OPCODE_NEWNAME | HTTP2_OPCODE_INDNAME

datatype http2_inflate_state =
    HTTP2_STATE_EXPECT_TABLE_SIZE
  | HTTP2_STATE_INFLATE_START
  | HTTP2_STATE_OPCODE
  | HTTP2_STATE_READ_TABLE_SIZE
  | HTTP2_STATE_READ_INDEX
  | HTTP2_STATE_NEWNAME_CHECK_NAMELEN
  | HTTP2_STATE_NEWNAME_READ_NAMELEN
  | HTTP2_STATE_NEWNAME_READ_NAMEHUFF
  | HTTP2_STATE_NEWNAME_READ_NAME
  | HTTP2_STATE_CHECK_VALUELEN
  | HTTP2_STATE_READ_VALUELEN
  | HTTP2_STATE_READ_VALUEHUFF
  | HTTP2_STATE_READ_VALUE

record http2_inflater =
  if_ctx :: http2_context
  nvbufs :: buffer
  ent_keep :: "addr option"
  if_left :: u32
  if_index :: u32
  newnamelen :: u32
  settings_hd_table_bufsize_max :: u32
  if_shift :: nat
  opcode :: http2_opcode
  if_state :: http2_inflate_state
  huff_decode_ctx :: http2_hd_huff_decode_context
  huffman_encoded :: bool
  index_required :: bool
  no_index :: bool

definition http2_inflater_ctor :: "(u32 \<Rightarrow> bool) \<Rightarrow> http2_inflater exec" where
  "http2_inflater_ctor mem =
     bind_exec (http2_context_ctor mem) (\<lambda>ctx.
       Inr \<lparr>if_ctx = ctx, nvbufs = [], ent_keep = None, if_left = 0, if_index = 0, newnamelen = 0,
            settings_hd_table_bufsize_max = HTTP2_DEFAULT_MAX_BUFFER_SIZE, if_shift = 0, opcode = HTTP2_OPCODE_NONE,
            if_state = HTTP2_STATE_INFLATE_START, huff_decode_ctx = \<lparr>ctx_state = 0, ctx_accept = 0\<rparr>,
            huffman_encoded = False, index_required = False, no_index = False\<rparr>)"

text \<open>\<^verbatim>\<open>delete\<close> of an entry; deleting it twice is undefined.\<close>

definition delete_entry :: "heap \<Rightarrow> addr \<Rightarrow> heap exec" where
  "delete_entry h a = bind_exec (deref h a) (\<lambda>e. Inr (h[a := None]))"

text \<open>The value of a header that is read by name and value is constructed from the range that starts and ends one
  byte beyond the end of the buffer, because \<^verbatim>\<open>nv->name\<close> is the whole buffer by then: it is empty.\<close>

definition hd_inflate_remove_bufs :: "http2_inflater \<Rightarrow> http2_nv \<Rightarrow> bool \<Rightarrow> http2_inflater \<times> http2_nv" where
  "hd_inflate_remove_bufs infl nv value_only =
     (let buf = nvbufs infl;
          infl = infl\<lparr>nvbufs := []\<rparr>
      in if value_only then (infl, nv\<lparr>nv_name := [], nv_value := buf\<rparr>)
         else (infl, nv\<lparr>nv_name := buf, nv_value := []\<rparr>))"

definition hd_inflate_read :: "http2_inflater \<Rightarrow> buffer \<Rightarrow> int \<times> http2_inflater" where
  "hd_inflate_read infl inp =
     (let len = min (of_nat (length inp)) (if_left infl)
      in (uint len, infl\<lparr>nvbufs := nvbufs infl @ take (unat len) inp, if_left := if_left infl - len\<rparr>))"

definition hd_inflate_read_len :: "http2_inflater \<Rightarrow> buffer \<Rightarrow> nat \<Rightarrow> u32 \<Rightarrow> (int \<times> bool \<times> http2_inflater) exec" where
  "hd_inflate_read_len infl inp prefix maxlen =
     bind_exec (decode_length (if_left infl) (if_shift infl) inp prefix) (\<lambda>d.
       let infl = infl\<lparr>if_shift := dl_shift d\<rparr> in
       if dl_rv d = -1 then Inr (-1, dl_final d, infl)
       else if the (dl_res d) > maxlen then Inr (-1, dl_final d, infl)
       else Inr (dl_rv d, dl_final d, infl\<lparr>if_left := the (dl_res d)\<rparr>))"

definition hd_inflate_set_huffman_encoded :: "http2_inflater \<Rightarrow> u8 \<Rightarrow> http2_inflater" where
  "hd_inflate_set_huffman_encoded infl b = infl\<lparr>huffman_encoded := (b AND 128 \<noteq> 0)\<rparr>"

definition hd_inflate_read_huff :: "http2_inflater \<Rightarrow> buffer \<Rightarrow> int \<times> http2_inflater" where
  "hd_inflate_read_huff infl inp =
     (let final = of_nat (length inp) \<ge> if_left infl;
          src = (if final then take (unat (if_left infl)) inp else inp)
      in case http2_huffman_decode (huff_decode_ctx infl) (nvbufs infl) src final of (ctx, bufs, readlen) \<Rightarrow>
           let infl = infl\<lparr>huff_decode_ctx := ctx, nvbufs := bufs\<rparr> in
           if readlen < 0 then (readlen, infl)
           else (readlen, infl\<lparr>if_left := if_left infl - word_of_int readlen\<rparr>))"

definition emit_indexed_header :: "http2_entry \<Rightarrow> http2_nv \<times> int" where
  "emit_indexed_header ent = (ent_nv ent, ent_token ent)"

definition emit_literal_header :: "http2_nv \<Rightarrow> http2_nv \<times> int" where
  "emit_literal_header nv = (nv, lookup_token (nv_name nv) (namelen nv))"

definition hd_inflate_commit_indexed :: "heap \<Rightarrow> http2_inflater \<Rightarrow> (http2_nv \<times> int) exec" where
  "hd_inflate_commit_indexed h infl =
     bind_exec (http2_hd_table_get (if_ctx infl) (if_index infl)) (\<lambda>p.
     bind_exec (deref_entry h p) (\<lambda>ent. Inr (emit_indexed_header ent)))"

definition blank_nv :: http2_nv where
  "blank_nv = \<lparr>nv_name = [], nv_value = [], nv_flags = 0\<rparr>"

definition flagged_nv :: "http2_inflater \<Rightarrow> http2_nv \<Rightarrow> http2_nv" where
  "flagged_nv infl nv = nv\<lparr>nv_flags := (if no_index infl then HTTP2_NV_FLAG_NO_INDEX else 0)\<rparr>"

definition hd_inflate_commit_newname :: "(u32 \<Rightarrow> bool) \<Rightarrow> heap \<Rightarrow> http2_inflater \<Rightarrow> (heap \<times> http2_inflater \<times> http2_nv \<times> int) exec" where
  "hd_inflate_commit_newname mem h infl =
     (let (infl, nv) = hd_inflate_remove_bufs infl blank_nv False;
          nv = flagged_nv infl nv
      in if index_required infl then
           bind_exec (add_hd_table_incremental mem h (if_ctx infl) nv (lookup_token (nv_name nv) (namelen nv)) None 0)
             (\<lambda>(new_ent, h, ctx, mp).
                let infl = infl\<lparr>if_ctx := ctx\<rparr> in
                case new_ent of
                  None \<Rightarrow> Inl Terminated
                | Some a \<Rightarrow> bind_exec (deref h a) (\<lambda>ent. Inr (h, infl\<lparr>ent_keep := Some a\<rparr>, emit_indexed_header ent)))
         else Inl Terminated)"

text \<open>\<^verbatim>\<open>hd_inflate_remove_bufs_with_name\<close> consists of \<^verbatim>\<open>NOTREACHED()\<close>, which ends the process; so does the end of the path for
  literals that are not indexed.\<close>

definition hd_inflate_remove_bufs_with_name :: "http2_inflater \<Rightarrow> http2_nv \<Rightarrow> entry_ptr \<Rightarrow> (http2_inflater \<times> http2_nv) exec" where
  "hd_inflate_remove_bufs_with_name infl nv ent_name = Inl Terminated"

definition hd_inflate_commit_indname :: "(u32 \<Rightarrow> bool) \<Rightarrow> heap \<Rightarrow> http2_inflater \<Rightarrow> (heap \<times> http2_inflater \<times> http2_nv \<times> int) exec" where
  "hd_inflate_commit_indname mem h infl =
     (let nv = flagged_nv infl blank_nv in
      bind_exec (http2_hd_table_get (if_ctx infl) (if_index infl)) (\<lambda>ent_name.
        if index_required infl then
          bind_exec
            (if if_index infl < HTTP2_STATIC_TABLE_LENGTH then
               let (infl, nv) = hd_inflate_remove_bufs infl nv True in
               bind_exec (deref_entry h ent_name) (\<lambda>e. Inr (infl, nv\<lparr>nv_name := nv_name (ent_nv e)\<rparr>))
             else hd_inflate_remove_bufs_with_name infl nv ent_name)
            (\<lambda>(infl, nv).
               bind_exec (deref_entry h ent_name) (\<lambda>e.
               bind_exec (add_hd_table_incremental mem h (if_ctx infl) nv (ent_token e) None 0) (\<lambda>(new_ent, h, ctx, mp).
                 let infl = infl\<lparr>if_ctx := ctx\<rparr> in
                 case new_ent of
                   None \<Rightarrow> Inl Terminated
                 | Some a \<Rightarrow>
                     bind_exec (deref h a) (\<lambda>ent.
                     bind_exec (case ent_keep infl of None \<Rightarrow> Inr h | Some k \<Rightarrow> delete_entry h k) (\<lambda>h.
                       Inr (h, infl\<lparr>ent_keep := Some a\<rparr>, emit_indexed_header ent))))))
        else
          let (infl, nv) = hd_inflate_remove_bufs infl nv True in
          bind_exec (deref_entry h ent_name) (\<lambda>e.
            let (nv_out, token_out) = emit_literal_header (nv\<lparr>nv_name := nv_name (ent_nv e)\<rparr>) in Inl Terminated)))"

subsection \<open>The state machine\<close>

text \<open>What a pass through the loop ends with: another pass (with the flag \<^verbatim>\<open>busy\<close>), \<^verbatim>\<open>goto almost_ok\<close>, the return of a
  header, or \<^verbatim>\<open>goto fail\<close> with \<^verbatim>\<open>rv\<close>.\<close>

datatype step_result =
    Next heap http2_inflater buffer bool
  | Almost_ok heap http2_inflater buffer
  | Emit heap http2_inflater buffer http2_nv int
  | Fail heap http2_inflater int

definition HTTP2_MAX_NV :: u32 where "HTTP2_MAX_NV = 65536"

text \<open>The states that read the first byte of a representation.\<close>

definition step_opcode :: "heap \<Rightarrow> http2_inflater \<Rightarrow> buffer \<Rightarrow> step_result exec" where
  "step_opcode h infl inp =
     (case inp of
        [] \<Rightarrow> Inl Undefined
      | b # inp' \<Rightarrow>
          if if_state infl = HTTP2_STATE_EXPECT_TABLE_SIZE \<and> b AND 0xe0 \<noteq> 0x20 then Inr (Fail h infl (-1))
          else if b AND 0xe0 = 0x20 then
            (if if_state infl = HTTP2_STATE_OPCODE then Inr (Fail h infl (-1))
             else Inr (Next h (infl\<lparr>opcode := HTTP2_OPCODE_INDEXED, if_state := HTTP2_STATE_READ_TABLE_SIZE,
                                 if_left := 0, if_shift := 0\<rparr>) inp False))
          else if b AND 0x80 \<noteq> 0 then
            Inr (Next h (infl\<lparr>opcode := HTTP2_OPCODE_INDEXED, if_state := HTTP2_STATE_READ_INDEX,
                           if_left := 0, if_shift := 0\<rparr>) inp False)
          else if b = 0x40 \<or> b = 0 \<or> b = 0x10 then
            Inr (Next h (infl\<lparr>opcode := HTTP2_OPCODE_NEWNAME, if_state := HTTP2_STATE_NEWNAME_CHECK_NAMELEN,
                           index_required := (b AND 0x40 \<noteq> 0), no_index := (b AND 0xf0 = 0x10),
                           if_left := 0, if_shift := 0\<rparr>) inp' False)
          else
            Inr (Next h (infl\<lparr>opcode := HTTP2_OPCODE_INDNAME, if_state := HTTP2_STATE_READ_INDEX,
                           index_required := (b AND 0x40 \<noteq> 0), no_index := (b AND 0xf0 = 0x10),
                           if_left := 0, if_shift := 0\<rparr>) inp False))"

definition step_table_size :: "heap \<Rightarrow> http2_inflater \<Rightarrow> buffer \<Rightarrow> step_result exec" where
  "step_table_size h infl inp =
     bind_exec (hd_inflate_read_len infl inp 5 (settings_hd_table_bufsize_max infl)) (\<lambda>(rv, rfin, infl).
       if rv < 0 then Inr (Fail h infl rv)
       else
         let inp = drop (nat rv) inp in
         if \<not> rfin then Inr (Almost_ok h infl inp)
         else bind_exec (hd_context_shrink_table_size h ((if_ctx infl)\<lparr>hd_table_bufsize_max := if_left infl\<rparr>) None)
           (\<lambda>(h, ctx, mp). Inr (Next h (infl\<lparr>if_ctx := ctx, if_state := HTTP2_STATE_INFLATE_START\<rparr>) inp False)))"

definition step_read_index :: "heap \<Rightarrow> http2_inflater \<Rightarrow> buffer \<Rightarrow> step_result exec" where
  "step_read_index h infl inp =
     (let prefixlen = (if opcode infl = HTTP2_OPCODE_INDEXED then 7 else if index_required infl then 6 else 4) in
      bind_exec (hd_inflate_read_len infl inp prefixlen (get_max_index (if_ctx infl) + 1)) (\<lambda>(rv, rfin, infl).
        if rv < 0 then Inr (Fail h infl rv)
        else
          let inp = drop (nat rv) inp in
          if \<not> rfin then Inr (Almost_ok h infl inp)
          else if if_left infl = 0 then Inr (Fail h infl (-1))
          else
            let infl = infl\<lparr>if_index := if_left infl - 1\<rparr> in
            if opcode infl = HTTP2_OPCODE_INDEXED
            then bind_exec (hd_inflate_commit_indexed h infl) (\<lambda>(nv, token).
                   Inr (Emit h (infl\<lparr>if_state := HTTP2_STATE_OPCODE\<rparr>) inp nv token))
            else Inr (Next h (infl\<lparr>if_state := HTTP2_STATE_CHECK_VALUELEN\<rparr>) inp False)))"

definition step_read_namelen :: "heap \<Rightarrow> http2_inflater \<Rightarrow> buffer \<Rightarrow> step_result exec" where
  "step_read_namelen h infl inp =
     bind_exec (hd_inflate_read_len infl inp 7 HTTP2_MAX_NV) (\<lambda>(rv, rfin, infl).
       if rv < 0 then Inr (Fail h infl rv)
       else
         let inp = drop (nat rv) inp in
         if \<not> rfin then Inr (Almost_ok h infl inp)
         else if huffman_encoded infl then Inl Terminated
         else Inr (Next h (infl\<lparr>if_state := HTTP2_STATE_NEWNAME_READ_NAME\<rparr>) inp False))"

definition step_read_name :: "heap \<Rightarrow> buffer \<Rightarrow> int \<times> http2_inflater \<Rightarrow> step_result exec" where
  "step_read_name h inp r =
     (case r of (rv, infl) \<Rightarrow>
        if rv < 0 then Inr (Fail h infl rv)
        else
          let inp = drop (nat rv) inp in
          if if_left infl \<noteq> 0 then Inr (Almost_ok h infl inp)
          else Inr (Next h (infl\<lparr>newnamelen := of_nat (length (nvbufs infl)), if_state := HTTP2_STATE_CHECK_VALUELEN\<rparr>) inp False))"

definition step_read_valuelen :: "heap \<Rightarrow> http2_inflater \<Rightarrow> buffer \<Rightarrow> step_result exec" where
  "step_read_valuelen h infl inp =
     bind_exec (hd_inflate_read_len infl inp 7 HTTP2_MAX_NV) (\<lambda>(rv, rfin, infl).
       if rv < 0 then Inr (Fail h infl rv)
       else
         let inp = drop (nat rv) inp in
         if \<not> rfin then Inr (Almost_ok h infl inp)
         else if huffman_encoded infl
         then Inr (Next h (infl\<lparr>huff_decode_ctx := http2_huffman_decode_context_init, if_state := HTTP2_STATE_READ_VALUEHUFF\<rparr>) inp True)
         else Inr (Next h (infl\<lparr>if_state := HTTP2_STATE_READ_VALUE\<rparr>) inp True))"

definition step_read_value :: "(u32 \<Rightarrow> bool) \<Rightarrow> heap \<Rightarrow> buffer \<Rightarrow> int \<times> http2_inflater \<Rightarrow> step_result exec" where
  "step_read_value mem h inp r =
     (case r of (rv, infl) \<Rightarrow>
        if rv < 0 then Inr (Fail h infl rv)
        else
          let inp = drop (nat rv) inp in
          if if_left infl \<noteq> 0 then Inr (Almost_ok h infl inp)
          else bind_exec (if opcode infl = HTTP2_OPCODE_NEWNAME then hd_inflate_commit_newname mem h infl
                          else hd_inflate_commit_indname mem h infl)
            (\<lambda>(h, infl, nv, token). Inr (Emit h (infl\<lparr>if_state := HTTP2_STATE_OPCODE\<rparr>) inp nv token)))"

text \<open>The states that look at the first byte of a length, and fall through to reading it.\<close>

definition check_len :: "http2_inflater \<Rightarrow> buffer \<Rightarrow> http2_inflate_state \<Rightarrow> http2_inflater exec" where
  "check_len infl inp st =
     (case inp of
        [] \<Rightarrow> Inl Undefined
      | b # _ \<Rightarrow> Inr ((hd_inflate_set_huffman_encoded infl b)\<lparr>if_state := st, if_left := 0, if_shift := 0\<rparr>))"

definition inflate_step :: "(u32 \<Rightarrow> bool) \<Rightarrow> heap \<Rightarrow> http2_inflater \<Rightarrow> buffer \<Rightarrow> step_result exec" where
  "inflate_step mem h infl inp =
     (case if_state infl of
        HTTP2_STATE_EXPECT_TABLE_SIZE \<Rightarrow> step_opcode h infl inp
      | HTTP2_STATE_INFLATE_START \<Rightarrow> step_opcode h infl inp
      | HTTP2_STATE_OPCODE \<Rightarrow> step_opcode h infl inp
      | HTTP2_STATE_READ_TABLE_SIZE \<Rightarrow> step_table_size h infl inp
      | HTTP2_STATE_READ_INDEX \<Rightarrow> step_read_index h infl inp
      | HTTP2_STATE_NEWNAME_CHECK_NAMELEN \<Rightarrow>
          bind_exec (check_len infl inp HTTP2_STATE_NEWNAME_READ_NAMELEN) (\<lambda>infl. step_read_namelen h infl inp)
      | HTTP2_STATE_NEWNAME_READ_NAMELEN \<Rightarrow> step_read_namelen h infl inp
      | HTTP2_STATE_NEWNAME_READ_NAMEHUFF \<Rightarrow> step_read_name h inp (hd_inflate_read_huff infl inp)
      | HTTP2_STATE_NEWNAME_READ_NAME \<Rightarrow> step_read_name h inp (hd_inflate_read infl inp)
      | HTTP2_STATE_CHECK_VALUELEN \<Rightarrow>
          bind_exec (check_len infl inp HTTP2_STATE_READ_VALUELEN) (\<lambda>infl. step_read_valuelen h infl inp)
      | HTTP2_STATE_READ_VALUELEN \<Rightarrow> step_read_valuelen h infl inp
      | HTTP2_STATE_READ_VALUEHUFF \<Rightarrow> step_read_value mem h inp (hd_inflate_read_huff infl inp)
      | HTTP2_STATE_READ_VALUE \<Rightarrow> step_read_value mem h inp (hd_inflate_read infl inp))"

text \<open>Every pass consumes input or moves on to a state that does.\<close>

definition state_rank :: "http2_inflate_state \<Rightarrow> nat" where
  "state_rank st =
     (if st \<in> {HTTP2_STATE_EXPECT_TABLE_SIZE, HTTP2_STATE_INFLATE_START, HTTP2_STATE_OPCODE,
               HTTP2_STATE_NEWNAME_READ_NAMEHUFF, HTTP2_STATE_NEWNAME_READ_NAME} then 1 else 0)"

lemma decode_length_final_range:
  assumes "decode_length initial shift inp prefix = Inr d" "dl_final d"
  shows "1 \<le> dl_rv d \<and> dl_rv d \<le> int (length inp)"
proof -
  have fin: "1 \<le> dl_rv d \<and> dl_rv d \<le> int (c + length bs)"
    if run: "decode_length_finish (c + length bs) (decode_length_loop n shift bs) = Inr d" for c n bs
  proof -
    from decode_length_finish_final [OF run assms(2)] obtain n' s' b rest where
      "decode_length_loop n shift bs = Inr (Some (n', s', b # rest))" "dl_rv d = int (c + length bs - length (b # rest)) + 1" by blast
    with decode_length_loop_rest [of n shift bs n' s' "b # rest"] show ?thesis by simp
  qed
  show ?thesis
    using assms fin [where c = 0 and bs = inp] fin [where c = 1 and bs = "tl inp"]
    by (auto simp: decode_length_def Let_def split: list.splits if_splits)
qed

lemma hd_inflate_read_len_final:
  assumes "hd_inflate_read_len infl inp prefix maxlen = Inr (rv, True, infl')" "0 \<le> rv"
  shows "length (drop (nat rv) inp) < length inp \<and> if_state infl' = if_state infl"
  using assms decode_length_final_range [of "if_left infl" "if_shift infl" inp prefix]
  by (auto simp: hd_inflate_read_len_def bind_exec_Inr_iff Let_def split: if_splits)

lemma step_opcode_Next:
  "step_opcode h infl inp = Inr (Next h' infl' inp' busy') \<Longrightarrow> 2 * length inp' + state_rank (if_state infl') \<le> 2 * length inp"
  by (auto simp: step_opcode_def state_rank_def split: list.splits if_splits)

lemma step_len_Next:
  "step_table_size h infl inp = Inr (Next h' infl' inp' busy') \<Longrightarrow> length inp' < length inp"
  "step_read_index h infl inp = Inr (Next h' infl' inp' busy') \<Longrightarrow> length inp' < length inp"
  "step_read_namelen h infl inp = Inr (Next h' infl' inp' busy') \<Longrightarrow> length inp' < length inp"
  "step_read_valuelen h infl inp = Inr (Next h' infl' inp' busy') \<Longrightarrow> length inp' < length inp"
  by (auto simp: step_table_size_def step_read_index_def step_read_namelen_def step_read_valuelen_def
      bind_exec_Inr_iff Let_def split: if_splits dest!: hd_inflate_read_len_final)

lemma step_read_name_Next:
  "step_read_name h inp r = Inr (Next h' infl' inp' busy') \<Longrightarrow> length inp' \<le> length inp \<and> if_state infl' = HTTP2_STATE_CHECK_VALUELEN"
  by (auto simp: step_read_name_def Let_def split: prod.splits if_splits)

lemma step_read_value_Next: "step_read_value mem h inp r \<noteq> Inr (Next h' infl' inp' busy')"
  by (auto simp: step_read_value_def Let_def bind_exec_Inr_iff split: prod.splits)

lemma state_rank_le: "state_rank st \<le> 1"
  by (simp add: state_rank_def)

lemma step_Next_decreases:
  assumes "inflate_step mem h infl inp = Inr (Next h' infl' inp' busy')"
  shows "2 * length inp' + state_rank (if_state infl') < 2 * length inp + state_rank (if_state infl)"
proof -
  have len: "2 * length inp' + state_rank (if_state infl') < 2 * length inp + k" if "length inp' < length inp" for k
    using that state_rank_le [of "if_state infl'"] by linarith
  show ?thesis
  proof (cases "state_rank (if_state infl) = 1")
    case True
    with assms show ?thesis
      by (auto simp: inflate_step_def state_rank_def split: if_splits dest!: step_opcode_Next step_read_name_Next)
  next
    case False
    then have "length inp' < length inp"
      using assms by (cases "if_state infl")
        (auto simp: inflate_step_def state_rank_def bind_exec_Inr_iff step_read_value_Next dest: step_len_Next)
    then show ?thesis by (rule len)
  qed
qed

text \<open>The loop. It ends with \<open>Next\<close> when its condition is false.\<close>

function inflate_loop :: "(u32 \<Rightarrow> bool) \<Rightarrow> heap \<Rightarrow> http2_inflater \<Rightarrow> buffer \<Rightarrow> bool \<Rightarrow> step_result exec" where
  "inflate_loop mem h infl inp busy =
     (if inp \<noteq> [] \<or> busy then
        bind_exec (inflate_step mem h infl inp) (\<lambda>r.
          case r of
            Next h infl inp busy \<Rightarrow> inflate_loop mem h infl inp busy
          | Almost_ok h infl inp \<Rightarrow> Inr r
          | Emit h infl inp nv token \<Rightarrow> Inr r
          | Fail h infl rv \<Rightarrow> Inr r)
      else Inr (Next h infl inp False))"
  by pat_completeness auto
termination
  by (relation "measure (\<lambda>(mem, h, infl, inp, busy). 2 * length inp + state_rank (if_state infl))")
    (auto dest: step_Next_decreases)

declare inflate_loop.simps [simp del]

text \<open>What a call leaves behind: the return value and what was written to \<^verbatim>\<open>*nv_out\<close>, \<^verbatim>\<open>*token_out\<close> and \<^verbatim>\<open>*inflate_flags\<close>.\<close>

record inflate_out =
  io_rv :: int
  io_nv :: "http2_nv option"
  io_token :: "int option"
  io_flags :: "u8 option"

abbreviation (input) HTTP2_INFLATE_NONE :: u8 where "HTTP2_INFLATE_NONE \<equiv> 0"
abbreviation (input) HTTP2_INFLATE_FINAL :: u8 where "HTTP2_INFLATE_FINAL \<equiv> 1"
abbreviation (input) HTTP2_INFLATE_EMIT :: u8 where "HTTP2_INFLATE_EMIT \<equiv> 2"

definition set_bad :: "http2_inflater \<Rightarrow> http2_inflater" where
  "set_bad infl = infl\<lparr>if_ctx := (if_ctx infl)\<lparr>bad := True\<rparr>\<rparr>"

definition inflate_finish :: "nat \<Rightarrow> bool \<Rightarrow> step_result \<Rightarrow> inflate_out \<times> heap \<times> http2_inflater" where
  "inflate_finish inlen in_final r =
     (case r of
        Next h infl inp busy \<Rightarrow>
          if in_final \<and> if_state infl \<noteq> HTTP2_STATE_OPCODE
          then (\<lparr>io_rv = -1, io_nv = None, io_token = Some (-1), io_flags = Some HTTP2_INFLATE_NONE\<rparr>, h, set_bad infl)
          else (\<lparr>io_rv = int (inlen - length inp), io_nv = None, io_token = Some (-1),
                 io_flags = Some (if in_final then HTTP2_INFLATE_FINAL else HTTP2_INFLATE_NONE)\<rparr>, h, infl)
      | Almost_ok h infl inp \<Rightarrow>
          if in_final \<and> if_state infl \<noteq> HTTP2_STATE_OPCODE
          then (\<lparr>io_rv = -1, io_nv = None, io_token = Some (-1), io_flags = Some HTTP2_INFLATE_NONE\<rparr>, h, set_bad infl)
          else (\<lparr>io_rv = int (inlen - length inp), io_nv = None, io_token = Some (-1), io_flags = Some HTTP2_INFLATE_NONE\<rparr>, h, infl)
      | Emit h infl inp nv token \<Rightarrow>
          (\<lparr>io_rv = int (inlen - length inp), io_nv = Some nv, io_token = Some token, io_flags = Some HTTP2_INFLATE_EMIT\<rparr>, h, infl)
      | Fail h infl rv \<Rightarrow>
          (\<lparr>io_rv = rv, io_nv = None, io_token = Some (-1), io_flags = Some HTTP2_INFLATE_NONE\<rparr>, h, set_bad infl))"

definition http2_inflate_hd2 :: "(u32 \<Rightarrow> bool) \<Rightarrow> heap \<Rightarrow> http2_inflater \<Rightarrow> buffer \<Rightarrow> bool \<Rightarrow> (inflate_out \<times> heap \<times> http2_inflater) exec" where
  "http2_inflate_hd2 mem h infl inp in_final =
     (if bad (if_ctx infl) then Inr (\<lparr>io_rv = -1, io_nv = None, io_token = None, io_flags = None\<rparr>, h, infl)
      else
        bind_exec (case ent_keep infl of None \<Rightarrow> Inr (h, infl)
                   | Some a \<Rightarrow> bind_exec (delete_entry h a) (\<lambda>h. Inr (h, infl\<lparr>ent_keep := None\<rparr>)))
          (\<lambda>(h, infl). bind_exec (inflate_loop mem h infl inp False) (\<lambda>r. Inr (inflate_finish (length inp) in_final r))))"

text \<open>\<^verbatim>\<open>http2_inflate_hd\<close> drops the token.\<close>

definition http2_inflate_hd :: "(u32 \<Rightarrow> bool) \<Rightarrow> heap \<Rightarrow> http2_inflater \<Rightarrow> buffer \<Rightarrow> bool \<Rightarrow> (inflate_out \<times> heap \<times> http2_inflater) exec" where
  "http2_inflate_hd mem h infl inp in_final =
     bind_exec (http2_inflate_hd2 mem h infl inp in_final) (\<lambda>(out, h, infl). Inr (out\<lparr>io_token := None\<rparr>, h, infl))"

subsection \<open>Reading lengths and strings\<close>

lemma read_len_encode:
  assumes "if_left infl = 0" "if_shift infl = 0" "n \<le> maxlen" "1 \<le> prefix" "prefix \<le> 8"
  shows "\<exists>sh. hd_inflate_read_len infl (encode_length b n prefix @ rest) prefix maxlen
    = Inr (int (length (encode_length b n prefix)), True, infl\<lparr>if_shift := sh, if_left := n\<rparr>)"
  using decode_encode_length [OF assms(4,5), of b n rest] assms(1-3) by (auto simp: hd_inflate_read_len_def Let_def)

lemma inflate_loop_Next:
  assumes "inp \<noteq> [] \<or> busy" "inflate_step mem h infl inp = Inr (Next h' infl' inp' busy')"
  shows "inflate_loop mem h infl inp busy = inflate_loop mem h' infl' inp' busy'"
  using assms by (subst inflate_loop.simps) simp

lemma inflate_loop_Emit:
  assumes "inp \<noteq> [] \<or> busy" "inflate_step mem h infl inp = Inr (Emit h' infl' inp' nv token)"
  shows "inflate_loop mem h infl inp busy = Inr (Emit h' infl' inp' nv token)"
  using assms by (subst inflate_loop.simps) simp

lemma inflate_loop_Inl:
  assumes "inp \<noteq> [] \<or> busy" "inflate_step mem h infl inp = Inl e"
  shows "inflate_loop mem h infl inp busy = Inl e"
  using assms by (subst inflate_loop.simps) simp

text \<open>What \<^verbatim>\<open>emit_string\<close> appends does not depend on what is in the buffer.\<close>

lemma bytes_bits_inj: "bytes_bits bs = bytes_bits cs \<Longrightarrow> bs = cs"
  using bytes_bits_prefix [of cs bs "[]"] length_bytes_bits by (metis append.right_neutral list.size(3) length_0_conv mult_is_0 zero_neq_numeral)

lemma huffman_encode_append:
  assumes "http2_huffman_encode [] s = Inr (enc, 0)"
  shows "http2_huffman_encode bufs s = Inr (bufs @ enc, 0)"
proof -
  from http2_huffman_encode_bits_eq [of "[]" s] assms obtain k where
    k: "k < 8" "bytes_bits enc = concat (map code_bits s) @ replicate k True" by auto
  from http2_huffman_encode_bits_eq [of bufs s] obtain enc' k' where
    k': "http2_huffman_encode bufs s = Inr (bufs @ enc', 0)" "k' < 8" "bytes_bits enc' = concat (map code_bits s) @ replicate k' True"
    by blast
  let ?n = "length (concat (map code_bits s))"
  have "?n + k = 8 * length enc" "?n + k' = 8 * length enc'"
    using k(2) k'(3) by (metis length_append length_bytes_bits length_replicate)+
  with k(1) k'(2) have "k = k'" by presburger
  with k(2) k'(3) have "bytes_bits enc' = bytes_bits enc" by simp
  with k'(1) show ?thesis by (simp add: bytes_bits_inj)
qed

lemma emit_string_block:
  assumes "small_string s"
  shows "emit_string bufs s = Inr (0, bufs @ string_block s)"
    and "\<exists>he n body. string_block s = encode_length (if he then 128 else 0) n 7 @ body \<and> unat n = length body
      \<and> length body \<le> length s \<and> (if he then rfc_huffman body = Some s else body = s)"
proof -
  let ?len = "of_nat (length s) :: u32" and ?n = "http2_huffman_encode_count s"
  have len: "unat ?len = length s" using assms by (simp add: small_string_def unat_of_nat take_bit_nat_eq_self)
  have "(\<forall>bufs. emit_string bufs s = Inr (0, bufs @ string_block s))
    \<and> (\<exists>he n body. string_block s = encode_length (if he then 128 else 0) n 7 @ body \<and> unat n = length body
      \<and> length body \<le> length s \<and> (if he then rfc_huffman body = Some s else body = s))"
  proof (cases "?n < ?len")
    case True
    from huffman_string [OF assms, of "[]"] obtain enc where
      enc: "http2_huffman_encode [] s = Inr (enc, 0)" "length enc = unat ?n" "rfc_huffman enc = Some s" by auto
    have e: "emit_string bufs s = Inr (0, bufs @ encode_length 128 ?n 7 @ enc)" for bufs
      using True huffman_encode_append [OF enc(1)] by (simp add: emit_string_def len Let_def encode_block)
    then have b: "string_block s = encode_length 128 ?n 7 @ enc" by (simp add: string_block_def)
    have "length enc \<le> length s" using True enc(2) len by (simp add: word_less_nat_alt)
    with e b enc show ?thesis by (auto intro!: exI [of _ True] exI [of _ ?n] exI [of _ enc])
  next
    case False
    then have e: "emit_string bufs s = Inr (0, bufs @ encode_length 0 ?len 7 @ s)" for bufs
      by (simp add: emit_string_def len Let_def encode_block)
    then have b: "string_block s = encode_length 0 ?len 7 @ s" by (simp add: string_block_def)
    with e len show ?thesis by (auto intro!: exI [of _ False] exI [of _ ?len] exI [of _ s])
  qed
  then show "emit_string bufs s = Inr (0, bufs @ string_block s)"
    and "\<exists>he n body. string_block s = encode_length (if he then 128 else 0) n 7 @ body \<and> unat n = length body
      \<and> length body \<le> length s \<and> (if he then rfc_huffman body = Some s else body = s)" by blast+
qed

text \<open>Reading the body of a string, of which all bytes are there.\<close>

lemma word_le_length:
  assumes "unat n \<le> L" "L < 2 ^ 32"
  shows "(n :: u32) \<le> of_nat L"
  using assms by (simp add: word_le_nat_alt unat_of_nat take_bit_nat_eq_self)

lemma read_plain:
  assumes "unat (if_left infl) = length body" "length (body @ rest) < 2 ^ 32"
  shows "hd_inflate_read infl (body @ rest) = (int (length body), infl\<lparr>nvbufs := nvbufs infl @ body, if_left := 0\<rparr>)"
proof -
  have "if_left infl \<le> of_nat (length (body @ rest))" using assms by (intro word_le_length) simp_all
  then have "min (of_nat (length (body @ rest))) (if_left infl) = if_left infl" by (rule min.absorb2)
  moreover have "uint (if_left infl) = int (length body)" using assms(1) by (simp flip: assms(1))
  ultimately show ?thesis using assms(1) by (simp add: hd_inflate_read_def Let_def del: length_append)
qed

lemma read_huffman:
  assumes "unat (if_left infl) = length body" "length (body @ rest) < 2 ^ 32" "rfc_huffman body = Some s"
    and "huff_decode_ctx infl = http2_huffman_decode_context_init"
  shows "\<exists>hc. hd_inflate_read_huff infl (body @ rest)
    = (int (length body), infl\<lparr>huff_decode_ctx := hc, nvbufs := nvbufs infl @ s, if_left := 0\<rparr>)"
proof -
  have "if_left infl \<le> of_nat (length (body @ rest))" using assms by (intro word_le_length) simp_all
  moreover obtain hc where "http2_huffman_decode http2_huffman_decode_context_init (nvbufs infl) body True
      = (hc, nvbufs infl @ s, int (length body))"
  proof -
    from assms(3) obtain ctx rv where d: "http2_huffman_decode http2_huffman_decode_context_init [] body True = (ctx, s, rv)" "rv \<noteq> -1"
      by (auto simp: rfc_huffman_def split: prod.splits if_splits)
    from this(1) have "rv = int (length body) \<or> rv = -1" by (auto simp: http2_huffman_decode_def split: prod.splits if_splits)
    with d http2_huffman_decode_sound [of "[]" body ctx s rv] obtain k where
      "k < 8" "bytes_bits body = concat (map code_bits s) @ replicate k True" by auto
    then show thesis using that http2_huffman_decode_ok [of body s k "nvbufs infl" True] by blast
  qed
  moreover have "word_of_int (int (length body)) = if_left infl" using assms(1) by (simp flip: assms(1))
  ultimately show ?thesis using assms(1,4) by (simp add: hd_inflate_read_huff_def Let_def del: length_append) blast
qed

text \<open>A value: from looking at its first byte to committing the header.\<close>

definition value_read :: "http2_inflater \<Rightarrow> buffer \<Rightarrow> http2_inflater \<Rightarrow> bool" where
  "value_read infl s infl' \<longleftrightarrow>
     nvbufs infl' = nvbufs infl @ s \<and> if_left infl' = 0 \<and> if_ctx infl' = if_ctx infl \<and> ent_keep infl' = ent_keep infl
     \<and> if_index infl' = if_index infl \<and> opcode infl' = opcode infl \<and> index_required infl' = index_required infl
     \<and> no_index infl' = no_index infl \<and> settings_hd_table_bufsize_max infl' = settings_hd_table_bufsize_max infl"

definition commit_header :: "(u32 \<Rightarrow> bool) \<Rightarrow> heap \<Rightarrow> http2_inflater \<Rightarrow> (heap \<times> http2_inflater \<times> http2_nv \<times> int) exec" where
  "commit_header mem h infl =
     (if opcode infl = HTTP2_OPCODE_NEWNAME then hd_inflate_commit_newname mem h infl else hd_inflate_commit_indname mem h infl)"

lemma inflate_loop_value:
  assumes "inflate_step mem h infl inp = step_read_value mem h inp (int n, infl')" "if_left infl' = 0"
  shows "inflate_loop mem h infl inp True
    = bind_exec (commit_header mem h infl') (\<lambda>(h, infl, nv, token). Inr (Emit h (infl\<lparr>if_state := HTTP2_STATE_OPCODE\<rparr>) (drop n inp) nv token))"
  by (subst inflate_loop.simps, cases "commit_header mem h infl'")
    (auto simp: assms step_read_value_def Let_def commit_header_def split: if_splits)

lemma check_len_encode:
  "check_len infl (encode_length b n 7 @ rest) st
     = Inr (infl\<lparr>huffman_encoded := bit b 7, if_state := st, if_left := 0, if_shift := 0\<rparr>)"
proof -
  obtain c cs where "encode_length b n 7 = c # cs" by (cases "encode_length b n 7") (auto simp: encode_length_nonempty)
  then show ?thesis
    using encode_length_top [of b n] by (simp add: check_len_def hd_inflate_set_huffman_encoded_def byte_and_128)
qed

lemma inflate_value:
  assumes "if_state infl = HTTP2_STATE_CHECK_VALUELEN" "small_string s" "length s \<le> 65536" "length (string_block s @ rest) < 2 ^ 32"
  shows "\<exists>infl'. inflate_loop mem h infl (string_block s @ rest) busy
      = bind_exec (commit_header mem h infl') (\<lambda>(h, infl, nv, token). Inr (Emit h (infl\<lparr>if_state := HTTP2_STATE_OPCODE\<rparr>) rest nv token))
    \<and> value_read infl s infl'"
proof -
  from emit_string_block(2) [OF assms(2)] obtain he n body where
    sb: "string_block s = encode_length (if he then 128 else 0) n 7 @ body" "unat n = length body"
      "length body \<le> length s" "if he then rfc_huffman body = Some s else body = s" by blast
  let ?e = "encode_length (if he then 128 else 0) n 7"
  let ?i1 = "infl\<lparr>huffman_encoded := he, if_state := HTTP2_STATE_READ_VALUELEN, if_left := 0, if_shift := 0\<rparr>"
  have "bit (if he then 128 else 0 :: u8) 7 = he" by simp
  then have chk: "check_len infl (?e @ body @ rest) HTTP2_STATE_READ_VALUELEN = Inr ?i1" by (simp add: check_len_encode)
  have "n \<le> HTTP2_MAX_NV" using sb(2,3) assms(3) by (simp add: HTTP2_MAX_NV_def word_le_nat_alt)
  then obtain sh where rl: "hd_inflate_read_len ?i1 (?e @ body @ rest) 7 HTTP2_MAX_NV
      = Inr (int (length ?e), True, ?i1\<lparr>if_shift := sh, if_left := n\<rparr>)"
    using read_len_encode [of ?i1 n HTTP2_MAX_NV 7] by auto
  have ne: "?e @ body @ rest \<noteq> []" by (simp add: encode_length_nonempty)
  have small: "length (body @ rest) < 2 ^ 32" using assms(4) sb(1) by simp
  show ?thesis
  proof (cases he)
    case True
    let ?i2 = "?i1\<lparr>if_shift := sh, if_left := n, huff_decode_ctx := http2_huffman_decode_context_init, if_state := HTTP2_STATE_READ_VALUEHUFF\<rparr>"
    have "inflate_step mem h infl (?e @ body @ rest) = Inr (Next h ?i2 (body @ rest) True)"
      using assms(1) chk rl True by (simp add: inflate_step_def step_read_valuelen_def)
    then have "inflate_loop mem h infl (?e @ body @ rest) busy = inflate_loop mem h ?i2 (body @ rest) True"
      using ne by (intro inflate_loop_Next) simp_all
    moreover obtain hc where rd: "hd_inflate_read_huff ?i2 (body @ rest)
        = (int (length body), ?i2\<lparr>huff_decode_ctx := hc, nvbufs := nvbufs ?i2 @ s, if_left := 0\<rparr>)"
      using read_huffman [of ?i2 body rest s] sb True small by auto
    then have "inflate_step mem h ?i2 (body @ rest)
        = step_read_value mem h (body @ rest) (int (length body), ?i2\<lparr>huff_decode_ctx := hc, nvbufs := nvbufs ?i2 @ s, if_left := 0\<rparr>)"
      by (simp add: inflate_step_def)
    note inflate_loop_value [OF this]
    ultimately show ?thesis
      unfolding sb(1) append_assoc
      by (intro exI [of _ "?i2\<lparr>huff_decode_ctx := hc, nvbufs := nvbufs ?i2 @ s, if_left := 0\<rparr>"]) (simp add: value_read_def)
  next
    case False
    let ?i2 = "?i1\<lparr>if_shift := sh, if_left := n, if_state := HTTP2_STATE_READ_VALUE\<rparr>"
    have "inflate_step mem h infl (?e @ body @ rest) = Inr (Next h ?i2 (body @ rest) True)"
      using assms(1) chk rl False by (simp add: inflate_step_def step_read_valuelen_def)
    then have "inflate_loop mem h infl (?e @ body @ rest) busy = inflate_loop mem h ?i2 (body @ rest) True"
      using ne by (intro inflate_loop_Next) simp_all
    moreover have "hd_inflate_read ?i2 (body @ rest) = (int (length body), ?i2\<lparr>nvbufs := nvbufs ?i2 @ s, if_left := 0\<rparr>)"
      using read_plain [of ?i2 body rest] sb False small by simp
    then have "inflate_step mem h ?i2 (body @ rest)
        = step_read_value mem h (body @ rest) (int (length body), ?i2\<lparr>nvbufs := nvbufs ?i2 @ s, if_left := 0\<rparr>)"
      by (simp add: inflate_step_def)
    note inflate_loop_value [OF this]
    ultimately show ?thesis
      unfolding sb(1) append_assoc
      by (intro exI [of _ "?i2\<lparr>nvbufs := nvbufs ?i2 @ s, if_left := 0\<rparr>"]) (simp add: value_read_def)
  qed
qed

subsection \<open>Representations\<close>

text \<open>How the bit tests of \<^verbatim>\<open>http2_inflate_hd2\<close> sort the first bytes.\<close>

lemma first_byte_tests:
  fixes b :: u8
  shows "128 \<le> unat b \<Longrightarrow> b AND 0xe0 \<noteq> 0x20 \<and> b AND 0x80 \<noteq> 0"
    and "64 \<le> unat b \<Longrightarrow> unat b < 128 \<Longrightarrow> b AND 0xe0 \<noteq> 0x20 \<and> b AND 0x80 = 0 \<and> b AND 0x40 \<noteq> 0 \<and> b AND 0xf0 \<noteq> 0x10"
    and "unat b < 32 \<Longrightarrow> b AND 0xe0 \<noteq> 0x20 \<and> b AND 0x80 = 0 \<and> b AND 0x40 = 0"
proof -
  have "list_all (\<lambda>b :: u8. (128 \<le> unat b \<longrightarrow> b AND 0xe0 \<noteq> 0x20 \<and> b AND 0x80 \<noteq> 0)
      \<and> (64 \<le> unat b \<and> unat b < 128 \<longrightarrow> b AND 0xe0 \<noteq> 0x20 \<and> b AND 0x80 = 0 \<and> b AND 0x40 \<noteq> 0 \<and> b AND 0xf0 \<noteq> 0x10)
      \<and> (unat b < 32 \<longrightarrow> b AND 0xe0 \<noteq> 0x20 \<and> b AND 0x80 = 0 \<and> b AND 0x40 = 0)) all_bytes"
    by code_simp
  then have "(128 \<le> unat b \<longrightarrow> b AND 0xe0 \<noteq> 0x20 \<and> b AND 0x80 \<noteq> 0)
      \<and> (64 \<le> unat b \<and> unat b < 128 \<longrightarrow> b AND 0xe0 \<noteq> 0x20 \<and> b AND 0x80 = 0 \<and> b AND 0x40 \<noteq> 0 \<and> b AND 0xf0 \<noteq> 0x10)
      \<and> (unat b < 32 \<longrightarrow> b AND 0xe0 \<noteq> 0x20 \<and> b AND 0x80 = 0 \<and> b AND 0x40 = 0)"
    using in_all_bytes [of b] unfolding list_all_iff by (rule bspec)
  then show "128 \<le> unat b \<Longrightarrow> b AND 0xe0 \<noteq> 0x20 \<and> b AND 0x80 \<noteq> 0"
    and "64 \<le> unat b \<Longrightarrow> unat b < 128 \<Longrightarrow> b AND 0xe0 \<noteq> 0x20 \<and> b AND 0x80 = 0 \<and> b AND 0x40 \<noteq> 0 \<and> b AND 0xf0 \<noteq> 0x10"
    and "unat b < 32 \<Longrightarrow> b AND 0xe0 \<noteq> 0x20 \<and> b AND 0x80 = 0 \<and> b AND 0x40 = 0" by blast+
qed

definition at_field :: "http2_inflater \<Rightarrow> bool" where
  "at_field infl \<longleftrightarrow> if_state infl = HTTP2_STATE_INFLATE_START \<or> if_state infl = HTTP2_STATE_OPCODE"

lemma max_index_ok:
  assumes "tbl_invar h ctx mp" "i < 61 + length (dyn_table h ctx)"
  shows "of_nat i + 1 \<le> get_max_index ctx + 1" "unat (of_nat i + 1 :: u32) = i + 1"
proof -
  have len: "unat (rb_len (hd_table ctx)) = length (dyn_table h ctx)"
    using ring.count [OF tbl_invarD(1) [OF assms(1)]] by (simp add: dyn_table_def)
  have "length (dyn_table h ctx) < 2 ^ 31" using dyn_table_length [OF assms(1)] by (simp add: dyn_table_def)
  then have "unat (get_max_index ctx + 1) = length (dyn_table h ctx) + 61"
    by (simp add: get_max_index_def unat_word_ariths len)
  moreover show "unat (of_nat i + 1 :: u32) = i + 1"
    using assms(2) \<open>length (dyn_table h ctx) < 2 ^ 31\<close> by (simp add: unat_word_ariths unat_of_nat take_bit_nat_eq_self)
  ultimately show "of_nat i + 1 \<le> get_max_index ctx + 1" using assms(2) by (simp add: word_le_nat_alt)
qed

lemma encode_length_Cons:
  obtains c cs where "encode_length b n prefix @ rest = c # cs" "c = hd (encode_length b n prefix)"
  by (cases "encode_length b n prefix") (auto simp: encode_length_nonempty)

lemma inflate_loop_index:
  assumes st: "at_field infl" and n: "of_nat i + 1 \<le> get_max_index (if_ctx infl) + 1" "of_nat i + 1 \<noteq> (0 :: u32)"
  shows "\<exists>infl'. inflate_loop mem h infl (encode_length 0x80 (of_nat i + 1) 7 @ rest) False
      = bind_exec (hd_inflate_commit_indexed h infl') (\<lambda>(nv, token). Inr (Emit h (infl'\<lparr>if_state := HTTP2_STATE_OPCODE\<rparr>) rest nv token))
    \<and> if_ctx infl' = if_ctx infl \<and> if_index infl' = of_nat i \<and> nvbufs infl' = nvbufs infl \<and> ent_keep infl' = ent_keep infl"
proof -
  let ?n = "of_nat i + 1 :: u32"
  let ?e = "encode_length 0x80 ?n 7"
  let ?i1 = "infl\<lparr>opcode := HTTP2_OPCODE_INDEXED, if_state := HTTP2_STATE_READ_INDEX, if_left := 0, if_shift := 0\<rparr>"
  obtain c cs where cs: "?e @ rest = c # cs" "c = hd ?e" by (rule encode_length_Cons)
  have "unat c div 128 = 1" using first_byte_div [of 7 "0x80" ?n] cs(2) by simp
  then have "128 \<le> unat c" by (cases "unat c < 128") simp_all
  note t = first_byte_tests(1) [OF this]
  have s1: "inflate_step mem h infl (?e @ rest) = Inr (Next h ?i1 (?e @ rest) False)"
    using st t unfolding cs(1) by (auto simp: at_field_def inflate_step_def step_opcode_def)
  from read_len_encode [of ?i1 ?n "get_max_index (if_ctx infl) + 1" 7 "0x80" rest] n(1) obtain sh where
    rl: "hd_inflate_read_len ?i1 (?e @ rest) 7 (get_max_index (if_ctx infl) + 1)
       = Inr (int (length ?e), True, ?i1\<lparr>if_shift := sh, if_left := ?n\<rparr>)" by auto
  let ?i2 = "?i1\<lparr>if_shift := sh, if_left := ?n, if_index := of_nat i\<rparr>"
  have s2: "inflate_step mem h ?i1 (?e @ rest) = bind_exec (hd_inflate_commit_indexed h ?i2) (\<lambda>(nv, token).
      Inr (Emit h (?i2\<lparr>if_state := HTTP2_STATE_OPCODE\<rparr>) rest nv token))"
    using rl n(2) by (simp add: inflate_step_def step_read_index_def Let_def)
  have ne: "?e @ rest \<noteq> []" using cs(1) by simp
  have "inflate_loop mem h infl (?e @ rest) False = inflate_loop mem h ?i1 (?e @ rest) False"
    using inflate_loop_Next [OF _ s1, of False] ne by simp
  also have "\<dots> = bind_exec (hd_inflate_commit_indexed h ?i2) (\<lambda>(nv, token).
      Inr (Emit h (?i2\<lparr>if_state := HTTP2_STATE_OPCODE\<rparr>) rest nv token))"
    using ne by (subst inflate_loop.simps, cases "hd_inflate_commit_indexed h ?i2") (auto simp: s2)
  finally show ?thesis by (intro exI [of _ ?i2]) simp
qed

lemma inflate_loop_indexed:
  assumes inv: "tbl_invar h (if_ctx infl) mp" and i: "i < 61 + length (dyn_table h (if_ctx infl))" and st: "at_field infl"
  shows "\<exists>infl' nv token. inflate_loop mem h infl (encode_length 0x80 (of_nat i + 1) 7 @ rest) False = Inr (Emit h infl' rest nv token)
    \<and> nv_header nv = table_header h (if_ctx infl) i \<and> if_ctx infl' = if_ctx infl \<and> if_state infl' = HTTP2_STATE_OPCODE
    \<and> nvbufs infl' = nvbufs infl \<and> ent_keep infl' = ent_keep infl"
proof -
  note n = max_index_ok [OF inv i]
  have nz: "of_nat i + 1 \<noteq> (0 :: u32)" using n(2) by (metis add_is_0 unat_0 one_neq_zero)
  from inflate_loop_index [OF st n(1) nz, of mem h rest] obtain infl' where
    run: "inflate_loop mem h infl (encode_length 0x80 (of_nat i + 1) 7 @ rest) False
      = bind_exec (hd_inflate_commit_indexed h infl') (\<lambda>(nv, token). Inr (Emit h (infl'\<lparr>if_state := HTTP2_STATE_OPCODE\<rparr>) rest nv token))"
    and eq: "if_ctx infl' = if_ctx infl" "if_index infl' = of_nat i" "nvbufs infl' = nvbufs infl" "ent_keep infl' = ent_keep infl" by blast
  have u: "unat (of_nat i :: u32) = i" using n(2) nz by (metis add_diff_cancel_right' diff_add_cancel unat_minus_one)
  with i http2_hd_table_get_ok [OF inv, of "of_nat i"] obtain p e where
    "http2_hd_table_get (if_ctx infl) (of_nat i) = Inr p" "deref_entry h p = Inr e" "nv_header (ent_nv e) = table_header h (if_ctx infl) i"
    by auto
  with run eq show ?thesis by (simp add: hd_inflate_commit_indexed_def emit_indexed_header_def)
qed

text \<open>Literals. \<open>mode_prefix\<close> is the length of the index in the first byte.\<close>

definition mode_prefix :: "http2_indexing_mode \<Rightarrow> nat" where
  "mode_prefix mode = (if mode = HTTP2_WITH_INDEXING then 6 else 4)"

lemma mode_prefix_range: "1 \<le> mode_prefix mode" "mode_prefix mode \<le> 8"
  by (simp_all add: mode_prefix_def)

lemma encode_length_low:
  assumes "1 \<le> prefix" "prefix \<le> 8" "n \<noteq> 0"
  shows "unat (hd (encode_length b n prefix)) mod 2 ^ prefix \<noteq> 0"
proof
  assume z: "unat (hd (encode_length b n prefix)) mod 2 ^ prefix = 0"
  obtain c cs where cs: "encode_length b n prefix @ [] = c # cs" "c = hd (encode_length b n prefix)" by (rule encode_length_Cons)
  have "(0 :: nat) < 2 ^ prefix - 1" using assms(1) one_less_power [of "2 :: nat" prefix] by simp
  with z have "rfc_int prefix (encode_length b n prefix @ []) = Some (0, cs)"
    unfolding cs(1) by (simp add: rfc_int_def cs(2))
  with rfc_int_encode_length [OF assms(1,2), of b n "[]"] assms(3) show False by (simp add: word_unat_eq_iff)
qed

lemma literal_first_byte:
  assumes "n \<noteq> 0" and b_def: "b = hd (encode_length (pack_first_byte mode) n (mode_prefix mode))"
  shows "b AND 0xe0 \<noteq> 0x20" "b AND 0x80 = 0" "b AND 0x40 \<noteq> 0 \<longleftrightarrow> mode = HTTP2_WITH_INDEXING" "b \<noteq> 0x40 \<and> b \<noteq> 0 \<and> b \<noteq> 0x10"
proof -
  have d: "unat b div 2 ^ mode_prefix mode = unat (pack_first_byte mode) div 2 ^ mode_prefix mode"
    using first_byte_div [OF mode_prefix_range(2)] by (simp add: b_def)
  have m: "unat b mod 2 ^ mode_prefix mode \<noteq> 0"
    using encode_length_low [OF mode_prefix_range assms(1)] by (simp add: b_def)
  have "b AND 0xe0 \<noteq> 0x20 \<and> b AND 0x80 = 0 \<and> (b AND 0x40 \<noteq> 0 \<longleftrightarrow> mode = HTTP2_WITH_INDEXING) \<and> b \<noteq> 0x40 \<and> b \<noteq> 0 \<and> b \<noteq> 0x10"
  proof (cases mode)
    case HTTP2_WITH_INDEXING
    with d have "unat b div 64 = 1" by (simp add: mode_prefix_def)
    then have "64 \<le> unat b" "unat b < 128" by linarith+
    moreover have "b \<noteq> 0x40" using m HTTP2_WITH_INDEXING by (auto simp: mode_prefix_def)
    ultimately show ?thesis using first_byte_tests(2) [of b] HTTP2_WITH_INDEXING by auto
  next
    case HTTP2_WITHOUT_INDEXING
    with d m have "unat b < 16" "b \<noteq> 0" by (auto simp: mode_prefix_def)
    then show ?thesis using first_byte_tests(3) [of b] HTTP2_WITHOUT_INDEXING by auto
  next
    case HTTP2_NEVER_INDEXING
    with d have "unat b div 16 = 1" by (simp add: mode_prefix_def)
    then have "16 \<le> unat b" "unat b < 32" by linarith+
    moreover have "b \<noteq> 0x10" using m HTTP2_NEVER_INDEXING by (auto simp: mode_prefix_def)
    ultimately show ?thesis using first_byte_tests(3) [of b] HTTP2_NEVER_INDEXING by auto
  qed
  then show "b AND 0xe0 \<noteq> 0x20" "b AND 0x80 = 0" "b AND 0x40 \<noteq> 0 \<longleftrightarrow> mode = HTTP2_WITH_INDEXING" "b \<noteq> 0x40 \<and> b \<noteq> 0 \<and> b \<noteq> 0x10"
    by blast+
qed

text \<open>The state in which a literal is committed.\<close>

definition literal_read :: "http2_inflater \<Rightarrow> http2_opcode \<Rightarrow> http2_indexing_mode \<Rightarrow> buffer \<Rightarrow> http2_inflater \<Rightarrow> bool" where
  "literal_read infl oc mode s infl' \<longleftrightarrow>
     nvbufs infl' = nvbufs infl @ s \<and> if_ctx infl' = if_ctx infl \<and> ent_keep infl' = ent_keep infl
     \<and> opcode infl' = oc \<and> index_required infl' = (mode = HTTP2_WITH_INDEXING)"

lemma inflate_loop_indname:
  assumes inv: "tbl_invar h (if_ctx infl) mp" and i: "i < 61 + length (dyn_table h (if_ctx infl))" and st: "at_field infl"
    and v: "small_string v" "length v \<le> 65536"
    and inp_def: "inp = encode_length (pack_first_byte mode) (of_nat i + 1) (mode_prefix mode) @ string_block v @ rest"
    and small: "length inp < 2 ^ 32"
  shows "\<exists>infl'. inflate_loop mem h infl inp False
      = bind_exec (commit_header mem h infl') (\<lambda>(h, infl, nv, token). Inr (Emit h (infl\<lparr>if_state := HTTP2_STATE_OPCODE\<rparr>) rest nv token))
    \<and> literal_read infl HTTP2_OPCODE_INDNAME mode v infl' \<and> if_index infl' = of_nat i"
proof -
  let ?n = "of_nat i + 1 :: u32"
  let ?e = "encode_length (pack_first_byte mode) ?n (mode_prefix mode)"
  note n = max_index_ok [OF inv i]
  have nz: "?n \<noteq> 0" using n(2) by (metis add_is_0 unat_0 one_neq_zero)
  obtain c cs where cs: "inp = c # cs" "c = hd ?e" unfolding inp_def by (rule encode_length_Cons)
  note t = literal_first_byte [OF nz cs(2)]
  let ?i1 = "infl\<lparr>opcode := HTTP2_OPCODE_INDNAME, if_state := HTTP2_STATE_READ_INDEX, index_required := (mode = HTTP2_WITH_INDEXING),
    no_index := (c AND 0xf0 = 0x10), if_left := 0, if_shift := 0\<rparr>"
  have s1: "inflate_step mem h infl inp = Inr (Next h ?i1 inp False)"
    using st t by (auto simp: cs(1) at_field_def inflate_step_def step_opcode_def)
  obtain sh where rl: "hd_inflate_read_len ?i1 inp (mode_prefix mode) (get_max_index (if_ctx infl) + 1)
       = Inr (int (length ?e), True, ?i1\<lparr>if_shift := sh, if_left := ?n\<rparr>)"
    using read_len_encode [OF _ _ n(1) mode_prefix_range, of ?i1 "pack_first_byte mode" mode "string_block v @ rest"]
    by (auto simp: inp_def)
  let ?i2 = "?i1\<lparr>if_shift := sh, if_left := ?n, if_index := of_nat i, if_state := HTTP2_STATE_CHECK_VALUELEN\<rparr>"
  have p: "(if opcode ?i1 = HTTP2_OPCODE_INDEXED then 7 else if index_required ?i1 then 6 else 4) = mode_prefix mode"
    by (simp add: mode_prefix_def)
  have "drop (length ?e) inp = string_block v @ rest" by (simp add: inp_def)
  with rl nz have s2: "inflate_step mem h ?i1 inp = Inr (Next h ?i2 (string_block v @ rest) False)"
    unfolding inflate_step_def step_read_index_def p by (simp add: Let_def)
  have "inp \<noteq> []" using cs(1) by simp
  then have "inflate_loop mem h infl inp False = inflate_loop mem h ?i2 (string_block v @ rest) False"
    using inflate_loop_Next [OF _ s1, of False] inflate_loop_Next [OF _ s2, of False] by simp
  moreover have "length (string_block v @ rest) < 2 ^ 32" using small by (simp add: inp_def)
  moreover have "if_state ?i2 = HTTP2_STATE_CHECK_VALUELEN" by simp
  ultimately show ?thesis
    using inflate_value [of ?i2 v rest mem h False] v by (auto simp: value_read_def literal_read_def)
qed

lemma inflate_loop_newname:
  assumes st: "at_field infl" and nv: "small_string n" "length n \<le> 65536" "small_string v" "length v \<le> 65536"
    and small: "length (pack_first_byte mode # string_block n @ string_block v @ rest) < 2 ^ 32"
  shows "(bit (hd (string_block n)) 7 \<and> inflate_loop mem h infl (pack_first_byte mode # string_block n @ string_block v @ rest) False = Inl Terminated)
    \<or> (\<exists>infl'. inflate_loop mem h infl (pack_first_byte mode # string_block n @ string_block v @ rest) False
         = bind_exec (commit_header mem h infl') (\<lambda>(h, infl, nv, token). Inr (Emit h (infl\<lparr>if_state := HTTP2_STATE_OPCODE\<rparr>) rest nv token))
       \<and> literal_read infl HTTP2_OPCODE_NEWNAME mode (n @ v) infl')"
proof -
  let ?b = "pack_first_byte mode" and ?r = "string_block v @ rest"
  let ?i1 = "infl\<lparr>opcode := HTTP2_OPCODE_NEWNAME, if_state := HTTP2_STATE_NEWNAME_CHECK_NAMELEN,
    index_required := (mode = HTTP2_WITH_INDEXING), no_index := (?b AND 0xf0 = 0x10), if_left := 0, if_shift := 0\<rparr>"
  have s1: "inflate_step mem h infl (?b # string_block n @ ?r) = Inr (Next h ?i1 (string_block n @ ?r) False)"
    using st by (cases mode) (auto simp: at_field_def inflate_step_def step_opcode_def)
  from emit_string_block(2) [OF nv(1)] obtain he k body where
    sb: "string_block n = encode_length (if he then 128 else 0) k 7 @ body" "unat k = length body"
      "length body \<le> length n" "if he then rfc_huffman body = Some n else body = n" by blast
  let ?e = "encode_length (if he then 128 else 0) k 7"
  let ?i2 = "?i1\<lparr>huffman_encoded := he, if_state := HTTP2_STATE_NEWNAME_READ_NAMELEN, if_left := 0, if_shift := 0\<rparr>"
  have "bit (if he then 128 else 0 :: u8) 7 = he" by simp
  then have chk: "check_len ?i1 (?e @ body @ ?r) HTTP2_STATE_NEWNAME_READ_NAMELEN = Inr ?i2" by (simp add: check_len_encode)
  have "k \<le> HTTP2_MAX_NV" using sb(2,3) nv(2) by (simp add: HTTP2_MAX_NV_def word_le_nat_alt)
  then obtain sh where rl: "hd_inflate_read_len ?i2 (?e @ body @ ?r) 7 HTTP2_MAX_NV = Inr (int (length ?e), True, ?i2\<lparr>if_shift := sh, if_left := k\<rparr>)"
    using read_len_encode [of ?i2 k HTTP2_MAX_NV 7] by auto
  have ne: "string_block n @ ?r \<noteq> []" by (simp add: sb(1) encode_length_nonempty)
  have go: "inflate_loop mem h infl (?b # string_block n @ ?r) False = inflate_loop mem h ?i1 (?e @ body @ ?r) False"
    using inflate_loop_Next [OF _ s1, of False] by (simp add: sb(1))
  show ?thesis
  proof (cases he)
    case True
    then have "inflate_step mem h ?i1 (?e @ body @ ?r) = Inl Terminated"
      using chk rl by (simp add: inflate_step_def step_read_namelen_def)
    with go inflate_loop_Inl [of "?e @ body @ ?r" False mem h ?i1] ne True show ?thesis
      by (simp add: sb(1) hd_encode_length encode_length_top)
  next
    case False
    let ?i3 = "?i2\<lparr>if_shift := sh, if_left := k, if_state := HTTP2_STATE_NEWNAME_READ_NAME\<rparr>"
    let ?i4 = "?i3\<lparr>nvbufs := nvbufs infl @ n, if_left := 0\<rparr>"
    let ?i5 = "?i4\<lparr>newnamelen := of_nat (length (nvbufs ?i4)), if_state := HTTP2_STATE_CHECK_VALUELEN\<rparr>"
    have s2: "inflate_step mem h ?i1 (?e @ body @ ?r) = Inr (Next h ?i3 (body @ ?r) False)"
      using chk rl False by (simp add: inflate_step_def step_read_namelen_def)
    have "length (body @ ?r) < 2 ^ 32" using small by (simp add: sb(1))
    then have "hd_inflate_read ?i3 (body @ ?r) = (int (length body), ?i4)"
      using read_plain [of ?i3 body ?r] sb(2,4) False by simp
    then have s3: "inflate_step mem h ?i3 (body @ ?r) = Inr (Next h ?i5 ?r False)"
      by (simp add: inflate_step_def step_read_name_def)
    have "?r \<noteq> []" using string_block_ok(2) [OF nv(3)] by simp
    then have "inflate_loop mem h infl (?b # string_block n @ ?r) False = inflate_loop mem h ?i5 ?r False"
      using go inflate_loop_Next [OF _ s2, of False] inflate_loop_Next [OF _ s3, of False] by (simp add: encode_length_nonempty)
    moreover obtain infl' where "inflate_loop mem h ?i5 ?r False
        = bind_exec (commit_header mem h infl') (\<lambda>(h, infl, nv, token). Inr (Emit h (infl\<lparr>if_state := HTTP2_STATE_OPCODE\<rparr>) rest nv token))"
      and "value_read ?i5 v infl'"
      using inflate_value [of ?i5 v rest mem h False] nv(3,4) small by auto
    ultimately have "\<exists>infl'. inflate_loop mem h infl (?b # string_block n @ ?r) False
         = bind_exec (commit_header mem h infl') (\<lambda>(h, infl, nv, token). Inr (Emit h (infl\<lparr>if_state := HTTP2_STATE_OPCODE\<rparr>) rest nv token))
       \<and> literal_read infl HTTP2_OPCODE_NEWNAME mode (n @ v) infl'"
      by (intro exI [of _ infl']) (simp add: value_read_def literal_read_def)
    then show ?thesis ..
  qed
qed

subsection \<open>Committing\<close>

lemma commit_not_indexed:
  assumes "\<not> index_required infl" "tbl_invar h (if_ctx infl) mp"
    and "opcode infl = HTTP2_OPCODE_NEWNAME \<or> (\<exists>i < 61 + length (dyn_table h (if_ctx infl)). if_index infl = of_nat i)"
  shows "commit_header mem h infl = Inl Terminated"
proof (cases "opcode infl = HTTP2_OPCODE_NEWNAME")
  case True
  with assms(1) show ?thesis
    by (simp add: commit_header_def hd_inflate_commit_newname_def hd_inflate_remove_bufs_def Let_def)
next
  case False
  then obtain i where i: "i < 61 + length (dyn_table h (if_ctx infl))" "if_index infl = of_nat i" using assms(3) by blast
  have "unat (of_nat i :: u32) = i"
    using i(1) dyn_table_length [OF assms(2)] by (simp add: dyn_table_def unat_of_nat take_bit_nat_eq_self)
  with http2_hd_table_get_ok [OF assms(2), of "of_nat i"] i obtain p e where
    "http2_hd_table_get (if_ctx infl) (if_index infl) = Inr p" "deref_entry h p = Inr e" by auto
  with False assms(1) show ?thesis
    by (simp add: commit_header_def hd_inflate_commit_indname_def hd_inflate_remove_bufs_def emit_literal_header_def Let_def)
qed

text \<open>A header that was added: it is what is emitted, and it is what \<^verbatim>\<open>ent_keep\<close> points to although the table owns it.\<close>

definition header_added :: "heap \<Rightarrow> http2_inflater \<Rightarrow> header \<Rightarrow> heap \<Rightarrow> http2_inflater \<Rightarrow> http2_nv \<Rightarrow> bool" where
  "header_added h infl x h' infl' nv \<longleftrightarrow>
     nv_header nv = x \<and> tbl_invar h' (if_ctx infl') None \<and> nvbufs infl' = []
     \<and> dyn_table h' (if_ctx infl') = x # fit (unat (hd_table_bufsize_max (if_ctx infl)) - hsize x) (dyn_table h (if_ctx infl))
     \<and> hd_table_bufsize_max (if_ctx infl') = hd_table_bufsize_max (if_ctx infl) \<and> bad (if_ctx infl') = bad (if_ctx infl)
     \<and> ent_keep infl' = Some (hd (rb_list (hd_table (if_ctx infl')))) \<and> rb_list (hd_table (if_ctx infl')) \<noteq> []"

lemma added_header_emitted:
  assumes "table_added h ctx None nv token hash h' ctx' None"
  shows "\<exists>e. deref h' (length h) = Inr e \<and> nv_header (ent_nv e) = nv_header nv"
proof -
  have "same_core (h @ [Some (added_entry ctx nv token hash)]) h'" using assms by (simp add: table_added_def)
  from same_core_deref [OF this deref_new] obtain e where "deref h' (length h) = Inr e" "core e = core (added_entry ctx nv token hash)" .
  with core_eqD [of e "added_entry ctx nv token hash"] show ?thesis by (simp add: nv_header_def)
qed

lemma commit_indexed_name:
  assumes inv: "tbl_invar h (if_ctx infl) None" and mem: "\<forall>n. mem n" and i: "i < 61" "if_index infl = of_nat i"
    and infl: "opcode infl = HTTP2_OPCODE_INDNAME" "index_required infl" "ent_keep infl = None"
    and x: "x = (nv_name (ent_nv (static_table ! i)), nvbufs infl)"
    and small: "unat (hd_table_bufsize (if_ctx infl)) + hsize x < 2 ^ 32"
  shows "\<exists>h' infl' nv token. commit_header mem h infl = Inr (h', infl', nv, token) \<and> header_added h infl x h' infl' nv"
proof -
  let ?nv = "(flagged_nv infl blank_nv)\<lparr>nv_value := nvbufs infl, nv_name := nv_name (ent_nv (static_table ! i))\<rparr>"
  let ?tok = "ent_token (static_table ! i)"
  have hx: "nv_header ?nv = x" by (simp add: nv_header_def x)
  have u: "unat (of_nat i :: u32) = i" using i(1) by (simp add: unat_of_nat take_bit_nat_eq_self)
  then have lt: "(of_nat i :: u32) < 61" using i(1) by (simp add: word_less_nat_alt)
  have get: "http2_hd_table_get (if_ctx infl) (if_index infl) = Inr (Static i)" "deref_entry h (Static i) = Inr (static_table ! i)"
    using lt u i by (auto simp: http2_hd_table_get_def deref_entry_def length_static_table)
  from add_hd_table_incremental_ok [OF inv mem, of ?nv ?tok 0] small hx obtain h1 ctx1 mp1 where
    add: "add_hd_table_incremental mem h (if_ctx infl) ?nv ?tok None 0 = Inr (Some (length h), h1, ctx1, mp1)"
      "table_added h (if_ctx infl) None ?nv ?tok 0 h1 ctx1 mp1" by auto
  then have mp1: "mp1 = None" by (simp add: table_added_def)
  from added_header_emitted [OF add(2) [unfolded mp1]] hx obtain e where
    e: "deref h1 (length h) = Inr e" "nv_header (ent_nv e) = x" by auto
  let ?i = "infl\<lparr>nvbufs := [], if_ctx := ctx1, ent_keep := Some (length h)\<rparr>"
  have "commit_header mem h infl = Inr (h1, ?i, ent_nv e, ent_token e)"
    using infl get lt i add(1) e(1)
    by (simp add: commit_header_def hd_inflate_commit_indname_def hd_inflate_remove_bufs_def emit_indexed_header_def Let_def)
  moreover have "header_added h infl x h1 ?i (ent_nv e)"
    using add(2) e(2) hx mp1 by (auto simp: header_added_def table_added_def)
  ultimately show ?thesis by blast
qed

text \<open>With a spelled-out name the whole buffer becomes the name.\<close>

lemma commit_new_name:
  assumes inv: "tbl_invar h (if_ctx infl) None" and mem: "\<forall>n. mem n"
    and infl: "opcode infl = HTTP2_OPCODE_NEWNAME" "index_required infl" and x: "x = (nvbufs infl, [])"
    and small: "unat (hd_table_bufsize (if_ctx infl)) + hsize x < 2 ^ 32"
  shows "\<exists>h' infl' nv token. commit_header mem h infl = Inr (h', infl', nv, token) \<and> header_added h infl x h' infl' nv"
proof -
  let ?nv = "flagged_nv infl \<lparr>nv_name = nvbufs infl, nv_value = [], nv_flags = 0\<rparr>"
  let ?tok = "lookup_token (nvbufs infl) (namelen ?nv)"
  have hx: "nv_header ?nv = x" by (simp add: nv_header_def x flagged_nv_def)
  from add_hd_table_incremental_ok [OF inv mem, of ?nv ?tok 0] small hx obtain h1 ctx1 mp1 where
    add: "add_hd_table_incremental mem h (if_ctx infl) ?nv ?tok None 0 = Inr (Some (length h), h1, ctx1, mp1)"
      "table_added h (if_ctx infl) None ?nv ?tok 0 h1 ctx1 mp1" by auto
  then have mp1: "mp1 = None" by (simp add: table_added_def)
  from added_header_emitted [OF add(2) [unfolded mp1]] hx obtain e where
    e: "deref h1 (length h) = Inr e" "nv_header (ent_nv e) = x" by auto
  let ?i = "infl\<lparr>nvbufs := [], if_ctx := ctx1, ent_keep := Some (length h)\<rparr>"
  have "commit_header mem h infl = Inr (h1, ?i, ent_nv e, ent_token e)"
    using infl add(1) e(1)
    by (simp add: commit_header_def hd_inflate_commit_newname_def hd_inflate_remove_bufs_def emit_indexed_header_def
        blank_nv_def flagged_nv_def Let_def)
  moreover have "header_added h infl x h1 ?i (ent_nv e)"
    using add(2) e(2) hx mp1 by (auto simp: header_added_def table_added_def)
  ultimately show ?thesis by blast
qed

subsection \<open>Properties\<close>

text \<open>The state of a decoder at the start of a header field with an intact table, nothing buffered and no entry kept from the call
  before, as a new decoder has it.\<close>

definition inflater_ok :: "heap \<Rightarrow> http2_inflater \<Rightarrow> bool" where
  "inflater_ok h infl \<longleftrightarrow>
     tbl_invar h (if_ctx infl) None \<and> \<not> bad (if_ctx infl) \<and> at_field infl \<and> nvbufs infl = [] \<and> ent_keep infl = None"

lemma inflate_hd2_loop:
  assumes "inflater_ok h infl"
  shows "http2_inflate_hd2 mem h infl inp fin
    = bind_exec (inflate_loop mem h infl inp False) (\<lambda>r. Inr (inflate_finish (length inp) fin r))"
  using assms by (simp add: http2_inflate_hd2_def inflater_ok_def)

lemma http2_inflater_ctor_ok:
  assumes "\<forall>n. mem n"
  shows "\<exists>infl. http2_inflater_ctor mem = Inr infl \<and> inflater_ok h infl \<and> dyn_table h (if_ctx infl) = []
    \<and> hd_table_bufsize_max (if_ctx infl) = 4096"
proof -
  from http2_context_ctor_ok [OF assms, of h] obtain ctx where
    "http2_context_ctor mem = Inr ctx" "tbl_invar h ctx None" "dyn_table h ctx = []" "hd_table_bufsize_max ctx = 4096" "\<not> bad ctx"
    by blast
  then show ?thesis by (simp add: http2_inflater_ctor_def inflater_ok_def at_field_def)
qed

lemma static_name_short: "i < 61 \<Longrightarrow> length (nv_name (ent_nv (static_table ! i))) < 100"
proof -
  have "list_all (\<lambda>e. length (nv_name (ent_nv e)) < 100) static_table"
    by (simp add: static_table_def MAKE_STATIC_ENT_def)
  then show "i < 61 \<Longrightarrow> length (nv_name (ent_nv (static_table ! i))) < 100"
    by (simp add: list_all_length length_static_table)
qed

lemma string_block_length:
  assumes "small_string s"
  shows "length (string_block s) \<le> length s + 6"
proof -
  from emit_string_block(2) [OF assms] obtain b n body where
    "string_block s = encode_length b n 7 @ body" "length body \<le> length s" by blast
  with length_encode_length(2) [of b n 7] show ?thesis by simp
qed

lemma short_small: "length s \<le> 65536 \<Longrightarrow> small_string s"
  by (simp add: small_string_def)

text \<open>Room for the arithmetic on sizes: limits below \<open>2 ^ 31\<close>.\<close>

definition inflater_small :: "http2_inflater \<Rightarrow> bool" where
  "inflater_small infl \<longleftrightarrow> unat (hd_table_bufsize_max (if_ctx infl)) < 2 ^ 31 \<and> unat (hd_table_bufsize (if_ctx infl)) < 2 ^ 31"

lemma inflate_literal_static:
  assumes ok: "inflater_ok h infl" "inflater_small infl" and mem: "\<forall>n. mem n" and i: "i < 61" and v: "length v \<le> 65536"
    and rest: "length rest < 2 ^ 31"
    and enc: "enc = encode_length 0x40 (of_nat i + 1) 6 @ string_block v" and x: "x = (nv_name (ent_nv (static_table ! i)), v)"
  shows "\<exists>out h' infl' nv. http2_inflate_hd2 mem h infl (enc @ rest) fin = Inr (out, h', infl') \<and> io_rv out = int (length enc)
    \<and> io_nv out = Some nv \<and> io_flags out = Some 2 \<and> if_state infl' = HTTP2_STATE_OPCODE \<and> header_added h infl x h' infl' nv"
proof -
  have inv: "tbl_invar h (if_ctx infl) None" and st: "at_field infl" "nvbufs infl = []" "ent_keep infl = None"
    using ok(1) by (simp_all add: inflater_ok_def)
  have i': "i < 61 + length (dyn_table h (if_ctx infl))" using i by simp
  have len: "length (enc @ rest) < 2 ^ 32"
    using string_block_length [OF short_small [OF v]] length_encode_length(2) [of "0x40" "of_nat i + 1" 6] v rest by (simp add: enc)
  have inp: "enc @ rest = encode_length (pack_first_byte HTTP2_WITH_INDEXING) (of_nat i + 1) (mode_prefix HTTP2_WITH_INDEXING) @ string_block v @ rest"
    by (simp add: enc mode_prefix_def)
  from inflate_loop_indname [OF inv i' st(1) short_small [OF v] v inp len, of mem] obtain infl1 where
    run: "inflate_loop mem h infl (enc @ rest) False
      = bind_exec (commit_header mem h infl1) (\<lambda>(h, infl, nv, token). Inr (Emit h (infl\<lparr>if_state := HTTP2_STATE_OPCODE\<rparr>) rest nv token))"
    and lit: "literal_read infl HTTP2_OPCODE_INDNAME HTTP2_WITH_INDEXING v infl1" "if_index infl1 = of_nat i" by blast
  have small: "unat (hd_table_bufsize (if_ctx infl)) + hsize x < 2 ^ 32"
    using ok(2) static_name_short [OF i] v by (simp add: inflater_small_def x hsize_def)
  from commit_indexed_name [of h infl1 mem i x] inv mem i lit st small x obtain h' infl2 nv token where
    "commit_header mem h infl1 = Inr (h', infl2, nv, token)" "header_added h infl1 x h' infl2 nv"
    by (auto simp: literal_read_def)
  with run lit(1) show ?thesis
    by (simp add: inflate_hd2_loop [OF ok(1)] inflate_finish_def header_added_def literal_read_def)
qed

text \<open>A decoder with an empty table of the default limit and a ring of one slot.\<close>

definition sample_inflater :: http2_inflater where
  "sample_inflater =
     \<lparr>if_ctx = \<lparr>hd_table_bufsize_max = 4096, hd_table = \<lparr>rb_buffer = [None], rb_mask = 0, rb_first = 0, rb_len = 0\<rparr>,
        hd_table_bufsize = 0, next_seq = 0, bad = False\<rparr>, nvbufs = [], ent_keep = None, if_left = 0, if_index = 0, newnamelen = 0,
      settings_hd_table_bufsize_max = 4096, if_shift = 0, opcode = HTTP2_OPCODE_NONE, if_state = HTTP2_STATE_INFLATE_START,
      huff_decode_ctx = http2_huffman_decode_context_init, huffman_encoded = False, index_required = False, no_index = False\<rparr>"

lemma sample_inflater_ok: "inflater_ok [] sample_inflater" "inflater_small sample_inflater"
  "hd_table_bufsize_max (if_ctx sample_inflater) = 4096" "dyn_table [] (if_ctx sample_inflater) = []"
proof -
  have "rb_invar (hd_table (if_ctx sample_inflater))" and list: "rb_list (hd_table (if_ctx sample_inflater)) = []"
    by (auto simp: sample_inflater_def rb_invar_def rb_list_def intro: exI [of _ 0])
  then show "inflater_ok [] sample_inflater"
    by (simp add: inflater_ok_def tbl_invar_def dyn_table_def) (simp add: sample_inflater_def at_field_def)
  show "dyn_table [] (if_ctx sample_inflater) = []" using list by (simp add: dyn_table_def)
  show "inflater_small sample_inflater" "hd_table_bufsize_max (if_ctx sample_inflater) = 4096"
    by (simp_all add: inflater_small_def sample_inflater_def)
qed

text \<open>What the encoder emits for a header that it does not find in the static table, when its own table is empty and has no
  room: a literal that is not to be indexed.\<close>

lemma deflate_literal_output:
  assumes ok: "deflater_ok h d" "nv_ok nv" and max: "hd_table_bufsize_max (df_ctx d) = 0" and dyn: "dyn_table h (df_ctx d) = []"
    and new: "nv_header nv \<notin> set (map (\<lambda>e. nv_header (ent_nv e)) static_table)"
  shows "\<exists>mode out. mode \<noteq> HTTP2_WITH_INDEXING \<and> deflate_nv mem h d bufs nv = Inr (0, h, d, bufs @ out)
    \<and> (out = pack_first_byte mode # string_block (nv_name nv) @ string_block (nv_value nv)
       \<or> (\<exists>i < 61. out = encode_length (pack_first_byte mode) (of_nat i + 1) (mode_prefix mode) @ string_block (nv_value nv)))"
proof -
  let ?ctx = "df_ctx d"
  define token where "token = lookup_token (nv_name nv) (namelen nv)"
  define mode where "mode = deflate_mode d nv token"
  have mode: "mode \<noteq> HTTP2_WITH_INDEXING"
    using with_indexing_fits [of d nv token] ok(2) max hsize_pos [of "nv_header nv"] by (auto simp: mode_def)
  have hash: "deflate_hash nv token = name_hash nv"
    using deflate_hash_eq [OF nv_ok_length [OF ok(2)]] by (simp add: token_def)
  have inv: "enc_invar h ?ctx (df_map d)" using ok(1) by (simp add: deflater_ok_def)
  from search_hd_table_ok [OF inv nv_ok_length [OF ok(2)] token_def refl, of mode] obtain r where
    r: "search_hd_table h ?ctx nv token mode (df_map d) (name_hash nv) = Inr r" "search_ok h ?ctx nv r" by blast
  have idx: "sr_index r = -1 \<or> (\<exists>i < 61. sr_index r = int i)"
    using r(2) dyn by (auto simp: search_ok_def split: if_splits)
  have nomatch: "\<not> sr_name_value_match r"
  proof
    assume "sr_name_value_match r"
    with r(2) dyn obtain i where "i < 61" "table_header h ?ctx i = nv_header nv"
      by (auto simp: search_ok_def split: if_splits)
    moreover from this have "nv_header (ent_nv (static_table ! i)) \<in> set (map (\<lambda>e. nv_header (ent_nv e)) static_table)"
      by (simp add: length_static_table)
    ultimately show False using new by (simp add: table_header_def)
  qed
  have strings: "emit_string b (nv_name nv) = Inr (0, b @ string_block (nv_name nv))"
    "emit_string b (nv_value nv) = Inr (0, b @ string_block (nv_value nv))" for b
    using emit_string_block(1) ok(2) by (simp_all add: nv_ok_def)
  note unfold = deflate_nv_def Let_def token_def [symmetric] hash mode_def [symmetric] r(1) bind_exec_simps
  from idx show ?thesis
  proof (elim disjE exE conjE)
    assume "sr_index r = -1"
    then have "deflate_nv mem h d bufs nv = Inr (0, h, d, bufs @ (pack_first_byte mode # string_block (nv_name nv) @ string_block (nv_value nv)))"
      unfolding unfold using nomatch mode strings by (simp add: emit_newname_block_def http2_bufs_addb_def)
    with mode show ?thesis by blast
  next
    fix i
    assume i: "i < 61" "sr_index r = int i"
    then have "deflate_nv mem h d bufs nv
        = Inr (0, h, d, bufs @ (encode_length (pack_first_byte mode) (of_nat i + 1) (mode_prefix mode) @ string_block (nv_value nv)))"
      unfolding unfold using nomatch mode strings
      by (simp add: emit_indname_block_def Let_def encode_block mode_prefix_def)
    with mode i(1) show ?thesis by blast
  qed
qed

lemma inflate_literal_terminates:
  assumes ok: "inflater_ok h infl" and mode: "mode \<noteq> HTTP2_WITH_INDEXING" and n: "length n \<le> 65536" and v: "length v \<le> 65536"
    and out: "out = pack_first_byte mode # string_block n @ string_block v
      \<or> (\<exists>i < 61. out = encode_length (pack_first_byte mode) (of_nat i + 1) (mode_prefix mode) @ string_block v)"
  shows "http2_inflate_hd2 mem h infl out fin = Inl Terminated"
proof -
  have inv: "tbl_invar h (if_ctx infl) None" and st: "at_field infl" using ok by (simp_all add: inflater_ok_def)
  note blocks = string_block_length [OF short_small [OF n]] string_block_length [OF short_small [OF v]]
  from out have "inflate_loop mem h infl out False = Inl Terminated"
  proof (elim disjE exE conjE)
    assume o: "out = pack_first_byte mode # string_block n @ string_block v"
    have "length (pack_first_byte mode # string_block n @ string_block v @ []) < 2 ^ 32" using blocks n v by simp
    from inflate_loop_newname [OF st short_small [OF n] n short_small [OF v] v this, of mem h] o show ?thesis
      using commit_not_indexed [of _ h None mem] inv mode by (auto simp: literal_read_def)
  next
    fix i
    assume i: "i < 61" and o: "out = encode_length (pack_first_byte mode) (of_nat i + 1) (mode_prefix mode) @ string_block v"
    have "length out < 2 ^ 32" using blocks v length_encode_length(2) [of "pack_first_byte mode" "of_nat i + 1" "mode_prefix mode"]
      by (simp add: o)
    moreover have "i < 61 + length (dyn_table h (if_ctx infl))" using i by simp
    ultimately obtain infl' where "inflate_loop mem h infl out False
        = bind_exec (commit_header mem h infl') (\<lambda>(h, infl, nv, token). Inr (Emit h (infl\<lparr>if_state := HTTP2_STATE_OPCODE\<rparr>) [] nv token))"
      "literal_read infl HTTP2_OPCODE_INDNAME mode v infl'" "if_index infl' = of_nat i"
      using inflate_loop_indname [OF inv _ st short_small [OF v] v, of i out mode "[]" mem] o by auto
    moreover from this have "commit_header mem h infl' = Inl Terminated"
      using commit_not_indexed [of infl' h None mem] inv mode \<open>i < 61 + _\<close> by (auto simp: literal_read_def)
    ultimately show ?thesis by simp
  qed
  then show ?thesis by (simp add: inflate_hd2_loop [OF ok])
qed

text \<open>The heap after the call has deleted the entry kept from the call before, and whether index \<open>i\<close> of the combined table refers
  to a static entry or to one that is still there.\<close>

definition field_heap :: "heap \<Rightarrow> http2_inflater \<Rightarrow> heap exec" where
  "field_heap h infl = (case ent_keep infl of None \<Rightarrow> Inr h | Some a \<Rightarrow> delete_entry h a)"

definition entry_live :: "heap \<Rightarrow> http2_inflater \<Rightarrow> nat \<Rightarrow> bool" where
  "entry_live h infl i \<longleftrightarrow> i < 61 \<or> deref h (rb_list (hd_table (if_ctx infl)) ! (i - 61)) \<noteq> Inl Undefined"

lemma deref_Inl: "deref h a = Inl e \<Longrightarrow> e = Undefined"
  by (auto simp: deref_def split: if_splits option.splits)

lemma field_heap_fault: "field_heap h infl = Inl e \<Longrightarrow> e = Undefined"
  by (cases "ent_keep infl"; cases "deref h (the (ent_keep infl))")
    (auto simp: field_heap_def delete_entry_def dest: deref_Inl)

lemma field_heap_deref: "field_heap h infl = Inr h' \<Longrightarrow> deref h' a = Inr e \<Longrightarrow> deref h a = Inr e"
  by (auto simp: field_heap_def delete_entry_def bind_exec_Inr_iff deref_def nth_list_update split: option.splits if_splits)

lemma inflater_ok_live:
  assumes "inflater_ok h infl" "i < 61 + length (rb_list (hd_table (if_ctx infl)))"
  shows "field_heap h infl = Inr h \<and> entry_live h infl i"
proof -
  have "\<exists>e. deref h (rb_list (hd_table (if_ctx infl)) ! (i - 61)) = Inr e" if "\<not> i < 61"
    using assms that by (intro tbl_invarD(2) [of h _ None]) (auto simp: inflater_ok_def)
  then show ?thesis using assms(1) by (auto simp: field_heap_def entry_live_def inflater_ok_def)
qed

lemma index_arith:
  assumes "rb_invar (hd_table ctx)" "i < 61 + length (rb_list (hd_table ctx))"
  shows "of_nat i + 1 \<le> get_max_index ctx + 1" "of_nat i + 1 \<noteq> (0 :: u32)" "unat (of_nat i :: u32) = i" "i < 2 ^ 32 - 1"
proof -
  have len: "length (rb_list (hd_table ctx)) \<le> 2 ^ 31"
  proof -
    from assms(1) obtain k where k: "k < 32" "unat (rb_len (hd_table ctx)) \<le> 2 ^ k" by (auto elim: rb_invarE)
    have "(2 :: nat) ^ k \<le> 2 ^ 31" using k(1) by (intro power_increasing) simp_all
    with k(2) show ?thesis by simp
  qed
  then show "i < 2 ^ 32 - 1" and u: "unat (of_nat i :: u32) = i"
    using assms(2) by (simp_all add: unat_of_nat take_bit_nat_eq_self)
  have "unat (of_nat i + 1 :: u32) = i + 1"
    using assms(2) len by (simp add: unat_word_ariths unat_of_nat take_bit_nat_eq_self)
  moreover have "unat (get_max_index ctx + 1) = length (rb_list (hd_table ctx)) + 61"
    using len by (simp add: get_max_index_def unat_word_ariths)
  ultimately show "of_nat i + 1 \<le> get_max_index ctx + 1" "of_nat i + 1 \<noteq> (0 :: u32)"
    using assms(2) by (auto simp: word_le_nat_alt simp flip: unat_eq_0)
qed

lemma hd_table_get_entry:
  assumes "rb_invar (hd_table (if_ctx infl))" "i < 61 + length (rb_list (hd_table (if_ctx infl)))"
  shows "\<exists>p. http2_hd_table_get (if_ctx infl) (of_nat i) = Inr p
    \<and> (entry_live h infl i \<longrightarrow> (\<exists>e. deref_entry h p = Inr e \<and> nv_header (ent_nv e) = table_header h (if_ctx infl) i))
    \<and> (\<not> entry_live h infl i \<longrightarrow> deref_entry h p = Inl Undefined)"
proof (cases "i < 61")
  case True
  then show ?thesis
    using index_arith(3) [OF assms]
    by (simp add: http2_hd_table_get_def entry_live_def deref_entry_def table_header_def word_le_nat_alt length_static_table)
next
  case False
  let ?a = "rb_list (hd_table (if_ctx infl)) ! (i - 61)"
  have "of_nat i - 61 = (of_nat (i - 61) :: u32)" using False by (simp add: of_nat_diff)
  then have "http2_hd_table_get (if_ctx infl) (of_nat i) = Inr (Dynamic ?a)"
    using ring.get [OF assms(1), of "i - 61"] assms(2) False index_arith(3) [OF assms]
    by (simp add: http2_hd_table_get_def word_le_nat_alt)
  with False show ?thesis
    using assms(2)
    by (cases "deref h ?a") (auto simp: entry_live_def deref_entry_def table_header_def dyn_table_def header_at_def dest: deref_Inl)
qed

text \<open>C10. An indexed header field is decoded as RFC 7541 prescribes, from every state of the decoder at the start of a field whose
  ring is well formed and whose context is not bad, and for every index of the combined table, provided that the entry is still
  there once the call has deleted the entry kept from the call before: the call returns exactly the number of bytes of the
  representation and the header the RFC assigns to it, changes nothing else in the heap, keeps the table and is ready for the next
  field. When the kept entry or the entry at the index was deleted before, or the two are the same, the behaviour is undefined.
  Without a kept entry and with an intact table, as in a new decoder, the entry is always there and the state is such a state again.\<close>

theorem inflate_indexed_field:
  assumes "rb_invar (hd_table (if_ctx infl))" and "\<not> bad (if_ctx infl)" and "at_field infl"
    and "i < 61 + length (rb_list (hd_table (if_ctx infl)))"
  defines "enc \<equiv> encode_length 0x80 (of_nat i + 1) 7"
  shows "(\<forall>h'. field_heap h infl = Inr h' \<and> entry_live h' infl i \<longrightarrow>
      (\<exists>out infl' nv. http2_inflate_hd2 mem h infl (enc @ rest) fin = Inr (out, h', infl')
        \<and> io_rv out = int (length enc) \<and> io_nv out = Some nv \<and> io_flags out = Some 2
        \<and> rfc_field m (dyn_table h (if_ctx infl)) (enc @ rest) = Some (nv_header nv, dyn_table h (if_ctx infl), rest)
        \<and> if_ctx infl' = if_ctx infl \<and> at_field infl' \<and> ent_keep infl' = None \<and> (inflater_ok h infl \<longrightarrow> inflater_ok h' infl')))
    \<and> ((\<forall>h'. field_heap h infl = Inr h' \<longrightarrow> \<not> entry_live h' infl i) \<longrightarrow>
        http2_inflate_hd2 mem h infl (enc @ rest) fin = Inl Undefined)
    \<and> (inflater_ok h infl \<longrightarrow> field_heap h infl = Inr h \<and> entry_live h infl i)"
proof (cases "field_heap h infl")
  case (Inl e)
  then have "http2_inflate_hd2 mem h infl (enc @ rest) fin = Inl Undefined"
    using field_heap_fault [of h infl e] assms(2) by (auto simp: http2_inflate_hd2_def field_heap_def split: option.splits)
  with Inl inflater_ok_live [of h infl i] assms(4) show ?thesis by auto
next
  case (Inr h')
  let ?infl = "infl\<lparr>ent_keep := None\<rparr>"
  have call: "http2_inflate_hd2 mem h infl inp fin
      = bind_exec (inflate_loop mem h' ?infl inp False) (\<lambda>r. Inr (inflate_finish (length inp) fin r))" for inp
  proof (cases "ent_keep infl")
    case None
    then have "?infl = infl" by simp
    with None Inr assms(2) show ?thesis by (simp only: http2_inflate_hd2_def field_heap_def) simp
  qed (use Inr assms(2) in \<open>simp add: http2_inflate_hd2_def field_heap_def\<close>)
  note arith = index_arith [OF assms(1,4)]
  from inflate_loop_index [of ?infl i mem h' rest] assms(3) arith(1,2) obtain infl' where
    run: "inflate_loop mem h' ?infl (enc @ rest) False
      = bind_exec (hd_inflate_commit_indexed h' infl') (\<lambda>(nv, token). Inr (Emit h' (infl'\<lparr>if_state := HTTP2_STATE_OPCODE\<rparr>) rest nv token))"
    and eq: "if_ctx infl' = if_ctx infl" "if_index infl' = of_nat i" "nvbufs infl' = nvbufs infl" "ent_keep infl' = None"
    by (auto simp: at_field_def enc_def)
  from hd_table_get_entry [OF assms(1,4), of h'] obtain p where
    p: "http2_hd_table_get (if_ctx infl) (of_nat i) = Inr p"
      "entry_live h' infl i \<longrightarrow> (\<exists>e. deref_entry h' p = Inr e \<and> nv_header (ent_nv e) = table_header h' (if_ctx infl) i)"
      "\<not> entry_live h' infl i \<longrightarrow> deref_entry h' p = Inl Undefined" by blast
  show ?thesis
  proof (cases "entry_live h' infl i")
    case True
    then obtain e where e: "deref_entry h' p = Inr e" "nv_header (ent_nv e) = table_header h' (if_ctx infl) i" using p(2) by blast
    have hdr: "table_header h' (if_ctx infl) i = table_header h (if_ctx infl) i"
      using True field_heap_deref [OF Inr] assms(4)
      by (cases "deref h' (rb_list (hd_table (if_ctx infl)) ! (i - 61))")
        (auto simp: entry_live_def table_header_def dyn_table_def header_at_def dest: deref_Inl)
    have "rfc_field m (dyn_table h (if_ctx infl)) (enc @ rest) = Some (nv_header (ent_nv e), dyn_table h (if_ctx infl), rest)"
      unfolding enc_def using rfc_table_header [of i h "if_ctx infl"] assms(4) e(2) hdr arith(3,4)
      by (intro rfc_field_indexed) (simp_all add: dyn_table_def)
    moreover have "inflater_ok h infl \<longrightarrow> field_heap h infl = Inr h \<and> entry_live h infl i"
      using inflater_ok_live assms(4) by blast
    ultimately show ?thesis
      using Inr True call run eq p(1) e
      by (auto simp: hd_inflate_commit_indexed_def emit_indexed_header_def inflate_finish_def inflater_ok_def at_field_def)
  next
    case False
    then have "http2_inflate_hd2 mem h infl (enc @ rest) fin = Inl Undefined"
      using call run eq p by (simp add: hd_inflate_commit_indexed_def)
    with Inr False inflater_ok_live [of h infl i] assms(4) show ?thesis by auto
  qed
qed

theorem inflate_indexed_field_witness:
  "\<exists>out infl' nv. http2_inflate_hd2 (\<lambda>n. True) [] sample_inflater (encode_length 0x80 (of_nat 1 + 1) 7 @ [0x84]) False = Inr (out, [], infl')
    \<and> io_rv out = int (length (encode_length 0x80 (of_nat 1 + 1) 7)) \<and> io_nv out = Some nv \<and> io_flags out = Some 2
    \<and> rfc_field 4096 (dyn_table [] (if_ctx sample_inflater)) (encode_length 0x80 (of_nat 1 + 1) 7 @ [0x84])
        = Some (nv_header nv, dyn_table [] (if_ctx sample_inflater), [0x84])
    \<and> inflater_ok [] infl'"
proof -
  have "rb_invar (hd_table (if_ctx sample_inflater))" "\<not> bad (if_ctx sample_inflater)" "at_field sample_inflater"
    using sample_inflater_ok(1) by (simp_all add: inflater_ok_def tbl_invar_def)
  then show ?thesis
    using inflate_indexed_field [of sample_inflater 1 "[]" "\<lambda>n. True" "[0x84]" False 4096] sample_inflater_ok(1) by auto
qed

text \<open>A literal with incremental indexing whose name is an entry of the static table is decoded as RFC 7541 prescribes: for
  every static name, and every value of up to 65536 bytes (Huffman-coded or not, as the library's encoder writes it), the header is
  returned and added to the dynamic table, which afterwards is the table of the RFC whenever the header fits into the limit.\<close>

lemma inflate_literal_indexed_name:
  assumes "inflater_ok h infl" "inflater_small infl" and "\<forall>n. mem n" and "i < 61" and "nv_name nv = nv_name (ent_nv (static_table ! i))"
    and "length (nv_value nv) \<le> 65536" and "length rest < 2 ^ 31" and "hsize (nv_header nv) \<le> unat (hd_table_bufsize_max (if_ctx infl))"
  shows "\<exists>enc out h' infl' nv'. emit_indname_block [] (of_nat i) nv HTTP2_WITH_INDEXING = Inr (0, enc)
    \<and> http2_inflate_hd2 mem h infl (enc @ rest) fin = Inr (out, h', infl')
    \<and> io_rv out = int (length enc) \<and> io_nv out = Some nv' \<and> nv_header nv' = nv_header nv
    \<and> rfc_field (unat (hd_table_bufsize_max (if_ctx infl))) (dyn_table h (if_ctx infl)) (enc @ rest)
        = Some (nv_header nv', dyn_table h' (if_ctx infl'), rest)"
proof -
  let ?enc = "encode_length 0x40 (of_nat i + 1) 6 @ string_block (nv_value nv)" and ?m = "unat (hd_table_bufsize_max (if_ctx infl))"
  note v = short_small [OF assms(6)]
  have emit: "emit_indname_block [] (of_nat i) nv HTTP2_WITH_INDEXING = Inr (0, ?enc)"
    using emit_string_block(1) [OF v] by (simp add: emit_indname_block_def Let_def encode_block)
  have u: "unat (of_nat i :: u32) = i" using assms(4) by (simp add: unat_of_nat take_bit_nat_eq_self)
  obtain y where y: "rfc_table (dyn_table h (if_ctx infl)) i = Some y" "fst y = nv_name nv"
    using assms(4,5) by (simp add: rfc_table_def nv_header_def)
  have "rfc_field ?m (dyn_table h (if_ctx infl)) (?enc @ rest) = Some (nv_header nv, fit ?m (nv_header nv # dyn_table h (if_ctx infl)), rest)"
    using emit_indname_block_ok [OF v, of "dyn_table h (if_ctx infl)" "of_nat i" y "[]" HTTP2_WITH_INDEXING ?m] u y assms(4) emit
    by (auto simp del: fit.simps)
  moreover from inflate_literal_static [OF assms(1-4,6,7) refl, of "nv_header nv" fin] assms(5) obtain out h' infl' nv' where
    "http2_inflate_hd2 mem h infl (?enc @ rest) fin = Inr (out, h', infl')" "io_rv out = int (length ?enc)" "io_nv out = Some nv'"
    "header_added h infl (nv_header nv) h' infl' nv'" by (auto simp: nv_header_def)
  ultimately show ?thesis using emit assms(8) by (auto simp: header_added_def)
qed

text \<open>C11. After such a literal the decoder keeps a pointer to the entry that the table owns in \<^verbatim>\<open>ent_keep\<close>, and the next call deletes
  the entry through it. A following reference to that header, index 62, which RFC 7541 reads as the header just added, is a read
  of deleted memory.\<close>

theorem inflate_uses_deleted_entry:
  assumes "inflater_ok h infl" "inflater_small infl" and "\<forall>n. mem n" and "i < 61" and "length v \<le> 65536"
  defines "x \<equiv> (nv_name (ent_nv (static_table ! i)), v)" and "enc \<equiv> encode_length 0x40 (of_nat i + 1) 6 @ string_block v"
  shows "\<exists>out h' infl'. http2_inflate_hd2 mem h infl enc False = Inr (out, h', infl') \<and> map_option nv_header (io_nv out) = Some x
    \<and> http2_inflate_hd2 mem h' infl' [0xbe] False = Inl Undefined
    \<and> rfc_field (unat (hd_table_bufsize_max (if_ctx infl))) (dyn_table h' (if_ctx infl')) [0xbe] = Some (x, dyn_table h' (if_ctx infl'), [])"
proof -
  from inflate_literal_static [OF assms(1-5) _ refl refl, of "[]" False] obtain out h' infl' nv where
    run: "http2_inflate_hd2 mem h infl enc False = Inr (out, h', infl')" "io_nv out = Some nv" "if_state infl' = HTTP2_STATE_OPCODE"
    and ha: "header_added h infl x h' infl' nv" unfolding enc_def x_def by auto
  let ?ctx = "if_ctx infl'"
  have inv: "tbl_invar h' ?ctx None" and dyn: "0 < length (dyn_table h' ?ctx)" "dyn_table h' ?ctx ! 0 = x" and "\<not> bad ?ctx"
    using ha assms(1) by (auto simp: header_added_def inflater_ok_def)
  obtain a as where list: "rb_list (hd_table ?ctx) = a # as" and keep: "ent_keep infl' = Some a"
    using ha by (cases "rb_list (hd_table ?ctx)") (auto simp: header_added_def)
  obtain e where e: "deref h' a = Inr e" using tbl_invarD(2) [OF inv, of a] list by auto
  have get: "http2_hd_table_get ?ctx 61 = Inr (Dynamic a)"
    using ring.get [OF tbl_invarD(1) [OF inv], of 0] list by (simp add: http2_hd_table_get_def)
  have be: "encode_length 0x80 62 7 = [0xbe]" by (simp add: encode_length_def prefix_mask_def)
  have n: "of_nat 61 + 1 \<le> get_max_index ?ctx + 1" using max_index_ok(1) [OF inv, of 61] dyn(1) by simp
  have "at_field (infl'\<lparr>ent_keep := None\<rparr>)" using run(3) by (simp add: at_field_def)
  from inflate_loop_index [OF this, of 61 mem "h'[a := None]" "[]"] n obtain infl2 where
    "inflate_loop mem (h'[a := None]) (infl'\<lparr>ent_keep := None\<rparr>) [0xbe] False
      = bind_exec (hd_inflate_commit_indexed (h'[a := None]) infl2) (\<lambda>(nv, token). Inr (Emit (h'[a := None]) (infl2\<lparr>if_state := HTTP2_STATE_OPCODE\<rparr>) [] nv token))"
    "if_ctx infl2 = ?ctx" "if_index infl2 = 61" by (auto simp: be)
  moreover have "deref (h'[a := None]) a = Inl Undefined" using e by (simp add: deref_def split: if_splits)
  ultimately have "http2_inflate_hd2 mem h' infl' [0xbe] False = Inl Undefined"
    using keep e \<open>\<not> bad ?ctx\<close> get by (simp add: http2_inflate_hd2_def delete_entry_def hd_inflate_commit_indexed_def deref_entry_def)
  moreover have "rfc_field m (dyn_table h' ?ctx) [0xbe] = Some (x, dyn_table h' ?ctx, [])" for m
    using rfc_field_indexed [of "dyn_table h' ?ctx" 61 x m "[]"] dyn be by (simp add: rfc_table_def)
  ultimately show ?thesis using run(1,2) ha by (auto simp: header_added_def)
qed

theorem inflate_uses_deleted_entry_witness:
  "\<exists>out h' infl'. http2_inflate_hd2 (\<lambda>n. True) [] sample_inflater (encode_length 0x40 (of_nat 0 + 1) 6 @ string_block (bytes ''a'')) False = Inr (out, h', infl')
    \<and> map_option nv_header (io_nv out) = Some (nv_name (ent_nv (static_table ! 0)), bytes ''a'')
    \<and> http2_inflate_hd2 (\<lambda>n. True) h' infl' [0xbe] False = Inl Undefined
    \<and> rfc_field (unat (hd_table_bufsize_max (if_ctx sample_inflater))) (dyn_table h' (if_ctx infl')) [0xbe]
        = Some ((nv_name (ent_nv (static_table ! 0)), bytes ''a''), dyn_table h' (if_ctx infl'), [])"
  by (rule inflate_uses_deleted_entry) (simp_all add: sample_inflater_ok)

text \<open>The library's decoder cannot read what the library's encoder writes: for every header with name and value of up to 65536
  bytes that is not literally an entry of the static table, a newly constructed encoder succeeds, and a newly constructed decoder that
  is given exactly the encoder's output ends the process (\<^verbatim>\<open>NOTREACHED()\<close> on every path for literals that are not indexed), although
  RFC 7541 reads the header from it.\<close>

lemma inflater_terminates_on_deflater_output:
  assumes "\<forall>n. mem n" and "length (nv_name nv) \<le> 65536" "length (nv_value nv) \<le> 65536"
    and "nv_header nv \<notin> set (map (\<lambda>e. nv_header (ent_nv e)) static_table)"
  shows "\<exists>d infl out. http2_deflater_ctor mem = Inr d \<and> http2_inflater_ctor mem = Inr infl
    \<and> http2_deflate_hd_bufs mem h d [] [nv] = Inr (0, h, d, out)
    \<and> http2_inflate_hd2 mem h infl out fin = Inl Terminated
    \<and> rfc_field 0 [] out = Some (nv_header nv, [], [])"
proof -
  have nv: "nv_ok nv" using assms(2,3) by (simp add: nv_ok_def short_small)
  from http2_deflater_ctor_ok [OF assms(1), of h] obtain d where
    d: "http2_deflater_ctor mem = Inr d" "deflater_ok h d" "hd_table_bufsize_max (df_ctx d) = 0" "dyn_table h (df_ctx d) = []" "\<not> bad (df_ctx d)"
    by blast
  from http2_inflater_ctor_ok [OF assms(1), of h] obtain infl where
    infl: "http2_inflater_ctor mem = Inr infl" "inflater_ok h infl" by blast
  from deflate_literal_output [OF d(2) nv d(3,4) assms(4), of mem "[]"] obtain mode out where
    out: "mode \<noteq> HTTP2_WITH_INDEXING" "deflate_nv mem h d [] nv = Inr (0, h, d, out)"
      "out = pack_first_byte mode # string_block (nv_name nv) @ string_block (nv_value nv)
       \<or> (\<exists>i < 61. out = encode_length (pack_first_byte mode) (of_nat i + 1) (mode_prefix mode) @ string_block (nv_value nv))" by auto
  have "http2_inflate_hd2 mem h infl out fin = Inl Terminated"
    by (rule inflate_literal_terminates [OF infl(2) out(1) assms(2,3) out(3)])
  moreover have "http2_deflate_hd_bufs mem h d [] [nv] = Inr (0, h, d, out)" using d(5) out(2) by (simp add: http2_deflate_hd_bufs_def)
  moreover from deflate_nv_ok [OF d(2) nv assms(1), of "[]"] out(2) d(4) have "\<forall>rest. rfc_field 0 [] (out @ rest) = Some (nv_header nv, [], rest)"
    by (auto simp: field_emitted_def d(3))
  from spec [OF this, of "[]"] have "rfc_field 0 [] out = Some (nv_header nv, [], [])" by simp
  ultimately show ?thesis using d(1) infl(1) by blast
qed

text \<open>A literal with incremental indexing and a name that is spelled out is decoded wrongly: when name and value are sent without
  Huffman coding, the decoder returns, and stores in its table, a header whose name is the name followed by the value and whose value is
  empty.\<close>

lemma inflate_new_name_swallows_value:
  assumes "inflater_ok h infl" "inflater_small infl" and "\<forall>n. mem n" and "length n \<le> 65536" "length v \<le> 65536"
    and "\<not> bit (hd (string_block n)) 7"
  shows "\<exists>enc out h' infl' nv'. emit_newname_block [] \<lparr>nv_name = n, nv_value = v, nv_flags = 0\<rparr> HTTP2_WITH_INDEXING = Inr (0, enc)
    \<and> http2_inflate_hd2 mem h infl enc False = Inr (out, h', infl') \<and> io_nv out = Some nv'
    \<and> nv_header nv' = (n @ v, []) \<and> (n @ v, []) \<in> set (dyn_table h' (if_ctx infl'))"
proof -
  let ?enc = "0x40 # string_block n @ string_block v"
  have inv: "tbl_invar h (if_ctx infl) None" and st: "at_field infl" "nvbufs infl = []" "ent_keep infl = None"
    using assms(1) by (simp_all add: inflater_ok_def)
  note small = short_small [OF assms(4)] short_small [OF assms(5)]
  have "emit_newname_block [] \<lparr>nv_name = n, nv_value = v, nv_flags = 0\<rparr> HTTP2_WITH_INDEXING = Inr (0, ?enc)"
    using emit_string_block(1) [OF small(1)] emit_string_block(1) [OF small(2)] by (simp add: emit_newname_block_def http2_bufs_addb_def)
  moreover have "length (pack_first_byte HTTP2_WITH_INDEXING # string_block n @ string_block v @ []) < 2 ^ 32"
    using string_block_length [OF small(1)] string_block_length [OF small(2)] assms(4,5) by simp
  from inflate_loop_newname [OF st(1) small(1) assms(4) small(2) assms(5) this, of mem h] assms(6) obtain infl1 where
    run: "inflate_loop mem h infl ?enc False
      = bind_exec (commit_header mem h infl1) (\<lambda>(h, infl, nv, token). Inr (Emit h (infl\<lparr>if_state := HTTP2_STATE_OPCODE\<rparr>) [] nv token))"
    and lit: "literal_read infl HTTP2_OPCODE_NEWNAME HTTP2_WITH_INDEXING (n @ v) infl1" by auto
  have "unat (hd_table_bufsize (if_ctx infl1)) + hsize (n @ v, []) < 2 ^ 32"
    using assms(2,4,5) lit by (simp add: inflater_small_def literal_read_def hsize_def)
  with commit_new_name [of h infl1 mem "(n @ v, [])"] inv assms(3) lit st(2) obtain h' infl2 nv token where
    "commit_header mem h infl1 = Inr (h', infl2, nv, token)" "header_added h infl1 (n @ v, []) h' infl2 nv"
    by (auto simp: literal_read_def)
  with run have "\<exists>out infl'. http2_inflate_hd2 mem h infl ?enc False = Inr (out, h', infl') \<and> io_nv out = Some nv
      \<and> nv_header nv = (n @ v, []) \<and> (n @ v, []) \<in> set (dyn_table h' (if_ctx infl'))"
    by (simp add: inflate_hd2_loop [OF assms(1)] inflate_finish_def header_added_def)
  ultimately show ?thesis by blast
qed

end
