(* ===== verification/Frames.thy ===== *)
theory Frames
  imports Hpack_Inflate
begin

text \<open>
  HTTP/2 frames: the second half of \<^verbatim>\<open>src/http/http2.cpp\<close>, from \<^verbatim>\<open>sid\<close> to \<^verbatim>\<open>find_frames_by_type\<close>.

  A pointer to memory that the caller owns is the list of the bytes from it on, \<open>None\<close> for a null pointer; \<open>memory_at\<close> is a
  copy of bytes out of it, which is undefined beyond its end. The structures that the code lays over memory (\<^verbatim>\<open>frame_hdr\<close> and
  the payload specs) consist of bytes and are records of bytes. \<^verbatim>\<open>id_[0] << 31\<close> shifts an \<^verbatim>\<open>int\<close>; what is shifted beyond
  the 32nd bit is lost, as the compilers document.

  The specification \<open>spec_frames\<close> cuts a byte sequence into frames as section 4.1 of RFC 9113 describes them. \<^verbatim>\<open>parse_frames\<close>
  is proved equal to it, including its faults; the exact inverse of writing frames is derived from this, and the loop of
  \<^verbatim>\<open>frame_headers::nva\<close> is proved to end.
\<close>

subsection \<open>Memory and byte order\<close>

definition memory_at :: "buffer \<Rightarrow> nat \<Rightarrow> nat \<Rightarrow> buffer exec" where
  "memory_at data off n = (if off + n \<le> length data then Inr (take n (drop off data)) else Inl Undefined)"

text \<open>\<^verbatim>\<open>be16toh\<close> and \<^verbatim>\<open>be32toh\<close> of an integer loaded from memory: the bytes read most significant first.\<close>

definition betoh :: "buffer \<Rightarrow> 'a::len word" where
  "betoh bs = foldl (\<lambda>a b. push_bit 8 a OR ucast b) 0 bs"

subsection \<open>Headers\<close>

record sid =
  id_0 :: u8
  id_1 :: u8
  id_2 :: u8
  id_3 :: u8

definition sid_default :: sid where
  "sid_default = \<lparr>id_0 = 0, id_1 = 0, id_2 = 0, id_3 = 0\<rparr>"

definition sid_ctor :: "u32 \<Rightarrow> sid" where
  "sid_ctor stream_id =
     \<lparr>id_0 = ucast (drop_bit 31 stream_id AND 0xff), id_1 = ucast (drop_bit 16 stream_id AND 0xff),
      id_2 = ucast (drop_bit 8 stream_id AND 0xff), id_3 = ucast (stream_id AND 0xff)\<rparr>"

definition sid_id :: "sid \<Rightarrow> u32" where
  "sid_id s = push_bit 31 (ucast (id_0 s)) OR push_bit 16 (ucast (id_1 s)) OR push_bit 8 (ucast (id_2 s)) OR ucast (id_3 s)"

abbreviation (input) HTTP2_DATA :: u8 where "HTTP2_DATA \<equiv> 0"
abbreviation (input) HTTP2_HEADERS :: u8 where "HTTP2_HEADERS \<equiv> 1"
abbreviation (input) HTTP2_PRIORITY :: u8 where "HTTP2_PRIORITY \<equiv> 2"
abbreviation (input) HTTP2_RST_STREAM :: u8 where "HTTP2_RST_STREAM \<equiv> 3"
abbreviation (input) HTTP2_SETTINGS :: u8 where "HTTP2_SETTINGS \<equiv> 4"
abbreviation (input) HTTP2_PUSH_PROMISE :: u8 where "HTTP2_PUSH_PROMISE \<equiv> 5"
abbreviation (input) HTTP2_PING :: u8 where "HTTP2_PING \<equiv> 6"
abbreviation (input) HTTP2_GOAWAY :: u8 where "HTTP2_GOAWAY \<equiv> 7"
abbreviation (input) HTTP2_WINDOW_UPDATE :: u8 where "HTTP2_WINDOW_UPDATE \<equiv> 8"
abbreviation (input) HTTP2_CONTINUATION :: u8 where "HTTP2_CONTINUATION \<equiv> 9"

abbreviation (input) HTTP2_FLAG_ACK :: u8 where "HTTP2_FLAG_ACK \<equiv> 1"
abbreviation (input) HTTP2_FLAG_PADDED :: u8 where "HTTP2_FLAG_PADDED \<equiv> 8"
abbreviation (input) HTTP2_FLAG_PRIORITY :: u8 where "HTTP2_FLAG_PRIORITY \<equiv> 0x20"

record frame_hdr =
  length_0 :: u8
  length_1 :: u8
  length_2 :: u8
  fh_type :: u8
  fh_flags :: u8
  fh_stream_id :: sid

abbreviation (input) FRAME_HEADER_SIZE :: nat where "FRAME_HEADER_SIZE \<equiv> 9"

definition frame_hdr_default :: frame_hdr where
  "frame_hdr_default = \<lparr>length_0 = 0, length_1 = 0, length_2 = 0, fh_type = 255, fh_flags = 0, fh_stream_id = sid_default\<rparr>"

definition frame_hdr_ctor :: "u8 \<Rightarrow> u8 \<Rightarrow> u32 \<Rightarrow> u32 \<Rightarrow> frame_hdr" where
  "frame_hdr_ctor type flags stream_id len =
     \<lparr>length_0 = ucast (drop_bit 16 len AND 0xff), length_1 = ucast (drop_bit 8 len AND 0xff), length_2 = ucast (len AND 0xff),
      fh_type = type, fh_flags = flags, fh_stream_id = sid_ctor stream_id\<rparr>"

definition frame_hdr_stream_id :: "frame_hdr \<Rightarrow> u32" where
  "frame_hdr_stream_id h = sid_id (fh_stream_id h)"

definition frame_hdr_length :: "frame_hdr \<Rightarrow> u32" where
  "frame_hdr_length h = push_bit 16 (ucast (length_0 h)) OR push_bit 8 (ucast (length_1 h)) OR ucast (length_2 h)"

definition frame_hdr_IsValid :: "frame_hdr \<Rightarrow> bool" where
  "frame_hdr_IsValid h =
     (if fh_type h = HTTP2_DATA then True
      else if fh_type h = HTTP2_HEADERS then True
      else if fh_type h = HTTP2_PRIORITY then \<not> frame_hdr_length h \<noteq> 5
      else if fh_type h = HTTP2_RST_STREAM then True
      else if fh_type h = HTTP2_SETTINGS then
        (if frame_hdr_stream_id h \<noteq> 0 then False
         else if fh_flags h AND HTTP2_FLAG_ACK \<noteq> 0 then frame_hdr_length h = 0
         else frame_hdr_length h mod 6 = 0)
      else if fh_type h = HTTP2_PUSH_PROMISE then True
      else if fh_type h = HTTP2_PING then True
      else if fh_type h = HTTP2_GOAWAY then True
      else if fh_type h = HTTP2_WINDOW_UPDATE then True
      else if fh_type h = HTTP2_CONTINUATION then True
      else False)"

text \<open>Copying a header from and to memory.\<close>

fun frame_hdr_of_bytes :: "buffer \<Rightarrow> frame_hdr exec" where
  "frame_hdr_of_bytes [l0, l1, l2, t, f, s0, s1, s2, s3] =
     Inr \<lparr>length_0 = l0, length_1 = l1, length_2 = l2, fh_type = t, fh_flags = f,
          fh_stream_id = \<lparr>id_0 = s0, id_1 = s1, id_2 = s2, id_3 = s3\<rparr>\<rparr>"
| "frame_hdr_of_bytes _ = Inl Undefined"

definition frame_hdr_bytes :: "frame_hdr \<Rightarrow> buffer" where
  "frame_hdr_bytes h =
     [length_0 h, length_1 h, length_2 h, fh_type h, fh_flags h,
      id_0 (fh_stream_id h), id_1 (fh_stream_id h), id_2 (fh_stream_id h), id_3 (fh_stream_id h)]"

subsection \<open>Payload structures\<close>

record http2_settings_entry =
  se_id :: buffer
  se_value :: buffer

definition settings_id :: "http2_settings_entry \<Rightarrow> u16" where
  "settings_id e = betoh (se_id e)"

definition settings_value :: "http2_settings_entry \<Rightarrow> u32" where
  "settings_value e = betoh (se_value e)"

record http2_priority_spec =
  ps_stream_id :: sid
  ps_weight :: u8

definition priority_stream_id :: "http2_priority_spec \<Rightarrow> u32" where
  "priority_stream_id p = sid_id (ps_stream_id p)"

definition priority_weight :: "http2_priority_spec \<Rightarrow> u8" where
  "priority_weight p = ps_weight p + 1"

text \<open>Reading the structures at an offset of the payload.\<close>

definition sid_at :: "buffer \<Rightarrow> nat \<Rightarrow> sid exec" where
  "sid_at p off =
     bind_exec (memory_at p off 4) (\<lambda>bs. Inr \<lparr>id_0 = bs ! 0, id_1 = bs ! 1, id_2 = bs ! 2, id_3 = bs ! 3\<rparr>)"

definition settings_entry_at :: "buffer \<Rightarrow> nat \<Rightarrow> http2_settings_entry exec" where
  "settings_entry_at p off =
     bind_exec (memory_at p off 6) (\<lambda>bs. Inr \<lparr>se_id = take 2 bs, se_value = drop 2 bs\<rparr>)"

definition priority_spec_at :: "buffer \<Rightarrow> nat \<Rightarrow> http2_priority_spec exec" where
  "priority_spec_at p off =
     bind_exec (sid_at p off) (\<lambda>s. bind_exec (memory_at p (off + 4) 1) (\<lambda>bs. Inr \<lparr>ps_stream_id = s, ps_weight = bs ! 0\<rparr>))"

subsection \<open>Frames\<close>

record frame_base =
  fb_header :: frame_hdr
  fb_payload :: buffer

definition frame_base_ctor :: "frame_hdr \<Rightarrow> buffer option \<Rightarrow> frame_base exec" where
  "frame_base_ctor head data =
     (let payload_size = unat (frame_hdr_length head) in
      case data of
        None \<Rightarrow> Inr \<lparr>fb_header = head, fb_payload = []\<rparr>
      | Some bs \<Rightarrow>
          if 0 < payload_size
          then bind_exec (memory_at bs 0 payload_size) (\<lambda>p. Inr \<lparr>fb_header = head, fb_payload = p\<rparr>)
          else Inr \<lparr>fb_header = head, fb_payload = []\<rparr>)"

definition frame_base_of_buffer :: "frame_hdr \<Rightarrow> buffer \<Rightarrow> frame_base" where
  "frame_base_of_buffer head data = \<lparr>fb_header = head, fb_payload = data\<rparr>"

text \<open>The constructors of the frame classes differ in the type they check.\<close>

definition check_type :: "u8 \<Rightarrow> frame_base exec \<Rightarrow> frame_base exec" where
  "check_type t m = bind_exec m (\<lambda>f. if fh_type (fb_header f) = t then Inr f else Inl Terminated)"

definition frame_rst_ctor :: "frame_hdr \<Rightarrow> buffer option \<Rightarrow> frame_base exec" where
  "frame_rst_ctor head er_code = check_type HTTP2_RST_STREAM (frame_base_ctor head er_code)"

definition frame_data_ctor :: "frame_hdr \<Rightarrow> buffer option \<Rightarrow> frame_base exec" where
  "frame_data_ctor head data = frame_base_ctor head data"

definition frame_data_of_buffer :: "frame_hdr \<Rightarrow> buffer \<Rightarrow> frame_base exec" where
  "frame_data_of_buffer head data = check_type HTTP2_DATA (Inr (frame_base_of_buffer head data))"

definition frame_goaway_ctor :: "frame_hdr \<Rightarrow> buffer option \<Rightarrow> frame_base exec" where
  "frame_goaway_ctor head info = check_type HTTP2_GOAWAY (frame_base_ctor head info)"

definition frame_settings_ctor :: "frame_hdr \<Rightarrow> buffer option \<Rightarrow> frame_base exec" where
  "frame_settings_ctor head settings = check_type HTTP2_SETTINGS (frame_base_ctor head settings)"

definition frame_priority_ctor :: "frame_hdr \<Rightarrow> buffer option \<Rightarrow> frame_base exec" where
  "frame_priority_ctor head priority = check_type HTTP2_PRIORITY (frame_base_ctor head priority)"

definition frame_headers_ctor :: "frame_hdr \<Rightarrow> buffer option \<Rightarrow> frame_base exec" where
  "frame_headers_ctor head data = check_type HTTP2_HEADERS (frame_base_ctor head data)"

definition frame_headers_of_buffer :: "frame_hdr \<Rightarrow> buffer \<Rightarrow> frame_base exec" where
  "frame_headers_of_buffer head data = check_type HTTP2_HEADERS (Inr (frame_base_of_buffer head data))"

definition create_frame :: "frame_hdr \<Rightarrow> buffer option \<Rightarrow> frame_base exec" where
  "create_frame head data =
     (let type = fh_type head in
      if type = HTTP2_DATA then frame_data_ctor head data
      else if type = HTTP2_HEADERS then frame_headers_ctor head data
      else if type = HTTP2_PRIORITY then frame_priority_ctor head data
      else if type = HTTP2_RST_STREAM then frame_rst_ctor head data
      else if type = HTTP2_SETTINGS then frame_settings_ctor head data
      else if type = HTTP2_PUSH_PROMISE then Inl Terminated
      else if type = HTTP2_PING then Inl Terminated
      else if type = HTTP2_GOAWAY then frame_goaway_ctor head data
      else if type = HTTP2_WINDOW_UPDATE then Inl Terminated
      else if type = HTTP2_CONTINUATION then Inl Terminated
      else Inl Terminated)"

definition payload_size :: "frame_base \<Rightarrow> u32 exec" where
  "payload_size f =
     (if length (fb_payload f) = unat (frame_hdr_length (fb_header f)) then Inr (frame_hdr_length (fb_header f)) else Inl Terminated)"

definition raw_data :: "frame_base \<Rightarrow> buffer exec" where
  "raw_data f =
     (if \<not> frame_hdr_IsValid (fb_header f) then Inr []
      else bind_exec (payload_size f) (\<lambda>n.
             bind_exec (memory_at (fb_payload f) 0 (unat n)) (\<lambda>p. Inr (frame_hdr_bytes (fb_header f) @ p))))"

subsection \<open>Accessors of the frame classes\<close>

definition frame_rst_create_frame_header :: "u8 \<Rightarrow> u32 \<Rightarrow> frame_hdr" where
  "frame_rst_create_frame_header flags stream_id = frame_hdr_ctor HTTP2_RST_STREAM flags stream_id 4"

definition frame_rst_error_code :: "frame_base \<Rightarrow> u32 exec" where
  "frame_rst_error_code f = bind_exec (memory_at (fb_payload f) 0 4) (\<lambda>bs. Inr (betoh bs))"

definition frame_data_create_frame_header :: "u8 \<Rightarrow> u32 \<Rightarrow> u32 \<Rightarrow> frame_hdr" where
  "frame_data_create_frame_header flags stream_id sz = frame_hdr_ctor HTTP2_DATA flags stream_id sz"

text \<open>The 32-bit integer at the start of the payload is returned as \<^verbatim>\<open>uint8_t\<close>.\<close>

definition frame_data_padlen :: "frame_base \<Rightarrow> u8 exec" where
  "frame_data_padlen f = bind_exec (memory_at (fb_payload f) 0 4) (\<lambda>bs. Inr (ucast (betoh bs :: u32)))"

definition frame_goaway_create_frame_header :: "u8 \<Rightarrow> u32 \<Rightarrow> u32 \<Rightarrow> frame_hdr" where
  "frame_goaway_create_frame_header flags stream_id lenght = frame_hdr_ctor HTTP2_GOAWAY flags stream_id lenght"

definition frame_goaway_last_stream_id :: "frame_base \<Rightarrow> u32 exec" where
  "frame_goaway_last_stream_id f = bind_exec (sid_at (fb_payload f) 0) (\<lambda>s. Inr (sid_id s))"

definition frame_goaway_error_code :: "frame_base \<Rightarrow> u32 exec" where
  "frame_goaway_error_code f = bind_exec (memory_at (fb_payload f) 4 4) (\<lambda>bs. Inr (betoh bs))"

definition frame_goaway_opaque_data :: "frame_base \<Rightarrow> buffer" where
  "frame_goaway_opaque_data f = drop (4 + 4) (fb_payload f)"

definition frame_goaway_opaque_data_len :: "frame_base \<Rightarrow> u32 exec" where
  "frame_goaway_opaque_data_len f = bind_exec (payload_size f) (\<lambda>n. Inr (n - 4 - 4))"

definition frame_settings_create_frame_header :: "u8 \<Rightarrow> u32 \<Rightarrow> u32 \<Rightarrow> frame_hdr" where
  "frame_settings_create_frame_header flags stream_id lenght = frame_hdr_ctor HTTP2_SETTINGS flags stream_id lenght"

definition frame_settings_niv :: "frame_base \<Rightarrow> u32 exec" where
  "frame_settings_niv f = bind_exec (payload_size f) (\<lambda>n. Inr (n div 6))"

text \<open>\<^verbatim>\<open>iv()[i]\<close>.\<close>

definition frame_settings_iv :: "frame_base \<Rightarrow> nat \<Rightarrow> http2_settings_entry exec" where
  "frame_settings_iv f i = settings_entry_at (fb_payload f) (6 * i)"

definition frame_priority_create_frame_header :: "u8 \<Rightarrow> u32 \<Rightarrow> frame_hdr" where
  "frame_priority_create_frame_header flags stream_id = frame_hdr_ctor HTTP2_PRIORITY flags stream_id 5"

definition frame_priority_priority :: "frame_base \<Rightarrow> http2_priority_spec exec" where
  "frame_priority_priority f = priority_spec_at (fb_payload f) 0"

definition frame_headers_create_frame_header :: "u8 \<Rightarrow> u32 \<Rightarrow> u32 \<Rightarrow> frame_hdr" where
  "frame_headers_create_frame_header flags stream_id sz = frame_hdr_ctor HTTP2_HEADERS flags stream_id sz"

definition frame_headers_padlen :: "frame_base \<Rightarrow> u8 exec" where
  "frame_headers_padlen f =
     (if fh_flags (fb_header f) AND HTTP2_FLAG_PADDED \<noteq> 0
      then bind_exec (memory_at (fb_payload f) 0 1) (\<lambda>bs. Inr (bs ! 0))
      else Inr 0)"

text \<open>\<open>None\<close> is the null pointer.\<close>

definition frame_headers_priority :: "frame_base \<Rightarrow> http2_priority_spec option exec" where
  "frame_headers_priority f =
     (if fh_flags (fb_header f) AND HTTP2_FLAG_PRIORITY \<noteq> 0 then
        bind_exec (priority_spec_at (fb_payload f) (if fh_flags (fb_header f) AND HTTP2_FLAG_PADDED \<noteq> 0 then 1 else 0))
          (\<lambda>p. Inr (Some p))
      else Inr None)"

text \<open>The loop of \<^verbatim>\<open>nva\<close>; at its end the destructor of the inflater deletes \<^verbatim>\<open>ent_keep\<close>.\<close>

partial_function (option) nva_loop ::
  "(u32 \<Rightarrow> bool) \<Rightarrow> heap \<Rightarrow> http2_inflater \<Rightarrow> buffer \<Rightarrow> http2_nv list \<Rightarrow> (http2_nv list \<times> heap \<times> http2_inflater) exec option" where
  "nva_loop mem h ihd inp res =
     (case http2_inflate_hd mem h ihd inp False of
        Inl e \<Rightarrow> Some (Inl e)
      | Inr (out, h, ihd) \<Rightarrow>
          if io_rv out = -1 then Some (Inr (res, h, ihd))
          else
            let inp = drop (nat (io_rv out)) inp;
                inflate_flags = the (io_flags out)
            in if inflate_flags AND HTTP2_INFLATE_FINAL \<noteq> 0 then Some (Inr (res, h, ihd))
               else if inflate_flags AND HTTP2_INFLATE_EMIT = 0 \<and> inp = [] then Some (Inr (res, h, ihd))
               else nva_loop mem h ihd inp (res @ [case io_nv out of None \<Rightarrow> blank_nv | Some nv \<Rightarrow> nv]))"

declare nva_loop.simps [code]

definition http2_inflater_dtor :: "heap \<Rightarrow> http2_inflater \<Rightarrow> heap exec" where
  "http2_inflater_dtor h ihd = (case ent_keep ihd of None \<Rightarrow> Inr h | Some a \<Rightarrow> delete_entry h a)"

text \<open>With a payload of fewer than five bytes \<^verbatim>\<open>inlen\<close> wraps around, and the first read is beyond the end of the payload.\<close>

definition frame_headers_nva :: "(u32 \<Rightarrow> bool) \<Rightarrow> frame_base \<Rightarrow> http2_nv list exec" where
  "frame_headers_nva mem f =
     bind_exec (http2_inflater_ctor mem) (\<lambda>ihd.
     bind_exec (payload_size f) (\<lambda>n.
       if n < 5 then Inl Undefined
       else bind_exec (returned (nva_loop mem [] ihd (drop 5 (fb_payload f)) [])) (\<lambda>(res, h, ihd).
              bind_exec (http2_inflater_dtor h ihd) (\<lambda>h. Inr res))))"

subsection \<open>Parsing\<close>

fun strncmp_eq :: "buffer \<Rightarrow> buffer \<Rightarrow> nat \<Rightarrow> bool exec" where
  "strncmp_eq s t 0 = Inr True"
| "strncmp_eq (a # s) (b # t) (Suc n) = (if a \<noteq> b then Inr False else if a = 0 then Inr True else strncmp_eq s t n)"
| "strncmp_eq _ _ (Suc n) = Inl Undefined"

definition PREFACE_STARTS :: buffer where
  "PREFACE_STARTS = bytes ''PRI * HTTP/2.0'' @ [13, 10, 13, 10] @ bytes ''SM'' @ [13, 10, 13, 10]"

definition is_preface_data :: "buffer option \<Rightarrow> u32 \<Rightarrow> bool exec" where
  "is_preface_data data len =
     (case data of
        None \<Rightarrow> Inr False
      | Some bs \<Rightarrow>
          if len < of_nat (length PREFACE_STARTS) then Inr False
          else strncmp_eq bs (PREFACE_STARTS @ [0]) (length PREFACE_STARTS))"

definition is_frame_header_data :: "buffer option \<Rightarrow> u32 \<Rightarrow> bool exec" where
  "is_frame_header_data data len =
     (case data of
        None \<Rightarrow> Inr False
      | Some bs \<Rightarrow>
          if len < of_nat FRAME_HEADER_SIZE then Inr False
          else bind_exec (memory_at bs 0 FRAME_HEADER_SIZE) (\<lambda>hb.
               bind_exec (frame_hdr_of_bytes hb) (\<lambda>head. Inr (frame_hdr_IsValid head))))"

text \<open>One pass of the loop: the frame at \<^verbatim>\<open>i\<close> and the step to the next.\<close>

definition parse_frame :: "buffer \<Rightarrow> u32 \<Rightarrow> u32 \<Rightarrow> (frame_base \<times> u32) exec" where
  "parse_frame data len i =
     bind_exec (memory_at data (unat i) FRAME_HEADER_SIZE) (\<lambda>hb.
     bind_exec (frame_hdr_of_bytes hb) (\<lambda>head.
       let step = frame_hdr_length head + of_nat FRAME_HEADER_SIZE in
       if \<not> i + step \<le> len then Inl Terminated
       else bind_exec (create_frame head (Some (drop (unat i + FRAME_HEADER_SIZE) data))) (\<lambda>fr. Inr (fr, step))))"

partial_function (option) parse_frames_loop :: "buffer \<Rightarrow> u32 \<Rightarrow> u32 \<Rightarrow> frame_base list \<Rightarrow> frame_base list exec option" where
  "parse_frames_loop data len i res =
     (if i < len then
        (case parse_frame data len i of
           Inl e \<Rightarrow> Some (Inl e)
         | Inr (fr, step) \<Rightarrow> parse_frames_loop data len (i + step) (res @ [fr]))
      else Some (Inr res))"

declare parse_frames_loop.simps [code]

definition parse_frames :: "buffer option \<Rightarrow> u32 \<Rightarrow> frame_base list exec" where
  "parse_frames data len =
     bind_exec (is_frame_header_data data len) (\<lambda>ok.
       if \<not> ok then Inr []
       else case data of None \<Rightarrow> Inr [] | Some bs \<Rightarrow> returned (parse_frames_loop bs len 0 []))"

fun find_frames_loop :: "frame_base list \<Rightarrow> u8 \<Rightarrow> frame_base list \<Rightarrow> frame_base list" where
  "find_frames_loop [] type res = res"
| "find_frames_loop (fr # frames) type res =
     find_frames_loop frames type (if fh_type (fb_header fr) = type then res @ [fr] else res)"

definition find_frames_by_type :: "frame_base list \<Rightarrow> u8 \<Rightarrow> frame_base list" where
  "find_frames_by_type frames type = find_frames_loop frames type []"

subsection \<open>Framing\<close>

lemma length_frame_hdr_bytes [simp]: "length (frame_hdr_bytes h) = 9"
  by (simp add: frame_hdr_bytes_def)

lemma frame_hdr_of_bytes_inverse [simp]: "frame_hdr_of_bytes (frame_hdr_bytes h) = Inr h"
  by (simp add: frame_hdr_bytes_def)

lemma frame_hdr_of_bytes_ok:
  assumes "length bs = 9"
  obtains h where "frame_hdr_of_bytes bs = Inr h" "bs = frame_hdr_bytes h"
proof -
  from assms obtain b0 b1 b2 b3 b4 b5 b6 b7 b8 where "bs = [b0, b1, b2, b3, b4, b5, b6, b7, b8]"
    by (auto simp: numeral_eq_Suc length_Suc_conv)
  with that [of "\<lparr>length_0 = b0, length_1 = b1, length_2 = b2, fh_type = b3, fh_flags = b4,
      fh_stream_id = \<lparr>id_0 = b5, id_1 = b6, id_2 = b7, id_3 = b8\<rparr>\<rparr>"]
  show thesis by (simp add: frame_hdr_bytes_def)
qed

text \<open>Reading a header off a stream.\<close>

definition read_frame_hdr :: "buffer \<Rightarrow> (frame_hdr \<times> buffer) option" where
  "read_frame_hdr bs =
     (case frame_hdr_of_bytes (take 9 bs) of Inl e \<Rightarrow> None | Inr h \<Rightarrow> Some (h, drop 9 bs))"

interpretation frame_header: stream_codec "\<lambda>h. True" frame_hdr_bytes read_frame_hdr
  by unfold_locales (simp_all add: read_frame_hdr_def, simp add: frame_hdr_bytes_def)

text \<open>The 24-bit length as a number.\<close>

lemma push_or_nat:
  assumes "(y :: nat) < 2 ^ k"
  shows "push_bit k x OR y = x * 2 ^ k + y"
proof -
  have "\<not> bit (push_bit k x) n \<or> \<not> bit y n" for n
  proof (cases "n < k")
    case False
    then have "y < 2 ^ n" using assms by (meson less_le_trans linorder_not_less one_le_numeral power_increasing)
    then show ?thesis by (simp add: bit_iff_odd)
  qed (simp add: bit_push_bit_iff_nat)
  then have "push_bit k x + y = push_bit k x OR y" by (rule disjunctive_add)
  then show ?thesis by (simp add: push_bit_eq_mult)
qed

definition wire_length :: "buffer \<Rightarrow> nat" where
  "wire_length bs = 65536 * unat (bs ! 0) + 256 * unat (bs ! 1) + unat (bs ! 2)"

lemma byte_bound: "unat (b :: u8) < 256"
  using unat_bound [of b] by simp

lemma frame_hdr_length_value:
  "unat (frame_hdr_length h) = 65536 * unat (length_0 h) + 256 * unat (length_1 h) + unat (length_2 h)"
proof -
  have p: "unat (push_bit k (ucast b :: u32)) = push_bit k (unat b)" if "k \<le> 16" for k and b :: u8
  proof -
    have "unat b * 2 ^ k < 256 * 2 ^ k" using byte_bound [of b] by simp
    also have "\<dots> \<le> 256 * 2 ^ 16" using that by (intro mult_le_mono power_increasing) simp_all
    finally have "unat (push_bit k (ucast b :: u32)) = unat (ucast b :: u32) * 2 ^ k"
      by (intro unat_push_bit) (simp add: unat_ucast_up)
    then show ?thesis by (simp only: unat_ucast_up [of b, where 'b = 32, simplified] push_bit_eq_mult)
  qed
  have "unat (frame_hdr_length h) = push_bit 16 (unat (length_0 h)) OR (push_bit 8 (unat (length_1 h)) OR unat (length_2 h))"
    by (simp add: frame_hdr_length_def unsigned_or_eq p unat_ucast_up or.assoc)
  also have "push_bit 8 (unat (length_1 h)) OR unat (length_2 h) = 256 * unat (length_1 h) + unat (length_2 h)"
    using push_or_nat [of "unat (length_2 h)" 8 "unat (length_1 h)"] byte_bound by simp
  also have "push_bit 16 (unat (length_0 h)) OR (256 * unat (length_1 h) + unat (length_2 h))
      = 65536 * unat (length_0 h) + (256 * unat (length_1 h) + unat (length_2 h))"
    using push_or_nat [of "256 * unat (length_1 h) + unat (length_2 h)" 16 "unat (length_0 h)"]
      byte_bound [of "length_1 h"] byte_bound [of "length_2 h"] by simp
  finally show ?thesis by simp
qed

lemma frame_hdr_length_bound: "unat (frame_hdr_length h) < 2 ^ 24"
  using frame_hdr_length_value [of h] byte_bound [of "length_0 h"] byte_bound [of "length_1 h"] byte_bound [of "length_2 h"] by simp

lemma wire_length_header [simp]: "wire_length (frame_hdr_bytes h @ bs) = unat (frame_hdr_length h)"
  by (simp add: wire_length_def frame_hdr_bytes_def frame_hdr_length_value)

text \<open>The specification: frames one after the other, each a header of nine bytes and as many bytes of payload as it says. The code
  reads a header whenever a byte is left, ends the process on a frame that is cut off and on frame types it has no class for.\<close>

definition supported_type :: "u8 \<Rightarrow> bool" where
  "supported_type t \<longleftrightarrow> t \<in> {HTTP2_DATA, HTTP2_HEADERS, HTTP2_PRIORITY, HTTP2_RST_STREAM, HTTP2_SETTINGS, HTTP2_GOAWAY}"

definition wire_frame :: "buffer \<Rightarrow> frame_base" where
  "wire_frame bs = \<lparr>fb_header = projr (frame_hdr_of_bytes (take 9 bs)), fb_payload = take (wire_length bs) (drop 9 bs)\<rparr>"

function spec_frames :: "buffer \<Rightarrow> frame_base list exec" where
  "spec_frames bs =
     (if bs = [] then Inr []
      else if length bs < 9 then Inl Undefined
      else if length bs < 9 + wire_length bs then Inl Terminated
      else if \<not> supported_type (bs ! 3) then Inl Terminated
      else bind_exec (spec_frames (drop (9 + wire_length bs) bs)) (\<lambda>fs. Inr (wire_frame bs # fs)))"
  by pat_completeness auto
termination by (relation "measure length") auto

declare spec_frames.simps [simp del]

lemma create_frame_eq:
  "create_frame head (Some bs) =
     (if \<not> supported_type (fh_type head) then Inl Terminated
      else bind_exec (memory_at bs 0 (unat (frame_hdr_length head))) (\<lambda>p. Inr \<lparr>fb_header = head, fb_payload = p\<rparr>))"
  by (auto simp: create_frame_def supported_type_def frame_data_ctor_def frame_headers_ctor_def frame_priority_ctor_def
      frame_rst_ctor_def frame_settings_ctor_def frame_goaway_ctor_def check_type_def frame_base_ctor_def memory_at_def Let_def)

lemma wire_frame_header:
  "wire_frame (frame_hdr_bytes h @ bs) = \<lparr>fb_header = h, fb_payload = take (unat (frame_hdr_length h)) bs\<rparr>"
  by (simp add: wire_frame_def)

lemma spec_frames_header:
  "spec_frames (frame_hdr_bytes h @ bs) =
     (if length bs < unat (frame_hdr_length h) \<or> \<not> supported_type (fh_type h) then Inl Terminated
      else bind_exec (spec_frames (drop (unat (frame_hdr_length h)) bs))
             (\<lambda>fs. Inr (\<lparr>fb_header = h, fb_payload = take (unat (frame_hdr_length h)) bs\<rparr> # fs)))"
  by (subst spec_frames.simps) (auto simp: wire_frame_header, auto simp: frame_hdr_bytes_def)

lemma header_type [simp]: "(frame_hdr_bytes h @ bs) ! 3 = fh_type h"
  by (simp add: frame_hdr_bytes_def)

lemma header_split:
  assumes "9 \<le> length bs"
  obtains h where "bs = frame_hdr_bytes h @ drop 9 bs" "frame_hdr_of_bytes (take 9 bs) = Inr h"
proof -
  from assms have "length (take 9 bs) = 9" by simp
  then obtain h where "frame_hdr_of_bytes (take 9 bs) = Inr h" "take 9 bs = frame_hdr_bytes h" by (rule frame_hdr_of_bytes_ok)
  with that show thesis by (metis append_take_drop_id)
qed

text \<open>The loop computes the specification; in particular it ends.\<close>

lemma parse_frames_loop_eq:
  assumes "unat i \<le> length data" and small: "length data < 2 ^ 31"
  shows "parse_frames_loop data (of_nat (length data)) i res
    = Some (bind_exec (spec_frames (drop (unat i) data)) (\<lambda>fs. Inr (res @ fs)))"
  using assms(1)
proof (induction "length data - unat i" arbitrary: i res rule: less_induct)
  case less
  let ?len = "of_nat (length data) :: u32" and ?bs = "drop (unat i) data"
  have len: "unat ?len = length data" using small by (simp add: unat_of_nat take_bit_nat_eq_self)
  consider "?bs = []" | "?bs \<noteq> []" "length ?bs < 9" | "9 \<le> length ?bs" by linarith
  then show ?case
  proof cases
    case 1
    then have "\<not> i < ?len" by (simp add: word_less_nat_alt len)
    with 1 show ?thesis by (subst parse_frames_loop.simps) (simp add: spec_frames.simps)
  next
    case 2
    then have "i < ?len" "parse_frame data ?len i = Inl Undefined"
      by (auto simp: word_less_nat_alt len parse_frame_def memory_at_def)
    with 2 show ?thesis by (subst parse_frames_loop.simps) (simp add: spec_frames.simps)
  next
    case 3
    then obtain h where h: "?bs = frame_hdr_bytes h @ drop 9 ?bs" "frame_hdr_of_bytes (take 9 ?bs) = Inr h"
      by (rule header_split)
    let ?n = "unat (frame_hdr_length h)"
    have lt: "i < ?len" using 3 by (simp add: word_less_nat_alt len)
    have step: "unat (frame_hdr_length h + of_nat 9) = ?n + 9"
      using frame_hdr_length_bound [of h] by (simp add: unat_word_ariths)
    have hb: "memory_at data (unat i) 9 = Inr (take 9 ?bs)" using 3 by (simp add: memory_at_def)
    have next_i: "unat (i + (frame_hdr_length h + of_nat 9)) = unat i + (?n + 9)"
    proof -
      have "unat i + (?n + 9) < 2 ^ 32" using less.prems small frame_hdr_length_bound [of h] by simp
      then show "unat (i + (frame_hdr_length h + of_nat 9)) = unat i + (?n + 9)"
        using step by (simp add: unat_word_ariths)
    qed
    then have fits: "i + (frame_hdr_length h + of_nat 9) \<le> ?len \<longleftrightarrow> ?n \<le> length (drop 9 ?bs)"
      using 3 by (auto simp: word_le_nat_alt len)
    have pf: "parse_frame data ?len i =
        (if length (drop 9 ?bs) < ?n \<or> \<not> supported_type (fh_type h) then Inl Terminated
         else Inr (\<lparr>fb_header = h, fb_payload = take ?n (drop 9 ?bs)\<rparr>, frame_hdr_length h + of_nat 9))"
      using hb h(2) fits by (auto simp: parse_frame_def create_frame_eq memory_at_def Let_def add.commute)
    have spec: "spec_frames ?bs =
        (if length (drop 9 ?bs) < ?n \<or> \<not> supported_type (fh_type h) then Inl Terminated
         else bind_exec (spec_frames (drop (?n + 9) ?bs)) (\<lambda>fs. Inr (\<lparr>fb_header = h, fb_payload = take ?n (drop 9 ?bs)\<rparr> # fs)))"
      using spec_frames_header [of h "drop 9 ?bs"] h(1) by (simp add: add.commute)
    show ?thesis
    proof (cases "length (drop 9 ?bs) < ?n \<or> \<not> supported_type (fh_type h)")
      case True
      then show ?thesis using lt by (subst parse_frames_loop.simps) (simp add: pf spec)
    next
      case False
      let ?i = "i + (frame_hdr_length h + of_nat 9)"
      have i': "unat ?i = unat i + (?n + 9)" "unat ?i \<le> length data"
        using next_i False 3 by auto
      then have "parse_frames_loop data ?len ?i (res @ [\<lparr>fb_header = h, fb_payload = take ?n (drop 9 ?bs)\<rparr>])
          = Some (bind_exec (spec_frames (drop (unat ?i) data)) (\<lambda>fs. Inr ((res @ [\<lparr>fb_header = h, fb_payload = take ?n (drop 9 ?bs)\<rparr>]) @ fs)))"
        using lt by (intro less.hyps) (auto simp: word_less_nat_alt len)
      moreover have "drop (unat ?i) data = drop (?n + 9) ?bs" unfolding i'(1) by (simp add: add.commute add.left_commute)
      ultimately show ?thesis using False lt
        by (subst parse_frames_loop.simps, cases "spec_frames (drop (?n + 9) ?bs)") (simp_all add: pf spec)
    qed
  qed
qed

text \<open>Writing a frame.\<close>

definition frame_bytes :: "frame_base \<Rightarrow> buffer" where
  "frame_bytes f = frame_hdr_bytes (fb_header f) @ fb_payload f"

definition frame_ok :: "frame_base \<Rightarrow> bool" where
  "frame_ok f \<longleftrightarrow> length (fb_payload f) = unat (frame_hdr_length (fb_header f)) \<and> supported_type (fh_type (fb_header f))"

lemma raw_data_ok: "frame_ok f \<Longrightarrow> frame_hdr_IsValid (fb_header f) \<Longrightarrow> raw_data f = Inr (frame_bytes f)"
  by (simp add: raw_data_def payload_size_def memory_at_def frame_ok_def frame_bytes_def)

lemma spec_frames_write: "list_all frame_ok fs \<Longrightarrow> spec_frames (concat (map frame_bytes fs)) = Inr fs"
proof (induction fs)
  case Nil
  then show ?case by (simp add: spec_frames.simps)
next
  case (Cons f fs)
  then show ?case by (cases f) (simp add: frame_bytes_def spec_frames_header frame_ok_def)
qed

lemma spec_frames_read: "spec_frames bs = Inr fs \<Longrightarrow> list_all frame_ok fs \<and> concat (map frame_bytes fs) = bs"
proof (induction bs arbitrary: fs rule: spec_frames.induct)
  case (1 bs)
  show ?case
  proof (cases "length bs < 9")
    case True
    with "1.prems" show ?thesis by (simp add: spec_frames.simps split: if_splits)
  next
    case False
    then have "9 \<le> length bs" by simp
    then obtain h where h: "bs = frame_hdr_bytes h @ drop 9 bs" by (rule header_split)
    let ?n = "unat (frame_hdr_length h)" and ?p = "drop 9 bs"
    note spec = spec_frames_header [of h ?p, folded h]
    from "1.prems" spec obtain gs where gs: "?n \<le> length ?p" "supported_type (fh_type h)" "spec_frames (drop ?n ?p) = Inr gs"
      "fs = \<lparr>fb_header = h, fb_payload = take ?n ?p\<rparr> # gs"
      by (auto simp: bind_exec_Inr_iff split: if_splits)
    have "wire_length bs = ?n" "bs ! 3 = fh_type h"
      using wire_length_header [of h ?p] h header_type [of h ?p] by simp_all
    moreover have "bs \<noteq> []" "\<not> length bs < ?n + 9" using gs(1) False by auto
    ultimately have "list_all frame_ok gs \<and> concat (map frame_bytes gs) = drop ?n ?p"
      using "1.IH" [of gs] gs False by (simp add: add.commute)
    moreover have "frame_ok \<lparr>fb_header = h, fb_payload = take ?n ?p\<rparr>" using gs(1,2) by (simp add: frame_ok_def)
    moreover have "frame_bytes \<lparr>fb_header = h, fb_payload = take ?n ?p\<rparr> @ drop ?n ?p = bs"
      unfolding frame_bytes_def using h by (metis append.assoc append_take_drop_id frame_base.select_convs)
    ultimately show ?thesis using gs(4) by simp
  qed
qed

lemma parse_frames_eq:
  assumes "length data < 2 ^ 31"
  shows "parse_frames (Some data) (of_nat (length data)) =
    (if length data < 9 \<or> \<not> frame_hdr_IsValid (fb_header (wire_frame data)) then Inr [] else spec_frames data)"
proof -
  have len: "unat (of_nat (length data) :: u32) = length data" using assms by (simp add: unat_of_nat take_bit_nat_eq_self)
  have "(of_nat (length data) :: u32) < of_nat 9 \<longleftrightarrow> length data < 9" by (simp add: word_less_nat_alt len)
  moreover have "is_frame_header_data (Some data) (of_nat (length data)) = Inr (frame_hdr_IsValid (fb_header (wire_frame data)))"
    if "9 \<le> length data"
  proof -
    from that obtain h where "frame_hdr_of_bytes (take 9 data) = Inr h" by (rule header_split)
    with that calculation show ?thesis by (simp add: is_frame_header_data_def memory_at_def wire_frame_def)
  qed
  moreover have "parse_frames_loop data (of_nat (length data)) 0 [] = Some (spec_frames data)"
    using parse_frames_loop_eq [of 0 data "[]"] assms by (cases "spec_frames data") simp_all
  ultimately show ?thesis by (auto simp: parse_frames_def is_frame_header_data_def)
qed

lemma find_frames_loop_eq: "find_frames_loop fs t res = res @ filter (\<lambda>f. fh_type (fb_header f) = t) fs"
  by (induction fs arbitrary: res) simp_all

subsection \<open>Stream identifiers\<close>

lemma and_255_eq: "w AND 0xff = take_bit 8 (w :: 'a::len word)"
  by (simp add: take_bit_eq_mask mask_numeral)

lemma sid_round_trip: "sid_id (sid_ctor n) = take_bit 24 n OR push_bit 31 (drop_bit 31 n)"
proof (rule bit_word_eqI)
  fix k assume k: "k < LENGTH(32)"
  have "(if k < 8 then bit n k else if k < 16 then bit n (8 + (k - 8)) else if k < 24 then bit n (16 + (k - 16)) else k = 31 \<and> bit n 31)
      = bit (sid_id (sid_ctor n)) k"
    using k by (auto simp: sid_id_def sid_ctor_def and_255_eq bit_simps)
  then show "bit (sid_id (sid_ctor n)) k = bit (take_bit 24 n OR push_bit 31 (drop_bit 31 n)) k"
    using k by (auto simp: bit_simps split: if_splits)
qed

text \<open>The identifier as section 4.1 of RFC 9113 reads it: 31 bits, the reserved bit ignored.\<close>

definition rfc_stream_id :: "sid \<Rightarrow> u32" where
  "rfc_stream_id s = take_bit 31 (betoh [id_0 s, id_1 s, id_2 s, id_3 s])"

lemma sid_id_rfc: "sid_id s = rfc_stream_id s \<longleftrightarrow> unat (id_0 s) mod 128 = 0"
proof -
  have b: "bit (sid_id s) k = (if k < 8 then bit (id_3 s) k else if k < 16 then bit (id_2 s) (k - 8)
      else if k < 24 then bit (id_1 s) (k - 16) else k = 31 \<and> bit (id_0 s) 0)" if "k < 32" for k
    using that by (auto simp: sid_id_def bit_simps dest: bit_imp_le_length)
  have r: "bit (rfc_stream_id s) k = (if k < 8 then bit (id_3 s) k else if k < 16 then bit (id_2 s) (k - 8)
      else if k < 24 then bit (id_1 s) (k - 16) else k < 31 \<and> bit (id_0 s) (k - 24))" if "k < 32" for k
    using that by (auto simp: rfc_stream_id_def betoh_def bit_simps dest: bit_imp_le_length)
  have "unat (id_0 s) mod 128 = 0 \<longleftrightarrow> take_bit 7 (id_0 s) = 0"
    using unat_take_bit [of 7 "id_0 s"] unat_eq_0 [of "take_bit 7 (id_0 s)"] by simp
  also have "\<dots> \<longleftrightarrow> (\<forall>j < 7. \<not> bit (id_0 s) j)"
    by (auto simp: bit_eq_iff bit_simps)
  also have "\<dots> \<longleftrightarrow> (\<forall>k < 32. bit (sid_id s) k = bit (rfc_stream_id s) k)"
  proof
    assume "\<forall>k < 32. bit (sid_id s) k = bit (rfc_stream_id s) k"
    then have eq: "bit (sid_id s) k = bit (rfc_stream_id s) k" if "k < 32" for k using that by blast
    have "\<not> bit (id_0 s) j" if "j < 7" for j
      using eq [of "24 + j"] b [of "24 + j"] r [of "24 + j"] that by simp
    then show "\<forall>j < 7. \<not> bit (id_0 s) j" by blast
  next
    assume *: "\<forall>j < 7. \<not> bit (id_0 s) j"
    show "\<forall>k < 32. bit (sid_id s) k = bit (rfc_stream_id s) k"
      using * b r by auto
  qed
  also have "\<dots> \<longleftrightarrow> sid_id s = rfc_stream_id s"
    by (auto intro: bit_word_eqI)
  finally show ?thesis by simp
qed

lemma sid_round_trip_iff: "sid_id (sid_ctor n) = n \<longleftrightarrow> unat n mod 2 ^ 31 < 2 ^ 24"
proof -
  have k: "bit (take_bit 24 n OR push_bit 31 (drop_bit 31 n)) k \<longleftrightarrow> bit n k \<and> (k < 24 \<or> k = 31)" if "k < 32" for k
    using that by (cases "k = 31") (auto simp: bit_simps)
  have "sid_id (sid_ctor n) = n \<longleftrightarrow> (\<forall>k < 32. bit (take_bit 24 n OR push_bit 31 (drop_bit 31 n)) k = bit n k)"
    by (auto simp: sid_round_trip intro: bit_word_eqI)
  also have "\<dots> \<longleftrightarrow> (\<forall>k < 32. bit n k \<longrightarrow> k < 24 \<or> k = 31)"
    using k by blast
  also have "\<dots> \<longleftrightarrow> take_bit 24 (take_bit 31 n) = take_bit 31 n"
  proof
    assume "\<forall>k < 32. bit n k \<longrightarrow> k < 24 \<or> k = 31"
    then show "take_bit 24 (take_bit 31 n) = take_bit 31 n"
      by (intro bit_word_eqI) (auto simp: bit_take_bit_iff)
  next
    assume eq: "take_bit 24 (take_bit 31 n) = take_bit 31 n"
    have "k < 24 \<or> k = 31" if "k < 32" "bit n k" for k
      using that bit_take_bit_iff [of 24 "take_bit 31 n" k] bit_take_bit_iff [of 31 n k] unfolding eq by auto
    then show "\<forall>k < 32. bit n k \<longrightarrow> k < 24 \<or> k = 31" by blast
  qed
  also have "\<dots> \<longleftrightarrow> unat n mod 2 ^ 31 mod 2 ^ 24 = unat n mod 2 ^ 31"
    by (simp only: word_unat_eq_iff unat_take_bit)
  also have "\<dots> \<longleftrightarrow> unat n mod 2 ^ 31 < 2 ^ 24"
    using mod_less_divisor [of "2 ^ 24" "unat n mod 2 ^ 31"] mod_less [of "unat n mod 2 ^ 31" "2 ^ 24"] by auto
  finally show ?thesis .
qed

subsection \<open>Header blocks\<close>

text \<open>A call that does not fail and does not emit a header has consumed all of its input.\<close>

lemma decode_length_finish_rest:
  assumes "decode_length_finish inlen r = Inr d"
  shows "dl_rv d = -1 \<or> (0 \<le> dl_rv d \<and> (\<not> dl_final d \<longrightarrow> dl_rv d = int inlen))"
proof -
  from assms obtain x where "r = Inr x" by (auto simp: decode_length_finish_def bind_exec_Inr_iff)
  with assms show ?thesis by (cases x) (auto simp: decode_length_finish_def split: if_splits)
qed

lemma decode_length_rest:
  assumes "decode_length initial shift inp prefix = Inr d"
  shows "dl_rv d = -1 \<or> (0 \<le> dl_rv d \<and> (\<not> dl_final d \<longrightarrow> dl_rv d = int (length inp)))"
  using assms by (auto simp: decode_length_def Let_def split: list.splits if_splits dest: decode_length_finish_rest)

lemma hd_inflate_read_len_rest:
  assumes "hd_inflate_read_len infl inp prefix maxlen = Inr (rv, fin, infl')"
  shows "rv = -1 \<or> (0 \<le> rv \<and> (\<not> fin \<longrightarrow> drop (nat rv) inp = []))"
  using assms decode_length_rest [of "if_left infl" "if_shift infl" inp prefix]
  by (auto simp: hd_inflate_read_len_def bind_exec_Inr_iff Let_def split: if_splits)

lemma hd_inflate_read_rest:
  assumes "hd_inflate_read infl inp = (rv, infl')" "length inp < 2 ^ 32"
  shows "0 \<le> rv \<and> (if_left infl' \<noteq> 0 \<longrightarrow> drop (nat rv) inp = [])"
  using assms by (auto simp: hd_inflate_read_def Let_def min_def unat_of_nat take_bit_nat_eq_self split: if_splits)

lemma hd_inflate_read_huff_rest:
  assumes "hd_inflate_read_huff infl inp = (rv, infl')" "length inp < 2 ^ 32"
  shows "rv = -1 \<or> (0 \<le> rv \<and> (if_left infl' \<noteq> 0 \<longrightarrow> drop (nat rv) inp = []))"
proof -
  have "if_left infl - word_of_int (int (length (take (unat (if_left infl)) inp))) = 0" if "of_nat (length inp) \<ge> if_left infl"
    using that assms(2) by (simp add: word_le_nat_alt unat_of_nat take_bit_nat_eq_self min_def)
  then show ?thesis using assms(1)
    by (auto simp: hd_inflate_read_huff_def http2_huffman_decode_def Let_def split: if_splits prod.splits)
qed

definition step_rest :: "http2_inflate_state \<Rightarrow> buffer \<Rightarrow> step_result \<Rightarrow> bool" where
  "step_rest st inp r \<longleftrightarrow>
     (case r of
        Next h infl inp' busy \<Rightarrow> length inp' \<le> length inp
      | Almost_ok h infl inp' \<Rightarrow> inp' = []
      | Emit h infl inp' nv token \<Rightarrow> at_field infl \<and> length inp' \<le> length inp
          \<and> (st = HTTP2_STATE_READ_INDEX \<longrightarrow> length inp' < length inp)
      | Fail h infl rv \<Rightarrow> rv = -1)"

lemma step_read_index_rest:
  assumes "step_read_index h infl inp = Inr r"
  shows "step_rest st inp r"
proof -
  from assms obtain prefixlen rv fin infl' where
    rl: "hd_inflate_read_len infl inp prefixlen (get_max_index (if_ctx infl) + 1) = Inr (rv, fin, infl')"
    and p: "prefixlen = (if opcode infl = HTTP2_OPCODE_INDEXED then 7 else if index_required infl then 6 else 4)"
    by (auto simp: step_read_index_def bind_exec_Inr_iff Let_def simp del: if_split)
  note hd_inflate_read_len_rest [OF rl]
  moreover have "length (drop (nat rv) inp) < length inp" if "fin" "0 \<le> rv"
    using hd_inflate_read_len_final [of infl inp] rl that by auto
  ultimately show ?thesis using assms rl unfolding step_read_index_def p [symmetric]
    by (auto simp: step_rest_def at_field_def bind_exec_Inr_iff Let_def simp del: length_drop split: if_splits)
qed

lemma inflate_step_rest:
  assumes "inflate_step mem h infl inp = Inr r" "length inp < 2 ^ 32"
  shows "step_rest (if_state infl) inp r"
proof -
  have "step_rest (if_state infl) inp r" if "step_opcode h infl inp = Inr r"
    using that by (auto simp: step_opcode_def step_rest_def split: list.splits if_splits)
  moreover have "step_rest st inp r" if "step_table_size h infl' inp = Inr r" "st \<noteq> HTTP2_STATE_READ_INDEX" for infl' st
    using that by (auto simp: step_table_size_def step_rest_def bind_exec_Inr_iff Let_def split: if_splits dest!: hd_inflate_read_len_rest)
  moreover have "step_rest st inp r" if "step_read_index h infl' inp = Inr r" for infl' st
    using that by (rule step_read_index_rest)
  moreover have "step_rest st inp r" if "step_read_namelen h infl' inp = Inr r" "st \<noteq> HTTP2_STATE_READ_INDEX" for infl' st
    using that by (auto simp: step_read_namelen_def step_rest_def bind_exec_Inr_iff Let_def split: if_splits dest!: hd_inflate_read_len_rest)
  moreover have "step_rest st inp r" if "step_read_valuelen h infl' inp = Inr r" "st \<noteq> HTTP2_STATE_READ_INDEX" for infl' st
    using that by (auto simp: step_read_valuelen_def step_rest_def bind_exec_Inr_iff Let_def split: if_splits dest!: hd_inflate_read_len_rest)
  moreover have "step_rest st inp r" if "step_read_name h inp (rv, infl') = Inr r" "st \<noteq> HTTP2_STATE_READ_INDEX"
    "rv = -1 \<or> (0 \<le> rv \<and> (if_left infl' \<noteq> 0 \<longrightarrow> drop (nat rv) inp = []))" for rv infl' st
    using that by (auto simp: step_read_name_def step_rest_def Let_def split: if_splits)
  moreover have "step_rest st inp r" if "step_read_value mem h inp (rv, infl') = Inr r" "st \<noteq> HTTP2_STATE_READ_INDEX"
    "rv = -1 \<or> (0 \<le> rv \<and> (if_left infl' \<noteq> 0 \<longrightarrow> drop (nat rv) inp = []))" for rv infl' st
    using that by (auto simp: step_read_value_def step_rest_def at_field_def bind_exec_Inr_iff Let_def split: if_splits)
  ultimately show ?thesis
    using assms hd_inflate_read_rest [of infl inp] hd_inflate_read_huff_rest [of infl inp]
    by (cases "if_state infl"; cases "hd_inflate_read infl inp"; cases "hd_inflate_read_huff infl inp")
      (auto simp: inflate_step_def bind_exec_Inr_iff)
qed

text \<open>From the start of a field, a call consumes everything or emits a header and consumes at least a byte.\<close>

lemma inflate_loop_rest:
  assumes "inflate_loop mem h infl inp busy = Inr r" "length inp < 2 ^ 32"
  shows "case r of
      Next h' infl' inp' busy' \<Rightarrow> inp' = []
    | Almost_ok h' infl' inp' \<Rightarrow> inp' = []
    | Emit h' infl' inp' nv token \<Rightarrow> at_field infl' \<and> length inp' \<le> length inp
    | Fail h' infl' rv \<Rightarrow> rv = -1"
  using assms
proof (induction mem h infl inp busy rule: inflate_loop.induct)
  case (1 mem h infl inp busy)
  show ?case
  proof (cases "inp \<noteq> [] \<or> busy")
    case False
    with "1.prems" show ?thesis by (subst (asm) inflate_loop.simps) auto
  next
    case True
    with "1.prems"(1) obtain r' where r': "inflate_step mem h infl inp = Inr r'"
      by (subst (asm) inflate_loop.simps) (auto simp: bind_exec_Inr_iff)
    note rest = inflate_step_rest [OF r' "1.prems"(2)]
    show ?thesis
    proof (cases r')
      case (Next h' infl' inp' busy')
      with rest have le: "length inp' \<le> length inp" by (simp add: step_rest_def)
      have "inflate_loop mem h' infl' inp' busy' = Inr r" using "1.prems"(1) inflate_loop_Next [OF True, of mem h infl h' infl' inp' busy'] r' Next by simp
      with "1.IH" [OF True r' Next] le "1.prems"(2) show ?thesis by (cases r) auto
    qed (use "1.prems"(1) True r' rest in \<open>subst (asm) inflate_loop.simps, auto simp: step_rest_def\<close>)+
  qed
qed

lemma inflate_loop_progress:
  assumes run: "inflate_loop mem h infl inp False = Inr (Emit h' infl' inp' nv token)" and len: "length inp < 2 ^ 32" and st: "at_field infl"
  shows "length inp' < length inp"
proof -
  have strict: "length inp' < length inp" if "inflate_loop mem h2 infl2 inp2 busy2 = Inr (Emit h' infl' inp' nv token)" "length inp2 < length inp"
    for h2 infl2 inp2 busy2
    using inflate_loop_rest [OF that(1)] that(2) len by simp
  have index: "length inp' < length inp" if "inflate_loop mem h infl2 inp False = Inr (Emit h' infl' inp' nv token)"
    "if_state infl2 = HTTP2_STATE_READ_INDEX \<or> if_state infl2 = HTTP2_STATE_READ_TABLE_SIZE" "inp \<noteq> []" for infl2
  proof -
    from that(1,3) obtain r where r: "inflate_step mem h infl2 inp = Inr r"
      by (subst (asm) inflate_loop.simps) (auto simp: bind_exec_Inr_iff)
    show ?thesis
    proof (cases r)
      case (Next h2 infl3 inp2 busy2)
      with r that(2) have "length inp2 < length inp" by (auto simp: inflate_step_def dest: step_len_Next)
      moreover have "inflate_loop mem h2 infl3 inp2 busy2 = Inr (Emit h' infl' inp' nv token)"
        using that(1,3) inflate_loop_Next [of inp False mem h infl2 h2 infl3 inp2 busy2] r Next by simp
      ultimately show ?thesis by (intro strict)
    next
      case (Emit h2 infl3 inp2 nv2 token2)
      with r that(2) have "if_state infl2 = HTTP2_STATE_READ_INDEX"
        by (auto simp: inflate_step_def step_table_size_def bind_exec_Inr_iff Let_def split: if_splits)
      with inflate_step_rest [OF r len] Emit have "length inp2 < length inp" by (simp add: step_rest_def)
      with that(1,3) r Emit show ?thesis by (subst (asm) inflate_loop.simps) simp
    qed (use that(1,3) r in \<open>subst (asm) inflate_loop.simps, simp\<close>)+
  qed
  have ne: "inp \<noteq> []" using run by (subst (asm) inflate_loop.simps) auto
  with run obtain r where r: "inflate_step mem h infl inp = Inr r"
    by (subst (asm) inflate_loop.simps) (auto simp: bind_exec_Inr_iff)
  then have op: "step_opcode h infl inp = Inr r" using st by (auto simp: inflate_step_def at_field_def)
  then consider h2 infl2 inp2 busy2 where "r = Next h2 infl2 inp2 busy2" "length inp2 < length inp"
    | infl2 where "r = Next h infl2 inp False" "if_state infl2 = HTTP2_STATE_READ_INDEX \<or> if_state infl2 = HTTP2_STATE_READ_TABLE_SIZE"
    | infl2 rv where "r = Fail h infl2 rv"
    by (auto simp: step_opcode_def split: list.splits if_splits)
  then show ?thesis
  proof cases
    case 1
    then show ?thesis using run r ne inflate_loop_Next [of inp False mem h infl] by (intro strict) auto
  next
    case 2
    then show ?thesis using run r ne inflate_loop_Next [of inp False mem h infl] by (intro index) auto
  next
    case 3
    then show ?thesis using run r ne by (subst (asm) inflate_loop.simps) simp
  qed
qed

lemma inflate_hd_progress:
  assumes "http2_inflate_hd mem h ihd inp False = Inr (out, h', ihd')" "length inp < 2 ^ 32" "at_field ihd"
  shows "io_rv out = -1 \<or> (the (io_flags out) AND HTTP2_INFLATE_EMIT = 0 \<and> drop (nat (io_rv out)) inp = [])
    \<or> (at_field ihd' \<and> length (drop (nat (io_rv out)) inp) < length inp)"
proof (cases "bad (if_ctx ihd)")
  case True
  with assms(1) show ?thesis by (auto simp: http2_inflate_hd_def http2_inflate_hd2_def)
next
  case False
  let ?pre = "case ent_keep ihd of None \<Rightarrow> Inr (h, ihd)
    | Some a \<Rightarrow> bind_exec (delete_entry h a) (\<lambda>h. Inr (h, ihd\<lparr>ent_keep := None\<rparr>))"
  from False assms(1) obtain h0 ihd0 r a where pre: "?pre = Inr (h0, ihd0)" and run: "inflate_loop mem h0 ihd0 inp False = Inr r"
    and fin: "inflate_finish (length inp) False r = (a, h', ihd')" "out = a\<lparr>io_token := None\<rparr>"
    unfolding http2_inflate_hd_def http2_inflate_hd2_def by (simp only: if_False bind_exec_Inr_iff split_paired_Ex) (auto simp: bind_exec_Inr_iff)
  from pre assms(3) have st: "at_field ihd0" by (auto simp: at_field_def bind_exec_Inr_iff split: option.splits)
  from inflate_loop_rest [OF run assms(2)] run fin show ?thesis
    using inflate_loop_progress [of mem h0 ihd0 inp, OF _ assms(2) st] by (cases r) (auto simp: inflate_finish_def)
qed

text \<open>Hence the loop of \<^verbatim>\<open>nva\<close> ends on every header block.\<close>

lemma nva_loop_returns:
  "at_field ihd \<Longrightarrow> length inp < 2 ^ 32 \<Longrightarrow> \<exists>r. nva_loop mem h ihd inp res = Some r"
proof (induction "length inp" arbitrary: h ihd inp res rule: less_induct)
  case less
  show ?case
  proof (cases "http2_inflate_hd mem h ihd inp False")
    case (Inl e)
    then show ?thesis by (subst nva_loop.simps) simp
  next
    case (Inr x)
    obtain out h' ihd' where x: "x = (out, h', ihd')" by (cases x)
    show ?thesis
    proof (cases "io_rv out = -1 \<or> (the (io_flags out) AND HTTP2_INFLATE_EMIT = 0 \<and> drop (nat (io_rv out)) inp = [])")
      case True
      with Inr x show ?thesis by (subst nva_loop.simps) (auto simp: Let_def)
    next
      case False
      let ?inp = "drop (nat (io_rv out)) inp"
      have "at_field ihd' \<and> length ?inp < length inp"
        using inflate_hd_progress [OF Inr [unfolded x] less.prems(2,1)] False by blast
      with less have "\<exists>r. nva_loop mem h' ihd' ?inp res' = Some r" for res' by simp
      with Inr x show ?thesis by (subst nva_loop.simps) (auto simp: Let_def)
    qed
  qed
qed

text \<open>A block of indexed fields of the static table.\<close>

definition indexed_block :: "nat list \<Rightarrow> buffer" where
  "indexed_block is = concat (map (\<lambda>i. encode_length 0x80 (of_nat i + 1) 7) is)"

definition static_header :: "nat \<Rightarrow> header" where
  "static_header i = nv_header (ent_nv (static_table ! i))"

lemma nva_loop_indexed:
  "inflater_ok h ihd \<Longrightarrow> list_all (\<lambda>i. i < 61) is \<Longrightarrow>
     \<exists>nvs ihd'. nva_loop mem h ihd (indexed_block is) res = Some (Inr (res @ nvs, h, ihd'))
       \<and> map nv_header nvs = map static_header is \<and> ent_keep ihd' = None"
proof (induction "is" arbitrary: ihd res)
  case Nil
  have "inflate_loop mem h ihd [] False = Inr (Next h ihd [] False)" by (subst inflate_loop.simps) simp
  then have "http2_inflate_hd mem h ihd [] False
      = Inr (\<lparr>io_rv = 0, io_nv = None, io_token = None, io_flags = Some HTTP2_INFLATE_NONE\<rparr>, h, ihd)"
    using Nil by (simp add: http2_inflate_hd_def inflate_hd2_loop inflate_finish_def)
  then show ?case using Nil by (subst nva_loop.simps) (simp add: indexed_block_def inflater_ok_def)
next
  case (Cons i "is")
  let ?e = "encode_length 0x80 (of_nat i + 1) 7"
  have inv: "tbl_invar h (if_ctx ihd) None" "at_field ihd" and i: "i < 61 + length (dyn_table h (if_ctx ihd))"
    using Cons.prems by (auto simp: inflater_ok_def)
  from inflate_loop_indexed [OF inv(1) i inv(2), of mem "indexed_block is"] obtain ihd' nv token where
    run: "inflate_loop mem h ihd (?e @ indexed_block is) False = Inr (Emit h ihd' (indexed_block is) nv token)"
      "nv_header nv = static_header i" "if_ctx ihd' = if_ctx ihd" "if_state ihd' = HTTP2_STATE_OPCODE" "nvbufs ihd' = nvbufs ihd"
      "ent_keep ihd' = ent_keep ihd"
    using Cons.prems(2) by (auto simp: table_header_def static_header_def)
  have step: "http2_inflate_hd mem h ihd (?e @ indexed_block is) False
      = Inr (\<lparr>io_rv = int (length ?e), io_nv = Some nv, io_token = None, io_flags = Some HTTP2_INFLATE_EMIT\<rparr>, h, ihd')"
    using run(1) Cons.prems(1) by (simp add: http2_inflate_hd_def inflate_hd2_loop inflate_finish_def)
  have "inflater_ok h ihd'" using Cons.prems(1) run by (simp add: inflater_ok_def at_field_def)
  from Cons.IH [OF this, of "res @ [nv]"] Cons.prems(2) obtain nvs ihd'' where
    "nva_loop mem h ihd' (indexed_block is) (res @ [nv]) = Some (Inr ((res @ [nv]) @ nvs, h, ihd''))"
    "map nv_header nvs = map static_header is" "ent_keep ihd'' = None" by auto
  moreover have "indexed_block (i # is) = ?e @ indexed_block is" by (simp add: indexed_block_def)
  ultimately show ?case using run(2) step
    by (subst nva_loop.simps) (auto intro!: exI [of _ "nv # nvs"])
qed

lemma nva_indexed:
  assumes "\<forall>n. mem n" "list_all (\<lambda>i. i < 61) is" "length pri = 5" "fb_payload f = pri @ indexed_block is"
    and "unat (frame_hdr_length (fb_header f)) = length (fb_payload f)"
  shows "\<exists>nvs. frame_headers_nva mem f = Inr nvs \<and> map nv_header nvs = map static_header is"
proof -
  from http2_inflater_ctor_ok [OF assms(1), of "[]"] obtain ihd where
    ihd: "http2_inflater_ctor mem = Inr ihd" "inflater_ok [] ihd" by blast
  from nva_loop_indexed [OF ihd(2) assms(2), of mem "[]"] obtain nvs ihd' where
    "nva_loop mem [] ihd (indexed_block is) [] = Some (Inr (nvs, [], ihd'))" "map nv_header nvs = map static_header is" "ent_keep ihd' = None"
    by auto
  moreover have "\<not> frame_hdr_length (fb_header f) < 5" using assms(3-5) by (simp add: word_less_nat_alt)
  ultimately show ?thesis
    using ihd(1) assms(3-5) by (simp add: frame_headers_nva_def payload_size_def http2_inflater_dtor_def)
qed

subsection \<open>Properties\<close>

text \<open>C12. On every input of less than 2 GB the loop of \<^verbatim>\<open>parse_frames\<close> ends, and \<^verbatim>\<open>parse_frames\<close> is the specification of
  framing: nothing when the first nine bytes are not a valid header, and otherwise the frames that \<open>spec_frames\<close> cuts off, with its
  faults.\<close>

theorem parse_frames_total:
  assumes "length data < 2 ^ 31"
  shows "parse_frames_loop data (of_nat (length data)) 0 [] = Some (spec_frames data)
    \<and> parse_frames (Some data) (of_nat (length data)) =
        (if length data < 9 \<or> \<not> frame_hdr_IsValid (fb_header (wire_frame data)) then Inr [] else spec_frames data)"
  using parse_frames_loop_eq [of 0 data "[]"] parse_frames_eq [OF assms] assms by (cases "spec_frames data") simp_all

theorem parse_frames_total_witness:
  "parse_frames_loop [0, 0, 1, 0, 0, 0, 0, 0, 1, 7] (of_nat (length [0, 0, 1, 0, 0, 0, 0, 0, 1, 7 :: u8])) 0 []
      = Some (spec_frames [0, 0, 1, 0, 0, 0, 0, 0, 1, 7])
    \<and> parse_frames (Some [0, 0, 1, 0, 0, 0, 0, 0, 1, 7]) (of_nat (length [0, 0, 1, 0, 0, 0, 0, 0, 1, 7 :: u8])) =
        (if length [0, 0, 1, 0, 0, 0, 0, 0, 1, 7 :: u8] < 9 \<or> \<not> frame_hdr_IsValid (fb_header (wire_frame [0, 0, 1, 0, 0, 0, 0, 0, 1, 7]))
         then Inr [] else spec_frames [0, 0, 1, 0, 0, 0, 0, 0, 1, 7])"
  by (rule parse_frames_total) simp

text \<open>C13. Parsing is the exact inverse of writing: the result is a given non-empty list of frames precisely when the data is
  these frames one after the other, each with a payload of the size its header says and of a type the library has a class for, and
  the first with a valid header; and what \<^verbatim>\<open>raw_data\<close> writes for a valid frame of this kind is its part of the data.\<close>

theorem frames_round_trip:
  assumes "length data < 2 ^ 31" "fs \<noteq> []"
  shows "(parse_frames (Some data) (of_nat (length data)) = Inr fs \<longleftrightarrow>
      frame_hdr_IsValid (fb_header (hd fs)) \<and> list_all frame_ok fs \<and> concat (map frame_bytes fs) = data)
    \<and> (\<forall>f. frame_ok f \<and> frame_hdr_IsValid (fb_header f) \<longrightarrow> raw_data f = Inr (frame_bytes f))"
proof -
  have first: "9 \<le> length data \<and> fb_header (wire_frame data) = fb_header (hd fs)" if "concat (map frame_bytes fs) = data"
    using that assms(2) by (cases fs) (auto simp: frame_bytes_def wire_frame_header)
  show ?thesis
    using parse_frames_eq [OF assms(1)] first spec_frames_write [of fs] spec_frames_read [of data fs] assms(2) raw_data_ok by auto
qed

theorem frames_round_trip_witness:
  defines "f \<equiv> \<lparr>fb_header = frame_hdr_ctor 0 0 1 1, fb_payload = [7]\<rparr>"
  shows "parse_frames (Some [0, 0, 1, 0, 0, 0, 0, 0, 1, 7]) 10 = Inr [f] \<and> raw_data f = Inr [0, 0, 1, 0, 0, 0, 0, 0, 1, 7]"
proof -
  have "frame_bytes f = [0, 0, 1, 0, 0, 0, 0, 0, 1, 7]" "frame_ok f" "frame_hdr_IsValid (fb_header f)"
    unfolding f_def by code_simp+
  then show ?thesis using frames_round_trip [of "[0, 0, 1, 0, 0, 0, 0, 0, 1, 7]" "[f]"] by simp
qed

text \<open>C14. Three kinds of input defeat the parser after one or more frames that are well formed: between one and eight stray bytes make it
  read beyond the end of the data, because a header is copied whenever a single byte is left; a frame whose header announces more
  bytes of payload than are left ends the process, at the check on the length; and so does a frame of one of the types
  PUSH_PROMISE, PING, WINDOW_UPDATE and CONTINUATION, or of an unknown type.\<close>

theorem parse_frames_faults:
  assumes "frame_hdr_IsValid (fb_header (hd fs))" "fs \<noteq> []" "list_all frame_ok fs"
    and "length (concat (map frame_bytes fs) @ tail) < 2 ^ 31"
  shows "(1 \<le> length tail \<and> length tail \<le> 8 \<longrightarrow>
      parse_frames (Some (concat (map frame_bytes fs) @ tail)) (of_nat (length (concat (map frame_bytes fs) @ tail))) = Inl Undefined)
    \<and> (9 \<le> length tail \<and> length tail < 9 + wire_length tail \<longrightarrow>
      parse_frames (Some (concat (map frame_bytes fs) @ tail)) (of_nat (length (concat (map frame_bytes fs) @ tail))) = Inl Terminated)
    \<and> (9 \<le> length tail \<and> tail ! 3 \<notin> {0, 1, 2, 3, 4, 7} \<longrightarrow>
      parse_frames (Some (concat (map frame_bytes fs) @ tail)) (of_nat (length (concat (map frame_bytes fs) @ tail))) = Inl Terminated)"
proof -
  have "spec_frames (concat (map frame_bytes gs) @ tail) = bind_exec (spec_frames tail) (\<lambda>hs. Inr (gs @ hs))" if "list_all frame_ok gs" for gs
    using that
  proof (induction gs)
    case Nil
    then show ?case by (cases "spec_frames tail") simp_all
  next
    case (Cons g gs)
    then show ?case by (cases g, cases "spec_frames tail") (simp_all add: frame_bytes_def spec_frames_header frame_ok_def)
  qed
  moreover have "spec_frames tail = Inl Undefined" if "1 \<le> length tail" "length tail \<le> 8"
    using that by (subst spec_frames.simps) auto
  moreover have "spec_frames tail = Inl Terminated" if "9 \<le> length tail" "length tail < 9 + wire_length tail"
    using that by (subst spec_frames.simps) auto
  moreover have "spec_frames tail = Inl Terminated" if "9 \<le> length tail" "tail ! 3 \<notin> {0, 1, 2, 3, 4, 7}"
    using that by (subst spec_frames.simps) (auto simp: supported_type_def)
  moreover have "9 \<le> length (concat (map frame_bytes fs) @ tail)
      \<and> fb_header (wire_frame (concat (map frame_bytes fs) @ tail)) = fb_header (hd fs)"
    using assms(2) by (cases fs) (auto simp: frame_bytes_def wire_frame_header)
  ultimately show ?thesis using parse_frames_eq [OF assms(4)] assms(1,3) by auto
qed

theorem parse_frames_faults_witness:
  defines "f \<equiv> \<lparr>fb_header = frame_hdr_ctor 0 0 1 1, fb_payload = [7]\<rparr>"
  shows "parse_frames (Some (frame_bytes f @ [0])) 11 = Inl Undefined
    \<and> parse_frames (Some (frame_bytes f @ [0, 0, 2, 0, 0, 0, 0, 0, 1, 7])) 20 = Inl Terminated"
proof -
  have "list_all frame_ok [f]" "frame_hdr_IsValid (fb_header (hd [f]))" "length (concat (map frame_bytes [f]) @ [0]) = 11"
    "length (concat (map frame_bytes [f]) @ [0, 0, 2, 0, 0, 0, 0, 0, 1, 7]) = 20" "wire_length [0, 0, 2, 0, 0, 0, 0, 0, 1, 7] = 2"
    by (simp_all add: f_def frame_bytes_def frame_ok_def supported_type_def frame_hdr_IsValid_def frame_hdr_ctor_def frame_hdr_length_def and_255_eq wire_length_def)
  with parse_frames_faults [of "[f]" "[0]"] parse_frames_faults [of "[f]" "[0, 0, 2, 0, 0, 0, 0, 0, 1, 7]"] show ?thesis by simp
qed

text \<open>Stream identifiers of more than 24 bits are not carried: writing an identifier and reading it back gives it again exactly
  when its bits 24 to 30 are clear (the top byte is shifted by 31 instead of 24), and the identifier read from a header is the one
  of RFC 9113 exactly when the low seven bits of its top byte are clear.\<close>

lemma stream_id_24_bits:
  "(sid_id (sid_ctor n) = n \<longleftrightarrow> unat n mod 2 ^ 31 < 2 ^ 24)
   \<and> (sid_id s = rfc_stream_id s \<longleftrightarrow> unat (id_0 s) mod 128 = 0)"
  by (rule conjI [OF sid_round_trip_iff sid_id_rfc])

text \<open>\<^verbatim>\<open>frame_headers::nva\<close> cannot hang: from a newly constructed inflater its loop, which has no condition of its own, ends on
  every sequence of bytes, because each call of the inflater fails, consumes everything or emits a header and consumes at least one
  byte.\<close>

lemma nva_terminates:
  assumes "http2_inflater_ctor mem = Inr ihd" and "length inp < 2 ^ 32"
  shows "\<exists>r. nva_loop mem [] ihd inp [] = Some r"
proof (rule nva_loop_returns [OF _ assms(2)])
  show "at_field ihd" using assms(1) by (auto simp: http2_inflater_ctor_def bind_exec_Inr_iff at_field_def)
qed

text \<open>A header block of indexed fields of the static table is read to these headers, in order, when it is preceded by five bytes
  (a stream dependency and a weight). The five bytes are skipped whatever the flags of the frame are, also when it has no
  priority field.\<close>

lemma nva_reads_indexed_block:
  assumes "\<forall>n. mem n" "list_all (\<lambda>i. i < 61) is" "length pri = 5" "fb_payload f = pri @ indexed_block is"
    and "unat (frame_hdr_length (fb_header f)) = length (fb_payload f)"
  shows "\<exists>nvs. frame_headers_nva mem f = Inr nvs \<and> map nv_header nvs = map static_header is"
  by (rule nva_indexed [OF assms])

end
