(* ===== verification/Numbers.thy ===== *)
theory Numbers
  imports Prelude
begin

text \<open>
  Numbers as text: \<^verbatim>\<open>src/string_number_conversions.cpp\<close> and the numeric part of \<^verbatim>\<open>src/convert2string.cpp\<close>, which
  contains the same templates once more.

  The traits of a conversion (base, smallest and largest value, signedness) are a record; the value being built is an integer, and
  that it stays inside the range of its type is a lemma (\<open>Base_loop_range\<close>), so no operation of the loop wraps. \<^verbatim>\<open>char\<close> is signed.
  A parse results in the truth value that is returned and in the value left in \<^verbatim>\<open>*output\<close>.
\<close>

subsection \<open>Parsing\<close>

record traits =
  kBase :: int
  t_min :: int
  t_max :: int
  t_signed :: bool

definition signed_traits :: "nat \<Rightarrow> int \<Rightarrow> traits" where
  "signed_traits w base = \<lparr>kBase = base, t_min = - (2 ^ (w - 1)), t_max = 2 ^ (w - 1) - 1, t_signed = True\<rparr>"

definition unsigned_traits :: "nat \<Rightarrow> int \<Rightarrow> traits" where
  "unsigned_traits w base = \<lparr>kBase = base, t_min = 0, t_max = 2 ^ w - 1, t_signed = False\<rparr>"

definition CharToDigit :: "int \<Rightarrow> u8 \<Rightarrow> int option" where
  "CharToDigit base b =
     (let c = uint b in
      if base \<le> 10 then (if 48 \<le> c \<and> c < 48 + base then Some (c - 48) else None)
      else if 48 \<le> c \<and> c \<le> 57 then Some (c - 48)
      else if 97 \<le> c \<and> c < 97 + base - 10 then Some (c - 97 + 10)
      else if 65 \<le> c \<and> c < 65 + base - 10 then Some (c - 65 + 10)
      else None)"

definition LocalIsWhitespace :: "u8 \<Rightarrow> bool" where
  "LocalIsWhitespace b \<longleftrightarrow> b = 32 \<or> (9 \<le> b \<and> b \<le> 13)"

definition Positive_CheckBounds :: "traits \<Rightarrow> int \<Rightarrow> int \<Rightarrow> bool" where
  "Positive_CheckBounds t output new_digit \<longleftrightarrow>
     \<not> (output > t_max t div kBase t \<or> (output = t_max t div kBase t \<and> new_digit > t_max t mod kBase t))"

text \<open>Division truncates towards zero: the quotient and the remainder of the smallest value are those of its absolute value,
  negated.\<close>

definition Negative_CheckBounds :: "traits \<Rightarrow> int \<Rightarrow> int \<Rightarrow> bool" where
  "Negative_CheckBounds t output new_digit \<longleftrightarrow>
     \<not> (output < - (- t_min t div kBase t)
        \<or> (output = - (- t_min t div kBase t) \<and> new_digit > 0 - - (- t_min t mod kBase t)))"

fun Base_loop :: "traits \<Rightarrow> bool \<Rightarrow> bool \<Rightarrow> int \<Rightarrow> buffer \<Rightarrow> bool \<times> int" where
  "Base_loop t neg first output [] = (True, output)"
| "Base_loop t neg first output (c # cs) =
     (case CharToDigit (kBase t) c of
        None \<Rightarrow> (False, output)
      | Some new_digit \<Rightarrow>
          if \<not> first \<and> \<not> (if neg then Negative_CheckBounds t output new_digit else Positive_CheckBounds t output new_digit)
          then (False, if neg then t_min t else t_max t)
          else
            let output = (if first then output else output * kBase t)
            in Base_loop t neg False (if neg then output - new_digit else output + new_digit) cs)"

definition Base_Invoke :: "traits \<Rightarrow> bool \<Rightarrow> buffer \<Rightarrow> bool \<times> int" where
  "Base_Invoke t neg cs =
     (if cs = [] then (False, 0)
      else Base_loop t neg True 0
             (if kBase t = 16 \<and> 2 < length cs \<and> cs ! 0 = 48 \<and> (cs ! 1 = 120 \<or> cs ! 1 = 88) then drop 2 cs else cs))"

fun skip_whitespace :: "buffer \<Rightarrow> bool \<times> buffer" where
  "skip_whitespace [] = (True, [])"
| "skip_whitespace (c # cs) = (if LocalIsWhitespace c then (False, snd (skip_whitespace cs)) else (True, c # cs))"

definition IteratorRangeToNumber :: "traits \<Rightarrow> buffer \<Rightarrow> bool \<times> int" where
  "IteratorRangeToNumber t s =
     (case skip_whitespace s of (valid, cs) \<Rightarrow>
        if cs \<noteq> [] \<and> hd cs = 45 then
          (if \<not> t_signed t then (False, 0)
           else case Base_Invoke t True (tl cs) of (ok, v) \<Rightarrow> (valid \<and> ok, v))
        else
          case Base_Invoke t False (if cs \<noteq> [] \<and> hd cs = 43 then tl cs else cs) of (ok, v) \<Rightarrow> (valid \<and> ok, v))"

text \<open>\<^verbatim>\<open>DoStringToInt\<close> and \<^verbatim>\<open>DoBytesToInt\<close> differ in the container only; a failed conversion leaves the caller's variable alone.\<close>

definition DoStringToInt :: "traits \<Rightarrow> buffer \<Rightarrow> int option" where
  "DoStringToInt t s = (case IteratorRangeToNumber t s of (ok, v) \<Rightarrow> if ok then Some v else None)"

definition StringToInt :: "buffer \<Rightarrow> bool \<times> int" where "StringToInt s = IteratorRangeToNumber (signed_traits 32 10) s"
definition StringToUint :: "buffer \<Rightarrow> bool \<times> int" where "StringToUint s = IteratorRangeToNumber (unsigned_traits 32 10) s"
definition StringToInt64 :: "buffer \<Rightarrow> bool \<times> int" where "StringToInt64 s = IteratorRangeToNumber (signed_traits 64 10) s"
definition StringToUint64 :: "buffer \<Rightarrow> bool \<times> int" where "StringToUint64 s = IteratorRangeToNumber (unsigned_traits 64 10) s"
definition StringToSizeT :: "buffer \<Rightarrow> bool \<times> int" where "StringToSizeT s = IteratorRangeToNumber (unsigned_traits 64 10) s"
definition HexStringToInt :: "buffer \<Rightarrow> bool \<times> int" where "HexStringToInt s = IteratorRangeToNumber (signed_traits 32 16) s"
definition HexStringToUInt :: "buffer \<Rightarrow> bool \<times> int" where "HexStringToUInt s = IteratorRangeToNumber (unsigned_traits 32 16) s"
definition HexStringToInt64 :: "buffer \<Rightarrow> bool \<times> int" where "HexStringToInt64 s = IteratorRangeToNumber (signed_traits 64 16) s"
definition HexStringToUInt64 :: "buffer \<Rightarrow> bool \<times> int" where "HexStringToUInt64 s = IteratorRangeToNumber (unsigned_traits 64 16) s"

text \<open>The overloads of \<^verbatim>\<open>ConvertFromString\<close>; \<^verbatim>\<open>ConvertFromBytes\<close> has the same ones.\<close>

definition ConvertFromString_char :: "buffer \<Rightarrow> int option" where "ConvertFromString_char s = DoStringToInt (signed_traits 8 10) s"
definition ConvertFromString_uchar :: "buffer \<Rightarrow> int option" where "ConvertFromString_uchar s = DoStringToInt (unsigned_traits 8 10) s"
definition ConvertFromString_short :: "buffer \<Rightarrow> int option" where "ConvertFromString_short s = DoStringToInt (signed_traits 16 10) s"
definition ConvertFromString_ushort :: "buffer \<Rightarrow> int option" where "ConvertFromString_ushort s = DoStringToInt (unsigned_traits 16 10) s"
definition ConvertFromString_int :: "buffer \<Rightarrow> int option" where "ConvertFromString_int s = DoStringToInt (signed_traits 32 10) s"
definition ConvertFromString_uint :: "buffer \<Rightarrow> int option" where "ConvertFromString_uint s = DoStringToInt (unsigned_traits 32 10) s"
definition ConvertFromString_long :: "buffer \<Rightarrow> int option" where "ConvertFromString_long s = DoStringToInt (signed_traits 64 10) s"
definition ConvertFromString_ulong :: "buffer \<Rightarrow> int option" where "ConvertFromString_ulong s = DoStringToInt (unsigned_traits 64 10) s"
definition ConvertFromString_longlong :: "buffer \<Rightarrow> int option" where "ConvertFromString_longlong s = DoStringToInt (signed_traits 64 10) s"
definition ConvertFromString_ulonglong :: "buffer \<Rightarrow> int option" where "ConvertFromString_ulonglong s = DoStringToInt (unsigned_traits 64 10) s"

subsection \<open>Printing\<close>

text \<open>The \<^verbatim>\<open>do\<close> loop fills the buffer from its end.\<close>

function digits_loop :: "nat \<Rightarrow> buffer \<Rightarrow> buffer" where
  "digits_loop res it =
     (let it = of_nat (res mod 10 + 48) # it;
          res = res div 10
      in if res \<noteq> 0 then digits_loop res it else it)"
  by pat_completeness auto
termination by (relation "measure fst") auto

declare digits_loop.simps [simp del]

text \<open>For the signed types the value is negated in its own type, which overflows for the smallest one.\<close>

definition IntToString :: "nat \<Rightarrow> bool \<Rightarrow> int \<Rightarrow> buffer exec" where
  "IntToString w neg value =
     (let is_neg = neg \<and> value < 0 in
      if is_neg \<and> - value \<ge> 2 ^ (w - 1) then Inl Undefined
      else
        let it = digits_loop (nat (if is_neg then - value else value)) []
        in Inr (if is_neg then 45 # it else it))"

definition NumberToString_int :: "int \<Rightarrow> buffer exec" where "NumberToString_int v = IntToString 32 True v"
definition NumberToString_uint :: "int \<Rightarrow> buffer exec" where "NumberToString_uint v = IntToString 32 False v"
definition NumberToString_long :: "int \<Rightarrow> buffer exec" where "NumberToString_long v = IntToString 64 True v"
definition NumberToString_ulong :: "int \<Rightarrow> buffer exec" where "NumberToString_ulong v = IntToString 64 False v"

subsection \<open>What a digit string denotes\<close>

fun digits_value :: "int \<Rightarrow> int \<Rightarrow> buffer \<Rightarrow> int option" where
  "digits_value base acc [] = Some acc"
| "digits_value base acc (c # cs) =
     (case CharToDigit base c of None \<Rightarrow> None | Some d \<Rightarrow> digits_value base (acc * base + d) cs)"

lemma CharToDigit_range: "CharToDigit base c = Some d \<Longrightarrow> 0 \<le> d \<and> d < base"
  by (auto simp: CharToDigit_def Let_def split: if_splits)

lemma digits_value_ge: "digits_value base acc cs = Some v \<Longrightarrow> 2 \<le> base \<Longrightarrow> 0 \<le> acc \<Longrightarrow> acc \<le> v"
proof (induction base acc cs rule: digits_value.induct)
  case (2 base acc c cs)
  then obtain d where d: "CharToDigit base c = Some d" "digits_value base (acc * base + d) cs = Some v"
    by (auto split: option.splits)
  have "acc \<le> acc * base + d" using CharToDigit_range [OF d(1)] 2(3,4) by (smt (verit) mult_le_cancel_left1)
  with 2 d show ?case by auto
qed simp

text \<open>The guard before each multiplication is the bound on the result.\<close>

lemma Positive_CheckBounds_iff:
  assumes "2 \<le> kBase t" "0 \<le> d" "d < kBase t"
  shows "Positive_CheckBounds t v d \<longleftrightarrow> v * kBase t + d \<le> t_max t"
proof -
  let ?b = "kBase t" and ?q = "t_max t div kBase t" and ?r = "t_max t mod kBase t"
  have m: "t_max t = ?q * ?b + ?r" "0 \<le> ?r" "?r < ?b" using assms(1) by auto
  have step: "x * ?b + ?b \<le> y * ?b" if "x < y" for x y
    using mult_right_mono [of "x + 1" y ?b] that assms(1) by (simp add: distrib_right)
  consider "v < ?q" | "v = ?q" | "?q < v" by linarith
  then show ?thesis
  proof cases
    case 1
    from step [OF this] m assms(3) have "v * ?b + d \<le> t_max t" by linarith
    with 1 show ?thesis by (simp add: Positive_CheckBounds_def)
  next
    case 2
    with m(1) have "v * ?b + d \<le> t_max t \<longleftrightarrow> d \<le> ?r" by (metis add_le_cancel_left)
    with 2 show ?thesis by (auto simp: Positive_CheckBounds_def)
  next
    case 3
    from step [OF this] m assms(2) have "\<not> v * ?b + d \<le> t_max t" by linarith
    with 3 show ?thesis by (simp add: Positive_CheckBounds_def)
  qed
qed

text \<open>Negative numbers are parsed as the positive ones of a type whose largest value is the absolute value of the smallest.\<close>

lemma Negative_CheckBounds_eq: "Negative_CheckBounds t v d = Positive_CheckBounds (t\<lparr>t_max := - t_min t\<rparr>) (- v) d"
  by (auto simp: Negative_CheckBounds_def Positive_CheckBounds_def)

lemma Base_loop_neg:
  "Base_loop t True first v cs =
     (case Base_loop (t\<lparr>t_max := - t_min t\<rparr>) False first (- v) cs of (ok, r) \<Rightarrow> (ok, - r))"
proof (induction cs arbitrary: first v)
  case (Cons c cs)
  have "- (v * b) + d = - (v * b - d)" "- v + d = - (v - d)" for b d by simp_all
  then show ?case by (simp add: Negative_CheckBounds_eq Cons.IH Let_def split: option.split)
qed simp

lemma Base_loop_pos:
  assumes "2 \<le> kBase t" "0 \<le> v"
  shows "case Base_loop t False False v cs of (ok, r) \<Rightarrow>
      (case digits_value (kBase t) v cs of
         None \<Rightarrow> \<not> ok
       | Some n \<Rightarrow> if v \<le> t_max t then (ok \<longleftrightarrow> n \<le> t_max t) \<and> (ok \<longrightarrow> r = n) else True)"
  using assms(2)
proof (induction cs arbitrary: v)
  case Nil
  then show ?case by simp
next
  case (Cons c cs)
  show ?case
  proof (cases "CharToDigit (kBase t) c")
    case None
    then show ?thesis by simp
  next
    case (Some d)
    let ?w = "v * kBase t + d"
    note d = CharToDigit_range [OF Some]
    have w: "0 \<le> ?w" using Cons.prems assms(1) d by simp
    show ?thesis
    proof (cases "?w \<le> t_max t")
      case True
      with Cons.IH [OF w] Some d assms(1) show ?thesis
        by (auto simp: Positive_CheckBounds_iff Let_def split: option.splits prod.splits)
    next
      case False
      with Some d assms(1) digits_value_ge [OF _ assms(1) w] show ?thesis
        by (fastforce simp: Positive_CheckBounds_iff split: option.splits)
    qed
  qed
qed

subsection \<open>What is accepted\<close>

lemma Base_loop_range:
  "2 \<le> kBase t \<Longrightarrow> kBase t \<le> t_max t + 1 \<Longrightarrow> t_min t \<le> 0 \<Longrightarrow> (neg \<longrightarrow> kBase t \<le> 1 - t_min t)
    \<Longrightarrow> t_min t \<le> v \<Longrightarrow> v \<le> t_max t \<Longrightarrow> (if neg then v \<le> 0 else 0 \<le> v) \<Longrightarrow> (first \<longrightarrow> v = 0)
    \<Longrightarrow> t_min t \<le> snd (Base_loop t neg first v cs) \<and> snd (Base_loop t neg first v cs) \<le> t_max t"
proof (induction t neg first v cs rule: Base_loop.induct)
  case (2 t neg first v c cs)
  note t = "2.prems"(1,2,3,4)
  show ?case
  proof (cases "CharToDigit (kBase t) c")
    case (Some d)
    note d_range = CharToDigit_range [OF Some]
    have d: "0 \<le> d" "d < kBase t" using d_range by auto
    let ?o = "if first then v else v * kBase t"
    let ?w = "if neg then ?o - d else ?o + d"
    let ?ok = "first \<or> (if neg then Negative_CheckBounds t v d else Positive_CheckBounds t v d)"
    show ?thesis
    proof (cases ?ok)
      case True
      define p where "p = v * kBase t"
      have p: "0 \<le> v \<Longrightarrow> 0 \<le> p" "v \<le> 0 \<Longrightarrow> p \<le> 0"
        using t by (simp_all add: p_def mult_nonpos_nonneg)
      have "Positive_CheckBounds t v d \<longleftrightarrow> p + d \<le> t_max t" "Negative_CheckBounds t v d \<longleftrightarrow> - p + d \<le> - t_min t"
        using Positive_CheckBounds_iff [OF t(1) d, of v] Positive_CheckBounds_iff [of "t\<lparr>t_max := - t_min t\<rparr>" d "- v"] t d
        by (simp_all add: Negative_CheckBounds_eq p_def)
      with p True d t "2.prems" have "t_min t \<le> ?w \<and> ?w \<le> t_max t \<and> (if neg then ?w \<le> 0 else 0 \<le> ?w)"
        unfolding p_def [symmetric] by (cases neg; cases first) auto
      with "2.IH" [OF Some] True Some t show ?thesis by (auto simp: Let_def)
    qed (use Some "2.prems" t in \<open>auto split: if_splits\<close>)
  qed (use "2.prems" in simp)
qed simp

definition hex_prefix :: "traits \<Rightarrow> buffer \<Rightarrow> bool" where
  "hex_prefix t cs \<longleftrightarrow> kBase t = 16 \<and> 2 < length cs \<and> cs ! 0 = 48 \<and> (cs ! 1 = 120 \<or> cs ! 1 = 88)"

lemma Base_Invoke_pos:
  assumes "2 \<le> kBase t" "kBase t \<le> t_max t + 1" "\<not> hex_prefix t cs"
  shows "Base_Invoke t False cs = (True, v) \<longleftrightarrow> cs \<noteq> [] \<and> digits_value (kBase t) 0 cs = Some v \<and> v \<le> t_max t"
proof (cases cs)
  case Nil
  then show ?thesis by (simp add: Base_Invoke_def)
next
  case (Cons c cs')
  have inv: "Base_Invoke t False cs = Base_loop t False True 0 cs"
    using assms(3) Cons by (auto simp: Base_Invoke_def hex_prefix_def)
  show ?thesis
  proof (cases "CharToDigit (kBase t) c")
    case None
    with Cons inv show ?thesis by simp
  next
    case (Some d)
    note CharToDigit_range [OF Some]
    with assms Base_loop_pos [of t d cs'] inv Some Cons show ?thesis by (auto split: option.splits prod.splits)
  qed
qed

lemma Base_Invoke_neg:
  assumes "2 \<le> kBase t" "kBase t \<le> - t_min t + 1" "\<not> hex_prefix t cs"
  shows "Base_Invoke t True cs = (True, v) \<longleftrightarrow> cs \<noteq> [] \<and> digits_value (kBase t) 0 cs = Some (- v) \<and> t_min t \<le> v"
proof -
  have "Base_Invoke t True cs = (case Base_Invoke (t\<lparr>t_max := - t_min t\<rparr>) False cs of (ok, r) \<Rightarrow> (ok, - r))"
    by (simp add: Base_Invoke_def Base_loop_neg)
  then have "Base_Invoke t True cs = (True, v) \<longleftrightarrow> Base_Invoke (t\<lparr>t_max := - t_min t\<rparr>) False cs = (True, - v)"
    by (auto split: prod.splits)
  also have "\<dots> \<longleftrightarrow> cs \<noteq> [] \<and> digits_value (kBase t) 0 cs = Some (- v) \<and> t_min t \<le> v"
    using Base_Invoke_pos [of "t\<lparr>t_max := - t_min t\<rparr>" cs "- v"] assms by (simp add: hex_prefix_def)
  finally show ?thesis .
qed

definition decimal :: "traits \<Rightarrow> bool" where
  "decimal t \<longleftrightarrow> kBase t = 10 \<and> 9 \<le> t_max t \<and> (if t_signed t then t_min t \<le> - 9 else t_min t = 0)"

lemma decimal_traits [simp]:
  "5 \<le> w \<Longrightarrow> decimal (signed_traits w 10)" "4 \<le> w \<Longrightarrow> decimal (unsigned_traits w 10)"
proof -
  have "(2 :: int) ^ 4 \<le> 2 ^ (w - 1)" if "5 \<le> w" using that by (intro power_increasing) simp_all
  then show "5 \<le> w \<Longrightarrow> decimal (signed_traits w 10)" by (simp add: decimal_def signed_traits_def)
  have "(2 :: int) ^ 4 \<le> 2 ^ w" if "4 \<le> w" using that by (intro power_increasing) simp_all
  then show "4 \<le> w \<Longrightarrow> decimal (unsigned_traits w 10)" by (simp add: decimal_def unsigned_traits_def)
qed

text \<open>An optional sign (a minus only for signed types) and at least one digit, with a value in the range of the type.\<close>

definition denotes :: "traits \<Rightarrow> buffer \<Rightarrow> int \<Rightarrow> bool" where
  "denotes t s v \<longleftrightarrow>
     (\<exists>sgn ds. s = sgn @ ds \<and> ds \<noteq> [] \<and> t_min t \<le> v \<and> v \<le> t_max t
        \<and> (if sgn = [45] then t_signed t \<and> digits_value (kBase t) 0 ds = Some (- v)
           else (sgn = [] \<or> sgn = [43]) \<and> digits_value (kBase t) 0 ds = Some v))"

lemma digit_char:
  assumes "digits_value 10 0 (c # cs) = Some v"
  shows "48 \<le> uint c" "uint c \<le> 57" "\<not> LocalIsWhitespace c" "c \<noteq> 45" "c \<noteq> 43"
proof -
  show r: "48 \<le> uint c" "uint c \<le> 57" using assms by (auto simp: CharToDigit_def Let_def split: option.splits if_splits)
  then have "48 \<le> unat c" "unat c \<le> 57" by (simp_all flip: nat_uint_eq)
  then show "\<not> LocalIsWhitespace c" "c \<noteq> 45" "c \<noteq> 43"
    by (auto simp: LocalIsWhitespace_def word_le_nat_alt)
qed

lemma not_whitespace_sign: "\<not> LocalIsWhitespace 45" "\<not> LocalIsWhitespace 43"
  by (simp_all add: LocalIsWhitespace_def)

lemma denotes_hd:
  assumes "denotes t s v" "kBase t = 10"
  shows "s \<noteq> [] \<and> \<not> LocalIsWhitespace (hd s)"
proof -
  from assms obtain sgn c ds n where s: "s = sgn @ c # ds" "digits_value 10 0 (c # ds) = Some n" "sgn = [] \<or> sgn = [45] \<or> sgn = [43]"
    unfolding denotes_def by (metis neq_Nil_conv)
  then show ?thesis using digit_char(3) [OF s(2)] not_whitespace_sign by auto
qed

lemma denotes_Cons:
  assumes "kBase t = 10"
  shows "denotes t (c # cs) v \<longleftrightarrow> t_min t \<le> v \<and> v \<le> t_max t
    \<and> (if c = 45 then t_signed t \<and> cs \<noteq> [] \<and> digits_value 10 0 cs = Some (- v)
       else if c = 43 then cs \<noteq> [] \<and> digits_value 10 0 cs = Some v
       else digits_value 10 0 (c # cs) = Some v)" (is "_ \<longleftrightarrow> ?r")
proof
  assume "denotes t (c # cs) v"
  then obtain sgn ds where d: "c # cs = sgn @ ds" "ds \<noteq> []" "t_min t \<le> v" "v \<le> t_max t"
    "if sgn = [45] then t_signed t \<and> digits_value 10 0 ds = Some (- v)
     else (sgn = [] \<or> sgn = [43]) \<and> digits_value 10 0 ds = Some v"
    unfolding denotes_def assms by blast
  show ?r
  proof (cases "sgn = []")
    case True
    with d have "digits_value 10 0 (c # cs) = Some v" by simp
    with digit_char(4,5) [OF this] d(3,4) show ?thesis by simp
  next
    case False
    with d show ?thesis by (auto split: if_splits)
  qed
next
  assume r: ?r
  show "denotes t (c # cs) v"
    unfolding denotes_def assms using r
    by (intro exI [of _ "if c = 45 \<or> c = 43 then [c] else []"] exI [of _ "if c = 45 \<or> c = 43 then cs else c # cs"]) (auto split: if_splits)
qed

lemma skip_whitespace_id: "cs \<noteq> [] \<Longrightarrow> \<not> LocalIsWhitespace (hd cs) \<Longrightarrow> skip_whitespace cs = (True, cs)"
  by (cases cs) simp_all

lemma DoStringToInt_exact:
  assumes "decimal t"
  shows "DoStringToInt t s = Some v \<longleftrightarrow> denotes t s v"
proof -
  have t: "kBase t = 10" "2 \<le> kBase t" "kBase t \<le> t_max t + 1" "t_min t \<le> 0"
    using assms by (auto simp: decimal_def split: if_splits)
  have hx: "\<not> hex_prefix t cs" for cs using t(1) by (simp add: hex_prefix_def)
  have ge: "0 \<le> n" if "digits_value 10 0 ds = Some n" for ds n using digits_value_ge [OF that] by simp
  show ?thesis
  proof (cases "s = [] \<or> LocalIsWhitespace (hd s)")
    case True
    then have "DoStringToInt t s = None"
      by (cases s) (auto simp: DoStringToInt_def IteratorRangeToNumber_def Base_Invoke_def split: prod.splits)
    moreover have "\<not> denotes t s v" using True denotes_hd [OF _ t(1), of s v] by blast
    ultimately show ?thesis by simp
  next
    case False
    then have ws: "skip_whitespace s = (True, s)" by (simp add: skip_whitespace_id)
    obtain c cs where s: "s = c # cs" using False by (cases s) auto
    consider "c = 45" | "c = 43" | "c \<noteq> 45" "c \<noteq> 43" by blast
    then show ?thesis
    proof cases
      case 1
      have "DoStringToInt t s = Some v \<longleftrightarrow> t_signed t \<and> Base_Invoke t True cs = (True, v)"
        using 1 s ws by (auto simp: DoStringToInt_def IteratorRangeToNumber_def split: prod.splits)
      also have "\<dots> \<longleftrightarrow> t_signed t \<and> cs \<noteq> [] \<and> digits_value 10 0 cs = Some (- v) \<and> t_min t \<le> v"
        using Base_Invoke_neg [of t cs v] hx t assms by (auto simp: decimal_def)
      also have "\<dots> \<longleftrightarrow> denotes t s v"
        using 1 s t ge [of cs "- v"] assms by (auto simp: denotes_Cons decimal_def simp del: digits_value.simps)
      finally show ?thesis .
    next
      case 2
      have "DoStringToInt t s = Some v \<longleftrightarrow> Base_Invoke t False cs = (True, v)"
        using 2 s ws by (auto simp: DoStringToInt_def IteratorRangeToNumber_def split: prod.splits)
      also have "\<dots> \<longleftrightarrow> cs \<noteq> [] \<and> digits_value 10 0 cs = Some v \<and> v \<le> t_max t"
        using Base_Invoke_pos [of t cs v] hx t by simp
      also have "\<dots> \<longleftrightarrow> denotes t s v"
        using 2 s t ge [of cs v] by (auto simp: denotes_Cons simp del: digits_value.simps)
      finally show ?thesis .
    next
      case 3
      have "DoStringToInt t s = Some v \<longleftrightarrow> Base_Invoke t False s = (True, v)"
        using 3 s ws by (auto simp: DoStringToInt_def IteratorRangeToNumber_def split: prod.splits)
      also have "\<dots> \<longleftrightarrow> digits_value 10 0 s = Some v \<and> v \<le> t_max t"
        using Base_Invoke_pos [of t s v] hx t s by simp
      also have "\<dots> \<longleftrightarrow> denotes t s v"
        using 3 s t ge [of s v] by (auto simp: denotes_Cons simp del: digits_value.simps)
      finally show ?thesis .
    qed
  qed
qed

subsection \<open>What is printed\<close>

lemma digits_loop_append: "digits_loop n it = digits_loop n [] @ it"
proof (induction n arbitrary: it rule: less_induct)
  case (less n)
  let ?c = "of_nat (n mod 10 + 48) :: u8"
  have step: "digits_loop n it = (if n div 10 = 0 then ?c # it else digits_loop (n div 10) (?c # it))" for it
    by (subst digits_loop.simps) (simp add: Let_def)
  show ?case
  proof (cases "n div 10 = 0")
    case True
    then show ?thesis unfolding step by simp
  next
    case False
    then have "n div 10 < n" by auto
    note less [OF this, of "?c # it"] less [OF this, of "[?c]"]
    with False show ?thesis unfolding step by simp
  qed
qed

lemma digits_loop_value: "digits_value 10 0 (digits_loop n []) = Some (int n)"
proof (induction n rule: less_induct)
  case (less n)
  have app: "digits_value 10 a (ds @ [c]) = (case digits_value 10 a ds of None \<Rightarrow> None | Some v \<Rightarrow> digits_value 10 v [c])" for a ds c
    by (induction ds arbitrary: a) (auto split: option.splits)
  have "uint (of_nat (n mod 10 + 48) :: u8) = int (n mod 10) + 48"
    by (simp add: unsigned_of_nat take_bit_nat_eq_self del: of_nat_add)
  then have c: "CharToDigit 10 (of_nat (n mod 10 + 48)) = Some (int (n mod 10))"
    by (simp add: CharToDigit_def)
  show ?case
  proof (cases "n div 10 = 0")
    case True
    with c show ?thesis by (subst digits_loop.simps) simp
  next
    case False
    then have "digits_loop n [] = digits_loop (n div 10) [] @ [of_nat (n mod 10 + 48)]"
      by (subst digits_loop.simps) (simp add: Let_def, metis digits_loop_append)
    moreover have "digits_value 10 0 (digits_loop (n div 10) []) = Some (int (n div 10))" using False by (intro less) auto
    moreover have "int (n div 10) * 10 + int (n mod 10) = int n" using div_mult_mod_eq [of n 10] by linarith
    ultimately show ?thesis using c by (simp add: app)
  qed
qed

lemma digits_loop_nonempty: "digits_loop n [] \<noteq> []"
  by (subst digits_loop.simps, simp only: Let_def, subst digits_loop_append) simp

lemma IntToString_denotes:
  assumes "IntToString w neg v = Inr s" "t_min t \<le> v" "v \<le> t_max t" "kBase t = 10" "v < 0 \<longrightarrow> neg \<and> t_signed t"
  shows "denotes t s v"
proof (cases "v < 0")
  case True
  with assms have "s = [45] @ digits_loop (nat (- v)) []" by (simp add: IntToString_def Let_def split: if_splits)
  with True assms digits_loop_value [of "nat (- v)"] digits_loop_nonempty show ?thesis
    unfolding denotes_def by (intro exI [of _ "[45]"] exI [of _ "digits_loop (nat (- v)) []"]) simp
next
  case False
  with assms have "s = [] @ digits_loop (nat v) []" by (simp add: IntToString_def Let_def split: if_splits)
  with False assms digits_loop_value [of "nat v"] digits_loop_nonempty show ?thesis
    unfolding denotes_def by (intro exI [of _ "[]"] exI [of _ "digits_loop (nat v) []"]) simp
qed

subsection \<open>Properties\<close>

text \<open>The decimal parser is exact for every integer type: it succeeds precisely on an optional sign (a minus sign only for
  signed types) followed by at least one digit and nothing else, when the number written there lies in the range of the type, and
  returns that number. Leading white space, stray characters and numbers out of range are refused.\<close>

lemma number_parse_exact:
  assumes "decimal t"
  shows "DoStringToInt t s = Some v \<longleftrightarrow> denotes t s v"
  by (rule DoStringToInt_exact [OF assms])

text \<open>C15. Printing and parsing round trip: a value of a signed type that is not the smallest one, and every value of an unsigned
  type, is printed as text that the parser of the type reads back. The smallest values of \<^verbatim>\<open>int\<close> and \<^verbatim>\<open>long\<close> are negated in their
  own type on the way, which is undefined.\<close>

theorem number_round_trip:
  "(- (2 ^ 31) < v \<and> v < 2 ^ 31 \<longrightarrow> (\<exists>s. NumberToString_int v = Inr s \<and> ConvertFromString_int s = Some v))
   \<and> (0 \<le> v \<and> v < 2 ^ 32 \<longrightarrow> (\<exists>s. NumberToString_uint v = Inr s \<and> ConvertFromString_uint s = Some v))
   \<and> (- (2 ^ 63) < v \<and> v < 2 ^ 63 \<longrightarrow> (\<exists>s. NumberToString_long v = Inr s \<and> ConvertFromString_long s = Some v))
   \<and> (0 \<le> v \<and> v < 2 ^ 64 \<longrightarrow> (\<exists>s. NumberToString_ulong v = Inr s \<and> ConvertFromString_ulong s = Some v))
   \<and> NumberToString_int (- (2 ^ 31)) = Inl Undefined \<and> NumberToString_long (- (2 ^ 63)) = Inl Undefined"
proof -
  have run: "\<exists>s. IntToString w neg v = Inr s \<and> DoStringToInt t s = Some v"
    if "decimal t" "t_min t \<le> v" "v \<le> t_max t" "v < 0 \<longrightarrow> neg \<and> t_signed t \<and> - v < 2 ^ (w - 1)" for w neg t
  proof -
    from that(4) obtain s where s: "IntToString w neg v = Inr s" by (fastforce simp: IntToString_def Let_def)
    moreover from IntToString_denotes [OF s that(2,3)] that(1,4) have "denotes t s v" by (simp add: decimal_def)
    ultimately show ?thesis using DoStringToInt_exact [OF that(1)] by blast
  qed
  show ?thesis
    unfolding NumberToString_int_def NumberToString_uint_def NumberToString_long_def NumberToString_ulong_def
      ConvertFromString_int_def ConvertFromString_uint_def ConvertFromString_long_def ConvertFromString_ulong_def
  proof (intro conjI impI)
    show "\<exists>s. IntToString 32 True v = Inr s \<and> DoStringToInt (signed_traits 32 10) s = Some v" if "- (2 ^ 31) < v \<and> v < 2 ^ 31"
      using that by (intro run) (simp_all add: decimal_def signed_traits_def)
    show "\<exists>s. IntToString 32 False v = Inr s \<and> DoStringToInt (unsigned_traits 32 10) s = Some v" if "0 \<le> v \<and> v < 2 ^ 32"
      using that by (intro run) (simp_all add: decimal_def unsigned_traits_def)
    show "\<exists>s. IntToString 64 True v = Inr s \<and> DoStringToInt (signed_traits 64 10) s = Some v" if "- (2 ^ 63) < v \<and> v < 2 ^ 63"
      using that by (intro run) (simp_all add: decimal_def signed_traits_def)
    show "\<exists>s. IntToString 64 False v = Inr s \<and> DoStringToInt (unsigned_traits 64 10) s = Some v" if "0 \<le> v \<and> v < 2 ^ 64"
      using that by (intro run) (simp_all add: decimal_def unsigned_traits_def)
    show "IntToString 32 True (- (2 ^ 31)) = Inl Undefined" "IntToString 64 True (- (2 ^ 63)) = Inl Undefined"
      by (simp_all add: IntToString_def)
  qed
qed

theorem number_round_trip_witness:
  "\<exists>s. NumberToString_int (- 2147483647) = Inr s \<and> ConvertFromString_int s = Some (- 2147483647)"
  using number_round_trip [of "- 2147483647"] by simp

end
