(* ===== verification/Text_Codecs.thy ===== *)
theory Text_Codecs
  imports Numbers
begin

text \<open>
  The hexadecimal text codecs of \<^verbatim>\<open>src/convert2string.cpp\<close>: \<^verbatim>\<open>hex\<close>, \<^verbatim>\<open>xhex\<close> (with \<^verbatim>\<open>\x\<close> before each byte), \<^verbatim>\<open>unicode\<close> (four
  digits for a 16-bit unit) and \<^verbatim>\<open>uunicode\<close> (with \<^verbatim>\<open>\u\<close>), and \<^verbatim>\<open>HexEncode\<close>, \<^verbatim>\<open>HexStringToBytes\<close> and \<^verbatim>\<open>HexStringToSpan\<close> of
  \<^verbatim>\<open>src/string_number_conversions.cpp\<close>.

  All of them write a block of fixed length per item and read the text block by block; the locale \<open>block_codec\<close> states what this
  needs of a block and derives the round trip, and is interpreted for each of them. \<^verbatim>\<open>htobe16\<close> is that of a little-endian host: its
  low byte is the high byte of its argument.
\<close>

subsection \<open>Encoders\<close>

definition HexChars :: "bool \<Rightarrow> buffer" where
  "HexChars is_lower = (if is_lower then bytes ''0123456789abcdef'' else bytes ''0123456789ABCDEF'')"

definition hex_block :: "bool \<Rightarrow> u8 \<Rightarrow> buffer" where
  "hex_block is_lower b = [HexChars is_lower ! unat (drop_bit 4 b AND 0xf), HexChars is_lower ! unat (b AND 0xf)]"

definition xhex_block :: "bool \<Rightarrow> u8 \<Rightarrow> buffer" where
  "xhex_block is_lower b = [92, if is_lower then 120 else 88] @ hex_block is_lower b"

definition htobe16 :: "u16 \<Rightarrow> u16" where
  "htobe16 v = push_bit 8 v OR drop_bit 8 v"

definition unicode_block :: "bool \<Rightarrow> u16 \<Rightarrow> buffer" where
  "unicode_block is_lower v =
     (let b = htobe16 v;
          msb = ucast b :: u8;
          lsb = ucast (drop_bit 8 b) :: u8
      in hex_block is_lower msb @ hex_block is_lower lsb)"

definition uunicode_block :: "bool \<Rightarrow> u16 \<Rightarrow> buffer" where
  "uunicode_block is_lower v = [92, if is_lower then 117 else 85] @ unicode_block is_lower v"

definition do_hex_encode :: "buffer \<Rightarrow> bool \<Rightarrow> buffer" where
  "do_hex_encode input is_lower = concat (map (hex_block is_lower) input)"

definition do_xhex_encode :: "buffer \<Rightarrow> bool \<Rightarrow> buffer" where
  "do_xhex_encode input is_lower = concat (map (xhex_block is_lower) input)"

definition do_unicode_encode :: "u16 list \<Rightarrow> bool \<Rightarrow> buffer" where
  "do_unicode_encode input is_lower = concat (map (unicode_block is_lower) input)"

definition do_uunicode_encode :: "u16 list \<Rightarrow> bool \<Rightarrow> buffer" where
  "do_uunicode_encode input is_lower = concat (map (uunicode_block is_lower) input)"

definition HexEncode :: "buffer \<Rightarrow> buffer" where
  "HexEncode input = concat (map (hex_block False) input)"

subsection \<open>Decoders\<close>

text \<open>The digits of a block, \<open>None\<close> when one of them is not hexadecimal.\<close>

definition hex_digits :: "buffer \<Rightarrow> int list option" where
  "hex_digits cs = those (map (CharToDigit 16) cs)"

definition hex_byte :: "buffer \<Rightarrow> u8 option" where
  "hex_byte cs =
     (case hex_digits cs of
        Some [msb, lsb] \<Rightarrow> Some (push_bit 4 (word_of_int msb) OR word_of_int lsb)
      | _ \<Rightarrow> None)"

definition hex_unit :: "buffer \<Rightarrow> u16 option" where
  "hex_unit cs =
     (case hex_digits cs of
        Some [c0, c1, c2, c3] \<Rightarrow>
          Some (push_bit 12 (word_of_int c0) OR push_bit 8 (word_of_int c1) OR push_bit 4 (word_of_int c2) OR word_of_int c3)
      | _ \<Rightarrow> None)"

text \<open>The loop over the blocks; the first argument is the length of a block.\<close>

fun decode_blocks :: "nat \<Rightarrow> (buffer \<Rightarrow> 'a option) \<Rightarrow> nat \<Rightarrow> buffer \<Rightarrow> 'a list option" where
  "decode_blocks n rd 0 s = Some []"
| "decode_blocks n rd (Suc k) s =
     (case rd (take n s) of
        None \<Rightarrow> None
      | Some x \<Rightarrow> (case decode_blocks n rd k (drop n s) of None \<Rightarrow> None | Some xs \<Rightarrow> Some (x # xs)))"

definition decode_text :: "nat \<Rightarrow> (buffer \<Rightarrow> 'a option) \<Rightarrow> buffer \<Rightarrow> 'a list option" where
  "decode_text n rd s = (if length s = 0 \<or> length s mod n \<noteq> 0 then None else decode_blocks n rd (length s div n) s)"

definition do_hex_decode :: "buffer \<Rightarrow> buffer option" where
  "do_hex_decode input = decode_text 2 hex_byte input"

definition do_xhex_decode :: "buffer \<Rightarrow> buffer option" where
  "do_xhex_decode input = decode_text 4 (\<lambda>s. hex_byte (drop 2 s)) input"

definition do_unicode_decode :: "buffer \<Rightarrow> u16 list option" where
  "do_unicode_decode input = decode_text 4 hex_unit input"

definition do_uunicode_decode :: "buffer \<Rightarrow> u16 list option" where
  "do_uunicode_decode input = decode_text 6 (\<lambda>s. hex_unit (drop 2 s)) input"

definition HexStringToBytes :: "buffer \<Rightarrow> buffer option" where
  "HexStringToBytes input = decode_text 2 hex_byte input"

definition HexStringToSpan :: "buffer \<Rightarrow> nat \<Rightarrow> buffer option" where
  "HexStringToSpan input n =
     (if length input = 0 \<or> length input mod 2 \<noteq> 0 then None
      else if length input div 2 \<noteq> n then None
      else decode_blocks 2 hex_byte (length input div 2) input)"

subsection \<open>Codecs of fixed-length blocks\<close>

locale block_codec =
  fixes n :: nat and block :: "'a \<Rightarrow> buffer" and rd :: "buffer \<Rightarrow> 'a option"
  assumes n_pos: "0 < n" and length_block: "length (block x) = n" and rd_block: "rd (block x) = Some x"
begin

lemma length_concat: "length (concat (map block xs)) = n * length xs"
  by (induction xs) (simp_all add: length_block)

lemma decode_blocks_concat: "decode_blocks n rd (length xs) (concat (map block xs)) = Some xs"
  by (induction xs) (simp_all add: length_block rd_block)

lemma decode_encode: "xs \<noteq> [] \<Longrightarrow> decode_text n rd (concat (map block xs)) = Some xs"
  using n_pos by (simp add: decode_text_def length_concat decode_blocks_concat)

end

lemma digit_of_HexChars: "i < 16 \<Longrightarrow> CharToDigit 16 (HexChars l ! i) = Some (int i)"
proof -
  have "list_all (\<lambda>i. CharToDigit 16 (HexChars True ! i) = Some (int i) \<and> CharToDigit 16 (HexChars False ! i) = Some (int i)) [0..<16]"
    by code_simp
  then show "i < 16 \<Longrightarrow> CharToDigit 16 (HexChars l ! i) = Some (int i)" by (cases l) (auto simp: list_all_iff)
qed

lemma and_15_eq: "w AND 0xf = take_bit 4 (w :: 'a::len word)"
  by (simp add: take_bit_eq_mask mask_numeral)

lemma hex_digits_block: "hex_digits (hex_block l b) = Some [uint (take_bit 4 (drop_bit 4 b)), uint (take_bit 4 b)]"
proof -
  have "unat (take_bit 4 w) < 16" for w :: u8 by (simp add: unat_take_bit)
  then show ?thesis by (simp add: hex_digits_def hex_block_def and_15_eq digit_of_HexChars)
qed

lemma hex_byte_block: "hex_byte (hex_block l b) = Some b"
proof -
  have "push_bit 4 (take_bit 4 (drop_bit 4 b)) OR take_bit 4 b = b"
    by (rule bit_word_eqI) (auto simp: bit_simps)
  then show ?thesis by (simp add: hex_byte_def hex_digits_block)
qed

interpretation hex: block_codec 2 "hex_block l" hex_byte for l
  by unfold_locales (simp_all add: hex_byte_block, simp add: hex_block_def)

interpretation xhex: block_codec 4 "xhex_block l" "\<lambda>s. hex_byte (drop 2 s)" for l
  by unfold_locales (simp_all add: xhex_block_def hex.length_block hex.rd_block)

lemma hex_unit_block: "hex_unit (unicode_block l v) = Some v"
proof -
  let ?m = "ucast (htobe16 v) :: u8" and ?l = "ucast (drop_bit 8 (htobe16 v)) :: u8"
  have lt: "unat (take_bit 4 w) < 16" for w :: u8 by (simp add: unat_take_bit)
  have "hex_digits (unicode_block l v)
      = Some [uint (take_bit 4 (drop_bit 4 ?m)), uint (take_bit 4 ?m), uint (take_bit 4 (drop_bit 4 ?l)), uint (take_bit 4 ?l)]"
    using lt by (simp add: hex_digits_def unicode_block_def hex_block_def Let_def and_15_eq digit_of_HexChars)
  moreover have "push_bit 12 (ucast (take_bit 4 (drop_bit 4 ?m))) OR push_bit 8 (ucast (take_bit 4 ?m))
      OR push_bit 4 (ucast (take_bit 4 (drop_bit 4 ?l))) OR ucast (take_bit 4 ?l) = v"
    (is "?w = v")
  proof (rule bit_word_eqI)
    have "list_all (\<lambda>k. bit ?w k = bit v k) [0..<16]"
      by (simp add: upt_rec htobe16_def bit_simps, simp add: numeral_eq_Suc)
    then show "bit ?w k = bit v k" if "k < LENGTH(16)" for k using that by (simp add: list_all_iff)
  qed
  ultimately show ?thesis unfolding hex_unit_def by (simp only: option.case list.case flip: ucast_eq)
qed

interpretation unicode: block_codec 4 "unicode_block l" hex_unit for l
  by unfold_locales (simp_all add: hex_unit_block, simp add: unicode_block_def hex.length_block Let_def)

interpretation uunicode: block_codec 6 "uunicode_block l" "\<lambda>s. hex_unit (drop 2 s)" for l
  by unfold_locales (simp_all add: uunicode_block_def unicode.length_block unicode.rd_block)

subsection \<open>Properties\<close>

text \<open>C16. The four text codecs, with lower and with upper case digits, decode what they encode, for every non-empty input
  (the empty text is refused by all decoders); \<^verbatim>\<open>HexStringToSpan\<close> does so exactly when the span has the right size.\<close>

theorem text_codecs_round_trip:
  "(bs \<noteq> [] \<longrightarrow> do_hex_decode (do_hex_encode bs l) = Some bs \<and> do_xhex_decode (do_xhex_encode bs l) = Some bs
      \<and> HexStringToBytes (HexEncode bs) = Some bs \<and> HexStringToSpan (HexEncode bs) n = (if n = length bs then Some bs else None))
   \<and> (us \<noteq> [] \<longrightarrow> do_unicode_decode (do_unicode_encode us l) = Some us \<and> do_uunicode_decode (do_uunicode_encode us l) = Some us)
   \<and> do_hex_decode [] = None \<and> do_xhex_decode [] = None \<and> do_unicode_decode [] = None \<and> do_uunicode_decode [] = None"
  using hex.decode_encode [of bs l] hex.decode_encode [of bs False] xhex.decode_encode [of bs l]
    unicode.decode_encode [of us l] uunicode.decode_encode [of us l] hex.decode_blocks_concat [where xs = bs and l = False] hex.length_concat [where xs = bs and l = False]
  by (auto simp: do_hex_decode_def do_hex_encode_def do_xhex_decode_def do_xhex_encode_def HexStringToBytes_def HexEncode_def
      HexStringToSpan_def do_unicode_decode_def do_unicode_encode_def do_uunicode_decode_def do_uunicode_encode_def decode_text_def)

theorem text_codecs_round_trip_witness:
  "do_hex_decode (do_hex_encode [0xca, 0xfe] True) = Some [0xca, 0xfe] \<and> do_unicode_decode (do_unicode_encode [0x20ac] False) = Some [0x20ac]"
  using text_codecs_round_trip [of "[0xca, 0xfe]" True 2 "[0x20ac]"] text_codecs_round_trip [of "[0xca, 0xfe]" False 2 "[0x20ac]"] by simp

end
