(* ===== verification/Chunked.thy ===== *)
theory Chunked
  imports Numbers
begin

text \<open>
  The decoder of the chunked transfer coding, \<^verbatim>\<open>src/http/http_chunked_decoder.cpp\<close>.

  The decoder's fields are a record. \<^verbatim>\<open>FilterBuf\<close> works in place: its argument is the memory from \<^verbatim>\<open>buf\<close> on, and its loop
  moves the position \<^verbatim>\<open>buf\<close>, the number \<^verbatim>\<open>buf_len\<close> of bytes still to be read and the number \<^verbatim>\<open>result\<close> of decoded bytes over
  that memory; \<^verbatim>\<open>memmove\<close> closes the gap a size line leaves. A result carries the decoder, the memory and \<^verbatim>\<open>*out\<close>, which is
  \<open>None\<close> for an error. A failed \<^verbatim>\<open>DCHECK\<close> and an overflow of \<^verbatim>\<open>bytes_after_eof_\<close> are faults.

  The specification is a machine that reads one byte at a time and knows nothing of buffers. It is strict about line ends: a
  carriage return has to be followed by a line feed, and a line has at most 16384 bytes; outside these limits it prescribes nothing
  (\<open>Unspecified\<close>). The decoder refines it, however the stream is cut into buffers.
\<close>

subsection \<open>The decoder\<close>

record HttpChunkedDecoder =
  chunk_remaining :: int
  line_buf :: buffer
  chunk_terminator_remaining :: bool
  reached_last_chunk :: bool
  reached_eof :: bool
  bytes_after_eof :: int

abbreviation (input) kMaxLineBufLen :: nat where "kMaxLineBufLen \<equiv> 16384"

definition HttpChunkedDecoder_ctor :: HttpChunkedDecoder where
  "HttpChunkedDecoder_ctor = \<lparr>chunk_remaining = 0, line_buf = [], chunk_terminator_remaining = False,
     reached_last_chunk = False, reached_eof = False, bytes_after_eof = 0\<rparr>"

definition hex_char :: "u8 \<Rightarrow> bool" where
  "hex_char c \<longleftrightarrow> c \<in> set (bytes ''0123456789abcdefABCDEF'')"

definition ParseChunkSize :: "buffer \<Rightarrow> int option" where
  "ParseChunkSize start =
     (let chunk_size = rev (dropWhile (\<lambda>c. c = 32) (rev start)) in
      if \<not> list_all hex_char chunk_size then None
      else case HexStringToInt64 chunk_size of
             (ok, parsed_number) \<Rightarrow> if ok \<and> parsed_number \<ge> 0 then Some parsed_number else None)"

text \<open>\<^verbatim>\<open>static_cast<int>\<close> of a length.\<close>

definition cast_int :: "nat \<Rightarrow> int" where
  "cast_int n = (int n + 2 ^ 31) mod 2 ^ 32 - 2 ^ 31"

fun find_char :: "u8 \<Rightarrow> buffer \<Rightarrow> nat option" where
  "find_char c [] = None"
| "find_char c (x # xs) = (if x = c then Some 0 else map_option Suc (find_char c xs))"

text \<open>The bytes without a carriage return at their end.\<close>

definition strip_cr :: "buffer \<Rightarrow> buffer" where
  "strip_cr xs = (if xs \<noteq> [] \<and> last xs = 13 then butlast xs else xs)"

text \<open>What \<^verbatim>\<open>ScanForChunkRemaining\<close> does with a complete line; \<open>None\<close> is the error.\<close>

definition scan_line :: "HttpChunkedDecoder \<Rightarrow> buffer \<Rightarrow> HttpChunkedDecoder option" where
  "scan_line d line =
     (let buf_len = cast_int (length line) in
      if reached_last_chunk d then Some (if buf_len > 0 then d else d\<lparr>reached_eof := True\<rparr>)
      else if chunk_terminator_remaining d then
        if buf_len > 0 then None else Some (d\<lparr>chunk_terminator_remaining := False\<rparr>)
      else if buf_len > 0 then
        (let text = take (nat buf_len) line;
             size = (case find_char 59 text of Some i \<Rightarrow> take i text | None \<Rightarrow> text)
         in case ParseChunkSize size of
              None \<Rightarrow> None
            | Some n \<Rightarrow> Some (if n = 0 then d\<lparr>chunk_remaining := n, reached_last_chunk := True\<rparr> else d\<lparr>chunk_remaining := n\<rparr>))
      else None)"

definition ScanForChunkRemaining :: "HttpChunkedDecoder \<Rightarrow> buffer \<Rightarrow> (HttpChunkedDecoder \<times> nat option) exec" where
  "ScanForChunkRemaining d buf =
     (if chunk_remaining d \<noteq> 0 \<or> buf = [] then Inl Terminated
      else case find_char 10 buf of
        Some index_of_lf \<Rightarrow>
          (let piece = strip_cr (take index_of_lf buf);
               d1 = (if line_buf d \<noteq> [] then d\<lparr>line_buf := line_buf d @ piece\<rparr> else d);
               line = (if line_buf d \<noteq> [] then line_buf d1 else piece)
           in case scan_line d1 line of
                None \<Rightarrow> Inr (d1, None)
              | Some d2 \<Rightarrow> Inr (d2\<lparr>line_buf := []\<rparr>, Some (index_of_lf + 1)))
      | None \<Rightarrow>
          (let piece = strip_cr buf in
           if length (line_buf d) + length piece > kMaxLineBufLen then Inr (d, None)
           else Inr (d\<lparr>line_buf := line_buf d @ piece\<rparr>, Some (length buf))))"

definition memmove :: "buffer \<Rightarrow> nat \<Rightarrow> nat \<Rightarrow> nat \<Rightarrow> buffer" where
  "memmove mem dst src n = take dst mem @ take n (drop src mem) @ drop (dst + n) mem"

lemma find_char_less: "find_char c xs = Some i \<Longrightarrow> i < length xs"
  by (induction xs arbitrary: i) (auto split: if_splits)

lemma Scan_consumed:
  "ScanForChunkRemaining d buf = Inr (d', Some n) \<Longrightarrow> 0 < n \<and> n \<le> length buf"
  by (auto simp: ScanForChunkRemaining_def Let_def Suc_le_eq dest: find_char_less split: if_splits option.splits)

function FilterBuf_loop ::
  "HttpChunkedDecoder \<Rightarrow> buffer \<Rightarrow> nat \<Rightarrow> nat \<Rightarrow> nat \<Rightarrow> (HttpChunkedDecoder \<times> buffer \<times> nat option) exec" where
  "FilterBuf_loop d mem buf buf_len result =
     (if buf_len = 0 then Inr (d, mem, Some result)
      else if chunk_remaining d > 0 then
        (let num = min (nat (chunk_remaining d)) buf_len;
             d1 = d\<lparr>chunk_remaining := chunk_remaining d - int num\<rparr>;
             d2 = (if chunk_remaining d1 = 0 then d1\<lparr>chunk_terminator_remaining := True\<rparr> else d1)
         in FilterBuf_loop d2 mem (buf + num) (buf_len - num) (result + num))
      else if reached_eof d then
        (if bytes_after_eof d + int buf_len < 2 ^ 31
         then Inr (d\<lparr>bytes_after_eof := bytes_after_eof d + int buf_len\<rparr>, mem, Some result)
         else Inl Undefined)
      else case ScanForChunkRemaining d (take buf_len (drop buf mem)) of
        Inl e \<Rightarrow> Inl e
      | Inr (d1, None) \<Rightarrow> Inr (d1, mem, None)
      | Inr (d1, Some bytes_consumed) \<Rightarrow>
          FilterBuf_loop d1
            (if buf_len - bytes_consumed > 0 then memmove mem buf (buf + bytes_consumed) (buf_len - bytes_consumed) else mem)
            buf (buf_len - bytes_consumed) result)"
  by pat_completeness auto

termination
  by (relation "measure (\<lambda>(d, mem, buf, buf_len, result). buf_len)") (auto dest!: Scan_consumed)

declare FilterBuf_loop.simps [simp del]

text \<open>\<open>out\<close> tells whether the pointer for the result was given.\<close>

definition FilterBuf :: "HttpChunkedDecoder \<Rightarrow> bool \<Rightarrow> buffer \<Rightarrow> (HttpChunkedDecoder \<times> buffer \<times> nat option) exec" where
  "FilterBuf d out buf = (if \<not> out then Inr (d, buf, None) else FilterBuf_loop d buf 0 (length buf) 0)"

subsection \<open>The strict machine\<close>

datatype phase = Size_Line | Data nat | Data_End | Trailer | Done

datatype verdict = Malformed | Unspecified

record machine =
  m_phase :: phase
  m_line :: buffer
  m_cr :: bool
  m_out :: buffer
  m_after :: nat

definition end_line :: "machine \<Rightarrow> verdict + machine" where
  "end_line m =
     (case m_phase m of
        Size_Line \<Rightarrow>
          (case ParseChunkSize (takeWhile (\<lambda>c. c \<noteq> 59) (m_line m)) of
             None \<Rightarrow> Inl Malformed
           | Some n \<Rightarrow> Inr (m\<lparr>m_phase := if n = 0 then Trailer else Data (nat n), m_line := [], m_cr := False\<rparr>))
      | Data_End \<Rightarrow> if m_line m = [] then Inr (m\<lparr>m_phase := Size_Line, m_line := [], m_cr := False\<rparr>) else Inl Malformed
      | Trailer \<Rightarrow> Inr (m\<lparr>m_phase := if m_line m = [] then Done else Trailer, m_line := [], m_cr := False\<rparr>)
      | _ \<Rightarrow> Inr m)"

definition read_byte :: "machine \<Rightarrow> u8 \<Rightarrow> verdict + machine" where
  "read_byte m b =
     (case m_phase m of
        Data n \<Rightarrow> Inr (m\<lparr>m_phase := if n \<le> 1 then Data_End else Data (n - 1), m_out := m_out m @ [b]\<rparr>)
      | Done \<Rightarrow> if m_after m + 1 < 2 ^ 31 then Inr (m\<lparr>m_after := m_after m + 1\<rparr>) else Inl Unspecified
      | _ \<Rightarrow>
          if b = 10 then end_line m
          else if m_cr m then Inl Unspecified
          else if b = 13 then Inr (m\<lparr>m_cr := True\<rparr>)
          else if length (m_line m) < kMaxLineBufLen then Inr (m\<lparr>m_line := m_line m @ [b]\<rparr>)
          else Inl Unspecified)"

fun read_bytes :: "machine \<Rightarrow> buffer \<Rightarrow> verdict + machine" where
  "read_bytes m [] = Inr m"
| "read_bytes m (b # bs) = (case read_byte m b of Inl e \<Rightarrow> Inl e | Inr m' \<Rightarrow> read_bytes m' bs)"

definition machine_init :: machine where
  "machine_init = \<lparr>m_phase = Size_Line, m_line = [], m_cr = False, m_out = [], m_after = 0\<rparr>"

definition machine_ok :: "machine \<Rightarrow> bool" where
  "machine_ok m \<longleftrightarrow> length (m_line m) \<le> kMaxLineBufLen
     \<and> (case m_phase m of Data n \<Rightarrow> 0 < n \<and> m_line m = [] \<and> \<not> m_cr m | Done \<Rightarrow> m_line m = [] \<and> \<not> m_cr m | _ \<Rightarrow> True)"

text \<open>The decoder's fields for a state of the machine.\<close>

definition decoder_of :: "machine \<Rightarrow> HttpChunkedDecoder" where
  "decoder_of m = \<lparr>chunk_remaining = (case m_phase m of Data n \<Rightarrow> int n | _ \<Rightarrow> 0), line_buf = m_line m,
     chunk_terminator_remaining = (m_phase m = Data_End), reached_last_chunk = (m_phase m \<in> {Trailer, Done}),
     reached_eof = (m_phase m = Done), bytes_after_eof = int (m_after m)\<rparr>"

subsection \<open>What the machine does with a run of bytes\<close>

lemma read_bytes_append:
  "read_bytes m (xs @ ys) = (case read_bytes m xs of Inl e \<Rightarrow> Inl e | Inr m' \<Rightarrow> read_bytes m' ys)"
  by (induction xs arbitrary: m) (auto split: sum.splits)

lemma read_bytes_data:
  "m_phase m = Data n \<Longrightarrow> 0 < n \<Longrightarrow> length xs \<le> n
    \<Longrightarrow> read_bytes m xs = Inr (m\<lparr>m_phase := if length xs = n then Data_End else Data (n - length xs), m_out := m_out m @ xs\<rparr>)"
proof (induction xs arbitrary: m n)
  case (Cons b xs)
  show ?case
  proof (cases "n = 1")
    case True
    with Cons.prems show ?thesis by (simp add: read_byte_def)
  next
    case False
    with Cons.prems Cons.IH [of "m\<lparr>m_phase := Data (n - 1), m_out := m_out m @ [b]\<rparr>" "n - 1"] show ?thesis
      by (auto simp: read_byte_def)
  qed
qed simp

lemma read_bytes_done:
  "m_phase m = Done \<Longrightarrow> m_after m + length xs < 2 ^ 31 \<Longrightarrow> read_bytes m xs = Inr (m\<lparr>m_after := m_after m + length xs\<rparr>)"
  by (induction xs arbitrary: m) (auto simp: read_byte_def)

lemma read_bytes_done_unspecified:
  "m_phase m = Done \<Longrightarrow> xs \<noteq> [] \<Longrightarrow> 2 ^ 31 \<le> m_after m + length xs \<Longrightarrow> read_bytes m xs = Inl Unspecified"
proof (induction xs arbitrary: m)
  case (Cons b xs)
  then show ?case
    using Cons.IH [of "m\<lparr>m_after := m_after m + 1\<rparr>"] by (cases "xs = []") (simp_all add: read_byte_def)
qed simp

definition line_phase :: "machine \<Rightarrow> bool" where
  "line_phase m \<longleftrightarrow> m_phase m \<in> {Size_Line, Data_End, Trailer}"

lemma read_byte_line:
  "line_phase m \<Longrightarrow> b \<noteq> 10 \<Longrightarrow>
    read_byte m b = (if m_cr m then Inl Unspecified else if b = 13 then Inr (m\<lparr>m_cr := True\<rparr>)
      else if length (m_line m) < kMaxLineBufLen then Inr (m\<lparr>m_line := m_line m @ [b]\<rparr>) else Inl Unspecified)"
  by (auto simp: read_byte_def line_phase_def)

lemma strip_cr_simps [simp]:
  "strip_cr [] = []"
  "strip_cr [13] = []"
  "b \<noteq> 13 \<Longrightarrow> strip_cr (b # xs) = b # strip_cr xs"
  by (auto simp: strip_cr_def)

lemma read_bytes_line:
  "line_phase m \<Longrightarrow> machine_ok m \<Longrightarrow> 10 \<notin> set xs \<Longrightarrow> read_bytes m xs = Inr m'
    \<Longrightarrow> m' = m\<lparr>m_line := m_line m @ strip_cr xs, m_cr := (if xs = [] then m_cr m else last xs = 13)\<rparr>
      \<and> length (m_line m') \<le> kMaxLineBufLen \<and> (m_cr m \<longrightarrow> xs = [])"
proof (induction xs arbitrary: m)
  case Nil
  then show ?case by (auto simp: machine_ok_def)
next
  case (Cons b xs)
  consider "\<not> m_cr m" "b = 13" "read_bytes (m\<lparr>m_cr := True\<rparr>) xs = Inr m'"
    | "\<not> m_cr m" "b \<noteq> 13" "length (m_line m) < kMaxLineBufLen" "read_bytes (m\<lparr>m_line := m_line m @ [b]\<rparr>) xs = Inr m'"
    using Cons.prems by (auto simp: read_byte_line split: if_splits)
  then show ?case
  proof cases
    case 1
    have "xs = []" using Cons.IH [OF _ _ _ 1(3)] Cons.prems by (auto simp: line_phase_def machine_ok_def)
    with 1 Cons.prems show ?thesis by (auto simp: machine_ok_def)
  next
    case 2
    then show ?thesis using Cons.IH [OF _ _ _ 2(4)] Cons.prems by (auto simp: line_phase_def machine_ok_def)
  qed
qed

lemma read_bytes_line_not_malformed: "line_phase m \<Longrightarrow> 10 \<notin> set xs \<Longrightarrow> read_bytes m xs \<noteq> Inl Malformed"
  by (induction xs arbitrary: m) (auto simp: read_byte_line line_phase_def)

subsection \<open>Lines in the decoder and in the machine\<close>

lemma find_char_None_iff: "find_char c xs = None \<longleftrightarrow> c \<notin> set xs"
  by (induction xs) auto

lemma find_char_append: "c \<notin> set xs \<Longrightarrow> find_char c (xs @ c # ys) = Some (length xs)"
  by (induction xs) auto

lemma find_char_takeWhile: "(case find_char c xs of Some i \<Rightarrow> take i xs | None \<Rightarrow> xs) = takeWhile (\<lambda>x. x \<noteq> c) xs"
  by (induction xs) (auto split: option.splits)

lemma cast_int_small: "n < 2 ^ 31 \<Longrightarrow> cast_int n = int n"
  by (simp add: cast_int_def)

lemma ParseChunkSize_nonneg: "ParseChunkSize s = Some n \<Longrightarrow> 0 \<le> n"
  by (auto simp: ParseChunkSize_def Let_def split: if_splits prod.splits)

lemma ParseChunkSize_Nil [simp]: "ParseChunkSize [] = None"
  by (simp add: ParseChunkSize_def HexStringToInt64_def IteratorRangeToNumber_def Base_Invoke_def)

lemma scan_line_line_buf: "scan_line (d\<lparr>line_buf := l\<rparr>) line = map_option (line_buf_update (\<lambda>_. l)) (scan_line d line)"
  by (auto simp: scan_line_def Let_def split: option.splits)

lemma scan_line_end_line:
  assumes "line_phase m" "length (m_line m) \<le> kMaxLineBufLen"
  shows "scan_line (decoder_of m) (m_line m) =
    (case end_line m of Inl e \<Rightarrow> None | Inr m' \<Rightarrow> Some ((decoder_of m')\<lparr>line_buf := m_line m\<rparr>))"
proof -
  have "cast_int (length (m_line m)) = int (length (m_line m))" using assms by (intro cast_int_small) simp
  with assms(1) show ?thesis
    by (auto simp: scan_line_def end_line_def decoder_of_def line_phase_def Let_def find_char_takeWhile
        dest: ParseChunkSize_nonneg split: option.splits)
qed

lemma end_line_ok: "line_phase m \<Longrightarrow> end_line m = Inr m' \<Longrightarrow> machine_ok m' \<and> m_line m' = [] \<and> m_out m' = m_out m"
  by (fastforce simp: end_line_def line_phase_def machine_ok_def dest: ParseChunkSize_nonneg split: option.splits if_splits)

lemma Scan_complete_line:
  assumes "line_phase m" "machine_ok m" "10 \<notin> set xs" "read_bytes m xs = Inr m1"
  shows "case end_line m1 of
      Inl e \<Rightarrow> \<exists>d. ScanForChunkRemaining (decoder_of m) (xs @ 10 # ys) = Inr (d, None)
    | Inr m2 \<Rightarrow> ScanForChunkRemaining (decoder_of m) (xs @ 10 # ys) = Inr (decoder_of m2, Some (length xs + 1))"
proof -
  have m1: "m1 = m\<lparr>m_line := m_line m @ strip_cr xs, m_cr := (if xs = [] then m_cr m else last xs = 13)\<rparr>"
    and len: "length (m_line m1) \<le> kMaxLineBufLen"
    using read_bytes_line [OF assms] by auto
  have lp: "line_phase m1" using assms(1) m1 by (simp add: line_phase_def)
  have d1: "\<exists>l. (if line_buf d \<noteq> [] then d\<lparr>line_buf := line_buf d @ strip_cr xs\<rparr> else d) = (decoder_of m1)\<lparr>line_buf := l\<rparr>"
    if "d = decoder_of m" for d
    using that m1 by (auto simp: decoder_of_def intro: exI [of _ "[]"])
  have line: "line_buf (decoder_of m) @ strip_cr xs = m_line m1" using m1 by (simp add: decoder_of_def)
  have rem: "chunk_remaining (decoder_of m) = 0" using assms(1) by (auto simp: decoder_of_def line_phase_def)
  obtain l where l: "(if line_buf (decoder_of m) \<noteq> [] then (decoder_of m)\<lparr>line_buf := line_buf (decoder_of m) @ strip_cr xs\<rparr> else decoder_of m)
      = (decoder_of m1)\<lparr>line_buf := l\<rparr>"
    using d1 [OF refl] by blast
  have scan: "ScanForChunkRemaining (decoder_of m) (xs @ 10 # ys) =
     (case scan_line ((decoder_of m1)\<lparr>line_buf := l\<rparr>) (m_line m1) of
        None \<Rightarrow> Inr ((decoder_of m1)\<lparr>line_buf := l\<rparr>, None)
      | Some d2 \<Rightarrow> Inr (d2\<lparr>line_buf := []\<rparr>, Some (length xs + 1)))"
    unfolding l [symmetric] line [symmetric]
    by (auto simp: ScanForChunkRemaining_def Let_def rem find_char_append [OF assms(3)] split: option.splits)
  have clear: "(decoder_of m2)\<lparr>line_buf := []\<rparr> = decoder_of m2" if "end_line m1 = Inr m2" for m2
    using end_line_ok [OF lp that] by (simp add: decoder_of_def)
  show ?thesis
    by (auto simp: scan scan_line_line_buf scan_line_end_line [OF lp len] clear split: sum.splits)
qed

lemma Scan_partial_line:
  assumes "line_phase m" "machine_ok m" "10 \<notin> set xs" "xs \<noteq> []" "read_bytes m xs = Inr m'"
  shows "ScanForChunkRemaining (decoder_of m) xs = Inr (decoder_of m', Some (length xs))"
proof -
  have "find_char 10 xs = None" using assms(3) by (simp add: find_char_None_iff)
  with read_bytes_line [OF assms(1-3,5)] assms(1,4) show ?thesis
    by (auto simp: ScanForChunkRemaining_def Let_def decoder_of_def line_phase_def)
qed

subsection \<open>The loop refines the machine\<close>

lemma length_memmove: "src + n \<le> length mem \<Longrightarrow> dst + n \<le> length mem \<Longrightarrow> length (memmove mem dst src n) = length mem"
  by (simp add: memmove_def)

lemma take_memmove: "dst \<le> length mem \<Longrightarrow> take dst (memmove mem dst src n) = take dst mem"
  by (simp add: memmove_def)

lemma drop_memmove:
  "dst \<le> length mem \<Longrightarrow> src + n \<le> length mem \<Longrightarrow> take n (drop dst (memmove mem dst src n)) = take n (drop src mem)"
  by (simp add: memmove_def)

text \<open>What a run of the loop has to satisfy when the machine reads \<open>bs\<close> from \<open>m\<close>: the decoded bytes are the machine's output,
  written from the position on, and what lies before is kept; a malformed line is an error.\<close>

definition refines :: "machine \<Rightarrow> buffer \<Rightarrow> buffer \<Rightarrow> nat \<Rightarrow> nat \<Rightarrow> (HttpChunkedDecoder \<times> buffer \<times> nat option) exec \<Rightarrow> bool" where
  "refines m bs mem pos result r \<longleftrightarrow>
     (case read_bytes m bs of
        Inr m' \<Rightarrow> machine_ok m' \<and> (\<exists>mem' k. r = Inr (decoder_of m', mem', Some (result + k)) \<and> length mem' = length mem
          \<and> take pos mem' = take pos mem \<and> m_out m' = m_out m @ take k (drop pos mem'))
      | Inl Malformed \<Rightarrow> \<exists>d' mem'. r = Inr (d', mem', None)
      | Inl Unspecified \<Rightarrow> True)"

lemma refines_append:
  assumes "read_bytes m xs = Inr m1" "refines m1 ys mem1 (pos + length out) (result + length out) r"
    and "m_out m1 = m_out m @ out" "length mem1 = length mem" "pos + length out \<le> length mem"
    and "take (pos + length out) mem1 = take pos mem @ out"
  shows "refines m (xs @ ys) mem pos result r"
proof (cases "read_bytes m1 ys")
  case (Inl e)
  with assms(1,2) show ?thesis by (cases e) (auto simp: refines_def read_bytes_append)
next
  case (Inr m')
  with assms(2) obtain mem' k where r: "machine_ok m'" "r = Inr (decoder_of m', mem', Some (result + length out + k))"
      "length mem' = length mem1" "take (pos + length out) mem' = take (pos + length out) mem1"
      "m_out m' = m_out m1 @ take k (drop (pos + length out) mem')"
    by (auto simp: refines_def)
  have pos: "pos \<le> length mem" using assms(5) by simp
  have "take pos (take (pos + length out) mem') = take pos (take pos mem @ out)" by (simp add: r(4) assms(6))
  then have keep: "take pos mem' = take pos mem" using pos by (simp add: min_def)
  have "drop pos (take (pos + length out) mem') = drop pos (take pos mem @ out)" by (simp add: r(4) assms(6))
  then have "take (length out) (drop pos mem') = out" using pos by (simp add: drop_take)
  then have "take (length out + k) (drop pos mem') = out @ take k (drop (pos + length out) mem')"
    using take_add [of "length out" k "drop pos mem'"] by (simp add: add.commute)
  with r keep assms(1,3,4) Inr show ?thesis
    by (auto simp: refines_def read_bytes_append intro!: exI [of _ "length out + k"])
qed

lemma FilterBuf_loop_0 [simp]: "FilterBuf_loop d mem buf 0 result = Inr (d, mem, Some result)"
  by (subst FilterBuf_loop.simps) simp

lemma FilterBuf_loop_eof:
  "m_phase m = Done \<Longrightarrow> 0 < buf_len \<Longrightarrow> FilterBuf_loop (decoder_of m) mem buf buf_len result =
    (if m_after m + buf_len < 2 ^ 31 then Inr (decoder_of (m\<lparr>m_after := m_after m + buf_len\<rparr>), mem, Some result) else Inl Undefined)"
  by (subst FilterBuf_loop.simps) (auto simp: decoder_of_def)

text \<open>One pass of the loop in each phase, given what the rest of the loop does.\<close>

lemma loop_data_refines:
  assumes "machine_ok m" "buf + buf_len \<le> length mem" "m_phase m = Data n" "0 < buf_len"
    and IH: "\<And>m k. 0 < k \<Longrightarrow> k \<le> buf_len \<Longrightarrow> machine_ok m \<Longrightarrow>
      refines m (take (buf_len - k) (drop (buf + k) mem)) mem (buf + k) (result + k)
        (FilterBuf_loop (decoder_of m) mem (buf + k) (buf_len - k) (result + k))"
  shows "refines m (take buf_len (drop buf mem)) mem buf result (FilterBuf_loop (decoder_of m) mem buf buf_len result)"
proof -
  let ?bs = "take buf_len (drop buf mem)" and ?k = "min n buf_len"
  let ?out = "take ?k ?bs" and ?rest = "take (buf_len - ?k) (drop (buf + ?k) mem)"
  let ?m1 = "m\<lparr>m_phase := if ?k = n then Data_End else Data (n - ?k), m_out := m_out m @ ?out\<rparr>"
  have n: "0 < n" "m_line m = []" "\<not> m_cr m" using assms(1,3) by (auto simp: machine_ok_def)
  have out: "length ?out = ?k" using assms(2) by simp
  have bs: "?bs = ?out @ ?rest" by (metis append_take_drop_id drop_take drop_drop add.commute)
  have loop: "FilterBuf_loop (decoder_of m) mem buf buf_len result
      = FilterBuf_loop (decoder_of ?m1) mem (buf + ?k) (buf_len - ?k) (result + ?k)"
    using assms(3,4) n(1) by (subst FilterBuf_loop.simps) (auto simp: decoder_of_def Let_def min_def)
  have "refines m (?out @ ?rest) mem buf result (FilterBuf_loop (decoder_of m) mem buf buf_len result)"
  proof (rule refines_append)
    show "read_bytes m ?out = Inr ?m1" using read_bytes_data [OF assms(3) n(1), of ?out] out by simp
    show "refines ?m1 ?rest mem (buf + length ?out) (result + length ?out) (FilterBuf_loop (decoder_of m) mem buf buf_len result)"
      unfolding out loop using n assms(1,4) by (intro IH) (auto simp: machine_ok_def)
  qed (use assms(2) out in \<open>auto simp: take_add min_def\<close>)
  then show ?thesis by (simp only: bs [symmetric])
qed

lemma loop_line:
  assumes "line_phase m" "0 < buf_len"
  shows "FilterBuf_loop (decoder_of m) mem buf buf_len result =
    (case ScanForChunkRemaining (decoder_of m) (take buf_len (drop buf mem)) of
       Inl e \<Rightarrow> Inl e
     | Inr (d1, None) \<Rightarrow> Inr (d1, mem, None)
     | Inr (d1, Some c) \<Rightarrow>
         FilterBuf_loop d1 (if buf_len - c > 0 then memmove mem buf (buf + c) (buf_len - c) else mem) buf (buf_len - c) result)"
  using assms by (subst FilterBuf_loop.simps) (auto simp: decoder_of_def line_phase_def)

lemma loop_partial_line_refines:
  assumes "machine_ok m" "buf + buf_len \<le> length mem" "line_phase m" "0 < buf_len" "10 \<notin> set (take buf_len (drop buf mem))"
  shows "refines m (take buf_len (drop buf mem)) mem buf result (FilterBuf_loop (decoder_of m) mem buf buf_len result)"
proof (cases "read_bytes m (take buf_len (drop buf mem))")
  case (Inl e)
  with assms read_bytes_line_not_malformed [OF assms(3,5)] show ?thesis by (cases e) (auto simp: refines_def)
next
  case (Inr m')
  have "take buf_len (drop buf mem) \<noteq> []" "length (take buf_len (drop buf mem)) = buf_len" using assms(2,4) by auto
  with Scan_partial_line [OF assms(3,1,5) _ Inr] read_bytes_line [OF assms(3,1,5) Inr] Inr assms(3,4)
  show ?thesis by (auto simp: refines_def loop_line machine_ok_def line_phase_def)
qed

lemma loop_complete_line_refines:
  assumes "machine_ok m" "buf + buf_len \<le> length mem" "line_phase m" and bs: "take buf_len (drop buf mem) = xs @ 10 # ys" "10 \<notin> set xs"
    and IH: "\<And>m mem'. machine_ok m \<Longrightarrow> length mem' = length mem \<Longrightarrow> take (length ys) (drop buf mem') = ys \<Longrightarrow>
      refines m ys mem' buf result (FilterBuf_loop (decoder_of m) mem' buf (length ys) result)"
  shows "refines m (take buf_len (drop buf mem)) mem buf result (FilterBuf_loop (decoder_of m) mem buf buf_len result)"
proof (cases "read_bytes m xs")
  case (Inl e)
  with bs assms(3) read_bytes_line_not_malformed [of m xs] show ?thesis by (cases e) (auto simp: refines_def read_bytes_append)
next
  case m1: (Inr m1)
  let ?c = "length xs + 1"
  have "length (take buf_len (drop buf mem)) = buf_len" using assms(2) by simp
  then have c: "buf_len - ?c = length ys" "?c \<le> buf_len" by (auto simp: bs)
  have lp: "line_phase m1" "m_out m1 = m_out m"
    using read_bytes_line [OF assms(3,1) bs(2) m1] assms(3) by (auto simp: line_phase_def)
  have step: "read_byte m1 10 = end_line m1" using lp by (auto simp: read_byte_def line_phase_def)
  note scan = Scan_complete_line [OF assms(3,1) bs(2) m1, of ys] and loop = loop_line [OF assms(3), of buf_len]
  show ?thesis
  proof (cases "end_line m1")
    case (Inl e)
    with scan m1 step loop c show ?thesis by (cases e) (auto simp: refines_def bs read_bytes_append)
  next
    case m2: (Inr m2)
    let ?mem = "if length ys > 0 then memmove mem buf (buf + ?c) (length ys) else mem"
    have "take (length ys) (drop (buf + ?c) mem) = drop ?c (take buf_len (drop buf mem))" using c by (simp add: drop_take add.commute)
    also have "\<dots> = ys" by (simp add: bs)
    finally have mem: "length ?mem = length mem" "take buf ?mem = take buf mem" "take (length ys) (drop buf ?mem) = ys"
      using assms(2) c by (auto simp: length_memmove take_memmove drop_memmove)
    have "refines m ((xs @ [10]) @ ys) mem buf result (FilterBuf_loop (decoder_of m2) ?mem buf (length ys) result)"
    proof (rule refines_append [where out = "[]"])
      show "read_bytes m (xs @ [10]) = Inr m2" using m1 step m2 by (simp add: read_bytes_append)
      show "refines m2 ys ?mem (buf + length []) (result + length []) (FilterBuf_loop (decoder_of m2) ?mem buf (length ys) result)"
        using IH [OF _ mem(1,3), of m2] end_line_ok [OF lp(1) m2] by simp
    qed (use mem assms(2) end_line_ok [OF lp(1) m2] lp in auto)
    moreover have "FilterBuf_loop (decoder_of m) mem buf buf_len result = FilterBuf_loop (decoder_of m2) ?mem buf (length ys) result"
      using scan m2 c(2) by (simp only: loop [OF less_le_trans [OF _ c(2)]] bs c(1) sum.case prod.case option.case add_gr_0 zero_less_one simp_thms)
    ultimately show ?thesis by (simp add: bs)
  qed
qed

lemma loop_refines:
  "machine_ok m \<Longrightarrow> buf + buf_len \<le> length mem
    \<Longrightarrow> refines m (take buf_len (drop buf mem)) mem buf result (FilterBuf_loop (decoder_of m) mem buf buf_len result)"
proof (induction buf_len arbitrary: m mem buf result rule: less_induct)
  case (less buf_len)
  let ?bs = "take buf_len (drop buf mem)"
  have len: "length ?bs = buf_len" using less.prems by simp
  consider "buf_len = 0" | (data) n where "0 < buf_len" "m_phase m = Data n" | (eof) "0 < buf_len" "m_phase m = Done"
    | (part) "0 < buf_len" "line_phase m" "10 \<notin> set ?bs" | (line) "0 < buf_len" "line_phase m" "10 \<in> set ?bs"
    by (cases "m_phase m") (auto simp: line_phase_def)
  then show ?case
  proof cases
    case 1
    with less.prems show ?thesis by (auto simp: refines_def)
  next
    case data
    from less.prems data(2,1) show ?thesis by (rule loop_data_refines) (use less in auto)
  next
    case eof
    then show ?thesis
      using less.prems len read_bytes_done [OF eof(2), of ?bs] read_bytes_done_unspecified [OF eof(2), of ?bs]
      by (cases "m_after m + buf_len < 2 ^ 31")
        (auto simp: refines_def FilterBuf_loop_eof machine_ok_def)
  next
    case part
    with less.prems show ?thesis by (intro loop_partial_line_refines)
  next
    case line
    then obtain xs ys where bs: "?bs = xs @ 10 # ys" "10 \<notin> set xs" using split_list_first by metis
    have "length ys < buf_len" using len bs by auto
    then have "refines m' ys mem' buf result (FilterBuf_loop (decoder_of m') mem' buf (length ys) result)"
      if "machine_ok m'" "length mem' = length mem" "take (length ys) (drop buf mem') = ys" for m' mem'
      using less.IH [of "length ys" m' buf mem' result] that less.prems(2) by simp
    with less.prems line(2) bs show ?thesis by (rule loop_complete_line_refines)
  qed
qed

subsection \<open>Size lines\<close>

lemma hex_char_iff: "hex_char c \<longleftrightarrow> CharToDigit 16 c \<noteq> None"
proof -
  have "hex_char c \<longleftrightarrow> (48 \<le> uint c \<and> uint c \<le> 57) \<or> (97 \<le> uint c \<and> uint c \<le> 102) \<or> (65 \<le> uint c \<and> uint c \<le> 70)"
    unfolding hex_char_def by (simp add: word_uint_eq_iff) presburger
  then show ?thesis by (auto simp: CharToDigit_def Let_def)
qed

lemma hex_char_facts: "hex_char c \<Longrightarrow> \<not> LocalIsWhitespace c \<and> c \<notin> {45, 43, 120, 88, 32, 59, 10, 13}"
  unfolding hex_char_def by (auto simp: LocalIsWhitespace_def word_le_nat_alt)

lemma digits_value_hex: "digits_value 16 acc ds = Some v \<Longrightarrow> list_all hex_char ds"
  by (induction "16 :: int" acc ds rule: digits_value.induct) (auto simp: hex_char_iff split: option.splits)

lemma HexStringToInt64_digits:
  assumes "list_all hex_char ds"
  shows "HexStringToInt64 ds = (True, v) \<longleftrightarrow> ds \<noteq> [] \<and> digits_value 16 0 ds = Some v \<and> v < 2 ^ 63"
proof (cases ds)
  case Nil
  then show ?thesis by (simp add: HexStringToInt64_def IteratorRangeToNumber_def Base_Invoke_def)
next
  case (Cons c cs)
  let ?t = "signed_traits 64 16"
  have c: "\<not> LocalIsWhitespace c" "c \<noteq> 45" "c \<noteq> 43" using assms Cons hex_char_facts [of c] by auto
  have "\<not> hex_prefix ?t ds"
    using assms hex_char_facts [of "ds ! 1"] by (auto simp: hex_prefix_def list_all_length)
  then have "Base_Invoke ?t False ds = (True, v) \<longleftrightarrow> ds \<noteq> [] \<and> digits_value 16 0 ds = Some v \<and> v < 2 ^ 63"
    by (subst Base_Invoke_pos) (auto simp: signed_traits_def)
  with c Cons show ?thesis by (auto simp: HexStringToInt64_def IteratorRangeToNumber_def split: prod.splits)
qed

lemma rstrip_append: "ds = [] \<or> last ds \<noteq> 32 \<Longrightarrow> rev (dropWhile (\<lambda>c. c = 32) (rev (ds @ replicate k 32))) = ds"
  by (cases ds rule: rev_cases) (auto simp: dropWhile_append)

lemma rstrip_spaces: "\<exists>k. s = rev (dropWhile (\<lambda>c. c = 32) (rev s)) @ replicate k (32 :: u8)"
proof -
  have "rev s = takeWhile (\<lambda>c. c = 32) (rev s) @ dropWhile (\<lambda>c. c = 32) (rev s)" by simp
  moreover have "takeWhile (\<lambda>c. c = 32) (rev s) = replicate (length (takeWhile (\<lambda>c. c = 32) (rev s))) 32"
    by (rule replicate_length_same [symmetric]) (auto dest: set_takeWhileD)
  ultimately have "s = rev (dropWhile (\<lambda>c. c = 32) (rev s)) @ rev (replicate (length (takeWhile (\<lambda>c. c = 32) (rev s))) 32)"
    by (metis rev_append rev_rev_ident)
  then show ?thesis by auto
qed

lemma ParseChunkSize_exact:
  "ParseChunkSize s = Some v \<longleftrightarrow> (\<exists>ds k. s = ds @ replicate k 32 \<and> ds \<noteq> [] \<and> digits_value 16 0 ds = Some v \<and> v < 2 ^ 63)"
proof
  assume "ParseChunkSize s = Some v"
  then have "list_all hex_char (rev (dropWhile (\<lambda>c. c = 32) (rev s)))"
    and "HexStringToInt64 (rev (dropWhile (\<lambda>c. c = 32) (rev s))) = (True, v)"
    by (auto simp: ParseChunkSize_def Let_def split: if_splits prod.splits)
  then show "\<exists>ds k. s = ds @ replicate k 32 \<and> ds \<noteq> [] \<and> digits_value 16 0 ds = Some v \<and> v < 2 ^ 63"
    using HexStringToInt64_digits rstrip_spaces [of s] by blast
next
  assume "\<exists>ds k. s = ds @ replicate k 32 \<and> ds \<noteq> [] \<and> digits_value 16 0 ds = Some v \<and> v < 2 ^ 63"
  then obtain ds k where s: "s = ds @ replicate k 32" "ds \<noteq> []" "digits_value 16 0 ds = Some v" "v < 2 ^ 63" by blast
  have hex: "list_all hex_char ds" by (rule digits_value_hex [OF s(3)])
  have "rev (dropWhile (\<lambda>c. c = 32) (rev s)) = ds"
    unfolding s(1) using hex s(2) hex_char_facts [of "last ds"] by (intro rstrip_append) (auto simp: list_all_iff)
  moreover have "HexStringToInt64 ds = (True, v)" using HexStringToInt64_digits [OF hex] s by simp
  ultimately show "ParseChunkSize s = Some v"
    using hex digits_value_ge [OF s(3)] by (simp add: ParseChunkSize_def)
qed

subsection \<open>Streams\<close>

text \<open>A stream is handed to the decoder in pieces; the result is the final decoder and the concatenation of what each call left at
  the start of its buffer, or \<open>None\<close> when a call reports an error.\<close>

fun feed :: "HttpChunkedDecoder \<Rightarrow> buffer list \<Rightarrow> (HttpChunkedDecoder \<times> buffer) option exec" where
  "feed d [] = Inr (Some (d, []))"
| "feed d (p # ps) =
     bind_exec (FilterBuf d True p) (\<lambda>(d', mem, r).
       case r of None \<Rightarrow> Inr None
       | Some k \<Rightarrow> bind_exec (feed d' ps) (\<lambda>res. Inr (map_option (\<lambda>(d'', out). (d'', take k mem @ out)) res)))"

lemma FilterBuf_refines: "machine_ok m \<Longrightarrow> refines m bs bs 0 0 (FilterBuf (decoder_of m) True bs)"
  using loop_refines [of m 0 "length bs" bs 0] by (simp add: FilterBuf_def)

lemma feed_refines:
  "machine_ok m \<Longrightarrow>
    (case read_bytes m (concat ps) of
       Inr m' \<Rightarrow> machine_ok m' \<and> (\<exists>out. feed (decoder_of m) ps = Inr (Some (decoder_of m', out)) \<and> m_out m' = m_out m @ out)
     | Inl Malformed \<Rightarrow> feed (decoder_of m) ps = Inr None
     | Inl Unspecified \<Rightarrow> True)"
proof (induction ps arbitrary: m)
  case (Cons p ps)
  note step = FilterBuf_refines [OF Cons.prems, of p]
  show ?case
  proof (cases "read_bytes m p")
    case (Inl e)
    with step show ?thesis by (cases e) (auto simp: refines_def read_bytes_append)
  next
    case (Inr m1)
    with step obtain mem k where "machine_ok m1" "FilterBuf (decoder_of m) True p = Inr (decoder_of m1, mem, Some k)"
        "m_out m1 = m_out m @ take k mem"
      by (auto simp: refines_def)
    with Cons.IH [of m1] Inr show ?thesis
      by (auto simp: read_bytes_append split: sum.splits verdict.splits)
  qed
qed simp

subsection \<open>The coding of a body\<close>

text \<open>A chunk is its size as text, its extension and its data; the size is hexadecimal and may be followed by spaces.\<close>

type_synonym chunk = "buffer \<times> buffer \<times> buffer"

definition size_line :: "buffer \<Rightarrow> buffer \<Rightarrow> nat \<Rightarrow> bool" where
  "size_line sz ext n \<longleftrightarrow>
     (\<exists>ds k. sz = ds @ replicate k 32 \<and> ds \<noteq> [] \<and> digits_value 16 0 ds = Some (int n)) \<and> n < 2 ^ 63
     \<and> (ext = [] \<or> hd ext = 59) \<and> 10 \<notin> set ext \<and> 13 \<notin> set ext \<and> length (sz @ ext) \<le> kMaxLineBufLen"

definition encode_chunk :: "chunk \<Rightarrow> buffer" where
  "encode_chunk c = (case c of (sz, ext, body) \<Rightarrow> sz @ ext @ [13, 10] @ body @ [13, 10])"

definition chunk_ok :: "chunk \<Rightarrow> bool" where
  "chunk_ok c \<longleftrightarrow> (case c of (sz, ext, body) \<Rightarrow> body \<noteq> [] \<and> size_line sz ext (length body))"

definition trailer_ok :: "buffer \<Rightarrow> bool" where
  "trailer_ok l \<longleftrightarrow> l \<noteq> [] \<and> 10 \<notin> set l \<and> 13 \<notin> set l \<and> length l \<le> kMaxLineBufLen"

definition encode_body :: "chunk list \<Rightarrow> buffer \<Rightarrow> buffer \<Rightarrow> buffer list \<Rightarrow> buffer" where
  "encode_body chunks sz ext trailer =
     concat (map encode_chunk chunks) @ sz @ ext @ [13, 10] @ concat (map (\<lambda>l. l @ [13, 10]) trailer) @ [13, 10]"

definition machine_at :: "phase \<Rightarrow> buffer \<Rightarrow> machine" where
  "machine_at p out = \<lparr>m_phase = p, m_line = [], m_cr = False, m_out = out, m_after = 0\<rparr>"

lemma read_bytes_plain:
  "line_phase m \<Longrightarrow> \<not> m_cr m \<Longrightarrow> 10 \<notin> set l \<Longrightarrow> 13 \<notin> set l \<Longrightarrow> length (m_line m) + length l \<le> kMaxLineBufLen
    \<Longrightarrow> read_bytes m l = Inr (m\<lparr>m_line := m_line m @ l\<rparr>)"
proof (induction l arbitrary: m)
  case (Cons b l)
  then show ?case using Cons.IH [of "m\<lparr>m_line := m_line m @ [b]\<rparr>"] by (simp add: read_byte_line line_phase_def)
qed simp

lemma read_bytes_crlf: "line_phase m \<Longrightarrow> \<not> m_cr m \<Longrightarrow> read_bytes m [13, 10] = end_line (m\<lparr>m_cr := True\<rparr>)"
  by (cases "m_phase m"; cases "end_line (m\<lparr>m_cr := True\<rparr>)") (simp_all add: read_byte_def line_phase_def)

lemma read_line_at:
  assumes "p \<in> {Size_Line, Data_End, Trailer}" "10 \<notin> set l" "13 \<notin> set l" "length l \<le> kMaxLineBufLen"
  shows "read_bytes (machine_at p out) (l @ [13, 10] @ rest) =
    (case end_line \<lparr>m_phase = p, m_line = l, m_cr = True, m_out = out, m_after = 0\<rparr> of Inl e \<Rightarrow> Inl e | Inr m \<Rightarrow> read_bytes m rest)"
proof -
  have "line_phase (machine_at p out)" using assms(1) by (simp add: line_phase_def machine_at_def)
  moreover have "read_bytes (machine_at p out) l = Inr \<lparr>m_phase = p, m_line = l, m_cr = False, m_out = out, m_after = 0\<rparr>"
    using read_bytes_plain [OF \<open>line_phase _\<close>, of l] assms by (simp add: machine_at_def)
  moreover have "read_bytes \<lparr>m_phase = p, m_line = l, m_cr = False, m_out = out, m_after = 0\<rparr> [13, 10]
      = end_line \<lparr>m_phase = p, m_line = l, m_cr = True, m_out = out, m_after = 0\<rparr>"
    using assms(1) by (subst read_bytes_crlf) (auto simp: line_phase_def)
  ultimately show ?thesis by (simp only: read_bytes_append sum.case)
qed

lemma size_line_read:
  assumes "size_line sz ext n"
  shows "read_bytes (machine_at Size_Line out) (sz @ ext @ [13, 10] @ rest)
    = read_bytes (machine_at (if n = 0 then Trailer else Data n) out) rest"
proof -
  obtain ds k where sz: "sz = ds @ replicate k 32" "ds \<noteq> []" "digits_value 16 0 ds = Some (int n)"
    using assms by (auto simp: size_line_def)
  have chars: "c \<notin> {59, 10, 13}" if "c \<in> set sz" for c
    using that sz(1) digits_value_hex [OF sz(3)] hex_char_facts [of c] by (auto simp: list_all_iff)
  have "takeWhile (\<lambda>c. c \<noteq> 59) ext = []" using assms by (cases ext) (auto simp: size_line_def)
  then have "takeWhile (\<lambda>c. c \<noteq> 59) (sz @ ext) = sz" using chars by (subst takeWhile_append2) auto
  moreover have "ParseChunkSize sz = Some (int n)" using assms sz by (auto simp: ParseChunkSize_exact size_line_def)
  ultimately have "end_line \<lparr>m_phase = Size_Line, m_line = sz @ ext, m_cr = True, m_out = out, m_after = 0\<rparr>
      = Inr (machine_at (if n = 0 then Trailer else Data n) out)"
    by (simp add: end_line_def machine_at_def)
  moreover have "10 \<notin> set (sz @ ext)" "13 \<notin> set (sz @ ext)" "length (sz @ ext) \<le> kMaxLineBufLen"
    using chars assms by (auto simp: size_line_def)
  ultimately show ?thesis using read_line_at [of Size_Line "sz @ ext" out rest] by simp
qed

lemma chunk_read:
  assumes "chunk_ok (sz, ext, body)"
  shows "read_bytes (machine_at Size_Line out) (encode_chunk (sz, ext, body) @ rest) = read_bytes (machine_at Size_Line (out @ body)) rest"
proof -
  have "read_bytes (machine_at (Data (length body)) out) body = Inr (machine_at Data_End (out @ body))"
    using assms read_bytes_data [of "machine_at (Data (length body)) out" "length body" body] by (simp add: machine_at_def chunk_ok_def)
  moreover have "read_bytes (machine_at Data_End (out @ body)) ([13, 10] @ rest) = read_bytes (machine_at Size_Line (out @ body)) rest"
    using read_line_at [of Data_End "[]" "out @ body" rest] by (simp add: end_line_def machine_at_def)
  ultimately show ?thesis
    using assms size_line_read [of sz ext "length body" out "body @ [13, 10] @ rest"]
    by (auto simp: chunk_ok_def encode_chunk_def read_bytes_append)
qed

lemma chunks_read:
  "list_all chunk_ok chunks \<Longrightarrow> read_bytes (machine_at Size_Line out) (concat (map encode_chunk chunks) @ rest)
    = read_bytes (machine_at Size_Line (out @ concat (map (\<lambda>(sz, ext, body). body) chunks))) rest"
  by (induction chunks arbitrary: out) (auto simp: chunk_read)

lemma trailer_read:
  "list_all trailer_ok ls \<Longrightarrow> read_bytes (machine_at Trailer out) (concat (map (\<lambda>l. l @ [13, 10]) ls) @ rest) = read_bytes (machine_at Trailer out) rest"
proof (induction ls)
  case (Cons l ls)
  then have "read_bytes (machine_at Trailer out) (l @ [13, 10] @ concat (map (\<lambda>l. l @ [13, 10]) ls) @ rest)
      = read_bytes (machine_at Trailer out) (concat (map (\<lambda>l. l @ [13, 10]) ls) @ rest)"
    by (subst read_line_at) (auto simp: trailer_ok_def end_line_def machine_at_def)
  with Cons show ?case by simp
qed simp

lemma body_read:
  assumes "list_all chunk_ok chunks" "size_line sz ext 0" "list_all trailer_ok trailer" "length after < 2 ^ 31"
  shows "read_bytes machine_init (encode_body chunks sz ext trailer @ after)
    = Inr ((machine_at Done (concat (map (\<lambda>(sz, ext, body). body) chunks)))\<lparr>m_after := length after\<rparr>)"
proof -
  let ?out = "concat (map (\<lambda>(sz, ext, body). body) chunks)"
  have init: "machine_init = machine_at Size_Line []" by (simp add: machine_init_def machine_at_def)
  have "read_bytes (machine_at Trailer ?out) ([13, 10] @ after) = read_bytes (machine_at Done ?out) after"
    using read_line_at [of Trailer "[]" ?out after] by (simp add: end_line_def machine_at_def)
  moreover have "read_bytes (machine_at Done ?out) after = Inr ((machine_at Done ?out)\<lparr>m_after := length after\<rparr>)"
    using assms(4) by (subst read_bytes_done) (auto simp: machine_at_def)
  moreover have enc: "encode_body chunks sz ext trailer @ after = concat (map encode_chunk chunks)
      @ (sz @ ext @ [13, 10] @ (concat (map (\<lambda>l. l @ [13, 10]) trailer) @ ([13, 10] @ after)))"
    by (simp add: encode_body_def)
  ultimately show ?thesis
    unfolding init enc chunks_read [OF assms(1)] size_line_read [OF assms(2)] by (simp only: trailer_read [OF assms(3)] append_Nil simp_thms if_True)
qed

subsection \<open>Properties\<close>

lemma decoder_init: "HttpChunkedDecoder_ctor = decoder_of machine_init" "machine_ok machine_init"
  by (simp_all add: HttpChunkedDecoder_ctor_def decoder_of_def machine_init_def machine_ok_def)

text \<open>Outside the strict syntax the result depends on the cut: a carriage return at the end of a buffer is dropped whatever follows
  it.\<close>

lemma chunked_bare_cr:
  "feed HttpChunkedDecoder_ctor [[49, 13, 48, 10]] = Inr None"
  "map_sum id (map_option (\<lambda>(d, out). (chunk_remaining d, out))) (feed HttpChunkedDecoder_ctor [[49, 13], [48, 10]]) = Inr (Some (16, []))"
proof -
  have "ParseChunkSize [49, 13, 48] = None" "ParseChunkSize [49, 48] = Some 16" by code_simp+
  note scan = this FilterBuf_def FilterBuf_loop.simps [of _ _ _ "Suc _"] HttpChunkedDecoder_ctor_def ScanForChunkRemaining_def
    scan_line_def cast_int_def strip_cr_def
  show "feed HttpChunkedDecoder_ctor [[49, 13, 48, 10]] = Inr None"
    "map_sum id (map_option (\<lambda>(d, out). (chunk_remaining d, out))) (feed HttpChunkedDecoder_ctor [[49, 13], [48, 10]]) = Inr (Some (16, []))"
    by (simp_all add: scan)
qed

text \<open>The streams for which the machine has no answer: a carriage return that no line feed follows, or more than 16384 bytes.\<close>

definition bare_cr :: "buffer \<Rightarrow> bool" where
  "bare_cr s \<longleftrightarrow> (\<exists>xs b ys. s = xs @ [13, b] @ ys \<and> b \<noteq> 10)"

lemma bare_cr_Cons: "bare_cr s \<Longrightarrow> bare_cr (x # s)"
proof -
  assume "bare_cr s"
  then obtain xs b ys where "s = xs @ [13, b] @ ys" "b \<noteq> 10" by (auto simp: bare_cr_def)
  then have "x # s = (x # xs) @ [13, b] @ ys" "b \<noteq> 10" by simp_all
  then show ?thesis unfolding bare_cr_def by blast
qed

lemma bare_cr_here: "b \<noteq> 10 \<Longrightarrow> bare_cr (13 # b # s)"
proof -
  assume "b \<noteq> 10"
  moreover have "13 # b # s = [] @ [13, b] @ s" by simp
  ultimately show ?thesis unfolding bare_cr_def by blast
qed

lemma read_byte_ok: "machine_ok m \<Longrightarrow> read_byte m b = Inr m' \<Longrightarrow> machine_ok m'"
  using end_line_ok [of m m']
  by (auto simp: read_byte_def machine_ok_def line_phase_def split: phase.splits if_splits)

lemma read_byte_progress:
  assumes "machine_ok m" "read_byte m b = Inr m'"
  shows "length (m_line m') \<le> Suc (length (m_line m))" "m_after m' \<le> Suc (m_after m)" "m_cr m' \<Longrightarrow> b = 13"
proof -
  have end_cr: "\<not> m_cr n \<and> m_after n = m_after m \<and> m_line n = []" if "end_line m = Inr n" "line_phase m" for n
    using that by (auto simp: end_line_def line_phase_def split: phase.splits option.splits if_splits)
  show "length (m_line m') \<le> Suc (length (m_line m))" "m_after m' \<le> Suc (m_after m)" "m_cr m' \<Longrightarrow> b = 13"
    using assms end_cr by (auto simp: read_byte_def machine_ok_def line_phase_def split: phase.splits if_splits)
qed

lemma read_byte_unspecified:
  assumes "machine_ok m" "read_byte m b = Inl Unspecified"
  shows "kMaxLineBufLen \<le> length (m_line m) \<or> 2 ^ 31 \<le> Suc (m_after m) \<or> m_cr m \<and> b \<noteq> 10"
  using assms by (auto simp: read_byte_def end_line_def split: phase.splits if_splits option.splits)

lemma read_bytes_unspecified:
  assumes "machine_ok m" "read_bytes m s = Inl Unspecified"
  shows "kMaxLineBufLen < length (m_line m) + length s \<or> 2 ^ 31 \<le> m_after m + length s
    \<or> (\<exists>b s'. m_cr m \<and> s = b # s' \<and> b \<noteq> 10) \<or> bare_cr s"
  using assms
proof (induction s arbitrary: m)
  case (Cons b s)
  show ?case
  proof (cases "read_byte m b")
    case (Inl e)
    then show ?thesis using Cons.prems read_byte_unspecified [of m b] by auto
  next
    case (Inr m')
    note step = read_byte_ok [OF Cons.prems(1) Inr] read_byte_progress [OF Cons.prems(1) Inr]
    have "read_bytes m' s = Inl Unspecified" using Cons.prems(2) Inr by simp
    from Cons.IH [OF step(1) this] step(2-4) show ?thesis by (auto intro: bare_cr_Cons bare_cr_here)
  qed
qed simp

text \<open>C17. The decoder refines a strict machine that reads one byte at a time, however the stream is cut into buffers: when the machine
  reads the whole stream, the decoder reports no error, ends in the corresponding state, and what it leaves in its buffers is the
  machine's output; when the machine finds a malformed size line or a chunk that is not followed by an empty line, the decoder
  reports an error. The sizes the machine reads from a line are those \<^verbatim>\<open>ParseChunkSize\<close> accepts: exactly the hexadecimal numbers below
  \<open>2 ^ 63\<close>, with spaces after them at most. The machine gives one of these two answers for every stream of at most 16384 bytes in which each carriage return
  is followed by a line feed or ends the stream, and no answer only for a carriage return inside a line, a line of more than
  16384 bytes or more than \<open>2 ^ 31 - 1\<close> bytes after the end. Nothing is stated of the decoder there, and nothing of the kind holds: it
  can accept such a stream in one cut and refuse it in another.\<close>

theorem chunked_decoder_refines:
  "(\<forall>m. read_bytes machine_init (concat pieces) = Inr m \<longrightarrow> feed HttpChunkedDecoder_ctor pieces = Inr (Some (decoder_of m, m_out m)))
   \<and> (read_bytes machine_init (concat pieces) = Inl Malformed \<longrightarrow> feed HttpChunkedDecoder_ctor pieces = Inr None)
   \<and> (length (concat pieces) \<le> kMaxLineBufLen \<and> \<not> bare_cr (concat pieces) \<longrightarrow> read_bytes machine_init (concat pieces) \<noteq> Inl Unspecified)
   \<and> (\<exists>ps qs. concat ps = concat qs \<and> read_bytes machine_init (concat ps) = Inl Unspecified
        \<and> feed HttpChunkedDecoder_ctor ps = Inr None \<and> feed HttpChunkedDecoder_ctor qs \<noteq> Inr None)
   \<and> (\<forall>l v. ParseChunkSize l = Some v \<longleftrightarrow> (\<exists>ds k. l = ds @ replicate k 32 \<and> ds \<noteq> [] \<and> digits_value 16 0 ds = Some v \<and> v < 2 ^ 63))"
proof (intro conjI)
  show "\<forall>l v. ParseChunkSize l = Some v \<longleftrightarrow> (\<exists>ds k. l = ds @ replicate k 32 \<and> ds \<noteq> [] \<and> digits_value 16 0 ds = Some v \<and> v < 2 ^ 63)"
    using ParseChunkSize_exact by blast
  show "length (concat pieces) \<le> kMaxLineBufLen \<and> \<not> bare_cr (concat pieces) \<longrightarrow> read_bytes machine_init (concat pieces) \<noteq> Inl Unspecified"
    using read_bytes_unspecified [OF decoder_init(2), of "concat pieces"] by (auto simp: machine_init_def)
  have "concat [[49, 13, 48, 10]] = concat [[49, 13], [48, 10 :: u8]]" by simp
  moreover have "read_bytes machine_init (concat [[49, 13, 48, 10]]) = Inl Unspecified"
    by (simp add: machine_init_def read_byte_def)
  moreover have "feed HttpChunkedDecoder_ctor [[49, 13], [48, 10]] \<noteq> Inr None" using chunked_bare_cr(2) by (auto simp del: feed.simps)
  ultimately show "\<exists>ps qs. concat ps = concat qs \<and> read_bytes machine_init (concat ps) = Inl Unspecified
        \<and> feed HttpChunkedDecoder_ctor ps = Inr None \<and> feed HttpChunkedDecoder_ctor qs \<noteq> Inr None"
    using chunked_bare_cr(1) by blast
qed (use feed_refines [OF decoder_init(2), of pieces] in \<open>auto simp: decoder_init machine_init_def\<close>)

theorem chunked_decoder_refines_witness:
  "feed HttpChunkedDecoder_ctor [bytes ''2'', [13], [10, 65], [66, 13, 10] @ bytes ''0'' @ [13, 10, 13, 10]]
      = Inr (Some (decoder_of \<lparr>m_phase = Done, m_line = [], m_cr = False, m_out = [65, 66], m_after = 0\<rparr>, [65, 66]))
   \<and> feed HttpChunkedDecoder_ctor [bytes ''1x'', [13, 10]] = Inr None"
proof -
  have "ParseChunkSize [50] = Some 2" "ParseChunkSize [48] = Some 0" "ParseChunkSize [49, 120] = None" by code_simp+
  then have "read_bytes machine_init (concat [bytes ''2'', [13], [10, 65], [66, 13, 10] @ bytes ''0'' @ [13, 10, 13, 10]])
      = Inr \<lparr>m_phase = Done, m_line = [], m_cr = False, m_out = [65, 66], m_after = 0\<rparr>"
    "read_bytes machine_init (concat [bytes ''1x'', [13, 10]]) = Inl Malformed"
    by (simp_all add: bytes_def machine_init_def read_byte_def end_line_def)
  with chunked_decoder_refines [of "[bytes ''2'', [13], [10, 65], [66, 13, 10] @ bytes ''0'' @ [13, 10, 13, 10]]"]
    chunked_decoder_refines [of "[bytes ''1x'', [13, 10]]"]
  show ?thesis by (simp del: feed.simps)
qed

text \<open>C18. Decoding inverts the coding: a body sent in chunks of any sizes, with extensions, trailer lines and any bytes after it, is
  recovered exactly, however the network cuts the bytes, and the decoder knows that the body is complete and how many bytes
  follow.\<close>

theorem chunked_round_trip:
  assumes "list_all chunk_ok chunks" "size_line sz ext 0" "list_all trailer_ok trailer" "length after < 2 ^ 31"
    and "concat pieces = encode_body chunks sz ext trailer @ after"
  shows "\<exists>d. feed HttpChunkedDecoder_ctor pieces = Inr (Some (d, concat (map (\<lambda>(sz, ext, body). body) chunks)))
    \<and> reached_eof d \<and> bytes_after_eof d = int (length after)"
  using feed_refines [OF decoder_init(2), of pieces] body_read [OF assms(1-4)] assms(5)
  by (auto simp: decoder_init(1) machine_init_def machine_at_def decoder_of_def)

theorem chunked_round_trip_witness:
  "\<exists>d. feed HttpChunkedDecoder_ctor [bytes ''2'', [13], [10, 65], [66, 13, 10] @ bytes ''0'' @ [13, 10, 13, 10, 7]] = Inr (Some (d, [65, 66]))
    \<and> reached_eof d \<and> bytes_after_eof d = 1"
proof -
  have line: "size_line ds [] n" if "ds \<noteq> []" "digits_value 16 0 ds = Some (int n)" "n < 2 ^ 63" "length ds \<le> kMaxLineBufLen" for ds n
    unfolding size_line_def using that by (auto intro: exI [of _ ds] exI [of _ 0])
  have "digits_value 16 0 (bytes ''2'') = Some (int 2)" "digits_value 16 0 (bytes ''0'') = Some (int 0)" by code_simp+
  then have "size_line (bytes ''2'') [] 2" "size_line (bytes ''0'') [] 0" by (auto intro: line simp: bytes_def)
  then show ?thesis
    using chunked_round_trip [of "[(bytes ''2'', [], [65, 66])]" "bytes ''0''" "[]" "[]" "[7]"
        "[bytes ''2'', [13], [10, 65], [66, 13, 10] @ bytes ''0'' @ [13, 10, 13, 10, 7]]"]
    by (simp add: chunk_ok_def encode_body_def encode_chunk_def bytes_def flip: numeral_2_eq_2 del: feed.simps)
qed

end
