(* ===== verification/String_Piece.thy ===== *)
theory String_Piece
  imports Prelude
begin

text \<open>
  The searches of \<^verbatim>\<open>StringPiece\<close>, \<^verbatim>\<open>src/string_piece.cpp\<close> (the functions over \<^verbatim>\<open>char\<close>).

  A piece is the list of its bytes, a position a natural number, and \<^verbatim>\<open>npos\<close> as a result is \<open>None\<close>. The lookup table of the
  character searches is the array the code builds, and each loop is a recursion of its own, so that the theorem at the end, which
  says what every search returns, is about the loops and the table.
\<close>

subsection \<open>Loops\<close>

text \<open>\<^verbatim>\<open>for (size_t i = pos; i < self.size(); ++i)\<close> and \<^verbatim>\<open>for (size_t i = ...;; --i)\<close> with a break at zero.\<close>

function index_up :: "(u8 \<Rightarrow> bool) \<Rightarrow> buffer \<Rightarrow> nat \<Rightarrow> nat option" where
  "index_up P self i = (if i < length self then (if P (self ! i) then Some i else index_up P self (Suc i)) else None)"
  by pat_completeness auto

termination
  by (relation "measure (\<lambda>(P, self, i). length self - i)") auto

declare index_up.simps [simp del]

primrec index_down :: "(u8 \<Rightarrow> bool) \<Rightarrow> buffer \<Rightarrow> nat \<Rightarrow> nat option" where
  "index_down P self 0 = (if P (self ! 0) then Some 0 else None)"
| "index_down P self (Suc i) = (if P (self ! Suc i) then Some (Suc i) else index_down P self i)"

subsection \<open>The searches\<close>

definition BuildLookupTable :: "buffer \<Rightarrow> bool list" where
  "BuildLookupTable characters_wanted = fold (\<lambda>c table. table[unat c := True]) characters_wanted (replicate 256 False)"

definition piece_copy :: "buffer \<Rightarrow> nat \<Rightarrow> nat \<Rightarrow> buffer exec" where
  "piece_copy self n pos = (if pos > length self then Inl Undefined else Inr (take (min (length self - pos) n) (drop pos self)))"

text \<open>\<^verbatim>\<open>std::search\<close>: the first place from \<open>i\<close> on where the text occurs, or the end.\<close>

function std_search :: "buffer \<Rightarrow> nat \<Rightarrow> buffer \<Rightarrow> nat" where
  "std_search self i s =
     (if length self \<le> i \<or> length self < i + length s then (if s = [] then i else length self)
      else if take (length s) (drop i self) = s then i else std_search self (Suc i) s)"
  by pat_completeness auto

termination
  by (relation "measure (\<lambda>(self, i, s). length self - i)") auto

declare std_search.simps [simp del]

definition piece_find :: "buffer \<Rightarrow> buffer \<Rightarrow> nat \<Rightarrow> nat option" where
  "piece_find self s pos =
     (if pos > length self then None
      else let xpos = std_search self pos s in if xpos + length s \<le> length self then Some xpos else None)"

definition piece_find_char :: "buffer \<Rightarrow> u8 \<Rightarrow> nat \<Rightarrow> nat option" where
  "piece_find_char self c pos = (if pos \<ge> length self then None else index_up (\<lambda>x. x = c) self pos)"

text \<open>\<^verbatim>\<open>std::find_end\<close>: the last place not after \<open>i\<close> where the text occurs.\<close>

primrec find_end :: "buffer \<Rightarrow> buffer \<Rightarrow> nat \<Rightarrow> nat option" where
  "find_end self s 0 = (if take (length s) self = s then Some 0 else None)"
| "find_end self s (Suc i) = (if take (length s) (drop (Suc i) self) = s then Some (Suc i) else find_end self s i)"

definition piece_rfind :: "buffer \<Rightarrow> buffer \<Rightarrow> nat \<Rightarrow> nat option" where
  "piece_rfind self s pos =
     (if length self < length s then None
      else if s = [] then Some (min (length self) pos)
      else find_end (take (min (length self - length s) pos + length s) self) s (min (length self - length s) pos))"

definition piece_rfind_char :: "buffer \<Rightarrow> u8 \<Rightarrow> nat \<Rightarrow> nat option" where
  "piece_rfind_char self c pos = (if self = [] then None else index_down (\<lambda>x. x = c) self (min pos (length self - 1)))"

definition find_first_of :: "buffer \<Rightarrow> buffer \<Rightarrow> nat \<Rightarrow> nat option" where
  "find_first_of self s pos =
     (if self = [] \<or> s = [] then None
      else if length s = 1 then piece_find_char self (s ! 0) pos
      else let lookup = BuildLookupTable s in index_up (\<lambda>c. lookup ! unat c) self pos)"

definition find_first_not_of_char :: "buffer \<Rightarrow> u8 \<Rightarrow> nat \<Rightarrow> nat option" where
  "find_first_not_of_char self c pos = (if self = [] then None else index_up (\<lambda>x. x \<noteq> c) self pos)"

definition find_first_not_of :: "buffer \<Rightarrow> buffer \<Rightarrow> nat \<Rightarrow> nat option" where
  "find_first_not_of self s pos =
     (if self = [] then None
      else if s = [] then Some 0
      else if length s = 1 then find_first_not_of_char self (s ! 0) pos
      else let lookup = BuildLookupTable s in index_up (\<lambda>c. \<not> lookup ! unat c) self pos)"

definition find_last_of :: "buffer \<Rightarrow> buffer \<Rightarrow> nat \<Rightarrow> nat option" where
  "find_last_of self s pos =
     (if self = [] \<or> s = [] then None
      else if length s = 1 then piece_rfind_char self (s ! 0) pos
      else let lookup = BuildLookupTable s in index_down (\<lambda>c. lookup ! unat c) self (min pos (length self - 1)))"

definition find_last_not_of_char :: "buffer \<Rightarrow> u8 \<Rightarrow> nat \<Rightarrow> nat option" where
  "find_last_not_of_char self c pos = (if self = [] then None else index_down (\<lambda>x. x \<noteq> c) self (min pos (length self - 1)))"

definition find_last_not_of :: "buffer \<Rightarrow> buffer \<Rightarrow> nat \<Rightarrow> nat option" where
  "find_last_not_of self s pos =
     (if self = [] then None
      else let i = min pos (length self - 1) in
        if s = [] then Some i
        else if length s = 1 then find_last_not_of_char self (s ! 0) pos
        else let lookup = BuildLookupTable s in index_down (\<lambda>c. \<not> lookup ! unat c) self i)"

definition piece_substr :: "buffer \<Rightarrow> nat \<Rightarrow> nat \<Rightarrow> buffer" where
  "piece_substr self pos n =
     (let pos1 = (if pos > length self then length self else pos);
          n1 = (if n > length self - pos1 then length self - pos1 else n)
      in take n1 (drop pos1 self))"

subsection \<open>What they return\<close>

text \<open>The least place from \<open>pos\<close> on, and the greatest up to \<open>pos\<close>, with a property of places.\<close>

definition least_from :: "(nat \<Rightarrow> bool) \<Rightarrow> nat \<Rightarrow> nat \<Rightarrow> nat option" where
  "least_from Q pos n = (case filter Q [pos..<n] of [] \<Rightarrow> None | i # _ \<Rightarrow> Some i)"

definition greatest_upto :: "(nat \<Rightarrow> bool) \<Rightarrow> nat \<Rightarrow> nat option" where
  "greatest_upto Q n = (if filter Q [0..<n] = [] then None else Some (last (filter Q [0..<n])))"

lemma least_from_step:
  "least_from Q i n = (if i < n then (if Q i then Some i else least_from Q (Suc i) n) else None)"
  by (simp add: least_from_def upt_rec [of i n])

lemma least_from_Some_iff: "least_from Q pos n = Some i \<longleftrightarrow> pos \<le> i \<and> i < n \<and> Q i \<and> (\<forall>j. pos \<le> j \<and> j < i \<longrightarrow> \<not> Q j)"
proof (induction "n - pos" arbitrary: pos)
  case 0
  then show ?case by (subst least_from_step) auto
next
  case (Suc d)
  then have "least_from Q (Suc pos) n = Some i \<longleftrightarrow> Suc pos \<le> i \<and> i < n \<and> Q i \<and> (\<forall>j. Suc pos \<le> j \<and> j < i \<longrightarrow> \<not> Q j)" by simp
  moreover have "(\<forall>j. pos \<le> j \<and> j < i \<longrightarrow> \<not> Q j) \<longleftrightarrow> (pos < i \<longrightarrow> \<not> Q pos) \<and> (\<forall>j. Suc pos \<le> j \<and> j < i \<longrightarrow> \<not> Q j)"
    by (metis Suc_leD Suc_le_eq order_le_less order_refl)
  moreover have "pos < n" using Suc.hyps(2) by simp
  ultimately show ?case by (subst least_from_step) (cases "pos = i"; cases "Q pos"; auto)
qed

lemma greatest_upto_0 [simp]: "greatest_upto Q 0 = None"
  by (simp add: greatest_upto_def)

lemma greatest_upto_Suc: "greatest_upto Q (Suc n) = (if Q n then Some n else greatest_upto Q n)"
  by (simp add: greatest_upto_def)

lemma index_up_eq: "index_up P self i = least_from (\<lambda>j. P (self ! j)) i (length self)"
  by (induction P self i rule: index_up.induct) (subst index_up.simps, subst least_from_step, auto)

lemma index_down_eq: "index_down P self i = greatest_upto (\<lambda>j. P (self ! j)) (Suc i)"
  by (induction i) (simp_all add: greatest_upto_Suc)

lemma lookup_table: "length (BuildLookupTable cs) = 256 \<and> BuildLookupTable cs ! unat c = (c \<in> set cs)"
proof -
  have "length (fold (\<lambda>c table. table[unat c := True]) cs t) = 256
      \<and> (\<forall>c. fold (\<lambda>c table. table[unat c := True]) cs t ! unat (c :: u8) = (c \<in> set cs \<or> t ! unat c))"
    if "length t = 256" for t
    using that
  proof (induction cs arbitrary: t)
    case (Cons a cs)
    have "unat a < 256" using unat_bound [of a] by simp
    with Cons show ?case by (auto simp: nth_list_update word_unat_eq_iff)
  qed simp
  from this [of "replicate 256 False"] unat_bound [of c] show ?thesis by (simp add: BuildLookupTable_def)
qed

lemma singleton_set: "length s = 1 \<Longrightarrow> set s = {s ! 0}"
  by (cases s) auto

lemma std_search_eq:
  "pos \<le> length self \<Longrightarrow>
    (if std_search self pos s + length s \<le> length self then Some (std_search self pos s) else None)
      = least_from (\<lambda>i. take (length s) (drop i self) = s) pos (length self + 1 - length s)"
proof (induction self pos s rule: std_search.induct)
  case (1 self i s)
  show ?case
  proof (cases "length self \<le> i \<or> length self < i + length s")
    case True
    with 1 show ?thesis by (cases s) (auto simp: std_search.simps [of self] least_from_step [of _ i] intro: least_from_step)
  next
    case False
    with 1 show ?thesis by (subst std_search.simps, subst least_from_step) (auto simp: std_search.simps [of self i])
  qed
qed

lemma greatest_upto_cong: "(\<And>i. i < n \<Longrightarrow> Q i = R i) \<Longrightarrow> greatest_upto Q n = greatest_upto R n"
  by (induction n) (simp_all add: greatest_upto_Suc)

lemma find_end_eq: "find_end self s i = greatest_upto (\<lambda>j. take (length s) (drop j self) = s) (Suc i)"
  by (induction i) (simp_all add: greatest_upto_Suc)

lemma piece_find_eq: "piece_find self s pos = least_from (\<lambda>i. take (length s) (drop i self) = s) pos (length self + 1 - length s)"
  using std_search_eq [of pos self s] by (auto simp: piece_find_def Let_def least_from_step [of _ pos])

lemma piece_rfind_eq:
  "piece_rfind self s pos = greatest_upto (\<lambda>i. take (length s) (drop i self) = s) (min (Suc pos) (length self + 1 - length s))"
proof (cases "length self < length s \<or> s = []")
  case True
  have "greatest_upto (\<lambda>i. True) (Suc n) = Some n" for n by (simp add: greatest_upto_Suc)
  with True show ?thesis by (auto simp: piece_rfind_def min_Suc_Suc simp flip: Suc_eq_plus1)
next
  case False
  let ?i = "min (length self - length s) pos"
  have "Suc ?i = min (Suc pos) (length self + 1 - length s)" using False by (auto simp: min_def)
  moreover have "greatest_upto (\<lambda>j. take (length s) (drop j (take (?i + length s) self)) = s) (Suc ?i)
      = greatest_upto (\<lambda>j. take (length s) (drop j self) = s) (Suc ?i)"
    by (rule greatest_upto_cong) (auto simp: drop_take min_def)
  ultimately show ?thesis using False by (simp add: piece_rfind_def find_end_eq)
qed

lemma Suc_min_length: "self \<noteq> [] \<Longrightarrow> Suc (min pos (length self - Suc 0)) = min (Suc pos) (length self)"
  by (cases self) (auto simp: min_def)

lemma piece_find_char_eq: "piece_find_char self c pos = least_from (\<lambda>i. self ! i = c) pos (length self)"
  by (auto simp: piece_find_char_def index_up_eq least_from_step [of _ pos])

lemma piece_rfind_char_eq: "piece_rfind_char self c pos = greatest_upto (\<lambda>i. self ! i = c) (min (Suc pos) (length self))"
  by (cases "self = []") (simp_all add: piece_rfind_char_def index_down_eq Suc_min_length)

lemma least_from_False [simp]: "least_from (\<lambda>i. False) pos n = None"
  by (simp add: least_from_def)

lemma greatest_upto_False [simp]: "greatest_upto (\<lambda>i. False) n = None"
  by (simp add: greatest_upto_def)

lemma find_first_of_eq: "find_first_of self s pos = least_from (\<lambda>i. self ! i \<in> set s) pos (length self)"
  by (auto simp: find_first_of_def Let_def piece_find_char_eq index_up_eq lookup_table singleton_set least_from_step [of _ pos 0])

lemma find_first_not_of_eq:
  "s \<noteq> [] \<or> pos = 0 \<Longrightarrow> find_first_not_of self s pos = least_from (\<lambda>i. self ! i \<notin> set s) pos (length self)"
  by (auto simp: find_first_not_of_def find_first_not_of_char_def Let_def index_up_eq lookup_table singleton_set least_from_step [of _ pos 0]
      least_from_step [of _ 0 "length self"])

lemma find_last_of_eq: "find_last_of self s pos = greatest_upto (\<lambda>i. self ! i \<in> set s) (min (Suc pos) (length self))"
  by (cases "self = []")
    (auto simp: find_last_of_def Let_def piece_rfind_char_eq index_down_eq lookup_table singleton_set Suc_min_length)

lemma find_last_not_of_eq: "find_last_not_of self s pos = greatest_upto (\<lambda>i. self ! i \<notin> set s) (min (Suc pos) (length self))"
proof (cases "self = []")
  case False
  with Suc_min_length [OF False, of pos] show ?thesis
    by (auto simp: find_last_not_of_def find_last_not_of_char_def Let_def index_down_eq lookup_table singleton_set greatest_upto_Suc
        simp flip: Suc_min_length [OF False])
qed (simp add: find_last_not_of_def)

subsection \<open>Properties\<close>

text \<open>C19. Every search of \<^verbatim>\<open>StringPiece\<close> is exact, with the lookup table as with the shortcut for a single character: the
  forward searches return the least place from the given position on where the character is, or is not, in the set or where the
  text occurs, the backward searches the greatest place up to the position, and nothing when there is none. The one exception is
  \<^verbatim>\<open>find_first_not_of\<close> with an empty set, which returns zero whatever the position.\<close>

theorem string_piece_searches:
  "find_first_of self s pos = least_from (\<lambda>i. self ! i \<in> set s) pos (length self)
   \<and> (if s = [] \<and> self \<noteq> [] then find_first_not_of self s pos = Some 0
      else find_first_not_of self s pos = least_from (\<lambda>i. self ! i \<notin> set s) pos (length self))
   \<and> find_last_of self s pos = greatest_upto (\<lambda>i. self ! i \<in> set s) (min (Suc pos) (length self))
   \<and> find_last_not_of self s pos = greatest_upto (\<lambda>i. self ! i \<notin> set s) (min (Suc pos) (length self))
   \<and> piece_find self s pos = least_from (\<lambda>i. take (length s) (drop i self) = s) pos (length self + 1 - length s)
   \<and> piece_rfind self s pos = greatest_upto (\<lambda>i. take (length s) (drop i self) = s) (min (Suc pos) (length self + 1 - length s))
   \<and> piece_find_char self c pos = least_from (\<lambda>i. self ! i = c) pos (length self)
   \<and> piece_rfind_char self c pos = greatest_upto (\<lambda>i. self ! i = c) (min (Suc pos) (length self))"
  by (auto simp: find_first_of_eq find_first_not_of_eq find_last_of_eq find_last_not_of_eq piece_find_eq piece_rfind_eq
      piece_find_char_eq piece_rfind_char_eq find_first_not_of_def [of _ "[]"] find_first_not_of_def [of "[]"] least_from_step [of _ pos 0])

end
