(* ===== verification/Strings.thy ===== *)
theory Strings
  imports String_Piece
begin

text \<open>
  Strings: \<^verbatim>\<open>src/string_util.cpp\<close> and \<^verbatim>\<open>src/string_split.cpp\<close>, over \<^verbatim>\<open>char\<close>.

  The members of \<^verbatim>\<open>std::string\<close> the code calls are defined by what the standard says of them (\<open>std_find_first_of\<close> and so on);
  \<^verbatim>\<open>StringPiece\<close> has its own searches, modelled in \<open>String_Piece\<close>. \<^verbatim>\<open>tolower\<close> is that of the C locale.

  The lemmas say what each loop computes: trimming drops the characters at both ends, replacing is a map, splitting at
  characters and at a text and joining are inverse to each other, and tokens are the non-empty pieces of a split.
\<close>

subsection \<open>Members of \<^verbatim>\<open>std::string\<close>\<close>

definition std_find_first_of :: "buffer \<Rightarrow> buffer \<Rightarrow> nat \<Rightarrow> nat option" where
  "std_find_first_of s cs pos = least_from (\<lambda>i. s ! i \<in> set cs) pos (length s)"

definition std_find_first_not_of :: "buffer \<Rightarrow> buffer \<Rightarrow> nat \<Rightarrow> nat option" where
  "std_find_first_not_of s cs pos = least_from (\<lambda>i. s ! i \<notin> set cs) pos (length s)"

definition std_find_last_not_of :: "buffer \<Rightarrow> buffer \<Rightarrow> nat option" where
  "std_find_last_not_of s cs = greatest_upto (\<lambda>i. s ! i \<notin> set cs) (length s)"

definition std_find :: "buffer \<Rightarrow> buffer \<Rightarrow> nat \<Rightarrow> nat option" where
  "std_find s t pos = least_from (\<lambda>i. take (length t) (drop i s) = t) pos (length s + 1 - length t)"

definition std_substr :: "buffer \<Rightarrow> nat \<Rightarrow> nat \<Rightarrow> buffer" where
  "std_substr s pos n = take n (drop pos s)"

subsection \<open>Case and comparison\<close>

definition ToLowerASCII :: "u8 \<Rightarrow> u8" where
  "ToLowerASCII c = (if 65 \<le> c \<and> c \<le> 90 then c + (97 - 65) else c)"

definition ToUpperASCII :: "u8 \<Rightarrow> u8" where
  "ToUpperASCII c = (if 97 \<le> c \<and> c \<le> 122 then c + (65 - 97) else c)"

fun ToLowerASCIIImpl :: "buffer \<Rightarrow> buffer" where
  "ToLowerASCIIImpl [] = []"
| "ToLowerASCIIImpl (c # str) = ToLowerASCII c # ToLowerASCIIImpl str"

fun ToUpperASCIIImpl :: "buffer \<Rightarrow> buffer" where
  "ToUpperASCIIImpl [] = []"
| "ToUpperASCIIImpl (c # str) = ToUpperASCII c # ToUpperASCIIImpl str"

definition CaseInsensitiveCompare :: "u8 \<Rightarrow> u8 \<Rightarrow> bool" where
  "CaseInsensitiveCompare x y \<longleftrightarrow> ToLowerASCII x = ToLowerASCII y"

text \<open>\<^verbatim>\<open>std::equal\<close> over the first range, which is not the longer one.\<close>

fun std_equal :: "(u8 \<Rightarrow> u8 \<Rightarrow> bool) \<Rightarrow> buffer \<Rightarrow> buffer \<Rightarrow> bool" where
  "std_equal cmp [] ys = True"
| "std_equal cmp (x # xs) (y # ys) = (cmp x y \<and> std_equal cmp xs ys)"
| "std_equal cmp (x # xs) [] = False"

definition StartsWithT :: "buffer \<Rightarrow> buffer \<Rightarrow> bool \<Rightarrow> bool" where
  "StartsWithT str search case_sensitive =
     (if length search > length str then False
      else if case_sensitive then std_equal (=) search str
      else std_equal CaseInsensitiveCompare search str)"

definition EqualsASCII :: "buffer \<Rightarrow> buffer \<Rightarrow> bool \<Rightarrow> bool" where
  "EqualsASCII a b case_sensitive = StartsWithT a b case_sensitive"

definition FullEqualsASCIIT :: "buffer \<Rightarrow> buffer \<Rightarrow> bool \<Rightarrow> bool" where
  "FullEqualsASCIIT str search case_sensitive =
     (if length search \<noteq> length str then False
      else if case_sensitive then str = search
      else std_equal CaseInsensitiveCompare search str)"

definition EndsWithT :: "buffer \<Rightarrow> buffer \<Rightarrow> bool \<Rightarrow> bool" where
  "EndsWithT str search case_sensitive =
     (let str_length = length str; search_length = length search in
      if search_length > str_length then False
      else if case_sensitive then take search_length (drop (str_length - search_length) str) = search
      else std_equal CaseInsensitiveCompare search (drop (str_length - search_length) str))"

fun DoLowerCaseEquals_loop :: "buffer \<Rightarrow> buffer \<Rightarrow> bool" where
  "DoLowerCaseEquals_loop (x # xs) (y # ys) = (if ToLowerASCII x \<noteq> y then False else DoLowerCaseEquals_loop xs ys)"
| "DoLowerCaseEquals_loop _ _ = True"

definition DoLowerCaseEqualsASCII :: "buffer \<Rightarrow> buffer \<Rightarrow> bool" where
  "DoLowerCaseEqualsASCII str lowercase_ascii =
     (if length str \<noteq> length lowercase_ascii then False else DoLowerCaseEquals_loop str lowercase_ascii)"

fun DoIsStringASCII :: "buffer \<Rightarrow> bool" where
  "DoIsStringASCII [] = True"
| "DoIsStringASCII (c # str) = (if c > 0x7F then False else DoIsStringASCII str)"

definition ContainsOnlyChars :: "buffer \<Rightarrow> buffer \<Rightarrow> bool" where
  "ContainsOnlyChars input characters \<longleftrightarrow> find_first_not_of input characters 0 = None"

subsection \<open>Trimming\<close>

definition kWhitespaceASCII :: buffer where
  "kWhitespaceASCII = [0x09, 0x0A, 0x0B, 0x0C, 0x0D, 0x20]"

abbreviation (input) TRIM_NONE :: u32 where "TRIM_NONE \<equiv> 0"
abbreviation (input) TRIM_LEADING :: u32 where "TRIM_LEADING \<equiv> 1"
abbreviation (input) TRIM_TRAILING :: u32 where "TRIM_TRAILING \<equiv> 2"
abbreviation (input) TRIM_ALL :: u32 where "TRIM_ALL \<equiv> 3"

definition TrimStringT :: "buffer \<Rightarrow> buffer \<Rightarrow> u32 \<Rightarrow> u32 \<times> buffer" where
  "TrimStringT input trim_chars positions =
     (let last_char = length input - 1;
          first_good_char = (if positions AND TRIM_LEADING \<noteq> 0 then std_find_first_not_of input trim_chars 0 else Some 0);
          last_good_char = (if positions AND TRIM_TRAILING \<noteq> 0 then std_find_last_not_of input trim_chars else Some last_char)
      in case (first_good_char, last_good_char) of
           (Some i, Some j) \<Rightarrow>
             if input = [] then (TRIM_NONE, [])
             else ((if i = 0 then TRIM_NONE else TRIM_LEADING) OR (if j = last_char then TRIM_NONE else TRIM_TRAILING),
                   std_substr input i (j - i + 1))
         | _ \<Rightarrow> (if input = [] then TRIM_NONE else positions, []))"

definition TrimString :: "buffer \<Rightarrow> buffer \<Rightarrow> bool \<times> buffer" where
  "TrimString input trim_chars = (case TrimStringT input trim_chars TRIM_ALL of (p, out) \<Rightarrow> (p \<noteq> TRIM_NONE, out))"

definition TrimWhitespaceASCII :: "buffer \<Rightarrow> u32 \<Rightarrow> u32 \<times> buffer" where
  "TrimWhitespaceASCII input positions = TrimStringT input kWhitespaceASCII positions"

text \<open>\<^verbatim>\<open>TrimStringPieceT\<close> computes with \<^verbatim>\<open>npos\<close>, the largest \<^verbatim>\<open>size_t\<close>: adding one to it gives zero, and the difference wraps.\<close>

abbreviation (input) npos :: nat where "npos \<equiv> 2 ^ 64 - 1"

definition size_t_of :: "nat option \<Rightarrow> nat" where
  "size_t_of i = (case i of None \<Rightarrow> npos | Some k \<Rightarrow> k)"

definition TrimStringPieceT :: "buffer \<Rightarrow> buffer \<Rightarrow> u32 \<Rightarrow> buffer" where
  "TrimStringPieceT input trim_chars positions =
     (let begin_pos = (if positions AND TRIM_LEADING \<noteq> 0 then size_t_of (find_first_not_of input trim_chars 0) else 0);
          end_pos = (if positions AND TRIM_TRAILING \<noteq> 0 then (size_t_of (find_last_not_of input trim_chars npos) + 1) mod 2 ^ 64
                 else length input)
      in piece_substr input begin_pos ((end_pos + 2 ^ 64 - begin_pos) mod 2 ^ 64))"

subsection \<open>Replacing, collapsing and tokens\<close>

function ReplaceChars_loop :: "buffer \<Rightarrow> buffer \<Rightarrow> buffer \<Rightarrow> nat \<Rightarrow> bool \<Rightarrow> bool \<times> buffer" where
  "ReplaceChars_loop replace_chars replace_with out pos removed =
     (case std_find_first_of out replace_chars pos of
        None \<Rightarrow> (removed, out)
      | Some found \<Rightarrow>
          ReplaceChars_loop replace_chars replace_with (take found out @ replace_with @ drop (found + 1) out)
            (found + length replace_with) True)"
  by pat_completeness auto

termination
  by (relation "measure (\<lambda>(_, _, out, pos, _). length out - pos)") (auto simp: std_find_first_of_def least_from_Some_iff)

declare ReplaceChars_loop.simps [simp del]

definition ReplaceCharsT :: "buffer \<Rightarrow> buffer \<Rightarrow> buffer \<Rightarrow> bool \<times> buffer" where
  "ReplaceCharsT input replace_chars replace_with = ReplaceChars_loop replace_chars replace_with input 0 False"

definition RemoveChars :: "buffer \<Rightarrow> buffer \<Rightarrow> bool \<times> buffer" where
  "RemoveChars input remove_chars = ReplaceCharsT input remove_chars []"

text \<open>\<^verbatim>\<open>wcschr\<close> in \<^verbatim>\<open>IsWhitespace\<close> also finds the terminator; the other characters of the wide set are not values of a \<^verbatim>\<open>char\<close>.\<close>

definition IsWhitespace :: "u8 \<Rightarrow> bool" where
  "IsWhitespace c \<longleftrightarrow> c \<in> set (kWhitespaceASCII @ [0])"

fun Collapse_loop :: "bool \<Rightarrow> buffer \<Rightarrow> bool \<Rightarrow> bool \<Rightarrow> buffer \<Rightarrow> buffer" where
  "Collapse_loop trim_breaks [] in_whitespace already_trimmed result =
     (if in_whitespace \<and> \<not> already_trimmed then butlast result else result)"
| "Collapse_loop trim_breaks (c # text) in_whitespace already_trimmed result =
     (if IsWhitespace c then
        (let result1 = (if \<not> in_whitespace then result @ [32] else result) in
         if trim_breaks \<and> \<not> already_trimmed \<and> (c = 10 \<or> c = 13)
         then Collapse_loop trim_breaks text True True (butlast result1)
         else Collapse_loop trim_breaks text True already_trimmed result1)
      else Collapse_loop trim_breaks text False False (result @ [c]))"

definition CollapseWhitespaceT :: "buffer \<Rightarrow> bool \<Rightarrow> buffer" where
  "CollapseWhitespaceT text trim_sequences_with_line_breaks = Collapse_loop trim_sequences_with_line_breaks text True True []"

function TokenizeT_loop :: "buffer \<Rightarrow> buffer \<Rightarrow> nat option \<Rightarrow> buffer list \<Rightarrow> buffer list" where
  "TokenizeT_loop str delimiters start tokens =
     (case start of
        None \<Rightarrow> tokens
      | Some i \<Rightarrow>
          (case std_find_first_of str delimiters (i + 1) of
             None \<Rightarrow> tokens @ [drop i str]
           | Some e \<Rightarrow>
               TokenizeT_loop str delimiters (std_find_first_not_of str delimiters (e + 1)) (tokens @ [std_substr str i (e - i)])))"
  by pat_completeness auto

termination
  by (relation "measure (\<lambda>(str, _, start, _). case start of None \<Rightarrow> 0 | Some i \<Rightarrow> Suc (length str - i))")
    (auto simp: std_find_first_of_def std_find_first_not_of_def least_from_Some_iff split: option.splits)

declare TokenizeT_loop.simps [simp del]

definition TokenizeT :: "buffer \<Rightarrow> buffer \<Rightarrow> buffer list" where
  "TokenizeT str delimiters = TokenizeT_loop str delimiters (std_find_first_not_of str delimiters 0) []"

fun JoinString_loop :: "buffer \<Rightarrow> buffer list \<Rightarrow> buffer \<Rightarrow> buffer" where
  "JoinString_loop result [] sep = result"
| "JoinString_loop result (p # parts) sep = JoinString_loop (result @ sep @ p) parts sep"

definition JoinStringT :: "buffer list \<Rightarrow> buffer \<Rightarrow> buffer" where
  "JoinStringT parts sep = (case parts of [] \<Rightarrow> [] | p # ps \<Rightarrow> JoinString_loop p ps sep)"

subsection \<open>Splitting\<close>

datatype WhitespaceHandling = KEEP_WHITESPACE | TRIM_WHITESPACE

datatype SplitResult = SPLIT_WANT_ALL | SPLIT_WANT_NONEMPTY

text \<open>What both splitters do with a piece before they append it.\<close>

definition split_piece :: "WhitespaceHandling \<Rightarrow> SplitResult \<Rightarrow> buffer \<Rightarrow> buffer list" where
  "split_piece whitespace result_type piece =
     (let piece1 = (if whitespace = TRIM_WHITESPACE then TrimStringPieceT piece kWhitespaceASCII TRIM_ALL else piece)
      in if result_type = SPLIT_WANT_ALL \<or> piece1 \<noteq> [] then [piece1] else [])"

function SplitStringT_loop :: "buffer \<Rightarrow> buffer \<Rightarrow> WhitespaceHandling \<Rightarrow> SplitResult \<Rightarrow> nat \<Rightarrow> buffer list \<Rightarrow> buffer list" where
  "SplitStringT_loop str delimiter whitespace result_type start result =
     (case find_first_of str delimiter start of
        None \<Rightarrow> result @ split_piece whitespace result_type (piece_substr str start npos)
      | Some e \<Rightarrow>
          SplitStringT_loop str delimiter whitespace result_type (e + 1)
            (result @ split_piece whitespace result_type (piece_substr str start (e - start))))"
  by pat_completeness auto

termination
  by (relation "measure (\<lambda>(str, _, _, _, start, _). length str - start)") (auto simp: find_first_of_eq least_from_Some_iff)

declare SplitStringT_loop.simps [simp del]

definition SplitStringT :: "buffer \<Rightarrow> buffer \<Rightarrow> WhitespaceHandling \<Rightarrow> SplitResult \<Rightarrow> buffer list" where
  "SplitStringT str delimiter whitespace result_type =
     (if str = [] then [] else SplitStringT_loop str delimiter whitespace result_type 0 [])"

function SplitUsingSubstr_loop :: "buffer \<Rightarrow> buffer \<Rightarrow> WhitespaceHandling \<Rightarrow> SplitResult \<Rightarrow> nat \<Rightarrow> buffer list \<Rightarrow> buffer list" where
  "SplitUsingSubstr_loop input delimiter whitespace result_type begin_index result =
     (if delimiter = [] then result
      else case piece_find input delimiter begin_index of
        None \<Rightarrow> result @ split_piece whitespace result_type (piece_substr input begin_index npos)
      | Some end_index \<Rightarrow>
          SplitUsingSubstr_loop input delimiter whitespace result_type (end_index + length delimiter)
            (result @ split_piece whitespace result_type (piece_substr input begin_index (end_index - begin_index))))"
  by pat_completeness auto

termination
  by (relation "measure (\<lambda>(input, _, _, _, i, _). length input + 1 - i)")
    (auto simp: piece_find_eq least_from_Some_iff length_greater_0_conv [symmetric] simp del: length_greater_0_conv)

declare SplitUsingSubstr_loop.simps [simp del]

definition SplitStringUsingSubstrT :: "buffer \<Rightarrow> buffer \<Rightarrow> WhitespaceHandling \<Rightarrow> SplitResult \<Rightarrow> buffer list" where
  "SplitStringUsingSubstrT input delimiter whitespace result_type =
     (if length delimiter = 0 then [input] else SplitUsingSubstr_loop input delimiter whitespace result_type 0 [])"

text \<open>The pair that is appended and whether both parts were found.\<close>

definition AppendStringKeyValue :: "buffer \<Rightarrow> u8 \<Rightarrow> bool \<times> buffer \<times> buffer" where
  "AppendStringKeyValue input delimiter =
     (case find_first_of input [delimiter] 0 of
        None \<Rightarrow> (False, [], [])
      | Some end_key_pos \<Rightarrow>
          let key = piece_substr input 0 end_key_pos;
              remains = piece_substr input end_key_pos (length input - end_key_pos)
          in case find_first_not_of_char remains delimiter 0 of
               None \<Rightarrow> (False, key, [])
             | Some begin_value_pos \<Rightarrow> (True, key, piece_substr remains begin_value_pos (length remains - begin_value_pos)))"

definition SplitStringIntoKeyValuePairsUsingSubstr :: "buffer \<Rightarrow> u8 \<Rightarrow> buffer \<Rightarrow> bool \<times> (buffer \<times> buffer) list" where
  "SplitStringIntoKeyValuePairsUsingSubstr input key_value_delimiter key_value_pair_delimiter =
     (let pairs = SplitStringUsingSubstrT input key_value_pair_delimiter TRIM_WHITESPACE SPLIT_WANT_NONEMPTY;
          results = map (\<lambda>p. AppendStringKeyValue p key_value_delimiter) pairs
      in (list_all fst results, map snd results))"

subsection \<open>Positions and prefixes\<close>

lemma least_from_prefix:
  "pos \<le> length s \<Longrightarrow> least_from (\<lambda>i. P (s ! i)) pos (length s) =
    (if \<exists>c\<in>set (drop pos s). P c then Some (pos + length (takeWhile (\<lambda>c. \<not> P c) (drop pos s))) else None)"
proof (induction "length s - pos" arbitrary: pos)
  case 0
  then show ?case by (subst least_from_step) simp
next
  case (Suc d)
  then have d: "drop pos s = s ! pos # drop (Suc pos) s" by (simp add: Cons_nth_drop_Suc)
  from Suc have "least_from (\<lambda>i. P (s ! i)) (Suc pos) (length s) =
    (if \<exists>c\<in>set (drop (Suc pos) s). P c then Some (Suc pos + length (takeWhile (\<lambda>c. \<not> P c) (drop (Suc pos) s))) else None)" by simp
  with Suc d show ?case by (subst least_from_step) auto
qed

lemma greatest_upto_suffix:
  "greatest_upto (\<lambda>i. P (s ! i)) (length s) =
    (if \<exists>c\<in>set s. P c then Some (length s - 1 - length (takeWhile (\<lambda>c. \<not> P c) (rev s))) else None)"
proof (induction s rule: rev_induct)
  case (snoc x s)
  have "greatest_upto (\<lambda>i. P ((s @ [x]) ! i)) (length s) = greatest_upto (\<lambda>i. P (s ! i)) (length s)"
    by (rule greatest_upto_cong) (simp add: nth_append)
  with snoc show ?case by (auto simp: greatest_upto_Suc)
qed simp

lemma drop_takeWhile_length: "drop (length (takeWhile P s)) s = dropWhile P s"
  by (simp add: dropWhile_eq_drop)

lemma in_set_prefix:
  "pos \<le> length s \<Longrightarrow> least_from (\<lambda>i. s ! i \<in> set cs) pos (length s) =
    (if \<exists>c\<in>set (drop pos s). c \<in> set cs then Some (pos + length (takeWhile (\<lambda>c. c \<notin> set cs) (drop pos s))) else None)"
  using least_from_prefix [of pos s "\<lambda>c. c \<in> set cs"] .

lemma not_in_set_prefix:
  "pos \<le> length s \<Longrightarrow> least_from (\<lambda>i. s ! i \<notin> set cs) pos (length s) =
    (if \<exists>c\<in>set (drop pos s). c \<notin> set cs then Some (pos + length (takeWhile (\<lambda>c. c \<in> set cs) (drop pos s))) else None)"
  using least_from_prefix [of pos s "\<lambda>c. c \<notin> set cs"] by (simp only: not_not)

lemma not_in_set_suffix:
  "greatest_upto (\<lambda>i. s ! i \<notin> set cs) (length s) =
    (if \<exists>c\<in>set s. c \<notin> set cs then Some (length s - 1 - length (takeWhile (\<lambda>c. c \<in> set cs) (rev s))) else None)"
  using greatest_upto_suffix [of "\<lambda>c. c \<notin> set cs" s] by (simp only: not_not)

text \<open>Trimming as a function of the text.\<close>

definition trim :: "buffer \<Rightarrow> buffer \<Rightarrow> buffer" where
  "trim cs s = rev (dropWhile (\<lambda>c. c \<in> set cs) (rev (dropWhile (\<lambda>c. c \<in> set cs) s)))"

lemma rstrip_eq: "rev (dropWhile Q (rev u)) = take (length u - length (takeWhile Q (rev u))) u"
  by (simp add: dropWhile_eq_drop rev_drop)

lemma trim_range:
  assumes "\<exists>c\<in>set s. \<not> Q c"
  defines "f \<equiv> length (takeWhile Q s)" and "l \<equiv> length s - 1 - length (takeWhile Q (rev s))"
  shows "take (l - f + 1) (drop f s) = rev (dropWhile Q (rev (dropWhile Q s)))" "f \<le> l" "l < length s"
proof -
  let ?t = "dropWhile Q s"
  have t: "?t = drop f s" by (simp add: f_def dropWhile_eq_drop)
  have ex: "\<exists>c\<in>set ?t. \<not> Q c" using assms(1) by (metis dropWhile_eq_Nil_conv hd_dropWhile hd_in_set)
  have "rev s = rev ?t @ rev (takeWhile Q s)" by (metis rev_append takeWhile_dropWhile_id)
  then have tw: "takeWhile Q (rev s) = takeWhile Q (rev ?t)" using ex by (metis set_rev takeWhile_append1)
  have "length (takeWhile Q (rev ?t)) < length ?t"
    using ex by (metis length_rev set_rev takeWhile_eq_all_conv takeWhile_dropWhile_id length_append less_add_same_cancel1 length_greater_0_conv dropWhile_eq_Nil_conv)
  then have lt: "length (takeWhile Q (rev s)) < length s - f" using tw by (simp add: t)
  then show "f \<le> l" "l < length s" by (auto simp: l_def)
  have "l - f + 1 = length ?t - length (takeWhile Q (rev ?t))" using lt tw by (simp add: l_def t)
  then show "take (l - f + 1) (drop f s) = rev (dropWhile Q (rev ?t))" by (simp only: rstrip_eq t)
qed

lemma trim_all: "\<forall>c\<in>set s. c \<in> set cs \<Longrightarrow> trim cs s = []"
  by (auto simp: trim_def dest: set_dropWhileD)

lemma TrimStringT_trim: "snd (TrimStringT s cs TRIM_ALL) = trim cs s"
proof (cases "\<exists>c\<in>set s. c \<notin> set cs")
  case True
  then have "s \<noteq> []" by auto
  with True trim_range(1) [of s "\<lambda>c. c \<in> set cs"] show ?thesis
    by (simp add: TrimStringT_def std_find_first_not_of_def std_find_last_not_of_def not_in_set_prefix not_in_set_suffix
        std_substr_def trim_def)
next
  case False
  then show ?thesis
    by (auto simp: TrimStringT_def std_find_first_not_of_def std_find_last_not_of_def not_in_set_prefix not_in_set_suffix
        std_substr_def trim_all)
qed

lemma piece_substr_wrap:
  assumes "f \<le> l" "l < length s" "length s < 2 ^ 64"
  shows "piece_substr s f (((l + 1) mod 2 ^ 64 + 2 ^ 64 - f) mod 2 ^ 64) = take (l - f + 1) (drop f s)"
proof -
  have "(l + 1) mod 2 ^ 64 + 2 ^ 64 - f = (l - f + 1) + 2 ^ 64" using assms by simp
  then have "((l + 1) mod 2 ^ 64 + 2 ^ 64 - f) mod 2 ^ 64 = l - f + 1" using assms by (simp only: mod_add_self2) simp
  with assms show ?thesis by (simp add: piece_substr_def)
qed

lemma TrimStringPieceT_trim:
  assumes "cs \<noteq> []" "length s < 2 ^ 64"
  shows "TrimStringPieceT s cs TRIM_ALL = trim cs s"
proof -
  have len: "min (Suc npos) (length s) = length s" using assms(2) by simp
  show ?thesis
  proof (cases "\<exists>c\<in>set s. c \<notin> set cs")
    case True
    let ?f = "length (takeWhile (\<lambda>c. c \<in> set cs) s)" and ?l = "length s - 1 - length (takeWhile (\<lambda>c. c \<in> set cs) (rev s))"
    have "find_first_not_of s cs 0 = Some ?f" using True by (simp add: find_first_not_of_eq not_in_set_prefix)
    moreover have "find_last_not_of s cs npos = Some ?l" unfolding find_last_not_of_eq len using True by (simp add: not_in_set_suffix)
    ultimately show ?thesis
      using piece_substr_wrap [OF trim_range(2,3) [OF True] assms(2)] trim_range(1) [OF True]
      by (simp add: TrimStringPieceT_def size_t_of_def trim_def del: One_nat_def)
  next
    case False
    then have "find_first_not_of s cs 0 = None"
      using assms by (simp add: find_first_not_of_eq not_in_set_prefix)
    with assms False show ?thesis by (simp add: TrimStringPieceT_def size_t_of_def piece_substr_def trim_all Let_def)
  qed
qed

subsection \<open>Splitting and joining\<close>

fun split_on :: "('a \<Rightarrow> bool) \<Rightarrow> 'a list \<Rightarrow> 'a list list" where
  "split_on P [] = [[]]"
| "split_on P (c # cs) = (if P c then [] # split_on P cs else (c # hd (split_on P cs)) # tl (split_on P cs))"

lemma split_on_nonempty [simp]: "split_on P s \<noteq> []"
  by (cases s) auto

lemma split_on_none: "\<forall>c\<in>set s. \<not> P c \<Longrightarrow> split_on P s = [s]"
  by (induction s) auto

lemma split_on_append: "\<forall>c\<in>set w. \<not> P c \<Longrightarrow> P d \<Longrightarrow> split_on P (w @ d # s) = w # split_on P s"
  by (induction w) auto

lemma split_on_first:
  assumes "\<exists>c\<in>set s. P c"
  shows "split_on P s = takeWhile (\<lambda>c. \<not> P c) s # split_on P (drop (length (takeWhile (\<lambda>c. \<not> P c) s) + 1) s)"
proof -
  let ?w = "takeWhile (\<lambda>c. \<not> P c) s"
  obtain d r where d: "dropWhile (\<lambda>c. \<not> P c) s = d # r" "P d"
    using assms by (metis (mono_tags, lifting) dropWhile_eq_Cons_conv dropWhile_eq_Nil_conv list.exhaust)
  then have s: "s = ?w @ d # r" by (metis takeWhile_dropWhile_id)
  then have "drop (length ?w + 1) s = r" by (metis add.commute drop_drop drop_append append_eq_conv_conj list.sel(3) drop_Suc drop_0 plus_1_eq_Suc)
  moreover have "split_on P s = ?w # split_on P r" by (subst s, rule split_on_append) (use d in \<open>auto dest: set_takeWhileD\<close>)
  ultimately show ?thesis by simp
qed

lemma piece_substr_rest: "pos \<le> length s \<Longrightarrow> length s < 2 ^ 64 \<Longrightarrow> piece_substr s pos npos = drop pos s"
  by (simp add: piece_substr_def, linarith)

lemma piece_substr_prefix: "pos + n \<le> length s \<Longrightarrow> piece_substr s pos n = take n (drop pos s)"
  by (simp add: piece_substr_def)

lemma SplitStringT_loop_eq:
  "start \<le> length str \<Longrightarrow> length str < 2 ^ 64 \<Longrightarrow>
    SplitStringT_loop str delimiter ws rt start result
      = result @ concat (map (split_piece ws rt) (split_on (\<lambda>c. c \<in> set delimiter) (drop start str)))"
proof (induction str delimiter ws rt start result rule: SplitStringT_loop.induct)
  case (1 str delimiter ws rt start result)
  let ?P = "\<lambda>c. c \<in> set delimiter" and ?s = "drop start str"
  let ?w = "takeWhile (\<lambda>c. \<not> ?P c) ?s"
  show ?case
  proof (cases "\<exists>c\<in>set ?s. ?P c")
    case False
    then have "find_first_of str delimiter start = None" using 1(2) by (simp add: find_first_of_eq in_set_prefix)
    moreover have "split_on ?P ?s = [?s]" using False by (intro split_on_none) auto
    ultimately show ?thesis using 1(2,3) by (subst SplitStringT_loop.simps) (simp add: piece_substr_rest [simplified])
  next
    case True
    let ?e = "start + length ?w"
    have e: "find_first_of str delimiter start = Some ?e" using True 1(2) by (simp add: find_first_of_eq in_set_prefix)
    then have lt: "?e < length str" by (simp add: find_first_of_eq least_from_Some_iff)
    have w: "piece_substr str start (length ?w) = ?w"
      using lt by (simp add: piece_substr_prefix takeWhile_eq_take [symmetric])
    have "drop (?e + 1) str = drop (length ?w + 1) ?s" by (simp add: add.commute add.left_commute)
    then have "split_on ?P ?s = ?w # split_on ?P (drop (?e + 1) str)" using split_on_first [OF True] by simp
    with "1.IH" [OF e] lt 1(3) show ?thesis by (subst SplitStringT_loop.simps) (simp add: e w)
  qed
qed

lemma SplitStringT_eq:
  "length str < 2 ^ 64 \<Longrightarrow> SplitStringT str delimiter ws rt =
    (if str = [] then [] else concat (map (split_piece ws rt) (split_on (\<lambda>c. c \<in> set delimiter) str)))"
  by (simp add: SplitStringT_def SplitStringT_loop_eq)

lemma split_piece_keep [simp]: "split_piece KEEP_WHITESPACE SPLIT_WANT_ALL p = [p]"
  by (simp add: split_piece_def)

lemma concat_all_pieces: "concat (map (split_piece KEEP_WHITESPACE SPLIT_WANT_ALL) ps) = ps"
  by (induction ps) auto

lemma concat_nonempty_pieces: "concat (map (split_piece KEEP_WHITESPACE SPLIT_WANT_NONEMPTY) ps) = filter (\<lambda>p. p \<noteq> []) ps"
  by (induction ps) (auto simp: split_piece_def)

lemma JoinString_loop_eq: "JoinString_loop result parts sep = result @ concat (map (\<lambda>p. sep @ p) parts)"
  by (induction result parts sep rule: JoinString_loop.induct) auto

lemma JoinStringT_simps [simp]:
  "JoinStringT [] sep = []"
  "JoinStringT [p] sep = p"
  "ps \<noteq> [] \<Longrightarrow> JoinStringT (p # ps) sep = p @ sep @ JoinStringT ps sep"
  by (auto simp: JoinStringT_def JoinString_loop_eq split: list.splits)

lemma JoinStringT_Cons: "JoinStringT ((c # p) # ps) sep = c # JoinStringT (p # ps) sep"
  by (cases "ps = []") auto

lemma join_split: "JoinStringT (split_on (\<lambda>c. c = d) s) [d] = s"
proof (induction s)
  case (Cons c s)
  obtain p ps where "split_on (\<lambda>c. c = d) s = p # ps" using split_on_nonempty by (metis list.exhaust)
  with Cons show ?case by (auto simp: JoinStringT_Cons)
qed simp

lemma split_join: "parts \<noteq> [] \<Longrightarrow> \<forall>p\<in>set parts. d \<notin> set p \<Longrightarrow> split_on (\<lambda>c. c = d) (JoinStringT parts [d]) = parts"
proof (induction parts)
  case (Cons p ps)
  show ?case
  proof (cases "ps = []")
    case True
    with Cons.prems show ?thesis by (auto intro: split_on_none)
  next
    case False
    with Cons show ?thesis using split_on_append [of p "\<lambda>c. c = d" d "JoinStringT ps [d]"] by auto
  qed
qed simp

lemma SplitUsingSubstr_loop_join:
  "begin_index \<le> length input \<Longrightarrow> length input < 2 ^ 64 \<Longrightarrow> delimiter \<noteq> [] \<Longrightarrow>
    \<exists>ps. SplitUsingSubstr_loop input delimiter KEEP_WHITESPACE SPLIT_WANT_ALL begin_index result = result @ ps
      \<and> ps \<noteq> [] \<and> JoinStringT ps delimiter = drop begin_index input"
proof (induction input delimiter KEEP_WHITESPACE SPLIT_WANT_ALL begin_index result rule: SplitUsingSubstr_loop.induct)
  case (1 input delimiter i result)
  show ?case
  proof (cases "piece_find input delimiter i")
    case None
    with 1(2-4) show ?thesis by (subst SplitUsingSubstr_loop.simps) (simp add: piece_substr_rest [simplified])
  next
    case (Some e)
    then have e: "i \<le> e" "e + length delimiter \<le> length input" "take (length delimiter) (drop e input) = delimiter"
      by (auto simp: piece_find_eq least_from_Some_iff)
    let ?w = "piece_substr input i (e - i)"
    from "1.hyps" [OF 1(4) Some] e 1(3,4) obtain ps where ps:
      "SplitUsingSubstr_loop input delimiter KEEP_WHITESPACE SPLIT_WANT_ALL (e + length delimiter) (result @ [?w]) = (result @ [?w]) @ ps"
      "ps \<noteq> []" "JoinStringT ps delimiter = drop (e + length delimiter) input" by auto
    have "?w = take (e - i) (drop i input)" using e by (simp add: piece_substr_prefix)
    moreover have "drop i input = take (e - i) (drop i input) @ delimiter @ drop (e + length delimiter) input"
      using e by (metis append_take_drop_id drop_drop le_add_diff_inverse2 add.commute)
    ultimately show ?thesis
      using ps Some 1(4) by (subst SplitUsingSubstr_loop.simps) (auto intro!: exI [of _ "?w # ps"])
  qed
qed

lemma filter_split_on_dropWhile: "filter (\<lambda>p. p \<noteq> []) (split_on P (dropWhile P s)) = filter (\<lambda>p. p \<noteq> []) (split_on P s)"
  by (induction s) auto


lemma next_word:
  assumes "pos \<le> length str"
  shows "(case std_find_first_not_of str delimiters pos of None \<Rightarrow> []
          | Some j \<Rightarrow> filter (\<lambda>p. p \<noteq> []) (split_on (\<lambda>c. c \<in> set delimiters) (drop j str)))
    = filter (\<lambda>p. p \<noteq> []) (split_on (\<lambda>c. c \<in> set delimiters) (drop pos str))"
proof (cases "\<exists>c\<in>set (drop pos str). c \<notin> set delimiters")
  case True
  have "drop (pos + length (takeWhile P (drop pos str))) str = dropWhile P (drop pos str)" for P
    by (simp add: add.commute dropWhile_eq_drop)
  with True assms show ?thesis
    by (simp add: std_find_first_not_of_def not_in_set_prefix filter_split_on_dropWhile)
next
  case False
  then have d: "dropWhile (\<lambda>c. c \<in> set delimiters) (drop pos str) = []" by simp
  from False assms show ?thesis
    by (subst filter_split_on_dropWhile [symmetric], subst d) (simp add: std_find_first_not_of_def not_in_set_prefix)
qed

lemma TokenizeT_loop_eq:
  "(case start of None \<Rightarrow> True | Some i \<Rightarrow> i < length str \<and> str ! i \<notin> set delimiters) \<Longrightarrow>
    TokenizeT_loop str delimiters start tokens = tokens
      @ (case start of None \<Rightarrow> [] | Some i \<Rightarrow> filter (\<lambda>p. p \<noteq> []) (split_on (\<lambda>c. c \<in> set delimiters) (drop i str)))"
proof (induction str delimiters start tokens rule: TokenizeT_loop.induct)
  case (1 str delimiters start tokens)
  let ?P = "\<lambda>c. c \<in> set delimiters"
  show ?case
  proof (cases start)
    case None
    then show ?thesis by (simp add: TokenizeT_loop.simps)
  next
    case (Some i)
    let ?s = "drop i str" and ?t = "drop (Suc i) str"
    have i: "i < length str" "\<not> ?P (str ! i)" "?s = str ! i # ?t" using 1(2) Some by (auto simp: Cons_nth_drop_Suc)
    show ?thesis
    proof (cases "\<exists>c\<in>set ?t. ?P c")
      case False
      then have "std_find_first_of str delimiters (i + 1) = None" using i by (simp add: std_find_first_of_def in_set_prefix)
      moreover have "split_on ?P ?s = [?s]" using False i by (intro split_on_none) auto
      ultimately show ?thesis using Some i by (subst TokenizeT_loop.simps) simp
    next
      case True
      let ?w = "takeWhile (\<lambda>c. \<not> ?P c) ?s"
      let ?e = "i + length ?w"
      let ?start = "std_find_first_not_of str delimiters (?e + 1)"
      have e: "std_find_first_of str delimiters (i + 1) = Some ?e" using True i by (simp add: std_find_first_of_def in_set_prefix)
      then have lt: "?e < length str" by (simp add: std_find_first_of_def least_from_Some_iff)
      have w: "std_substr str i (?e - i) = ?w" "?w \<noteq> []" using i(2) by (simp_all add: i(3) std_substr_def takeWhile_eq_take [symmetric])
      have "drop (?e + 1) str = drop (length ?w + 1) ?s" by (simp add: add.commute add.left_commute)
      then have split: "split_on ?P ?s = ?w # split_on ?P (drop (?e + 1) str)" using split_on_first [of ?s ?P] True i by simp
      have next_word: "(case ?start of None \<Rightarrow> [] | Some j \<Rightarrow> filter (\<lambda>p. p \<noteq> []) (split_on ?P (drop j str)))
          = filter (\<lambda>p. p \<noteq> []) (split_on ?P (drop (?e + 1) str))"
        by (rule next_word) (use lt in simp)
      have "case ?start of None \<Rightarrow> True | Some j \<Rightarrow> j < length str \<and> str ! j \<notin> set delimiters"
        by (auto simp: std_find_first_not_of_def least_from_Some_iff split: option.splits)
      with "1.IH" [OF Some e] show ?thesis
        using Some e w split next_word by (subst TokenizeT_loop.simps) simp
    qed
  qed
qed

lemma TokenizeT_eq: "TokenizeT str delimiters = filter (\<lambda>p. p \<noteq> []) (split_on (\<lambda>c. c \<in> set delimiters) str)"
proof -
  let ?start = "std_find_first_not_of str delimiters 0"
  have "case ?start of None \<Rightarrow> True | Some j \<Rightarrow> j < length str \<and> str ! j \<notin> set delimiters"
    by (auto simp: std_find_first_not_of_def least_from_Some_iff split: option.splits)
  with next_word [of 0 str delimiters] show ?thesis by (simp add: TokenizeT_def TokenizeT_loop_eq)
qed

lemma ReplaceChars_loop_eq:
  "pos \<le> length out \<Longrightarrow> snd (ReplaceChars_loop cs w out pos removed)
    = take pos out @ concat (map (\<lambda>c. if c \<in> set cs then w else [c]) (drop pos out))"
proof (induction cs w out pos removed rule: ReplaceChars_loop.induct)
  case (1 cs w out pos removed)
  have id: "concat (map (\<lambda>c. if c \<in> set cs then w else [c]) s) = s" if "\<forall>c\<in>set s. c \<notin> set cs" for s
    using that by (induction s) auto
  show ?case
  proof (cases "std_find_first_of out cs pos")
    case None
    then have "\<forall>c\<in>set (drop pos out). c \<notin> set cs" using 1(2) by (auto simp: std_find_first_of_def in_set_prefix split: if_splits)
    with None show ?thesis by (subst ReplaceChars_loop.simps) (simp add: id)
  next
    case (Some f)
    let ?out = "take f out @ w @ drop (f + 1) out"
    have f: "pos \<le> f" "f < length out" "out ! f \<in> set cs" "\<forall>j. pos \<le> j \<and> j < f \<longrightarrow> out ! j \<notin> set cs"
      using Some by (auto simp: std_find_first_of_def least_from_Some_iff)
    have "\<forall>c\<in>set (take (f - pos) (drop pos out)). c \<notin> set cs"
    proof
      fix c
      assume "c \<in> set (take (f - pos) (drop pos out))"
      then obtain j where "j < f - pos" "c = out ! (pos + j)" using f(2) by (auto simp: in_set_conv_nth)
      with f(4) show "c \<notin> set cs" by simp
    qed
    note keep = id [OF this]
    have "drop pos out = take (f - pos) (drop pos out) @ out ! f # drop (f + 1) out"
      using f(1,2) by (metis Cons_nth_drop_Suc Suc_eq_plus1 append_take_drop_id drop_drop le_add_diff_inverse2)
    then have "concat (map (\<lambda>c. if c \<in> set cs then w else [c]) (drop pos out))
        = concat (map (\<lambda>c. if c \<in> set cs then w else [c]) (take (f - pos) (drop pos out) @ out ! f # drop (f + 1) out))"
      by (rule arg_cong)
    also have "\<dots> = take (f - pos) (drop pos out) @ w @ concat (map (\<lambda>c. if c \<in> set cs then w else [c]) (drop (f + 1) out))"
      using f(3) by (simp only: map_append concat_append keep list.map concat.simps if_True)
    finally have "concat (map (\<lambda>c. if c \<in> set cs then w else [c]) (drop pos out))
        = take (f - pos) (drop pos out) @ w @ concat (map (\<lambda>c. if c \<in> set cs then w else [c]) (drop (f + 1) out))" .
    moreover have "take f out = take pos out @ take (f - pos) (drop pos out)" using f(1) by (metis le_add_diff_inverse take_add)
    ultimately show ?thesis
      using 1(1) [OF Some] f by (subst ReplaceChars_loop.simps) (simp add: Some)
  qed
qed

lemma ReplaceCharsT_eq: "snd (ReplaceCharsT s cs w) = concat (map (\<lambda>c. if c \<in> set cs then w else [c]) s)"
  by (simp add: ReplaceCharsT_def ReplaceChars_loop_eq)

lemma RemoveChars_eq: "snd (RemoveChars s cs) = filter (\<lambda>c. c \<notin> set cs) s"
  unfolding RemoveChars_def ReplaceCharsT_eq by (induction s) auto

lemma join_words:
  "ps \<noteq> [] \<Longrightarrow> JoinStringT ps sep = hd ps @ concat (map (\<lambda>p. sep @ p) (tl ps))"
  by (cases ps) (auto simp: JoinStringT_def JoinString_loop_eq)

lemma Collapse_loop_eq:
  "Collapse_loop False t False False result
      = result @ hd (split_on IsWhitespace t) @ concat (map (\<lambda>p. [32] @ p) (filter (\<lambda>p. p \<noteq> []) (tl (split_on IsWhitespace t))))"
  "Collapse_loop False t True False (result @ [32])
      = result @ concat (map (\<lambda>p. [32] @ p) (filter (\<lambda>p. p \<noteq> []) (split_on IsWhitespace t)))"
  "Collapse_loop False t True True result
      = result @ JoinStringT (filter (\<lambda>p. p \<noteq> []) (split_on IsWhitespace t)) [32]"
proof (induction t arbitrary: result)
  case (Cons c t)
  case 1
  then show ?case using Cons.IH(1) [of "result @ [c]"] Cons.IH(2) [of result] by auto
next
  case (Cons c t)
  case 2
  then show ?case using Cons.IH(1) [of "(result @ [32]) @ [c]"] Cons.IH(2) [of result] by auto
next
  case (Cons c t)
  case 3
  then show ?case using Cons.IH(1) [of "result @ [c]"] Cons.IH(3) [of result] by (auto simp: join_words)
qed auto

lemma CollapseWhitespaceT_eq: "CollapseWhitespaceT t False = JoinStringT (TokenizeT t (kWhitespaceASCII @ [0])) [32]"
proof -
  have "IsWhitespace = (\<lambda>c. c \<in> set (kWhitespaceASCII @ [0]))" by (simp add: IsWhitespace_def fun_eq_iff)
  then show ?thesis unfolding CollapseWhitespaceT_def TokenizeT_eq Collapse_loop_eq(3) by (simp only: append_Nil)
qed

subsection \<open>Properties\<close>

text \<open>\<^verbatim>\<open>SplitString\<close> and \<^verbatim>\<open>JoinString\<close> are inverse, as the headers promise: joining the pieces of a split at a character, or at a
  text, gives the string back, and splitting a join of pieces that do not contain the separator gives the pieces back; and
  \<^verbatim>\<open>Tokenize\<close> is the split that keeps the non-empty pieces. The string only has to fit the address space.\<close>

lemma split_join_round_trip:
  assumes "length s < 2 ^ 64"
  shows "JoinStringT (SplitStringT s [d] KEEP_WHITESPACE SPLIT_WANT_ALL) [d] = s
    \<and> (sep \<noteq> [] \<longrightarrow> JoinStringT (SplitStringUsingSubstrT s sep KEEP_WHITESPACE SPLIT_WANT_ALL) sep = s)
    \<and> (s = JoinStringT parts [d] \<and> s \<noteq> [] \<and> (\<forall>p\<in>set parts. d \<notin> set p) \<longrightarrow>
         SplitStringT s [d] KEEP_WHITESPACE SPLIT_WANT_ALL = parts)
    \<and> TokenizeT s delimiters = SplitStringT s delimiters KEEP_WHITESPACE SPLIT_WANT_NONEMPTY"
proof -
  have split: "SplitStringT s [d] KEEP_WHITESPACE SPLIT_WANT_ALL = (if s = [] then [] else split_on (\<lambda>c. c = d) s)"
    using assms by (simp add: SplitStringT_eq concat_all_pieces)
  have "JoinStringT (SplitStringUsingSubstrT s sep KEEP_WHITESPACE SPLIT_WANT_ALL) sep = s" if "sep \<noteq> []"
    using SplitUsingSubstr_loop_join [of 0 s sep "[]"] that assms by (auto simp: SplitStringUsingSubstrT_def)
  moreover have "split_on (\<lambda>c. c = d) s = parts" if "s = JoinStringT parts [d]" "s \<noteq> []" "\<forall>p\<in>set parts. d \<notin> set p"
    using that split_join [of parts d] by (cases "parts = []") auto
  ultimately show ?thesis
    using assms by (auto simp: split join_split SplitStringT_eq TokenizeT_eq concat_nonempty_pieces concat_all_pieces)
qed

end
