(* ===== verification/Http.thy ===== *)
theory Http
  imports Strings Numbers
begin

text \<open>
  HTTP/1 messages, \<^verbatim>\<open>src/http/http.cpp\<close>: headers, requests, responses, their parsers and the text a request is sent as.

  A null output pointer, which every function refuses first, is not modelled. A debug build ends the process at \<^verbatim>\<open>DNOTREACHED\<close>, a
  release build goes on: \<open>dcheck\<close> says which build it is. \<^verbatim>\<open>GURL\<close> and \<^verbatim>\<open>DecodeURLEscapeSequences\<close> are parameters of the request
  parser: the path of a text that is a valid URL by itself, and the decoded body. An HTTP status is its number.
\<close>

subsection \<open>Names of protocols, methods and statuses\<close>

datatype http_method = HM_GET | HM_HEAD | HM_POST

datatype http_protocol = HP_1_0 | HP_1_1 | HP_2_0

datatype http_error = Error_Inval | Error_Text string

definition HTTP_1_0_PROTOCOL_NAME :: buffer where "HTTP_1_0_PROTOCOL_NAME = bytes ''HTTP/1.0''"
definition HTTP_1_1_PROTOCOL_NAME :: buffer where "HTTP_1_1_PROTOCOL_NAME = bytes ''HTTP/1.1''"
definition HTTP_2_0_PROTOCOL_NAME :: buffer where "HTTP_2_0_PROTOCOL_NAME = bytes ''HTTP/2.0''"

fun ConvertToString_protocol :: "http_protocol \<Rightarrow> buffer" where
  "ConvertToString_protocol HP_1_0 = HTTP_1_0_PROTOCOL_NAME"
| "ConvertToString_protocol HP_1_1 = HTTP_1_1_PROTOCOL_NAME"
| "ConvertToString_protocol HP_2_0 = HTTP_2_0_PROTOCOL_NAME"

definition ConvertFromString_protocol :: "bool \<Rightarrow> buffer \<Rightarrow> http_protocol option exec" where
  "ConvertFromString_protocol dcheck from =
     (if from = HTTP_1_0_PROTOCOL_NAME then Inr (Some HP_1_0)
      else if from = HTTP_1_1_PROTOCOL_NAME then Inr (Some HP_1_1)
      else if from = HTTP_2_0_PROTOCOL_NAME then Inr (Some HP_2_0)
      else if dcheck then Inl Terminated else Inr None)"

fun ConvertToString_method :: "http_method \<Rightarrow> buffer" where
  "ConvertToString_method HM_GET = bytes ''GET''"
| "ConvertToString_method HM_HEAD = bytes ''HEAD''"
| "ConvertToString_method HM_POST = bytes ''POST''"

definition ConvertFromString_method :: "buffer \<Rightarrow> http_method option" where
  "ConvertFromString_method from =
     (if from = bytes ''GET'' then Some HM_GET
      else if from = bytes ''HEAD'' then Some HM_HEAD
      else if from = bytes ''POST'' then Some HM_POST
      else None)"

abbreviation (input) HS_OK :: int where "HS_OK \<equiv> 200"
abbreviation (input) HS_BAD_REQUEST :: int where "HS_BAD_REQUEST \<equiv> 400"
abbreviation (input) HS_FORBIDDEN :: int where "HS_FORBIDDEN \<equiv> 403"
abbreviation (input) HS_NOT_IMPLEMENTED :: int where "HS_NOT_IMPLEMENTED \<equiv> 501"

text \<open>The cases of \<^verbatim>\<open>ConvertToString(http_status)\<close>, in the order of the code.\<close>

definition http_status_names :: "(int \<times> string) list" where
  "http_status_names =
    [(100, ''Continue''),
     (101, ''Switching Protocols''),
     (200, ''OK''),
     (201, ''Created''),
     (202, ''Accepted''),
     (203, ''Non-Authoritative Information''),
     (204, ''No Content''),
     (205, ''Reset Content''),
     (206, ''Partial Content''),
     (300, ''Multiple Choices''),
     (301, ''Moved Permanently''),
     (302, ''Found''),
     (303, ''See Other''),
     (304, ''Not Modified''),
     (305, ''Use Proxy''),
     (307, ''Temporary Redirect''),
     (308, ''Permanent Redirect''),
     (400, ''Bad Request''),
     (401, ''Unauthorized''),
     (402, ''Payment Required''),
     (403, ''Forbidden''),
     (404, ''Not Found''),
     (405, ''Method Not Allowed''),
     (406, ''Not Acceptable''),
     (407, ''Proxy Authentication Required''),
     (408, ''Request Timeout''),
     (409, ''Conflict''),
     (410, ''Gone''),
     (411, ''Length Required''),
     (412, ''Precondition Failed''),
     (413, ''Payload Too Large''),
     (414, ''URI Too Long''),
     (415, ''Unsupported Media Type''),
     (416, ''Requested Range Not Satisfiable''),
     (417, ''Expectation Failed''),
     (421, ''Misdirected Request''),
     (426, ''Upgrade Required''),
     (428, ''Precondition Required''),
     (429, ''Too Many Requests''),
     (431, ''Request Header Fields Too Large''),
     (500, ''Internal Server Error''),
     (501, ''Not Implemented''),
     (502, ''Bad Gateway''),
     (503, ''Service Unavailable''),
     (504, ''Gateway Timeout''),
     (505, ''HTTP Version Not Supported''),
     (511, ''Network Authentication Required'')]"

definition ConvertToString_status :: "int \<Rightarrow> buffer exec" where
  "ConvertToString_status status = (case map_of http_status_names status of Some name \<Rightarrow> Inr (bytes name) | None \<Rightarrow> Inl Terminated)"

subsection \<open>Headers\<close>

record HttpHeader =
  hh_key :: buffer
  hh_value :: buffer

definition HttpHeader_IsValid :: "HttpHeader \<Rightarrow> bool" where
  "HttpHeader_IsValid h \<longleftrightarrow> hh_key h \<noteq> []"

definition HttpHeader_as_string :: "HttpHeader \<Rightarrow> buffer" where
  "HttpHeader_as_string h = hh_key h @ bytes '': '' @ hh_value h"

definition ConvertToString_header :: "HttpHeader \<Rightarrow> buffer" where
  "ConvertToString_header h = (if \<not> HttpHeader_IsValid h then [] else hh_key h @ [58] @ hh_value h)"

definition ParseHttpHeader :: "buffer \<Rightarrow> HttpHeader option" where
  "ParseHttpHeader line =
     (if line = [] then None
      else case std_find_first_of line [58] 0 of
        None \<Rightarrow> None
      | Some delem \<Rightarrow>
          let key = std_substr line 0 delem;
              val = drop (delem + 1) line
          in Some \<lparr>hh_key = snd (TrimWhitespaceASCII key TRIM_ALL), hh_value = snd (TrimWhitespaceASCII val TRIM_ALL)\<rparr>)"

fun FindHeaderByKey :: "HttpHeader list \<Rightarrow> buffer \<Rightarrow> bool \<Rightarrow> HttpHeader option" where
  "FindHeaderByKey [] key case_sensitive = None"
| "FindHeaderByKey (h # headers) key case_sensitive =
     (if EqualsASCII (hh_key h) key case_sensitive then Some h else FindHeaderByKey headers key case_sensitive)"

fun FindHeaderByValue :: "HttpHeader list \<Rightarrow> buffer \<Rightarrow> bool \<Rightarrow> HttpHeader option" where
  "FindHeaderByValue [] val case_sensitive = None"
| "FindHeaderByValue (h # headers) val case_sensitive =
     (if EqualsASCII (hh_value h) val case_sensitive then Some h else FindHeaderByValue headers val case_sensitive)"

subsection \<open>Requests\<close>

record HttpRequest =
  rq_method :: http_method
  rq_relative_url :: buffer
  rq_protocol :: http_protocol
  rq_headers :: "HttpHeader list"
  rq_body :: buffer

definition HttpRequest_IsValid :: "HttpRequest \<Rightarrow> bool" where
  "HttpRequest_IsValid r \<longleftrightarrow> rq_relative_url r \<noteq> []"

definition SetRelativeUrl :: "HttpRequest \<Rightarrow> buffer \<Rightarrow> HttpRequest" where
  "SetRelativeUrl r path = r\<lparr>rq_relative_url := path\<rparr>"

fun find_key_index :: "HttpHeader list \<Rightarrow> buffer \<Rightarrow> bool \<Rightarrow> nat \<Rightarrow> nat option" where
  "find_key_index [] key case_sensitive i = None"
| "find_key_index (h # headers) key case_sensitive i =
     (if EqualsASCII (hh_key h) key case_sensitive then Some i else find_key_index headers key case_sensitive (Suc i))"

definition FindHeaderByKeyAndChange :: "HttpRequest \<Rightarrow> buffer \<Rightarrow> bool \<Rightarrow> HttpHeader \<Rightarrow> bool \<times> HttpRequest" where
  "FindHeaderByKeyAndChange r key case_sensitive new_value =
     (case find_key_index (rq_headers r) key case_sensitive 0 of
        None \<Rightarrow> (False, r)
      | Some i \<Rightarrow> (True, r\<lparr>rq_headers := (rq_headers r)[i := new_value]\<rparr>))"

text \<open>\<^verbatim>\<open>headers_.erase(headers_.begin(), headers_.begin() + i)\<close>: the headers before the one that was found.\<close>

definition RemoveHeaderByKey :: "HttpRequest \<Rightarrow> buffer \<Rightarrow> bool \<Rightarrow> HttpRequest" where
  "RemoveHeaderByKey r key case_sensitive =
     (case find_key_index (rq_headers r) key case_sensitive 0 of
        None \<Rightarrow> r
      | Some i \<Rightarrow> r\<lparr>rq_headers := drop i (rq_headers r)\<rparr>)"

definition make_request :: "http_method \<Rightarrow> buffer \<Rightarrow> http_protocol \<Rightarrow> HttpHeader list \<Rightarrow> buffer \<Rightarrow> HttpRequest option" where
  "make_request method path protocol headers body =
     (let req = \<lparr>rq_method = method, rq_relative_url = path, rq_protocol = protocol, rq_headers = headers, rq_body = body\<rparr>
      in if \<not> HttpRequest_IsValid req then None else Some req)"

definition MakeHeadRequest :: "buffer \<Rightarrow> http_protocol \<Rightarrow> HttpHeader list \<Rightarrow> HttpRequest option" where
  "MakeHeadRequest path protocol headers = make_request HM_HEAD path protocol headers []"

definition MakeGetRequest :: "buffer \<Rightarrow> http_protocol \<Rightarrow> HttpHeader list \<Rightarrow> buffer \<Rightarrow> HttpRequest option" where
  "MakeGetRequest path protocol headers body = make_request HM_GET path protocol headers body"

definition MakePostRequest :: "buffer \<Rightarrow> http_protocol \<Rightarrow> HttpHeader list \<Rightarrow> buffer \<Rightarrow> HttpRequest option" where
  "MakePostRequest path protocol headers body = make_request HM_POST path protocol headers body"

fun append_headers :: "HttpHeader list \<Rightarrow> buffer \<Rightarrow> buffer" where
  "append_headers [] headerout = headerout"
| "append_headers (header # headers) headerout =
     (let headerStr = ConvertToString_header header in
      append_headers headers (if headerStr \<noteq> [] then headerout @ headerStr @ [13, 10] else headerout))"

definition ConvertToString_request :: "HttpRequest \<Rightarrow> buffer" where
  "ConvertToString_request r =
     append_headers (rq_headers r)
       (ConvertToString_method (rq_method r) @ [32] @ rq_relative_url r @ [32] @ ConvertToString_protocol (rq_protocol r) @ [13, 10])
     @ [13, 10]"

subsection \<open>The request parser\<close>

type_synonym reply = "int \<times> http_error"

text \<open>The first line: the method, the path and the protocol. \<^verbatim>\<open>find_first_of("HTTP")\<close> finds the first of the letters H, T and P. The
  variable \<^verbatim>\<open>lprotocol\<close> starts as HTTP/1.0 and keeps that value when the name is unknown.\<close>

definition parse_request_path :: "bool \<Rightarrow> (buffer \<Rightarrow> buffer option) \<Rightarrow> buffer \<Rightarrow> (reply + (buffer \<times> http_protocol)) exec" where
  "parse_request_path dcheck gurl protcolAndPath =
     (case std_find_first_of protcolAndPath (bytes ''HTTP'') 0 of
        None \<Rightarrow> Inr (Inl (HS_FORBIDDEN, Error_Text ''Not allowed.''))
      | Some space_protocol \<Rightarrow>
          let path = (if space_protocol = 0 then protcolAndPath else std_substr protcolAndPath 0 (space_protocol - 1)) in
          if protcolAndPath ! 0 \<noteq> 47 then Inr (Inl (HS_BAD_REQUEST, Error_Text ''Bad filename.''))
          else bind_exec (ConvertFromString_protocol dcheck (drop space_protocol protcolAndPath)) (\<lambda>p.
            let lpath = (case gurl path of
                           Some url_path \<Rightarrow> url_path
                         | None \<Rightarrow> if path \<noteq> [] \<and> path ! 0 = 47 then path else [47] @ path)
            in Inr (Inr (lpath, case p of Some protocol \<Rightarrow> protocol | None \<Rightarrow> HP_1_0))))"

definition parse_request_line :: "bool \<Rightarrow> (buffer \<Rightarrow> buffer option) \<Rightarrow> buffer \<Rightarrow> (reply + (http_method \<times> buffer \<times> http_protocol)) exec" where
  "parse_request_line dcheck gurl line =
     (let not_implemented = (HS_NOT_IMPLEMENTED, Error_Text ''That method is not implemented.'') in
      case std_find_first_of line [32] 0 of
        None \<Rightarrow> Inr (Inl not_implemented)
      | Some space \<Rightarrow>
          (case ConvertFromString_method (std_substr line 0 space) of
             None \<Rightarrow> Inr (Inl not_implemented)
           | Some method \<Rightarrow>
               bind_exec (parse_request_path dcheck gurl (drop (space + 1) line)) (\<lambda>r.
                 case r of Inl e \<Rightarrow> Inr (Inl e) | Inr (path, protocol) \<Rightarrow> Inr (Inr (method, path, protocol)))))"

text \<open>The loop over the lines. \<^verbatim>\<open>line_count\<close> is an 8-bit number.\<close>

function parse_request_loop ::
  "bool \<Rightarrow> (buffer \<Rightarrow> buffer option) \<Rightarrow> buffer \<Rightarrow> nat \<Rightarrow> u8 \<Rightarrow> HttpRequest \<Rightarrow> (reply + (nat \<times> u8 \<times> HttpRequest)) exec" where
  "parse_request_loop dcheck gurl request start line_count req =
     (case std_find request [13, 10] start of
        None \<Rightarrow> Inr (Inr (start, line_count, req))
      | Some pos \<Rightarrow>
          let line = std_substr request start (pos - start) in
          if line_count = 0 then
            bind_exec (parse_request_line dcheck gurl line) (\<lambda>r.
              case r of
                Inl e \<Rightarrow> Inr (Inl e)
              | Inr (method, path, protocol) \<Rightarrow>
                  parse_request_loop dcheck gurl request (pos + 2) (line_count + 1)
                    (req\<lparr>rq_method := method, rq_relative_url := path, rq_protocol := protocol\<rparr>))
          else
            parse_request_loop dcheck gurl request (pos + 2) (line_count + 1)
              (case ParseHttpHeader line of None \<Rightarrow> req | Some h \<Rightarrow> req\<lparr>rq_headers := rq_headers req @ [h]\<rparr>))"
  by pat_completeness auto

termination
  by (relation "measure (\<lambda>(_, _, request, start, _, _). length request + 1 - start)") (auto simp: std_find_def least_from_Some_iff)

declare parse_request_loop.simps [simp del]

definition parse_http_request ::
  "bool \<Rightarrow> (buffer \<Rightarrow> buffer option) \<Rightarrow> (buffer \<Rightarrow> buffer) \<Rightarrow> buffer \<Rightarrow> (reply + HttpRequest) exec" where
  "parse_http_request dcheck gurl decode request =
     (if request = [] then Inr (Inl (HS_FORBIDDEN, Error_Inval))
      else bind_exec
        (parse_request_loop dcheck gurl request 0 0
           \<lparr>rq_method = HM_GET, rq_relative_url = [], rq_protocol = HP_1_0, rq_headers = [], rq_body = []\<rparr>) (\<lambda>r.
        case r of
          Inl e \<Rightarrow> Inr (Inl e)
        | Inr (start, line_count, req) \<Rightarrow>
            if line_count = 0 then Inr (Inl (HS_BAD_REQUEST, Error_Text ''Not found CRLF''))
            else Inr (Inr (req\<lparr>rq_body := if length request \<noteq> start
                                           then decode (takeWhile (\<lambda>c. c \<noteq> 0) (drop start request)) else []\<rparr>))))"

subsection \<open>The response parser\<close>

record HttpResponse =
  rs_protocol :: http_protocol
  rs_status :: int
  rs_headers :: "HttpHeader list"
  rs_body :: buffer

text \<open>The first line: the protocol and the status.\<close>

definition parse_status_line :: "bool \<Rightarrow> buffer \<Rightarrow> (http_protocol \<times> int) option exec" where
  "parse_status_line dcheck first_line =
     (case std_find_first_of first_line [32] 0 of
        None \<Rightarrow> Inr None
      | Some spaceP \<Rightarrow>
          let status_str = drop (spaceP + 1) first_line;
              protocol_str = std_substr first_line 0 spaceP
          in if std_find_first_of protocol_str [47] 0 = None then Inr None
             else bind_exec (ConvertFromString_protocol dcheck protocol_str) (\<lambda>p.
               if p = None \<and> dcheck then Inl Terminated
               else let lprotocol = (case p of Some protocol \<Rightarrow> protocol | None \<Rightarrow> HP_1_0) in
                 case std_find_first_of status_str [32] 0 of
                   None \<Rightarrow> Inr None
                 | Some status_sep \<Rightarrow>
                     (case ConvertFromString_ushort (std_substr status_str 0 status_sep) of
                        None \<Rightarrow> Inr None
                      | Some lstatus \<Rightarrow> Inr (Some (lprotocol, lstatus)))))"

definition ParseHttpHeaders :: "bool \<Rightarrow> buffer \<Rightarrow> HttpResponse option exec" where
  "ParseHttpHeaders dcheck headers_data =
     (if headers_data = [] then Inr None
      else case SplitStringT headers_data [13, 10] TRIM_WHITESPACE SPLIT_WANT_ALL of
        [] \<Rightarrow> Inr None
      | first_line # lines \<Rightarrow>
          bind_exec (parse_status_line dcheck first_line) (\<lambda>r.
            case r of
              None \<Rightarrow> Inr None
            | Some (lprotocol, lstatus) \<Rightarrow>
                Inr (Some \<lparr>rs_protocol = lprotocol, rs_status = lstatus, rs_headers = List.map_filter ParseHttpHeader lines, rs_body = []\<rparr>)))"

definition CONTENT_LENGTH :: buffer where
  "CONTENT_LENGTH = bytes ''Content-Length''"

text \<open>The response and the number of bytes that were not parsed.\<close>

definition parse_http_response :: "bool \<Rightarrow> buffer \<Rightarrow> (http_error + (HttpResponse \<times> nat)) exec" where
  "parse_http_response dcheck response =
     (if response = [] then Inr (Inl Error_Inval)
      else case std_find response [13, 10, 13, 10] 0 of
        None \<Rightarrow> Inr (Inl (Error_Text ''Not found CRLFCRLF''))
      | Some headers_line_pos \<Rightarrow>
          let header_data = std_substr response 0 headers_line_pos;
              body_data = drop (headers_line_pos + 4) response
          in bind_exec (ParseHttpHeaders dcheck header_data) (\<lambda>r.
            case r of
              None \<Rightarrow> Inr (Inl Error_Inval)
            | Some lres \<Rightarrow>
                (case FindHeaderByKey (rs_headers lres) CONTENT_LENGTH False of
                   Some cont \<Rightarrow>
                     (case ConvertFromString_ulong (hh_value cont) of
                        Some body_len \<Rightarrow>
                          if int (length body_data) = body_len then Inr (Inr (lres\<lparr>rs_body := body_data\<rparr>, 0))
                          else Inr (Inr (lres, length body_data))
                      | None \<Rightarrow> Inr (Inr (lres, length body_data)))
                 | None \<Rightarrow> Inr (Inr (lres, length body_data)))))"

subsection \<open>Clean texts\<close>

definition plain :: "buffer \<Rightarrow> bool" where
  "plain s \<longleftrightarrow> 13 \<notin> set s \<and> 10 \<notin> set s"

text \<open>No white space at either end.\<close>

definition clean :: "buffer \<Rightarrow> bool" where
  "clean s \<longleftrightarrow> s = [] \<or> (hd s \<notin> set kWhitespaceASCII \<and> last s \<notin> set kWhitespaceASCII)"

definition header_ok :: "HttpHeader \<Rightarrow> bool" where
  "header_ok h \<longleftrightarrow> hh_key h \<noteq> [] \<and> 58 \<notin> set (hh_key h) \<and> plain (hh_key h) \<and> plain (hh_value h) \<and> clean (hh_key h) \<and> clean (hh_value h)"

lemma dropWhile_hd: "s \<noteq> [] \<Longrightarrow> \<not> Q (hd s) \<Longrightarrow> dropWhile Q s = s"
  by (cases s) auto

lemma trim_clean: "clean s \<Longrightarrow> trim kWhitespaceASCII s = s"
  by (cases "s = []") (auto simp: clean_def trim_def dropWhile_hd hd_rev)

lemma trim_space: "clean s \<Longrightarrow> trim kWhitespaceASCII (32 # s) = s"
  using trim_clean [of s] by (simp add: trim_def kWhitespaceASCII_def)

lemma TrimWhitespaceASCII_trim: "snd (TrimWhitespaceASCII s TRIM_ALL) = trim kWhitespaceASCII s"
  by (simp add: TrimWhitespaceASCII_def TrimStringT_trim)

lemma std_find_first_of_append:
  "\<forall>c\<in>set w. c \<notin> set cs \<Longrightarrow> d \<in> set cs \<Longrightarrow> std_find_first_of (w @ d # s) cs 0 = Some (length w)"
  unfolding std_find_first_of_def by (subst in_set_prefix) (auto simp: takeWhile_append2 takeWhile_tail)

lemma ParseHttpHeader_Nil [simp]: "ParseHttpHeader [] = None"
  by (simp add: ParseHttpHeader_def)

lemma ParseHttpHeader_line:
  assumes "58 \<notin> set k" "clean k"
  shows "ParseHttpHeader (k @ 58 # v) = Some \<lparr>hh_key = k, hh_value = trim kWhitespaceASCII v\<rparr>"
proof -
  have "std_find_first_of (k @ 58 # v) [58] 0 = Some (length k)" using assms(1) by (intro std_find_first_of_append) auto
  with assms(2) show ?thesis
    by (simp add: ParseHttpHeader_def TrimWhitespaceASCII_trim trim_clean std_substr_def)
qed

lemma ParseHttpHeader_sent: "header_ok h \<Longrightarrow> ParseHttpHeader (ConvertToString_header h) = Some h"
  by (auto simp: header_ok_def ConvertToString_header_def HttpHeader_IsValid_def ParseHttpHeader_line trim_clean)

lemma ParseHttpHeader_as_string:
  assumes "header_ok h"
  shows "ParseHttpHeader (trim kWhitespaceASCII (HttpHeader_as_string h)) = Some h"
proof -
  have k: "hh_key h \<noteq> []" "58 \<notin> set (hh_key h)" "clean (hh_key h)" "clean (hh_value h)" using assms by (auto simp: header_ok_def)
  have "trim kWhitespaceASCII (HttpHeader_as_string h) = hh_key h @ 58 # (if hh_value h = [] then [] else 32 # hh_value h)"
  proof (cases "hh_value h = []")
    case True
    then show ?thesis using k
      by (auto simp: HttpHeader_as_string_def bytes_def trim_def clean_def dropWhile_hd kWhitespaceASCII_def)
  next
    case False
    then show ?thesis using k
      by (subst trim_clean) (auto simp: HttpHeader_as_string_def bytes_def clean_def)
  qed
  then show ?thesis using k ParseHttpHeader_line [of "hh_key h"] trim_clean [of "hh_value h"] trim_space [of "hh_value h"]
    by (auto simp: trim_def)
qed

subsection \<open>Lines\<close>

lemma std_find_line:
  assumes "13 \<notin> set l"
  shows "std_find (pre @ l @ 13 # 10 # rest) [13, 10] (length pre) = Some (length pre + length l)"
proof -
  let ?s = "pre @ l @ 13 # 10 # rest"
  have "take 2 (drop j ?s) \<noteq> [13, 10]" if "length pre \<le> j" "j < length pre + length l" for j
  proof -
    have "drop j ?s = ?s ! j # drop (Suc j) ?s" using that by (intro Cons_nth_drop_Suc [symmetric]) simp
    moreover have "?s ! j = l ! (j - length pre)" using that by (auto simp: nth_append)
    moreover have "l ! (j - length pre) \<noteq> 13" using that assms by (metis add_diff_cancel_left' diff_less_mono nth_mem)
    ultimately show ?thesis by simp
  qed
  then show ?thesis by (simp add: std_find_def least_from_Some_iff numeral_2_eq_2)
qed

lemma std_find_at_end: "t \<noteq> [] \<Longrightarrow> std_find s t (length s) = None"
  unfolding std_find_def by (subst least_from_step) (cases t, auto)

lemma parse_request_loop_end: "parse_request_loop dcheck gurl request (length request) k req = Inr (Inr (length request, k, req))"
  by (subst parse_request_loop.simps) (simp add: std_find_at_end)

definition send_lines :: "buffer list \<Rightarrow> buffer" where
  "send_lines ls = concat (map (\<lambda>l. l @ [13, 10]) ls)"

lemma send_lines_simps [simp]:
  "send_lines [] = []" "send_lines (l # ls) = l @ 13 # 10 # send_lines ls" "send_lines (ls @ ls') = send_lines ls @ send_lines ls'"
  by (simp_all add: send_lines_def)

lemma parse_request_loop_headers:
  "list_all plain ls \<Longrightarrow> 0 < unat k \<Longrightarrow> unat k + length ls \<le> 256 \<Longrightarrow> request = pre @ send_lines ls @ rest \<Longrightarrow>
    parse_request_loop dcheck gurl request (length pre) k req =
      parse_request_loop dcheck gurl request (length (pre @ send_lines ls)) (k + of_nat (length ls))
        (req\<lparr>rq_headers := rq_headers req @ List.map_filter ParseHttpHeader ls\<rparr>)"
proof (induction ls arbitrary: pre k req)
  case Nil
  then show ?case by (simp add: map_filter_simps)
next
  case (Cons l ls)
  let ?req = "case ParseHttpHeader l of None \<Rightarrow> req | Some h \<Rightarrow> req\<lparr>rq_headers := rq_headers req @ [h]\<rparr>"
  have find: "std_find request [13, 10] (length pre) = Some (length pre + length l)"
    using Cons.prems std_find_line [of l pre "send_lines ls @ rest"] by (simp add: plain_def)
  have line: "std_substr request (length pre) (length l) = l" using Cons.prems(4) by (simp add: std_substr_def)
  have k: "k \<noteq> 0" using Cons.prems(2) by auto
  have step: "parse_request_loop dcheck gurl request (length pre) k req
      = parse_request_loop dcheck gurl request (length (pre @ l @ [13, 10])) (k + 1) ?req"
    using k line by (subst parse_request_loop.simps) (simp add: find)
  show ?case
  proof (cases "ls = []")
    case True
    then show ?thesis unfolding step by (auto simp: map_filter_simps split: option.splits)
  next
    case False
    then have "unat k + 1 < 256" using Cons.prems(3) by (cases ls) auto
    then have "unat (k + 1) = unat k + 1" by (simp add: unat_word_ariths)
    then have "parse_request_loop dcheck gurl request (length (pre @ l @ [13, 10])) (k + 1) ?req =
        parse_request_loop dcheck gurl request (length ((pre @ l @ [13, 10]) @ send_lines ls)) (k + 1 + of_nat (length ls))
          (?req\<lparr>rq_headers := rq_headers ?req @ List.map_filter ParseHttpHeader ls\<rparr>)"
      using Cons.prems by (intro Cons.IH) auto
    then show ?thesis unfolding step by (auto simp: map_filter_simps add.assoc split: option.splits)
  qed
qed

subsection \<open>Requests that are read back\<close>

definition path_ok :: "buffer \<Rightarrow> bool" where
  "path_ok p \<longleftrightarrow> p \<noteq> [] \<and> hd p = 47 \<and> plain p"

definition HTP :: "u8 set" where
  "HTP = set (bytes ''HTP'')"

definition htp_free :: "buffer \<Rightarrow> bool" where
  "htp_free p \<longleftrightarrow> set p \<inter> HTP = {}"

text \<open>What the parser takes for the path: all of it, or, when it has one of the letters H, T and P, what is before the character
  before the first of them; and then the path of the URL this is, if it is one.\<close>

definition cut_path :: "buffer \<Rightarrow> buffer" where
  "cut_path p = (if htp_free p then p else butlast (takeWhile (\<lambda>c. c \<notin> HTP) p))"

definition received_path :: "(buffer \<Rightarrow> buffer option) \<Rightarrow> buffer \<Rightarrow> buffer" where
  "received_path gurl p = (case gurl (cut_path p) of Some u \<Rightarrow> u | None \<Rightarrow> if cut_path p = [] then [47] else cut_path p)"

definition received :: "(buffer \<Rightarrow> buffer option) \<Rightarrow> HttpRequest \<Rightarrow> HttpRequest" where
  "received gurl r = r\<lparr>rq_relative_url := received_path gurl (rq_relative_url r),
     rq_protocol := (if htp_free (rq_relative_url r) then rq_protocol r else HP_1_0), rq_body := []\<rparr>"

definition first_line :: "HttpRequest \<Rightarrow> buffer" where
  "first_line r = ConvertToString_method (rq_method r) @ [32] @ rq_relative_url r @ [32] @ ConvertToString_protocol (rq_protocol r)"

lemmas protocol_names = HTTP_1_0_PROTOCOL_NAME_def HTTP_1_1_PROTOCOL_NAME_def HTTP_2_0_PROTOCOL_NAME_def

lemma protocol_round_trip: "ConvertFromString_protocol dcheck (ConvertToString_protocol p) = Inr (Some p)"
  by (cases p) (simp_all add: ConvertFromString_protocol_def protocol_names bytes_def)

lemma protocol_H: "ConvertToString_protocol p = 72 # tl (ConvertToString_protocol p)"
  by (cases p) (simp_all add: protocol_names bytes_def)

lemma plain_names: "plain (ConvertToString_protocol p)" "plain (ConvertToString_method m)"
  by (cases p, simp_all add: protocol_names bytes_def plain_def) (cases m, simp_all add: bytes_def)

lemma protocol_no_space:
  "32 \<in> set s \<Longrightarrow> ConvertFromString_protocol dcheck s = (if dcheck then Inl Terminated else Inr None)"
  by (auto simp: ConvertFromString_protocol_def protocol_names bytes_def)

lemma set_HTTP: "set (bytes ''HTTP'') = HTP"
  by (auto simp: HTP_def bytes_def)

lemma HTP_iff: "c \<in> HTP \<longleftrightarrow> c = 72 \<or> c = 84 \<or> c = 80"
  by (simp add: HTP_def bytes_def)

lemma parse_request_path_sent:
  assumes "path_ok path" "htp_free path"
  shows "parse_request_path dcheck gurl (path @ 32 # ConvertToString_protocol p) = Inr (Inr (received_path gurl path, p))"
proof -
  have "std_find_first_of ((path @ [32]) @ 72 # tl (ConvertToString_protocol p)) (bytes ''HTTP'') 0 = Some (length (path @ [32]))"
    using assms(2) by (intro std_find_first_of_append) (auto simp: set_HTTP htp_free_def HTP_iff)
  then have find: "std_find_first_of (path @ 32 # ConvertToString_protocol p) (bytes ''HTTP'') 0 = Some (length path + 1)"
    using protocol_H [of p] by simp
  obtain q where "path = 47 # q" using assms(1) by (cases path) (auto simp: path_ok_def)
  with assms(2) find show ?thesis
    by (auto simp: parse_request_path_def std_substr_def protocol_round_trip received_path_def cut_path_def split: option.splits)
qed

lemma parse_request_path_cut:
  assumes "path_ok path" "\<not> htp_free path"
  shows "parse_request_path dcheck gurl (path @ 32 # s) = (if dcheck then Inl Terminated else Inr (Inr (received_path gurl path, HP_1_0)))"
proof -
  let ?w = "takeWhile (\<lambda>c. c \<notin> HTP) path"
  have "dropWhile (\<lambda>c. c \<notin> HTP) path \<noteq> []" using assms(2) by (auto simp: dropWhile_eq_Nil_conv htp_free_def)
  then obtain c rest where drop: "dropWhile (\<lambda>c. c \<notin> HTP) path = c # rest" by (cases "dropWhile (\<lambda>c. c \<notin> HTP) path") auto
  have c: "c \<in> HTP" using hd_dropWhile [of "\<lambda>c. c \<notin> HTP" path] drop by auto
  have path: "path = ?w @ c # rest" using takeWhile_dropWhile_id [of "\<lambda>c. c \<notin> HTP" path] drop by simp
  obtain q where q: "path = 47 # q" using assms(1) by (cases path) (auto simp: path_ok_def)
  then have w: "?w = 47 # takeWhile (\<lambda>c. c \<notin> HTP) q" by (simp add: HTP_iff)
  have "std_find_first_of (?w @ c # rest @ 32 # s) (bytes ''HTTP'') 0 = Some (length ?w)"
    using c by (intro std_find_first_of_append) (auto simp: set_HTTP HTP_iff dest: set_takeWhileD)
  then have find: "std_find_first_of (path @ 32 # s) (bytes ''HTTP'') 0 = Some (length ?w)" by (subst path) simp
  have "drop (length ?w) (path @ 32 # s) = c # rest @ 32 # s" by (subst (2) path) simp
  then have proto: "ConvertFromString_protocol dcheck (drop (length ?w) (path @ 32 # s)) = (if dcheck then Inl Terminated else Inr None)"
    by (simp only: protocol_no_space) (rule protocol_no_space, simp)
  have sub: "std_substr (path @ 32 # s) 0 (length ?w - 1) = butlast ?w"
  proof -
    have "path @ 32 # s = ?w @ c # rest @ 32 # s" using arg_cong [OF path, of "\<lambda>x. x @ 32 # s"] by simp
    then have "take (length ?w - 1) (path @ 32 # s) = take (length ?w - 1) (?w @ c # rest @ 32 # s)" by (rule arg_cong)
    then show ?thesis by (simp add: std_substr_def butlast_conv_take)
  qed
  have "butlast ?w = [] \<or> butlast ?w ! 0 = 47" using w by (cases "takeWhile (\<lambda>c. c \<notin> HTP) q") auto
  moreover have "(path @ 32 # s) ! 0 = 47" "length ?w \<noteq> 0" using q w by simp_all
  ultimately show ?thesis
    using find proto sub assms(2)
    by (auto simp: parse_request_path_def received_path_def cut_path_def Let_def split: option.splits)
qed

lemma parse_request_line_sent:
  assumes "path_ok (rq_relative_url r)"
  shows "parse_request_line dcheck gurl (first_line r) =
    (if dcheck \<and> \<not> htp_free (rq_relative_url r) then Inl Terminated
     else Inr (Inr (rq_method r, rq_relative_url (received gurl r), rq_protocol (received gurl r))))"
proof -
  let ?m = "ConvertToString_method (rq_method r)"
  have "std_find_first_of (?m @ 32 # rq_relative_url r @ 32 # ConvertToString_protocol (rq_protocol r)) [32] 0 = Some (length ?m)"
    by (rule std_find_first_of_append) (cases "rq_method r", simp_all add: bytes_def)
  moreover have "ConvertFromString_method ?m = Some (rq_method r)"
    by (cases "rq_method r") (simp_all add: ConvertFromString_method_def bytes_def)
  moreover have "parse_request_path dcheck gurl (rq_relative_url r @ 32 # ConvertToString_protocol (rq_protocol r)) =
      (if dcheck \<and> \<not> htp_free (rq_relative_url r) then Inl Terminated
       else Inr (Inr (rq_relative_url (received gurl r), rq_protocol (received gurl r))))"
    using parse_request_path_sent [OF assms, of dcheck gurl] parse_request_path_cut [OF assms, of dcheck gurl]
    by (cases "htp_free (rq_relative_url r)") (simp_all add: received_def)
  ultimately show ?thesis by (simp add: parse_request_line_def first_line_def std_substr_def)
qed

lemma parse_request_line_no_space:
  "32 \<notin> set l \<Longrightarrow> parse_request_line dcheck gurl l = Inr (Inl (HS_NOT_IMPLEMENTED, Error_Text ''That method is not implemented.''))"
proof -
  assume "32 \<notin> set l"
  then have "std_find_first_of l [32] 0 = None" unfolding std_find_first_of_def by (subst in_set_prefix) auto
  then show ?thesis by (simp add: parse_request_line_def)
qed

lemma append_headers_eq: "list_all header_ok hs \<Longrightarrow> append_headers hs out = out @ send_lines (map ConvertToString_header hs)"
  by (induction hs arbitrary: out) (auto simp: header_ok_def ConvertToString_header_def HttpHeader_IsValid_def)

lemma ConvertToString_request_lines:
  "list_all header_ok (rq_headers r) \<Longrightarrow>
    ConvertToString_request r = send_lines (first_line r # map ConvertToString_header (rq_headers r) @ [[]])"
  by (simp add: ConvertToString_request_def append_headers_eq first_line_def)

lemma map_filter_sent: "list_all header_ok hs \<Longrightarrow> List.map_filter ParseHttpHeader (map ConvertToString_header hs @ [[]]) = hs"
  by (induction hs) (simp_all add: map_filter_simps ParseHttpHeader_sent)

lemma plain_sent: "list_all header_ok hs \<Longrightarrow> list_all plain (map ConvertToString_header hs @ [[]])"
  by (induction hs) (auto simp: header_ok_def ConvertToString_header_def plain_def)

text \<open>The lines of a request after the first one, and the loop on the text of a request: the first line, and as many of the other
  lines as the counter has room for.\<close>

definition sent_lines :: "HttpRequest \<Rightarrow> buffer list" where
  "sent_lines r = map ConvertToString_header (rq_headers r) @ [[]]"

lemma parse_request_loop_first:
  assumes "list_all header_ok (rq_headers r)" "path_ok (rq_relative_url r)"
  shows "parse_request_loop dcheck gurl (ConvertToString_request r) 0 0 req =
    (if dcheck \<and> \<not> htp_free (rq_relative_url r) then Inl Terminated
     else parse_request_loop dcheck gurl (ConvertToString_request r) (length (first_line r @ [13, 10])) 1
       (req\<lparr>rq_method := rq_method r, rq_relative_url := rq_relative_url (received gurl r), rq_protocol := rq_protocol (received gurl r)\<rparr>))"
proof -
  have sent: "ConvertToString_request r = first_line r @ 13 # 10 # send_lines (sent_lines r)"
    using assms(1) by (simp add: ConvertToString_request_lines sent_lines_def)
  have "13 \<notin> set (first_line r)" using assms(2) plain_names by (auto simp: first_line_def path_ok_def plain_def)
  then have "std_find (ConvertToString_request r) [13, 10] 0 = Some (length (first_line r))"
    using std_find_line [of "first_line r" "[]" "send_lines (sent_lines r)"] by (simp add: sent)
  then show ?thesis
    using parse_request_line_sent [OF assms(2), of dcheck gurl]
    by (subst parse_request_loop.simps) (simp add: sent std_substr_def)
qed

lemma parse_request_loop_lines:
  assumes "list_all header_ok (rq_headers r)" "sent_lines r = ls @ ls'" "length ls \<le> 255"
  shows "parse_request_loop dcheck gurl (ConvertToString_request r) (length (first_line r @ [13, 10])) 1 req =
    parse_request_loop dcheck gurl (ConvertToString_request r) (length (first_line r @ [13, 10] @ send_lines ls)) (1 + of_nat (length ls))
      (req\<lparr>rq_headers := rq_headers req @ List.map_filter ParseHttpHeader ls\<rparr>)"
proof -
  have "list_all plain (ls @ ls')" using plain_sent [OF assms(1)] assms(2) by (simp add: sent_lines_def del: list_all_append)
  then have "list_all plain ls" by simp
  moreover have "ConvertToString_request r = (first_line r @ [13, 10]) @ send_lines ls @ send_lines ls'"
    using ConvertToString_request_lines [OF assms(1)] assms(2) by (simp add: sent_lines_def [symmetric] del: send_lines_simps(3)) simp
  ultimately show ?thesis
    using parse_request_loop_headers [of ls 1 "ConvertToString_request r" "first_line r @ [13, 10]" "send_lines ls'" dcheck gurl req] assms(3)
    by simp
qed

lemma parse_request_loop_wraps:
  assumes "list_all header_ok (rq_headers r)" "255 \<le> length (rq_headers r)" "32 \<notin> set (sent_lines r ! 255)"
  shows "parse_request_loop dcheck gurl (ConvertToString_request r) (length (first_line r @ [13, 10])) 1 req
    = Inr (Inl (HS_NOT_IMPLEMENTED, Error_Text ''That method is not implemented.''))"
proof -
  let ?l = "sent_lines r ! 255" and ?ls = "take 255 (sent_lines r)" and ?ls' = "drop 256 (sent_lines r)"
  let ?pre = "first_line r @ [13, 10] @ send_lines ?ls"
  have len: "255 < length (sent_lines r)" using assms(2) by (simp add: sent_lines_def)
  then have split: "sent_lines r = ?ls @ ?l # ?ls'" using id_take_nth_drop [of 255 "sent_lines r"] by simp
  have sent: "ConvertToString_request r = ?pre @ ?l @ 13 # 10 # send_lines ?ls'"
    using ConvertToString_request_lines [OF assms(1)] split by (simp add: sent_lines_def [symmetric]) (metis append_assoc send_lines_simps(2,3))
  have "13 \<notin> set ?l" using plain_sent [OF assms(1)] len unfolding sent_lines_def [symmetric] by (simp add: list_all_length plain_def)
  then have "std_find (ConvertToString_request r) [13, 10] (length ?pre) = Some (length ?pre + length ?l)"
    unfolding sent by (rule std_find_line)
  moreover have "std_substr (ConvertToString_request r) (length ?pre) (length ?l) = ?l" unfolding sent by (simp add: std_substr_def)
  moreover have "(1 :: u8) + of_nat (length ?ls) = 0" using len by simp
  ultimately have "parse_request_loop dcheck gurl (ConvertToString_request r) (length ?pre) (1 + of_nat (length ?ls)) req'
      = Inr (Inl (HS_NOT_IMPLEMENTED, Error_Text ''That method is not implemented.''))" for req'
    by (subst parse_request_loop.simps) (simp add: parse_request_line_no_space [OF assms(3)] del: length_append)
  then show ?thesis using parse_request_loop_lines [OF assms(1) split, of dcheck gurl req] by simp
qed

subsection \<open>Responses\<close>

lemma least_from_skip:
  assumes "k \<le> n" "\<And>j. j < k \<Longrightarrow> \<not> Q j"
  shows "least_from Q 0 n = map_option (\<lambda>i. i + k) (least_from (\<lambda>i. Q (i + k)) 0 (n - k))"
proof -
  have "filter Q [0..<k] = []" using assms(2) by auto
  moreover have "[0..<n] = [0..<k] @ map (\<lambda>i. i + k) [0..<n - k]"
    using assms(1) upt_add_eq_append [of 0 k "n - k"] by (simp add: map_add_upt)
  ultimately show ?thesis by (auto simp: least_from_def filter_map comp_def split: list.splits)
qed

abbreviation (input) CRLF2 :: buffer where "CRLF2 \<equiv> [13, 10, 13, 10]"

lemma std_find_CRLF2: "std_find s CRLF2 0 = least_from (\<lambda>i. take 4 (drop i s) = CRLF2) 0 (length s - 3)"
proof -
  have "length CRLF2 = 4" "length s + 1 - 4 = length s - 3" by simp_all
  then show ?thesis unfolding std_find_def by (simp only:)
qed

lemma no_blank_line:
  assumes "plain l" "j < length l + 2" "rest \<noteq> [] \<longrightarrow> hd rest \<noteq> 13"
  shows "take 4 (drop j (l @ 13 # 10 # rest)) \<noteq> CRLF2"
proof -
  let ?s = "l @ 13 # 10 # rest"
  consider "j < length l" | "j = length l" | "j = length l + 1" using assms(2) by linarith
  then show ?thesis
  proof cases
    case 1
    then have "drop j ?s = l ! j # drop (Suc j) ?s" by (simp add: Cons_nth_drop_Suc [symmetric] nth_append)
    moreover have "l ! j \<noteq> 13" using 1 assms(1) by (metis nth_mem plain_def)
    ultimately show ?thesis by simp
  next
    case 2
    then show ?thesis using assms(3) by (cases rest) auto
  qed simp
qed

lemma std_find_blank_skip:
  assumes "plain l" "rest \<noteq> [] \<longrightarrow> hd rest \<noteq> 13"
  shows "std_find (l @ 13 # 10 # rest) CRLF2 0 = map_option (\<lambda>i. i + (length l + 2)) (std_find rest CRLF2 0)"
proof (cases "length rest < 3")
  case True
  then have "least_from Q 0 (length rest - 3) = None" for Q by (subst least_from_step) simp
  moreover have "least_from (\<lambda>i. take 4 (drop i (l @ 13 # 10 # rest)) = CRLF2) 0 (length (l @ 13 # 10 # rest) - 3) = None"
  proof -
    have "filter (\<lambda>i. take 4 (drop i (l @ 13 # 10 # rest)) = CRLF2) [0..<length (l @ 13 # 10 # rest) - 3] = []"
      unfolding filter_empty_conv using True by (intro ballI no_blank_line [OF assms(1) _ assms(2)]) auto
    then show ?thesis by (simp only: least_from_def list.case)
  qed
  ultimately show ?thesis unfolding std_find_CRLF2 by (simp only: option.map)
next
  case False
  have "least_from (\<lambda>i. take 4 (drop i (l @ 13 # 10 # rest)) = CRLF2) 0 (length (l @ 13 # 10 # rest) - 3) =
      map_option (\<lambda>i. i + (length l + 2)) (least_from (\<lambda>i. take 4 (drop (i + (length l + 2)) (l @ 13 # 10 # rest)) = CRLF2) 0
        (length (l @ 13 # 10 # rest) - 3 - (length l + 2)))"
    using False by (intro least_from_skip no_blank_line [OF assms(1) _ assms(2)]) auto
  moreover have "drop (i + (length l + 2)) (l @ 13 # 10 # rest) = drop i rest" for i by simp
  moreover have "length (l @ 13 # 10 # rest) - 3 - (length l + 2) = length rest - 3" by simp
  ultimately show ?thesis unfolding std_find_CRLF2 by (simp only:)
qed

lemma std_find_blank_line: "plain l \<Longrightarrow> std_find (l @ CRLF2 @ body) CRLF2 0 = Some (length l)"
proof -
  assume l: "plain l"
  have "take 4 (drop j (l @ CRLF2 @ body)) \<noteq> CRLF2" if "j < length l" for j
  proof -
    have "drop j (l @ CRLF2 @ body) = l ! j # drop (Suc j) (l @ CRLF2 @ body)" using that by (simp add: Cons_nth_drop_Suc [symmetric] nth_append)
    moreover have "l ! j \<noteq> 13" using that l by (metis nth_mem plain_def)
    ultimately show ?thesis by simp
  qed
  then show ?thesis by (simp add: std_find_def least_from_Some_iff numeral_eq_Suc)
qed

lemma std_find_header_end:
  "list_all (\<lambda>l. plain l \<and> l \<noteq> []) ls \<Longrightarrow> ls \<noteq> []
    \<Longrightarrow> std_find (JoinStringT ls [13, 10] @ CRLF2 @ body) CRLF2 0 = Some (length (JoinStringT ls [13, 10]))"
proof (induction ls)
  case (Cons l ls)
  show ?case
  proof (cases "ls = []")
    case True
    then show ?thesis using Cons.prems std_find_blank_line by simp
  next
    case False
    let ?rest = "JoinStringT ls [13, 10] @ CRLF2 @ body"
    have "hd ?rest \<noteq> 13"
      using False Cons.prems by (cases ls) (auto simp: join_words plain_def hd_append split: if_splits dest!: hd_in_set)
    then have "std_find (l @ 13 # 10 # ?rest) CRLF2 0 = map_option (\<lambda>i. i + (length l + 2)) (std_find ?rest CRLF2 0)"
      using Cons.prems by (intro std_find_blank_skip) auto
    with Cons False show ?thesis by simp
  qed
qed simp

lemma split_on_lines:
  "list_all plain ls \<Longrightarrow> ls \<noteq> [] \<Longrightarrow> split_on (\<lambda>c. c \<in> set [13, 10]) (JoinStringT ls [13, 10]) = hd ls # concat (map (\<lambda>l. [[], l]) (tl ls))"
proof (induction ls)
  case (Cons l ls)
  have l: "\<forall>c\<in>set l. c \<notin> set [13, 10]" using Cons.prems by (auto simp: plain_def)
  show ?case
  proof (cases "ls = []")
    case True
    then show ?thesis using split_on_none [of l "\<lambda>c. c \<in> set [13, 10]"] l by simp
  next
    case False
    have "split_on (\<lambda>c. c \<in> set [13, 10]) (l @ 13 # 10 # JoinStringT ls [13, 10])
        = l # [] # split_on (\<lambda>c. c \<in> set [13, 10]) (JoinStringT ls [13, 10])"
      using split_on_append [OF l, of 13 "10 # JoinStringT ls [13, 10]"] by simp
    with Cons False show ?thesis by (cases ls) simp_all
  qed
qed simp

definition response_line :: "http_protocol \<Rightarrow> buffer \<Rightarrow> buffer \<Rightarrow> buffer" where
  "response_line p digits reason = ConvertToString_protocol p @ 32 # digits @ 32 # reason"

definition response_text :: "http_protocol \<Rightarrow> buffer \<Rightarrow> buffer \<Rightarrow> HttpHeader list \<Rightarrow> buffer \<Rightarrow> buffer" where
  "response_text p digits reason hs body =
     JoinStringT (response_line p digits reason # map HttpHeader_as_string hs) [13, 10] @ CRLF2 @ body"

lemma digits_chars: "digits_value 10 acc ds = Some v \<Longrightarrow> c \<in> set ds \<Longrightarrow> 48 \<le> uint c \<and> uint c \<le> 57"
  by (induction "10 :: int" acc ds rule: digits_value.induct) (auto simp: CharToDigit_def Let_def split: option.splits if_splits)

lemma digits_no_space:
  assumes "digits_value 10 0 ds = Some v" "c \<in> set ds"
  shows "c \<notin> {32, 13, 10}"
  using digits_chars [OF assms] by auto

lemma ushort_digits:
  assumes "ds \<noteq> []" "digits_value 10 0 ds = Some v" "v < 2 ^ 16"
  shows "ConvertFromString_ushort ds = Some v"
proof -
  have "denotes (unsigned_traits 16 10) ds v"
    unfolding denotes_def using assms digits_value_ge [OF assms(2)]
    by (intro exI [of _ "[]"] exI [of _ ds]) (auto simp: unsigned_traits_def)
  then show ?thesis by (simp add: ConvertFromString_ushort_def DoStringToInt_exact)
qed

lemma parse_status_line_sent:
  assumes "ds \<noteq> []" "digits_value 10 0 ds = Some v" "v < 2 ^ 16"
  shows "parse_status_line dcheck (response_line p ds reason) = Inr (Some (p, v))"
proof -
  let ?p = "ConvertToString_protocol p"
  have "std_find_first_of (?p @ 32 # ds @ 32 # reason) [32] 0 = Some (length ?p)"
    by (rule std_find_first_of_append) (cases p, simp_all add: protocol_names bytes_def)
  moreover have "std_find_first_of (ds @ 32 # reason) [32] 0 = Some (length ds)"
    using digits_no_space [OF assms(2)] by (intro std_find_first_of_append) auto
  moreover have "47 \<in> set ?p" by (cases p) (simp_all add: protocol_names bytes_def)
  then have "std_find_first_of ?p [47] 0 \<noteq> None" unfolding std_find_first_of_def by (subst in_set_prefix) auto
  ultimately show ?thesis
    using ushort_digits [OF assms] by (auto simp: parse_status_line_def response_line_def std_substr_def protocol_round_trip)
qed

lemma split_piece_trim: "length p < 2 ^ 64 \<Longrightarrow> split_piece TRIM_WHITESPACE SPLIT_WANT_ALL p = [trim kWhitespaceASCII p]"
  by (simp add: split_piece_def TrimStringPieceT_trim kWhitespaceASCII_def)

lemma length_JoinStringT: "l \<in> set ls \<Longrightarrow> length l \<le> length (JoinStringT ls sep)"
proof (induction ls)
  case (Cons a ls)
  then show ?case by (cases "ls = []") auto
qed simp

lemma split_pieces_trim:
  "\<forall>x\<in>set ls. length x < 2 ^ 64 \<Longrightarrow>
    concat (map (split_piece TRIM_WHITESPACE SPLIT_WANT_ALL) (concat (map (\<lambda>l. [[], l]) ls))) = concat (map (\<lambda>l. [[], trim kWhitespaceASCII l]) ls)"
  by (induction ls) (simp_all add: split_piece_trim trim_clean [of "[]"] clean_def)

lemma ParseHttpHeaders_lines:
  assumes "list_all plain (l # ls)" "l \<noteq> []" "length (JoinStringT (l # ls) [13, 10]) < 2 ^ 64"
  shows "ParseHttpHeaders dcheck (JoinStringT (l # ls) [13, 10]) =
    bind_exec (parse_status_line dcheck (trim kWhitespaceASCII l)) (\<lambda>r.
      case r of
        None \<Rightarrow> Inr None
      | Some (p, status) \<Rightarrow> Inr (Some \<lparr>rs_protocol = p, rs_status = status,
          rs_headers = List.map_filter ParseHttpHeader (map (trim kWhitespaceASCII) ls), rs_body = []\<rparr>))"
proof -
  let ?s = "JoinStringT (l # ls) [13, 10]"
  have short: "length x < 2 ^ 64" if "x \<in> set (l # ls)" for x using length_JoinStringT [OF that, of "[13, 10]"] assms(3) by linarith
  have "?s \<noteq> []" using assms(2) by (cases "ls = []") auto
  then have split: "SplitStringT ?s [13, 10] TRIM_WHITESPACE SPLIT_WANT_ALL
      = trim kWhitespaceASCII l # concat (map (\<lambda>l. [[], trim kWhitespaceASCII l]) ls)"
    using assms(3) split_on_lines [OF assms(1)] short by (simp add: SplitStringT_eq split_piece_trim split_pieces_trim)
  have "List.map_filter ParseHttpHeader (concat (map (\<lambda>l. [[], trim kWhitespaceASCII l]) ls))
      = List.map_filter ParseHttpHeader (map (trim kWhitespaceASCII) ls)"
    by (induction ls) (auto simp: map_filter_simps split: option.splits)
  with \<open>?s \<noteq> []\<close> split show ?thesis by (simp add: ParseHttpHeaders_def)
qed

lemma plain_as_string: "header_ok h \<Longrightarrow> plain (HttpHeader_as_string h) \<and> HttpHeader_as_string h \<noteq> []"
  by (auto simp: header_ok_def plain_def HttpHeader_as_string_def bytes_def)

lemma map_filter_received:
  "list_all header_ok hs \<Longrightarrow> List.map_filter ParseHttpHeader (map (trim kWhitespaceASCII) (map HttpHeader_as_string hs)) = hs"
  by (induction hs) (simp_all add: map_filter_simps ParseHttpHeader_as_string)

lemma ParseHttpHeaders_sent:
  assumes "list_all header_ok hs" "ds \<noteq> []" "digits_value 10 0 ds = Some v" "v < 2 ^ 16" "reason \<noteq> []" "plain reason" "clean reason"
    and "length (JoinStringT (response_line p ds reason # map HttpHeader_as_string hs) [13, 10]) < 2 ^ 64"
  shows "ParseHttpHeaders dcheck (JoinStringT (response_line p ds reason # map HttpHeader_as_string hs) [13, 10])
    = Inr (Some \<lparr>rs_protocol = p, rs_status = v, rs_headers = hs, rs_body = []\<rparr>)"
    and "list_all (\<lambda>l. plain l \<and> l \<noteq> []) (response_line p ds reason # map HttpHeader_as_string hs)"
proof -
  let ?l = "response_line p ds reason"
  have "plain ?l" using digits_no_space [OF assms(3)] assms(6) plain_names(1) [of p] by (auto simp: response_line_def plain_def)
  moreover have "clean ?l"
    using assms(5,7) by (cases p) (auto simp: response_line_def clean_def kWhitespaceASCII_def protocol_names bytes_def)
  moreover have "?l \<noteq> []" by (simp add: response_line_def)
  moreover have "list_all (\<lambda>l. plain l \<and> l \<noteq> []) (map HttpHeader_as_string hs)"
    using assms(1) plain_as_string by (induction hs) auto
  ultimately show "list_all (\<lambda>l. plain l \<and> l \<noteq> []) (?l # map HttpHeader_as_string hs)"
    "ParseHttpHeaders dcheck (JoinStringT (?l # map HttpHeader_as_string hs) [13, 10])
      = Inr (Some \<lparr>rs_protocol = p, rs_status = v, rs_headers = hs, rs_body = []\<rparr>)"
    using ParseHttpHeaders_lines [of ?l "map HttpHeader_as_string hs" dcheck] assms(8) parse_status_line_sent [OF assms(2-4)]
      map_filter_received [OF assms(1)]
    by (auto simp: trim_clean list_all_iff)
qed

subsection \<open>Properties\<close>

text \<open>C20. What \<^verbatim>\<open>parse_http_request\<close> reads from the text that \<^verbatim>\<open>ConvertToString\<close> writes for a request whose headers have names and
  values without separators or surrounding white space and whose path is one line that starts with a slash. With fewer than 254
  headers the method, the headers in order and, for a path without the letters H, T and P that is not a URL of its own, also the path
  and the protocol are read back exactly; the body is not part of the text. A path with one of the three letters is cut before the
  character before the first of them and the protocol becomes HTTP/1.0 (a build with debug checks ends the process), and a path that
  is a URL is replaced by the path of the URL. With exactly 254 headers the 8-bit line counter is zero at the end and the request is refused as
  one without a line end; with 255 or more the 257th line is taken for a first line again, and the request refused when that line
  has no space, as the blank line at the end.\<close>

theorem request_round_trip:
  assumes "list_all header_ok (rq_headers r)" "path_ok (rq_relative_url r)"
  shows "(dcheck \<and> \<not> htp_free (rq_relative_url r) \<longrightarrow> parse_http_request dcheck gurl decode (ConvertToString_request r) = Inl Terminated)
    \<and> (\<not> dcheck \<or> htp_free (rq_relative_url r) \<longrightarrow>
        (length (rq_headers r) < 254 \<longrightarrow> parse_http_request dcheck gurl decode (ConvertToString_request r) = Inr (Inr (received gurl r)))
      \<and> (length (rq_headers r) = 254 \<longrightarrow>
          parse_http_request dcheck gurl decode (ConvertToString_request r) = Inr (Inl (HS_BAD_REQUEST, Error_Text ''Not found CRLF'')))
      \<and> (255 \<le> length (rq_headers r) \<and> 32 \<notin> set ((map ConvertToString_header (rq_headers r) @ [[]]) ! 255) \<longrightarrow>
          parse_http_request dcheck gurl decode (ConvertToString_request r)
            = Inr (Inl (HS_NOT_IMPLEMENTED, Error_Text ''That method is not implemented.''))))
    \<and> (htp_free (rq_relative_url r) \<and> gurl (rq_relative_url r) = None \<longrightarrow> received gurl r = r\<lparr>rq_body := []\<rparr>)"
proof -
  let ?n = "length (rq_headers r)" and ?text = "ConvertToString_request r"
  let ?req = "\<lparr>rq_method = HM_GET, rq_relative_url = [], rq_protocol = HP_1_0, rq_headers = [], rq_body = []\<rparr>"
  have ne: "?text \<noteq> []" by (simp add: ConvertToString_request_def)
  note first = parse_request_loop_first [OF assms, of dcheck gurl ?req]
  have "of_nat (?n + 2) = (0 :: u8) \<longleftrightarrow> 256 dvd ?n + 2" unfolding word_of_nat_eq_0_iff by simp
  moreover have "256 dvd ?n + 2 \<longleftrightarrow> ?n = 254" if "?n \<le> 254" using that by (auto dest: dvd_imp_le)
  ultimately have count: "of_nat ?n + (2 :: u8) = 0 \<longleftrightarrow> ?n = 254" if "?n \<le> 254" using that by (simp add: add.commute)
  have short: "parse_http_request dcheck gurl decode ?text
      = (if ?n = 254 then Inr (Inl (HS_BAD_REQUEST, Error_Text ''Not found CRLF'')) else Inr (Inr (received gurl r)))"
    if "?n \<le> 254" "\<not> (dcheck \<and> \<not> htp_free (rq_relative_url r))"
  proof -
    have "length (first_line r @ [13, 10] @ send_lines (sent_lines r)) = length ?text"
      using ConvertToString_request_lines [OF assms(1)] by (simp add: sent_lines_def)
    then have "parse_request_loop dcheck gurl ?text 0 0 ?req = Inr (Inr (length ?text, of_nat ?n + 2,
        ?req\<lparr>rq_method := rq_method r, rq_relative_url := rq_relative_url (received gurl r), rq_protocol := rq_protocol (received gurl r),
          rq_headers := rq_headers r\<rparr>))"
      using first that parse_request_loop_lines [OF assms(1), of "sent_lines r" "[]" dcheck gurl] map_filter_sent [OF assms(1)]
      by (simp add: parse_request_loop_end sent_lines_def)
    then show ?thesis using ne count [OF that(1)] by (cases r) (simp add: parse_http_request_def received_def)
  qed
  have "parse_http_request dcheck gurl decode ?text = Inl Terminated" if "dcheck \<and> \<not> htp_free (rq_relative_url r)"
    using first ne that by (simp add: parse_http_request_def)
  moreover have "parse_http_request dcheck gurl decode ?text = Inr (Inl (HS_NOT_IMPLEMENTED, Error_Text ''That method is not implemented.''))"
    if "255 \<le> ?n" "32 \<notin> set (sent_lines r ! 255)" "\<not> (dcheck \<and> \<not> htp_free (rq_relative_url r))"
    using first ne that parse_request_loop_wraps [OF assms(1) that(1,2)] by (simp add: parse_http_request_def)
  moreover have "received gurl r = r\<lparr>rq_body := []\<rparr>" if "htp_free (rq_relative_url r)" "gurl (rq_relative_url r) = None"
    using that assms(2) by (simp add: received_def received_path_def cut_path_def path_ok_def)
  ultimately show ?thesis using short unfolding sent_lines_def by (cases "dcheck \<and> \<not> htp_free (rq_relative_url r)") auto
qed

theorem request_round_trip_witness:
  "parse_http_request True (\<lambda>_. None) id
     (ConvertToString_request \<lparr>rq_method = HM_POST, rq_relative_url = bytes ''/index'', rq_protocol = HP_1_1,
        rq_headers = [\<lparr>hh_key = bytes ''Host'', hh_value = bytes ''a b''\<rparr>], rq_body = [1]\<rparr>)
   = Inr (Inr \<lparr>rq_method = HM_POST, rq_relative_url = bytes ''/index'', rq_protocol = HP_1_1,
        rq_headers = [\<lparr>hh_key = bytes ''Host'', hh_value = bytes ''a b''\<rparr>], rq_body = []\<rparr>)"
proof -
  let ?r = "\<lparr>rq_method = HM_POST, rq_relative_url = bytes ''/index'', rq_protocol = HP_1_1,
        rq_headers = [\<lparr>hh_key = bytes ''Host'', hh_value = bytes ''a b''\<rparr>], rq_body = [1]\<rparr>"
  have "list_all header_ok (rq_headers ?r)" "path_ok (rq_relative_url ?r)" "htp_free (rq_relative_url ?r)"
    by (simp_all add: header_ok_def path_ok_def plain_def clean_def bytes_def kWhitespaceASCII_def htp_free_def HTP_def)
  with request_round_trip [of ?r True "\<lambda>_. None" id] show ?thesis by simp
qed

text \<open>The names that count as \<^verbatim>\<open>Content-Length\<close>: those that start with it, in any case.\<close>

definition lower_letter :: "u8 \<Rightarrow> u8" where
  "lower_letter c = (if 65 \<le> unat c \<and> unat c \<le> 90 then c + 32 else c)"

definition content_length_name :: "buffer \<Rightarrow> bool" where
  "content_length_name k \<longleftrightarrow> map lower_letter (take 14 k) = bytes ''content-length''"

lemma lower_letter_eq: "lower_letter c = ToLowerASCII c"
  by (simp add: lower_letter_def ToLowerASCII_def word_le_nat_alt)

lemma std_equal_map: "length xs \<le> length ys \<Longrightarrow> std_equal CaseInsensitiveCompare xs ys \<longleftrightarrow> map ToLowerASCII xs = map ToLowerASCII (take (length xs) ys)"
  by (induction CaseInsensitiveCompare xs ys rule: std_equal.induct) (auto simp: CaseInsensitiveCompare_def)

lemma EqualsASCII_content_length: "EqualsASCII k CONTENT_LENGTH False \<longleftrightarrow> content_length_name k"
proof -
  have low: "map ToLowerASCII CONTENT_LENGTH = bytes ''content-length''" "length CONTENT_LENGTH = 14" by code_simp+
  have "map ToLowerASCII (take 14 k) = bytes ''content-length'' \<Longrightarrow> 14 \<le> length k"
    by (drule arg_cong [of _ _ length]) (simp add: bytes_def)
  then show ?thesis
    using low std_equal_map [of CONTENT_LENGTH k]
    by (auto simp: EqualsASCII_def StartsWithT_def content_length_name_def lower_letter_eq [abs_def])
qed

lemma FindHeaderByKey_content_length: "FindHeaderByKey hs CONTENT_LENGTH False = find (\<lambda>h. content_length_name (hh_key h)) hs"
  by (induction hs) (simp_all add: EqualsASCII_content_length)

lemma ParseHttpHeaders_no_reason:
  assumes "list_all header_ok hs" "ds \<noteq> []" "digits_value 10 0 ds = Some v"
    and "length (JoinStringT (response_line p ds [] # map HttpHeader_as_string hs) [13, 10]) < 2 ^ 64"
  shows "ParseHttpHeaders dcheck (JoinStringT (response_line p ds [] # map HttpHeader_as_string hs) [13, 10]) = Inr None"
    and "list_all (\<lambda>l. plain l \<and> l \<noteq> []) (response_line p ds [] # map HttpHeader_as_string hs)"
proof -
  let ?p = "ConvertToString_protocol p" and ?l = "response_line p ds []"
  have "plain ?l" using digits_no_space [OF assms(3)] plain_names(1) [of p] by (auto simp: response_line_def plain_def)
  moreover have "?l \<noteq> []" by (simp add: response_line_def)
  moreover have "list_all (\<lambda>l. plain l \<and> l \<noteq> []) (map HttpHeader_as_string hs)"
    using assms(1) plain_as_string by (induction hs) auto
  ultimately show plains: "list_all (\<lambda>l. plain l \<and> l \<noteq> []) (?l # map HttpHeader_as_string hs)" by simp
  have last: "last ds \<notin> set kWhitespaceASCII"
    using digits_chars [OF assms(3) last_in_set [OF assms(2)]] by (auto simp: kWhitespaceASCII_def)
  have "hd ?p \<notin> set kWhitespaceASCII" "?p \<noteq> []" by (cases p, simp_all add: protocol_names bytes_def kWhitespaceASCII_def)+
  with last assms(2) have "trim kWhitespaceASCII ?l = ?p @ 32 # ds"
    by (simp add: trim_def response_line_def dropWhile_hd hd_rev kWhitespaceASCII_def)
  moreover have "std_find_first_of (?p @ 32 # ds) [32] 0 = Some (length ?p)"
    by (rule std_find_first_of_append) (cases p, simp_all add: protocol_names bytes_def)
  moreover have "std_find_first_of ds [32] 0 = None"
    unfolding std_find_first_of_def using digits_no_space [OF assms(3)] by (subst in_set_prefix) auto
  moreover have "47 \<in> set ?p" by (cases p) (simp_all add: protocol_names bytes_def)
  then have "std_find_first_of ?p [47] 0 \<noteq> None" unfolding std_find_first_of_def by (subst in_set_prefix) auto
  ultimately have "parse_status_line dcheck (trim kWhitespaceASCII ?l) = Inr None"
    by (auto simp: parse_status_line_def std_substr_def protocol_round_trip)
  then show "ParseHttpHeaders dcheck (JoinStringT (?l # map HttpHeader_as_string hs) [13, 10]) = Inr None"
    using ParseHttpHeaders_lines [of ?l "map HttpHeader_as_string hs" dcheck] plains assms(4) by (auto simp: list_all_iff)
qed

text \<open>C21. A response made of a status line with the decimal number of a 16-bit status and a reason on one line without surrounding white
  space, of header lines and of a body is parsed exactly: the protocol, the status number and the headers in order; and the body
  is taken, with nothing left over, precisely when the value of the first header whose name starts with \<^verbatim>\<open>Content-Length\<close> (in any
  case, whatever follows in the name) is a decimal number, with at most a plus sign before it, that is the number of bytes after the
  blank line. Otherwise the body stays empty and all these bytes are reported as not parsed. Without a reason phrase the
  response is refused.\<close>

theorem response_parse_exact:
  assumes "list_all header_ok hs" "ds \<noteq> []" "digits_value 10 0 ds = Some v" "v < 2 ^ 16" "plain reason" "clean reason"
    and "length (response_text p ds reason hs body) < 2 ^ 64"
  shows "parse_http_response dcheck (response_text p ds reason hs body) =
    (if reason = [] then Inr (Inl Error_Inval)
     else if \<exists>h. find (\<lambda>h. content_length_name (hh_key h)) hs = Some h
         \<and> (\<exists>sign num. hh_value h = sign @ num \<and> sign \<in> {[], bytes ''+''} \<and> num \<noteq> [] \<and> digits_value 10 0 num = Some (int (length body)))
     then Inr (Inr (\<lparr>rs_protocol = p, rs_status = v, rs_headers = hs, rs_body = body\<rparr>, 0))
     else Inr (Inr (\<lparr>rs_protocol = p, rs_status = v, rs_headers = hs, rs_body = []\<rparr>, length body)))"
proof -
  let ?ls = "response_line p ds reason # map HttpHeader_as_string hs"
  let ?h = "JoinStringT ?ls [13, 10]"
  have t: "response_text p ds reason hs body = ?h @ CRLF2 @ body" by (simp add: response_text_def)
  have h: "length ?h < 2 ^ 64" and b: "length body < 2 ^ 64" using assms(7) by (simp_all add: t)
  have num: "ConvertFromString_ulong s = Some (int (length body)) \<longleftrightarrow>
      (\<exists>sign num. s = sign @ num \<and> sign \<in> {[], bytes ''+''} \<and> num \<noteq> [] \<and> digits_value 10 0 num = Some (int (length body)))" for s
  proof -
    have "ConvertFromString_ulong s = Some (int (length body)) \<longleftrightarrow> denotes (unsigned_traits 64 10) s (int (length body))"
      by (simp add: ConvertFromString_ulong_def DoStringToInt_exact)
    also have "\<dots> \<longleftrightarrow> (\<exists>sign num. s = sign @ num \<and> sign \<in> {[], bytes ''+''} \<and> num \<noteq> [] \<and> digits_value 10 0 num = Some (int (length body)))"
      unfolding denotes_def unsigned_traits_def traits.simps by (intro iff_exI) (use b in \<open>auto simp: bytes_def\<close>)
    finally show ?thesis .
  qed
  have "list_all (\<lambda>l. plain l \<and> l \<noteq> []) ?ls
    \<and> ParseHttpHeaders dcheck ?h = Inr (if reason = [] then None else Some \<lparr>rs_protocol = p, rs_status = v, rs_headers = hs, rs_body = []\<rparr>)"
  proof (cases "reason = []")
    case True
    with ParseHttpHeaders_no_reason [OF assms(1-3), of p] h show ?thesis by simp
  next
    case False
    with ParseHttpHeaders_sent [OF assms(1-4) False assms(5,6) h] show ?thesis by simp
  qed
  moreover from this have "std_find (?h @ CRLF2 @ body) CRLF2 0 = Some (length ?h)" by (intro std_find_header_end) auto
  ultimately show ?thesis
    unfolding num [symmetric]
    by (auto simp: parse_http_response_def t std_substr_def FindHeaderByKey_content_length split: option.splits)
qed

theorem response_parse_exact_witness:
  "parse_http_response True (response_text HP_1_1 (bytes ''200'') (bytes ''OK'')
      [\<lparr>hh_key = bytes ''content-length'', hh_value = bytes ''2''\<rparr>] [65, 66])
    = Inr (Inr (\<lparr>rs_protocol = HP_1_1, rs_status = 200, rs_headers = [\<lparr>hh_key = bytes ''content-length'', hh_value = bytes ''2''\<rparr>],
        rs_body = [65, 66]\<rparr>, 0))"
proof -
  let ?h = "\<lparr>hh_key = bytes ''content-length'', hh_value = bytes ''2''\<rparr>"
  have facts: "digits_value 10 0 (bytes ''200'') = Some 200" "digits_value 10 0 (bytes ''2'') = Some 2"
    "content_length_name (hh_key ?h)"
    by code_simp+
  then have "\<exists>sign num. hh_value ?h = sign @ num \<and> sign \<in> {[], bytes ''+''} \<and> num \<noteq> [] \<and> digits_value 10 0 num = Some (int (length [65 :: u8, 66]))"
    by (intro exI [of _ "[]"] exI [of _ "bytes ''2''"]) (simp add: bytes_def)
  moreover have "list_all header_ok [?h]" "plain (bytes ''OK'')" "clean (bytes ''OK'')" "bytes ''OK'' \<noteq> []" "bytes ''200'' \<noteq> []"
    "length (response_text HP_1_1 (bytes ''200'') (bytes ''OK'') [?h] [65, 66]) < 2 ^ 64"
    by (simp_all add: header_ok_def plain_def clean_def bytes_def kWhitespaceASCII_def response_text_def response_line_def
        protocol_names HttpHeader_as_string_def)
  ultimately show ?thesis
    using response_parse_exact [of "[?h]" "bytes ''200''" 200 "bytes ''OK''" HP_1_1 "[65, 66]" True] facts by simp
qed

subsection \<open>Where the code departs from its purpose\<close>

text \<open>The name of a header is compared as a prefix.\<close>

lemma find_header_by_prefix:
  "FindHeaderByKey [\<lparr>hh_key = bytes ''Hostess'', hh_value = bytes ''x''\<rparr>] (bytes ''Host'') True
    = Some \<lparr>hh_key = bytes ''Hostess'', hh_value = bytes ''x''\<rparr>"
  by code_simp

text \<open>\<^verbatim>\<open>RemoveHeaderByKey\<close> keeps the header it finds and drops those before it.\<close>

lemma remove_header_keeps_it:
  assumes "\<not> EqualsASCII (hh_key h1) key cs" "EqualsASCII (hh_key h2) key cs"
  shows "rq_headers (RemoveHeaderByKey (r\<lparr>rq_headers := h1 # h2 # hs\<rparr>) key cs) = h2 # hs"
  using assms by (simp add: RemoveHeaderByKey_def)

text \<open>A path with one of the letters H, T and P is cut before it, and the rest is taken for the protocol.\<close>

lemma request_path_cut:
  "parse_request_line False (\<lambda>_. None) (bytes ''GET /aTb HTTP/1.1'') = Inr (Inr (HM_GET, bytes ''/'', HP_1_0))"
  by code_simp

end
