(* ===== verification/Mime.thy ===== *)
theory Mime
  imports Http "HOL-Library.List_Lexorder"
begin

text \<open>
  The table of MIME types, \<^verbatim>\<open>MimeTypes\<close> of \<^verbatim>\<open>src/http/http.cpp\<close>.

  A C string is the list of its characters before the terminator. \<^verbatim>\<open>GetType\<close> finds an extension by binary search with a
  comparison that ignores bit 5 of each character; the comparison is shown to be the lexicographic order of the keys of the two
  strings, the table to be sorted by these keys, and the search to return what a scan from the front returns. The one extension
  that occurs twice is \<^verbatim>\<open>gz\<close>, for which the search ends at the first of the two entries.
\<close>

subsection \<open>The table and the searches\<close>

record mime_entry =
  fileExtension :: buffer
  mimeType :: buffer

definition mime :: "string \<Rightarrow> string \<Rightarrow> mime_entry" where
  "mime e t = \<lparr>fileExtension = bytes e, mimeType = bytes t\<rparr>"

definition type_table_0 :: "(string \<times> string) list" where
  "type_table_0 =
    [(''*3gpp'', ''audio/3gpp''),
     (''*jpm'', ''video/jpm''),
     (''*mp3'', ''audio/mp3''),
     (''*rtf'', ''text/rtf''),
     (''*wav'', ''audio/wave''),
     (''*xml'', ''text/xml''),
     (''3g2'', ''video/3gpp2''),
     (''3gp'', ''video/3gpp''),
     (''3gpp'', ''video/3gpp''),
     (''ac'', ''application/pkix-attr-cert''),
     (''adp'', ''audio/adpcm''),
     (''ai'', ''application/postscript''),
     (''apng'', ''image/apng''),
     (''appcache'', ''text/cache-manifest''),
     (''asc'', ''application/pgp-signature''),
     (''atom'', ''application/atom+xml''),
     (''atomcat'', ''application/atomcat+xml''),
     (''atomsvc'', ''application/atomsvc+xml''),
     (''au'', ''audio/basic''),
     (''aw'', ''application/applixware''),
     (''bdoc'', ''application/bdoc''),
     (''bin'', ''application/octet-stream''),
     (''bmp'', ''image/bmp''),
     (''bpk'', ''application/octet-stream''),
     (''buffer'', ''application/octet-stream''),
     (''ccxml'', ''application/ccxml+xml''),
     (''cdmia'', ''application/cdmi-capability''),
     (''cdmic'', ''application/cdmi-container''),
     (''cdmid'', ''application/cdmi-domain''),
     (''cdmio'', ''application/cdmi-object''),
     (''cdmiq'', ''application/cdmi-queue''),
     (''cer'', ''application/pkix-cert''),
     (''cgm'', ''image/cgm''),
     (''class'', ''application/java-vm''),
     (''coffee'', ''text/coffeescript''),
     (''conf'', ''text/plain''),
     (''cpt'', ''application/mac-compactpro''),
     (''crl'', ''application/pkix-crl''),
     (''css'', ''text/css''),
     (''csv'', ''text/csv''),
     (''cu'', ''application/cu-seeme''),
     (''davmount'', ''application/davmount+xml''),
     (''dbk'', ''application/docbook+xml''),
     (''deb'', ''application/octet-stream''),
     (''def'', ''text/plain''),
     (''deploy'', ''application/octet-stream''),
     (''disposition-notification'', ''message/disposition-notification''),
     (''dist'', ''application/octet-stream''),
     (''distz'', ''application/octet-stream''),
     (''dll'', ''application/octet-stream'')]"

definition type_table_1 :: "(string \<times> string) list" where
  "type_table_1 =
    [(''dmg'', ''application/octet-stream''),
     (''dms'', ''application/octet-stream''),
     (''doc'', ''application/msword''),
     (''dot'', ''application/msword''),
     (''drle'', ''image/dicom-rle''),
     (''dssc'', ''application/dssc+der''),
     (''dtd'', ''application/xml-dtd''),
     (''dump'', ''application/octet-stream''),
     (''ear'', ''application/java-archive''),
     (''ecma'', ''application/ecmascript''),
     (''elc'', ''application/octet-stream''),
     (''emf'', ''image/emf''),
     (''eml'', ''message/rfc822''),
     (''emma'', ''application/emma+xml''),
     (''eps'', ''application/postscript''),
     (''epub'', ''application/epub+zip''),
     (''es'', ''application/ecmascript''),
     (''exe'', ''application/octet-stream''),
     (''exi'', ''application/exi''),
     (''exr'', ''image/aces''),
     (''ez'', ''application/andrew-inset''),
     (''fits'', ''image/fits''),
     (''g3'', ''image/g3fax''),
     (''gbr'', ''application/rpki-ghostbusters''),
     (''geojson'', ''application/geo+json''),
     (''gif'', ''image/gif''),
     (''glb'', ''model/gltf-binary''),
     (''gltf'', ''model/gltf+json''),
     (''gml'', ''application/gml+xml''),
     (''gpx'', ''application/gpx+xml''),
     (''gram'', ''application/srgs''),
     (''grxml'', ''application/srgs+xml''),
     (''gxf'', ''application/gxf''),
     (''gz'', ''application/gzip''),
     (''gz'', ''application/x-gzip''),
     (''h261'', ''video/h261''),
     (''h263'', ''video/h263''),
     (''h264'', ''video/h264''),
     (''heic'', ''image/heic''),
     (''heics'', ''image/heic-sequence''),
     (''heif'', ''image/heif''),
     (''heifs'', ''image/heif-sequence''),
     (''hjson'', ''application/hjson''),
     (''hlp'', ''application/winhlp''),
     (''hqx'', ''application/mac-binhex40''),
     (''htm'', ''text/html''),
     (''html'', ''text/html''),
     (''ics'', ''text/calendar''),
     (''ief'', ''image/ief''),
     (''ifb'', ''text/calendar'')]"

definition type_table_2 :: "(string \<times> string) list" where
  "type_table_2 =
    [(''iges'', ''model/iges''),
     (''igs'', ''model/iges''),
     (''img'', ''application/octet-stream''),
     (''in'', ''text/plain''),
     (''ini'', ''text/plain''),
     (''ink'', ''application/inkml+xml''),
     (''inkml'', ''application/inkml+xml''),
     (''ipfix'', ''application/ipfix''),
     (''iso'', ''application/octet-stream''),
     (''jade'', ''text/jade''),
     (''jar'', ''application/java-archive''),
     (''jls'', ''image/jls''),
     (''jp2'', ''image/jp2''),
     (''jpe'', ''image/jpeg''),
     (''jpeg'', ''image/jpeg''),
     (''jpf'', ''image/jpx''),
     (''jpg'', ''image/jpeg''),
     (''jpg2'', ''image/jp2''),
     (''jpgm'', ''video/jpm''),
     (''jpgv'', ''video/jpeg''),
     (''jpm'', ''image/jpm''),
     (''jpx'', ''image/jpx''),
     (''js'', ''application/javascript''),
     (''json'', ''application/json''),
     (''json5'', ''application/json5''),
     (''jsonld'', ''application/ld+json''),
     (''jsonml'', ''application/jsonml+json''),
     (''jsx'', ''text/jsx''),
     (''kar'', ''audio/midi''),
     (''ktx'', ''image/ktx''),
     (''less'', ''text/less''),
     (''list'', ''text/plain''),
     (''litcoffee'', ''text/coffeescript''),
     (''log'', ''text/plain''),
     (''lostxml'', ''application/lost+xml''),
     (''lrf'', ''application/octet-stream''),
     (''m1v'', ''video/mpeg''),
     (''m21'', ''application/mp21''),
     (''m2a'', ''audio/mpeg''),
     (''m2v'', ''video/mpeg''),
     (''m3a'', ''audio/mpeg''),
     (''m4a'', ''audio/mp4''),
     (''m4p'', ''application/mp4''),
     (''ma'', ''application/mathematica''),
     (''mads'', ''application/mads+xml''),
     (''man'', ''text/troff''),
     (''manifest'', ''text/cache-manifest''),
     (''map'', ''application/json''),
     (''mar'', ''application/octet-stream''),
     (''markdown'', ''text/markdown'')]"

definition type_table_3 :: "(string \<times> string) list" where
  "type_table_3 =
    [(''mathml'', ''application/mathml+xml''),
     (''mb'', ''application/mathematica''),
     (''mbox'', ''application/mbox''),
     (''md'', ''text/markdown''),
     (''me'', ''text/troff''),
     (''mesh'', ''model/mesh''),
     (''meta4'', ''application/metalink4+xml''),
     (''metalink'', ''application/metalink+xml''),
     (''mets'', ''application/mets+xml''),
     (''mft'', ''application/rpki-manifest''),
     (''mid'', ''audio/midi''),
     (''midi'', ''audio/midi''),
     (''mime'', ''message/rfc822''),
     (''mj2'', ''video/mj2''),
     (''mjp2'', ''video/mj2''),
     (''mjs'', ''application/javascript''),
     (''mml'', ''text/mathml''),
     (''mods'', ''application/mods+xml''),
     (''mov'', ''video/quicktime''),
     (''mp2'', ''audio/mpeg''),
     (''mp21'', ''application/mp21''),
     (''mp2a'', ''audio/mpeg''),
     (''mp3'', ''audio/mpeg''),
     (''mp4'', ''video/mp4''),
     (''mp4a'', ''audio/mp4''),
     (''mp4s'', ''application/mp4''),
     (''mp4v'', ''video/mp4''),
     (''mpd'', ''application/dash+xml''),
     (''mpe'', ''video/mpeg''),
     (''mpeg'', ''video/mpeg''),
     (''mpg'', ''video/mpeg''),
     (''mpg4'', ''video/mp4''),
     (''mpga'', ''audio/mpeg''),
     (''mrc'', ''application/marc''),
     (''mrcx'', ''application/marcxml+xml''),
     (''ms'', ''text/troff''),
     (''mscml'', ''application/mediaservercontrol+xml''),
     (''msh'', ''model/mesh''),
     (''msi'', ''application/octet-stream''),
     (''msm'', ''application/octet-stream''),
     (''msp'', ''application/octet-stream''),
     (''mxf'', ''application/mxf''),
     (''mxml'', ''application/xv+xml''),
     (''n3'', ''text/n3''),
     (''nb'', ''application/mathematica''),
     (''oda'', ''application/oda''),
     (''oga'', ''audio/ogg''),
     (''ogg'', ''audio/ogg''),
     (''ogv'', ''video/ogg''),
     (''ogx'', ''application/ogg'')]"

definition type_table_4 :: "(string \<times> string) list" where
  "type_table_4 =
    [(''omdoc'', ''application/omdoc+xml''),
     (''onepkg'', ''application/onenote''),
     (''onetmp'', ''application/onenote''),
     (''onetoc'', ''application/onenote''),
     (''onetoc2'', ''application/onenote''),
     (''opf'', ''application/oebps-package+xml''),
     (''otf'', ''font/otf''),
     (''owl'', ''application/rdf+xml''),
     (''oxps'', ''application/oxps''),
     (''p10'', ''application/pkcs10''),
     (''p7c'', ''application/pkcs7-mime''),
     (''p7m'', ''application/pkcs7-mime''),
     (''p7s'', ''application/pkcs7-signature''),
     (''p8'', ''application/pkcs8''),
     (''pdf'', ''application/pdf''),
     (''pfr'', ''application/font-tdpfr''),
     (''pgp'', ''application/pgp-encrypted''),
     (''pkg'', ''application/octet-stream''),
     (''pki'', ''application/pkixcmp''),
     (''pkipath'', ''application/pkix-pkipath''),
     (''pls'', ''application/pls+xml''),
     (''png'', ''image/png''),
     (''prf'', ''application/pics-rules''),
     (''ps'', ''application/postscript''),
     (''pskcxml'', ''application/pskc+xml''),
     (''qt'', ''video/quicktime''),
     (''raml'', ''application/raml+yaml''),
     (''rdf'', ''application/rdf+xml''),
     (''rif'', ''application/reginfo+xml''),
     (''rl'', ''application/resource-lists+xml''),
     (''rld'', ''application/resource-lists-diff+xml''),
     (''rmi'', ''audio/midi''),
     (''rnc'', ''application/relax-ng-compact-syntax''),
     (''roa'', ''application/rpki-roa''),
     (''roff'', ''text/troff''),
     (''rq'', ''application/sparql-query''),
     (''rs'', ''application/rls-services+xml''),
     (''rsd'', ''application/rsd+xml''),
     (''rss'', ''application/rss+xml''),
     (''rtf'', ''application/rtf''),
     (''rtx'', ''text/richtext''),
     (''s3m'', ''audio/s3m''),
     (''sbml'', ''application/sbml+xml''),
     (''scq'', ''application/scvp-cv-request''),
     (''scs'', ''application/scvp-cv-response''),
     (''sdp'', ''application/sdp''),
     (''ser'', ''application/java-serialized-object''),
     (''setpay'', ''application/set-payment-initiation''),
     (''setreg'', ''application/set-registration-initiation''),
     (''sgi'', ''image/sgi'')]"

definition type_table_5 :: "(string \<times> string) list" where
  "type_table_5 =
    [(''sgm'', ''text/sgml''),
     (''sgml'', ''text/sgml''),
     (''shex'', ''text/shex''),
     (''shf'', ''application/shf+xml''),
     (''shtml'', ''text/html''),
     (''sig'', ''application/pgp-signature''),
     (''sil'', ''audio/silk''),
     (''silo'', ''model/mesh''),
     (''slim'', ''text/slim''),
     (''slm'', ''text/slim''),
     (''smi'', ''application/smil+xml''),
     (''smil'', ''application/smil+xml''),
     (''snd'', ''audio/basic''),
     (''so'', ''application/octet-stream''),
     (''spp'', ''application/scvp-vp-response''),
     (''spq'', ''application/scvp-vp-request''),
     (''spx'', ''audio/ogg''),
     (''sru'', ''application/sru+xml''),
     (''srx'', ''application/sparql-results+xml''),
     (''ssdl'', ''application/ssdl+xml''),
     (''ssml'', ''application/ssml+xml''),
     (''stk'', ''application/hyperstudio''),
     (''styl'', ''text/stylus''),
     (''stylus'', ''text/stylus''),
     (''svg'', ''image/svg+xml''),
     (''svgz'', ''image/svg+xml''),
     (''t'', ''text/troff''),
     (''t38'', ''image/t38''),
     (''tei'', ''application/tei+xml''),
     (''teicorpus'', ''application/tei+xml''),
     (''text'', ''text/plain''),
     (''tfi'', ''application/thraud+xml''),
     (''tfx'', ''image/tiff-fx''),
     (''tif'', ''image/tiff''),
     (''tiff'', ''image/tiff''),
     (''tr'', ''text/troff''),
     (''ts'', ''video/mp2t''),
     (''tsd'', ''application/timestamped-data''),
     (''tsv'', ''text/tab-separated-values''),
     (''ttc'', ''font/collection''),
     (''ttf'', ''font/ttf''),
     (''ttl'', ''text/turtle''),
     (''txt'', ''text/plain''),
     (''u8dsn'', ''message/global-delivery-status''),
     (''u8hdr'', ''message/global-headers''),
     (''u8mdn'', ''message/global-disposition-notification''),
     (''u8msg'', ''message/global''),
     (''uri'', ''text/uri-list''),
     (''uris'', ''text/uri-list''),
     (''urls'', ''text/uri-list'')]"

definition type_table_6 :: "(string \<times> string) list" where
  "type_table_6 =
    [(''vcard'', ''text/vcard''),
     (''vrml'', ''model/vrml''),
     (''vtt'', ''text/vtt''),
     (''vxml'', ''application/voicexml+xml''),
     (''war'', ''application/java-archive''),
     (''wasm'', ''application/wasm''),
     (''wav'', ''audio/wav''),
     (''weba'', ''audio/webm''),
     (''webm'', ''video/webm''),
     (''webmanifest'', ''application/manifest+json''),
     (''webp'', ''image/webp''),
     (''wgt'', ''application/widget''),
     (''wmf'', ''image/wmf''),
     (''woff'', ''font/woff''),
     (''woff2'', ''font/woff2''),
     (''wrl'', ''model/vrml''),
     (''wsdl'', ''application/wsdl+xml''),
     (''wspolicy'', ''application/wspolicy+xml''),
     (''x3d'', ''model/x3d+xml''),
     (''x3db'', ''model/x3d+binary''),
     (''x3dbz'', ''model/x3d+binary''),
     (''x3dv'', ''model/x3d+vrml''),
     (''x3dvz'', ''model/x3d+vrml''),
     (''x3dz'', ''model/x3d+xml''),
     (''xaml'', ''application/xaml+xml''),
     (''xdf'', ''application/xcap-diff+xml''),
     (''xdssc'', ''application/dssc+xml''),
     (''xenc'', ''application/xenc+xml''),
     (''xer'', ''application/patch-ops-error+xml''),
     (''xht'', ''application/xhtml+xml''),
     (''xhtml'', ''application/xhtml+xml''),
     (''xhvml'', ''application/xv+xml''),
     (''xm'', ''audio/xm''),
     (''xml'', ''application/xml''),
     (''xop'', ''application/xop+xml''),
     (''xpl'', ''application/xproc+xml''),
     (''xsd'', ''application/xml''),
     (''xsl'', ''application/xml''),
     (''xslt'', ''application/xslt+xml''),
     (''xspf'', ''application/xspf+xml''),
     (''xvm'', ''application/xv+xml''),
     (''xvml'', ''application/xv+xml''),
     (''yaml'', ''text/yaml''),
     (''yang'', ''application/yang''),
     (''yin'', ''application/yin+xml''),
     (''yml'', ''text/yaml''),
     (''zip'', ''application/zip'')]"

definition type_table :: "(string \<times> string) list" where
  "type_table = type_table_0 @ type_table_1 @ type_table_2 @ type_table_3 @ type_table_4 @ type_table_5 @ type_table_6"

definition types :: "mime_entry list" where
  "types = map (\<lambda>(e, t). mime e t) type_table"

text \<open>The comparison: past the common part, the characters decide that are compared there; the end of a string counts as zero.\<close>

definition strcmpi_end :: "u8 \<Rightarrow> u8 \<Rightarrow> int" where
  "strcmpi_end a b = (if a = b then 0 else if sint a OR 32 < sint b OR 32 then - 1 else 1)"

fun strcmpi :: "buffer \<Rightarrow> buffer \<Rightarrow> int" where
  "strcmpi (a # s1) (b # s2) = (if a = b \<or> a XOR 32 = b then strcmpi s1 s2 else strcmpi_end a b)"
| "strcmpi [] (b # s2) = strcmpi_end 0 b"
| "strcmpi (a # s1) [] = strcmpi_end a 0"
| "strcmpi [] [] = strcmpi_end 0 0"

text \<open>\<^verbatim>\<open>strrchr(extension, '.')\<close> and the step past the dot.\<close>

definition after_dot :: "buffer \<Rightarrow> buffer" where
  "after_dot extension =
     (case greatest_upto (\<lambda>i. extension ! i = 46) (length extension) of
        None \<Rightarrow> extension
      | Some dot \<Rightarrow> drop 1 (if dot \<noteq> 0 then drop dot extension else extension))"

function GetType_loop :: "buffer \<Rightarrow> int \<Rightarrow> int \<Rightarrow> buffer option" where
  "GetType_loop extension mn mx =
     (if mn \<le> mx then
        let i = (mx + mn) div 2;
            order = strcmpi extension (fileExtension (types ! nat i))
        in if order = 0 then Some (mimeType (types ! nat i))
           else if order > 0 then GetType_loop extension (i + 1) mx
           else GetType_loop extension mn (i - 1)
      else None)"
  by pat_completeness auto

termination
  by (relation "measure (\<lambda>(_, mn, mx). nat (mx - mn + 1))") auto

declare GetType_loop.simps [simp del]

definition GetType :: "buffer \<Rightarrow> buffer option" where
  "GetType extension = GetType_loop (after_dot extension) 0 (int (length types) - 1)"

fun GetExtension_loop :: "buffer \<Rightarrow> mime_entry list \<Rightarrow> buffer option" where
  "GetExtension_loop type [] = None"
| "GetExtension_loop type (e # es) = (if strcmpi type (mimeType e) = 0 then Some (fileExtension e) else GetExtension_loop type es)"

definition GetExtension :: "buffer \<Rightarrow> buffer option" where
  "GetExtension type = GetExtension_loop type types"

subsection \<open>The comparison as an order of keys\<close>

definition char_key :: "u8 \<Rightarrow> int" where
  "char_key c = 2 * (sint c OR 32) + 1"

definition key :: "buffer \<Rightarrow> int list" where
  "key s = map char_key s @ [64]"

lemma or_32_eq_iff: "sint a OR 32 = sint b OR 32 \<longleftrightarrow> a = b \<or> a XOR 32 = (b :: u8)"
proof -
  have "sint a OR 32 = sint b OR 32 \<longleftrightarrow> a OR 32 = b OR 32"
  proof -
    have "sint (a OR 32) = sint a OR 32" "sint (b OR 32) = sint b OR 32" by (simp_all add: signed_or_eq)
    then show ?thesis by (metis signed_word_eqI)
  qed
  also have "\<dots> \<longleftrightarrow> a = b \<or> a XOR 32 = b"
  proof -
    have "(32 :: u8) = push_bit 5 1" by simp
    then have b32: "bit (32 :: u8) n \<longleftrightarrow> n = 5" for n by (simp only: bit_push_bit_iff bit_1_iff) auto
    have "a OR 32 = b OR 32 \<longleftrightarrow> (\<forall>n<8. n \<noteq> 5 \<longrightarrow> bit a n = bit b n)"
      unfolding bit_eq_iff bit_or_iff b32 possible_bit_word by auto
    moreover have "a = b \<longleftrightarrow> (\<forall>n<8. bit a n = bit b n)" unfolding bit_eq_iff possible_bit_word by simp
    moreover have "a XOR 32 = b \<longleftrightarrow> (\<forall>n<8. (bit a n \<noteq> (n = 5)) = bit b n)"
      unfolding bit_eq_iff bit_xor_iff b32 possible_bit_word by simp
    moreover have "(5 :: nat) < 8" by simp
    ultimately show ?thesis by metis
  qed
  finally show ?thesis .
qed

definition key_order :: "int list \<Rightarrow> int list \<Rightarrow> int" where
  "key_order k l = (if k = l then 0 else if k < l then - 1 else 1)"

text \<open>The characters of the table's strings.\<close>

definition visible :: "u8 \<Rightarrow> bool" where
  "visible b \<longleftrightarrow> 33 \<le> uint b \<and> uint b \<le> 126"

lemma visible_or: "visible b \<Longrightarrow> 33 \<le> sint b OR 32"
proof -
  assume b: "visible b"
  then have "sint b = uint b" by (simp add: visible_def sint_uint signed_take_bit_int_eq_self)
  with b or_greater_eq [of 32 "sint b"] show ?thesis by (simp add: visible_def)
qed

lemma strcmpi_key: "0 \<notin> set s \<Longrightarrow> list_all visible t \<Longrightarrow> strcmpi s t = key_order (key s) (key t)"
proof (induction s t rule: strcmpi.induct)
  case (1 a s b t)
  have keys: "key (a # s) = char_key a # key s" "key (b # t) = char_key b # key t" by (simp_all add: key_def)
  show ?case
  proof (cases "a = b \<or> a XOR 32 = b")
    case True
    then have "char_key a = char_key b" using or_32_eq_iff [of a b] by (simp add: char_key_def)
    with True 1 show ?thesis by (simp add: keys key_order_def)
  next
    case False
    then have "char_key a \<noteq> char_key b" using or_32_eq_iff [of a b] by (simp add: char_key_def)
    moreover have "char_key a < char_key b \<longleftrightarrow> sint a OR 32 < sint b OR 32" unfolding char_key_def by linarith
    ultimately have "char_key a \<noteq> char_key b" "char_key a < char_key b \<longleftrightarrow> sint a OR 32 < sint b OR 32" .
    with False show ?thesis by (simp add: keys key_order_def strcmpi_end_def)
  qed
next
  case (2 b t)
  then show ?case using visible_or [of b] by (auto simp: key_def key_order_def char_key_def strcmpi_end_def visible_def)
next
  case (3 a s)
  then show ?case by (auto simp: key_def key_order_def char_key_def strcmpi_end_def)
next
  case 4
  then show ?case by (simp add: key_def key_order_def strcmpi_end_def)
qed

subsection \<open>The table is sorted\<close>

fun strictly :: "int list list \<Rightarrow> bool" where
  "strictly (x # y # zs) \<longleftrightarrow> x < y \<and> strictly (y # zs)"
| "strictly _ \<longleftrightarrow> True"

lemma strictly_sorted: "strictly xs \<Longrightarrow> sorted_wrt (<) xs"
  by (induction xs rule: strictly.induct) (auto simp: sorted_wrt2)

definition keys :: "int list list" where
  "keys = map (\<lambda>e. key (fileExtension e)) types"

definition good_char :: "char \<Rightarrow> bool" where
  "good_char c \<longleftrightarrow> 33 \<le> (of_char c :: int) \<and> (of_char c :: int) \<le> 126 \<and> (of_char c :: int) OR 32 = of_char c"

lemmas type_table_defs = type_table_def type_table_0_def type_table_1_def type_table_2_def type_table_3_def type_table_4_def
  type_table_5_def type_table_6_def

lemma names_good: "list_all (\<lambda>e. list_all good_char (fst e)) type_table"
  by (simp add: type_table_defs good_char_def)

lemma length_type_table: "length type_table = 347"
  by (simp add: type_table_defs)

lemma uint_of_char: "uint (of_char c :: u8) = of_char c"
proof -
  have "uint (of_int (of_char c) :: u8) = of_char c mod 256" by (simp only: uint_word_of_int) simp
  then show ?thesis by (simp add: of_int_of_char)
qed

lemma good_char_key: "good_char c \<Longrightarrow> visible (of_char c) \<and> char_key (of_char c) = 2 * of_char c + 1"
proof -
  assume c: "good_char c"
  then have "sint (of_char c :: u8) = of_char c" by (simp add: sint_uint uint_of_char good_char_def signed_take_bit_int_eq_self)
  with c show ?thesis by (simp add: good_char_def visible_def uint_of_char char_key_def)
qed

definition name_key :: "string \<Rightarrow> int list" where
  "name_key n = map (\<lambda>c. 2 * of_char c + 1) n @ [64]"

lemma names_strict: "strictly (take 84 (map (\<lambda>e. name_key (fst e)) type_table) @ drop 85 (map (\<lambda>e. name_key (fst e)) type_table))"
  by (simp add: type_table_defs name_key_def)

lemma keys_names: "keys = map (\<lambda>e. name_key (fst e)) type_table"
  and types_visible: "list_all (\<lambda>e. list_all visible (fileExtension e)) types"
proof -
  have "key (bytes n) = name_key n \<and> list_all visible (bytes n)" if "list_all good_char n" for n
    using that by (induction n) (auto simp: key_def name_key_def good_char_key)
  then have "list_all (\<lambda>e. key (bytes (fst e)) = name_key (fst e) \<and> list_all visible (bytes (fst e))) type_table"
    using names_good by (auto simp: list_all_iff)
  then show "keys = map (\<lambda>e. name_key (fst e)) type_table" "list_all (\<lambda>e. list_all visible (fileExtension e)) types"
    by (auto simp: keys_def types_def mime_def list_all_iff)
qed

lemma length_types: "length types = 347" "length keys = 347"
  by (simp_all add: types_def keys_def length_type_table)

lemma keys_twice: "keys ! 83 = key (bytes ''gz'')" "keys ! 84 = key (bytes ''gz'')"
proof -
  have "type_table ! 83 = (''gz'', ''application/gzip'')" "type_table ! 84 = (''gz'', ''application/x-gzip'')"
    by (simp_all add: type_table_defs)
  then show "keys ! 83 = key (bytes ''gz'')" "keys ! 84 = key (bytes ''gz'')"
    by (simp_all add: keys_def types_def length_type_table mime_def)
qed

text \<open>The table without the second entry for \<^verbatim>\<open>gz\<close> is strictly sorted.\<close>

definition pos :: "nat \<Rightarrow> nat" where
  "pos i = (if i < 84 then i else i - 1)"

lemma keys_order:
  assumes "i < 347" "j < 347"
  shows "keys ! i < keys ! j \<longleftrightarrow> pos i < pos j"
proof -
  let ?K = "take 84 keys @ drop 85 keys"
  have sorted: "sorted_wrt (<) ?K" using strictly_sorted [OF names_strict] by (simp only: keys_names)
  have len: "length ?K = 346" by (simp add: length_types)
  have at: "keys ! i = ?K ! pos i \<and> pos i < 346" if "i < 347" for i
  proof -
    consider "i < 84" | "i = 84" | "84 < i" by linarith
    then show ?thesis using that keys_twice by cases (auto simp: pos_def nth_append length_types)
  qed
  have less: "?K ! a < ?K ! b" if "a < b" "b < 346" for a b using sorted_wrt_nth_less [OF sorted that(1)] that(2) len by simp
  show ?thesis
    using at [OF assms(1)] at [OF assms(2)] less [of "pos i" "pos j"] less [of "pos j" "pos i"]
    by (cases "pos i" "pos j" rule: linorder_cases) auto
qed

lemma order_at: "0 \<notin> set s \<Longrightarrow> i < 347 \<Longrightarrow> strcmpi s (fileExtension (types ! i)) = key_order (key s) (keys ! i)"
  using types_visible by (simp add: strcmpi_key keys_def length_types list_all_length)

subsection \<open>The search\<close>

lemma GetType_loop_cong:
  "0 \<notin> set s \<Longrightarrow> 0 \<notin> set t \<Longrightarrow> key s = key t \<Longrightarrow> 0 \<le> mn \<Longrightarrow> mx < 347 \<Longrightarrow> GetType_loop s mn mx = GetType_loop t mn mx"
proof (induction s mn mx rule: GetType_loop.induct)
  case (1 s mn mx)
  show ?case
  proof (cases "mn \<le> mx")
    case True
    let ?i = "(mx + mn) div 2"
    have i: "nat ?i < 347" "mn \<le> ?i" "?i \<le> mx" using True 1(6,7) by auto
    have "strcmpi s (fileExtension (types ! nat ?i)) = strcmpi t (fileExtension (types ! nat ?i))"
      using 1(3-5) i(1) by (simp add: order_at)
    moreover have "GetType_loop s (?i + 1) mx = GetType_loop t (?i + 1) mx"
      if "strcmpi s (fileExtension (types ! nat ?i)) \<noteq> 0" "strcmpi s (fileExtension (types ! nat ?i)) > 0"
      using "1.IH"(1) [OF True refl refl that] 1 i by simp
    moreover have "GetType_loop s mn (?i - 1) = GetType_loop t mn (?i - 1)"
      if "strcmpi s (fileExtension (types ! nat ?i)) \<noteq> 0" "\<not> strcmpi s (fileExtension (types ! nat ?i)) > 0"
      using "1.IH"(2) [OF True refl refl that] 1 i by simp
    ultimately show ?thesis
      by (subst GetType_loop.simps [of s], subst GetType_loop.simps [of t]) (simp add: Let_def)
  qed (simp add: GetType_loop.simps)
qed

lemma GetType_loop_found:
  assumes "0 \<notin> set s"
  shows "0 \<le> mn \<Longrightarrow> mx < 347 \<Longrightarrow> (\<And>i. i < 347 \<Longrightarrow> int i < mn \<Longrightarrow> keys ! i < key s) \<Longrightarrow> (\<And>i. i < 347 \<Longrightarrow> mx < int i \<Longrightarrow> key s < keys ! i)
    \<Longrightarrow> (case GetType_loop s mn mx of
           Some t \<Rightarrow> \<exists>m<347. keys ! m = key s \<and> t = mimeType (types ! m)
         | None \<Rightarrow> \<forall>i<347. keys ! i \<noteq> key s)"
  using assms
proof (induction s mn mx rule: GetType_loop.induct)
  case (1 s mn mx)
  show ?case
  proof (cases "mn \<le> mx")
    case False
    have "keys ! i \<noteq> key s" if "i < 347" for i using 1(5,6) [OF that] False by (cases "int i < mn") auto
    with False show ?thesis by (subst GetType_loop.simps) simp
  next
    case True
    let ?i = "(mx + mn) div 2"
    let ?o = "strcmpi s (fileExtension (types ! nat ?i))"
    have i: "nat ?i < 347" "0 \<le> ?i" "mn \<le> ?i" "?i \<le> mx" using True 1(3,4) by auto
    have o: "?o = key_order (key s) (keys ! nat ?i)" using 1(7) i by (simp add: order_at)
    have sorted: "keys ! a \<le> keys ! b" if "a \<le> b" "b < 347" for a b
      using keys_order [of b a] that by (auto simp: pos_def not_less split: if_splits)
    consider (eq) "?o = 0" | (gt) "?o > 0" | (lt) "?o < 0" by linarith
    then show ?thesis
    proof cases
      case eq
      with o i True show ?thesis by (subst GetType_loop.simps) (auto simp: Let_def key_order_def split: if_splits)
    next
      case gt
      then have "keys ! nat ?i < key s" using o by (auto simp: key_order_def split: if_splits)
      then have "keys ! a < key s" if "a < 347" "int a < ?i + 1" for a using sorted [of a "nat ?i"] that i by (simp add: le_nat_iff)
      then show ?thesis
        using "1.IH"(1) [OF True refl refl _ gt] 1 gt i True by (subst GetType_loop.simps) (simp add: Let_def)
    next
      case lt
      then have "key s < keys ! nat ?i" using o by (auto simp: key_order_def split: if_splits)
      then have "key s < keys ! a" if "a < 347" "?i - 1 < int a" for a using sorted [of "nat ?i" a] that i by (simp add: nat_le_iff)
      then show ?thesis
        using "1.IH"(2) [OF True refl refl] 1 lt i True by (subst GetType_loop.simps) (simp add: Let_def)
    qed
  qed
qed

lemma types_nth: "i < 347 \<Longrightarrow> types ! i = (case type_table ! i of (e, t) \<Rightarrow> mime e t)"
  by (simp add: types_def length_type_table)

lemma table_nth:
  "type_table ! 42 = (''dbk'', ''application/docbook+xml'')"
  "type_table ! 64 = (''eps'', ''application/postscript'')"
  "type_table ! 75 = (''gif'', ''image/gif'')"
  "type_table ! 80 = (''gram'', ''application/srgs'')"
  "type_table ! 83 = (''gz'', ''application/gzip'')"
  "type_table ! 86 = (''h263'', ''video/h263'')"
  "type_table ! 96 = (''html'', ''text/html'')"
  "type_table ! 107 = (''ipfix'', ''application/ipfix'')"
  "type_table ! 129 = (''ktx'', ''image/ktx'')"
  "type_table ! 173 = (''mp4'', ''video/mp4'')"
  by (simp_all add: type_table_defs)

lemma GetType_loop_gz: "GetType_loop (bytes ''gz'') 0 346 = Some (bytes ''application/gzip'')"
  by (simp add: GetType_loop.simps Let_def types_nth table_nth mime_def strcmpi_end_def)

lemma key_inj_index: "i < 347 \<Longrightarrow> j < 347 \<Longrightarrow> keys ! i = keys ! j \<Longrightarrow> pos i = pos j"
  using keys_order [of i j] keys_order [of j i] by auto

lemma GetType_loop_first:
  assumes "0 \<notin> set s" "GetType_loop s 0 346 = Some t"
  shows "\<exists>m<347. keys ! m = key s \<and> t = mimeType (types ! m) \<and> (\<forall>j<m. keys ! j \<noteq> key s)"
proof -
  obtain m where m: "m < 347" "keys ! m = key s" "t = mimeType (types ! m)"
    using GetType_loop_found [of s 0 346] assms by auto
  show ?thesis
  proof (cases "pos m = 83")
    case True
    then have "m = 83 \<or> m = 84" by (auto simp: pos_def split: if_splits)
    then have "key s = keys ! 83" using m keys_twice by auto
    moreover from this have "t = bytes ''application/gzip''"
      using GetType_loop_cong [of s "bytes ''gz''" 0 346] GetType_loop_gz assms keys_twice by simp
    moreover have "mimeType (types ! 83) = bytes ''application/gzip''" by (simp add: types_def type_table_defs mime_def)
    moreover have "keys ! j \<noteq> keys ! 83" if "j < 83" for j using key_inj_index [of j 83] that by (auto simp: pos_def)
    ultimately show ?thesis by (intro exI [of _ 83]) simp
  next
    case False
    have "keys ! j \<noteq> key s" if "j < m" for j
      using key_inj_index [of j m] that m False by (auto simp: pos_def split: if_splits)
    with m show ?thesis by blast
  qed
qed

lemma GetType_loop_scan:
  assumes "0 \<notin> set s"
  shows "GetType_loop s 0 346 = map_option mimeType (List.find (\<lambda>e. strcmpi s (fileExtension e) = 0) types)"
proof -
  have zero: "strcmpi s (fileExtension (types ! i)) = 0 \<longleftrightarrow> keys ! i = key s" if "i < 347" for i
    using order_at [OF assms that] by (auto simp: key_order_def)
  show ?thesis
  proof (cases "GetType_loop s 0 346")
    case None
    then have "\<forall>i<347. keys ! i \<noteq> key s" using GetType_loop_found [of s 0 346] assms by auto
    then have "List.find (\<lambda>e. strcmpi s (fileExtension e) = 0) types = None"
      using zero by (auto simp: find_None_iff in_set_conv_nth length_types)
    with None show ?thesis by simp
  next
    case (Some t)
    then obtain m where "m < 347" "keys ! m = key s" "t = mimeType (types ! m)" "\<forall>j<m. keys ! j \<noteq> key s"
      using GetType_loop_first [OF assms] by blast
    then have "List.find (\<lambda>e. strcmpi s (fileExtension e) = 0) types = Some (types ! m)"
      using zero by (auto simp: find_Some_iff length_types intro!: exI [of _ m])
    with Some \<open>t = _\<close> show ?thesis by simp
  qed
qed

lemma set_after_dot: "set (after_dot s) \<subseteq> set s"
  by (auto simp: after_dot_def split: option.splits dest: in_set_dropD)

text \<open>The binary search of the table of file types gives, for every file name, what a scan of the table from its first entry
gives: the type of the first entry whose extension equals, up to the case of letters, the part of the name after its last dot,
and no type when there is none.  The table holds the extension \<^verbatim>\<open>gz\<close> twice; the search ends at the first of the two.\<close>

lemma GetType_scan:
  assumes "0 \<notin> set path"
  shows "GetType path = map_option mimeType (List.find (\<lambda>e. strcmpi (after_dot path) (fileExtension e) = 0) types)"
proof -
  have "0 \<notin> set (after_dot path)" using assms set_after_dot by blast
  then show ?thesis by (simp add: GetType_def length_types GetType_loop_scan)
qed

text \<open>The search the other way is a scan by its definition: it gives the first extension of a type, and a type of the table
always has one.\<close>

lemma GetExtension_some: "e \<in> set types \<Longrightarrow> \<exists>x \<in> set types. strcmpi (mimeType e) (mimeType x) = 0 \<and> GetExtension (mimeType e) = Some (fileExtension x)"
proof -
  have refl: "strcmpi s s = 0" for s by (induction s) (simp_all add: strcmpi_end_def)
  have "e \<in> set es \<Longrightarrow> \<exists>x \<in> set es. strcmpi (mimeType e) (mimeType x) = 0 \<and> GetExtension_loop (mimeType e) es = Some (fileExtension x)" for es
    by (induction es) (auto simp: refl)
  then show "e \<in> set types \<Longrightarrow> \<exists>x \<in> set types. strcmpi (mimeType e) (mimeType x) = 0 \<and> GetExtension (mimeType e) = Some (fileExtension x)"
    by (simp add: GetExtension_def)
qed

end
