(* ===== verification/Block_Hash.thy ===== *)
theory Block_Hash
  imports Prelude
begin

text \<open>
  What the hash functions of \<^verbatim>\<open>src/hash\<close> have in common.

  The specification of all three is the same: the message is padded with a bit 1, zeros and its length in bits to a multiple of 64
  bytes, and a compression function is applied to its blocks of 64 bytes in turn. The code never sees the whole message: it
  keeps the bytes of the unfinished block in a context, and the padding is made when the digest is asked for. The locale
  \<open>streaming_hash\<close> states what a context must promise, with the relation \<open>absorbed\<close> between a context and the message it has
  taken in, and shows that the digest depends only on the message, not on how it was cut into pieces.
\<close>

subsection \<open>Messages and blocks\<close>

function hash_blocks :: "('s \<Rightarrow> buffer \<Rightarrow> 's) \<Rightarrow> 's \<Rightarrow> buffer \<Rightarrow> 's" where
  "hash_blocks f st xs = (if length xs < 64 then st else hash_blocks f (f st (take 64 xs)) (drop 64 xs))"
  by pat_completeness auto

termination
  by (relation "measure (\<lambda>(_, _, xs). length xs)") auto

declare hash_blocks.simps [simp del]

definition rest :: "buffer \<Rightarrow> buffer" where
  "rest m = drop (64 * (length m div 64)) m"

text \<open>The padded message; \<open>enc\<close> writes the number of bits as eight bytes.\<close>

definition pad :: "(nat \<Rightarrow> buffer) \<Rightarrow> buffer \<Rightarrow> buffer" where
  "pad enc m = m @ [128] @ replicate ((119 - length m mod 64) mod 64) 0 @ enc (8 * length m)"

definition hash_digest :: "('s \<Rightarrow> buffer \<Rightarrow> 's) \<Rightarrow> 's \<Rightarrow> ('s \<Rightarrow> buffer) \<Rightarrow> (nat \<Rightarrow> buffer) \<Rightarrow> buffer \<Rightarrow> buffer" where
  "hash_digest f iv out enc m = out (hash_blocks f iv (pad enc m))"

text \<open>The bytes of a number: most significant first, and least significant first.\<close>

definition be_bytes :: "nat \<Rightarrow> nat \<Rightarrow> buffer" where
  "be_bytes n v = map (\<lambda>i. of_nat (v div 256 ^ (n - 1 - i))) [0..<n]"

definition le_bytes :: "nat \<Rightarrow> nat \<Rightarrow> buffer" where
  "le_bytes n v = map (\<lambda>i. of_nat (v div 256 ^ i)) [0..<n]"

text \<open>Word \<open>n\<close> of a block, in the two byte orders.\<close>

definition be_word :: "buffer \<Rightarrow> nat \<Rightarrow> u32" where
  "be_word p n = push_bit 24 (ucast (p ! (4 * n))) OR push_bit 16 (ucast (p ! (4 * n + 1)))
                 OR push_bit 8 (ucast (p ! (4 * n + 2))) OR ucast (p ! (4 * n + 3))"

definition le_word :: "buffer \<Rightarrow> nat \<Rightarrow> u32" where
  "le_word p n = ucast (p ! (4 * n)) OR push_bit 8 (ucast (p ! (4 * n + 1)))
                 OR push_bit 16 (ucast (p ! (4 * n + 2))) OR push_bit 24 (ucast (p ! (4 * n + 3)))"

text \<open>A context fed with the pieces of a message, one after the other; \<open>None\<close> when a call does not return.\<close>

fun feed :: "('c \<Rightarrow> buffer \<Rightarrow> 'c option) \<Rightarrow> 'c \<Rightarrow> buffer list \<Rightarrow> 'c option" where
  "feed update c [] = Some c"
| "feed update c (p # ps) = Option.bind (update c p) (\<lambda>c'. feed update c' ps)"

subsection \<open>Blocks of a message that grows\<close>

lemma length_rest [simp]: "length (rest m) = length m mod 64"
  by (simp add: rest_def minus_mult_div_eq_mod)

lemma rest_small: "length m < 64 \<Longrightarrow> rest m = m"
  by (simp add: rest_def)

lemma rest_Nil [simp]: "rest [] = []"
  by (simp add: rest_def)

lemma rest_append: "rest (m @ xs) = rest (rest m @ xs)"
proof -
  let ?q = "length m div 64" and ?k = "(length m mod 64 + length xs) div 64"
  have "length m + length xs = (length m mod 64 + length xs) + ?q * 64" by simp
  then have "(length m + length xs) div 64 = ?k + ?q" by (metis add.commute div_mult_self1 zero_neq_numeral)
  then have "64 * (length (m @ xs) div 64) = 64 * ?k + 64 * ?q" by simp
  then have "rest (m @ xs) = drop (64 * ?k) (drop (64 * ?q) (m @ xs))" by (simp only: rest_def drop_drop)
  also have "drop (64 * ?q) (m @ xs) = rest m @ xs" by (simp add: rest_def)
  also have "drop (64 * ?k) (rest m @ xs) = rest (rest m @ xs)" by (simp only: rest_def [of "rest m @ xs"] length_append length_rest)
  finally show ?thesis .
qed

lemma rest_blocks: "length m mod 64 = 0 \<Longrightarrow> rest (m @ xs) = rest xs"
  using rest_append [of m xs] length_rest [of m] by (metis append_Nil length_0_conv)

lemma hash_blocks_small [simp]: "length xs < 64 \<Longrightarrow> hash_blocks f st xs = st"
  by (simp add: hash_blocks.simps)

lemma hash_blocks_block: "length b = 64 \<Longrightarrow> hash_blocks f st (b @ xs) = hash_blocks f (f st b) xs"
  by (subst hash_blocks.simps) simp

lemma hash_blocks_one: "length b = 64 \<Longrightarrow> hash_blocks f st b = f st b"
  using hash_blocks_block [of b f st "[]"] by simp

lemma hash_blocks_append: "hash_blocks f st (m @ xs) = hash_blocks f (hash_blocks f st m) (rest m @ xs)"
proof (induction f st m rule: hash_blocks.induct)
  case (1 f st m)
  show ?case
  proof (cases "length m < 64")
    case True
    then show ?thesis by (simp add: rest_small)
  next
    case False
    then have m: "hash_blocks f st (m @ ys) = hash_blocks f (f st (take 64 m)) (drop 64 m @ ys)" for ys
      by (subst hash_blocks.simps) simp
    have "rest m = rest (drop 64 m)"
      using rest_blocks [of "take 64 m" "drop 64 m"] False by simp
    with 1 [OF False] m [of xs] m [of "[]"] show ?thesis by simp
  qed
qed

lemma hash_blocks_byte:
  "hash_blocks f st (m @ [b]) =
     (if length m mod 64 = 63 then f (hash_blocks f st m) (rest m @ [b]) else hash_blocks f st m)"
  "rest (m @ [b]) = (if length m mod 64 = 63 then [] else rest m @ [b])"
proof -
  have lt: "length m mod 64 < 64" by simp
  show "hash_blocks f st (m @ [b]) =
     (if length m mod 64 = 63 then f (hash_blocks f st m) (rest m @ [b]) else hash_blocks f st m)"
  proof (cases "length m mod 64 = 63")
    case True
    then have "length (rest m @ [b]) = 64" by simp
    with True show ?thesis by (simp only: hash_blocks_append [of f st m] hash_blocks_one refl if_True)
  next
    case False
    with lt have "length (rest m @ [b]) < 64" by simp
    with False show ?thesis by (simp only: hash_blocks_append [of f st m] hash_blocks_small if_False)
  qed
  show "rest (m @ [b]) = (if length m mod 64 = 63 then [] else rest m @ [b])"
  proof (cases "length m mod 64 = 63")
    case True
    then have "length (rest (m @ [b])) = 0" by (simp add: mod_Suc)
    with True show ?thesis by (simp only: length_0_conv if_True refl)
  next
    case False
    then have "length (rest m @ [b]) < 64" using lt by simp
    with False show ?thesis by (simp add: rest_append [of m] rest_small)
  qed
qed

lemma div_byte: "(length (m @ [b])) div 64 = length m div 64 + (if length m mod 64 = 63 then 1 else 0)"
  by (simp add: div_Suc mod_Suc)

text \<open>The last blocks: one block when the length still fits after the rest of the message, otherwise two.\<close>

lemma pad_zeros: "r < 64 \<Longrightarrow> (119 - r) mod 64 = (if r < 56 then 55 - r else 119 - (r :: nat))"
proof (cases "r < 56")
  case True
  then have "119 - r = (55 - r) + 64" by simp
  then have "(119 - r) mod 64 = (55 - r) mod 64" by (simp only: mod_add_self2)
  with True show ?thesis by (simp only: mod_less [of "55 - r" 64] if_True)
qed simp

lemma hash_digest_rest:
  assumes enc: "\<And>n. length (enc n) = 8"
  shows "hash_digest f iv out enc m =
    out (if length (rest m) < 56
         then f (hash_blocks f iv m) (rest m @ [128] @ replicate (55 - length (rest m)) 0 @ enc (8 * length m))
         else f (f (hash_blocks f iv m) (rest m @ [128] @ replicate (63 - length (rest m)) 0)) (replicate 56 0 @ enc (8 * length m)))"
proof -
  let ?r = "length m mod 64"
  have r: "?r < 64" by simp
  have "hash_blocks f iv (pad enc m) = hash_blocks f (hash_blocks f iv m) (rest m @ [128] @ replicate ((119 - ?r) mod 64) 0 @ enc (8 * length m))"
    unfolding pad_def by (rule hash_blocks_append)
  also have "\<dots> = (if ?r < 56
         then f (hash_blocks f iv m) (rest m @ [128] @ replicate (55 - ?r) 0 @ enc (8 * length m))
         else f (f (hash_blocks f iv m) (rest m @ [128] @ replicate (63 - ?r) 0)) (replicate 56 0 @ enc (8 * length m)))"
  proof (cases "?r < 56")
    case True
    then have "(119 - ?r) mod 64 = 55 - ?r" using pad_zeros [OF r] by simp
    with True show ?thesis by (simp add: hash_blocks_one enc)
  next
    case False
    then have "(119 - ?r) mod 64 = (63 - ?r) + 56" using r by simp
    then have "replicate ((119 - ?r) mod 64) (0 :: u8) = replicate (63 - ?r) 0 @ replicate 56 0" by (simp only: replicate_add)
    moreover have "length (rest m @ [128] @ replicate (63 - ?r) 0) = 64" using r by simp
    moreover have "hash_blocks f s (replicate 56 0 @ enc (8 * length m)) = f s (replicate 56 0 @ enc (8 * length m))" for s
      by (rule hash_blocks_one) (simp add: enc)
    ultimately show ?thesis using False hash_blocks_block [of "rest m @ [128] @ replicate (63 - ?r) 0" f] by simp
  qed
  finally show ?thesis by (simp add: hash_digest_def)
qed

lemma length_be_bytes [simp]: "length (be_bytes n v) = n"
  by (simp add: be_bytes_def)

lemma length_le_bytes [simp]: "length (le_bytes n v) = n"
  by (simp add: le_bytes_def)

lemma of_nat_div_byte: "(of_nat (unat (w :: 'a::len word) div 256 ^ k) :: u8) = ucast (drop_bit (8 * k) w)"
proof -
  have "unat w div 256 ^ k = unat (drop_bit (8 * k) w)" by (simp add: unat_drop_bit power_mult)
  then show ?thesis by (simp only: of_nat_unat)
qed

lemma be_bytes_word: "be_bytes n (unat w) = map (\<lambda>i. ucast (drop_bit (8 * (n - 1 - i)) w)) [0..<n]"
  by (simp add: be_bytes_def of_nat_div_byte)

text \<open>Rotations written with shifts.\<close>

lemma rotr_shifts: "0 < b \<Longrightarrow> b < 32 \<Longrightarrow> drop_bit b a OR push_bit (32 - b) a = word_rotr b (a :: u32)"
proof (rule bit_word_eqI)
  fix n
  assume "0 < b" "b < 32" "n < LENGTH(32)"
  then show "bit (drop_bit b a OR push_bit (32 - b) a) n = bit (word_rotr b a) n"
    by (cases "b + n < 32") (auto simp: bit_simps mod_if add.commute [of n b] dest: bit_imp_le_length)
qed

lemma rotl_shifts: "0 < b \<Longrightarrow> b < 32 \<Longrightarrow> push_bit b a OR drop_bit (32 - b) a = word_rotl b (a :: u32)"
  using rotr_shifts [of "32 - b" a] by (simp add: word_rotl_eq_word_rotr or.commute)

subsection \<open>The contract of a context\<close>

locale streaming_hash =
  fixes init :: 'c
    and update :: "'c \<Rightarrow> buffer \<Rightarrow> 'c option"
    and final :: "'c \<Rightarrow> buffer"
    and absorbed :: "'c \<Rightarrow> buffer \<Rightarrow> bool"
    and piece_ok :: "nat \<Rightarrow> bool"
    and total_ok :: "nat \<Rightarrow> bool"
    and digest :: "buffer \<Rightarrow> buffer"
  assumes init_absorbed: "absorbed init []"
    and update_absorbed: "absorbed c m \<Longrightarrow> piece_ok (length p) \<Longrightarrow> \<exists>c'. update c p = Some c' \<and> absorbed c' (m @ p)"
    and final_digest: "absorbed c m \<Longrightarrow> total_ok (length m) \<Longrightarrow> final c = digest m"
begin

lemma feed_absorbed:
  "absorbed c m \<Longrightarrow> (\<And>p. p \<in> set ps \<Longrightarrow> piece_ok (length p)) \<Longrightarrow> \<exists>c'. feed update c ps = Some c' \<and> absorbed c' (m @ concat ps)"
proof (induction ps arbitrary: c m)
  case Nil
  then show ?case by simp
next
  case (Cons p ps)
  then obtain c' where "update c p = Some c'" "absorbed c' (m @ p)" using update_absorbed [of c m p] by auto
  then show ?case using Cons.IH [of c' "m @ p"] Cons.prems by simp
qed

lemma pieces:
  assumes "\<And>p. p \<in> set ps \<Longrightarrow> piece_ok (length p)" "total_ok (length (concat ps))"
  shows "map_option final (feed update init ps) = Some (digest (concat ps))"
  using feed_absorbed [OF init_absorbed assms(1)] final_digest assms(2) by fastforce

end

end
