(* ===== verification/Md5.thy ===== *)
theory Md5
  imports Block_Hash
begin

text \<open>
  MD5, \<^verbatim>\<open>src/hash/md5.cpp\<close>, as compiled for x86, where the words of a block are read directly from memory.

  The 64 statements of \<^verbatim>\<open>body\<close> are kept as data: each names its boolean function, the order in which it uses the four registers, the
  word of the block it reads, its constant and its shift. The array \<^verbatim>\<open>block\<close> of the context is not used on x86. The specification is
  the loop of RFC 1321, in which the registers move after every step; the constants, which the RFC derives from sines, are taken as
  the RFC lists them.
\<close>

subsection \<open>The code\<close>

definition md5_F :: "u32 \<Rightarrow> u32 \<Rightarrow> u32 \<Rightarrow> u32" where "md5_F x y z = z XOR (x AND (y XOR z))"
definition md5_G :: "u32 \<Rightarrow> u32 \<Rightarrow> u32 \<Rightarrow> u32" where "md5_G x y z = y XOR (z AND (x XOR y))"
definition md5_H :: "u32 \<Rightarrow> u32 \<Rightarrow> u32 \<Rightarrow> u32" where "md5_H x y z = (x XOR y) XOR z"
definition md5_H2 :: "u32 \<Rightarrow> u32 \<Rightarrow> u32 \<Rightarrow> u32" where "md5_H2 x y z = x XOR (y XOR z)"
definition md5_I :: "u32 \<Rightarrow> u32 \<Rightarrow> u32 \<Rightarrow> u32" where "md5_I x y z = y XOR (x OR NOT z)"

definition STEP :: "(u32 \<Rightarrow> u32 \<Rightarrow> u32 \<Rightarrow> u32) \<Rightarrow> u32 \<Rightarrow> u32 \<Rightarrow> u32 \<Rightarrow> u32 \<Rightarrow> u32 \<Rightarrow> u32 \<Rightarrow> nat \<Rightarrow> u32" where
  "STEP f a b c d x t s =
     (let a = a + (f b c d + x + t);
          a = push_bit s a OR drop_bit (32 - s) (a AND 0xFFFFFFFF)
      in a + b)"

datatype md5_order = ABCD | DABC | CDAB | BCDA

type_synonym md5_stmt = "(u32 \<Rightarrow> u32 \<Rightarrow> u32 \<Rightarrow> u32) \<times> md5_order \<times> nat \<times> u32 \<times> nat"
type_synonym regs4 = "u32 \<times> u32 \<times> u32 \<times> u32"

fun md5_exec :: "buffer \<Rightarrow> md5_stmt \<Rightarrow> regs4 \<Rightarrow> regs4" where
  "md5_exec ptr (f, ABCD, n, t, s) (a, b, c, d) = (STEP f a b c d (le_word ptr n) t s, b, c, d)"
| "md5_exec ptr (f, DABC, n, t, s) (a, b, c, d) = (a, b, c, STEP f d a b c (le_word ptr n) t s)"
| "md5_exec ptr (f, CDAB, n, t, s) (a, b, c, d) = (a, b, STEP f c d a b (le_word ptr n) t s, d)"
| "md5_exec ptr (f, BCDA, n, t, s) (a, b, c, d) = (a, STEP f b c d a (le_word ptr n) t s, c, d)"

definition md5_round_1 :: "md5_stmt list" where
  "md5_round_1 =
    [(md5_F, ABCD, 0, 0xD76AA478, 7),
     (md5_F, DABC, 1, 0xE8C7B756, 12),
     (md5_F, CDAB, 2, 0x242070DB, 17),
     (md5_F, BCDA, 3, 0xC1BDCEEE, 22),
     (md5_F, ABCD, 4, 0xF57C0FAF, 7),
     (md5_F, DABC, 5, 0x4787C62A, 12),
     (md5_F, CDAB, 6, 0xA8304613, 17),
     (md5_F, BCDA, 7, 0xFD469501, 22),
     (md5_F, ABCD, 8, 0x698098D8, 7),
     (md5_F, DABC, 9, 0x8B44F7AF, 12),
     (md5_F, CDAB, 10, 0xFFFF5BB1, 17),
     (md5_F, BCDA, 11, 0x895CD7BE, 22),
     (md5_F, ABCD, 12, 0x6B901122, 7),
     (md5_F, DABC, 13, 0xFD987193, 12),
     (md5_F, CDAB, 14, 0xA679438E, 17),
     (md5_F, BCDA, 15, 0x49B40821, 22)]"

definition md5_round_2 :: "md5_stmt list" where
  "md5_round_2 =
    [(md5_G, ABCD, 1, 0xF61E2562, 5),
     (md5_G, DABC, 6, 0xC040B340, 9),
     (md5_G, CDAB, 11, 0x265E5A51, 14),
     (md5_G, BCDA, 0, 0xE9B6C7AA, 20),
     (md5_G, ABCD, 5, 0xD62F105D, 5),
     (md5_G, DABC, 10, 0x02441453, 9),
     (md5_G, CDAB, 15, 0xD8A1E681, 14),
     (md5_G, BCDA, 4, 0xE7D3FBC8, 20),
     (md5_G, ABCD, 9, 0x21E1CDE6, 5),
     (md5_G, DABC, 14, 0xC33707D6, 9),
     (md5_G, CDAB, 3, 0xF4D50D87, 14),
     (md5_G, BCDA, 8, 0x455A14ED, 20),
     (md5_G, ABCD, 13, 0xA9E3E905, 5),
     (md5_G, DABC, 2, 0xFCEFA3F8, 9),
     (md5_G, CDAB, 7, 0x676F02D9, 14),
     (md5_G, BCDA, 12, 0x8D2A4C8A, 20)]"

definition md5_round_3 :: "md5_stmt list" where
  "md5_round_3 =
    [(md5_H, ABCD, 5, 0xFFFA3942, 4),
     (md5_H2, DABC, 8, 0x8771F681, 11),
     (md5_H, CDAB, 11, 0x6D9D6122, 16),
     (md5_H2, BCDA, 14, 0xFDE5380C, 23),
     (md5_H, ABCD, 1, 0xA4BEEA44, 4),
     (md5_H2, DABC, 4, 0x4BDECFA9, 11),
     (md5_H, CDAB, 7, 0xF6BB4B60, 16),
     (md5_H2, BCDA, 10, 0xBEBFBC70, 23),
     (md5_H, ABCD, 13, 0x289B7EC6, 4),
     (md5_H2, DABC, 0, 0xEAA127FA, 11),
     (md5_H, CDAB, 3, 0xD4EF3085, 16),
     (md5_H2, BCDA, 6, 0x04881D05, 23),
     (md5_H, ABCD, 9, 0xD9D4D039, 4),
     (md5_H2, DABC, 12, 0xE6DB99E5, 11),
     (md5_H, CDAB, 15, 0x1FA27CF8, 16),
     (md5_H2, BCDA, 2, 0xC4AC5665, 23)]"

definition md5_round_4 :: "md5_stmt list" where
  "md5_round_4 =
    [(md5_I, ABCD, 0, 0xF4292244, 6),
     (md5_I, DABC, 7, 0x432AFF97, 10),
     (md5_I, CDAB, 14, 0xAB9423A7, 15),
     (md5_I, BCDA, 5, 0xFC93A039, 21),
     (md5_I, ABCD, 12, 0x655B59C3, 6),
     (md5_I, DABC, 3, 0x8F0CCC92, 10),
     (md5_I, CDAB, 10, 0xFFEFF47D, 15),
     (md5_I, BCDA, 1, 0x85845DD1, 21),
     (md5_I, ABCD, 8, 0x6FA87E4F, 6),
     (md5_I, DABC, 15, 0xFE2CE6E0, 10),
     (md5_I, CDAB, 6, 0xA3014314, 15),
     (md5_I, BCDA, 13, 0x4E0811A1, 21),
     (md5_I, ABCD, 4, 0xF7537E82, 6),
     (md5_I, DABC, 11, 0xBD3AF235, 10),
     (md5_I, CDAB, 2, 0x2AD7D2BB, 15),
     (md5_I, BCDA, 9, 0xEB86D391, 21)]"

fun md5_block :: "regs4 \<Rightarrow> buffer \<Rightarrow> regs4" where
  "md5_block (saved_a, saved_b, saved_c, saved_d) ptr =
     (case fold (md5_exec ptr) (md5_round_1 @ md5_round_2 @ md5_round_3 @ md5_round_4) (saved_a, saved_b, saved_c, saved_d) of
        (a, b, c, d) \<Rightarrow> (a + saved_a, b + saved_b, c + saved_c, d + saved_d))"

partial_function (option) body_loop :: "regs4 \<Rightarrow> buffer \<Rightarrow> u64 \<Rightarrow> (regs4 \<times> buffer) option" where
  "body_loop r ptr n =
     (let r' = md5_block r ptr; n' = n - 64 in
      if n' \<noteq> 0 then body_loop r' (drop 64 ptr) n' else Some (r', drop 64 ptr))"

record MD5_CTX =
  md5_lo :: u32
  md5_hi :: u32
  md5_regs :: regs4
  md5_buffer :: buffer

definition body :: "MD5_CTX \<Rightarrow> buffer \<Rightarrow> u64 \<Rightarrow> (MD5_CTX \<times> buffer) option" where
  "body ctx data n = map_option (\<lambda>(r, ptr). (ctx\<lparr>md5_regs := r\<rparr>, ptr)) (body_loop (md5_regs ctx) data n)"

text \<open>The buffer has no value before it is written; \<open>junk\<close> stands for what it holds.\<close>

definition MD5_Init :: "buffer \<Rightarrow> MD5_CTX" where
  "MD5_Init junk = \<lparr>md5_lo = 0, md5_hi = 0, md5_regs = (0x67452301, 0xEFCDAB89, 0x98BADCFE, 0x10325476), md5_buffer = junk\<rparr>"

definition memcpy_at :: "buffer \<Rightarrow> nat \<Rightarrow> buffer \<Rightarrow> buffer" where
  "memcpy_at buf i xs = take i buf @ xs @ drop (i + length xs) buf"

definition md5_count :: "MD5_CTX \<Rightarrow> u64 \<Rightarrow> MD5_CTX" where
  "md5_count ctx n =
     (let saved_lo = md5_lo ctx;
          ctx = ctx\<lparr>md5_lo := ucast ((ucast saved_lo + n) AND 0x1FFFFFFF)\<rparr>;
          ctx = (if md5_lo ctx < saved_lo then ctx\<lparr>md5_hi := md5_hi ctx + 1\<rparr> else ctx)
      in ctx\<lparr>md5_hi := md5_hi ctx + ucast (drop_bit 29 n)\<rparr>)"

text \<open>The end of \<^verbatim>\<open>MD5_Update\<close>: whole blocks straight from the data, the remaining bytes into the buffer.\<close>

definition md5_tail :: "MD5_CTX \<Rightarrow> buffer \<Rightarrow> MD5_CTX option" where
  "md5_tail ctx data =
     (let n = of_nat (length data) :: u64 in
      if n \<ge> 64 then
        map_option (\<lambda>(ctx, data). ctx\<lparr>md5_buffer := memcpy_at (md5_buffer ctx) 0 (take (unat (n AND 0x3F)) data)\<rparr>)
          (body ctx data (n AND NOT 0x3F))
      else Some (ctx\<lparr>md5_buffer := memcpy_at (md5_buffer ctx) 0 data\<rparr>))"

definition MD5_Update :: "MD5_CTX \<Rightarrow> buffer \<Rightarrow> MD5_CTX option" where
  "MD5_Update ctx data =
     (let used = unat (md5_lo ctx AND 0x3F);
          ctx = md5_count ctx (of_nat (length data))
      in if used \<noteq> 0 then
           let available = 64 - used in
           if length data < available then Some (ctx\<lparr>md5_buffer := memcpy_at (md5_buffer ctx) used data\<rparr>)
           else
             let ctx = ctx\<lparr>md5_buffer := memcpy_at (md5_buffer ctx) used (take available data)\<rparr> in
             Option.bind (body ctx (md5_buffer ctx) 64) (\<lambda>(ctx, _). md5_tail ctx (drop available data))
         else md5_tail ctx data)"

definition md5_word_bytes :: "u32 \<Rightarrow> buffer" where
  "md5_word_bytes w = [ucast w, ucast (drop_bit 8 w), ucast (drop_bit 16 w), ucast (drop_bit 24 w)]"

fun md5_output :: "regs4 \<Rightarrow> buffer" where
  "md5_output (a, b, c, d) = md5_word_bytes a @ md5_word_bytes b @ md5_word_bytes c @ md5_word_bytes d"

definition MD5_Final :: "MD5_CTX \<Rightarrow> buffer option" where
  "MD5_Final ctx =
     (let used = unat (md5_lo ctx AND 0x3F);
          ctx = ctx\<lparr>md5_buffer := (md5_buffer ctx)[used := 0x80]\<rparr>;
          used = used + 1;
          available = 64 - used;
          start = (if available < 8
                   then map_option (\<lambda>(ctx, _). (ctx, 0, 64))
                          (body (ctx\<lparr>md5_buffer := memcpy_at (md5_buffer ctx) used (replicate available 0)\<rparr>)
                                (memcpy_at (md5_buffer ctx) used (replicate available 0)) 64)
                   else Some (ctx, used, available))
      in Option.bind start (\<lambda>(ctx, used, available).
           let ctx = ctx\<lparr>md5_buffer := memcpy_at (md5_buffer ctx) used (replicate (available - 8) 0)\<rparr>;
               ctx = ctx\<lparr>md5_lo := push_bit 3 (md5_lo ctx)\<rparr>;
               ctx = ctx\<lparr>md5_buffer := memcpy_at (md5_buffer ctx) 56 (md5_word_bytes (md5_lo ctx) @ md5_word_bytes (md5_hi ctx))\<rparr>
           in map_option (\<lambda>(ctx, _). md5_output (md5_regs ctx)) (body ctx (md5_buffer ctx) 64)))"

subsection \<open>The standard\<close>

definition md5_T :: "u32 list" where
  "md5_T =
    [0xD76AA478, 0xE8C7B756, 0x242070DB, 0xC1BDCEEE, 0xF57C0FAF, 0x4787C62A, 0xA8304613, 0xFD469501,
     0x698098D8, 0x8B44F7AF, 0xFFFF5BB1, 0x895CD7BE, 0x6B901122, 0xFD987193, 0xA679438E, 0x49B40821,
     0xF61E2562, 0xC040B340, 0x265E5A51, 0xE9B6C7AA, 0xD62F105D, 0x02441453, 0xD8A1E681, 0xE7D3FBC8,
     0x21E1CDE6, 0xC33707D6, 0xF4D50D87, 0x455A14ED, 0xA9E3E905, 0xFCEFA3F8, 0x676F02D9, 0x8D2A4C8A,
     0xFFFA3942, 0x8771F681, 0x6D9D6122, 0xFDE5380C, 0xA4BEEA44, 0x4BDECFA9, 0xF6BB4B60, 0xBEBFBC70,
     0x289B7EC6, 0xEAA127FA, 0xD4EF3085, 0x04881D05, 0xD9D4D039, 0xE6DB99E5, 0x1FA27CF8, 0xC4AC5665,
     0xF4292244, 0x432AFF97, 0xAB9423A7, 0xFC93A039, 0x655B59C3, 0x8F0CCC92, 0xFFEFF47D, 0x85845DD1,
     0x6FA87E4F, 0xFE2CE6E0, 0xA3014314, 0x4E0811A1, 0xF7537E82, 0xBD3AF235, 0x2AD7D2BB, 0xEB86D391]"

definition md5_shift :: "nat \<Rightarrow> nat" where
  "md5_shift i = [[7, 12, 17, 22], [5, 9, 14, 20], [4, 11, 16, 23], [6, 10, 15, 21]] ! (i div 16) ! (i mod 4)"

definition md5_index :: "nat \<Rightarrow> nat" where
  "md5_index i = (if i < 16 then i else if i < 32 then (5 * i + 1) mod 16 else if i < 48 then (3 * i + 5) mod 16 else (7 * i) mod 16)"

definition md5_fun :: "nat \<Rightarrow> u32 \<Rightarrow> u32 \<Rightarrow> u32 \<Rightarrow> u32" where
  "md5_fun i x y z =
     (if i < 16 then (x AND y) OR (NOT x AND z)
      else if i < 32 then (x AND z) OR (y AND NOT z)
      else if i < 48 then x XOR y XOR z
      else y XOR (x OR NOT z))"

primrec md5_rounds :: "buffer \<Rightarrow> regs4 \<Rightarrow> nat \<Rightarrow> regs4" where
  "md5_rounds blk r 0 = r"
| "md5_rounds blk r (Suc i) =
     (case md5_rounds blk r i of (a, b, c, d) \<Rightarrow>
        (d, b + word_rotl (md5_shift i) (a + md5_fun i b c d + le_word blk (md5_index i) + md5_T ! i), b, c))"

fun md5_compress :: "regs4 \<Rightarrow> buffer \<Rightarrow> regs4" where
  "md5_compress (a, b, c, d) blk =
     (case md5_rounds blk (a, b, c, d) 64 of (a', b', c', d') \<Rightarrow> (a + a', b + b', c + c', d + d'))"

definition md5_IV :: regs4 where
  "md5_IV = (0x67452301, 0xEFCDAB89, 0x98BADCFE, 0x10325476)"

definition MD5 :: "buffer \<Rightarrow> buffer" where
  "MD5 = hash_digest md5_compress md5_IV
     (\<lambda>(a, b, c, d). le_bytes 4 (unat a) @ le_bytes 4 (unat b) @ le_bytes 4 (unat c) @ le_bytes 4 (unat d)) (le_bytes 8)"

subsection \<open>The compression function\<close>

definition md5_stmt_fun :: "nat \<Rightarrow> u32 \<Rightarrow> u32 \<Rightarrow> u32 \<Rightarrow> u32" where
  "md5_stmt_fun i = (if i < 16 then md5_F else if i < 32 then md5_G else if i < 48 then (if even i then md5_H else md5_H2) else md5_I)"

definition md5_stmt :: "nat \<Rightarrow> md5_stmt" where
  "md5_stmt i = (md5_stmt_fun i, [ABCD, DABC, CDAB, BCDA] ! (i mod 4), md5_index i, md5_T ! i, md5_shift i)"

lemma md5_unrolled: "md5_round_1 @ md5_round_2 @ md5_round_3 @ md5_round_4 = map md5_stmt [0..<64]"
  by (simp add: upt_rec md5_stmt_def md5_stmt_fun_def md5_index_def md5_shift_def md5_T_def
    md5_round_1_def md5_round_2_def md5_round_3_def md5_round_4_def)

lemma md5_stmt_fun_eq: "md5_stmt_fun i x y z = md5_fun i x y z"
proof -
  have "md5_F x y z = (x AND y) OR (NOT x AND z)" "md5_G x y z = (x AND z) OR (y AND NOT z)"
    unfolding md5_F_def md5_G_def by (rule bit_word_eqI, auto simp: bit_simps)+
  then show ?thesis by (simp add: md5_stmt_fun_def md5_fun_def md5_H_def md5_H2_def md5_I_def xor.assoc)
qed

lemma STEP_eq: "0 < s \<Longrightarrow> s < 32 \<Longrightarrow> STEP f a b c d x t s = b + word_rotl s (a + f b c d + x + t)"
proof -
  have "w AND 0xFFFFFFFF = w" for w :: u32
  proof -
    have "(0xFFFFFFFF :: u32) = - 1" by simp
    then show ?thesis by (simp only: and.right_neutral)
  qed
  then show "0 < s \<Longrightarrow> s < 32 \<Longrightarrow> STEP f a b c d x t s = b + word_rotl s (a + f b c d + x + t)"
    by (simp add: STEP_def Let_def rotl_shifts add.assoc add.commute [of b])
qed

text \<open>The registers of the loop, seen from the fixed names of the code.\<close>

fun view :: "nat \<Rightarrow> regs4 \<Rightarrow> regs4" where
  "view i (a, b, c, d) = [(a, b, c, d), (d, a, b, c), (c, d, a, b), (b, c, d, a)] ! (i mod 4)"

lemma md5_shift_range: "i < 64 \<Longrightarrow> 0 < md5_shift i \<and> md5_shift i < 32"
proof -
  have "list_all (\<lambda>i. 0 < md5_shift i \<and> md5_shift i < 32) [0..<64]" by code_simp
  then show "i < 64 \<Longrightarrow> 0 < md5_shift i \<and> md5_shift i < 32" by (simp add: list_all_iff)
qed

lemma md5_exec_view:
  assumes "i < 64"
  shows "view (Suc i) (md5_exec blk (md5_stmt i) r) =
    (case view i r of (a, b, c, d) \<Rightarrow>
       (d, b + word_rotl (md5_shift i) (a + md5_fun i b c d + le_word blk (md5_index i) + md5_T ! i), b, c))"
proof -
  obtain a b c d where r: "r = (a, b, c, d)" by (metis surj_pair)
  consider "i mod 4 = 0" | "i mod 4 = 1" | "i mod 4 = 2" | "i mod 4 = 3" by linarith
  then show ?thesis using md5_shift_range [OF assms]
    by cases (simp_all add: r md5_stmt_def STEP_eq md5_stmt_fun_eq mod_Suc)
qed

lemma md5_exec_rounds: "n \<le> 64 \<Longrightarrow> view n (fold (md5_exec blk) (map md5_stmt [0..<n]) r) = md5_rounds blk r n"
proof (induction n)
  case 0
  then show ?case by (cases r) simp
next
  case (Suc n)
  then show ?case by (simp add: md5_exec_view)
qed

lemma md5_block_eq: "md5_block r blk = md5_compress r blk"
proof -
  obtain a b c d where r: "r = (a, b, c, d)" by (metis surj_pair)
  have "view 64 x = x" for x by (cases x) simp
  then have "fold (md5_exec blk) (md5_round_1 @ md5_round_2 @ md5_round_3 @ md5_round_4) r = md5_rounds blk r 64"
    using md5_exec_rounds [of 64 blk r] unfolding md5_unrolled by simp
  then show ?thesis unfolding r by (simp add: add.commute split: prod.splits)
qed

lemma md5_compress_take: "md5_compress r (take 64 ptr) = md5_compress r ptr"
proof -
  have "md5_index i < 16" if "i < 64" for i using that by (simp add: md5_index_def)
  moreover have "le_word (take 64 ptr) n = le_word ptr n" if "n < 16" for n using that by (simp add: le_word_def)
  ultimately have word: "le_word (take 64 ptr) (md5_index i) = le_word ptr (md5_index i)" if "i < 64" for i using that by blast
  have "n \<le> 64 \<Longrightarrow> md5_rounds (take 64 ptr) r n = md5_rounds ptr r n" for n
    by (induction n) (simp_all add: word)
  then show ?thesis by (cases r) simp
qed

lemma body_loop_returns:
  "unat n = 64 * Suc j \<Longrightarrow> unat n \<le> length ptr \<Longrightarrow>
   body_loop r ptr n = Some (hash_blocks md5_compress r (take (unat n) ptr), drop (unat n) ptr)"
proof (induction j arbitrary: r ptr n)
  case 0
  then have "n = 64" by (simp add: word_unat_eq_iff)
  then have "n - 64 = 0" by simp
  with 0 show ?case by (subst body_loop.simps) (simp add: md5_block_eq hash_blocks_one md5_compress_take)
next
  case (Suc j)
  have le: "64 \<le> n" using Suc.prems(1) by (simp add: word_le_nat_alt)
  then have n': "unat (n - 64) = 64 * Suc j" using Suc.prems(1) by (simp add: unat_sub)
  then have "n - 64 \<noteq> 0" by auto
  moreover have "take (unat n) ptr = take 64 ptr @ take (unat (n - 64)) (drop 64 ptr)"
    using Suc.prems(1) n' take_add [of 64 "unat (n - 64)" ptr] by simp
  ultimately show ?case using Suc.IH [OF n', of "drop 64 ptr" "md5_compress r ptr"] Suc.prems n'
    by (subst body_loop.simps) (simp add: md5_block_eq hash_blocks_block md5_compress_take add.commute)
qed

lemma body_block: "length blk = 64 \<Longrightarrow> body ctx blk 64 = Some (ctx\<lparr>md5_regs := md5_compress (md5_regs ctx) blk\<rparr>, [])"
  using body_loop_returns [of 64 0 blk "md5_regs ctx"] by (simp add: body_def hash_blocks_one)

subsection \<open>The context\<close>

definition md5_absorbed :: "MD5_CTX \<Rightarrow> buffer \<Rightarrow> bool" where
  "md5_absorbed c m \<longleftrightarrow>
     length (md5_buffer c) = 64 \<and> take (length m mod 64) (md5_buffer c) = rest m
     \<and> md5_regs c = hash_blocks md5_compress md5_IV m
     \<and> unat (md5_lo c) = length m mod 2 ^ 29 \<and> md5_hi c = of_nat (length m div 2 ^ 29)"

lemma md5_init: "length junk = 64 \<Longrightarrow> md5_absorbed (MD5_Init junk) []"
  by (simp add: md5_absorbed_def MD5_Init_def md5_IV_def)

lemma md5_used: "md5_absorbed c m \<Longrightarrow> unat (md5_lo c AND 0x3F) = length m mod 64"
proof -
  assume c: "md5_absorbed c m"
  have "md5_lo c AND 0x3F = take_bit 6 (md5_lo c)" by (simp add: take_bit_eq_mask mask_numeral)
  with c show ?thesis by (simp add: md5_absorbed_def unat_take_bit mod_mod_cancel)
qed

lemma add_carry:
  fixes n k B :: nat
  assumes "0 < B"
  shows "(n + k) mod B < n mod B \<longleftrightarrow> B \<le> n mod B + k mod B"
    "(n + k) div B = n div B + k div B + (if B \<le> n mod B + k mod B then 1 else 0)"
proof -
  let ?s = "n mod B + k mod B"
  have lt: "n mod B < B" "k mod B < B" using assms by simp_all
  then have "?s - B < B" by linarith
  have s: "?s div B = (if B \<le> ?s then 1 else 0)" "?s mod B = (if B \<le> ?s then ?s - B else ?s)"
    using lt \<open>?s - B < B\<close> by (auto simp: le_mod_geq le_div_geq div_less mod_less)
  show "(n + k) div B = n div B + k div B + (if B \<le> n mod B + k mod B then 1 else 0)"
    using s(1) by (simp add: div_add1_eq [of n k B])
  show "(n + k) mod B < n mod B \<longleftrightarrow> B \<le> n mod B + k mod B"
  proof -
    have "(if B \<le> x + y then x + y - B else x + y) < x \<longleftrightarrow> B \<le> x + y" if "x < B" "y < B" for x y :: nat using that by auto
    from this [OF lt] show ?thesis unfolding mod_add_eq [of n B k, symmetric] s(2) .
  qed
qed

lemma md5_count_add:
  assumes "unat (md5_lo c) = n mod 2 ^ 29" "md5_hi c = of_nat (n div 2 ^ 29)" "k < 2 ^ 64"
  shows "unat (md5_lo (md5_count c (of_nat k))) = (n + k) mod 2 ^ 29"
    "md5_hi (md5_count c (of_nat k)) = of_nat ((n + k) div 2 ^ 29)"
proof -
  let ?w = "ucast (md5_lo c) + of_nat k :: u64" and ?B = "2 ^ 29 :: nat"
  let ?lo = "ucast (?w AND 0x1FFFFFFF) :: u32"
  have k: "unat (of_nat k :: u64) = k" using assms(3) by (simp add: unat_of_nat take_bit_nat_eq_self)
  have "unat (ucast (md5_lo c) :: u64) = n mod ?B" using assms(1) by (simp add: unat_ucast_up)
  then have "unat ?w = (n mod ?B + k) mod 2 ^ 64" using k by (simp add: unat_word_ariths)
  moreover have "?w AND 0x1FFFFFFF = take_bit 29 ?w" by (simp add: take_bit_eq_mask mask_numeral)
  ultimately have "unat (?w AND 0x1FFFFFFF) = (n + k) mod ?B"
    by (simp add: unat_take_bit mod_mod_cancel mod_add_left_eq)
  then have lo: "unat ?lo = (n + k) mod ?B" by (simp add: unsigned_ucast_eq take_bit_nat_eq_self less_trans [OF mod_less_divisor])
  then show "unat (md5_lo (md5_count c (of_nat k))) = (n + k) mod 2 ^ 29" by (simp add: md5_count_def Let_def)
  have carry: "?lo < md5_lo c \<longleftrightarrow> ?B \<le> n mod ?B + k mod ?B"
    using lo assms(1) add_carry(1) [of ?B n k] by (simp only: word_less_nat_alt) simp
  have "(ucast (drop_bit 29 (of_nat k :: u64)) :: u32) = of_nat (k div ?B)"
    by (metis of_nat_unat unat_drop_bit k)
  then show "md5_hi (md5_count c (of_nat k)) = of_nat ((n + k) div 2 ^ 29)"
    using carry assms(2) add_carry(2) [of ?B n k] by (simp add: md5_count_def Let_def)
qed

lemma md5_count_fields [simp]:
  "md5_regs (md5_count c n) = md5_regs c" "md5_buffer (md5_count c n) = md5_buffer c"
  by (simp_all add: md5_count_def Let_def)

lemma memcpy_at_0: "length xs \<le> length buf \<Longrightarrow> take (length xs) (memcpy_at buf 0 xs) = xs"
  by (simp add: memcpy_at_def)

lemma length_memcpy_at [simp]: "i + length xs \<le> length buf \<Longrightarrow> length (memcpy_at buf i xs) = length buf"
  by (simp add: memcpy_at_def)

lemma md5_tail_spec:
  assumes "length data < 2 ^ 64" "length (md5_buffer c) = 64"
  shows "\<exists>buf. md5_tail c data = Some (c\<lparr>md5_regs := hash_blocks md5_compress (md5_regs c) data, md5_buffer := buf\<rparr>)
    \<and> length buf = 64 \<and> take (length data mod 64) buf = rest data"
proof -
  let ?n = "of_nat (length data) :: u64"
  have n: "unat ?n = length data" using assms(1) by (simp add: unat_of_nat take_bit_nat_eq_self)
  have low: "unat (?n AND 0x3F) = length data mod 64"
  proof -
    have "?n AND 0x3F = take_bit 6 ?n" by (simp add: take_bit_eq_mask mask_numeral)
    then show ?thesis using n by (simp add: unat_take_bit)
  qed
  have high: "unat (?n AND NOT 0x3F) = 64 * (length data div 64)"
  proof -
    have m: "(0x3F :: u64) = mask 6" by (simp add: mask_numeral)
    have "?n AND NOT 0x3F = push_bit 6 (drop_bit 6 ?n)" unfolding m by (rule bit_word_eqI) (auto simp: bit_simps)
    moreover have "unat (drop_bit 6 ?n) * 2 ^ 6 < 2 ^ LENGTH(64)"
      using n assms(1) by (simp add: unat_drop_bit)
    ultimately show ?thesis using n by (simp add: unat_push_bit unat_drop_bit)
  qed
  show ?thesis
  proof (cases "?n \<ge> 64")
    case True
    then have len: "64 \<le> length data" using n by (simp add: word_le_nat_alt)
    then obtain j where j: "length data div 64 = Suc j" by (metis div_greater_zero_iff gr0_implies_Suc zero_less_numeral)
    let ?q = "64 * (length data div 64)"
    have le: "?q \<le> length data" by simp
    have "body_loop (md5_regs c) data (?n AND NOT 0x3F) = Some (hash_blocks md5_compress (md5_regs c) (take ?q data), drop ?q data)"
      using body_loop_returns [of "?n AND NOT 0x3F" j data "md5_regs c"] high j le by simp
    moreover have "hash_blocks md5_compress (md5_regs c) (take ?q data) = hash_blocks md5_compress (md5_regs c) data"
      using hash_blocks_append [of md5_compress "md5_regs c" "take ?q data" "drop ?q data"] le
      by (simp add: rest_def minus_mult_div_eq_mod min_absorb2)
    moreover have "take (length data mod 64) (drop ?q data) = rest data" by (simp add: rest_def minus_mult_div_eq_mod)
    ultimately show ?thesis using True low assms(2) memcpy_at_0 [of "rest data" "md5_buffer c"]
      by (intro exI [of _ "memcpy_at (md5_buffer c) 0 (rest data)"]) (simp add: md5_tail_def body_def Let_def less_imp_le)
  next
    case False
    then have "length data < 64" using n by (simp add: word_le_nat_alt)
    with False show ?thesis using assms(2) memcpy_at_0 [of data "md5_buffer c"]
      by (intro exI [of _ "memcpy_at (md5_buffer c) 0 data"]) (simp add: md5_tail_def rest_small)
  qed
qed

lemma md5_update:
  assumes c: "md5_absorbed c m" and len: "length data < 2 ^ 64"
  shows "\<exists>c'. MD5_Update c data = Some c' \<and> md5_absorbed c' (m @ data)"
proof -
  let ?r = "length m mod 64" and ?c = "md5_count c (of_nat (length data))"
  have r: "?r < 64" by simp
  have buf: "length (md5_buffer c) = 64" "take ?r (md5_buffer c) = rest m" "md5_regs c = hash_blocks md5_compress md5_IV m"
    using c by (simp_all add: md5_absorbed_def)
  have cnt: "unat (md5_lo ?c) = length (m @ data) mod 2 ^ 29" "md5_hi ?c = of_nat (length (m @ data) div 2 ^ 29)"
    using md5_count_add [of c "length m" "length data"] c len by (simp_all add: md5_absorbed_def)
  have used: "unat (md5_lo c AND 0x3F) = ?r" using c by (rule md5_used)
  have len_sum: "length (m @ data) mod 64 = (?r + length data) mod 64" by (simp add: mod_add_left_eq)
  consider (fits) "?r \<noteq> 0" "length data < 64 - ?r" | (fill) "?r \<noteq> 0" "64 - ?r \<le> length data" | (aligned) "?r = 0" by linarith
  then show ?thesis
  proof cases
    case fits
    then have "hash_blocks md5_compress md5_IV (m @ data) = hash_blocks md5_compress md5_IV m" "rest (m @ data) = rest m @ data"
      by (simp_all add: hash_blocks_append [of _ _ m] rest_append [of m] rest_small)
    moreover have "take (?r + length data) (memcpy_at (md5_buffer c) ?r data) = rest m @ data" using buf fits by (simp add: memcpy_at_def)
    moreover have "length (m @ data) mod 64 = ?r + length data" using fits len_sum by simp
    ultimately show ?thesis using fits buf cnt used by (simp add: MD5_Update_def Let_def md5_absorbed_def)
  next
    case fill
    let ?x = "take (64 - ?r) data" and ?y = "drop (64 - ?r) data"
    have blk: "memcpy_at (md5_buffer c) ?r ?x = rest m @ ?x" "length (rest m @ ?x) = 64" using buf fill r by (simp_all add: memcpy_at_def)
    let ?c2 = "?c\<lparr>md5_buffer := rest m @ ?x, md5_regs := md5_compress (md5_regs c) (rest m @ ?x)\<rparr>"
    have "MD5_Update c data = md5_tail ?c2 ?y"
      using fill used blk body_block [OF blk(2), of "?c\<lparr>md5_buffer := rest m @ ?x\<rparr>"] by (simp add: MD5_Update_def Let_def)
    moreover obtain nb where "md5_tail ?c2 ?y = Some (?c2\<lparr>md5_regs := hash_blocks md5_compress (md5_regs ?c2) ?y, md5_buffer := nb\<rparr>)"
      "length nb = 64" "take (length ?y mod 64) nb = rest ?y"
    proof -
      have "length ?y < 2 ^ 64" "length (md5_buffer ?c2) = 64" using len blk(2) by simp_all
      then show ?thesis using md5_tail_spec [of ?y ?c2] that by blast
    qed
    moreover have split: "rest m @ data = (rest m @ ?x) @ ?y" by simp
    have "hash_blocks md5_compress md5_IV (m @ data) = hash_blocks md5_compress (md5_compress (hash_blocks md5_compress md5_IV m) (rest m @ ?x)) ?y"
      by (simp only: hash_blocks_append [of _ _ m] split hash_blocks_block [OF blk(2)])
    moreover have "rest (m @ data) = rest ?y" using rest_blocks [of "rest m @ ?x" ?y] blk(2) by (simp only: rest_append [of m] split mod_self)
    moreover have "length ?y mod 64 = length (m @ data) mod 64" using \<open>rest (m @ data) = rest ?y\<close> by (metis length_rest)
    ultimately show ?thesis using buf cnt by (simp add: md5_absorbed_def)
  next
    case aligned
    then have "rest m = []" by (metis length_0_conv length_rest)
    obtain nb where "md5_tail ?c data = Some (?c\<lparr>md5_regs := hash_blocks md5_compress (md5_regs ?c) data, md5_buffer := nb\<rparr>)"
      "length nb = 64" "take (length data mod 64) nb = rest data"
      using md5_tail_spec [of data ?c] len buf by auto
    moreover have "MD5_Update c data = md5_tail ?c data" using used aligned by (simp add: MD5_Update_def)
    moreover have "hash_blocks md5_compress md5_IV (m @ data) = hash_blocks md5_compress (md5_regs c) data" "rest (m @ data) = rest data"
      using buf \<open>rest m = []\<close> by (simp_all add: hash_blocks_append [of _ _ m] rest_append [of m])
    moreover have "length data mod 64 = length (m @ data) mod 64" using aligned len_sum by simp
    ultimately show ?thesis using cnt by (simp add: md5_absorbed_def)
  qed
qed

subsection \<open>The digest\<close>

lemma le_bytes_word: "le_bytes 4 (unat w) = md5_word_bytes w"
  by (simp add: le_bytes_def of_nat_div_byte md5_word_bytes_def upt_rec)

lemma le_bytes_low: "le_bytes 4 (v mod 2 ^ 32) = le_bytes 4 v"
proof -
  have "(of_nat (v mod 2 ^ 32 div 256 ^ i) :: u8) = of_nat (v div 256 ^ i)" if "i < 4" for i
  proof -
    have e: "(256 :: nat) ^ i = 2 ^ (8 * i)" by (simp add: power_mult)
    have "min 8 (32 - 8 * i) = 8" using that by linarith
    have "drop_bit (8 * i) (take_bit 32 v) = take_bit (32 - 8 * i) (drop_bit (8 * i) v)" by (simp add: drop_bit_take_bit)
    then have "take_bit 8 (drop_bit (8 * i) (take_bit 32 v)) = take_bit 8 (drop_bit (8 * i) v)"
      using \<open>min 8 (32 - 8 * i) = 8\<close> by (simp only: take_bit_take_bit)
    then have "take_bit 8 (v mod 2 ^ 32 div 256 ^ i) = take_bit 8 (v div 256 ^ i)"
      unfolding e take_bit_eq_mod [of 32] drop_bit_eq_div .
    then show ?thesis by (simp add: word_unat_eq_iff unat_of_nat take_bit_eq_mod)
  qed
  then show ?thesis by (simp add: le_bytes_def)
qed

lemma le_bytes_split: "le_bytes 8 v = le_bytes 4 (v mod 2 ^ 32) @ le_bytes 4 (v div 2 ^ 32)"
  unfolding le_bytes_low by (simp add: le_bytes_def upt_rec div_mult2_eq [symmetric])

lemma md5_length_bytes:
  assumes "md5_absorbed c m"
  shows "md5_word_bytes (push_bit 3 (md5_lo c)) @ md5_word_bytes (md5_hi c) = le_bytes 8 (8 * length m)"
proof -
  let ?n = "length m"
  have lo: "unat (md5_lo c) = ?n mod 2 ^ 29" and hi: "md5_hi c = of_nat (?n div 2 ^ 29)" using assms by (simp_all add: md5_absorbed_def)
  have "unat (push_bit 3 (md5_lo c)) = unat (md5_lo c) * 2 ^ 3" by (rule unat_push_bit) (simp add: lo)
  also have "\<dots> = 8 * ?n mod 2 ^ 32" using mult_mod_right [of 8 ?n "2 ^ 29"] lo by simp
  finally have "md5_word_bytes (push_bit 3 (md5_lo c)) = le_bytes 4 (8 * ?n mod 2 ^ 32)" using le_bytes_word by metis
  moreover have "md5_word_bytes (md5_hi c) = le_bytes 4 (8 * ?n div 2 ^ 32)"
  proof -
    have "8 * ?n div 2 ^ 32 = ?n div 2 ^ 29" using div_mult_mult1 [of 8 ?n "2 ^ 29"] by simp
    moreover have "unat (md5_hi c) = ?n div 2 ^ 29 mod 2 ^ 32" using hi by (simp add: unat_of_nat take_bit_eq_mod)
    ultimately show ?thesis using le_bytes_word [of "md5_hi c"] le_bytes_low [of "?n div 2 ^ 29"] by metis
  qed
  ultimately show ?thesis by (simp only: le_bytes_split)
qed

lemma md5_output_eq: "md5_output r = (case r of (a, b, c, d) \<Rightarrow> le_bytes 4 (unat a) @ le_bytes 4 (unat b) @ le_bytes 4 (unat c) @ le_bytes 4 (unat d))"
  by (cases r) (simp add: le_bytes_word)

lemma memcpy_at_end: "length p = i \<Longrightarrow> i + length xs = length buf \<Longrightarrow> take i buf = p \<Longrightarrow> memcpy_at buf i xs = p @ xs"
  by (simp add: memcpy_at_def)

lemma md5_final:
  assumes c: "md5_absorbed c m"
  shows "MD5_Final c = Some (MD5 m)"
proof -
  let ?r = "length m mod 64" and ?H = "hash_blocks md5_compress md5_IV m" and ?L = "le_bytes 8 (8 * length m)"
  let ?b = "(md5_buffer c)[?r := 128]"
  have r: "?r < 64" by simp
  have buf: "length (md5_buffer c) = 64" "take ?r (md5_buffer c) = rest m" "md5_regs c = ?H" using c by (simp_all add: md5_absorbed_def)
  have used: "unat (md5_lo c AND 0x3F) = ?r" using c by (rule md5_used)
  have start: "take (Suc ?r) ?b = rest m @ [128]" using buf r by (simp add: take_Suc_conv_app_nth)
  have lens: "md5_word_bytes (push_bit 3 (md5_lo c)) @ md5_word_bytes (md5_hi c) = ?L" using c by (rule md5_length_bytes)
  have spec: "MD5 m = md5_output
       (if ?r < 56 then md5_compress ?H (rest m @ [128] @ replicate (55 - ?r) 0 @ ?L)
        else md5_compress (md5_compress ?H (rest m @ [128] @ replicate (63 - ?r) 0)) (replicate 56 0 @ ?L))"
    by (simp add: MD5_def hash_digest_rest md5_output_eq)
  show ?thesis
  proof (cases "?r < 56")
    case True
    let ?p = "rest m @ [128] @ replicate (55 - ?r) 0"
    have p: "length ?p = 56" using True by simp
    have "memcpy_at ?b (Suc ?r) (replicate (55 - ?r) 0) = ?p @ drop 56 ?b" using True start buf by (simp add: memcpy_at_def)
    then have "take 56 (memcpy_at ?b (Suc ?r) (replicate (55 - ?r) 0)) = ?p" using p by (metis append_eq_conv_conj)
    then have "memcpy_at (memcpy_at ?b (Suc ?r) (replicate (55 - ?r) 0)) 56 ?L = ?p @ ?L"
      using p True buf by (intro memcpy_at_end) simp_all
    moreover have "length (?p @ ?L) = 64" using p by (simp only: length_append length_le_bytes)
    moreover have "\<not> 63 - ?r < 8" "63 - ?r - 8 = 55 - ?r" using True by linarith+
    ultimately show ?thesis using True buf used lens spec body_block [of "?p @ ?L"] by (simp add: MD5_Final_def Let_def)
  next
    case False
    let ?p = "rest m @ [128] @ replicate (63 - ?r) 0"
    have p: "length ?p = 64" using r by simp
    have 1: "memcpy_at ?b (Suc ?r) (replicate (63 - ?r) 0) = ?p" using r start buf by (simp add: memcpy_at_def)
    have "memcpy_at (memcpy_at ?p 0 (replicate 56 0)) 56 ?L = replicate 56 0 @ ?L"
      using p by (intro memcpy_at_end) (simp_all add: memcpy_at_def)
    moreover have "length (replicate 56 0 @ ?L) = 64" by simp
    moreover have "63 - ?r < 8" using False by linarith
    ultimately show ?thesis using False r buf used lens spec 1 p body_block [of ?p] body_block [of "replicate 56 0 @ ?L"]
      by (simp add: MD5_Final_def Let_def)
  qed
qed

interpretation md5: streaming_hash "MD5_Init (replicate 64 0)" MD5_Update "\<lambda>c. the (MD5_Final c)" md5_absorbed
  "\<lambda>n. n < 2 ^ 64" "\<lambda>n. True" MD5
  by unfold_locales (simp_all add: md5_init md5_update md5_final)

text \<open>C22. The digest is MD5, and every call returns. A context fed with the pieces of a message, however it was cut, yields the digest
  RFC 1321 prescribes for the whole message: the 64 unrolled statements, with their optimised boolean functions and fixed register
  names, are the loop of the RFC, and the two counters \<^verbatim>\<open>lo\<close> and \<^verbatim>\<open>hi\<close> carry the length of the message modulo \<open>2 ^ 61\<close> bytes, for pieces
  of any size a \<^verbatim>\<open>size_t\<close> can have.\<close>

theorem md5_streaming_correct:
  assumes "\<And>p. p \<in> set ps \<Longrightarrow> length p < 2 ^ 64"
  shows "Option.bind (feed MD5_Update (MD5_Init (replicate 64 0)) ps) MD5_Final = Some (MD5 (concat ps))"
proof -
  obtain c where "feed MD5_Update (MD5_Init (replicate 64 0)) ps = Some c" "md5_absorbed c (concat ps)"
    using md5.feed_absorbed [OF md5.init_absorbed assms] by auto
  then show ?thesis using md5_final by simp
qed

theorem md5_streaming_correct_witness:
  "Option.bind (feed MD5_Update (MD5_Init (replicate 64 0)) [bytes ''a'', bytes ''bc'']) MD5_Final = Some (MD5 (bytes ''abc''))"
proof -
  have "length p < 2 ^ 64" if "p \<in> set [bytes ''a'', bytes ''bc'']" for p :: buffer using that by auto
  then show ?thesis using md5_streaming_correct [of "[bytes ''a'', bytes ''bc'']"] by simp
qed

end
