(* ===== verification/Sha256.thy ===== *)
theory Sha256
  imports Block_Hash
begin

text \<open>
  SHA-256, \<^verbatim>\<open>src/hash/sha256.cpp\<close>.

  The context is the record \<open>SHA256_CTX\<close>. The shift \<^verbatim>\<open>data[j] << 24\<close> of a promoted byte is read as the 32-bit value every
  compiler gives it. \<^verbatim>\<open>SHA256_Update\<close> compares a 32-bit counter with a \<^verbatim>\<open>size_t\<close> and is a partial function: it does not
  return for a piece of \<open>2 ^ 32\<close> bytes or more. The specification is that of FIPS 180-4, with its constants as the
  bits of the cube and square roots of primes.
\<close>

subsection \<open>The code\<close>

definition ROTRIGHT :: "u32 \<Rightarrow> nat \<Rightarrow> u32" where
  "ROTRIGHT a b = drop_bit b a OR push_bit (32 - b) a"

definition CH :: "u32 \<Rightarrow> u32 \<Rightarrow> u32 \<Rightarrow> u32" where
  "CH x y z = (x AND y) XOR (NOT x AND z)"

definition MAJ :: "u32 \<Rightarrow> u32 \<Rightarrow> u32 \<Rightarrow> u32" where
  "MAJ x y z = (x AND y) XOR (x AND z) XOR (y AND z)"

definition EP0 :: "u32 \<Rightarrow> u32" where
  "EP0 x = ROTRIGHT x 2 XOR ROTRIGHT x 13 XOR ROTRIGHT x 22"

definition EP1 :: "u32 \<Rightarrow> u32" where
  "EP1 x = ROTRIGHT x 6 XOR ROTRIGHT x 11 XOR ROTRIGHT x 25"

definition SIG0 :: "u32 \<Rightarrow> u32" where
  "SIG0 x = ROTRIGHT x 7 XOR ROTRIGHT x 18 XOR drop_bit 3 x"

definition SIG1 :: "u32 \<Rightarrow> u32" where
  "SIG1 x = ROTRIGHT x 17 XOR ROTRIGHT x 19 XOR drop_bit 10 x"

definition k256 :: "u32 list" where
  "k256 =
    [0x428A2F98, 0x71374491, 0xB5C0FBCF, 0xE9B5DBA5, 0x3956C25B, 0x59F111F1, 0x923F82A4, 0xAB1C5ED5,
     0xD807AA98, 0x12835B01, 0x243185BE, 0x550C7DC3, 0x72BE5D74, 0x80DEB1FE, 0x9BDC06A7, 0xC19BF174,
     0xE49B69C1, 0xEFBE4786, 0x0FC19DC6, 0x240CA1CC, 0x2DE92C6F, 0x4A7484AA, 0x5CB0A9DC, 0x76F988DA,
     0x983E5152, 0xA831C66D, 0xB00327C8, 0xBF597FC7, 0xC6E00BF3, 0xD5A79147, 0x06CA6351, 0x14292967,
     0x27B70A85, 0x2E1B2138, 0x4D2C6DFC, 0x53380D13, 0x650A7354, 0x766A0ABB, 0x81C2C92E, 0x92722C85,
     0xA2BFE8A1, 0xA81A664B, 0xC24B8B70, 0xC76C51A3, 0xD192E819, 0xD6990624, 0xF40E3585, 0x106AA070,
     0x19A4C116, 0x1E376C08, 0x2748774C, 0x34B0BCB5, 0x391C0CB3, 0x4ED8AA4A, 0x5B9CCA4F, 0x682E6FF3,
     0x748F82EE, 0x78A5636F, 0x84C87814, 0x8CC70208, 0x90BEFFFA, 0xA4506CEB, 0xBEF9A3F7, 0xC67178F2]"

record SHA256_CTX =
  s256_data :: buffer
  s256_datalen :: u32
  s256_bitlen :: u64
  s256_state :: "u32 list"

type_synonym regs8 = "u32 \<times> u32 \<times> u32 \<times> u32 \<times> u32 \<times> u32 \<times> u32 \<times> u32"

definition sha256_expand :: "nat \<Rightarrow> u32 list \<Rightarrow> u32 list" where
  "sha256_expand i m = m @ [SIG1 (m ! (i - 2)) + m ! (i - 7) + SIG0 (m ! (i - 15)) + m ! (i - 16)]"

definition sha256_schedule :: "buffer \<Rightarrow> u32 list" where
  "sha256_schedule data = fold sha256_expand [16..<64] (map (be_word data) [0..<16])"

fun sha256_round :: "u32 list \<Rightarrow> nat \<Rightarrow> regs8 \<Rightarrow> regs8" where
  "sha256_round m i (a, b, c, d, e, f, g, h) =
     (let t1 = h + EP1 e + CH e f g + k256 ! i + m ! i;
          t2 = EP0 a + MAJ a b c
      in (t1 + t2, a, b, c, d + t1, e, f, g))"

definition sha256_transform :: "SHA256_CTX \<Rightarrow> buffer \<Rightarrow> SHA256_CTX" where
  "sha256_transform ctx data =
     (let m = sha256_schedule data; s = s256_state ctx in
      case fold (sha256_round m) [0..<64] (s ! 0, s ! 1, s ! 2, s ! 3, s ! 4, s ! 5, s ! 6, s ! 7) of
        (a, b, c, d, e, f, g, h) \<Rightarrow>
          ctx\<lparr>s256_state := [s ! 0 + a, s ! 1 + b, s ! 2 + c, s ! 3 + d, s ! 4 + e, s ! 5 + f, s ! 6 + g, s ! 7 + h]\<rparr>)"

text \<open>The array of the context has no value before it is written; \<open>junk\<close> stands for what it holds.\<close>

definition SHA256_Init :: "buffer \<Rightarrow> SHA256_CTX" where
  "SHA256_Init junk =
     \<lparr>s256_data = junk, s256_datalen = 0, s256_bitlen = 0,
      s256_state = [0x6A09E667, 0xBB67AE85, 0x3C6EF372, 0xA54FF53A, 0x510E527F, 0x9B05688C, 0x1F83D9AB, 0x5BE0CD19]\<rparr>"

definition sha256_add :: "SHA256_CTX \<Rightarrow> u8 \<Rightarrow> SHA256_CTX" where
  "sha256_add ctx b =
     (let ctx = ctx\<lparr>s256_data := (s256_data ctx)[unat (s256_datalen ctx) := b], s256_datalen := s256_datalen ctx + 1\<rparr> in
      if s256_datalen ctx = 64
      then (sha256_transform ctx (s256_data ctx))\<lparr>s256_bitlen := s256_bitlen ctx + 512, s256_datalen := 0\<rparr>
      else ctx)"

partial_function (option) SHA256_Update_loop :: "SHA256_CTX \<Rightarrow> buffer \<Rightarrow> u32 \<Rightarrow> SHA256_CTX option" where
  "SHA256_Update_loop ctx data i =
     (if unat i < length data then SHA256_Update_loop (sha256_add ctx (data ! unat i)) data (i + 1) else Some ctx)"

definition SHA256_Update :: "SHA256_CTX \<Rightarrow> buffer \<Rightarrow> SHA256_CTX option" where
  "SHA256_Update ctx data = SHA256_Update_loop ctx data 0"

function zero_fill :: "buffer \<Rightarrow> nat \<Rightarrow> nat \<Rightarrow> buffer" where
  "zero_fill data i n = (if i < n then zero_fill (data[i := 0]) (i + 1) n else data)"
  by pat_completeness auto

termination
  by (relation "measure (\<lambda>(_, i, n). n - i)") auto

declare zero_fill.simps [simp del]

definition sha256_put_length :: "u64 \<Rightarrow> buffer \<Rightarrow> buffer" where
  "sha256_put_length bitlen data =
     data[63 := ucast bitlen, 62 := ucast (drop_bit 8 bitlen), 61 := ucast (drop_bit 16 bitlen), 60 := ucast (drop_bit 24 bitlen),
          59 := ucast (drop_bit 32 bitlen), 58 := ucast (drop_bit 40 bitlen), 57 := ucast (drop_bit 48 bitlen),
          56 := ucast (drop_bit 56 bitlen)]"

definition sha256_output :: "u32 list \<Rightarrow> buffer" where
  "sha256_output state = map (\<lambda>n. ucast (drop_bit (24 - n mod 4 * 8) (state ! (n div 4)) AND 255)) [0..<32]"

definition SHA256_Final :: "SHA256_CTX \<Rightarrow> buffer" where
  "SHA256_Final ctx =
     (let i = unat (s256_datalen ctx);
          data = (s256_data ctx)[i := 0x80];
          ctx = (if s256_datalen ctx < 56 then ctx\<lparr>s256_data := zero_fill data (i + 1) 56\<rparr>
                 else let ctx = ctx\<lparr>s256_data := zero_fill data (i + 1) 64\<rparr>;
                          ctx = sha256_transform ctx (s256_data ctx)
                      in ctx\<lparr>s256_data := zero_fill (s256_data ctx) 0 56\<rparr>);
          ctx = ctx\<lparr>s256_bitlen := s256_bitlen ctx + ucast (s256_datalen ctx * 8)\<rparr>;
          ctx = ctx\<lparr>s256_data := sha256_put_length (s256_bitlen ctx) (s256_data ctx)\<rparr>
      in sha256_output (s256_state (sha256_transform ctx (s256_data ctx))))"

subsection \<open>The standard\<close>

definition isqrt :: "nat \<Rightarrow> nat" where
  "isqrt n = Max {c. c ^ 2 \<le> n}"

definition icbrt :: "nat \<Rightarrow> nat" where
  "icbrt n = Max {c. c ^ 3 \<le> n}"

text \<open>The first 64 primes.\<close>

definition primes64 :: "nat list" where
  "primes64 =
    [2, 3, 5, 7, 11, 13, 17, 19, 23, 29, 31, 37, 41, 43, 47, 53,
     59, 61, 67, 71, 73, 79, 83, 89, 97, 101, 103, 107, 109, 113, 127, 131,
     137, 139, 149, 151, 157, 163, 167, 173, 179, 181, 191, 193, 197, 199, 211, 223,
     227, 229, 233, 239, 241, 251, 257, 263, 269, 271, 277, 281, 283, 293, 307, 311]"

text \<open>The first 32 bits of the fractional parts of the cube roots of the first 64 primes, and of the square roots of the first
  eight.\<close>

definition FIPS_K :: "nat \<Rightarrow> u32" where
  "FIPS_K t = of_nat (icbrt (primes64 ! t * 2 ^ 96))"

definition FIPS_H :: "u32 list" where
  "FIPS_H = map (\<lambda>p. of_nat (isqrt (p * 2 ^ 64))) (take 8 primes64)"

definition Sigma0 :: "u32 \<Rightarrow> u32" where
  "Sigma0 x = word_rotr 2 x XOR word_rotr 13 x XOR word_rotr 22 x"

definition Sigma1 :: "u32 \<Rightarrow> u32" where
  "Sigma1 x = word_rotr 6 x XOR word_rotr 11 x XOR word_rotr 25 x"

definition sigma0 :: "u32 \<Rightarrow> u32" where
  "sigma0 x = word_rotr 7 x XOR word_rotr 18 x XOR drop_bit 3 x"

definition sigma1 :: "u32 \<Rightarrow> u32" where
  "sigma1 x = word_rotr 17 x XOR word_rotr 19 x XOR drop_bit 10 x"

fun FIPS_W :: "buffer \<Rightarrow> nat \<Rightarrow> u32" where
  "FIPS_W blk t =
     (if t < 16 then be_word blk t
      else sigma1 (FIPS_W blk (t - 2)) + FIPS_W blk (t - 7) + sigma0 (FIPS_W blk (t - 15)) + FIPS_W blk (t - 16))"

declare FIPS_W.simps [simp del]

primrec FIPS_rounds :: "buffer \<Rightarrow> regs8 \<Rightarrow> nat \<Rightarrow> regs8" where
  "FIPS_rounds blk r 0 = r"
| "FIPS_rounds blk r (Suc t) =
     (case FIPS_rounds blk r t of (a, b, c, d, e, f, g, h) \<Rightarrow>
        let T1 = h + Sigma1 e + ((e AND f) XOR (NOT e AND g)) + FIPS_K t + FIPS_W blk t;
            T2 = Sigma0 a + ((a AND b) XOR (a AND c) XOR (b AND c))
        in (T1 + T2, a, b, c, d + T1, e, f, g))"

definition FIPS_compress :: "u32 list \<Rightarrow> buffer \<Rightarrow> u32 list" where
  "FIPS_compress H blk =
     (case FIPS_rounds blk (H ! 0, H ! 1, H ! 2, H ! 3, H ! 4, H ! 5, H ! 6, H ! 7) 64 of
        (a, b, c, d, e, f, g, h) \<Rightarrow> map2 (+) H [a, b, c, d, e, f, g, h])"

definition SHA256 :: "buffer \<Rightarrow> buffer" where
  "SHA256 = hash_digest FIPS_compress FIPS_H (\<lambda>H. concat (map (\<lambda>w. be_bytes 4 (unat w)) H)) (be_bytes 8)"

subsection \<open>The constants\<close>

lemma Max_power_eqI:
  fixes c n k :: nat
  assumes "c ^ k \<le> n" "n < (c + 1) ^ k"
  shows "Max {d. d ^ k \<le> n} = c"
proof -
  have le: "d \<le> c" if "d ^ k \<le> n" for d
    using that assms(2) power_mono [of "c + 1" d k] by (metis Suc_eq_plus1 leD le_less_trans not_less_eq_eq zero_le)
  then have "finite {d. d ^ k \<le> n}" by (auto intro: finite_subset [of _ "{..c}"])
  then show ?thesis using le assms(1) by (intro Max_eqI) auto
qed

definition cube_roots :: "nat list" where
  "cube_roots =
    [5411319704, 6194414737, 7344290767, 8215976869, 9551921755, 10098905585,
     11043570340, 11460697813, 12214315672, 13195500289, 13492127166, 14311783875,
     14809980276, 15046980094, 15499789991, 16133124468, 16720292289, 16907126662,
     17444216262, 17784676812, 17950125167, 18429019306, 18734950876, 19175934170,
     19734090066, 20001703533, 20132865992, 20390182855, 20516441075, 20764397895,
     21588763473, 21813078375, 22141143685, 22248366392, 22769593852, 22871018771,
     23170020180, 23461497531, 23651862830, 23931792517, 24205322401, 24295138891,
     24734567280, 24820601251, 24990902297, 25075189284, 25569408389, 26045227120,
     26200031510, 26276752392, 26428864332, 26653801653, 26727943347, 27092625994,
     27306805839, 27517677555, 27725365998, 27793908591, 27997534228, 28131656200,
     28198240250, 28526537963, 28973835255, 29099129074]"

lemma cube_roots_ok: "list_all2 (\<lambda>p c. c ^ 3 \<le> p * 2 ^ 96 \<and> p * 2 ^ 96 < (c + 1) ^ 3) primes64 cube_roots"
  by (simp add: primes64_def cube_roots_def)

lemma k256_roots: "k256 = map of_nat cube_roots"
  by (simp add: k256_def cube_roots_def)

lemma k256_FIPS: "t < 64 \<Longrightarrow> k256 ! t = FIPS_K t"
proof -
  assume t: "t < 64"
  have "length primes64 = 64" "length cube_roots = 64" by (simp_all add: primes64_def cube_roots_def)
  with t cube_roots_ok have "icbrt (primes64 ! t * 2 ^ 96) = cube_roots ! t"
    unfolding icbrt_def by (intro Max_power_eqI) (auto simp: list_all2_conv_all_nth)
  with t \<open>length cube_roots = 64\<close> show ?thesis by (simp add: FIPS_K_def k256_roots)
qed

lemma FIPS_H_eq: "FIPS_H = [0x6A09E667, 0xBB67AE85, 0x3C6EF372, 0xA54FF53A, 0x510E527F, 0x9B05688C, 0x1F83D9AB, 0x5BE0CD19]"
proof -
  have "map (\<lambda>p. isqrt (p * 2 ^ 64)) (take 8 primes64) =
    [6074000999, 7439101573, 9603838834, 11363415354,
     14244795007, 15485724812, 17708603819, 18721328409]"
    unfolding isqrt_def primes64_def by (simp add: Max_power_eqI)
  then have "FIPS_H = map of_nat [6074000999, 7439101573, 9603838834, 11363415354,
     14244795007, 15485724812, 17708603819, 18721328409]"
    unfolding FIPS_H_def by (metis (no_types, lifting) list.map_comp comp_def map_eq_conv)
  also have "\<dots> = [0x6A09E667, 0xBB67AE85, 0x3C6EF372, 0xA54FF53A, 0x510E527F, 0x9B05688C, 0x1F83D9AB, 0x5BE0CD19]" by simp
  finally show ?thesis .
qed

subsection \<open>The compression function\<close>

lemma ROTRIGHT_rotr: "0 < b \<Longrightarrow> b < 32 \<Longrightarrow> ROTRIGHT a b = word_rotr b a"
  by (simp add: ROTRIGHT_def rotr_shifts)

lemma sigma_eq: "EP0 = Sigma0" "EP1 = Sigma1" "SIG0 = sigma0" "SIG1 = sigma1"
  by (simp_all add: fun_eq_iff EP0_def EP1_def SIG0_def SIG1_def Sigma0_def Sigma1_def sigma0_def sigma1_def ROTRIGHT_rotr)

lemma schedule_upto: "n \<le> 48 \<Longrightarrow> fold sha256_expand [16..<16 + n] (map (be_word data) [0..<16]) = map (FIPS_W data) [0..<16 + n]"
proof (induction n)
  case 0
  then show ?case by (simp add: FIPS_W.simps)
next
  case (Suc n)
  have "FIPS_W data (16 + n) = SIG1 (FIPS_W data (14 + n)) + FIPS_W data (9 + n) + SIG0 (FIPS_W data (1 + n)) + FIPS_W data n"
    by (subst FIPS_W.simps) (simp add: sigma_eq)
  moreover have "sha256_expand (16 + n) (map (FIPS_W data) [0..<16 + n]) =
      map (FIPS_W data) [0..<16 + n] @ [SIG1 (FIPS_W data (14 + n)) + FIPS_W data (9 + n) + SIG0 (FIPS_W data (1 + n)) + FIPS_W data n]"
    by (simp add: sha256_expand_def)
  moreover have "[16..<16 + Suc n] = [16..<16 + n] @ [16 + n]" "[0..<16 + Suc n] = [0..<16 + n] @ [16 + n]"
    by (metis add_Suc_right le_add1 upt_Suc_append, metis add_Suc_right zero_le upt_Suc_append)
  ultimately show ?case using Suc by (simp only: fold_append fold_simps comp_apply map_append list.map)
qed

lemma sha256_schedule_eq: "sha256_schedule data = map (FIPS_W data) [0..<64]"
  using schedule_upto [of 48 data] by (simp add: sha256_schedule_def)

lemma regs8_cases: obtains a b c d e f g h where "r = (a, b, c, d, e, f, g, h)"
  by (metis surj_pair)

lemma rounds_upto: "n \<le> 64 \<Longrightarrow> fold (sha256_round (sha256_schedule data)) [0..<n] r = FIPS_rounds data r n"
proof (induction n)
  case (Suc n)
  then have "fold (sha256_round (sha256_schedule data)) [0..<Suc n] r = sha256_round (sha256_schedule data) n (FIPS_rounds data r n)"
    by simp
  with Suc.prems show ?case
    by (cases "FIPS_rounds data r n" rule: regs8_cases) (simp add: Let_def sha256_schedule_eq sigma_eq k256_FIPS CH_def MAJ_def)
qed simp

lemma eight: "length xs = 8 \<Longrightarrow> xs = [xs ! 0, xs ! 1, xs ! 2, xs ! 3, xs ! 4, xs ! 5, xs ! 6, xs ! 7]"
  by (rule nth_equalityI) (auto simp: numeral_eq_Suc less_Suc_eq)

lemma sha256_transform_FIPS:
  assumes "length (s256_state ctx) = 8"
  shows "sha256_transform ctx data = ctx\<lparr>s256_state := FIPS_compress (s256_state ctx) data\<rparr>"
proof -
  let ?s = "s256_state ctx"
  obtain a b c d e f g h where r: "FIPS_rounds data (?s ! 0, ?s ! 1, ?s ! 2, ?s ! 3, ?s ! 4, ?s ! 5, ?s ! 6, ?s ! 7) 64 = (a, b, c, d, e, f, g, h)"
    by (metis regs8_cases)
  obtain s0 s1 s2 s3 s4 s5 s6 s7 where "?s = [s0, s1, s2, s3, s4, s5, s6, s7]" using eight [OF assms] by blast
  with r have "FIPS_compress ?s data = [?s ! 0 + a, ?s ! 1 + b, ?s ! 2 + c, ?s ! 3 + d, ?s ! 4 + e, ?s ! 5 + f, ?s ! 6 + g, ?s ! 7 + h]"
    by (simp add: FIPS_compress_def)
  with r show ?thesis by (simp add: sha256_transform_def rounds_upto Let_def)
qed

lemma length_FIPS_compress [simp]: "length H = 8 \<Longrightarrow> length (FIPS_compress H blk) = 8"
  by (simp add: FIPS_compress_def split: prod.splits)

lemma length_FIPS_blocks [simp]: "length (hash_blocks FIPS_compress FIPS_H m) = 8"
proof -
  have "length st = 8 \<Longrightarrow> length (hash_blocks f st m) = 8" if "\<And>st b. length st = 8 \<Longrightarrow> length (f st b) = 8" for f :: "u32 list \<Rightarrow> buffer \<Rightarrow> u32 list" and st
    using that by (induction f st m rule: hash_blocks.induct) (subst hash_blocks.simps, simp)
  then show ?thesis by (simp add: FIPS_H_eq)
qed

subsection \<open>The context\<close>

definition sha256_absorbed :: "SHA256_CTX \<Rightarrow> buffer \<Rightarrow> bool" where
  "sha256_absorbed c m \<longleftrightarrow>
     length (s256_data c) = 64 \<and> unat (s256_datalen c) = length m mod 64 \<and> take (length m mod 64) (s256_data c) = rest m
     \<and> s256_bitlen c = of_nat (512 * (length m div 64)) \<and> s256_state c = hash_blocks FIPS_compress FIPS_H m"

lemma sha256_init: "length junk = 64 \<Longrightarrow> sha256_absorbed (SHA256_Init junk) []"
  by (simp add: sha256_absorbed_def SHA256_Init_def FIPS_H_eq)

lemma sha256_add_absorbed:
  assumes "sha256_absorbed c m"
  shows "sha256_absorbed (sha256_add c b) (m @ [b])"
proof -
  let ?r = "length m mod 64"
  have r: "?r < 64" by simp
  have data: "take (Suc ?r) ((s256_data c)[?r := b]) = rest m @ [b]"
    using assms r by (simp add: sha256_absorbed_def take_Suc_conv_app_nth)
  have len: "unat (s256_datalen c + 1) = Suc ?r"
    using assms r by (simp add: sha256_absorbed_def unat_word_ariths)
  show ?thesis
  proof (cases "?r = 63")
    case True
    with len have "s256_datalen c + 1 = 64" by (simp add: word_unat_eq_iff)
    moreover have "(s256_data c)[?r := b] = rest m @ [b]" using data True assms by (simp add: sha256_absorbed_def)
    ultimately show ?thesis using assms True
      by (simp add: sha256_add_def sha256_absorbed_def sha256_transform_FIPS hash_blocks_byte mod_Suc div_Suc)
  next
    case False
    then have "s256_datalen c + 1 \<noteq> 64" using len by (auto simp: word_unat_eq_iff)
    with False show ?thesis using assms len data
      by (simp add: sha256_add_def sha256_absorbed_def hash_blocks_byte mod_Suc div_Suc)
  qed
qed

lemma sha256_update_loop:
  "length data < 2 ^ 32 \<Longrightarrow> unat i \<le> length data \<Longrightarrow> sha256_absorbed c m \<Longrightarrow>
   \<exists>c'. SHA256_Update_loop c data i = Some c' \<and> sha256_absorbed c' (m @ drop (unat i) data)"
proof (induction "length data - unat i" arbitrary: i c m)
  case 0
  then show ?case by (subst SHA256_Update_loop.simps) simp
next
  case (Suc n)
  then have i: "unat i < length data" by simp
  then have s: "unat (i + 1) = Suc (unat i)" using Suc.prems(1) by (simp add: unat_word_ariths)
  have "sha256_absorbed (sha256_add c (data ! unat i)) (m @ [data ! unat i])" using Suc.prems(3) by (rule sha256_add_absorbed)
  with Suc(1) [of "i + 1" "sha256_add c (data ! unat i)" "m @ [data ! unat i]"] Suc(2) Suc.prems(1) i s
  have "\<exists>c'. SHA256_Update_loop (sha256_add c (data ! unat i)) data (i + 1) = Some c' \<and> sha256_absorbed c' (m @ [data ! unat i] @ drop (Suc (unat i)) data)"
    by simp
  then show ?case using i by (subst SHA256_Update_loop.simps) (simp add: Cons_nth_drop_Suc)
qed

text \<open>For longer pieces the counter wraps before it reaches the length, and the loop never ends.\<close>

lemma sha256_update_short: "SHA256_Update_loop c data i = Some c' \<Longrightarrow> length data < 2 ^ 32"
proof (induction rule: SHA256_Update_loop.raw_induct [rotated 1, consumes 1, case_names step])
  case (step loop ctx data i c')
  have "unat i < 2 ^ 32" using unat_bound [of i] by simp
  with step show ?case by (auto split: if_splits)
qed

lemma sha256_update_diverges: "2 ^ 32 \<le> length data \<Longrightarrow> SHA256_Update_loop c data i = None"
  using sha256_update_short [of c data i] by (cases "SHA256_Update_loop c data i") auto

subsection \<open>The digest\<close>

lemma zero_fill_eq: "i \<le> n \<Longrightarrow> n \<le> length data \<Longrightarrow> zero_fill data i n = take i data @ replicate (n - i) 0 @ drop n data"
proof (induction data i n rule: zero_fill.induct)
  case (1 data i n)
  show ?case
  proof (cases "i < n")
    case True
    with 1 have "zero_fill data i n = take (Suc i) (data[i := 0]) @ replicate (n - Suc i) 0 @ drop n (data[i := 0])"
      by (subst zero_fill.simps) simp
    moreover have "take (Suc i) (data[i := 0]) = take i data @ [0]" using True 1 by (simp add: take_Suc_conv_app_nth)
    moreover have "replicate (n - i) (0 :: u8) = 0 # replicate (n - Suc i) 0" using True by (metis Suc_diff_Suc replicate_Suc)
    ultimately show ?thesis using True by simp
  next
    case False
    with 1 show ?thesis by (subst zero_fill.simps) simp
  qed
qed

lemma sha256_put_length_eq: "length data = 64 \<Longrightarrow> sha256_put_length w data = take 56 data @ be_bytes 8 (unat w)"
proof -
  assume data: "length data = 64"
  then obtain a b c d e f g h where "drop 56 data = [a, b, c, d, e, f, g, h]" using eight [of "drop 56 data"] by auto
  then have eq: "data = take 56 data @ [a, b, c, d, e, f, g, h]" using append_take_drop_id [of 56 data] by simp
  have "sha256_put_length w (p @ [a, b, c, d, e, f, g, h]) = p @ be_bytes 8 (unat w)" if "length p = 56" for p
    using that by (simp add: sha256_put_length_def list_update_append be_bytes_word upt_rec)
  from this [of "take 56 data"] data show ?thesis by (subst eq) simp
qed

lemma sha256_output_eq: "length H = 8 \<Longrightarrow> sha256_output H = concat (map (\<lambda>w. be_bytes 4 (unat w)) H)"
proof -
  assume "length H = 8"
  moreover have "(ucast (drop_bit n (w :: u32) AND 255) :: u8) = ucast (drop_bit n w)" for n w
  proof -
    have "drop_bit n w AND 255 = take_bit 8 (drop_bit n w)" by (simp add: take_bit_eq_mask mask_numeral)
    then show ?thesis by (simp only:) (rule bit_word_eqI, auto simp: bit_simps)
  qed
  ultimately show ?thesis
    by (subst (2) eight) (simp_all add: sha256_output_def be_bytes_word upt_rec)
qed

lemma sha256_bits:
  assumes "sha256_absorbed c m" "length m < 2 ^ 61"
  shows "unat (s256_bitlen c + ucast (s256_datalen c * 8)) = 8 * length m"
proof -
  have r: "unat (s256_datalen c) = length m mod 64" using assms by (simp add: sha256_absorbed_def)
  have lt: "length m mod 64 < 64" by simp
  have "unat (s256_datalen c * 8) = 8 * (length m mod 64)" using r lt by (simp add: unat_word_ariths)
  then have "unat (ucast (s256_datalen c * 8) :: u64) = 8 * (length m mod 64)" by (simp add: unat_ucast_up)
  then have tail: "(ucast (s256_datalen c * 8) :: u64) = of_nat (8 * (length m mod 64))" by (metis of_nat_unat ucast_id)
  have "512 * (length m div 64) + 8 * (length m mod 64) = 8 * length m"
    using mult_div_mod_eq [of 64 "length m"] by linarith
  then have "s256_bitlen c + ucast (s256_datalen c * 8) = of_nat (8 * length m)"
    using assms(1) unfolding tail sha256_absorbed_def by (metis of_nat_add)
  then show ?thesis using assms(2) by (simp add: unat_of_nat take_bit_nat_eq_self del: of_nat_mult)
qed

lemma sha256_final:
  assumes c: "sha256_absorbed c m" and len: "length m < 2 ^ 61"
  shows "SHA256_Final c = SHA256 m"
proof -
  let ?r = "length m mod 64" and ?H = "hash_blocks FIPS_compress FIPS_H m"
  let ?bits = "s256_bitlen c + ucast (s256_datalen c * 8)"
  have r: "?r < 64" by simp
  have f: "length (s256_data c) = 64" "unat (s256_datalen c) = ?r" "take ?r (s256_data c) = rest m" "s256_state c = ?H"
    using c by (simp_all add: sha256_absorbed_def)
  have bits: "unat ?bits = 8 * length m" using c len by (rule sha256_bits)
  have start: "take (?r + 1) ((s256_data c)[?r := 128]) = rest m @ [128]"
    using f r by (simp add: take_Suc_conv_app_nth)
  have "SHA256 m = sha256_output
       (if ?r < 56
        then FIPS_compress ?H (rest m @ [128] @ replicate (55 - ?r) 0 @ be_bytes 8 (8 * length m))
        else FIPS_compress (FIPS_compress ?H (rest m @ [128] @ replicate (63 - ?r) 0)) (replicate 56 0 @ be_bytes 8 (8 * length m)))"
    by (simp add: SHA256_def hash_digest_rest sha256_output_eq)
  moreover have "s256_datalen c < 56 \<longleftrightarrow> ?r < 56" using f by (simp add: word_less_nat_alt)
  moreover have "zero_fill ((s256_data c)[?r := 128]) (?r + 1) 56 = rest m @ [128] @ replicate (55 - ?r) 0 @ drop 56 ((s256_data c)[?r := 128])"
    if "?r < 56" using that f start by (subst zero_fill_eq) simp_all
  moreover have "zero_fill ((s256_data c)[?r := 128]) (?r + 1) 64 = rest m @ [128] @ replicate (63 - ?r) 0"
    using r f start by (subst zero_fill_eq) simp_all
  moreover have "take (56 - ?r) (128 # replicate (55 - ?r) 0 @ xs) = 128 # replicate (55 - ?r) (0 :: u8)" if "?r < 56" for xs
    using that by (simp add: take_Cons')
  ultimately show ?thesis using f r
    by (simp add: SHA256_Final_def Let_def sha256_transform_FIPS sha256_put_length_eq bits zero_fill_eq)
qed

interpretation sha256: streaming_hash "SHA256_Init (replicate 64 0)" SHA256_Update SHA256_Final sha256_absorbed
  "\<lambda>n. n < 2 ^ 32" "\<lambda>n. n < 2 ^ 61" SHA256
proof
  show "\<exists>c'. SHA256_Update c p = Some c' \<and> sha256_absorbed c' (m @ p)" if "sha256_absorbed c m" "length p < 2 ^ 32" for c m p
    using sha256_update_loop [of p 0 c m] that by (simp add: SHA256_Update_def)
qed (simp_all add: sha256_init sha256_final)

text \<open>C24. The digest is SHA-256. A context that is initialised and then fed with the pieces of a message yields, however the message
  was cut, the digest FIPS 180-4 prescribes for the whole message, provided no piece has \<open>2 ^ 32\<close> bytes or more and the message
  fewer than \<open>2 ^ 61\<close>. The standard is stated with its own constants, the bits of the cube roots of the first 64 primes and of the
  square roots of the first eight, which the tables of the code are shown to hold.\<close>

theorem sha256_streaming_correct:
  assumes "\<And>p. p \<in> set ps \<Longrightarrow> length p < 2 ^ 32" and "length (concat ps) < 2 ^ 61"
  shows "map_option SHA256_Final (feed SHA256_Update (SHA256_Init (replicate 64 0)) ps) = Some (SHA256 (concat ps))"
  using assms by (rule sha256.pieces)

theorem sha256_streaming_correct_witness:
  "map_option SHA256_Final (feed SHA256_Update (SHA256_Init (replicate 64 0)) [bytes ''a'', bytes ''bc'']) = Some (SHA256 (bytes ''abc''))"
proof -
  have "length p < 2 ^ 32" if "p \<in> set [bytes ''a'', bytes ''bc'']" for p :: buffer using that by auto
  then show ?thesis using sha256_streaming_correct [of "[bytes ''a'', bytes ''bc'']"] by simp
qed

text \<open>\<^verbatim>\<open>SHA256_Update\<close> returns exactly for pieces of fewer than \<open>2 ^ 32\<close> bytes: for a longer one its 32-bit counter wraps before it
  reaches the length, and the loop reads the piece again for ever.\<close>

lemma sha256_update_returns:
  "SHA256_Update c data \<noteq> None \<longleftrightarrow> length data < 2 ^ 32"
proof -
  have "SHA256_Update_loop c data i \<noteq> None" if "length data < 2 ^ 32" "unat i \<le> length data" for i
    using that
  proof (induction "length data - unat i" arbitrary: i c)
    case 0
    then show ?case by (subst SHA256_Update_loop.simps) simp
  next
    case (Suc n)
    then have "unat (i + 1) = Suc (unat i)" by (simp add: unat_word_ariths)
    with Suc show ?case by (subst SHA256_Update_loop.simps) simp
  qed
  then show ?thesis using sha256_update_diverges [of data c 0]
    by (cases "length data < 2 ^ 32") (simp_all add: SHA256_Update_def)
qed

end
