(* ===== verification/Sha1.thy ===== *)
theory Sha1
  imports Sha256
begin

text \<open>
  SHA-1, \<^verbatim>\<open>src/hash/sha1.cpp\<close>, on a little-endian machine.

  The buffer of the context is an array of sixteen 32-bit words that is also written byte by byte: \<open>set_byte\<close> writes one byte of a
  word of memory. Hashing a block expands the schedule in place, in the same sixteen words. The length of the message is counted in
  a 32-bit number of bytes.
\<close>

subsection \<open>The code\<close>

definition SHA1_K0 :: u32 where "SHA1_K0 = 0x5A827999"
definition SHA1_K20 :: u32 where "SHA1_K20 = 0x6ED9EBA1"
definition SHA1_K40 :: u32 where "SHA1_K40 = 0x8F1BBCDC"
definition SHA1_K60 :: u32 where "SHA1_K60 = 0xCA62C1D6"

record SHA1_CTX =
  s1_buffer :: "u32 list"
  s1_state :: "u32 list"
  s1_byte_count :: u32
  s1_buffer_offset :: u8

definition sha1_rol32 :: "u32 \<Rightarrow> nat \<Rightarrow> u32" where
  "sha1_rol32 number bits = push_bit bits number OR drop_bit (32 - bits) number"

type_synonym regs5 = "u32 \<times> u32 \<times> u32 \<times> u32 \<times> u32"

fun sha1_step :: "nat \<Rightarrow> u32 list \<times> regs5 \<Rightarrow> u32 list \<times> regs5" where
  "sha1_step i (buffer, a, b, c, d, e) =
     (let buffer = (if i \<ge> 16
                    then buffer[i mod 16 := sha1_rol32 (buffer ! ((i + 13) mod 16) XOR buffer ! ((i + 8) mod 16)
                                                        XOR buffer ! ((i + 2) mod 16) XOR buffer ! (i mod 16)) 1]
                    else buffer);
          t = (if i < 20 then (d XOR (b AND (c XOR d))) + SHA1_K0
               else if i < 40 then (b XOR c XOR d) + SHA1_K20
               else if i < 60 then ((b AND c) OR (d AND (b OR c))) + SHA1_K40
               else (b XOR c XOR d) + SHA1_K60);
          t = t + (sha1_rol32 a 5 + e + buffer ! (i mod 16))
      in (buffer, t, a, sha1_rol32 b 30, c, d))"

definition sha1_hashBlock :: "SHA1_CTX \<Rightarrow> SHA1_CTX" where
  "sha1_hashBlock s =
     (let st = s1_state s in
      case fold sha1_step [0..<80] (s1_buffer s, st ! 0, st ! 1, st ! 2, st ! 3, st ! 4) of
        (buffer, a, b, c, d, e) \<Rightarrow>
          s\<lparr>s1_buffer := buffer, s1_state := [st ! 0 + a, st ! 1 + b, st ! 2 + c, st ! 3 + d, st ! 4 + e]\<rparr>)"

definition set_byte :: "u32 list \<Rightarrow> nat \<Rightarrow> u8 \<Rightarrow> u32 list" where
  "set_byte buffer n b =
     buffer[n div 4 := (buffer ! (n div 4) AND NOT (push_bit (8 * (n mod 4)) 255)) OR push_bit (8 * (n mod 4)) (ucast b)]"

definition sha1_addUncounted :: "SHA1_CTX \<Rightarrow> u8 \<Rightarrow> SHA1_CTX" where
  "sha1_addUncounted s data =
     (let s = s\<lparr>s1_buffer := set_byte (s1_buffer s) (unat (s1_buffer_offset s XOR 3)) data,
                s1_buffer_offset := s1_buffer_offset s + 1\<rparr>
      in if s1_buffer_offset s = 64 then (sha1_hashBlock s)\<lparr>s1_buffer_offset := 0\<rparr> else s)"

definition sha1_updatebyte :: "SHA1_CTX \<Rightarrow> u8 \<Rightarrow> SHA1_CTX" where
  "sha1_updatebyte s data = sha1_addUncounted (s\<lparr>s1_byte_count := s1_byte_count s + 1\<rparr>) data"

partial_function (option) sha1_pad_loop :: "SHA1_CTX \<Rightarrow> SHA1_CTX option" where
  "sha1_pad_loop s = (if s1_buffer_offset s \<noteq> 56 then sha1_pad_loop (sha1_addUncounted s 0) else Some s)"

definition sha1_pad :: "SHA1_CTX \<Rightarrow> SHA1_CTX option" where
  "sha1_pad s =
     map_option (\<lambda>s.
       let s = sha1_addUncounted s 0;
           s = sha1_addUncounted s 0;
           s = sha1_addUncounted s 0;
           s = sha1_addUncounted s (ucast (drop_bit 29 (s1_byte_count s)));
           s = sha1_addUncounted s (ucast (drop_bit 21 (s1_byte_count s)));
           s = sha1_addUncounted s (ucast (drop_bit 13 (s1_byte_count s)));
           s = sha1_addUncounted s (ucast (drop_bit 5 (s1_byte_count s)))
       in sha1_addUncounted s (ucast (push_bit 3 (s1_byte_count s))))
     (sha1_pad_loop (sha1_addUncounted s 0x80))"

text \<open>The buffer has no value before it is written; \<open>junk\<close> stands for what it holds.\<close>

definition SHA1_Init :: "u32 list \<Rightarrow> SHA1_CTX" where
  "SHA1_Init junk =
     \<lparr>s1_buffer = junk, s1_state = [0x67452301, 0xEFCDAB89, 0x98BADCFE, 0x10325476, 0xC3D2E1F0], s1_byte_count = 0, s1_buffer_offset = 0\<rparr>"

fun SHA1_Update :: "SHA1_CTX \<Rightarrow> buffer \<Rightarrow> SHA1_CTX" where
  "SHA1_Update s [] = s"
| "SHA1_Update s (b # data) = SHA1_Update (sha1_updatebyte s b) data"

definition sha1_swap :: "u32 \<Rightarrow> u32" where
  "sha1_swap w = (push_bit 24 w AND 0xFF000000) OR (push_bit 8 w AND 0x00FF0000) OR (drop_bit 8 w AND 0x0000FF00) OR (drop_bit 24 w AND 0x000000FF)"

text \<open>The bytes of the state as they are in memory.\<close>

definition word_memory :: "u32 \<Rightarrow> buffer" where
  "word_memory w = [ucast w, ucast (drop_bit 8 w), ucast (drop_bit 16 w), ucast (drop_bit 24 w)]"

definition SHA1_Final :: "SHA1_CTX \<Rightarrow> buffer option" where
  "SHA1_Final s = map_option (\<lambda>s. concat (map word_memory (map sha1_swap (s1_state s)))) (sha1_pad s)"

subsection \<open>The standard\<close>

fun SHA1_W :: "buffer \<Rightarrow> nat \<Rightarrow> u32" where
  "SHA1_W blk t =
     (if t < 16 then be_word blk t
      else word_rotl 1 (SHA1_W blk (t - 3) XOR SHA1_W blk (t - 8) XOR SHA1_W blk (t - 14) XOR SHA1_W blk (t - 16)))"

declare SHA1_W.simps [simp del]

text \<open>The constants are the square roots of 2, 3, 5 and 10, to thirty binary places.\<close>

definition SHA1_K :: "nat \<Rightarrow> u32" where
  "SHA1_K t = of_nat (isqrt ((if t < 20 then 2 else if t < 40 then 3 else if t < 60 then 5 else 10) * 2 ^ 60))"

definition SHA1_f :: "nat \<Rightarrow> u32 \<Rightarrow> u32 \<Rightarrow> u32 \<Rightarrow> u32" where
  "SHA1_f t x y z =
     (if t < 20 then (x AND y) XOR (NOT x AND z)
      else if 40 \<le> t \<and> t < 60 then (x AND y) XOR (x AND z) XOR (y AND z)
      else x XOR y XOR z)"

primrec SHA1_rounds :: "buffer \<Rightarrow> regs5 \<Rightarrow> nat \<Rightarrow> regs5" where
  "SHA1_rounds blk r 0 = r"
| "SHA1_rounds blk r (Suc t) =
     (case SHA1_rounds blk r t of (a, b, c, d, e) \<Rightarrow>
        (word_rotl 5 a + SHA1_f t b c d + e + SHA1_K t + SHA1_W blk t, a, word_rotl 30 b, c, d))"

definition SHA1_compress :: "u32 list \<Rightarrow> buffer \<Rightarrow> u32 list" where
  "SHA1_compress H blk =
     (case SHA1_rounds blk (H ! 0, H ! 1, H ! 2, H ! 3, H ! 4) 80 of (a, b, c, d, e) \<Rightarrow> map2 (+) H [a, b, c, d, e])"

definition SHA1_H :: "u32 list" where
  "SHA1_H = [0x67452301, 0xEFCDAB89, 0x98BADCFE, 0x10325476, 0xC3D2E1F0]"

definition SHA1 :: "buffer \<Rightarrow> buffer" where
  "SHA1 = hash_digest SHA1_compress SHA1_H (\<lambda>H. concat (map (\<lambda>w. be_bytes 4 (unat w)) H)) (be_bytes 8)"

subsection \<open>The compression function\<close>

lemma SHA1_K_eq: "SHA1_K t = (if t < 20 then SHA1_K0 else if t < 40 then SHA1_K20 else if t < 60 then SHA1_K40 else SHA1_K60)"
proof -
  have "isqrt (2 * 2 ^ 60) = 0x5a827999" "isqrt (3 * 2 ^ 60) = 0x6ed9eba1" "isqrt (5 * 2 ^ 60) = 0x8f1bbcdc" "isqrt (10 * 2 ^ 60) = 0xca62c1d6"
    unfolding isqrt_def by (rule Max_power_eqI; simp)+
  then show ?thesis by (simp add: SHA1_K_def SHA1_K0_def SHA1_K20_def SHA1_K40_def SHA1_K60_def)
qed

lemma sha1_rol32_rotl: "0 < n \<Longrightarrow> n < 32 \<Longrightarrow> sha1_rol32 w n = word_rotl n w"
  by (simp add: sha1_rol32_def rotl_shifts)

lemma sha1_f_eq:
  "(d XOR (b AND (c XOR d))) = (b AND c) XOR (NOT b AND (d :: u32))"
  "((b AND c) OR (d AND (b OR c))) = (b AND c) XOR (b AND d) XOR (c AND (d :: u32))"
  by (rule bit_word_eqI, auto simp: bit_simps)+

text \<open>The circular buffer: after the words before \<open>n\<close> have been used it holds the last sixteen words of the schedule.\<close>

definition window :: "buffer \<Rightarrow> nat \<Rightarrow> u32 list \<Rightarrow> bool" where
  "window blk n buf \<longleftrightarrow> length buf = 16 \<and> (\<forall>s. s < max 16 n \<longrightarrow> max 16 n \<le> s + 16 \<longrightarrow> buf ! (s mod 16) = SHA1_W blk s)"

lemma window_nth: "window blk n buf \<Longrightarrow> s < max 16 n \<Longrightarrow> max 16 n \<le> s + 16 \<Longrightarrow> buf ! (s mod 16) = SHA1_W blk s"
  by (simp add: window_def)

lemma window_step:
  assumes "window blk n buf" "16 \<le> n"
  shows "window blk (Suc n) (buf[n mod 16 := sha1_rol32 (buf ! ((n + 13) mod 16) XOR buf ! ((n + 8) mod 16)
                                                        XOR buf ! ((n + 2) mod 16) XOR buf ! (n mod 16)) 1])"
proof -
  have shift: "(n + j) mod 16 = (n - (16 - j)) mod 16" if "j \<le> 16" for j
  proof -
    have "n + j = (n - (16 - j)) + 16" using that assms(2) by simp
    then show ?thesis by (simp only: mod_add_self2)
  qed
  have prev: "buf ! ((n + j) mod 16) = SHA1_W blk (n - (16 - j))" if "j < 16" for j
    using window_nth [OF assms(1), of "n - (16 - j)"] shift [of j] that assms(2) by simp
  have "buf ! ((n + 13) mod 16) = SHA1_W blk (n - 3)" "buf ! ((n + 8) mod 16) = SHA1_W blk (n - 8)"
    "buf ! ((n + 2) mod 16) = SHA1_W blk (n - 14)" "buf ! (n mod 16) = SHA1_W blk (n - 16)"
    using prev [of 13] prev [of 8] prev [of 2] prev [of 0] by simp_all
  then have w: "sha1_rol32 (buf ! ((n + 13) mod 16) XOR buf ! ((n + 8) mod 16) XOR buf ! ((n + 2) mod 16) XOR buf ! (n mod 16)) 1 = SHA1_W blk n"
    using assms(2) by (subst SHA1_W.simps) (simp add: sha1_rol32_rotl)
  have ne: False if "n mod 16 = s mod 16" "s < n" "n \<le> 15 + s" for s
  proof -
    have "16 dvd n - s" using that mod_eq_dvd_iff_nat [of s n 16] by simp
    then have "16 \<le> n - s" using that by (intro dvd_imp_le) simp_all
    then show False using that by simp
  qed
  with assms show ?thesis unfolding w by (auto simp: window_def nth_list_update less_Suc_eq dest: ne)
qed

lemma regs5_cases: obtains a b c d e where "r = (a, b, c, d, e)"
  by (metis surj_pair)

lemma sha1_steps:
  assumes "window blk 0 buf" "n \<le> 80"
  shows "\<exists>buf'. fold sha1_step [0..<n] (buf, r) = (buf', SHA1_rounds blk r n) \<and> window blk n buf'"
  using assms(2)
proof (induction n)
  case 0
  then show ?case using assms(1) by simp
next
  case (Suc n)
  then obtain buf' where f: "fold sha1_step [0..<n] (buf, r) = (buf', SHA1_rounds blk r n)" and w: "window blk n buf'" by auto
  define nbuf where "nbuf = (if n \<ge> 16
      then buf'[n mod 16 := sha1_rol32 (buf' ! ((n + 13) mod 16) XOR buf' ! ((n + 8) mod 16) XOR buf' ! ((n + 2) mod 16) XOR buf' ! (n mod 16)) 1]
      else buf')"
  have nw: "window blk (Suc n) nbuf"
    using window_step [OF w] w by (cases "n \<ge> 16") (auto simp: nbuf_def window_def max_def)
  then have wn: "nbuf ! (n mod 16) = SHA1_W blk n" by (rule window_nth) auto
  obtain a b c d e where r: "SHA1_rounds blk r n = (a, b, c, d, e)" by (rule regs5_cases)
  have "sha1_step n (buf', a, b, c, d, e) = (nbuf, SHA1_rounds blk r (Suc n))"
    using wn unfolding sha1_step.simps Let_def nbuf_def [symmetric]
    by (simp add: r SHA1_K_eq SHA1_f_def sha1_rol32_rotl sha1_f_eq algebra_simps)
  with f r nw show ?case by simp
qed

lemma five: "length xs = 5 \<Longrightarrow> xs = [xs ! 0, xs ! 1, xs ! 2, xs ! 3, xs ! 4]"
  by (rule nth_equalityI) (auto simp: numeral_eq_Suc less_Suc_eq)

lemma sha1_hashBlock_spec:
  assumes "length (s1_buffer s) = 16" "length (s1_state s) = 5" "\<And>i. i < 16 \<Longrightarrow> s1_buffer s ! i = be_word blk i"
  shows "\<exists>buf. sha1_hashBlock s = s\<lparr>s1_buffer := buf, s1_state := SHA1_compress (s1_state s) blk\<rparr> \<and> length buf = 16"
proof -
  let ?s = "s1_state s"
  have "window blk 0 (s1_buffer s)" using assms by (simp add: window_def SHA1_W.simps)
  from sha1_steps [OF this, of 80 "(?s ! 0, ?s ! 1, ?s ! 2, ?s ! 3, ?s ! 4)"]
  obtain buf where f: "fold sha1_step [0..<80] (s1_buffer s, ?s ! 0, ?s ! 1, ?s ! 2, ?s ! 3, ?s ! 4)
      = (buf, SHA1_rounds blk (?s ! 0, ?s ! 1, ?s ! 2, ?s ! 3, ?s ! 4) 80)" "length buf = 16"
    by (auto simp: window_def)
  obtain s0 s1 s2 s3 s4 where "?s = [s0, s1, s2, s3, s4]" using five [OF assms(2)] by blast
  moreover obtain a b c d e where "SHA1_rounds blk (?s ! 0, ?s ! 1, ?s ! 2, ?s ! 3, ?s ! 4) 80 = (a, b, c, d, e)" by (rule regs5_cases)
  ultimately show ?thesis using f by (intro exI [of _ buf]) (simp add: sha1_hashBlock_def SHA1_compress_def Let_def)
qed

lemma length_SHA1_blocks [simp]: "length (hash_blocks SHA1_compress SHA1_H m) = 5"
proof -
  have "length st = 5 \<Longrightarrow> length (hash_blocks f st m) = 5" if "\<And>st b. length st = 5 \<Longrightarrow> length (f st b) = 5" for f :: "u32 list \<Rightarrow> buffer \<Rightarrow> u32 list" and st
    using that by (induction f st m rule: hash_blocks.induct) (subst hash_blocks.simps, simp)
  moreover have "length (SHA1_compress st b) = 5" if "length st = 5" for st b
    using that by (simp add: SHA1_compress_def split: prod.splits)
  ultimately show ?thesis by (simp add: SHA1_H_def)
qed

subsection \<open>Bytes of the buffer\<close>

definition buffer_bytes :: "u32 list \<Rightarrow> buffer" where
  "buffer_bytes buf = map (\<lambda>n. ucast (drop_bit (24 - 8 * (n mod 4)) (buf ! (n div 4)))) [0..<64]"

lemma length_buffer_bytes [simp]: "length (buffer_bytes buf) = 64"
  by (simp add: buffer_bytes_def)

lemma be_word_buffer: "i < 16 \<Longrightarrow> be_word (buffer_bytes buf) i = buf ! i"
proof -
  assume i: "i < 16"
  have "buffer_bytes buf ! (4 * i + j) = ucast (drop_bit (24 - 8 * j) (buf ! i))" if "j < 4" for j
    using that i by (simp add: buffer_bytes_def)
  from this [of 0] this [of 1] this [of 2] this [of 3] have "be_word (buffer_bytes buf) i =
     push_bit 24 (ucast (ucast (drop_bit 24 (buf ! i)) :: u8)) OR push_bit 16 (ucast (ucast (drop_bit 16 (buf ! i)) :: u8))
     OR push_bit 8 (ucast (ucast (drop_bit 8 (buf ! i)) :: u8)) OR ucast (ucast (buf ! i) :: u8)"
    by (simp add: be_word_def)
  also have "\<dots> = buf ! i"
  proof (rule bit_word_eqI)
    fix n
    assume "n < LENGTH(32)"
    then consider "n < 8" | "8 \<le> n" "n < 16" | "16 \<le> n" "n < 24" | "24 \<le> n" "n < 32" by fastforce
    then show "bit (push_bit 24 (ucast (ucast (drop_bit 24 (buf ! i)) :: u8)) OR push_bit 16 (ucast (ucast (drop_bit 16 (buf ! i)) :: u8))
     OR push_bit 8 (ucast (ucast (drop_bit 8 (buf ! i)) :: u8)) OR ucast (ucast (buf ! i) :: u8) :: u32) n = bit (buf ! i) n"
      by cases (auto simp: bit_simps)
  qed
  finally show ?thesis .
qed

lemma xor_3: "n < 64 \<Longrightarrow> (n XOR 3) div 4 = n div 4 \<and> (n XOR 3) mod 4 = 3 - n mod (4 :: nat)"
proof -
  have "list_all (\<lambda>n. (n XOR 3) div 4 = n div 4 \<and> (n XOR 3) mod 4 = 3 - n mod (4 :: nat)) [0..<64]" by code_simp
  then show "n < 64 \<Longrightarrow> (n XOR 3) div 4 = n div 4 \<and> (n XOR 3) mod 4 = 3 - n mod (4 :: nat)" by (simp add: list_all_iff)
qed

lemma byte_of_set:
  assumes "a < 4" "c < 4"
  shows "(ucast (drop_bit (24 - 8 * a) ((w AND NOT (push_bit (8 * (3 - c)) 255)) OR push_bit (8 * (3 - c)) (ucast b))) :: u8) =
    (if a = c then b else ucast (drop_bit (24 - 8 * a) (w :: u32)))"
proof -
  have m: "(255 :: u32) = mask 8" by (simp add: mask_numeral)
  have bits: "bit (push_bit k (ucast b :: u32)) n \<longleftrightarrow> n < 32 \<and> k \<le> n \<and> bit b (n - k)"
    "bit (push_bit k (mask 8 :: u32)) n \<longleftrightarrow> n < 32 \<and> k \<le> n \<and> n - k < 8" for k n
    by (auto simp: bit_simps)
  have "bit (ucast (drop_bit (24 - 8 * a) ((w AND NOT (push_bit (8 * (3 - c)) 255)) OR push_bit (8 * (3 - c)) (ucast b))) :: u8) k =
     bit (if a = c then b else ucast (drop_bit (24 - 8 * a) w)) k" if k: "k < 8" for k
  proof -
    let ?q = "24 - 8 * a + k"
    have q: "?q < 32" "8 * (3 - c) \<le> ?q \<and> ?q - 8 * (3 - c) < 8 \<longleftrightarrow> a = c" "a = c \<Longrightarrow> ?q - 8 * (3 - c) = k"
      "8 * (3 - c) \<le> ?q \<Longrightarrow> bit b (?q - 8 * (3 - c)) \<Longrightarrow> a = c"
      using assms k bit_imp_le_length [of b "?q - 8 * (3 - c)"] by auto
    have "bit (ucast (drop_bit (24 - 8 * a) ((w AND NOT (push_bit (8 * (3 - c)) 255)) OR push_bit (8 * (3 - c)) (ucast b))) :: u8) k \<longleftrightarrow>
      (bit w ?q \<and> \<not> (8 * (3 - c) \<le> ?q \<and> ?q - 8 * (3 - c) < 8)) \<or> (8 * (3 - c) \<le> ?q \<and> bit b (?q - 8 * (3 - c)))"
      using k q(1) by (simp add: m bits bit_ucast_iff bit_drop_bit_eq bit_or_iff bit_and_iff bit_not_iff)
    also have "\<dots> \<longleftrightarrow> bit (if a = c then b else ucast (drop_bit (24 - 8 * a) w)) k"
      using q k by (auto simp: bit_ucast_iff bit_drop_bit_eq)
    finally show ?thesis .
  qed
  then show ?thesis by (intro bit_word_eqI) simp
qed

lemma set_byte_bytes:
  assumes "length buf = 16" "n < 64"
  shows "buffer_bytes (set_byte buf (n XOR 3) b) = (buffer_bytes buf)[n := b]"
proof (rule nth_equalityI)
  fix j
  assume "j < length (buffer_bytes (set_byte buf (n XOR 3) b))"
  then have j: "j < 64" by simp
  have p: "(n XOR 3) div 4 = n div 4" "(n XOR 3) mod 4 = 3 - n mod 4" using xor_3 [OF assms(2)] by simp_all
  show "buffer_bytes (set_byte buf (n XOR 3) b) ! j = (buffer_bytes buf)[n := b] ! j"
  proof (cases "j div 4 = n div 4")
    case True
    then have "n = j \<longleftrightarrow> j mod 4 = n mod 4" by (metis div_mod_decomp)
    with True show ?thesis using assms j p byte_of_set [of "j mod 4" "n mod 4" "buf ! (n div 4)" b]
      by (simp add: buffer_bytes_def set_byte_def nth_list_update)
  next
    case False
    then have "n \<noteq> j" by auto
    with False show ?thesis using assms j p by (simp add: buffer_bytes_def set_byte_def nth_list_update)
  qed
qed simp

subsection \<open>The context\<close>

definition sha1_holds :: "SHA1_CTX \<Rightarrow> buffer \<Rightarrow> bool" where
  "sha1_holds c m \<longleftrightarrow>
     length (s1_buffer c) = 16 \<and> unat (s1_buffer_offset c) = length m mod 64
     \<and> take (length m mod 64) (buffer_bytes (s1_buffer c)) = rest m \<and> s1_state c = hash_blocks SHA1_compress SHA1_H m"

lemma sha1_addUncounted_count [simp]: "s1_byte_count (sha1_addUncounted c b) = s1_byte_count c"
  by (simp add: sha1_addUncounted_def sha1_hashBlock_def Let_def split: prod.splits)

lemma length_set_byte [simp]: "length (set_byte buf n b) = length buf"
  by (simp add: set_byte_def)

lemma sha1_add_holds:
  assumes c: "sha1_holds c m"
  shows "sha1_holds (sha1_addUncounted c b) (m @ [b])"
proof -
  let ?r = "length m mod 64"
  let ?buf = "set_byte (s1_buffer c) (unat (s1_buffer_offset c XOR 3)) b"
  have r: "?r < 64" by simp
  have len: "length (s1_buffer c) = 16" "unat (s1_buffer_offset c) = ?r" using c by (simp_all add: sha1_holds_def)
  have off: "unat (s1_buffer_offset c + 1) = Suc ?r" using len r by (simp add: unat_word_ariths)
  have "unat (s1_buffer_offset c XOR 3) = ?r XOR 3" using len by (simp add: unsigned_xor_eq)
  then have bytes: "buffer_bytes ?buf = (buffer_bytes (s1_buffer c))[?r := b]" using len r by (simp add: set_byte_bytes)
  then have data: "take (Suc ?r) (buffer_bytes ?buf) = rest m @ [b]"
    using c r by (simp add: sha1_holds_def take_Suc_conv_app_nth)
  show ?thesis
  proof (cases "?r = 63")
    case True
    let ?c = "c\<lparr>s1_buffer := ?buf, s1_buffer_offset := s1_buffer_offset c + 1\<rparr>"
    have "buffer_bytes ?buf = rest m @ [b]" using data True by simp
    then have "s1_buffer ?c ! i = be_word (rest m @ [b]) i" if "i < 16" for i using that be_word_buffer [of i ?buf] by simp
    then obtain nb where "sha1_hashBlock ?c = ?c\<lparr>s1_buffer := nb, s1_state := SHA1_compress (s1_state ?c) (rest m @ [b])\<rparr>" "length nb = 16"
      using sha1_hashBlock_spec [of ?c "rest m @ [b]"] c by (auto simp: sha1_holds_def)
    moreover have "s1_buffer_offset c + 1 = 64" using off True by (simp add: word_unat_eq_iff)
    ultimately show ?thesis using c True
      by (simp add: sha1_addUncounted_def sha1_holds_def hash_blocks_byte mod_Suc)
  next
    case False
    then have "s1_buffer_offset c + 1 \<noteq> 64" using off by (auto simp: word_unat_eq_iff)
    with False show ?thesis using c off data
      by (simp add: sha1_addUncounted_def sha1_holds_def hash_blocks_byte mod_Suc)
  qed
qed

definition sha1_absorbed :: "SHA1_CTX \<Rightarrow> buffer \<Rightarrow> bool" where
  "sha1_absorbed c m \<longleftrightarrow> sha1_holds c m \<and> s1_byte_count c = of_nat (length m)"

lemma sha1_init: "length junk = 16 \<Longrightarrow> sha1_absorbed (SHA1_Init junk) []"
  by (simp add: sha1_absorbed_def sha1_holds_def SHA1_Init_def SHA1_H_def)

lemma sha1_update: "sha1_absorbed c m \<Longrightarrow> sha1_absorbed (SHA1_Update c xs) (m @ xs)"
proof (induction xs arbitrary: c m)
  case Nil
  then show ?case by simp
next
  case (Cons b xs)
  have "sha1_holds (c\<lparr>s1_byte_count := s1_byte_count c + 1\<rparr>) m" using Cons.prems by (simp add: sha1_absorbed_def sha1_holds_def)
  then have "sha1_absorbed (sha1_updatebyte c b) (m @ [b])"
    using Cons.prems sha1_add_holds by (auto simp: sha1_absorbed_def sha1_updatebyte_def)
  from Cons.IH [OF this] show ?case by simp
qed

subsection \<open>The digest\<close>

lemma sha1_adds: "sha1_holds c m \<Longrightarrow> sha1_holds (fold (\<lambda>b s. sha1_addUncounted s b) xs c) (m @ xs)"
proof (induction xs arbitrary: c m)
  case (Cons b xs)
  from Cons.IH [OF sha1_add_holds [OF Cons.prems, of b]] show ?case by simp
qed simp

lemma sha1_pad_loop_returns:
  "sha1_holds c m \<Longrightarrow> k = (if length m mod 64 \<le> 56 then 56 - length m mod 64 else 120 - length m mod 64) \<Longrightarrow>
   \<exists>c'. sha1_pad_loop c = Some c' \<and> sha1_holds c' (m @ replicate k 0) \<and> s1_byte_count c' = s1_byte_count c"
proof (induction k arbitrary: c m)
  case 0
  have lt: "length m mod 64 < 64" by simp
  have "length m mod 64 = 56" using lt "0.prems"(2) by (simp split: if_splits)
  then have "s1_buffer_offset c = 56" using 0 by (simp add: sha1_holds_def word_unat_eq_iff)
  then show ?case using 0 by (subst sha1_pad_loop.simps) simp
next
  case (Suc k)
  have lt: "length m mod 64 < 64" by simp
  have ne: "length m mod 64 \<noteq> 56" using Suc.prems(2) by (auto split: if_splits)
  have k: "k = (if length (m @ [0 :: u8]) mod 64 \<le> 56 then 56 - length (m @ [0 :: u8]) mod 64 else 120 - length (m @ [0 :: u8]) mod 64)"
    using Suc.prems(2) ne lt unfolding length_append_singleton mod_Suc
    by (cases "length m mod 64 = 63") (simp_all split: if_splits)
  have "s1_buffer_offset c \<noteq> 56" using ne Suc.prems(1) by (auto simp: sha1_holds_def)
  then have "sha1_pad_loop c = sha1_pad_loop (sha1_addUncounted c 0)" by (subst sha1_pad_loop.simps) simp
  with Suc.IH [OF sha1_add_holds [OF Suc.prems(1), of 0] k] show ?case by simp
qed

lemma sha1_length_bytes:
  assumes "n < 2 ^ 32"
  shows "be_bytes 8 (8 * n) = [0, 0, 0, ucast (drop_bit 29 (of_nat n :: u32)), ucast (drop_bit 21 (of_nat n :: u32)),
     ucast (drop_bit 13 (of_nat n :: u32)), ucast (drop_bit 5 (of_nat n :: u32)), ucast (push_bit 3 (of_nat n :: u32))]"
proof -
  let ?w = "of_nat n :: u32"
  have w: "unat ?w = n" using assms by (simp add: unat_of_nat take_bit_nat_eq_self)
  have shift: "(ucast (drop_bit k ?w) :: u8) = of_nat (n div 2 ^ k)" for k
    by (metis of_nat_unat unat_drop_bit w)
  have low: "(ucast (push_bit 3 ?w) :: u8) = of_nat (8 * n)"
  proof -
    have "push_bit 3 ?w = of_nat (8 * n)" by (simp add: push_bit_eq_mult)
    moreover have "(ucast (of_nat j :: u32) :: u8) = of_nat j" for j
      by (rule word_unat_eq_iff [THEN iffD2]) (simp add: unsigned_ucast_eq unat_of_nat take_bit_eq_mod mod_mod_cancel)
    ultimately show ?thesis by metis
  qed
  have div: "8 * n div 256 ^ k = n div 2 ^ (8 * k - 3)" if "0 < k" for k
  proof -
    have "(256 :: nat) ^ k = 2 ^ (8 * k)" by (simp add: power_mult)
    moreover have "8 * k = 3 + (8 * k - 3)" using that by simp
    moreover have "(2 :: nat) ^ (3 + (8 * k - 3)) = 8 * 2 ^ (8 * k - 3)" by (simp add: power_add)
    ultimately have "(256 :: nat) ^ k = 8 * 2 ^ (8 * k - 3)" by metis
    then show ?thesis by simp
  qed
  have "n div 2 ^ 53 = 0" "n div 2 ^ 45 = 0" "n div 2 ^ 37 = 0" using assms by simp_all
  with shift low div [of 7] div [of 6] div [of 5] div [of 4] div [of 3] div [of 2] div [of 1] show ?thesis
    by (simp add: be_bytes_def upt_rec)
qed

lemma sha1_swap_bytes: "word_memory (sha1_swap w) = be_bytes 4 (unat w)"
proof -
  have m: "(0xFF000000 :: u32) = push_bit 24 (mask 8)" "(0x00FF0000 :: u32) = push_bit 16 (mask 8)" "(0x0000FF00 :: u32) = push_bit 8 (mask 8)"
    "(0x000000FF :: u32) = mask 8"
    by (simp_all add: mask_numeral)
  have "(ucast (drop_bit (8 * i) (sha1_swap w)) :: u8) = ucast (drop_bit (24 - 8 * i) w)" if "i < 4" for i
  proof (rule bit_word_eqI)
    fix k
    assume "k < LENGTH(8)"
    then have k: "k < 8" by simp
    consider "i = 0" | "i = 1" | "i = 2" | "i = 3" using \<open>i < 4\<close> by linarith
    then show "bit (ucast (drop_bit (8 * i) (sha1_swap w)) :: u8) k = bit (ucast (drop_bit (24 - 8 * i) w) :: u8) k"
      using k unfolding sha1_swap_def m by cases (simp_all add: bit_simps)
  qed
  from this [of 0] this [of 1] this [of 2] this [of 3] show ?thesis
    by (simp add: word_memory_def be_bytes_word upt_rec)
qed

lemma sha1_final:
  assumes c: "sha1_absorbed c m" and len: "length m < 2 ^ 32"
  shows "SHA1_Final c = Some (SHA1 m)"
proof -
  let ?r = "length m mod 64" and ?n = "length m"
  let ?z = "replicate ((119 - ?r) mod 64) (0 :: u8)"
  have lt: "?r < 64" by simp
  have "sha1_holds (sha1_addUncounted c 128) (m @ [128])" using c sha1_add_holds by (simp add: sha1_absorbed_def)
  moreover have "(119 - ?r) mod 64 = (if length (m @ [128 :: u8]) mod 64 \<le> 56 then 56 - length (m @ [128 :: u8]) mod 64 else 120 - length (m @ [128 :: u8]) mod 64)"
    using lt unfolding length_append_singleton mod_Suc pad_zeros [OF lt] by (cases "?r = 63") simp_all
  ultimately obtain c1 where c1: "sha1_pad_loop (sha1_addUncounted c 128) = Some c1" "sha1_holds c1 (m @ [128] @ ?z)" "s1_byte_count c1 = s1_byte_count c"
    using sha1_pad_loop_returns [of "sha1_addUncounted c 128" "m @ [128]"] by auto
  have count: "s1_byte_count c = of_nat ?n" using c by (simp add: sha1_absorbed_def)
  let ?c2 = "fold (\<lambda>b s. sha1_addUncounted s b) (be_bytes 8 (8 * ?n)) c1"
  have "sha1_pad c = Some ?c2"
    using c1 count unfolding sha1_length_bytes [OF len] by (simp add: sha1_pad_def Let_def)
  moreover have "sha1_holds ?c2 (pad (be_bytes 8) m)" using sha1_adds [OF c1(2), of "be_bytes 8 (8 * ?n)"] by (simp add: pad_def)
  ultimately show ?thesis
    by (simp add: SHA1_Final_def SHA1_def hash_digest_def sha1_holds_def sha1_swap_bytes comp_def)
qed

interpretation sha1: streaming_hash "SHA1_Init (replicate 16 0)" "\<lambda>c p. Some (SHA1_Update c p)" "\<lambda>c. the (SHA1_Final c)" sha1_absorbed
  "\<lambda>n. True" "\<lambda>n. n < 2 ^ 32" SHA1
  by unfold_locales (simp_all add: sha1_init sha1_update sha1_final)

text \<open>C23. The digest is SHA-1, and asking for it returns. A context fed with the pieces of a message, however it was cut, yields the
  digest of the standard for the whole message of fewer than \<open>2 ^ 32\<close> bytes. The code keeps only sixteen words of the schedule and
  rewrites them while it hashes; the standard is stated with the schedule of eighty words and its constants as square roots.\<close>

theorem sha1_streaming_correct:
  assumes "length (concat ps) < 2 ^ 32"
  shows "Option.bind (feed (\<lambda>c p. Some (SHA1_Update c p)) (SHA1_Init (replicate 16 0)) ps) SHA1_Final = Some (SHA1 (concat ps))"
proof -
  obtain c where "feed (\<lambda>c p. Some (SHA1_Update c p)) (SHA1_Init (replicate 16 0)) ps = Some c" "sha1_absorbed c (concat ps)"
    using sha1.feed_absorbed [OF sha1.init_absorbed] by (metis append_Nil)
  then show ?thesis using sha1_final assms by simp
qed

theorem sha1_streaming_correct_witness:
  "Option.bind (feed (\<lambda>c p. Some (SHA1_Update c p)) (SHA1_Init (replicate 16 0)) [bytes ''a'', bytes ''bc'']) SHA1_Final = Some (SHA1 (bytes ''abc''))"
  using sha1_streaming_correct [of "[bytes ''a'', bytes ''bc'']"] by simp

text \<open>The byte count wraps at \<open>2 ^ 32\<close>: the padding of a message of that length claims that it is empty.\<close>

lemma sha1_count_wraps: "s1_byte_count (SHA1_Update (SHA1_Init junk) m) = of_nat (length m)"
proof -
  have "s1_byte_count (SHA1_Update c m) = s1_byte_count c + of_nat (length m)" for c
    by (induction m arbitrary: c) (simp_all add: sha1_updatebyte_def)
  then show ?thesis by (simp add: SHA1_Init_def)
qed

end
