(* ===== verification/Canon_Output.thy ===== *)
theory Canon_Output
  imports Prelude
begin

text \<open>
  The output of the canonicalisers: \<^verbatim>\<open>CanonOutputT\<close> and \<^verbatim>\<open>RawCanonOutputT\<close> of \<^verbatim>\<open>include/common/uri/url_canon.h\<close>.

  A buffer with a capacity and a length that grows by doubling. What \<^verbatim>\<open>new T[n]\<close> contains is not specified: \<open>fresh n\<close> stands for
  it, and nothing depends on it. An access outside the buffer and an overflow of \<^verbatim>\<open>int\<close> are undefined behaviour. The contract,
  the locale \<open>text_output\<close>, is the one of a list, for texts of up to \<open>2 ^ 30\<close> characters; past that size \<^verbatim>\<open>Grow\<close> gives up and
  the characters are dropped. The theories of the canonicalisers use lists.
\<close>

record 'a CanonOutput =
  co_buffer :: "'a list"
  cur_len :: nat

definition out_at :: "nat \<Rightarrow> 'a CanonOutput \<Rightarrow> 'a exec" where
  "out_at offset out = (if offset < length (co_buffer out) then Inr (co_buffer out ! offset) else Inl Undefined)"

definition out_set :: "nat \<Rightarrow> 'a \<Rightarrow> 'a CanonOutput \<Rightarrow> 'a CanonOutput exec" where
  "out_set offset ch out =
     (if offset < length (co_buffer out) then Inr (out\<lparr>co_buffer := (co_buffer out)[offset := ch]\<rparr>) else Inl Undefined)"

definition out_capacity :: "'a CanonOutput \<Rightarrow> nat" where
  "out_capacity out = length (co_buffer out)"

definition set_length :: "nat \<Rightarrow> 'a CanonOutput \<Rightarrow> 'a CanonOutput" where
  "set_length new_len out = out\<lparr>cur_len := new_len\<rparr>"

definition Resize :: "(nat \<Rightarrow> 'a list) \<Rightarrow> nat \<Rightarrow> 'a CanonOutput \<Rightarrow> 'a CanonOutput" where
  "Resize fresh sz out =
     (let n = min (cur_len out) sz in out\<lparr>co_buffer := take n (co_buffer out) @ drop n (fresh sz)\<rparr>)"

text \<open>The loop starts with a length that is not zero.\<close>

function grow_loop :: "nat \<Rightarrow> nat \<Rightarrow> nat option" where
  "grow_loop need new_len =
     (if new_len = 0 \<or> new_len \<ge> 2 ^ 30 then None
      else if new_len * 2 < need then grow_loop need (new_len * 2) else Some (new_len * 2))"
  by pat_completeness auto

termination
  by (relation "measure (\<lambda>(_, n). 2 ^ 30 - n)") auto

declare grow_loop.simps [simp del]

definition Grow :: "(nat \<Rightarrow> 'a list) \<Rightarrow> nat \<Rightarrow> 'a CanonOutput \<Rightarrow> 'a CanonOutput option" where
  "Grow fresh min_additional out =
     (let kMinBufferLen = 16; buffer_len = out_capacity out in
      map_option (\<lambda>new_len. Resize fresh new_len out)
        (grow_loop (buffer_len + min_additional) (if buffer_len = 0 then kMinBufferLen else buffer_len)))"

definition push_back :: "(nat \<Rightarrow> 'a list) \<Rightarrow> 'a \<Rightarrow> 'a CanonOutput \<Rightarrow> 'a CanonOutput" where
  "push_back fresh ch out =
     (if cur_len out < out_capacity out
      then \<lparr>co_buffer = (co_buffer out)[cur_len out := ch], cur_len = cur_len out + 1\<rparr>
      else case Grow fresh 1 out of
          None \<Rightarrow> out
        | Some out \<Rightarrow> \<lparr>co_buffer = (co_buffer out)[cur_len out := ch], cur_len = cur_len out + 1\<rparr>)"

fun copy_loop :: "nat \<Rightarrow> 'a list \<Rightarrow> 'a list \<Rightarrow> 'a list" where
  "copy_loop i [] buf = buf"
| "copy_loop i (c # cs) buf = copy_loop (i + 1) cs (buf[i := c])"

definition Append :: "(nat \<Rightarrow> 'a list) \<Rightarrow> 'a list \<Rightarrow> 'a CanonOutput \<Rightarrow> 'a CanonOutput exec" where
  "Append fresh str out =
     (let str_len = length str in
      if cur_len out + str_len \<ge> 2 ^ 31 then Inl Undefined
      else
        let grown =
              (if cur_len out + str_len > out_capacity out
               then Grow fresh (cur_len out + str_len - out_capacity out) out else Some out)
        in Inr (case grown of
             None \<Rightarrow> out
           | Some out \<Rightarrow> \<lparr>co_buffer = copy_loop (cur_len out) str (co_buffer out), cur_len = cur_len out + str_len\<rparr>))"

definition ReserveSizeIfNeeded :: "(nat \<Rightarrow> 'a list) \<Rightarrow> nat \<Rightarrow> 'a CanonOutput \<Rightarrow> 'a CanonOutput exec" where
  "ReserveSizeIfNeeded fresh estimated_size out =
     (if estimated_size > out_capacity out
      then if estimated_size + 8 \<ge> 2 ^ 31 then Inl Undefined else Inr (Resize fresh (estimated_size + 8) out)
      else Inr out)"

text \<open>The constructor of \<^verbatim>\<open>RawCanonOutputT\<close>, with the contents of its fixed buffer.\<close>

definition RawCanonOutput_ctor :: "'a list \<Rightarrow> 'a CanonOutput" where
  "RawCanonOutput_ctor fixed_buffer = \<lparr>co_buffer = fixed_buffer, cur_len = 0\<rparr>"

subsection \<open>The contract\<close>

datatype 'a out_op = PushBack 'a | AppendText "'a list" | SetAt nat 'a | Shorten nat | Reserve nat

definition list_op :: "'a out_op \<Rightarrow> 'a list \<Rightarrow> 'a list option" where
  "list_op op xs =
     (case op of
        PushBack c \<Rightarrow> if length xs < 2 ^ 30 then Some (xs @ [c]) else None
      | AppendText s \<Rightarrow> if length xs + length s \<le> 2 ^ 30 then Some (xs @ s) else None
      | SetAt i c \<Rightarrow> if i < length xs then Some (xs[i := c]) else None
      | Shorten n \<Rightarrow> if n \<le> length xs then Some (take n xs) else None
      | Reserve n \<Rightarrow> if n < 2 ^ 30 then Some xs else None)"

fun list_run :: "'a out_op list \<Rightarrow> 'a list \<Rightarrow> 'a list option" where
  "list_run [] xs = Some xs"
| "list_run (op # ops) xs = (case list_op op xs of None \<Rightarrow> None | Some xs \<Rightarrow> list_run ops xs)"

fun exec_run :: "('o \<Rightarrow> 's \<Rightarrow> 's exec) \<Rightarrow> 'o list \<Rightarrow> 's \<Rightarrow> 's exec" where
  "exec_run f [] s = Inr s"
| "exec_run f (op # ops) s = bind_exec (f op s) (exec_run f ops)"

locale text_output =
  fixes ok :: "'s \<Rightarrow> bool" and contents :: "'s \<Rightarrow> 'a list" and exec_op :: "'a out_op \<Rightarrow> 's \<Rightarrow> 's exec"
  assumes step: "ok s \<Longrightarrow> list_op op (contents s) = Some xs \<Longrightarrow> \<exists>s'. exec_op op s = Inr s' \<and> ok s' \<and> contents s' = xs"
begin

lemma run: "ok s \<Longrightarrow> list_run ops (contents s) = Some xs \<Longrightarrow> \<exists>s'. exec_run exec_op ops s = Inr s' \<and> ok s' \<and> contents s' = xs"
proof (induction ops arbitrary: s)
  case (Cons op ops)
  then obtain ys where ys: "list_op op (contents s) = Some ys" "list_run ops ys = Some xs" by (auto split: option.splits)
  obtain s' where "exec_op op s = Inr s'" "ok s'" "contents s' = ys" using step [OF Cons.prems(1) ys(1)] by blast
  then show ?case using Cons.IH [of s'] ys(2) by simp
qed simp

end

definition out_op :: "(nat \<Rightarrow> 'a list) \<Rightarrow> 'a out_op \<Rightarrow> 'a CanonOutput \<Rightarrow> 'a CanonOutput exec" where
  "out_op fresh op out =
     (case op of
        PushBack c \<Rightarrow> Inr (push_back fresh c out)
      | AppendText s \<Rightarrow> Append fresh s out
      | SetAt i c \<Rightarrow> out_set i c out
      | Shorten n \<Rightarrow> Inr (set_length n out)
      | Reserve n \<Rightarrow> ReserveSizeIfNeeded fresh n out)"

definition out_ok :: "(nat \<Rightarrow> 'a list) \<Rightarrow> 'a CanonOutput \<Rightarrow> bool" where
  "out_ok fresh out \<longleftrightarrow> (\<forall>n. length (fresh n) = n) \<and> cur_len out \<le> out_capacity out"

definition out_text :: "'a CanonOutput \<Rightarrow> 'a list" where
  "out_text out = take (cur_len out) (co_buffer out)"

lemma grow_loop_enough:
  "0 < n \<Longrightarrow> n < 2 ^ 30 \<Longrightarrow> need \<le> 2 ^ 30 \<Longrightarrow> \<exists>m. grow_loop need n = Some m \<and> need \<le> m"
proof (induction need n rule: grow_loop.induct)
  case (1 need n)
  show ?case
  proof (cases "n * 2 < need")
    case True
    then show ?thesis using 1 by (subst grow_loop.simps) simp
  qed (use 1 in \<open>subst grow_loop.simps, simp\<close>)
qed

lemma Resize_larger:
  assumes "out_ok fresh out" "cur_len out \<le> sz"
  shows "out_ok fresh (Resize fresh sz out)" "out_text (Resize fresh sz out) = out_text out" "out_capacity (Resize fresh sz out) = sz"
    "cur_len (Resize fresh sz out) = cur_len out"
  using assms by (simp_all add: out_ok_def out_text_def Resize_def out_capacity_def Let_def)

lemma Grow_enough:
  assumes "out_ok fresh out" "0 < k" "out_capacity out + k \<le> 2 ^ 30"
  shows "\<exists>out'. Grow fresh k out = Some out' \<and> cur_len out' = cur_len out \<and> out_capacity out + k \<le> out_capacity out'
    \<and> out_ok fresh out' \<and> out_text out' = out_text out"
proof -
  let ?n = "if out_capacity out = 0 then 16 else out_capacity out"
  have "0 < ?n" "?n < 2 ^ 30" using assms(2,3) by auto
  then obtain m where m: "grow_loop (out_capacity out + k) ?n = Some m" "out_capacity out + k \<le> m"
    using grow_loop_enough [of ?n "out_capacity out + k"] assms(3) by blast
  have "cur_len out \<le> m" using m(2) assms(1) by (simp add: out_ok_def)
  then show ?thesis using Resize_larger [OF assms(1), of m] m by (simp add: Grow_def Let_def)
qed

lemma copy_loop_eq: "i + length s \<le> length buf \<Longrightarrow> copy_loop i s buf = take i buf @ s @ drop (i + length s) buf"
proof (induction s arbitrary: i buf)
  case (Cons c s)
  then show ?case by (simp add: take_Suc_conv_app_nth)
qed simp

lemma write_text:
  assumes "out_ok fresh out" "cur_len out + length s \<le> out_capacity out"
  defines "out' \<equiv> \<lparr>co_buffer = copy_loop (cur_len out) s (co_buffer out), cur_len = cur_len out + length s\<rparr>"
  shows "out_ok fresh out' \<and> out_text out' = out_text out @ s"
  using assms by (simp add: out_ok_def out_text_def out_capacity_def copy_loop_eq)

lemma append_text:
  assumes o: "out_ok fresh out" and s: "length (out_text out) + length s \<le> 2 ^ 30"
  shows "\<exists>out'. Append fresh s out = Inr out' \<and> out_ok fresh out' \<and> out_text out' = out_text out @ s"
proof -
  have n: "length (out_text out) = cur_len out" using o by (simp add: out_text_def out_ok_def out_capacity_def)
  show ?thesis
  proof (cases "cur_len out + length s > out_capacity out")
    case True
    then obtain g where g: "Grow fresh (cur_len out + length s - out_capacity out) out = Some g" "cur_len g = cur_len out"
      "cur_len out + length s \<le> out_capacity g" "out_ok fresh g" "out_text g = out_text out"
      using Grow_enough [OF o, of "cur_len out + length s - out_capacity out"] s n by auto
    then show ?thesis using True write_text [of fresh g s] s n by (simp add: Append_def Let_def)
  qed (use write_text [OF o, of s] s n in \<open>simp add: Append_def Let_def\<close>)
qed

lemma push_text:
  assumes o: "out_ok fresh out" and s: "length (out_text out) < 2 ^ 30"
  shows "out_ok fresh (push_back fresh c out) \<and> out_text (push_back fresh c out) = out_text out @ [c]"
proof -
  have n: "length (out_text out) = cur_len out" using o by (simp add: out_text_def out_ok_def out_capacity_def)
  show ?thesis
  proof (cases "cur_len out < out_capacity out")
    case False
    then have full: "cur_len out = out_capacity out" using o by (simp add: out_ok_def)
    then obtain g where g: "Grow fresh 1 out = Some g" "cur_len g = cur_len out" "cur_len out + 1 \<le> out_capacity g"
      "out_ok fresh g" "out_text g = out_text out" using Grow_enough [OF o, of 1] s n by auto
    then show ?thesis using False write_text [of fresh g "[c]"] by (simp add: push_back_def)
  qed (use write_text [OF o, of "[c]"] in \<open>simp add: push_back_def\<close>)
qed

interpretation canon: text_output "out_ok fresh" out_text "out_op fresh" for fresh :: "nat \<Rightarrow> 'a list"
proof
  fix s :: "'a CanonOutput" and op xs
  assume o: "out_ok fresh s" and l: "list_op op (out_text s) = Some xs"
  have n: "length (out_text s) = cur_len s" using o by (simp add: out_text_def out_ok_def out_capacity_def)
  show "\<exists>s'. out_op fresh op s = Inr s' \<and> out_ok fresh s' \<and> out_text s' = xs"
  proof (cases op)
    case (PushBack c)
    then show ?thesis using l push_text [OF o] by (auto simp: list_op_def out_op_def split: if_splits)
  next
    case (AppendText w)
    then show ?thesis using l append_text [OF o] by (auto simp: list_op_def out_op_def split: if_splits)
  next
    case (SetAt i c)
    then show ?thesis
      using l o n by (auto simp: list_op_def out_op_def out_set_def out_ok_def out_capacity_def out_text_def take_update_swap split: if_splits)
  next
    case (Shorten k)
    then show ?thesis
      using l o n by (auto simp: list_op_def out_op_def set_length_def out_ok_def out_capacity_def out_text_def split: if_splits)
  next
    case (Reserve k)
    then show ?thesis
      using l o Resize_larger [OF o, of "k + 8"] by (auto simp: list_op_def out_op_def ReserveSizeIfNeeded_def out_ok_def split: if_splits)
  qed
qed

subsection \<open>Properties\<close>

text \<open>C32. From an empty output with a fixed buffer of any size, every run of pushes, appends, overwrites, cuts and reservations
  that keeps the text within \<open>2 ^ 30\<close> characters behaves as the same run on a list: it has no undefined behaviour, whatever new
  memory contains, and at the end the characters are those of the list.\<close>

theorem canon_output_refines_list:
  assumes "\<forall>n. length (fresh n) = n" "list_run ops [] = Some xs"
  shows "\<exists>out. exec_run (out_op fresh) ops (RawCanonOutput_ctor fixed_buffer) = Inr out \<and> cur_len out = length xs
    \<and> (\<forall>i < length xs. out_at i out = Inr (xs ! i))"
proof -
  have "out_ok fresh (RawCanonOutput_ctor fixed_buffer)" "out_text (RawCanonOutput_ctor fixed_buffer) = []"
    using assms(1) by (simp_all add: RawCanonOutput_ctor_def out_ok_def out_text_def)
  then obtain out where "exec_run (out_op fresh) ops (RawCanonOutput_ctor fixed_buffer) = Inr out" "out_ok fresh out" "out_text out = xs"
    using canon.run [of fresh "RawCanonOutput_ctor fixed_buffer" ops xs] assms(2) by auto
  then show ?thesis by (auto simp: out_ok_def out_text_def out_at_def out_capacity_def)
qed

theorem canon_output_refines_list_witness:
  "\<exists>out. exec_run (out_op (\<lambda>n. replicate n (7 :: nat))) [PushBack 1, AppendText [2, 3, 4], SetAt 1 9, Shorten 3, PushBack 5]
      (RawCanonOutput_ctor [0, 0]) = Inr out
    \<and> cur_len out = length [1, 9, 3, 5 :: nat] \<and> (\<forall>i < length [1, 9, 3, 5 :: nat]. out_at i out = Inr ([1, 9, 3, 5] ! i))"
  by (rule canon_output_refines_list) (simp_all add: list_op_def)

text \<open>A full buffer of \<open>2 ^ 30\<close> characters does not grow, and the character is dropped.\<close>

lemma push_back_full:
  assumes "cur_len out = out_capacity out" "out_capacity out \<ge> 2 ^ 30"
  shows "push_back fresh c out = out"
proof -
  have "grow_loop (out_capacity out + 1) (out_capacity out) = None" using assms by (subst grow_loop.simps) simp
  moreover have "out_capacity out \<noteq> 0" using assms(2) by (metis not_one_le_zero one_le_numeral one_le_power order_trans)
  ultimately show ?thesis using assms(1) by (simp add: push_back_def Grow_def)
qed

end
