(* ===== verification/Url_Parse.thy ===== *)
theory Url_Parse
  imports Prelude
begin

text \<open>
  The URL parsers: \<^verbatim>\<open>src/uri/url_parse.cpp\<close>, \<^verbatim>\<open>url_parse_file.cpp\<close>, \<^verbatim>\<open>url_parse_dev.cpp\<close>, \<^verbatim>\<open>url_parse_udp.cpp\<close>,
  \<^verbatim>\<open>url_parse_tcp.cpp\<close>, \<^verbatim>\<open>url_parse_rtp.cpp\<close> and \<^verbatim>\<open>url_parse_sdp.cpp\<close>, on a POSIX system.

  A parser does not copy text: it fills a record of \<open>Component\<close>s, each an offset and a length in the given text, with
  length -1 for a component that is absent. Offsets are \<^verbatim>\<open>int\<close>s between -1 and the length of the text plus one, itself an
  \<^verbatim>\<open>int\<close>, and are modelled as integers. \<open>scan_while\<close> and \<open>scan_back\<close> are the two shapes of loop the parsers are made of. The
  specification, \<open>text_url\<close>, is a parser on lists that returns the texts of the components; the refinement says that the
  components of the code delimit exactly these texts.
\<close>

subsection \<open>Components\<close>

record Component =
  c_begin :: int
  c_len :: int

abbreviation (input) Comp :: "int \<Rightarrow> int \<Rightarrow> Component" where
  "Comp b l \<equiv> \<lparr>c_begin = b, c_len = l\<rparr>"

definition no_component :: Component where
  "no_component = Comp 0 (- 1)"

definition c_end :: "Component \<Rightarrow> int" where
  "c_end c = c_begin c + c_len c"

definition is_valid :: "Component \<Rightarrow> bool" where
  "is_valid c \<longleftrightarrow> c_len c \<noteq> - 1"

definition is_nonempty :: "Component \<Rightarrow> bool" where
  "is_nonempty c \<longleftrightarrow> c_len c > 0"

definition MakeRange :: "int \<Rightarrow> int \<Rightarrow> Component" where
  "MakeRange b e = Comp b (e - b)"

record Parsed =
  p_scheme :: Component
  p_username :: Component
  p_password :: Component
  p_host :: Component
  p_port :: Component
  p_path :: Component
  p_query :: Component
  p_ref :: Component


definition IsURLSlash :: "u8 \<Rightarrow> bool" where
  "IsURLSlash ch \<longleftrightarrow> ch = 47 \<or> ch = 92"

definition ShouldTrimFromURL :: "u8 \<Rightarrow> bool" where
  "ShouldTrimFromURL ch \<longleftrightarrow> ch \<le> 32"

definition IsAuthorityTerminator :: "u8 \<Rightarrow> bool" where
  "IsAuthorityTerminator ch \<longleftrightarrow> IsURLSlash ch \<or> ch = 63 \<or> ch = 35"

definition IsPortDigit :: "u8 \<Rightarrow> bool" where
  "IsPortDigit ch \<longleftrightarrow> 48 \<le> ch \<and> ch \<le> 57"

subsection \<open>Loops\<close>

text \<open>\<^verbatim>\<open>while (i < n && P(spec[i])) i++;\<close> and \<^verbatim>\<open>while (i > b && P(spec[i])) i--;\<close>\<close>

function scan_while :: "(u8 \<Rightarrow> bool) \<Rightarrow> buffer \<Rightarrow> int \<Rightarrow> int \<Rightarrow> int" where
  "scan_while P spec i n = (if i < n \<and> P (spec ! nat i) then scan_while P spec (i + 1) n else i)"
  by pat_completeness auto

termination
  by (relation "measure (\<lambda>(_, _, i, n). nat (n - i))") auto

function scan_back :: "(u8 \<Rightarrow> bool) \<Rightarrow> buffer \<Rightarrow> int \<Rightarrow> int \<Rightarrow> int" where
  "scan_back P spec i b = (if i > b \<and> P (spec ! nat i) then scan_back P spec (i - 1) b else i)"
  by pat_completeness auto

termination
  by (relation "measure (\<lambda>(_, _, i, b). nat (i - b))") auto

declare scan_while.simps [simp del] scan_back.simps [simp del]

definition TrimURL :: "buffer \<Rightarrow> int \<Rightarrow> int \<Rightarrow> bool \<Rightarrow> int \<times> int" where
  "TrimURL spec begin len trim_path_end =
     (let begin = scan_while ShouldTrimFromURL spec begin len in
      (begin, if trim_path_end then scan_back ShouldTrimFromURL spec (len - 1) (begin - 1) + 1 else len))"

definition CountConsecutiveSlashes :: "buffer \<Rightarrow> int \<Rightarrow> int \<Rightarrow> int" where
  "CountConsecutiveSlashes str begin_offset str_len = scan_while IsURLSlash str begin_offset str_len - begin_offset"

definition FindNextAuthorityTerminator :: "buffer \<Rightarrow> int \<Rightarrow> int \<Rightarrow> int" where
  "FindNextAuthorityTerminator spec start_offset spec_len = scan_while (\<lambda>c. \<not> IsAuthorityTerminator c) spec start_offset spec_len"

definition FindNextSlash :: "buffer \<Rightarrow> int \<Rightarrow> int \<Rightarrow> int" where
  "FindNextSlash spec begin_index spec_len = scan_while (\<lambda>c. \<not> IsURLSlash c) spec begin_index spec_len"

subsection \<open>The authority\<close>

definition ParseUserInfo :: "buffer \<Rightarrow> Component \<Rightarrow> Component \<times> Component" where
  "ParseUserInfo spec user =
     (let colon_offset = scan_while (\<lambda>c. c \<noteq> 58) spec (c_begin user) (c_end user) - c_begin user in
      if colon_offset < c_len user
      then (Comp (c_begin user) colon_offset, MakeRange (c_begin user + colon_offset + 1) (c_begin user + c_len user))
      else (user, no_component))"

function server_loop :: "buffer \<Rightarrow> int \<Rightarrow> int \<Rightarrow> int \<times> int \<Rightarrow> int \<times> int" where
  "server_loop spec i n (ipv6_terminator, colon) =
     (if i < n then
        server_loop spec (i + 1) n
          (if spec ! nat i = 93 then (i, colon) else if spec ! nat i = 58 then (ipv6_terminator, i) else (ipv6_terminator, colon))
      else (ipv6_terminator, colon))"
  by pat_completeness auto

termination
  by (relation "measure (\<lambda>(_, i, n, _). nat (n - i))") auto

declare server_loop.simps [simp del]

definition ParseServerInfo :: "buffer \<Rightarrow> Component \<Rightarrow> Component \<times> Component" where
  "ParseServerInfo spec serverinfo =
     (if c_len serverinfo = 0 then (no_component, no_component)
      else
        let (ipv6_terminator, colon) =
              server_loop spec (c_begin serverinfo) (c_end serverinfo)
                (if spec ! nat (c_begin serverinfo) = 91 then c_end serverinfo else - 1, - 1)
        in if colon > ipv6_terminator
           then let hostname = MakeRange (c_begin serverinfo) colon
                in (if c_len hostname = 0 then no_component else hostname, MakeRange (colon + 1) (c_end serverinfo))
           else (serverinfo, no_component))"

text \<open>The result is the user name, the password, the host name and the port.\<close>

definition DoParseAuthority :: "buffer \<Rightarrow> Component \<Rightarrow> Component \<times> Component \<times> Component \<times> Component" where
  "DoParseAuthority spec auth =
     (if c_len auth = 0 then (no_component, no_component, no_component, no_component)
      else
        let i = scan_back (\<lambda>c. c \<noteq> 64) spec (c_begin auth + c_len auth - 1) (c_begin auth) in
        if spec ! nat i = 64 then
          let (username, password) = ParseUserInfo spec (Comp (c_begin auth) (i - c_begin auth));
              (hostname, port_num) = ParseServerInfo spec (MakeRange (i + 1) (c_begin auth + c_len auth))
          in (username, password, hostname, port_num)
        else
          let (hostname, port_num) = ParseServerInfo spec auth in (no_component, no_component, hostname, port_num))"

subsection \<open>The path\<close>

function FindQueryAndRefParts :: "buffer \<Rightarrow> int \<Rightarrow> int \<Rightarrow> int \<times> int \<Rightarrow> int \<times> int" where
  "FindQueryAndRefParts spec i path_end (query_separator, ref_separator) =
     (if i < path_end then
        if spec ! nat i = 63 then
          FindQueryAndRefParts spec (i + 1) path_end (if query_separator < 0 then i else query_separator, ref_separator)
        else if spec ! nat i = 35 \<and> ref_separator < 0 then (query_separator, i)
        else FindQueryAndRefParts spec (i + 1) path_end (query_separator, ref_separator)
      else (query_separator, ref_separator))"
  by pat_completeness auto

termination
  by (relation "measure (\<lambda>(_, i, n, _). nat (n - i))") auto

declare FindQueryAndRefParts.simps [simp del]

text \<open>The result is the file path, the query and the reference.\<close>

definition ParsePath :: "buffer \<Rightarrow> Component \<Rightarrow> Component \<times> Component \<times> Component" where
  "ParsePath spec path =
     (if c_len path = - 1 then (no_component, no_component, no_component)
      else
        let (query_separator, ref_separator) = FindQueryAndRefParts spec (c_begin path) (c_begin path + c_len path) (- 1, - 1);
            path_end = c_begin path + c_len path;
            (query_end, ref) = (if ref_separator \<ge> 0 then (ref_separator, MakeRange (ref_separator + 1) path_end)
                                else (path_end, no_component));
            (file_end, query) = (if query_separator \<ge> 0 then (query_separator, MakeRange (query_separator + 1) query_end)
                                 else (query_end, no_component))
        in (if file_end \<noteq> c_begin path then MakeRange (c_begin path) file_end else no_component, query, ref))"

subsection \<open>The parsers\<close>

definition DoExtractScheme :: "buffer \<Rightarrow> int \<Rightarrow> Component option" where
  "DoExtractScheme url url_len =
     (let begin = scan_while ShouldTrimFromURL url 0 url_len in
      if begin = url_len then None
      else let i = scan_while (\<lambda>c. c \<noteq> 58) url begin url_len in
        if i < url_len then Some (MakeRange begin i) else None)"

definition set_authority :: "Component \<times> Component \<times> Component \<times> Component \<Rightarrow> Parsed \<Rightarrow> Parsed" where
  "set_authority = (\<lambda>(username, password, hostname, port_num) parsed.
     parsed\<lparr>p_username := username, p_password := password, p_host := hostname, p_port := port_num\<rparr>)"

definition set_path :: "Component \<times> Component \<times> Component \<Rightarrow> Parsed \<Rightarrow> Parsed" where
  "set_path = (\<lambda>(filepath, query, ref) parsed. parsed\<lparr>p_path := filepath, p_query := query, p_ref := ref\<rparr>)"

definition split_authority :: "buffer \<Rightarrow> int \<Rightarrow> int \<Rightarrow> Component \<times> Component" where
  "split_authority spec spec_len after_scheme =
     (let after_slashes = after_scheme + CountConsecutiveSlashes spec after_scheme spec_len;
          end_auth = FindNextAuthorityTerminator spec after_slashes spec_len
      in (Comp after_slashes (end_auth - after_slashes),
          if end_auth = spec_len then no_component else Comp end_auth (spec_len - end_auth)))"

definition DoParseAfterScheme :: "buffer \<Rightarrow> int \<Rightarrow> int \<Rightarrow> Parsed \<Rightarrow> Parsed" where
  "DoParseAfterScheme spec spec_len after_scheme parsed =
     (let (authority, full_path) = split_authority spec spec_len after_scheme in
      set_path (ParsePath spec full_path) (set_authority (DoParseAuthority spec authority) parsed))"

definition DoParseStandardURL :: "buffer \<Rightarrow> int \<Rightarrow> Parsed \<Rightarrow> Parsed" where
  "DoParseStandardURL spec spec_len parsed =
     (let (begin, spec_len) = TrimURL spec 0 spec_len True in
      case DoExtractScheme spec spec_len of
        Some scheme \<Rightarrow> DoParseAfterScheme spec spec_len (c_end scheme + 1) (parsed\<lparr>p_scheme := scheme\<rparr>)
      | None \<Rightarrow> DoParseAfterScheme spec spec_len begin (parsed\<lparr>p_scheme := no_component\<rparr>))"

text \<open>\<^verbatim>\<open>ExtractScheme\<close> on the text from \<open>begin\<close> on, with the offset added to its result.\<close>

definition scheme_from :: "buffer \<Rightarrow> int \<Rightarrow> int \<Rightarrow> Component option" where
  "scheme_from spec begin spec_len =
     map_option (\<lambda>s. s\<lparr>c_begin := c_begin s + begin\<rparr>) (DoExtractScheme (drop (nat begin) spec) (spec_len - begin))"

definition DoParsePathURL :: "buffer \<Rightarrow> int \<Rightarrow> bool \<Rightarrow> Parsed \<Rightarrow> Parsed" where
  "DoParsePathURL spec spec_len trim_path_end parsed =
     (let parsed = parsed\<lparr>p_username := no_component, p_password := no_component, p_host := no_component, p_port := no_component,
                          p_path := no_component, p_query := no_component, p_ref := no_component\<rparr>;
          (scheme_begin, spec_len) = TrimURL spec 0 spec_len trim_path_end
      in if scheme_begin = spec_len then parsed\<lparr>p_scheme := no_component, p_path := no_component\<rparr>
         else
           let (path_begin, parsed) =
                 (case scheme_from spec scheme_begin spec_len of
                    Some scheme \<Rightarrow> (c_end scheme + 1, parsed\<lparr>p_scheme := scheme\<rparr>)
                  | None \<Rightarrow> (scheme_begin, parsed\<lparr>p_scheme := no_component\<rparr>))
           in if path_begin = spec_len then parsed
              else set_path (ParsePath spec (MakeRange path_begin spec_len)) parsed)"

definition DoParseRtspURL :: "buffer \<Rightarrow> int \<Rightarrow> Parsed \<Rightarrow> Parsed" where
  "DoParseRtspURL spec spec_len parsed =
     (let (scheme_begin, spec_len) = TrimURL spec 0 spec_len True in
      if scheme_begin = spec_len then parsed
      else case scheme_from spec scheme_begin spec_len of
        Some scheme \<Rightarrow>
          let (authority, full_path) = split_authority spec spec_len (c_end scheme + 1) in
          set_path (ParsePath spec full_path) (set_authority (DoParseAuthority spec authority) (parsed\<lparr>p_scheme := scheme\<rparr>))
      | None \<Rightarrow> parsed)"

definition DoParseRtmpURL :: "buffer \<Rightarrow> int \<Rightarrow> Parsed \<Rightarrow> Parsed" where
  "DoParseRtmpURL spec spec_len parsed =
     (let parsed = parsed\<lparr>p_username := no_component, p_password := no_component\<rparr>;
          (scheme_begin, spec_len) = TrimURL spec 0 spec_len True
      in if scheme_begin = spec_len then parsed
      else case scheme_from spec scheme_begin spec_len of
        Some scheme \<Rightarrow>
          let (authority, full_path) = split_authority spec spec_len (c_end scheme + 1);
              (_, _, host, port) = DoParseAuthority spec authority
          in set_path (ParsePath spec full_path) (parsed\<lparr>p_scheme := scheme, p_host := host, p_port := port\<rparr>)
      | None \<Rightarrow> parsed)"

text \<open>The parsers for \<^verbatim>\<open>udp\<close>, \<^verbatim>\<open>tcp\<close>, \<^verbatim>\<open>rtp\<close> and \<^verbatim>\<open>srt\<close> are the same function under four names.\<close>

definition DoParseUdpURL :: "buffer \<Rightarrow> int \<Rightarrow> Parsed \<Rightarrow> Parsed" where
  "DoParseUdpURL spec spec_len parsed =
     (let parsed = parsed\<lparr>p_username := no_component, p_password := no_component, p_path := no_component, p_query := no_component,
                          p_ref := no_component\<rparr>;
          (scheme_begin, spec_len) = TrimURL spec 0 spec_len True
      in if scheme_begin = spec_len then parsed
      else case scheme_from spec scheme_begin spec_len of
        Some scheme \<Rightarrow>
          let after_scheme = c_end scheme + 1;
              after_slashes = after_scheme + CountConsecutiveSlashes spec after_scheme spec_len;
              (_, _, host, port) = DoParseAuthority spec (MakeRange after_slashes spec_len)
          in parsed\<lparr>p_scheme := scheme, p_host := host, p_port := port\<rparr>
      | None \<Rightarrow> parsed)"

definition DoParseTcpURL :: "buffer \<Rightarrow> int \<Rightarrow> Parsed \<Rightarrow> Parsed" where "DoParseTcpURL = DoParseUdpURL"
definition DoParseRtpURL :: "buffer \<Rightarrow> int \<Rightarrow> Parsed \<Rightarrow> Parsed" where "DoParseRtpURL = DoParseUdpURL"
definition DoParseSrtURL :: "buffer \<Rightarrow> int \<Rightarrow> Parsed \<Rightarrow> Parsed" where "DoParseSrtURL = DoParseUdpURL"

definition DoParseUNC :: "buffer \<Rightarrow> int \<Rightarrow> int \<Rightarrow> Parsed \<Rightarrow> Parsed" where
  "DoParseUNC spec after_slashes spec_len parsed =
     (let next_slash = FindNextSlash spec after_slashes spec_len in
      if next_slash = spec_len then
        let host_len = spec_len - after_slashes in
        parsed\<lparr>p_host := if host_len \<noteq> 0 then Comp after_slashes host_len else no_component, p_path := no_component\<rparr>
      else
        let host_len = next_slash - after_slashes;
            parsed = parsed\<lparr>p_host := if host_len \<noteq> 0 then MakeRange after_slashes next_slash else no_component\<rparr>
        in if next_slash < spec_len then set_path (ParsePath spec (MakeRange next_slash spec_len)) parsed
           else parsed\<lparr>p_path := no_component\<rparr>)"

definition DoParseLocalFile :: "buffer \<Rightarrow> int \<Rightarrow> int \<Rightarrow> Parsed \<Rightarrow> Parsed" where
  "DoParseLocalFile spec path_begin spec_len parsed =
     set_path (ParsePath spec (MakeRange path_begin spec_len)) (parsed\<lparr>p_host := no_component\<rparr>)"

definition DoParseFileURL :: "buffer \<Rightarrow> int \<Rightarrow> Parsed \<Rightarrow> Parsed" where
  "DoParseFileURL spec spec_len parsed =
     (let parsed = parsed\<lparr>p_username := no_component, p_password := no_component, p_port := no_component, p_query := no_component,
                          p_ref := no_component\<rparr>;
          (begin, spec_len) = TrimURL spec 0 spec_len True;
          num_slashes = CountConsecutiveSlashes spec begin spec_len;
          (after_scheme, parsed) =
            (case if num_slashes = 0 then scheme_from spec begin spec_len else None of
               Some scheme \<Rightarrow> (c_end scheme + 1, parsed\<lparr>p_scheme := scheme\<rparr>)
             | None \<Rightarrow> (begin, parsed\<lparr>p_scheme := no_component\<rparr>))
      in if after_scheme = spec_len then parsed\<lparr>p_host := no_component, p_path := no_component\<rparr>
         else
           let num_slashes = CountConsecutiveSlashes spec after_scheme spec_len;
               after_slashes = after_scheme + num_slashes
           in if num_slashes = 2 then DoParseUNC spec after_slashes spec_len parsed
              else DoParseLocalFile spec (if num_slashes > 0 then after_scheme + num_slashes - 1 else after_scheme) spec_len parsed)"

definition DoParseDevURL :: "buffer \<Rightarrow> int \<Rightarrow> Parsed \<Rightarrow> Parsed" where "DoParseDevURL = DoParseFileURL"

subsection \<open>Ports, file names and queries\<close>

abbreviation (input) PORT_UNSPECIFIED :: int where "PORT_UNSPECIFIED \<equiv> - 1"
abbreviation (input) PORT_INVALID :: int where "PORT_INVALID \<equiv> - 2"

definition atoi :: "buffer \<Rightarrow> int" where
  "atoi digits = foldl (\<lambda>v c. 10 * v + (uint c - 48)) 0 digits"

function port_digits :: "buffer \<Rightarrow> int \<Rightarrow> int \<Rightarrow> buffer \<Rightarrow> buffer option" where
  "port_digits spec i n digits =
     (if i < n then if IsPortDigit (spec ! nat i) then port_digits spec (i + 1) n (digits @ [spec ! nat i]) else None
      else Some digits)"
  by pat_completeness auto

termination
  by (relation "measure (\<lambda>(_, i, n, _). nat (n - i))") auto

declare port_digits.simps [simp del]

definition DoParsePort :: "buffer \<Rightarrow> Component \<Rightarrow> int" where
  "DoParsePort spec component =
     (if \<not> is_nonempty component then PORT_UNSPECIFIED
      else
        let i = scan_while (\<lambda>c. c = 48) spec (c_begin component) (c_end component);
            digits_comp = (if i < c_end component then MakeRange i (c_end component) else Comp (c_end component) 0)
        in if c_len digits_comp = 0 then 0
           else if c_len digits_comp > 5 then PORT_INVALID
           else case port_digits spec (c_begin digits_comp) (c_end digits_comp) [] of
             None \<Rightarrow> PORT_INVALID
           | Some digits \<Rightarrow> let port = atoi digits in if port > 65535 then PORT_INVALID else port)"

function file_name_loop :: "buffer \<Rightarrow> int \<Rightarrow> int \<Rightarrow> int \<Rightarrow> Component" where
  "file_name_loop spec i b file_end =
     (if i \<ge> b then
        if spec ! nat i = 59 then file_name_loop spec (i - 1) b i
        else if IsURLSlash (spec ! nat i) then MakeRange (i + 1) file_end
        else file_name_loop spec (i - 1) b file_end
      else MakeRange b file_end)"
  by pat_completeness auto

termination
  by (relation "measure (\<lambda>(_, i, b, _). nat (i - b + 1))") auto

declare file_name_loop.simps [simp del]

definition DoExtractFileName :: "buffer \<Rightarrow> Component \<Rightarrow> Component" where
  "DoExtractFileName spec path =
     (if \<not> is_nonempty path then no_component
      else file_name_loop spec (c_end path - 1) (c_begin path) (c_end path))"

text \<open>The result is the rest of the query, the key and the value.\<close>

definition DoExtractQueryKeyValue :: "buffer \<Rightarrow> Component \<Rightarrow> (Component \<times> Component \<times> Component) option" where
  "DoExtractQueryKeyValue spec query =
     (if \<not> is_nonempty query then None
      else
        let start = c_begin query;
            e = c_end query;
            key_end = scan_while (\<lambda>c. c \<noteq> 38 \<and> c \<noteq> 61) spec start e;
            value_begin = (if key_end < e \<and> spec ! nat key_end = 61 then key_end + 1 else key_end);
            value_end = scan_while (\<lambda>c. c \<noteq> 38) spec value_begin e;
            cur = (if value_end < e \<and> spec ! nat value_end = 38 then value_end + 1 else value_end)
        in Some (MakeRange cur e, Comp start (key_end - start), Comp value_begin (value_end - value_begin)))"

subsection \<open>Positions in a parsed URL\<close>

datatype ComponentType = SCHEME | USERNAME | PASSWORD | HOST | PORT | PATH | QUERY | REF

fun component_rank :: "ComponentType \<Rightarrow> nat" where
  "component_rank SCHEME = 0" | "component_rank USERNAME = 1" | "component_rank PASSWORD = 2" | "component_rank HOST = 3"
| "component_rank PORT = 4" | "component_rank PATH = 5" | "component_rank QUERY = 6" | "component_rank REF = 7"

definition CountCharactersBefore :: "Parsed \<Rightarrow> ComponentType \<Rightarrow> bool \<Rightarrow> int" where
  "CountCharactersBefore p type include_delimiter =
     (let r = component_rank type;
          cur = (if is_valid (p_scheme p) then c_end (p_scheme p) + 1 else 0)
      in if type = SCHEME then c_begin (p_scheme p)
      else if is_valid (p_username p) \<and> r \<le> 1 then c_begin (p_username p)
      else let cur = (if is_valid (p_username p) then c_end (p_username p) + 1 else cur) in
      if is_valid (p_password p) \<and> r \<le> 2 then c_begin (p_password p)
      else let cur = (if is_valid (p_password p) then c_end (p_password p) + 1 else cur) in
      if is_valid (p_host p) \<and> r \<le> 3 then c_begin (p_host p)
      else let cur = (if is_valid (p_host p) then c_end (p_host p) else cur) in
      if is_valid (p_port p) \<and> (r < 4 \<or> type = PORT \<and> include_delimiter) then c_begin (p_port p) - 1
      else if is_valid (p_port p) \<and> type = PORT then c_begin (p_port p)
      else let cur = (if is_valid (p_port p) then c_end (p_port p) else cur) in
      if is_valid (p_path p) \<and> r \<le> 5 then c_begin (p_path p)
      else let cur = (if is_valid (p_path p) then c_end (p_path p) else cur) in
      if is_valid (p_query p) \<and> (r < 6 \<or> type = QUERY \<and> include_delimiter) then c_begin (p_query p) - 1
      else if is_valid (p_query p) \<and> type = QUERY then c_begin (p_query p)
      else let cur = (if is_valid (p_query p) then c_end (p_query p) else cur) in
      if is_valid (p_ref p) then if type = REF \<and> \<not> include_delimiter then c_begin (p_ref p) else c_begin (p_ref p) - 1
      else cur)"

definition Length :: "Parsed \<Rightarrow> int" where
  "Length p = (if is_valid (p_ref p) then c_end (p_ref p) else CountCharactersBefore p REF False)"

definition GetContent :: "Parsed \<Rightarrow> Component" where
  "GetContent p =
     (let begin = CountCharactersBefore p USERNAME False;
          len = Length p - begin
      in if len \<noteq> 0 then Comp begin len else no_component)"

subsection \<open>The specification\<close>










definition text_trim :: "buffer \<Rightarrow> buffer" where
  "text_trim t = rev (dropWhile ShouldTrimFromURL (rev (dropWhile ShouldTrimFromURL t)))"

text \<open>The text a component delimits.\<close>

definition window :: "buffer \<Rightarrow> int \<Rightarrow> int \<Rightarrow> buffer" where
  "window spec i j = take (nat (j - i)) (drop (nat i) spec)"

definition ctext :: "buffer \<Rightarrow> Component \<Rightarrow> buffer option" where
  "ctext spec c = (if is_valid c then Some (window spec (c_begin c) (c_end c)) else None)"


subsection \<open>Windows\<close>

lemma window_empty [simp]: "window s i i = []"
  by (simp add: window_def)

lemma length_window: "0 \<le> i \<Longrightarrow> j \<le> int (length s) \<Longrightarrow> length (window s i j) = nat (j - i)"
  by (simp add: window_def)

lemma window_append: "0 \<le> i \<Longrightarrow> i \<le> j \<Longrightarrow> j \<le> k \<Longrightarrow> window s i j @ window s j k = window s i k"
proof -
  assume a: "0 \<le> i" "i \<le> j" "j \<le> k"
  then have "nat (k - i) = nat (j - i) + nat (k - j)" "nat j = nat (j - i) + nat i" by simp_all
  then show ?thesis by (simp add: window_def take_add add.commute)
qed

lemma window_one: "0 \<le> i \<Longrightarrow> i < int (length s) \<Longrightarrow> window s i (i + 1) = [s ! nat i]"
  by (simp add: window_def take_Suc_conv_app_nth [of 0, simplified])

lemma window_Cons: "0 \<le> i \<Longrightarrow> i < j \<Longrightarrow> j \<le> int (length s) \<Longrightarrow> window s i j = s ! nat i # window s (i + 1) j"
  using window_append [of i "i + 1" j s] window_one [of i s] by simp

lemma window_all: "window s 0 (int (length s)) = s"
  by (simp add: window_def)

lemma window_Nil_iff: "0 \<le> i \<Longrightarrow> i \<le> j \<Longrightarrow> j \<le> int (length s) \<Longrightarrow> window s i j = [] \<longleftrightarrow> i = j"
  using length_window [of i j s] by (metis length_0_conv nat_0_iff diff_ge_0_iff_ge eq_iff_diff_eq_0 order_antisym window_empty diff_gt_0_iff_gt linorder_not_less)

lemma scan_while_window:
  assumes "0 \<le> i" "i \<le> n" "n \<le> int (length s)"
  shows "i \<le> scan_while P s i n \<and> scan_while P s i n \<le> n
    \<and> window s i (scan_while P s i n) = takeWhile P (window s i n) \<and> window s (scan_while P s i n) n = dropWhile P (window s i n)"
  using assms
proof (induction P s i n rule: scan_while.induct)
  case (1 P s i n)
  show ?case
  proof (cases "i < n")
    case False
    then have "scan_while P s i n = i" by (subst scan_while.simps) simp
    with 1 False show ?thesis by simp
  next
    case True
    with 1 have w: "window s i n = s ! nat i # window s (i + 1) n" by (simp add: window_Cons)
    show ?thesis
    proof (cases "P (s ! nat i)")
      case False
      then have "scan_while P s i n = i" by (subst scan_while.simps) simp
      with False w show ?thesis using 1 by simp
    next
      case P: True
      let ?k = "scan_while P s (i + 1) n"
      have k: "scan_while P s i n = ?k" using True P by (subst scan_while.simps) simp
      have IH: "i + 1 \<le> ?k \<and> ?k \<le> n \<and> window s (i + 1) ?k = takeWhile P (window s (i + 1) n) \<and> window s ?k n = dropWhile P (window s (i + 1) n)"
        using 1 True P by simp
      moreover have "window s i ?k = s ! nat i # window s (i + 1) ?k" using IH 1 True by (intro window_Cons) simp_all
      ultimately show ?thesis using P w k by simp
    qed
  qed
qed

lemma scan_while_end:
  assumes "0 \<le> i" "i \<le> n" "n \<le> int (length s)"
  shows "scan_while P s i n < n \<longleftrightarrow> (\<exists>c \<in> set (window s i n). \<not> P c)"
    "scan_while P s i n < n \<Longrightarrow> \<not> P (s ! nat (scan_while P s i n))"
proof -
  let ?k = "scan_while P s i n"
  have k: "i \<le> ?k" "?k \<le> n" "window s ?k n = dropWhile P (window s i n)" using scan_while_window [OF assms] by simp_all
  have "?k < n \<longleftrightarrow> window s ?k n \<noteq> []" using k assms window_Nil_iff [of ?k n s] by auto
  then show "?k < n \<longleftrightarrow> (\<exists>c \<in> set (window s i n). \<not> P c)" using k(3) by (auto simp: dropWhile_eq_Nil_conv)
  show "\<not> P (s ! nat ?k)" if "?k < n"
  proof -
    have "dropWhile P (window s i n) = s ! nat ?k # window s (?k + 1) n" using k that assms by (simp add: window_Cons flip: k(3))
    then show ?thesis by (metis hd_dropWhile list.distinct(1) list.sel(1))
  qed
qed

lemma scan_back_range:
  "b \<le> i \<Longrightarrow> b \<le> scan_back P s i b \<and> scan_back P s i b \<le> i \<and> (\<forall>j. scan_back P s i b < j \<longrightarrow> j \<le> i \<longrightarrow> P (s ! nat j))
     \<and> (scan_back P s i b = b \<or> \<not> P (s ! nat (scan_back P s i b)))"
proof (induction P s i b rule: scan_back.induct)
  case (1 P s i b)
  show ?case
  proof (cases "i > b \<and> P (s ! nat i)")
    case True
    then have "scan_back P s i b = scan_back P s (i - 1) b" by (subst scan_back.simps) simp
    moreover have "P (s ! nat j)" if "scan_back P s (i - 1) b < j" "j \<le> i" for j
      using 1 True that by (cases "j = i") auto
    ultimately show ?thesis using 1 True by auto
  next
    case False
    then have "scan_back P s i b = i" by (subst scan_back.simps) auto
    with False 1 show ?thesis by auto
  qed
qed

lemma in_window: "0 \<le> i \<Longrightarrow> j \<le> int (length s) \<Longrightarrow> c \<in> set (window s i j) \<longleftrightarrow> (\<exists>k. i \<le> k \<and> k < j \<and> s ! nat k = c)"
proof
  assume a: "0 \<le> i" "j \<le> int (length s)"
  show "\<exists>k. i \<le> k \<and> k < j \<and> s ! nat k = c" if "c \<in> set (window s i j)"
  proof -
    from that obtain m where "m < nat (j - i)" "window s i j ! m = c" using length_window [OF a] by (metis in_set_conv_nth)
    then have "s ! nat (i + int m) = c" using a by (simp add: window_def nat_add_distrib)
    with \<open>m < nat (j - i)\<close> show ?thesis by (intro exI [of _ "i + int m"]) auto
  qed
  show "c \<in> set (window s i j)" if "\<exists>k. i \<le> k \<and> k < j \<and> s ! nat k = c"
  proof -
    from that obtain k where k: "i \<le> k" "k < j" "s ! nat k = c" by blast
    then have "window s i j = window s i k @ s ! nat k # window s (k + 1) j"
      using a window_append [of i k j s] window_Cons [of k j s] by simp
    with k show ?thesis by simp
  qed
qed

lemma split_at: "0 \<le> i \<Longrightarrow> i \<le> k \<Longrightarrow> k < j \<Longrightarrow> j \<le> int (length s) \<Longrightarrow> window s i j = window s i k @ s ! nat k # window s (k + 1) j"
  using window_append [of i k j s] window_Cons [of k j s] by simp


subsection \<open>Parts of an authority\<close>

definition within :: "Component \<Rightarrow> int \<Rightarrow> int \<Rightarrow> bool" where
  "within c lo hi \<longleftrightarrow> c = no_component \<or> lo \<le> c_begin c \<and> 0 \<le> c_len c \<and> c_end c \<le> hi"


lemma within_no [simp]: "within no_component lo hi"
  by (simp add: within_def)

lemma ctext_no [simp]: "ctext s no_component = None"
  by (simp add: ctext_def is_valid_def no_component_def)

lemma ctext_range: "b \<le> e \<Longrightarrow> ctext s (Comp b (e - b)) = Some (window s b e)"
  by (simp add: ctext_def is_valid_def c_end_def)

lemma within_range: "lo \<le> b \<Longrightarrow> b \<le> e \<Longrightarrow> e \<le> hi \<Longrightarrow> within (Comp b (e - b)) lo hi"
  by (simp add: within_def c_end_def)

lemmas range_simps = ctext_range within_range MakeRange_def c_end_def


lemma split_first:
  assumes "0 \<le> i" "i \<le> k" "k < j" "j \<le> int (length s)" "s ! nat k = c" "c \<notin> set (window s i k)"
  shows "takeWhile (\<lambda>x. x \<noteq> c) (window s i j) = window s i k" "tl (dropWhile (\<lambda>x. x \<noteq> c) (window s i j)) = window s (k + 1) j" "c \<in> set (window s i j)"
proof -
  have w: "window s i j = window s i k @ c # window s (k + 1) j" using split_at [OF assms(1-4)] assms(5) by simp
  have "x \<in> set (window s i k) \<Longrightarrow> x \<noteq> c" for x using assms(6) by auto
  then show "takeWhile (\<lambda>x. x \<noteq> c) (window s i j) = window s i k" "tl (dropWhile (\<lambda>x. x \<noteq> c) (window s i j)) = window s (k + 1) j" "c \<in> set (window s i j)"
    unfolding w by (simp_all add: takeWhile_append2 dropWhile_append2)
qed

lemma scan_to_first:
  fixes c :: u8
  assumes "0 \<le> i" "i \<le> n" "n \<le> int (length s)"
  defines "k \<equiv> scan_while (\<lambda>x. x \<noteq> c) s i n"
  shows "i \<le> k" "k \<le> n" "k < n \<longleftrightarrow> c \<in> set (window s i n)"
    "k < n \<Longrightarrow> takeWhile (\<lambda>x. x \<noteq> c) (window s i n) = window s i k \<and> tl (dropWhile (\<lambda>x. x \<noteq> c) (window s i n)) = window s (k + 1) n"
proof -
  show k: "i \<le> k" "k \<le> n" using scan_while_window [OF assms(1-3), of "\<lambda>x. x \<noteq> c"] by (simp_all add: k_def)
  show "k < n \<longleftrightarrow> c \<in> set (window s i n)" using scan_while_end(1) [OF assms(1-3), of "\<lambda>x. x \<noteq> c"] by (auto simp: k_def)
  show "takeWhile (\<lambda>x. x \<noteq> c) (window s i n) = window s i k \<and> tl (dropWhile (\<lambda>x. x \<noteq> c) (window s i n)) = window s (k + 1) n" if "k < n"
  proof -
    have "window s i k = takeWhile (\<lambda>x. x \<noteq> c) (window s i n)" "window s k n = dropWhile (\<lambda>x. x \<noteq> c) (window s i n)"
      using scan_while_window [OF assms(1-3), of "\<lambda>x. x \<noteq> c"] by (simp_all add: k_def)
    moreover have "window s k n = s ! nat k # window s (k + 1) n" using that k assms by (simp add: window_Cons)
    ultimately show ?thesis by (metis list.sel(3))
  qed
qed










subsection \<open>Parts of a path\<close>



lemma scan_length:
  assumes "0 \<le> i" "i \<le> n" "n \<le> int (length s)"
  shows "scan_while P s i n = i + int (length (takeWhile P (window s i n)))"
proof -
  have k: "i \<le> scan_while P s i n" "scan_while P s i n \<le> n" "window s i (scan_while P s i n) = takeWhile P (window s i n)"
    using scan_while_window [OF assms] by simp_all
  then have "length (takeWhile P (window s i n)) = nat (scan_while P s i n - i)"
    using length_window [of i "scan_while P s i n" s] assms by simp
  with k show ?thesis by simp
qed





subsection \<open>The standard parser\<close>




lemma TrimURL_ok:
  assumes "n = int (length s)"
  shows "\<exists>b e. TrimURL s 0 n True = (b, e) \<and> 0 \<le> b \<and> b \<le> e \<and> e \<le> n \<and> window s b e = text_trim s
    \<and> list_all ShouldTrimFromURL (window s 0 b) \<and> (b < e \<longrightarrow> \<not> ShouldTrimFromURL (s ! nat b))"
proof -
  define b where "b = scan_while ShouldTrimFromURL s 0 n"
  have b: "0 \<le> b" "b \<le> n" "window s 0 b = takeWhile ShouldTrimFromURL s" "window s b n = dropWhile ShouldTrimFromURL s"
    using scan_while_window [of 0 n s ShouldTrimFromURL] window_all [of s] assms by (simp_all add: b_def)
  define e where "e = scan_back ShouldTrimFromURL s (n - 1) (b - 1) + 1"
  have e: "b \<le> e" "e \<le> n" "\<And>j. e \<le> j \<Longrightarrow> j < n \<Longrightarrow> ShouldTrimFromURL (s ! nat j)" "e = b \<or> \<not> ShouldTrimFromURL (s ! nat (e - 1))"
    using scan_back_range [of "b - 1" "n - 1" ShouldTrimFromURL s] b(2) by (auto simp: e_def)
  have tail: "c \<in> set (window s e n) \<Longrightarrow> ShouldTrimFromURL c" for c
    using in_window [of e n s c] e b assms by auto
  have first: "\<not> ShouldTrimFromURL (s ! nat b)" if "b < n"
    using scan_while_end(2) [of 0 n s ShouldTrimFromURL] b that assms by (simp add: b_def)
  have last: "window s b e = [] \<or> \<not> ShouldTrimFromURL (last (window s b e))"
  proof (cases "e = b")
    case False
    then have "window s b e = window s b (e - 1) @ [s ! nat (e - 1)]"
      using split_at [of b "e - 1" e s] b e assms by simp
    then show ?thesis using e(4) False by simp
  qed simp
  have "dropWhile ShouldTrimFromURL s = window s b e @ window s e n" using window_append [of b e n s] b e by simp
  then have "text_trim s = rev (dropWhile ShouldTrimFromURL (rev (window s e n) @ rev (window s b e)))" by (simp add: text_trim_def)
  also have "\<dots> = rev (dropWhile ShouldTrimFromURL (rev (window s b e)))"
    using dropWhile_append2 [of "rev (window s e n)" ShouldTrimFromURL "rev (window s b e)"] tail by simp
  also have "\<dots> = window s b e" using last by (cases "window s b e" rule: rev_cases) simp_all
  finally have "window s b e = text_trim s" by simp
  moreover have "TrimURL s 0 n True = (b, e)" by (simp add: TrimURL_def b_def e_def Let_def)
  moreover have "list_all ShouldTrimFromURL (window s 0 b)" unfolding b(3) by (auto simp: list_all_iff dest: set_takeWhileD)
  ultimately show ?thesis using b e first by auto
qed

lemma DoExtractScheme_ok:
  assumes "0 \<le> b" "b \<le> e" "e \<le> int (length s)" "list_all ShouldTrimFromURL (window s 0 b)" "b < e \<longrightarrow> \<not> ShouldTrimFromURL (s ! nat b)"
  defines "k \<equiv> scan_while (\<lambda>c. c \<noteq> 58) s b e"
  shows "DoExtractScheme s e = (if 58 \<in> set (window s b e) then Some (Comp b (k - b)) else None)"
proof -
  have "takeWhile ShouldTrimFromURL (window s b e) = []"
    using assms window_Cons [of b e s] by (cases "b = e") simp_all
  moreover have "takeWhile ShouldTrimFromURL (window s 0 b @ window s b e) = window s 0 b @ takeWhile ShouldTrimFromURL (window s b e)"
    using assms(4) by (intro takeWhile_append2) (simp add: list_all_iff)
  ultimately have "takeWhile ShouldTrimFromURL (window s 0 e) = window s 0 b"
    using window_append [of 0 b e s] assms by simp
  then have "scan_while ShouldTrimFromURL s 0 e = b"
    using scan_length [of 0 e s ShouldTrimFromURL] length_window [of 0 b s] assms by simp
  then show ?thesis using scan_to_first [OF assms(1-3), of 58, folded k_def] assms
    by (auto simp: DoExtractScheme_def MakeRange_def Let_def)
qed


subsection \<open>Printing a URL\<close>







lemma takeWhile_stop: "(\<And>x. x \<in> set xs \<Longrightarrow> P x) \<Longrightarrow> ys = [] \<or> \<not> P (hd ys) \<Longrightarrow> takeWhile P (xs @ ys) = xs \<and> dropWhile P (xs @ ys) = ys"
  by (cases ys) (auto simp: takeWhile_append2 dropWhile_append2)









subsection \<open>Ports\<close>

lemma port_digits_eq:
  assumes "0 \<le> i" "i \<le> n" "n \<le> int (length s)"
  shows "port_digits s i n ds = (if list_all IsPortDigit (window s i n) then Some (ds @ window s i n) else None)"
  using assms
proof (induction s i n ds rule: port_digits.induct)
  case (1 s i n ds)
  show ?case
  proof (cases "i < n")
    case True
    then have "window s i n = s ! nat i # window s (i + 1) n" using 1 by (simp add: window_Cons)
    moreover have "IsPortDigit (s ! nat i) \<Longrightarrow> port_digits s (i + 1) n (ds @ [s ! nat i]) =
        (if list_all IsPortDigit (window s (i + 1) n) then Some ((ds @ [s ! nat i]) @ window s (i + 1) n) else None)"
      using "1.IH" [OF True] "1.prems" True by simp
    ultimately show ?thesis using True by (subst port_digits.simps) simp
  next
    case False
    with "1.prems" show ?thesis by (subst port_digits.simps) simp
  qed
qed

lemma atoi_Cons: "atoi (c # ds) = (uint c - 48) * 10 ^ length ds + atoi ds"
proof -
  let ?F = "\<lambda>v (c :: u8). 10 * v + (uint c - 48)"
  have shift: "foldl ?F a ds = a * 10 ^ length ds + foldl ?F 0 ds" for a ds
  proof (induction ds arbitrary: a)
    case (Cons c ds)
    show ?case using Cons [of "?F a c"] Cons [of "?F 0 c"] by (simp add: algebra_simps)
  qed simp
  show ?thesis using shift [of "uint c - 48" ds] by (simp add: atoi_def)
qed

lemma digit_range: "IsPortDigit c \<Longrightarrow> 0 \<le> uint c - 48 \<and> uint c - 48 \<le> 9"
  by (simp add: IsPortDigit_def word_le_def)

lemma atoi_nonneg: "list_all IsPortDigit ds \<Longrightarrow> 0 \<le> atoi ds"
proof (induction ds)
  case (Cons c ds)
  then show ?case using digit_range [of c] by (simp add: atoi_Cons)
qed (simp add: atoi_def)

lemma atoi_zeros: "atoi (dropWhile (\<lambda>c. c = 48) ds) = atoi ds"
proof (induction ds)
  case (Cons c ds)
  then show ?case by (simp add: atoi_Cons)
qed simp

lemma atoi_large:
  assumes "list_all IsPortDigit (c # ds)" "c \<noteq> 48" "5 \<le> length ds"
  shows "65535 < atoi (c # ds)"
proof -
  have "uint c \<noteq> 48" using assms(2) by (auto simp: word_uint_eq_iff)
  then have "1 \<le> uint c - 48" using digit_range [of c] assms(1) by simp
  moreover have "(10 :: int) ^ 5 \<le> 10 ^ length ds" using assms(3) by (rule power_increasing) simp
  ultimately have "1 * 10 ^ 5 \<le> (uint c - 48) * 10 ^ length ds" by (intro mult_mono) simp_all
  then show ?thesis using atoi_nonneg [of ds] assms(1) by (simp add: atoi_Cons)
qed

text \<open>\<^verbatim>\<open>ParsePort\<close> is exact: an absent or empty port is unspecified; any other is valid when it consists of digits whose value is
  at most 65535, and the result is then this value; everything else, such as a number of any length that is too large, is invalid.
  The buffer of six characters the digits are copied to is never overrun.\<close>

lemma ParsePort_exact:
  assumes "0 \<le> b" "b < e" "e \<le> int (length s)"
  shows "DoParsePort s (MakeRange b e) =
    (if list_all IsPortDigit (window s b e) \<and> atoi (window s b e) \<le> 65535 then atoi (window s b e) else PORT_INVALID)"
proof -
  let ?w = "window s b e"
  define i where "i = scan_while (\<lambda>c. c = 48) s b e"
  have i: "b \<le> i" "i \<le> e" "window s b i = takeWhile (\<lambda>c. c = 48) ?w" "window s i e = dropWhile (\<lambda>c. c = 48) ?w"
    using scan_while_window [of b e s "\<lambda>c. c = 48"] assms by (simp_all add: i_def)
  have w: "?w = window s b i @ window s i e" using window_append [of b i e s] i assms by simp
  have zeros: "list_all IsPortDigit (window s b i)" unfolding i(3) by (auto simp: list_all_iff IsPortDigit_def dest: set_takeWhileD)
  have all: "list_all IsPortDigit ?w \<longleftrightarrow> list_all IsPortDigit (window s i e)" using w zeros by simp
  have val: "atoi (window s i e) = atoi ?w" unfolding i(4) by (rule atoi_zeros)
  have len: "length (window s i e) = nat (e - i)" using length_window [of i e s] i assms by simp
  have code: "DoParsePort s (MakeRange b e) =
     (if i = e then 0 else if e - i > 5 then PORT_INVALID
      else case port_digits s i e [] of None \<Rightarrow> PORT_INVALID | Some ds \<Rightarrow> if atoi ds > 65535 then PORT_INVALID else atoi ds)"
    using assms i(1,2) by (simp add: DoParsePort_def is_nonempty_def MakeRange_def c_end_def i_def Let_def split: option.split)
  consider (zero) "i = e" | (long) "i < e" "e - i > 5" | (short) "i < e" "e - i \<le> 5" using i by linarith
  then show ?thesis
  proof cases
    case zero
    then show ?thesis using code all val by (simp add: atoi_def)
  next
    case long
    then have c: "window s i e = s ! nat i # window s (i + 1) e" "s ! nat i \<noteq> 48" "5 \<le> length (window s (i + 1) e)"
      using window_Cons [of i e s] length_window [of "i + 1" e s] scan_while_end(2) [of b e s "\<lambda>c. c = 48"] i assms by (simp_all add: i_def)
    then have "list_all IsPortDigit ?w \<Longrightarrow> 65535 < atoi ?w"
      using atoi_large [of "s ! nat i" "window s (i + 1) e"] all val by simp
    then show ?thesis using code long by auto
  next
    case short
    then show ?thesis using code all val port_digits_eq [of i e s "[]"] i assms by auto
  qed
qed

subsection \<open>File names and queries\<close>

lemma query_step:
  assumes "0 \<le> b" "b < e" "e \<le> int (length s)"
  defines "w \<equiv> window s b e"
  shows "\<exists>q k v. DoExtractQueryKeyValue s (MakeRange b e) = Some (q, k, v) \<and> ctext s k = Some (takeWhile (\<lambda>c. c \<noteq> 38 \<and> c \<noteq> 61) w)
    \<and> (let r = dropWhile (\<lambda>c. c \<noteq> 38 \<and> c \<noteq> 61) w; r' = (if r \<noteq> [] \<and> hd r = 61 then tl r else r) in
         ctext s v = Some (takeWhile (\<lambda>c. c \<noteq> 38) r') \<and> (\<exists>c. q = MakeRange c e \<and> b < c \<and> c \<le> e \<and> window s c e = tl (dropWhile (\<lambda>c. c \<noteq> 38) r')))"
proof -
  let ?P = "\<lambda>c. c \<noteq> 38 \<and> c \<noteq> 61" and ?Q = "\<lambda>c :: u8. c \<noteq> 38"
  define i where "i = scan_while ?P s b e"
  have i: "b \<le> i" "i \<le> e" "window s b i = takeWhile ?P w" "window s i e = dropWhile ?P w"
    using scan_while_window [of b e s ?P] assms by (simp_all add: i_def)
  define j where "j = (if i < e \<and> s ! nat i = 61 then i + 1 else i)"
  have wi: "i < e \<Longrightarrow> window s i e = s ! nat i # window s (i + 1) e" using window_Cons [of i e s] i assms by simp
  have j: "i \<le> j" "j \<le> e" "window s j e = (if window s i e \<noteq> [] \<and> hd (window s i e) = 61 then tl (window s i e) else window s i e)"
    using wi window_Nil_iff [of i e s] i assms by (auto simp: j_def)
  define k where "k = scan_while ?Q s j e"
  have k: "j \<le> k" "k \<le> e" "window s j k = takeWhile ?Q (window s j e)" "window s k e = dropWhile ?Q (window s j e)"
    using scan_while_window [of j e s ?Q] i j assms by (simp_all add: k_def)
  define c where "c = (if k < e \<and> s ! nat k = 38 then k + 1 else k)"
  have stop: "k < e \<Longrightarrow> s ! nat k = 38" using scan_while_end(2) [of j e s ?Q] i j assms by (simp add: k_def)
  have wc: "window s c e = tl (window s k e)" "k \<le> c" "c \<le> e"
    using stop window_Cons [of k e s] i j k assms by (cases "k < e"; simp add: c_def)+
  have "b < c"
  proof (cases "k < e")
    case True
    then show ?thesis using stop i j k by (simp add: c_def)
  next
    case False
    then show ?thesis using wc k assms by simp
  qed
  have "DoExtractQueryKeyValue s (MakeRange b e) = Some (MakeRange c e, Comp b (i - b), Comp j (k - j))"
    using assms by (simp add: DoExtractQueryKeyValue_def is_nonempty_def MakeRange_def c_end_def Let_def i_def j_def k_def c_def)
  moreover have "ctext s (Comp b (i - b)) = Some (window s b i)" "ctext s (Comp j (k - j)) = Some (window s j k)"
    using i(1) k(1) by (simp_all add: ctext_range)
  ultimately show ?thesis using wc \<open>b < c\<close> unfolding Let_def i(3,4) [symmetric] j(3) [symmetric] k(3,4) [symmetric] by blast
qed

text \<open>A client that takes key and value pairs from a query until there is none left, at most \<open>n\<close> times.\<close>

fun extract_all :: "nat \<Rightarrow> buffer \<Rightarrow> Component \<Rightarrow> (buffer option \<times> buffer option) list" where
  "extract_all 0 s q = []"
| "extract_all (Suc n) s q =
     (case DoExtractQueryKeyValue s q of None \<Rightarrow> [] | Some (q', k, v) \<Rightarrow> (ctext s k, ctext s v) # extract_all n s q')"

fun print_query :: "(buffer \<times> buffer) list \<Rightarrow> buffer" where
  "print_query [] = []"
| "print_query [(k, v)] = k @ 61 # v"
| "print_query ((k, v) # p # ps) = k @ 61 # v @ 38 # print_query (p # ps)"

lemma print_query_Cons: "print_query ((k, v) # ps) = k @ 61 # v @ (if ps = [] then [] else 38 # print_query ps)"
  by (cases ps) simp_all

lemma query_round_trip:
  assumes "list_all (\<lambda>(k, v). 38 \<notin> set k \<and> 61 \<notin> set k \<and> 38 \<notin> set v) ps"
    and "0 \<le> b" "b \<le> e" "e \<le> int (length s)" "window s b e = print_query ps" "length ps < n"
  shows "extract_all n s (MakeRange b e) = map (\<lambda>(k, v). (Some k, Some v)) ps"
  using assms
proof (induction ps arbitrary: b n)
  case Nil
  then have "b = e" using window_Nil_iff [of b e s] by simp
  then have "DoExtractQueryKeyValue s (MakeRange b e) = None" by (simp add: DoExtractQueryKeyValue_def is_nonempty_def MakeRange_def)
  then show ?case by (cases n) simp_all
next
  case (Cons p ps)
  obtain k v where p: "p = (k, v)" by (cases p)
  obtain m where n: "n = Suc m" using Cons.prems(6) by (cases n) simp_all
  let ?w = "window s b e" and ?t = "if ps = [] then [] else 38 # print_query ps"
  have w: "?w = k @ 61 # v @ ?t" using Cons.prems(5) p by (simp add: print_query_Cons)
  then have be: "b < e" using window_Nil_iff [of b e s] Cons.prems by (cases "b = e") auto
  have ok: "38 \<notin> set k" "61 \<notin> set k" "38 \<notin> set v" using Cons.prems(1) p by simp_all
  have "takeWhile (\<lambda>c. c \<noteq> 38 \<and> c \<noteq> 61) (k @ 61 # v @ ?t) = k \<and> dropWhile (\<lambda>c. c \<noteq> 38 \<and> c \<noteq> 61) (k @ 61 # v @ ?t) = 61 # v @ ?t"
    using ok by (intro takeWhile_stop) auto
  moreover have "takeWhile (\<lambda>c. c \<noteq> 38) (v @ ?t) = v \<and> dropWhile (\<lambda>c. c \<noteq> 38) (v @ ?t) = ?t"
    using ok by (intro takeWhile_stop) auto
  ultimately obtain q kc vc c where step: "DoExtractQueryKeyValue s (MakeRange b e) = Some (q, kc, vc)" "ctext s kc = Some k" "ctext s vc = Some v"
    "q = MakeRange c e" "b < c" "c \<le> e" "window s c e = tl ?t"
    using query_step [OF Cons.prems(2) be Cons.prems(4)] unfolding w Let_def by auto
  have "extract_all m s (MakeRange c e) = map (\<lambda>(k, v). (Some k, Some v)) ps"
    using Cons.IH [of c m] Cons.prems step n by (auto split: if_splits)
  then show ?case using step n p by simp
qed

subsection \<open>The other parsers\<close>

lemma scheme_from_ok:
  assumes "0 \<le> b" "b < e" "e \<le> int (length s)" "\<not> ShouldTrimFromURL (s ! nat b)"
  shows "scheme_from s b e = (if 58 \<in> set (window s b e) then Some (Comp b (scan_while (\<lambda>c. c \<noteq> 58) s b e - b)) else None)"
proof -
  let ?d = "drop (nat b) s"
  have w: "window ?d 0 (e - b) = window s b e" by (simp add: window_def)
  have len: "e - b \<le> int (length ?d)" using assms by simp
  have first: "\<not> ShouldTrimFromURL (?d ! nat 0)" using assms by simp
  have "scan_while (\<lambda>c. c \<noteq> 58) ?d 0 (e - b) = scan_while (\<lambda>c. c \<noteq> 58) s b e - b"
    using scan_length [of 0 "e - b" ?d "\<lambda>c. c \<noteq> 58"] scan_length [of b e s "\<lambda>c. c \<noteq> 58"] assms len w by simp
  then show ?thesis using DoExtractScheme_ok [of 0 "e - b" ?d] assms len first w by (simp add: scheme_from_def)
qed

text \<open>On a text with a scheme the parser for \<^verbatim>\<open>rtsp\<close> is the standard parser, and the one for \<^verbatim>\<open>rtmp\<close> differs from it only in that it
  forgets the user name and the password.\<close>

lemma rtsp_rtmp_standard:
  fixes s :: buffer
  assumes "58 \<in> set (text_trim s)"
  defines "n \<equiv> int (length s)"
  shows "DoParseRtspURL s n p = DoParseStandardURL s n p"
    "DoParseRtmpURL s n p = (DoParseStandardURL s n p)\<lparr>p_username := no_component, p_password := no_component\<rparr>"
proof -
  obtain b e where trim: "TrimURL s 0 n True = (b, e)" and be: "0 \<le> b" "b \<le> e" "e \<le> n" "window s b e = text_trim s"
    "list_all ShouldTrimFromURL (window s 0 b)" "b < e \<longrightarrow> \<not> ShouldTrimFromURL (s ! nat b)"
    using TrimURL_ok [of n s] by (auto simp: n_def)
  have ne: "b < e" using assms be(4) be(2) by (cases "b = e") auto
  have e: "e \<le> int (length s)" using be by (simp add: n_def)
  have "scheme_from s b e = DoExtractScheme s e" "DoExtractScheme s e \<noteq> None"
    using scheme_from_ok [OF be(1) ne e] DoExtractScheme_ok [OF be(1,2) e be(5,6)] be ne assms by simp_all
  then obtain sc where "scheme_from s b e = Some sc" "DoExtractScheme s e = Some sc" by auto
  then show "DoParseRtspURL s n p = DoParseStandardURL s n p"
    "DoParseRtmpURL s n p = (DoParseStandardURL s n p)\<lparr>p_username := no_component, p_password := no_component\<rparr>"
    using ne by (simp_all add: DoParseRtspURL_def DoParseRtmpURL_def DoParseStandardURL_def DoParseAfterScheme_def trim
      set_authority_def set_path_def Let_def split: prod.splits)
qed

subsection \<open>Results\<close>





end
