(* ===== verification/Parse_Number.thy ===== *)
theory Parse_Number
  imports Numbers Strings
begin

text \<open>
  \<^verbatim>\<open>src/parse_number.cpp\<close>: numbers in the format of the IETF standards, with the reason of a failure.

  The four functions are \<open>ParseIntHelper\<close> at their types. A failure carries the error; the code only leaves out its
  computation when the caller does not ask for it. The specification reads the number that is written and compares it with the
  range of the type.
\<close>

datatype ParseIntFormat = NON_NEGATIVE | OPTIONALLY_NEGATIVE

datatype ParseIntError = FAILED_OVERFLOW | FAILED_UNDERFLOW | FAILED_PARSE

definition IsAsciiDigit :: "u8 \<Rightarrow> bool" where
  "IsAsciiDigit c \<longleftrightarrow> 48 \<le> c \<and> c \<le> 57"

text \<open>The overloads of \<^verbatim>\<open>StringToNumber\<close> choose \<^verbatim>\<open>StringToInt\<close>, \<^verbatim>\<open>StringToUint\<close>, \<^verbatim>\<open>StringToInt64\<close> or \<^verbatim>\<open>StringToUint64\<close> by the type,
  here by its traits.\<close>

definition StringToNumber :: "traits \<Rightarrow> buffer \<Rightarrow> bool \<times> int" where
  "StringToNumber t input = IteratorRangeToNumber t input"

definition ParseIntHelper :: "traits \<Rightarrow> buffer \<Rightarrow> ParseIntFormat \<Rightarrow> ParseIntError + int" where
  "ParseIntHelper t input format =
     (if input = [] then Inl FAILED_PARSE
      else
        let starts_with_negative = (input ! 0 = 45);
            starts_with_digit = IsAsciiDigit (input ! 0)
        in if \<not> starts_with_digit \<and> (format = NON_NEGATIVE \<or> \<not> starts_with_negative) then Inl FAILED_PARSE
           else case StringToNumber t input of (ok, result) \<Rightarrow>
             if ok then Inr result
             else
               let numeric_portion = (if starts_with_negative then piece_substr input 1 npos else input) in
               if numeric_portion \<noteq> [] \<and> find_first_not_of numeric_portion (bytes ''0123456789'') 0 = None
               then Inl (if starts_with_negative then FAILED_UNDERFLOW else FAILED_OVERFLOW)
               else Inl FAILED_PARSE)"

definition ParseInt32 :: "buffer \<Rightarrow> ParseIntFormat \<Rightarrow> ParseIntError + int" where
  "ParseInt32 input format = ParseIntHelper (signed_traits 32 10) input format"
definition ParseInt64 :: "buffer \<Rightarrow> ParseIntFormat \<Rightarrow> ParseIntError + int" where
  "ParseInt64 input format = ParseIntHelper (signed_traits 64 10) input format"
definition ParseUint32 :: "buffer \<Rightarrow> ParseIntError + int" where
  "ParseUint32 input = ParseIntHelper (unsigned_traits 32 10) input NON_NEGATIVE"
definition ParseUint64 :: "buffer \<Rightarrow> ParseIntError + int" where
  "ParseUint64 input = ParseIntHelper (unsigned_traits 64 10) input NON_NEGATIVE"

subsection \<open>The number that is written\<close>

definition written :: "ParseIntFormat \<Rightarrow> buffer \<Rightarrow> int option" where
  "written format s =
     (if s = [] then None
      else if hd s = 45
        then if format = NON_NEGATIVE \<or> tl s = [] then None else map_option uminus (digits_value 10 0 (tl s))
      else digits_value 10 0 s)"

definition ranged :: "traits \<Rightarrow> int option \<Rightarrow> ParseIntError + int" where
  "ranged t n =
     (case n of None \<Rightarrow> Inl FAILED_PARSE
      | Some n \<Rightarrow> if n < t_min t then Inl FAILED_UNDERFLOW else if n > t_max t then Inl FAILED_OVERFLOW else Inr n)"

lemma decimal_digit: "CharToDigit 10 c \<noteq> None \<longleftrightarrow> 48 \<le> c \<and> c \<le> 57"
  by (auto simp: CharToDigit_def Let_def word_le_def)

lemma digits_value_None: "digits_value base acc ds = None \<longleftrightarrow> (\<exists>c\<in>set ds. CharToDigit base c = None)"
  by (induction ds arbitrary: acc) (auto split: option.splits)

lemma least_from_None: "least_from Q pos n = None \<longleftrightarrow> filter Q [pos..<n] = []"
  by (simp add: least_from_def split: list.split)

lemma all_digits: "find_first_not_of s (bytes ''0123456789'') 0 = None \<longleftrightarrow> digits_value 10 0 s \<noteq> None"
proof -
  have d: "c \<in> set (bytes ''0123456789'') \<longleftrightarrow> CharToDigit 10 c \<noteq> None" for c :: u8
  proof -
    have "c \<in> set (bytes ''0123456789'') \<longleftrightarrow> 48 \<le> unat c \<and> unat c \<le> 57"
      by (simp add: word_unat_eq_iff) presburger
    then show ?thesis unfolding decimal_digit by (simp add: word_le_nat_alt)
  qed
  have "find_first_not_of s (bytes ''0123456789'') 0 = None \<longleftrightarrow> (\<forall>i<length s. CharToDigit 10 (s ! i) \<noteq> None)"
    unfolding find_first_not_of_eq [OF disjI2 [OF refl]] d least_from_None by (auto simp: filter_empty_conv)
  moreover have "digits_value 10 0 s \<noteq> None \<longleftrightarrow> (\<forall>c\<in>set s. CharToDigit 10 c \<noteq> None)" by (simp add: digits_value_None)
  ultimately show ?thesis by (simp only: all_set_conv_all_nth)
qed

lemma ParseIntHelper_eq:
  assumes t: "decimal t" and sgn: "t_signed t \<or> format = NON_NEGATIVE" and len: "length s < 2 ^ 64"
  shows "ParseIntHelper t s format = ranged t (written format s)"
proof (cases s)
  case Nil
  then show ?thesis by (simp add: ParseIntHelper_def ranged_def written_def)
next
  case (Cons c cs)
  have s0: "s \<noteq> []" "s ! 0 = c" "piece_substr s 1 npos = cs" using Cons piece_substr_rest [of 1 s] len by auto
  have run: "(case StringToNumber t s of (ok, v) \<Rightarrow> if ok then Inr v else r) = (case DoStringToInt t s of Some v \<Rightarrow> Inr v | None \<Rightarrow> r)" for r :: "ParseIntError + int"
    by (auto simp: DoStringToInt_def StringToNumber_def split: prod.splits)
  have conv: "ParseIntHelper t s format =
    (if \<not> IsAsciiDigit c \<and> (format = NON_NEGATIVE \<or> c \<noteq> 45) then Inl FAILED_PARSE
     else case DoStringToInt t s of Some v \<Rightarrow> Inr v
       | None \<Rightarrow> if (if c = 45 then cs else s) \<noteq> [] \<and> digits_value 10 0 (if c = 45 then cs else s) \<noteq> None
           then Inl (if c = 45 then FAILED_UNDERFLOW else FAILED_OVERFLOW) else Inl FAILED_PARSE)"
    unfolding ParseIntHelper_def Let_def run s0(2,3) all_digits using s0(1) by simp
  have kb: "kBase t = 10" using t by (simp add: decimal_def)
  have b: "t_min t \<le> 0" "0 \<le> t_max t" using t by (auto simp: decimal_def split: if_splits)
  have ge: "0 \<le> n" if "digits_value 10 0 ds = Some n" for ds n using digits_value_ge [OF that] by simp
  have num: "DoStringToInt t s = Some v \<longleftrightarrow> t_min t \<le> v \<and> v \<le> t_max t
    \<and> (if c = 45 then t_signed t \<and> cs \<noteq> [] \<and> digits_value 10 0 cs = Some (- v)
       else if c = 43 then cs \<noteq> [] \<and> digits_value 10 0 cs = Some v
       else digits_value 10 0 s = Some v)" for v
    using DoStringToInt_exact [OF t, of s v] denotes_Cons [OF kb, of c cs v] Cons by simp
  consider (minus) "c = 45" | (digit) "c \<noteq> 45" "IsAsciiDigit c" | (other) "c \<noteq> 45" "\<not> IsAsciiDigit c" by blast
  then show ?thesis
  proof cases
    case minus
    have nd: "\<not> IsAsciiDigit 45" by (simp add: IsAsciiDigit_def)
    show ?thesis
    proof (cases "format = NON_NEGATIVE")
      case True
      then have "written format s = None" using minus Cons by (simp add: written_def)
      then show ?thesis unfolding conv using minus nd True by (simp add: ranged_def)
    next
      case False
      have w: "written format s = (if cs = [] then None else map_option uminus (digits_value 10 0 cs))"
        using False minus Cons by (simp add: written_def)
      show ?thesis
      proof (cases "cs \<noteq> [] \<and> digits_value 10 0 cs \<noteq> None \<and> t_min t \<le> - the (digits_value 10 0 cs)")
        case True
        then obtain n where n: "digits_value 10 0 cs = Some n" by auto
        then have "DoStringToInt t s = Some (- n)" using num [of "- n"] True minus sgn False ge [OF n] b by simp
        then show ?thesis unfolding conv using minus nd False w n True ge [OF n] b by (simp add: ranged_def)
      next
        case no: False
        have "DoStringToInt t s \<noteq> Some v" for v using num [of v] no minus by auto
        then have "DoStringToInt t s = None" by (meson option.exhaust)
        then show ?thesis unfolding conv using minus nd False w no by (auto simp: ranged_def split: option.splits)
      qed
    qed
  next
    case digit
    then have c43: "c \<noteq> 43" by (auto simp: IsAsciiDigit_def)
    have w: "written format s = digits_value 10 0 s" using digit Cons by (simp add: written_def)
    show ?thesis
    proof (cases "digits_value 10 0 s \<noteq> None \<and> the (digits_value 10 0 s) \<le> t_max t")
      case True
      then obtain n where n: "digits_value 10 0 s = Some n" by auto
      then have "DoStringToInt t s = Some n" using num [of n] True digit c43 ge [OF n] b by simp
      then show ?thesis unfolding conv using digit w n True ge [OF n] b by (simp add: ranged_def)
    next
      case no: False
      have "DoStringToInt t s \<noteq> Some v" for v using num [of v] no digit c43 by auto
      then have "DoStringToInt t s = None" by (meson option.exhaust)
      moreover have "digits_value 10 0 s = Some n \<Longrightarrow> t_min t \<le> n" for n using ge b by fastforce
      ultimately show ?thesis unfolding conv using digit w no s0(1) by (auto simp: ranged_def split: option.splits)
    qed
  next
    case other
    then have "CharToDigit 10 c = None" using decimal_digit [of c] by (auto simp: IsAsciiDigit_def)
    then have "written format s = None" using other Cons by (simp add: written_def)
    then show ?thesis unfolding conv using other by (simp add: ranged_def)
  qed
qed

subsection \<open>Properties\<close>

text \<open>C27. The parsers of numbers are exact on every text, failures included: the number that is written, a sequence of digits after
  a minus sign where the format allows one, is returned if it is in the range of the type, and otherwise the error says whether
  it is too high or too low; every other text is refused as no number.\<close>

theorem parse_number_exact:
  assumes "length s < 2 ^ 64"
  shows "ParseInt32 s format = ranged (signed_traits 32 10) (written format s)
    \<and> ParseInt64 s format = ranged (signed_traits 64 10) (written format s)
    \<and> ParseUint32 s = ranged (unsigned_traits 32 10) (written NON_NEGATIVE s)
    \<and> ParseUint64 s = ranged (unsigned_traits 64 10) (written NON_NEGATIVE s)"
  unfolding ParseInt32_def ParseInt64_def ParseUint32_def ParseUint64_def
proof -
  have "t_signed (signed_traits w 10)" for w by (simp add: signed_traits_def)
  then show "ParseIntHelper (signed_traits 32 10) s format = ranged (signed_traits 32 10) (written format s)
    \<and> ParseIntHelper (signed_traits 64 10) s format = ranged (signed_traits 64 10) (written format s)
    \<and> ParseIntHelper (unsigned_traits 32 10) s NON_NEGATIVE = ranged (unsigned_traits 32 10) (written NON_NEGATIVE s)
    \<and> ParseIntHelper (unsigned_traits 64 10) s NON_NEGATIVE = ranged (unsigned_traits 64 10) (written NON_NEGATIVE s)"
    using assms by (simp add: ParseIntHelper_eq)
qed

theorem parse_number_exact_witness:
  "ParseInt32 (bytes ''-2147483649'') OPTIONALLY_NEGATIVE = Inl FAILED_UNDERFLOW"
proof -
  have "ranged (signed_traits 32 10) (written OPTIONALLY_NEGATIVE (bytes ''-2147483649'')) = Inl FAILED_UNDERFLOW" by code_simp
  then show ?thesis using parse_number_exact [of "bytes ''-2147483649''" OPTIONALLY_NEGATIVE] by simp
qed

end
