(* ===== verification/Ip_Literal.thy ===== *)
theory Ip_Literal
  imports Url_Parse Parse_Number
begin

text \<open>
  Reading and printing IP addresses: \<^verbatim>\<open>src/uri/url_canon_ip.cpp\<close>, with the character classes of
  \<^verbatim>\<open>src/uri/url_canon_internal.cpp\<close>.

  An IPv4 literal has one to four numbers, each decimal, octal or hexadecimal, and the last one fills the bytes that are
  left. An IPv6 literal has up to eight groups of hexadecimal digits, at most one contraction \<^verbatim>\<open>::\<close>, and may end with an
  IPv4 literal. The parsers work on offsets in the given text as those of \<open>Url_Parse\<close> do. An address array is a list of
  bytes that is updated in place; on a failure it may be partly written, as in the code. The IPv4 parser is compared with
  a definition on the parts between the dots. \<open>Ipv6_Literal\<close> continues with the proofs about IPv6.
\<close>

subsection \<open>Classes of characters\<close>

datatype SharedCharTypes = CHAR_QUERY | CHAR_USERINFO | CHAR_IPV4 | CHAR_HEX | CHAR_DEC | CHAR_OCT | CHAR_COMPONENT

fun type_bit :: "SharedCharTypes \<Rightarrow> u8" where
  "type_bit CHAR_QUERY = 1"
| "type_bit CHAR_USERINFO = 2"
| "type_bit CHAR_IPV4 = 4"
| "type_bit CHAR_HEX = 8"
| "type_bit CHAR_DEC = 16"
| "type_bit CHAR_OCT = 32"
| "type_bit CHAR_COMPONENT = 64"

definition kSharedCharTypeTable :: "u8 list" where
  "kSharedCharTypeTable = [
     0, 0, 0, 0, 0, 0, 0, 0, 0, 0, 0, 0, 0, 0, 0, 0,
     0, 0, 0, 0, 0, 0, 0, 0, 0, 0, 0, 0, 0, 0, 0, 0,
     0, 67, 0, 0, 3, 3, 3, 0, 67, 67, 67, 3, 3, 67, 71, 1,
     127, 127, 127, 127, 127, 127, 127, 127, 95, 95, 1, 1, 0, 1, 0, 1,
     1, 79, 79, 79, 79, 79, 79, 67, 67, 67, 67, 67, 67, 67, 67, 67,
     67, 67, 67, 67, 67, 67, 67, 67, 71, 67, 67, 1, 1, 1, 1, 67,
     1, 79, 79, 79, 79, 79, 79, 67, 67, 67, 67, 67, 67, 67, 67, 67,
     67, 67, 67, 67, 67, 67, 67, 67, 71, 67, 67, 1, 1, 1, 67, 0,
     0, 0, 0, 0, 0, 0, 0, 0, 0, 0, 0, 0, 0, 0, 0, 0,
     0, 0, 0, 0, 0, 0, 0, 0, 0, 0, 0, 0, 0, 0, 0, 0,
     0, 0, 0, 0, 0, 0, 0, 0, 0, 0, 0, 0, 0, 0, 0, 0,
     0, 0, 0, 0, 0, 0, 0, 0, 0, 0, 0, 0, 0, 0, 0, 0,
     0, 0, 0, 0, 0, 0, 0, 0, 0, 0, 0, 0, 0, 0, 0, 0,
     0, 0, 0, 0, 0, 0, 0, 0, 0, 0, 0, 0, 0, 0, 0, 0,
     0, 0, 0, 0, 0, 0, 0, 0, 0, 0, 0, 0, 0, 0, 0, 0,
     0, 0, 0, 0, 0, 0, 0, 0, 0, 0, 0, 0, 0, 0, 0, 0]"

definition IsCharOfType :: "u8 \<Rightarrow> SharedCharTypes \<Rightarrow> bool" where
  "IsCharOfType c type \<longleftrightarrow> kSharedCharTypeTable ! unat c AND type_bit type \<noteq> 0"

definition IsIPv4Char :: "u8 \<Rightarrow> bool" where "IsIPv4Char c = IsCharOfType c CHAR_IPV4"
definition IsHexChar :: "u8 \<Rightarrow> bool" where "IsHexChar c = IsCharOfType c CHAR_HEX"

definition BaseForType :: "SharedCharTypes \<Rightarrow> int" where
  "BaseForType type = (if type = CHAR_HEX then 16 else if type = CHAR_DEC then 10 else if type = CHAR_OCT then 8 else 0)"

subsection \<open>Numbers of the standard library\<close>

text \<open>\<^verbatim>\<open>strtoull\<close> on a text that starts with a digit or is empty, and has no prefix for the base.\<close>

definition strtoui64 :: "buffer \<Rightarrow> int \<Rightarrow> int" where
  "strtoui64 buf base =
     min (2 ^ 64 - 1) (the (digits_value base 0 (takeWhile (\<lambda>c. CharToDigit base c \<noteq> None) buf)))"

definition digit_text :: "nat \<Rightarrow> u8" where
  "digit_text d = (if d < 10 then of_nat (48 + d) else of_nat (87 + d))"

function radix_text :: "nat \<Rightarrow> nat \<Rightarrow> buffer" where
  "radix_text b n = (if b < 2 \<or> n < b then [digit_text n] else radix_text b (n div b) @ [digit_text (n mod b)])"
  by pat_completeness auto

termination
  by (relation "measure snd") auto

declare radix_text.simps [simp del]

text \<open>\<^verbatim>\<open>snprintf\<close> with the formats \<^verbatim>\<open>%d\<close> and \<^verbatim>\<open>%x\<close>. The result is the error number and the text in the buffer.\<close>

definition snprintf_int :: "int \<Rightarrow> int \<Rightarrow> buffer" where
  "snprintf_int radix val =
     (if radix = 10 then (if val < 0 then 45 # radix_text 10 (nat (- val)) else radix_text 10 (nat val))
      else radix_text 16 (nat (val mod 2 ^ 32)))"

definition itoa_s :: "int \<Rightarrow> buffer \<Rightarrow> nat \<Rightarrow> int \<Rightarrow> int \<times> buffer" where
  "itoa_s val buf size_in_chars radix =
     (if radix \<noteq> 10 \<and> radix \<noteq> 16 then (22, buf)
      else
        let written = snprintf_int radix val in
        (if length written \<ge> size_in_chars then 22 else 0, take (size_in_chars - 1) written))"

subsection \<open>IPv4\<close>

datatype Family = NEUTRAL | BROKEN | IPV4 | IPV6

text \<open>\<open>comps\<close> holds the entries of the array of components that have been written.\<close>

function find_ipv4_loop :: "buffer \<Rightarrow> int \<Rightarrow> int \<Rightarrow> int \<Rightarrow> Component list \<Rightarrow> Component list option" where
  "find_ipv4_loop spec i e cur_component_begin comps =
     (if i \<ge> e \<or> spec ! nat i = 46 then
        let component_len = i - cur_component_begin;
            comps = comps @ [Comp cur_component_begin component_len]
        in if component_len = 0 \<and> (i < e \<or> length comps = 1) then None
           else if i \<ge> e then Some comps
           else if length comps = 4 then (if spec ! nat i = 46 \<and> i + 1 = e then Some comps else None)
           else find_ipv4_loop spec (i + 1) e (i + 1) comps
      else if spec ! nat i \<ge> 128 \<or> \<not> IsIPv4Char (spec ! nat i) then None
      else find_ipv4_loop spec (i + 1) e cur_component_begin comps)"
  by pat_completeness auto

termination
  by (relation "measure (\<lambda>(_, i, e, _). nat (e - i))") auto

declare find_ipv4_loop.simps [simp del]

definition DoFindIPv4Components :: "buffer \<Rightarrow> Component \<Rightarrow> Component list option" where
  "DoFindIPv4Components spec host =
     (if \<not> is_nonempty host then None
      else map_option (\<lambda>comps. comps @ replicate (4 - length comps) no_component)
             (find_ipv4_loop spec (c_begin host) (c_end host) (c_begin host) []))"

function component_digits :: "buffer \<Rightarrow> int \<Rightarrow> int \<Rightarrow> SharedCharTypes \<Rightarrow> buffer \<Rightarrow> buffer option" where
  "component_digits spec i n base buf =
     (if i < n then
        if \<not> IsCharOfType (spec ! nat i) base then None
        else component_digits spec (i + 1) n base (if length buf < 16 then buf @ [spec ! nat i] else buf)
      else Some buf)"
  by pat_completeness auto

termination
  by (relation "measure (\<lambda>(_, i, n, _). nat (n - i))") auto

declare component_digits.simps [simp del]

definition component_base :: "buffer \<Rightarrow> Component \<Rightarrow> SharedCharTypes \<times> int" where
  "component_base spec component =
     (if spec ! nat (c_begin component) = 48 then
        if c_len component = 1 then (CHAR_DEC, 0)
        else if spec ! nat (c_begin component + 1) = 88 \<or> spec ! nat (c_begin component + 1) = 120 then (CHAR_HEX, 2)
        else (CHAR_OCT, 1)
      else (CHAR_DEC, 0))"

definition IPv4ComponentToNumber :: "buffer \<Rightarrow> Component \<Rightarrow> Family + u32" where
  "IPv4ComponentToNumber spec component =
     (let (base, base_prefix_len) = component_base spec component;
          base_prefix_len =
            scan_while (\<lambda>c. c = 48) spec (c_begin component + base_prefix_len) (c_begin component + c_len component)
              - c_begin component
      in case component_digits spec (c_begin component + base_prefix_len) (c_end component) base [] of
           None \<Rightarrow> Inl NEUTRAL
         | Some buf \<Rightarrow>
             let num = strtoui64 buf (BaseForType base) in
             if num > 2 ^ 32 - 1 then Inl BROKEN else Inr (word_of_int num))"

text \<open>The loop over the four components. The entry of a broken component is not written, and it is never read.\<close>

fun ipv4_values :: "buffer \<Rightarrow> Component list \<Rightarrow> bool \<Rightarrow> u32 list \<Rightarrow> Family + bool \<times> u32 list" where
  "ipv4_values spec [] broken component_values = Inr (broken, component_values)"
| "ipv4_values spec (component # components) broken component_values =
     (if c_len component \<le> 0 then ipv4_values spec components broken component_values
      else case IPv4ComponentToNumber spec component of
          Inl family \<Rightarrow> if family = BROKEN then ipv4_values spec components True (component_values @ [0]) else Inl family
        | Inr number \<Rightarrow> ipv4_values spec components broken (component_values @ [number]))"

fun ipv4_leading :: "nat \<Rightarrow> u32 list \<Rightarrow> u8 list \<Rightarrow> bool \<times> u8 list" where
  "ipv4_leading i [] address = (True, address)"
| "ipv4_leading i (v # vs) address =
     (if v > 255 then (False, address) else ipv4_leading (Suc i) vs (address[i := ucast v]))"

fun ipv4_last :: "nat \<Rightarrow> nat \<Rightarrow> u32 \<Rightarrow> u8 list \<Rightarrow> u32 \<times> u8 list" where
  "ipv4_last lo 0 last_value address = (last_value, address)"
| "ipv4_last lo (Suc i) last_value address =
     (if i \<ge> lo then ipv4_last lo i (drop_bit 8 last_value) (address[i := ucast last_value]) else (last_value, address))"

text \<open>The result is the family, the address array and, on success, the number of components.\<close>

definition fill_ipv4 :: "u32 list \<Rightarrow> u8 list \<Rightarrow> Family \<times> u8 list \<times> nat option" where
  "fill_ipv4 component_values address =
     (let existing_components = length component_values;
          (fit, address) = ipv4_leading 0 (butlast component_values) address
      in if \<not> fit then (BROKEN, address, None)
         else
           let (last_value, address) = ipv4_last (existing_components - 1) 4 (last component_values) address in
           if last_value \<noteq> 0 then (BROKEN, address, None) else (IPV4, address, Some existing_components))"

definition DoIPv4AddressToNumber :: "buffer \<Rightarrow> Component \<Rightarrow> u8 list \<Rightarrow> Family \<times> u8 list \<times> nat option" where
  "DoIPv4AddressToNumber spec host address =
     (case DoFindIPv4Components spec host of
        None \<Rightarrow> (NEUTRAL, address, None)
      | Some components \<Rightarrow>
          (case ipv4_values spec components False [] of
             Inl family \<Rightarrow> (family, address, None)
           | Inr (broken, component_values) \<Rightarrow>
               if broken then (BROKEN, address, None) else fill_ipv4 component_values address))"

fun append_ipv4_loop :: "nat \<Rightarrow> u8 list \<Rightarrow> buffer \<Rightarrow> buffer" where
  "append_ipv4_loop i [] out = out"
| "append_ipv4_loop i (b # bs) out =
     append_ipv4_loop (Suc i) bs (out @ snd (itoa_s (uint b) [] 16 10) @ (if i \<noteq> 3 then [46] else []))"

definition AppendIPv4Address :: "u8 list \<Rightarrow> buffer \<Rightarrow> buffer" where
  "AppendIPv4Address address out = append_ipv4_loop 0 (take 4 address) out"

subsection \<open>IPv6\<close>

text \<open>The number of groups is the length of \<open>hex_components\<close>.\<close>

record IPv6Parsed =
  hex_components :: "Component list"
  index_of_contraction :: int
  ipv4_component :: Component

definition IPv6Parsed_reset :: IPv6Parsed where
  "IPv6Parsed_reset = \<lparr>hex_components = [], index_of_contraction = - 1, ipv4_component = no_component\<rparr>"

text \<open>The loop starts at or before \<open>e\<close> and steps over \<open>e\<close> never, since a contraction ends before \<open>e\<close>: the first test is for
  the other arguments of the function.\<close>

function parse_ipv6_loop :: "buffer \<Rightarrow> int \<Rightarrow> int \<Rightarrow> int \<Rightarrow> int \<Rightarrow> IPv6Parsed \<Rightarrow> IPv6Parsed option" where
  "parse_ipv6_loop spec b e i cur_component_begin parsed =
     (if i > e then None
      else
        let is_colon = (spec ! nat i = 58);
            is_contraction = (is_colon \<and> i < e - 1 \<and> spec ! nat (i + 1) = 58);
            at_end = (is_colon \<or> i = e);
            component_len = i - cur_component_begin
        in if at_end \<and> component_len > 4 then None
           else if at_end \<and> component_len = 0
             \<and> \<not> (is_contraction \<and> i = b \<or> i = e \<and> index_of_contraction parsed = int (length (hex_components parsed))) then None
           else if at_end \<and> component_len > 0 \<and> length (hex_components parsed) \<ge> 8 then None
           else
             let parsed = (if at_end \<and> component_len > 0
                   then parsed\<lparr>hex_components := hex_components parsed @ [Comp cur_component_begin component_len]\<rparr>
                   else parsed)
             in if i = e then Some parsed
                else if is_contraction \<and> index_of_contraction parsed \<noteq> - 1 then None
                else if is_contraction
                  then parse_ipv6_loop spec b e (i + 2) (i + 2)
                         (parsed\<lparr>index_of_contraction := int (length (hex_components parsed))\<rparr>)
                else if is_colon then parse_ipv6_loop spec b e (i + 1) (i + 1) parsed
                else if spec ! nat i \<ge> 128 then None
                else if \<not> IsHexChar (spec ! nat i)
                  then if IsIPv4Char (spec ! nat i)
                       then Some (parsed\<lparr>ipv4_component := Comp cur_component_begin (e - cur_component_begin)\<rparr>)
                       else None
                else parse_ipv6_loop spec b e (i + 1) cur_component_begin parsed)"
  by pat_completeness auto

termination
  by (relation "measure (\<lambda>(_, _, e, i, _). nat (e - i))") auto

declare parse_ipv6_loop.simps [simp del]

definition DoParseIPv6 :: "buffer \<Rightarrow> Component \<Rightarrow> IPv6Parsed option" where
  "DoParseIPv6 spec host =
     (if \<not> is_nonempty host then None
      else parse_ipv6_loop spec (c_begin host) (c_end host) (c_begin host) (c_begin host) IPv6Parsed_reset)"

definition CheckIPv6ComponentsSize :: "IPv6Parsed \<Rightarrow> int option" where
  "CheckIPv6ComponentsSize parsed =
     (let num_bytes_without_contraction =
            int (length (hex_components parsed)) * 2 + (if is_valid (ipv4_component parsed) then 4 else 0);
          num_bytes_of_contraction =
            (if index_of_contraction parsed \<noteq> - 1
             then if 16 - num_bytes_without_contraction < 2 then 2 else 16 - num_bytes_without_contraction
             else 0)
      in if num_bytes_without_contraction + num_bytes_of_contraction \<noteq> 16 then None else Some num_bytes_of_contraction)"

definition IPv6HexComponentToNumber :: "buffer \<Rightarrow> Component \<Rightarrow> u16" where
  "IPv6HexComponentToNumber spec component =
     word_of_int (strtoui64 (map (\<lambda>i. spec ! nat (c_begin component + int i)) [0..<nat (c_len component)]) 16)"

text \<open>\<open>(address, cur)\<close> is the address array and the index of the next byte to write.\<close>

fun put_bytes :: "u8 list \<Rightarrow> u8 list \<times> nat \<Rightarrow> u8 list \<times> nat" where
  "put_bytes [] st = st"
| "put_bytes (b # bs) (address, cur) = put_bytes bs (address[cur := b], Suc cur)"

definition put_contraction :: "int \<Rightarrow> int \<Rightarrow> int \<Rightarrow> u8 list \<times> nat \<Rightarrow> u8 list \<times> nat" where
  "put_contraction i contraction num_bytes st = (if i = contraction then put_bytes (replicate (nat num_bytes) 0) st else st)"

fun put_groups :: "buffer \<Rightarrow> int \<Rightarrow> int \<Rightarrow> int \<Rightarrow> Component list \<Rightarrow> u8 list \<times> nat \<Rightarrow> u8 list \<times> nat" where
  "put_groups spec contraction num_bytes i [] st = put_contraction i contraction num_bytes st"
| "put_groups spec contraction num_bytes i (c # cs) st =
     (let st = put_contraction i contraction num_bytes st;
          number = IPv6HexComponentToNumber spec c
      in put_groups spec contraction num_bytes (i + 1) cs
           (put_bytes [ucast (drop_bit 8 (number AND 0xFF00)), ucast (number AND 0x00FF)] st))"

definition DoIPv6AddressToNumber :: "buffer \<Rightarrow> Component \<Rightarrow> u8 list \<Rightarrow> bool \<times> u8 list" where
  "DoIPv6AddressToNumber spec host address =
     (if \<not> is_nonempty host \<or> spec ! nat (c_begin host) \<noteq> 91 \<or> spec ! nat (c_end host - 1) \<noteq> 93 then (False, address)
      else case DoParseIPv6 spec (Comp (c_begin host + 1) (c_len host - 2)) of
          None \<Rightarrow> (False, address)
        | Some ipv6_parsed \<Rightarrow>
            (case CheckIPv6ComponentsSize ipv6_parsed of
               None \<Rightarrow> (False, address)
             | Some num_bytes_of_contraction \<Rightarrow>
                 let (address, cur) =
                       put_groups spec (index_of_contraction ipv6_parsed) num_bytes_of_contraction 0 (hex_components ipv6_parsed)
                         (address, 0)
                 in if is_valid (ipv4_component ipv6_parsed)
                    then case DoIPv4AddressToNumber spec (ipv4_component ipv6_parsed) (drop cur address) of
                           (family, rest, _) \<Rightarrow> (family = IPV4, take cur address @ rest)
                    else (True, address)))"

definition contraction_step :: "u8 list \<Rightarrow> nat \<Rightarrow> Component \<times> Component \<Rightarrow> Component \<times> Component" where
  "contraction_step address i = (\<lambda>(max_range, cur_range).
     let is_zero = (address ! i = 0 \<and> address ! (i + 1) = 0);
         cur_range =
           (if is_zero
            then let cur_range = (if is_valid cur_range then cur_range else Comp (int i) 0)
                 in cur_range\<lparr>c_len := c_len cur_range + 2\<rparr>
            else cur_range)
     in if \<not> is_zero \<or> i = 14
        then (if c_len cur_range > 2 \<and> c_len cur_range > c_len max_range then cur_range else max_range, no_component)
        else (max_range, cur_range))"

definition ChooseIPv6ContractionRange :: "u8 list \<Rightarrow> Component" where
  "ChooseIPv6ContractionRange address =
     fst (fold (contraction_step address) [0, 2, 4, 6, 8, 10, 12, 14] (no_component, no_component))"

function append_ipv6_loop :: "u8 list \<Rightarrow> Component \<Rightarrow> int \<Rightarrow> buffer \<Rightarrow> buffer" where
  "append_ipv6_loop address contraction_range i out =
     (if i \<le> 14 then
        if i = c_begin contraction_range \<and> c_len contraction_range > 0
        then append_ipv6_loop address contraction_range (c_end contraction_range) (out @ (if i = 0 then [58] else []) @ [58])
        else
          let x = push_bit 8 (uint (address ! nat i)) OR uint (address ! nat (i + 1)) in
          append_ipv6_loop address contraction_range (i + 2)
            (out @ snd (itoa_s x [] 5 16) @ (if i + 2 < 16 then [58] else []))
      else out)"
  by pat_completeness auto

termination
  by (relation "measure (\<lambda>(_, _, i, _). nat (15 - i))") (auto simp: c_end_def)

declare append_ipv6_loop.simps [simp del]

definition AppendIPv6Address :: "u8 list \<Rightarrow> buffer \<Rightarrow> buffer" where
  "AppendIPv6Address address out = append_ipv6_loop address (ChooseIPv6ContractionRange address) 0 out"

subsection \<open>Canonical hosts\<close>

record CanonHostInfo =
  ci_family :: Family
  num_ipv4_components :: nat
  out_host :: Component
  ci_address :: "u8 list"

definition IsIPAddress :: "CanonHostInfo \<Rightarrow> bool" where
  "IsIPAddress info \<longleftrightarrow> ci_family info = IPV4 \<or> ci_family info = IPV6"

definition AddressLength :: "CanonHostInfo \<Rightarrow> nat" where
  "AddressLength info = (if ci_family info = IPV4 then 4 else if ci_family info = IPV6 then 16 else 0)"

definition DoCanonicalizeIPv4Address :: "buffer \<Rightarrow> Component \<Rightarrow> buffer \<Rightarrow> CanonHostInfo \<Rightarrow> bool \<times> buffer \<times> CanonHostInfo" where
  "DoCanonicalizeIPv4Address spec host out info =
     (let (family, address, num) = DoIPv4AddressToNumber spec host (ci_address info);
          info = info\<lparr>ci_family := family, ci_address := address,
                      num_ipv4_components := (case num of None \<Rightarrow> num_ipv4_components info | Some n \<Rightarrow> n)\<rparr>
      in case family of
           IPV4 \<Rightarrow>
             let out' = AppendIPv4Address address out in
             (True, out', info\<lparr>out_host := Comp (int (length out)) (int (length out') - int (length out))\<rparr>)
         | BROKEN \<Rightarrow> (True, out, info)
         | _ \<Rightarrow> (False, out, info))"

definition DoCanonicalizeIPv6Address :: "buffer \<Rightarrow> Component \<Rightarrow> buffer \<Rightarrow> CanonHostInfo \<Rightarrow> bool \<times> buffer \<times> CanonHostInfo" where
  "DoCanonicalizeIPv6Address spec host out info =
     (let (ok, address) = DoIPv6AddressToNumber spec host (ci_address info);
          info = info\<lparr>ci_address := address\<rparr>
      in if \<not> ok then
           if scan_while (\<lambda>c. c \<noteq> 91 \<and> c \<noteq> 93 \<and> c \<noteq> 58) spec (c_begin host) (c_end host) < c_end host
           then (True, out, info\<lparr>ci_family := BROKEN\<rparr>)
           else (False, out, info\<lparr>ci_family := NEUTRAL\<rparr>)
         else
           let out' = AppendIPv6Address address (out @ [91]) @ [93] in
           (True, out', info\<lparr>out_host := Comp (int (length out)) (int (length out') - int (length out)), ci_family := IPV6\<rparr>))"

definition CanonicalizeIPAddress :: "buffer \<Rightarrow> Component \<Rightarrow> buffer \<Rightarrow> CanonHostInfo \<Rightarrow> buffer \<times> CanonHostInfo" where
  "CanonicalizeIPAddress spec host out info =
     (case DoCanonicalizeIPv4Address spec host out info of
        (final, out, info) \<Rightarrow> if final then (out, info) else snd (DoCanonicalizeIPv6Address spec host out info))"

subsection \<open>What the classes are\<close>

lemma type_table_classes:
  "map (\<lambda>b. b AND type_bit CHAR_DEC \<noteq> 0) kSharedCharTypeTable = map (\<lambda>n. CharToDigit 10 (of_nat n) \<noteq> None) [0..<256]"
  "map (\<lambda>b. b AND type_bit CHAR_OCT \<noteq> 0) kSharedCharTypeTable = map (\<lambda>n. CharToDigit 8 (of_nat n) \<noteq> None) [0..<256]"
  "map (\<lambda>b. b AND type_bit CHAR_HEX \<noteq> 0) kSharedCharTypeTable = map (\<lambda>n. CharToDigit 16 (of_nat n) \<noteq> None) [0..<256]"
  "map (\<lambda>b. b AND type_bit CHAR_IPV4 \<noteq> 0) kSharedCharTypeTable
     = map (\<lambda>n. CharToDigit 16 (of_nat n) \<noteq> None \<or> of_nat n \<in> {46, 88, 120 :: u8}) [0..<256]"
  by code_simp+

lemma char_class:
  assumes "map (\<lambda>b. b AND type_bit t \<noteq> 0) kSharedCharTypeTable = map (\<lambda>n. P (of_nat n)) [0..<256]"
  shows "IsCharOfType c t = P c"
proof -
  have n: "unat c < 256" using unat_bound [of c] by simp
  have "length kSharedCharTypeTable = 256" using arg_cong [OF assms, of length] by simp
  then have "IsCharOfType c t = map (\<lambda>b. b AND type_bit t \<noteq> 0) kSharedCharTypeTable ! unat c"
    using n by (simp add: IsCharOfType_def)
  also have "\<dots> = P c" unfolding assms using n by simp
  finally show ?thesis .
qed

lemma char_types [simp]:
  "IsCharOfType c CHAR_DEC \<longleftrightarrow> CharToDigit 10 c \<noteq> None"
  "IsCharOfType c CHAR_OCT \<longleftrightarrow> CharToDigit 8 c \<noteq> None"
  "IsCharOfType c CHAR_HEX \<longleftrightarrow> CharToDigit 16 c \<noteq> None"
  by (rule char_class, rule type_table_classes)+

lemma IsHexChar_digit: "IsHexChar c \<longleftrightarrow> CharToDigit 16 c \<noteq> None"
  by (simp add: IsHexChar_def)

lemma IsIPv4Char_iff: "IsIPv4Char c \<longleftrightarrow> CharToDigit 16 c \<noteq> None \<or> c \<in> {46, 88, 120}"
  unfolding IsIPv4Char_def by (rule char_class, rule type_table_classes)

lemma CharToDigit_16_less: "CharToDigit 16 c = Some d \<Longrightarrow> c < 128"
  by (auto simp: CharToDigit_def Let_def word_less_def split: if_splits)

lemma IsIPv4Char_less: "IsIPv4Char c \<Longrightarrow> c < 128"
  using CharToDigit_16_less by (auto simp: IsIPv4Char_iff)

lemma digit_hex: "base \<in> {8, 10, 16} \<Longrightarrow> CharToDigit base c \<noteq> None \<Longrightarrow> CharToDigit 16 c \<noteq> None"
  by (auto simp: CharToDigit_def Let_def split: if_splits)

subsection \<open>Numbers\<close>

lemma digits_value_append:
  "digits_value base acc (xs @ ys) = (case digits_value base acc xs of None \<Rightarrow> None | Some v \<Rightarrow> digits_value base v ys)"
  by (induction xs arbitrary: acc) (auto split: option.splits)

lemma digits_value_bounds:
  assumes "digits_value base acc ds = Some v" "2 \<le> base" "0 \<le> acc"
  shows "acc * base ^ length ds \<le> v \<and> v < (acc + 1) * base ^ length ds"
  using assms
proof (induction ds arbitrary: acc)
  case (Cons c cs)
  then obtain d where d: "CharToDigit base c = Some d" "digits_value base (acc * base + d) cs = Some v" by (auto split: option.splits)
  note r = CharToDigit_range [OF d(1)]
  have nn: "0 \<le> acc * base + d" using r Cons.prems by simp
  have b: "(acc * base + d) * base ^ length cs \<le> v" "v < (acc * base + d + 1) * base ^ length cs"
    using Cons.IH [OF d(2) Cons.prems(2) nn] by auto
  have p: "0 \<le> base ^ length cs" using Cons.prems by simp
  have "acc * base * base ^ length cs \<le> (acc * base + d) * base ^ length cs" using r p by (intro mult_right_mono) auto
  moreover have "(acc * base + d + 1) * base ^ length cs \<le> (acc + 1) * base * base ^ length cs"
    using r p by (intro mult_right_mono) (auto simp: distrib_right)
  ultimately show ?case using b by (simp add: mult.assoc)
qed simp

lemma digits_value_zeros: "2 \<le> base \<Longrightarrow> digits_value base 0 (dropWhile (\<lambda>c. c = 48) ds) = digits_value base 0 ds"
  by (induction ds) (auto simp: CharToDigit_def)

lemma digit_one: "CharToDigit base c = Some d \<Longrightarrow> c \<noteq> 48 \<Longrightarrow> 1 \<le> d"
proof -
  assume "CharToDigit base c = Some d" "c \<noteq> 48"
  moreover from this have "uint c \<noteq> 48" using word_uint_eq_iff [of c 48] by simp
  ultimately show ?thesis by (auto simp: CharToDigit_def Let_def split: if_splits)
qed

text \<open>What a number of an IPv4 literal denotes: \<^verbatim>\<open>0x\<close> starts a hexadecimal and \<^verbatim>\<open>0\<close> an octal number.\<close>

fun part_value :: "buffer \<Rightarrow> int option" where
  "part_value (c # x # ds) =
     (if c \<noteq> 48 then digits_value 10 0 (c # x # ds)
      else if x = 88 \<or> x = 120 then digits_value 16 0 ds
      else digits_value 8 0 (x # ds))"
| "part_value ds = digits_value 10 0 ds"

lemma component_digits_eq:
  assumes "0 \<le> i" "i \<le> n" "n \<le> int (length s)" "length buf \<le> 16"
  shows "component_digits s i n t buf
    = (if \<forall>c\<in>set (window s i n). IsCharOfType c t then Some (take 16 (buf @ window s i n)) else None)"
  using assms
proof (induction s i n t buf rule: component_digits.induct)
  case (1 s i n t buf)
  show ?case
  proof (cases "i < n")
    case True
    then have w: "window s i n = s ! nat i # window s (i + 1) n" using 1 by (intro window_Cons) auto
    show ?thesis
      using 1 True by (subst component_digits.simps) (auto simp: w take_Cons')
  next
    case False
    with 1 have "i = n" by simp
    with 1 show ?thesis by (subst component_digits.simps) simp
  qed
qed

lemma strtoui64_take:
  assumes v: "digits_value base 0 ds = Some v" and base: "base \<in> {8, 10, 16}" and hd: "ds = [] \<or> hd ds \<noteq> 48"
  shows "strtoui64 (take 16 ds) base > 2 ^ 32 - 1 \<longleftrightarrow> v > 2 ^ 32 - 1"
    "v \<le> 2 ^ 32 - 1 \<Longrightarrow> strtoui64 (take 16 ds) base = v"
proof -
  let ?p = "take 16 ds" and ?r = "drop 16 ds"
  have ok: "\<forall>c\<in>set ds. CharToDigit base c \<noteq> None" using v digits_value_None [of base 0 ds] by auto
  obtain u where u: "digits_value base 0 ?p = Some u" and r: "digits_value base u ?r = Some v"
    using v digits_value_append [of base 0 ?p ?r] by (auto split: option.splits)
  have b2: "2 \<le> base" using base by auto
  have "u < base ^ length ?p" using digits_value_bounds [OF u b2] by simp
  also have "\<dots> \<le> base ^ 16" using b2 by (intro power_increasing) auto
  also have "\<dots> \<le> 2 ^ 64" using base by auto
  finally have u64: "u < 2 ^ 64" .
  have "\<forall>c\<in>set ?p. CharToDigit base c \<noteq> None" using ok by (meson in_set_takeD)
  then have tw: "takeWhile (\<lambda>c. CharToDigit base c \<noteq> None) ?p = ?p" by (simp only: takeWhile_eq_all_conv)
  have st: "strtoui64 ?p base = u" unfolding strtoui64_def tw u using u64 by simp
  have big: "2 ^ 32 - 1 < u \<and> 2 ^ 32 - 1 < v" if "length ds > 16"
  proof -
    from that obtain c cs where c: "ds = c # cs" by (cases ds) auto
    obtain d where d: "CharToDigit base c = Some d" using ok c by auto
    then have d1: "1 \<le> d" using hd c digit_one by auto
    have p: "?p = c # take 15 cs" by (simp add: c)
    then have u': "digits_value base d (take 15 cs) = Some u" using u d by simp
    have l: "length (take 15 cs) = 15" using that c by simp
    have "2 ^ 32 \<le> base ^ 15" using base by auto
    also have "\<dots> \<le> d * base ^ 15" using mult_right_mono [of 1 d "base ^ 15"] d1 b2 by simp
    also have "\<dots> \<le> u" using digits_value_bounds [OF u' b2] d1 l by simp
    finally have "2 ^ 32 \<le> u" .
    moreover have "u \<le> v" using digits_value_ge [OF r b2] digits_value_ge [OF u b2] by simp
    ultimately show ?thesis by simp
  qed
  have small: "u = v" if "\<not> length ds > 16" using that r by simp
  show "strtoui64 ?p base > 2 ^ 32 - 1 \<longleftrightarrow> v > 2 ^ 32 - 1"
    using big small st by (cases "length ds > 16") auto
  show "strtoui64 ?p base = v" if "v \<le> 2 ^ 32 - 1"
    using big small st that by (cases "length ds > 16") auto
qed

text \<open>A number read from its digits, whatever their number.\<close>

definition number_of :: "int option \<Rightarrow> Family + u32" where
  "number_of v = (case v of None \<Rightarrow> Inl NEUTRAL | Some v \<Rightarrow> if v > 2 ^ 32 - 1 then Inl BROKEN else Inr (word_of_int v))"

lemma component_number:
  assumes i: "0 \<le> i" "i \<le> e" "e \<le> int (length s)" and t: "t \<in> {CHAR_DEC, CHAR_OCT, CHAR_HEX}"
  defines "k \<equiv> scan_while (\<lambda>c. c = 48) s i e"
  shows "(case component_digits s k e t [] of None \<Rightarrow> Inl NEUTRAL
      | Some buf \<Rightarrow> let num = strtoui64 buf (BaseForType t) in if num > 2 ^ 32 - 1 then Inl BROKEN else Inr (word_of_int num))
    = number_of (digits_value (BaseForType t) 0 (window s i e))" (is "?l = _")
proof -
  let ?b = "BaseForType t"
  let ?ds = "dropWhile (\<lambda>c. c = 48) (window s i e)"
  note sw = scan_while_window [OF i, of "\<lambda>c. c = 48", folded k_def]
  have base: "?b \<in> {8, 10, 16}" using t by (auto simp: BaseForType_def)
  have cls: "IsCharOfType c t \<longleftrightarrow> CharToDigit ?b c \<noteq> None" for c using t by (auto simp: BaseForType_def)
  have cd: "component_digits s k e t [] = (if \<forall>c\<in>set ?ds. CharToDigit ?b c \<noteq> None then Some (take 16 ?ds) else None)"
    using component_digits_eq [of k e s "[]" t] sw i by (simp add: cls)
  have z: "digits_value ?b 0 (window s i e) = digits_value ?b 0 ?ds" using digits_value_zeros base by auto
  have hd: "?ds = [] \<or> hd ?ds \<noteq> 48" using hd_dropWhile [of "\<lambda>c. c = 48" "window s i e"] by auto
  show ?thesis
  proof (cases "digits_value ?b 0 ?ds")
    case None
    then have "\<not> (\<forall>c\<in>set ?ds. CharToDigit ?b c \<noteq> None)" by (auto simp: digits_value_None)
    then have "component_digits s k e t [] = None" unfolding cd by (rule if_not_P)
    then show ?thesis by (simp add: z None number_of_def)
  next
    case (Some v)
    then have "\<forall>c\<in>set ?ds. CharToDigit ?b c \<noteq> None" using digits_value_None [of ?b 0 ?ds] by auto
    then have "component_digits s k e t [] = Some (take 16 ?ds)" using cd by simp
    then show ?thesis
      using strtoui64_take [OF Some base hd] by (cases "v > 2 ^ 32 - 1") (simp_all add: z Some number_of_def Let_def)
  qed
qed

lemma IPv4ComponentToNumber_eq:
  assumes i: "0 \<le> b" "b < e" "e \<le> int (length s)"
  shows "IPv4ComponentToNumber s (Comp b (e - b)) = number_of (part_value (window s b e))"
proof -
  have w: "window s b e = s ! nat b # window s (b + 1) e" using i by (intro window_Cons) auto
  have w2: "window s (b + 1) e = s ! nat (b + 1) # window s (b + 2) e" if "e \<noteq> b + 1"
    using i that window_Cons [of "b + 1" e s] by (auto simp: add.commute)
  have one: "window s (b + 1) e = []" if "e = b + 1" using that by simp
  have z: "digits_value 8 0 (48 # ds) = digits_value 8 0 ds" for ds by (simp add: CharToDigit_def)
  define t p where "t = fst (component_base s (Comp b (e - b)))" and "p = snd (component_base s (Comp b (e - b)))"
  have cb: "component_base s (Comp b (e - b)) = (t, p)" by (simp add: t_def p_def)
  have tp: "t \<in> {CHAR_DEC, CHAR_OCT, CHAR_HEX}" "0 \<le> p" "b + p \<le> e"
    using i by (auto simp: t_def p_def component_base_def)
  have v: "digits_value (BaseForType t) 0 (window s (b + p) e) = part_value (window s b e)"
  proof (cases "e = b + 1")
    case True
    then have "t = CHAR_DEC" "p = 0" by (auto simp: t_def p_def component_base_def)
    then show ?thesis by (simp add: w one [OF True] BaseForType_def)
  next
    case False
    then show ?thesis
      by (auto simp: t_def p_def component_base_def w w2 BaseForType_def z)
  qed
  have "IPv4ComponentToNumber s (Comp b (e - b)) = number_of (digits_value (BaseForType t) 0 (window s (b + p) e))"
    unfolding IPv4ComponentToNumber_def cb using component_number [of "b + p" e s t] tp i by (simp add: c_end_def)
  then show ?thesis by (simp add: v)
qed

lemma digits_value_chars:
  assumes "digits_value base 0 ds \<noteq> None" "base \<in> {8, 10, 16}" "c \<in> set ds"
  shows "IsIPv4Char c \<and> c \<noteq> 46"
proof -
  have d: "CharToDigit base c \<noteq> None" using assms by (auto simp: digits_value_None)
  then have "IsIPv4Char c" using digit_hex [OF assms(2)] by (simp add: IsIPv4Char_iff)
  moreover have "CharToDigit base 46 = None" using assms(2) by (auto simp: CharToDigit_def)
  ultimately show ?thesis using d by auto
qed

lemma part_value_chars: "part_value p \<noteq> None \<Longrightarrow> c \<in> set p \<Longrightarrow> IsIPv4Char c \<and> c \<noteq> 46"
proof (induction p rule: part_value.induct)
  case (1 c' x ds)
  have z: "IsIPv4Char 48" "IsIPv4Char 88" "IsIPv4Char 120" by (simp_all add: IsIPv4Char_iff CharToDigit_def)
  consider (dec) "c' \<noteq> 48" | (hex) "c' = 48" "x = 88 \<or> x = 120" | (oct) "c' = 48" "x \<noteq> 88" "x \<noteq> 120" by blast
  then show ?case
  proof cases
    case dec
    then show ?thesis using digits_value_chars [of 10 "c' # x # ds" c] 1 by (simp only: part_value.simps) auto
  next
    case hex
    then show ?thesis using digits_value_chars [of 16 ds c] 1 z by auto
  next
    case oct
    then show ?thesis using digits_value_chars [of 8 "x # ds" c] 1 z by (simp only: part_value.simps) auto
  qed
next
  case "2_2"
  then show ?case using digits_value_chars [of 10 "[c]" c] by (simp only: part_value.simps) auto
qed simp

subsection \<open>The parts between the dots\<close>

text \<open>The components that have the given texts, one after the other, with a character between two of them.\<close>

fun located :: "int \<Rightarrow> buffer list \<Rightarrow> Component list" where
  "located b [] = []"
| "located b (p # ps) = Comp b (int (length p)) # located (b + int (length p) + 1) ps"

fun dotted :: "nat \<Rightarrow> buffer list \<Rightarrow> bool" where
  "dotted k [] = False"
| "dotted k [p] = (p \<noteq> [] \<or> k \<noteq> 0)"
| "dotted k (p # q # ps) = (p \<noteq> [] \<and> (if k = 3 then q # ps = [[]] else dotted (Suc k) (q # ps)))"

lemma find_ipv4_loop_eq:
  assumes "0 \<le> cur" "cur \<le> i" "i \<le> e" "e \<le> int (length s)" "length comps < 4" "46 \<notin> set (window s cur i)"
  shows "find_ipv4_loop s i e cur comps =
    (let parts = split_on (\<lambda>c. c = 46) (window s cur e) in
     if (\<forall>c\<in>set (window s i e). IsIPv4Char c) \<and> dotted (length comps) parts
     then Some (comps @ take (4 - length comps) (located cur parts)) else None)"
  using assms
proof (induction s i e cur comps rule: find_ipv4_loop.induct)
  case (1 s i e cur comps)
  have len: "int (length (window s cur i)) = i - cur" using 1 by (simp add: length_window)
  have cn: "c \<noteq> 46" if "c \<in> set (window s cur i)" for c using that 1 by auto
  have all: "window s cur i @ window s i e = window s cur e" using 1 by (intro window_append) auto
  consider (fin) "i = e" | (dot) "i < e" "s ! nat i = 46" | (other) "i < e" "s ! nat i \<noteq> 46" using 1 by fastforce
  then show ?case
  proof cases
    case fin
    then have sp: "split_on (\<lambda>c. c = 46) (window s cur e) = [window s cur e]" using cn by (intro split_on_none) auto
    show ?thesis
      using fin len "1.prems" by (subst find_ipv4_loop.simps) (auto simp: sp Let_def)
  next
    case dot
    have w: "window s i e = 46 # window s (i + 1) e" using dot 1 window_Cons [of i e s] by simp
    obtain q qs where q: "split_on (\<lambda>c. c = 46) (window s (i + 1) e) = q # qs"
      using split_on_nonempty by (metis list.exhaust)
    have sp: "split_on (\<lambda>c. c = 46) (window s cur e) = window s cur i # q # qs"
      unfolding all [symmetric] w using cn q by (subst split_on_append) auto
    have ip: "IsIPv4Char 46" by (simp add: IsIPv4Char_iff)
    have nil: "window s cur i = [] \<longleftrightarrow> i = cur" using 1 window_Nil_iff [of cur i s] by auto
    show ?thesis
    proof (cases "i = cur \<or> length comps = 3")
      case True
      have "q # qs = [[]] \<longleftrightarrow> window s (i + 1) e = []"
        using join_split [of 46 "window s (i + 1) e"] q by (auto simp: JoinStringT_def)
      moreover have "window s (i + 1) e = [] \<longleftrightarrow> i + 1 = e" using 1 dot by (simp add: window_Nil_iff)
      ultimately show ?thesis
        using True dot nil len by (subst find_ipv4_loop.simps) (auto simp: sp w ip Let_def)
    next
      case False
      then have "find_ipv4_loop s i e cur comps = find_ipv4_loop s (i + 1) e (i + 1) (comps @ [Comp cur (i - cur)])"
        using dot by (subst find_ipv4_loop.simps) (auto simp: Let_def)
      also have "\<dots> = (let parts = q # qs in
         if (\<forall>c\<in>set (window s (i + 1) e). IsIPv4Char c) \<and> dotted (Suc (length comps)) parts
         then Some (comps @ Comp cur (i - cur) # take (3 - length comps) (located (i + 1) parts)) else None)"
        using 1(1) [OF _ refl refl] "1.prems" dot False q by (simp add: Let_def)
      also have "\<dots> = (let parts = window s cur i # q # qs in
         if (\<forall>c\<in>set (window s i e). IsIPv4Char c) \<and> dotted (length comps) parts
         then Some (comps @ take (4 - length comps) (located cur parts)) else None)"
        using False "1.prems" nil len by (auto simp: Let_def w ip take_Cons')
      finally show ?thesis by (simp add: sp)
    qed
  next
    case other
    have w: "window s i e = s ! nat i # window s (i + 1) e" using other 1 window_Cons [of i e s] by simp
    have "window s cur (i + 1) = window s cur i @ [s ! nat i]"
      using "1.prems" other window_append [of cur i "i + 1" s] window_one [of i s] by simp
    then have nd: "46 \<notin> set (window s cur (i + 1))" using other "1.prems" by auto
    show ?thesis
    proof (cases "IsIPv4Char (s ! nat i)")
      case True
      then have "\<not> 128 \<le> s ! nat i" using IsIPv4Char_less by (simp add: not_le)
      then have "find_ipv4_loop s i e cur comps = find_ipv4_loop s (i + 1) e cur comps"
        using True other by (subst find_ipv4_loop.simps) auto
      then show ?thesis using 1(2) "1.prems" other True nd \<open>\<not> 128 \<le> s ! nat i\<close> by (simp add: w)
    next
      case False
      then show ?thesis using other by (subst find_ipv4_loop.simps) (auto simp: w Let_def)
    qed
  qed
qed

text \<open>The texts of the components that are not empty are those of the parts that are not empty.\<close>

fun text_values :: "buffer list \<Rightarrow> bool \<Rightarrow> u32 list \<Rightarrow> Family + bool \<times> u32 list" where
  "text_values [] broken vs = Inr (broken, vs)"
| "text_values (p # ps) broken vs =
     (if p = [] then text_values ps broken vs
      else case number_of (part_value p) of
          Inl f \<Rightarrow> if f = BROKEN then text_values ps True (vs @ [0]) else Inl f
        | Inr n \<Rightarrow> text_values ps broken (vs @ [n]))"

definition comp_text :: "buffer \<Rightarrow> Component \<Rightarrow> buffer" where
  "comp_text s c = window s (c_begin c) (c_end c)"

definition comp_in :: "buffer \<Rightarrow> Component \<Rightarrow> bool" where
  "comp_in s c \<longleftrightarrow> 0 \<le> c_begin c \<and> c_end c \<le> int (length s) \<and> (0 \<le> c_len c \<or> c = no_component)"

lemma ipv4_values_text:
  "\<forall>c\<in>set cs. comp_in s c \<Longrightarrow> ipv4_values s cs br vs = text_values (map (comp_text s) cs) br vs"
proof (induction cs arbitrary: br vs)
  case (Cons c cs)
  obtain b l where c: "c = Comp b l" by (metis Component.surjective old.unit.exhaust)
  show ?case
  proof (cases "l > 0")
    case True
    then have r: "0 \<le> b" "b < b + l" "b + l \<le> int (length s)" using Cons.prems by (auto simp: c comp_in_def c_end_def no_component_def)
    then have "comp_text s c \<noteq> []" by (simp add: c comp_text_def c_end_def window_Nil_iff)
    then show ?thesis
      using Cons True IPv4ComponentToNumber_eq [OF r] by (auto simp: c comp_text_def c_end_def split: sum.splits)
  next
    case False
    then have "comp_text s c = []" by (simp add: c comp_text_def c_end_def window_def)
    then show ?thesis using Cons False by (simp add: c)
  qed
qed simp

lemma located_texts:
  assumes "0 \<le> b" "b \<le> int (length s)" "drop (nat b) s = JoinStringT ps [d] @ r" "ps \<noteq> []"
  shows "map (comp_text s) (located b ps) = ps \<and> (\<forall>c\<in>set (located b ps). comp_in s c)"
  using assms
proof (induction ps arbitrary: b)
  case (Cons p ps)
  let ?b = "b + int (length p) + 1"
  have p: "take (length p) (drop (nat b) s) = p" using Cons.prems by (cases ps) auto
  then have "length p \<le> length (drop (nat b) s)" by (metis length_take min.cobounded1)
  then have l: "length p \<le> length s - nat b" by (simp only: length_drop)
  have first: "comp_text s (Comp b (int (length p))) = p \<and> comp_in s (Comp b (int (length p)))"
    using p l Cons.prems(1,2) by (auto simp: comp_text_def window_def c_end_def comp_in_def simp del: drop_drop)
  show ?case
  proof (cases "ps = []")
    case False
    have "nat ?b = Suc (length p) + nat b" using Cons.prems by simp
    then have "drop (nat ?b) s = drop (Suc (length p)) (drop (nat b) s)" by simp
    also have "\<dots> = JoinStringT ps [d] @ r" using Cons.prems False by (cases ps) auto
    finally have d: "drop (nat ?b) s = JoinStringT ps [d] @ r" .
    have "length (drop (nat b) s) \<ge> Suc (length p)" using Cons.prems False by simp
    then have "?b \<le> int (length s)" using Cons.prems(1) by simp
    then show ?thesis using Cons.IH [OF _ _ d False] Cons.prems(1) first by simp
  qed (use first in simp)
qed simp

definition ipv4_parts :: "buffer \<Rightarrow> buffer list" where
  "ipv4_parts t =
     (let parts = split_on (\<lambda>c. c = 46) t in if length parts > 1 \<and> last parts = [] then butlast parts else parts)"

text \<open>The numbers of a literal, if it is one: \<open>fits\<close> says that each fills its bytes, and \<open>address_number\<close> is the address they
  denote, as a number.\<close>

definition dotted_numbers :: "buffer \<Rightarrow> int list option" where
  "dotted_numbers t =
     (let parts = ipv4_parts t in
      if length parts \<le> 4 \<and> [] \<notin> set parts \<and> (\<forall>p\<in>set parts. part_value p \<noteq> None)
      then Some (map (\<lambda>p. the (part_value p)) parts) else None)"

definition fits :: "int list \<Rightarrow> bool" where
  "fits vs \<longleftrightarrow> (\<forall>v\<in>set (butlast vs). v < 256) \<and> last vs < 256 ^ (5 - length vs)"

definition address_number :: "int list \<Rightarrow> int" where
  "address_number vs = foldl (\<lambda>a v. 256 * a + v) 0 (butlast vs) * 256 ^ (5 - length vs) + last vs"

lemma dotted_iff:
  "k \<le> 3 \<Longrightarrow> parts \<noteq> [] \<Longrightarrow> dotted k parts \<longleftrightarrow>
     (let ps = (if (length parts > 1 \<or> k > 0) \<and> last parts = [] then butlast parts else parts)
      in [] \<notin> set ps \<and> length ps + k \<le> 4 \<and> (k = 0 \<longrightarrow> ps \<noteq> []))"
proof (induction k parts rule: dotted.induct)
  case (3 k p q ps)
  show ?case
  proof (cases "k = 3")
    case True
    then show ?thesis by (cases ps) (auto simp: Let_def)
  next
    case False
    then have "Suc k \<le> 3" using 3 by simp
    then show ?thesis using 3(1) [OF False] False by (auto simp: Let_def)
  qed
qed (auto simp: Let_def)

text \<open>The components found are the parts, or with a fifth empty part its predecessors.\<close>

lemma text_values_nonempty: "text_values (filter (\<lambda>p. p \<noteq> []) ps) br vs = text_values ps br vs"
  by (induction ps arbitrary: br vs) (auto split: sum.splits)

lemma dotted_parts:
  assumes "dotted 0 parts"
  shows "filter (\<lambda>p. p \<noteq> []) (take 4 parts) = (if length parts > 1 \<and> last parts = [] then butlast parts else parts)"
proof -
  have ne: "parts \<noteq> []" using assms by auto
  let ?ps = "if length parts > 1 \<and> last parts = [] then butlast parts else parts"
  have ps: "[] \<notin> set ?ps" "length ?ps \<le> 4" using assms dotted_iff [of 0 parts] ne by (auto simp: Let_def split: if_splits)
  have f: "filter (\<lambda>p. p \<noteq> []) ?ps = ?ps" using ps(1) by (intro filter_True) auto
  show ?thesis
  proof (cases "length parts > 1 \<and> last parts = []")
    case True
    then have "parts = ?ps @ [[]]" using append_butlast_last_id [OF ne] by simp
    moreover have "filter (\<lambda>p. p \<noteq> []) (take 4 (?ps @ [[]])) = ?ps" using ps(2) f by (cases "length ?ps = 4") auto
    ultimately show ?thesis by metis
  next
    case False
    then have "?ps = parts" by (simp only: if_False)
    then show ?thesis using ps(2) f by simp
  qed
qed

lemma text_values_spec:
  assumes "[] \<notin> set ps"
  shows "text_values ps br vs =
    (if \<exists>p\<in>set ps. part_value p = None then Inl NEUTRAL
     else Inr (br \<or> (\<exists>p\<in>set ps. the (part_value p) > 2 ^ 32 - 1),
               vs @ map (\<lambda>p. if the (part_value p) > 2 ^ 32 - 1 then 0 else word_of_int (the (part_value p))) ps))"
  using assms
proof (induction ps arbitrary: br vs)
  case (Cons p ps)
  then show ?case by (cases "part_value p") (auto simp: number_of_def)
qed simp

lemma part_value_nonneg: "part_value p = Some v \<Longrightarrow> 0 \<le> v"
  by (cases p rule: part_value.cases) (auto dest: digits_value_ge simp del: digits_value.simps split: if_splits)

lemma ipv4_leading_eq:
  "i + length vs \<le> length a \<Longrightarrow>
     fst (ipv4_leading i vs a) = (\<forall>v\<in>set vs. v \<le> 255) \<and>
     (fst (ipv4_leading i vs a) \<longrightarrow> snd (ipv4_leading i vs a) = take i a @ map ucast vs @ drop (i + length vs) a)"
proof (induction vs arbitrary: i a)
  case (Cons v vs)
  have "take (Suc i) (a[i := ucast v]) = take i a @ [ucast v]" using Cons.prems by (simp add: take_Suc_conv_app_nth)
  moreover have "drop (Suc i + length vs) (a[i := ucast v]) = drop (Suc i + length vs) a" by simp
  ultimately show ?case using Cons.IH [of "Suc i" "a[i := ucast v]"] Cons.prems by (auto simp: not_less)
qed simp

lemma ipv4_last_eq:
  assumes "4 \<le> length a" "lo \<le> 3"
  shows "ipv4_last lo 4 v a =
    (drop_bit (8 * (4 - lo)) v, take lo a @ map (\<lambda>k. ucast (drop_bit (8 * (3 - k)) v)) [lo..<4] @ drop 4 a)"
proof -
  obtain a0 a1 a2 a3 r where a: "a = a0 # a1 # a2 # a3 # r" using assms(1) by (auto simp: Suc_le_length_iff eval_nat_numeral)
  from assms(2) have "lo = 0 \<or> lo = 1 \<or> lo = 2 \<or> lo = 3" by auto
  then show ?thesis by (elim disjE) (simp_all add: a eval_nat_numeral drop_bit_drop_bit upt_rec)
qed

abbreviation (input) be_number :: "int \<Rightarrow> u8 list \<Rightarrow> int" where
  "be_number x bs \<equiv> foldl (\<lambda>x b. 256 * x + uint b) x bs"

lemma uint_drop: "uint (drop_bit n (w :: u32)) = uint w div 2 ^ n"
proof -
  have "uint (drop_bit n w) = drop_bit n (uint w)" by (simp add: unsigned_drop_bit_eq bintr_uint)
  also have "\<dots> = uint w div 2 ^ n" by (rule drop_bit_eq_div)
  finally show ?thesis .
qed

lemma uint_ucast_drop: "uint (ucast (drop_bit n (w :: u32)) :: u8) = uint w div 2 ^ n mod 256"
proof -
  have "uint (ucast (drop_bit n w) :: u8) = uint (drop_bit n w) mod 256" by (simp add: unsigned_ucast_eq take_bit_eq_mod)
  then show ?thesis by (simp only: uint_drop)
qed

lemma be_number_tail:
  "m \<le> 4 \<Longrightarrow> be_number x (map (\<lambda>k. ucast (drop_bit (8 * (3 - k)) (w :: u32))) [4 - m..<4]) = x * 256 ^ m + uint w mod 256 ^ m"
proof (induction m arbitrary: x)
  case (Suc m)
  have up: "[4 - Suc m..<4] = (3 - m) # [4 - m..<4]"
  proof -
    have "Suc (3 - m) = 4 - m" using Suc.prems by simp
    then show ?thesis using upt_conv_Cons [of "3 - m" 4] by simp
  qed
  have e: "(2 :: int) ^ (8 * (3 - (3 - m))) = 256 ^ m" using Suc.prems by (simp add: power_mult)
  have md: "uint w mod 256 ^ Suc m = 256 ^ m * (uint w div 256 ^ m mod 256) + uint w mod 256 ^ m"
    using zmod_zmult2_eq [of 256 "uint w" "256 ^ m"] by (simp add: mult.commute)
  show ?case
    unfolding up md list.map foldl_Cons uint_ucast_drop e using Suc.IH Suc.prems by (simp add: distrib_left distrib_right mult.assoc)
qed simp

lemma be_number_lead:
  "\<forall>v\<in>set ws. v \<le> (255 :: u32) \<Longrightarrow> be_number x (map ucast ws) = foldl (\<lambda>a v. 256 * a + v) x (map uint ws)"
proof (induction ws arbitrary: x)
  case (Cons w ws)
  have "uint (ucast w :: u8) = uint w" using Cons.prems uint_ucast_drop [of 0 w] by (simp add: word_le_def mod_pos_pos_trivial)
  then show ?case using Cons by simp
qed simp

lemma set_JoinStringT: "c \<in> set (JoinStringT ps sep) \<Longrightarrow> c \<in> set sep \<or> (\<exists>p\<in>set ps. c \<in> set p)"
proof (induction ps)
  case (Cons p ps)
  then show ?case by (cases "ps = []") auto
qed simp

lemma dotted_numbers_chars:
  assumes "dotted_numbers t = Some vs" "c \<in> set t"
  shows "IsIPv4Char c"
proof (cases "c = 46")
  case False
  have pv: "part_value p \<noteq> None" if "p \<in> set (ipv4_parts t)" for p
    using assms(1) that by (auto simp: dotted_numbers_def Let_def split: if_splits)
  have "c \<in> set (JoinStringT (split_on (\<lambda>c. c = 46) t) [46])" using assms(2) by (simp add: join_split)
  then obtain p where p: "p \<in> set (split_on (\<lambda>c. c = 46) t)" "c \<in> set p" using set_JoinStringT False by fastforce
  then have "p \<noteq> []" by auto
  then have "p \<in> set (ipv4_parts t)"
    using p(1) split_on_nonempty [of "\<lambda>c. c = 46" t]
    by (cases "split_on (\<lambda>c. c = 46) t" rule: rev_cases) (auto simp: ipv4_parts_def Let_def)
  then show ?thesis using pv part_value_chars p(2) by blast
qed (simp add: IsIPv4Char_iff)

text \<open>The IPv4 parser computes the family and the address the numbers of the literal denote.\<close>

definition ipv4_meaning :: "buffer \<Rightarrow> u8 list \<Rightarrow> Family \<times> u8 list \<times> nat option \<Rightarrow> bool" where
  "ipv4_meaning t a = (\<lambda>(family, a', n).
     case dotted_numbers t of
       None \<Rightarrow> family = NEUTRAL
     | Some vs \<Rightarrow>
         if fits vs
         then family = IPV4 \<and> n = Some (length vs) \<and> length a' = length a \<and> drop 4 a' = drop 4 a
           \<and> be_number 0 (take 4 a') = address_number vs
         else family = BROKEN)"

lemma fill_ipv4_meaning:
  assumes d: "dotted_numbers t = Some vs" and vs: "1 \<le> length vs" "length vs \<le> 4" "\<forall>v\<in>set vs. 0 \<le> v \<and> v < 2 ^ 32"
    and a: "4 \<le> length a"
  shows "ipv4_meaning t a (fill_ipv4 (map word_of_int vs) a)"
proof -
  define ws :: "u32 list" where "ws = map word_of_int vs"
  have u: "uint (word_of_int v :: u32) = v" if "v \<in> set vs" for v using vs(3) that by (simp add: uint_word_of_int)
  have ne: "vs \<noteq> []" "ws \<noteq> []" using vs(1) by (auto simp: ws_def)
  let ?lo = "length vs - 1" and ?m = "5 - length vs"
  have m: "4 - ?lo = ?m" "?m \<le> 4" "4 - ?m = ?lo" "?lo \<le> 3" using vs by auto
  have bl: "map uint (butlast ws) = butlast vs" unfolding ws_def map_butlast [symmetric] map_map
    by (rule map_idI) (simp add: u in_set_butlastD)
  have lst: "uint (last ws) = last vs" using u [of "last vs"] ne by (simp add: ws_def last_map)
  have small: "(\<forall>v\<in>set (butlast ws). v \<le> 255) \<longleftrightarrow> (\<forall>v\<in>set (butlast vs). v < 256)"
    by (auto simp: bl [symmetric] word_le_def)
  have fitl: "drop_bit (8 * ?m) (last ws) = 0 \<longleftrightarrow> last vs < 256 ^ ?m"
  proof -
    have "drop_bit (8 * ?m) (last ws) = 0 \<longleftrightarrow> uint (drop_bit (8 * ?m) (last ws)) = 0" by (rule uint_0_iff [symmetric])
    also have "\<dots> \<longleftrightarrow> last vs div 256 ^ ?m = 0"
      by (simp add: uint_drop lst power_mult)
    also have "\<dots> \<longleftrightarrow> last vs < 256 ^ ?m" using vs(3) ne zdiv_eq_0_iff [of "last vs" "256 ^ ?m"] by (smt (verit) last_in_set zero_less_power)
    finally show ?thesis .
  qed
  have lw: "length ws = length vs" by (simp add: ws_def)
  let ?L = "ipv4_leading 0 (butlast ws) a"
  have L: "fst ?L = (\<forall>v\<in>set (butlast vs). v < 256)"
    "fst ?L \<Longrightarrow> snd ?L = map ucast (butlast ws) @ drop ?lo a"
    using ipv4_leading_eq [of 0 "butlast ws" a] vs a small by (simp_all add: lw)
  show ?thesis
  proof (cases "\<forall>v\<in>set (butlast vs). v < 256")
    case False
    then have "fst (fill_ipv4 ws a) = BROKEN" using L(1) by (cases ?L) (auto simp: fill_ipv4_def)
    then show ?thesis using False by (auto simp: ipv4_meaning_def d fits_def ws_def split: prod.splits)
  next
    case True
    define b where "b = snd ?L"
    have b: "?L = (True, b)" "b = map ucast (butlast ws) @ drop ?lo a" "4 \<le> length b" "length b = length a" "drop 4 b = drop 4 a"
      using True L a vs by (auto simp: b_def lw prod_eq_iff)
    let ?r = "take ?lo b @ map (\<lambda>k. ucast (drop_bit (8 * (3 - k)) (last ws))) [?lo..<4] @ drop 4 b"
    have fill: "fill_ipv4 ws a = (if last vs < 256 ^ ?m then (IPV4, ?r, Some (length vs)) else (BROKEN, ?r, None))"
      using ipv4_last_eq [OF b(3) m(4), of "last ws"] fitl b(1) by (simp add: fill_ipv4_def Let_def lw m [simplified])
    have "take ?lo b = map ucast (butlast ws)" by (simp add: b(2) lw)
    moreover have "be_number 0 (map ucast (butlast ws)) = foldl (\<lambda>a v. 256 * a + v) 0 (butlast vs)"
      using be_number_lead [of "butlast ws" 0] small True by (simp add: bl)
    moreover have "last vs mod 256 ^ ?m = last vs" if "last vs < 256 ^ ?m" using that vs ne by simp
    ultimately show ?thesis
      using be_number_tail [OF m(2), of _ "last ws"] True vs b a
      by (simp add: ipv4_meaning_def d m lst address_number_def ws_def [symmetric] fill fits_def)
  qed
qed

lemma located_take: "take n (located b ps) = located b (take n ps)"
  by (induction ps arbitrary: n b) (auto simp: take_Cons')

lemma located_replicate_texts:
  assumes "\<forall>c\<in>set cs. comp_in s c"
  shows "ipv4_values s (cs @ replicate n no_component) br vs = text_values (map (comp_text s) cs) br vs"
proof -
  have e: "comp_text s no_component = []" by (simp add: comp_text_def no_component_def c_end_def window_def)
  have "\<forall>c\<in>set (cs @ replicate n no_component). comp_in s c"
    using assms by (auto simp: set_replicate_conv_if comp_in_def no_component_def c_end_def)
  then have "ipv4_values s (cs @ replicate n no_component) br vs = text_values (map (comp_text s) cs @ replicate n []) br vs"
    using ipv4_values_text [of "cs @ replicate n no_component" s br vs] by (simp add: e)
  also have "\<dots> = text_values (map (comp_text s) cs) br vs"
    using text_values_nonempty [of "map (comp_text s) cs @ replicate n []" br vs] text_values_nonempty [of "map (comp_text s) cs" br vs]
    by simp
  finally show ?thesis .
qed

lemma DoIPv4AddressToNumber_meaning:
  assumes i: "0 \<le> b" "b \<le> e" "e \<le> int (length s)" and a: "4 \<le> length a"
  shows "ipv4_meaning (window s b e) a (DoIPv4AddressToNumber s (Comp b (e - b)) a)"
proof -
  let ?t = "window s b e"
  let ?parts = "split_on (\<lambda>c. c = 46) ?t"
  let ?ok = "(\<forall>c\<in>set ?t. IsIPv4Char c) \<and> dotted 0 ?parts"
  have find: "DoFindIPv4Components s (Comp b (e - b)) =
    (if b < e \<and> ?ok then Some (located b (take 4 ?parts) @ replicate (4 - length (located b (take 4 ?parts))) no_component) else None)"
    using find_ipv4_loop_eq [of b b e s "[]"] i by (auto simp: DoFindIPv4Components_def is_nonempty_def c_end_def Let_def located_take)
  have dot: "dotted 0 ?parts \<longleftrightarrow> [] \<notin> set (ipv4_parts ?t) \<and> length (ipv4_parts ?t) \<le> 4 \<and> ipv4_parts ?t \<noteq> []"
    using dotted_iff [of 0 ?parts] by (auto simp: ipv4_parts_def Let_def)
  have ne: "ipv4_parts ?t \<noteq> []" by (cases ?parts rule: rev_cases) (auto simp: ipv4_parts_def Let_def split_on_nonempty)
  show ?thesis
  proof (cases "b < e \<and> ?ok")
    case False
    have "dotted_numbers ?t = None"
    proof (rule ccontr)
      assume "dotted_numbers ?t \<noteq> None"
      then obtain vs where vs: "dotted_numbers ?t = Some vs" by auto
      then have "dotted 0 ?parts" using dot ne by (auto simp: dotted_numbers_def Let_def split: if_splits)
      moreover have "\<forall>c\<in>set ?t. IsIPv4Char c" using dotted_numbers_chars [OF vs] by blast
      moreover have "b \<noteq> e" using vs by (auto simp: dotted_numbers_def ipv4_parts_def)
      ultimately show False using False i by auto
    qed
    then show ?thesis using False by (simp add: ipv4_meaning_def DoIPv4AddressToNumber_def find del: de_Morgan_conj)
  next
    case True
    let ?ps = "ipv4_parts ?t"
    have "drop (nat b) s = JoinStringT ?parts [46] @ drop (nat e) s"
      using i by (simp add: join_split window_def) (metis append_take_drop_id drop_drop le_add_diff_inverse2 nat_diff_distrib' nat_mono dual_order.trans)
    then have loc: "map (comp_text s) (located b ?parts) = ?parts" "\<forall>c\<in>set (located b ?parts). comp_in s c"
      using located_texts [of b s ?parts 46] i by auto
    then have "map (comp_text s) (located b (take 4 ?parts)) = take 4 ?parts" "\<forall>c\<in>set (located b (take 4 ?parts)). comp_in s c"
      by (auto simp add: located_take [symmetric] take_map [symmetric] dest: in_set_takeD)
    then have "ipv4_values s (located b (take 4 ?parts) @ replicate n no_component) False [] = text_values ?ps False []" for n
      using located_replicate_texts text_values_nonempty [of "take 4 ?parts"] dotted_parts [of ?parts] True
      by (simp add: ipv4_parts_def Let_def)
    then have D: "DoIPv4AddressToNumber s (Comp b (e - b)) a =
       (case text_values ?ps False [] of Inl family \<Rightarrow> (family, a, None)
        | Inr (broken, vs) \<Rightarrow> if broken then (BROKEN, a, None) else fill_ipv4 vs a)"
      unfolding DoIPv4AddressToNumber_def find if_P [OF True] by simp
    have ps: "[] \<notin> set ?ps" "length ?ps \<le> 4" using dot True by auto
    show ?thesis
    proof (cases "\<exists>p\<in>set ?ps. part_value p = None")
      case True
      then show ?thesis using text_values_spec [OF ps(1)] by (auto simp: D ipv4_meaning_def dotted_numbers_def Let_def)
    next
      case False
      define vs where "vs = map (\<lambda>p. the (part_value p)) ?ps"
      have dn: "dotted_numbers ?t = Some vs" using ps False by (simp add: dotted_numbers_def vs_def)
      have len: "1 \<le> length vs" "length vs \<le> 4" using ps ne by (auto simp: vs_def Suc_le_eq)
      have nn: "0 \<le> v" if "v \<in> set vs" for v using that False part_value_nonneg by (auto simp: vs_def)
      show ?thesis
      proof (cases "\<exists>v\<in>set vs. v > 2 ^ 32 - 1")
        case True
        then obtain v where v: "v \<in> set vs" "2 ^ 32 \<le> v" by auto
        have "\<not> fits vs"
        proof
          assume f: "fits vs"
          have "v \<in> set (butlast vs) \<or> v = last vs" using v(1) len by (cases vs rule: rev_cases) auto
          moreover have "(256 :: int) ^ (5 - length vs) \<le> 256 ^ 4" using len by (intro power_increasing) auto
          ultimately show False using f v(2) by (auto simp: fits_def)
        qed
        then show ?thesis
          using True False text_values_spec [OF ps(1)] by (auto simp: D ipv4_meaning_def dn vs_def)
      next
        case no: False
        then have "text_values ?ps False [] = Inr (False, map word_of_int vs)"
          using False text_values_spec [OF ps(1), of False "[]"] by (auto simp: vs_def)
        moreover have "\<forall>v\<in>set vs. 0 \<le> v \<and> v < 2 ^ 32" using nn no by auto
        ultimately show ?thesis using fill_ipv4_meaning [OF dn len _ a] by (simp add: D)
      qed
    qed
  qed
qed

subsection \<open>Printing numbers\<close>

lemma digit_text_value:
  assumes "base \<in> {10, 16}" "d < base"
  shows "CharToDigit (int base) (digit_text d) = Some (int d)"
proof -
  have "list_all (\<lambda>d. CharToDigit 10 (digit_text d) = Some (int d)) [0..<10]"
    "list_all (\<lambda>d. CharToDigit 16 (digit_text d) = Some (int d)) [0..<16]" by code_simp+
  then show ?thesis using assms by (auto simp: list_all_iff)
qed

lemma radix_text_value: "base \<in> {10, 16} \<Longrightarrow> digits_value (int base) 0 (radix_text base n) = Some (int n)"
proof (induction base n rule: radix_text.induct)
  case (1 base n)
  show ?case
  proof (cases "n < base")
    case True
    then show ?thesis using "1.prems" digit_text_value [of base n] by (subst radix_text.simps) simp
  next
    case False
    then have "\<not> (base < 2 \<or> n < base)" using "1.prems" by auto
    then show ?thesis
      using 1 digit_text_value [of base "n mod base"] False
      by (subst radix_text.simps) (auto simp: digits_value_append simp flip: of_nat_mult of_nat_add)
  qed
qed

lemma radix_text_length: "2 \<le> base \<Longrightarrow> n < base ^ Suc k \<Longrightarrow> length (radix_text base n) \<le> Suc k"
proof (induction k arbitrary: n)
  case (Suc k)
  show ?case
  proof (cases "n < base")
    case False
    have "n div base < base ^ Suc k" using Suc.prems by (simp add: less_mult_imp_div_less mult.commute)
    then show ?thesis using Suc.IH Suc.prems False by (subst radix_text.simps) simp
  qed (subst radix_text.simps, simp)
qed (subst radix_text.simps, simp)

lemma radix_text_hd: "base \<in> {10, 16} \<Longrightarrow> 0 < n \<Longrightarrow> radix_text base n \<noteq> [] \<and> hd (radix_text base n) \<noteq> 48"
proof (induction base n rule: radix_text.induct)
  case (1 base n)
  show ?case
  proof (cases "n < base")
    case True
    have "digit_text 0 = 48" by (simp add: digit_text_def)
    then have "digit_text n \<noteq> 48" using digit_text_value [of base n] digit_text_value [of base 0] "1.prems" True by auto
    then show ?thesis using True by (subst radix_text.simps) (simp, subst radix_text.simps, simp)
  next
    case False
    then have b: "\<not> (base < 2 \<or> n < base)" "0 < n div base" using "1.prems" by (auto simp: div_greater_zero_iff)
    then show ?thesis using 1(1) [OF b(1)] "1.prems" by (subst (1 2) radix_text.simps) auto
  qed
qed

lemma radix_text_nonempty [simp]: "radix_text base n \<noteq> []" "[] \<noteq> radix_text base n"
  by (subst radix_text.simps, simp)+

lemma radix_text_hex: "base \<in> {10, 16} \<Longrightarrow> c \<in> set (radix_text base n) \<Longrightarrow> IsHexChar c"
proof -
  assume b: "base \<in> {10, 16}" and c: "c \<in> set (radix_text base n)"
  then have "CharToDigit (int base) c \<noteq> None" using radix_text_value [OF b, of n] digits_value_None [of "int base" 0 "radix_text base n"] by auto
  then show ?thesis using b digit_hex [of "int base" c] by (auto simp: IsHexChar_digit)
qed

lemma part_value_radix: "part_value (radix_text 10 n) = Some (int n)"
proof (cases "n < 10")
  case True
  then have "radix_text 10 n = [digit_text n]" by (subst radix_text.simps) simp
  then show ?thesis using radix_text_value [of 10 n] by simp
next
  case False
  then have "0 < n" by simp
  then have "hd (radix_text 10 n) \<noteq> 48" using radix_text_hd [of 10 n] by simp
  then show ?thesis using radix_text_value [of 10 n] by (cases "radix_text 10 n" rule: part_value.cases) auto
qed

lemma itoa_s_text:
  "n < 1000 \<Longrightarrow> snd (itoa_s (int n) [] 16 10) = radix_text 10 n"
  "n < 65536 \<Longrightarrow> snd (itoa_s (int n) [] 5 16) = radix_text 16 n"
proof -
  show "snd (itoa_s (int n) [] 16 10) = radix_text 10 n" if "n < 1000"
    using radix_text_length [of 10 n 2] that by (simp add: itoa_s_def snprintf_int_def Let_def)
  have "int n mod 4294967296 = int n" if "n < 65536" using that by (intro mod_pos_pos_trivial) auto
  then show "snd (itoa_s (int n) [] 5 16) = radix_text 16 n" if "n < 65536"
    using radix_text_length [of 16 n 3] that by (simp add: itoa_s_def snprintf_int_def Let_def)
qed

subsection \<open>IPv4 literals are read back\<close>

abbreviation dotted_text :: "u8 list \<Rightarrow> buffer" where
  "dotted_text a \<equiv> JoinStringT (map (\<lambda>b. radix_text 10 (unat b)) a) [46]"

lemma AppendIPv4Address_text:
  assumes "length a = 4"
  shows "AppendIPv4Address a out = out @ dotted_text a"
proof -
  obtain a0 a1 a2 a3 where a: "a = [a0, a1, a2, a3]" using assms by (auto simp: length_Suc_conv eval_nat_numeral)
  have t: "snd (itoa_s (uint b) [] 16 10) = radix_text 10 (unat b)" for b :: u8
    using itoa_s_text(1) [of "unat b"] unat_bound [of b] by simp
  show ?thesis by (simp add: AppendIPv4Address_def a t)
qed

lemma be_number_inj: "length xs = length ys \<Longrightarrow> be_number 0 xs = be_number 0 ys \<Longrightarrow> xs = ys"
proof (induction xs arbitrary: ys rule: rev_induct)
  case (snoc x xs)
  then obtain y ys' where ys: "ys = ys' @ [y]" by (cases ys rule: rev_cases) auto
  have b: "0 \<le> uint x" "uint x < 256" "0 \<le> uint y" "uint y < 256" using uint_bounded [of x] uint_bounded [of y] by auto
  have e: "256 * be_number 0 xs + uint x = 256 * be_number 0 ys' + uint y" using snoc.prems ys by simp
  have "be_number 0 xs \<le> be_number 0 ys'" "be_number 0 ys' \<le> be_number 0 xs" using b e by linarith+
  then have "be_number 0 xs = be_number 0 ys'" by simp
  moreover from this have "uint x = uint y" using e by linarith
  ultimately show ?case using snoc ys by (simp add: word_uint_eq_iff)
qed simp

lemma dotted_text_numbers:
  assumes "length a = 4"
  shows "dotted_numbers (dotted_text a) = Some (map uint a)" "fits (map uint a)" "address_number (map uint a) = be_number 0 a"
proof -
  obtain a0 a1 a2 a3 where a: "a = [a0, a1, a2, a3]" using assms by (auto simp: length_Suc_conv eval_nat_numeral)
  have "46 \<notin> set (radix_text 10 n)" for n using radix_text_hex [of 10 46 n] by (auto simp: IsHexChar_digit CharToDigit_def)
  then have "split_on (\<lambda>c. c = 46) (dotted_text a) = map (\<lambda>b. radix_text 10 (unat b)) a"
    by (intro split_join) (auto simp: a)
  then show "dotted_numbers (dotted_text a) = Some (map uint a)"
    by (simp add: dotted_numbers_def ipv4_parts_def a part_value_radix)
  show "fits (map uint a)" using uint_bounded [of a0] uint_bounded [of a1] uint_bounded [of a2] uint_bounded [of a3] by (simp add: fits_def a)
  show "address_number (map uint a) = be_number 0 a" by (simp add: address_number_def a)
qed

lemma IPv4_read_back:
  assumes "0 \<le> b" "b \<le> e" "e \<le> int (length s)" "4 \<le> length old" "length a = 4" "window s b e = dotted_text a"
  shows "DoIPv4AddressToNumber s (Comp b (e - b)) old = (IPV4, a @ drop 4 old, Some 4)"
proof -
  obtain f a' n where D: "DoIPv4AddressToNumber s (Comp b (e - b)) old = (f, a', n)" by (cases "DoIPv4AddressToNumber s (Comp b (e - b)) old")
  then have m: "f = IPV4" "n = Some 4" "length a' = length old" "drop 4 a' = drop 4 old" "be_number 0 (take 4 a') = be_number 0 a"
    using DoIPv4AddressToNumber_meaning [OF assms(1-4)] dotted_text_numbers [OF assms(5)] assms(5,6) by (auto simp: ipv4_meaning_def)
  then have "take 4 a' = a" using be_number_inj assms(4,5) by simp
  then show ?thesis using D m append_take_drop_id [of 4 a'] by simp
qed

subsection \<open>Properties\<close>

text \<open>C28. The IPv4 parser decides every text. A text that is not one to four numbers between dots, with at most a final dot in
  addition, is not an IPv4 literal, and neither is one with a part that is no decimal, octal or hexadecimal number. A literal
  in which a number is too large for its bytes is broken, whatever its number of digits. For every other literal the four
  bytes written are the address: the last number fills all bytes that are left.\<close>

theorem ipv4_literal_exact:
  assumes "0 \<le> b" "b \<le> e" "e \<le> int (length s)" "4 \<le> length a"
  shows "case DoIPv4AddressToNumber s (Comp b (e - b)) a of (family, a', n) \<Rightarrow>
    (case dotted_numbers (window s b e) of
       None \<Rightarrow> family = NEUTRAL
     | Some vs \<Rightarrow>
         if fits vs
         then family = IPV4 \<and> n = Some (length vs) \<and> length a' = length a \<and> drop 4 a' = drop 4 a
           \<and> foldl (\<lambda>x b. 256 * x + uint b) 0 (take 4 a') = address_number vs
         else family = BROKEN)"
  using DoIPv4AddressToNumber_meaning [OF assms] by (simp add: ipv4_meaning_def)

theorem ipv4_literal_exact_witness:
  "fst (DoIPv4AddressToNumber (bytes ''x0x7f.1'') (Comp 1 6) [0, 0, 0, 0]) = IPV4
    \<and> foldl (\<lambda>x b. 256 * x + uint b) 0 (take 4 (fst (snd (DoIPv4AddressToNumber (bytes ''x0x7f.1'') (Comp 1 6) [0, 0, 0, 0])))) = 2130706433"
proof -
  have "dotted_numbers (window (bytes ''x0x7f.1'') 1 7) = Some [127, 1]" by code_simp
  moreover have "fits [127, 1]" "address_number [127, 1] = 2130706433" by code_simp+
  ultimately show ?thesis
    using ipv4_literal_exact [of 1 7 "bytes ''x0x7f.1''" "[0, 0, 0, 0]"] by (auto split: prod.splits)
qed

end
