(* ===== verification/Ipv6_Literal.thy ===== *)
theory Ipv6_Literal
  imports Ip_Literal
begin

text \<open>
  The IPv6 literals of \<open>Ip_Literal\<close>: what the parser finds in the text of an address, the bytes it writes, the text that is
  printed, and that the parser reads it back. The contraction that is printed is the longest run of zero groups, and the first
  one of these.
\<close>

subsection \<open>Groups of an IPv6 literal\<close>

definition group_ok :: "buffer \<Rightarrow> bool" where
  "group_ok g \<longleftrightarrow> g \<noteq> [] \<and> length g \<le> 4 \<and> (\<forall>c\<in>set g. IsHexChar c)"

lemma IsHexChar_facts: "IsHexChar c \<Longrightarrow> c \<noteq> 58 \<and> \<not> 128 \<le> c"
proof -
  assume h: "IsHexChar c"
  then obtain d where d: "CharToDigit 16 c = Some d" by (auto simp: IsHexChar_digit)
  have "CharToDigit 16 58 = None" by (simp add: CharToDigit_def)
  with d show ?thesis using CharToDigit_16_less [OF d] by (auto simp: not_le)
qed

lemma drop_nat: "0 \<le> i \<Longrightarrow> drop (nat i) s = c # r \<Longrightarrow> s ! nat i = c \<and> drop (nat (i + 1)) s = r"
proof -
  assume a: "0 \<le> i" "drop (nat i) s = c # r"
  have "drop (nat (i + 1)) s = tl (drop (nat i) s)" using a(1) by (simp add: nat_add_distrib drop_Suc tl_drop)
  then show ?thesis using a(2) nth_via_drop [OF a(2)] by simp
qed

lemma drop_nat_append: "0 \<le> i \<Longrightarrow> drop (nat i) s = g @ r \<Longrightarrow> drop (nat (i + int (length g))) s = r"
proof -
  assume a: "0 \<le> i" "drop (nat i) s = g @ r"
  have "nat (i + int (length g)) = length g + nat i" using a(1) by simp
  then have "drop (nat (i + int (length g))) s = drop (length g) (drop (nat i) s)" by (simp only: drop_drop)
  then show ?thesis unfolding a(2) by simp
qed

lemma hex_run:
  assumes "0 \<le> i" "drop (nat i) s = g @ r" "\<forall>c\<in>set g. IsHexChar c" "i + int (length g) \<le> e"
  shows "parse_ipv6_loop s b e i cur p = parse_ipv6_loop s b e (i + int (length g)) cur p"
  using assms
proof (induction g arbitrary: i)
  case (Cons c g)
  have c: "s ! nat i = c" "drop (nat (i + 1)) s = g @ r" using drop_nat [of i s c "g @ r"] Cons.prems by auto
  have h: "IsHexChar c" using Cons.prems by simp
  have "parse_ipv6_loop s b e i cur p = parse_ipv6_loop s b e (i + 1) cur p"
    using c h IsHexChar_facts [OF h] Cons.prems by (subst parse_ipv6_loop.simps) (simp add: Let_def)
  also have "\<dots> = parse_ipv6_loop s b e (i + 1 + int (length g)) cur p" using Cons c by (intro Cons.IH) auto
  finally show ?case by (simp add: add.assoc add.commute [of 1])
qed simp

text \<open>\<open>put_group\<close> is the state after a group.\<close>

abbreviation put_group :: "int \<Rightarrow> buffer list \<Rightarrow> IPv6Parsed \<Rightarrow> IPv6Parsed" where
  "put_group i gs p \<equiv> p\<lparr>hex_components := hex_components p @ located i gs\<rparr>"

lemma group_colon:
  assumes "0 \<le> i" "drop (nat i) s = g @ 58 # d # r" "d \<noteq> 58" "group_ok g" "i + int (length g) < e" "length (hex_components p) < 8"
  shows "parse_ipv6_loop s b e i i p = parse_ipv6_loop s b e (i + int (length g) + 1) (i + int (length g) + 1) (put_group i [g] p)"
proof -
  let ?k = "i + int (length g)"
  have gl: "length g \<le> 4" "g \<noteq> []" "\<not> 4 < int (length g)" using assms(4) by (auto simp: group_ok_def)
  have k: "drop (nat ?k) s = 58 # d # r" using drop_nat_append [OF assms(1,2)] .
  then have ch: "s ! nat ?k = 58" "drop (nat (?k + 1)) s = d # r" using drop_nat [of ?k s 58] assms(1) by auto
  then have "s ! nat (?k + 1) = d" using drop_nat [of "?k + 1" s d r] assms(1) by auto
  then have "parse_ipv6_loop s b e ?k i p = parse_ipv6_loop s b e (?k + 1) (?k + 1) (put_group i [g] p)"
    using assms(3-) ch gl by (subst parse_ipv6_loop.simps) (simp add: Let_def)
  then show ?thesis using hex_run [OF assms(1,2), of e b i p] assms by (simp add: group_ok_def)
qed

lemma group_end:
  assumes "0 \<le> i" "drop (nat i) s = g @ r" "group_ok g" "i + int (length g) = e" "length (hex_components p) < 8"
  shows "parse_ipv6_loop s b e i i p = Some (put_group i [g] p)"
proof -
  have "parse_ipv6_loop s b e e i p = Some (put_group i [g] p)"
    using assms by (subst parse_ipv6_loop.simps) (auto simp: Let_def group_ok_def)
  then show ?thesis using hex_run [OF assms(1,2), of e b i p] assms by (simp add: group_ok_def)
qed

lemma group_contraction:
  assumes "0 \<le> i" "drop (nat i) s = g @ 58 # 58 # r" "group_ok g" "i + int (length g) + 1 < e" "length (hex_components p) < 8"
    "index_of_contraction p = - 1"
  shows "parse_ipv6_loop s b e i i p = parse_ipv6_loop s b e (i + int (length g) + 2) (i + int (length g) + 2)
    (put_group i [g] p\<lparr>index_of_contraction := 1 + int (length (hex_components p))\<rparr>)"
proof -
  let ?k = "i + int (length g)"
  have gl: "length g \<le> 4" "g \<noteq> []" "\<not> 4 < int (length g)" using assms(3) by (auto simp: group_ok_def)
  have k: "drop (nat ?k) s = 58 # 58 # r" using drop_nat_append [OF assms(1,2)] .
  then have ch: "s ! nat ?k = 58" "drop (nat (?k + 1)) s = 58 # r" using drop_nat [of ?k s 58] assms(1) by auto
  then have "s ! nat (?k + 1) = 58" using drop_nat [of "?k + 1" s 58 r] assms(1) by auto
  then have "parse_ipv6_loop s b e ?k i p = parse_ipv6_loop s b e (?k + 2) (?k + 2)
    (put_group i [g] p\<lparr>index_of_contraction := 1 + int (length (hex_components p))\<rparr>)"
    using assms(3-) ch gl by (subst parse_ipv6_loop.simps) (simp add: Let_def)
  then show ?thesis using hex_run [OF assms(1,2), of e b i p] assms by (simp add: group_ok_def)
qed

lemma begin_contraction:
  assumes "0 \<le> b" "drop (nat b) s = 58 # 58 # r" "b + 1 < e" "index_of_contraction p = - 1"
  shows "parse_ipv6_loop s b e b b p = parse_ipv6_loop s b e (b + 2) (b + 2) (p\<lparr>index_of_contraction := int (length (hex_components p))\<rparr>)"
proof -
  have ch: "s ! nat b = 58" "drop (nat (b + 1)) s = 58 # r" using drop_nat [OF assms(1,2)] by auto
  then have "s ! nat (b + 1) = 58" using drop_nat [of "b + 1" s 58 r] assms(1) by auto
  then show ?thesis using assms ch by (subst parse_ipv6_loop.simps) (auto simp: Let_def)
qed

lemma contraction_end:
  "index_of_contraction p = int (length (hex_components p)) \<Longrightarrow> parse_ipv6_loop s b e e e p = Some p"
  by (subst parse_ipv6_loop.simps) (auto simp: Let_def)

lemma ipv4_tail:
  assumes "0 \<le> i" "drop (nat i) s = t @ r" "\<forall>c\<in>set t. IsIPv4Char c" "46 \<in> set t" "i + int (length t) = e"
  shows "parse_ipv6_loop s b e i i p = Some (p\<lparr>ipv4_component := Comp i (e - i)\<rparr>)"
proof -
  let ?h = "takeWhile IsHexChar t"
  have "\<not> IsHexChar 46" by (simp add: IsHexChar_digit CharToDigit_def)
  then obtain c r' where c: "dropWhile IsHexChar t = c # r'" using assms(4) by (cases "dropWhile IsHexChar t") (auto simp: dropWhile_eq_Nil_conv)
  have nh: "\<not> IsHexChar c" using hd_dropWhile [of IsHexChar t] c by auto
  have t: "t = ?h @ c # r'" using takeWhile_dropWhile_id [of IsHexChar t] c by simp
  then have ci: "IsIPv4Char c" using assms(3) by (metis in_set_conv_decomp)
  have c58: "c \<noteq> 58" using ci by (auto simp: IsIPv4Char_iff CharToDigit_def)
  have len: "i + int (length ?h) < e" using arg_cong [OF t, of length] assms(5) by simp
  have d: "drop (nat i) s = ?h @ (c # r' @ r)" using assms(2) t by (metis append.assoc append_Cons)
  have "s ! nat (i + int (length ?h)) = c"
    using drop_nat [of "i + int (length ?h)" s c "r' @ r"] drop_nat_append [OF assms(1) d] assms(1) by simp
  moreover have "parse_ipv6_loop s b e i i p = parse_ipv6_loop s b e (i + int (length ?h)) i p"
    using len by (intro hex_run [OF assms(1) d]) (auto dest: set_takeWhileD)
  moreover have "parse_ipv6_loop s b e (i + int (length ?h)) i p = Some (p\<lparr>ipv4_component := Comp i (e - i)\<rparr>)"
    using \<open>s ! _ = c\<close> nh ci c58 len IsIPv4Char_less [OF ci] by (subst parse_ipv6_loop.simps) (auto simp: Let_def not_le)
  ultimately show ?thesis by simp
qed

lemma length_located [simp]: "length (located i gs) = length gs"
  by (induction gs arbitrary: i) auto

lemma Join_hd: "group_ok g \<Longrightarrow> \<exists>d r. JoinStringT (g # gs) [58] = d # r \<and> IsHexChar d"
  by (cases g; cases gs) (auto simp: group_ok_def JoinStringT_Cons)

lemma groups_end:
  assumes "gs \<noteq> []" "0 \<le> i" "drop (nat i) s = JoinStringT gs [58] @ r" "\<forall>g\<in>set gs. group_ok g"
    "i + int (length (JoinStringT gs [58])) = e" "length (hex_components p) + length gs \<le> 8"
  shows "parse_ipv6_loop s b e i i p = Some (put_group i gs p)"
  using assms
proof (induction gs arbitrary: i p)
  case (Cons g gs)
  show ?case
  proof (cases gs)
    case Nil
    then show ?thesis using group_end [of i s g r e p b] Cons.prems by simp
  next
    case (Cons h hs)
    then obtain d r' where d: "JoinStringT gs [58] = d # r'" "IsHexChar d" using Join_hd [of h hs] Cons.prems by auto
    let ?k = "i + int (length g) + 1"
    have t: "drop (nat i) s = g @ 58 # JoinStringT gs [58] @ r" using Cons.prems local.Cons by simp
    have k: "drop (nat ?k) s = JoinStringT gs [58] @ r"
      using drop_nat_append [OF Cons.prems(2), of s "g @ [58]" "JoinStringT gs [58] @ r"] t by (simp add: ac_simps)
    have "parse_ipv6_loop s b e i i p = parse_ipv6_loop s b e ?k ?k (put_group i [g] p)"
      using Cons.prems d IsHexChar_facts [OF d(2)] t local.Cons by (intro group_colon [where d = d and r = "r' @ r"]) auto
    also have "\<dots> = Some (put_group ?k gs (put_group i [g] p))"
      using Cons.prems k local.Cons by (intro Cons.IH) auto
    finally show ?thesis by simp
  qed
qed simp

lemma groups_contraction:
  assumes "gs \<noteq> []" "0 \<le> i" "drop (nat i) s = JoinStringT gs [58] @ 58 # 58 # r" "\<forall>g\<in>set gs. group_ok g"
    "i + int (length (JoinStringT gs [58])) + 1 < e" "length (hex_components p) + length gs \<le> 8" "index_of_contraction p = - 1"
  shows "parse_ipv6_loop s b e i i p
    = parse_ipv6_loop s b e (i + int (length (JoinStringT gs [58])) + 2) (i + int (length (JoinStringT gs [58])) + 2)
        (put_group i gs p\<lparr>index_of_contraction := int (length gs + length (hex_components p))\<rparr>)"
  using assms
proof (induction gs arbitrary: i p)
  case (Cons g gs)
  show ?case
  proof (cases gs)
    case Nil
    then show ?thesis using group_contraction [of i s g r e p b] Cons.prems by simp
  next
    case (Cons h hs)
    then obtain d r' where d: "JoinStringT gs [58] = d # r'" "IsHexChar d" using Join_hd [of h hs] Cons.prems by auto
    let ?k = "i + int (length g) + 1"
    have t: "drop (nat i) s = g @ 58 # JoinStringT gs [58] @ 58 # 58 # r" using Cons.prems local.Cons by simp
    have k: "drop (nat ?k) s = JoinStringT gs [58] @ 58 # 58 # r"
      using drop_nat_append [OF Cons.prems(2), of s "g @ [58]" "JoinStringT gs [58] @ 58 # 58 # r"] t by (simp add: ac_simps)
    have "parse_ipv6_loop s b e i i p = parse_ipv6_loop s b e ?k ?k (put_group i [g] p)"
      using Cons.prems d IsHexChar_facts [OF d(2)] t local.Cons by (intro group_colon [where d = d and r = "r' @ 58 # 58 # r"]) auto
    then show ?thesis
      using Cons.IH [of ?k "put_group i [g] p"] Cons.prems k local.Cons by (simp add: algebra_simps)
  qed
qed simp

lemma groups_tail:
  assumes "0 \<le> i" "drop (nat i) s = JoinStringT (gs @ [t]) [58] @ r" "\<forall>g\<in>set gs. group_ok g"
    "\<forall>c\<in>set t. IsIPv4Char c" "46 \<in> set t" "i + int (length (JoinStringT (gs @ [t]) [58])) = e" "length (hex_components p) + length gs \<le> 8"
  shows "parse_ipv6_loop s b e i i p
    = Some (put_group i gs p\<lparr>ipv4_component := Comp (e - int (length t)) (int (length t))\<rparr>)"
  using assms
proof (induction gs arbitrary: i p)
  case Nil
  then show ?case using ipv4_tail [of i s t r e b p] by auto
next
  case (Cons g gs)
  have ne: "gs @ [t] \<noteq> []" by simp
  let ?J = "JoinStringT (gs @ [t]) [58]"
  obtain d r' where d: "?J = d # r'" "d \<noteq> 58"
  proof (cases gs)
    case Nil
    have "\<not> IsIPv4Char 58" by (simp add: IsIPv4Char_iff CharToDigit_def)
    then show ?thesis using that Cons.prems(4,5) Nil by (cases t) auto
  next
    case (Cons h hs)
    then show ?thesis using that Join_hd [of h "hs @ [t]"] Cons.prems IsHexChar_facts by auto
  qed
  let ?k = "i + int (length g) + 1"
  have t: "drop (nat i) s = g @ 58 # ?J @ r" using Cons.prems(2) by simp
  have k: "drop (nat ?k) s = ?J @ r"
    using drop_nat_append [OF Cons.prems(1), of s "g @ [58]" "?J @ r"] t by (simp add: ac_simps)
  have "parse_ipv6_loop s b e i i p = parse_ipv6_loop s b e ?k ?k (put_group i [g] p)"
    using Cons.prems d t by (intro group_colon [where d = d and r = "r' @ r"]) auto
  also have "\<dots> = Some (put_group ?k gs (put_group i [g] p)\<lparr>ipv4_component := Comp (e - int (length t)) (int (length t))\<rparr>)"
    using Cons.prems k by (intro Cons.IH) auto
  finally show ?case by simp
qed

subsection \<open>The bytes of an IPv6 literal\<close>

definition group_number :: "buffer \<Rightarrow> int" where
  "group_number g = the (digits_value 16 0 g)"

definition group_bytes :: "buffer \<Rightarrow> u8 list" where
  "group_bytes g = [word_of_int (group_number g div 256), word_of_int (group_number g)]"

abbreviation groups_bytes :: "buffer list \<Rightarrow> u8 list" where
  "groups_bytes gs \<equiv> concat (map group_bytes gs)"

lemma length_groups_bytes [simp]: "length (groups_bytes gs) = 2 * length gs"
  by (induction gs) (auto simp: group_bytes_def)

lemma put_bytes_eq:
  "cur + length bs \<le> length a \<Longrightarrow> put_bytes bs (a, cur) = (take cur a @ bs @ drop (cur + length bs) a, cur + length bs)"
proof (induction bs arbitrary: a cur)
  case (Cons b bs)
  have "take (Suc cur) (a[cur := b]) = take cur a @ [b]" using Cons.prems by (simp add: take_Suc_conv_app_nth)
  then show ?case using Cons.IH [of "Suc cur" "a[cur := b]"] Cons.prems by simp
qed simp

lemma put_bytes_append: "put_bytes (xs @ ys) st = put_bytes ys (put_bytes xs st)"
  by (induction xs st rule: put_bytes.induct) auto

definition comp_bytes :: "buffer \<Rightarrow> Component \<Rightarrow> u8 list" where
  "comp_bytes s c = (let number = IPv6HexComponentToNumber s c in [ucast (drop_bit 8 (number AND 0xFF00)), ucast (number AND 0x00FF)])"

lemma put_groups_Cons:
  "put_groups s idx nb i (c # cs) st = put_groups s idx nb (i + 1) cs (put_bytes (comp_bytes s c) (put_contraction i idx nb st))"
  by (simp only: put_groups.simps comp_bytes_def Let_def)

lemma put_groups_none:
  "\<forall>k. i \<le> k \<and> k \<le> i + int (length cs) \<longrightarrow> k \<noteq> idx \<Longrightarrow>
     put_groups s idx nb i cs st = put_bytes (concat (map (comp_bytes s) cs)) st"
proof (induction cs arbitrary: i st)
  case (Cons c cs)
  have "i \<noteq> idx" "\<forall>k. i + 1 \<le> k \<and> k \<le> i + 1 + int (length cs) \<longrightarrow> k \<noteq> idx" using Cons.prems by auto
  then show ?case using Cons.IH [of "i + 1"] by (simp add: put_groups_Cons put_contraction_def put_bytes_append del: put_groups.simps)
qed (simp add: put_contraction_def)

lemma put_groups_at:
  "put_groups s (i + int (length L)) nb i (L @ R) st
    = put_bytes (concat (map (comp_bytes s) L) @ replicate (nat nb) 0 @ concat (map (comp_bytes s) R)) st"
proof (induction L arbitrary: i st)
  case Nil
  show ?case
  proof (cases R)
    case (Cons c cs)
    have "put_groups s i nb (i + 1) cs st = put_bytes (concat (map (comp_bytes s) cs)) st" for st by (rule put_groups_none) auto
    then show ?thesis by (simp add: Cons put_groups_Cons put_contraction_def put_bytes_append del: put_groups.simps)
  qed (simp add: put_contraction_def)
next
  case (Cons c L)
  have "i + int (length (c # L)) = i + 1 + int (length L)" by simp
  then show ?case
    using Cons.IH [of "i + 1"] by (simp add: put_groups_Cons put_contraction_def put_bytes_append add.assoc del: put_groups.simps)
qed

lemma group_number_range: "group_ok g \<Longrightarrow> 0 \<le> group_number g \<and> group_number g < 65536 \<and> strtoui64 g 16 = group_number g"
proof -
  assume g: "group_ok g"
  have d: "\<forall>c\<in>set g. CharToDigit 16 c \<noteq> None" using g by (auto simp: group_ok_def IsHexChar_digit)
  then obtain v where v: "digits_value 16 0 g = Some v" using digits_value_None [of 16 0 g] by auto
  have "(16 :: int) ^ length g \<le> 16 ^ 4" using g by (intro power_increasing) (auto simp: group_ok_def)
  then have r: "0 \<le> v" "v < 65536" using digits_value_bounds [OF v] by auto
  have tw: "takeWhile (\<lambda>c. CharToDigit 16 c \<noteq> None) g = g" using d by (simp only: takeWhile_eq_all_conv)
  have "strtoui64 g 16 = v" unfolding strtoui64_def tw v using r by simp
  then show ?thesis using v r by (simp add: group_number_def)
qed

lemma comp_bytes_group:
  assumes c: "comp_in s c" "comp_text s c = g" and g: "group_ok g"
  shows "comp_bytes s c = group_bytes g"
proof -
  obtain b l where cc: "c = Comp b l" by (metis Component.surjective old.unit.exhaust)
  have ne: "g \<noteq> []" using g by (simp add: group_ok_def)
  then have l: "0 \<le> b" "0 < l" "b + l \<le> int (length s)"
    using c by (auto simp: cc comp_in_def comp_text_def c_end_def window_def no_component_def)
  have "map (\<lambda>i. s ! nat (b + int i)) [0..<nat l] = g"
    using l c(2) by (intro nth_equalityI) (auto simp: cc comp_text_def c_end_def window_def nat_add_distrib)
  then have n: "IPv6HexComponentToNumber s c = word_of_int (group_number g)"
    using group_number_range [OF g] by (simp add: IPv6HexComponentToNumber_def cc)
  let ?n = "word_of_int (group_number g) :: u16"
  have u: "uint ?n = group_number g" using group_number_range [OF g] by (simp add: uint_word_of_int)
  have m: "(0xFF00 :: u16) = NOT (mask 8)" "(0x00FF :: u16) = mask 8" by (simp_all add: mask_eq_exp_minus_1)
  have "drop_bit 8 (?n AND 0xFF00) = drop_bit 8 ?n" unfolding m by (rule bit_word_eqI) (auto simp: bit_simps)
  moreover have "(ucast (?n AND 0x00FF) :: u8) = ucast ?n" unfolding m by (rule bit_word_eqI) (auto simp: bit_simps)
  moreover have "(ucast ?n :: u8) = word_of_int (group_number g)"
    by (rule word_uint_eqI) (simp add: unsigned_ucast_eq uint_word_of_int take_bit_eq_mod mod_mod_cancel)
  moreover have "(ucast (drop_bit 8 ?n) :: u8) = word_of_int (group_number g div 256)"
  proof -
    have "uint (drop_bit 8 ?n) = drop_bit 8 (uint ?n)" by (simp add: unsigned_drop_bit_eq bintr_uint)
    then have "uint (drop_bit 8 ?n) = group_number g div 256" unfolding u by (simp add: drop_bit_eq_div)
    then have "uint (ucast (drop_bit 8 ?n) :: u8) = group_number g div 256 mod 256" by (simp only: unsigned_ucast_eq) (simp add: take_bit_eq_mod)
    then show ?thesis by (intro word_uint_eqI) (simp only: uint_word_of_int, simp)
  qed
  ultimately show ?thesis by (simp add: comp_bytes_def group_bytes_def n)
qed

text \<open>The text of an IPv6 address: the groups before the contraction, whether there is one, the groups after it, and an IPv4
  literal at the end.\<close>

definition tail_list :: "'a option \<Rightarrow> 'a list" where
  "tail_list t = (case t of None \<Rightarrow> [] | Some t \<Rightarrow> [t])"

definition v6_text :: "buffer list \<Rightarrow> bool \<Rightarrow> buffer list \<Rightarrow> buffer option \<Rightarrow> buffer" where
  "v6_text L c R t =
     (if c then JoinStringT L [58] @ 58 # 58 # JoinStringT (R @ tail_list t) [58] else JoinStringT (L @ R @ tail_list t) [58])"

definition v6_ok :: "buffer list \<Rightarrow> bool \<Rightarrow> buffer list \<Rightarrow> buffer option \<Rightarrow> bool" where
  "v6_ok L c R t \<longleftrightarrow>
     (\<forall>g\<in>set (L @ R). group_ok g)
     \<and> (\<forall>t\<in>set (tail_list t). 46 \<in> set t \<and> (\<exists>vs. dotted_numbers t = Some vs \<and> fits vs))
     \<and> (let n = length L + length R + 2 * length (tail_list t) in if c then n \<le> 7 else n = 8)"

lemma v6_ok_tail: "v6_ok L c R (Some t) \<Longrightarrow> (\<forall>c\<in>set t. IsIPv4Char c) \<and> 46 \<in> set t"
  using dotted_numbers_chars by (auto simp: v6_ok_def tail_list_def)

text \<open>What is found in the text: its components have the texts of the groups.\<close>

definition v6_found :: "buffer \<Rightarrow> int \<Rightarrow> buffer list \<Rightarrow> bool \<Rightarrow> buffer list \<Rightarrow> buffer option \<Rightarrow> IPv6Parsed \<Rightarrow> bool" where
  "v6_found s e L c R t p \<longleftrightarrow>
     map (comp_text s) (hex_components p) = L @ R \<and> (\<forall>k\<in>set (hex_components p). comp_in s k)
     \<and> index_of_contraction p = (if c then int (length L) else - 1)
     \<and> ipv4_component p = (case t of None \<Rightarrow> no_component | Some t \<Rightarrow> Comp (e - int (length t)) (int (length t)))"

lemma located_found:
  assumes "0 \<le> i" "i \<le> int (length s)" "drop (nat i) s = JoinStringT (gs @ ts) [58] @ r"
  shows "map (comp_text s) (located i gs) = gs" "\<forall>k\<in>set (located i gs). comp_in s k"
proof -
  have "map (comp_text s) (located i gs) = gs \<and> (\<forall>k\<in>set (located i gs). comp_in s k)"
  proof (cases "gs = []")
    case False
    have "located i gs = take (length gs) (located i (gs @ ts))" by (simp add: located_take)
    moreover have "map (comp_text s) (located i (gs @ ts)) = gs @ ts \<and> (\<forall>k\<in>set (located i (gs @ ts)). comp_in s k)"
      using assms False by (intro located_texts) auto
    ultimately show ?thesis by (metis append_eq_conv_conj in_set_takeD take_map)
  qed simp
  then show "map (comp_text s) (located i gs) = gs" "\<forall>k\<in>set (located i gs). comp_in s k" by auto
qed

text \<open>The groups after a contraction, or all of them, up to the end of the text.\<close>

lemma rest_found:
  assumes i: "0 \<le> i" "drop (nat i) s = JoinStringT (R @ tail_list t) [58] @ r" "i + int (length (JoinStringT (R @ tail_list t) [58])) = e"
    and ok: "\<forall>g\<in>set R. group_ok g" "\<forall>t\<in>set (tail_list t). (\<forall>c\<in>set t. IsIPv4Char c) \<and> 46 \<in> set t"
    and len: "length (hex_components p) + length R \<le> 8"
    and nil: "R @ tail_list t \<noteq> [] \<or> index_of_contraction p = int (length (hex_components p))"
    and p: "ipv4_component p = no_component"
  shows "parse_ipv6_loop s b e i i p = Some (put_group i R p
    \<lparr>ipv4_component := (case t of None \<Rightarrow> no_component | Some t \<Rightarrow> Comp (e - int (length t)) (int (length t)))\<rparr>)"
proof (cases t)
  case None
  have r: "put_group i R p\<lparr>ipv4_component := no_component\<rparr> = put_group i R p" using p by simp
  show ?thesis
  proof (cases "R = []")
    case True
    then show ?thesis using contraction_end [of p s b e] i nil None r by (simp add: tail_list_def)
  next
    case False
    then show ?thesis using groups_end [of R i s r e p b] i ok len None r by (simp add: tail_list_def)
  qed
next
  case (Some t')
  then show ?thesis using groups_tail [of i s R t' r e p b] i ok len by (simp add: tail_list_def)
qed

lemma Join_nonempty: "ps \<noteq> [] \<Longrightarrow> \<forall>p\<in>set ps. p \<noteq> [] \<Longrightarrow> JoinStringT ps sep \<noteq> []"
  by (cases ps; cases "tl ps") auto

lemma DoParseIPv6_found:
  assumes b: "0 \<le> b" "drop (nat b) s = v6_text L c R t @ 93 # r" and ok: "v6_ok L c R t"
  defines "T \<equiv> v6_text L c R t"
  shows "\<exists>p. DoParseIPv6 s (Comp b (int (length T))) = Some p \<and> v6_found s (b + int (length T)) L c R t p"
proof -
  let ?e = "b + int (length T)"
  have tl: "\<forall>t\<in>set (tail_list t). (\<forall>c\<in>set t. IsIPv4Char c) \<and> 46 \<in> set t"
    using v6_ok_tail [of L c R] ok by (cases t) (auto simp: tail_list_def)
  have g: "\<forall>g\<in>set L. group_ok g" "\<forall>g\<in>set R. group_ok g" using ok by (auto simp: v6_ok_def)
  have gn: "\<forall>g\<in>set (L @ R @ tail_list t). g \<noteq> []" using g tl by (fastforce simp: group_ok_def)
  have bl: "b + int (length T) \<le> int (length s)" using arg_cong [OF b(2), of length] b(1) by (simp add: T_def)
  define q :: Component where "q = (case t of None \<Rightarrow> no_component | Some t \<Rightarrow> Comp (?e - int (length t)) (int (length t)))"
  have lenn: "length L + length R + 2 * length (tail_list t) = (if c then length L + length R + 2 * length (tail_list t) else 8)"
    "length L + length R \<le> 8" using ok by (auto simp: v6_ok_def Let_def split: if_splits)
  show ?thesis
  proof (cases c)
    case False
    let ?p = "put_group b (L @ R) IPv6Parsed_reset\<lparr>ipv4_component := q\<rparr>"
    have T: "T = JoinStringT ((L @ R) @ tail_list t) [58]" using False by (simp add: T_def v6_text_def)
    have ne: "(L @ R) @ tail_list t \<noteq> []" using lenn False by auto
    have dr: "drop (nat b) s = JoinStringT ((L @ R) @ tail_list t) [58] @ 93 # r" using b(2) False by (simp add: v6_text_def)
    have "parse_ipv6_loop s b ?e b b IPv6Parsed_reset = Some ?p"
      unfolding q_def by (rule rest_found [OF b(1) dr]) (use g tl lenn ne in \<open>auto simp: T IPv6Parsed_reset_def\<close>)
    moreover have "T \<noteq> []" unfolding T using ne gn by (intro Join_nonempty) auto
    ultimately have "DoParseIPv6 s (Comp b (int (length T))) = Some ?p" by (simp add: DoParseIPv6_def is_nonempty_def c_end_def)
    moreover have "v6_found s ?e L c R t ?p"
      using located_found [OF b(1) _ dr] bl False by (simp add: v6_found_def IPv6Parsed_reset_def q_def)
    ultimately show ?thesis by blast
  next
    case True
    let ?k = "b + int (length (JoinStringT L [58])) + 2"
    let ?J = "JoinStringT (R @ tail_list t) [58]"
    let ?p1 = "put_group b L IPv6Parsed_reset\<lparr>index_of_contraction := int (length L)\<rparr>"
    let ?p = "put_group ?k R ?p1\<lparr>ipv4_component := q\<rparr>"
    have T: "T = JoinStringT L [58] @ 58 # 58 # ?J" using True by (simp add: T_def v6_text_def)
    have dr: "drop (nat b) s = JoinStringT (L @ []) [58] @ (58 # 58 # ?J @ 93 # r)" using b(2) True by (simp add: v6_text_def)
    have k: "drop (nat ?k) s = ?J @ 93 # r"
      using drop_nat_append [OF b(1), of s "JoinStringT L [58] @ [58, 58]" "?J @ 93 # r"] dr by (simp add: ac_simps)
    have "parse_ipv6_loop s b ?e b b IPv6Parsed_reset = parse_ipv6_loop s b ?e ?k ?k ?p1"
    proof (cases "L = []")
      case True
      then show ?thesis using begin_contraction [OF b(1), of s "?J @ 93 # r" ?e IPv6Parsed_reset] dr by (simp add: T IPv6Parsed_reset_def)
    next
      case False
      then show ?thesis
        using groups_contraction [OF False b(1), of s "?J @ 93 # r" ?e IPv6Parsed_reset b] dr g lenn by (simp add: T IPv6Parsed_reset_def)
    qed
    also have "\<dots> = Some ?p"
      unfolding q_def by (rule rest_found [OF _ k]) (use g tl lenn b(1) in \<open>auto simp: T IPv6Parsed_reset_def\<close>)
    finally have "DoParseIPv6 s (Comp b (int (length T))) = Some ?p" by (simp add: DoParseIPv6_def is_nonempty_def c_end_def T)
    moreover have "0 \<le> ?k" "?k \<le> int (length s)" "b \<le> int (length s)" using bl b(1) by (simp_all add: T)
    then have "v6_found s ?e L c R t ?p"
      using located_found [OF b(1) _ dr] located_found [OF _ _ k] True by (auto simp: v6_found_def IPv6Parsed_reset_def q_def)
    ultimately show ?thesis by blast
  qed
qed

lemma Join_last: "\<exists>u. JoinStringT (ps @ [t]) sep = u @ t"
proof (induction ps)
  case (Cons p ps)
  then show ?case by (metis JoinStringT_simps(3) append.assoc append_Cons snoc_eq_iff_butlast)
qed (metis JoinStringT_simps(2) append_Nil)

lemma v6_text_last: "\<exists>u. v6_text L c R (Some t) = u @ t"
  using Join_last [of R t "[58]"] Join_last [of "L @ R" t "[58]"] by (auto simp: v6_text_def tail_list_def)

definition zeros :: "buffer list \<Rightarrow> buffer list \<Rightarrow> buffer option \<Rightarrow> nat" where
  "zeros L R t = 16 - 2 * (length L + length R) - 4 * length (tail_list t)"

lemma put_found:
  assumes f: "v6_found s e L c R t p" and ok: "v6_ok L c R t" and a: "length a = 16"
  shows "CheckIPv6ComponentsSize p = Some (int (zeros L R t))"
    "put_groups s (index_of_contraction p) (int (zeros L R t)) 0 (hex_components p) (a, 0)
      = (groups_bytes L @ replicate (zeros L R t) 0 @ groups_bytes R @ drop (16 - 4 * length (tail_list t)) a, 16 - 4 * length (tail_list t))"
proof -
  have n: "length (hex_components p) = length L + length R"
  proof -
    have "map (comp_text s) (hex_components p) = L @ R" using f by (simp add: v6_found_def)
    from arg_cong [OF this, of length] show ?thesis by simp
  qed
  have c: "if c then length L + length R + 2 * length (tail_list t) \<le> 7 else length L + length R + 2 * length (tail_list t) = 8"
    using ok by (simp add: v6_ok_def Let_def)
  have v: "is_valid (ipv4_component p) \<longleftrightarrow> length (tail_list t) = 1" "length (tail_list t) \<le> 1"
    using f by (auto simp: v6_found_def is_valid_def no_component_def tail_list_def split: option.splits)
  show "CheckIPv6ComponentsSize p = Some (int (zeros L R t))"
  proof -
    have k: "(if is_valid (ipv4_component p) then 4 else 0) = 4 * int (length (tail_list t))" using v by (cases "length (tail_list t)") auto
    have idx: "index_of_contraction p \<noteq> - 1 \<longleftrightarrow> c" using f by (auto simp: v6_found_def)
    show ?thesis using c unfolding CheckIPv6ComponentsSize_def n k idx zeros_def Let_def by (cases c) simp_all
  qed
  define cl cr where "cl = take (length L) (hex_components p)" and "cr = drop (length L) (hex_components p)"
  have cs: "hex_components p = cl @ cr" "length cl = length L" using n by (auto simp: cl_def cr_def)
  have tx: "map (comp_text s) cl = L" "map (comp_text s) cr = R" and cin: "\<forall>k\<in>set cl. comp_in s k" "\<forall>k\<in>set cr. comp_in s k"
    using f cs by (auto simp: v6_found_def append_eq_append_conv)
  have g: "\<forall>g\<in>set L. group_ok g" "\<forall>g\<in>set R. group_ok g" using ok by (auto simp: v6_ok_def)
  have gb: "map (comp_bytes s) ks = map group_bytes gs" if "map (comp_text s) ks = gs" "\<forall>k\<in>set ks. comp_in s k" "\<forall>g\<in>set gs. group_ok g" for ks gs
    using that comp_bytes_group by (force simp: map_eq_conv)
  have bytes: "map (comp_bytes s) cl = map group_bytes L" "map (comp_bytes s) cr = map group_bytes R"
    using gb [OF tx(1) cin(1) g(1)] gb [OF tx(2) cin(2) g(2)] by auto
  have "put_groups s (index_of_contraction p) (int (zeros L R t)) 0 (hex_components p) (a, 0)
    = put_bytes (groups_bytes L @ replicate (zeros L R t) 0 @ groups_bytes R) (a, 0)"
  proof (cases c)
    case True
    then show ?thesis using put_groups_at [of s 0 cl "int (zeros L R t)" cr "(a, 0)"] f by (simp add: cs bytes v6_found_def)
  next
    case False
    then have "zeros L R t = 0" using c by (simp add: zeros_def)
    then show ?thesis using False put_groups_none [of 0 "cl @ cr" "- 1" s 0 "(a, 0)"] f by (simp add: cs bytes v6_found_def)
  qed
  moreover have "length (groups_bytes L @ replicate (zeros L R t) 0 @ groups_bytes R) = 16 - 4 * length (tail_list t)"
    using c v(2) by (auto simp: zeros_def split: if_splits)
  ultimately show "put_groups s (index_of_contraction p) (int (zeros L R t)) 0 (hex_components p) (a, 0)
      = (groups_bytes L @ replicate (zeros L R t) 0 @ groups_bytes R @ drop (16 - 4 * length (tail_list t)) a, 16 - 4 * length (tail_list t))"
    using put_bytes_eq [of 0 "groups_bytes L @ replicate (zeros L R t) 0 @ groups_bytes R" a] a by simp
qed

lemma IPv6_read:
  assumes hb: "0 \<le> hb" "drop (nat hb) s = 91 # v6_text L c R t @ 93 # r" and ok: "v6_ok L c R t" and a: "length a = 16"
  shows "\<exists>tb. DoIPv6AddressToNumber s (Comp hb (int (length (v6_text L c R t)) + 2)) a
      = (True, groups_bytes L @ replicate (zeros L R t) 0 @ groups_bytes R @ tb)
    \<and> length tb = 4 * length (tail_list t)
    \<and> (\<forall>t\<in>set (tail_list t). be_number 0 tb = address_number (the (dotted_numbers t)))"
proof -
  let ?T = "v6_text L c R t"
  let ?b = "hb + 1" and ?e = "hb + 1 + int (length (v6_text L c R t))"
  have b: "drop (nat ?b) s = ?T @ 93 # r" "s ! nat hb = 91" using drop_nat [OF hb] by auto
  have "drop (nat ?e) s = 93 # r" using drop_nat_append [OF _ b(1)] hb(1) by simp
  then have e: "s ! nat ?e = 93" using drop_nat [of ?e s 93 r] hb(1) by simp
  have el: "?e \<le> int (length s)" using arg_cong [OF b(1), of length] hb(1) by simp
  obtain p where p: "DoParseIPv6 s (Comp ?b (int (length ?T))) = Some p" "v6_found s ?e L c R t p"
    using DoParseIPv6_found [OF _ b(1) ok] hb(1) by auto
  note put = put_found [OF p(2) ok a]
  let ?head = "groups_bytes L @ replicate (zeros L R t) 0 @ groups_bytes R"
  have D: "DoIPv6AddressToNumber s (Comp hb (int (length ?T) + 2)) a =
    (if is_valid (ipv4_component p)
     then case DoIPv4AddressToNumber s (ipv4_component p)
                (drop (16 - 4 * length (tail_list t)) (?head @ drop (16 - 4 * length (tail_list t)) a)) of
            (family, rest, _) \<Rightarrow> (family = IPV4, take (16 - 4 * length (tail_list t)) (?head @ drop (16 - 4 * length (tail_list t)) a) @ rest)
     else (True, ?head @ drop (16 - 4 * length (tail_list t)) a))"
    using e b(2) p(1) put by (simp add: DoIPv6AddressToNumber_def is_nonempty_def c_end_def ac_simps)
  show ?thesis
  proof (cases t)
    case None
    then have "ipv4_component p = no_component" using p(2) by (simp add: v6_found_def)
    then show ?thesis using D a None by (intro exI [of _ "[]"]) (simp add: is_valid_def no_component_def tail_list_def)
  next
    case (Some t')
    have t: "ipv4_component p = Comp (?e - int (length t')) (?e - (?e - int (length t')))" using p(2) Some by (simp add: v6_found_def)
    have lh: "length ?head = 12" using ok Some by (auto simp: zeros_def v6_ok_def Let_def tail_list_def split: if_splits)
    obtain u where u: "?T = u @ t'" using v6_text_last [of L c R t'] Some by auto
    have "drop (nat (?b + int (length u))) s = t' @ 93 # r" using drop_nat_append [of ?b s u "t' @ 93 # r"] b(1) hb(1) u by simp
    then have w: "window s (?e - int (length t')) ?e = t'" by (simp add: window_def u ac_simps)
    obtain f a' n where d: "DoIPv4AddressToNumber s (ipv4_component p) (drop 12 a) = (f, a', n)" by (metis prod_cases3)
    have "ipv4_meaning t' (drop 12 a) (f, a', n)"
      using DoIPv4AddressToNumber_meaning [of "?e - int (length t')" ?e s "drop 12 a"] d w t a el hb(1) u by simp
    moreover obtain vs where vs: "dotted_numbers t' = Some vs" "fits vs" using ok Some by (auto simp: v6_ok_def tail_list_def)
    ultimately have "f = IPV4" "length a' = 4" "be_number 0 a' = address_number vs" using a by (auto simp: ipv4_meaning_def)
    moreover have "is_valid (ipv4_component p)" by (simp add: t is_valid_def)
    ultimately show ?thesis
      using D d lh Some vs by (intro exI [of _ a']) (simp add: tail_list_def)
  qed
qed

subsection \<open>Printing IPv6 addresses\<close>

definition group_text :: "u8 \<Rightarrow> u8 \<Rightarrow> buffer" where
  "group_text h l = radix_text 16 (256 * unat h + unat l)"

definition group_at :: "u8 list \<Rightarrow> nat \<Rightarrow> buffer" where
  "group_at a k = group_text (a ! (2 * k)) (a ! (2 * k + 1))"

abbreviation groups_of :: "u8 list \<Rightarrow> nat \<Rightarrow> nat \<Rightarrow> buffer list" where
  "groups_of a i j \<equiv> map (group_at a) [i..<j]"

lemma group_text_ok: "group_ok (group_text h l)" and group_text_bytes: "group_bytes (group_text h l) = [h, l]"
proof -
  have b: "256 * unat h + unat l < 65536" using unat_bound [of h] unat_bound [of l] by simp
  show "group_ok (group_text h l)"
    using radix_text_length [of 16 "256 * unat h + unat l" 3] b radix_text_hex [of 16] by (auto simp: group_ok_def group_text_def)
  have n: "group_number (group_text h l) = 256 * uint h + uint l"
    using radix_text_value [of 16 "256 * unat h + unat l"] by (simp add: group_number_def group_text_def)
  have l: "0 \<le> uint l" "uint l < 256" using uint_bounded [of l] by auto
  have "(256 * uint h + uint l) div 256 = uint h" using l by simp
  moreover have "(word_of_int (256 * uint h + uint l) :: u8) = l"
  proof -
    have "(word_of_int (256 * uint h + uint l) :: u8) = 256 * h + l" by simp
    moreover have "(256 :: u8) = 0" by simp
    ultimately show ?thesis by (simp only: mult_zero_left add_0_left)
  qed
  ultimately show "group_bytes (group_text h l) = [h, l]" unfolding group_bytes_def n by simp
qed

lemma hex_text: "snd (itoa_s (push_bit 8 (uint h) OR uint (l :: u8)) [] 5 16) = group_text h (l :: u8)" for h :: u8
proof -
  have l: "take_bit 8 (uint l) = uint l" by (rule bintr_uint) simp
  have "push_bit 8 (uint h) OR uint l = push_bit 8 (uint h) + uint l"
    using l by (intro disjunctive_add [symmetric]) (metis bit_push_bit_iff bit_take_bit_iff linorder_not_less)
  also have "\<dots> = int (256 * unat h + unat l)" by (simp add: push_bit_eq_mult)
  finally show ?thesis
    using itoa_s_text(2) [of "256 * unat h + unat l"] unat_bound [of h] unat_bound [of l] by (simp add: group_text_def)
qed

lemma append_ipv6_step:
  assumes "k < 8" "\<not> (2 * int k = c_begin cr \<and> c_len cr > 0)"
  shows "append_ipv6_loop a cr (2 * int k) out
    = append_ipv6_loop a cr (2 * int (Suc k)) (out @ group_at a k @ (if Suc k < 8 then [58] else []))"
proof -
  have n: "nat (2 * int k) = 2 * k" "nat (2 * int k + 1) = 2 * k + 1" "2 * int (Suc k) = 2 * int k + 2" by auto
  have "append_ipv6_loop a cr (2 * int k) out
    = append_ipv6_loop a cr (2 * int k + 2) (out @ group_at a k @ (if 2 * int k + 2 < 16 then [58] else []))"
    using assms by (subst append_ipv6_loop.simps) (simp only: hex_text group_at_def n(1,2) Let_def, simp)
  then show ?thesis using assms unfolding n(3) by (cases "Suc k < 8") auto
qed

text \<open>Without a contraction ahead, the groups that are left are printed; up to a contraction, those before it.\<close>

lemma append_ipv6_rest:
  assumes "k \<le> 8" "c_len cr \<le> 0 \<or> c_begin cr < 2 * int k"
  shows "append_ipv6_loop a cr (2 * int k) out = out @ JoinStringT (groups_of a k 8) [58]"
  using assms
proof (induction "8 - k" arbitrary: k out)
  case 0
  then show ?case by (subst append_ipv6_loop.simps) simp
next
  case (Suc n)
  then have k: "k < 8" by simp
  have up: "[k..<8] = k # [Suc k..<8]" using k by (rule upt_conv_Cons)
  have "append_ipv6_loop a cr (2 * int k) out
      = append_ipv6_loop a cr (2 * int (Suc k)) (out @ group_at a k @ (if Suc k < 8 then [58] else []))"
    using k Suc.prems by (intro append_ipv6_step) auto
  also have "\<dots> = out @ (group_at a k @ (if Suc k < 8 then [58] else [])) @ JoinStringT (groups_of a (Suc k) 8) [58]"
    using Suc k by (subst Suc.hyps(1)) auto
  also have "\<dots> = out @ JoinStringT (groups_of a k 8) [58]" using k by (cases "Suc k < 8") (auto simp: up)
  finally show ?case .
qed

lemma append_ipv6_before:
  assumes "k \<le> m" "m < 8" "c_begin cr = 2 * int m"
  shows "append_ipv6_loop a cr (2 * int k) out = append_ipv6_loop a cr (2 * int m) (out @ concat (map (\<lambda>g. g @ [58]) (groups_of a k m)))"
  using assms
proof (induction "m - k" arbitrary: k out)
  case (Suc n)
  then have k: "k < m" by simp
  have up: "[k..<m] = k # [Suc k..<m]" using k by (rule upt_conv_Cons)
  have "append_ipv6_loop a cr (2 * int k) out = append_ipv6_loop a cr (2 * int (Suc k)) (out @ group_at a k @ [58])"
    using append_ipv6_step [of k cr a out] k Suc.prems by simp
  also have "\<dots> = append_ipv6_loop a cr (2 * int m) ((out @ group_at a k @ [58]) @ concat (map (\<lambda>g. g @ [58]) (groups_of a (Suc k) m)))"
    using Suc k by (intro Suc.hyps(1)) auto
  finally show ?case by (simp add: up)
qed simp

lemma Join_colons: "gs \<noteq> [] \<Longrightarrow> concat (map (\<lambda>g. g @ [58]) gs) = JoinStringT gs [58] @ [58]"
proof (induction gs)
  case (Cons g gs)
  then show ?case by (cases "gs = []") auto
qed simp

lemma append_ipv6_contracted:
  assumes m: "c_begin cr = 2 * int m" "c_len cr = 2 * int q" "1 \<le> q" "m + q \<le> 8"
  shows "append_ipv6_loop a cr 0 out = out @ v6_text (groups_of a 0 m) True (groups_of a (m + q) 8) None"
proof -
  have m8: "m < 8" using m by simp
  have e: "c_end cr = 2 * int (m + q)" using m by (simp add: c_end_def)
  let ?o = "out @ concat (map (\<lambda>g. g @ [58]) (groups_of a 0 m))"
  have "append_ipv6_loop a cr 0 out = append_ipv6_loop a cr (2 * int m) ?o"
    using append_ipv6_before [of 0 m cr a out] m8 m(1) by simp
  also have "\<dots> = append_ipv6_loop a cr (2 * int (m + q)) (?o @ (if m = 0 then [58] else []) @ [58])"
    using m m8 by (subst append_ipv6_loop.simps) (auto simp: e)
  also have "\<dots> = ?o @ (if m = 0 then [58] else []) @ [58] @ JoinStringT (groups_of a (m + q) 8) [58]"
    using m by (subst append_ipv6_rest) auto
  also have "\<dots> = out @ v6_text (groups_of a 0 m) True (groups_of a (m + q) 8) None"
    using Join_colons [of "groups_of a 0 m"] by (cases "m = 0") (auto simp: v6_text_def tail_list_def)
  finally show ?thesis .
qed

subsection \<open>The contraction\<close>

definition zero_group :: "u8 list \<Rightarrow> nat \<Rightarrow> bool" where
  "zero_group a k \<longleftrightarrow> a ! (2 * k) = 0 \<and> a ! (2 * k + 1) = 0"

definition zero_run :: "u8 list \<Rightarrow> nat \<Rightarrow> nat \<Rightarrow> bool" where
  "zero_run a m q \<longleftrightarrow> (\<forall>k. m \<le> k \<and> k < m + q \<longrightarrow> zero_group a k)"

abbreviation (input) run_range :: "nat \<Rightarrow> nat \<Rightarrow> Component" where
  "run_range m q \<equiv> Comp (2 * int m) (2 * int q)"

text \<open>\<open>covered\<close>: the range is longer than the run, or as long and not after it. \<open>good_range\<close>: it is a run of two groups or
  more, or there is none.\<close>

definition covered :: "Component \<Rightarrow> nat \<Rightarrow> nat \<Rightarrow> bool" where
  "covered r m q \<longleftrightarrow> 2 * int q \<le> c_len r \<and> (2 * int q = c_len r \<longrightarrow> c_begin r \<le> 2 * int m)"

definition good_range :: "u8 list \<Rightarrow> nat \<Rightarrow> Component \<Rightarrow> bool" where
  "good_range a K r \<longleftrightarrow> r = no_component \<or> (\<exists>m q. r = run_range m q \<and> 2 \<le> q \<and> m + q \<le> K \<and> zero_run a m q)"

definition inside :: "nat \<Rightarrow> Component \<Rightarrow> nat \<Rightarrow> nat \<Rightarrow> bool" where
  "inside e cur m q \<longleftrightarrow> (\<exists>m'. cur = run_range m' (e - m') \<and> m' < e \<and> m' \<le> m \<and> m + q \<le> e)"

definition open_run :: "u8 list \<Rightarrow> nat \<Rightarrow> Component \<Rightarrow> bool" where
  "open_run a e cur \<longleftrightarrow> cur = no_component \<or> (\<exists>m'. m' < e \<and> cur = run_range m' (e - m') \<and> zero_run a m' (e - m'))"

lemma flush_range:
  assumes mx: "good_range a e mx" and cur: "open_run a e cur" and e: "e \<le> K"
    and runs: "\<And>m q. 2 \<le> q \<Longrightarrow> m + q \<le> K \<Longrightarrow> zero_run a m q \<Longrightarrow> inside e cur m q \<or> covered mx m q"
  defines "mx' \<equiv> (if c_len cur > 2 \<and> c_len cur > c_len mx then cur else mx)"
  shows "good_range a K mx'" "\<And>m q. 2 \<le> q \<Longrightarrow> m + q \<le> K \<Longrightarrow> zero_run a m q \<Longrightarrow> covered mx' m q"
proof -
  show "good_range a K mx'"
    using mx cur e by (fastforce simp: mx'_def good_range_def open_run_def no_component_def)
  fix m q assume q: "2 \<le> q" "m + q \<le> K" "zero_run a m q"
  consider (out) "covered mx m q" | (ins) m' where "cur = run_range m' (e - m')" "m' < e" "m' \<le> m" "m + q \<le> e"
    using runs [OF q] by (auto simp: inside_def)
  then show "covered mx' m q"
  proof cases
    case out
    then show ?thesis by (auto simp: mx'_def covered_def)
  next
    case ins
    have len: "2 * int q \<le> c_len cur" "2 < c_len cur" using ins q by auto
    show ?thesis
    proof (cases "c_len cur > c_len mx")
      case True
      then show ?thesis using len ins by (auto simp: mx'_def covered_def)
    next
      case False
      then obtain m0 q0 where m0: "mx = run_range m0 q0" "m0 + q0 \<le> e"
        using mx len by (auto simp: good_range_def no_component_def)
      then have "e - m' \<le> q0" using False ins by simp
      then show ?thesis using False ins m0 q by (auto simp: mx'_def covered_def)
    qed
  qed
qed

definition range_inv :: "u8 list \<Rightarrow> nat \<Rightarrow> Component \<times> Component \<Rightarrow> bool" where
  "range_inv a k = (\<lambda>(mx, cur).
     good_range a k mx
     \<and> (cur = no_component \<and> (k = 0 \<or> \<not> zero_group a (k - 1) \<or> k = 8)
        \<or> (\<exists>m'. m' < k \<and> cur = run_range m' (k - m') \<and> zero_run a m' (k - m') \<and> (m' = 0 \<or> \<not> zero_group a (m' - 1))))
     \<and> (\<forall>m q. 2 \<le> q \<longrightarrow> m + q \<le> k \<longrightarrow> zero_run a m q \<longrightarrow> inside k cur m q \<or> covered mx m q))"

lemma good_range_mono: "good_range a k r \<Longrightarrow> k \<le> K \<Longrightarrow> good_range a K r"
  by (auto simp: good_range_def)

text \<open>A zero group extends the current run or starts one.\<close>

lemma extend_run:
  assumes inv: "range_inv a k (mx, cur)" and z: "zero_group a k" and k: "k < 8"
  defines "cur' \<equiv> (let c = (if is_valid cur then cur else Comp (2 * int k) 0) in c\<lparr>c_len := c_len c + 2\<rparr>)"
  shows "range_inv a (Suc k) (mx, cur')"
proof -
  define m' where "m' = (if cur = no_component then k else nat (c_begin cur div 2))"
  have c: "cur = no_component \<and> m' = k \<and> (k = 0 \<or> \<not> zero_group a (k - 1)) \<or> 
    m' < k \<and> cur = run_range m' (k - m') \<and> zero_run a m' (k - m') \<and> (m' = 0 \<or> \<not> zero_group a (m' - 1))"
    using inv k by (auto simp: range_inv_def m'_def no_component_def)
  then have c': "cur' = run_range m' (Suc k - m')" "m' \<le> k" "m' = 0 \<or> \<not> zero_group a (m' - 1)"
    by (auto simp: cur'_def is_valid_def no_component_def Let_def)
  have zr: "zero_run a m' (Suc k - m')" using c z by (auto simp: zero_run_def less_Suc_eq)
  have runs: "inside (Suc k) cur' m q \<or> covered mx m q" if q: "2 \<le> q" "m + q \<le> Suc k" "zero_run a m q" for m q
  proof (cases "m' \<le> m")
    case True
    then show ?thesis using c' q by (auto simp: inside_def)
  next
    case False
    have "m + q \<le> k"
    proof (rule ccontr)
      assume "\<not> m + q \<le> k"
      then have "m \<le> m' - 1 \<and> m' - 1 < m + q" using False c'(2) by auto
      then have "zero_group a (m' - 1)" using q(3) by (simp add: zero_run_def)
      then show False using c'(3) False by auto
    qed
    then have "inside k cur m q \<or> covered mx m q" using inv q by (auto simp: range_inv_def)
    then show ?thesis using False c by (auto simp: inside_def no_component_def)
  qed
  have "good_range a (Suc k) mx" using inv good_range_mono by (auto simp: range_inv_def)
  then show ?thesis using runs c' zr by (auto simp: range_inv_def)
qed

lemma contraction_step_inv:
  assumes inv: "range_inv a k st" and k: "k < 8"
  shows "range_inv a (Suc k) (contraction_step a (2 * k) st)"
proof -
  obtain mx cur where st: "st = (mx, cur)" by (cases st)
  show ?thesis
  proof (cases "zero_group a k")
    case True
    define cur' where "cur' = (let c = (if is_valid cur then cur else Comp (2 * int k) 0) in c\<lparr>c_len := c_len c + 2\<rparr>)"
    have e: "range_inv a (Suc k) (mx, cur')" unfolding cur'_def using extend_run inv True k st by blast
    then have o: "open_run a (Suc k) cur'" by (auto simp: range_inv_def open_run_def)
    have s: "contraction_step a (2 * k) st = (if 2 * k = 14 then (if c_len cur' > 2 \<and> c_len cur' > c_len mx then cur' else mx, no_component) else (mx, cur'))"
      using True by (auto simp: contraction_step_def st zero_group_def cur'_def Let_def)
    show ?thesis
    proof (cases "2 * k = 14")
      case True
      have g: "good_range a (Suc k) mx" and r: "\<And>m q. 2 \<le> q \<Longrightarrow> m + q \<le> Suc k \<Longrightarrow> zero_run a m q \<Longrightarrow> inside (Suc k) cur' m q \<or> covered mx m q"
        using e by (auto simp: range_inv_def)
      show ?thesis unfolding s if_P [OF True] using flush_range [OF g o order_refl r] True by (simp add: range_inv_def)
    qed (use s e in simp)
  next
    case False
    have s: "contraction_step a (2 * k) st = (if c_len cur > 2 \<and> c_len cur > c_len mx then cur else mx, no_component)"
      using False by (auto simp: contraction_step_def st zero_group_def Let_def)
    have o: "open_run a k cur" and g: "good_range a k mx" using inv by (auto simp: range_inv_def open_run_def st)
    have r: "inside k cur m q \<or> covered mx m q" if "2 \<le> q" "m + q \<le> Suc k" "zero_run a m q" for m q
    proof -
      have "m + q \<noteq> Suc k" using that False by (auto simp: zero_run_def)
      then show ?thesis using inv that by (auto simp: range_inv_def st)
    qed
    let ?mx = "if c_len cur > 2 \<and> c_len cur > c_len mx then cur else mx"
    have "good_range a (Suc k) ?mx" by (rule flush_range(1) [OF g o le_SucI [OF order_refl] r])
    moreover have "covered ?mx m q" if "2 \<le> q" "m + q \<le> Suc k" "zero_run a m q" for m q
      by (rule flush_range(2) [OF g o le_SucI [OF order_refl] r that])
    ultimately show ?thesis unfolding s using False by (simp add: range_inv_def)
  qed
qed

lemma contraction_fold_inv:
  "k \<le> 8 \<Longrightarrow> range_inv a k (fold (contraction_step a) (map ((*) 2) [0..<k]) (no_component, no_component))"
proof (induction k)
  case (Suc k)
  then show ?case using contraction_step_inv [of a k] by simp
qed (simp add: range_inv_def good_range_def)

lemma ChooseIPv6ContractionRange_longest:
  "good_range a 8 (ChooseIPv6ContractionRange a)"
  "2 \<le> q \<Longrightarrow> m + q \<le> 8 \<Longrightarrow> zero_run a m q \<Longrightarrow> covered (ChooseIPv6ContractionRange a) m q"
proof -
  let ?st = "fold (contraction_step a) (map ((*) 2) [0..<8]) (no_component, no_component)"
  obtain mx cur where st: "?st = (mx, cur)" by (cases ?st)
  have l: "[0, 2, 4, 6, 8, 10, 12, 14] = map ((*) 2) [0..<8 :: nat]" by code_simp
  have mx: "ChooseIPv6ContractionRange a = mx" unfolding ChooseIPv6ContractionRange_def l st by simp
  have inv: "range_inv a 8 (mx, cur)" using contraction_fold_inv [of 8 a] st by simp
  show "good_range a 8 (ChooseIPv6ContractionRange a)" using inv by (simp add: mx range_inv_def)
  have "snd (contraction_step a 14 st) = no_component" for st by (auto simp: contraction_step_def Let_def split: prod.splits)
  then have "cur = no_component" using arg_cong [OF st, of snd] by (simp add: numeral_eq_Suc)
  then have "\<not> inside 8 cur m q" for m q by (auto simp: inside_def no_component_def)
  then show "covered (ChooseIPv6ContractionRange a) m q" if "2 \<le> q" "m + q \<le> 8" "zero_run a m q"
    using inv that by (auto simp: mx range_inv_def)
qed

subsection \<open>IPv6 addresses are read back\<close>

lemma groups_slice:
  "i \<le> j \<Longrightarrow> 2 * j \<le> length a \<Longrightarrow> groups_bytes (groups_of a i j) = take (2 * j - 2 * i) (drop (2 * i) a)"
proof (induction j)
  case (Suc j)
  show ?case
  proof (cases "i = Suc j")
    case False
    then have i: "i \<le> j" using Suc.prems by simp
    have n: "2 * Suc j - 2 * i = Suc (Suc (2 * j - 2 * i))" using i by simp
    have "take (2 * Suc j - 2 * i) (drop (2 * i) a) = take (2 * j - 2 * i) (drop (2 * i) a) @ [a ! (2 * j), a ! (2 * j + 1)]"
      unfolding n using i Suc.prems by (simp add: take_Suc_conv_app_nth)
    then show ?thesis using Suc i by (simp add: group_at_def group_text_bytes)
  qed simp
qed simp

lemma zero_slice:
  assumes z: "zero_run a m q" and l: "2 * (m + q) \<le> length a"
  shows "take (2 * q) (drop (2 * m) a) = replicate (2 * q) 0"
proof (rule replicate_eqI)
  show "length (take (2 * q) (drop (2 * m) a)) = 2 * q" using l by simp
  fix y assume "y \<in> set (take (2 * q) (drop (2 * m) a))"
  then obtain i where i: "i < 2 * q" "y = a ! (2 * m + i)" using l by (auto simp: in_set_conv_nth)
  then have "zero_group a (m + i div 2)" using z by (simp add: zero_run_def less_mult_imp_div_less mult.commute)
  then have "a ! (2 * m + 2 * (i div 2)) = 0 \<and> a ! (2 * m + 2 * (i div 2) + 1) = 0" by (simp add: zero_group_def distrib_left)
  moreover have "i = 2 * (i div 2) \<or> i = 2 * (i div 2) + 1" by arith
  ultimately show "y = 0" using i(2) by (metis add.assoc)
qed

lemma groups_of_ok: "\<forall>g\<in>set (groups_of a i j). group_ok g"
  by (auto simp: group_at_def group_text_ok)

lemma AppendIPv6Address_text:
  assumes a: "length a = 16"
  shows "\<exists>L c R. AppendIPv6Address a out = out @ v6_text L c R None \<and> v6_ok L c R None
    \<and> groups_bytes L @ replicate (zeros L R None) 0 @ groups_bytes R = a"
proof -
  let ?r = "ChooseIPv6ContractionRange a"
  consider (none) "?r = no_component" | (run) m q where "?r = run_range m q" "2 \<le> q" "m + q \<le> 8" "zero_run a m q"
    using ChooseIPv6ContractionRange_longest(1) [of a] by (auto simp: good_range_def)
  then show ?thesis
  proof cases
    case none
    have "AppendIPv6Address a out = out @ v6_text (groups_of a 0 8) False [] None"
      using append_ipv6_rest [of 0 ?r a out] none by (simp add: AppendIPv6Address_def v6_text_def tail_list_def no_component_def)
    moreover have "v6_ok (groups_of a 0 8) False [] None" using groups_of_ok by (simp add: v6_ok_def tail_list_def)
    moreover have "groups_bytes (groups_of a 0 8) = a" using groups_slice [of 0 8 a] a by simp
    ultimately show ?thesis by (intro exI [of _ "groups_of a 0 8"] exI [of _ False] exI [of _ "[]"]) (simp add: zeros_def tail_list_def)
  next
    case run
    let ?L = "groups_of a 0 m" and ?R = "groups_of a (m + q) 8"
    have "AppendIPv6Address a out = out @ v6_text ?L True ?R None"
      using append_ipv6_contracted [of ?r m q a out] run by (simp add: AppendIPv6Address_def)
    moreover have "v6_ok ?L True ?R None" using groups_of_ok [of a] run by (auto simp: v6_ok_def tail_list_def)
    moreover have "groups_bytes ?L @ replicate (zeros ?L ?R None) 0 @ groups_bytes ?R = a"
    proof -
      have "zeros ?L ?R None = 2 * q" using run by (simp add: zeros_def tail_list_def)
      then have "groups_bytes ?L @ replicate (zeros ?L ?R None) 0 @ groups_bytes ?R
        = take (2 * m) a @ take (2 * q) (drop (2 * m) a) @ drop (2 * (m + q)) a"
        using groups_slice [of 0 m a] groups_slice [of "m + q" 8 a] zero_slice [OF run(4)] run a by simp
      also have "drop (2 * (m + q)) a = drop (2 * q) (drop (2 * m) a)" by (simp add: algebra_simps)
      also have "take (2 * m) a @ take (2 * q) (drop (2 * m) a) @ drop (2 * q) (drop (2 * m) a) = a" by (simp only: append_take_drop_id)
      finally show ?thesis .
    qed
    ultimately show ?thesis by blast
  qed
qed

lemma IPv6_read_back:
  assumes hb: "0 \<le> hb" "drop (nat hb) s = 91 # AppendIPv6Address a [] @ 93 # r" and a: "length a = 16" "length old = 16"
  shows "DoIPv6AddressToNumber s (Comp hb (int (length (AppendIPv6Address a [])) + 2)) old = (True, a)"
proof -
  obtain L c R where t: "AppendIPv6Address a [] = v6_text L c R None" "v6_ok L c R None"
    "groups_bytes L @ replicate (zeros L R None) 0 @ groups_bytes R = a"
    using AppendIPv6Address_text [OF a(1), of "[]"] by auto
  show ?thesis using IPv6_read [OF hb(1) _ t(2) a(2), of s r] hb(2) t by (auto simp: tail_list_def)
qed

subsection \<open>Properties\<close>

text \<open>C29. The IPv6 parser reads every literal of RFC 4291: groups of one to four hexadecimal digits, at most one contraction that
  stands for at least two zero bytes, and an IPv4 literal in place of the last two groups. The bytes are those of the groups,
  with zeros in place of the contraction.\<close>

theorem ipv6_literals_read:
  assumes "v6_ok L c R t" "length a = 16"
  shows "\<exists>tb. DoIPv6AddressToNumber (91 # v6_text L c R t @ [93]) (Comp 0 (int (length (v6_text L c R t)) + 2)) a
      = (True, groups_bytes L @ replicate (zeros L R t) 0 @ groups_bytes R @ tb)
    \<and> length tb = 4 * length (tail_list t)
    \<and> (\<forall>t\<in>set (tail_list t). foldl (\<lambda>x b. 256 * x + uint b) 0 tb = address_number (the (dotted_numbers t)))"
  using IPv6_read [of 0 "91 # v6_text L c R t @ [93]" L c R t "[]" a] assms by simp

theorem ipv6_literals_read_witness:
  "v6_ok [bytes ''2001'', bytes ''dB8''] True [] (Some (bytes ''10.0.0.1''))
   \<and> fst (DoIPv6AddressToNumber (bytes ''[2001:dB8::10.0.0.1]'') (Comp 0 20) (replicate 16 0))"
proof -
  let ?L = "[bytes ''2001'', bytes ''dB8'']" and ?t = "Some (bytes ''10.0.0.1'')"
  have "list_all (\<lambda>g. g \<noteq> [] \<and> length g \<le> 4 \<and> list_all IsHexChar g) ?L" by code_simp
  moreover have "dotted_numbers (bytes ''10.0.0.1'') = Some [10, 0, 0, 1]" "fits [10, 0, 0, 1]" "46 \<in> set (bytes ''10.0.0.1'')" by code_simp+
  ultimately have ok: "v6_ok ?L True [] ?t" by (auto simp: v6_ok_def tail_list_def group_ok_def list_all_iff)
  have "91 # v6_text ?L True [] ?t @ [93] = bytes ''[2001:dB8::10.0.0.1]''" "length (v6_text ?L True [] ?t) = 18" by code_simp+
  then show ?thesis using ipv6_literals_read [OF ok, of "replicate 16 0"] ok by (simp del: replicate.simps) auto
qed

end
