(* ===== verification/Ip_Address.thy ===== *)
theory Ip_Address
  imports Ipv6_Literal
begin

text \<open>
  IP addresses: \<^verbatim>\<open>src/net/ip_address.cpp\<close>.

  An \<^verbatim>\<open>IPAddress\<close> wraps an \<^verbatim>\<open>IPAddressBytes\<close>, an array of sixteen bytes with a length; it is modelled as the list of the bytes up to
  the length, which are the ones the operations read. \<open>Resize\<close> makes the bytes of the array visible again: the function that
  resizes takes them as the argument \<open>arr\<close>. A failed \<^verbatim>\<open>CHECK\<close> is a fault.

  The prefix of an address is its leading bits: matching a prefix and the length of a common prefix are related to the lists of
  bits of the addresses, and the order is linear.
\<close>

type_synonym IPAddress = buffer

definition kIPv4MappedPrefix :: buffer where
  "kIPv4MappedPrefix = [0, 0, 0, 0, 0, 0, 0, 0, 0, 0, 0xFF, 0xFF]"

definition IPAddressPrefixCheck :: "IPAddress \<Rightarrow> buffer \<Rightarrow> nat \<Rightarrow> bool" where
  "IPAddressPrefixCheck ip_address ip_prefix prefix_length_in_bits =
     (let num_entire_bytes_in_prefix = prefix_length_in_bits div 8;
          remaining_bits = prefix_length_in_bits mod 8;
          mask = ucast (push_bit (8 - remaining_bits) (0xFF :: u32)) :: u8;
          i = num_entire_bytes_in_prefix
      in list_all (\<lambda>i. ip_address ! i = ip_prefix ! i) [0..<num_entire_bytes_in_prefix]
         \<and> (remaining_bits \<noteq> 0 \<longrightarrow> ip_address ! i AND mask = ip_prefix ! i AND mask))"

definition IPAddress_of :: "buffer \<Rightarrow> IPAddress exec" where
  "IPAddress_of data = (if length data > 16 then Inl Terminated else Inr data)"

definition IsIPv4 :: "IPAddress \<Rightarrow> bool" where "IsIPv4 a \<longleftrightarrow> length a = 4"
definition IsIPv6 :: "IPAddress \<Rightarrow> bool" where "IsIPv6 a \<longleftrightarrow> length a = 16"
definition IsValid :: "IPAddress \<Rightarrow> bool" where "IsValid a \<longleftrightarrow> IsIPv4 a \<or> IsIPv6 a"

definition IPAddressStartsWith :: "IPAddress \<Rightarrow> buffer \<Rightarrow> bool" where
  "IPAddressStartsWith address pre \<longleftrightarrow> \<not> length address < length pre \<and> take (length pre) address = pre"

definition IsIPv4MappedIPv6 :: "IPAddress \<Rightarrow> bool" where
  "IsIPv4MappedIPv6 a \<longleftrightarrow> IsIPv6 a \<and> IPAddressStartsWith a kIPv4MappedPrefix"

definition ConvertIPv4ToIPv4MappedIPv6 :: "IPAddress \<Rightarrow> IPAddress exec" where
  "ConvertIPv4ToIPv4MappedIPv6 address = IPAddress_of (kIPv4MappedPrefix @ address)"

definition ConvertIPv4MappedIPv6ToIPv4 :: "IPAddress \<Rightarrow> IPAddress exec" where
  "ConvertIPv4MappedIPv6ToIPv4 address =
     (if length address < length kIPv4MappedPrefix then Inl Undefined else IPAddress_of (drop (length kIPv4MappedPrefix) address))"

definition kReservedIPv4Ranges :: "(buffer \<times> nat) list" where
  "kReservedIPv4Ranges =
     [([0, 0, 0, 0], 8), ([10, 0, 0, 0], 8), ([100, 64, 0, 0], 10), ([127, 0, 0, 0], 8), ([169, 254, 0, 0], 16),
      ([172, 16, 0, 0], 12), ([192, 0, 2, 0], 24), ([192, 88, 99, 0], 24), ([192, 168, 0, 0], 16), ([198, 18, 0, 0], 15),
      ([198, 51, 100, 0], 24), ([203, 0, 113, 0], 24), ([224, 0, 0, 0], 3)]"

definition kPublicIPv6Ranges :: "(buffer \<times> nat) list" where
  "kPublicIPv6Ranges = [([0x20, 0], 3), ([0xFF, 0], 8)]"

definition IsPubliclyRoutableIPv4 :: "IPAddress \<Rightarrow> bool" where
  "IsPubliclyRoutableIPv4 a \<longleftrightarrow> \<not> list_ex (\<lambda>(range, bits). IPAddressPrefixCheck a range bits) kReservedIPv4Ranges"

definition IsPubliclyRoutableIPv6 :: "IPAddress \<Rightarrow> bool exec" where
  "IsPubliclyRoutableIPv6 a =
     (if list_ex (\<lambda>(range, bits). IPAddressPrefixCheck a range bits) kPublicIPv6Ranges then Inr True
      else if IsIPv4MappedIPv6 a
        then bind_exec (ConvertIPv4MappedIPv6ToIPv4 a) (\<lambda>ipv4. Inr (IsPubliclyRoutableIPv4 ipv4))
      else Inr False)"

definition IsPubliclyRoutable :: "IPAddress \<Rightarrow> bool exec" where
  "IsPubliclyRoutable a =
     (if IsIPv4 a then Inr (IsPubliclyRoutableIPv4 a) else if IsIPv6 a then IsPubliclyRoutableIPv6 a else Inr True)"

definition IsZero :: "IPAddress \<Rightarrow> bool" where
  "IsZero a \<longleftrightarrow> \<not> list_ex (\<lambda>x. x \<noteq> 0) a \<and> a \<noteq> []"

definition IsLoopback :: "IPAddress \<Rightarrow> bool" where
  "IsLoopback a =
     (if IsIPv4 a then a ! 0 = 127
      else if IsIPv6 a then \<not> list_ex (\<lambda>i. a ! i \<noteq> 0) [0..<length a - 1] \<and> a ! (length a - 1) = 1
      else False)"

definition IsLinkLocal :: "IPAddress \<Rightarrow> bool" where
  "IsLinkLocal a =
     (if IsIPv4 a then a ! 0 = 169 \<and> a ! 1 = 254
      else if IsIPv4MappedIPv6 a then a ! 12 = 169 \<and> a ! 13 = 254
      else if IsIPv6 a then a ! 0 = 0xFE \<and> a ! 1 AND 0xC0 = 0x80
      else False)"

definition IPv4Localhost :: IPAddress where "IPv4Localhost = [127, 0, 0, 1]"
definition IPv6Localhost :: IPAddress where "IPv6Localhost = [0, 0, 0, 0, 0, 0, 0, 0, 0, 0, 0, 0, 0, 0, 0, 1]"

definition AllZeros :: "nat \<Rightarrow> IPAddress exec" where
  "AllZeros num_zero_bytes = (if num_zero_bytes > 16 then Inl Terminated else Inr (fold (\<lambda>_ a. a @ [0]) [0..<num_zero_bytes] []))"

definition IPv4AllZeros :: "IPAddress exec" where "IPv4AllZeros = AllZeros 4"
definition IPv6AllZeros :: "IPAddress exec" where "IPv6AllZeros = AllZeros 16"

subsection \<open>Order\<close>

fun lexicographical_compare :: "buffer \<Rightarrow> buffer \<Rightarrow> bool" where
  "lexicographical_compare [] ys = (ys \<noteq> [])"
| "lexicographical_compare (x # xs) [] = False"
| "lexicographical_compare (x # xs) (y # ys) = (x < y \<or> \<not> y < x \<and> lexicographical_compare xs ys)"

definition bytes_less :: "IPAddress \<Rightarrow> IPAddress \<Rightarrow> bool" where
  "bytes_less a b = (if length a = length b then lexicographical_compare a b else length a < length b)"

definition ip_less :: "IPAddress \<Rightarrow> IPAddress \<Rightarrow> bool" where
  "ip_less a b = (if length a \<noteq> length b then length a < length b else bytes_less a b)"

definition ip_equal :: "IPAddress \<Rightarrow> IPAddress \<Rightarrow> bool" where
  "ip_equal a b \<longleftrightarrow> length a = length b \<and> list_all2 (=) a b"

subsection \<open>Text\<close>

definition ParseIPLiteralToBytes :: "buffer \<Rightarrow> buffer \<Rightarrow> bool \<times> IPAddress" where
  "ParseIPLiteralToBytes arr ip_literal =
     (if piece_find_char ip_literal 58 0 \<noteq> None then
        let host_brackets = 91 # ip_literal @ [93];
            (ok, bs) = DoIPv6AddressToNumber host_brackets (Comp 0 (int (length host_brackets))) arr
        in (ok, take 16 bs)
      else
        let (family, bs, _) = DoIPv4AddressToNumber ip_literal (Comp 0 (int (length ip_literal))) arr
        in (family = IPV4, take 4 bs))"

definition AssignFromIPLiteral :: "buffer \<Rightarrow> buffer \<Rightarrow> bool \<times> IPAddress" where
  "AssignFromIPLiteral arr ip_literal =
     (let (success, bs) = ParseIPLiteralToBytes arr ip_literal in (success, if success then bs else []))"

definition IPAddress_ToString :: "IPAddress \<Rightarrow> buffer" where
  "IPAddress_ToString a = (if IsIPv4 a then AppendIPv4Address a [] else if IsIPv6 a then AppendIPv6Address a [] else [])"

definition IPAddressToStringWithPort :: "IPAddress \<Rightarrow> u16 \<Rightarrow> buffer" where
  "IPAddressToStringWithPort address port =
     (let address_str = IPAddress_ToString address in
      if address_str = [] then address_str
      else if IsIPv6 address then 91 # address_str @ 93 # 58 # radix_text 10 (unat port)
      else address_str @ 58 # radix_text 10 (unat port))"

definition IPAddressToPackedString :: "IPAddress \<Rightarrow> buffer" where "IPAddressToPackedString a = a"
definition CopyBytesToVector :: "IPAddress \<Rightarrow> buffer" where "CopyBytesToVector a = a"

text \<open>The result is the success, the address and, on success, the length of the prefix.\<close>

definition ParseCIDRBlock :: "buffer \<Rightarrow> buffer \<Rightarrow> IPAddress \<Rightarrow> bool \<times> IPAddress \<times> nat option" where
  "ParseCIDRBlock arr cidr_literal ip_address =
     (let parts = SplitStringT cidr_literal [47] TRIM_WHITESPACE SPLIT_WANT_ALL in
      if length parts \<noteq> 2 then (False, ip_address, None)
      else
        let (ok, ip_address) = AssignFromIPLiteral arr (parts ! 0) in
        if \<not> ok then (False, ip_address, None)
        else case ParseUint32 (parts ! 1) of
            Inl _ \<Rightarrow> (False, ip_address, None)
          | Inr number_of_bits \<Rightarrow>
              if number_of_bits > int (length ip_address) * 8 then (False, ip_address, None)
              else (True, ip_address, Some (nat number_of_bits)))"

definition ParseURLHostnameToAddress :: "buffer \<Rightarrow> buffer \<Rightarrow> bool \<times> IPAddress" where
  "ParseURLHostnameToAddress arr hostname =
     (if length hostname \<ge> 2 \<and> hd hostname = 91 \<and> last hostname = 93 then
        let ip_literal = piece_substr hostname 1 (length hostname - 2);
            (ok, a) = AssignFromIPLiteral arr ip_literal
        in (ok \<and> IsIPv6 a, a)
      else
        let (ok, a) = AssignFromIPLiteral arr hostname in (ok \<and> IsIPv4 a, a))"

subsection \<open>Prefixes\<close>

text \<open>A prefix longer than the addresses reads the bytes after them.\<close>

function IPAddressMatchesPrefix :: "IPAddress \<Rightarrow> IPAddress \<Rightarrow> nat \<Rightarrow> bool exec" where
  "IPAddressMatchesPrefix ip_address ip_prefix prefix_length_in_bits =
     (if length ip_address \<noteq> length ip_prefix then
        if IsIPv4 ip_address
        then bind_exec (ConvertIPv4ToIPv4MappedIPv6 ip_address)
               (\<lambda>ip_address. IPAddressMatchesPrefix ip_address ip_prefix prefix_length_in_bits)
        else bind_exec (ConvertIPv4ToIPv4MappedIPv6 ip_prefix)
               (\<lambda>ip_prefix. IPAddressMatchesPrefix ip_address ip_prefix (96 + prefix_length_in_bits))
      else if prefix_length_in_bits > 8 * length ip_prefix then Inl Undefined
      else Inr (IPAddressPrefixCheck ip_address ip_prefix prefix_length_in_bits))"
  by pat_completeness auto

termination
  by (relation "measure (\<lambda>(a, p, _). (if length a = 4 then 1 else 0) + (17 - length p))")
    (auto simp: ConvertIPv4ToIPv4MappedIPv6_def IPAddress_of_def kIPv4MappedPrefix_def IsIPv4_def split: if_splits)

declare IPAddressMatchesPrefix.simps [simp del]

fun diff_loop :: "nat \<Rightarrow> nat \<Rightarrow> u32 \<Rightarrow> nat option" where
  "diff_loop 0 j diff = None"
| "diff_loop (Suc n) j diff = (if diff AND push_bit 7 1 \<noteq> 0 then Some j else diff_loop n (Suc j) (push_bit 1 diff))"

function common_prefix_loop :: "IPAddress \<Rightarrow> IPAddress \<Rightarrow> nat \<Rightarrow> nat exec" where
  "common_prefix_loop a1 a2 i =
     (if i < length a1 then
        let diff = ucast (a1 ! i XOR a2 ! i) :: u32 in
        if diff = 0 then common_prefix_loop a1 a2 (Suc i)
        else case diff_loop 8 0 diff of Some j \<Rightarrow> Inr (i * 8 + j) | None \<Rightarrow> Inl Terminated
      else Inr (length a1 * 8))"
  by pat_completeness auto

termination
  by (relation "measure (\<lambda>(a1, _, i). length a1 - i)") auto

declare common_prefix_loop.simps [simp del]

definition CommonPrefixLength :: "IPAddress \<Rightarrow> IPAddress \<Rightarrow> nat exec" where
  "CommonPrefixLength a1 a2 = common_prefix_loop a1 a2 0"

definition MaskPrefixLength :: "IPAddress \<Rightarrow> nat exec" where
  "MaskPrefixLength m = bind_exec (IPAddress_of (replicate (length m) 0xFF)) (CommonPrefixLength m)"

subsection \<open>Leading bits\<close>

lemma take_bytes_bits:
  assumes "n \<le> 8 * length a"
  shows "take n (bytes_bits a) = bytes_bits (take (n div 8) a) @ (if n mod 8 = 0 then [] else take (n mod 8) (bits_of 8 (a ! (n div 8))))"
proof -
  let ?q = "n div 8" and ?r = "n mod 8"
  have n: "n = 8 * ?q + ?r" "?r < 8" by simp_all
  have ab: "bytes_bits a = bytes_bits (take ?q a) @ bytes_bits (drop ?q a)" by (simp add: bytes_bits_def flip: map_append concat_append)
  have l: "length (bytes_bits (take ?q a)) = 8 * ?q" using assms by simp
  have t: "take n (bytes_bits a) = bytes_bits (take ?q a) @ take ?r (bytes_bits (drop ?q a))" using l by (subst ab) (simp add: minus_mult_div_eq_mod)
  show ?thesis
  proof (cases "?r = 0")
    case False
    then have "?q < length a" using assms n by linarith
    then have "bytes_bits (drop ?q a) = bits_of 8 (a ! ?q) @ bytes_bits (drop (Suc ?q) a)"
      by (simp add: bytes_bits_def Cons_nth_drop_Suc [symmetric])
    then show ?thesis using t False n by simp
  qed (use t in simp)
qed

lemma bytes_bits_eq_iff: "length a = length b \<Longrightarrow> bytes_bits a = bytes_bits b \<longleftrightarrow> a = b"
proof (induction a b rule: list_induct2)
  case (Cons x xs y ys)
  then show ?case using bits_of_inj [of x y] by (auto simp: bytes_bits_def)
qed (simp add: bytes_bits_def)

lemma masked_equal:
  fixes x y :: u8
  assumes "r < 8" "r \<noteq> 0"
  shows "take r (bits_of 8 x) = take r (bits_of 8 y)
    \<longleftrightarrow> x AND ucast (push_bit (8 - r) (0xFF :: u32)) = y AND ucast (push_bit (8 - r) (0xFF :: u32))"
proof -
  define M :: u8 where "M = ucast (push_bit (8 - r) (0xFF :: u32))"
  have m: "bit M k \<longleftrightarrow> 8 - r \<le> k \<and> k < 8" for k
  proof -
    define W :: u32 where "W = 0xFF"
    have W: "W = mask 8" by (simp add: W_def mask_eq_exp_minus_1)
    have bW: "bit W j \<longleftrightarrow> j < 8" for j unfolding W by (auto simp: bit_simps)
    have "bit (ucast (push_bit (8 - r) W) :: u8) k \<longleftrightarrow> 8 - r \<le> k \<and> k < 8"
    proof (cases "k < 8")
      case True
      then have "k - (8 - r) < 8" by simp
      then show ?thesis using True by (simp add: bit_simps bW)
    qed (simp add: bit_simps)
    then show ?thesis unfolding W_def M_def .
  qed
  have "take r (bits_of 8 x) = take r (bits_of 8 y) \<longleftrightarrow> (\<forall>i<r. bit x (7 - i) = bit y (7 - i))"
    using assms by (auto simp: list_eq_iff_nth_eq nth_bits_of)
  also have "\<dots> \<longleftrightarrow> (\<forall>k. 8 - r \<le> k \<and> k < 8 \<longrightarrow> bit x k = bit y k)"
  proof (rule iffI; intro allI impI)
    fix k assume h: "\<forall>i<r. bit x (7 - i) = bit y (7 - i)" "8 - r \<le> k \<and> k < 8"
    then have "7 - k < r" "7 - (7 - k) = k" using assms by auto
    then show "bit x k = bit y k" using h(1) by metis
  next
    fix i assume h: "\<forall>k. 8 - r \<le> k \<and> k < 8 \<longrightarrow> bit x k = bit y k" "i < r"
    then have "8 - r \<le> 7 - i \<and> 7 - i < 8" using assms by auto
    then show "bit x (7 - i) = bit y (7 - i)" using h(1) by blast
  qed
  also have "\<dots> \<longleftrightarrow> (x AND ucast (push_bit (8 - r) (0xFF :: u32)) = y AND ucast (push_bit (8 - r) (0xFF :: u32)))"
    unfolding M_def [symmetric] by (auto simp: bit_eq_iff bit_and_iff m)
  finally show ?thesis .
qed

lemma prefix_check_bits:
  assumes "n \<le> 8 * length a" "n \<le> 8 * length b"
  shows "IPAddressPrefixCheck a b n \<longleftrightarrow> take n (bytes_bits a) = take n (bytes_bits b)"
proof -
  let ?q = "n div 8" and ?r = "n mod 8"
  have q: "?q \<le> length a" "?q \<le> length b" using assms by auto
  have "list_all (\<lambda>i. a ! i = b ! i) [0..<?q] \<longleftrightarrow> take ?q a = take ?q b"
    using q by (auto simp: list_all_iff list_eq_iff_nth_eq)
  then have "IPAddressPrefixCheck a b n \<longleftrightarrow> take ?q a = take ?q b
      \<and> (?r \<noteq> 0 \<longrightarrow> take ?r (bits_of 8 (a ! ?q)) = take ?r (bits_of 8 (b ! ?q)))"
    using masked_equal [of ?r "a ! ?q" "b ! ?q"] by (auto simp: IPAddressPrefixCheck_def Let_def)
  also have "\<dots> \<longleftrightarrow> take n (bytes_bits a) = take n (bytes_bits b)"
    unfolding take_bytes_bits [OF assms(1)] take_bytes_bits [OF assms(2)]
    using bytes_bits_eq_iff [of "take ?q a" "take ?q b"] q by (subst append_eq_append_conv) auto
  finally show ?thesis .
qed

text \<open>The number of leading elements two lists have in common.\<close>

definition common :: "'a list \<Rightarrow> 'a list \<Rightarrow> nat" where
  "common xs ys = length (takeWhile (\<lambda>(x, y). x = y) (zip xs ys))"

lemma common_same [simp]: "common xs xs = length xs"
  by (induction xs) (auto simp: common_def)

lemma common_append: "length a = length b \<Longrightarrow> common (a @ c) (b @ d) = (if a = b then length a + common c d else common a b)"
  by (induction a b rule: list_induct2) (auto simp: common_def)

lemma common_take: "n \<le> length a \<Longrightarrow> length a = length b \<Longrightarrow> take n a = take n b \<longleftrightarrow> n \<le> common a b"
proof (induction n arbitrary: a b)
  case (Suc n)
  then obtain x xs y ys where "a = x # xs" "b = y # ys" by (metis Suc_le_length_iff)
  then show ?case using Suc by (auto simp: common_def)
qed simp

lemma bit_7: "(d AND push_bit 7 1 \<noteq> 0) \<longleftrightarrow> bit (d :: u32) 7"
  by (simp add: bit_iff_and_push_bit_not_eq_0)

lemma diff_loop_first:
  fixes d :: u8
  shows "n \<le> 8 \<Longrightarrow> diff_loop n (8 - n) (push_bit (8 - n) (ucast d)) =
    (if \<exists>k<n. bit d k then Some (8 - n + length (takeWhile Not (bits_of n d))) else None)"
proof (induction n)
  case (Suc n)
  have e: "8 - n = Suc (8 - Suc n)" using Suc.prems by simp
  have b: "bit (push_bit (8 - Suc n) (ucast d :: u32)) 7 \<longleftrightarrow> bit d n" using Suc.prems by (auto simp: bit_simps)
  have p: "push_bit 1 (push_bit (8 - Suc n) (ucast d :: u32)) = push_bit (8 - n) (ucast d)" by (simp add: e push_bit_push_bit)
  have IH: "diff_loop n (Suc (8 - Suc n)) (push_bit 1 (push_bit (8 - Suc n) (ucast d))) =
    (if \<exists>k<n. bit d k then Some (Suc (8 - Suc n) + length (takeWhile Not (bits_of n d))) else None)"
    unfolding p using Suc e by simp
  show ?case
    using IH by (auto simp only: diff_loop.simps bit_7 b bits_of.simps takeWhile.simps less_Suc_eq list.size if_True if_False split: if_splits)
qed simp

lemma common_xor: "common (bits_of n x) (bits_of n y) = length (takeWhile Not (bits_of n (x XOR y)))"
  by (induction n) (auto simp: common_def bit_xor_iff)

lemma diff_loop_bits:
  fixes x y :: u8
  assumes "x \<noteq> y"
  shows "diff_loop 8 0 (ucast (x XOR y)) = Some (common (bits_of 8 x) (bits_of 8 y))"
proof -
  have "\<exists>k<8. bit (x XOR y) k"
  proof (rule ccontr)
    assume "\<not> ?thesis"
    then have "x = y" by (intro bit_word_eqI) (auto simp: bit_xor_iff)
    then show False using assms by simp
  qed
  then show ?thesis using diff_loop_first [of 8 "x XOR y"] by (simp add: common_xor)
qed

lemma common_prefix_loop_bits:
  assumes "length a = length b" "i \<le> length a" "take i a = take i b"
  shows "common_prefix_loop a b i = Inr (common (bytes_bits a) (bytes_bits b))"
  using assms
proof (induction a b i rule: common_prefix_loop.induct)
  case (1 a b i)
  show ?case
  proof (cases "i < length a")
    case True
    have s: "bytes_bits c = bytes_bits (take i c) @ bits_of 8 (c ! i) @ bytes_bits (drop (Suc i) c)" if "i < length c" for c
      by (subst id_take_nth_drop [OF that]) simp
    show ?thesis
    proof (cases "a ! i = b ! i")
      case eq: True
      have "take (Suc i) a = take (Suc i) b" using "1.prems" True eq by (simp add: take_Suc_conv_app_nth)
      then show ?thesis using 1 True eq by (subst common_prefix_loop.simps) simp
    next
      case False
      have d: "(ucast (a ! i XOR b ! i) :: u32) \<noteq> 0"
      proof (rule notI)
        assume z: "(ucast (a ! i XOR b ! i) :: u32) = 0"
        have "diff_loop 8 0 0 = None" by code_simp
        then show False using diff_loop_bits [OF False] unfolding z by simp
      qed
      have "common (bytes_bits a) (bytes_bits b) = i * 8 + common (bits_of 8 (a ! i)) (bits_of 8 (b ! i))"
        using s [OF True] s [of b] True "1.prems" bits_of_inj [of "a ! i" "b ! i"] False by (auto simp: common_append)
      then show ?thesis using True d diff_loop_bits [OF False] by (subst common_prefix_loop.simps) (simp add: Let_def)
    qed
  next
    case False
    then have "a = b" "i = length a" using "1.prems" by auto
    then show ?thesis by (subst common_prefix_loop.simps) simp
  qed
qed

subsection \<open>The order is linear\<close>

lemma lexicographical_compare_irrefl: "\<not> lexicographical_compare a a"
  by (induction a) auto

lemma lexicographical_compare_trans:
  "lexicographical_compare a b \<Longrightarrow> lexicographical_compare b c \<Longrightarrow> length a = length b \<Longrightarrow> length b = length c \<Longrightarrow> lexicographical_compare a c"
proof (induction a b arbitrary: c rule: lexicographical_compare.induct)
  case (3 x xs y ys)
  then show ?case by (cases c) auto
qed auto

lemma lexicographical_compare_total: "length a = length b \<Longrightarrow> a \<noteq> b \<Longrightarrow> lexicographical_compare a b \<or> lexicographical_compare b a"
  by (induction a b rule: list_induct2) auto

interpretation ip_order: linorder "\<lambda>a b. ip_equal a b \<or> ip_less a b" ip_less
proof unfold_locales
  have eq: "ip_equal a b \<longleftrightarrow> a = b" for a b by (auto simp: ip_equal_def list.rel_eq)
  have ls: "ip_less a b \<longleftrightarrow> length a < length b \<or> length a = length b \<and> lexicographical_compare a b" for a b
    by (auto simp: ip_less_def bytes_less_def)
  fix a b c :: buffer
  have irr: "\<not> ip_less a a" for a by (simp add: ls lexicographical_compare_irrefl)
  have tr: "ip_less a b \<Longrightarrow> ip_less b c \<Longrightarrow> ip_less a c" for a b c using lexicographical_compare_trans by (fastforce simp: ls)
  have tot: "a \<noteq> b \<Longrightarrow> ip_less a b \<or> ip_less b a" for a b using lexicographical_compare_total [of a b] by (auto simp: ls)
  show "ip_less a b = ((ip_equal a b \<or> ip_less a b) \<and> \<not> (ip_equal b a \<or> ip_less b a))" unfolding eq using irr tr by blast
  show "ip_equal a a \<or> ip_less a a" by (simp add: eq)
  show "ip_equal a b \<or> ip_less a b \<Longrightarrow> ip_equal b c \<or> ip_less b c \<Longrightarrow> ip_equal a c \<or> ip_less a c" unfolding eq using tr by blast
  show "ip_equal a b \<or> ip_less a b \<Longrightarrow> ip_equal b a \<or> ip_less b a \<Longrightarrow> a = b" unfolding eq using irr tr by blast
  show "(ip_equal a b \<or> ip_less a b) \<or> ip_equal b a \<or> ip_less b a" unfolding eq using tot by blast
qed

subsection \<open>Texts of addresses\<close>

text \<open>What a printer and a parser promise each other: every value that is printed is read back. Printing what was read then gives
  the canonical text: it is read as the same value, and equal values have equal texts.\<close>

locale literal =
  fixes val_ok :: "'a \<Rightarrow> bool" and to_text :: "'a \<Rightarrow> buffer" and from_text :: "buffer \<Rightarrow> 'a option"
  assumes read_back: "val_ok a \<Longrightarrow> from_text (to_text a) = Some a"
    and reads_ok: "from_text t = Some a \<Longrightarrow> val_ok a"
begin

definition canonical :: "buffer \<Rightarrow> buffer option" where
  "canonical t = map_option to_text (from_text t)"

lemma to_text_inj: "val_ok a \<Longrightarrow> val_ok b \<Longrightarrow> to_text a = to_text b \<longleftrightarrow> a = b"
  using read_back by (metis option.inject)

lemma canonical_idem: "canonical t = Some u \<Longrightarrow> from_text u = from_text t \<and> canonical u = Some u"
  using read_back reads_ok by (auto simp: canonical_def)

lemma canonical_eq: "canonical t \<noteq> None \<Longrightarrow> canonical t = canonical u \<longleftrightarrow> from_text t = from_text u"
  using to_text_inj reads_ok by (auto simp: canonical_def map_option_case split: option.splits)

end

definition read_literal :: "buffer \<Rightarrow> buffer \<Rightarrow> IPAddress option" where
  "read_literal arr t = (case AssignFromIPLiteral arr t of (ok, a) \<Rightarrow> if ok then Some a else None)"

lemma dotted_text_nocolon: "58 \<notin> set (dotted_text a)"
proof
  assume "58 \<in> set (dotted_text a)"
  then obtain b where "58 \<in> set (radix_text 10 (unat (b :: u8)))" using set_JoinStringT by fastforce
  then show False using radix_text_hex [of 10 58] by (auto simp: IsHexChar_digit CharToDigit_def)
qed

lemma no_colon_find: "piece_find_char t 58 0 \<noteq> None \<longleftrightarrow> 58 \<in> set t"
  unfolding piece_find_char_eq least_from_None by (auto simp: filter_empty_conv in_set_conv_nth)

lemma v6_text_colon: "v6_ok L c R None \<Longrightarrow> 58 \<in> set (v6_text L c R None)"
proof (cases c)
  case False
  assume "v6_ok L c R None"
  then have l: "length (L @ R) = 8" using False by (simp add: v6_ok_def tail_list_def)
  then obtain g h gs where "L @ R = g # h # gs" by (cases "L @ R"; cases "tl (L @ R)") auto
  then show ?thesis using False by (simp add: v6_text_def tail_list_def)
qed (simp add: v6_text_def)

lemma AssignFromIPLiteral_read_back:
  assumes v: "IsValid a" and arr: "length arr = 16"
  shows "AssignFromIPLiteral arr (IPAddress_ToString a) = (True, a)"
proof (cases "IsIPv4 a")
  case True
  then have a: "length a = 4" by (simp add: IsIPv4_def)
  have t: "IPAddress_ToString a = dotted_text a" using AppendIPv4Address_text [OF a, of "[]"] True by (simp add: IPAddress_ToString_def)
  have "DoIPv4AddressToNumber (dotted_text a) (Comp 0 (int (length (dotted_text a)) - 0)) arr = (IPV4, a @ drop 4 arr, Some 4)"
    by (rule IPv4_read_back) (use a arr in \<open>auto simp: window_all\<close>)
  then show ?thesis
    using no_colon_find [of "dotted_text a"] dotted_text_nocolon [of a] a
    by (simp add: t AssignFromIPLiteral_def ParseIPLiteralToBytes_def)
next
  case False
  then have a: "IsIPv6 a" "length a = 16" using v by (auto simp: IsValid_def IsIPv6_def)
  let ?t = "AppendIPv6Address a []"
  have t: "IPAddress_ToString a = ?t" using a False by (simp add: IPAddress_ToString_def)
  have c: "piece_find_char ?t 58 0 \<noteq> None"
    using AppendIPv6Address_text [OF a(2), of "[]"] v6_text_colon by (auto simp: no_colon_find simp del: not_None_eq)
  have "DoIPv6AddressToNumber (91 # ?t @ [93]) (Comp 0 (2 + int (length ?t))) arr = (True, a)"
    using IPv6_read_back [of 0 "91 # ?t @ [93]" a "[]" arr] a(2) arr by (simp add: add.commute)
  then show ?thesis using c a(2) by (simp add: t AssignFromIPLiteral_def ParseIPLiteralToBytes_def)
qed

text \<open>The parsers write inside the array.\<close>

lemma length_ipv4_leading: "length (snd (ipv4_leading i vs a)) = length a"
  by (induction i vs a rule: ipv4_leading.induct) auto

lemma length_ipv4_last: "length (snd (ipv4_last lo i v a)) = length a"
  by (induction lo i v a rule: ipv4_last.induct) auto

lemma length_fill_ipv4: "length (fst (snd (fill_ipv4 vs a))) = length a"
  using length_ipv4_leading [of 0 "butlast vs" a] length_ipv4_last [of "length vs - 1" 4 "last vs" "snd (ipv4_leading 0 (butlast vs) a)"]
  by (auto simp: fill_ipv4_def Let_def split: prod.splits)

lemma length_DoIPv4: "length (fst (snd (DoIPv4AddressToNumber s h a))) = length a"
  using length_fill_ipv4 by (auto simp: DoIPv4AddressToNumber_def split: option.splits sum.splits prod.splits)

lemma length_put_bytes: "length (fst (put_bytes bs st)) = length (fst st)"
  by (induction bs st rule: put_bytes.induct) auto

lemma length_put_groups: "length (fst (put_groups s idx nb i cs st)) = length (fst st)"
  by (induction s idx nb i cs st rule: put_groups.induct)
    (auto simp: put_contraction_def length_put_bytes Let_def simp del: put_bytes.simps)

lemma length_DoIPv6: "length (snd (DoIPv6AddressToNumber s h a)) = length a"
proof (cases "DoParseIPv6 s (Comp (c_begin h + 1) (c_len h - 2))")
  case (Some p)
  show ?thesis
  proof (cases "CheckIPv6ComponentsSize p")
    case n: (Some n)
    obtain a' cur where g: "put_groups s (index_of_contraction p) n 0 (hex_components p) (a, 0) = (a', cur)" by fastforce
    then have l: "length a' = length a" using length_put_groups [of s "index_of_contraction p" n 0 "hex_components p" "(a, 0)"] by simp
    obtain f rest k where d: "DoIPv4AddressToNumber s (ipv4_component p) (drop cur a') = (f, rest, k)" by (metis prod_cases3)
    then have "length rest = length a' - cur" using length_DoIPv4 [of s "ipv4_component p" "drop cur a'"] by simp
    then show ?thesis using l by (simp add: DoIPv6AddressToNumber_def Some n g d min_def)
  qed (simp add: DoIPv6AddressToNumber_def Some)
qed (simp add: DoIPv6AddressToNumber_def)

lemma AssignFromIPLiteral_valid:
  assumes r: "AssignFromIPLiteral arr t = (True, a)" and arr: "length arr = 16"
  shows "IsValid a"
proof (cases "piece_find_char t 58 0 \<noteq> None")
  case True
  let ?h = "91 # t @ [93]"
  obtain ok bs where d: "DoIPv6AddressToNumber ?h (Comp 0 (int (length ?h))) arr = (ok, bs)" by fastforce
  then have "length bs = 16" using length_DoIPv6 [of ?h "Comp 0 (int (length ?h))" arr] arr by simp
  moreover have "a = take 16 bs" using r True unfolding AssignFromIPLiteral_def ParseIPLiteralToBytes_def if_P [OF True] Let_def d by (auto split: if_splits)
  ultimately show ?thesis by (simp add: IsValid_def IsIPv6_def)
next
  case False
  obtain f bs k where d: "DoIPv4AddressToNumber t (Comp 0 (int (length t))) arr = (f, bs, k)" by (metis prod_cases3)
  then have "length bs = 16" using length_DoIPv4 [of t "Comp 0 (int (length t))" arr] arr by simp
  moreover have "a = take 4 bs" using r False unfolding AssignFromIPLiteral_def ParseIPLiteralToBytes_def if_not_P [OF False] Let_def d by (auto split: if_splits)
  ultimately show ?thesis by (simp add: IsValid_def IsIPv4_def)
qed

lemma literal_any_array:
  assumes arr: "length arr = 16"
  shows "literal IsValid IPAddress_ToString (read_literal arr)"
proof
  show "read_literal arr (IPAddress_ToString a) = Some a" if "IsValid a" for a
    using AssignFromIPLiteral_read_back [OF that arr] by (simp add: read_literal_def)
  show "IsValid a" if "read_literal arr t = Some a" for t a
    using that AssignFromIPLiteral_valid [OF _ arr, of t a] by (auto simp: read_literal_def split: prod.splits if_splits)
qed

interpretation ip_text: literal IsValid IPAddress_ToString "read_literal (replicate 16 0)"
  by (rule literal_any_array) simp

lemma matches_prefix_bits:
  assumes "IsValid a" "IsValid p" "n \<le> 8 * length p"
  shows "IPAddressMatchesPrefix a p n =
      (if length a = length p then Inr (take n (bytes_bits a) = take n (bytes_bits p))
       else if IsIPv4 a then Inr (take n (bytes_bits (kIPv4MappedPrefix @ a)) = take n (bytes_bits p))
       else Inr (take (96 + n) (bytes_bits a) = take (96 + n) (bytes_bits (kIPv4MappedPrefix @ p))))"
proof -
  have same: "IPAddressMatchesPrefix x y k = Inr (take k (bytes_bits x) = take k (bytes_bits y))"
    if "length x = length y" "k \<le> 8 * length y" for x y k
    using that prefix_check_bits [of k x y] by (subst IPAddressMatchesPrefix.simps) simp
  have k: "length kIPv4MappedPrefix = 12" by (simp add: kIPv4MappedPrefix_def)
  have conv: "ConvertIPv4ToIPv4MappedIPv6 x = Inr (kIPv4MappedPrefix @ x)" if "length x = 4" for x
    using that by (simp add: ConvertIPv4ToIPv4MappedIPv6_def IPAddress_of_def k)
  consider "length a = length p" | "length a = 4" "length p = 16" | "length a = 16" "length p = 4"
    using assms by (auto simp: IsValid_def IsIPv4_def IsIPv6_def)
  then show ?thesis
  proof cases
    case 1
    then show ?thesis using same assms(3) by simp
  next
    case 2
    then show ?thesis using same [of "kIPv4MappedPrefix @ a" p n] assms(3) k
      by (subst IPAddressMatchesPrefix.simps) (simp add: IsIPv4_def conv del: bytes_bits_simps)
  next
    case 3
    then show ?thesis using same [of a "kIPv4MappedPrefix @ p" "96 + n"] assms(3) k
      by (subst IPAddressMatchesPrefix.simps) (simp add: IsIPv4_def conv del: bytes_bits_simps)
  qed
qed

lemma common_ones: "common xs (replicate (length xs) True) = length (takeWhile (\<lambda>b. b) xs)"
  by (induction xs) (auto simp: common_def)

lemma mask_prefix_bits: "IsValid a \<Longrightarrow> MaskPrefixLength a = Inr (length (takeWhile (\<lambda>b. b) (bytes_bits a)))"
proof -
  assume "IsValid a"
  then have l: "length a \<le> 16" by (auto simp: IsValid_def IsIPv4_def IsIPv6_def)
  have "bits_of 8 (0xFF :: u8) = replicate 8 True" by code_simp
  then have "bytes_bits (replicate n 0xFF) = replicate (8 * n) True" for n by (induction n) (simp_all add: replicate_add [symmetric])
  then have "common (bytes_bits a) (bytes_bits (replicate (length a) 0xFF)) = length (takeWhile (\<lambda>b. b) (bytes_bits a))"
    using common_ones [of "bytes_bits a"] by simp
  then show ?thesis
    using common_prefix_loop_bits [of a "replicate (length a) 0xFF" 0] l by (simp add: MaskPrefixLength_def IPAddress_of_def CommonPrefixLength_def)
qed

lemma printed_not_bracketed: "IsValid a \<Longrightarrow> hd (IPAddress_ToString a) \<noteq> 91"
proof (cases "IsIPv4 a")
  case True
  then obtain x xs where a: "a = x # xs" "length a = 4" by (cases a) (auto simp: IsIPv4_def)
  have "hd (dotted_text a) = hd (radix_text 10 (unat x))" by (cases "xs = []") (auto simp: a)
  moreover have "IsHexChar (hd (radix_text 10 (unat x)))" using radix_text_hex [of 10 _ "unat x"] by simp
  moreover have "\<not> IsHexChar 91" by (simp add: IsHexChar_digit CharToDigit_def)
  ultimately show ?thesis using AppendIPv4Address_text [OF a(2), of "[]"] True by (auto simp: IPAddress_ToString_def)
next
  case False
  assume "IsValid a"
  then have a: "length a = 16" "IsIPv6 a" using False by (auto simp: IsValid_def IsIPv6_def)
  obtain L c R where t: "AppendIPv6Address a [] = v6_text L c R None" "v6_ok L c R None"
    using AppendIPv6Address_text [OF a(1), of "[]"] by auto
  have g: "\<forall>g\<in>set (L @ R). group_ok g" "\<not> c \<Longrightarrow> L @ R \<noteq> []" using t(2) by (auto simp: v6_ok_def tail_list_def)
  have nh: "\<not> IsHexChar 91" by (simp add: IsHexChar_digit CharToDigit_def)
  have hj: "hd (JoinStringT gs [58] @ z) \<noteq> 91" if "gs \<noteq> []" "\<forall>g\<in>set gs. group_ok g" for gs z
    using that Join_hd [of "hd gs" "tl gs"] nh by (cases gs) auto
  have "hd (v6_text L c R None) \<noteq> 91"
  proof (cases c)
    case True
    then show ?thesis using hj [of L "58 # 58 # JoinStringT R [58]"] g(1) by (cases "L = []") (auto simp: v6_text_def tail_list_def)
  next
    case False
    then show ?thesis using hj [of "L @ R" "[]"] g by (simp add: v6_text_def tail_list_def)
  qed
  then show ?thesis using t a False by (simp add: IPAddress_ToString_def)
qed

subsection \<open>Properties\<close>

text \<open>C30. Every address is read back from its text, alone or as the host of a URL, where an IPv6 address stands in brackets; and
  whatever literal was read, the text printed for the result is read as the same address.\<close>

theorem ip_literal_round_trip:
  assumes "length arr = 16"
  shows "(IsValid a \<longrightarrow> AssignFromIPLiteral arr (IPAddress_ToString a) = (True, a)
      \<and> ParseURLHostnameToAddress arr (if IsIPv6 a then 91 # IPAddress_ToString a @ [93] else IPAddress_ToString a) = (True, a))
    \<and> (AssignFromIPLiteral arr t = (True, b) \<longrightarrow> IsValid b \<and> AssignFromIPLiteral arr (IPAddress_ToString b) = (True, b))"
proof (intro conjI impI)
  note rb = AssignFromIPLiteral_read_back [OF _ assms]
  show "AssignFromIPLiteral arr (IPAddress_ToString a) = (True, a)" if "IsValid a" by (rule rb [OF that])
  have v: "IsValid b" if "AssignFromIPLiteral arr t = (True, b)"
    using AssignFromIPLiteral_valid [OF that assms] .
  then show "IsValid b" "AssignFromIPLiteral arr (IPAddress_ToString b) = (True, b)" if "AssignFromIPLiteral arr t = (True, b)"
    using that rb by blast+
  show "ParseURLHostnameToAddress arr (if IsIPv6 a then 91 # IPAddress_ToString a @ [93] else IPAddress_ToString a) = (True, a)" if "IsValid a"
    using that rb [OF that] printed_not_bracketed [OF that] piece_substr_prefix [of 1 "length (IPAddress_ToString a)" "91 # IPAddress_ToString a @ [93]"]
    by (auto simp: ParseURLHostnameToAddress_def IsValid_def)
qed

theorem ip_literal_round_trip_witness:
  "AssignFromIPLiteral (replicate 16 0) (IPAddress_ToString IPv6Localhost) = (True, IPv6Localhost)"
  using ip_literal_round_trip [of "replicate 16 0" IPv6Localhost "[]" "[]"] by (simp add: IsValid_def IsIPv6_def IPv6Localhost_def)

text \<open>C31. A prefix is matched on the leading bits, with an IPv4 address taken as its mapped IPv6 address when the other one is an
  IPv6 address; among addresses of one kind a prefix matches exactly up to the common prefix length, which is the number of
  leading bits the addresses share, and the length of a mask is the number of its leading ones.\<close>

theorem ip_prefix_bits:
  assumes "IsValid a" "IsValid p" "n \<le> 8 * length p"
  shows "IPAddressMatchesPrefix a p n =
      (if length a = length p then Inr (take n (bytes_bits a) = take n (bytes_bits p))
       else if IsIPv4 a then Inr (take n (bytes_bits (kIPv4MappedPrefix @ a)) = take n (bytes_bits p))
       else Inr (take (96 + n) (bytes_bits a) = take (96 + n) (bytes_bits (kIPv4MappedPrefix @ p))))
    \<and> (length a = length p \<longrightarrow> CommonPrefixLength a p = Inr (common (bytes_bits a) (bytes_bits p))
      \<and> IPAddressMatchesPrefix a p n = Inr (n \<le> common (bytes_bits a) (bytes_bits p)))
    \<and> MaskPrefixLength a = Inr (length (takeWhile (\<lambda>b. b) (bytes_bits a)))"
proof (intro conjI impI)
  show m: "IPAddressMatchesPrefix a p n =
      (if length a = length p then Inr (take n (bytes_bits a) = take n (bytes_bits p))
       else if IsIPv4 a then Inr (take n (bytes_bits (kIPv4MappedPrefix @ a)) = take n (bytes_bits p))
       else Inr (take (96 + n) (bytes_bits a) = take (96 + n) (bytes_bits (kIPv4MappedPrefix @ p))))"
    using assms by (rule matches_prefix_bits)
  show "CommonPrefixLength a p = Inr (common (bytes_bits a) (bytes_bits p))" if "length a = length p"
    using common_prefix_loop_bits [of a p 0] that by (simp add: CommonPrefixLength_def)
  show "IPAddressMatchesPrefix a p n = Inr (n \<le> common (bytes_bits a) (bytes_bits p))" if "length a = length p"
    using m that common_take [of n "bytes_bits a" "bytes_bits p"] assms(3) by simp
  show "MaskPrefixLength a = Inr (length (takeWhile (\<lambda>b. b) (bytes_bits a)))"
    using mask_prefix_bits [OF assms(1)] .
qed

theorem ip_prefix_bits_witness:
  "IPAddressMatchesPrefix [10, 1, 2, 3] [10, 1, 0, 0] 16 = Inr True
   \<and> IPAddressMatchesPrefix [10, 1, 2, 3] (kIPv4MappedPrefix @ [10, 0, 0, 0]) 104 = Inr True"
proof -
  have "take 16 (bytes_bits [10, 1, 2, 3]) = take 16 (bytes_bits [10, 1, 0, 0])"
    "take 104 (bytes_bits (kIPv4MappedPrefix @ [10, 1, 2, 3])) = take 104 (bytes_bits (kIPv4MappedPrefix @ [10, 0, 0, 0]))" by code_simp+
  then show ?thesis
    using ip_prefix_bits [of "[10, 1, 2, 3]" "[10, 1, 0, 0]" 16] ip_prefix_bits [of "[10, 1, 2, 3]" "kIPv4MappedPrefix @ [10, 0, 0, 0]" 104]
    by (simp add: IsValid_def IsIPv4_def IsIPv6_def kIPv4MappedPrefix_def del: bytes_bits_simps)
qed

text \<open>The header says that a mapped IPv4 address is publicly routable, and that a failure of \<open>ParseCIDRBlock\<close> clears the address.\<close>

lemma mapped_not_routable: "IsPubliclyRoutable (kIPv4MappedPrefix @ [10, 0, 0, 1]) = Inr False"
  by code_simp

lemma cidr_not_cleared:
  assumes "SplitStringT t [47] TRIM_WHITESPACE SPLIT_WANT_ALL = [u, v]" "AssignFromIPLiteral arr u = (True, a)"
    "ParseUint32 v = Inr k" "k > int (length a) * 8"
  shows "ParseCIDRBlock arr t old = (False, a, None)"
  using assms by (simp add: ParseCIDRBlock_def)

end
