(* ===== verification/Url_Canon_Path.thy ===== *)
theory Url_Canon_Path
  imports Ip_Address
begin

text \<open>
  Canonical paths: \<^verbatim>\<open>src/uri/url_canon_path.cpp\<close> and the escaping helpers of \<^verbatim>\<open>include/common/uri/url_canon_internal.h\<close>, for 8-bit
  text.

  The text that has been written is a list; \<open>Canon_Output\<close> relates the lists to the buffer of the code. A path is read in one
  pass: characters are copied, escaped or unescaped by a table, and the dot segments are resolved on the output while it is
  written. \<open>path_loop\<close> is the loop, with the index of the next character, the index of the last \<^verbatim>\<open>%\<close> that starts no escape, the
  success flag and the output.

  For every input the output has no dot segments, neither plain nor escaped, starts with a slash and consists of characters a
  path may contain: \<open>path_inv\<close> is the invariant of the loop, over the output as a list of segments and the text that is left to
  read.
\<close>

subsection \<open>Escaping\<close>

definition kHexCharLookup :: buffer where
  "kHexCharLookup = bytes ''0123456789ABCDEF''"

definition kCharToHexLookup :: buffer where
  "kCharToHexLookup = [0, 48, 55, 87, 0, 0, 0, 0]"

definition HexCharToValue :: "u8 \<Rightarrow> u8" where
  "HexCharToValue c = c - kCharToHexLookup ! unat (c div 32)"

definition AppendEscapedChar :: "u8 \<Rightarrow> buffer \<Rightarrow> buffer" where
  "AppendEscapedChar ch out = out @ [37, kHexCharLookup ! unat (drop_bit 4 ch AND 15), kHexCharLookup ! unat (ch AND 15)]"

definition IsDot :: "buffer \<Rightarrow> nat \<Rightarrow> nat \<Rightarrow> nat" where
  "IsDot spec offset e =
     (if spec ! offset = 46 then 1
      else if spec ! offset = 37 \<and> offset + 3 \<le> e \<and> spec ! (offset + 1) = 50
        \<and> (spec ! (offset + 2) = 101 \<or> spec ! (offset + 2) = 69) then 3
      else 0)"

text \<open>The value of the escape and the index of its last character.\<close>

definition DecodeEscaped :: "buffer \<Rightarrow> nat \<Rightarrow> nat \<Rightarrow> (u8 \<times> nat) option" where
  "DecodeEscaped spec b e =
     (if b + 3 > e then None
      else
        let first = spec ! (b + 1); second = spec ! (b + 2) in
        if \<not> IsHexChar first \<or> \<not> IsHexChar second then None
        else Some (push_bit 4 (HexCharToValue first) + HexCharToValue second, b + 2))"

subsection \<open>Characters of a path\<close>

definition PASS :: u8 where "PASS = 0"
definition SPECIAL :: u8 where "SPECIAL = 1"
definition ESCAPE_BIT :: u8 where "ESCAPE_BIT = 2"
definition ESCAPE :: u8 where "ESCAPE = ESCAPE_BIT OR SPECIAL"
definition UNESCAPE :: u8 where "UNESCAPE = 4"
definition INVALID_BIT :: u8 where "INVALID_BIT = 8"
definition INVALID :: u8 where "INVALID = INVALID_BIT OR SPECIAL"

definition kPathCharLookup :: "u8 list" where
  "kPathCharLookup = [
    INVALID, ESCAPE, ESCAPE, ESCAPE, ESCAPE, ESCAPE, ESCAPE, ESCAPE,
    ESCAPE, ESCAPE, ESCAPE, ESCAPE, ESCAPE, ESCAPE, ESCAPE, ESCAPE,
    ESCAPE, ESCAPE, ESCAPE, ESCAPE, ESCAPE, ESCAPE, ESCAPE, ESCAPE,
    ESCAPE, ESCAPE, ESCAPE, ESCAPE, ESCAPE, ESCAPE, ESCAPE, ESCAPE,
    ESCAPE, PASS, ESCAPE, ESCAPE, PASS, ESCAPE, PASS, PASS,
    PASS, PASS, PASS, PASS, PASS, UNESCAPE, SPECIAL, PASS,
    UNESCAPE, UNESCAPE, UNESCAPE, UNESCAPE, UNESCAPE, UNESCAPE, UNESCAPE, UNESCAPE,
    UNESCAPE, UNESCAPE, PASS, PASS, ESCAPE, PASS, ESCAPE, ESCAPE,
    PASS, UNESCAPE, UNESCAPE, UNESCAPE, UNESCAPE, UNESCAPE, UNESCAPE, UNESCAPE,
    UNESCAPE, UNESCAPE, UNESCAPE, UNESCAPE, UNESCAPE, UNESCAPE, UNESCAPE, UNESCAPE,
    UNESCAPE, UNESCAPE, UNESCAPE, UNESCAPE, UNESCAPE, UNESCAPE, UNESCAPE, UNESCAPE,
    UNESCAPE, UNESCAPE, UNESCAPE, PASS, ESCAPE, PASS, ESCAPE, UNESCAPE,
    ESCAPE, UNESCAPE, UNESCAPE, UNESCAPE, UNESCAPE, UNESCAPE, UNESCAPE, UNESCAPE,
    UNESCAPE, UNESCAPE, UNESCAPE, UNESCAPE, UNESCAPE, UNESCAPE, UNESCAPE, UNESCAPE,
    UNESCAPE, UNESCAPE, UNESCAPE, UNESCAPE, UNESCAPE, UNESCAPE, UNESCAPE, UNESCAPE,
    UNESCAPE, UNESCAPE, UNESCAPE, ESCAPE, ESCAPE, ESCAPE, UNESCAPE, ESCAPE,
    ESCAPE, ESCAPE, ESCAPE, ESCAPE, ESCAPE, ESCAPE, ESCAPE, ESCAPE,
    ESCAPE, ESCAPE, ESCAPE, ESCAPE, ESCAPE, ESCAPE, ESCAPE, ESCAPE,
    ESCAPE, ESCAPE, ESCAPE, ESCAPE, ESCAPE, ESCAPE, ESCAPE, ESCAPE,
    ESCAPE, ESCAPE, ESCAPE, ESCAPE, ESCAPE, ESCAPE, ESCAPE, ESCAPE,
    ESCAPE, ESCAPE, ESCAPE, ESCAPE, ESCAPE, ESCAPE, ESCAPE, ESCAPE,
    ESCAPE, ESCAPE, ESCAPE, ESCAPE, ESCAPE, ESCAPE, ESCAPE, ESCAPE,
    ESCAPE, ESCAPE, ESCAPE, ESCAPE, ESCAPE, ESCAPE, ESCAPE, ESCAPE,
    ESCAPE, ESCAPE, ESCAPE, ESCAPE, ESCAPE, ESCAPE, ESCAPE, ESCAPE,
    ESCAPE, ESCAPE, ESCAPE, ESCAPE, ESCAPE, ESCAPE, ESCAPE, ESCAPE,
    ESCAPE, ESCAPE, ESCAPE, ESCAPE, ESCAPE, ESCAPE, ESCAPE, ESCAPE,
    ESCAPE, ESCAPE, ESCAPE, ESCAPE, ESCAPE, ESCAPE, ESCAPE, ESCAPE,
    ESCAPE, ESCAPE, ESCAPE, ESCAPE, ESCAPE, ESCAPE, ESCAPE, ESCAPE,
    ESCAPE, ESCAPE, ESCAPE, ESCAPE, ESCAPE, ESCAPE, ESCAPE, ESCAPE,
    ESCAPE, ESCAPE, ESCAPE, ESCAPE, ESCAPE, ESCAPE, ESCAPE, ESCAPE,
    ESCAPE, ESCAPE, ESCAPE, ESCAPE, ESCAPE, ESCAPE, ESCAPE, ESCAPE,
    ESCAPE, ESCAPE, ESCAPE, ESCAPE, ESCAPE, ESCAPE, ESCAPE, ESCAPE]"

definition char_flag :: "u8 \<Rightarrow> u8 \<Rightarrow> bool" where
  "char_flag flag c \<longleftrightarrow> kPathCharLookup ! unat c AND flag \<noteq> 0"

subsection \<open>Dot segments\<close>

datatype DotDisposition = NOT_A_DIRECTORY | DIRECTORY_CUR | DIRECTORY_UP

definition ClassifyAfterDot :: "buffer \<Rightarrow> nat \<Rightarrow> nat \<Rightarrow> DotDisposition \<times> nat" where
  "ClassifyAfterDot spec after_dot e =
     (if after_dot = e then (DIRECTORY_CUR, 0)
      else if IsURLSlash (spec ! after_dot) then (DIRECTORY_CUR, 1)
      else
        let second_dot_len = IsDot spec after_dot e; after_second_dot = after_dot + second_dot_len in
        if second_dot_len > 0 \<and> after_second_dot = e then (DIRECTORY_UP, second_dot_len)
        else if second_dot_len > 0 \<and> IsURLSlash (spec ! after_second_dot) then (DIRECTORY_UP, second_dot_len + 1)
        else (NOT_A_DIRECTORY, 0))"

fun back_up_loop :: "nat \<Rightarrow> buffer \<Rightarrow> nat \<Rightarrow> nat" where
  "back_up_loop path_begin out i =
     (if out ! i \<noteq> 47 \<and> i > path_begin then back_up_loop path_begin out (i - 1) else i)"

declare back_up_loop.simps [simp del]

definition BackUpToPreviousSlash :: "nat \<Rightarrow> buffer \<Rightarrow> buffer" where
  "BackUpToPreviousSlash path_begin out =
     (let i = length out - 1 in
      if i = path_begin then out else take (back_up_loop path_begin out (i - 1) + 1) out)"

text \<open>A \<^verbatim>\<open>char\<close> is signed, so that the test of the next character against \<^verbatim>\<open>0x80\<close> never succeeds in 8-bit text.\<close>

definition CheckForNestedEscapes :: "buffer \<Rightarrow> nat \<Rightarrow> nat \<Rightarrow> int \<Rightarrow> buffer \<Rightarrow> buffer" where
  "CheckForNestedEscapes spec next_input_index input_len last_invalid_percent_index out =
     (let len = length out;
          last_unescaped_char = out ! (len - 1);
          p = nat last_invalid_percent_index;
          append_next_char = (last_invalid_percent_index = int len - 2)
      in if append_next_char \<and> next_input_index = input_len then out
         else
           let out = (if append_next_char then out @ [spec ! next_input_index] else out) in
           case DecodeEscaped out p (length out) of
             Some _ \<Rightarrow>
               (let out = (if append_next_char then out else out @ [out ! (p + 1)])
                in out[p + 1 := 50, p + 2 := 53] @ [last_unescaped_char])
           | None \<Rightarrow> if append_next_char then take len out else out)"

text \<open>What is written for a dot, and how many characters of the input it takes.\<close>

definition path_dot :: "buffer \<Rightarrow> nat \<Rightarrow> nat \<Rightarrow> nat \<Rightarrow> nat \<Rightarrow> buffer \<Rightarrow> buffer \<times> nat" where
  "path_dot spec e path_begin i dotlen out =
     (if length out > path_begin \<and> out ! (length out - 1) = 47 then
        let (disposition, consumed_len) = ClassifyAfterDot spec (i + dotlen) e in
        case disposition of
          NOT_A_DIRECTORY \<Rightarrow> (out @ [46], dotlen)
        | DIRECTORY_CUR \<Rightarrow> (out, dotlen + consumed_len)
        | DIRECTORY_UP \<Rightarrow> (BackUpToPreviousSlash path_begin out, dotlen + consumed_len)
      else (out @ [46], dotlen))"

definition path_unescaped :: "buffer \<Rightarrow> nat \<Rightarrow> nat \<Rightarrow> int \<Rightarrow> u8 \<Rightarrow> buffer \<Rightarrow> buffer" where
  "path_unescaped spec e i last_invalid_percent_index unescaped_value out =
     (let out = out @ [unescaped_value] in
      if last_invalid_percent_index \<ge> int (length out) - 3
      then CheckForNestedEscapes spec (i + 1) e last_invalid_percent_index out
      else out)"

lemma path_dot_consumes: "path_dot spec e path_begin i dotlen out = (out', n) \<Longrightarrow> dotlen \<le> n"
  by (auto simp: path_dot_def Let_def split: if_splits DotDisposition.splits prod.splits)

lemma DecodeEscaped_index: "DecodeEscaped spec b e = Some (v, j) \<Longrightarrow> j = b + 2 \<and> b + 3 \<le> e"
  by (auto simp: DecodeEscaped_def Let_def split: if_splits)

function path_loop :: "buffer \<Rightarrow> nat \<Rightarrow> nat \<Rightarrow> nat \<Rightarrow> int \<Rightarrow> bool \<Rightarrow> buffer \<Rightarrow> bool \<times> buffer" where
  "path_loop spec e path_begin i last_invalid_percent_index success out =
     (if i \<ge> e then (success, out)
      else
        let out_ch = spec ! i in
        if \<not> char_flag SPECIAL out_ch
        then path_loop spec e path_begin (i + 1) last_invalid_percent_index success (out @ [out_ch])
        else
          let dotlen = IsDot spec i e in
          if dotlen > 0 then
            let (out, n) = path_dot spec e path_begin i dotlen out in
            path_loop spec e path_begin (i + n) last_invalid_percent_index success out
          else if out_ch = 92 then path_loop spec e path_begin (i + 1) last_invalid_percent_index success (out @ [47])
          else if out_ch = 37 then
            (case DecodeEscaped spec i e of
               Some (unescaped_value, j) \<Rightarrow>
                 if char_flag UNESCAPE unescaped_value
                 then path_loop spec e path_begin (j + 1) last_invalid_percent_index success
                        (path_unescaped spec e j last_invalid_percent_index unescaped_value out)
                 else path_loop spec e path_begin (j + 1) last_invalid_percent_index
                        (success \<and> \<not> char_flag INVALID_BIT unescaped_value) (out @ [37, spec ! (j - 1), spec ! j])
             | None \<Rightarrow> path_loop spec e path_begin (i + 1) (int (length out)) success (out @ [37]))
          else if char_flag INVALID_BIT out_ch
          then path_loop spec e path_begin (i + 1) last_invalid_percent_index False (AppendEscapedChar out_ch out)
          else if char_flag ESCAPE_BIT out_ch
          then path_loop spec e path_begin (i + 1) last_invalid_percent_index success (AppendEscapedChar out_ch out)
          else path_loop spec e path_begin (i + 1) last_invalid_percent_index success out)"
  by pat_completeness auto

termination
  by (relation "measure (\<lambda>(_, e, _, i, _). e - i)") (auto dest: path_dot_consumes [OF sym] DecodeEscaped_index)

declare path_loop.simps [simp del]

definition INT_MIN :: int where "INT_MIN = - (2 ^ 31)"

definition DoPartialPath :: "buffer \<Rightarrow> Component \<Rightarrow> nat \<Rightarrow> buffer \<Rightarrow> bool \<times> buffer" where
  "DoPartialPath spec path path_begin_in_output out =
     path_loop spec (nat (c_end path)) path_begin_in_output (nat (c_begin path)) INT_MIN True out"

text \<open>The result is the success, the output and the component of the path in the output.\<close>

definition DoPath :: "buffer \<Rightarrow> Component \<Rightarrow> buffer \<Rightarrow> bool \<times> buffer \<times> Component" where
  "DoPath spec path out =
     (let b = length out;
          (success, out) =
            (if c_len path > 0
             then DoPartialPath spec path b (if IsURLSlash (spec ! nat (c_begin path)) then out else out @ [47])
             else (True, out @ [47]))
      in (success, out, Comp (int b) (int (length out) - int b)))"

subsection \<open>Classes of characters\<close>

definition path_char :: "u8 \<Rightarrow> bool" where
  "path_char c \<longleftrightarrow> 33 \<le> c \<and> c \<le> 126 \<and> c \<notin> set [34, 35, 60, 62, 63, 92, 94, 96, 123, 124, 125]"

definition unreserved_char :: "u8 \<Rightarrow> bool" where
  "unreserved_char c \<longleftrightarrow> 48 \<le> c \<and> c \<le> 57 \<or> 65 \<le> c \<and> c \<le> 90 \<or> 97 \<le> c \<and> c \<le> 122 \<or> c \<in> set [45, 95, 126]"

lemma path_table_classes:
  "map (\<lambda>b. b AND SPECIAL \<noteq> 0) kPathCharLookup = map (\<lambda>n. \<not> path_char (of_nat n) \<or> of_nat n \<in> set [37, 46 :: u8]) [0..<256]"
  "map (\<lambda>b. b AND UNESCAPE \<noteq> 0) kPathCharLookup = map (\<lambda>n. unreserved_char (of_nat n)) [0..<256]"
  "map (\<lambda>b. b AND INVALID_BIT \<noteq> 0) kPathCharLookup = map (\<lambda>n. of_nat n = (0 :: u8)) [0..<256]"
  "map (\<lambda>b. b AND ESCAPE_BIT \<noteq> 0) kPathCharLookup = map (\<lambda>n. of_nat n \<noteq> (0 :: u8) \<and> (\<not> path_char (of_nat n) \<or> of_nat n = (37 :: u8))) [0..<256]"
  by code_simp+

lemma path_class:
  assumes "map (\<lambda>b. b AND flag \<noteq> 0) kPathCharLookup = map (\<lambda>n. P (of_nat n)) [0..<256]"
  shows "char_flag flag c = P c"
proof -
  have n: "unat c < 256" using unat_bound [of c] by simp
  have "length kPathCharLookup = 256" using arg_cong [OF assms, of length] by simp
  then have "char_flag flag c = map (\<lambda>b. b AND flag \<noteq> 0) kPathCharLookup ! unat c" using n by (simp add: char_flag_def)
  also have "\<dots> = P c" unfolding assms using n by simp
  finally show ?thesis .
qed

lemma path_classes:
  "char_flag SPECIAL c \<longleftrightarrow> \<not> path_char c \<or> c \<in> set [37, 46]"
  "char_flag UNESCAPE c \<longleftrightarrow> unreserved_char c"
  "char_flag INVALID_BIT c \<longleftrightarrow> c = 0"
  "char_flag ESCAPE_BIT c \<longleftrightarrow> c \<noteq> 0 \<and> (\<not> path_char c \<or> c = 37)"
  by (rule path_class, rule path_table_classes)+

lemma path_char_facts:
  "\<not> path_char 0" "\<not> path_char 92" "path_char 37" "path_char 46" "path_char 47" "path_char 50" "path_char 53"
  "\<not> unreserved_char 46" "\<not> unreserved_char 47" "\<not> unreserved_char 37"
  by (simp_all add: path_char_def unreserved_char_def)

lemma unreserved_path_char: "unreserved_char c \<Longrightarrow> path_char c"
  unfolding unreserved_char_def path_char_def by (auto simp: word_le_nat_alt)

subsection \<open>The loop on the remaining text\<close>

definition rest_text :: "buffer \<Rightarrow> nat \<Rightarrow> nat \<Rightarrow> buffer" where
  "rest_text spec i e = take (e - i) (drop i spec)"

abbreviation (input) path_text :: "nat \<Rightarrow> buffer \<Rightarrow> int \<Rightarrow> bool \<Rightarrow> buffer \<Rightarrow> bool \<times> buffer" where
  "path_text path_begin r \<equiv> path_loop r (length r) path_begin 0"

lemma length_rest_text: "e \<le> length spec \<Longrightarrow> length (rest_text spec i e) = e - i"
  by (simp add: rest_text_def)

lemma rest_text_nth: "e \<le> length spec \<Longrightarrow> i + k < e \<Longrightarrow> rest_text spec i e ! k = spec ! (i + k)"
  by (simp add: rest_text_def)

lemma drop_rest_text: "drop k (rest_text spec i e) = rest_text spec (i + k) e"
  by (simp add: rest_text_def drop_take add.commute)

lemma rest_text_all: "rest_text r k (length r) = drop k r"
  by (simp add: rest_text_def)

lemmas rest_text_simps = length_rest_text rest_text_nth

lemma IsDot_le: "i < e \<Longrightarrow> i + IsDot spec i e \<le> e"
  by (simp add: IsDot_def)

lemma IsDot_rest:
  assumes "i + k < e" "e \<le> length spec"
  shows "IsDot spec (i + k) e = IsDot (rest_text spec i e) k (e - i)"
proof -
  have "i + k + 3 \<le> e \<longleftrightarrow> k + 3 \<le> e - i" using assms by auto
  moreover have "rest_text spec i e ! k = spec ! (i + k)" using rest_text_nth assms by auto
  moreover have "rest_text spec i e ! (k + 1) = spec ! (i + k + 1)" "rest_text spec i e ! (k + 2) = spec ! (i + k + 2)" if "i + k + 3 \<le> e"
    using rest_text_nth [of e spec i "k + 1"] rest_text_nth [of e spec i "k + 2"] that assms by (simp_all add: add.assoc)
  ultimately show ?thesis by (auto simp: IsDot_def)
qed

lemma ClassifyAfterDot_rest:
  assumes "i + k \<le> e" "e \<le> length spec"
  shows "ClassifyAfterDot spec (i + k) e = ClassifyAfterDot (rest_text spec i e) k (e - i)"
proof (cases "i + k = e")
  case False
  then have k: "i + k < e" using assms by simp
  let ?d = "IsDot spec (i + k) e"
  have d: "?d = IsDot (rest_text spec i e) k (e - i)" using IsDot_rest k assms by blast
  have n: "rest_text spec i e ! k = spec ! (i + k)" using rest_text_nth k assms by blast
  have le: "i + k + ?d \<le> e" using IsDot_le [OF k] by simp
  have n2: "rest_text spec i e ! (k + ?d) = spec ! (i + k + ?d)" if "i + k + ?d \<noteq> e"
    using rest_text_nth [of e spec i "k + ?d"] le that assms by (simp add: add.assoc)
  have c: "i + k + ?d = e \<longleftrightarrow> k + ?d = e - i" "i + k = e \<longleftrightarrow> k = e - i" using assms k by auto
  show ?thesis unfolding ClassifyAfterDot_def Let_def d [symmetric] using n n2 c by auto
next
  case True
  then have "k = e - i" by simp
  with True show ?thesis by (simp add: ClassifyAfterDot_def)
qed

lemma DecodeEscaped_rest:
  assumes "i + k < e" "e \<le> length spec"
  shows "DecodeEscaped spec (i + k) e = map_option (\<lambda>(v, j). (v, i + j)) (DecodeEscaped (rest_text spec i e) k (e - i))"
  using assms rest_text_nth [of e spec i "k + 1"] rest_text_nth [of e spec i "k + 2"]
  by (auto simp: DecodeEscaped_def Let_def)

lemma path_dot_rest:
  assumes "i < e" "e \<le> length spec"
  shows "path_dot spec e pb i (IsDot spec i e) out = path_dot (rest_text spec i e) (e - i) pb 0 (IsDot spec i e) out"
  using ClassifyAfterDot_rest [of i "IsDot spec i e" e spec] IsDot_le [of i e spec] assms by (simp add: path_dot_def)

lemma path_dot_le:
  assumes "path_dot spec e pb i (IsDot spec i e) out = (out', n)" "i < e"
  shows "i + n \<le> e"
proof -
  have d: "i + IsDot spec i e \<le> e" using IsDot_le [OF assms(2)] .
  have "i + IsDot spec i e + snd (ClassifyAfterDot spec (i + IsDot spec i e) e) \<le> e"
    using d IsDot_le [of "i + IsDot spec i e" e spec] by (auto simp: ClassifyAfterDot_def Let_def)
  then show ?thesis using assms(1) d by (auto simp: path_dot_def split: if_splits DotDisposition.splits prod.splits)
qed

lemma CheckForNestedEscapes_rest:
  assumes "i + k \<le> e" "e \<le> length spec"
  shows "CheckForNestedEscapes spec (i + k) e lip out = CheckForNestedEscapes (rest_text spec i e) k (e - i) lip out"
proof (cases "i + k = e")
  case False
  then have n: "rest_text spec i e ! k = spec ! (i + k)" "i + k \<noteq> e" "k \<noteq> e - i" using rest_text_nth assms by auto
  then show ?thesis by (simp add: CheckForNestedEscapes_def cong: if_cong)
next
  case True
  then have "k = e - i" by simp
  with True show ?thesis by (simp add: CheckForNestedEscapes_def Let_def)
qed

lemma path_unescaped_rest:
  assumes "i + k < e" "e \<le> length spec"
  shows "path_unescaped spec e (i + k) lip v out = path_unescaped (rest_text spec i e) (e - i) k lip v out"
  using CheckForNestedEscapes_rest [of i "k + 1" e spec] assms by (simp add: path_unescaped_def Let_def)

lemma path_loop_rest:
  assumes "i \<le> e" "e \<le> length spec"
  shows "path_loop spec e pb i lip ok out = path_text pb (rest_text spec i e) lip ok out"
  using assms
proof (induction "e - i" arbitrary: spec i e lip ok out rule: less_induct)
  case less
  let ?r = "rest_text spec i e"
  have len: "length ?r = e - i" using less.prems by (simp add: length_rest_text)
  show ?case
  proof (cases "i = e")
    case False
    then have i: "i < e" using less.prems by simp
    have step: "path_loop spec e pb (i + k) lip ok out = path_loop ?r (e - i) pb k lip ok out"
      if "0 < k" "i + k \<le> e" for k lip ok out
    proof -
      have "path_loop spec e pb (i + k) lip ok out = path_text pb (drop k ?r) lip ok out"
        using less.hyps [of e "i + k" spec lip ok out] that less.prems by (simp add: drop_rest_text)
      moreover have "path_loop ?r (e - i) pb k lip ok out = path_text pb (drop k ?r) lip ok out"
        using less.hyps [of "e - i" k ?r lip ok out] that less.prems len rest_text_all [of ?r k] by simp
      ultimately show ?thesis by simp
    qed
    have hd: "?r ! 0 = spec ! i" using rest_text_nth [of e spec i 0] less.prems i by simp
    have d: "IsDot ?r 0 (e - i) = IsDot spec i e" using IsDot_rest [of i 0 e spec] less.prems i by simp
    have esc: "DecodeEscaped spec i e = map_option (\<lambda>(v, j). (v, i + j)) (DecodeEscaped ?r 0 (e - i))"
      using DecodeEscaped_rest [of i 0 e spec] less.prems i by simp
    note unfolded = path_loop.simps [of spec e pb i] path_loop.simps [of ?r "e - i" pb 0]
    have ni: "\<not> e \<le> i" using i by simp
    note facts = i ni len hd d Let_def
    consider (plain) "\<not> char_flag SPECIAL (spec ! i)" | (dot) "char_flag SPECIAL (spec ! i)" "0 < IsDot spec i e"
      | (percent) "char_flag SPECIAL (spec ! i)" "IsDot spec i e = 0" "spec ! i = 37"
      | (other) "char_flag SPECIAL (spec ! i)" "IsDot spec i e = 0" "spec ! i \<noteq> 37" by blast
    then show ?thesis
    proof cases
      case plain
      then show ?thesis using step [of 1] i by (simp add: unfolded facts)
    next
      case dot
      obtain out' n where p: "path_dot spec e pb i (IsDot spec i e) out = (out', n)" by fastforce
      have p': "path_dot ?r (e - i) pb 0 (IsDot spec i e) out = (out', n)" using path_dot_rest [OF i] less.prems p by simp
      have n: "0 < n" "i + n \<le> e"
        using path_dot_consumes [OF p] path_dot_le [OF p i] dot by auto
      show ?thesis using step [of n] dot n by (simp add: unfolded facts p p')
    next
      case percent
      show ?thesis
      proof (cases "DecodeEscaped ?r 0 (e - i)")
        case None
        then show ?thesis using step [of 1] i percent by (simp add: unfolded facts esc)
      next
        case (Some vj)
        then obtain v where v: "DecodeEscaped ?r 0 (e - i) = Some (v, 2)" "i + 3 \<le> e" using DecodeEscaped_index by (cases vj) fastforce
        have n: "?r ! 1 = spec ! (i + 1)" "?r ! 2 = spec ! (i + 2)" using rest_text_nth v(2) less.prems by auto
        have u: "path_unescaped spec e (i + 2) lip v out = path_unescaped ?r (e - i) 2 lip v out"
          using path_unescaped_rest [of i 2 e spec] v(2) less.prems by simp
        have "path_loop spec e pb (Suc (Suc (Suc i))) lip ok out = path_loop ?r (e - i) pb 3 lip ok out" for lip ok out
          using step [of 3] v(2) by (simp add: numeral_3_eq_3)
        then show ?thesis using percent v n u by (simp add: unfolded facts esc)
      qed
    next
      case other
      then show ?thesis using step [of 1] i by (simp add: unfolded facts)
    qed
  next
    case True
    then show ?thesis by (simp add: rest_text_def) (simp add: path_loop.simps)
  qed
qed

subsection \<open>Equations of the loop\<close>

definition dots :: "buffer set" where
  "dots = {[46], [37, 50, 101], [37, 50, 69]}"

definition at_end :: "buffer \<Rightarrow> bool" where
  "at_end r \<longleftrightarrow> r = [] \<or> IsURLSlash (hd r)"

definition at_start :: "nat \<Rightarrow> buffer \<Rightarrow> bool" where
  "at_start pb out \<longleftrightarrow> length out > pb \<and> last out = 47"

definition escape_value :: "u8 \<Rightarrow> u8 \<Rightarrow> u8" where
  "escape_value a b = push_bit 4 (HexCharToValue a) + HexCharToValue b"

lemma path_loop_drop: "k \<le> length r \<Longrightarrow> path_loop r (length r) pb k lip ok out = path_text pb (drop k r) lip ok out"
  using path_loop_rest [of k "length r" r pb lip ok out] by (simp add: rest_text_all)

lemma IsDot_zero: "r \<noteq> [] \<Longrightarrow> IsDot r 0 (length r) = 0 \<longleftrightarrow> (\<forall>d\<in>dots. \<forall>t. r \<noteq> d @ t)"
proof -
  assume "r \<noteq> []"
  then consider a where "r = [a]" | a b where "r = [a, b]" | a b c t where "r = a # b # c # t"
    by (metis list.exhaust)
  then show ?thesis by cases (auto simp: IsDot_def dots_def)
qed

lemma IsDot_dots: "d \<in> dots \<Longrightarrow> IsDot (d @ t) 0 (length (d @ t)) = length d"
  by (auto simp: IsDot_def dots_def)

lemma IsDot_dots': "d \<in> dots \<Longrightarrow> IsDot (d @ t) 0 (length d + length t) = length d"
  using IsDot_dots [of d t] by simp

lemma dots_special: "d \<in> dots \<Longrightarrow> char_flag SPECIAL ((d @ t) ! 0) \<and> d \<noteq> []"
  by (auto simp: dots_def path_classes)

lemma path_text_Nil [simp]: "path_text pb [] lip ok out = (ok, out)"
  by (simp add: path_loop.simps)

lemma path_text_copy:
  assumes "path_char c" "c \<noteq> 37" "c \<noteq> 46"
  shows "path_text pb (c # r) lip ok out = path_text pb r lip ok (out @ [c])"
  using assms path_loop_drop [of 1 "c # r"] by (subst path_loop.simps) (simp add: path_classes Let_def)

lemma not_dot: "c \<noteq> 46 \<Longrightarrow> c \<noteq> 37 \<Longrightarrow> IsDot (c # r) 0 e = 0"
  by (simp add: IsDot_def)

lemma path_text_backslash: "path_text pb (92 # r) lip ok out = path_text pb r lip ok (out @ [47])"
  using path_loop_drop [of 1 "92 # r"] by (subst path_loop.simps) (simp add: path_classes path_char_facts not_dot Let_def)

lemma path_text_slash: "IsURLSlash c \<Longrightarrow> path_text pb (c # r) lip ok out = path_text pb r lip ok (out @ [47])"
  using path_text_backslash path_text_copy [of 47] path_char_facts by (auto simp: IsURLSlash_def)

lemma path_text_escape:
  assumes "\<not> path_char c" "c \<noteq> 92"
  shows "path_text pb (c # r) lip ok out = path_text pb r lip (ok \<and> c \<noteq> 0) (AppendEscapedChar c out)"
proof -
  have "c \<noteq> 46" "c \<noteq> 37" using assms path_char_facts by auto
  then show ?thesis
    using assms path_loop_drop [of 1 "c # r"] by (subst path_loop.simps) (auto simp: path_classes not_dot Let_def)
qed

definition no_escape :: "buffer \<Rightarrow> bool" where
  "no_escape r \<longleftrightarrow> (\<forall>a b t. r = a # b # t \<longrightarrow> \<not> IsHexChar a \<or> \<not> IsHexChar b)"

lemma hex_2e: "IsHexChar 50" "IsHexChar 101" "IsHexChar 69" "IsHexChar 53"
  by (simp_all add: IsHexChar_digit CharToDigit_def)

lemma DecodeEscaped_None: "DecodeEscaped (37 # r) 0 (Suc (length r)) = None \<longleftrightarrow> no_escape r"
proof -
  consider "r = []" | a where "r = [a]" | a b t where "r = a # b # t" by (metis list.exhaust)
  then show ?thesis by cases (auto simp: DecodeEscaped_def no_escape_def Let_def)
qed

lemma path_text_percent:
  assumes "no_escape r"
  shows "path_text pb (37 # r) lip ok out = path_text pb r (int (length out)) ok (out @ [37])"
proof -
  have "IsDot (37 # r) 0 (length (37 # r)) = 0"
    using assms hex_2e IsDot_zero [of "37 # r"] by (auto simp: dots_def no_escape_def)
  then show ?thesis
    using assms path_loop_drop [of 1 "37 # r"] DecodeEscaped_None [of r]
    by (subst path_loop.simps) (simp add: path_classes Let_def)
qed

lemma path_text_escaped:
  assumes "IsHexChar a" "IsHexChar b" "[37, a, b] \<notin> dots"
  shows "path_text pb (37 # a # b # r) lip ok out =
    (if unreserved_char (escape_value a b)
     then path_text pb r lip ok
            (if lip \<ge> int (length out) - 2
             then CheckForNestedEscapes r 0 (length r) lip (out @ [escape_value a b])
             else out @ [escape_value a b])
     else path_text pb r lip (ok \<and> escape_value a b \<noteq> 0) (out @ [37, a, b]))"
proof -
  let ?s = "37 # a # b # r"
  have d: "IsDot ?s 0 (length ?s) = 0" using assms(3) IsDot_zero [of ?s] by (auto simp: dots_def)
  have e: "DecodeEscaped ?s 0 (length ?s) = Some (escape_value a b, 2)"
    using assms by (simp add: DecodeEscaped_def escape_value_def Let_def)
  have "CheckForNestedEscapes ?s 3 (length ?s) lip out = CheckForNestedEscapes r 0 (length r) lip out" for lip out
    using CheckForNestedEscapes_rest [of 3 0 "length ?s" ?s] rest_text_all [of ?s 3] by simp
  then have u: "path_unescaped ?s (length ?s) 2 lip v out =
      (if lip \<ge> int (length out) - 2 then CheckForNestedEscapes r 0 (length r) lip (out @ [v]) else out @ [v])" for v
    by (simp add: path_unescaped_def Let_def)
  have s: "path_loop ?s (length ?s) pb 3 lip ok out = path_text pb r lip ok out" for lip ok out
    using path_loop_drop [of 3 ?s] by simp
  show ?thesis
    using d e u s by (subst path_loop.simps) (simp add: path_classes Let_def numeral_3_eq_3)
qed

lemma ClassifyAfterDot_end:
  assumes "at_end r"
  shows "\<exists>k. ClassifyAfterDot r 0 (length r) = (DIRECTORY_CUR, k) \<and> k \<le> length r \<and> drop k r = tl r"
  using assms by (cases r) (auto simp: ClassifyAfterDot_def at_end_def)

lemma ClassifyAfterDot_dots:
  assumes "d \<in> dots" "at_end r"
  shows "\<exists>k. ClassifyAfterDot (d @ r) 0 (length (d @ r)) = (DIRECTORY_UP, k) \<and> k \<le> length (d @ r) \<and> drop k (d @ r) = tl r"
proof -
  have d: "d \<noteq> []" "\<not> IsURLSlash ((d @ r) ! 0)" using assms(1) by (auto simp: dots_def IsURLSlash_def)
  then have l: "0 < length d" by simp
  show ?thesis
    using assms(2) d l IsDot_dots [OF assms(1), of r]
    by (cases r) (auto simp: ClassifyAfterDot_def at_end_def Let_def nth_append)
qed

lemma ClassifyAfterDot_none:
  assumes "\<not> at_end r" "\<forall>d\<in>dots. \<forall>t. r = d @ t \<longrightarrow> \<not> at_end t"
  shows "ClassifyAfterDot r 0 (length r) = (NOT_A_DIRECTORY, 0)"
proof -
  have r: "r \<noteq> []" "\<not> IsURLSlash (r ! 0)" using assms(1) by (auto simp: at_end_def hd_conv_nth)
  show ?thesis
  proof (cases "IsDot r 0 (length r) = 0")
    case False
    then obtain d t where d: "d \<in> dots" "r = d @ t" using IsDot_zero r by auto
    then have "\<not> at_end t" using assms(2) by blast
    then have "t \<noteq> []" "\<not> IsURLSlash (t ! 0)" by (auto simp: at_end_def hd_conv_nth)
    then show ?thesis using r IsDot_dots [OF d(1), of t] d(2) by (simp add: ClassifyAfterDot_def Let_def nth_append)
  qed (use r in \<open>simp add: ClassifyAfterDot_def\<close>)
qed

lemma path_text_dot:
  assumes "d \<in> dots"
  shows "path_text pb (d @ r) lip ok out =
    (if at_start pb out then
       (case ClassifyAfterDot r 0 (length r) of
          (NOT_A_DIRECTORY, k) \<Rightarrow> path_text pb r lip ok (out @ [46])
        | (DIRECTORY_CUR, k) \<Rightarrow> path_text pb (drop k r) lip ok out
        | (DIRECTORY_UP, k) \<Rightarrow> path_text pb (drop k r) lip ok (BackUpToPreviousSlash pb out))
     else path_text pb r lip ok (out @ [46]))"
proof -
  let ?s = "d @ r"
  have l: "IsDot ?s 0 (length ?s) = length d" "0 < length d" "char_flag SPECIAL (?s ! 0)"
    using IsDot_dots [OF assms, of r] dots_special [OF assms, of r] by auto
  have c: "ClassifyAfterDot ?s (length d) (length ?s) = ClassifyAfterDot r 0 (length r)"
    using ClassifyAfterDot_rest [of "length d" 0 "length ?s" ?s] rest_text_all [of ?s "length d"] by simp
  have st: "at_start pb out \<longleftrightarrow> pb < length out \<and> out ! (length out - 1) = 47"
    by (cases "out = []") (auto simp: at_start_def last_conv_nth)
  obtain disp k where k: "ClassifyAfterDot r 0 (length r) = (disp, k)" by fastforce
  have kr: "k \<le> length r"
    using k IsDot_le [of 0 "length r" r] by (auto simp: ClassifyAfterDot_def Let_def split: if_splits simp flip: length_greater_0_conv)
  have "path_loop ?s (length ?s) pb (length d + j) lip ok out = path_text pb (drop j r) lip ok out" if "j \<le> length r" for j lip ok out
    using path_loop_drop [of "length d + j" ?s] that by simp
  from this [of k] this [of 0] show ?thesis
    using l c k kr by (subst path_loop.simps) (auto simp: st path_dot_def Let_def split: DotDisposition.splits)
qed

lemma path_text_dot_in_name:
  assumes "d \<in> dots" "\<not> at_start pb out"
  shows "path_text pb (d @ r) lip ok out = path_text pb r lip ok (out @ [46])"
  using path_text_dot [OF assms(1)] assms(2) by simp

lemma path_text_dot_cur:
  assumes "d \<in> dots" "at_start pb out" "at_end r"
  shows "path_text pb (d @ r) lip ok out = path_text pb (tl r) lip ok out"
proof -
  obtain k where "ClassifyAfterDot r 0 (length r) = (DIRECTORY_CUR, k)" "drop k r = tl r" using ClassifyAfterDot_end [OF assms(3)] by blast
  then show ?thesis using assms(2) by (simp only: path_text_dot [OF assms(1)] if_True prod.case DotDisposition.case)
qed

lemma path_text_dot_up:
  assumes "d \<in> dots" "at_start pb out" "d' \<in> dots" "at_end r"
  shows "path_text pb (d @ d' @ r) lip ok out = path_text pb (tl r) lip ok (BackUpToPreviousSlash pb out)"
proof -
  obtain k where "ClassifyAfterDot (d' @ r) 0 (length (d' @ r)) = (DIRECTORY_UP, k)" "drop k (d' @ r) = tl r"
    using ClassifyAfterDot_dots [OF assms(3,4)] by blast
  then show ?thesis using assms(2) by (simp only: path_text_dot [OF assms(1)] if_True prod.case DotDisposition.case)
qed

lemma path_text_dot_name:
  assumes "d \<in> dots" "\<not> at_end r" "\<forall>d\<in>dots. \<forall>t. r = d @ t \<longrightarrow> \<not> at_end t"
  shows "path_text pb (d @ r) lip ok out = path_text pb r lip ok (out @ [46])"
  using path_text_dot [OF assms(1), of r pb lip ok out] ClassifyAfterDot_none [OF assms(2,3)] by simp

subsection \<open>The output as segments\<close>

definition shaped :: "buffer \<Rightarrow> buffer list \<Rightarrow> buffer \<Rightarrow> buffer \<Rightarrow> bool" where
  "shaped pre segs L out \<longleftrightarrow>
     out = pre @ 47 # concat (map (\<lambda>s. s @ [47]) segs) @ L \<and> (\<forall>s\<in>set segs. 47 \<notin> set s) \<and> 47 \<notin> set L"

lemma slash_last: "\<exists>a. 47 # concat (map (\<lambda>s. s @ [47]) segs) = a @ [47 :: u8]"
  by (cases segs rule: rev_cases) auto

lemma shaped_start: "shaped pre segs L out \<Longrightarrow> at_start (length pre) out \<longleftrightarrow> L = []"
proof -
  assume s: "shaped pre segs L out"
  obtain a where a: "47 # concat (map (\<lambda>s. s @ [47]) segs) = a @ [47 :: u8]" using slash_last by blast
  have "out = pre @ (a @ [47]) @ L" "47 \<notin> set L" using s unfolding a [symmetric] by (simp_all add: shaped_def)
  then show ?thesis by (cases L rule: rev_cases) (auto simp: at_start_def)
qed

lemma shaped_append: "shaped pre segs L out \<Longrightarrow> 47 \<notin> set w \<Longrightarrow> shaped pre segs (L @ w) (out @ w)"
  by (auto simp: shaped_def)

lemma shaped_slash: "shaped pre segs L out \<Longrightarrow> shaped pre (segs @ [L]) [] (out @ [47])"
  by (auto simp: shaped_def)

lemma back_up_loop_slash:
  "out = a @ 47 # s @ t \<Longrightarrow> 47 \<notin> set s \<Longrightarrow> pb \<le> length a \<Longrightarrow> back_up_loop pb out (length a + length s) = length a"
proof (induction s arbitrary: t rule: rev_induct)
  case (snoc x s)
  have x: "out ! (length a + length (s @ [x])) = x" using snoc.prems by (simp add: nth_append)
  have "back_up_loop pb out (length a + length s) = length a" using snoc.IH [of "x # t"] snoc.prems by simp
  then show ?case using x snoc.prems by (subst back_up_loop.simps) auto
qed (subst back_up_loop.simps, simp)

lemma shaped_back:
  assumes "shaped pre segs [] out"
  shows "shaped pre (butlast segs) [] (BackUpToPreviousSlash (length pre) out)"
proof (cases segs rule: rev_cases)
  case Nil
  then show ?thesis using assms by (auto simp: shaped_def BackUpToPreviousSlash_def)
next
  case (snoc ss s)
  obtain a where a: "47 # concat (map (\<lambda>s. s @ [47]) ss) = a @ [47 :: u8]" using slash_last by blast
  have "out = pre @ (47 # concat (map (\<lambda>s. s @ [47]) ss)) @ s @ [47]" using assms by (simp add: shaped_def snoc)
  then have out: "out = (pre @ a) @ 47 # s @ [47]" by (simp only: a append_assoc append_Cons append_Nil)
  have s: "47 \<notin> set s" using assms by (simp add: shaped_def snoc)
  have "back_up_loop (length pre) out (length (pre @ a) + length s) = length (pre @ a)"
    by (rule back_up_loop_slash) (use out s in auto)
  then have "BackUpToPreviousSlash (length pre) out = take (length (pre @ a) + 1) out"
    by (simp add: BackUpToPreviousSlash_def out add.assoc)
  also have "\<dots> = pre @ a @ [47]" by (simp add: out)
  also have "\<dots> = pre @ 47 # concat (map (\<lambda>s. s @ [47]) ss)" by (simp flip: a)
  finally show ?thesis using assms by (simp add: shaped_def snoc)
qed

subsection \<open>No dot segments\<close>

definition no_dot_escape :: "buffer \<Rightarrow> bool" where
  "no_dot_escape s \<longleftrightarrow> (\<forall>q x t. s = q @ [37, 50, x] @ t \<longrightarrow> x \<noteq> 101 \<and> x \<noteq> 69)"

lemma no_dot_escape_Nil [simp]: "no_dot_escape []"
  by (simp add: no_dot_escape_def)

lemma no_dot_escape_snoc:
  "no_dot_escape (s @ [c]) \<longleftrightarrow> no_dot_escape s \<and> \<not> (\<exists>q. s = q @ [37, 50] \<and> (c = 101 \<or> c = 69))"
proof -
  have "s @ [c] = q @ [37, 50, x] @ t \<longleftrightarrow> (\<exists>u. t = u @ [c] \<and> s = q @ [37, 50, x] @ u) \<or> t = [] \<and> s = q @ [37, 50] \<and> x = c" for q x t
    by (cases t rule: rev_cases) auto
  note split = this
  show ?thesis
  proof
    assume a: "no_dot_escape (s @ [c])"
    have "x \<noteq> 101 \<and> x \<noteq> 69" if "s = q @ [37, 50, x] @ t" for q x t
      using a [unfolded no_dot_escape_def, rule_format, of q x "t @ [c]"] that by simp
    moreover have "c \<noteq> 101 \<and> c \<noteq> 69" if "s = q @ [37, 50]" for q
      using a [unfolded no_dot_escape_def, rule_format, of q c "[]"] that by simp
    ultimately show "no_dot_escape s \<and> \<not> (\<exists>q. s = q @ [37, 50] \<and> (c = 101 \<or> c = 69))" by (auto simp: no_dot_escape_def)
  next
    assume a: "no_dot_escape s \<and> \<not> (\<exists>q. s = q @ [37, 50] \<and> (c = 101 \<or> c = 69))"
    then show "no_dot_escape (s @ [c])" unfolding no_dot_escape_def split by blast
  qed
qed

definition seg_ok :: "buffer \<Rightarrow> bool" where
  "seg_ok s \<longleftrightarrow> (\<forall>c\<in>set s. path_char c \<and> c \<noteq> 47) \<and> no_dot_escape s"

definition dot_name :: "buffer \<Rightarrow> bool" where
  "dot_name s \<longleftrightarrow> s = [46] \<or> s = [46, 46]"

definition pending :: "buffer \<Rightarrow> buffer \<Rightarrow> bool" where
  "pending L r \<longleftrightarrow> (dot_name L \<longrightarrow> \<not> at_end r) \<and> (L = [46] \<longrightarrow> (\<forall>d\<in>dots. \<forall>t. r = d @ t \<longrightarrow> \<not> at_end t))"

definition percent_ok :: "buffer \<Rightarrow> buffer \<Rightarrow> int \<Rightarrow> int \<Rightarrow> bool" where
  "percent_ok L r lip n \<longleftrightarrow>
     (\<forall>q. L = q @ [37] \<longrightarrow> lip = n - 1 \<and> no_escape r) \<and> (\<forall>q. L = q @ [37, 50] \<longrightarrow> lip = n - 2 \<and> (r = [] \<or> \<not> IsHexChar (hd r)))"

text \<open>The invariant of the loop, for the output \<open>out\<close>, the remaining text \<open>r\<close> and the index of the last loose \<^verbatim>\<open>%\<close>. The last
  segment may be a dot name as long as the remaining text continues it; a \<^verbatim>\<open>%\<close> near the end of the output starts no escape.\<close>

definition path_inv :: "buffer \<Rightarrow> buffer list \<Rightarrow> buffer \<Rightarrow> buffer \<Rightarrow> int \<Rightarrow> buffer \<Rightarrow> bool" where
  "path_inv pre segs L r lip out \<longleftrightarrow>
     shaped pre segs L out \<and> (\<forall>s\<in>set segs. seg_ok s \<and> \<not> dot_name s) \<and> seg_ok L \<and> pending L r
     \<and> percent_ok L r lip (int (length out)) \<and> (lip = INT_MIN \<or> 0 \<le> lip)"

lemma pending_snoc: "c \<noteq> 46 \<Longrightarrow> pending (L @ [c]) r"
  by (auto simp: pending_def dot_name_def append_eq_Cons_conv)

lemma pending_Nil [simp]: "pending [] r"
  by (simp add: pending_def dot_name_def)

lemma percent_ok_Nil [simp]: "percent_ok [] r lip n"
  by (simp add: percent_ok_def)

lemma percent_ok_snoc: "c \<noteq> 37 \<Longrightarrow> c \<noteq> 50 \<Longrightarrow> percent_ok (L @ [c]) r lip n"
  by (auto simp: percent_ok_def)

lemma seg_ok_snoc:
  "seg_ok (L @ [c]) \<longleftrightarrow> seg_ok L \<and> path_char c \<and> c \<noteq> 47 \<and> \<not> (\<exists>q. L = q @ [37, 50] \<and> (c = 101 \<or> c = 69))"
  by (auto simp: seg_ok_def no_dot_escape_snoc)

lemma seg_ok_Nil [simp]: "seg_ok []"
  by (simp add: seg_ok_def)

lemma IsHexChar_unreserved: "IsHexChar c \<Longrightarrow> unreserved_char c"
  by (auto simp: IsHexChar_digit CharToDigit_def unreserved_char_def Let_def word_le_def split: if_splits)

lemma hex_path_char: "IsHexChar c \<Longrightarrow> path_char c \<and> c \<noteq> 37 \<and> c \<noteq> 46 \<and> c \<noteq> 47"
  using IsHexChar_unreserved [of c] unreserved_path_char [of c] path_char_facts by auto

lemma hex_digit_char: "k < 16 \<Longrightarrow> IsHexChar (kHexCharLookup ! k) \<and> HexCharToValue (kHexCharLookup ! k) = of_nat k"
proof -
  assume "k < 16"
  then have "k = 0 \<or> k = 1 \<or> k = 2 \<or> k = 3 \<or> k = 4 \<or> k = 5 \<or> k = 6 \<or> k = 7 \<or> k = 8 \<or> k = 9 \<or> k = 10 \<or> k = 11
    \<or> k = 12 \<or> k = 13 \<or> k = 14 \<or> k = 15" by presburger
  then show ?thesis
    by (elim disjE) (simp_all add: kHexCharLookup_def IsHexChar_digit CharToDigit_def HexCharToValue_def kCharToHexLookup_def)
qed

lemma escape_digits: "AppendEscapedChar c out = out @ [37, a, b] \<Longrightarrow> IsHexChar a \<and> IsHexChar b \<and> escape_value a b = c"
proof -
  assume e: "AppendEscapedChar c out = out @ [37, a, b]"
  let ?h = "unat (drop_bit 4 c AND 15)" and ?l = "unat (c AND 15)"
  have m: "x AND 15 = take_bit 4 x" for x :: u8 by (simp add: take_bit_eq_mask mask_eq_exp_minus_1)
  have hl: "?h = unat c div 16" "?l = unat c mod 16" using unat_bound [of c] by (simp_all add: m unat_take_bit unat_drop_bit)
  have r: "?h < 16" "?l < 16" using unat_bound [of c] by (simp_all add: hl)
  have ab: "a = kHexCharLookup ! ?h" "b = kHexCharLookup ! ?l" using e by (simp_all add: AppendEscapedChar_def)
  have "escape_value a b = 16 * of_nat ?h + of_nat ?l"
    using hex_digit_char r by (simp add: escape_value_def ab push_bit_eq_mult mult.commute)
  also have "\<dots> = of_nat (16 * (unat c div 16) + unat c mod 16)" unfolding hl of_nat_add of_nat_mult by simp
  also have "\<dots> = c" unfolding mult_div_mod_eq by simp
  finally show ?thesis using hex_digit_char r by (simp add: ab)
qed

lemma text_cases:
  assumes "r \<noteq> []"
  obtains (slash) c t where "r = c # t" "IsURLSlash c"
  | (dot) d t where "d \<in> dots" "r = d @ t"
  | (escaped) a b t where "r = 37 # a # b # t" "IsHexChar a" "IsHexChar b" "[37, a, b] \<notin> dots"
  | (percent) t where "r = 37 # t" "no_escape t"
  | (copy) c t where "r = c # t" "path_char c" "c \<noteq> 37" "c \<noteq> 46" "c \<noteq> 47"
  | (bad) c t where "r = c # t" "\<not> path_char c" "c \<noteq> 92"
proof -
  obtain c t where r: "r = c # t" using assms by (cases r) auto
  consider "c = 47 \<or> c = 92" | "c = 46" | "c = 37" | "c \<noteq> 47" "c \<noteq> 92" "c \<noteq> 46" "c \<noteq> 37" by blast
  then show thesis
  proof cases
    case 1
    then show ?thesis using slash r by (auto simp: IsURLSlash_def)
  next
    case 2
    then show ?thesis using dot [of "[46]" t] r by (simp add: dots_def)
  next
    case 3
    show ?thesis
    proof (cases "no_escape t")
      case False
      then obtain a b u where t: "t = a # b # u" "IsHexChar a" "IsHexChar b" by (auto simp: no_escape_def)
      then show ?thesis using dot [of "[37, a, b]" u] escaped [of a b u] r 3 by auto
    qed (use percent r 3 in simp)
  next
    case 4
    then show ?thesis using copy bad r by blast
  qed
qed

lemma inv_append:
  assumes "path_inv pre segs L r lip out" "c \<noteq> 46" "c \<noteq> 47" "path_char c"
    "\<And>q. L = q @ [37, 50] \<Longrightarrow> c \<noteq> 101 \<and> c \<noteq> 69" "percent_ok (L @ [c]) t lip' (int (length (out @ [c])))" "lip' = INT_MIN \<or> 0 \<le> lip'"
  shows "path_inv pre segs (L @ [c]) t lip' (out @ [c])"
  using assms shaped_append [of pre segs L out "[c]"] pending_snoc [of c L t] by (auto simp: path_inv_def seg_ok_snoc)

lemma inv_escape:
  assumes i: "path_inv pre segs L r lip out" and ab: "IsHexChar a" "IsHexChar b" "[37, a, b] \<notin> dots"
  shows "path_inv pre segs (L @ [37, a, b]) t lip (out @ [37, a, b])"
proof -
  note ha = hex_path_char [OF ab(1)] and hb = hex_path_char [OF ab(2)]
  have s: "seg_ok (L @ [37])" using i path_char_facts by (auto simp: path_inv_def seg_ok_snoc)
  have "seg_ok ((L @ [37]) @ [a])" unfolding seg_ok_snoc [of "L @ [37]"] using s ha by auto
  moreover have "a \<noteq> 50 \<or> b \<noteq> 101 \<and> b \<noteq> 69" using ab(3) by (auto simp: dots_def)
  ultimately have "seg_ok (((L @ [37]) @ [a]) @ [b])" unfolding seg_ok_snoc [of "(L @ [37]) @ [a]"] using hb by auto
  moreover have "pending (((L @ [37]) @ [a]) @ [b]) t" using hb by (intro pending_snoc) simp
  moreover have "percent_ok (L @ [37, a, b]) t lip n" for n using ha hb by (auto simp: percent_ok_def)
  ultimately show ?thesis using i shaped_append [of pre segs L out "[37, a, b]"] ha hb by (simp add: path_inv_def)
qed

lemma inv_percent:
  assumes "path_inv pre segs L (37 # t) lip out" "no_escape t"
  shows "path_inv pre segs (L @ [37]) t (int (length out)) (out @ [37])"
  by (rule inv_append [OF assms(1)]) (use assms path_char_facts in \<open>auto simp: percent_ok_def\<close>)

lemma inv_copy:
  assumes i: "path_inv pre segs L (c # t) lip out" and c: "path_char c" "c \<noteq> 37" "c \<noteq> 46" "c \<noteq> 47"
  shows "path_inv pre segs (L @ [c]) t lip (out @ [c])"
proof (rule inv_append [OF i])
  have p: "percent_ok L (c # t) lip (int (length out))" "lip = INT_MIN \<or> 0 \<le> lip" using i by (auto simp: path_inv_def)
  show "lip = INT_MIN \<or> 0 \<le> lip" by (rule p)
  show "c \<noteq> 101 \<and> c \<noteq> 69" if "L = q @ [37, 50]" for q using p(1) that hex_2e by (auto simp: percent_ok_def)
  show "percent_ok (L @ [c]) t lip (int (length (out @ [c])))"
  proof (cases "c = 50")
    case True
    have "t = [] \<or> \<not> IsHexChar (hd t)" if "no_escape (50 # t)" using that hex_2e by (cases t) (auto simp: no_escape_def)
    then show ?thesis using p(1) True by (auto simp: percent_ok_def)
  qed (use c percent_ok_snoc in blast)
qed (use c in auto)

lemma nested_escapes:
  assumes "0 \<le> lip" "lip \<ge> int (length out) - 2" "2 \<le> length out \<or> lip \<noteq> int (length out) - 2"
  shows "CheckForNestedEscapes t 0 (length t) lip (out @ [v]) =
    (if lip = int (length out) - 1 \<and> t \<noteq> [] \<and> IsHexChar v \<and> IsHexChar (hd t) then out @ [50, 53, v]
     else if lip = int (length out) - 2 \<and> IsHexChar (last out) \<and> IsHexChar v then butlast out @ [50, 53, last out, v]
     else out @ [v])"
proof -
  consider (next_char) "lip = int (length out) - 1" | (two) "lip = int (length out) - 2" | (beyond) "int (length out) \<le> lip"
    using assms(2) by linarith
  then show ?thesis
  proof cases
    case next_char
    obtain p where p: "lip = int p" "length out = Suc p" using next_char assms(1) by (metis zero_le_imp_eq_int diff_add_cancel int_Suc of_nat_eq_iff add.commute)
    show ?thesis
      using p by (cases t) (simp_all add: CheckForNestedEscapes_def DecodeEscaped_def Let_def nth_append list_update_append)
  next
    case two
    then have "out \<noteq> []" using assms by auto
    then obtain o' l where o: "out = o' @ [l]" by (metis rev_exhaust)
    obtain p where p: "lip = int p" "length o' = Suc p" using two assms(1) o by (cases "length o'") auto
    show ?thesis
      using p o by (simp add: CheckForNestedEscapes_def DecodeEscaped_def Let_def nth_append list_update_append)
  next
    case beyond
    then have "Suc (length out) < nat lip + 3" by linarith
    then show ?thesis using beyond by (simp add: CheckForNestedEscapes_def DecodeEscaped_def Let_def)
  qed
qed

lemma inv_unescaped:
  assumes i: "path_inv pre segs L (37 # a # b # t) lip out" and v: "unreserved_char v"
  defines "out' \<equiv> (if lip \<ge> int (length out) - 2 then CheckForNestedEscapes t 0 (length t) lip (out @ [v]) else out @ [v])"
  shows "\<exists>L'. path_inv pre segs L' t lip out'"
proof -
  have c: "path_char v" "v \<noteq> 46" "v \<noteq> 47" "v \<noteq> 37" using v unreserved_path_char path_char_facts by auto
  have p: "percent_ok L (37 # a # b # t) lip (int (length out))" and lip: "lip = INT_MIN \<or> 0 \<le> lip" and sh: "shaped pre segs L out"
    and sL: "seg_ok L" using i by (auto simp: path_inv_def)
  have n: "0 < length out" using sh by (simp add: shaped_def)
  have plain: "path_inv pre segs (L @ [v]) t lip (out @ [v])"
    if "\<And>q. L = q @ [37, 50] \<Longrightarrow> v \<noteq> 101 \<and> v \<noteq> 69" "\<And>q. L = q @ [37] \<Longrightarrow> v = 50 \<Longrightarrow> t = [] \<or> \<not> IsHexChar (hd t)"
    by (rule inv_append [OF i]) (use that c p lip in \<open>auto simp: percent_ok_def\<close>)
  have added: "path_inv pre segs (L0 @ w @ [v]) t lip (out0 @ w @ [v])"
    if "shaped pre segs L0 out0" "seg_ok L0" "w = [50, 53] \<or> (\<exists>l. w = [50, 53, l] \<and> IsHexChar l)" for L0 out0 w
  proof -
    have "seg_ok (L0 @ [50])" using that path_char_facts by (auto simp: seg_ok_snoc)
    then have "seg_ok ((L0 @ [50]) @ [53])" using path_char_facts unfolding seg_ok_snoc [of "L0 @ [50]"] by auto
    moreover from this have "seg_ok (((L0 @ [50]) @ [53]) @ [l])" if "IsHexChar l" for l
      unfolding seg_ok_snoc [of "(L0 @ [50]) @ [53]"] using hex_path_char [OF that] by auto
    ultimately have w: "seg_ok (L0 @ w)" using that(3) by auto
    have "47 \<notin> set w" using that(3) hex_path_char by auto
    moreover have "seg_ok ((L0 @ w) @ [v])" unfolding seg_ok_snoc using w c that(3) by auto
    moreover have "percent_ok (L0 @ w @ [v]) t lip m" for m using c that(3) hex_path_char by (auto simp: percent_ok_def)
    moreover have "pending ((L0 @ w) @ [v]) t" by (rule pending_snoc) (rule c)
    ultimately show ?thesis using i shaped_append [OF that(1), of "w @ [v]"] c by (simp add: path_inv_def)
  qed
  show ?thesis
  proof (cases "lip \<ge> int (length out) - 2")
    case False
    then show ?thesis using plain p by (auto simp: percent_ok_def out'_def)
  next
    case True
    have lip0: "0 \<le> lip" using True lip n by (auto simp: INT_MIN_def)
    have o: "out' = CheckForNestedEscapes t 0 (length t) lip (out @ [v])" using True by (simp add: out'_def)
    note N = nested_escapes [OF lip0 True, of t v, folded o]
    have two: "2 \<le> length out \<or> lip \<noteq> int (length out) - 2" using lip0 by linarith
    consider (one) "lip = int (length out) - 1" "t \<noteq> []" "IsHexChar v" "IsHexChar (hd t)"
      | (both) "lip = int (length out) - 2" "IsHexChar (last out)" "IsHexChar v"
      | (none) "\<not> (lip = int (length out) - 1 \<and> t \<noteq> [] \<and> IsHexChar v \<and> IsHexChar (hd t))"
          "\<not> (lip = int (length out) - 2 \<and> IsHexChar (last out) \<and> IsHexChar v)" by blast
    then show ?thesis
    proof cases
      case one
      then have "out' = out @ [50, 53] @ [v]" using N [OF two] by simp
      then show ?thesis using added [OF sh sL, of "[50, 53]"] by auto
    next
      case both
      then have o': "out' = butlast out @ [50, 53, last out] @ [v]" using N [OF two] by simp
      have "L \<noteq> []" using both(2) shaped_start [OF sh] hex_path_char n sh by (auto simp: at_start_def shaped_def)
      then obtain L0 l where L: "L = L0 @ [l]" by (metis rev_exhaust)
      then have "shaped pre segs L0 (butlast out)" "l = last out" using sh by (auto simp: shaped_def butlast_append)
      moreover have "seg_ok L0" using sL L by (simp add: seg_ok_snoc)
      ultimately show ?thesis using added [of L0 "butlast out" "[50, 53, last out]"] both(2) o' by auto
    next
      case none
      then have "out' = out @ [v]" using N [OF two] by auto
      moreover have "v \<noteq> 101 \<and> v \<noteq> 69" if "L = q @ [37, 50]" for q
      proof -
        have "last out = 50" using sh that by (simp add: shaped_def)
        moreover have "lip = int (length out) - 2" using p that by (auto simp: percent_ok_def)
        ultimately show ?thesis using none(2) hex_2e by auto
      qed
      moreover have "t = [] \<or> \<not> IsHexChar (hd t)" if "L = q @ [37]" "v = 50" for q
        using none(1) that p hex_2e by (auto simp: percent_ok_def)
      ultimately show ?thesis using plain by auto
    qed
  qed
qed

lemma inv_slash: "path_inv pre segs L (c # t) lip out \<Longrightarrow> IsURLSlash c \<Longrightarrow> path_inv pre (segs @ [L]) [] t lip (out @ [47])"
proof -
  assume i: "path_inv pre segs L (c # t) lip out" "IsURLSlash c"
  then have "\<not> dot_name L" by (simp add: path_inv_def pending_def at_end_def)
  with i show ?thesis by (auto simp: path_inv_def shaped_slash)
qed

lemma inv_start: "path_inv pre segs [] r lip out \<Longrightarrow> path_inv pre segs [] t lip out"
  by (simp add: path_inv_def)

lemma inv_up: "path_inv pre segs [] r lip out \<Longrightarrow> path_inv pre (butlast segs) [] t lip (BackUpToPreviousSlash (length pre) out)"
  by (auto simp: path_inv_def shaped_back dest: in_set_butlastD)

lemma inv_dot:
  assumes i: "path_inv pre segs L (d @ t) lip out" and d: "d \<in> dots"
    and t: "L = [] \<Longrightarrow> \<not> at_end t \<and> (\<forall>d\<in>dots. \<forall>u. t = d @ u \<longrightarrow> \<not> at_end u)"
  shows "path_inv pre segs (L @ [46]) t lip (out @ [46])"
proof -
  have "pending (L @ [46]) t"
    using i d t by (cases L rule: rev_cases) (auto simp: path_inv_def pending_def dot_name_def append_eq_Cons_conv)
  moreover have "percent_ok (L @ [46]) t lip n" for n by (simp add: percent_ok_snoc)
  ultimately show ?thesis using i shaped_append [of pre segs L out "[46]"] path_char_facts by (simp add: path_inv_def seg_ok_snoc)
qed

lemma path_text_safe:
  "path_inv pre segs L r lip out \<Longrightarrow> \<exists>segs L lip'. path_inv pre segs L [] lip' (snd (path_text (length pre) r lip ok out))"
proof (induction r arbitrary: segs L lip ok out rule: length_induct)
  case (1 r)
  note i = "1.prems"
  have IH: "\<exists>segs L lip'. path_inv pre segs L [] lip' (snd (path_text (length pre) t lip ok out))"
    if "path_inv pre segs L t lip out" "length t < length r" for segs L t lip ok out using 1 that by blast
  show ?case
  proof (cases "r = []")
    case False
    then show ?thesis
    proof (cases r rule: text_cases)
      case (slash c t)
      then show ?thesis using IH [OF inv_slash, of segs L c t] i unfolding slash(1) path_text_slash [OF slash(2)] by simp
    next
      case (escaped a b t)
      show ?thesis
      proof (cases "unreserved_char (escape_value a b)")
        case True
        show ?thesis
          using inv_unescaped [of pre segs L a b t lip out, OF _ True] i escaped IH True unfolding escaped(1) path_text_escaped [OF escaped(2-4)]
          by (simp only: if_True) auto
      next
        case False
        then show ?thesis
          using IH [OF inv_escape [OF i escaped(2-4)]] unfolding escaped(1) path_text_escaped [OF escaped(2-4)]
          by (simp only: if_False) auto
      qed
    next
      case (percent t)
      then show ?thesis using IH [OF inv_percent, of segs L t] i unfolding percent(1) path_text_percent [OF percent(2)] by simp
    next
      case (copy c t)
      then show ?thesis using IH [OF inv_copy, of segs L c t] i unfolding copy(1) path_text_copy [OF copy(2-4)] by simp
    next
      case (bad c t)
      obtain a b where ab: "AppendEscapedChar c out = out @ [37, a, b]" by (simp add: AppendEscapedChar_def)
      note h = escape_digits [OF ab]
      have "c \<noteq> 46" using bad path_char_facts by auto
      then have "[37, a, b] \<notin> dots"
        using h by (auto simp: dots_def escape_value_def HexCharToValue_def kCharToHexLookup_def)
      then show ?thesis
        using IH [OF inv_escape [OF i]] h unfolding bad(1) path_text_escape [OF bad(2,3)] by (simp add: ab)
    next
      case (dot d t)
      have l: "0 < length d" using dot(1) by (auto simp: dots_def)
      have start: "at_start (length pre) out \<longleftrightarrow> L = []" using i shaped_start [of pre segs L out] by (simp add: path_inv_def)
      consider (name) "L \<noteq> []" | (cur) "L = []" "at_end t" | (up) d' u where "L = []" "d' \<in> dots" "t = d' @ u" "at_end u"
        | (dir) "L = []" "\<not> at_end t" "\<forall>d\<in>dots. \<forall>u. t = d @ u \<longrightarrow> \<not> at_end u" by blast
      then show ?thesis
      proof cases
        case name
        then show ?thesis
          using IH [OF inv_dot, of segs L d t] start i dot l unfolding dot(2) by (subst path_text_dot_in_name) auto
      next
        case cur
        have lt: "length (tl t) < length r" using dot(2) l by (cases d) auto
        from cur show ?thesis
          using IH [OF inv_start lt, of segs r lip out] start i dot(1) unfolding dot(2) by (subst path_text_dot_cur) auto
      next
        case up
        have lt: "length (tl u) < length r" using dot(2) up(3) l by (cases d) auto
        from up show ?thesis
          using IH [OF inv_up lt, of segs r lip out] start i dot(1) unfolding dot(2) up(3) by (subst path_text_dot_up) auto
      next
        case dir
        then show ?thesis
          using IH [OF inv_dot, of segs L d t] i dot l unfolding dot(2) by (subst path_text_dot_name) auto
      qed
    qed
  next
    case True
    then show ?thesis using i unfolding True path_text_Nil by auto
  qed
qed

lemma split_on_shaped:
  assumes "\<forall>s\<in>set segs. 47 \<notin> set s" "47 \<notin> set L"
  shows "split_on (\<lambda>c. c = 47) (concat (map (\<lambda>s. s @ [47]) segs) @ L) = segs @ [L]"
  using assms
proof (induction segs)
  case (Cons s segs)
  then show ?case using split_on_append [of s "\<lambda>c. c = 47" 47 "concat (map (\<lambda>s. s @ [47]) segs) @ L"] by auto
qed (auto intro: split_on_none)

lemma DoPath_start:
  assumes "0 \<le> c_begin path" "c_end path \<le> int (length spec)"
  shows "\<exists>r ok p. DoPath spec path out = (ok, p, Comp (int (length out)) (int (length p) - int (length out)))
    \<and> (ok, p) = path_text (length out) r INT_MIN True (out @ [47])
    \<and> (let w = window spec (c_begin path) (c_end path) in r = (if w \<noteq> [] \<and> IsURLSlash (hd w) then tl w else w))"
proof (cases "c_len path > 0")
  case False
  have "window spec (c_begin path) (c_end path) = []" using False by (simp add: window_def c_end_def)
  moreover have "path_text (length out) [] INT_MIN True (out @ [47]) = (True, out @ [47])" by (rule path_text_Nil)
  ultimately show ?thesis using False by (auto simp: DoPath_def)
next
  case True
  let ?b = "nat (c_begin path)" and ?e = "nat (c_end path)" and ?w = "window spec (c_begin path) (c_end path)"
  have be: "?b < ?e" "?e \<le> length spec" using True assms by (auto simp: c_end_def)
  have w: "rest_text spec ?b ?e = ?w" using assms be by (simp add: rest_text_def window_def nat_diff_distrib')
  obtain c r where c: "?w = c # r" "spec ! ?b = c"
    using window_Cons [of "c_begin path" "c_end path" spec] assms be by (auto simp: zless_nat_eq_int_zless)
  have "DoPartialPath spec path (length out) o' = path_text (length out) (c # r) INT_MIN True o'" for o'
    using path_loop_rest [of ?b ?e spec "length out" INT_MIN True o'] be w c by (simp add: DoPartialPath_def)
  then have "DoPartialPath spec path (length out) (if IsURLSlash c then out else out @ [47])
      = path_text (length out) (if IsURLSlash c then r else c # r) INT_MIN True (out @ [47])"
    using path_text_slash [of c r "length out" INT_MIN True out] by simp
  then show ?thesis using True c by (simp add: DoPath_def Let_def split: prod.split)
qed

subsection \<open>Properties\<close>

text \<open>C33. Whatever the text of a path, a canonical path is appended to the output: it starts with a slash, contains only characters
  that a path may contain, and none of its segments is a single or double dot. An escaped dot occurs nowhere in it, so that
  unescaping it does not give a dot segment either.\<close>

theorem canonical_path_safe:
  assumes "0 \<le> c_begin path" "c_end path \<le> int (length spec)"
  shows "\<exists>ok p. DoPath spec path out = (ok, out @ p, Comp (int (length out)) (int (length p)))
    \<and> p \<noteq> [] \<and> hd p = 47 \<and> (\<forall>c\<in>set p. path_char c)
    \<and> (\<forall>s\<in>set (split_on (\<lambda>c. c = 47) p). s \<noteq> bytes ''.'' \<and> s \<noteq> bytes ''..'')
    \<and> (\<forall>s\<in>set (split_on (\<lambda>c. c = 47) p). \<forall>q t. s \<noteq> q @ bytes ''%2e'' @ t \<and> s \<noteq> q @ bytes ''%2E'' @ t)"
proof -
  obtain r ok p' where D: "DoPath spec path out = (ok, p', Comp (int (length out)) (int (length p') - int (length out)))"
    and p': "(ok, p') = path_text (length out) r INT_MIN True (out @ [47])" using DoPath_start [OF assms] by blast
  have "path_inv out [] [] r INT_MIN (out @ [47])" by (simp add: path_inv_def shaped_def)
  then obtain segs L lip where i: "path_inv out segs L [] lip p'"
    using path_text_safe [of out "[]" "[]" r INT_MIN "out @ [47]" True] by (metis p' snd_conv)
  let ?p = "47 # concat (map (\<lambda>s. s @ [47]) segs) @ L"
  have sh: "p' = out @ ?p" "\<forall>s\<in>set segs. 47 \<notin> set s" "47 \<notin> set L" using i by (auto simp: path_inv_def shaped_def)
  have ok: "\<forall>s\<in>set (segs @ [L]). seg_ok s \<and> \<not> dot_name s" using i by (auto simp: path_inv_def pending_def at_end_def)
  have split: "split_on (\<lambda>c. c = 47) ?p = [] # segs @ [L]" using split_on_shaped [OF sh(2,3)] by simp
  have "(\<forall>c\<in>set ?p. path_char c) \<and> (\<forall>s\<in>set (split_on (\<lambda>c. c = 47) ?p). s \<noteq> bytes ''.'' \<and> s \<noteq> bytes ''..'')"
    using ok path_char_facts unfolding split by (auto simp: seg_ok_def dot_name_def)
  moreover have "\<forall>s\<in>set (split_on (\<lambda>c. c = 47) ?p). \<forall>q t. s \<noteq> q @ bytes ''%2e'' @ t \<and> s \<noteq> q @ bytes ''%2E'' @ t"
  proof -
    have "no_dot_escape s" if "s \<in> set ([] # segs @ [L])" for s using ok that by (auto simp: seg_ok_def)
    then show ?thesis unfolding split no_dot_escape_def by fastforce
  qed
  moreover have "DoPath spec path out = (ok, out @ ?p, Comp (int (length out)) (int (length ?p)))" using D sh(1) by simp
  ultimately show ?thesis by (intro exI [of _ ok] exI [of _ ?p]) auto
qed

theorem canonical_path_safe_witness:
  "\<exists>ok p. DoPath (bytes ''/a/%2e%2E/b%%32e/../.'') (Comp 0 21) (bytes ''http:'') = (ok, bytes ''http:'' @ p, Comp 5 (int (length p)))
    \<and> (\<forall>s\<in>set (split_on (\<lambda>c. c = 47) p). s \<noteq> bytes ''.'' \<and> s \<noteq> bytes ''..'')"
  using canonical_path_safe [of "Comp 0 21" "bytes ''/a/%2e%2E/b%%32e/../.''" "bytes ''http:''"] by (auto simp: c_end_def)

text \<open>The index of the last loose \<^verbatim>\<open>%\<close> is kept when the output is cut at a double dot. It then points into text written
  later, and \<open>CheckForNestedEscapes\<close> overwrites characters that have nothing to do with a \<^verbatim>\<open>%\<close>: a letter pair becomes \<^verbatim>\<open>25\<close>, and
  an escaped question mark becomes an escaped digit.\<close>

lemma stale_percent_index:
  "DoPath (bytes ''/x%/../ab%41C'') (Comp 0 13) [] = (True, bytes ''/ab25AC'', Comp 0 7)"
  "DoPath (bytes ''/ab%/../x%3F%41'') (Comp 0 15) [] = (True, bytes ''/x%325FA'', Comp 0 8)"
  by code_simp+

end
