(* ===== verification/Url_Canon_Resolve.thy ===== *)
theory Url_Canon_Resolve
  imports Url_Canon_Path
begin

text \<open>
  What a canonical path is: a reference for \<^verbatim>\<open>src/uri/url_canon_path.cpp\<close> on lists of segments.

  The path is split at slashes and backslashes, every segment is brought to its canonical text, and \<open>resolve\<close> removes the dot
  segments with a stack of parents. The loop of the code does all of this in one pass; it is shown to agree with the reference
  for every path whose \<^verbatim>\<open>%\<close> all start an escape, and the reference is shown to keep its own results.
\<close>

subsection \<open>Resolution of segments\<close>

text \<open>The canonical text of a name, whether it is free of the null character, and the resolution of a list of segments.\<close>

definition canon_char :: "u8 \<Rightarrow> buffer" where
  "canon_char c = (if path_char c then [c] else AppendEscapedChar c [])"

definition canon_escape :: "u8 \<Rightarrow> u8 \<Rightarrow> buffer" where
  "canon_escape a b =
     (let v = escape_value a b in if v = 46 \<or> unreserved_char v then [v] else [37, a, b])"

fun canon_name :: "buffer \<Rightarrow> buffer" where
  "canon_name (c # a # b # r) = (if c = 37 then canon_escape a b @ canon_name r else canon_char c @ canon_name (a # b # r))"
| "canon_name (c # r) = canon_char c @ canon_name r"
| "canon_name [] = []"

fun no_null :: "buffer \<Rightarrow> bool" where
  "no_null (c # a # b # r) = (if c = 37 then escape_value a b \<noteq> 0 \<and> no_null r else c \<noteq> 0 \<and> no_null (a # b # r))"
| "no_null (c # r) = (c \<noteq> 0 \<and> no_null r)"
| "no_null [] = True"

fun well_escaped :: "buffer \<Rightarrow> bool" where
  "well_escaped (c # a # b # r) = (if c = 37 then IsHexChar a \<and> IsHexChar b \<and> well_escaped r else well_escaped (a # b # r))"
| "well_escaped (c # r) = (c \<noteq> 37 \<and> well_escaped r)"
| "well_escaped [] = True"

fun resolve :: "buffer list \<Rightarrow> buffer list \<Rightarrow> buffer list" where
  "resolve parents [] = parents"
| "resolve parents [s] =
     (if s = bytes ''.'' then parents @ [[]] else if s = bytes ''..'' then butlast parents @ [[]] else parents @ [s])"
| "resolve parents (s # ss) =
     (if s = bytes ''.'' then resolve parents ss
      else if s = bytes ''..'' then resolve (butlast parents) ss
      else resolve (parents @ [s]) ss)"

definition canon_path :: "buffer \<Rightarrow> buffer" where
  "canon_path w =
     47 # JoinStringT (resolve [] (map canon_name (split_on IsURLSlash (if w \<noteq> [] \<and> IsURLSlash (hd w) then tl w else w)))) [47]"

text \<open>The units a name is made of, apart from dots.\<close>

definition plain_unit :: "buffer \<Rightarrow> bool" where
  "plain_unit x \<longleftrightarrow>
     (\<exists>c. x = [c] \<and> c \<notin> {37, 46, 47, 92}) \<or> (\<exists>a b. x = [37, a, b] \<and> IsHexChar a \<and> IsHexChar b \<and> x \<notin> dots)"

lemma hex_values:
  assumes "IsHexChar c"
  shows "48 \<le> unat c \<and> unat c \<le> 57 \<and> unat (HexCharToValue c) = unat c - 48
    \<or> 65 \<le> unat c \<and> unat c \<le> 70 \<and> unat (HexCharToValue c) = unat c - 55
    \<or> 97 \<le> unat c \<and> unat c \<le> 102 \<and> unat (HexCharToValue c) = unat c - 87"
proof -
  have u: "uint c = int (unat c)" by simp
  have "48 \<le> uint c \<and> uint c \<le> 57 \<or> 65 \<le> uint c \<and> uint c \<le> 70 \<or> 97 \<le> uint c \<and> uint c \<le> 102"
    using assms unfolding IsHexChar_digit CharToDigit_def Let_def by (auto split: if_splits)
  then have "48 \<le> unat c \<and> unat c \<le> 57 \<or> 65 \<le> unat c \<and> unat c \<le> 70 \<or> 97 \<le> unat c \<and> unat c \<le> 102"
    unfolding u by linarith
  moreover have "unat (c - k) = unat c - unat k" if "unat k \<le> unat c" for k using that by (intro unat_sub) (simp add: word_le_nat_alt)
  moreover have "unat c div 32 = 1" if "48 \<le> unat c \<and> unat c \<le> 57" using that by auto
  moreover have "unat c div 32 = 2" if "65 \<le> unat c \<and> unat c \<le> 70" using that by auto
  moreover have "unat c div 32 = 3" if "97 \<le> unat c \<and> unat c \<le> 102" using that by auto
  ultimately show ?thesis by (auto simp: HexCharToValue_def kCharToHexLookup_def unat_div)
qed

lemma unat_escape_value:
  assumes "IsHexChar a" "IsHexChar b"
  shows "unat (escape_value a b) = 16 * unat (HexCharToValue a) + unat (HexCharToValue b)"
proof -
  have "unat (HexCharToValue a) < 16" "unat (HexCharToValue b) < 16" using hex_values assms by fastforce+
  then show ?thesis by (simp add: escape_value_def unat_word_ariths unat_push_bit push_bit_eq_mult)
qed

lemma escape_value_46: "IsHexChar a \<Longrightarrow> IsHexChar b \<Longrightarrow> escape_value a b = 46 \<longleftrightarrow> [37, a, b] \<in> dots"
proof -
  assume h: "IsHexChar a" "IsHexChar b"
  have "escape_value a b = 46 \<longleftrightarrow> 16 * unat (HexCharToValue a) + unat (HexCharToValue b) = 46"
    by (simp add: word_unat_eq_iff unat_escape_value [OF h])
  also have "\<dots> \<longleftrightarrow> unat (HexCharToValue a) = 2 \<and> unat (HexCharToValue b) = 14"
  proof -
    have "unat (HexCharToValue b) < 16" using hex_values [OF h(2)] by auto
    then show ?thesis by presburger
  qed
  also have "\<dots> \<longleftrightarrow> unat a = 50 \<and> (unat b = 101 \<or> unat b = 69)"
    using hex_values [OF h(1)] hex_values [OF h(2)] by (elim disjE) auto
  also have "\<dots> \<longleftrightarrow> [37, a, b] \<in> dots" by (auto simp: dots_def word_unat_eq_iff)
  finally show ?thesis .
qed

lemma name_Cons:
  "c \<noteq> 37 \<Longrightarrow> canon_name (c # r) = canon_char c @ canon_name r"
  "c \<noteq> 37 \<Longrightarrow> no_null (c # r) = (c \<noteq> 0 \<and> no_null r)"
  "c \<noteq> 37 \<Longrightarrow> well_escaped (c # r) = well_escaped r"
  by (cases r rule: well_escaped.cases; simp; case_tac list; simp)+

lemma unit_cases:
  assumes "s \<noteq> []" "well_escaped s" "\<forall>c\<in>set s. \<not> IsURLSlash c"
  obtains (dot) d s' where "d \<in> dots" "s = d @ s'" "well_escaped s'" | (plain) x s' where "plain_unit x" "s = x @ s'" "well_escaped s'"
proof -
  obtain c r where s: "s = c # r" using assms(1) by (cases s) auto
  show thesis
  proof (cases "c = 37")
    case True
    then obtain a b r' where r: "r = a # b # r'" using assms(2) s by (cases s rule: well_escaped.cases) auto
    then have "IsHexChar a" "IsHexChar b" "well_escaped r'" using assms(2) s True by auto
    then show ?thesis using dot [of "[37, a, b]" r'] plain [of "[37, a, b]" r'] s r True by (auto simp: plain_unit_def)
  next
    case False
    then have "well_escaped r" using assms(2) s name_Cons by simp
    then show ?thesis using dot [of "[46]" r] plain [of "[c]" r] assms(3) s False by (cases "c = 46") (auto simp: plain_unit_def dots_def IsURLSlash_def)
  qed
qed

lemma dots_name: "d \<in> dots \<Longrightarrow> canon_name (d @ s) = 46 # canon_name s \<and> no_null (d @ s) = no_null s"
proof -
  assume d: "d \<in> dots"
  have "d = [46] \<or> (\<exists>b. d = [37, 50, b] \<and> escape_value 50 b = 46)" using d escape_value_46 hex_2e by (auto simp: dots_def)
  then show ?thesis using path_char_facts by (auto simp: name_Cons canon_char_def canon_escape_def)
qed

lemma plain_name:
  assumes "plain_unit x"
  shows "canon_name (x @ s) = canon_name x @ canon_name s" "no_null (x @ s) \<longleftrightarrow> no_null x \<and> no_null s"
    "canon_name x \<noteq> []" "hd (canon_name x) \<noteq> 46" "\<forall>c\<in>set (canon_name x). path_char c \<and> c \<noteq> 47"
proof -
  have hex: "path_char c \<and> c \<noteq> 47" if "IsHexChar c" for c using hex_path_char [OF that] by simp
  have esc: "\<exists>a b. AppendEscapedChar c [] = [37, a, b] \<and> IsHexChar a \<and> IsHexChar b" for c
    using escape_digits [of c "[]"] by (auto simp: AppendEscapedChar_def)
  consider (char) c where "x = [c]" "c \<notin> {37, 46, 47, 92}" | (escape) a b where "x = [37, a, b]" "IsHexChar a" "IsHexChar b" "x \<notin> dots"
    using assms by (auto simp: plain_unit_def)
  then have "canon_name (x @ s) = canon_name x @ canon_name s \<and> (no_null (x @ s) \<longleftrightarrow> no_null x \<and> no_null s) \<and> canon_name x \<noteq> []
    \<and> hd (canon_name x) \<noteq> 46 \<and> (\<forall>c\<in>set (canon_name x). path_char c \<and> c \<noteq> 47)"
  proof cases
    case char
    then show ?thesis using esc [of c] hex path_char_facts by (auto simp: name_Cons canon_char_def)
  next
    case escape
    then have "escape_value a b \<noteq> 46" using escape_value_46 by simp
    then show ?thesis using escape hex path_char_facts unreserved_path_char by (auto simp: canon_escape_def Let_def)
  qed
  then show "canon_name (x @ s) = canon_name x @ canon_name s" "no_null (x @ s) \<longleftrightarrow> no_null x \<and> no_null s"
    "canon_name x \<noteq> []" "hd (canon_name x) \<noteq> 46" "\<forall>c\<in>set (canon_name x). path_char c \<and> c \<noteq> 47" by auto
qed

lemma path_text_plain:
  assumes "plain_unit x" "out \<noteq> []"
  shows "path_text pb (x @ r) INT_MIN ok out = path_text pb r INT_MIN (ok \<and> no_null x) (out @ canon_name x)"
proof -
  consider (char) c where "x = [c]" "c \<notin> {37, 46, 47, 92}" | (escape) a b where "x = [37, a, b]" "IsHexChar a" "IsHexChar b" "x \<notin> dots"
    using assms(1) by (auto simp: plain_unit_def)
  then show ?thesis
  proof cases
    case char
    have "canon_name x = canon_char c" "no_null x \<longleftrightarrow> c \<noteq> 0" using char by simp_all
    moreover have "AppendEscapedChar c out = out @ AppendEscapedChar c []" by (simp add: AppendEscapedChar_def)
    moreover have "c \<noteq> 0" if "path_char c" using that path_char_facts(1) by auto
    ultimately show ?thesis
      using path_text_copy [of c r pb INT_MIN ok out] path_text_escape [of c r pb INT_MIN ok out] char path_char_facts
      by (cases "path_char c") (auto simp: canon_char_def)
  next
    case escape
    have "\<not> int (length out) - 2 \<le> INT_MIN" using assms(2) by (cases out) (auto simp: INT_MIN_def)
    moreover have "escape_value a b \<noteq> 46" using escape escape_value_46 by simp
    moreover have "escape_value a b \<noteq> 0" if "unreserved_char (escape_value a b)" using that by (auto simp: unreserved_char_def)
    ultimately show ?thesis
      using path_text_escaped [OF escape(2,3), of r pb INT_MIN ok out] escape(1,4) by (auto simp: canon_escape_def Let_def)
  qed
qed

lemma path_text_name:
  assumes "well_escaped s" "\<forall>c\<in>set s. \<not> IsURLSlash c" "shaped pre segs L out" "L \<noteq> []"
  shows "path_text (length pre) (s @ u) INT_MIN ok out = path_text (length pre) u INT_MIN (ok \<and> no_null s) (out @ canon_name s)
    \<and> shaped pre segs (L @ canon_name s) (out @ canon_name s)"
  using assms
proof (induction s arbitrary: L ok out rule: length_induct)
  case (1 s)
  have st: "\<not> at_start (length pre) out" "out \<noteq> []" using shaped_start [OF 1(4)] 1(4,5) by (auto simp: shaped_def)
  show ?case
  proof (cases "s = []")
    case False
    then show ?thesis using 1(2,3)
    proof (cases s rule: unit_cases)
      case (dot d s')
      have "length s' < length s" using dot by (auto simp: dots_def)
      then have IH: "path_text (length pre) (s' @ u) INT_MIN ok (out @ [46])
          = path_text (length pre) u INT_MIN (ok \<and> no_null s') ((out @ [46]) @ canon_name s')
        \<and> shaped pre segs ((L @ [46]) @ canon_name s') ((out @ [46]) @ canon_name s')"
        using 1(1) [rule_format, of s' "L @ [46]" "out @ [46]" ok] 1(3) dot shaped_append [OF 1(4), of "[46]"] by simp
      have "path_text (length pre) (s @ u) INT_MIN ok out = path_text (length pre) (s' @ u) INT_MIN ok (out @ [46])"
        using path_text_dot_in_name [OF dot(1) st(1), of "s' @ u"] dot(2) by simp
      then show ?thesis using IH dots_name [OF dot(1), of s'] dot(2) by simp
    next
      case (plain x s')
      note x = plain_name [OF plain(1)]
      have "length s' < length s" using plain x by (cases x) auto
      moreover have "shaped pre segs (L @ canon_name x) (out @ canon_name x)" using shaped_append [OF 1(4)] x by blast
      ultimately have IH: "path_text (length pre) (s' @ u) INT_MIN (ok \<and> no_null x) (out @ canon_name x)
          = path_text (length pre) u INT_MIN ((ok \<and> no_null x) \<and> no_null s') ((out @ canon_name x) @ canon_name s')
        \<and> shaped pre segs ((L @ canon_name x) @ canon_name s') ((out @ canon_name x) @ canon_name s')"
        using 1(1) [rule_format, of s' "L @ canon_name x" "out @ canon_name x" "ok \<and> no_null x"] 1(3) plain x by simp
      have "path_text (length pre) (s @ u) INT_MIN ok out = path_text (length pre) (s' @ u) INT_MIN (ok \<and> no_null x) (out @ canon_name x)"
        using path_text_plain [OF plain(1) st(2), of "s' @ u"] plain(2) by simp
      then show ?thesis using IH x(1,2) plain(2) by simp
    qed
  qed (use 1 in simp)
qed

lemma dots_in_name:
  assumes "well_escaped s" "\<forall>c\<in>set s. \<not> IsURLSlash c" "at_end u" "s @ u = d @ t" "d \<in> dots"
  obtains s' where "s = d @ s'" "t = s' @ u" "well_escaped s'"
proof (cases "s = []")
  case True
  then have "at_end (d @ t)" using assms by simp
  then show thesis using assms(5) by (auto simp: dots_def at_end_def IsURLSlash_def)
next
  case False
  then show thesis using assms(1,2)
  proof (cases s rule: unit_cases)
    case (dot d' s')
    then have "d' = d" using assms(4,5) by (auto simp: dots_def)
    then show ?thesis using that dot assms(4) by simp
  next
    case (plain x s')
    then show ?thesis using assms(4,5) by (auto simp: dots_def plain_unit_def)
  qed
qed

lemma canon_name_dots:
  assumes "well_escaped s" "\<forall>c\<in>set s. \<not> IsURLSlash c"
  shows "canon_name s = [] \<longleftrightarrow> s = []" "canon_name s = [46] \<longleftrightarrow> s \<in> dots"
    "canon_name s = [46, 46] \<longleftrightarrow> (\<exists>d\<in>dots. \<exists>d'\<in>dots. s = d @ d')"
proof -
  have nil: "canon_name s = [] \<longleftrightarrow> s = []" if "well_escaped s" "\<forall>c\<in>set s. \<not> IsURLSlash c" for s
  proof (cases "s = []")
    case False
    then show ?thesis using that
    proof (cases s rule: unit_cases)
      case (dot d s')
      then show ?thesis using dots_name [OF dot(1), of s'] by (auto simp: dots_def)
    next
      case (plain x s')
      then show ?thesis using plain_name [OF plain(1)] by auto
    qed
  qed simp
  have one: "canon_name s = [46] \<longleftrightarrow> s \<in> dots" if s: "well_escaped s" "\<forall>c\<in>set s. \<not> IsURLSlash c" for s
  proof (cases "s = []")
    case False
    then show ?thesis using s
    proof (cases s rule: unit_cases)
      case (dot d s')
      have "s \<in> dots \<longleftrightarrow> s' = []" using dot by (auto simp: dots_def)
      then show ?thesis using dot dots_name [OF dot(1), of s'] nil [of s'] s by auto
    next
      case (plain x s')
      then show ?thesis using plain_name [OF plain(1)] by (cases "canon_name x") (auto simp: dots_def plain_unit_def)
    qed
  qed (simp add: dots_def)
  have two: "canon_name s = [46, 46] \<longleftrightarrow> (\<exists>d\<in>dots. \<exists>d'\<in>dots. s = d @ d')"
  proof (cases "s = []")
    case False
    then show ?thesis using assms
    proof (cases s rule: unit_cases)
      case (dot d s')
      have "(\<exists>d\<in>dots. \<exists>d'\<in>dots. s = d @ d') \<longleftrightarrow> s' \<in> dots" using dot by (fastforce simp: dots_def)
      then show ?thesis using dot dots_name [OF dot(1), of s'] one [of s'] assms by auto
    next
      case (plain x s')
      then show ?thesis using plain_name [OF plain(1)] by (cases "canon_name x") (auto simp: dots_def plain_unit_def)
    qed
  qed (auto simp: dots_def)
  show "canon_name s = [] \<longleftrightarrow> s = []" "canon_name s = [46] \<longleftrightarrow> s \<in> dots"
    "canon_name s = [46, 46] \<longleftrightarrow> (\<exists>d\<in>dots. \<exists>d'\<in>dots. s = d @ d')" using nil one two assms by auto
qed

lemma name_induct [consumes 2, case_names Nil dot plain]:
  assumes "well_escaped s" "\<forall>c\<in>set s. \<not> IsURLSlash c" "P []"
    and dot: "\<And>d s. d \<in> dots \<Longrightarrow> well_escaped s \<Longrightarrow> \<forall>c\<in>set s. \<not> IsURLSlash c \<Longrightarrow> P s \<Longrightarrow> P (d @ s)"
    and plain: "\<And>x s. plain_unit x \<Longrightarrow> well_escaped s \<Longrightarrow> \<forall>c\<in>set s. \<not> IsURLSlash c \<Longrightarrow> P s \<Longrightarrow> P (x @ s)"
  shows "P s"
  using assms(1,2)
proof (induction s rule: length_induct)
  case (1 s)
  show ?case
  proof (cases "s = []")
    case False
    then show ?thesis using 1(2,3)
    proof (cases s rule: unit_cases)
      case (dot d s')
      then have "length s' < length s" by (auto simp: dots_def)
      then show ?thesis using 1(1) [rule_format, of s'] 1(3) dot assms(4) by simp
    next
      case (plain x s')
      then have "length s' < length s" by (auto simp: plain_unit_def)
      then show ?thesis using 1(1) [rule_format, of s'] 1(3) plain assms(5) by simp
    qed
  qed (use assms(3) in simp)
qed

lemma canon_name_chars:
  "well_escaped s \<Longrightarrow> \<forall>c\<in>set s. \<not> IsURLSlash c \<Longrightarrow> c \<in> set (canon_name s) \<Longrightarrow> path_char c \<and> c \<noteq> 47"
proof (induction s rule: name_induct)
  case (dot d s)
  then show ?case using dots_name [OF dot(1), of s] path_char_facts by auto
next
  case (plain x s)
  then show ?case using plain_name [OF plain(1)] by auto
qed simp

lemma path_text_segment:
  assumes s: "well_escaped s" "\<forall>c\<in>set s. \<not> IsURLSlash c" and u: "at_end u" and sh: "shaped pre segs [] out"
  shows "path_text (length pre) (s @ u) INT_MIN ok out =
    (if canon_name s = [46] then path_text (length pre) (tl u) INT_MIN (ok \<and> no_null s) out
     else if canon_name s = [46, 46] then path_text (length pre) (tl u) INT_MIN (ok \<and> no_null s) (BackUpToPreviousSlash (length pre) out)
     else path_text (length pre) u INT_MIN (ok \<and> no_null s) (out @ canon_name s))"
proof -
  have st: "at_start (length pre) out" "out \<noteq> []" using shaped_start [OF sh] sh by (auto simp: shaped_def)
  note names = canon_name_dots [OF s]
  have dn: "no_null d" "no_null (d @ d')" if "d \<in> dots" "d' \<in> dots" for d d'
    using dots_name [OF that(1), of "[]"] dots_name [OF that(1), of d'] dots_name [OF that(2), of "[]"] by auto
  consider (cur) "s \<in> dots" | (up) d d' where "d \<in> dots" "d' \<in> dots" "s = d @ d'"
    | (name) "s \<notin> dots" "\<not> (\<exists>d\<in>dots. \<exists>d'\<in>dots. s = d @ d')" by blast
  then show ?thesis
  proof cases
    case cur
    then show ?thesis using path_text_dot_cur [OF cur st(1) u, of INT_MIN ok] names dn by auto
  next
    case up
    then have "canon_name s = [46, 46]" using names by blast
    moreover have "no_null s" using dn up by simp
    ultimately show ?thesis using path_text_dot_up [OF up(1) st(1) up(2) u, of INT_MIN ok] up(3) by simp
  next
    case name
    then have c: "canon_name s \<noteq> [46]" "canon_name s \<noteq> [46, 46]" using names by auto
    have "path_text (length pre) (s @ u) INT_MIN ok out = path_text (length pre) u INT_MIN (ok \<and> no_null s) (out @ canon_name s)"
    proof (cases "s = []")
      case False
      then show ?thesis using s
      proof (cases s rule: unit_cases)
        case (dot d s')
        have s': "\<forall>c\<in>set s'. \<not> IsURLSlash c" "s' \<noteq> []" using s(2) dot name by auto
        have "\<not> at_end (s' @ u)" using s' by (cases s') (auto simp: at_end_def)
        moreover have "\<not> at_end t" if d': "d' \<in> dots" "s' @ u = d' @ t" for d' t
        proof -
          obtain s2 where "s' = d' @ s2" "t = s2 @ u" using dots_in_name [OF dot(3) s'(1) u d'(2,1)] by blast
          then show ?thesis using name(2) dot d' s' by (cases s2) (auto simp: at_end_def)
        qed
        ultimately have "path_text (length pre) (s @ u) INT_MIN ok out = path_text (length pre) (s' @ u) INT_MIN ok (out @ [46])"
          using path_text_dot_name [OF dot(1), of "s' @ u"] dot(2) by simp
        also have "\<dots> = path_text (length pre) u INT_MIN (ok \<and> no_null s') ((out @ [46]) @ canon_name s')"
          using path_text_name [OF dot(3) s'(1), of pre segs "[46]" "out @ [46]" u ok] shaped_append [OF sh, of "[46]"] by simp
        finally show ?thesis using dots_name [OF dot(1), of s'] dot(2) by simp
      next
        case (plain x s')
        note x = plain_name [OF plain(1)]
        have s': "\<forall>c\<in>set s'. \<not> IsURLSlash c" using s(2) plain by auto
        have "shaped pre segs (canon_name x) (out @ canon_name x)" using shaped_append [OF sh, of "canon_name x"] x by auto
        then show ?thesis
          using path_text_plain [OF plain(1) st(2), of "s' @ u" "length pre" ok] x plain(2)
            path_text_name [OF plain(3) s', of pre segs "canon_name x" "out @ canon_name x" u "ok \<and> no_null x"] by simp
      qed
    qed simp
    then show ?thesis using c by simp
  qed
qed

lemma slash_not_hex: "IsURLSlash c \<Longrightarrow> \<not> IsHexChar c"
  using hex_path_char [of 47] hex_path_char [of 92] path_char_facts by (auto simp: IsURLSlash_def)

lemma well_escaped_split:
  "well_escaped (s @ u) \<Longrightarrow> at_end u \<Longrightarrow> well_escaped s \<and> well_escaped u \<and> (no_null (s @ u) \<longleftrightarrow> no_null s \<and> no_null u)"
proof (induction s rule: length_induct)
  case (1 s)
  consider (nil) "s = []" | (short) c s' where "s = c # s'" "c \<noteq> 37" | (one) "s = [37]" | (two) a where "s = [37, a]"
    | (escape) a b r where "s = 37 # a # b # r" by (metis list.exhaust)
  then show ?case
  proof cases
    case short
    then show ?thesis using 1(1) [rule_format, of s'] 1(2,3) by (simp add: name_Cons)
  next
    case one
    then show ?thesis using 1(2,3) slash_not_hex by (cases u rule: well_escaped.cases) (auto simp: at_end_def)
  next
    case two
    then show ?thesis using 1(2,3) slash_not_hex by (cases u) (auto simp: at_end_def)
  next
    case escape
    then show ?thesis using 1(1) [rule_format, of r] 1(2,3) by auto
  qed (use 1(2) in simp)
qed

lemma join_segments: "concat (map (\<lambda>s. s @ [d]) segs) @ L = JoinStringT (segs @ [L]) [d]"
  by (induction segs) (auto simp: JoinStringT_Cons)

lemma shaped_join: "shaped pre segs L out \<Longrightarrow> out = pre @ 47 # JoinStringT (segs @ [L]) [47]"
  by (simp add: shaped_def join_segments)

lemma path_text_resolve:
  assumes "well_escaped w" "shaped pre segs [] out"
  shows "path_text (length pre) w INT_MIN ok out
    = (ok \<and> no_null w, pre @ 47 # JoinStringT (resolve segs (map canon_name (split_on IsURLSlash w))) [47])"
  using assms
proof (induction w arbitrary: segs ok out rule: length_induct)
  case (1 w)
  let ?s = "takeWhile (\<lambda>c. \<not> IsURLSlash c) w" and ?u = "dropWhile (\<lambda>c. \<not> IsURLSlash c) w"
  note sh = "1.prems"(2)
  have w: "w = ?s @ ?u" by simp
  have u: "at_end ?u" using hd_dropWhile [of "\<lambda>c. \<not> IsURLSlash c" w] by (auto simp: at_end_def)
  have s: "\<forall>c\<in>set ?s. \<not> IsURLSlash c" using set_takeWhileD by fastforce
  have we: "well_escaped ?s" "well_escaped ?u" "no_null w \<longleftrightarrow> no_null ?s \<and> no_null ?u"
    using well_escaped_split [of ?s ?u] "1.prems"(1) u by simp_all
  have c: "47 \<notin> set (canon_name ?s)" using canon_name_chars [OF we(1) s] by blast
  note seg = path_text_segment [OF we(1) s u sh, of ok, folded w]
  show ?case
  proof (cases ?u)
    case Nil
    then have sp: "split_on IsURLSlash w = [?s]" using w s by (metis append_Nil2 split_on_none)
    have e: "path_text (length pre) ?u INT_MIN k x = (k, x)" "path_text (length pre) (tl ?u) INT_MIN k x = (k, x)" for k x
      unfolding Nil list.sel path_text_Nil by (rule refl)+
    have n: "no_null w \<longleftrightarrow> no_null ?s" using we(3) Nil by simp
    have "out @ canon_name ?s = pre @ 47 # JoinStringT (segs @ [canon_name ?s]) [47]"
      using shaped_join [OF shaped_append [OF sh c]] by simp
    then show ?thesis
      unfolding seg sp e n using shaped_join [OF sh] shaped_join [OF shaped_back [OF sh]] by simp
  next
    case (Cons d v)
    then have d: "IsURLSlash d" using u by (simp add: at_end_def)
    then have v: "well_escaped v" "no_null ?u \<longleftrightarrow> no_null v" using we(2) Cons by (auto simp: IsURLSlash_def name_Cons)
    have sp: "split_on IsURLSlash w = ?s # split_on IsURLSlash v" using split_on_append [OF s d, of v] w Cons by simp
    obtain y ys where y: "split_on IsURLSlash v = y # ys" using split_on_nonempty by (metis list.exhaust)
    have "length w = length ?s + Suc (length v)" using arg_cong [OF w, of length] Cons by simp
    then have "length v < length w" by simp
    then have IH: "path_text (length pre) v INT_MIN ok out
        = (ok \<and> no_null v, pre @ 47 # JoinStringT (resolve segs (map canon_name (split_on IsURLSlash v))) [47])"
      if "shaped pre segs [] out" for segs ok out using 1(1) v(1) that by blast
    show ?thesis
      unfolding seg sp using path_text_slash [OF d] IH [OF sh] IH [OF shaped_back [OF sh]]
        IH [OF shaped_slash [OF shaped_append [OF sh c]]] Cons v(2) we(3) y by auto
  qed
qed

subsection \<open>Canonical paths are kept\<close>

lemma canon_unit:
  assumes "plain_unit x"
  shows "plain_unit (canon_name x) \<and> canon_name (canon_name x) = canon_name x"
proof -
  have u: "plain_unit [v] \<and> canon_name [v] = [v]" if "path_char v" "v \<notin> {37, 46, 47}" for v
    using that path_char_facts by (auto simp: plain_unit_def canon_char_def)
  have e: "plain_unit [37, a, b] \<and> canon_name [37, a, b] = [37, a, b]"
    if "IsHexChar a" "IsHexChar b" "escape_value a b \<noteq> 46" "\<not> unreserved_char (escape_value a b)" for a b
    using that escape_value_46 by (auto simp: plain_unit_def canon_escape_def Let_def)
  consider (char) c where "x = [c]" "c \<notin> {37, 46, 47, 92}" | (escape) a b where "x = [37, a, b]" "IsHexChar a" "IsHexChar b" "x \<notin> dots"
    using assms by (auto simp: plain_unit_def)
  then show ?thesis
  proof cases
    case char
    obtain a b where ab: "AppendEscapedChar c [] = [37, a, b]" by (simp add: AppendEscapedChar_def)
    have "\<not> unreserved_char c" if "\<not> path_char c" using that unreserved_path_char by blast
    then show ?thesis using char u [of c] e [of a b] ab escape_digits [of c "[]" a b] by (cases "path_char c") (auto simp: canon_char_def)
  next
    case escape
    then have "escape_value a b \<noteq> 46" using escape_value_46 by simp
    moreover have "escape_value a b \<notin> {37, 46, 47}" if "unreserved_char (escape_value a b)" using that path_char_facts by auto
    ultimately show ?thesis
      using escape e [of a b] u [of "escape_value a b"] unreserved_path_char [of "escape_value a b"]
      by (cases "unreserved_char (escape_value a b)") (auto simp: canon_escape_def Let_def)
  qed
qed

lemma well_escaped_dots: "d \<in> dots \<Longrightarrow> well_escaped (d @ s) \<longleftrightarrow> well_escaped s"
  using hex_2e by (auto simp: dots_def name_Cons)

lemma well_escaped_plain: "plain_unit x \<Longrightarrow> well_escaped (x @ s) \<longleftrightarrow> well_escaped s"
  by (auto simp: plain_unit_def name_Cons)

lemma canon_name_canonical:
  "well_escaped s \<Longrightarrow> \<forall>c\<in>set s. \<not> IsURLSlash c \<Longrightarrow> well_escaped (canon_name s) \<and> canon_name (canon_name s) = canon_name s"
proof (induction s rule: name_induct)
  case (dot d s)
  then show ?case
    using dots_name [OF dot(1), of s] dots_name [of "[46]" "canon_name s"] well_escaped_dots [of "[46]" "canon_name s"] by (auto simp: dots_def)
next
  case (plain x s)
  then show ?case
    using plain_name(1) [OF plain(1), of s] canon_unit [OF plain(1)] plain_name(1) [of "canon_name x" "canon_name s"]
      well_escaped_plain [of "canon_name x" "canon_name s"] by auto
qed simp

lemma resolve_names:
  "\<forall>s\<in>set ps. \<not> dot_name s \<Longrightarrow> s \<in> set (resolve ps ss) \<Longrightarrow> \<not> dot_name s \<and> (s \<in> set ps \<or> s \<in> set ss \<or> s = [])"
proof (induction ps ss rule: resolve.induct)
  case (2 ps s')
  then show ?case by (auto simp: dot_name_def split: if_splits dest: in_set_butlastD)
next
  case (3 ps s' s2 ss)
  then show ?case by (auto simp: dot_name_def split: if_splits dest: in_set_butlastD)
qed simp

lemma resolve_kept: "\<forall>s\<in>set ss. \<not> dot_name s \<Longrightarrow> resolve ps ss = ps @ ss"
  by (induction ps ss rule: resolve.induct) (auto simp: dot_name_def)

lemma resolve_nonempty: "ss \<noteq> [] \<Longrightarrow> resolve ps ss \<noteq> []"
  by (induction ps ss rule: resolve.induct) auto

lemma split_on_cong: "\<forall>c\<in>set s. P c = Q c \<Longrightarrow> split_on P s = split_on Q s"
  by (induction s) auto

lemma well_escaped_append: "well_escaped s \<Longrightarrow> well_escaped u \<Longrightarrow> well_escaped (s @ u)"
proof (induction s rule: length_induct)
  case (1 s)
  consider (nil) "s = []" | (short) c s' where "s = c # s'" "c \<noteq> 37" | (one) "s = [37]" | (two) a where "s = [37, a]"
    | (escape) a b r where "s = 37 # a # b # r" by (metis list.exhaust)
  then show ?case
  proof cases
    case short
    then show ?thesis using 1(1) [rule_format, of s'] 1(2,3) by (simp add: name_Cons)
  next
    case escape
    then show ?thesis using 1(1) [rule_format, of r] 1(2,3) by auto
  qed (use 1(2,3) in auto)
qed

lemma well_escaped_join: "\<forall>s\<in>set ss. well_escaped s \<Longrightarrow> well_escaped (JoinStringT ss [47])"
proof (induction ss)
  case (Cons s ss)
  then show ?case by (cases "ss = []") (auto intro!: well_escaped_append simp: name_Cons)
qed simp

lemma well_escaped_pieces: "well_escaped w \<Longrightarrow> s \<in> set (split_on IsURLSlash w) \<Longrightarrow> well_escaped s \<and> (\<forall>c\<in>set s. \<not> IsURLSlash c)"
proof (induction w arbitrary: s rule: length_induct)
  case (1 w)
  let ?s = "takeWhile (\<lambda>c. \<not> IsURLSlash c) w" and ?u = "dropWhile (\<lambda>c. \<not> IsURLSlash c) w"
  have w: "w = ?s @ ?u" by simp
  have u: "at_end ?u" using hd_dropWhile [of "\<lambda>c. \<not> IsURLSlash c" w] by (auto simp: at_end_def)
  have s: "\<forall>c\<in>set ?s. \<not> IsURLSlash c" using set_takeWhileD by fastforce
  have we: "well_escaped ?s" "well_escaped ?u" using well_escaped_split [of ?s ?u] 1(2) u by simp_all
  show ?case
  proof (cases ?u)
    case Nil
    then have "split_on IsURLSlash w = [?s]" using w s by (metis append_Nil2 split_on_none)
    then show ?thesis using 1(3) we s by simp
  next
    case (Cons d v)
    then have d: "IsURLSlash d" using u by (simp add: at_end_def)
    then have v: "well_escaped v" using we(2) Cons by (auto simp: IsURLSlash_def name_Cons)
    have sp: "split_on IsURLSlash w = ?s # split_on IsURLSlash v" using split_on_append [OF s d, of v] w Cons by simp
    have "length w = length ?s + Suc (length v)" using arg_cong [OF w, of length] Cons by simp
    then have "length v < length w" by simp
    then show ?thesis using 1(1) [rule_format, of v s] 1(3) v sp we s by auto
  qed
qed

lemma canon_path_fixed:
  assumes "well_escaped w"
  shows "well_escaped (canon_path w) \<and> canon_path (canon_path w) = canon_path w"
proof -
  let ?w = "if w \<noteq> [] \<and> IsURLSlash (hd w) then tl w else w"
  define R where "R = resolve [] (map canon_name (split_on IsURLSlash ?w))"
  have "well_escaped ?w" using assms by (cases w) (auto simp: IsURLSlash_def name_Cons)
  note pieces = well_escaped_pieces [OF this]
  have ok: "well_escaped s \<and> canon_name s = s \<and> (\<forall>c\<in>set s. path_char c \<and> c \<noteq> 47) \<and> \<not> dot_name s" if "s \<in> set R" for s
  proof -
    have n: "\<not> dot_name s" "s = [] \<or> s \<in> set (map canon_name (split_on IsURLSlash ?w))" using resolve_names [OF _ that [unfolded R_def]] by auto
    show ?thesis
    proof (cases "s = []")
      case False
      then obtain t where t: "s = canon_name t" "t \<in> set (split_on IsURLSlash ?w)" using n(2) by auto
      note p = pieces [OF t(2)]
      show ?thesis using canon_name_canonical p canon_name_chars [of t] n(1) t(1) by blast
    qed (use n(1) in simp)
  qed
  have ne: "R \<noteq> []" unfolding R_def by (rule resolve_nonempty) simp
  have "\<forall>s\<in>set R. 47 \<notin> set s" using ok by blast
  then have "split_on (\<lambda>c. c = 47) (JoinStringT R [47]) = R" using split_join [OF ne] by blast
  moreover have "IsURLSlash c = (c = 47)" if "c \<in> set (JoinStringT R [47])" for c
  proof -
    have "c = 47 \<or> path_char c" using set_JoinStringT [OF that] ok by auto
    then show ?thesis using path_char_facts(2) by (auto simp: IsURLSlash_def)
  qed
  ultimately have sp: "split_on IsURLSlash (JoinStringT R [47]) = R"
    using split_on_cong [of "JoinStringT R [47]" IsURLSlash "\<lambda>c. c = 47"] by simp
  have "map canon_name R = R" using ok by (simp add: map_idI)
  moreover have "resolve [] R = R" using resolve_kept [of R "[]"] ok by auto
  ultimately have "canon_path (47 # JoinStringT R [47]) = 47 # JoinStringT R [47]"
    using sp by (simp add: canon_path_def IsURLSlash_def)
  moreover have "well_escaped (47 # JoinStringT R [47])" using well_escaped_join [of R] ok by (simp add: name_Cons)
  ultimately show ?thesis by (simp add: canon_path_def flip: R_def)
qed

lemma DoPath_canon:
  assumes "0 \<le> c_begin path" "c_end path \<le> int (length spec)" "well_escaped (window spec (c_begin path) (c_end path))"
  shows "DoPath spec path out = (no_null (window spec (c_begin path) (c_end path)), out @ canon_path (window spec (c_begin path) (c_end path)),
    Comp (int (length out)) (int (length (canon_path (window spec (c_begin path) (c_end path))))))"
proof -
  let ?w = "window spec (c_begin path) (c_end path)"
  let ?r = "if ?w \<noteq> [] \<and> IsURLSlash (hd ?w) then tl ?w else ?w"
  obtain ok p where D: "DoPath spec path out = (ok, p, Comp (int (length out)) (int (length p) - int (length out)))"
    and p: "(ok, p) = path_text (length out) ?r INT_MIN True (out @ [47])" using DoPath_start [OF assms(1,2), of out] by (auto simp: Let_def)
  have r: "well_escaped ?r" "no_null ?r = no_null ?w" using assms(3) by (cases ?w; auto simp: IsURLSlash_def name_Cons)+
  have "shaped out [] [] (out @ [47])" by (simp add: shaped_def)
  from path_text_resolve [OF r(1) this, of True] have "ok = no_null ?w" "p = out @ canon_path ?w"
    using p r(2) by (auto simp: canon_path_def)
  then show ?thesis using D by simp
qed

subsection \<open>Properties\<close>

text \<open>C34. For a path in which every \<^verbatim>\<open>%\<close> starts an escape, the canonical path is the one the reference gives: the segments between
  slashes and backslashes in canonical text, with single dots removed and double dots taking their parent with them, never
  above the root. The call succeeds exactly when the path contains no null character, plain or escaped. A canonical path is
  not changed when it is canonicalised again.\<close>

theorem canonical_path_resolves:
  assumes "0 \<le> c_begin path" "c_end path \<le> int (length spec)" "w = window spec (c_begin path) (c_end path)" "well_escaped w"
  shows "DoPath spec path out = (no_null w, out @ canon_path w, Comp (int (length out)) (int (length (canon_path w))))
    \<and> (\<exists>ok. DoPath (canon_path w) (Comp 0 (int (length (canon_path w)))) []
          = (ok, canon_path w, Comp 0 (int (length (canon_path w)))))"
proof -
  let ?p = "canon_path w"
  have "window ?p (c_begin (Comp 0 (int (length ?p)))) (c_end (Comp 0 (int (length ?p)))) = ?p" by (simp add: c_end_def window_all)
  then show ?thesis
    using DoPath_canon [OF assms(1,2), of out] DoPath_canon [of "Comp 0 (int (length ?p))" ?p "[]"] canon_path_fixed [OF assms(4)] assms(3,4)
    by (simp add: c_end_def)
qed

theorem canonical_path_resolves_witness:
  "fst (snd (DoPath (120 # 92 # bytes ''a/%2e%2E/b c/.'') (Comp 1 15) [])) = bytes ''/b%20c/''"
proof -
  let ?s = "120 # 92 # bytes ''a/%2e%2E/b c/.''"
  have "well_escaped (window ?s 1 16)" by (simp add: window_def IsHexChar_digit CharToDigit_def)
  moreover have "canon_path (window ?s 1 16) = bytes ''/b%20c/''"
    by (simp add: window_def canon_path_def IsURLSlash_def canon_escape_def escape_value_def HexCharToValue_def kCharToHexLookup_def
      canon_char_def path_char_def AppendEscapedChar_def kHexCharLookup_def unreserved_char_def JoinStringT_Cons)
  ultimately show ?thesis using canonical_path_resolves [of "Comp 1 15" ?s "window ?s 1 16" "[]"] by (simp add: c_end_def del: bytes_simps)
qed

end
