(* ===== verification/Utf.thy ===== *)
theory Utf
  imports Prelude
begin

text \<open>
  Unicode conversions: \<^verbatim>\<open>include/common/icu_utf.h\<close>, \<^verbatim>\<open>src/icu_utf.cpp\<close>, \<^verbatim>\<open>src/utf_string_conversion_utils.cpp\<close> and
  \<^verbatim>\<open>src/utf_string_conversions.cpp\<close>.

  Code points are an \<^verbatim>\<open>int32_t\<close>, -1 for an error, and are modelled as integers; a \<^verbatim>\<open>uint32_t\<close> that holds one is a word. Reading
  functions return the code point and the new index. \<open>utf8\<close> and \<open>utf16\<close> are the encodings of the Unicode standard, as functions
  of the number of a scalar value.
\<close>

subsection \<open>UTF-8\<close>

definition CBU_IS_UNICODE_NONCHAR :: "int \<Rightarrow> bool" where
  "CBU_IS_UNICODE_NONCHAR c \<longleftrightarrow> c \<ge> 0xfdd0 \<and> (c \<le> 0xfdef \<or> c AND 0xfffe = 0xfffe) \<and> c \<le> 0x10ffff"

definition CBU8_LEAD3_T1_BITS :: "u8 list" where
  "CBU8_LEAD3_T1_BITS =
     [0x20, 0x30, 0x30, 0x30, 0x30, 0x30, 0x30, 0x30, 0x30, 0x30, 0x30, 0x30, 0x30, 0x10, 0x30, 0x30]"

definition CBU8_IS_VALID_LEAD3_AND_T1 :: "int \<Rightarrow> u8 \<Rightarrow> bool" where
  "CBU8_IS_VALID_LEAD3_AND_T1 lead t1 \<longleftrightarrow>
     CBU8_LEAD3_T1_BITS ! nat (lead AND 0xf) AND push_bit (unat t1 div 32) 1 \<noteq> 0"

definition CBU8_LEAD4_T1_BITS :: "u8 list" where
  "CBU8_LEAD4_T1_BITS =
     [0x00, 0x00, 0x00, 0x00, 0x00, 0x00, 0x00, 0x00, 0x1E, 0x0F, 0x0F, 0x0F, 0x00, 0x00, 0x00, 0x00]"

definition CBU8_IS_VALID_LEAD4_AND_T1 :: "int \<Rightarrow> u8 \<Rightarrow> bool" where
  "CBU8_IS_VALID_LEAD4_AND_T1 lead t1 \<longleftrightarrow>
     CBU8_LEAD4_T1_BITS ! (unat t1 div 16) AND push_bit (nat (lead AND 7)) 1 \<noteq> 0"

definition CBU8_IS_SINGLE :: "int \<Rightarrow> bool" where
  "CBU8_IS_SINGLE c \<longleftrightarrow> c AND 0x80 = 0"

definition CBU_SENTINEL :: int where "CBU_SENTINEL = - 1"

definition utf8_errorValue :: "int list" where
  "utf8_errorValue = [0x15, 0x9f, 0xffff, 0x10ffff, 0, 0]"

definition errorValue :: "nat \<Rightarrow> int \<Rightarrow> int" where
  "errorValue count strict =
     (if strict \<ge> 0 then utf8_errorValue ! count else if strict = - 3 then 0xfffd else CBU_SENTINEL)"

text \<open>The conditions of the code advance \<open>i\<close> as they are tested; \<open>fail\<close> takes the index reached.\<close>

definition next4 :: "buffer \<Rightarrow> nat \<Rightarrow> int \<Rightarrow> int \<Rightarrow> int \<Rightarrow> nat + int \<times> nat" where
  "next4 s i len c strict =
     (let t1 = s ! i; c = c AND 7 in
      if \<not> CBU8_IS_VALID_LEAD4_AND_T1 c t1 then Inl i
      else if int i + 1 = len then Inl (i + 1)
      else
        let t2 = s ! (i + 1) - 0x80 in
        if t2 > 0x3f then Inl (i + 1)
        else if int i + 2 = len then Inl (i + 2)
        else
          let t3 = s ! (i + 2) - 0x80 in
          if t3 > 0x3f then Inl (i + 2)
          else
            let c = push_bit 18 c OR push_bit 12 (uint t1 AND 0x3f) OR push_bit 6 (uint t2) OR uint t3 in
            if strict \<le> 0 \<or> \<not> CBU_IS_UNICODE_NONCHAR c then Inr (c, i + 3) else Inl (i + 3))"

definition next3 :: "buffer \<Rightarrow> nat \<Rightarrow> int \<Rightarrow> int \<Rightarrow> int \<Rightarrow> nat + int \<times> nat" where
  "next3 s i len c strict =
     (let c = c AND 0xf in
      if strict \<noteq> - 2 then
        let t1 = s ! i in
        if \<not> CBU8_IS_VALID_LEAD3_AND_T1 c t1 then Inl i
        else if int i + 1 = len then Inl (i + 1)
        else
          let t2 = s ! (i + 1) - 0x80 in
          if t2 > 0x3f then Inl (i + 1)
          else
            let c = push_bit 12 c OR push_bit 6 (uint t1 AND 0x3f) OR uint t2 in
            if strict \<le> 0 \<or> \<not> CBU_IS_UNICODE_NONCHAR c then Inr (c, i + 2) else Inl (i + 2)
      else
        let t1 = s ! i - 0x80 in
        if \<not> (t1 \<le> 0x3f \<and> (c > 0 \<or> t1 \<ge> 0x20)) then Inl i
        else if int i + 1 = len then Inl (i + 1)
        else
          let t2 = s ! (i + 1) - 0x80 in
          if t2 > 0x3f then Inl (i + 1) else Inr (push_bit 12 c OR push_bit 6 (uint t1) OR uint t2, i + 2))"

definition next2 :: "buffer \<Rightarrow> nat \<Rightarrow> int \<Rightarrow> nat + int \<times> nat" where
  "next2 s i c =
     (let t1 = s ! i - 0x80 in
      if t1 \<le> 0x3f then Inr (push_bit 6 (c - 0xc0) OR uint t1, i + 1) else Inl i)"

definition utf8_nextCharSafeBody :: "buffer \<Rightarrow> nat \<Rightarrow> int \<Rightarrow> int \<Rightarrow> int \<Rightarrow> int \<times> nat" where
  "utf8_nextCharSafeBody s pi len c strict =
     (case (if int pi = len \<or> c > 0xf4 then Inl pi
            else if c \<ge> 0xf0 then next4 s pi len c strict
            else if c \<ge> 0xe0 then next3 s pi len c strict
            else if c \<ge> 0xc2 then next2 s pi c
            else Inl pi) of
        Inr r \<Rightarrow> r
      | Inl i \<Rightarrow> (errorValue (i - pi) strict, i))"

definition CBU8_NEXT :: "buffer \<Rightarrow> nat \<Rightarrow> int \<Rightarrow> int \<times> nat" where
  "CBU8_NEXT s i len =
     (let c = uint (s ! i); i = i + 1 in
      if CBU8_IS_SINGLE c then (c, i)
      else if 0xe0 \<le> c \<and> c < 0xf0 \<and> (int i + 1 < len \<or> len < 0) \<and> CBU8_IS_VALID_LEAD3_AND_T1 c (s ! i) \<and> s ! (i + 1) - 0x80 \<le> 0x3f
      then (push_bit 12 (c AND 0xf) OR push_bit 6 (uint (s ! i) AND 0x3f) OR uint (s ! (i + 1) - 0x80), i + 2)
      else if c < 0xe0 \<and> c \<ge> 0xc2 \<and> int i \<noteq> len \<and> s ! i - 0x80 \<le> 0x3f
      then (push_bit 6 (c AND 0x1f) OR uint (s ! i - 0x80), i + 1)
      else utf8_nextCharSafeBody s i len c (- 1))"

definition CBU8_APPEND_UNSAFE :: "u32 \<Rightarrow> buffer" where
  "CBU8_APPEND_UNSAFE c =
     (if c \<le> 0x7f then [ucast c]
      else
        (if c \<le> 0x7ff then [ucast (drop_bit 6 c OR 0xc0)]
         else
           (if c \<le> 0xffff then [ucast (drop_bit 12 c OR 0xe0)]
            else [ucast (drop_bit 18 c OR 0xf0), ucast (drop_bit 12 c AND 0x3f OR 0x80)])
           @ [ucast (drop_bit 6 c AND 0x3f OR 0x80)])
        @ [ucast (c AND 0x3f OR 0x80)])"

subsection \<open>UTF-16\<close>

definition CBU_IS_SURROGATE :: "u16 \<Rightarrow> bool" where "CBU_IS_SURROGATE c \<longleftrightarrow> c AND 0xf800 = 0xd800"
definition CBU16_IS_SURROGATE_LEAD :: "u16 \<Rightarrow> bool" where "CBU16_IS_SURROGATE_LEAD c \<longleftrightarrow> c AND 0x400 = 0"
definition CBU16_IS_TRAIL :: "u16 \<Rightarrow> bool" where "CBU16_IS_TRAIL c \<longleftrightarrow> c AND 0xfc00 = 0xdc00"

definition CBU16_GET_SUPPLEMENTARY :: "u16 \<Rightarrow> u16 \<Rightarrow> u32" where
  "CBU16_GET_SUPPLEMENTARY lead trail =
     word_of_int (push_bit 10 (uint lead) + uint trail - (push_bit 10 0xd800 + 0xdc00 - 0x10000))"

definition CBU16_APPEND_UNSAFE :: "u32 \<Rightarrow> u16 list" where
  "CBU16_APPEND_UNSAFE c =
     (if c \<le> 0xffff then [ucast c] else [ucast (drop_bit 10 c + 0xd7c0), ucast (c AND 0x3ff OR 0xdc00)])"

subsection \<open>Characters and conversions\<close>

definition IsValidCodepoint :: "u32 \<Rightarrow> bool" where
  "IsValidCodepoint code_point \<longleftrightarrow> code_point < 0xD800 \<or> code_point \<ge> 0xE000 \<and> code_point \<le> 0x10FFFF"

definition IsValidCharacter :: "u32 \<Rightarrow> bool" where
  "IsValidCharacter code_point \<longleftrightarrow>
     code_point < 0xD800 \<or> code_point \<ge> 0xE000 \<and> code_point < 0xFDD0
     \<or> code_point > 0xFDEF \<and> code_point \<le> 0x10FFFF \<and> code_point AND 0xFFFE \<noteq> 0xFFFE"

text \<open>The result is the success, the code point and the index of the last unit consumed. The code point is not written when a
  surrogate has no partner.\<close>

definition ReadUnicodeCharacter8 :: "buffer \<Rightarrow> int \<Rightarrow> nat \<Rightarrow> bool \<times> u32 \<times> nat" where
  "ReadUnicodeCharacter8 src src_len char_index =
     (let (code_point, i) = CBU8_NEXT src char_index src_len;
          code_point = word_of_int code_point
      in (IsValidCodepoint code_point, code_point, i - 1))"

definition ReadUnicodeCharacter16 :: "u16 list \<Rightarrow> int \<Rightarrow> nat \<Rightarrow> u32 \<Rightarrow> bool \<times> u32 \<times> nat" where
  "ReadUnicodeCharacter16 src src_len char_index old =
     (let c = src ! char_index in
      if CBU_IS_SURROGATE c then
        if \<not> CBU16_IS_SURROGATE_LEAD c \<or> int char_index + 1 \<ge> src_len \<or> \<not> CBU16_IS_TRAIL (src ! (char_index + 1))
        then (False, old, char_index)
        else
          let code_point = CBU16_GET_SUPPLEMENTARY c (src ! (char_index + 1)) in
          (IsValidCodepoint code_point, code_point, char_index + 1)
      else (IsValidCodepoint (ucast c), ucast c, char_index))"

definition ReadUnicodeCharacter32 :: "u32 list \<Rightarrow> int \<Rightarrow> nat \<Rightarrow> bool \<times> u32 \<times> nat" where
  "ReadUnicodeCharacter32 src src_len char_index = (IsValidCodepoint (src ! char_index), src ! char_index, char_index)"

definition WriteUnicodeCharacter8 :: "u32 \<Rightarrow> buffer \<Rightarrow> buffer" where
  "WriteUnicodeCharacter8 code_point out =
     (if code_point \<le> 0x7f then out @ [ucast code_point] else out @ CBU8_APPEND_UNSAFE code_point)"

definition CBU16_LENGTH :: "u32 \<Rightarrow> nat" where
  "CBU16_LENGTH c = (if c \<le> 0xffff then 1 else 2)"

definition WriteUnicodeCharacter16 :: "u32 \<Rightarrow> u16 list \<Rightarrow> u16 list" where
  "WriteUnicodeCharacter16 code_point out =
     (if CBU16_LENGTH code_point = 1 then out @ [ucast code_point] else out @ CBU16_APPEND_UNSAFE code_point)"

definition WriteUnicodeCharacter32 :: "u32 \<Rightarrow> u32 list \<Rightarrow> u32 list" where
  "WriteUnicodeCharacter32 code_point out = out @ [code_point]"

text \<open>\<^verbatim>\<open>ConvertUnicode\<close> for a reader and a writer; \<^const>\<open>None\<close> would be a loop that does not end.\<close>

partial_function (option) convert_loop ::
  "(nat \<Rightarrow> bool \<times> u32 \<times> nat) \<Rightarrow> (u32 \<Rightarrow> 'd list \<Rightarrow> 'd list) \<Rightarrow> int \<Rightarrow> nat \<Rightarrow> bool \<Rightarrow> 'd list \<Rightarrow> (bool \<times> 'd list) option" where
  "convert_loop read put src_len i success out =
     (if int i < src_len then
        case read i of (ok, code_point, j) \<Rightarrow>
          if ok then convert_loop read put src_len (j + 1) success (put code_point out)
          else convert_loop read put src_len (j + 1) False (put 0xFFFD out)
      else Some (success, out))"

definition src_len32 :: "nat \<Rightarrow> int" where
  "src_len32 src_len = sint (of_nat src_len :: u32)"

definition UTF8ToUTF16 :: "buffer \<Rightarrow> (bool \<times> u16 list) option" where
  "UTF8ToUTF16 src =
     convert_loop (ReadUnicodeCharacter8 src (src_len32 (length src))) WriteUnicodeCharacter16 (src_len32 (length src)) 0 True []"

definition UTF16ToUTF8 :: "u16 list \<Rightarrow> (bool \<times> buffer) option" where
  "UTF16ToUTF8 src =
     convert_loop (\<lambda>i. ReadUnicodeCharacter16 src (src_len32 (length src)) i 0) WriteUnicodeCharacter8 (src_len32 (length src)) 0 True []"

definition UTF8ToWide :: "buffer \<Rightarrow> (bool \<times> u32 list) option" where
  "UTF8ToWide src =
     convert_loop (ReadUnicodeCharacter8 src (src_len32 (length src))) WriteUnicodeCharacter32 (src_len32 (length src)) 0 True []"

definition WideToUTF8 :: "u32 list \<Rightarrow> (bool \<times> buffer) option" where
  "WideToUTF8 src =
     convert_loop (ReadUnicodeCharacter32 src (src_len32 (length src))) WriteUnicodeCharacter8 (src_len32 (length src)) 0 True []"

definition WideToUTF16 :: "u32 list \<Rightarrow> (bool \<times> u16 list) option" where
  "WideToUTF16 src =
     convert_loop (ReadUnicodeCharacter32 src (src_len32 (length src))) WriteUnicodeCharacter16 (src_len32 (length src)) 0 True []"

definition UTF16ToWide :: "u16 list \<Rightarrow> (bool \<times> u32 list) option" where
  "UTF16ToWide src =
     convert_loop (\<lambda>i. ReadUnicodeCharacter16 src (src_len32 (length src)) i 0) WriteUnicodeCharacter32 (src_len32 (length src)) 0 True []"

subsection \<open>The standard\<close>

definition scalar :: "nat \<Rightarrow> bool" where
  "scalar n \<longleftrightarrow> n < 0xD800 \<or> 0xE000 \<le> n \<and> n \<le> 0x10FFFF"

definition utf8 :: "nat \<Rightarrow> buffer" where
  "utf8 n =
     map of_nat
       (if n < 0x80 then [n]
        else if n < 0x800 then [0xC0 + n div 64, 0x80 + n mod 64]
        else if n < 0x10000 then [0xE0 + n div 4096, 0x80 + n div 64 mod 64, 0x80 + n mod 64]
        else [0xF0 + n div 262144, 0x80 + n div 4096 mod 64, 0x80 + n div 64 mod 64, 0x80 + n mod 64])"

definition utf16 :: "nat \<Rightarrow> u16 list" where
  "utf16 n = map of_nat (if n < 0x10000 then [n] else [0xD800 + (n - 0x10000) div 1024, 0xDC00 + (n - 0x10000) mod 1024])"

subsection \<open>Bytes of a sequence\<close>

definition trail :: "u8 \<Rightarrow> bool" where
  "trail b \<longleftrightarrow> 128 \<le> unat b \<and> unat b \<le> 191"

lemma trail_iff: "b - 0x80 \<le> 0x3f \<longleftrightarrow> trail b"
  using unat_bound [of b] by (auto simp: trail_def word_le_nat_alt unat_sub_if')

lemma trail_value: "trail b \<Longrightarrow> uint (b - 0x80) = int (unat b - 128)"
proof -
  assume "trail b"
  then have "unat (b - 0x80) = unat b - 128" by (simp add: trail_def unat_sub_if')
  then show ?thesis unfolding uint_nat by (rule arg_cong)
qed

lemma trail_low: "trail b \<Longrightarrow> uint b AND 0x3f = int (unat b - 128)"
proof -
  assume t: "trail b"
  have "uint b AND 0x3f = take_bit 6 (uint b)" by (simp add: take_bit_eq_mask mask_eq_exp_minus_1)
  also have "\<dots> = int (unat b mod 64)" by (simp add: take_bit_eq_mod zmod_int)
  also have "unat b mod 64 = unat b - 128" using t mod_mult_self4 [of 64 2 "unat b - 128"] mod_less [of "unat b - 128" 64] unfolding trail_def by (simp, linarith)
  finally show ?thesis .
qed

lemma or_add: "0 \<le> b \<Longrightarrow> b < 2 ^ n \<Longrightarrow> push_bit n a OR b = a * 2 ^ n + (b :: int)"
proof -
  assume b: "0 \<le> b" "b < 2 ^ n"
  have "push_bit n a + b = push_bit n a OR b"
  proof (rule disjunctive_add)
    fix k
    show "\<not> bit (push_bit n a) k \<or> \<not> bit b k"
    proof (cases "k < n")
      case False
      have "b = take_bit n b" using b by (simp add: take_bit_int_eq_self)
      then have "\<not> bit b k" using False by (metis bit_take_bit_iff)
      then show ?thesis by simp
    qed (simp add: bit_push_bit_iff)
  qed
  then show ?thesis by (simp add: push_bit_eq_mult)
qed

lemma flag_bit: "w AND push_bit k 1 \<noteq> 0 \<longleftrightarrow> bit (w :: u8) k"
  by (simp add: push_bit_eq_mult and_exp_eq_0_iff_not_bit)

definition lead3_ok :: "nat \<Rightarrow> nat \<Rightarrow> bool" where
  "lead3_ok x t \<longleftrightarrow> (if x = 0 then 160 else 128) \<le> t \<and> t \<le> (if x = 13 then 159 else 191)"

definition lead4_ok :: "nat \<Rightarrow> nat \<Rightarrow> bool" where
  "lead4_ok x t \<longleftrightarrow> (if x = 0 then 144 else 128) \<le> t \<and> t \<le> (if x = 4 then 143 else 191) \<and> x \<le> 4"

lemma below_8: "k < 8 \<longleftrightarrow> k = 0 \<or> k = 1 \<or> k = 2 \<or> k = 3 \<or> k = 4 \<or> k = 5 \<or> k = 6 \<or> k = (7 :: nat)"
  by presburger

lemma table_bits:
  "k < 8 \<Longrightarrow> bit (0x20 :: u8) k \<longleftrightarrow> k = 5" "k < 8 \<Longrightarrow> bit (0x30 :: u8) k \<longleftrightarrow> k = 4 \<or> k = 5"
  "k < 8 \<Longrightarrow> bit (0x10 :: u8) k \<longleftrightarrow> k = 4" "k < 8 \<Longrightarrow> bit (0x1E :: u8) k \<longleftrightarrow> 1 \<le> k \<and> k \<le> 4"
  "k < 8 \<Longrightarrow> bit (0x0F :: u8) k \<longleftrightarrow> k \<le> 3"
  unfolding below_8 by auto

lemma LEAD3_table: "x < 16 \<Longrightarrow> CBU8_LEAD3_T1_BITS ! x = (if x = 0 then 0x20 else if x = 13 then 0x10 else 0x30)"
proof -
  assume "x < 16"
  then have "x < 8 \<or> x - 8 < 8 \<and> x = 8 + (x - 8)" by auto
  then show ?thesis unfolding below_8 by (auto simp: CBU8_LEAD3_T1_BITS_def)
qed

lemma LEAD4_table: "y < 16 \<Longrightarrow> CBU8_LEAD4_T1_BITS ! y = (if y = 8 then 0x1E else if 9 \<le> y \<and> y \<le> 11 then 0x0F else 0)"
proof -
  assume "y < 16"
  then have "y < 8 \<or> y - 8 < 8 \<and> y = 8 + (y - 8)" by auto
  then show ?thesis unfolding below_8 by (auto simp: CBU8_LEAD4_T1_BITS_def)
qed

lemma int_and_mask: "int x AND 0xf = int (x mod 16)" "int x AND 7 = int (x mod 8)" "int x AND 0x1f = int (x mod 32)" "int x AND 0x80 = 0 \<longleftrightarrow> \<not> odd (x div 128)"
proof -
  have "int x AND 0xf = take_bit 4 (int x)" "int x AND 7 = take_bit 3 (int x)" "int x AND 0x1f = take_bit 5 (int x)"
    by (simp_all add: take_bit_eq_mask mask_eq_exp_minus_1)
  then show "int x AND 0xf = int (x mod 16)" "int x AND 7 = int (x mod 8)" "int x AND 0x1f = int (x mod 32)"
    by (simp_all add: take_bit_eq_mod zmod_int)
  have "int x AND 2 ^ 7 = 0 \<longleftrightarrow> \<not> bit (int x) 7" by (rule and_exp_eq_0_iff_not_bit)
  also have "\<dots> \<longleftrightarrow> \<not> odd (int (x div 128))" by (simp add: bit_iff_odd zdiv_int)
  also have "\<dots> \<longleftrightarrow> \<not> odd (x div 128)" by (simp only: even_of_nat)
  finally show "int x AND 0x80 = 0 \<longleftrightarrow> \<not> odd (x div 128)" by simp
qed

lemma valid_lead3:
  assumes "x mod 16 = y"
  shows "CBU8_IS_VALID_LEAD3_AND_T1 (int x) t \<longleftrightarrow> lead3_ok y (unat t)"
proof -
  have k: "unat t div 32 < 8" "y < 16" using unat_bound [of t] assms by auto
  have "unat t div 32 = 5 \<longleftrightarrow> 160 \<le> unat t \<and> unat t \<le> 191" "unat t div 32 = 4 \<longleftrightarrow> 128 \<le> unat t \<and> unat t \<le> 159" by auto
  then show ?thesis
    unfolding CBU8_IS_VALID_LEAD3_AND_T1_def flag_bit int_and_mask assms nat_int LEAD3_table [OF k(2)] lead3_ok_def
    using table_bits(1-3) [OF k(1)] by (cases "y = 0"; cases "y = 13"; auto)
qed

lemma valid_lead4:
  assumes "x mod 8 = y"
  shows "CBU8_IS_VALID_LEAD4_AND_T1 (int x) t \<longleftrightarrow> lead4_ok y (unat t)"
proof -
  have k: "unat t div 16 < 16" "y < 8" using unat_bound [of t] assms by auto
  have "unat t div 16 = 8 \<longleftrightarrow> 128 \<le> unat t \<and> unat t \<le> 143" "9 \<le> unat t div 16 \<and> unat t div 16 \<le> 11 \<longleftrightarrow> 144 \<le> unat t \<and> unat t \<le> 191" by auto
  then show ?thesis
    unfolding CBU8_IS_VALID_LEAD4_AND_T1_def flag_bit int_and_mask assms nat_int LEAD4_table [OF k(1)] lead4_ok_def
    using table_bits(4,5) [OF k(2)] by (cases "y = 0"; cases "y = 4"; auto)
qed

subsection \<open>The decoder on bytes\<close>

lemma single_iff: "CBU8_IS_SINGLE (uint b) \<longleftrightarrow> unat (b :: u8) < 128"
proof -
  have "odd (unat b div 128) \<longleftrightarrow> 128 \<le> unat b" using unat_bound [of b] by (cases "unat b div 128 = 1") (auto simp: div_eq_0_iff)
  then have "\<not> odd (unat b div 128) \<longleftrightarrow> unat b < 128" by linarith
  then show ?thesis unfolding CBU8_IS_SINGLE_def uint_nat int_and_mask .
qed

lemma trail_less: "trail b \<Longrightarrow> unat b - 128 < 64"
  by (auto simp: trail_def)

lemma or_2: "z < 64 \<Longrightarrow> push_bit 6 (int x) OR int z = int (x * 64 + z)"
  by (subst or_add) auto

lemma or_3: "y < 64 \<Longrightarrow> z < 64 \<Longrightarrow> push_bit 12 (int x) OR push_bit 6 (int y) OR int z = int (x * 4096 + y * 64 + z)"
proof -
  assume l: "y < 64" "z < 64"
  have "push_bit 12 (int x) OR int (y * 64 + z) = int x * 2 ^ 12 + int (y * 64 + z)" by (rule or_add) (use l in auto)
  then show ?thesis unfolding or_2 [OF l(2), symmetric] by (simp add: or.assoc or_2 [OF l(2)])
qed

lemma or_4: "w < 64 \<Longrightarrow> y < 64 \<Longrightarrow> z < 64 \<Longrightarrow>
  push_bit 18 (int x) OR push_bit 12 (int w) OR push_bit 6 (int y) OR int z = int (x * 262144 + w * 4096 + y * 64 + z)"
proof -
  assume l: "w < 64" "y < 64" "z < 64"
  have "push_bit 18 (int x) OR int (w * 4096 + y * 64 + z) = int x * 2 ^ 18 + int (w * 4096 + y * 64 + z)" by (rule or_add) (use l in auto)
  then show ?thesis unfolding or_3 [OF l(2,3), symmetric] by (simp add: or.assoc or_3 [OF l(2,3)])
qed

definition seq2 :: "buffer \<Rightarrow> nat \<Rightarrow> bool" where
  "seq2 s i \<longleftrightarrow> i + 1 < length s \<and> 194 \<le> unat (s ! i) \<and> unat (s ! i) < 224 \<and> trail (s ! (i + 1))"

definition seq3 :: "buffer \<Rightarrow> nat \<Rightarrow> bool" where
  "seq3 s i \<longleftrightarrow> i + 2 < length s \<and> 224 \<le> unat (s ! i) \<and> unat (s ! i) < 240
     \<and> lead3_ok (unat (s ! i) - 224) (unat (s ! (i + 1))) \<and> trail (s ! (i + 2))"

definition seq4 :: "buffer \<Rightarrow> nat \<Rightarrow> bool" where
  "seq4 s i \<longleftrightarrow> i + 3 < length s \<and> 240 \<le> unat (s ! i) \<and> unat (s ! i) < 245
     \<and> lead4_ok (unat (s ! i) - 240) (unat (s ! (i + 1))) \<and> trail (s ! (i + 2)) \<and> trail (s ! (i + 3))"

lemma CBU8_NEXT_1: "unat (s ! i) < 128 \<Longrightarrow> CBU8_NEXT s i len = (int (unat (s ! i)), i + 1)"
  by (simp add: CBU8_NEXT_def single_iff Let_def)

lemma lead_mod: "224 \<le> x \<Longrightarrow> x < 240 \<Longrightarrow> x mod 16 = x - 224" "240 \<le> x \<Longrightarrow> x < 248 \<Longrightarrow> x mod 8 = x - (240 :: nat)"
  using mod_mult_self4 [of 16 14 "x - 224"] mod_mult_self4 [of 8 30 "x - 240"] by auto

lemma CBU8_NEXT_2:
  assumes "seq2 s i"
  shows "CBU8_NEXT s i (int (length s)) = (int ((unat (s ! i) - 192) * 64 + (unat (s ! (i + 1)) - 128)), i + 2)"
proof -
  define x where "x = unat (s ! i)"
  have u: "uint (s ! i) = int x" by (simp add: x_def)
  have r: "194 \<le> x" "x < 224" and t: "trail (s ! (i + 1))" and l: "int (i + 1) \<noteq> int (length s)" using assms by (auto simp: seq2_def x_def)
  have m: "int x AND 0x1f = int (x - 192)" unfolding int_and_mask using r mod_mult_self4 [of 32 6 "x - 192"] by simp
  have v: "push_bit 6 (int x AND 0x1f) OR uint (s ! (i + 1) - 0x80) = int ((x - 192) * 64 + (unat (s ! (i + 1)) - 128))"
    unfolding m trail_value [OF t] by (rule or_2 [OF trail_less [OF t]])
  have n: "\<not> CBU8_IS_SINGLE (int x)" using single_iff [of "s ! i"] r unfolding u x_def [symmetric] by simp
  show ?thesis unfolding CBU8_NEXT_def Let_def u v trail_iff x_def [symmetric] using r l t n by simp
qed

lemma lead_trail: "lead3_ok x (unat t) \<Longrightarrow> trail t" "lead4_ok x (unat t) \<Longrightarrow> trail t"
  by (auto simp: lead3_ok_def lead4_ok_def trail_def split: if_splits)

lemma CBU8_NEXT_3:
  assumes "seq3 s i"
  shows "CBU8_NEXT s i (int (length s)) =
    (int ((unat (s ! i) - 224) * 4096 + (unat (s ! (i + 1)) - 128) * 64 + (unat (s ! (i + 2)) - 128)), i + 3)"
proof -
  define x where "x = unat (s ! i)"
  have u: "uint (s ! i) = int x" by (simp add: x_def)
  have r: "224 \<le> x" "x < 240" and t: "trail (s ! (i + 1))" "trail (s ! (i + 2))" and l: "int i + 2 < int (length s)"
    and ok: "lead3_ok (x - 224) (unat (s ! (i + 1)))" using assms lead_trail by (auto simp: seq3_def x_def)
  have x: "x mod 16 = x - 224" using lead_mod(1) r by blast
  have v: "push_bit 12 (int x AND 0xf) OR push_bit 6 (uint (s ! (i + 1)) AND 0x3f) OR uint (s ! (i + 1 + 1) - 0x80)
      = int ((x - 224) * 4096 + (unat (s ! (i + 1)) - 128) * 64 + (unat (s ! (i + 2)) - 128))"
    using or_3 [OF trail_less [OF t(1)] trail_less [OF t(2)], of "x - 224"]
    unfolding trail_low [OF t(1)] int_and_mask x trail_value [OF t(2), symmetric] by (simp add: add.assoc)
  have c: "CBU8_IS_VALID_LEAD3_AND_T1 (int x) (s ! (i + 1))" unfolding valid_lead3 [OF x] by (rule ok)
  have n: "\<not> CBU8_IS_SINGLE (int x)" using single_iff [of "s ! i"] r unfolding u x_def [symmetric] by simp
  show ?thesis unfolding CBU8_NEXT_def Let_def u v trail_iff x_def [symmetric] using r l t c n by simp
qed

lemma CBU8_NEXT_4:
  assumes "seq4 s i"
  shows "CBU8_NEXT s i (int (length s)) =
    (int ((unat (s ! i) - 240) * 262144 + (unat (s ! (i + 1)) - 128) * 4096 + (unat (s ! (i + 2)) - 128) * 64 + (unat (s ! (i + 3)) - 128)), i + 4)"
proof -
  define x where "x = unat (s ! i)"
  have u: "uint (s ! i) = int x" by (simp add: x_def)
  have r: "240 \<le> x" "x < 245" and t: "trail (s ! (i + 1))" "trail (s ! (i + 2))" "trail (s ! (i + 3))" and l: "int i + 3 < int (length s)"
    and ok: "lead4_ok (x - 240) (unat (s ! (i + 1)))" using assms lead_trail by (auto simp: seq4_def x_def)
  have x: "x mod 8 = x - 240" "(x - 240) mod 8 = x - 240" using lead_mod(2) [of x] r by auto
  have x7: "int x AND 7 = int (x - 240)" unfolding int_and_mask x by (rule refl)
  let ?v = "int ((x - 240) * 262144 + (unat (s ! (i + 1)) - 128) * 4096 + (unat (s ! (i + 2)) - 128) * 64 + (unat (s ! (i + 3)) - 128))"
  have v: "push_bit 18 (int x AND 7) OR push_bit 12 (uint (s ! (i + 1)) AND 0x3f) OR push_bit 6 (uint (s ! (i + 1 + 1) - 0x80)) OR uint (s ! (i + 1 + 2) - 0x80) = ?v"
    using or_4 [OF trail_less [OF t(1)] trail_less [OF t(2)] trail_less [OF t(3)], of "x - 240"]
    unfolding trail_low [OF t(1)] x7 trail_value [OF t(2), symmetric] trail_value [OF t(3), symmetric] by (simp add: add.assoc numeral_3_eq_3)
  have c: "CBU8_IS_VALID_LEAD4_AND_T1 (int x AND 7) (s ! (i + 1))" unfolding x7 valid_lead4 [OF x(2)] by (rule ok)
  have g: "\<not> 0x3f < s ! (i + 1 + 1) - 0x80" "\<not> 0x3f < s ! (i + 1 + 2) - 0x80"
    using trail_iff [of "s ! (i + 2)"] trail_iff [of "s ! (i + 3)"] t by (simp_all add: not_less add.assoc numeral_3_eq_3)
  have "next4 s (i + 1) (int (length s)) (int x) (- 1) = Inr (?v, i + 4)"
    unfolding next4_def Let_def v using c g l by simp
  moreover have "\<not> CBU8_IS_SINGLE (int x)" using single_iff [of "s ! i"] r unfolding u x_def [symmetric] by simp
  ultimately show ?thesis unfolding CBU8_NEXT_def utf8_nextCharSafeBody_def Let_def u x_def [symmetric] using r l by simp
qed

lemma CBU8_NEXT_bad:
  assumes "i < length s" "128 \<le> unat (s ! i)" "\<not> seq2 s i" "\<not> seq3 s i" "\<not> seq4 s i"
  shows "\<exists>k. CBU8_NEXT s i (int (length s)) = (- 1, k) \<and> i < k \<and> k \<le> length s"
proof -
  define x where "x = unat (s ! i)"
  have u: "uint (s ! i) = int x" by (simp add: x_def)
  have n: "\<not> CBU8_IS_SINGLE (int x)" using single_iff [of "s ! i"] assms(2) unfolding u x_def [symmetric] by simp
  have x: "x < 256" using unat_bound [of "s ! i"] by (simp add: x_def)
  have v3: "CBU8_IS_VALID_LEAD3_AND_T1 (int x) t \<longleftrightarrow> lead3_ok (x - 224) (unat t)"
    "CBU8_IS_VALID_LEAD3_AND_T1 (int x AND 0xf) t \<longleftrightarrow> lead3_ok (x - 224) (unat t)" if "224 \<le> x" "x < 240" for t
  proof -
    have "x mod 16 = x - 224" "x mod 16 mod 16 = x - 224" using lead_mod(1) [of x] that by simp_all
    then show "CBU8_IS_VALID_LEAD3_AND_T1 (int x) t \<longleftrightarrow> lead3_ok (x - 224) (unat t)"
      "CBU8_IS_VALID_LEAD3_AND_T1 (int x AND 0xf) t \<longleftrightarrow> lead3_ok (x - 224) (unat t)"
      using valid_lead3 [of x] valid_lead3 [of "x mod 16"] unfolding int_and_mask by blast+
  qed
  have v4: "CBU8_IS_VALID_LEAD4_AND_T1 (int x AND 7) t \<longleftrightarrow> lead4_ok (x - 240) (unat t)" if "240 \<le> x" "x < 245" for t
  proof -
    have "x mod 8 mod 8 = x - 240" using lead_mod(2) [of x] that by simp
    then show ?thesis using valid_lead4 [of "x mod 8"] unfolding int_and_mask by blast
  qed
  let ?l = "int (length s)"
  have inner: "\<exists>k. (case (if int (i + 1) = ?l \<or> int x > 0xf4 then Inl (i + 1)
            else if int x \<ge> 0xf0 then next4 s (i + 1) ?l (int x) (- 1)
            else if int x \<ge> 0xe0 then next3 s (i + 1) ?l (int x) (- 1)
            else if int x \<ge> 0xc2 then next2 s (i + 1) (int x)
            else Inl (i + 1)) of Inr r \<Rightarrow> r | Inl k \<Rightarrow> (errorValue (k - (i + 1)) (- 1), k)) = (- 1, k) \<and> i < k \<and> k \<le> length s"
  proof -
    have e: "errorValue m (- 1) = - 1" for m by (simp add: errorValue_def CBU_SENTINEL_def)
    have g: "0x3f < b - 0x80 \<longleftrightarrow> \<not> trail b" for b using trail_iff [of b] by (simp add: not_le [symmetric])
    consider (cut) "i + 1 = length s" | (high) "244 < x" | (four) "240 \<le> x" "x \<le> 244" "i + 1 < length s"
      | (three) "224 \<le> x" "x < 240" "i + 1 < length s" | (two) "194 \<le> x" "x < 224" "i + 1 < length s" | (low) "x < 194"
      using assms(1) by linarith
    then show ?thesis
    proof cases
      case four
      have "\<exists>k. next4 s (i + 1) ?l (int x) (- 1) = Inl k \<and> i < k \<and> k \<le> length s"
        using four assms(5) unfolding next4_def Let_def g seq4_def x_def [symmetric] by (auto simp: v4 numeral_3_eq_3)
      then show ?thesis using four by (auto simp: e)
    next
      case three
      have "\<exists>k. next3 s (i + 1) ?l (int x) (- 1) = Inl k \<and> i < k \<and> k \<le> length s"
        using three assms(4) unfolding next3_def Let_def g seq3_def x_def [symmetric] by (auto simp: v3)
      then show ?thesis using three by (auto simp: e)
    next
      case two
      have "next2 s (i + 1) (int x) = Inl (i + 1)"
        using two assms(3) unfolding next2_def Let_def trail_iff seq2_def x_def [symmetric] by auto
      then show ?thesis using two by (auto simp: e)
    qed (use assms(1) in \<open>auto simp: e\<close>)
  qed
  show ?thesis
    using assms inner n unfolding CBU8_NEXT_def utf8_nextCharSafeBody_def Let_def u trail_iff x_def [symmetric]
    by (auto simp: seq2_def seq3_def v3 x_def [symmetric])
qed

subsection \<open>The decoder and the standard\<close>

lemma unat_of_nat_8: "n < 256 \<Longrightarrow> unat (of_nat n :: u8) = n"
  by (simp add: unat_of_nat)

lemma unat_eq_of_nat: "unat (b :: u8) = n \<Longrightarrow> b = of_nat n"
  by auto

lemma take_1: "i < length s \<Longrightarrow> take 1 (drop i s) = [s ! i]"
  by (simp add: take_Suc_conv_app_nth)

lemma take_2: "i + 1 < length s \<Longrightarrow> take 2 (drop i s) = [s ! i, s ! (i + 1)]"
  by (simp add: numeral_2_eq_2 take_Suc_conv_app_nth)

lemma take_3: "i + 2 < length s \<Longrightarrow> take 3 (drop i s) = [s ! i, s ! (i + 1), s ! (i + 2)]"
  by (simp add: numeral_3_eq_3 numeral_2_eq_2 take_Suc_conv_app_nth)

lemma take_4: "i + 3 < length s \<Longrightarrow> take 4 (drop i s) = [s ! i, s ! (i + 1), s ! (i + 2), s ! (i + 3)]"
  by (simp add: eval_nat_numeral take_Suc_conv_app_nth)

lemma length_utf8: "0 < length (utf8 n)" "length (utf8 n) \<le> 4"
  by (auto simp: utf8_def)

lemma digit_split: "n = k * m + z \<Longrightarrow> z < m \<Longrightarrow> n div m = k \<and> n mod m = (z :: nat)"
  by auto

text \<open>Whatever the decoder accepts is the encoding of a scalar value.\<close>

lemma seq2_utf8:
  assumes "seq2 s i"
  defines "n \<equiv> (unat (s ! i) - 192) * 64 + (unat (s ! (i + 1)) - 128)"
  shows "scalar n \<and> utf8 n = take 2 (drop i s)"
proof -
  obtain x y where x: "unat (s ! i) = 192 + x" "2 \<le> x" "x < 32" and y: "unat (s ! (i + 1)) = 128 + y" "y < 64"
    using assms(1) by (auto simp: seq2_def trail_def le_iff_add)
  have n: "n = x * 64 + y" "n div 64 = x" "n mod 64 = y" "0x80 \<le> n" "n < 0x800" using x y by (auto simp: n_def)
  have "s ! i = of_nat (192 + x)" "s ! (i + 1) = of_nat (128 + y)" using unat_eq_of_nat x(1) y(1) by blast+
  then show ?thesis using n take_2 [of i s] assms(1) by (simp add: utf8_def scalar_def seq2_def)
qed

lemma seq3_utf8:
  assumes "seq3 s i"
  defines "n \<equiv> (unat (s ! i) - 224) * 4096 + (unat (s ! (i + 1)) - 128) * 64 + (unat (s ! (i + 2)) - 128)"
  shows "scalar n \<and> utf8 n = take 3 (drop i s)"
proof -
  obtain x where x: "unat (s ! i) = 224 + x" "x < 16" using assms(1) by (auto simp: seq3_def le_iff_add)
  obtain y where y: "unat (s ! (i + 1)) = 128 + y" "y < 64" "x = 0 \<Longrightarrow> 32 \<le> y" "x = 13 \<Longrightarrow> y < 32"
    using assms(1) x by (auto simp: seq3_def lead3_ok_def le_iff_add split: if_splits)
  obtain z where z: "unat (s ! (i + 2)) = 128 + z" "z < 64" using assms(1) by (auto simp: seq3_def trail_def le_iff_add)
  have n: "n = x * 4096 + y * 64 + z" using x y z by (simp add: n_def)
  have d: "n div 4096 = x" "n div 64 mod 64 = y" "n mod 64 = z"
  proof -
    have "n = x * 4096 + (y * 64 + z)" "y * 64 + z < 4096" using n y z by auto
    then show "n div 4096 = x" by simp
    have "n = (x * 64 + y) * 64 + z" using n by simp
    then have "n div 64 = x * 64 + y" "n mod 64 = z" using digit_split z(2) by blast+
    then show "n div 64 mod 64 = y" "n mod 64 = z" using y by auto
  qed
  consider "x = 0" | "0 < x" "x < 13" | "x = 13" | "13 < x" by linarith
  then have r: "0x800 \<le> n" "n < 0x10000" "n < 0xD800 \<or> 0xE000 \<le> n" using n x(2) y(2-) z(2) by (cases; linarith)+
  have "s ! i = of_nat (224 + x)" "s ! (i + 1) = of_nat (128 + y)" "s ! (i + 2) = of_nat (128 + z)" using unat_eq_of_nat x(1) y(1) z(1) by blast+
  then show ?thesis using d r take_3 [of i s] assms(1) by (simp add: utf8_def seq3_def scalar_def)
qed

lemma seq4_utf8:
  assumes "seq4 s i"
  defines "n \<equiv> (unat (s ! i) - 240) * 262144 + (unat (s ! (i + 1)) - 128) * 4096 + (unat (s ! (i + 2)) - 128) * 64 + (unat (s ! (i + 3)) - 128)"
  shows "scalar n \<and> utf8 n = take 4 (drop i s)"
proof -
  obtain x where x: "unat (s ! i) = 240 + x" "x < 5" using assms(1) by (auto simp: seq4_def le_iff_add)
  obtain w where w: "unat (s ! (i + 1)) = 128 + w" "w < 64" "x = 0 \<Longrightarrow> 16 \<le> w" "x = 4 \<Longrightarrow> w < 16"
    using assms(1) x by (auto simp: seq4_def lead4_ok_def le_iff_add split: if_splits)
  obtain y where y: "unat (s ! (i + 2)) = 128 + y" "y < 64" using assms(1) by (auto simp: seq4_def trail_def le_iff_add)
  obtain z where z: "unat (s ! (i + 3)) = 128 + z" "z < 64" using assms(1) by (auto simp: seq4_def trail_def le_iff_add)
  have n: "n = x * 262144 + w * 4096 + y * 64 + z" using x w y z by (simp add: n_def)
  have d: "n div 262144 = x" "n div 4096 mod 64 = w" "n div 64 mod 64 = y" "n mod 64 = z"
  proof -
    have "n = x * 262144 + (w * 4096 + y * 64 + z)" "w * 4096 + y * 64 + z < 262144" using n w y z by auto
    then show "n div 262144 = x" by simp
    have "n = (x * 64 + w) * 4096 + (y * 64 + z)" "y * 64 + z < 4096" using n y z by auto
    then have "n div 4096 = x * 64 + w" by simp
    then show "n div 4096 mod 64 = w" using w by simp
    have "n = ((x * 64 + w) * 64 + y) * 64 + z" using n by simp
    then have "n div 64 = (x * 64 + w) * 64 + y" "n mod 64 = z" using digit_split z(2) by blast+
    then have "n div 64 = (x * 64 + w) * 64 + y" "n mod 64 = z" by blast+
    then show "n div 64 mod 64 = y" "n mod 64 = z" using digit_split y(2) by blast+
  qed
  have r: "0x10000 \<le> n" "n \<le> 0x10FFFF" using n x(2) w(2-) y(2) z(2) by (cases "x = 0"; cases "x = 4"; linarith)+
  have "s ! i = of_nat (240 + x)" "s ! (i + 1) = of_nat (128 + w)" "s ! (i + 2) = of_nat (128 + y)" "s ! (i + 3) = of_nat (128 + z)"
    using unat_eq_of_nat x(1) w(1) y(1) z(1) by blast+
  then show ?thesis using d r take_4 [of i s] assms(1) by (simp add: utf8_def seq4_def scalar_def)
qed

text \<open>The decoder accepts the encoding of every scalar value.\<close>

lemma drop_bytes: "drop i s = bs @ r \<Longrightarrow> j < length bs \<Longrightarrow> i + j < length s \<and> s ! (i + j) = bs ! j"
proof -
  assume d: "drop i s = bs @ r" and j: "j < length bs"
  have "length s - i = length bs + length r" using d by (metis length_append length_drop)
  then have l: "i + length bs \<le> length s" using j by linarith
  then have "s ! (i + j) = drop i s ! j" by (simp add: nth_drop)
  then show ?thesis using d j l by (simp add: nth_append)
qed

lemma unat_byte:
  "k < 64 \<Longrightarrow> unat (192 + of_nat k :: u8) = 192 + k" "k < 32 \<Longrightarrow> unat (224 + of_nat k :: u8) = 224 + k"
  "k < 16 \<Longrightarrow> unat (240 + of_nat k :: u8) = 240 + k" "k < 128 \<Longrightarrow> unat (128 + of_nat k :: u8) = 128 + k"
  using unat_of_nat_8 [of "192 + k"] unat_of_nat_8 [of "224 + k"] unat_of_nat_8 [of "240 + k"] unat_of_nat_8 [of "128 + k"]
  by (simp_all add: ac_simps)

lemma utf8_cases:
  assumes "scalar n"
  obtains (one) "n < 0x80"
  | (two) "0x80 \<le> n" "n < 0x800"
  | (three) "0x800 \<le> n" "n < 0x10000"
  | (four) "0x10000 \<le> n" "n \<le> 0x10FFFF"
  using assms unfolding scalar_def by linarith

lemma CBU8_NEXT_utf8:
  assumes n: "scalar n" and d: "drop i s = utf8 n @ r"
  shows "CBU8_NEXT s i (int (length s)) = (int n, i + length (utf8 n))"
  using n
proof (cases rule: utf8_cases)
  case one
  have "s ! i = of_nat n" using drop_bytes [OF d, of 0] one by (simp add: utf8_def)
  then have "unat (s ! i) = n" using one by (simp add: unat_of_nat)
  then show ?thesis using CBU8_NEXT_1 [of s i] one by (simp add: utf8_def)
next
  case two
  have b: "unat (s ! i) = 192 + n div 64" "unat (s ! (i + 1)) = 128 + n mod 64" "i + 1 < length s"
    using drop_bytes [OF d, of 0] drop_bytes [OF d, of 1] two by (auto simp: utf8_def unat_byte less_mult_imp_div_less)
  have "seq2 s i" using b two by (auto simp: seq2_def trail_def)
  then show ?thesis using CBU8_NEXT_2 [of s i] b(1,2) two by (simp only: diff_add_inverse div_mult_mod_eq) (simp add: utf8_def)
next
  case three
  have b: "unat (s ! i) = 224 + n div 4096" "unat (s ! (i + 1)) = 128 + n div 64 mod 64" "unat (s ! (i + 2)) = 128 + n mod 64" "i + 2 < length s"
    using drop_bytes [OF d, of 0] drop_bytes [OF d, of 1] drop_bytes [OF d, of 2] three by (auto simp: utf8_def unat_byte less_mult_imp_div_less)
  have e: "n div 64 = n div 4096 * 64 + n div 64 mod 64" "n = n div 64 * 64 + n mod 64"
    using div_mult_mod_eq [of "n div 64" 64] by (simp_all add: div_mult2_eq [symmetric])
  define x y z where "x = n div 4096" and "y = n div 64 mod 64" and "z = n mod 64"
  have f: "n = x * 4096 + y * 64 + z" "y < 64" "z < 64" unfolding x_def y_def z_def using e by (linarith, simp_all)
  have "seq3 s i" using b f three n unfolding x_def [symmetric] y_def [symmetric] z_def [symmetric]
    by (auto simp: seq3_def trail_def lead3_ok_def scalar_def)
  then show ?thesis using CBU8_NEXT_3 [of s i] three unfolding b(1-3) x_def [symmetric] y_def [symmetric] z_def [symmetric] diff_add_inverse f(1) [symmetric] by (simp add: utf8_def)
next
  case four
  have b: "unat (s ! i) = 240 + n div 262144" "unat (s ! (i + 1)) = 128 + n div 4096 mod 64" "unat (s ! (i + 2)) = 128 + n div 64 mod 64"
    "unat (s ! (i + 3)) = 128 + n mod 64" "i + 3 < length s"
    using drop_bytes [OF d, of 0] drop_bytes [OF d, of 1] drop_bytes [OF d, of 2] drop_bytes [OF d, of 3] four by (auto simp: utf8_def unat_byte less_mult_imp_div_less)
  have e: "n div 4096 = n div 262144 * 64 + n div 4096 mod 64" "n div 64 = n div 4096 * 64 + n div 64 mod 64" "n = n div 64 * 64 + n mod 64"
    using div_mult_mod_eq [of "n div 64" 64] div_mult_mod_eq [of "n div 4096" 64] by (simp_all add: div_mult2_eq [symmetric])
  define x w y z where "x = n div 262144" and "w = n div 4096 mod 64" and "y = n div 64 mod 64" and "z = n mod 64"
  have f: "n = x * 262144 + w * 4096 + y * 64 + z" "w < 64" "y < 64" "z < 64" unfolding x_def y_def z_def w_def using e by (linarith, simp_all)
  have "seq4 s i" using b f four unfolding x_def [symmetric] y_def [symmetric] z_def [symmetric] w_def [symmetric]
    by (auto simp: seq4_def trail_def lead4_ok_def)
  then show ?thesis using CBU8_NEXT_4 [of s i] four unfolding b(1-4) x_def [symmetric] y_def [symmetric] z_def [symmetric] w_def [symmetric] diff_add_inverse f(1) [symmetric] by (simp add: utf8_def)
qed

subsection \<open>Writing a scalar value\<close>

lemma ucast_of_nat: "unat (c :: 'a :: len word) = n \<Longrightarrow> (ucast c :: 'b :: len word) = of_nat n"
  by auto

lemma or_mark:
  "k < 64 \<Longrightarrow> k OR 0x80 = 0x80 + (k :: nat)" "k < 64 \<Longrightarrow> k OR 0xC0 = 0xC0 + (k :: nat)" "k < 32 \<Longrightarrow> k OR 0xE0 = 0xE0 + (k :: nat)"
  "k < 16 \<Longrightarrow> k OR 0xF0 = 0xF0 + (k :: nat)" "k < 1024 \<Longrightarrow> k OR 0xDC00 = 0xDC00 + (k :: nat)"
proof -
  have *: "k OR j = j + k" if "push_bit m a = int j" "k < 2 ^ m" for m a and j :: nat
  proof -
    have "push_bit m a OR int k = a * 2 ^ m + int k" by (rule or_add) (use that(2) in \<open>simp_all only: of_nat_0_le_iff of_nat_less_numeral_power_cancel_iff\<close>)
    then have "int (j OR k) = int (j + k)" unfolding that(1) of_nat_or_eq using that(1) by (simp add: push_bit_eq_mult)
    then show ?thesis by (simp only: of_nat_eq_iff or.commute)
  qed
  show "k < 64 \<Longrightarrow> k OR 0x80 = 0x80 + k" using * [of 6 2 "0x80"] by simp
  show "k < 64 \<Longrightarrow> k OR 0xC0 = 0xC0 + k" using * [of 6 3 "0xC0"] by simp
  show "k < 32 \<Longrightarrow> k OR 0xE0 = 0xE0 + k" using * [of 5 7 "0xE0"] by simp
  show "k < 16 \<Longrightarrow> k OR 0xF0 = 0xF0 + k" using * [of 4 15 "0xF0"] by simp
  show "k < 1024 \<Longrightarrow> k OR 0xDC00 = 0xDC00 + k" using * [of 10 55 "0xDC00"] by simp
qed

lemma unat_word_ops:
  "unat (drop_bit k c :: u32) = unat c div 2 ^ k" "unat (c AND 0x3f :: u32) = unat c mod 64" "unat (c AND 0x3ff :: u32) = unat c mod 1024"
  "unat (a OR b :: u32) = unat a OR unat b"
proof -
  have "c AND 0x3f = take_bit 6 c" "c AND 0x3ff = take_bit 10 c" by (simp_all add: take_bit_eq_mask mask_eq_exp_minus_1)
  then show "unat (c AND 0x3f :: u32) = unat c mod 64" "unat (c AND 0x3ff :: u32) = unat c mod 1024"
    by (simp_all add: take_bit_eq_mod unat_mod)
  have "unat (drop_bit k c) = drop_bit k (unat c)" using unsigned_less [of c, where 'a = nat] by (simp add: unsigned_drop_bit_eq take_bit_nat_eq_self)
  then show "unat (drop_bit k c) = unat c div 2 ^ k" by (simp only: drop_bit_eq_div)
qed (rule unsigned_or_eq)

lemma append_utf8:
  assumes "scalar (unat c)"
  shows "CBU8_APPEND_UNSAFE c = utf8 (unat c)"
proof -
  define n where "n = unat c"
  have l: "c \<le> 0x7f \<longleftrightarrow> n < 0x80" "c \<le> 0x7ff \<longleftrightarrow> n < 0x800" "c \<le> 0xffff \<longleftrightarrow> n < 0x10000" by (auto simp: word_le_nat_alt n_def)
  have t: "ucast (c AND 0x3f OR 0x80) = (of_nat (0x80 + n mod 64) :: u8)"
    by (rule ucast_of_nat) (simp add: unat_word_ops or_mark n_def)
  have m: "ucast (drop_bit k c AND 0x3f OR 0x80) = (of_nat (0x80 + n div 2 ^ k mod 64) :: u8)" for k
    by (rule ucast_of_nat) (simp add: unat_word_ops or_mark n_def)
  have h2: "n < 0x800 \<Longrightarrow> ucast (drop_bit 6 c OR 0xc0) = (of_nat (0xC0 + n div 64) :: u8)"
    by (rule ucast_of_nat) (simp add: unat_word_ops or_mark n_def less_mult_imp_div_less)
  have h3: "n < 0x10000 \<Longrightarrow> ucast (drop_bit 12 c OR 0xe0) = (of_nat (0xE0 + n div 4096) :: u8)"
    by (rule ucast_of_nat) (simp add: unat_word_ops or_mark n_def less_mult_imp_div_less)
  have h4: "ucast (drop_bit 18 c OR 0xf0) = (of_nat (0xF0 + n div 262144) :: u8)"
    by (rule ucast_of_nat) (use assms in \<open>auto simp: unat_word_ops or_mark n_def less_mult_imp_div_less scalar_def\<close>)
  have h1: "ucast c = (of_nat n :: u8)" by (simp add: n_def)
  show ?thesis unfolding CBU8_APPEND_UNSAFE_def utf8_def n_def [symmetric] l h1 t m h4 using h2 h3 by simp
qed

lemma put_utf8: "scalar (unat c) \<Longrightarrow> WriteUnicodeCharacter8 c out = out @ utf8 (unat c)"
  using append_utf8 [of c] by (auto simp: WriteUnicodeCharacter8_def CBU8_APPEND_UNSAFE_def split: if_splits)

lemma put_utf16:
  assumes "scalar (unat c)"
  shows "WriteUnicodeCharacter16 c out = out @ utf16 (unat c)"
proof -
  define n where "n = unat c"
  have l: "c \<le> 0xffff \<longleftrightarrow> n < 0x10000" by (auto simp: word_le_nat_alt n_def)
  have t: "ucast (c AND 0x3ff OR 0xdc00) = (of_nat (0xDC00 + n mod 1024) :: u16)"
    by (rule ucast_of_nat) (simp add: unat_word_ops or_mark n_def)
  have s: "n div 1024 < 0x440" using assms by (auto simp: n_def scalar_def)
  have "unat (drop_bit 10 c + 0xd7c0) = 0xD7C0 + n div 1024"
    using s by (simp add: unat_word_ops unat_word_ariths n_def)
  then have h: "ucast (drop_bit 10 c + 0xd7c0) = (of_nat (0xD7C0 + n div 1024) :: u16)" by (rule ucast_of_nat)
  have e: "0xD800 + (n - 0x10000) div 1024 = 0xD7C0 + n div 1024" "(n - 0x10000) mod 1024 = n mod 1024" if "\<not> n < 0x10000"
  proof -
    define k where "k = n - 0x10000"
    have "n = k + 64 * 1024" using that by (simp add: k_def)
    then have "n div 1024 = k div 1024 + 64" "n mod 1024 = k mod 1024" by (simp, metis mod_mult_self1)
    then show "0xD800 + (n - 0x10000) div 1024 = 0xD7C0 + n div 1024" "(n - 0x10000) mod 1024 = n mod 1024" unfolding k_def by simp_all
  qed
  have h1: "ucast c = (of_nat n :: u16)" by (simp add: n_def)
  show ?thesis
    unfolding WriteUnicodeCharacter16_def CBU16_LENGTH_def CBU16_APPEND_UNSAFE_def utf16_def n_def [symmetric] l h1 t h
    by (cases "n < 0x10000") (simp_all only: e not_False_eq_True if_True if_False list.map simp_thms one_neq_zero numeral_eq_one_iff semiring_norm)
qed

subsection \<open>Reading UTF-16\<close>

lemma high_part: "unat (c AND NOT (mask k) :: u16) = unat c div 2 ^ k * 2 ^ k"
proof -
  have "unat (c AND mask k) = unat c mod 2 ^ k" by (simp only: take_bit_eq_mask [symmetric] unsigned_take_bit_eq) (rule take_bit_eq_mod)
  moreover have "c AND NOT (mask k) = c AND NOT (c AND mask k)" by (rule bit_eqI) (auto simp: bit_simps)
  then have "c AND NOT (mask k) = c - (c AND mask k)" by (subst disjunctive_diff_eq_and_not) (simp_all add: and.assoc [symmetric])
  ultimately show ?thesis by (simp add: unat_sub_if' minus_mod_eq_div_mult)
qed

lemma CBU_SURROGATE_iff: "CBU_IS_SURROGATE c \<longleftrightarrow> 0xD800 \<le> unat c \<and> unat c < 0xE000"
proof -
  have "(0xf800 :: u16) = NOT (mask 11)" by (simp add: mask_eq_exp_minus_1)
  then have "unat (c AND 0xf800) = unat c div 2048 * 2048" using high_part [of c 11] by (simp only:) simp
  then have "CBU_IS_SURROGATE c \<longleftrightarrow> unat c div 2048 * 2048 = 0xD800"
    unfolding CBU_IS_SURROGATE_def word_unat_eq_iff by simp
  then show ?thesis by auto
qed

lemma CBU16_TRAIL_iff: "CBU16_IS_TRAIL c \<longleftrightarrow> 0xDC00 \<le> unat c \<and> unat c < 0xE000"
proof -
  have "(0xfc00 :: u16) = NOT (mask 10)" by (simp add: mask_eq_exp_minus_1)
  then have "unat (c AND 0xfc00) = unat c div 1024 * 1024" using high_part [of c 10] by (simp only:) simp
  then have "CBU16_IS_TRAIL c \<longleftrightarrow> unat c div 1024 * 1024 = 0xDC00"
    unfolding CBU16_IS_TRAIL_def word_unat_eq_iff by simp
  then show ?thesis by auto
qed

lemma CBU16_LEAD_iff: "CBU_IS_SURROGATE c \<Longrightarrow> CBU16_IS_SURROGATE_LEAD c \<longleftrightarrow> unat c < 0xDC00"
proof -
  assume s: "CBU_IS_SURROGATE c"
  have "c AND 2 ^ 10 = 0 \<longleftrightarrow> \<not> bit c 10" by (rule and_exp_eq_0_iff_not_bit)
  also have "\<dots> \<longleftrightarrow> \<not> bit (unat c) 10" by (simp add: bit_unsigned_iff)
  also have "\<dots> \<longleftrightarrow> even (unat c div 1024)" by (simp add: bit_iff_odd)
  finally have e: "CBU16_IS_SURROGATE_LEAD c \<longleftrightarrow> even (unat c div 1024)" by (simp add: CBU16_IS_SURROGATE_LEAD_def)
  consider "unat c div 1024 = 54" "unat c < 0xDC00" | "unat c div 1024 = 55" "\<not> unat c < 0xDC00"
    using s unfolding CBU_SURROGATE_iff by linarith
  then show ?thesis unfolding e by cases auto
qed

lemma supplementary:
  assumes "0xD800 \<le> unat a" "unat a < 0xDC00" "0xDC00 \<le> unat b" "unat b < 0xE000"
  shows "CBU16_GET_SUPPLEMENTARY a b = of_nat (0x10000 + (unat a - 0xD800) * 1024 + (unat b - 0xDC00))"
proof -
  obtain x y where "unat a = 0xD800 + x" "unat b = 0xDC00 + y" using assms by (auto simp: le_iff_add)
  then have u: "uint a = int (0xD800 + x)" "uint b = int (0xDC00 + y)" "unat a = 0xD800 + x" "unat b = 0xDC00 + y" by (simp_all add: uint_nat)
  have "push_bit 10 (uint a) + uint b - (push_bit 10 0xd800 + 0xdc00 - 0x10000) = int (0x10000 + x * 1024 + y)"
    unfolding u push_bit_eq_mult by simp
  then show ?thesis unfolding CBU16_GET_SUPPLEMENTARY_def u(3,4) by (simp only: diff_add_inverse of_int_of_nat_eq)
qed

subsection \<open>Readers\<close>

abbreviation short :: "'s list \<Rightarrow> bool" where
  "short s \<equiv> length s < 2 ^ 31"

lemma src_len32_short: "n < 2 ^ 31 \<Longrightarrow> src_len32 n = int n"
proof -
  assume n: "n < 2 ^ 31"
  then have "unat (of_nat n :: u32) = n" by (simp add: unat_of_nat)
  then have "uint (of_nat n :: u32) = int n" by (simp only: uint_nat)
  then show ?thesis using n by (simp add: src_len32_def sint_uint signed_take_bit_int_eq_self)
qed

lemma valid_iff: "IsValidCodepoint c \<longleftrightarrow> scalar (unat c)"
  by (auto simp: IsValidCodepoint_def scalar_def word_less_nat_alt word_le_nat_alt)

lemma unat_scalar: "scalar n \<Longrightarrow> unat (of_nat n :: u32) = n"
  by (auto simp: scalar_def unat_of_nat)

definition read8 :: "buffer \<Rightarrow> nat \<Rightarrow> bool \<times> u32 \<times> nat" where
  "read8 s = ReadUnicodeCharacter8 s (src_len32 (length s))"

definition read16 :: "u16 list \<Rightarrow> nat \<Rightarrow> bool \<times> u32 \<times> nat" where
  "read16 s i = ReadUnicodeCharacter16 s (src_len32 (length s)) i 0"

definition read32 :: "u32 list \<Rightarrow> nat \<Rightarrow> bool \<times> u32 \<times> nat" where
  "read32 s = ReadUnicodeCharacter32 s (src_len32 (length s))"

definition wide :: "nat \<Rightarrow> u32 list" where "wide n = [of_nat n]"

text \<open>Either a scalar value stands at an index, or nothing does: the three cases of a reader.\<close>

definition reads :: "('s list \<Rightarrow> nat \<Rightarrow> bool \<times> u32 \<times> nat) \<Rightarrow> (nat \<Rightarrow> 's list) \<Rightarrow> 's list \<Rightarrow> nat \<Rightarrow> bool" where
  "reads read enc s i \<longleftrightarrow>
     (case read s i of (ok, c, j) \<Rightarrow> i \<le> j \<and> j < length s \<and> (ok \<longrightarrow> scalar (unat c) \<and> enc (unat c) = take (j + 1 - i) (drop i s)))"

lemma read8_at: "short s \<Longrightarrow> CBU8_NEXT s i (int (length s)) = (c, k) \<Longrightarrow> read8 s i = (IsValidCodepoint (word_of_int c), word_of_int c, k - 1)"
  by (simp add: read8_def ReadUnicodeCharacter8_def src_len32_short Let_def)

lemma read8_scalar:
  assumes "short s" "CBU8_NEXT s i (int (length s)) = (int n, i + k)" "scalar n" "utf8 n = take k (drop i s)" "0 < k" "i + k \<le> length s"
  shows "reads read8 utf8 s i"
proof -
  have "read8 s i = (True, of_nat n, i + k - 1)" using read8_at [OF assms(1,2)] assms(3) by (simp add: valid_iff unat_scalar)
  then show ?thesis unfolding reads_def using assms(3-) unat_scalar [of n] by auto
qed

lemma read8_reads:
  assumes s: "short s" and i: "i < length s"
  shows "reads read8 utf8 s i"
proof -
  consider (one) "unat (s ! i) < 128" | (two) "seq2 s i" | (three) "seq3 s i" | (four) "seq4 s i"
    | (bad) "128 \<le> unat (s ! i)" "\<not> seq2 s i" "\<not> seq3 s i" "\<not> seq4 s i" by linarith
  then show ?thesis
  proof cases
    case one
    show ?thesis
      by (rule read8_scalar [OF s CBU8_NEXT_1 [OF one]]) (use one i in \<open>simp_all add: scalar_def utf8_def take_1 [simplified]\<close>)
  next
    case two
    show ?thesis using seq2_utf8 [OF two] two
      by (intro read8_scalar [OF s CBU8_NEXT_2 [OF two]]) (simp_all add: seq2_def)
  next
    case three
    show ?thesis using seq3_utf8 [OF three] three
      by (intro read8_scalar [OF s CBU8_NEXT_3 [OF three]]) (simp_all add: seq3_def)
  next
    case four
    show ?thesis using seq4_utf8 [OF four] four
      by (intro read8_scalar [OF s CBU8_NEXT_4 [OF four]]) (simp_all add: seq4_def)
  next
    case bad
    obtain k where k: "CBU8_NEXT s i (int (length s)) = (- 1, k)" "i < k" "k \<le> length s" using CBU8_NEXT_bad [OF i bad] by blast
    have "\<not> IsValidCodepoint (word_of_int (- 1))" by (simp add: valid_iff scalar_def unsigned_minus_1_eq_mask mask_eq_exp_minus_1)
    then show ?thesis using read8_at [OF s k(1)] k unfolding reads_def by auto
  qed
qed

lemma read8_complete:
  assumes "short s" "scalar n" "drop i s = utf8 n @ r"
  shows "read8 s i = (True, of_nat n, i + length (utf8 n) - 1)"
  using read8_at [OF assms(1) CBU8_NEXT_utf8 [OF assms(2,3)]] assms(2) by (simp add: valid_iff unat_scalar)

lemma read32_reads: "i < length s \<Longrightarrow> reads read32 wide s i"
  by (simp add: reads_def read32_def ReadUnicodeCharacter32_def valid_iff wide_def take_1 [simplified])

lemma read32_complete: "scalar n \<Longrightarrow> drop i s = wide n @ r \<Longrightarrow> read32 s i = (True, of_nat n, i + length (wide n) - 1)"
  using drop_bytes [of i s "wide n" r 0] by (simp add: read32_def ReadUnicodeCharacter32_def valid_iff wide_def unat_scalar)

lemma pair_value: "x < 1024 \<Longrightarrow> y < 1024 \<Longrightarrow> utf16 (0x10000 + x * 1024 + y) = [of_nat (0xD800 + x), of_nat (0xDC00 + y)]"
  by (simp add: utf16_def del: of_nat_add)

lemma read16_reads:
  assumes s: "short s" and i: "i < length s"
  shows "reads read16 utf16 s i"
proof -
  let ?c = "s ! i" and ?d = "s ! (i + 1)"
  consider (bmp) "\<not> CBU_IS_SURROGATE ?c" | (bad) "CBU_IS_SURROGATE ?c" "\<not> CBU16_IS_SURROGATE_LEAD ?c \<or> length s \<le> i + 1 \<or> \<not> CBU16_IS_TRAIL ?d"
    | (pair) "CBU_IS_SURROGATE ?c" "CBU16_IS_SURROGATE_LEAD ?c" "i + 1 < length s" "CBU16_IS_TRAIL ?d" by linarith
  then show ?thesis
  proof cases
    case bmp
    have n: "unat ?c < 0x10000" using unsigned_less [of ?c, where 'a = nat] by simp
    have u: "unat (ucast ?c :: u32) = unat ?c" using n by (simp add: unsigned_ucast_eq take_bit_nat_eq_self)
    have "utf16 (unat ?c) = [?c]" using n by (simp add: utf16_def)
    then show ?thesis using bmp i u
      by (simp add: reads_def read16_def ReadUnicodeCharacter16_def valid_iff take_1 [simplified] Let_def)
  next
    case bad
    then show ?thesis using i s by (auto simp: reads_def read16_def ReadUnicodeCharacter16_def src_len32_short Let_def)
  next
    case pair
    have r: "0xD800 \<le> unat ?c" "unat ?c < 0xDC00" "0xDC00 \<le> unat ?d" "unat ?d < 0xE000"
      using pair CBU16_LEAD_iff [OF pair(1)] by (simp_all add: CBU_SURROGATE_iff CBU16_TRAIL_iff)
    obtain x y where xy: "unat ?c = 0xD800 + x" "unat ?d = 0xDC00 + y" "x < 1024" "y < 1024" using r by (auto simp: le_iff_add)
    define n where "n = 0x10000 + x * 1024 + y"
    have n: "scalar n" using xy by (auto simp: scalar_def n_def)
    have v: "CBU16_GET_SUPPLEMENTARY ?c ?d = of_nat n" unfolding supplementary [OF r] n_def xy diff_add_inverse by (rule refl)
    have "utf16 n = [of_nat (unat ?c), of_nat (unat ?d)]" unfolding n_def pair_value [OF xy(3,4)] xy by (rule refl)
    then have "utf16 n = take 2 (drop i s)" using take_2 [OF pair(3)] by simp
    moreover have "read16 s i = (True, of_nat n, i + 1)" using pair s v n
      by (simp add: read16_def ReadUnicodeCharacter16_def src_len32_short Let_def valid_iff unat_scalar)
    ultimately show ?thesis using pair(3) n by (simp add: reads_def unat_scalar numeral_2_eq_2)
  qed
qed

lemma read16_complete:
  assumes s: "short s" and n: "scalar n" and d: "drop i s = utf16 n @ r"
  shows "read16 s i = (True, of_nat n, i + length (utf16 n) - 1)"
proof (cases "n < 0x10000")
  case True
  have c: "s ! i = of_nat n" using drop_bytes [OF d, of 0] True by (simp add: utf16_def)
  then have u: "unat (s ! i) = n" using True by (simp add: unat_of_nat)
  then have "(ucast (s ! i) :: u32) = of_nat n" by (rule ucast_of_nat)
  moreover have "\<not> CBU_IS_SURROGATE (s ! i)" using n u by (auto simp: CBU_SURROGATE_iff scalar_def)
  ultimately show ?thesis using n True
    by (simp add: read16_def ReadUnicodeCharacter16_def Let_def valid_iff unat_scalar utf16_def)
next
  case False
  define x y where "x = (n - 0x10000) div 1024" and "y = (n - 0x10000) mod 1024"
  have xy: "x < 1024" "y < 1024" "n = 0x10000 + x * 1024 + y" using n False by (auto simp: x_def y_def scalar_def)
  have e: "utf16 n = [of_nat (0xD800 + x), of_nat (0xDC00 + y)]" unfolding xy(3) by (rule pair_value [OF xy(1,2)])
  have b: "s ! i = of_nat (0xD800 + x)" "s ! (i + 1) = of_nat (0xDC00 + y)" "i + 1 < length s"
    using drop_bytes [OF d, of 0] drop_bytes [OF d, of 1] by (simp_all add: e del: of_nat_add)
  have u: "unat (s ! i) = 0xD800 + x" "unat (s ! (i + 1)) = 0xDC00 + y" unfolding b using xy by (simp_all add: unat_of_nat del: of_nat_add)
  have v: "CBU16_GET_SUPPLEMENTARY (s ! i) (s ! (i + 1)) = of_nat n"
    using supplementary [of "s ! i" "s ! (i + 1)"] xy(1,2) unfolding u xy(3) by simp
  have "CBU_IS_SURROGATE (s ! i)" "CBU16_IS_TRAIL (s ! (i + 1))" using u xy by (simp_all add: CBU_SURROGATE_iff CBU16_TRAIL_iff)
  moreover have "CBU16_IS_SURROGATE_LEAD (s ! i)" using CBU16_LEAD_iff calculation(1) u xy by simp
  ultimately show ?thesis using v b(3) s n
    by (simp add: read16_def ReadUnicodeCharacter16_def src_len32_short Let_def valid_iff unat_scalar e)
qed

subsection \<open>Transcoding\<close>

text \<open>A reader of one encoding and a writer of another make a transcoder. The reader advances, recognises exactly the encoded scalar
  values, and never reads past the end; the writer appends an encoding.\<close>

locale unicode_source =
  fixes read :: "'s list \<Rightarrow> nat \<Rightarrow> bool \<times> u32 \<times> nat" and enc :: "nat \<Rightarrow> 's list"
  assumes reads: "short s \<Longrightarrow> i < length s \<Longrightarrow> reads read enc s i"
    and complete: "short s \<Longrightarrow> scalar n \<Longrightarrow> drop i s = enc n @ r \<Longrightarrow> read s i = (True, of_nat n, i + length (enc n) - 1)"
    and nonempty: "enc n \<noteq> []"

locale unicode_sink =
  fixes put :: "u32 \<Rightarrow> 'd list \<Rightarrow> 'd list" and enc' :: "nat \<Rightarrow> 'd list"
  assumes put: "scalar (unat c) \<Longrightarrow> put c out = out @ enc' (unat c)"

locale transcoder = unicode_source read enc + unicode_sink put enc'
  for read :: "'s list \<Rightarrow> nat \<Rightarrow> bool \<times> u32 \<times> nat" and enc :: "nat \<Rightarrow> 's list"
    and put :: "u32 \<Rightarrow> 'd list \<Rightarrow> 'd list" and enc' :: "nat \<Rightarrow> 'd list"
begin

lemma loop_encoded:
  assumes "short s" "list_all scalar ns" "drop i s = concat (map enc ns)"
  shows "convert_loop (read s) put (int (length s)) i ok out = Some (ok, out @ concat (map enc' ns))"
  using assms(2,3)
proof (induction ns arbitrary: i out)
  case Nil
  then show ?case by (simp add: convert_loop.simps)
next
  case (Cons n ns)
  let ?k = "length (enc n)"
  have n: "scalar n" and d: "drop i s = enc n @ concat (map enc ns)" using Cons.prems by simp_all
  have k: "0 < ?k" using nonempty by simp
  then have i: "i < length s" using drop_bytes [OF d, of 0] by simp
  have r: "read s i = (True, of_nat n, i + ?k - 1)" by (rule complete [OF assms(1) n d])
  have "drop (i + ?k) s = drop ?k (drop i s)" by (simp add: add.commute)
  then have d': "drop (i + ?k) s = concat (map enc ns)" unfolding d by simp
  have "convert_loop (read s) put (int (length s)) i ok out =
      convert_loop (read s) put (int (length s)) (i + ?k) ok (put (of_nat n) out)"
    by (subst convert_loop.simps) (use i r k in simp)
  then show ?case using Cons.IH [OF _ d', of "put (of_nat n) out"] Cons.prems(1) put [of "of_nat n" out] n by (simp add: unat_scalar)
qed

lemma loop_returns:
  assumes "short s"
  shows "\<exists>ns ok'. list_all scalar ns \<and> convert_loop (read s) put (int (length s)) i ok out = Some (ok', out @ concat (map enc' ns))
    \<and> (ok' \<longrightarrow> ok \<and> drop i s = concat (map enc ns))"
proof (induction "length s - i" arbitrary: i ok out rule: less_induct)
  case less
  show ?case
  proof (cases "i < length s")
    case False
    then show ?thesis by (intro exI [of _ "[]"] exI [of _ ok]) (simp add: convert_loop.simps)
  next
    case True
    obtain b c j where r: "read s i = (b, c, j)" by (cases "read s i") auto
    have j: "i \<le> j" "j < length s" and c: "b \<Longrightarrow> scalar (unat c) \<and> enc (unat c) = take (j + 1 - i) (drop i s)"
      using reads [OF assms True] by (auto simp: reads_def r)
    define n where "n = (if b then unat c else 0xFFFD)"
    have n: "scalar n" using c by (auto simp: n_def scalar_def)
    have w: "put (if b then c else 0xFFFD) out = out @ enc' n" using n by (auto simp: n_def put)
    have lt: "length s - (j + 1) < length s - i" using j by linarith
    obtain ns ok' where IH: "list_all scalar ns"
      "convert_loop (read s) put (int (length s)) (j + 1) (ok \<and> b) (out @ enc' n) = Some (ok', (out @ enc' n) @ concat (map enc' ns))"
      "ok' \<longrightarrow> (ok \<and> b) \<and> drop (j + 1) s = concat (map enc ns)"
      using less [OF lt, of "ok \<and> b" "out @ enc' n"] by blast
    have "convert_loop (read s) put (int (length s)) i ok out = convert_loop (read s) put (int (length s)) (j + 1) (ok \<and> b) (out @ enc' n)"
      by (subst convert_loop.simps) (use True r w in \<open>auto split: if_splits\<close>)
    moreover have "drop i s = take (j + 1 - i) (drop i s) @ drop (j + 1) s" using j by (metis append_take_drop_id drop_drop le_add_diff_inverse2 trans_le_add1)
    then have "b \<Longrightarrow> drop i s = enc n @ drop (j + 1) s" using c by (simp add: n_def)
    ultimately show ?thesis using IH n by (intro exI [of _ "n # ns"] exI [of _ ok']) auto
  qed
qed

lemma convert_exact:
  assumes "short s"
  shows "convert_loop (read s) put (int (length s)) 0 True [] = Some (True, t)
    \<longleftrightarrow> (\<exists>ns. list_all scalar ns \<and> s = concat (map enc ns) \<and> t = concat (map enc' ns))"
proof
  assume l: "convert_loop (read s) put (int (length s)) 0 True [] = Some (True, t)"
  obtain ns ok' where "list_all scalar ns" "convert_loop (read s) put (int (length s)) 0 True [] = Some (ok', [] @ concat (map enc' ns))"
    "ok' \<longrightarrow> True \<and> drop 0 s = concat (map enc ns)" using loop_returns [OF assms, of 0 True "[]"] by blast
  then show "\<exists>ns. list_all scalar ns \<and> s = concat (map enc ns) \<and> t = concat (map enc' ns)" using l by (intro exI [of _ ns]) simp
next
  assume "\<exists>ns. list_all scalar ns \<and> s = concat (map enc ns) \<and> t = concat (map enc' ns)"
  then obtain ns where "list_all scalar ns" "drop 0 s = concat (map enc ns)" "t = concat (map enc' ns)" by auto
  then show "convert_loop (read s) put (int (length s)) 0 True [] = Some (True, t)" using loop_encoded [OF assms, of ns 0 True "[]"] by simp
qed

lemma convert_returns:
  assumes "short s"
  shows "\<exists>ok ns. list_all scalar ns \<and> convert_loop (read s) put (int (length s)) 0 True [] = Some (ok, concat (map enc' ns))"
  using loop_returns [OF assms, of 0 True "[]"] by auto

end

interpretation to16: transcoder read8 utf8 WriteUnicodeCharacter16 utf16
  by unfold_locales (auto simp: read8_reads read8_complete put_utf16 utf8_def)

interpretation to8: transcoder read16 utf16 WriteUnicodeCharacter8 utf8
  by unfold_locales (auto simp: read16_reads read16_complete put_utf8 utf16_def)

interpretation to32: transcoder read8 utf8 WriteUnicodeCharacter32 wide
  by unfold_locales (auto simp: WriteUnicodeCharacter32_def wide_def)

interpretation from32: transcoder read32 wide WriteUnicodeCharacter8 utf8
  by unfold_locales (auto simp: read32_reads read32_complete put_utf8 wide_def)

interpretation wide16: transcoder read32 wide WriteUnicodeCharacter16 utf16
  by unfold_locales (auto simp: put_utf16)

interpretation wide32: transcoder read16 utf16 WriteUnicodeCharacter32 wide
  by unfold_locales (auto simp: WriteUnicodeCharacter32_def wide_def)

lemma conversions_loop:
  "short s \<Longrightarrow> UTF8ToUTF16 s = convert_loop (read8 s) WriteUnicodeCharacter16 (int (length s)) 0 True []"
  "short t \<Longrightarrow> UTF16ToUTF8 t = convert_loop (read16 t) WriteUnicodeCharacter8 (int (length t)) 0 True []"
  "short s \<Longrightarrow> UTF8ToWide s = convert_loop (read8 s) WriteUnicodeCharacter32 (int (length s)) 0 True []"
  "short u \<Longrightarrow> WideToUTF8 u = convert_loop (read32 u) WriteUnicodeCharacter8 (int (length u)) 0 True []"
  "short t \<Longrightarrow> UTF16ToWide t = convert_loop (read16 t) WriteUnicodeCharacter32 (int (length t)) 0 True []"
  "short u \<Longrightarrow> WideToUTF16 u = convert_loop (read32 u) WriteUnicodeCharacter16 (int (length u)) 0 True []"
  by (simp_all add: WideToUTF16_def UTF16ToWide_def UTF8ToUTF16_def UTF16ToUTF8_def UTF8ToWide_def WideToUTF8_def src_len32_short read8_def read32_def read16_def [abs_def])

lemma length_utf16_utf8: "length (utf16 n) \<le> length (utf8 n)"
  by (simp add: utf16_def utf8_def)

lemma length_concat_utf: "length (concat (map utf16 ns)) \<le> length (concat (map utf8 ns))"
  by (induction ns) (simp_all add: add_mono length_utf16_utf8 del: length_concat)

lemma concat_wide: "concat (map wide ns) = map of_nat ns"
  by (induction ns) (simp_all add: wide_def)

lemma length_wide16: "length (concat (map wide ns)) \<le> length (concat (map utf16 ns))"
proof (induction ns)
  case (Cons n ns)
  moreover have "0 < length (utf16 n)" by (simp add: utf16_def)
  ultimately show ?case by (simp add: wide_def del: length_greater_0_conv)
qed simp

lemma length_wide: "length (concat (map wide ns)) \<le> length (concat (map utf8 ns))"
  using length_wide16 length_concat_utf by (rule order_trans)

lemma conversions_exact:
  "short s \<Longrightarrow> UTF8ToUTF16 s = Some (True, t) \<longleftrightarrow> (\<exists>ns. list_all scalar ns \<and> s = concat (map utf8 ns) \<and> t = concat (map utf16 ns))"
  "short t \<Longrightarrow> UTF16ToUTF8 t = Some (True, s) \<longleftrightarrow> (\<exists>ns. list_all scalar ns \<and> t = concat (map utf16 ns) \<and> s = concat (map utf8 ns))"
  "short s \<Longrightarrow> UTF8ToWide s = Some (True, w) \<longleftrightarrow> (\<exists>ns. list_all scalar ns \<and> s = concat (map utf8 ns) \<and> w = map of_nat ns)"
  "short w \<Longrightarrow> WideToUTF8 w = Some (True, s) \<longleftrightarrow> (\<exists>ns. list_all scalar ns \<and> w = map of_nat ns \<and> s = concat (map utf8 ns))"
  "short t \<Longrightarrow> UTF16ToWide t = Some (True, w) \<longleftrightarrow> (\<exists>ns. list_all scalar ns \<and> t = concat (map utf16 ns) \<and> w = map of_nat ns)"
  "short w \<Longrightarrow> WideToUTF16 w = Some (True, t) \<longleftrightarrow> (\<exists>ns. list_all scalar ns \<and> w = map of_nat ns \<and> t = concat (map utf16 ns))"
  unfolding conversions_loop concat_wide [symmetric]
  by (fact to16.convert_exact to8.convert_exact to32.convert_exact from32.convert_exact wide32.convert_exact wide16.convert_exact)+

subsection \<open>Properties\<close>

text \<open>C35. Each of the six conversions between UTF-8, UTF-16 and UTF-32, on an input of less than 2^31 units, succeeds exactly when its
  input is the encoding of a sequence of Unicode scalar values (so overlong forms, surrogates that are not paired, values above U+10FFFF, and
  cut or stray units are refused), and its result is then the other encoding of the same values. What UTF8ToUTF16 gives with success,
  UTF16ToUTF8 takes back to the original bytes; and the same holds of UTF8ToWide and WideToUTF8, and of UTF16ToWide and WideToUTF16.\<close>

theorem utf_conversions_exact:
  assumes "length s < 2 ^ 31" "length x < 2 ^ 31" "length y < 2 ^ 31"
  shows "(UTF8ToUTF16 s = Some (True, t) \<longleftrightarrow> (\<exists>ns. list_all scalar ns \<and> s = concat (map utf8 ns) \<and> t = concat (map utf16 ns)))
    \<and> (UTF8ToWide s = Some (True, w) \<longleftrightarrow> (\<exists>ns. list_all scalar ns \<and> s = concat (map utf8 ns) \<and> w = map of_nat ns))
    \<and> (UTF16ToUTF8 x = Some (True, u) \<longleftrightarrow> (\<exists>ns. list_all scalar ns \<and> x = concat (map utf16 ns) \<and> u = concat (map utf8 ns)))
    \<and> (UTF16ToWide x = Some (True, w) \<longleftrightarrow> (\<exists>ns. list_all scalar ns \<and> x = concat (map utf16 ns) \<and> w = map of_nat ns))
    \<and> (WideToUTF8 y = Some (True, u) \<longleftrightarrow> (\<exists>ns. list_all scalar ns \<and> y = map of_nat ns \<and> u = concat (map utf8 ns)))
    \<and> (WideToUTF16 y = Some (True, t) \<longleftrightarrow> (\<exists>ns. list_all scalar ns \<and> y = map of_nat ns \<and> t = concat (map utf16 ns)))
    \<and> (UTF8ToUTF16 s = Some (True, t) \<longrightarrow> UTF16ToUTF8 t = Some (True, s))
    \<and> (UTF8ToWide s = Some (True, w) \<longrightarrow> WideToUTF8 w = Some (True, s))
    \<and> (UTF16ToWide x = Some (True, w) \<longrightarrow> WideToUTF16 w = Some (True, x))"
proof -
  note from8 = conversions_exact(1,3) [OF assms(1)] and from16 = conversions_exact(2,5) [OF assms(2)]
    and from32 = conversions_exact(4,6) [OF assms(3)]
  have r1: "UTF16ToUTF8 t = Some (True, s)" if u: "UTF8ToUTF16 s = Some (True, t)"
  proof -
    have "short t" using u length_concat_utf assms(1) unfolding from8 by (auto intro: le_less_trans)
    from conversions_exact(2) [OF this] u show ?thesis unfolding from8 by blast
  qed
  have r2: "WideToUTF8 w = Some (True, s)" if u: "UTF8ToWide s = Some (True, w)"
  proof -
    have "short w" using u length_wide assms(1) unfolding from8 concat_wide [symmetric] by (auto intro: le_less_trans)
    from conversions_exact(4) [OF this] u show ?thesis unfolding from8 by blast
  qed
  have r3: "WideToUTF16 w = Some (True, x)" if u: "UTF16ToWide x = Some (True, w)"
  proof -
    have "short w" using u length_wide16 assms(2) unfolding from16 concat_wide [symmetric] by (auto intro: le_less_trans)
    from conversions_exact(6) [OF this] u show ?thesis unfolding from16 by blast
  qed
  show ?thesis by (intro conjI impI from8 from16 from32 r1 r2 r3)
qed

theorem utf_conversions_exact_witness:
  "UTF8ToUTF16 [0x41, 0xF0, 0x9F, 0x98, 0x80] = Some (True, [0x41, 0xD83D, 0xDE00])
   \<and> UTF16ToUTF8 [0x41, 0xD83D, 0xDE00] = Some (True, [0x41, 0xF0, 0x9F, 0x98, 0x80])
   \<and> WideToUTF8 [0x41, 0x1F600] = Some (True, [0x41, 0xF0, 0x9F, 0x98, 0x80])"
proof -
  let ?s = "[0x41, 0xF0, 0x9F, 0x98, 0x80] :: u8 list" and ?t = "[0x41, 0xD83D, 0xDE00] :: u16 list" and ?w = "[0x41, 0x1F600] :: u32 list"
  have "\<exists>ns. list_all scalar ns \<and> ?s = concat (map utf8 ns) \<and> ?t = concat (map utf16 ns)"
    "\<exists>ns. list_all scalar ns \<and> ?w = map of_nat ns \<and> ?s = concat (map utf8 ns)"
    by (rule exI [of _ "[0x41, 0x1F600]"], simp add: scalar_def utf8_def utf16_def)+
  then show ?thesis using utf_conversions_exact [of ?s ?t ?w ?t "[]" ?s] by simp
qed

text \<open>C36. Every conversion returns, whatever the input (of less than 2^31 units), and its output is always well-formed text: the
  encoding of a sequence of scalar values, where the parts of the input that are not encode U+FFFD.\<close>

theorem utf_conversions_return:
  assumes "length s < 2 ^ 31" "length t < 2 ^ 31" "length w < 2 ^ 31"
  shows "(\<exists>ok ns. list_all scalar ns \<and> UTF8ToUTF16 s = Some (ok, concat (map utf16 ns)))
    \<and> (\<exists>ok ns. list_all scalar ns \<and> UTF16ToUTF8 t = Some (ok, concat (map utf8 ns)))
    \<and> (\<exists>ok ns. list_all scalar ns \<and> WideToUTF8 w = Some (ok, concat (map utf8 ns)))
    \<and> (\<exists>ok ns. list_all scalar ns \<and> WideToUTF16 w = Some (ok, concat (map utf16 ns)))
    \<and> (\<exists>ok ns. list_all scalar ns \<and> UTF8ToWide s = Some (ok, map of_nat ns))
    \<and> (\<exists>ok ns. list_all scalar ns \<and> UTF16ToWide t = Some (ok, map of_nat ns))"
  unfolding conversions_loop(1,3) [OF assms(1)] conversions_loop(2,5) [OF assms(2)] conversions_loop(4,6) [OF assms(3)] concat_wide [symmetric]
  by (intro conjI to16.convert_returns to32.convert_returns to8.convert_returns wide32.convert_returns from32.convert_returns wide16.convert_returns assms)

theorem utf_conversions_return_witness:
  "\<exists>ok ns. list_all scalar ns \<and> UTF8ToUTF16 [0xC0, 0x80, 0xED, 0xA0] = Some (ok, concat (map utf16 ns))"
  using utf_conversions_return [of "[0xC0, 0x80, 0xED, 0xA0]" "[]" "[]"] by simp
end
