(* ===== verification/Url_Canon_Etc.thy ===== *)
theory Url_Canon_Etc
  imports Url_Canon_Path Utf
begin

text \<open>
  Canonical schemes, user information, ports, queries and fragments: \<^verbatim>\<open>src/uri/url_canon_etc.cpp\<close>, \<^verbatim>\<open>src/uri/url_canon_query.cpp\<close> and
  the helpers of \<^verbatim>\<open>url_canon_internal\<close> that escape text, for 8-bit text.

  The functions append to the output and return the component of what they appended. The loops run over indices of the source;
  \<open>CBU8_NEXT_rest\<close> shows that reading a character depends only on the text between the index and the end of the component, so
  that the proofs are about that text. The converter of a query to another character set is not part of this code: it is an
  argument, a function from UTF-16 text to bytes.
\<close>

subsection \<open>Escaping text\<close>


definition kUnicodeReplacementCharacter :: u32 where "kUnicodeReplacementCharacter = 0xfffd"

text \<open>The success, the code point and the index of the last byte that was consumed.\<close>

definition ReadUTFChar :: "buffer \<Rightarrow> nat \<Rightarrow> nat \<Rightarrow> bool \<times> u32 \<times> nat" where
  "ReadUTFChar str b len =
     (let (ok, code_point, j) = ReadUnicodeCharacter8 str (int len) b in
      if \<not> ok \<or> \<not> IsValidCharacter code_point then (False, kUnicodeReplacementCharacter, j) else (True, code_point, j))"

definition DoAppendUTF8 :: "(u8 \<Rightarrow> 'o \<Rightarrow> 'o) \<Rightarrow> u32 \<Rightarrow> 'o \<Rightarrow> 'o" where
  "DoAppendUTF8 app char_value out =
     (if char_value \<le> 0x7f then app (ucast char_value) out
      else if char_value \<le> 0x7ff then
        app (ucast (0x80 OR (char_value AND 0x3f))) (app (ucast (0xC0 OR drop_bit 6 char_value)) out)
      else if char_value \<le> 0xffff then
        app (ucast (0x80 OR (char_value AND 0x3f))) (app (ucast (0x80 OR (drop_bit 6 char_value AND 0x3f)))
          (app (ucast (0xe0 OR drop_bit 12 char_value)) out))
      else if char_value \<le> 0x10FFFF then
        app (ucast (0x80 OR (char_value AND 0x3f))) (app (ucast (0x80 OR (drop_bit 6 char_value AND 0x3f)))
          (app (ucast (0x80 OR (drop_bit 12 char_value AND 0x3f))) (app (ucast (0xf0 OR drop_bit 18 char_value)) out)))
      else out)"

definition AppendUTF8EscapedValue :: "u32 \<Rightarrow> buffer \<Rightarrow> buffer" where
  "AppendUTF8EscapedValue = DoAppendUTF8 AppendEscapedChar"

definition AppendUTF8EscapedChar :: "buffer \<Rightarrow> nat \<Rightarrow> nat \<Rightarrow> buffer \<Rightarrow> bool \<times> buffer \<times> nat" where
  "AppendUTF8EscapedChar str b len out =
     (let (success, ch, j) = ReadUTFChar str b len in (success, AppendUTF8EscapedValue ch out, j))"

lemma CBU8_NEXT_index: "i < snd (CBU8_NEXT s i len)"
proof -
  have a: "next4 s pi len c st = Inl k \<Longrightarrow> pi \<le> k" "next4 s pi len c st = Inr (v, k) \<Longrightarrow> pi \<le> k"
    "next3 s pi len c st = Inl k \<Longrightarrow> pi \<le> k" "next3 s pi len c st = Inr (v, k) \<Longrightarrow> pi \<le> k"
    "next2 s pi c = Inl k \<Longrightarrow> pi \<le> k" "next2 s pi c = Inr (v, k) \<Longrightarrow> pi \<le> k" for pi c st k v
    by (auto simp: next4_def next3_def next2_def Let_def split: if_splits)
  have "pi \<le> snd (utf8_nextCharSafeBody s pi len c st)" for pi c st
    by (auto simp: utf8_nextCharSafeBody_def split: sum.splits dest: a)
  from this [of "i + 1"] show ?thesis by (auto simp: CBU8_NEXT_def Let_def Suc_le_eq)
qed

lemma ReadUTFChar_index: "ReadUTFChar str b len = (ok, c, j) \<Longrightarrow> b \<le> j"
  using CBU8_NEXT_index [of b str "int len"]
  by (auto simp: ReadUTFChar_def ReadUnicodeCharacter8_def Let_def split: prod.splits if_splits)

lemma AppendUTF8EscapedChar_index: "AppendUTF8EscapedChar str b len out = (ok, out', j) \<Longrightarrow> b \<le> j"
  using ReadUTFChar_index by (auto simp: AppendUTF8EscapedChar_def split: prod.splits)




function AppendInvalidNarrowString :: "buffer \<Rightarrow> nat \<Rightarrow> nat \<Rightarrow> buffer \<Rightarrow> buffer" where
  "AppendInvalidNarrowString spec i e out =
     (if i \<ge> e then out
      else
        let uch = spec ! i in
        if uch \<ge> 0x80 then
          let (_, out, j) = AppendUTF8EscapedChar spec i e out in AppendInvalidNarrowString spec (j + 1) e out
        else AppendInvalidNarrowString spec (i + 1) e (if uch \<le> 32 \<or> uch = 0x7f then AppendEscapedChar uch out else out @ [uch]))"
  by pat_completeness auto

termination
  by (relation "measure (\<lambda>(_, i, e, _). e - i)") (auto dest: AppendUTF8EscapedChar_index [OF sym])

declare AppendInvalidNarrowString.simps [simp del]

subsection \<open>Whitespace\<close>

definition IsRemovableURLWhitespace :: "u8 \<Rightarrow> bool" where
  "IsRemovableURLWhitespace ch \<longleftrightarrow> ch = 13 \<or> ch = 10 \<or> ch = 9"

text \<open>The result is the text and the flag for dangling markup, \<^const>\<open>None\<close> when the caller passes no flag.\<close>

fun remove_whitespace_loop :: "buffer \<Rightarrow> buffer \<Rightarrow> bool option \<Rightarrow> buffer \<times> bool option" where
  "remove_whitespace_loop [] out flag = (out, flag)"
| "remove_whitespace_loop (c # cs) out flag =
     (if \<not> IsRemovableURLWhitespace c
      then remove_whitespace_loop cs (out @ [c]) (if flag \<noteq> None \<and> c = 0x3C then Some True else flag)
      else remove_whitespace_loop cs out flag)"

definition DoRemoveURLWhitespace :: "buffer \<Rightarrow> bool option \<Rightarrow> buffer \<times> bool option" where
  "DoRemoveURLWhitespace input flag =
     (if \<not> list_ex IsRemovableURLWhitespace input then (input, flag)
      else if length input > 5 \<and> take 5 input = bytes ''data:'' then (input, flag)
      else remove_whitespace_loop input [] flag)"

subsection \<open>Schemes\<close>

definition kSchemeCanonical :: "u8 list" where
  "kSchemeCanonical = [
     0, 0, 0, 0, 0, 0, 0, 0, 0, 0, 0, 0, 0, 0, 0, 0,
     0, 0, 0, 0, 0, 0, 0, 0, 0, 0, 0, 0, 0, 0, 0, 0,
     0, 0, 0, 0, 0, 0, 0, 0, 0, 0, 0, 43, 0, 45, 46, 0,
     48, 49, 50, 51, 52, 53, 54, 55, 56, 57, 0, 0, 0, 0, 0, 0,
     0, 97, 98, 99, 100, 101, 102, 103, 104, 105, 106, 107, 108, 109, 110, 111,
     112, 113, 114, 115, 116, 117, 118, 119, 120, 121, 122, 0, 0, 0, 0, 0,
     0, 97, 98, 99, 100, 101, 102, 103, 104, 105, 106, 107, 108, 109, 110, 111,
     112, 113, 114, 115, 116, 117, 118, 119, 120, 121, 122, 0, 0, 0, 0, 0]"

definition IsSchemeFirstChar :: "u8 \<Rightarrow> bool" where
  "IsSchemeFirstChar c \<longleftrightarrow> c \<ge> 97 \<and> c \<le> 122 \<or> c \<ge> 65 \<and> c \<le> 90"

definition scheme_replacement :: "bool \<Rightarrow> u8 \<Rightarrow> u8" where
  "scheme_replacement first ch =
     (if ch < 0x80 then
        if first then if IsSchemeFirstChar ch then kSchemeCanonical ! unat ch else 0
        else kSchemeCanonical ! unat ch
      else 0)"

function scheme_loop :: "buffer \<Rightarrow> nat \<Rightarrow> nat \<Rightarrow> nat \<Rightarrow> bool \<Rightarrow> buffer \<Rightarrow> bool \<times> buffer" where
  "scheme_loop spec scheme_begin e i success out =
     (if i \<ge> e then (success, out)
      else
        let ch = spec ! i; replacement = scheme_replacement (i = scheme_begin) ch in
        if replacement \<noteq> 0 then scheme_loop spec scheme_begin e (i + 1) success (out @ [replacement])
        else if ch = 37 then scheme_loop spec scheme_begin e (i + 1) False (out @ [37])
        else
          let (_, out, j) = AppendUTF8EscapedChar spec i e out in scheme_loop spec scheme_begin e (j + 1) False out)"
  by pat_completeness auto

termination
  by (relation "measure (\<lambda>(_, _, e, i, _). e - i)") (auto dest: AppendUTF8EscapedChar_index [OF sym])

declare scheme_loop.simps [simp del]

definition CanonicalSchemeChar :: "u16 \<Rightarrow> u8" where
  "CanonicalSchemeChar ch = (if ch \<ge> 0x80 then 0 else kSchemeCanonical ! unat ch)"

definition DoScheme :: "buffer \<Rightarrow> Component \<Rightarrow> buffer \<Rightarrow> bool \<times> buffer \<times> Component" where
  "DoScheme spec scheme out =
     (if c_len scheme \<le> 0 then (False, out @ [58], Comp (int (length out)) 0)
      else
        let out_begin = length out;
            (success, out) = scheme_loop spec (nat (c_begin scheme)) (nat (c_end scheme)) (nat (c_begin scheme)) True out
        in (success, out @ [58], Comp (int out_begin) (int (length out) - int out_begin)))"

subsection \<open>User information and ports\<close>


definition WritePortInt :: "nat \<Rightarrow> int \<Rightarrow> buffer" where
  "WritePortInt output_len port = snd (itoa_s port [] output_len 10)"

definition DoPort :: "buffer \<Rightarrow> Component \<Rightarrow> int \<Rightarrow> buffer \<Rightarrow> bool \<times> buffer \<times> Component" where
  "DoPort spec port default_port_for_scheme out =
     (let port_num = DoParsePort spec port in
      if port_num = PORT_UNSPECIFIED \<or> port_num = default_port_for_scheme then (True, out, no_component)
      else
        let success = (port_num \<noteq> PORT_INVALID);
            out = out @ [58];
            p = int (length out);
            out = (if success then out @ takeWhile (\<lambda>c. c \<noteq> 0) (WritePortInt 6 port_num)
                   else AppendInvalidNarrowString spec (nat (c_begin port)) (nat (c_end port)) out)
        in (success, out, Comp p (int (length out) - p)))"

subsection \<open>Fragments\<close>





subsection \<open>Queries\<close>









subsection \<open>Reading depends on the text of the component\<close>

definition shift :: "nat \<Rightarrow> nat + int \<times> nat \<Rightarrow> nat + int \<times> nat" where
  "shift i r = (case r of Inl k \<Rightarrow> Inl (i + k) | Inr (c, k) \<Rightarrow> Inr (c, i + k))"

lemma shift_simps [simp]: "shift i (Inl k) = Inl (i + k)" "shift i (Inr (c, k)) = Inr (c, i + k)"
  by (simp_all add: shift_def)

lemma at_rest: "e \<le> length s \<Longrightarrow> i + q + k < e \<Longrightarrow> rest_text s i e ! (q + k) = s ! (i + q + k)"
  using rest_text_nth [of e s i "q + k"] by (simp add: add.assoc)

lemma end_rest:
  assumes "i + q < e"
  shows "int (i + q) + 1 = int e \<longleftrightarrow> int q + 1 = int (e - i)" "int (i + q) + 2 = int e \<longleftrightarrow> int q + 2 = int (e - i)"
    "int (i + q) + 1 < int e \<longleftrightarrow> int q + 1 < int (e - i)" "int (i + q) = int e \<longleftrightarrow> int q = int (e - i)"
  using assms by linarith+

text \<open>How far the text goes after the index \<open>i + q\<close>.\<close>

lemma rest_cases:
  fixes i q e :: nat
  assumes "i + q < e"
  obtains "int (i + q) + 1 = int e"
  | "int (i + q) + 1 \<noteq> int e" "int (i + q) + 2 = int e" "i + q + 1 < e"
  | "int (i + q) + 1 \<noteq> int e" "int (i + q) + 2 \<noteq> int e" "i + q + 1 < e" "i + q + 2 < e"
  using assms by linarith

lemmas at_rests = at_rest [where k = 0, simplified] at_rest [where k = 1, simplified] at_rest [where k = 2, simplified]

lemma next_rest:
  assumes "e \<le> length s" "i + q < e"
  shows "next4 s (i + q) (int e) c st = shift i (next4 (rest_text s i e) q (int (e - i)) c st)"
    and "next3 s (i + q) (int e) c st = shift i (next3 (rest_text s i e) q (int (e - i)) c st)"
    and "next2 s (i + q) c = shift i (next2 (rest_text s i e) q c)"
  by (rule rest_cases [OF assms(2)];
      use assms in \<open>simp add: next4_def next3_def next2_def Let_def at_rests flip: end_rest\<close>)+

lemma body_rest:
  assumes "e \<le> length s" "i + q \<le> e"
  shows "utf8_nextCharSafeBody s (i + q) (int e) c st =
    (let (v, k) = utf8_nextCharSafeBody (rest_text s i e) q (int (e - i)) c st in (v, i + k))"
proof (cases "i + q = e")
  case True
  then show ?thesis by (simp add: utf8_nextCharSafeBody_def)
next
  case False
  then have q: "i + q < e" using assms by simp
  define r where "r = (if c > 0xf4 then Inl q else if c \<ge> 0xf0 then next4 (rest_text s i e) q (int (e - i)) c st
    else if c \<ge> 0xe0 then next3 (rest_text s i e) q (int (e - i)) c st else if c \<ge> 0xc2 then next2 (rest_text s i e) q c else Inl q)"
  have "utf8_nextCharSafeBody s (i + q) (int e) c st = (case shift i r of Inr r \<Rightarrow> r | Inl k \<Rightarrow> (errorValue (k - (i + q)) st, k))"
    using q next_rest [OF assms(1) q] by (simp add: utf8_nextCharSafeBody_def r_def)
  moreover have "int q \<noteq> int (e - i)" using q by linarith
  then have "utf8_nextCharSafeBody (rest_text s i e) q (int (e - i)) c st = (case r of Inr r \<Rightarrow> r | Inl k \<Rightarrow> (errorValue (k - q) st, k))"
    by (simp add: utf8_nextCharSafeBody_def r_def)
  ultimately show ?thesis by (cases r) (auto simp: Let_def)
qed

lemma CBU8_NEXT_rest:
  assumes "e \<le> length s" "i < e"
  shows "CBU8_NEXT s i (int e) = (let (v, k) = CBU8_NEXT (rest_text s i e) 0 (int (e - i)) in (v, i + k))"
proof -
  have b: "utf8_nextCharSafeBody s (i + 1) (int e) c st =
    (let (v, k) = utf8_nextCharSafeBody (rest_text s i e) 1 (int (e - i)) c st in (v, i + k))" for c st
    using body_rest [of e s i 1] assms by simp
  have l: "int (i + 1) + 1 < int e \<longleftrightarrow> int 1 + 1 < int (e - i)" "int (i + 1) = int e \<longleftrightarrow> int 1 = int (e - i)" using assms by linarith+
  consider "i + 1 = e" | "i + 2 = e" | "i + 2 < e" using assms by linarith
  then show ?thesis
  proof cases
    case 1
    then show ?thesis using assms at_rests(1) [of e s i 0] b l
      by (auto simp: CBU8_NEXT_def Let_def)
  next
    case 2
    then show ?thesis using assms at_rests(1) [of e s i 0] at_rest [of e s i 0 1] b l
      by (auto simp: CBU8_NEXT_def Let_def)
  next
    case 3
    then show ?thesis using assms at_rests(1) [of e s i 0] at_rest [of e s i 0 1] at_rest [of e s i 0 2] b l
      by (auto simp: CBU8_NEXT_def Let_def)
  qed
qed

lemma ReadUTFChar_rest:
  assumes "e \<le> length s" "i < e"
  shows "ReadUTFChar s i e = (let (ok, c, j) = ReadUTFChar (rest_text s i e) 0 (e - i) in (ok, c, i + j))"
  using CBU8_NEXT_rest [OF assms] CBU8_NEXT_index [of 0 "rest_text s i e" "int (e - i)"]
  by (auto simp: ReadUTFChar_def ReadUnicodeCharacter8_def Let_def split: prod.splits)

subsection \<open>Canonical text\<close>

abbreviation escape :: "u8 \<Rightarrow> buffer" where
  "escape c \<equiv> AppendEscapedChar c []"

lemma AppendEscapedChar_escape: "AppendEscapedChar c out = out @ escape c"
  by (simp add: AppendEscapedChar_def)

lemma fold_escape: "fold AppendEscapedChar bs out = out @ concat (map escape bs)"
proof (induction bs arbitrary: out)
  case (Cons b bs)
  then show ?case using AppendEscapedChar_escape [of b out] by simp
qed simp

lemma DoAppendUTF8_fold:
  assumes "scalar (unat v)"
  shows "DoAppendUTF8 app v out = fold app (utf8 (unat v)) out"
proof -
  have "v \<le> 0x10FFFF" using assms by (auto simp: scalar_def word_le_nat_alt)
  then have "DoAppendUTF8 app v out = fold app (CBU8_APPEND_UNSAFE v) out"
    by (simp add: DoAppendUTF8_def CBU8_APPEND_UNSAFE_def or.commute)
  then show ?thesis unfolding append_utf8 [OF assms] .
qed

lemma AppendUTF8EscapedValue_escape:
  "scalar (unat v) \<Longrightarrow> AppendUTF8EscapedValue v out = out @ concat (map escape (utf8 (unat v)))"
  by (simp add: AppendUTF8EscapedValue_def DoAppendUTF8_fold fold_escape)

lemma ReadUTFChar_scalar: "ReadUTFChar str i len = (ok, c, j) \<Longrightarrow> scalar (unat c)"
  by (auto simp: ReadUTFChar_def ReadUnicodeCharacter8_def Let_def valid_iff kUnicodeReplacementCharacter_def scalar_def split: prod.splits if_splits)

text \<open>The text that is appended for the text of a component: \<open>f\<close> says what is written for an ASCII character.\<close>

function canon_text :: "(u8 \<Rightarrow> buffer) \<Rightarrow> buffer \<Rightarrow> buffer" where
  "canon_text f w =
     (if w = [] then []
      else if hd w \<ge> 0x80 then
        let (_, c, j) = ReadUTFChar w 0 (length w) in AppendUTF8EscapedValue c [] @ canon_text f (drop (j + 1) w)
      else f (hd w) @ canon_text f (tl w))"
  by pat_completeness auto

termination
  by (relation "measure (length \<circ> snd)") auto

declare canon_text.simps [simp del]

lemma canon_text_Nil [simp]: "canon_text f [] = []"
  by (simp add: canon_text.simps)

lemma canon_text_ascii: "c < 0x80 \<Longrightarrow> canon_text f (c # cs) = f c @ canon_text f cs"
  by (subst canon_text.simps) auto

lemma rest_text_Cons: "e \<le> length s \<Longrightarrow> i < e \<Longrightarrow> rest_text s i e = s ! i # rest_text s (i + 1) e"
  by (simp add: rest_text_def Cons_nth_drop_Suc [symmetric] Suc_diff_Suc [symmetric])

lemma canon_text_rest:
  assumes "e \<le> length s" "i < e" "0x80 \<le> s ! i" "ReadUTFChar s i e = (ok, c, j)"
  shows "canon_text f (rest_text s i e) = AppendUTF8EscapedValue c [] @ canon_text f (rest_text s (j + 1) e)"
proof -
  obtain ok' c' k where r: "ReadUTFChar (rest_text s i e) 0 (e - i) = (ok', c', k)" by (cases "ReadUTFChar (rest_text s i e) 0 (e - i)") auto
  then have j: "c' = c" "j = i + k" using ReadUTFChar_rest [OF assms(1,2)] assms(4) by auto
  have "drop (k + 1) (rest_text s i e) = rest_text s (j + 1) e" unfolding drop_rest_text j by (simp add: add.assoc)
  moreover have "length (rest_text s i e) = e - i" by (rule length_rest_text [OF assms(1)])
  moreover have "rest_text s i e \<noteq> []" "hd (rest_text s i e) = s ! i" using rest_text_Cons [OF assms(1,2)] by simp_all
  ultimately show ?thesis using assms(3) r j by (subst canon_text.simps) simp
qed

text \<open>The loops that append text differ only in what they do with an ASCII character.\<close>

locale text_loop =
  fixes run :: "buffer \<Rightarrow> nat \<Rightarrow> nat \<Rightarrow> buffer \<Rightarrow> buffer" and f :: "u8 \<Rightarrow> buffer"
  assumes stop: "e \<le> i \<Longrightarrow> run s i e out = out"
    and ascii: "i < e \<Longrightarrow> s ! i < 0x80 \<Longrightarrow> run s i e out = run s (i + 1) e (out @ f (s ! i))"
    and wide: "i < e \<Longrightarrow> 0x80 \<le> s ! i \<Longrightarrow> ReadUTFChar s i e = (ok, c, j) \<Longrightarrow> run s i e out = run s (j + 1) e (AppendUTF8EscapedValue c out)"
begin

lemma run_text: "e \<le> length s \<Longrightarrow> run s i e out = out @ canon_text f (rest_text s i e)"
proof (induction "e - i" arbitrary: i out rule: less_induct)
  case less
  show ?case
  proof (cases "i < e")
    case False
    then show ?thesis using stop [of e i s out] by (simp add: rest_text_def)
  next
    case i: True
    show ?thesis
    proof (cases "s ! i < 0x80")
      case True
      have "run s (i + 1) e (out @ f (s ! i)) = (out @ f (s ! i)) @ canon_text f (rest_text s (i + 1) e)"
        using less i by (intro less) auto
      then show ?thesis using ascii [OF i True] rest_text_Cons [OF less.prems i] canon_text_ascii [OF True] by simp
    next
      case False
      then have wide': "0x80 \<le> s ! i" by simp
      obtain ok c j where r: "ReadUTFChar s i e = (ok, c, j)" by (cases "ReadUTFChar s i e") auto
      have "i \<le> j" by (rule ReadUTFChar_index [OF r])
      then have "run s (j + 1) e (AppendUTF8EscapedValue c out) = AppendUTF8EscapedValue c out @ canon_text f (rest_text s (j + 1) e)"
        using less i by (intro less) auto
      moreover have "AppendUTF8EscapedValue c out = out @ AppendUTF8EscapedValue c []"
        using AppendUTF8EscapedValue_escape ReadUTFChar_scalar [OF r] by simp
      ultimately show ?thesis using wide [OF i wide' r, of out] canon_text_rest [OF less.prems i wide' r] by simp
    qed
  qed
qed

end


definition narrow_char :: "u8 \<Rightarrow> buffer" where
  "narrow_char c = (if c \<le> 32 \<or> c = 0x7f then escape c else [c])"



interpretation narrow: text_loop AppendInvalidNarrowString narrow_char
proof
  fix s :: buffer and i e j :: nat and out :: buffer and ok c
  show "e \<le> i \<Longrightarrow> AppendInvalidNarrowString s i e out = out" by (simp add: AppendInvalidNarrowString.simps)
  show "i < e \<Longrightarrow> s ! i < 0x80 \<Longrightarrow> AppendInvalidNarrowString s i e out = AppendInvalidNarrowString s (i + 1) e (out @ narrow_char (s ! i))"
    by (subst AppendInvalidNarrowString.simps) (auto simp: narrow_char_def AppendEscapedChar_def Let_def)
  show "i < e \<Longrightarrow> 0x80 \<le> s ! i \<Longrightarrow> ReadUTFChar s i e = (ok, c, j) \<Longrightarrow>
      AppendInvalidNarrowString s i e out = AppendInvalidNarrowString s (j + 1) e (AppendUTF8EscapedValue c out)"
    by (subst AppendInvalidNarrowString.simps) (auto simp: AppendUTF8EscapedChar_def Let_def)
qed


subsection \<open>Whitespace is removed\<close>

lemma remove_whitespace_filter:
  "remove_whitespace_loop w out flag =
     (out @ filter (\<lambda>c. \<not> IsRemovableURLWhitespace c) w, if flag \<noteq> None \<and> 0x3C \<in> set w then Some True else flag)"
  by (induction w arbitrary: out flag) (auto simp: IsRemovableURLWhitespace_def)

lemma RemoveURLWhitespace_text:
  "fst (DoRemoveURLWhitespace w flag) =
     (if length w > 5 \<and> take 5 w = bytes ''data:'' then w else filter (\<lambda>c. \<not> IsRemovableURLWhitespace c) w)"
  by (auto simp: DoRemoveURLWhitespace_def remove_whitespace_filter list_ex_iff filter_id_conv)

lemma escape_chars: "set (escape c) \<subseteq> insert 37 {d. IsHexChar d}"
proof -
  obtain a b where "escape c = [37, a, b]" by (simp add: AppendEscapedChar_def)
  then show ?thesis using escape_digits [of c "[]" a b] by simp
qed
















subsection \<open>The text of a component\<close>

definition in_range :: "buffer \<Rightarrow> Component \<Rightarrow> bool" where
  "in_range s c \<longleftrightarrow> 0 \<le> c_begin c \<and> c_end c \<le> int (length s)"

lemma in_range_end: "in_range s c \<Longrightarrow> nat (c_end c) \<le> length s" "in_range s c \<Longrightarrow> 0 < c_len c \<Longrightarrow> nat (c_begin c) + nat (c_len c) \<le> length s"
  unfolding in_range_def c_end_def by linarith+

lemma comp_text_take: "comp_text s c = take (nat (c_len c)) (drop (nat (c_begin c)) s)"
  by (simp add: comp_text_def window_def c_end_def)

lemma comp_text_rest: "in_range s c \<Longrightarrow> rest_text s (nat (c_begin c)) (nat (c_end c)) = comp_text s c"
proof -
  assume "in_range s c"
  then have "nat (c_end c) - nat (c_begin c) = nat (c_len c)" unfolding in_range_def c_end_def by linarith
  then show ?thesis by (simp add: comp_text_take rest_text_def)
qed

lemma comp_text_empty [simp]: "c_len c \<le> 0 \<Longrightarrow> comp_text s c = []"
  by (simp add: comp_text_take)









lemma byte_all: "list_all (\<lambda>n. P (of_nat n)) [0..<256] \<Longrightarrow> P (c :: u8)"
proof -
  assume "list_all (\<lambda>n. P (of_nat n)) [0..<256]"
  then have "P (of_nat (unat c))" using unat_bound [of c] unfolding list_all_iff set_upt by fastforce
  then show ?thesis by simp
qed













subsection \<open>Schemes\<close>

definition scheme_char :: "u8 \<Rightarrow> bool" where
  "scheme_char c \<longleftrightarrow> IsSchemeFirstChar c \<or> 48 \<le> c \<and> c \<le> 57 \<or> c \<in> set [43, 45, 46]"

definition lower_char :: "u8 \<Rightarrow> u8" where
  "lower_char c = (if 65 \<le> c \<and> c \<le> 90 then c + 32 else c)"

definition scheme_ok :: "bool \<Rightarrow> buffer \<Rightarrow> bool" where
  "scheme_ok first w \<longleftrightarrow> list_all scheme_char w \<and> (first \<and> w \<noteq> [] \<longrightarrow> IsSchemeFirstChar (hd w))"

lemma scheme_table:
  "scheme_replacement first c = (if scheme_char c \<and> (first \<longrightarrow> IsSchemeFirstChar c) then lower_char c else 0)"
  "scheme_char c \<Longrightarrow> lower_char c \<noteq> 0 \<and> scheme_char (lower_char c)" "IsHexChar c \<Longrightarrow> scheme_char c" "\<not> scheme_char 37"
proof -
  have "list_all (\<lambda>n. scheme_replacement False (of_nat n) = (if scheme_char (of_nat n) then lower_char (of_nat n) else 0)) [0..<256]"
    by code_simp
  then have a: "scheme_replacement False c = (if scheme_char c then lower_char c else 0)" for c by (rule byte_all)
  have b: "scheme_replacement True c = (if IsSchemeFirstChar c then scheme_replacement False c else 0)" by (simp add: scheme_replacement_def)
  have "IsSchemeFirstChar c \<Longrightarrow> scheme_char c" by (simp add: scheme_char_def)
  then show "scheme_replacement first c = (if scheme_char c \<and> (first \<longrightarrow> IsSchemeFirstChar c) then lower_char c else 0)"
    using a b by (cases first) auto
  have "list_all (\<lambda>n. scheme_char (of_nat n) \<longrightarrow> lower_char (of_nat n) \<noteq> 0 \<and> scheme_char (lower_char (of_nat n))) [0..<256]" by code_simp
  then show "scheme_char c \<Longrightarrow> lower_char c \<noteq> 0 \<and> scheme_char (lower_char c)"
    using byte_all [of "\<lambda>c. scheme_char c \<longrightarrow> lower_char c \<noteq> 0 \<and> scheme_char (lower_char c)"] by blast
  have "list_all (\<lambda>n. IsHexChar (of_nat n) \<longrightarrow> scheme_char (of_nat n)) [0..<256]" by code_simp
  then show "IsHexChar c \<Longrightarrow> scheme_char c" using byte_all [of "\<lambda>c. IsHexChar c \<longrightarrow> scheme_char c"] by blast
  show "\<not> scheme_char 37" by (simp add: scheme_char_def IsSchemeFirstChar_def)
qed

abbreviation scheme_out :: "u8 \<Rightarrow> bool" where
  "scheme_out c \<equiv> scheme_char c \<or> c = 37"

lemma escaped_scheme_out: "ReadUTFChar s i e = (ok, c, j) \<Longrightarrow> AppendUTF8EscapedValue c out = out @ t \<Longrightarrow> list_all scheme_out t"
  using AppendUTF8EscapedValue_escape [of c out] ReadUTFChar_scalar [of s i e ok c j] escape_chars scheme_table(3)
  by (fastforce simp: list_all_iff)

lemma scheme_loop_text:
  assumes "e \<le> length s"
  shows "b \<le> i \<Longrightarrow> \<exists>t. scheme_loop s b e i ok out = (ok \<and> scheme_ok (i = b) (rest_text s i e), out @ t) \<and> list_all scheme_out t
    \<and> (scheme_ok (i = b) (rest_text s i e) \<longrightarrow> t = map lower_char (rest_text s i e))"
proof (induction "e - i" arbitrary: i ok out rule: less_induct)
  case less
  show ?case
  proof (cases "i < e")
    case False
    then show ?thesis by (intro exI [of _ "[]"]) (simp add: scheme_loop.simps rest_text_def scheme_ok_def)
  next
    case i: True
    let ?c = "s ! i" and ?r = "rest_text s (i + 1) e"
    have w: "rest_text s i e = ?c # ?r" by (rule rest_text_Cons [OF assms i])
    have ok: "scheme_ok (i = b) (rest_text s i e) \<longleftrightarrow> scheme_char ?c \<and> (i = b \<longrightarrow> IsSchemeFirstChar ?c) \<and> scheme_ok False ?r"
      by (auto simp: scheme_ok_def w)
    show ?thesis
    proof (cases "scheme_char ?c \<and> (i = b \<longrightarrow> IsSchemeFirstChar ?c)")
      case True
      let ?out = "out @ [lower_char ?c]"
      obtain t where t: "scheme_loop s b e (i + 1) ok ?out = (ok \<and> scheme_ok False ?r, ?out @ t)" "list_all scheme_out t"
        "scheme_ok False ?r \<longrightarrow> t = map lower_char ?r"
        using less.hyps [of "i + 1" ok ?out, OF diff_less_mono2 [OF less_add_one i]] less.prems by auto
      have "scheme_loop s b e i ok out = scheme_loop s b e (i + 1) ok ?out"
        using i True scheme_table(1,2) by (subst scheme_loop.simps) (simp add: Let_def)
      then show ?thesis using t True ok w scheme_table(2) [of ?c] by (intro exI [of _ "lower_char ?c # t"]) auto
    next
      case False
      have "\<exists>j u. i \<le> j \<and> list_all scheme_out u \<and> scheme_loop s b e i ok out = scheme_loop s b e (j + 1) False (out @ u)"
      proof (cases "?c = 37")
        case True
        then show ?thesis using i False scheme_table(1) [of "i = b" ?c] by (intro exI [of _ i] exI [of _ "[37]"]) (subst scheme_loop.simps, auto)
      next
        case nc: False
        obtain k c j where r: "ReadUTFChar s i e = (k, c, j)" by (cases "ReadUTFChar s i e") auto
        have a: "AppendUTF8EscapedValue c out = out @ concat (map escape (utf8 (unat c)))"
          by (rule AppendUTF8EscapedValue_escape [OF ReadUTFChar_scalar [OF r]])
        have "scheme_loop s b e i ok out = scheme_loop s b e (j + 1) False (out @ concat (map escape (utf8 (unat c))))"
          using i False nc scheme_table(1) [of "i = b" ?c] r a by (subst scheme_loop.simps) (auto simp: AppendUTF8EscapedChar_def)
        then show ?thesis using ReadUTFChar_index [OF r] escaped_scheme_out [OF r a] by blast
      qed
      then obtain j u where j: "i \<le> j" "list_all scheme_out u" "scheme_loop s b e i ok out = scheme_loop s b e (j + 1) False (out @ u)" by blast
      obtain t where "scheme_loop s b e (j + 1) False (out @ u) = (False, (out @ u) @ t)" "list_all scheme_out t"
        using less.hyps [of "j + 1" False "out @ u", OF diff_less_mono2 [OF _ i]] j(1) less.prems by auto
      then show ?thesis using j False ok by (intro exI [of _ "u @ t"]) auto
    qed
  qed
qed

subsection \<open>Ports\<close>

lemma decimal_port: "list_all IsPortDigit (radix_text 10 n) \<and> atoi (radix_text 10 n) = int n"
proof (induction n rule: less_induct)
  case (less n)
  have d: "IsPortDigit (digit_text k) \<and> uint (digit_text k) = 48 + int k" if "k < 10" for k
  proof -
    have "list_all (\<lambda>k. IsPortDigit (digit_text k) \<and> uint (digit_text k) = 48 + int k) [0..<10]" by code_simp
    then show ?thesis using that by (simp add: list_all_iff)
  qed
  show ?case
  proof (cases "n < 10")
    case True
    then show ?thesis using d [of n] by (subst (1 2) radix_text.simps) (simp add: atoi_def)
  next
    case False
    then have "list_all IsPortDigit (radix_text 10 (n div 10)) \<and> atoi (radix_text 10 (n div 10)) = int (n div 10)" by (intro less) simp
    moreover have "radix_text 10 n = radix_text 10 (n div 10) @ [digit_text (n mod 10)]" using False by (subst radix_text.simps) simp
    moreover have "int n = 10 * int (n div 10) + int (n mod 10)" by (simp add: zdiv_int zmod_int)
    ultimately show ?thesis using d [of "n mod 10"] by (simp add: atoi_def)
  qed
qed

lemma WritePortInt_text: "n \<le> 65535 \<Longrightarrow> takeWhile (\<lambda>c. c \<noteq> 0) (WritePortInt 6 (int n)) = radix_text 10 n"
proof -
  assume n: "n \<le> 65535"
  have "length (radix_text 10 n) \<le> 5" using radix_text_length [of 10 n 4] n by simp
  then have "WritePortInt 6 (int n) = radix_text 10 n" by (simp add: WritePortInt_def itoa_s_def snprintf_int_def Let_def)
  moreover have "takeWhile (\<lambda>c. c \<noteq> 0) (radix_text 10 n) = radix_text 10 n"
    using decimal_port [of n] by (auto simp: takeWhile_eq_all_conv list_all_iff IsPortDigit_def)
  ultimately show ?thesis by simp
qed

subsection \<open>Properties\<close>













text \<open>C39. A scheme is accepted exactly when it has the form of RFC 3986, a letter followed by letters, digits, plus signs, minus
  signs and dots, and its canonical form is then its text in lower case with a colon. Of every other text something is shown that
  consists of such characters and percent signs only.\<close>

theorem canonical_scheme_exact:
  assumes "in_range s c"
  defines "w \<equiv> comp_text s c"
  shows "\<exists>t. DoScheme s c out = (w \<noteq> [] \<and> scheme_ok True w, out @ t @ [58], Comp (int (length out)) (int (length t)))
    \<and> list_all scheme_out t \<and> (scheme_ok True w \<longrightarrow> t = map lower_char w)"
proof (cases "c_len c \<le> 0")
  case True
  then show ?thesis by (intro exI [of _ "[]"]) (simp add: DoScheme_def w_def)
next
  case False
  let ?b = "nat (c_begin c)" and ?e = "nat (c_end c)"
  have w: "rest_text s ?b ?e = w" "w \<noteq> []"
    using comp_text_rest [OF assms(1)] False in_range_end(2) [OF assms(1)] by (auto simp: w_def comp_text_take)
  obtain t where "scheme_loop s ?b ?e ?b True out = (scheme_ok True w, out @ t)" "list_all scheme_out t" "scheme_ok True w \<longrightarrow> t = map lower_char w"
    using scheme_loop_text [OF in_range_end(1) [OF assms(1)], of ?b ?b True out] w(1) by auto
  then show ?thesis using False w by (intro exI [of _ t]) (simp add: DoScheme_def)
qed

theorem canonical_scheme_exact_witness:
  "fst (snd (DoScheme (bytes ''HtTp:x'') (Comp 0 4) [])) = bytes ''http:''"
proof -
  have "comp_text (bytes ''HtTp:x'') (Comp 0 4) = bytes ''HtTp''" by (simp add: comp_text_take)
  moreover have "scheme_ok True (bytes ''HtTp'')" by code_simp
  ultimately show ?thesis using canonical_scheme_exact [of "bytes ''HtTp:x''" "Comp 0 4" "[]"]
    by (auto simp: in_range_def c_end_def lower_char_def)
qed

text \<open>C40. A port whose digits have a value of at most 65535 is written as the decimal number without leading zeros, in at most five
  characters, or left out when it is the default of the scheme; what is written is read back as the same port, and is its own
  canonical form. Every other port is refused, unless a caller declares the invalid port to be the default.\<close>

theorem canonical_port_exact:
  assumes "0 \<le> b" "b < e" "e \<le> int (length s)"
  defines "valid \<equiv> list_all IsPortDigit (window s b e) \<and> atoi (window s b e) \<le> 65535" and "n \<equiv> atoi (window s b e)"
  shows "(valid \<and> n = d \<longrightarrow> DoPort s (MakeRange b e) d out = (True, out, no_component))
    \<and> (valid \<and> n \<noteq> d \<longrightarrow> (\<exists>t c. DoPort s (MakeRange b e) d out = (True, out @ 58 # t, c) \<and> t = radix_text 10 (nat n) \<and> length t \<le> 5
        \<and> DoParsePort (out @ 58 # t) c = n \<and> fst (snd (DoPort (out @ 58 # t) c d o2)) = o2 @ 58 # t))
    \<and> (\<not> valid \<and> d \<noteq> PORT_INVALID \<longrightarrow> \<not> fst (DoPort s (MakeRange b e) d out))"
proof (intro conjI impI)
  have p: "DoParsePort s (MakeRange b e) = (if valid then n else PORT_INVALID)"
    unfolding valid_def n_def by (rule ParsePort_exact [OF assms(1-3)])
  show "DoPort s (MakeRange b e) d out = (True, out, no_component)" if "valid \<and> n = d" using p that by (simp add: DoPort_def)
  show "\<not> fst (DoPort s (MakeRange b e) d out)" if "\<not> valid \<and> d \<noteq> PORT_INVALID" using p that by (simp add: DoPort_def Let_def)
  assume v: "valid \<and> n \<noteq> d"
  have "0 \<le> n" unfolding n_def using v by (intro atoi_nonneg) (simp add: valid_def)
  then obtain k where k: "n = int k" "k \<le> 65535" using v by (auto simp: valid_def n_def elim: nonneg_int_cases)
  define t where "t = radix_text 10 k"
  define c where "c = Comp (int (length out) + 1) (int (length t))"
  have t: "0 < length t" "length t \<le> 5" "list_all IsPortDigit t" "atoi t = int k"
    using radix_text_length [of 10 k 4] k(2) decimal_port [of k] by (simp_all add: t_def)
  have w: "takeWhile (\<lambda>c. c \<noteq> 0) (WritePortInt 6 (int k)) = t" unfolding t_def by (rule WritePortInt_text [OF k(2)])
  have one: "DoPort s (MakeRange b e) d out = (True, out @ 58 # t, c)"
    using p v k(1) w by (simp add: DoPort_def Let_def c_def)
  have c: "c = MakeRange (int (length out) + 1) (int (length out) + 1 + int (length t))" by (simp add: c_def MakeRange_def)
  have "window (out @ 58 # t) (int (length out) + 1) (int (length out) + 1 + int (length t)) = t" by (simp add: window_def nat_add_distrib)
  then have r: "DoParsePort (out @ 58 # t) c = int k"
    using ParsePort_exact [of "int (length out) + 1" "int (length out) + 1 + int (length t)" "out @ 58 # t"] t k(2) unfolding c by simp
  then have "fst (snd (DoPort (out @ 58 # t) c d o2)) = o2 @ 58 # t" using v k(1) w by (simp add: DoPort_def Let_def)
  then show "\<exists>t c. DoPort s (MakeRange b e) d out = (True, out @ 58 # t, c) \<and> t = radix_text 10 (nat n) \<and> length t \<le> 5
      \<and> DoParsePort (out @ 58 # t) c = n \<and> fst (snd (DoPort (out @ 58 # t) c d o2)) = o2 @ 58 # t"
    using one t(2) r k(1) by (intro exI [of _ t] exI [of _ c]) (simp add: t_def)
qed

theorem canonical_port_exact_witness:
  "DoPort (bytes ''h:0080'') (MakeRange 2 6) 80 [] = (True, [], no_component)"
proof -
  have "window (bytes ''h:0080'') 2 6 = [48, 48, 56, 48]" by (simp add: window_def)
  moreover have "IsPortDigit 48" "IsPortDigit 56" by (simp_all add: IsPortDigit_def)
  ultimately show ?thesis using canonical_port_exact [of 2 6 "bytes ''h:0080''" 80 "[]" "[]"] by (simp add: atoi_def)
qed

end
