(* ===== verification/Spec2Isabelle.thy ===== *)
theory Spec2Isabelle
  imports Coding Frames Text_Codecs Chunked Mime Md5 Sha1 Canon_Output Url_Canon_Resolve Url_Canon_Etc
begin

text \<open>
  A verification of the algorithmic core of the C++ library \<^verbatim>\<open>fasto-common\<close>.

  \<^bold>\<open>The program.\<close> The library is a collection of components for network programs. The parts with logic of their own are
  the HTTP/2 header compression and framing (\<^verbatim>\<open>src/http/http2.cpp\<close>, \<^verbatim>\<open>http2_huffman.cpp\<close>), HTTP/1 messages and the chunked
  transfer coding (\<^verbatim>\<open>src/http\<close>), the hash functions (\<^verbatim>\<open>src/hash\<close>), URLs (\<^verbatim>\<open>src/uri\<close>), IP addresses (\<^verbatim>\<open>src/net/ip_address.cpp\<close>),
  numbers, strings and Unicode text (\<^verbatim>\<open>src/*.cpp\<close>) and the size prefix of compressed data (\<^verbatim>\<open>src/compress/coding.cpp\<close>). The
  remaining parts call the operating system or other libraries.

  \<^bold>\<open>Conventions.\<close> Bytes and machine integers are words of their width, so that arithmetic wraps as in the code; a text is a list
  of bytes. Structures are records and enumerations datatypes, with the names of the code. A function of the code is one
  definition, and its loops are definitions of their own; indices and pointers into a buffer are positions in a list. An operation
  that can do what C++ leaves undefined, fail a \<^verbatim>\<open>CHECK\<close> or call \<^verbatim>\<open>NOTREACHED\<close> where that ends the process returns \<open>Inl\<close> of a
  \<open>fault\<close> (type \<open>exec\<close> of \<open>Prelude\<close>); errors that the code reports are values. Overloads for 16-bit characters that share a
  template with the 8-bit ones are not repeated.

  \<^bold>\<open>Theories.\<close>
  \<^item> \<open>Prelude\<close>: words, bits, faults and the lemmas the components share. \<open>Codec\<close>: a locale for encodings that are read back from
    a stream; the size prefix, HPACK integers and the strings of header blocks are interpretations.
  \<^item> \<open>Coding\<close> (\<^verbatim>\<open>compress/coding.cpp\<close>): the variable-length size prefix and its round trip.
  \<^item> \<open>Huffman_Tables\<close>, \<open>Huffman_Tree\<close>, \<open>Huffman\<close> (\<^verbatim>\<open>http2_huffman.cpp\<close>): the code table and the 4-bit transition table entry by
    entry; the second is proved to be the automaton of the first; encoder and decoder are inverse, and the decoder accepts only
    encodings.
  \<^item> \<open>Hpack_Integer\<close>, \<open>Ring_Buffer\<close>, \<open>Header_Static\<close>, \<open>Header_Map\<close>, \<open>Header_Table\<close>, \<open>Hpack_Deflate\<close>, \<open>Hpack_Inflate\<close> (\<^verbatim>\<open>http2.cpp\<close>,
    the first half): integers with a prefix, the ring buffer of entries as a refinement of a list, the static table and the token
    lookup, the hash map as an index, the dynamic table as a refinement of the one of RFC 7541, the encoder, which a decoder of
    the RFC reads back, and the state machine of the decoder with its faults.
  \<^item> \<open>Frames\<close> (\<^verbatim>\<open>http2.cpp\<close>, the second half): frame headers and bodies, \<^verbatim>\<open>parse_frames\<close>, its round trip, termination and faults.
  \<^item> \<open>Numbers\<close> (\<^verbatim>\<open>string_number_conversions.cpp\<close>), \<open>Parse_Number\<close> (\<^verbatim>\<open>parse_number.cpp\<close>), \<open>Text_Codecs\<close> (\<^verbatim>\<open>convert2string.cpp\<close>): integers
    of every width to and from text with exact error results, and the hexadecimal codecs.
  \<^item> \<open>String_Piece\<close>, \<open>Strings\<close> (\<^verbatim>\<open>string_piece.cpp\<close>, \<^verbatim>\<open>string_util.cpp\<close>, \<^verbatim>\<open>string_split.cpp\<close>): searches, trimming, splitting, joining.
  \<^item> \<open>Chunked\<close>, \<open>Http\<close>, \<open>Mime\<close> (\<^verbatim>\<open>src/http\<close>): the chunked decoder, which rewrites its buffer in place, as a refinement of a machine
    on single bytes that has no answer for bare carriage returns and overlong lines; requests and responses of HTTP/1; the table of file types and its binary search.
  \<^item> \<open>Block_Hash\<close>, \<open>Md5\<close>, \<open>Sha1\<close>, \<open>Sha256\<close> (\<^verbatim>\<open>src/hash\<close>): a locale for hash functions that work on blocks, interpreted by the three
    functions, and their equality with the functions of the standards however the input is cut.
  \<^item> \<open>Url_Parse\<close> (\<^verbatim>\<open>uri/url_parse*.cpp\<close>): the parsers, which compute offsets, refine a parser on lists; parse after print for URLs with a host.
  \<^item> \<open>Ip_Literal\<close>, \<open>Ipv6_Literal\<close>, \<open>Ip_Address\<close> (\<^verbatim>\<open>uri/url_canon_ip.cpp\<close>, \<^verbatim>\<open>net/ip_address.cpp\<close>): literals read and printed, the
    address type, prefixes and ranges.
  \<^item> \<open>Canon_Output\<close> (\<^verbatim>\<open>uri/url_canon.h\<close>): the growing output buffer of the canonicalizers refines a list. \<open>Url_Canon_Path\<close>,
    \<open>Url_Canon_Resolve\<close> (\<^verbatim>\<open>uri/url_canon_path.cpp\<close>): canonical paths never leave their root, and are the paths RFC 3986 gives.
  \<^item> \<open>Utf\<close> (\<^verbatim>\<open>icu_utf.cpp\<close>, \<^verbatim>\<open>utf_string_conversion_utils.cpp\<close>, \<^verbatim>\<open>utf_string_conversions.cpp\<close>): a locale for transcoders from one encoding
    to another, interpreted by the six conversions; they accept exactly well-formed text and always return well-formed text.
  \<^item> \<open>Url_Canon_Etc\<close> (\<^verbatim>\<open>uri/url_canon_etc.cpp\<close>, \<^verbatim>\<open>url_canon_query.cpp\<close>): canonical schemes, user information, ports, queries and fragments;
    a locale for the loops that append text, interpreted by three of them; the results are stable and, for well-formed text, the
    escape of each byte after noncharacters are replaced.

  \<^bold>\<open>Loops and bounds.\<close> No definition has fuel. Loops over an index are total functions with a measure. The loops that could run
  forever (the search for a size of the ring buffer, the chains of the hash map, \<^verbatim>\<open>parse_frames\<close>, \<^verbatim>\<open>nva\<close>, the block loop of MD5, the
  padding of SHA-1, \<^verbatim>\<open>SHA256_Update\<close>, \<^verbatim>\<open>ConvertUnicode\<close>) are partial functions to options, and that they return is proved, except for a ring
  of more than 2^31 entries, where it is proved that the search does not. Lengths are restricted where the code restricts them: to the range of \<^verbatim>\<open>int\<close> for frames and Unicode text,
  2^32 bytes for SHA-1 and for a piece of SHA-256, and 2^30 characters for the canonicalizer output.

  \<^bold>\<open>Parameters.\<close> The success of \<^verbatim>\<open>malloc\<close>, the content of fresh memory, the character set converter of a query, and for HTTP/1 the URL parser
  and the decoder of escapes are arguments of the definitions that use them.

  \<^bold>\<open>Not modelled.\<close> Sockets, files, threads, processes, event loops and graphics, which are calls of the operating system, of libev or
  of Qt; the wrappers of compression libraries, of json-c and of OpenSSL; \<^verbatim>\<open>value.cpp\<close>, a hierarchy of heap objects without an
  algorithm; header files of templates (\<^verbatim>\<open>numerics\<close>, \<^verbatim>\<open>optional\<close>, \<^verbatim>\<open>containers\<close>); floating-point numbers in text; the canonicalizers of
  hosts, which need the tables of ICU, and of whole URLs; vendored code.
\<close>

end
